(* ===== verification/Prelude.thy ===== *)
theory Prelude
  imports Main "HOL-Library.Word"
begin

text \<open>
  What the component theories share: names for the machine types of the code (an LP64
  Linux target: \<open>int\<close> has 32 bits, \<open>size_t\<close>, \<open>time_t\<close> and pointers have 64), the
  collections of hints, and generic lemmas on words.
\<close>

unbundle bit_operations_syntax

section \<open>Machine types\<close>

type_synonym u8 = "8 word"
type_synonym u16 = "16 word"
type_synonym u32 = "32 word"
type_synonym u64 = "64 word"

text \<open>A C \<open>int\<close> and an \<open>int64_t\<close> are words too: \<open>sint\<close> reads them, \<open>scast\<close> widens them.\<close>

type_synonym c_int = "32 word"
type_synonym c_long = "64 word"

section \<open>Collections\<close>

named_theorems queue_defs \<open>definitions of the queue components\<close>
named_theorems table_defs \<open>definitions of the keyed tables\<close>
named_theorems word_nat \<open>moving word arithmetic to the naturals\<close>
named_theorems codec_simps \<open>reading back what an encoder wrote\<close>

section \<open>Words\<close>

lemma nat_and_mask [word_nat]: "(n::nat) AND (2 ^ k - 1) = n mod 2 ^ k"
  by (metis mask_eq_exp_minus_1 take_bit_eq_mask take_bit_eq_mod)

lemma unat_and_mask [word_nat]:
  "k < LENGTH('a) \<Longrightarrow> unat ((w::'a::len word) AND (2 ^ k - 1)) = unat w mod 2 ^ k"
  by (metis mask_eq_exp_minus_1 take_bit_eq_mask take_bit_eq_mod unsigned_take_bit_eq)

lemma unat_through_u32 [word_nat]: "unat (ucast (ucast (w::u64) :: u32) :: u64) = unat w mod 2 ^ 32"
  by (simp only: unsigned_ucast_eq take_bit_take_bit) (simp add: take_bit_eq_mod unat_mod)

lemma unat_lt_exp [word_nat]: "unat (w::'a::len word) < 2 ^ LENGTH('a)"
  by (rule unsigned_less)


lemma sint_small: "unat (x::c_int) < 2 ^ 31 \<Longrightarrow> sint x = int (unat x)"
proof -
  assume "unat x < 2 ^ 31"
  then have "int (unat x) < int (2 ^ 31)" by (simp only: of_nat_less_iff)
  then have "uint x < 2 ^ 31" by simp
  then have "signed_take_bit 31 (uint x) = uint x"
    by (intro signed_take_bit_int_eq_self) (auto intro: order_trans [OF _ uint_ge_0])
  then show ?thesis by (simp add: sint_uint)
qed

lemma unat_scast_small: "unat (x::c_int) < 2 ^ 31 \<Longrightarrow> unat (scast x :: u64) = unat x"
proof -
  assume x: "unat x < 2 ^ 31"
  then have "(scast x :: u64) = word_of_int (int (unat x))"
    by (simp only: scast_eq sint_small)
  moreover have "unat x mod 2 ^ 64 = unat x"
    using x by (intro mod_less) simp
  ultimately show ?thesis by (simp only: of_int_of_nat_eq unat_of_nat) simp
qed


lemma sint_minus_small: "unat (x::c_int) < 2 ^ 31 \<Longrightarrow> sint (- x) = - int (unat x)"
proof -
  assume x: "unat x < 2 ^ 31"
  have "- x = word_of_int (- int (unat x))"
    by simp
  then have "sint (- x) = signed_take_bit 31 (- int (unat x))"
    by (simp only: sint_sbintrunc') simp
  also have "\<dots> = - int (unat x)"
  proof (rule signed_take_bit_int_eq_self)
    have "int (unat x) < int (2 ^ 31)" using x by (simp only: of_nat_less_iff)
    then show "- (2 ^ 31) \<le> - int (unat x)" by simp
    show "- int (unat x) < 2 ^ 31" by (rule le_less_trans [of _ 0]) simp_all
  qed
  finally show ?thesis .
qed


lemma sint_nonneg: "0 \<le> sint (v::c_int) \<Longrightarrow> sint v = int (unat v) \<and> unat v < 2 ^ 31"
proof -
  assume "0 \<le> sint v"
  moreover have lt: "sint v < 2 ^ 31" using sint_lt [of v] by simp
  ultimately have "take_bit 32 (sint v) = sint v" by (intro take_bit_int_eq_self) auto
  then have eq: "int (unat v) = sint v" by (simp add: uint_sint)
  have "int (unat v) < int (2 ^ 31)" using lt eq by simp
  then have "unat v < 2 ^ 31" by (simp only: of_nat_less_iff)
  then show ?thesis using eq by simp
qed

lemma unat_plus_one_bounded: "unat (x::'a::len word) + 1 \<le> unat (y::'a word) \<Longrightarrow> unat (x + 1) = unat x + 1"
proof -
  assume "unat x + 1 \<le> unat y"
  then have "unat x + 1 < 2 ^ LENGTH('a)" using unat_lt_exp [of y] by linarith
  moreover have "unat (x + 1) = (unat x + 1) mod 2 ^ LENGTH('a)"
    by (simp add: unat_word_ariths)
  ultimately show ?thesis by (simp only: mod_less)
qed


lemma ucast_up_down_u32: "ucast (ucast (x::u32) :: u64) = x"
  by (rule bit_word_eqI) (simp add: bit_simps)

lemma unat_ucast_octet: "unat (ucast (w::u8) :: u32) = unat w"
  using unat_lt_exp [of w] by (simp only: unsigned_ucast_eq, intro take_bit_nat_eq_self) simp

lemma unat_to_octet: "unat (w::u32) < 256 \<Longrightarrow> unat (ucast w :: u8) = unat w"
  by (simp only: unsigned_ucast_eq, intro take_bit_nat_eq_self) simp

section \<open>Binary logarithms\<close>

text \<open>
  \<open>ceil(log2(n))\<close> as the code computes it, in \<open>double\<close> arithmetic that is exact enough for
  32-bit arguments; also \<open>ceil(log10(n) / log10(2))\<close>.
\<close>

fun ceil_log2 :: "nat \<Rightarrow> nat" where
  "ceil_log2 n = (if n \<le> 1 then 0 else Suc (ceil_log2 ((n + 1) div 2)))"

declare ceil_log2.simps [simp del]

lemma ceil_log2_upper: "n \<le> 2 ^ ceil_log2 n"
proof (induction n rule: ceil_log2.induct)
  case (1 n)
  show ?case
  proof (cases "n \<le> 1")
    case True
    then show ?thesis by (simp add: ceil_log2.simps [of n])
  next
    case False
    with 1 have "(n + 1) div 2 \<le> 2 ^ ceil_log2 ((n + 1) div 2)" by simp
    with False show ?thesis by (simp add: ceil_log2.simps [of n])
  qed
qed

lemma ceil_log2_least: "n \<le> 2 ^ k \<Longrightarrow> ceil_log2 n \<le> k"
proof (induction n arbitrary: k rule: ceil_log2.induct)
  case (1 n)
  show ?case
  proof (cases "n \<le> 1")
    case True
    then show ?thesis by (simp add: ceil_log2.simps [of n])
  next
    case False
    with "1.prems" obtain j where k: "k = Suc j" by (cases k) auto
    with "1.prems" have "(n + 1) div 2 \<le> 2 ^ j" by simp
    from "1.IH" [OF False this] False k show ?thesis by (simp add: ceil_log2.simps [of n])
  qed
qed

lemma ceil_log2_greater: "2 ^ k < n \<Longrightarrow> k < ceil_log2 n"
proof (rule ccontr)
  assume less: "2 ^ k < n" and "\<not> k < ceil_log2 n"
  then have "(2::nat) ^ ceil_log2 n \<le> 2 ^ k" by (simp add: power_increasing)
  with less ceil_log2_upper [of n] show False by linarith
qed

lemma ceil_log2_1 [simp]: "ceil_log2 (Suc 0) = 0"
  by (simp add: ceil_log2.simps)

lemma ceil_log2_le_iff: "ceil_log2 n \<le> k \<longleftrightarrow> n \<le> 2 ^ k"
  using ceil_log2_greater [of k n] ceil_log2_least [of n k] by (auto simp: not_less [symmetric])

section \<open>Octets of words\<close>

text \<open>The memory of a 64-bit integer on the little-endian target, and back.\<close>

definition le_bytes :: "u64 \<Rightarrow> u8 list" where
  "le_bytes x = map (\<lambda>i. ucast (drop_bit (8 * i) x)) [0..<8]"

fun le_word :: "u8 list \<Rightarrow> u64" where
  "le_word [] = 0"
| "le_word (b # bs) = ucast b OR push_bit 8 (le_word bs)"

fun be_word :: "u8 list \<Rightarrow> u64 \<Rightarrow> u64" where
  "be_word [] acc = acc"
| "be_word (b # bs) acc = be_word bs (push_bit 8 acc OR ucast b)"

text \<open>\<open>be64toh\<close> swaps the octets on this target.\<close>

definition be64toh :: "u64 \<Rightarrow> u64" where
  "be64toh x = le_word (rev (le_bytes x))"

section \<open>Septets\<close>

lemma septet_mask: "(0x7f::c_int) = mask 7"
  by (simp add: mask_eq_exp_minus_1)

lemma bit_0x80: "bit (0x80::u8) n \<longleftrightarrow> n = 7" "bit (0x80::c_int) n \<longleftrightarrow> n = 7"
proof -
  have "(0x80::u8) = push_bit 7 1" "(0x80::c_int) = push_bit 7 1" by simp_all
  then show "bit (0x80::u8) n \<longleftrightarrow> n = 7" "bit (0x80::c_int) n \<longleftrightarrow> n = 7"
    by (simp_all only: bit_push_bit_iff bit_1_iff) auto
qed

lemma septet_of_octet:
  "(ucast (0x80 OR (ucast (v::c_int) :: u8)) :: c_int) AND 0x7f = v AND 0x7f"
  "(ucast ((0x80 OR (ucast (v::c_int) :: u8)) AND 0x7f) :: c_int) AND 0x7f = v AND 0x7f"
proof -
  have m: "(0x7f::u8) = mask 7" by (simp add: mask_eq_exp_minus_1)
  show "(ucast (0x80 OR (ucast (v::c_int) :: u8)) :: c_int) AND 0x7f = v AND 0x7f"
    unfolding septet_mask m by (rule bit_word_eqI, simp only: bit_simps bit_0x80) auto
  show "(ucast ((0x80 OR (ucast (v::c_int) :: u8)) AND 0x7f) :: c_int) AND 0x7f = v AND 0x7f"
    unfolding septet_mask m by (rule bit_word_eqI, simp only: bit_simps bit_0x80) auto
qed

lemma flag_bits: "((0x80::u8) OR x) AND 0x80 = 0x80" "(((0x80::u8) OR x) AND 0x7f) AND 0x80 \<noteq> 0x80"
proof -
  have m: "(0x7f::u8) = mask 7" by (simp add: mask_eq_exp_minus_1)
  show "((0x80::u8) OR x) AND 0x80 = 0x80" by (rule bit_word_eqI, simp only: bit_simps bit_0x80) auto
  have "(((0x80::u8) OR x) AND 0x7f) AND 0x80 = 0"
    unfolding m by (rule bit_word_eqI, simp only: bit_simps bit_0x80) auto
  then show "(((0x80::u8) OR x) AND 0x7f) AND 0x80 \<noteq> 0x80" by simp
qed

end
