(* ===== verification/Outcome.thy ===== *)
theory Outcome
  imports Prelude
begin

text \<open>
  What a call of pointer code can do: it returns, it runs into undefined behaviour (an
  access outside a buffer, a shift by the width or more), or it is still running when
  the fuel of the model is used up. Buffers are lists of octets; a pointer is a position.
\<close>

section \<open>Outcomes\<close>

datatype 'a outcome = Returns 'a | Undefined | OutOfFuel

primrec and_then :: "'a outcome \<Rightarrow> ('a \<Rightarrow> 'b outcome) \<Rightarrow> 'b outcome" where
  "and_then (Returns x) f = f x"
| "and_then Undefined f = Undefined"
| "and_then OutOfFuel f = OutOfFuel"

lemma and_then_Returns_iff: "and_then m f = Returns y \<longleftrightarrow> (\<exists>x. m = Returns x \<and> f x = Returns y)"
  by (cases m) auto

lemma and_then_fuel_iff: "and_then m f = OutOfFuel \<longleftrightarrow> m = OutOfFuel \<or> (\<exists>x. m = Returns x \<and> f x = OutOfFuel)"
  by (cases m) auto

lemma and_then_cong [fundef_cong]:
  "m = m' \<Longrightarrow> (\<And>x. m' = Returns x \<Longrightarrow> f x = f' x) \<Longrightarrow> and_then m f = and_then m' f'"
  by (cases m') auto

lemma and_then_assoc: "and_then (and_then m f) g = and_then m (\<lambda>x. and_then (f x) g)"
  by (cases m) auto

definition guard :: "bool \<Rightarrow> 'a outcome \<Rightarrow> 'a outcome" where
  "guard b m = (if b then m else Undefined)"

lemma guard_simps [simp]: "guard True m = m" "guard False m = Undefined"
  by (simp_all add: guard_def)

section \<open>Pointers\<close>

text \<open>A pointer is an address, or \<open>None\<close> for NULL; following NULL, or a member no constructor has set, is undefined.\<close>

definition the_ptr :: "'a option \<Rightarrow> 'a outcome" where
  "the_ptr p = (case p of None \<Rightarrow> Undefined | Some a \<Rightarrow> Returns a)"

lemma the_ptr_simps [simp]: "the_ptr (Some a) = Returns a" "the_ptr None = Undefined"
  by (simp_all add: the_ptr_def)

lemma the_ptr_Returns_iff: "the_ptr p = Returns a \<longleftrightarrow> p = Some a"
  by (simp add: the_ptr_def split: option.split)

section \<open>Buffers\<close>

definition byte_at :: "u8 list \<Rightarrow> nat \<Rightarrow> u8 outcome" where
  "byte_at mem i = (if i < length mem then Returns (mem ! i) else Undefined)"

definition read_bytes :: "u8 list \<Rightarrow> nat \<Rightarrow> nat \<Rightarrow> u8 list outcome" where
  "read_bytes mem i n = (if i + n \<le> length mem then Returns (take n (drop i mem)) else Undefined)"

definition write_bytes :: "u8 list \<Rightarrow> nat \<Rightarrow> u8 list \<Rightarrow> u8 list outcome" where
  "write_bytes mem i bs =
     (if i + length bs \<le> length mem then Returns (take i mem @ bs @ drop (i + length bs) mem) else Undefined)"

lemma byte_at_ok [simp]: "i < length mem \<Longrightarrow> byte_at mem i = Returns (mem ! i)"
  by (simp add: byte_at_def)

lemma byte_at_middle: "byte_at (pre @ b # post) (length pre) = Returns b"
  by (simp add: byte_at_def)

lemma read_bytes_middle:
  "i = length pre \<Longrightarrow> n = length bs \<Longrightarrow> read_bytes (pre @ bs @ post) i n = Returns bs"
  by (simp add: read_bytes_def)

lemma write_bytes_middle:
  "i = length pre \<Longrightarrow> length old = length bs \<Longrightarrow>
    write_bytes (pre @ old @ post) i bs = Returns (pre @ bs @ post)"
  by (simp add: write_bytes_def)

lemma write_bytes_length: "write_bytes mem i bs = Returns mem' \<Longrightarrow> length mem' = length mem"
  by (auto simp: write_bytes_def split: if_splits)

text \<open>The buffer with some of its octets replaced.\<close>

definition overwrite :: "u8 list \<Rightarrow> nat \<Rightarrow> u8 list \<Rightarrow> u8 list" where
  "overwrite mem p bs = take p mem @ bs @ drop (p + length bs) mem"

lemma overwrite_simps [simp]:
  "p + length bs \<le> length mem \<Longrightarrow> length (overwrite mem p bs) = length mem" "overwrite mem p [] = mem"
  by (simp_all add: overwrite_def)

lemma overwrite_append:
  "p + length bs + length cs \<le> length mem \<Longrightarrow> q = p + length bs \<Longrightarrow> overwrite (overwrite mem p bs) q cs = overwrite mem p (bs @ cs)"
  by (cases bs) (auto simp: overwrite_def min_def ac_simps)

lemma overwrite_before:
  "p + length as + length bs \<le> length mem \<Longrightarrow> q = p + length as \<Longrightarrow> overwrite (overwrite mem q bs) p as = overwrite mem p (as @ bs)"
  by (cases as) (auto simp: overwrite_def min_def ac_simps)

lemma write_bytes_overwrite: "p + length bs \<le> length mem \<Longrightarrow> write_bytes mem p bs = Returns (overwrite mem p bs)"
  by (simp add: write_bytes_def overwrite_def)

lemma read_overwritten: "p + length bs \<le> length mem \<Longrightarrow> take (length bs) (drop p (overwrite mem p bs)) = bs"
  by (simp add: overwrite_def)

end
