(* ===== verification/Interfaces.thy ===== *)
theory Interfaces
  imports Outcome "HOL-Library.Multiset"
begin

text \<open>
  The contracts the components of the framework keep, as locales. A component's theory
  interprets them on the code's operations, and the properties use the facts of the
  interpretation.
  \<^item> \<open>fifo\<close>: a bounded queue whose insertion may be refused and whose removal may find
    nothing; the client lemma says what a whole run of operations delivers.
  \<^item> \<open>keyed_table\<close>: a table with lookup, store and delete; the client lemma says that a
    lookup after a run sees the last operation on that key.
  \<^item> \<open>allocator\<close>: a pool that hands out objects and takes them back; the client lemma
    says that a client that returns only what it holds never shares an object.
  \<^item> \<open>round_robin\<close>: a pool that gives the objects of a ring one after the other and never takes
    one back; the client lemma says which object a request gets.
  \<^item> \<open>stepping\<close>: operations that keep an invariant; the client lemma lifts it to runs.
  \<^item> \<open>partial_stepping\<close>: the same for operations that may be undefined; the runs are those in
    which every call is defined.
\<close>

section \<open>Bounded queues\<close>

datatype 'a qop = Enq 'a | Deq

text \<open>
  Running a list of operations collects what was accepted and what was delivered. The
  argument of an insertion may say more than the item (a flush flag, say); \<open>payload\<close>
  reads the item off it.
\<close>

fun queue_run ::
  "('i \<Rightarrow> 'q \<Rightarrow> bool \<times> 'q) \<Rightarrow> ('q \<Rightarrow> 'a option \<times> 'q) \<Rightarrow> 'i qop list \<Rightarrow> 'q
    \<Rightarrow> 'i list \<times> 'a list \<times> 'q" where
  "queue_run enq deq [] q = ([], [], q)"
| "queue_run enq deq (Enq x # ops) q =
     (let (ok, q') = enq x q; (acc, del, q'') = queue_run enq deq ops q'
      in (if ok then x # acc else acc, del, q''))"
| "queue_run enq deq (Deq # ops) q =
     (let (r, q') = deq q; (acc, del, q'') = queue_run enq deq ops q'
      in (acc, (case r of None \<Rightarrow> del | Some x \<Rightarrow> x # del), q''))"

locale fifo =
  fixes payload :: "'i \<Rightarrow> 'a"
    and enq :: "'i \<Rightarrow> 'q \<Rightarrow> bool \<times> 'q"
    and deq :: "'q \<Rightarrow> 'a option \<times> 'q"
    and items :: "'q \<Rightarrow> 'a list"
    and inv :: "'q \<Rightarrow> bool"
  assumes enq_inv: "inv q \<Longrightarrow> inv (snd (enq x q))"
    and deq_inv: "inv q \<Longrightarrow> inv (snd (deq q))"
    and enq_items: "inv q \<Longrightarrow>
      items (snd (enq x q)) = (if fst (enq x q) then items q @ [payload x] else items q)"
    and deq_items: "inv q \<Longrightarrow>
      items q = (case fst (deq q) of None \<Rightarrow> [] | Some x \<Rightarrow> [x]) @ items (snd (deq q))"
begin

lemma run_inv: "inv q \<Longrightarrow> inv (snd (snd (queue_run enq deq ops q)))"
proof (induction ops arbitrary: q)
  case Nil
  then show ?case by simp
next
  case (Cons op ops)
  show ?case
  proof (cases op)
    case (Enq x)
    from Cons.IH [OF enq_inv [OF Cons.prems, of x]] show ?thesis
      by (simp add: Enq Let_def case_prod_beta)
  next
    case Deq
    from Cons.IH [OF deq_inv [OF Cons.prems]] show ?thesis
      by (simp add: Deq Let_def case_prod_beta)
  qed
qed

text \<open>
  What was in the queue and what was accepted comes out in that order: delivered items
  first, the rest is still queued.
\<close>

lemma run_order:
  "inv q \<Longrightarrow> queue_run enq deq ops q = (acc, del, q') \<Longrightarrow>
    items q @ map payload acc = del @ items q'"
proof (induction ops arbitrary: q acc del)
  case Nil
  then show ?case by simp
next
  case (Cons op ops)
  show ?case
  proof (cases op)
    case (Enq x)
    obtain acc' where run: "queue_run enq deq ops (snd (enq x q)) = (acc', del, q')"
      and acc: "acc = (if fst (enq x q) then x # acc' else acc')"
      using Cons.prems(2) by (auto simp: Enq Let_def case_prod_beta prod_eq_iff)
    from Cons.IH [OF enq_inv [OF Cons.prems(1)] run] enq_items [OF Cons.prems(1), of x] acc
    show ?thesis by (auto split: if_splits)
  next
    case Deq
    obtain del' where run: "queue_run enq deq ops (snd (deq q)) = (acc, del', q')"
      and del: "del = (case fst (deq q) of None \<Rightarrow> del' | Some x \<Rightarrow> x # del')"
      using Cons.prems(2) by (auto simp: Deq Let_def case_prod_beta prod_eq_iff)
    from Cons.IH [OF deq_inv [OF Cons.prems(1)] run] deq_items [OF Cons.prems(1)] del
    show ?thesis by (auto split: option.splits)
  qed
qed

corollary run_prefix:
  "inv q \<Longrightarrow> items q = [] \<Longrightarrow> queue_run enq deq ops q = (acc, del, q') \<Longrightarrow> 
    \<exists>rest. map payload acc = del @ rest"
  using run_order by fastforce

end

section \<open>Keyed tables\<close>

datatype ('k, 'v) table_op = Store 'k 'v | Delete 'k

fun table_run ::
  "('k \<Rightarrow> 'v \<Rightarrow> 't \<Rightarrow> 't) \<Rightarrow> ('k \<Rightarrow> 't \<Rightarrow> 't) \<Rightarrow> ('k, 'v) table_op list \<Rightarrow> 't \<Rightarrow> 't" where
  "table_run store delete [] t = t"
| "table_run store delete (Store k v # ops) t = table_run store delete ops (store k v t)"
| "table_run store delete (Delete k # ops) t = table_run store delete ops (delete k t)"

text \<open>The last operation of a run on a key decides what a lookup sees.\<close>

fun last_write :: "'k \<Rightarrow> ('k, 'v) table_op list \<Rightarrow> 'v option \<Rightarrow> 'v option" where
  "last_write k [] d = d"
| "last_write k (Store k' v # ops) d = last_write k ops (if k = k' then Some v else d)"
| "last_write k (Delete k' # ops) d = last_write k ops (if k = k' then None else d)"

locale keyed_table =
  fixes lookup :: "'t \<Rightarrow> 'k \<Rightarrow> 'v option"
    and store :: "'k \<Rightarrow> 'v \<Rightarrow> 't \<Rightarrow> 't"
    and delete :: "'k \<Rightarrow> 't \<Rightarrow> 't"
  assumes lookup_store: "lookup (store k v t) = (lookup t)(k := Some v)"
    and lookup_delete: "lookup (delete k t) = (lookup t)(k := None)"
begin

lemma lookup_run: "lookup (table_run store delete ops t) k = last_write k ops (lookup t k)"
proof (induction ops arbitrary: t)
  case Nil
  show ?case by simp
next
  case (Cons op ops)
  then show ?case by (cases op) (simp_all add: lookup_store lookup_delete)
qed

lemma store_twice: "lookup (store k w (store k v t)) = lookup (store k w t)"
  by (simp add: lookup_store)

lemma store_commute:
  "k \<noteq> k' \<Longrightarrow> lookup (store k v (store k' v' t)) = lookup (store k' v' (store k v t))"
  by (auto simp: lookup_store)

end

section \<open>Runs\<close>

fun run_steps :: "('op \<Rightarrow> 's \<Rightarrow> 's) \<Rightarrow> 'op list \<Rightarrow> 's \<Rightarrow> 's" where
  "run_steps step [] s = s"
| "run_steps step (op # ops) s = run_steps step ops (step op s)"

text \<open>A run of calls that may be undefined has a result if each of them is defined where it is made.\<close>

fun defined_run :: "('op \<Rightarrow> 's \<Rightarrow> 's option) \<Rightarrow> 'op list \<Rightarrow> 's \<Rightarrow> 's option" where
  "defined_run step [] s = Some s"
| "defined_run step (op # ops) s = Option.bind (step op s) (defined_run step ops)"

lemma defined_run_cong:
  "(\<And>op s. op \<in> set ops \<Longrightarrow> f op s = g op s) \<Longrightarrow> defined_run f ops s = defined_run g ops s"
proof (induction ops arbitrary: s)
  case (Cons op ops)
  then show ?case by (cases "g op s") simp_all
qed simp

section \<open>Allocators\<close>

text \<open>
  A client of a pool: it asks for an object, or gives back the one at a position of the
  list of objects it holds. A refused request (\<open>None\<close>) leaves what it holds alone.
\<close>

datatype client_call = Alloc | Free nat

fun client_step ::
  "('p \<Rightarrow> 'o option \<times> 'p) \<Rightarrow> ('o \<Rightarrow> 'p \<Rightarrow> 'p) \<Rightarrow> client_call \<Rightarrow> 'p \<times> 'o list \<Rightarrow> 'p \<times> 'o list" where
  "client_step alloc free Alloc (p, held) =
     (case alloc p of (None, p') \<Rightarrow> (p', held) | (Some x, p') \<Rightarrow> (p', x # held))"
| "client_step alloc free (Free i) (p, held) =
     (if i < length held then (free (held ! i) p, take i held @ drop (Suc i) held) else (p, held))"

lemma mset_remove_nth: "i < length xs \<Longrightarrow> add_mset (xs ! i) (mset (take i xs @ drop (Suc i) xs)) = mset xs"
  by (metis id_take_nth_drop mset.simps(2) mset_append union_mset_add_mset_right)

locale allocator =
  fixes alloc :: "'p \<Rightarrow> 'o option \<times> 'p"
    and free :: "'o \<Rightarrow> 'p \<Rightarrow> 'p"
    and avail :: "'p \<Rightarrow> 'o multiset"
    and total :: "'p \<Rightarrow> 'o multiset"
    and inv :: "'p \<Rightarrow> bool"
  assumes alloc_empty: "inv p \<Longrightarrow> avail p = {#} \<Longrightarrow> alloc p = (None, p)"
    and alloc_some: "inv p \<Longrightarrow> avail p \<noteq> {#} \<Longrightarrow>
      \<exists>x p'. alloc p = (Some x, p') \<and> avail p = add_mset x (avail p') \<and> inv p' \<and> total p' = total p"
    and free_avail: "inv p \<Longrightarrow> x \<in># total p \<Longrightarrow> size (avail p) < size (total p) \<Longrightarrow>
      avail (free x p) = add_mset x (avail p) \<and> inv (free x p) \<and> total (free x p) = total p"
begin

lemma client_step_inv:
  assumes inv: "inv p" and held: "avail p + mset held = total p"
    and eq: "client_step alloc free c (p, held) = (p', held')"
  shows "inv p' \<and> avail p' + mset held' = total p' \<and> total p' = total p"
proof (cases c)
  case Alloc
  show ?thesis
  proof (cases "avail p = {#}")
    case True
    then show ?thesis using alloc_empty [OF inv True] eq held inv by (simp add: Alloc)
  next
    case False
    then obtain x p1 where "alloc p = (Some x, p1)" "avail p = add_mset x (avail p1)" "inv p1"
      "total p1 = total p"
      using alloc_some [OF inv] by blast
    then show ?thesis using eq held by (auto simp: Alloc)
  qed
next
  case (Free i)
  show ?thesis
  proof (cases "i < length held")
    case True
    let ?x = "held ! i" and ?rest = "take i held @ drop (Suc i) held"
    have m: "mset held = add_mset ?x (mset ?rest)" using True by (simp only: mset_remove_nth)
    have "?x \<in># total p" "size (avail p) < size (total p)"
      unfolding held [symmetric] m by simp_all
    from free_avail [OF inv this] show ?thesis
      using True eq held m by (auto simp: Free)
  next
    case False
    then show ?thesis using eq held inv by (simp add: Free)
  qed
qed

lemma client_run_inv:
  "inv p \<Longrightarrow> avail p + mset held = total p \<Longrightarrow>
    run_steps (client_step alloc free) cs (p, held) = (p', held') \<Longrightarrow>
    inv p' \<and> avail p' + mset held' = total p' \<and> total p' = total p"
proof (induction cs arbitrary: p held)
  case Nil
  then show ?case by simp
next
  case (Cons c cs)
  obtain p1 held1 where s: "client_step alloc free c (p, held) = (p1, held1)" by fastforce
  from client_step_inv [OF Cons.prems(1,2) s] Cons.IH [of p1 held1] Cons.prems(3) s
  show ?case by simp
qed

text \<open>From a full pool of distinct objects, the client's objects are pairwise distinct.\<close>

lemma client_no_sharing:
  assumes "inv p" and "avail p = total p" and distinct: "\<And>x. count (total p) x \<le> 1"
    and run: "run_steps (client_step alloc free) cs (p, []) = (p', held)"
  shows "distinct held \<and> set held \<subseteq> set_mset (total p) \<and> (\<forall>x \<in> set held. x \<notin># avail p')"
proof -
  have eq: "avail p' + mset held = total p"
    using client_run_inv [OF assms(1) _ run] assms(2) by simp
  have le: "count (avail p') x + count (mset held) x \<le> 1" for x
    using distinct [of x] by (simp flip: eq)
  then have "count (mset held) x \<le> 1" for x by (meson add_leE)
  moreover have "x \<notin># avail p'" if "x \<in> set held" for x
  proof -
    have "0 < count (mset held) x" using that by simp
    with le [of x] have "count (avail p') x = 0" by linarith
    then show ?thesis by (simp only: not_in_iff)
  qed
  moreover have "set held \<subseteq> set_mset (total p)" by (metis eq set_mset_mset set_mset_union Un_upper2)
  ultimately show ?thesis
    by (metis distinct_count_atmost_1 count_mset count_mset_0_iff le_antisym less_one linorder_not_le
        set_mset_mset not_in_iff)
qed

end

section \<open>Pools that go round\<close>

fun request_many :: "('s \<Rightarrow> ('a \<times> 's) outcome) \<Rightarrow> nat \<Rightarrow> 's \<Rightarrow> ('a list \<times> 's) outcome" where
  "request_many request 0 s = Returns ([], s)"
| "request_many request (Suc k) s =
     and_then (request s) (\<lambda>(a, s). and_then (request_many request k s) (\<lambda>(as, s). Returns (a # as, s)))"

locale round_robin =
  fixes ok :: "'s \<Rightarrow> bool"
    and ring :: "'s \<Rightarrow> 'a list"
    and request :: "'s \<Rightarrow> ('a \<times> 's) outcome"
  assumes ring_not_empty: "ok s \<Longrightarrow> ring s \<noteq> []"
    and request_law: "ok s \<Longrightarrow> \<exists>s'. request s = Returns (hd (ring s), s') \<and> ok s' \<and> ring s' = rotate1 (ring s)"
begin

lemma request_many_ring:
  "ok s \<Longrightarrow> \<exists>s'. request_many request k s = Returns (map (\<lambda>i. ring s ! (i mod length (ring s))) [0..<k], s') \<and> ok s'"
proof (induction k arbitrary: s)
  case 0
  then show ?case by simp
next
  case (Suc k)
  obtain s1 where s1: "request s = Returns (hd (ring s), s1)" "ok s1" "ring s1 = rotate1 (ring s)"
    using request_law [OF Suc.prems] by blast
  let ?r = "ring s"
  have ne: "?r \<noteq> []" using ring_not_empty [OF Suc.prems] .
  have "rotate1 ?r ! (i mod length ?r) = ?r ! (Suc i mod length ?r)" for i
    using ne by (simp add: nth_rotate1 mod_Suc_eq)
  then have "map (\<lambda>i. rotate1 ?r ! (i mod length ?r)) [0..<k] = map (\<lambda>i. ?r ! (Suc i mod length ?r)) [0..<k]" by simp
  moreover obtain s' where "request_many request k s1 = Returns (map (\<lambda>i. rotate1 ?r ! (i mod length ?r)) [0..<k], s')" "ok s'"
    using Suc.IH [OF s1(2)] s1(3) by auto
  moreover have "map (\<lambda>i. ?r ! (i mod length ?r)) [0..<Suc k] = hd ?r # map (\<lambda>i. ?r ! (Suc i mod length ?r)) [0..<k]"
    using ne by (simp add: upt_conv_Cons hd_conv_nth del: upt_Suc flip: map_Suc_upt)
  ultimately show ?case using s1(1) by simp
qed

end

section \<open>Operations that keep an invariant\<close>

locale stepping =
  fixes step :: "'op \<Rightarrow> 's \<Rightarrow> 's"
    and inv :: "'s \<Rightarrow> bool"
  assumes step_inv: "inv s \<Longrightarrow> inv (step op s)"
begin

lemma run_keeps_inv: "inv s \<Longrightarrow> inv (run_steps step ops s)"
  by (induction ops arbitrary: s) (auto intro: step_inv)

end

locale partial_stepping =
  fixes step :: "'op \<Rightarrow> 's \<Rightarrow> 's option"
    and inv :: "'s \<Rightarrow> bool"
  assumes step_inv: "inv s \<Longrightarrow> step op s = Some s' \<Longrightarrow> inv s'"
begin

lemma run_keeps_inv: "inv s \<Longrightarrow> defined_run step ops s = Some s' \<Longrightarrow> inv s'"
  by (induction ops arbitrary: s) (auto simp: bind_eq_Some_conv dest: step_inv)

end

lemma run_steps_append: "run_steps step (xs @ ys) s = run_steps step ys (run_steps step xs s)"
  by (induction xs arbitrary: s) auto

end
