(* ===== verification/Spscq.thy ===== *)
theory Spscq
  imports Interfaces
begin

text \<open>
  \<open>lockfree::SpscQ\<close> of \<^verbatim>\<open>src/spscq/spscq.h\<close>: the lock-free queue between one producer
  and one consumer. The two shadow indices are private to their side; \<open>head\<close> and
  \<open>tail\<close> are what the other side reads. A side publishes its shadow index when it
  crosses a multiple of the watermark (256), the producer also on request
  (\<open>flush_item\<close>). A step of the model is one call of \<open>push\<close> or \<open>pop\<close>: each writes
  indices only its side writes, after the memory barrier, so calls of the two sides
  interleave as whole steps. Not modelled: destruction and the allocation failure of
  \<open>new_spsc\<close>.
\<close>

section \<open>State and operations\<close>

text \<open>A slot no push has written holds the uninitialised pointer of \<open>new T*[QSIZE]\<close>: \<open>None\<close>.\<close>

record 'a SpscQ =
  shadow_head :: u64
  head :: u64
  tail :: u64
  shadow_tail :: u64
  slots :: "'a option list"
  qsize :: nat
  queue_items_mask :: nat
  queue_watermark_mask :: nat

text \<open>The size is a power of two: the exponent is \<open>ceil_log2\<close>.\<close>

definition new_spsc :: "nat \<Rightarrow> 'a SpscQ" where
  "new_spsc n =
     \<lparr>shadow_head = 0, head = 0, tail = of_nat (n - 1), shadow_tail = of_nat (n - 1),
      slots = replicate n None, qsize = n, queue_items_mask = n - 1,
      queue_watermark_mask = 256 - 1\<rparr>"

definition SpscQ_init :: "nat \<Rightarrow> 'a SpscQ" where
  "SpscQ_init n = new_spsc (2 ^ ceil_log2 ((if n < 256 then 256 else n) + 1))"

text \<open>\<open>u_int32_t next = (i + 1) & QUEUE_ITEMS_MASK\<close>, stored back into 64 bits.\<close>

definition next_index :: "'a SpscQ \<Rightarrow> u64 \<Rightarrow> u64" where
  "next_index q i = ucast (ucast ((i + 1) AND of_nat (queue_items_mask q)) :: u32)"

definition at_watermark :: "'a SpscQ \<Rightarrow> u64 \<Rightarrow> bool" where
  "at_watermark q i \<longleftrightarrow> i AND of_nat (queue_watermark_mask q) = 0"

definition SpscQ_pop :: "'a SpscQ \<Rightarrow> c_int \<times> 'a option \<times> 'a SpscQ" where
  "SpscQ_pop q =
     (let next_tail = next_index q (shadow_tail q) in
      if next_tail \<noteq> head q
      then (let item = slots q ! unat next_tail;
                q1 = q\<lparr>shadow_tail := next_tail\<rparr>;
                q2 = (if at_watermark q1 (shadow_tail q1) then q1\<lparr>tail := shadow_tail q1\<rparr> else q1)
            in (0, item, q2))
      else (1, None, q))"

definition SpscQ_push :: "bool \<Rightarrow> 'a \<Rightarrow> 'a SpscQ \<Rightarrow> c_int \<times> 'a SpscQ" where
  "SpscQ_push flush_item item q =
     (let next_head = next_index q (shadow_head q) in
      if tail q \<noteq> next_head
      then (let q1 = q\<lparr>slots := (slots q)[unat (shadow_head q) := Some item]\<rparr>;
                q2 = q1\<lparr>shadow_head := next_head\<rparr>;
                q3 = (if flush_item \<or> at_watermark q2 (shadow_head q2)
                      then q2\<lparr>head := shadow_head q2\<rparr> else q2)
            in (0, q3))
      else (1, q))"

text \<open>The 64-bit difference is returned as an \<open>int\<close>.\<close>

definition SpscQ_size :: "'a SpscQ \<Rightarrow> c_int" where
  "SpscQ_size q =
     (if head q \<ge> tail q then ucast (head q - tail q)
      else ucast (of_nat (qsize q) - (tail q - head q)))"

lemmas [queue_defs] = SpscQ_pop_def SpscQ_push_def next_index_def at_watermark_def

section \<open>The capacity \<open>init\<close> chooses\<close>

section \<open>Unbounded indices behind the stored ones\<close>

text \<open>
  The stored indices are residues of counters that only grow: \<open>T\<close> and \<open>ST\<close> for the
  published and the private consumer index, \<open>H\<close> and \<open>SH\<close> for the producer's. The
  watermark rule says that a private index never crosses a multiple of 256 unpublished.
\<close>

definition spsc_counters :: "nat \<Rightarrow> nat \<Rightarrow> nat \<Rightarrow> nat \<Rightarrow> 'a SpscQ \<Rightarrow> bool" where
  "spsc_counters T ST H SH q \<longleftrightarrow>
     (\<exists>k. 9 \<le> k \<and> k \<le> 30 \<and> qsize q = 2 ^ k) \<and>
     queue_items_mask q = qsize q - 1 \<and> queue_watermark_mask q = 255 \<and>
     length (slots q) = qsize q \<and>
     unat (tail q) = T mod qsize q \<and> unat (shadow_tail q) = ST mod qsize q \<and>
     unat (head q) = H mod qsize q \<and> unat (shadow_head q) = SH mod qsize q \<and>
     T \<le> ST \<and> ST < H \<and> H \<le> SH \<and> SH < T + qsize q \<and>
     (\<forall>m. T < m \<and> m \<le> ST \<longrightarrow> \<not> 256 dvd m) \<and>
     (\<forall>m. H < m \<and> m \<le> SH \<longrightarrow> \<not> 256 dvd m) \<and>
     (\<forall>i. ST < i \<and> i < SH \<longrightarrow> slots q ! (i mod qsize q) \<noteq> None)"

definition spsc_inv :: "'a SpscQ \<Rightarrow> bool" where
  "spsc_inv q \<longleftrightarrow> (\<exists>T ST H SH. spsc_counters T ST H SH q)"

text \<open>The items between the private indices, oldest first.\<close>

definition ring_dist :: "nat \<Rightarrow> nat \<Rightarrow> nat \<Rightarrow> nat" where
  "ring_dist n a b = (a + n - b) mod n"

definition SpscQ_contents :: "'a SpscQ \<Rightarrow> 'a list" where
  "SpscQ_contents q =
     map (\<lambda>i. the (slots q ! ((unat (shadow_tail q) + 1 + i) mod qsize q)))
       [0..<ring_dist (qsize q) (unat (shadow_head q)) (unat (shadow_tail q)) - 1]"

lemma ring_dist_mod:
  assumes "b \<le> a" and "a - b < n"
  shows "ring_dist n (a mod n) (b mod n) = a - b"
proof -
  define d r where "d = a - b" and "r = b mod n"
  have d: "d < n" and r: "r < n" and a: "a = b + d"
    using assms by (auto simp: d_def r_def)
  have am: "a mod n = (r + d) mod n" by (simp add: a r_def mod_add_left_eq)
  have "((r + d) mod n + n - r) mod n = d"
  proof (cases "r + d < n")
    case True
    then show ?thesis using d by simp
  next
    case False
    with d r have "(r + d) mod n = r + d - n" by (simp add: le_mod_geq)
    with False d show ?thesis by simp
  qed
  then show ?thesis by (simp add: ring_dist_def am d_def r_def)
qed

lemma ring_dist_le: "b \<le> a \<Longrightarrow> a < n \<Longrightarrow> ring_dist n a b = a - b"
  using ring_dist_mod [of b a n] by simp

lemma contents_counters:
  assumes "spsc_counters T ST H SH q"
  shows "SpscQ_contents q = map (\<lambda>i. the (slots q ! (i mod qsize q))) [Suc ST..<SH]"
proof -
  let ?n = "qsize q"
  have le: "ST < SH" "SH - ST < ?n"
    and st: "unat (shadow_tail q) = ST mod ?n" and sh: "unat (shadow_head q) = SH mod ?n"
    using assms by (auto simp: spsc_counters_def)
  have d: "ring_dist ?n (SH mod ?n) (ST mod ?n) = SH - ST"
    using le by (intro ring_dist_mod) auto
  have idx: "(ST mod ?n + 1 + i) mod ?n = (Suc ST + i) mod ?n" for i
    by (metis add.assoc add_Suc mod_add_left_eq plus_1_eq_Suc add.commute)
  show ?thesis
    unfolding SpscQ_contents_def st sh d idx
    using le by (intro nth_equalityI) (auto simp: add.commute)
qed

lemma next_index_counters:
  assumes q: "spsc_counters T ST H SH q" and i: "unat i = c mod qsize q"
  shows "unat (next_index q i) = Suc c mod qsize q"
proof -
  obtain k where k: "k \<le> 30" "qsize q = 2 ^ k" and m: "queue_items_mask q = 2 ^ k - 1"
    using q by (auto simp: spsc_counters_def)
  have ik: "unat i < 2 ^ k" using i k by simp
  have big: "(2::nat) ^ k \<le> 2 ^ 30" using k(1) by (rule power_increasing) simp
  have "(of_nat (queue_items_mask q) :: u64) = 2 ^ k - 1"
    by (simp add: m)
  then have "unat ((i + 1) AND of_nat (queue_items_mask q)) = unat (i + 1) mod 2 ^ k"
    using k by (simp add: unat_and_mask)
  also have "unat (i + 1) = unat i + 1"
    using ik big by (subst unat_plus_simple [THEN iffD1])
      (auto simp: word_le_nat_alt unat_word_ariths)
  also have "(unat i + 1) mod 2 ^ k = Suc c mod 2 ^ k"
    using i k by (simp add: mod_Suc_eq)
  finally have "unat ((i + 1) AND of_nat (queue_items_mask q)) = Suc c mod 2 ^ k" .
  moreover have "Suc c mod 2 ^ k < 2 ^ 32"
    by (rule less_le_trans [OF mod_less_divisor order_trans [OF big]]) auto
  ultimately show ?thesis
    using k by (simp add: next_index_def unat_through_u32)
qed

lemma at_watermark_counters:
  assumes "spsc_counters T ST H SH q" and i: "unat i = c mod qsize q"
  shows "at_watermark q i \<longleftrightarrow> 256 dvd c"
proof -
  obtain k where k: "9 \<le> k" "qsize q = 2 ^ k" and m: "queue_watermark_mask q = 2 ^ 8 - 1"
    using assms by (auto simp: spsc_counters_def)
  have w: "(of_nat (queue_watermark_mask q) :: u64) = 2 ^ 8 - 1"
    by (simp add: m)
  have "unat (i AND of_nat (queue_watermark_mask q)) = unat i mod 2 ^ 8"
    unfolding w by (rule unat_and_mask) simp
  also have "\<dots> = c mod 2 ^ 8"
    using i k le_imp_power_dvd [OF order_trans [OF _ k(1)], of 8 "2::nat"]
    by (simp add: mod_mod_cancel)
  finally show ?thesis
    by (simp add: at_watermark_def unat_eq_0 [symmetric] dvd_eq_mod_eq_0)
qed

section \<open>One call\<close>

text \<open>The index updates of the two calls, on the counters.\<close>

lemma residue_eq_iff:
  "b \<le> a \<Longrightarrow> a \<le> b + n \<Longrightarrow> 0 < n \<Longrightarrow> a mod n = b mod (n::nat) \<longleftrightarrow> a = b \<or> a = b + n"
  by (metis add.commute diff_le_self dvd_imp_le le_add_diff_inverse le_antisym mod_add_self2
      mod_eq_dvd_iff_nat ordered_cancel_comm_monoid_diff_class.diff_add_assoc nat_dvd_not_less
      zero_less_diff add_le_cancel_left le_neq_implies_less)

lemma pop_empty_iff:
  assumes q: "spsc_counters T ST H SH q"
  shows "next_index q (shadow_tail q) = head q \<longleftrightarrow> Suc ST = H"
proof -
  have b: "Suc ST \<le> H" "H < Suc ST + qsize q" and h: "unat (head q) = H mod qsize q"
    and st: "unat (shadow_tail q) = ST mod qsize q"
    using q by (auto simp: spsc_counters_def)
  have "next_index q (shadow_tail q) = head q \<longleftrightarrow> H mod qsize q = Suc ST mod qsize q"
    by (metis h next_index_counters [OF q st] unsigned_word_eqI)
  also have "\<dots> \<longleftrightarrow> H = Suc ST"
    using b residue_eq_iff [of "Suc ST" H "qsize q"] by auto
  finally show ?thesis by auto
qed

lemma push_full_iff:
  assumes q: "spsc_counters T ST H SH q"
  shows "tail q = next_index q (shadow_head q) \<longleftrightarrow> Suc SH = T + qsize q"
proof -
  have b: "T < Suc SH" "Suc SH \<le> T + qsize q" and t: "unat (tail q) = T mod qsize q"
    and sh: "unat (shadow_head q) = SH mod qsize q"
    using q by (auto simp: spsc_counters_def)
  have "tail q = next_index q (shadow_head q) \<longleftrightarrow> Suc SH mod qsize q = T mod qsize q"
    by (metis t next_index_counters [OF q sh] unsigned_word_eqI)
  also have "\<dots> \<longleftrightarrow> Suc SH = T + qsize q"
    using b residue_eq_iff [of T "Suc SH" "qsize q"] by auto
  finally show ?thesis .
qed

lemma push_counters:
  assumes q: "spsc_counters T ST H SH q" and room: "Suc SH \<noteq> T + qsize q"
  shows "fst (SpscQ_push f x q) = 0"
    and "spsc_counters T ST (if f \<or> 256 dvd Suc SH then Suc SH else H) (Suc SH)
      (snd (SpscQ_push f x q))"
    and "slots (snd (SpscQ_push f x q)) = (slots q)[SH mod qsize q := Some x]"
    and "qsize (snd (SpscQ_push f x q)) = qsize q"
proof -
  let ?n = "qsize q" and ?i = "next_index q (shadow_head q)"
  have sh: "unat (shadow_head q) = SH mod ?n" using q by (simp add: spsc_counters_def)
  have i: "unat ?i = Suc SH mod ?n" by (rule next_index_counters [OF q sh])
  have go: "tail q \<noteq> ?i" using push_full_iff [OF q] room by simp
  have mark: "at_watermark r ?i \<longleftrightarrow> 256 dvd Suc SH"
    if "queue_watermark_mask r = queue_watermark_mask q" for r :: "'a SpscQ"
    using at_watermark_counters [OF q i] that by (simp add: at_watermark_def)
  show "fst (SpscQ_push f x q) = 0" using go by (simp add: SpscQ_push_def Let_def)
  show slots: "slots (snd (SpscQ_push f x q)) = (slots q)[SH mod ?n := Some x]"
    using go sh by (simp add: SpscQ_push_def Let_def)
  show "qsize (snd (SpscQ_push f x q)) = ?n"
    using go by (simp add: SpscQ_push_def Let_def)
  have written: "((slots q)[SH mod ?n := Some x]) ! (j mod ?n) \<noteq> None"
    if "ST < j" "j < Suc SH" for j
  proof (cases "j = SH")
    case True
    then show ?thesis using q by (auto simp: spsc_counters_def)
  next
    case False
    with that have j: "ST < j" "j < SH" by auto
    moreover have "j mod ?n \<noteq> SH mod ?n"
      using j q residue_eq_iff [of j SH ?n] by (auto simp: spsc_counters_def)
    ultimately show ?thesis using q by (auto simp: spsc_counters_def)
  qed
  show "spsc_counters T ST (if f \<or> 256 dvd Suc SH then Suc SH else H) (Suc SH)
      (snd (SpscQ_push f x q))"
    using go i q room written slots
    by (auto simp: SpscQ_push_def Let_def spsc_counters_def mark le_Suc_eq)
qed

lemma push_full:
  assumes q: "spsc_counters T ST H SH q" and full: "Suc SH = T + qsize q"
  shows "SpscQ_push f x q = (1, q)"
  using push_full_iff [OF q] full by (simp add: SpscQ_push_def)

lemma pop_counters:
  assumes q: "spsc_counters T ST H SH q" and some: "Suc ST \<noteq> H"
  shows "fst (SpscQ_pop q) = 0"
    and "fst (snd (SpscQ_pop q)) = slots q ! (Suc ST mod qsize q)"
    and "spsc_counters (if 256 dvd Suc ST then Suc ST else T) (Suc ST) H SH
      (snd (snd (SpscQ_pop q)))"
    and "slots (snd (snd (SpscQ_pop q))) = slots q"
    and "qsize (snd (snd (SpscQ_pop q))) = qsize q"
proof -
  let ?n = "qsize q" and ?i = "next_index q (shadow_tail q)"
  have st: "unat (shadow_tail q) = ST mod ?n" using q by (simp add: spsc_counters_def)
  have i: "unat ?i = Suc ST mod ?n" by (rule next_index_counters [OF q st])
  have go: "?i \<noteq> head q" using pop_empty_iff [OF q] some by simp
  have mark: "at_watermark r ?i \<longleftrightarrow> 256 dvd Suc ST"
    if "queue_watermark_mask r = queue_watermark_mask q" for r :: "'a SpscQ"
    using at_watermark_counters [OF q i] that by (simp add: at_watermark_def)
  show "fst (SpscQ_pop q) = 0" using go by (simp add: SpscQ_pop_def Let_def)
  show "fst (snd (SpscQ_pop q)) = slots q ! (Suc ST mod ?n)"
    using go i by (simp add: SpscQ_pop_def Let_def)
  show "slots (snd (snd (SpscQ_pop q))) = slots q"
    using go by (simp add: SpscQ_pop_def Let_def)
  show "qsize (snd (snd (SpscQ_pop q))) = ?n"
    using go by (simp add: SpscQ_pop_def Let_def)
  show "spsc_counters (if 256 dvd Suc ST then Suc ST else T) (Suc ST) H SH
      (snd (snd (SpscQ_pop q)))"
    using go i q some
    by (auto simp: SpscQ_pop_def Let_def spsc_counters_def mark le_Suc_eq)
qed

lemma pop_empty:
  assumes q: "spsc_counters T ST H SH q" and none: "Suc ST = H"
  shows "SpscQ_pop q = (1, None, q)"
  using pop_empty_iff [OF q] none by (simp add: SpscQ_pop_def)

section \<open>The queue keeps the contract of a FIFO\<close>

definition spsc_enq :: "bool \<times> 'a \<Rightarrow> 'a SpscQ \<Rightarrow> bool \<times> 'a SpscQ" where
  "spsc_enq fx q = (case SpscQ_push (fst fx) (snd fx) q of (r, q') \<Rightarrow> (r = 0, q'))"

definition spsc_deq :: "'a SpscQ \<Rightarrow> 'a option \<times> 'a SpscQ" where
  "spsc_deq q = (case SpscQ_pop q of (r, item, q') \<Rightarrow> (if r = 0 then item else None, q'))"

lemma contents_push:
  assumes q: "spsc_counters T ST H SH q" and room: "Suc SH \<noteq> T + qsize q"
  shows "SpscQ_contents (snd (SpscQ_push f x q)) = SpscQ_contents q @ [x]"
proof -
  let ?n = "qsize q"
  have le: "ST < SH" "SH < ST + ?n" "length (slots q) = ?n" "SH mod ?n < ?n"
    using q by (auto simp: spsc_counters_def)
  have old: "(slots q)[SH mod ?n := Some x] ! (i mod ?n) = slots q ! (i mod ?n)"
    if "Suc ST \<le> i" "i < SH" for i
    using that le residue_eq_iff [of i SH ?n] by (auto simp: nth_list_update)
  have "SpscQ_contents (snd (SpscQ_push f x q)) =
      map (\<lambda>i. the ((slots q)[SH mod ?n := Some x] ! (i mod ?n))) [Suc ST..<Suc SH]"
    using contents_counters [OF push_counters(2) [OF q room]] push_counters(3,4) [OF q room]
    by metis
  also have "\<dots> = map (\<lambda>i. the (slots q ! (i mod ?n))) [Suc ST..<SH] @ [x]"
    using le old by simp
  finally show ?thesis by (simp add: contents_counters [OF q])
qed

lemma contents_pop:
  assumes q: "spsc_counters T ST H SH q" and some: "Suc ST \<noteq> H"
  obtains x where "fst (snd (SpscQ_pop q)) = Some x"
    and "SpscQ_contents q = x # SpscQ_contents (snd (snd (SpscQ_pop q)))"
proof -
  let ?n = "qsize q"
  have less: "Suc ST < SH" using q some by (auto simp: spsc_counters_def)
  then obtain x where x: "slots q ! (Suc ST mod ?n) = Some x"
    using q by (auto simp: spsc_counters_def)
  have "SpscQ_contents (snd (snd (SpscQ_pop q))) =
      map (\<lambda>i. the (slots q ! (i mod ?n))) [Suc (Suc ST)..<SH]"
    using contents_counters [OF pop_counters(3) [OF q some]] pop_counters(4,5) [OF q some]
    by metis
  moreover have "SpscQ_contents q =
      the (slots q ! (Suc ST mod ?n)) # map (\<lambda>i. the (slots q ! (i mod ?n))) [Suc (Suc ST)..<SH]"
    using less by (simp add: contents_counters [OF q] upt_conv_Cons)
  ultimately show ?thesis
    using that x pop_counters(2) [OF q some] by simp
qed

lemma spsc_inv_push: "spsc_inv q \<Longrightarrow> spsc_inv (snd (SpscQ_push f x q))"
  unfolding spsc_inv_def by (metis push_counters(2) push_full snd_conv)

lemma spsc_inv_pop: "spsc_inv q \<Longrightarrow> spsc_inv (snd (snd (SpscQ_pop q)))"
  unfolding spsc_inv_def by (metis pop_counters(3) pop_empty snd_conv)

interpretation spsc: fifo snd spsc_enq spsc_deq SpscQ_contents spsc_inv
proof unfold_locales
  fix q :: "'a SpscQ" and fx :: "bool \<times> 'a"
  assume inv: "spsc_inv q"
  then obtain T ST H SH where q: "spsc_counters T ST H SH q" by (auto simp: spsc_inv_def)
  show "spsc_inv (snd (spsc_enq fx q))"
    using spsc_inv_push [OF inv] by (simp add: spsc_enq_def case_prod_beta)
  show "spsc_inv (snd (spsc_deq q))"
    using spsc_inv_pop [OF inv] by (simp add: spsc_deq_def case_prod_beta)
  show "SpscQ_contents (snd (spsc_enq fx q)) =
      (if fst (spsc_enq fx q) then SpscQ_contents q @ [snd fx] else SpscQ_contents q)"
    using push_full [OF q] push_counters(1) [OF q] contents_push [OF q]
    by (cases "Suc SH = T + qsize q") (auto simp: spsc_enq_def case_prod_beta)
  show "SpscQ_contents q = (case fst (spsc_deq q) of None \<Rightarrow> [] | Some x \<Rightarrow> [x]) @
      SpscQ_contents (snd (spsc_deq q))"
  proof (cases "Suc ST = H")
    case True
    then show ?thesis using pop_empty [OF q] by (simp add: spsc_deq_def)
  next
    case False
    obtain x where "fst (snd (SpscQ_pop q)) = Some x"
      and "SpscQ_contents q = x # SpscQ_contents (snd (snd (SpscQ_pop q)))"
      by (rule contents_pop [OF q False])
    then show ?thesis
      using pop_counters(1) [OF q False] by (simp add: spsc_deq_def case_prod_beta)
  qed
qed

section \<open>The state after \<open>init\<close>\<close>

lemma init_exponent:
  assumes "n < 2 ^ 30"
  obtains k where "9 \<le> k" "k \<le> 30" "qsize (SpscQ_init n :: 'a SpscQ) = 2 ^ k" "n < 2 ^ k"
proof
  let ?m = "(if n < 256 then 256 else n) + 1" and ?k = "ceil_log2 ((if n < 256 then 256 else n) + 1)"
  have "(2::nat) ^ 8 < ?m" by auto
  then show "9 \<le> ?k" using ceil_log2_greater by fastforce
  show "?k \<le> 30" using assms by (intro ceil_log2_least) auto
  show "qsize (SpscQ_init n :: 'a SpscQ) = 2 ^ ?k" by (simp add: SpscQ_init_def new_spsc_def)
  have "n < ?m" by auto
  also have "\<dots> \<le> 2 ^ ?k" by (rule ceil_log2_upper)
  finally show "n < 2 ^ ?k" .
qed

lemma new_spsc_counters:
  assumes k: "9 \<le> k" "k \<le> 30" and n: "n = 2 ^ k"
  shows "spsc_counters (n - 1) (n - 1) n n (new_spsc n)"
proof -
  have "n \<le> 2 ^ 30" unfolding n using k(2) by (rule power_increasing) simp
  then have "(n - 1) mod 2 ^ 64 = n - 1" by (intro mod_less) simp
  then have "unat (of_nat (n - 1) :: u64) = n - 1" by (simp add: unat_of_nat)
  moreover have "512 \<le> n" using power_increasing [OF k(1), of "2::nat"] n by simp
  moreover have "\<exists>j. 9 \<le> j \<and> j \<le> 30 \<and> n = 2 ^ j" using k n by blast
  ultimately show ?thesis
    by (auto simp: spsc_counters_def new_spsc_def)
qed

lemma init_counters:
  fixes q :: "'a SpscQ"
  assumes n: "n < 2 ^ 30" and q: "q = SpscQ_init n"
  shows "spsc_counters (qsize q - 1) (qsize q - 1) (qsize q) (qsize q) q"
proof -
  obtain k where k: "9 \<le> k" "k \<le> 30" "qsize (SpscQ_init n :: 'a SpscQ) = 2 ^ k"
    using init_exponent [OF n] by metis
  moreover have "SpscQ_init n = new_spsc (qsize (SpscQ_init n :: 'a SpscQ))"
    by (simp add: SpscQ_init_def new_spsc_def)
  ultimately show ?thesis
    unfolding q by (metis new_spsc_counters)
qed

lemma init_inv: "n < 2 ^ 30 \<Longrightarrow> spsc_inv (SpscQ_init n)"
  using init_counters unfolding spsc_inv_def by blast

lemma init_contents: "n < 2 ^ 30 \<Longrightarrow> SpscQ_contents (SpscQ_init n) = []"
  by (subst contents_counters [OF init_counters [OF _ refl]]) auto

section \<open>Progress\<close>

text \<open>
  If the consumer finds nothing and the producer finds no room at the same moment, no
  further call can change the queue. The published indices lag at most 255 behind, so
  this needs both lags and exactly 512 slots; after a flushing push there is no
  producer lag, and 512 slots are enough.
\<close>

lemma watermark_lag:
  assumes "a \<le> b" and "\<forall>m. a < m \<and> m \<le> b \<longrightarrow> \<not> (256::nat) dvd m"
  shows "b - a \<le> 255"
proof (rule ccontr)
  assume far: "\<not> b - a \<le> 255"
  have "256 * (b div 256) = b - b mod 256" by (simp add: minus_mod_eq_mult_div)
  moreover have "b mod 256 < 256" by simp
  ultimately have "a < 256 * (b div 256)" "256 * (b div 256) \<le> b"
    using far by linarith+
  with assms(2) show False using dvd_triv_left by blast
qed

lemma stuck_counters:
  assumes q: "spsc_counters T ST H SH q" and empty: "Suc ST = H" and full: "Suc SH = T + qsize q"
  shows "qsize q = 512" and "SH - H = 255"
proof -
  have lag: "ST - T \<le> 255" "SH - H \<le> 255"
    using q by (auto simp: spsc_counters_def intro!: watermark_lag)
  have ord: "T \<le> ST" "H \<le> SH" and "512 \<le> qsize q"
  proof -
    show "T \<le> ST" "H \<le> SH" using q by (auto simp: spsc_counters_def)
    obtain k where "9 \<le> k" "qsize q = 2 ^ k" using q by (auto simp: spsc_counters_def)
    then show "512 \<le> qsize q" using power_increasing [of 9 k "2::nat"] by simp
  qed
  with lag empty full show "qsize q = 512" "SH - H = 255" by linarith+
qed

lemma pop_fails_iff: "spsc_counters T ST H SH q \<Longrightarrow> fst (SpscQ_pop q) = 1 \<longleftrightarrow> Suc ST = H"
  by (cases "Suc ST = H") (simp_all add: pop_empty pop_counters(1))

lemma push_fails_iff:
  "spsc_counters T ST H SH q \<Longrightarrow> fst (SpscQ_push f x q) = 1 \<longleftrightarrow> Suc SH = T + qsize q"
  by (cases "Suc SH = T + qsize q") (simp_all add: push_full push_counters(1))

lemma qsize_push: "spsc_inv q \<Longrightarrow> qsize (snd (SpscQ_push f x q)) = qsize q"
  by (auto simp: SpscQ_push_def Let_def)

lemma qsize_pop: "qsize (snd (snd (SpscQ_pop q))) = qsize q"
  by (auto simp: SpscQ_pop_def Let_def)

text \<open>Runs of calls, as one state transformer per call.\<close>

datatype 'a spsc_call = Push bool 'a | Pop

fun spsc_step :: "'a spsc_call \<Rightarrow> 'a SpscQ \<Rightarrow> 'a SpscQ" where
  "spsc_step (Push f x) q = snd (SpscQ_push f x q)"
| "spsc_step Pop q = snd (snd (SpscQ_pop q))"

fun flushing :: "'a spsc_call \<Rightarrow> bool" where
  "flushing (Push f x) = f"
| "flushing Pop = True"

interpretation spsc_steps: stepping spsc_step spsc_inv
proof
  fix q :: "'a SpscQ" and c :: "'a spsc_call"
  assume "spsc_inv q"
  then show "spsc_inv (spsc_step c q)"
    by (cases c) (simp_all add: spsc_inv_push spsc_inv_pop)
qed

lemma qsize_step: "qsize (spsc_step c q) = qsize q"
  by (cases c) (auto simp: SpscQ_push_def SpscQ_pop_def Let_def)

lemma qsize_run: "qsize (run_steps spsc_step cs q) = qsize q"
  by (induction cs arbitrary: q) (simp_all add: qsize_step)

text \<open>With flushing pushes only, everything pushed is published.\<close>

lemma flushed_step:
  assumes inv: "spsc_inv q" and eq: "head q = shadow_head q" and fl: "flushing c"
  shows "head (spsc_step c q) = shadow_head (spsc_step c q)"
  using eq fl by (cases c) (auto simp: SpscQ_push_def SpscQ_pop_def Let_def)

lemma flushed_run:
  "spsc_inv q \<Longrightarrow> head q = shadow_head q \<Longrightarrow> list_all flushing cs \<Longrightarrow>
    head (run_steps spsc_step cs q) = shadow_head (run_steps spsc_step cs q)"
  by (induction cs arbitrary: q) (auto intro: flushed_step spsc_steps.step_inv)

lemma flushed_counters:
  assumes q: "spsc_counters T ST H SH q" and eq: "head q = shadow_head q"
  shows "H = SH"
proof -
  have "H mod qsize q = SH mod qsize q" using q eq by (simp add: spsc_counters_def)
  moreover have "H \<le> SH" "SH < H + qsize q" using q by (auto simp: spsc_counters_def)
  ultimately show ?thesis using residue_eq_iff [of H SH "qsize q"] by (cases "qsize q") auto
qed

lemma not_stuck:
  assumes inv: "spsc_inv q" and ok: "head q = shadow_head q \<or> qsize q \<noteq> 512"
  shows "fst (SpscQ_pop q) = 0 \<or> fst (SpscQ_push f x q) = 0"
proof -
  obtain T ST H SH where q: "spsc_counters T ST H SH q" using inv by (auto simp: spsc_inv_def)
  consider "Suc ST \<noteq> H" | "Suc SH \<noteq> T + qsize q" | "Suc ST = H" "Suc SH = T + qsize q" by blast
  then show ?thesis
  proof cases
    case 3
    from stuck_counters [OF q 3] ok flushed_counters [OF q] show ?thesis by auto
  qed (simp_all add: pop_counters(1) [OF q] push_counters(1) [OF q])
qed

text \<open>A run that sticks: no push flushes.\<close>

lemma last_multiple:
  "(if 256 dvd Suc m then Suc m else 256 * (m div 256)) = 256 * (Suc m div 256)"
proof (cases "256 dvd Suc m")
  case True
  then show ?thesis by (simp only: if_True dvd_mult_div_cancel)
next
  case False
  then have "Suc m div 256 = m div 256" by (simp add: div_Suc dvd_eq_mod_eq_0)
  with False show ?thesis by simp
qed

lemma unflushed_pushes:
  "spsc_counters T ST (256 * (SH div 256)) SH q \<Longrightarrow> SH + k < T + qsize q \<Longrightarrow>
    spsc_counters T ST (256 * ((SH + k) div 256)) (SH + k)
      (run_steps spsc_step (replicate k (Push False x)) q)"
proof (induction k arbitrary: SH q)
  case 0
  then show ?case by simp
next
  case (Suc k)
  have room: "Suc SH \<noteq> T + qsize q" using Suc.prems(2) by simp
  have H: "(if False \<or> 256 dvd Suc SH then Suc SH else 256 * (SH div 256)) = 256 * (Suc SH div 256)"
    using last_multiple [of SH] by simp
  have "spsc_counters T ST (256 * (Suc SH div 256)) (Suc SH) (snd (SpscQ_push False x q))"
    using push_counters(2) [OF Suc.prems(1) room, of False x] unfolding H .
  then have "spsc_counters T ST (256 * ((Suc SH + k) div 256)) (Suc SH + k)
      (run_steps spsc_step (replicate k (Push False x)) (snd (SpscQ_push False x q)))"
    using Suc.prems push_counters(4) [OF Suc.prems(1) room] by (intro Suc.IH) simp_all
  then show ?case by simp
qed

lemma pops:
  "spsc_counters (256 * (ST div 256)) ST H SH q \<Longrightarrow> ST + k < H \<Longrightarrow>
    spsc_counters (256 * ((ST + k) div 256)) (ST + k) H SH (run_steps spsc_step (replicate k Pop) q)"
proof (induction k arbitrary: ST q)
  case 0
  then show ?case by simp
next
  case (Suc k)
  have some: "Suc ST \<noteq> H" using Suc.prems(2) by simp
  have "spsc_counters (256 * (Suc ST div 256)) (Suc ST) H SH (snd (snd (SpscQ_pop q)))"
    using pop_counters(3) [OF Suc.prems(1) some] unfolding last_multiple .
  then have "spsc_counters (256 * ((Suc ST + k) div 256)) (Suc ST + k) H SH
      (run_steps spsc_step (replicate k Pop) (snd (snd (SpscQ_pop q))))"
    using Suc.prems by (intro Suc.IH) simp_all
  then show ?case by simp
qed

definition stuck_run :: "'a \<Rightarrow> 'a spsc_call list" where
  "stuck_run x = replicate 510 (Push False x) @ replicate 256 Pop @ [Push False x]"

lemma stuck_run_counters:
  fixes q :: "'a SpscQ"
  assumes q: "q = new_spsc 512"
  shows "spsc_counters 512 767 768 1023 (run_steps spsc_step (stuck_run x) q)"
proof -
  have q0: "spsc_counters 511 511 512 512 q"
    using new_spsc_counters [of 9 512] by (simp add: q)
  have n: "qsize (run_steps spsc_step cs q) = 512" for cs
    by (simp add: qsize_run q new_spsc_def)
  let ?q1 = "run_steps spsc_step (replicate 510 (Push False x)) q"
  have q1: "spsc_counters 511 511 768 1022 ?q1"
    using unflushed_pushes [of 511 511 512 q 510 x] q0 n [of "[]"] by simp
  let ?q2 = "snd (snd (SpscQ_pop ?q1))"
  have q2: "spsc_counters 512 512 768 1022 ?q2"
    using pop_counters(3) [OF q1] by simp
  let ?q3 = "run_steps spsc_step (replicate 255 Pop) ?q2"
  have q3: "spsc_counters 512 767 768 1022 ?q3"
    using pops [of 512 768 1022 ?q2 255] q2 by simp
  have "qsize ?q3 = 512" by (simp add: qsize_run qsize_pop q new_spsc_def)
  then have q4: "spsc_counters 512 767 768 1023 (snd (SpscQ_push False x ?q3))"
    using push_counters(2) [OF q3, of False x] by simp
  have "replicate 256 (Pop :: 'a spsc_call) = Pop # replicate 255 Pop"
    by (simp only: replicate_Suc [symmetric]) simp
  then have "run_steps spsc_step (stuck_run x) q = snd (SpscQ_push False x ?q3)"
    by (simp only: stuck_run_def run_steps_append run_steps.simps spsc_step.simps)
  with q4 show ?thesis by simp
qed

lemma ceil_log2_257: "ceil_log2 257 = 9"
  by (simp add: ceil_log2.simps)

lemma init_256: "SpscQ_init 256 = new_spsc 512"
  by (simp add: SpscQ_init_def ceil_log2_257)

lemma size_counters:
  assumes q: "spsc_counters T ST H SH q"
  shows "unat (SpscQ_size q) = H - T"
proof -
  let ?n = "qsize q"
  obtain k where k: "k \<le> 30" "?n = 2 ^ k" using q by (auto simp: spsc_counters_def)
  have k30: "(2::nat) ^ k \<le> 2 ^ 30" using k(1) by (rule power_increasing) simp
  then have n64: "?n < 2 ^ 64" using k by simp
  then have n: "unat (of_nat ?n :: u64) = ?n" by (simp add: unat_of_nat)
  have h: "unat (head q) = H mod ?n" and t: "unat (tail q) = T mod ?n" and "0 < ?n"
    and le: "T \<le> H" "H - T < ?n"
    using q by (auto simp: spsc_counters_def)
  then have less: "unat (head q) < ?n" "unat (tail q) < ?n" by simp_all
  let ?s = "if head q \<ge> tail q then head q - tail q else of_nat ?n - (tail q - head q)"
  have "unat ?s = ring_dist ?n (unat (head q)) (unat (tail q))"
  proof (cases "tail q \<le> head q")
    case True
    then show ?thesis using less
      by (simp add: ring_dist_le unat_sub word_le_nat_alt)
  next
    case False
    then have "unat (head q) < unat (tail q)" by (simp add: word_le_nat_alt)
    moreover have "unat (tail q - head q) = unat (tail q) - unat (head q)"
      using False by (simp add: unat_sub)
    moreover have "tail q - head q \<le> of_nat ?n"
      using calculation less n n64 by (simp add: word_le_nat_alt)
    ultimately show ?thesis using False less n
      by (simp add: ring_dist_def unat_sub)
  qed
  also have "\<dots> = H - T" using h t le by (simp add: ring_dist_mod)
  finally have s: "unat ?s = H - T" .
  have "SpscQ_size q = ucast ?s" by (simp add: SpscQ_size_def)
  moreover have "H - T < 2 ^ 32" using le k30 k by simp
  ultimately show ?thesis
    using s by (simp only: unsigned_ucast_eq take_bit_nat_eq_self word_size) (simp add: take_bit_nat_eq_self)
qed

section \<open>Properties\<close>

text \<open>
  C1. The queue is first in, first out: over any interleaving of \<open>push\<close> (flushing or
  not) and \<open>pop\<close> calls on a freshly initialised queue, the items handed to the
  consumer are a prefix of the items the producer got accepted, in the same order, and
  the rest is still in the ring: nothing is lost, duplicated or reordered.
\<close>

theorem SpscQ_fifo_order:
  assumes "n < 2 ^ 30" and "queue_run spsc_enq spsc_deq ops (SpscQ_init n) = (acc, del, q)"
  shows "map snd acc = del @ SpscQ_contents q"
  using spsc.run_order [OF init_inv [OF assms(1)] assms(2)]
  unfolding init_contents [OF assms(1)] by simp

theorem SpscQ_fifo_order_witness:
  "\<exists>q. queue_run spsc_enq spsc_deq [Enq (True, 7), Enq (False, 8), Deq, Deq]
      (SpscQ_init 256 :: nat SpscQ) = ([(True, 7), (False, 8)], [7], q) \<and>
    map snd [(True, 7), (False, 8::nat)] = [7] @ SpscQ_contents q"
proof -
  have n: "(256::nat) < 2 ^ 30" by simp
  obtain q where run: "queue_run spsc_enq spsc_deq [Enq (True, 7), Enq (False, 8), Deq, Deq]
      (SpscQ_init 256 :: nat SpscQ) = ([(True, 7), (False, 8)], [7], q)"
    by (simp add: init_256 new_spsc_def spsc_enq_def spsc_deq_def queue_defs Let_def)
  from run SpscQ_fifo_order [OF n run] show ?thesis by blast
qed

text \<open>
  C21. The queue never blocks both of its sides: with pushes that flush (as every caller
  in the repository does), or with any ring that is not the smallest one of 512 slots, in
  every reachable state either \<open>pop\<close> delivers an item or \<open>push\<close> finds room.
\<close>

theorem SpscQ_progress:
  fixes q :: "'a SpscQ"
  assumes "n < 2 ^ 30" and "list_all flushing cs \<or> qsize (SpscQ_init n :: 'a SpscQ) \<noteq> 512"
    and "q = run_steps spsc_step cs (SpscQ_init n)"
  shows "fst (SpscQ_pop q) = 0 \<or> fst (SpscQ_push f x q) = 0"
proof (rule not_stuck)
  have inv: "spsc_inv (SpscQ_init n :: 'a SpscQ)" using assms(1) by (rule init_inv)
  then show "spsc_inv q" unfolding assms(3) by (rule spsc_steps.run_keeps_inv)
  show "head q = shadow_head q \<or> qsize q \<noteq> 512"
    using assms(2,3) flushed_run [OF inv]
    by (auto simp: qsize_run SpscQ_init_def new_spsc_def)
qed

theorem SpscQ_progress_witness:
  "fst (SpscQ_pop (SpscQ_init 256 :: nat SpscQ)) = 0 \<or>
   fst (SpscQ_push True 5 (SpscQ_init 256 :: nat SpscQ)) = 0"
  using SpscQ_progress [of 256 "[]" "SpscQ_init 256" True 5] by simp

text \<open>
  Without flushing, the smallest ring can lock up for good: after 510 unflushed
  pushes, 256 pops and one more push, \<open>pop\<close> reports an empty queue and \<open>push\<close> a full
  one, whatever is pushed and even with the flush flag, while 255 items are in the ring.
\<close>

theorem SpscQ_unflushed_lockup:
  "fst (SpscQ_pop (run_steps spsc_step (stuck_run x) (SpscQ_init 256))) = 1 \<and>
   SpscQ_push f y (run_steps spsc_step (stuck_run x) (SpscQ_init 256)) =
     (1, run_steps spsc_step (stuck_run x) (SpscQ_init 256)) \<and>
   length (SpscQ_contents (run_steps spsc_step (stuck_run x) (SpscQ_init 256))) = 255"
proof -
  let ?q = "run_steps spsc_step (stuck_run x) (SpscQ_init 256)"
  have q: "spsc_counters 512 767 768 1023 ?q" by (rule stuck_run_counters) (rule init_256)
  have n: "qsize ?q = 512" by (simp add: qsize_run init_256 new_spsc_def)
  show ?thesis
    using pop_empty [OF q] push_full [OF q, of f y] contents_counters [OF q] n by simp
qed

text \<open>
  \<open>size\<close> counts one item too many on a settled queue: when both sides have published
  their indices, it returns the number of queued items plus one, so an empty queue has
  size 1.
\<close>

theorem SpscQ_size_off_by_one:
  assumes "spsc_inv q" and "head q = shadow_head q" and "tail q = shadow_tail q"
  shows "unat (SpscQ_size q) = length (SpscQ_contents q) + 1"
proof -
  obtain T ST H SH where q: "spsc_counters T ST H SH q"
    using assms(1) by (auto simp: spsc_inv_def)
  have b: "T \<le> ST" "ST < H" "ST < T + qsize q" and "T mod qsize q = ST mod qsize q"
    using q assms(3) by (auto simp: spsc_counters_def)
  then have "T = ST" using residue_eq_iff [of T ST "qsize q"] by auto
  then show ?thesis
    using size_counters [OF q] contents_counters [OF q] flushed_counters [OF q assms(2)] b by simp
qed

theorem SpscQ_size_off_by_one_witness:
  "unat (SpscQ_size (SpscQ_init 256 :: nat SpscQ)) = length (SpscQ_contents (SpscQ_init 256 :: nat SpscQ)) + 1"
  by (rule SpscQ_size_off_by_one [OF init_inv]) (simp_all add: init_256 new_spsc_def)

end
