(* ===== verification/Atomics.thy ===== *)
theory Atomics
  imports Interfaces "HOL-Library.Multiset"
begin

text \<open>
  \<open>pmink::Atomic\<close> of \<^verbatim>\<open>src/atomic/atomic.h\<close>, at an integer type of any width. Each
  method is one GCC atomic built-in, so a call is one indivisible step and calls of
  several threads interleave as whole steps. The statistics counters, the reference
  counters and the update counters of the framework are built on it.
\<close>

section \<open>State and operations\<close>

record 'w Atomic =
  avalue :: 'w

definition Atomic_new :: "'w::len word Atomic" where
  "Atomic_new = \<lparr>avalue = 0\<rparr>"

definition Atomic_get :: "'w::len word Atomic \<Rightarrow> 'w word \<times> 'w word Atomic" where
  "Atomic_get a = (avalue a, a\<lparr>avalue := avalue a + 0\<rparr>)"

definition add_fetch :: "'w word \<Rightarrow> 'w::len word Atomic \<Rightarrow> 'w word \<times> 'w word Atomic" where
  "add_fetch increment a = (avalue a + increment, a\<lparr>avalue := avalue a + increment\<rparr>)"

definition fetch_add :: "'w word \<Rightarrow> 'w::len word Atomic \<Rightarrow> 'w word \<times> 'w word Atomic" where
  "fetch_add increment a = (avalue a, a\<lparr>avalue := avalue a + increment\<rparr>)"

definition fetch_and :: "'w word \<Rightarrow> 'w::len word Atomic \<Rightarrow> 'w word \<times> 'w word Atomic" where
  "fetch_and v a = (avalue a, a\<lparr>avalue := avalue a AND v\<rparr>)"

definition and_fetch :: "'w word \<Rightarrow> 'w::len word Atomic \<Rightarrow> 'w word \<times> 'w word Atomic" where
  "and_fetch v a = (avalue a AND v, a\<lparr>avalue := avalue a AND v\<rparr>)"

definition fetch_sub :: "'w word \<Rightarrow> 'w::len word Atomic \<Rightarrow> 'w word \<times> 'w word Atomic" where
  "fetch_sub decrement a = (avalue a, a\<lparr>avalue := avalue a - decrement\<rparr>)"

definition sub_fetch :: "'w word \<Rightarrow> 'w::len word Atomic \<Rightarrow> 'w word \<times> 'w word Atomic" where
  "sub_fetch decrement a = (avalue a - decrement, a\<lparr>avalue := avalue a - decrement\<rparr>)"

definition comp_swap :: "'w word \<Rightarrow> 'w word \<Rightarrow> 'w::len word Atomic \<Rightarrow> 'w word \<times> 'w word Atomic" where
  "comp_swap old_val new_val a =
     (avalue a, if avalue a = old_val then a\<lparr>avalue := new_val\<rparr> else a)"

definition Atomic_set :: "'w word \<Rightarrow> 'w::len word Atomic \<Rightarrow> 'w word \<times> 'w word Atomic" where
  "Atomic_set new_val a = (avalue a, a\<lparr>avalue := new_val\<rparr>)"

lemmas atomic_defs = Atomic_new_def Atomic_get_def add_fetch_def fetch_add_def fetch_and_def
  and_fetch_def fetch_sub_def sub_fetch_def comp_swap_def Atomic_set_def

section \<open>Counting\<close>

text \<open>The calls threads make on one counter, in the order they take effect.\<close>

datatype 'w counter_call = Fetch_add 'w | Add_fetch 'w | Fetch_sub 'w | Sub_fetch 'w | Get

fun atomic_call :: "'w::len word counter_call \<Rightarrow> 'w word Atomic \<Rightarrow> 'w word \<times> 'w word Atomic" where
  "atomic_call (Fetch_add v) a = fetch_add v a"
| "atomic_call (Add_fetch v) a = add_fetch v a"
| "atomic_call (Fetch_sub v) a = fetch_sub v a"
| "atomic_call (Sub_fetch v) a = sub_fetch v a"
| "atomic_call Get a = Atomic_get a"

fun atomic_calls :: "'w::len word counter_call list \<Rightarrow> 'w word Atomic \<Rightarrow> 'w word list \<times> 'w word Atomic" where
  "atomic_calls [] a = ([], a)"
| "atomic_calls (c # cs) a =
     (let (r, a') = atomic_call c a; (rs, a'') = atomic_calls cs a' in (r # rs, a''))"

lemma tickets:
  "fst (atomic_calls (replicate k (Fetch_add 1)) a) = map (\<lambda>i. avalue a + of_nat i) [0..<k]"
proof (induction k arbitrary: a)
  case 0
  then show ?case by simp
next
  case (Suc k)
  have "map (\<lambda>i. avalue a + of_nat i) [0..<Suc k] =
      avalue a # map (\<lambda>i. avalue a + of_nat (Suc i)) [0..<k]"
    by (simp only: upt_conv_Cons zero_less_Suc list.map map_Suc_upt [symmetric] map_map comp_def) simp
  with Suc.IH [of "snd (fetch_add 1 a)"] show ?case
    by (simp add: Let_def case_prod_beta fetch_add_def add.assoc)
qed

section \<open>Properties\<close>

text \<open>
  \<open>fetch_add(1)\<close> hands out distinct tickets: as long as no more calls are made than
  the counter has values, no two calls return the same number, whichever threads make
  them.
\<close>

theorem Atomic_tickets_distinct:
  assumes "k \<le> 2 ^ LENGTH('w::len)"
  shows "distinct (fst (atomic_calls (replicate k (Fetch_add 1)) (a :: 'w word Atomic)))"
proof -
  have "inj_on (\<lambda>i. avalue a + of_nat i) {0..<k}"
  proof (rule inj_onI)
    fix i j
    assume ij: "i \<in> {0..<k}" "j \<in> {0..<k}" and eq: "avalue a + of_nat i = avalue a + of_nat j"
    then have "(of_nat i :: 'w word) = of_nat j" by simp
    then have "i mod 2 ^ LENGTH('w) = j mod 2 ^ LENGTH('w)"
      by (metis unat_of_nat)
    with ij assms show "i = j" by simp
  qed
  then show ?thesis by (simp add: tickets distinct_map)
qed

theorem Atomic_tickets_distinct_witness:
  "distinct (fst (atomic_calls (replicate 5 (Fetch_add 1)) (\<lparr>avalue = 254\<rparr> :: u8 Atomic)))"
  by (rule Atomic_tickets_distinct) simp

end
