(* ===== verification/Ring.thy ===== *)
theory Ring
  imports Interfaces
begin

text \<open>
  \<open>pmink::RingBuffer\<close> of \<^verbatim>\<open>src/ring/ring.h\<close>: a spin-locked wrapper around
  \<open>boost::circular_buffer\<close>. The circular buffer is third-party code: its operations are
  the record \<open>circular_buffer\<close>, an argument of the wrapper's definitions, and
  \<open>circular_buffer_ok\<close> states what its documentation promises about them. A call holds
  the lock from its first to its last access of the buffer, so it is one step.
\<close>

section \<open>The circular buffer the wrapper is built on\<close>

record ('b, 'a) circular_buffer =
  cb_empty :: "'b \<Rightarrow> bool"
  cb_full :: "'b \<Rightarrow> bool"
  cb_front :: "'b \<Rightarrow> 'a"
  cb_pop_front :: "'b \<Rightarrow> 'b"
  cb_push_back :: "'a \<Rightarrow> 'b \<Rightarrow> 'b"
  cb_set_capacity :: "nat \<Rightarrow> 'b \<Rightarrow> 'b"

text \<open>
  The documented behaviour, against the list of stored elements and the capacity:
  \<open>push_back\<close> on a full buffer overwrites the oldest element, and \<open>set_capacity\<close> drops
  the newest elements when it shrinks the buffer.
\<close>

definition circular_buffer_ok ::
  "('b, 'a) circular_buffer \<Rightarrow> ('b \<Rightarrow> bool) \<Rightarrow> ('b \<Rightarrow> 'a list) \<Rightarrow> ('b \<Rightarrow> nat) \<Rightarrow> bool" where
  "circular_buffer_ok cb good elems cap \<longleftrightarrow>
     (\<forall>b. good b \<longrightarrow> length (elems b) \<le> cap b) \<and>
     (\<forall>b. good b \<longrightarrow> cb_empty cb b = (elems b = [])) \<and>
     (\<forall>b. good b \<longrightarrow> cb_full cb b = (length (elems b) = cap b)) \<and>
     (\<forall>b. good b \<and> elems b \<noteq> [] \<longrightarrow> cb_front cb b = hd (elems b)) \<and>
     (\<forall>b. good b \<and> elems b \<noteq> [] \<longrightarrow> good (cb_pop_front cb b) \<and>
        elems (cb_pop_front cb b) = tl (elems b) \<and> cap (cb_pop_front cb b) = cap b) \<and>
     (\<forall>x b. good b \<longrightarrow> good (cb_push_back cb x b) \<and> cap (cb_push_back cb x b) = cap b) \<and>
     (\<forall>x b. good b \<and> length (elems b) < cap b \<longrightarrow> elems (cb_push_back cb x b) = elems b @ [x]) \<and>
     (\<forall>x b. good b \<and> length (elems b) = cap b \<and> 0 < cap b \<longrightarrow>
        elems (cb_push_back cb x b) = tl (elems b) @ [x]) \<and>
     (\<forall>n b. good b \<longrightarrow> good (cb_set_capacity cb n b) \<and>
        elems (cb_set_capacity cb n b) = take n (elems b) \<and> cap (cb_set_capacity cb n b) = n)"

section \<open>The wrapper\<close>

definition RingBuffer_pop :: "('b, 'a) circular_buffer \<Rightarrow> 'b \<Rightarrow> 'a option \<times> 'b" where
  "RingBuffer_pop cb buffer =
     (if \<not> cb_empty cb buffer
      then (let tmp = cb_front cb buffer in (Some tmp, cb_pop_front cb buffer))
      else (None, buffer))"

definition RingBuffer_push :: "('b, 'a) circular_buffer \<Rightarrow> 'a \<Rightarrow> 'b \<Rightarrow> bool \<times> 'b" where
  "RingBuffer_push cb data buffer =
     (if \<not> cb_full cb buffer then (True, cb_push_back cb data buffer) else (False, buffer))"

definition RingBuffer_set_capacity :: "('b, 'a) circular_buffer \<Rightarrow> u32 \<Rightarrow> 'b \<Rightarrow> 'b" where
  "RingBuffer_set_capacity cb capacity buffer = cb_set_capacity cb (unat capacity) buffer"

lemmas [queue_defs] = RingBuffer_pop_def RingBuffer_push_def

section \<open>The wrapper is a FIFO\<close>

lemma ring_fifo:
  assumes "circular_buffer_ok cb good elems cap"
  shows "fifo id (RingBuffer_push cb) (RingBuffer_pop cb) elems good"
proof
  fix b x
  assume good: "good b"
  note ok = assms [unfolded circular_buffer_ok_def]
  show "good (snd (RingBuffer_push cb x b))" "good (snd (RingBuffer_pop cb b))"
    using good ok by (auto simp: queue_defs)
  have "length (elems b) < cap b \<longleftrightarrow> length (elems b) \<noteq> cap b"
    using good ok by (metis le_neq_implies_less nless_le)
  then show "elems (snd (RingBuffer_push cb x b)) =
      (if fst (RingBuffer_push cb x b) then elems b @ [id x] else elems b)"
    using good ok by (auto simp: RingBuffer_push_def)
  show "elems b = (case fst (RingBuffer_pop cb b) of None \<Rightarrow> [] | Some x \<Rightarrow> [x]) @
      elems (snd (RingBuffer_pop cb b))"
    using good ok by (auto simp: RingBuffer_pop_def)
qed

text \<open>A buffer over a list with its capacity, to run the wrapper on.\<close>

definition list_buffer :: "('a list \<times> nat, 'a) circular_buffer" where
  "list_buffer =
     \<lparr>cb_empty = (\<lambda>b. fst b = []), cb_full = (\<lambda>b. length (fst b) = snd b),
      cb_front = (\<lambda>b. hd (fst b)), cb_pop_front = (\<lambda>b. (tl (fst b), snd b)),
      cb_push_back = (\<lambda>x b.
        (if snd b = 0 then b
         else ((if length (fst b) < snd b then fst b else tl (fst b)) @ [x], snd b))),
      cb_set_capacity = (\<lambda>n b. (take n (fst b), n))\<rparr>"

lemma list_buffer_ok: "circular_buffer_ok list_buffer (\<lambda>b. length (fst b) \<le> snd b) fst snd"
  by (auto simp: circular_buffer_ok_def list_buffer_def)

interpretation ring: fifo id "RingBuffer_push list_buffer" "RingBuffer_pop list_buffer" fst
  "\<lambda>b. length (fst b) \<le> snd b"
  by (rule ring_fifo [OF list_buffer_ok])

section \<open>Properties\<close>

text \<open>
  C34. The ring buffer never overwrites: \<open>push\<close> is refused exactly when the buffer holds
  as many elements as its capacity, and then changes nothing (the wrapped
  \<open>push_back\<close> alone would drop the oldest element); over any run of calls what is
  popped, followed by what is left, is what was there followed by what was accepted.
\<close>

theorem RingBuffer_bounded_fifo:
  assumes ok: "circular_buffer_ok cb good elems cap" and good: "good b"
    and run: "queue_run (RingBuffer_push cb) (RingBuffer_pop cb) ops b = (acc, del, b')"
  shows "elems b @ acc = del @ elems b' \<and>
    RingBuffer_push cb x b =
      (if length (elems b) < cap b then (True, cb_push_back cb x b) else (False, b))"
proof (rule conjI)
  show "elems b @ acc = del @ elems b'"
    using fifo.run_order [OF ring_fifo [OF ok] good run] by simp
  have "cb_full cb b = (length (elems b) = cap b)" "length (elems b) \<le> cap b"
    using ok good by (simp_all add: circular_buffer_ok_def)
  then show "RingBuffer_push cb x b =
      (if length (elems b) < cap b then (True, cb_push_back cb x b) else (False, b))"
    by (auto simp: RingBuffer_push_def)
qed

theorem RingBuffer_bounded_fifo_witness:
  "([] :: nat list) @ [1, 2] = [1] @ [2] \<and>
   RingBuffer_push list_buffer (3::nat) ([], 2) = (True, ([3], 2))"
proof -
  have run: "queue_run (RingBuffer_push list_buffer) (RingBuffer_pop list_buffer)
      [Enq 1, Enq 2, Enq 3, Deq] (([] :: nat list), 2) = ([1, 2], [1], ([2], 2))"
    by (simp add: queue_defs list_buffer_def)
  show ?thesis
    using RingBuffer_bounded_fifo [OF list_buffer_ok _ run, of 3] by (simp add: list_buffer_def)
qed

end
