(* ===== verification/Pools.thy ===== *)
theory Pools
  imports Spscq
begin

text \<open>
  The memory pools of \<^verbatim>\<open>src/pool/pool.h\<close>: \<open>MemChunk\<close>, \<open>HeapChunkBuffer\<close>, \<open>Pool\<close>
  and \<open>SpscQPool\<close>. A pointer is its address, a \<open>nat\<close>, with \<open>0\<close> for NULL; a slot of a
  free list that was never written is \<open>None\<close>. Calls hold the pool's spin lock
  throughout, so each is one step. Not modelled: the bytes of the pooled objects, the
  constructors and destructors of the element type, and freeing the pools themselves.
\<close>

section \<open>Byte chunks\<close>

record MemChunk =
  mc_buffer :: "u8 list"
  mc_buffer_length :: u32

definition MemChunk_new :: "nat \<Rightarrow> MemChunk" where
  "MemChunk_new COUNT = \<lparr>mc_buffer = replicate COUNT 0, mc_buffer_length = 0\<rparr>"

definition MemChunk_eq :: "MemChunk \<Rightarrow> MemChunk \<Rightarrow> bool" where
  "MemChunk_eq left right =
     (if mc_buffer_length left \<noteq> mc_buffer_length right then False
      else if take (unat (mc_buffer_length left)) (mc_buffer left) \<noteq>
              take (unat (mc_buffer_length left)) (mc_buffer right) then False
      else True)"

text \<open>\<open>data\<close> is the memory behind \<open>_data\<close>, at least \<open>data_length\<close> bytes of it.\<close>

definition set_data :: "u8 list \<Rightarrow> u32 \<Rightarrow> MemChunk \<Rightarrow> c_int \<times> MemChunk" where
  "set_data data data_length c =
     (if length (mc_buffer c) < unat data_length then (1, c)
      else (0, c\<lparr>mc_buffer_length := data_length,
                 mc_buffer := take (unat data_length) data @ drop (unat data_length) (mc_buffer c)\<rparr>))"

definition get_max_size :: "MemChunk \<Rightarrow> nat" where
  "get_max_size c = length (mc_buffer c)"

section \<open>Equal chunks in one heap buffer\<close>

record HeapChunkBuffer =
  hc_chunk_size :: u32
  hc_chunk_count :: u32
  hc_buff_size :: u64

definition HeapChunkBuffer_init :: "u32 \<Rightarrow> u32 \<Rightarrow> HeapChunkBuffer" where
  "HeapChunkBuffer_init chunk_size chunk_count =
     \<lparr>hc_chunk_size = chunk_size, hc_chunk_count = chunk_count,
      hc_buff_size = ucast chunk_size * ucast chunk_count\<rparr>"

text \<open>\<open>&buff[index * chunk_size]\<close>, as the offset into \<open>buff\<close>; the product has 32 bits.\<close>

definition get_chunk :: "u32 \<Rightarrow> HeapChunkBuffer \<Rightarrow> nat option" where
  "get_chunk index b =
     (if index \<ge> hc_chunk_count b then None else Some (unat (index * hc_chunk_size b)))"

section \<open>The object pool\<close>

record Pool =
  buffer :: nat
  chunk_count :: nat
  chunk_size :: nat
  mem_size :: nat
  raw_free_list :: "nat option list"
  constructed_free_list :: "nat option list"
  raw_free_size :: nat
  constructed_free_size :: nat
  construted_mode :: bool

definition Pool_new :: Pool where
  "Pool_new =
     \<lparr>buffer = 0, chunk_count = 0, chunk_size = 0, mem_size = 0, raw_free_list = [],
      constructed_free_list = [], raw_free_size = 0, constructed_free_size = 0,
      construted_mode = False\<rparr>"

text \<open>\<open>base\<close> is the address \<open>new char[mem_size]\<close> returned, \<open>sz\<close> is \<open>sizeof(T)\<close>.\<close>

definition Pool_init :: "nat \<Rightarrow> nat \<Rightarrow> nat \<Rightarrow> Pool" where
  "Pool_init base sz n =
     \<lparr>buffer = base, chunk_count = n, chunk_size = sz, mem_size = n * sz,
      raw_free_list = map (\<lambda>i. Some (base + i * sz)) [0..<n],
      constructed_free_list = replicate n None, raw_free_size = n,
      constructed_free_size = 0, construted_mode = False\<rparr>"

definition construct_objects :: "Pool \<Rightarrow> Pool" where
  "construct_objects p =
     (if chunk_count p \<le> 0 then p
      else p\<lparr>constructed_free_list := map (\<lambda>i. Some (buffer p + i * chunk_size p)) [0..<chunk_count p],
             construted_mode := True, constructed_free_size := chunk_count p, raw_free_size := 0\<rparr>)"

definition find_available :: "nat option list \<Rightarrow> nat \<Rightarrow> nat option \<times> nat" where
  "find_available src src_size = (src ! (src_size - 1), src_size - 1)"

definition allocate_raw :: "Pool \<Rightarrow> nat option \<times> Pool" where
  "allocate_raw p =
     (if raw_free_size p > 0
      then (let (tmp, s) = find_available (raw_free_list p) (raw_free_size p)
            in (tmp, p\<lparr>raw_free_size := s\<rparr>))
      else (None, p))"

definition get_constructed :: "u32 \<Rightarrow> Pool \<Rightarrow> nat option" where
  "get_constructed index p =
     (if unat index \<ge> chunk_count p then None else constructed_free_list p ! unat index)"

definition allocate_constructed :: "Pool \<Rightarrow> nat option \<times> Pool" where
  "allocate_constructed p =
     (if constructed_free_size p > 0
      then (let (tmp, s) = find_available (constructed_free_list p) (constructed_free_size p)
            in (tmp, p\<lparr>constructed_free_size := s\<rparr>))
      else (None, p))"

definition deallocate_constructed :: "nat \<Rightarrow> Pool \<Rightarrow> c_int \<times> Pool" where
  "deallocate_constructed obj p =
     (if chunk_count p \<le> 0 then (4, p)
      else if obj \<noteq> 0 \<and> constructed_free_size p < chunk_count p
      then (0, p\<lparr>constructed_free_list := (constructed_free_list p)[constructed_free_size p := Some obj],
                 constructed_free_size := constructed_free_size p + 1\<rparr>)
      else (1, p))"

definition deallocate_raw :: "nat \<Rightarrow> Pool \<Rightarrow> c_int \<times> Pool" where
  "deallocate_raw obj p =
     (if chunk_count p \<le> 0 then (4, p)
      else if obj \<noteq> 0 \<and> raw_free_size p < chunk_count p
      then (0, p\<lparr>raw_free_list := (raw_free_list p)[raw_free_size p := Some obj],
                 raw_free_size := raw_free_size p + 1\<rparr>)
      else (1, p))"

definition get_free_count :: "Pool \<Rightarrow> nat" where
  "get_free_count p = (if construted_mode p then constructed_free_size p else raw_free_size p)"

definition calc_req_mem :: "nat \<Rightarrow> c_int \<Rightarrow> u32" where
  "calc_req_mem sz n = ucast ((scast n :: u64) * of_nat sz)"

text \<open>\<open>mem_mb * 1024 * 1024\<close> is computed in 32 bits before it is divided.\<close>

definition calc_mem_fit :: "nat \<Rightarrow> u32 \<Rightarrow> u32" where
  "calc_mem_fit sz mem_mb =
     of_nat ((unat (mem_mb * 1024 * 1024) + sz - 1) div sz)"

section \<open>The pool behind a queue\<close>

record SpscQPool =
  sp_queue :: "nat option SpscQ"
  sp_pool :: Pool
  sp_ready :: bool

fun fill_queue :: "nat \<Rightarrow> nat option SpscQ \<times> Pool \<Rightarrow> nat option SpscQ \<times> Pool" where
  "fill_queue 0 qp = qp"
| "fill_queue (Suc k) (q, p) =
     (let (obj, p') = allocate_constructed p in fill_queue k (snd (SpscQ_push True obj q), p'))"

definition SpscQPool_init :: "nat \<Rightarrow> nat \<Rightarrow> nat \<Rightarrow> SpscQPool" where
  "SpscQPool_init base sz pool_size =
     (let (q, p) = fill_queue pool_size
            (SpscQ_init pool_size, construct_objects (Pool_init base sz pool_size))
      in \<lparr>sp_queue = q, sp_pool = p, sp_ready = True\<rparr>)"

section \<open>The free lists are stacks\<close>

definition stack_mset :: "nat option list \<Rightarrow> nat \<Rightarrow> nat multiset" where
  "stack_mset l s = mset (map the (take s l))"

definition stack_ok :: "nat option list \<Rightarrow> nat \<Rightarrow> bool" where
  "stack_ok l s \<longleftrightarrow> s \<le> length l \<and> list_all (\<lambda>x. x \<noteq> None) (take s l)"

lemma stack_mset_0 [simp]: "stack_mset l 0 = {#}"
  by (simp add: stack_mset_def)

lemma stack_mset_empty_iff: "stack_ok l s \<Longrightarrow> stack_mset l s = {#} \<longleftrightarrow> s = 0"
  by (auto simp: stack_mset_def stack_ok_def)

lemma size_stack_mset: "stack_ok l s \<Longrightarrow> size (stack_mset l s) = s"
  by (simp add: stack_mset_def stack_ok_def)

lemma stack_top:
  assumes "stack_ok l s" and "0 < s"
  obtains x where "find_available l s = (Some x, s - 1)"
    and "stack_mset l s = add_mset x (stack_mset l (s - 1))" and "stack_ok l (s - 1)"
proof -
  obtain t where s: "s = Suc t" using assms(2) by (cases s) auto
  have t: "t < length l" and last: "take (Suc t) l = take t l @ [l ! t]"
    using assms(1) s by (auto simp: stack_ok_def take_Suc_conv_app_nth)
  then obtain x where "l ! t = Some x" using assms(1) s by (auto simp: stack_ok_def)
  then show ?thesis
    using assms(1) s t last by (intro that [of x]) (auto simp: find_available_def stack_mset_def stack_ok_def)
qed

lemma stack_push:
  assumes "stack_ok l s" and "s < length l"
  shows "stack_mset (l[s := Some x]) (s + 1) = add_mset x (stack_mset l s)"
    and "stack_ok (l[s := Some x]) (s + 1)"
  using assms by (auto simp: stack_mset_def stack_ok_def take_Suc_conv_app_nth)

definition chunk_addresses :: "Pool \<Rightarrow> nat list" where
  "chunk_addresses p = map (\<lambda>i. buffer p + i * chunk_size p) [0..<chunk_count p]"

lemma stack_of_addresses:
  "stack_mset (map (\<lambda>i. Some (b + i * sz)) [0..<n]) n = mset (map (\<lambda>i. b + i * sz) [0..<n])"
  by (simp add: stack_mset_def comp_def)

lemma stack_ok_addresses: "stack_ok (map (\<lambda>i. Some (b + i * sz)) [0..<n]) n"
  by (simp add: stack_ok_def list_all_iff)

lemma distinct_addresses: "0 < chunk_size p \<Longrightarrow> distinct (chunk_addresses p)"
  by (auto simp: chunk_addresses_def distinct_map inj_on_def)

lemma count_addresses: "0 < chunk_size p \<Longrightarrow> count (mset (chunk_addresses p)) x \<le> 1"
  using distinct_addresses [of p] by (simp add: distinct_count_atmost_1)

text \<open>The two ways to use a pool: over constructed objects and over raw chunks.\<close>

definition constructed_avail :: "Pool \<Rightarrow> nat multiset" where
  "constructed_avail p = stack_mset (constructed_free_list p) (constructed_free_size p)"

definition constructed_inv :: "Pool \<Rightarrow> bool" where
  "constructed_inv p \<longleftrightarrow> buffer p \<noteq> 0 \<and> length (constructed_free_list p) = chunk_count p \<and>
     stack_ok (constructed_free_list p) (constructed_free_size p)"

definition raw_avail :: "Pool \<Rightarrow> nat multiset" where
  "raw_avail p = stack_mset (raw_free_list p) (raw_free_size p)"

definition raw_inv :: "Pool \<Rightarrow> bool" where
  "raw_inv p \<longleftrightarrow> buffer p \<noteq> 0 \<and> length (raw_free_list p) = chunk_count p \<and>
     stack_ok (raw_free_list p) (raw_free_size p)"

lemmas pool_inv_defs = constructed_avail_def constructed_inv_def raw_avail_def raw_inv_def

lemma address_not_null: "x \<in># mset (chunk_addresses p) \<Longrightarrow> buffer p \<noteq> 0 \<Longrightarrow> x \<noteq> 0"
  by (auto simp: chunk_addresses_def)

lemma size_addresses: "size (mset (chunk_addresses p)) = chunk_count p"
  by (simp add: chunk_addresses_def)

lemma addresses_update [simp]:
  "chunk_addresses (p\<lparr>constructed_free_list := l\<rparr>) = chunk_addresses p"
  "chunk_addresses (p\<lparr>constructed_free_size := s\<rparr>) = chunk_addresses p"
  "chunk_addresses (p\<lparr>raw_free_list := l\<rparr>) = chunk_addresses p"
  "chunk_addresses (p\<lparr>raw_free_size := s\<rparr>) = chunk_addresses p"
  by (simp_all add: chunk_addresses_def)

interpretation constructed: allocator allocate_constructed "\<lambda>x p. snd (deallocate_constructed x p)"
  constructed_avail "\<lambda>p. mset (chunk_addresses p)" constructed_inv
proof
  fix p x
  assume inv: "constructed_inv p"
  then have ok: "stack_ok (constructed_free_list p) (constructed_free_size p)"
    by (simp add: constructed_inv_def)
  show "constructed_avail p = {#} \<Longrightarrow> allocate_constructed p = (None, p)"
    using ok by (simp add: constructed_avail_def stack_mset_empty_iff allocate_constructed_def)
  show "\<exists>x p'. allocate_constructed p = (Some x, p') \<and>
      constructed_avail p = add_mset x (constructed_avail p') \<and> constructed_inv p' \<and>
      mset (chunk_addresses p') = mset (chunk_addresses p)" if "constructed_avail p \<noteq> {#}"
  proof -
    have "0 < constructed_free_size p"
      using that stack_mset_empty_iff [OF ok] by (simp add: constructed_avail_def)
    from ok this obtain y where
      "find_available (constructed_free_list p) (constructed_free_size p) =
        (Some y, constructed_free_size p - 1)"
      "stack_mset (constructed_free_list p) (constructed_free_size p) =
        add_mset y (stack_mset (constructed_free_list p) (constructed_free_size p - 1))"
      "stack_ok (constructed_free_list p) (constructed_free_size p - 1)"
      by (rule stack_top)
    then show ?thesis
      using \<open>0 < constructed_free_size p\<close> inv by (auto simp: pool_inv_defs allocate_constructed_def)
  qed
  assume x: "x \<in># mset (chunk_addresses p)"
    and room: "size (constructed_avail p) < size (mset (chunk_addresses p))"
  have less: "constructed_free_size p < chunk_count p" and "x \<noteq> 0"
    using room inv size_stack_mset [OF ok] address_not_null [OF x]
    by (auto simp: pool_inv_defs size_addresses simp del: size_mset)
  then show "constructed_avail (snd (deallocate_constructed x p)) = add_mset x (constructed_avail p) \<and>
      constructed_inv (snd (deallocate_constructed x p)) \<and>
      mset (chunk_addresses (snd (deallocate_constructed x p))) = mset (chunk_addresses p)"
    using inv stack_push [OF ok, of x] by (auto simp: pool_inv_defs deallocate_constructed_def)
qed

interpretation raw: allocator allocate_raw "\<lambda>x p. snd (deallocate_raw x p)"
  raw_avail "\<lambda>p. mset (chunk_addresses p)" raw_inv
proof
  fix p x
  assume inv: "raw_inv p"
  then have ok: "stack_ok (raw_free_list p) (raw_free_size p)"
    by (simp add: raw_inv_def)
  show "raw_avail p = {#} \<Longrightarrow> allocate_raw p = (None, p)"
    using ok by (simp add: raw_avail_def stack_mset_empty_iff allocate_raw_def)
  show "\<exists>x p'. allocate_raw p = (Some x, p') \<and> raw_avail p = add_mset x (raw_avail p') \<and>
      raw_inv p' \<and> mset (chunk_addresses p') = mset (chunk_addresses p)" if "raw_avail p \<noteq> {#}"
  proof -
    have "0 < raw_free_size p" using that stack_mset_empty_iff [OF ok] by (simp add: raw_avail_def)
    from ok this obtain y where
      "find_available (raw_free_list p) (raw_free_size p) = (Some y, raw_free_size p - 1)"
      "stack_mset (raw_free_list p) (raw_free_size p) =
        add_mset y (stack_mset (raw_free_list p) (raw_free_size p - 1))"
      "stack_ok (raw_free_list p) (raw_free_size p - 1)"
      by (rule stack_top)
    then show ?thesis
      using \<open>0 < raw_free_size p\<close> inv by (auto simp: pool_inv_defs allocate_raw_def)
  qed
  assume x: "x \<in># mset (chunk_addresses p)"
    and room: "size (raw_avail p) < size (mset (chunk_addresses p))"
  have less: "raw_free_size p < chunk_count p" and "x \<noteq> 0"
    using room inv size_stack_mset [OF ok] address_not_null [OF x]
    by (auto simp: pool_inv_defs size_addresses simp del: size_mset)
  then show "raw_avail (snd (deallocate_raw x p)) = add_mset x (raw_avail p) \<and>
      raw_inv (snd (deallocate_raw x p)) \<and>
      mset (chunk_addresses (snd (deallocate_raw x p))) = mset (chunk_addresses p)"
    using inv stack_push [OF ok, of x] by (auto simp: pool_inv_defs deallocate_raw_def)
qed


section \<open>Filling the queue of a pool\<close>

lemma allocate_constructed_step:
  "0 < constructed_free_size p \<Longrightarrow>
    allocate_constructed p = (constructed_free_list p ! (constructed_free_size p - 1),
      p\<lparr>constructed_free_size := constructed_free_size p - 1\<rparr>)"
  by (simp add: allocate_constructed_def find_available_def)

lemma fill_queue_contents:
  "spsc_counters T ST SH SH q \<Longrightarrow> k \<le> constructed_free_size p \<Longrightarrow>
    constructed_free_size p \<le> length (constructed_free_list p) \<Longrightarrow>
    SpscQ_contents (fst (fill_queue k (q, p))) = SpscQ_contents q @
      take (T + qsize q - 1 - SH)
        (take k (rev (take (constructed_free_size p) (constructed_free_list p))))"
proof (induction k arbitrary: SH q p)
  case 0
  then show ?case by simp
next
  case (Suc k)
  note q = Suc.prems(1)
  let ?s = "constructed_free_size p" and ?l = "constructed_free_list p"
  let ?x = "?l ! (?s - 1)" and ?p = "p\<lparr>constructed_free_size := ?s - 1\<rparr>"
  have "take (Suc (?s - 1)) ?l = take (?s - 1) ?l @ [?x]"
    using Suc.prems(2,3) by (intro take_Suc_conv_app_nth) simp
  then have top: "rev (take ?s ?l) = ?x # rev (take (?s - 1) ?l)"
    using Suc.prems(2) by simp
  have fill: "fill_queue (Suc k) (q, p) = fill_queue k (snd (SpscQ_push True ?x q), ?p)"
    using Suc.prems(2) by (simp add: allocate_constructed_step)
  show ?case
  proof (cases "Suc SH = T + qsize q")
    case True
    have "SpscQ_contents (fst (fill_queue k (q, ?p))) = SpscQ_contents q"
      using Suc.IH [OF q, of ?p] Suc.prems(2,3) True by simp
    then show ?thesis using True by (simp only: fill push_full [OF q True] snd_conv) simp
  next
    case False
    let ?q = "snd (SpscQ_push True ?x q)"
    have q': "spsc_counters T ST (Suc SH) (Suc SH) ?q"
      using push_counters(2) [OF q False, of True] by simp
    have room: "T + qsize q - 1 - SH = Suc (T + qsize q - 1 - Suc SH)"
      using q False by (auto simp: spsc_counters_def)
    show ?thesis
      using Suc.IH [OF q', of ?p] Suc.prems(2,3)
      unfolding fill room top by (simp add: contents_push [OF q False] push_counters(4) [OF q False])
  qed
qed

lemma fill_queue_pool:
  "k \<le> constructed_free_size p \<Longrightarrow>
    snd (fill_queue k (q, p)) = p\<lparr>constructed_free_size := constructed_free_size p - k\<rparr>"
proof (induction k arbitrary: q p)
  case 0
  then show ?case by simp
next
  case (Suc k)
  then show ?case by (simp add: allocate_constructed_step)
qed

lemma rev_addresses:
  "rev (map (\<lambda>i. Some (b + i * sz)) [0..<n]) = map (\<lambda>i. Some (b + i * sz)) (rev [0..<n])"
  by (simp add: rev_map)

lemma SpscQPool_queue:
  fixes q :: "nat option SpscQ"
  assumes n: "n < 2 ^ 30" and q: "q = SpscQ_init n"
  shows "SpscQ_contents (sp_queue (SpscQPool_init base sz n)) =
    take (qsize q - 2) (map (\<lambda>i. Some (base + i * sz)) (rev [0..<n]))"
proof (cases "n = 0")
  case True
  then show ?thesis
    using init_contents [OF n, where 'a = "nat option"]
    by (simp add: SpscQPool_init_def construct_objects_def Pool_init_def)
next
  case False
  let ?p = "construct_objects (Pool_init base sz n)"
  have p: "constructed_free_size ?p = n"
    "constructed_free_list ?p = map (\<lambda>i. Some (base + i * sz)) [0..<n]"
    using False by (simp_all add: construct_objects_def Pool_init_def)
  have "sp_queue (SpscQPool_init base sz n) = fst (fill_queue n (q, ?p))"
    by (simp add: SpscQPool_init_def q case_prod_beta)
  then show ?thesis
    using fill_queue_contents [OF init_counters [OF n q], of n ?p]
      init_contents [OF n, where 'a = "nat option"] q
    by (simp add: p rev_addresses numeral_2_eq_2)
qed

lemma get_chunk_offset:
  assumes "get_chunk k (HeapChunkBuffer_init sz cnt) = Some z" and "unat sz * unat cnt \<le> 2 ^ 32"
  shows "z = unat k * unat sz \<and> unat k < unat cnt"
proof -
  have k: "unat k < unat cnt" and z: "z = unat (k * sz)"
    using assms(1) by (auto simp: get_chunk_def HeapChunkBuffer_init_def word_le_nat_alt
        split: if_splits)
  have "unat k * unat sz < 2 ^ 32"
  proof (cases "unat sz = 0")
    case False
    then have "unat k * unat sz < unat cnt * unat sz" using k by simp
    also have "\<dots> \<le> 2 ^ 32" using assms(2) by (simp only: mult.commute)
    finally show ?thesis .
  qed simp
  then show ?thesis using k z by (simp add: unat_mult_lem [THEN iffD1])
qed

section \<open>Properties\<close>

text \<open>
  C22. Clients of a pool never share an object: starting from a pool whose objects have
  been constructed, any sequence of \<open>allocate_constructed\<close> and \<open>deallocate_constructed\<close>
  calls by clients that only give back what they hold leaves them with pairwise distinct
  objects, all of them chunks of the pool's buffer, none of which is still in the free
  list; and nothing is leaked.
\<close>

theorem Pool_constructed_no_sharing:
  assumes "base \<noteq> 0" and "0 < sz" and "0 < n"
    and run: "run_steps (client_step allocate_constructed (\<lambda>x p. snd (deallocate_constructed x p))) cs
      (construct_objects (Pool_init base sz n), []) = (p, held)"
  shows "distinct held \<and> set held \<subseteq> (\<lambda>i. base + i * sz) ` {0..<n} \<and>
    (\<forall>x \<in> set held. x \<notin># constructed_avail p) \<and> constructed_free_size p + length held = n"
proof -
  let ?p = "construct_objects (Pool_init base sz n)"
  have addr: "chunk_addresses ?p = map (\<lambda>i. base + i * sz) [0..<n]"
    using assms by (simp add: construct_objects_def Pool_init_def chunk_addresses_def)
  have inv: "constructed_inv ?p" and full: "constructed_avail ?p = mset (chunk_addresses ?p)"
    using assms stack_ok_addresses stack_of_addresses unfolding addr
    by (simp_all add: pool_inv_defs construct_objects_def Pool_init_def)
  have one: "count (mset (chunk_addresses ?p)) x \<le> 1" for x
    using assms by (intro count_addresses) (simp add: construct_objects_def Pool_init_def)
  have end_inv: "constructed_inv p \<and> constructed_avail p + mset held = mset (chunk_addresses p) \<and>
      mset (chunk_addresses p) = mset (chunk_addresses ?p)"
    using constructed.client_run_inv [OF inv _ run] full by simp
  then have "size (constructed_avail p) + length held = n"
    by (metis addr size_mset size_union length_map length_upt diff_zero)
  moreover have "size (constructed_avail p) = constructed_free_size p"
    using end_inv by (simp add: pool_inv_defs size_stack_mset)
  ultimately show ?thesis
    using constructed.client_no_sharing [OF inv full one run] by (simp add: addr)
qed

theorem Pool_constructed_no_sharing_witness:
  "\<exists>p. run_steps (client_step allocate_constructed (\<lambda>x p. snd (deallocate_constructed x p)))
      [Alloc, Alloc, Free 1, Alloc, Alloc, Free 0] (construct_objects (Pool_init 1000 20 3), []) =
      (p, [1040, 1020]) \<and> constructed_free_size p + length [1040, 1020::nat] = 3"
proof -
  obtain p where run: "run_steps (client_step allocate_constructed (\<lambda>x p. snd (deallocate_constructed x p)))
      [Alloc, Alloc, Free 1, Alloc, Alloc, Free 0] (construct_objects (Pool_init 1000 20 3), []) =
      (p, [1040, 1020])"
    by (simp add: construct_objects_def Pool_init_def allocate_constructed_def find_available_def
        deallocate_constructed_def upt_rec)
  have "constructed_free_size p + length [1040, 1020::nat] = 3"
    using Pool_constructed_no_sharing [OF _ _ _ run] by simp
  with run show ?thesis by blast
qed

text \<open>
  A pool behind a queue holds its objects highest chunk first, as many as the ring
  takes: two less than its slots. So for a pool size of the form \<open>2^k - 1\<close> (511, say) the
  last push is refused, \<open>init\<close> ignores it, and the lowest chunk is neither in the queue
  nor back in the pool: it is lost.
\<close>

theorem SpscQPool_init_contents:
  fixes q :: "nat option SpscQ"
  assumes "n < 2 ^ 30" and "q = SpscQ_init n"
  shows "SpscQ_contents (sp_queue (SpscQPool_init base sz n)) =
      take (qsize q - 2) (map (\<lambda>i. Some (base + i * sz)) (rev [0..<n])) \<and>
    get_free_count (sp_pool (SpscQPool_init base sz n)) = 0 \<and>
    length (SpscQ_contents (sp_queue (SpscQPool_init base sz 511))) = 510"
proof -
  have "ceil_log2 512 = 9" by (simp add: ceil_log2.simps)
  then have "qsize (SpscQ_init 511 :: nat option SpscQ) = 512"
    by (simp add: SpscQ_init_def new_spsc_def)
  then have "length (SpscQ_contents (sp_queue (SpscQPool_init base sz 511))) = 510"
    using SpscQPool_queue [of 511, OF _ refl] by simp
  moreover have "get_free_count (sp_pool (SpscQPool_init base sz n)) = 0"
    using fill_queue_pool [of n "construct_objects (Pool_init base sz n)"]
    by (cases n) (simp_all add: SpscQPool_init_def case_prod_beta get_free_count_def
        construct_objects_def Pool_init_def)
  ultimately show ?thesis using SpscQPool_queue [OF assms] by blast
qed

theorem SpscQPool_init_contents_witness:
  "get_free_count (sp_pool (SpscQPool_init 4096 16 511)) = 0 \<and>
    length (SpscQ_contents (sp_queue (SpscQPool_init 4096 16 511))) = 510"
proof -
  have n: "(511::nat) < 2 ^ 30" by simp
  show ?thesis using SpscQPool_init_contents [OF n refl, of 4096 16] by blast
qed

text \<open>
  Chunks of a \<open>HeapChunkBuffer\<close> whose total size fits in 32 bits lie in the buffer
  and do not overlap. Beyond that the allocation still has the full 64-bit size, but
  the offset is a 32-bit product and wraps: of 65537 chunks of 65536 bytes the last is
  the first again.
\<close>

theorem HeapChunkBuffer_chunks_disjoint:
  assumes "b = HeapChunkBuffer_init sz cnt" and "unat sz * unat cnt \<le> 2 ^ 32"
    and "get_chunk i b = Some x" and "get_chunk j b = Some y" and "i \<noteq> j"
  shows "x + unat sz \<le> unat (hc_buff_size b) \<and> (x + unat sz \<le> y \<or> y + unat sz \<le> x) \<and>
    get_chunk 65536 (HeapChunkBuffer_init 65536 65537) = get_chunk 0 (HeapChunkBuffer_init 65536 65537) \<and>
    hc_buff_size (HeapChunkBuffer_init 65536 65537) = 65536 * 65537"
proof -
  have offset: "z = unat k * unat sz \<and> unat k < unat cnt" if "get_chunk k b = Some z" for k z
    using get_chunk_offset [OF _ assms(2)] that assms(1) by blast
  have x: "x = unat i * unat sz" "unat i < unat cnt" and y: "y = unat j * unat sz"
    using offset assms(3,4) by auto
  have "(unat i + 1) * unat sz \<le> unat cnt * unat sz" using x(2) by (intro mult_right_mono) auto
  moreover have "unat (hc_buff_size b) = unat cnt * unat sz"
  proof -
    have u: "unat (ucast sz :: u64) = unat sz" "unat (ucast cnt :: u64) = unat cnt"
      by (simp_all add: unsigned_ucast_eq take_bit_nat_eq_self unat_lt_exp [THEN order.strict_trans2])
    have "unat (ucast sz :: u64) * unat (ucast cnt :: u64) < 2 ^ LENGTH(64)"
      unfolding u using assms(2) by simp
    then show ?thesis
      unfolding assms(1) HeapChunkBuffer_init_def using u
      by (simp add: unat_mult_lem [THEN iffD1] mult.commute)
  qed
  moreover have "x + unat sz \<le> y \<or> y + unat sz \<le> x"
  proof (cases "unat i < unat j")
    case True
    then have "(unat i + 1) * unat sz \<le> unat j * unat sz" by (intro mult_right_mono) auto
    then show ?thesis using x y by simp
  next
    case False
    then have "unat j < unat i" using assms(5) by (metis linorder_neqE_nat word_unat_eq_iff)
    then have "(unat j + 1) * unat sz \<le> unat i * unat sz" by (intro mult_right_mono) auto
    then show ?thesis using x y by simp
  qed
  ultimately show ?thesis
    using x by (simp add: get_chunk_def HeapChunkBuffer_init_def)
qed

theorem HeapChunkBuffer_chunks_disjoint_witness:
  "get_chunk 3 (HeapChunkBuffer_init 100 10) = Some 300 \<and> (300 + 100 \<le> (700::nat) \<or> 700 + 100 \<le> (300::nat))"
  using HeapChunkBuffer_chunks_disjoint [of "HeapChunkBuffer_init 100 10" 100 10 3 300 7 700]
  by (simp add: get_chunk_def HeapChunkBuffer_init_def)

text \<open>
  Giving an object back twice goes unnoticed while the free list has room: the call
  returns 0 both times, the list grows by the same object twice, and the next two
  allocations hand it out twice.
\<close>

theorem Pool_double_free:
  assumes "constructed_inv p" and "obj \<noteq> 0" and "constructed_free_size p + 2 \<le> chunk_count p"
    and "deallocate_constructed obj p = (r1, p1)" and "deallocate_constructed obj p1 = (r2, p2)"
  shows "r1 = 0 \<and> r2 = 0 \<and> fst (allocate_constructed p2) = Some obj \<and>
    fst (allocate_constructed (snd (allocate_constructed p2))) = Some obj \<and>
    constructed_free_size (snd (allocate_constructed (snd (allocate_constructed p2)))) =
      constructed_free_size p"
  using assms
  by (auto simp: deallocate_constructed_def allocate_constructed_def find_available_def
      constructed_inv_def)

theorem Pool_double_free_witness:
  "\<exists>p1 p2. fst (deallocate_constructed 1000 p1) = 0 \<and>
     fst (allocate_constructed p2) = Some 1000 \<and>
     fst (allocate_constructed (snd (allocate_constructed p2))) = Some 1000"
proof -
  let ?p = "(construct_objects (Pool_init 1000 20 3))\<lparr>constructed_free_size := 0\<rparr>"
  have inv: "constructed_inv ?p"
    by (simp add: constructed_inv_def stack_ok_def construct_objects_def Pool_init_def)
  have size: "constructed_free_size ?p + 2 \<le> chunk_count ?p"
    by (simp add: construct_objects_def Pool_init_def)
  show ?thesis
    using Pool_double_free [OF inv _ size prod.collapse [symmetric] prod.collapse [symmetric], of 1000]
    by auto
qed

end
