(* ===== verification/Managers.thy ===== *)
theory Managers
  imports Interfaces
begin

text \<open>
  The keyed list managers of \<^verbatim>\<open>src/utils/pmink_utils.h\<close>: \<open>FloodManager\<close> (lists of
  time-stamped items, for rate limits) and \<open>ListManager\<close> (plain bounded lists). The
  clock is an argument \<open>now\<close> of the operations that read it, an unbounded integer: the
  code subtracts a 32-bit interval from a 64-bit time. A \<open>std::multimap\<close> is the list of
  its pairs in iteration order, with the standard's rule that equal keys stay in
  insertion order. The outer \<open>option\<close> of \<open>add_item\<close> is \<open>None\<close> where the code erases
  \<open>begin()\<close> of an empty multimap, which the standard leaves undefined.
\<close>

section \<open>Ordered multimaps\<close>

fun mm_insert :: "int \<Rightarrow> 'd \<Rightarrow> (int \<times> 'd) list \<Rightarrow> (int \<times> 'd) list" where
  "mm_insert t d [] = [(t, d)]"
| "mm_insert t d ((u, e) # l) = (if u \<le> t then (u, e) # mm_insert t d l else (t, d) # (u, e) # l)"

definition from_lower_bound :: "int \<Rightarrow> (int \<times> 'd) list \<Rightarrow> (int \<times> 'd) list" where
  "from_lower_bound ts l = dropWhile (\<lambda>e. fst e < ts) l"

lemma mset_mm_insert [simp]: "mset (mm_insert t d l) = add_mset (t, d) (mset l)"
  by (induction t d l rule: mm_insert.induct) auto

lemma set_mm_insert [simp]: "set (mm_insert t d l) = insert (t, d) (set l)"
  by (induction t d l rule: mm_insert.induct) auto

lemma length_mm_insert [simp]: "length (mm_insert t d l) = Suc (length l)"
  by (induction t d l rule: mm_insert.induct) auto

lemma sorted_mm_insert: "sorted (map fst l) \<Longrightarrow> sorted (map fst (mm_insert t d l))"
  by (induction t d l rule: mm_insert.induct) force+

lemma from_lower_bound_sorted:
  "sorted (map fst l) \<Longrightarrow> from_lower_bound ts l = filter (\<lambda>e. ts \<le> fst e) l"
proof (induction l)
  case Nil
  then show ?case by (simp add: from_lower_bound_def)
next
  case (Cons e l)
  show ?case
  proof (cases "fst e < ts")
    case True
    with Cons show ?thesis by (simp add: from_lower_bound_def)
  next
    case False
    then have "\<forall>x\<in>set l. ts \<le> fst x" using Cons.prems by fastforce
    with False show ?thesis by (simp add: from_lower_bound_def)
  qed
qed

section \<open>FloodManager\<close>

record ('id, 'd) FloodManager =
  fm_lists :: "'id \<rightharpoonup> (int \<times> 'd) list"
  fm_max_interval :: u32
  fm_max_size :: u32

text \<open>The constructor takes a \<open>uint_fast32_t\<close>, 64 bits wide here, into a 32-bit member.\<close>

definition FloodManager_new :: "u32 \<Rightarrow> u64 \<Rightarrow> ('id, 'd) FloodManager" where
  "FloodManager_new max_interval max_size =
     \<lparr>fm_lists = Map.empty, fm_max_interval = (if max_interval = 0 then max_interval + 1 else max_interval),
      fm_max_size = ucast max_size\<rparr>"

definition flood_add_list :: "'id \<Rightarrow> ('id, 'd) FloodManager \<Rightarrow> ('id, 'd) FloodManager" where
  "flood_add_list list_id fm =
     (case fm_lists fm list_id of
        None \<Rightarrow> fm\<lparr>fm_lists := (fm_lists fm)(list_id \<mapsto> [])\<rparr>
      | Some _ \<Rightarrow> fm)"

definition flood_clear :: "('id, 'd) FloodManager \<Rightarrow> ('id, 'd) FloodManager" where
  "flood_clear fm = fm\<lparr>fm_lists := Map.empty\<rparr>"

definition set_max_interval :: "u32 \<Rightarrow> ('id, 'd) FloodManager \<Rightarrow> ('id, 'd) FloodManager" where
  "set_max_interval v fm = fm\<lparr>fm_max_interval := (if v = 0 then v + 1 else v)\<rparr>"

definition flood_set_max_size :: "u32 \<Rightarrow> ('id, 'd) FloodManager \<Rightarrow> ('id, 'd) FloodManager" where
  "flood_set_max_size v fm = fm\<lparr>fm_max_size := v\<rparr>"

definition flood_remove_list :: "'id \<Rightarrow> ('id, 'd) FloodManager \<Rightarrow> bool \<times> ('id, 'd) FloodManager" where
  "flood_remove_list list_id fm =
     (case fm_lists fm list_id of
        Some _ \<Rightarrow> (True, fm\<lparr>fm_lists := (fm_lists fm)(list_id := None)\<rparr>)
      | None \<Rightarrow> (False, fm))"

definition flood_get_list :: "'id \<Rightarrow> ('id, 'd) FloodManager \<Rightarrow> (int \<times> 'd) list option" where
  "flood_get_list list_id fm = fm_lists fm list_id"

definition expire_list :: "int \<Rightarrow> u32 \<Rightarrow> (int \<times> 'd) list \<Rightarrow> (int \<times> 'd) list" where
  "expire_list now max_interval flood_lst =
     (let ts = now - uint max_interval in from_lower_bound ts flood_lst)"

definition flood_expire :: "int \<Rightarrow> 'id \<Rightarrow> ('id, 'd) FloodManager \<Rightarrow> ('id, 'd) FloodManager" where
  "flood_expire now list_id fm =
     (case flood_get_list list_id fm of
        None \<Rightarrow> fm
      | Some l \<Rightarrow> fm\<lparr>fm_lists := (fm_lists fm)(list_id \<mapsto> expire_list now (fm_max_interval fm) l)\<rparr>)"

text \<open>\<open>Some (None, _)\<close> is the NULL the code returns for an unknown list.\<close>

definition flood_add_item ::
  "int \<Rightarrow> 'id \<Rightarrow> 'd \<Rightarrow> ('id, 'd) FloodManager \<Rightarrow> ('d option \<times> ('id, 'd) FloodManager) option" where
  "flood_add_item now list_id item fm =
     (case fm_lists fm list_id of
        None \<Rightarrow> Some (None, fm)
      | Some sub \<Rightarrow>
          (if length sub \<ge> unat (fm_max_size fm)
           then (case sub of [] \<Rightarrow> None
                 | e # rest \<Rightarrow>
                     Some (Some item, fm\<lparr>fm_lists := (fm_lists fm)(list_id \<mapsto> mm_insert now item rest)\<rparr>))
           else Some (Some item, fm\<lparr>fm_lists := (fm_lists fm)(list_id \<mapsto> mm_insert now item sub)\<rparr>)))"

definition flood_del_item :: "'id \<Rightarrow> 'd \<Rightarrow> ('id, 'd) FloodManager \<Rightarrow> bool \<times> ('id, 'd) FloodManager" where
  "flood_del_item list_id item fm =
     (case fm_lists fm list_id of
        None \<Rightarrow> (False, fm)
      | Some sub \<Rightarrow>
          (True, fm\<lparr>fm_lists := (fm_lists fm)(list_id \<mapsto> filter (\<lambda>e. snd e \<noteq> item) sub)\<rparr>))"

definition get_item_count :: "int \<Rightarrow> 'id \<Rightarrow> 'd \<Rightarrow> u32 \<Rightarrow> ('id, 'd) FloodManager \<Rightarrow> u32" where
  "get_item_count now list_id item interval fm =
     (case fm_lists fm list_id of
        None \<Rightarrow> 0
      | Some sub \<Rightarrow>
          (let ts = now - uint interval; low = from_lower_bound ts sub
           in if low = [] then 0 else of_nat (length (filter (\<lambda>e. snd e = item) low))))"

lemmas flood_defs = FloodManager_new_def flood_add_list_def flood_clear_def set_max_interval_def
  flood_set_max_size_def flood_remove_list_def flood_get_list_def expire_list_def flood_expire_def
  flood_add_item_def flood_del_item_def get_item_count_def

text \<open>A manager driven by calls; one that is undefined has no result.\<close>

datatype ('id, 'd) flood_call =
  Add_list 'id | Remove_list 'id | Clear | Expire int 'id | Add_item int 'id 'd | Del_item 'id 'd
  | Set_max_interval u32 | Set_max_size u32

fun flood_step :: "('id, 'd) flood_call \<Rightarrow> ('id, 'd) FloodManager \<Rightarrow> ('id, 'd) FloodManager option" where
  "flood_step (Add_list i) fm = Some (flood_add_list i fm)"
| "flood_step (Remove_list i) fm = Some (snd (flood_remove_list i fm))"
| "flood_step Clear fm = Some (flood_clear fm)"
| "flood_step (Expire now i) fm = Some (flood_expire now i fm)"
| "flood_step (Add_item now i d) fm = map_option snd (flood_add_item now i d fm)"
| "flood_step (Del_item i d) fm = Some (snd (flood_del_item i d fm))"
| "flood_step (Set_max_interval v) fm = Some (set_max_interval v fm)"
| "flood_step (Set_max_size v) fm = Some (flood_set_max_size v fm)"

text \<open>The bounds a manager has had, in order.\<close>

fun flood_bounds :: "u32 \<Rightarrow> ('id, 'd) flood_call list \<Rightarrow> u32 list" where
  "flood_bounds b [] = [b]"
| "flood_bounds b (Set_max_size v # cs) = b # flood_bounds v cs"
| "flood_bounds b (c # cs) = flood_bounds b cs"

text \<open>The invariant of a manager whose bound was never above \<open>b\<close>, for calls that keep it so.\<close>

definition flood_inv :: "u32 \<Rightarrow> ('id, 'd) FloodManager \<Rightarrow> bool" where
  "flood_inv b fm \<longleftrightarrow> 0 < fm_max_interval fm \<and> fm_max_size fm \<le> b \<and>
     (\<forall>i l. fm_lists fm i = Some l \<longrightarrow> sorted (map fst l) \<and> length l \<le> unat b)"

fun flood_call_within :: "u32 \<Rightarrow> ('id, 'd) flood_call \<Rightarrow> bool" where
  "flood_call_within b (Set_max_size v) \<longleftrightarrow> v \<le> b"
| "flood_call_within b _ \<longleftrightarrow> True"

lemma flood_inv_list:
  "flood_inv b fm \<Longrightarrow> fm_lists fm i = Some l \<Longrightarrow> sorted (map fst l)"
  "flood_inv b fm \<Longrightarrow> fm_lists fm i = Some l \<Longrightarrow> length l \<le> unat b"
  by (auto simp: flood_inv_def)

lemma flood_inv_update:
  assumes "flood_inv b fm" and "sorted (map fst l)" and "length l \<le> unat b"
  shows "flood_inv b (fm\<lparr>fm_lists := (fm_lists fm)(i \<mapsto> l)\<rparr>)"
  using assms by (auto simp: flood_inv_def)

lemma flood_add_item_inv:
  assumes inv: "flood_inv b fm" and eq: "flood_add_item now i d fm = Some (r, fm')"
  shows "flood_inv b fm'"
proof (cases "fm_lists fm i")
  case None
  with eq inv show ?thesis by (simp add: flood_add_item_def)
next
  case (Some l)
  note l = flood_inv_list [OF inv Some]
  show ?thesis
  proof (cases "unat (fm_max_size fm) \<le> length l")
    case True
    then obtain e rest where "l = e # rest"
      and "fm' = fm\<lparr>fm_lists := (fm_lists fm)(i \<mapsto> mm_insert now d rest)\<rparr>"
      using eq Some by (auto simp: flood_add_item_def split: list.splits)
    then show ?thesis using l inv by (auto intro!: flood_inv_update sorted_mm_insert)
  next
    case False
    moreover have "unat (fm_max_size fm) \<le> unat b" using inv by (simp add: flood_inv_def word_le_nat_alt)
    moreover have "fm' = fm\<lparr>fm_lists := (fm_lists fm)(i \<mapsto> mm_insert now d l)\<rparr>"
      using eq Some False by (simp add: flood_add_item_def)
    ultimately show ?thesis using l inv by (auto intro!: flood_inv_update sorted_mm_insert)
  qed
qed

interpretation flood: partial_stepping "\<lambda>c fm. if flood_call_within b c then flood_step c fm else None" "flood_inv b" for b
proof
  fix fm fm' :: "('id, 'd) FloodManager" and c
  assume inv: "flood_inv b fm" and "(if flood_call_within b c then flood_step c fm else None) = Some fm'"
  then have c: "flood_call_within b c" and step: "flood_step c fm = Some fm'" by (simp_all split: if_splits)
  show "flood_inv b fm'"
  proof (cases c)
    case (Add_list i)
    then show ?thesis using inv step by (auto simp: flood_add_list_def flood_inv_def split: option.splits if_splits)
  next
    case (Remove_list i)
    then show ?thesis using inv step
      by (auto simp: flood_remove_list_def flood_inv_def split: option.splits if_splits)
  next
    case Clear
    then show ?thesis using inv step by (auto simp: flood_clear_def flood_inv_def)
  next
    case (Expire now i)
    then show ?thesis using inv step flood_inv_list [OF inv, of i]
      by (auto simp: flood_expire_def flood_get_list_def expire_list_def Let_def
          from_lower_bound_sorted sorted_filter
          intro!: flood_inv_update le_trans [OF length_filter_le] split: option.splits)
  next
    case (Add_item now i d)
    then show ?thesis using step flood_add_item_inv [OF inv] by auto
  next
    case (Del_item i d)
    then show ?thesis using inv step flood_inv_list [OF inv, of i]
      by (auto simp: flood_del_item_def sorted_filter
          intro!: flood_inv_update le_trans [OF length_filter_le] split: option.splits)
  next
    case (Set_max_interval v)
    then show ?thesis using inv step by (auto simp: set_max_interval_def flood_inv_def word_neq_0_conv)
  next
    case (Set_max_size v)
    then show ?thesis using inv step c by (auto simp: flood_set_max_size_def flood_inv_def)
  qed
qed

lemma flood_new_inv: "ucast ms \<le> b \<Longrightarrow> flood_inv b (FloodManager_new mi ms)"
  by (simp add: flood_inv_def FloodManager_new_def word_neq_0_conv)

lemma flood_bounds_simps [simp]: "flood_bounds v cs \<noteq> []" "hd (flood_bounds v cs) = v"
  by (induction v cs rule: flood_bounds.induct) simp_all

lemma flood_bounds_within: "(\<forall>v \<in> set (flood_bounds v cs). v \<le> b) \<longleftrightarrow> v \<le> b \<and> (\<forall>c \<in> set cs. flood_call_within b c)"
  by (induction v cs rule: flood_bounds.induct) auto

lemma flood_run_inv:
  assumes "defined_run flood_step cs (FloodManager_new mi ms) = Some fm" "\<forall>v \<in> set (flood_bounds (ucast ms) cs). v \<le> b"
  shows "flood_inv b fm"
proof -
  have "ucast ms \<le> b" and c: "\<forall>c \<in> set cs. flood_call_within b c" using assms(2) by (simp_all add: flood_bounds_within)
  have "defined_run (\<lambda>c fm. if flood_call_within b c then flood_step c fm else None) cs (FloodManager_new mi ms) = Some fm"
    unfolding assms(1) [symmetric] using c by (intro defined_run_cong) simp
  with flood_new_inv [OF \<open>ucast ms \<le> b\<close>] show ?thesis by (rule flood.run_keeps_inv)
qed

text \<open>The bound is the one set last.\<close>

lemma flood_step_max_size:
  "flood_step c fm = Some fm' \<Longrightarrow> fm_max_size fm' = (case c of Set_max_size v \<Rightarrow> v | _ \<Rightarrow> fm_max_size fm)"
  by (cases c) (auto simp: flood_defs split: option.splits list.splits if_splits)

lemma flood_run_max_size:
  "defined_run flood_step cs fm = Some fm' \<Longrightarrow> fm_max_size fm' = last (flood_bounds (fm_max_size fm) cs)"
proof (induction cs arbitrary: fm)
  case (Cons c cs)
  then obtain fm1 where 1: "flood_step c fm = Some fm1" "defined_run flood_step cs fm1 = Some fm'"
    by (auto simp: bind_eq_Some_conv)
  then show ?case using Cons.IH [OF 1(2)] flood_step_max_size [OF 1(1)] by (cases c) simp_all
qed simp

lemma get_item_count_sorted:
  assumes "fm_lists fm i = Some l" and "sorted (map fst l)"
  shows "get_item_count now i d interval fm =
    of_nat (length (filter (\<lambda>e. now - uint interval \<le> fst e \<and> snd e = d) l))"
proof -
  have "filter (\<lambda>e. snd e = d) (filter (\<lambda>e. now - uint interval \<le> fst e) l) =
      filter (\<lambda>e. now - uint interval \<le> fst e \<and> snd e = d) l"
    by (simp add: conj_commute)
  moreover from this have "filter (\<lambda>e. now - uint interval \<le> fst e) l = [] \<Longrightarrow>
      filter (\<lambda>e. now - uint interval \<le> fst e \<and> snd e = d) l = []"
    by (metis filter.simps(1))
  ultimately show ?thesis
    using assms by (auto simp: get_item_count_def Let_def from_lower_bound_sorted)
qed

text \<open>Expiring never drops what a later query within the interval would count.\<close>

lemma get_item_count_expire:
  assumes inv: "flood_inv b fm" and i: "fm_lists fm i = Some l"
    and "t \<le> now" and "interval \<le> fm_max_interval fm"
  shows "get_item_count now i d interval (flood_expire t i fm) = get_item_count now i d interval fm"
proof -
  let ?l = "expire_list t (fm_max_interval fm) l"
  have sorted: "sorted (map fst l)" using flood_inv_list(1) [OF inv i] .
  have "uint interval \<le> uint (fm_max_interval fm)" using assms(4) by (simp add: word_le_def)
  then have "filter (\<lambda>e. now - uint interval \<le> fst e \<and> snd e = d) ?l =
      filter (\<lambda>e. now - uint interval \<le> fst e \<and> snd e = d) l"
    using sorted assms(3) by (auto simp: expire_list_def Let_def from_lower_bound_sorted intro!: filter_cong)
  moreover have "fm_lists (flood_expire t i fm) i = Some ?l" and "sorted (map fst ?l)"
    using i sorted by (simp_all add: flood_expire_def flood_get_list_def expire_list_def Let_def
        from_lower_bound_sorted sorted_filter)
  ultimately show ?thesis
    using get_item_count_sorted [OF i sorted] by (simp add: get_item_count_sorted)
qed

text \<open>A bound of zero, which \<open>set_max_size\<close> accepts and the constructor makes of \<open>2^32\<close>.\<close>

lemma flood_zero_bound_undefined:
  "flood_add_item now i d (flood_add_list i (FloodManager_new a 4294967296)) = None"
  "flood_add_item now i d (flood_set_max_size 0 (flood_add_list i (FloodManager_new a b))) = None"
  by (simp_all add: flood_defs)

section \<open>ListManager\<close>

record ('id, 'd) ListManager =
  lm_lists :: "'id \<rightharpoonup> 'd list"
  lm_max_size :: u32

definition ListManager_new :: "u32 \<Rightarrow> ('id, 'd) ListManager" where
  "ListManager_new max_size = \<lparr>lm_lists = Map.empty, lm_max_size = max_size\<rparr>"

definition lm_add_list :: "'id \<Rightarrow> ('id, 'd) ListManager \<Rightarrow> ('id, 'd) ListManager" where
  "lm_add_list list_id lm =
     (case lm_lists lm list_id of
        None \<Rightarrow> lm\<lparr>lm_lists := (lm_lists lm)(list_id \<mapsto> [])\<rparr>
      | Some _ \<Rightarrow> lm)"

definition lm_clear :: "('id, 'd) ListManager \<Rightarrow> ('id, 'd) ListManager" where
  "lm_clear lm = lm\<lparr>lm_lists := Map.empty\<rparr>"

definition lm_set_max_size :: "u32 \<Rightarrow> ('id, 'd) ListManager \<Rightarrow> ('id, 'd) ListManager" where
  "lm_set_max_size v lm = lm\<lparr>lm_max_size := v\<rparr>"

definition lm_remove_list :: "'id \<Rightarrow> ('id, 'd) ListManager \<Rightarrow> bool \<times> ('id, 'd) ListManager" where
  "lm_remove_list list_id lm =
     (case lm_lists lm list_id of
        Some _ \<Rightarrow> (True, lm\<lparr>lm_lists := (lm_lists lm)(list_id := None)\<rparr>)
      | None \<Rightarrow> (False, lm))"

definition get_sublist_size :: "'id \<Rightarrow> ('id, 'd) ListManager \<Rightarrow> c_int" where
  "get_sublist_size list_id lm =
     (case lm_lists lm list_id of None \<Rightarrow> 0 | Some l \<Rightarrow> of_nat (length l))"

text \<open>A returned pointer is the position of the element in its vector.\<close>

definition add_sublist_item :: "'id \<Rightarrow> 'd \<Rightarrow> ('id, 'd) ListManager \<Rightarrow> nat option \<times> ('id, 'd) ListManager" where
  "add_sublist_item list_id item lm =
     (case lm_lists lm list_id of
        None \<Rightarrow> (None, lm)
      | Some l \<Rightarrow>
          (if length l \<ge> unat (lm_max_size lm) then (None, lm)
           else (Some (length l), lm\<lparr>lm_lists := (lm_lists lm)(list_id \<mapsto> l @ [item])\<rparr>)))"

definition del_sublist_item :: "'id \<Rightarrow> 'd \<Rightarrow> ('id, 'd) ListManager \<Rightarrow> bool \<times> ('id, 'd) ListManager" where
  "del_sublist_item list_id item lm =
     (case lm_lists lm list_id of
        None \<Rightarrow> (False, lm)
      | Some l \<Rightarrow> (True, lm\<lparr>lm_lists := (lm_lists lm)(list_id \<mapsto> removeAll item l)\<rparr>))"

fun find_item :: "'d \<Rightarrow> nat \<Rightarrow> 'd list \<Rightarrow> nat option" where
  "find_item item i [] = None"
| "find_item item i (x # l) = (if x = item then Some i else find_item item (i + 1) l)"

definition get_sublist_item :: "'id \<Rightarrow> 'd \<Rightarrow> ('id, 'd) ListManager \<Rightarrow> nat option" where
  "get_sublist_item list_id item lm =
     (case lm_lists lm list_id of None \<Rightarrow> None | Some l \<Rightarrow> find_item item 0 l)"

text \<open>The \<open>int\<close> index is compared with a \<open>size_t\<close>, so a negative one is out of range.\<close>

definition get_sublist_item_by_index :: "'id \<Rightarrow> c_int \<Rightarrow> ('id, 'd) ListManager \<Rightarrow> 'd option" where
  "get_sublist_item_by_index list_id idx lm =
     (case lm_lists lm list_id of
        None \<Rightarrow> None
      | Some l \<Rightarrow> (if unat (scast idx :: u64) \<ge> length l then None else Some (l ! unat (scast idx :: u64))))"

lemmas list_manager_defs = ListManager_new_def lm_add_list_def lm_clear_def lm_set_max_size_def
  lm_remove_list_def get_sublist_size_def add_sublist_item_def del_sublist_item_def
  get_sublist_item_def get_sublist_item_by_index_def

lemma find_item_None: "find_item x i l = None \<longleftrightarrow> x \<notin> set l"
  by (induction x i l rule: find_item.induct) auto

lemma find_item_snoc: "find_item x i (l @ [x]) \<noteq> None"
  by (simp add: find_item_None)

section \<open>Properties\<close>

text \<open>
  C30. A flood list answers rate queries exactly, whatever calls built the manager,
  \<open>set_max_size\<close> among them: \<open>get_item_count\<close> is the number of stored entries of that item stamped
  within the interval, and expiring the list before, at a time not after the query, does not
  change the answer for an interval up to the manager's. No list is longer than the largest
  bound the manager has had, and none than its present bound if that was never lowered. To add
  to a list is undefined just when the list is empty and the bound is zero.
\<close>

theorem FloodManager_counts:
  assumes fm: "defined_run flood_step cs (FloodManager_new mi ms) = Some fm" and i: "fm_lists fm i = Some l"
    and bs: "bs = flood_bounds (ucast ms) cs"
  shows "get_item_count now i d interval fm = of_nat (length (filter (\<lambda>e. now - uint interval \<le> fst e \<and> snd e = d) l)) \<and>
    (t \<le> now \<and> interval \<le> fm_max_interval fm \<longrightarrow>
      get_item_count now i d interval (flood_expire t i fm) = get_item_count now i d interval fm) \<and>
    length l \<le> unat (Max (set bs)) \<and> fm_max_size fm = last bs \<and> (sorted bs \<longrightarrow> length l \<le> unat (fm_max_size fm)) \<and>
    (flood_add_item now i d fm = None \<longleftrightarrow> l = [] \<and> fm_max_size fm = 0)"
proof -
  have ne: "bs \<noteq> []" by (simp add: bs)
  have inv: "flood_inv (Max (set bs)) fm" by (rule flood_run_inv [OF fm]) (simp add: bs)
  have size: "fm_max_size fm = last bs"
    using flood_run_max_size [OF fm] by (simp add: bs FloodManager_new_def)
  have "Max (set bs) \<le> last bs" if "sorted bs"
    using that ne sorted_iff_nth_mono [of bs] by (auto simp: last_conv_nth in_set_conv_nth)
  then have "sorted bs \<longrightarrow> unat (Max (set bs)) \<le> unat (fm_max_size fm)" by (simp add: size word_le_nat_alt)
  then have "sorted bs \<longrightarrow> length l \<le> unat (fm_max_size fm)" using flood_inv_list(2) [OF inv i] le_trans by blast
  moreover have "flood_add_item now i d fm = None \<longleftrightarrow> l = [] \<and> fm_max_size fm = 0"
    using i by (auto simp: flood_add_item_def unat_eq_0 split: list.splits)
  ultimately show ?thesis
    using flood_inv_list [OF inv i] get_item_count_sorted [OF i] get_item_count_expire [OF inv i] size by simp
qed

text \<open>The bound is lowered below the length of a list: what is stored is still counted.\<close>

theorem FloodManager_counts_witness:
  "\<exists>fm. defined_run flood_step
      [Add_list (1::nat), Add_item 80 1 (7::nat), Add_item 95 1 7, Add_item 100 1 8, Add_item 101 1 7, Set_max_size 2]
      (FloodManager_new 20 3) = Some fm \<and>
    get_item_count 110 1 7 20 (flood_expire 105 1 fm) = 2 \<and> fm_max_size fm = 2 \<and> length (the (fm_lists fm 1)) = 3"
proof -
  let ?cs = "[Add_list 1, Add_item 80 1 7, Add_item 95 1 7, Add_item 100 1 8, Add_item 101 1 7, Set_max_size 2] :: (nat, nat) flood_call list"
  obtain fm where fm: "defined_run flood_step ?cs (FloodManager_new 20 3) = Some fm"
    and l: "fm_lists fm 1 = Some [(95, 7), (100, 8), (101, 7)]" and i: "fm_max_interval fm = 20"
    by (simp add: flood_defs)
  show ?thesis using FloodManager_counts [OF fm l refl, of 110 7 20 105] fm l i by (intro exI [of _ fm]) simp
qed

text \<open>
  A list manager stores what it is given and forgets what it is told to: an item that
  is accepted is found at the end of its list, by index as by value, a refused call means the list was full and changes nothing; after
  \<open>del_sublist_item\<close> the item is not found, and every other item still is.
\<close>

theorem ListManager_stores:
  assumes l: "lm_lists lm i = Some l" and "length l < 2 ^ 31"
    and add: "add_sublist_item i x lm = (r, lm')" and "y \<noteq> x"
  shows "(r = None \<longleftrightarrow> unat (lm_max_size lm) \<le> length l) \<and> (r = None \<longrightarrow> lm' = lm) \<and>
    (r \<noteq> None \<longrightarrow> get_sublist_item_by_index i (of_nat (length l)) lm' = Some x \<and>
      get_sublist_item i x lm' \<noteq> None) \<and>
    get_sublist_item i x (snd (del_sublist_item i x lm')) = None \<and>
    (get_sublist_item i y (snd (del_sublist_item i x lm')) = None \<longleftrightarrow> get_sublist_item i y lm = None)"
proof -
  have "unat (scast (of_nat (length l) :: c_int) :: u64) = length l"
  proof -
    have "sint (of_nat (length l) :: c_int) = int (length l)"
      using assms(2) by (simp add: signed_of_nat signed_take_bit_int_eq_self)
    then show ?thesis using assms(2) by (simp add: scast_eq unat_of_nat nat_mod_as_int)
  qed
  then show ?thesis
    using add l assms(4)
    by (auto simp: list_manager_defs find_item_None find_item_snoc [simplified] split: if_splits)
qed

theorem ListManager_stores_witness:
  "get_sublist_item_by_index (1::nat) 1
     (snd (add_sublist_item 1 (9::nat) \<lparr>lm_lists = [1 \<mapsto> [4]], lm_max_size = 5\<rparr>)) = Some 9"
  using ListManager_stores [of "\<lparr>lm_lists = [1::nat \<mapsto> [4::nat]], lm_max_size = 5\<rparr>" 1 "[4]" 9
      "fst (add_sublist_item 1 9 \<lparr>lm_lists = [1 \<mapsto> [4]], lm_max_size = 5\<rparr>)"
      "snd (add_sublist_item 1 9 \<lparr>lm_lists = [1 \<mapsto> [4]], lm_max_size = 5\<rparr>)" 4]
  by (simp add: add_sublist_item_def)

end
