(* ===== verification/Events.thy ===== *)
theory Events
  imports Interfaces
begin

text \<open>
  \<open>EventArgs\<close> and \<open>EventManager\<close> of \<^verbatim>\<open>src/utils/pmink_utils.h\<close>: handlers registered
  under an event and run with a map of arguments. A handler is a pointer (\<open>None\<close> for
  NULL) to an object whose virtual \<open>run\<close> is the parameter \<open>run\<close>: it may change the
  arguments and the rest of the world. Every method of \<open>EventManager\<close> holds the mutex
  throughout, so each is one step; a handler that calls back into its own manager
  would block on it and is not modelled.
\<close>

section \<open>Arguments\<close>

type_synonym ('k, 'v) EventArgs = "'k \<rightharpoonup> 'v"

definition add_arg :: "'k \<Rightarrow> 'v \<Rightarrow> ('k, 'v) EventArgs \<Rightarrow> ('k, 'v) EventArgs" where
  "add_arg i arg args = args(i \<mapsto> arg)"

definition get_arg :: "('k, 'v) EventArgs \<Rightarrow> 'k \<Rightarrow> 'v option" where
  "get_arg args i = (case args i of Some v \<Rightarrow> Some v | None \<Rightarrow> None)"

definition clear_args :: "('k, 'v) EventArgs \<Rightarrow> ('k, 'v) EventArgs" where
  "clear_args args = Map.empty"

section \<open>Handlers\<close>

type_synonym ('e, 'h) EventManager = "'e \<rightharpoonup> 'h option"

definition set_handler :: "'e \<Rightarrow> 'h option \<Rightarrow> ('e, 'h) EventManager \<Rightarrow> ('e, 'h) EventManager" where
  "set_handler i handler event_map = event_map(i \<mapsto> handler)"

definition remove_handler :: "'e \<Rightarrow> ('e, 'h) EventManager \<Rightarrow> ('e, 'h) EventManager" where
  "remove_handler i event_map =
     (case event_map i of Some _ \<Rightarrow> event_map(i := None) | None \<Rightarrow> event_map)"

text \<open>NULL for an event without a handler, and for one whose handler is NULL.\<close>

definition get_handler :: "('e, 'h) EventManager \<Rightarrow> 'e \<Rightarrow> 'h option" where
  "get_handler event_map i = (case event_map i of Some h \<Rightarrow> h | None \<Rightarrow> None)"

definition clear_handlers :: "('e, 'h) EventManager \<Rightarrow> ('e, 'h) EventManager" where
  "clear_handlers event_map = Map.empty"

text \<open>\<open>None\<close>: a call through a NULL handler.\<close>

definition run_handler ::
  "('h \<Rightarrow> ('k, 'v) EventArgs \<times> 'w \<Rightarrow> ('k, 'v) EventArgs \<times> 'w) \<Rightarrow> 'e \<Rightarrow> ('k, 'v) EventArgs \<times> 'w
    \<Rightarrow> ('e, 'h) EventManager \<Rightarrow> (c_int \<times> ('k, 'v) EventArgs \<times> 'w) option" where
  "run_handler run i args event_map =
     (case event_map i of
        None \<Rightarrow> Some (1, args)
      | Some None \<Rightarrow> None
      | Some (Some h) \<Rightarrow> Some (0, run h args))"

lemmas [table_defs] = add_arg_def get_arg_def clear_args_def set_handler_def remove_handler_def
  get_handler_def clear_handlers_def run_handler_def

section \<open>Both are keyed tables\<close>

lemma get_handler_fun: "get_handler (event_map(i := x)) = (get_handler event_map)(i := Option.bind x id)"
  by (auto simp: get_handler_def split: option.splits)

interpretation handlers: keyed_table get_handler "\<lambda>i h. set_handler i (Some h)" remove_handler
proof
  fix i :: 'e and h :: 'h and t :: "('e, 'h) EventManager"
  show "get_handler (set_handler i (Some h) t) = (get_handler t)(i := Some h)"
    by (simp add: set_handler_def get_handler_fun)
  show "get_handler (remove_handler i t) = (get_handler t)(i := None)"
    by (cases "t i") (auto simp: remove_handler_def get_handler_def)
qed

lemma handlers_never_null:
  "(\<forall>i. m i \<noteq> Some None) \<Longrightarrow>
    table_run (\<lambda>i h. set_handler i (Some h)) remove_handler ops m i \<noteq> Some None"
proof (induction ops arbitrary: m)
  case Nil
  then show ?case by simp
next
  case (Cons op ops)
  then show ?case
    by (cases op) (auto simp: set_handler_def remove_handler_def split: option.splits)
qed

section \<open>Properties\<close>

text \<open>
  An event runs the handler registered for it last: after any sequence of
  \<open>set_handler\<close> (with a handler that is not NULL) and \<open>remove_handler\<close> calls,
  \<open>run_handler\<close> runs exactly the handler of the last call for that event and returns 0;
  if that call removed it, or there was none, it returns 1 and runs nothing.
\<close>

theorem EventManager_runs_last_handler:
  "run_handler run i args
     (table_run (\<lambda>i h. set_handler i (Some h)) remove_handler ops (clear_handlers m)) =
   (case last_write i ops None of
      None \<Rightarrow> Some (1, args)
    | Some h \<Rightarrow> Some (0, run h args))"
proof -
  let ?m = "table_run (\<lambda>i h. set_handler i (Some h)) remove_handler ops (clear_handlers m)"
  have "?m i \<noteq> Some None"
    by (rule handlers_never_null) (simp add: clear_handlers_def)
  moreover have "get_handler ?m i = last_write i ops None"
    unfolding handlers.lookup_run by (simp add: get_handler_def clear_handlers_def)
  ultimately show ?thesis
    by (auto simp: run_handler_def get_handler_def split: option.splits)
qed

end
