(* ===== verification/Master_Slave.thy ===== *)
theory Master_Slave
  imports Interfaces
begin

text \<open>
  \<open>MTMasterSlave\<close> of \<^verbatim>\<open>src/utils/pmink_utils.h\<close>: slave threads keep private copies of
  the master's data and refresh them when the master's update counter has moved. The
  methods are first modelled as they run alone; then as threads interleave them, one
  step for every access of the mutex, of a counter or of the data under the mutex:
  \<open>update_end\<close> unlocks before it counts, \<open>sync\<close> reads the counter before it locks.
\<close>

section \<open>The methods alone\<close>

record 'd endpoint =
  updtc :: u32
  ms_data :: 'd

text \<open>
  \<open>sync\<close>, run with nobody holding the mutex; \<open>master\<close> is \<open>None\<close> for NULL. \<open>sync_locked\<close>
  does the same and returns with the mutex held, which the flag of its result says.
\<close>

definition sync :: "bool \<Rightarrow> 'd endpoint option \<Rightarrow> 'd endpoint \<Rightarrow> bool \<times> 'd endpoint" where
  "sync is_master master slave =
     (case master of
        None \<Rightarrow> (False, slave)
      | Some m \<Rightarrow>
          (if is_master then (False, slave)
           else (let master_c = updtc m in
                 if master_c = updtc slave then (False, slave)
                 else (True, slave\<lparr>ms_data := ms_data m, updtc := master_c\<rparr>))))"

definition sync_locked :: "bool \<Rightarrow> 'd endpoint option \<Rightarrow> 'd endpoint \<Rightarrow> bool \<times> bool \<times> 'd endpoint" where
  "sync_locked is_master master slave =
     (case master of
        None \<Rightarrow> (False, False, slave)
      | Some m \<Rightarrow>
          (if is_master then (False, False, slave)
           else (let master_c = updtc m in
                 if master_c = updtc slave then (False, False, slave)
                 else (True, True, slave\<lparr>ms_data := ms_data m, updtc := master_c\<rparr>))))"

definition can_sync :: "'d endpoint \<Rightarrow> 'd endpoint \<Rightarrow> bool" where
  "can_sync master slave = (let master_c = updtc master in if master_c \<noteq> updtc slave then True else False)"

section \<open>Threads\<close>

text \<open>Where a thread stands in a method; the counter value is the local \<open>master_c\<close>.\<close>

datatype writer_pc = W_Idle | W_Locked | W_Unlocked

datatype slave_pc =
    S_Idle
  | S_Checked bool u32
  | S_Locked bool u32
  | S_Copied bool u32
  | S_Released u32
  | S_Holding

datatype owner = Writer nat | Slave nat

text \<open>
  The boolean of a slave says whether it runs \<open>sync_locked\<close>. \<open>updates\<close> is a history
  variable, the number of updates that have been counted.
\<close>

record 'd sys =
  master :: "'d endpoint"
  mtx :: "owner option"
  writers :: "nat \<Rightarrow> writer_pc"
  slaves :: "nat \<Rightarrow> 'd endpoint"
  pcs :: "nat \<Rightarrow> slave_pc"
  updates :: nat

definition sys_init :: "'d \<Rightarrow> 'd sys" where
  "sys_init d =
     \<lparr>master = \<lparr>updtc = 0, ms_data = d\<rparr>, mtx = None, writers = (\<lambda>_. W_Idle),
      slaves = (\<lambda>_. \<lparr>updtc = 0, ms_data = d\<rparr>), pcs = (\<lambda>_. S_Idle), updates = 0\<rparr>"

inductive ms_step :: "'d sys \<Rightarrow> 'd sys \<Rightarrow> bool" where
  update_start:
    "writers s w = W_Idle \<Longrightarrow> mtx s = None \<Longrightarrow>
      ms_step s (s\<lparr>mtx := Some (Writer w), writers := (writers s)(w := W_Locked)\<rparr>)"
| write_data:
    "writers s w = W_Locked \<Longrightarrow>
      ms_step s (s\<lparr>master := (master s)\<lparr>ms_data := d\<rparr>\<rparr>)"
| update_end_unlock:
    "writers s w = W_Locked \<Longrightarrow>
      ms_step s (s\<lparr>mtx := None, writers := (writers s)(w := W_Unlocked)\<rparr>)"
| update_end_count:
    "writers s w = W_Unlocked \<Longrightarrow>
      ms_step s (s\<lparr>master := (master s)\<lparr>updtc := updtc (master s) + 1\<rparr>,
                   writers := (writers s)(w := W_Idle), updates := Suc (updates s)\<rparr>)"
| sync_check:
    "pcs s i = S_Idle \<Longrightarrow> updtc (master s) \<noteq> updtc (slaves s i) \<Longrightarrow>
      ms_step s (s\<lparr>pcs := (pcs s)(i := S_Checked b (updtc (master s)))\<rparr>)"
| sync_lock:
    "pcs s i = S_Checked b c \<Longrightarrow> mtx s = None \<Longrightarrow>
      ms_step s (s\<lparr>mtx := Some (Slave i), pcs := (pcs s)(i := S_Locked b c)\<rparr>)"
| sync_copy:
    "pcs s i = S_Locked b c \<Longrightarrow>
      ms_step s (s\<lparr>slaves := (slaves s)(i := (slaves s i)\<lparr>ms_data := ms_data (master s)\<rparr>),
                   pcs := (pcs s)(i := S_Copied b c)\<rparr>)"
| sync_unlock:
    "pcs s i = S_Copied False c \<Longrightarrow>
      ms_step s (s\<lparr>mtx := None, pcs := (pcs s)(i := S_Released c)\<rparr>)"
| sync_set:
    "pcs s i = S_Released c \<Longrightarrow>
      ms_step s (s\<lparr>slaves := (slaves s)(i := (slaves s i)\<lparr>updtc := c\<rparr>),
                   pcs := (pcs s)(i := S_Idle)\<rparr>)"
| sync_locked_set:
    "pcs s i = S_Copied True c \<Longrightarrow>
      ms_step s (s\<lparr>slaves := (slaves s)(i := (slaves s i)\<lparr>updtc := c\<rparr>),
                   pcs := (pcs s)(i := S_Holding)\<rparr>)"
| slave_unlock:
    "pcs s i = S_Holding \<Longrightarrow>
      ms_step s (s\<lparr>mtx := None, pcs := (pcs s)(i := S_Idle)\<rparr>)"

inductive ms_steps :: "'d sys \<Rightarrow> 'd sys \<Rightarrow> bool" where
  ms_refl: "ms_steps s s"
| ms_trans: "ms_steps s t \<Longrightarrow> ms_step t u \<Longrightarrow> ms_steps s u"

inductive_cases ms_stepE: "ms_step s t"

section \<open>The invariant\<close>

text \<open>The counter value a slave has recorded or is about to record.\<close>

fun noted :: "slave_pc \<Rightarrow> u32 \<Rightarrow> u32" where
  "noted (S_Copied b c) d = c"
| "noted (S_Released c) d = c"
| "noted pc d = d"

fun holding :: "slave_pc \<Rightarrow> bool" where
  "holding S_Idle = False"
| "holding (S_Checked b c) = False"
| "holding (S_Locked b c) = True"
| "holding (S_Copied b c) = True"
| "holding (S_Released c) = False"
| "holding S_Holding = True"

fun pending_values :: "slave_pc \<Rightarrow> u32 list" where
  "pending_values (S_Checked b c) = [c]"
| "pending_values (S_Locked b c) = [c]"
| "pending_values (S_Copied b c) = [c]"
| "pending_values (S_Released c) = [c]"
| "pending_values _ = []"

definition quiet :: "'d sys \<Rightarrow> bool" where
  "quiet s \<longleftrightarrow> (\<forall>w. writers s w = W_Idle)"

definition mutex_inv :: "'d sys \<Rightarrow> bool" where
  "mutex_inv s \<longleftrightarrow>
     (\<forall>w. writers s w = W_Locked \<longleftrightarrow> mtx s = Some (Writer w)) \<and>
     (\<forall>i. holding (pcs s i) \<longleftrightarrow> mtx s = Some (Slave i))"

definition fresh_inv :: "'d sys \<Rightarrow> bool" where
  "fresh_inv s \<longleftrightarrow>
     updtc (master s) = of_nat (updates s) \<and>
     (\<forall>i. unat (updtc (slaves s i)) \<le> updates s) \<and>
     (\<forall>i. \<forall>c \<in> set (pending_values (pcs s i)). unat c \<le> updates s) \<and>
     (\<forall>i. ms_data (slaves s i) \<noteq> ms_data (master s) \<longrightarrow>
        unat (noted (pcs s i) (updtc (slaves s i))) < updates s \<or> \<not> quiet s)"

lemma mutex_step: "ms_step s t \<Longrightarrow> mutex_inv s \<Longrightarrow> mutex_inv t"
proof (induction rule: ms_step.induct)
  case (update_start s w)
  then show ?case by (auto simp: mutex_inv_def)
next
  case (write_data s w d)
  then show ?case by (simp add: mutex_inv_def)
next
  case (update_end_unlock s w)
  then show ?case unfolding mutex_inv_def by (auto simp: eq_commute)
next
  case (update_end_count s w)
  then have "mtx s \<noteq> Some (Writer w)" by (metis mutex_inv_def writer_pc.distinct(5))
  with update_end_count show ?case by (auto simp: mutex_inv_def)
next
  case (sync_check s i b)
  then show ?case by (auto simp: mutex_inv_def) (metis holding.simps(1))
next
  case (sync_lock s i b c)
  then show ?case by (auto simp: mutex_inv_def)
next
  case (sync_copy s i b c)
  then show ?case by (auto simp: mutex_inv_def)
next
  case (sync_unlock s i c)
  then have "mtx s = Some (Slave i)" by (metis holding.simps(4) mutex_inv_def)
  with sync_unlock show ?case by (auto simp: mutex_inv_def)
next
  case (sync_set s i c)
  then show ?case by (auto simp: mutex_inv_def) (metis holding.simps(5))
next
  case (sync_locked_set s i c)
  then show ?case by (auto simp: mutex_inv_def)
next
  case (slave_unlock s i)
  then have "mtx s = Some (Slave i)" by (metis holding.simps(6) mutex_inv_def)
  with slave_unlock show ?case by (auto simp: mutex_inv_def)
qed

lemma noted_le: "fresh_inv s \<Longrightarrow> unat (noted (pcs s i) (updtc (slaves s i))) \<le> updates s"
  by (cases "pcs s i") (auto simp: fresh_inv_def, (metis list.set_intros(1) pending_values.simps)+)

lemma unat_of_nat_le: "unat (of_nat n :: 'a::len word) \<le> n"
  by (simp add: unat_of_nat)

lemma pending_value:
  "\<forall>i. \<forall>c \<in> set (pending_values (pcs s i)). unat c \<le> n \<Longrightarrow> pcs s i = pc \<Longrightarrow> pending_values pc = [c] \<Longrightarrow>
    unat c \<le> n"
  by (metis list.set_intros(1))

lemma fresh_step: "ms_step s t \<Longrightarrow> fresh_inv s \<Longrightarrow> fresh_inv t"
proof (induction rule: ms_step.induct)
  case (update_end_count s w)
  have "unat (noted (pcs s i) (updtc (slaves s i))) < Suc (updates s)" for i
    using noted_le [OF update_end_count(2), of i] by simp
  with update_end_count show ?case
    by (auto simp: fresh_inv_def le_SucI)
qed (auto simp: fresh_inv_def quiet_def unat_of_nat_le dest: pending_value split: if_splits)


lemma sys_init_inv: "mutex_inv (sys_init d) \<and> fresh_inv (sys_init d)"
  by (simp add: mutex_inv_def fresh_inv_def sys_init_def)

lemma reachable_inv: "ms_steps s t \<Longrightarrow> mutex_inv s \<and> fresh_inv s \<Longrightarrow> mutex_inv t \<and> fresh_inv t"
  by (induction rule: ms_steps.induct) (auto intro: mutex_step fresh_step)

section \<open>A refresh that runs alone\<close>

lemma sync_alone_steps:
  assumes pc: "pcs s i = S_Idle" and free: "mtx s = None" and moved: "updtc (master s) \<noteq> updtc (slaves s i)"
    and t: "t = s\<lparr>slaves := (slaves s)(i := snd (sync False (Some (master s)) (slaves s i)))\<rparr>"
  shows "ms_steps s t"
proof -
  let ?c = "updtc (master s)"
  let ?s1 = "s\<lparr>pcs := (pcs s)(i := S_Checked False ?c)\<rparr>"
  let ?s2 = "?s1\<lparr>mtx := Some (Slave i), pcs := (pcs ?s1)(i := S_Locked False ?c)\<rparr>"
  let ?s3 = "?s2\<lparr>slaves := (slaves ?s2)(i := (slaves ?s2 i)\<lparr>ms_data := ms_data (master ?s2)\<rparr>),
    pcs := (pcs ?s2)(i := S_Copied False ?c)\<rparr>"
  let ?s4 = "?s3\<lparr>mtx := None, pcs := (pcs ?s3)(i := S_Released ?c)\<rparr>"
  let ?s5 = "?s4\<lparr>slaves := (slaves ?s4)(i := (slaves ?s4 i)\<lparr>updtc := ?c\<rparr>), pcs := (pcs ?s4)(i := S_Idle)\<rparr>"
  have "ms_step s ?s1" using pc moved by (rule sync_check)
  moreover have "ms_step ?s1 ?s2" by (rule sync_lock) (simp_all add: free)
  moreover have "ms_step ?s2 ?s3" by (rule sync_copy) simp
  moreover have "ms_step ?s3 ?s4" by (rule sync_unlock) simp
  moreover have "ms_step ?s4 ?s5" by (rule sync_set) simp
  ultimately have "ms_steps s ?s5" by (meson ms_refl ms_trans)
  moreover have "(pcs s)(i := S_Idle) = pcs s" using pc by auto
  then have "?s5 = t"
    using moved free by (simp add: t sync_def)
  ultimately show ?thesis by simp
qed

section \<open>Properties\<close>

text \<open>
  C6. A slave never takes old data for current: however master and slave threads
  interleave, and as long as fewer than \<open>2^32\<close> updates have been counted, when no update
  is in progress and a slave between calls has the master's counter, it has the master's
  data; and a copy is never torn, because a slave that holds the mutex excludes every
  writer.
\<close>

theorem MTMasterSlave_no_stale_data:
  assumes "ms_steps (sys_init d) s" and "updates s < 2 ^ 32" and "quiet s"
    and "pcs s i = S_Idle" and "updtc (slaves s i) = updtc (master s)"
  shows "ms_data (slaves s i) = ms_data (master s) \<and>
    (holding (pcs s j) \<longrightarrow> writers s w \<noteq> W_Locked)"
proof -
  have inv: "mutex_inv s \<and> fresh_inv s" using reachable_inv [OF assms(1) sys_init_inv] .
  have "unat (updtc (master s)) = updates s"
    using inv assms(2) by (simp add: fresh_inv_def unat_of_nat)
  then have "ms_data (slaves s i) = ms_data (master s)"
    using inv assms(3,4,5) unfolding fresh_inv_def by (metis less_irrefl noted.simps(3))
  moreover have "holding (pcs s j) \<longrightarrow> writers s w \<noteq> W_Locked"
    using inv unfolding mutex_inv_def by (metis option.inject owner.distinct(1))
  ultimately show ?thesis by simp
qed

theorem MTMasterSlave_no_stale_data_witness:
  "\<exists>s. ms_steps (sys_init (0::nat)) s \<and> ms_data (master s) = 7 \<and> ms_data (slaves s 4) = 7"
proof -
  let ?s0 = "sys_init (0::nat)"
  let ?s1 = "?s0\<lparr>mtx := Some (Writer 2), writers := (writers ?s0)(2 := W_Locked)\<rparr>"
  let ?s2 = "?s1\<lparr>master := (master ?s1)\<lparr>ms_data := 7\<rparr>\<rparr>"
  let ?s3 = "?s2\<lparr>mtx := None, writers := (writers ?s2)(2 := W_Unlocked)\<rparr>"
  let ?s4 = "?s3\<lparr>master := (master ?s3)\<lparr>updtc := updtc (master ?s3) + 1\<rparr>,
    writers := (writers ?s3)(2 := W_Idle), updates := Suc (updates ?s3)\<rparr>"
  let ?s5 = "?s4\<lparr>slaves := (slaves ?s4)(4 := snd (sync False (Some (master ?s4)) (slaves ?s4 4)))\<rparr>"
  have "ms_step ?s0 ?s1" by (rule update_start) (simp_all add: sys_init_def)
  moreover have "ms_step ?s1 ?s2" by (rule write_data [where w = 2]) simp
  moreover have "ms_step ?s2 ?s3" by (rule update_end_unlock) simp
  moreover have "ms_step ?s3 ?s4" by (rule update_end_count) simp
  ultimately have s4: "ms_steps ?s0 ?s4" by (meson ms_refl ms_trans)
  have "ms_steps ?s4 ?s5" by (rule sync_alone_steps [OF _ _ _ refl]) (simp_all add: sys_init_def)
  then have run: "ms_steps ?s0 ?s5" using s4 by (induction rule: ms_steps.induct) (auto intro: ms_trans)
  have "ms_data (slaves ?s5 4) = ms_data (master ?s5)"
    by (rule MTMasterSlave_no_stale_data [OF run, THEN conjunct1])
      (simp_all add: sys_init_def sync_def quiet_def)
  moreover have "ms_data (master ?s5) = 7" by simp
  ultimately show ?thesis using run by metis
qed

text \<open>
  C33. A refresh that is not disturbed brings the slave up to date: from any reachable
  state with the mutex free and no update in progress, a slave between calls can run one
  \<open>sync\<close> to the end, which leaves it with the master's data and counter and changes
  nothing else; when the counters agree already, \<open>sync\<close> returns false and changes nothing.
\<close>

theorem MTMasterSlave_sync_refreshes:
  assumes "ms_steps (sys_init d) s" and "updates s < 2 ^ 32" and "quiet s"
    and "mtx s = None" and "pcs s i = S_Idle"
    and t: "t = s\<lparr>slaves := (slaves s)(i := snd (sync False (Some (master s)) (slaves s i)))\<rparr>"
  shows "ms_steps s t \<and> ms_data (slaves t i) = ms_data (master s) \<and>
    updtc (slaves t i) = updtc (master s) \<and>
    fst (sync False (Some (master s)) (slaves s i)) = can_sync (master s) (slaves s i)"
proof (cases "updtc (master s) = updtc (slaves s i)")
  case True
  have "unat (updtc (master s)) = updates s" and inv: "fresh_inv s"
    using reachable_inv [OF assms(1) sys_init_inv] assms(2) by (simp_all add: fresh_inv_def unat_of_nat)
  then have "ms_data (slaves s i) = ms_data (master s)"
    using True assms(3,5) unfolding fresh_inv_def by (metis less_irrefl noted.simps(3))
  moreover have "t = s" using True by (simp add: t sync_def)
  ultimately show ?thesis using True by (simp add: sync_def can_sync_def ms_refl)
next
  case False
  then show ?thesis
    using sync_alone_steps [OF assms(5,4) False t] by (simp add: t sync_def can_sync_def Let_def)
qed

theorem MTMasterSlave_sync_refreshes_witness:
  "ms_data (slaves ((sys_init (5::nat))\<lparr>slaves := (slaves (sys_init 5))(3 :=
      snd (sync False (Some (master (sys_init 5))) (slaves (sys_init 5) 3)))\<rparr>) 3) = 5"
proof -
  have "quiet (sys_init (5::nat))" "mtx (sys_init (5::nat)) = None" "pcs (sys_init (5::nat)) 3 = S_Idle"
    "updates (sys_init (5::nat)) < 2 ^ 32" "ms_data (master (sys_init (5::nat))) = 5"
    by (simp_all add: sys_init_def quiet_def)
  then show ?thesis
    using MTMasterSlave_sync_refreshes [OF ms_refl, of "5::nat" 3, OF _ _ _ _ refl] by simp
qed

end
