(* ===== verification/Wrr.thy ===== *)
theory Wrr
  imports Interfaces
begin

text \<open>
  \<open>WRRItem\<close> and \<open>WRR\<close> of \<^verbatim>\<open>src/utils/pmink_utils.h\<close>: weighted round robin over a vector
  of items. An item pointer is its index in the vector; \<open>index\<close> and \<open>cw\<close> are C ints, the
  weights 32-bit unsigned, and the mixed subtractions and comparisons follow the
  integer conversions of the code. Not modelled: \<open>remove(iterator)\<close>, which calls a
  vector method that does not exist and so is never instantiated.
\<close>

section \<open>State and operations\<close>

record 'd WRRItem =
  item_id :: string
  item :: 'd
  weight :: u32
  old_weight :: u32

record 'd WRR =
  items :: "'d WRRItem list"
  w_gcd :: u32
  w_max :: u32
  index :: c_int
  cw :: c_int

text \<open>The identifier is a C string, cut to 64 characters.\<close>

definition WRRItem_new :: "'d \<Rightarrow> string \<Rightarrow> u32 \<Rightarrow> 'd WRRItem" where
  "WRRItem_new d i w = \<lparr>item_id = take 64 i, item = d, weight = w, old_weight = w\<rparr>"

definition WRR_new :: "'d WRR" where
  "WRR_new = \<lparr>items = [], w_gcd = 0, w_max = 0, index = - 1, cw = 0\<rparr>"

function wrr_gcd :: "u32 \<Rightarrow> u32 \<Rightarrow> u32" where
  "wrr_gcd m n = (if n = 0 then m else wrr_gcd n (m mod n))"
  by pat_completeness auto

termination wrr_gcd
proof (relation "measure (\<lambda>(m, n). unat n)")
  fix m n :: u32
  assume "n \<noteq> 0"
  then have "unat (m mod n) < unat n"
    by (simp add: unat_mod_distrib unat_gt_0)
  then show "((n, m mod n), (m, n)) \<in> measure (\<lambda>(m, n). unat n)" by simp
qed simp

declare wrr_gcd.simps [simp del]

definition recalc :: "'d WRR \<Rightarrow> 'd WRR" where
  "recalc w =
     (case items w of
        [] \<Rightarrow> w\<lparr>w_gcd := 0, w_max := 0\<rparr>
      | i0 # rest \<Rightarrow>
          w\<lparr>w_gcd := foldl (\<lambda>g i. wrr_gcd g (weight i)) (weight i0) rest,
            w_max := foldl (\<lambda>m i. if weight i > m then weight i else m) 0 (items w)\<rparr>)"

definition add_item :: "'d \<Rightarrow> string \<Rightarrow> u32 \<Rightarrow> 'd WRR \<Rightarrow> nat \<times> 'd WRR" where
  "add_item d i w r =
     (length (items r), recalc (r\<lparr>items := items r @ [WRRItem_new d i w]\<rparr>))"

text \<open>
  The loop of \<open>run\<close>; \<open>c\<close> is what is left of \<open>size - c\<close>. The sum \<open>index + 1\<close> is converted
  to \<open>size_t\<close> before the remainder, \<open>cw - w_gcd\<close> is unsigned, and \<open>weight >= cw\<close>
  compares \<open>cw\<close> as unsigned.
\<close>

fun wrr_loop :: "nat \<Rightarrow> 'd WRR \<Rightarrow> nat option \<times> 'd WRR" where
  "wrr_loop 0 w = (None, w)"
| "wrr_loop (Suc c) w =
     (let w1 = w\<lparr>index := ucast ((scast (index w + 1) :: u64) mod of_nat (length (items w)))\<rparr>;
          w2 = (if index w1 = 0 then w1\<lparr>cw := cw w1 - w_gcd w1\<rparr> else w1);
          w3 = (if index w1 = 0 \<and> sint (cw w2) \<le> 0 then w2\<lparr>cw := w_max w2\<rparr> else w2)
      in if index w1 = 0 \<and> sint (cw w2) \<le> 0 \<and> cw w3 = 0 then (None, w3)
         else (let it = items w ! unat (index w1) in
               if weight it > 0 \<and> weight it \<ge> cw w3 then (Some (unat (index w1)), w3)
               else wrr_loop c w3))"

definition WRR_run :: "'d WRR \<Rightarrow> nat option \<times> 'd WRR" where
  "WRR_run w = (if items w = [] then (None, w) else wrr_loop (length (items w)) w)"

text \<open>\<open>enable\<close> and \<open>disable\<close> by pointer (\<open>None\<close> for NULL) and by identifier.\<close>

definition enable_item :: "nat option \<Rightarrow> 'd WRR \<Rightarrow> c_int \<times> 'd WRR" where
  "enable_item p w =
     (case p of None \<Rightarrow> (1, w)
      | Some i \<Rightarrow>
          (if weight (items w ! i) > 0 then (2, w)
           else (0, recalc (w\<lparr>items := (items w)[i := (items w ! i)\<lparr>weight := old_weight (items w ! i)\<rparr>]\<rparr>))))"

definition enable_id :: "string option \<Rightarrow> 'd WRR \<Rightarrow> c_int \<times> 'd WRR" where
  "enable_id i w =
     (case i of None \<Rightarrow> (1, w)
      | Some s \<Rightarrow>
          (let its = map (\<lambda>it. if item_id it = s \<and> weight it = 0 then it\<lparr>weight := old_weight it\<rparr> else it) (items w);
               dc = length (filter (\<lambda>it. item_id it = s) (items w));
               w' = recalc (w\<lparr>items := its\<rparr>)
           in if dc > 0 then (0, w') else (2, w')))"

definition disable_item :: "nat option \<Rightarrow> 'd WRR \<Rightarrow> c_int \<times> 'd WRR" where
  "disable_item p w =
     (case p of None \<Rightarrow> (1, w)
      | Some i \<Rightarrow>
          (if weight (items w ! i) = 0 then (2, w)
           else (0, recalc (w\<lparr>items := (items w)[i := (items w ! i)\<lparr>old_weight := weight (items w ! i), weight := 0\<rparr>]\<rparr>))))"

definition disable_id :: "string option \<Rightarrow> 'd WRR \<Rightarrow> c_int \<times> 'd WRR" where
  "disable_id i w =
     (case i of None \<Rightarrow> (1, w)
      | Some s \<Rightarrow>
          (let its = map (\<lambda>it. if item_id it = s \<and> weight it > 0
                               then it\<lparr>old_weight := weight it, weight := 0\<rparr> else it) (items w);
               dc = length (filter (\<lambda>it. item_id it = s) (items w));
               w' = recalc (w\<lparr>items := its\<rparr>)
           in if dc > 0 then (0, w') else (2, w')))"

text \<open>\<open>clear\<close> does not recompute the derived fields.\<close>

definition WRR_clear :: "'d WRR \<Rightarrow> 'd WRR" where
  "WRR_clear w = w\<lparr>items := []\<rparr>"

definition remove_index :: "u32 \<Rightarrow> 'd WRR \<Rightarrow> c_int \<times> 'd WRR" where
  "remove_index i w =
     (if unat i \<ge> length (items w) then (1, w)
      else (0, recalc (w\<lparr>items := take (unat i) (items w) @ drop (Suc (unat i)) (items w)\<rparr>)))"

definition remove_id :: "string option \<Rightarrow> 'd WRR \<Rightarrow> c_int \<times> 'd WRR" where
  "remove_id i w =
     (case i of None \<Rightarrow> (1, w)
      | Some s \<Rightarrow>
          (let dc = length (filter (\<lambda>it. item_id it = s) (items w));
               w' = recalc (w\<lparr>items := filter (\<lambda>it. item_id it \<noteq> s) (items w)\<rparr>)
           in if dc > 0 then (0, w') else (2, w')))"

fun get_from :: "string \<Rightarrow> nat \<Rightarrow> 'd WRRItem list \<Rightarrow> nat option" where
  "get_from s i [] = None"
| "get_from s i (it # its) = (if item_id it = s then Some i else get_from s (i + 1) its)"

definition WRR_get :: "string option \<Rightarrow> 'd WRR \<Rightarrow> nat option" where
  "WRR_get i w = (case i of None \<Rightarrow> None | Some s \<Rightarrow> get_from s 0 (items w))"

section \<open>The greatest common divisor and the greatest weight\<close>

lemma wrr_gcd_gcd: "unat (wrr_gcd m n) = gcd (unat m) (unat n)"
proof (induction m n rule: wrr_gcd.induct)
  case (1 m n)
  show ?case
  proof (cases "n = 0")
    case True
    then show ?thesis by (simp add: wrr_gcd.simps [of m 0])
  next
    case False
    with 1 show ?thesis
      by (simp add: wrr_gcd.simps [of m n] unat_mod_distrib gcd_red_nat [of "unat m" "unat n"])
  qed
qed

definition weights :: "'d WRR \<Rightarrow> nat list" where
  "weights w = map (\<lambda>it. unat (weight it)) (items w)"

definition fold_max :: "nat list \<Rightarrow> nat" where
  "fold_max ws = fold max ws 0"

lemma fold_max_Max: "set ws \<noteq> {} \<Longrightarrow> fold_max ws = Max (set ws)"
  by (simp add: fold_max_def Max.set_eq_fold [symmetric])

lemma foldl_gcd:
  "unat (foldl (\<lambda>g i. wrr_gcd g (weight i)) g its) = foldl gcd (unat g) (map (\<lambda>it. unat (weight it)) its)"
  by (induction its arbitrary: g) (simp_all add: wrr_gcd_gcd)

lemma foldl_max:
  "unat (foldl (\<lambda>m i. if weight i > m then weight i else m) m its) =
    fold max (map (\<lambda>it. unat (weight it)) its) (unat m)"
  by (induction its arbitrary: m) (simp_all add: word_less_nat_alt max_def)


lemma recalc_unfold:
  "items (recalc w) = items w" "index (recalc w) = index w" "cw (recalc w) = cw w"
  "unat (w_gcd (recalc w)) = foldr gcd (weights w) 0"
  "unat (w_max (recalc w)) = fold_max (weights w)"
proof -
  have gcd: "foldl gcd a xs = gcd a (foldr gcd xs 0)" for a :: nat and xs
    by (induction xs arbitrary: a) (simp_all add: gcd.assoc)
  show "items (recalc w) = items w" "index (recalc w) = index w" "cw (recalc w) = cw w"
    by (auto simp: recalc_def split: list.splits)
  show "unat (w_gcd (recalc w)) = foldr gcd (weights w) 0"
    by (cases "items w") (simp_all add: recalc_def weights_def foldl_gcd gcd)
  show "unat (w_max (recalc w)) = fold_max (weights w)"
    by (cases "items w") (auto simp: recalc_def weights_def fold_max_def foldl_max word_neq_0_conv [symmetric])
qed

lemma foldr_gcd_dvd: "x \<in> set xs \<Longrightarrow> foldr gcd xs 0 dvd (x::nat)"
  by (induction xs) (auto intro: dvd_trans [OF gcd_dvd2])

section \<open>One step of the loop\<close>

text \<open>
  The loop walks positions \<open>0, 1, 2, ...\<close>: position \<open>T\<close> looks at item \<open>T mod n\<close> in round
  \<open>T div n\<close>, at a level that falls by the gcd from the greatest weight to the gcd and
  starts again. \<open>next_pos w T\<close> says that the state of \<open>w\<close> is the one before position \<open>T\<close>.
\<close>

definition wrr_ok :: "'d WRR \<Rightarrow> bool" where
  "wrr_ok w \<longleftrightarrow> length (items w) < 2 ^ 31 \<and> (\<forall>x \<in> set (weights w). x < 2 ^ 31) \<and>
     (\<exists>x \<in> set (weights w). 0 < x) \<and>
     unat (w_gcd w) = foldr gcd (weights w) 0 \<and> unat (w_max w) = Max (set (weights w))"

definition rounds :: "'d WRR \<Rightarrow> nat" where
  "rounds w = unat (w_max w) div unat (w_gcd w)"

definition level :: "'d WRR \<Rightarrow> nat \<Rightarrow> nat" where
  "level w T = unat (w_gcd w) * (rounds w - (T div length (items w)) mod rounds w)"

definition next_pos :: "'d WRR \<Rightarrow> nat \<Rightarrow> bool" where
  "next_pos w T \<longleftrightarrow>
     (case T of
        0 \<Rightarrow> index w = - 1 \<and> cw w = 0
      | Suc t \<Rightarrow> unat (index w) = t mod length (items w) \<and> unat (cw w) = level w t)"

definition selected :: "'d WRR \<Rightarrow> nat \<Rightarrow> bool" where
  "selected w T \<longleftrightarrow> level w T \<le> unat (weight (items w ! (T mod length (items w))))"

text \<open>The counters of a scheduler; the loop changes nothing else.\<close>

definition same_items :: "'d WRR \<Rightarrow> 'd WRR \<Rightarrow> bool" where
  "same_items w w' \<longleftrightarrow> items w' = items w \<and> w_gcd w' = w_gcd w \<and> w_max w' = w_max w"

lemma wrr_okD:
  assumes "wrr_ok w"
  shows "items w \<noteq> []" "0 < unat (w_gcd w)" "0 < rounds w"
    "unat (w_max w) = unat (w_gcd w) * rounds w" "unat (w_max w) < 2 ^ 31"
    "i < length (items w) \<Longrightarrow> unat (w_gcd w) dvd unat (weight (items w ! i))"
    "i < length (items w) \<Longrightarrow> unat (weight (items w ! i)) \<le> unat (w_max w)"
    "\<exists>i < length (items w). unat (weight (items w ! i)) = unat (w_max w)"
proof -
  let ?W = "set (weights w)"
  obtain x where x: "x \<in> ?W" "0 < x" using assms by (auto simp: wrr_ok_def)
  then show "items w \<noteq> []" by (auto simp: weights_def)
  have dvd: "y \<in> ?W \<Longrightarrow> unat (w_gcd w) dvd y" for y
    using assms by (auto simp: wrr_ok_def intro: foldr_gcd_dvd)
  from dvd [OF x(1)] x(2) show g: "0 < unat (w_gcd w)" by (auto intro: Nat.gr0I)
  have max: "unat (w_max w) \<in> ?W" "y \<in> ?W \<Longrightarrow> y \<le> unat (w_max w)" for y
    using assms x(1) Max_in [of ?W, OF List.finite_set] by (fastforce simp: wrr_ok_def)+
  then have pos: "0 < unat (w_max w)" using x by fastforce
  from dvd [OF max(1)] show m: "unat (w_max w) = unat (w_gcd w) * rounds w"
    by (simp add: rounds_def)
  with pos show "0 < rounds w" by (intro Nat.gr0I) simp
  show "unat (w_max w) < 2 ^ 31" using assms max(1) by (auto simp: wrr_ok_def)
  have mem: "unat (weight (items w ! i)) \<in> ?W" if "i < length (items w)" for i
    using that by (simp add: weights_def)
  show "i < length (items w) \<Longrightarrow> unat (w_gcd w) dvd unat (weight (items w ! i))"
    using dvd mem by blast
  show "i < length (items w) \<Longrightarrow> unat (weight (items w ! i)) \<le> unat (w_max w)"
    using max mem by blast
  show "\<exists>i < length (items w). unat (weight (items w ! i)) = unat (w_max w)"
    using max(1) by (auto simp: weights_def in_set_conv_nth)
qed

lemma level_bounds:
  assumes "wrr_ok w"
  shows "0 < level w T" "level w T \<le> unat (w_max w)"
proof -
  note ok = wrr_okD [OF assms]
  have "(T div length (items w)) mod rounds w < rounds w" using ok(3) by simp
  then show "0 < level w T" using ok(2) by (simp add: level_def)
  show "level w T \<le> unat (w_max w)" by (simp add: level_def ok(4))
qed

text \<open>The level at the next position, as the code computes it.\<close>

lemma level_Suc:
  assumes ok: "wrr_ok w"
  shows "level w (Suc t) =
    (if Suc t mod length (items w) \<noteq> 0 then level w t
     else if level w t \<le> unat (w_gcd w) then unat (w_max w) else level w t - unat (w_gcd w))"
proof (cases "Suc t mod length (items w) = 0")
  case False
  then have "Suc t div length (items w) = t div length (items w)" by (simp add: div_Suc)
  then show ?thesis using False by (simp add: level_def)
next
  case True
  let ?g = "unat (w_gcd w)" and ?M = "rounds w" and ?r = "t div length (items w)"
  note k = wrr_okD [OF ok]
  have div: "Suc t div length (items w) = Suc ?r" using True by (simp add: div_Suc)
  have less: "?r mod ?M < ?M" using k(3) by simp
  show ?thesis
  proof (cases "Suc (?r mod ?M) = ?M")
    case True
    then have M: "?M - ?r mod ?M = 1" by linarith
    have "Suc ?r mod ?M = 0" using True by (simp add: mod_Suc)
    then have "level w (Suc t) = ?g * ?M" by (simp add: level_def div)
    moreover have "level w t = ?g" by (simp add: level_def M)
    ultimately show ?thesis using \<open>Suc t mod _ = 0\<close> k(4) by simp
  next
    case False
    then have r: "Suc ?r mod ?M = Suc (?r mod ?M)" by (simp add: mod_Suc)
    have M: "?M - ?r mod ?M = Suc (?M - Suc (?r mod ?M))" and two: "0 < ?M - Suc (?r mod ?M)"
      using less False by linarith+
    have lt: "level w t = ?g + ?g * (?M - Suc (?r mod ?M))" unfolding level_def M by simp
    then have "level w (Suc t) = level w t - ?g" by (simp add: level_def div r)
    moreover have "\<not> level w t \<le> ?g" using lt two k(2) by simp
    ultimately show ?thesis using \<open>Suc t mod _ = 0\<close> by simp
  qed
qed

lemma level_0: "wrr_ok w \<Longrightarrow> level w 0 = unat (w_max w)"
  by (simp add: level_def wrr_okD(4))

lemma next_index:
  assumes ok: "wrr_ok w" and pos: "next_pos w T"
  shows "unat (ucast ((scast (index w + 1) :: u64) mod of_nat (length (items w))) :: c_int) =
    T mod length (items w)"
proof -
  let ?n = "length (items w)"
  have n: "0 < ?n" "?n < 2 ^ 31" using ok wrr_okD(1) [OF ok] by (auto simp: wrr_ok_def)
  have idx: "unat (index w + 1) = (case T of 0 \<Rightarrow> 0 | Suc t \<Rightarrow> t mod ?n + 1)"
  proof (cases T)
    case 0
    then show ?thesis using pos by (simp add: next_pos_def)
  next
    case (Suc t)
    then have i: "unat (index w) = t mod ?n" using pos by (simp add: next_pos_def)
    have "t mod ?n + 1 < 2 ^ 31" using n mod_less_divisor [OF n(1), of t] by linarith
    then have "unat (index w + 1) = t mod ?n + 1"
      by (simp add: unat_word_ariths i)
    then show ?thesis using Suc by simp
  qed
  have le: "unat (index w + 1) \<le> ?n"
    using n mod_less_divisor [OF n(1)] by (auto simp: idx Suc_le_eq split: nat.split)
  then have "unat (index w + 1) < 2 ^ 31" using n(2) by linarith
  then have s: "unat (scast (index w + 1) :: u64) = unat (index w + 1)" by (rule unat_scast_small)
  have m: "unat (of_nat ?n :: u64) = ?n"
  proof -
    have "?n mod 2 ^ 64 = ?n" using n(2) by (intro mod_less) simp
    then show ?thesis by (simp add: unat_of_nat)
  qed
  let ?x = "(scast (index w + 1) :: u64) mod of_nat ?n"
  have x: "unat ?x = unat (index w + 1) mod ?n" by (simp only: unat_mod_distrib s m)
  moreover have "unat (index w + 1) mod ?n < 2 ^ 32"
    using mod_less_divisor [OF n(1), of "unat (index w + 1)"] n(2) by simp
  ultimately have "unat (ucast ?x :: c_int) = unat (index w + 1) mod ?n"
    by (simp add: unsigned_ucast_eq take_bit_nat_eq_self)
  also have "\<dots> = T mod ?n"
    by (cases T) (simp_all add: idx mod_Suc_eq)
  finally show ?thesis .
qed

text \<open>The level after the update of \<open>cw\<close> at position \<open>T\<close>.\<close>

lemma next_cw:
  assumes ok: "wrr_ok w" and pos: "next_pos w T"
    and c: "c = (if T mod length (items w) = 0 then cw w - w_gcd w else cw w)"
  shows "unat (if T mod length (items w) = 0 \<and> sint c \<le> 0 then w_max w else c) = level w T"
proof -
  note k = wrr_okD [OF ok]
  have gM: "unat (w_gcd w) \<le> unat (w_max w)" using k(3,4) by simp
  show ?thesis
  proof (cases T)
    case 0
    then have "c = - w_gcd w" using c pos by (simp add: next_pos_def)
    moreover have "unat (w_gcd w) < 2 ^ 31" using gM k(5) by linarith
    ultimately have "sint c \<le> 0" by (simp add: sint_minus_small)
    then show ?thesis using 0 level_0 [OF ok] by simp
  next
    case (Suc t)
    then have cw: "unat (cw w) = level w t" using pos by (simp add: next_pos_def)
    have small: "level w t < 2 ^ 31" using level_bounds(2) [OF ok, of t] k(5) by linarith
    show ?thesis
    proof (cases "T mod length (items w) = 0")
      case False
      then show ?thesis using c cw Suc level_Suc [OF ok, of t] by simp
    next
      case True
      show ?thesis
      proof (cases "unat (w_gcd w) \<le> unat (cw w)")
        case le: True
        then have u: "unat c = level w t - unat (w_gcd w)"
          using c True cw by (simp add: unat_sub word_le_nat_alt)
        then have "sint c = int (unat c)" using small by (intro sint_small) linarith
        then have "sint c \<le> 0 \<longleftrightarrow> level w t \<le> unat (w_gcd w)" using u by linarith
        then show ?thesis using u True Suc level_Suc [OF ok, of t] by (simp del: One_nat_def)
      next
        case False
        then have "level w t < unat (w_gcd w)" using cw by simp
        moreover have "unat (w_gcd w) \<le> level w t"
        proof -
          have "(t div length (items w)) mod rounds w < rounds w" using k(3) by simp
          then have "1 \<le> rounds w - (t div length (items w)) mod rounds w" by linarith
          then show ?thesis unfolding level_def by (metis mult_le_mono2 mult.right_neutral)
        qed
        ultimately show ?thesis by simp
      qed
    qed
  qed
qed

text \<open>One iteration: the state before the comparison with the item's weight.\<close>

definition advance :: "'d WRR \<Rightarrow> 'd WRR" where
  "advance w =
     (let w1 = w\<lparr>index := ucast ((scast (index w + 1) :: u64) mod of_nat (length (items w)))\<rparr>;
          w2 = (if index w1 = 0 then w1\<lparr>cw := cw w1 - w_gcd w1\<rparr> else w1)
      in if index w1 = 0 \<and> sint (cw w2) \<le> 0 then w2\<lparr>cw := w_max w2\<rparr> else w2)"

lemma advance_pos:
  assumes ok: "wrr_ok w" and pos: "next_pos w T"
  shows "unat (index (advance w)) = T mod length (items w)" "unat (cw (advance w)) = level w T"
    "same_items w (advance w)"
proof -
  define i where "i = (ucast ((scast (index w + 1) :: u64) mod of_nat (length (items w))) :: c_int)"
  have i: "unat i = T mod length (items w)" unfolding i_def by (rule next_index [OF ok pos])
  then have i0: "i = 0 \<longleftrightarrow> T mod length (items w) = 0" by (metis unat_eq_0)
  show "unat (index (advance w)) = T mod length (items w)"
    unfolding advance_def i_def [symmetric] using i by (cases "i = 0") (simp_all add: Let_def)
  show "unat (cw (advance w)) = level w T"
    unfolding advance_def i_def [symmetric]
    using next_cw [OF ok pos refl] by (simp add: Let_def i0 split: if_splits)
  show "same_items w (advance w)" by (simp add: advance_def Let_def same_items_def)
qed

lemma same_items_simps:
  assumes "same_items w w'"
  shows "items w' = items w" "weights w' = weights w" "wrr_ok w' = wrr_ok w" "level w' = level w"
    "selected w' = selected w" "rounds w' = rounds w"
  using assms
  by (auto simp: same_items_def weights_def wrr_ok_def level_def selected_def rounds_def fun_eq_iff)

lemma same_items_trans: "same_items u v \<Longrightarrow> same_items v w \<Longrightarrow> same_items u w"
  by (simp add: same_items_def)

lemma wrr_loop_step:
  assumes ok: "wrr_ok w" and pos: "next_pos w T"
  shows "wrr_loop (Suc c) w =
      (if selected w T then (Some (T mod length (items w)), advance w) else wrr_loop c (advance w))"
    and "next_pos (advance w) (Suc T)"
proof -
  note adv = advance_pos [OF ok pos]
  let ?a = "advance w"
  have cw0: "cw ?a \<noteq> 0" using adv(2) level_bounds(1) [OF ok, of T] by (metis unat_0 less_irrefl)
  have "weight (items w ! unat (index ?a)) > 0 \<and> weight (items w ! unat (index ?a)) \<ge> cw ?a \<longleftrightarrow> selected w T"
    using level_bounds(1) [OF ok, of T] unfolding word_le_nat_alt word_less_nat_alt
    by (auto simp: adv(1,2) selected_def)
  moreover have "wrr_loop (Suc c) w =
      (if weight (items w ! unat (index ?a)) > 0 \<and> weight (items w ! unat (index ?a)) \<ge> cw ?a
       then (Some (unat (index ?a)), ?a) else wrr_loop c ?a)"
    using cw0 by (auto simp: advance_def Let_def)
  ultimately show "wrr_loop (Suc c) w =
      (if selected w T then (Some (T mod length (items w)), ?a) else wrr_loop c ?a)"
    by (simp add: adv(1))
  show "next_pos ?a (Suc T)"
    using adv same_items_simps [OF adv(3)] by (simp add: next_pos_def)
qed

lemma wrr_loop_finds:
  "wrr_ok w \<Longrightarrow> next_pos w T \<Longrightarrow> selected w (T + j) \<Longrightarrow> \<forall>i<j. \<not> selected w (T + i) \<Longrightarrow> j < c \<Longrightarrow>
    \<exists>w'. wrr_loop c w = (Some ((T + j) mod length (items w)), w') \<and> next_pos w' (T + j + 1) \<and> same_items w w'"
proof (induction j arbitrary: T c w)
  case 0
  then obtain c' where c: "c = Suc c'" by (cases c) auto
  show ?case
    using 0 wrr_loop_step [OF 0(1,2)] advance_pos(3) [OF 0(1,2)] by (simp add: c)
next
  case (Suc j)
  then obtain c' where c: "c = Suc c'" "j < c'" by (cases c) auto
  note step = wrr_loop_step [OF Suc.prems(1,2)] and adv = advance_pos(3) [OF Suc.prems(1,2)]
  have "\<not> selected w T" using Suc.prems(4) by (metis add.right_neutral zero_less_Suc)
  then have loop: "wrr_loop c w = wrr_loop c' (advance w)" by (simp only: c step(1) if_False)
  have "\<exists>w'. wrr_loop c' (advance w) = (Some ((Suc T + j) mod length (items (advance w))), w') \<and>
      next_pos w' (Suc T + j + 1) \<and> same_items (advance w) w'"
    using Suc.prems(1,3,4) c(2) step(2)
    by (intro Suc.IH) (auto simp: same_items_simps [OF adv])
  then show ?case
    using adv by (auto simp: loop same_items_simps [OF adv] intro: same_items_trans)
qed

section \<open>Runs\<close>

lemma some_selected:
  assumes ok: "wrr_ok w"
  shows "\<exists>j < length (items w). selected w (T + j)"
proof -
  let ?n = "length (items w)"
  obtain m where m: "m < ?n" "unat (weight (items w ! m)) = unat (w_max w)"
    using wrr_okD(8) [OF ok] by blast
  define j where "j = (m + ?n - T mod ?n) mod ?n"
  have n: "0 < ?n" using m(1) by linarith
  then have tn: "T mod ?n < ?n" by simp
  have "(T + j) mod ?n = (T mod ?n + (m + ?n - T mod ?n)) mod ?n"
    unfolding j_def by (simp only: mod_add_left_eq mod_add_right_eq)
  also have "T mod ?n + (m + ?n - T mod ?n) = m + ?n" using tn by linarith
  finally have "(T + j) mod ?n = m" using m(1) by simp
  then have "selected w (T + j)"
    using m(2) level_bounds(2) [OF ok] by (simp add: selected_def)
  moreover have "j < ?n" using n by (simp add: j_def)
  ultimately show ?thesis by blast
qed

lemma run_next:
  assumes ok: "wrr_ok w" and pos: "next_pos w T"
  obtains j w' where "WRR_run w = (Some ((T + j) mod length (items w)), w')" "next_pos w' (T + j + 1)"
    "same_items w w'" "selected w (T + j)" "\<forall>i<j. \<not> selected w (T + i)"
proof -
  obtain j where j: "selected w (T + j)" "\<forall>i<j. \<not> selected w (T + i)" "j < length (items w)"
    using some_selected [OF ok, of T] exists_least_iff [of "\<lambda>j. j < length (items w) \<and> selected w (T + j)"]
    by (metis order_less_trans)
  from wrr_loop_finds [OF ok pos j] that j(1,2) wrr_okD(1) [OF ok] show ?thesis
    by (auto simp: WRR_run_def)
qed

fun wrr_runs :: "nat \<Rightarrow> 'd WRR \<Rightarrow> nat option list \<times> 'd WRR" where
  "wrr_runs 0 w = ([], w)"
| "wrr_runs (Suc k) w = (let (r, w') = WRR_run w; (rs, w'') = wrr_runs k w' in (r # rs, w''))"

lemma runs_invariant:
  "wrr_ok w \<Longrightarrow> next_pos w T \<Longrightarrow>
    \<exists>T'. next_pos (snd (wrr_runs k w)) T' \<and> same_items w (snd (wrr_runs k w))"
proof (induction k arbitrary: w T)
  case 0
  then show ?case by (auto simp: same_items_def)
next
  case (Suc k)
  obtain j w' where r: "WRR_run w = (Some ((T + j) mod length (items w)), w')" "next_pos w' (T + j + 1)"
    "same_items w w'"
    using run_next [OF Suc.prems] by metis
  have "wrr_ok w'" using Suc.prems(1) same_items_simps(3) [OF r(3)] by simp
  from Suc.IH [OF this r(2)] r show ?case by (auto simp: case_prod_beta intro: same_items_trans)
qed

text \<open>As many runs as a window has selected positions return exactly those positions.\<close>

lemma filter_upt_skip:
  assumes "P (T + j)" and "\<forall>i<j. \<not> P (T + i)" and "T + j < U"
  shows "filter P [T..<U] = (T + j) # filter P [T + j + 1..<U]"
proof -
  have "[T..<U] = [T..<T + j] @ (T + j) # [T + j + 1..<U]"
    using assms(3) by (metis Suc_eq_plus1 le_add1 less_imp_le upt_add_eq_append le_add_diff_inverse upt_conv_Cons)
  moreover have "filter P [T..<T + j] = []"
    using assms(2) by (auto simp: filter_empty_conv) (metis le_add_diff_inverse nat_add_left_cancel_less)
  ultimately show ?thesis using assms(1) by simp
qed

lemma runs_window:
  "wrr_ok w \<Longrightarrow> next_pos w T \<Longrightarrow> length (filter (selected w) [T..<U]) = k \<Longrightarrow>
    fst (wrr_runs k w) = map (\<lambda>t. Some (t mod length (items w))) (filter (selected w) [T..<U])"
proof (induction k arbitrary: w T)
  case 0
  then show ?case by simp
next
  case (Suc k)
  obtain j w' where r: "WRR_run w = (Some ((T + j) mod length (items w)), w')" "next_pos w' (T + j + 1)"
    "same_items w w'" and j: "selected w (T + j)" "\<forall>i<j. \<not> selected w (T + i)"
    using run_next [OF Suc.prems(1,2)] by metis
  note same = same_items_simps [OF r(3)]
  have "T + j < U"
  proof (rule ccontr)
    assume "\<not> T + j < U"
    then have "filter (selected w) [T..<U] = []"
      using j(2) by (auto simp: filter_empty_conv)
        (metis le_add_diff_inverse less_le_trans nat_add_left_cancel_less not_less)
    with Suc.prems(3) show False by simp
  qed
  note skip = filter_upt_skip [OF j this]
  have "fst (wrr_runs k w') = map (\<lambda>t. Some (t mod length (items w'))) (filter (selected w') [T + j + 1..<U])"
    using Suc.prems(1,3) same skip by (intro Suc.IH [OF _ r(2)]) simp_all
  then show ?case using r(1) same skip by (simp add: case_prod_beta)
qed

section \<open>Counting a cycle\<close>

definition cycle :: "'d WRR \<Rightarrow> nat" where
  "cycle w = length (items w) * rounds w"

lemma selected_periodic: "wrr_ok w \<Longrightarrow> selected w (T + cycle w) = selected w T"
  using wrr_okD(1) [of w] by (simp add: selected_def level_def cycle_def)

lemma periodic_count:
  assumes "\<And>t. Q (t + P) = Q t" and "0 < P"
  shows "length (filter Q [T..<T + P]) = length (filter Q [0..<P])"
proof (induction T)
  case 0
  then show ?case by simp
next
  case (Suc T)
  have "[T..<T + P] = T # [Suc T..<T + P]" "[Suc T..<Suc T + P] = [Suc T..<T + P] @ [T + P]"
    using assms(2) by (simp_all add: upt_conv_Cons)
  then have "length (filter Q [Suc T..<Suc T + P]) = length (filter Q [T..<T + P])"
    using assms(1) [of T] by simp
  then show ?case using Suc.IH by simp
qed

lemma selected_round:
  assumes ok: "wrr_ok w" and i: "i < length (items w)" and r: "r < rounds w"
  shows "selected w (r * length (items w) + i) \<longleftrightarrow>
    rounds w - r \<le> unat (weight (items w ! i)) div unat (w_gcd w)"
proof -
  have "level w (r * length (items w) + i) = unat (w_gcd w) * (rounds w - r)"
  proof -
    have "(r * length (items w) + i) div length (items w) = r" using i by (intro div_nat_eqI) auto
    then show ?thesis using r by (simp add: level_def)
  qed
  then show ?thesis
    using i wrr_okD(2) [OF ok]
    by (simp add: selected_def less_eq_div_iff_mult_less_eq mult.commute)
qed

lemma cycle_count:
  assumes ok: "wrr_ok w" and i: "i < length (items w)"
  shows "length (filter (\<lambda>t. selected w t \<and> t mod length (items w) = i) [0..<cycle w]) =
    unat (weight (items w ! i)) div unat (w_gcd w)"
proof -
  let ?n = "length (items w)" and ?v = "unat (weight (items w ! i)) div unat (w_gcd w)"
  let ?Q = "\<lambda>t. selected w t \<and> t mod ?n = i"
  have v: "?v \<le> rounds w"
    unfolding rounds_def by (rule div_le_mono [OF wrr_okD(7) [OF ok i]])
  have "{t. t < cycle w \<and> ?Q t} = (\<lambda>r. r * ?n + i) ` {rounds w - ?v..<rounds w}"
  proof (intro set_eqI iffI)
    fix t
    assume t: "t \<in> {t. t < cycle w \<and> ?Q t}"
    then have r: "t div ?n < rounds w" by (auto simp: cycle_def less_mult_imp_div_less mult.commute)
    have eq: "t = t div ?n * ?n + i" using t by (metis (mono_tags) div_mult_mod_eq mem_Collect_eq)
    with t have "selected w (t div ?n * ?n + i)" by simp
    then have "rounds w - t div ?n \<le> ?v" using selected_round [OF ok i r] by simp
    with r have "t div ?n \<in> {rounds w - ?v..<rounds w}" by simp
    with eq show "t \<in> (\<lambda>r. r * ?n + i) ` {rounds w - ?v..<rounds w}" by blast
  next
    fix t
    assume "t \<in> (\<lambda>r. r * ?n + i) ` {rounds w - ?v..<rounds w}"
    then obtain r where t: "t = r * ?n + i" and r_in: "r \<in> {rounds w - ?v..<rounds w}"
      by (rule imageE)
    from r_in have r: "rounds w - ?v \<le> r" "r < rounds w" by simp_all
    have "Suc r * ?n \<le> rounds w * ?n" using r(2) by (intro mult_le_mono1) simp
    then have "t < cycle w" using i by (simp add: t cycle_def mult.commute)
    moreover have "rounds w - r \<le> ?v" using r v by linarith
    ultimately show "t \<in> {t. t < cycle w \<and> ?Q t}"
      using i selected_round [OF ok i r(2)] by (simp add: t)
  qed
  moreover have "inj_on (\<lambda>r. r * ?n + i) {rounds w - ?v..<rounds w}"
    using i by (auto simp: inj_on_def)
  ultimately have "card {t. t < cycle w \<and> ?Q t} = ?v"
    using v by (simp add: card_image)
  moreover have "length (filter ?Q [0..<cycle w]) = card {t. t < cycle w \<and> ?Q t}"
  proof -
    have "set (filter ?Q [0..<cycle w]) = {t. t < cycle w \<and> ?Q t}" by auto
    moreover have "distinct (filter ?Q [0..<cycle w])" by simp
    ultimately show ?thesis by (metis distinct_card)
  qed
  ultimately show ?thesis by simp
qed

lemma window_count:
  assumes ok: "wrr_ok w" and i: "i < length (items w)"
  shows "length (filter (\<lambda>t. selected w t \<and> t mod length (items w) = i) [T..<T + cycle w]) =
    unat (weight (items w ! i)) div unat (w_gcd w)"
proof -
  have "0 < cycle w" using wrr_okD(1,3) [OF ok] by (simp add: cycle_def)
  then show ?thesis
    using periodic_count [of "\<lambda>t. selected w t \<and> t mod length (items w) = i" "cycle w" T]
      selected_periodic [OF ok] cycle_count [OF ok i] by (simp add: cycle_def)
qed

lemma window_length:
  assumes ok: "wrr_ok w"
  shows "length (filter (selected w) [T..<T + cycle w]) =
    (\<Sum>x \<leftarrow> weights w. x div unat (w_gcd w))"
proof -
  let ?n = "length (items w)" and ?l = "filter (selected w) [T..<T + cycle w]"
  let ?m = "map (\<lambda>t. t mod ?n) ?l"
  have "set ?m \<subseteq> {..<?n}" using wrr_okD(1) [OF ok] by auto
  then have "length ?l = (\<Sum>i<?n. count_list ?m i)"
    by (metis sum_count_set finite_lessThan length_map)
  also have "\<dots> = (\<Sum>i<?n. unat (weight (items w ! i)) div unat (w_gcd w))"
  proof (rule sum.cong [OF refl])
    fix i
    assume "i \<in> {..<?n}"
    then have "length (filter (\<lambda>t. selected w t \<and> t mod ?n = i) [T..<T + cycle w]) =
        unat (weight (items w ! i)) div unat (w_gcd w)" by (intro window_count [OF ok]) simp
    moreover have "count_list ?m i = length (filter (\<lambda>t. selected w t \<and> t mod ?n = i) [T..<T + cycle w])"
      by (simp only: count_list_eq_length_filter filter_map length_map filter_filter comp_def
          eq_commute [of i] conj_commute)
    ultimately show "count_list ?m i = unat (weight (items w ! i)) div unat (w_gcd w)" by simp
  qed
  also have "\<dots> = (\<Sum>x \<leftarrow> weights w. x div unat (w_gcd w))"
    by (simp add: weights_def sum_list_sum_nth comp_def atLeast0LessThan)
  finally show ?thesis .
qed

lemma foldr_gcd_Gcd: "foldr gcd xs 0 = Gcd (set (xs :: nat list))"
  by (induction xs) simp_all

lemma runs_count:
  assumes ok: "wrr_ok w" and pos: "next_pos w T" and j: "j < length (items w)"
    and k: "k = (\<Sum>x \<leftarrow> weights w. x div unat (w_gcd w))"
  shows "count_list (fst (wrr_runs k w)) (Some j) = unat (weight (items w ! j)) div unat (w_gcd w) \<and>
    length (fst (wrr_runs k w)) = k \<and> None \<notin> set (fst (wrr_runs k w))"
proof -
  let ?n = "length (items w)" and ?l = "filter (selected w) [T..<T + cycle w]"
  have len: "length ?l = k" using window_length [OF ok] k by simp
  have runs: "fst (wrr_runs k w) = map (\<lambda>t. Some (t mod ?n)) ?l"
    by (rule runs_window [OF ok pos len])
  have "count_list (map (\<lambda>t. Some (t mod ?n)) ?l) (Some j) =
      length (filter (\<lambda>t. selected w t \<and> t mod ?n = j) [T..<T + cycle w])"
    by (simp only: count_list_eq_length_filter filter_map length_map filter_filter comp_def
        option.inject eq_commute [of j] eq_commute [of "Some j"] conj_commute)
  then show ?thesis using window_count [OF ok j] len by (auto simp: runs)
qed

section \<open>The schedulers callers build\<close>

definition wrr_build :: "('d \<times> string \<times> u32) list \<Rightarrow> 'd WRR" where
  "wrr_build its = foldl (\<lambda>w (d, i, x). snd (add_item d i x w)) WRR_new its"

lemma build_state:
  "items (wrr_build its) = map (\<lambda>(d, i, x). WRRItem_new d i x) its \<and>
    index (wrr_build its) = - 1 \<and> cw (wrr_build its) = 0"
  by (induction its rule: rev_induct)
    (auto simp: wrr_build_def WRR_new_def add_item_def recalc_unfold split: prod.splits)

lemma build_weights: "weights (wrr_build its) = map (\<lambda>(d, i, x). unat x) its"
  using build_state [of its] by (simp add: weights_def comp_def case_prod_beta WRRItem_new_def)

lemma build_recalc: "its \<noteq> [] \<Longrightarrow> \<exists>w. wrr_build its = recalc w \<and> weights w = weights (wrr_build its)"
  by (cases its rule: rev_cases) (auto simp: wrr_build_def add_item_def weights_def recalc_unfold)

lemma build_ok:
  assumes "length its < 2 ^ 31" and "\<forall>(d, i, x) \<in> set its. unat x < 2 ^ 31"
    and "\<exists>(d, i, x) \<in> set its. 0 < unat x"
  shows "wrr_ok (wrr_build its)" "next_pos (wrr_build its) 0"
    "unat (w_gcd (wrr_build its)) = Gcd (set (weights (wrr_build its)))"
proof -
  have "its \<noteq> []" using assms(3) by auto
  then obtain w where w: "wrr_build its = recalc w" "weights w = weights (wrr_build its)"
    using build_recalc by blast
  have ne: "set (weights (wrr_build its)) \<noteq> {}" using \<open>its \<noteq> []\<close> by (simp add: build_weights)
  have gcd: "unat (w_gcd (wrr_build its)) = foldr gcd (weights (wrr_build its)) 0"
    and max: "unat (w_max (wrr_build its)) = Max (set (weights (wrr_build its)))"
    using w recalc_unfold(4,5) [of w] fold_max_Max [OF ne] by simp_all
  then show "unat (w_gcd (wrr_build its)) = Gcd (set (weights (wrr_build its)))"
    by (simp add: foldr_gcd_Gcd)
  have "length (items (wrr_build its)) < 2 ^ 31" using assms(1) build_state [of its] by simp
  moreover have "\<forall>x \<in> set (weights (wrr_build its)). x < 2 ^ 31"
    using assms(2) by (auto simp: build_weights)
  moreover have "\<exists>x \<in> set (weights (wrr_build its)). 0 < x"
    using assms(3) by (auto simp: build_weights image_iff Bex_def split: prod.splits)
  ultimately show "wrr_ok (wrr_build its)" using gcd max by (simp add: wrr_ok_def)
  show "next_pos (wrr_build its) 0" using build_state [of its] by (simp add: next_pos_def)
qed

lemma wrr_loop_Suc:
  "wrr_loop (Suc c) w =
    (if index (advance w) = 0 \<and> cw (advance w) = 0 then (None, advance w)
     else let it = items w ! unat (index (advance w)) in
       if weight it > 0 \<and> weight it \<ge> cw (advance w) then (Some (unat (index (advance w))), advance w)
       else wrr_loop c (advance w))"
proof -
  let ?w1 = "w\<lparr>index := ucast ((scast (index w + 1) :: u64) mod of_nat (length (items w)))\<rparr>"
  show ?thesis
    by (cases "index ?w1 = 0"; cases "sint (cw w - w_gcd w) \<le> 0") (auto simp: advance_def Let_def)
qed

lemma wrr_loop_enabled:
  "length (items w) < 2 ^ 31 \<Longrightarrow> items w \<noteq> [] \<Longrightarrow> wrr_loop c w = (Some i, w') \<Longrightarrow>
    i < length (items w) \<and> 0 < weight (items w ! i) \<and> items w' = items w"
proof (induction c arbitrary: w)
  case 0
  then show ?case by simp
next
  case (Suc c)
  let ?n = "length (items w)"
  let ?x = "(scast (index w + 1) :: u64) mod of_nat ?n"
  have m: "unat (of_nat ?n :: u64) = ?n"
  proof -
    have "?n mod 2 ^ 64 = ?n" using Suc.prems(1) by (intro mod_less) simp
    then show ?thesis by (simp add: unat_of_nat)
  qed
  have "unat ?x < ?n" using Suc.prems(2) by (simp only: unat_mod_distrib m) simp
  then have "unat (ucast ?x :: c_int) < ?n" using Suc.prems(1)
    by (simp add: unsigned_ucast_eq take_bit_nat_eq_self)
  then have i: "unat (index (advance w)) < ?n" using Suc.prems(2) by (simp add: advance_def Let_def)
  have its: "items (advance w) = items w" by (simp add: advance_def Let_def)
  show ?case
  proof (cases "wrr_loop (Suc c) w = wrr_loop c (advance w)")
    case True
    then show ?thesis using Suc.IH [of "advance w"] Suc.prems its by (simp del: wrr_loop.simps)
  next
    case False
    then show ?thesis
      using Suc.prems(3) i its unfolding wrr_loop_Suc by (auto simp: Let_def split: if_splits)
  qed
qed

section \<open>Properties\<close>

text \<open>
  C5. Weighted fairness: for items with weights below \<open>2^31\<close>, not all zero, let \<open>g\<close> be the
  greatest common divisor of the weights and \<open>k\<close> the sum of \<open>weight / g\<close>. Then in any
  \<open>k\<close> consecutive calls of \<open>run\<close>, at whatever point of the schedule they begin, every
  item is selected exactly \<open>weight / g\<close> times, and no call returns NULL.
\<close>

theorem WRR_weighted_fairness:
  assumes "length its < 2 ^ 31" and "\<forall>(d, i, x) \<in> set its. unat x < 2 ^ 31"
    and "\<exists>(d, i, x) \<in> set its. 0 < unat x"
    and ws: "ws = map (\<lambda>(d, i, x). unat x) its" and g: "g = Gcd (set ws)"
    and k: "k = (\<Sum>x \<leftarrow> ws. x div g)"
    and rs: "rs = fst (wrr_runs k (snd (wrr_runs m (wrr_build its))))" and j: "j < length its"
  shows "count_list rs (Some j) = ws ! j div g \<and> length rs = k \<and> None \<notin> set rs"
proof -
  let ?w = "wrr_build its"
  note ok = build_ok [OF assms(1-3)]
  obtain T where T: "next_pos (snd (wrr_runs m ?w)) T" and same: "same_items ?w (snd (wrr_runs m ?w))"
    using runs_invariant [OF ok(1,2), of m] by blast
  note eq = same_items_simps [OF same]
  have len: "length (items ?w) = length its" using build_state [of its] by simp
  have gcd: "unat (w_gcd (snd (wrr_runs m ?w))) = g"
    using same ok(3) g ws by (simp add: same_items_def build_weights)
  have nth: "unat (weight (items ?w ! j)) = ws ! j"
    using j len build_weights [of its] by (metis nth_map weights_def ws)
  have "j < length (items (snd (wrr_runs m ?w)))" using j len eq(1) by simp
  from runs_count [OF _ T this, of k] show ?thesis
    using ok(1) eq gcd k ws nth by (simp add: rs build_weights)
qed

theorem WRR_weighted_fairness_witness:
  "count_list (fst (wrr_runs 9 (snd (wrr_runs 1 (wrr_build [((), ''a'', 8), ((), ''b'', 6), ((), ''c'', 4), ((), ''d'', 0)])))))
     (Some 0) = 4"
proof -
  let ?its = "[((), ''a'', 8), ((), ''b'', 6), ((), ''c'', 4), ((), ''d'', 0)] :: (unit \<times> string \<times> u32) list"
  have "Gcd {8, 6, 4, 0 :: nat} = 2" by (simp add: gcd_non_0_nat)
  then show ?thesis
    using WRR_weighted_fairness [of ?its, OF _ _ _ refl refl refl refl, of 0 1] by simp
qed

text \<open>
  C32. \<open>run\<close> hands out enabled items only, whatever the state; but it may find none where
  there is one: disabling the heaviest item does not lower the current level \<open>cw\<close>, so
  with weights 10 and 1, after one \<open>run\<close> and a \<open>disable\<close> of the item it returned, the next
  \<open>run\<close> returns NULL although the other item is enabled.
\<close>

theorem WRR_run_enabled_only:
  assumes "length (items w) < 2 ^ 31" and "WRR_run w = (Some i, w')"
  shows "i < length (items w) \<and> 0 < weight (items w ! i) \<and> items w' = items w \<and>
    fst (WRR_run (snd (disable_item (Some 0) (snd (WRR_run (wrr_build [(a, ''a'', 10), (b, ''b'', 1)])))))) = None"
proof -
  have "items w \<noteq> []" using assms(2) by (auto simp: WRR_run_def)
  then have "i < length (items w) \<and> 0 < weight (items w ! i) \<and> items w' = items w"
    using wrr_loop_enabled [OF assms(1)] assms(2) by (simp add: WRR_run_def)
  moreover have "fst (WRR_run (snd (disable_item (Some 0)
      (snd (WRR_run (wrr_build [(a, ''a'', 10), (b, ''b'', 1)])))))) = None"
    by code_simp
  ultimately show ?thesis by blast
qed

theorem WRR_run_enabled_only_witness:
  "fst (WRR_run (snd (disable_item (Some 0) (snd (WRR_run (wrr_build
      [((), ''a'', 10), ((), ''b'', 1)])))))) = None"
proof -
  let ?w = "wrr_build [((), ''a'', 10), ((), ''b'', 1)]"
  have "length (items ?w) < 2 ^ 31" by (simp add: build_state)
  moreover have "fst (WRR_run ?w) = Some 0" by code_simp
  ultimately show ?thesis
    using WRR_run_enabled_only [of ?w 0 "snd (WRR_run ?w)" "()" "()"] by (metis prod.collapse)
qed

end
