(* ===== verification/Rules.thy ===== *)
theory Rules
  imports Interfaces
begin

text \<open>
  \<open>Rule\<close>, \<open>RuleLogic\<close> and \<open>RuleManager\<close> of \<^verbatim>\<open>src/utils/pmink_utils.h\<close>: rules in a
  map by priority with a second map by label, and the loop that runs them. A rule
  pointer or iterator is the key of its node in the priority map (map nodes do not
  move), \<open>None\<close> being NULL or \<open>end()\<close>. The virtual \<open>RuleLogic::run\<close> is the parameter
  \<open>logic_run\<close>: it may change the input and call \<open>set_next_rule\<close>. The label of a rule is
  the storage of its key in the label map, so \<open>set_label\<close> on a stored rule, which
  changes the key behind the map's back, is not modelled.
\<close>

section \<open>Rules\<close>

record ('d, 'l) Rule =
  priority :: u32
  label :: string
  data :: 'd
  active :: bool
  logic :: "'l option"
  position :: "u32 option"

definition Rule_new :: "string \<Rightarrow> u32 \<Rightarrow> 'd \<Rightarrow> 'l option \<Rightarrow> ('d, 'l) Rule" where
  "Rule_new lab prio d l =
     \<lparr>priority = prio, label = lab, data = d, active = True, logic = l, position = None\<rparr>"

section \<open>The rule table\<close>

text \<open>The priority map is the list of its pairs in key order.\<close>

record ('d, 'l) RuleManager =
  rules :: "(u32 \<times> ('d, 'l) Rule) list"
  labels :: "string \<rightharpoonup> u32"
  loop_max :: u32
  next_rule :: "u32 option"

definition RuleManager_new :: "('d, 'l) RuleManager" where
  "RuleManager_new = \<lparr>rules = [], labels = Map.empty, loop_max = 1000000, next_rule = None\<rparr>"

fun rules_insert :: "u32 \<Rightarrow> 'r \<Rightarrow> (u32 \<times> 'r) list \<Rightarrow> (u32 \<times> 'r) list" where
  "rules_insert k r [] = [(k, r)]"
| "rules_insert k r ((j, s) # l) =
     (if k < j then (k, r) # (j, s) # l
      else if k = j then (j, s) # l
      else (j, s) # rules_insert k r l)"

definition clear_rules :: "('d, 'l) RuleManager \<Rightarrow> ('d, 'l) RuleManager" where
  "clear_rules rm = rm\<lparr>labels := Map.empty, rules := []\<rparr>"

definition get_rule_label :: "string \<Rightarrow> ('d, 'l) RuleManager \<Rightarrow> u32 option" where
  "get_rule_label lab rm = labels rm lab"

definition get_rule_priority :: "u32 \<Rightarrow> ('d, 'l) RuleManager \<Rightarrow> u32 option" where
  "get_rule_priority prio rm = (case map_of (rules rm) prio of None \<Rightarrow> None | Some _ \<Rightarrow> Some prio)"

definition new_rule ::
  "string \<Rightarrow> u32 \<Rightarrow> 'd \<Rightarrow> 'l option \<Rightarrow> ('d, 'l) RuleManager \<Rightarrow> u32 option \<times> ('d, 'l) RuleManager" where
  "new_rule lab prio d l rm =
     (if l = None then (None, rm)
      else if labels rm lab \<noteq> None then (None, rm)
      else if map_of (rules rm) prio \<noteq> None then (None, rm)
      else (let rule = (Rule_new lab prio d l)\<lparr>position := Some prio\<rparr>
            in (Some prio, rm\<lparr>rules := rules_insert prio rule (rules rm),
                              labels := (labels rm)(label rule \<mapsto> prio)\<rparr>)))"

definition remove_rule_priority :: "u32 \<Rightarrow> ('d, 'l) RuleManager \<Rightarrow> bool \<times> ('d, 'l) RuleManager" where
  "remove_rule_priority prio rm =
     (case map_of (rules rm) prio of
        None \<Rightarrow> (False, rm)
      | Some r \<Rightarrow>
          (case labels rm (label r) of
             None \<Rightarrow> (False, rm)
           | Some _ \<Rightarrow> (True, rm\<lparr>labels := (labels rm)(label r := None),
                               rules := filter (\<lambda>e. fst e \<noteq> prio) (rules rm)\<rparr>)))"

text \<open>
  By label: the rule's priority field, which \<open>set_priority\<close> may have changed, selects the
  node to erase. A label whose node is gone would be a dangling pointer (\<open>None\<close>).
\<close>

definition remove_rule_label :: "string \<Rightarrow> ('d, 'l) RuleManager \<Rightarrow> (bool \<times> ('d, 'l) RuleManager) option" where
  "remove_rule_label lab rm =
     (case labels rm lab of
        None \<Rightarrow> Some (False, rm)
      | Some k \<Rightarrow>
          (case map_of (rules rm) k of
             None \<Rightarrow> None
           | Some r \<Rightarrow>
               (case map_of (rules rm) (priority r) of
                  None \<Rightarrow> Some (False, rm)
                | Some _ \<Rightarrow> Some (True, rm\<lparr>labels := (labels rm)(lab := None),
                                        rules := filter (\<lambda>e. fst e \<noteq> priority r) (rules rm)\<rparr>))))"

text \<open>
  Assignment clears the target and inserts the other manager's rules one by one;
  \<open>other\<close> is \<open>None\<close> when the source is the target itself, already cleared then.
\<close>

definition assign_rules :: "('d, 'l) RuleManager option \<Rightarrow> ('d, 'l) RuleManager \<Rightarrow> ('d, 'l) RuleManager" where
  "assign_rules other rm =
     (let rm' = clear_rules rm; src = (case other of None \<Rightarrow> rm' | Some om \<Rightarrow> om)
      in foldl (\<lambda>m (k, r). snd (new_rule (label r) (priority r) (data r) (logic r) m)) rm' (rules src))"

definition set_loop_max :: "u32 \<Rightarrow> ('d, 'l) RuleManager \<Rightarrow> ('d, 'l) RuleManager" where
  "set_loop_max v rm = rm\<lparr>loop_max := v\<rparr>"

definition set_next_rule :: "u32 option \<Rightarrow> ('d, 'l) RuleManager \<Rightarrow> ('d, 'l) RuleManager" where
  "set_next_rule k rm = rm\<lparr>next_rule := k\<rparr>"

section \<open>Running the rules\<close>

definition RRT_STOP_OK :: int where "RRT_STOP_OK = 0"
definition RRT_STOP_ERR :: int where "RRT_STOP_ERR = 1"
definition RRT_CONTINUE :: int where "RRT_CONTINUE = 2"
definition RRT_CONTINUE_PAUSE :: int where "RRT_CONTINUE_PAUSE = 3"
definition RRT_STOP_INF_LOOP :: int where "RRT_STOP_INF_LOOP = 9999"
definition RRT_STOP_UNKNOWN_RES :: int where "RRT_STOP_UNKNOWN_RES = 10000"

lemmas rrt_defs = RRT_STOP_OK_def RRT_STOP_ERR_def RRT_CONTINUE_def RRT_CONTINUE_PAUSE_def
  RRT_STOP_INF_LOOP_def RRT_STOP_UNKNOWN_RES_def

text \<open>\<open>it++\<close>: the least key above the current one.\<close>

definition next_position :: "(u32 \<times> 'r) list \<Rightarrow> u32 \<Rightarrow> u32 option" where
  "next_position rs k = (case filter (\<lambda>e. k < fst e) rs of [] \<Rightarrow> None | e # _ \<Rightarrow> Some (fst e))"

text \<open>What a call comes to: a result, a use of a rule that is gone, or no end within the fuel.\<close>

datatype 'a outcome = Returned 'a | Dangling | Out_of_fuel

text \<open>
  The loop, from the iterator \<open>it\<close> with \<open>lc\<close> rounds made (a 32-bit counter), \<open>res\<close> the
  last result and \<open>last\<close> the last rule. The fuel counts logic calls.
\<close>

fun process_loop ::
  "('l \<Rightarrow> ('d, 'l) Rule \<Rightarrow> 'i \<times> u32 option \<Rightarrow> int \<times> 'i \<times> u32 option) \<Rightarrow> ('d, 'l) RuleManager
    \<Rightarrow> nat \<Rightarrow> u32 \<Rightarrow> u32 option \<Rightarrow> int \<Rightarrow> u32 option \<Rightarrow> u32 option \<Rightarrow> 'i
    \<Rightarrow> (int \<times> 'i \<times> u32 option \<times> u32 option) outcome" where
  "process_loop logic_run rm fuel lc None res lst nxt input = Returned (res, input, lst, nxt)"
| "process_loop logic_run rm 0 lc (Some k) res lst nxt input = Out_of_fuel"
| "process_loop logic_run rm (Suc fuel) lc (Some k) res lst nxt input =
     (case map_of (rules rm) k of
        None \<Rightarrow> Dangling
      | Some rule \<Rightarrow>
          (case logic rule of
             None \<Rightarrow> Dangling
           | Some l \<Rightarrow>
               (let (res', input', nxt') = logic_run l rule (input, nxt);
                    lst' = Some k;
                    it = (case nxt' of
                            Some j \<Rightarrow> (case map_of (rules rm) j of None \<Rightarrow> None | Some r \<Rightarrow> Some (position r))
                          | None \<Rightarrow> Some (next_position (rules rm) k));
                    lc' = lc + 1
                in case it of
                     None \<Rightarrow> Dangling
                   | Some it' \<Rightarrow>
                       (if lc' > loop_max rm then Returned (RRT_STOP_INF_LOOP, input', lst', nxt')
                        else if res' = RRT_STOP_OK \<or> res' = RRT_STOP_ERR \<or> res' = RRT_CONTINUE_PAUSE
                        then Returned (res', input', lst', nxt')
                        else if res' = RRT_CONTINUE
                        then process_loop logic_run rm fuel lc' it' res' lst' nxt' input'
                        else Returned (RRT_STOP_UNKNOWN_RES, input', lst', nxt')))))"

definition process_rules ::
  "('l \<Rightarrow> ('d, 'l) Rule \<Rightarrow> 'i \<times> u32 option \<Rightarrow> int \<times> 'i \<times> u32 option) \<Rightarrow> nat \<Rightarrow> 'i
    \<Rightarrow> u32 option \<Rightarrow> u32 option \<Rightarrow> ('d, 'l) RuleManager
    \<Rightarrow> (int \<times> 'i \<times> u32 option \<times> ('d, 'l) RuleManager) outcome" where
  "process_rules logic_run fuel input last_rule first_rule rm =
     (let it0 = (case rules rm of [] \<Rightarrow> None | e # _ \<Rightarrow> Some (fst e));
          start = (case first_rule of
                     None \<Rightarrow> Some it0
                   | Some k \<Rightarrow> map_option position (map_of (rules rm) k))
      in case start of
           None \<Rightarrow> Dangling
         | Some it \<Rightarrow>
             (case process_loop logic_run rm fuel 0 it RRT_STOP_UNKNOWN_RES last_rule (next_rule rm) input of
                Returned (res, input', lst, nxt) \<Rightarrow> Returned (res, input', lst, rm\<lparr>next_rule := nxt\<rparr>)
              | Dangling \<Rightarrow> Dangling
              | Out_of_fuel \<Rightarrow> Out_of_fuel))"

section \<open>The two maps agree\<close>

definition rules_inv :: "('d, 'l) RuleManager \<Rightarrow> bool" where
  "rules_inv rm \<longleftrightarrow>
     sorted_wrt (<) (map fst (rules rm)) \<and>
     (\<forall>(k, r) \<in> set (rules rm). priority r = k \<and> position r = Some k \<and> logic r \<noteq> None \<and>
        labels rm (label r) = Some k) \<and>
     (\<forall>l k. labels rm l = Some k \<longrightarrow> (\<exists>r. (k, r) \<in> set (rules rm) \<and> label r = l))"

lemma rules_insert_keys:
  "k \<notin> fst ` set l \<Longrightarrow> set (rules_insert k r l) = insert (k, r) (set l)"
  by (induction k r l rule: rules_insert.induct) auto

lemma rules_insert_sorted:
  "sorted_wrt (<) (map fst l) \<Longrightarrow> k \<notin> fst ` set l \<Longrightarrow> sorted_wrt (<) (map fst (rules_insert k r l))"
  by (induction k r l rule: rules_insert.induct) (auto simp: rules_insert_keys)

lemma rules_inv_map_of:
  assumes "rules_inv rm"
  shows "map_of (rules rm) k = Some r \<longleftrightarrow> (k, r) \<in> set (rules rm)"
  using assms by (intro map_of_eq_Some_iff) (simp add: rules_inv_def strict_sorted_iff)

lemma rules_inv_memD:
  assumes "rules_inv rm" and "(k, r) \<in> set (rules rm)"
  shows "priority r = k" "position r = Some k" "logic r \<noteq> None" "labels rm (label r) = Some k"
  using assms by (auto simp: rules_inv_def)

lemma rules_inv_labelD:
  assumes "rules_inv rm" and "labels rm l = Some k"
  obtains r where "(k, r) \<in> set (rules rm)" "label r = l" "map_of (rules rm) k = Some r"
  using assms rules_inv_map_of [OF assms(1)] unfolding rules_inv_def by blast

lemma rules_invI:
  assumes "sorted_wrt (<) (map fst (rules rm))"
    and "\<And>k r. (k, r) \<in> set (rules rm) \<Longrightarrow>
      priority r = k \<and> position r = Some k \<and> logic r \<noteq> None \<and> labels rm (label r) = Some k"
    and "\<And>l k. labels rm l = Some k \<Longrightarrow> \<exists>r. (k, r) \<in> set (rules rm) \<and> label r = l"
  shows "rules_inv rm"
  unfolding rules_inv_def using assms by blast

lemma rules_inv_sorted: "rules_inv rm \<Longrightarrow> sorted_wrt (<) (map fst (rules rm))"
  unfolding rules_inv_def by blast

lemma new_rule_inv:
  assumes inv: "rules_inv rm"
  shows "rules_inv (snd (new_rule lab prio d l rm))"
proof (cases "l = None \<or> labels rm lab \<noteq> None \<or> map_of (rules rm) prio \<noteq> None")
  case True
  then have "snd (new_rule lab prio d l rm) = rm" by (auto simp: new_rule_def)
  then show ?thesis using inv by simp
next
  case False
  then obtain lg where ne: "l = Some lg" "labels rm lab = None" "map_of (rules rm) prio = None" by auto
  let ?r = "(Rule_new lab prio d l)\<lparr>position := Some prio\<rparr>"
  let ?rm = "rm\<lparr>rules := rules_insert prio ?r (rules rm), labels := (labels rm)(lab \<mapsto> prio)\<rparr>"
  have prio: "prio \<notin> fst ` set (rules rm)" using ne by (simp add: map_of_eq_None_iff)
  have "rules_inv ?rm"
  proof (rule rules_invI)
    show "sorted_wrt (<) (map fst (rules ?rm))"
      using rules_inv_sorted [OF inv] prio by (simp add: rules_insert_sorted)
  next
    fix k r
    assume "(k, r) \<in> set (rules ?rm)"
    then consider "k = prio" "r = ?r" | "(k, r) \<in> set (rules rm)"
      by (auto simp: rules_insert_keys [OF prio])
    then show "priority r = k \<and> position r = Some k \<and> logic r \<noteq> None \<and> labels ?rm (label r) = Some k"
    proof cases
      case 1
      then show ?thesis by (simp add: Rule_new_def ne)
    next
      case 2
      note mem = rules_inv_memD [OF inv 2]
      have "label r \<noteq> lab" using mem(4) ne(2) by auto
      then show ?thesis using mem by simp
    qed
  next
    fix l' k
    assume "labels ?rm l' = Some k"
    then consider "l' = lab" "k = prio" | "labels rm l' = Some k" by (cases "l' = lab") simp_all
    then show "\<exists>r. (k, r) \<in> set (rules ?rm) \<and> label r = l'"
    proof cases
      case 1
      have "(prio, ?r) \<in> set (rules ?rm) \<and> label ?r = lab"
        by (simp add: rules_insert_keys [OF prio] Rule_new_def)
      then show ?thesis unfolding 1 by (rule exI)
    next
      case 2
      obtain r where "(k, r) \<in> set (rules rm)" "label r = l'" by (rule rules_inv_labelD [OF inv 2])
      moreover have "set (rules rm) \<subseteq> set (rules ?rm)" by (auto simp: rules_insert_keys [OF prio])
      ultimately show ?thesis by blast
    qed
  qed
  moreover have "snd (new_rule lab prio d l rm) = ?rm"
    using ne by (simp add: new_rule_def Rule_new_def)
  ultimately show ?thesis by simp
qed

lemma remove_node_inv:
  assumes inv: "rules_inv rm" and r: "(k, r) \<in> set (rules rm)"
  shows "rules_inv (rm\<lparr>labels := (labels rm)(label r := None), rules := filter (\<lambda>e. fst e \<noteq> k) (rules rm)\<rparr>)"
proof -
  have lab: "label r' = label r \<longleftrightarrow> k' = k" if "(k', r') \<in> set (rules rm)" for k' r'
    using rules_inv_memD(4) [OF inv that] rules_inv_memD(4) [OF inv r]
      rules_inv_map_of [OF inv, of k] that r by (metis option.inject)
  have "sorted_wrt (<) (map fst (filter (\<lambda>e. fst e \<noteq> k) (rules rm)))"
    using inv by (simp add: rules_inv_def sorted_wrt_map sorted_wrt_filter)
  then show ?thesis
    using inv lab unfolding rules_inv_def by (fastforce split: if_splits)
qed

lemma remove_priority_inv:
  assumes inv: "rules_inv rm"
  shows "rules_inv (snd (remove_rule_priority prio rm))"
  using inv remove_node_inv [OF inv] rules_inv_map_of [OF inv]
  by (auto simp: remove_rule_priority_def split: option.splits)

lemma remove_label_eq:
  assumes inv: "rules_inv rm" and k: "labels rm lab = Some k"
  shows "remove_rule_label lab rm = Some (remove_rule_priority k rm) \<and> fst (remove_rule_priority k rm)"
proof -
  obtain r where r: "(k, r) \<in> set (rules rm)" "label r = lab" "map_of (rules rm) k = Some r"
    by (rule rules_inv_labelD [OF inv k])
  then show ?thesis
    using k rules_inv_memD [OF inv r(1)] by (simp add: remove_rule_label_def remove_rule_priority_def)
qed

datatype ('d, 'l) rules_call =
  New string u32 'd "'l option" | Remove u32 | Remove_label string | Clear_rules | Loop_max u32 | Next "u32 option"

fun rules_step :: "('d, 'l) rules_call \<Rightarrow> ('d, 'l) RuleManager \<Rightarrow> ('d, 'l) RuleManager" where
  "rules_step (New lab prio d l) rm = snd (new_rule lab prio d l rm)"
| "rules_step (Remove prio) rm = snd (remove_rule_priority prio rm)"
| "rules_step (Remove_label lab) rm = (case remove_rule_label lab rm of None \<Rightarrow> rm | Some (_, rm') \<Rightarrow> rm')"
| "rules_step Clear_rules rm = clear_rules rm"
| "rules_step (Loop_max v) rm = set_loop_max v rm"
| "rules_step (Next k) rm = set_next_rule k rm"

interpretation rules: stepping rules_step rules_inv
proof
  fix rm :: "('d, 'l) RuleManager" and c
  assume inv: "rules_inv rm"
  show "rules_inv (rules_step c rm)"
  proof (cases c)
    case (Remove_label lab)
    show ?thesis
    proof (cases "labels rm lab")
      case None
      then show ?thesis using inv Remove_label by (simp add: remove_rule_label_def)
    next
      case (Some k)
      then show ?thesis
        using remove_label_eq [OF inv] remove_priority_inv [OF inv, of k] Remove_label
        by (simp add: case_prod_beta)
    qed
  next
    case Clear_rules
    then show ?thesis by (simp add: clear_rules_def rules_inv_def)
  next
    case (Loop_max v)
    then show ?thesis using inv by (simp add: set_loop_max_def rules_inv_def)
  next
    case (Next k)
    then show ?thesis using inv by (simp add: set_next_rule_def rules_inv_def)
  qed (use inv in \<open>auto intro: new_rule_inv remove_priority_inv\<close>)
qed

lemma rules_new_inv: "rules_inv RuleManager_new"
  by (simp add: rules_inv_def RuleManager_new_def)

section \<open>The loop\<close>

lemma process_loop_ends:
  "loop_max rm < - 1 \<Longrightarrow> lc \<le> loop_max rm \<Longrightarrow> unat (loop_max rm) < unat lc + fuel \<Longrightarrow>
    process_loop logic_run rm fuel lc it res lst nxt input \<noteq> Out_of_fuel"
proof (induction logic_run rm fuel lc it res lst nxt input rule: process_loop.induct)
  case (1 logic_run rm fuel lc res lst nxt input)
  then show ?case by simp
next
  case (2 logic_run rm lc k res lst nxt input)
  then show ?case by (simp add: word_le_nat_alt)
next
  case (3 logic_run rm fuel lc k res lst nxt input)
  have "unat lc + 1 \<le> unat (- 1 :: u32)" using 3(2,3) unfolding word_less_nat_alt word_le_nat_alt by linarith
  then have lc: "unat (lc + 1) = unat lc + 1" by (rule unat_plus_one_bounded)
  have next_round: "unat (loop_max rm) < unat (lc + 1) + fuel" using 3(4) lc by simp
  show ?case
    using 3(1) [OF _ _ _ _ _ _ _ _ _ _ _ _ 3(2) _ next_round]
    by (auto simp: Let_def split: option.splits prod.splits)
qed

text \<open>What the loop amounts to when no rule jumps: a walk down the list of rules.\<close>

fun walk_rules ::
  "('l \<Rightarrow> ('d, 'l) Rule \<Rightarrow> 'i \<Rightarrow> int \<times> 'i) \<Rightarrow> (u32 \<times> ('d, 'l) Rule) list \<Rightarrow> int \<Rightarrow> u32 option \<Rightarrow> 'i
    \<Rightarrow> int \<times> 'i \<times> u32 option" where
  "walk_rules f [] res lst input = (res, input, lst)"
| "walk_rules f ((k, r) # rs) res lst input =
     (let (res', input') = f (the (logic r)) r input in
      if res' = RRT_STOP_OK \<or> res' = RRT_STOP_ERR \<or> res' = RRT_CONTINUE_PAUSE then (res', input', Some k)
      else if res' = RRT_CONTINUE then walk_rules f rs res' (Some k) input'
      else (RRT_STOP_UNKNOWN_RES, input', Some k))"

lemma next_position_split:
  assumes "sorted_wrt (<) (map fst (pre @ (k, r) # post))"
  shows "next_position (pre @ (k, r) # post) k = (case post of [] \<Rightarrow> None | e # _ \<Rightarrow> Some (fst e))"
proof -
  have "filter (\<lambda>e. k < fst e) pre = []" and "filter (\<lambda>e. k < fst e) post = post"
    using assms by (auto simp: sorted_wrt_append filter_empty_conv filter_id_conv dest: less_asym)
  then show ?thesis by (simp add: next_position_def)
qed

definition no_jumps ::
  "('l \<Rightarrow> ('d, 'l) Rule \<Rightarrow> 'i \<times> u32 option \<Rightarrow> int \<times> 'i \<times> u32 option)
    \<Rightarrow> ('l \<Rightarrow> ('d, 'l) Rule \<Rightarrow> 'i \<Rightarrow> int \<times> 'i) \<Rightarrow> bool" where
  "no_jumps logic_run f \<longleftrightarrow>
     (\<forall>l r i. logic_run l r (i, None) = (fst (f l r i), snd (f l r i), None))"

lemma process_loop_walk:
  assumes inv: "rules_inv rm" and no_jump: "no_jumps logic_run f"
    and loop_max: "loop_max rm < - 1"
  shows "rules rm = pre @ post \<Longrightarrow> unat lc + length post \<le> unat (loop_max rm) \<Longrightarrow> length post \<le> fuel \<Longrightarrow>
    process_loop logic_run rm fuel lc (case post of [] \<Rightarrow> None | e # _ \<Rightarrow> Some (fst e)) res lst None input =
      (case walk_rules f post res lst input of (res', input', lst') \<Rightarrow> Returned (res', input', lst', None))"
proof (induction post arbitrary: pre lc fuel res lst input)
  case Nil
  then show ?case by simp
next
  case (Cons e post)
  obtain k r where e: "e = (k, r)" by fastforce
  obtain fuel' where fuel: "fuel = Suc fuel'" using Cons.prems(3) by (cases fuel) auto
  have mem: "(k, r) \<in> set (rules rm)" using Cons.prems(1) e by simp
  obtain l where l: "logic r = Some l" using rules_inv_memD(3) [OF inv mem] by blast
  have "unat lc + 1 \<le> unat (loop_max rm)" using Cons.prems(2) by simp
  then have lc: "unat (lc + 1) = unat lc + 1" by (intro unat_plus_one_bounded)
  then have le: "\<not> loop_max rm < lc + 1" using Cons.prems(2) by (simp add: word_less_nat_alt)
  have sorted: "sorted_wrt (<) (map fst (pre @ (k, r) # post))"
    using inv Cons.prems(1) e by (simp add: rules_inv_def)
  have pos: "next_position (rules rm) k = (case post of [] \<Rightarrow> None | e # _ \<Rightarrow> Some (fst e))"
    using next_position_split [OF sorted] Cons.prems(1) e by simp
  have IH: "process_loop logic_run rm fuel' (lc + 1) (case post of [] \<Rightarrow> None | e # _ \<Rightarrow> Some (fst e)) res' lst' None input' =
      (case walk_rules f post res' lst' input' of (res', input', lst') \<Rightarrow> Returned (res', input', lst', None))"
    for res' lst' input'
    using Cons.prems by (intro Cons.IH [of "pre @ [e]"]) (simp_all add: lc fuel)
  have node: "map_of (rules rm) k = Some r" using mem rules_inv_map_of [OF inv] by blast
  show ?case
    using le by (simp add: e fuel node l no_jump [unfolded no_jumps_def] pos IH case_prod_beta Let_def)
qed

lemma process_rules_walk:
  assumes inv: "rules_inv rm" and no_jump: "no_jumps logic_run f"
    and "next_rule rm = None" and "loop_max rm < - 1"
    and "length (rules rm) \<le> unat (loop_max rm)" and "length (rules rm) \<le> fuel"
  shows "process_rules logic_run fuel input lst None rm =
    (case walk_rules f (rules rm) RRT_STOP_UNKNOWN_RES lst input of
       (res, input', lst') \<Rightarrow> Returned (res, input', lst', rm))"
  using process_loop_walk [OF inv no_jump assms(4), of "[]" "rules rm" 0 fuel RRT_STOP_UNKNOWN_RES lst input] assms
  by (simp add: process_rules_def case_prod_beta Let_def)

text \<open>After a jump nothing resets \<open>next_rule\<close>: the target runs again and again.\<close>

lemma process_loop_sticks:
  assumes inv: "rules_inv rm" and k: "map_of (rules rm) k = Some r" and l: "logic r = Some l"
    and continue: "\<And>i. logic_run l r (i, Some k) = (RRT_CONTINUE, g i, Some k)"
    and loop_max: "loop_max rm < - 1"
  shows "unat (loop_max rm) - unat lc = m \<Longrightarrow> lc \<le> loop_max rm \<Longrightarrow>
    process_loop logic_run rm (m + 1) lc (Some k) res lst (Some k) input =
      Returned (RRT_STOP_INF_LOOP, (g ^^ (m + 1)) input, Some k, Some k)"
proof (induction m arbitrary: lc res lst input)
  case 0
  then have "lc = loop_max rm" by (simp add: word_le_nat_alt word_unat_eq_iff)
  moreover have "loop_max rm < loop_max rm + 1"
    using loop_max unat_plus_one_bounded [of "loop_max rm" "- 1"]
    by (simp add: word_less_nat_alt Suc_le_eq)
  moreover have "position r = Some k" using k rules_inv_memD(2) [OF inv] rules_inv_map_of [OF inv] by blast
  ultimately show ?case using k l by (simp add: continue Let_def)
next
  case (Suc m)
  then have less: "unat lc + 1 \<le> unat (loop_max rm)" by linarith
  then have lc: "unat (lc + 1) = unat lc + 1" by (rule unat_plus_one_bounded)
  have le: "lc + 1 \<le> loop_max rm" using less lc by (simp add: word_le_nat_alt)
  have "unat (loop_max rm) - unat (lc + 1) = m" using Suc.prems(1) lc by simp
  note IH = Suc.IH [OF this le]
  have "position r = Some k" using k rules_inv_memD(2) [OF inv] rules_inv_map_of [OF inv] by blast
  moreover have "\<not> loop_max rm < lc + 1" using le by simp
  moreover have "(g ^^ (m + 1)) (g input) = (g ^^ (Suc m + 1)) input"
    by (simp add: funpow_swap1)
  ultimately show ?case
    using k l IH [of RRT_CONTINUE "Some k" "g input"]
    by (simp add: continue Let_def del: One_nat_def funpow.simps) (simp add: rrt_defs)
qed

section \<open>Properties\<close>

text \<open>
  C27. The two maps of a rule manager always describe the same rules: after any calls of
  \<open>new_rule\<close>, \<open>remove_rule\<close> (by priority or by label) and \<open>clear\<close>, looking a label up
  finds exactly the rule that carries it, no rule has two labels, removing by label
  never meets a dangling pointer, and it removes the rule it finds from both maps.
\<close>

theorem RuleManager_maps_agree:
  assumes rm: "rm = run_steps rules_step cs RuleManager_new"
  shows "(get_rule_label lab rm = Some k \<longleftrightarrow> (\<exists>r. map_of (rules rm) k = Some r \<and> label r = lab)) \<and>
    (get_rule_label lab rm = get_rule_label lab' rm \<and> get_rule_label lab rm \<noteq> None \<longrightarrow> lab = lab') \<and>
    (\<exists>b rm'. remove_rule_label lab rm = Some (b, rm') \<and> b = (get_rule_label lab rm \<noteq> None) \<and>
      get_rule_label lab rm' = None \<and>
      (get_rule_label lab rm = Some k \<longrightarrow> get_rule_priority k rm' = None))"
proof -
  have inv: "rules_inv rm" unfolding rm by (rule rules.run_keeps_inv [OF rules_new_inv])
  have lookup: "labels rm l = Some j \<longleftrightarrow> (\<exists>r. map_of (rules rm) j = Some r \<and> label r = l)" for l j
    using inv rules_inv_map_of [OF inv] by (metis rules_inv_labelD rules_inv_memD(4))
  then have inj: "labels rm l = labels rm l' \<Longrightarrow> labels rm l \<noteq> None \<Longrightarrow> l = l'" for l l'
    by (metis not_Some_eq option.inject)
  show ?thesis
  proof (cases "labels rm lab")
    case None
    then have "\<not> (\<exists>r. map_of (rules rm) k = Some r \<and> label r = lab)" using lookup by (metis option.distinct(1))
    then show ?thesis using None by (auto simp: get_rule_label_def remove_rule_label_def)
  next
    case (Some j)
    then obtain r where r: "map_of (rules rm) j = Some r" "label r = lab" using lookup by blast
    let ?rm = "rm\<lparr>labels := (labels rm)(lab := None), rules := filter (\<lambda>e. fst e \<noteq> j) (rules rm)\<rparr>"
    have "remove_rule_priority j rm = (True, ?rm)"
      using r Some by (simp add: remove_rule_priority_def)
    then have rem: "remove_rule_label lab rm = Some (True, ?rm)"
      using remove_label_eq [OF inv Some] by simp
    have "map_of (filter (\<lambda>e. fst e \<noteq> j) (rules rm)) j = None"
      by (simp add: map_of_eq_None_iff image_iff)
    then have gone: "get_rule_label lab ?rm = None" "get_rule_priority j ?rm = None"
      by (simp_all add: get_rule_label_def get_rule_priority_def)
    have "get_rule_label lab rm = Some k \<longleftrightarrow> (\<exists>r. map_of (rules rm) k = Some r \<and> label r = lab)"
      unfolding get_rule_label_def by (rule lookup)
    moreover have "get_rule_label lab rm = get_rule_label lab' rm \<and> get_rule_label lab rm \<noteq> None \<longrightarrow> lab = lab'"
      unfolding get_rule_label_def using inj by blast
    moreover have "get_rule_label lab rm = Some j" using Some by (simp add: get_rule_label_def)
    ultimately show ?thesis using rem gone by fastforce
  qed
qed

theorem RuleManager_maps_agree_witness:
  "get_rule_label ''b'' (run_steps rules_step [New ''a'' 20 () (Some ()), New ''b'' 10 () (Some ()), Remove 20]
     RuleManager_new) = Some 10"
proof -
  let ?rm = "run_steps rules_step [New ''a'' 20 () (Some ()), New ''b'' 10 () (Some ()), Remove 20]
     (RuleManager_new :: (unit, unit) RuleManager)"
  have "map_of (rules ?rm) 10 = Some ((Rule_new ''b'' 10 () (Some ()))\<lparr>position := Some 10\<rparr>)"
    by (simp add: new_rule_def RuleManager_new_def remove_rule_priority_def Rule_new_def)
  then show ?thesis
    using RuleManager_maps_agree [of ?rm, OF refl, of "''b''" 10] by (auto simp: Rule_new_def)
qed

text \<open>
  C24. Processing always ends: whatever the rules, the jumps they make and the results
  they return, \<open>process_rules\<close> comes back after at most \<open>loop_max + 1\<close> logic calls, provided
  \<open>loop_max\<close> is not the greatest 32-bit value. With that value the round counter wraps
  before it exceeds the bound, and a rule that jumps to itself is never stopped.
\<close>

definition jump_logic :: "unit \<Rightarrow> (unit, unit) Rule \<Rightarrow> unit \<times> u32 option \<Rightarrow> int \<times> unit \<times> u32 option" where
  "jump_logic l r s = (RRT_CONTINUE, (), Some (priority r))"

definition jump_rules :: "(unit, unit) RuleManager" where
  "jump_rules = set_loop_max (- 1) (snd (new_rule ''again'' 1 () (Some ()) RuleManager_new))"

lemma jump_forever:
  "process_loop jump_logic jump_rules fuel lc (Some 1) res lst nxt () = Out_of_fuel"
proof (induction fuel arbitrary: lc res lst nxt)
  case 0
  then show ?case by simp
next
  case (Suc fuel)
  have "\<not> - 1 < lc + (1::u32)" by simp
  then show ?case using Suc.IH
    by (simp add: jump_rules_def jump_logic_def new_rule_def Rule_new_def RuleManager_new_def
        set_loop_max_def rrt_defs Let_def)
qed

theorem RuleManager_process_ends:
  assumes "loop_max rm < - 1" and "fuel = unat (loop_max rm) + 1"
  shows "process_rules logic_run fuel input last_rule first_rule rm \<noteq> Out_of_fuel \<and>
    (\<forall>n. process_rules jump_logic n () None None jump_rules = Out_of_fuel)"
proof
  have "process_loop logic_run rm fuel 0 it RRT_STOP_UNKNOWN_RES last_rule (next_rule rm) input \<noteq> Out_of_fuel" for it
    using assms by (intro process_loop_ends) simp_all
  then show "process_rules logic_run fuel input last_rule first_rule rm \<noteq> Out_of_fuel"
    by (auto simp: process_rules_def Let_def split: option.splits outcome.splits)
  have "rules jump_rules \<noteq> [] \<and> fst (hd (rules jump_rules)) = 1"
    by (simp add: jump_rules_def new_rule_def RuleManager_new_def set_loop_max_def)
  then show "\<forall>n. process_rules jump_logic n () None None jump_rules = Out_of_fuel"
    by (cases "rules jump_rules") (simp_all add: process_rules_def jump_forever)
qed

theorem RuleManager_process_ends_witness:
  "process_rules jump_logic 4 () None None (set_loop_max 3 jump_rules) \<noteq> Out_of_fuel"
proof -
  have max: "loop_max (set_loop_max 3 jump_rules) = 3" by (simp add: set_loop_max_def)
  have "(3::u32) < - 1" by simp
  then show ?thesis
    by (intro RuleManager_process_ends [THEN conjunct1]) (simp_all add: max)
qed

text \<open>
  C31. The rules are kept in ascending order of priority. If the logic never sets \<open>next_rule\<close> and there
  are at most \<open>loop_max\<close> rules, \<open>process_rules\<close> runs the rules once each in that order, passing the
  input from one to the next, and stops at the first that does not return \<open>RRT_CONTINUE\<close>, with its
  result (or \<open>RRT_STOP_UNKNOWN_RES\<close> for a result it does not know); it consults no rule's activity
  flag. And if processing starts at a rule that \<open>next_rule\<close> names, and the logic of that rule
  continues and leaves \<open>next_rule\<close> alone, that rule is all that runs, until the loop bound: the
  jump is never reset, whatever the logic of the other rules does.
\<close>

theorem RuleManager_process_order:
  assumes rm: "rm = run_steps rules_step cs RuleManager_new" and "loop_max rm < - 1"
  shows "sorted_wrt (<) (map fst (rules rm)) \<and>
    (no_jumps logic_run f \<and> length (rules rm) \<le> unat (loop_max rm) \<and> length (rules rm) \<le> fuel \<longrightarrow>
      process_rules logic_run fuel input last_rule None (rm\<lparr>next_rule := None\<rparr>) =
        (case walk_rules f (rules rm) RRT_STOP_UNKNOWN_RES last_rule input of
           (res, input', last') \<Rightarrow> Returned (res, input', last', rm\<lparr>next_rule := None\<rparr>))) \<and>
    (map_of (rules rm) k = Some r \<and> (\<forall>i. logic_run (the (logic r)) r (i, Some k) = (RRT_CONTINUE, g i, Some k)) \<longrightarrow>
      process_rules logic_run (unat (loop_max rm) + 1) input last_rule (Some k) (rm\<lparr>next_rule := Some k\<rparr>) =
        Returned (RRT_STOP_INF_LOOP, (g ^^ (unat (loop_max rm) + 1)) input, Some k, rm\<lparr>next_rule := Some k\<rparr>))"
proof (intro conjI impI)
  have inv: "rules_inv rm" unfolding rm by (rule rules.run_keeps_inv [OF rules_new_inv])
  then show "sorted_wrt (<) (map fst (rules rm))" by (simp add: rules_inv_def)
  have invs: "rules_inv (rm\<lparr>next_rule := next\<rparr>)" for "next" using inv by (simp add: rules_inv_def)
  show "process_rules logic_run fuel input last_rule None (rm\<lparr>next_rule := None\<rparr>) =
      (case walk_rules f (rules rm) RRT_STOP_UNKNOWN_RES last_rule input of
         (res, input', last') \<Rightarrow> Returned (res, input', last', rm\<lparr>next_rule := None\<rparr>))"
    if "no_jumps logic_run f \<and> length (rules rm) \<le> unat (loop_max rm) \<and> length (rules rm) \<le> fuel"
    using process_rules_walk [OF invs [of None], of logic_run f] that assms(2) by simp
  show "process_rules logic_run (unat (loop_max rm) + 1) input last_rule (Some k) (rm\<lparr>next_rule := Some k\<rparr>) =
      Returned (RRT_STOP_INF_LOOP, (g ^^ (unat (loop_max rm) + 1)) input, Some k, rm\<lparr>next_rule := Some k\<rparr>)"
    if k: "map_of (rules rm) k = Some r \<and> (\<forall>i. logic_run (the (logic r)) r (i, Some k) = (RRT_CONTINUE, g i, Some k))"
  proof -
    obtain l where l: "logic r = Some l" and pos: "position r = Some k"
      using k rules_inv_memD(2,3) [OF inv] rules_inv_map_of [OF inv] by blast
    have "process_loop logic_run (rm\<lparr>next_rule := Some k\<rparr>) (unat (loop_max rm) + 1) 0 (Some k) RRT_STOP_UNKNOWN_RES last_rule (Some k) input =
        Returned (RRT_STOP_INF_LOOP, (g ^^ (unat (loop_max rm) + 1)) input, Some k, Some k)"
      by (rule process_loop_sticks [OF invs [of "Some k"], of k r l logic_run g, OF _ l]) (use k l assms(2) in simp_all)
    then show ?thesis using inv k pos by (simp add: process_rules_def rules_inv_def)
  qed
qed

definition trace_logic :: "unit \<Rightarrow> (unit, unit) Rule \<Rightarrow> u32 list \<times> u32 option \<Rightarrow> int \<times> u32 list \<times> u32 option" where
  "trace_logic l r s = (RRT_CONTINUE, fst s @ [priority r], snd s)"

theorem RuleManager_process_order_witness:
  "\<exists>rm. process_rules trace_logic 2 [] None None (rm\<lparr>next_rule := None\<rparr>) =
      Returned (RRT_CONTINUE, [10, 20], Some 20, rm\<lparr>next_rule := None\<rparr>) \<and>
    process_rules trace_logic 6 [] None (Some 10) (rm\<lparr>next_rule := Some 10\<rparr>) =
      Returned (RRT_STOP_INF_LOOP, [10, 10, 10, 10, 10, 10], Some 10, rm\<lparr>next_rule := Some 10\<rparr>)"
proof -
  let ?rm = "run_steps rules_step [New ''a'' 20 () (Some ()), New ''b'' 10 () (Some ()), Loop_max 5]
     (RuleManager_new :: (unit, unit) RuleManager)"
  let ?b = "(Rule_new ''b'' 10 () (Some ()))\<lparr>position := Some 10\<rparr>"
    and ?a = "(Rule_new ''a'' 20 () (Some ()))\<lparr>position := Some 20\<rparr>"
  have rules: "rules ?rm = [(10, ?b), (20, ?a)]" and max: "loop_max ?rm = 5"
    by (simp_all add: new_rule_def RuleManager_new_def set_loop_max_def Rule_new_def)
  have "no_jumps trace_logic (\<lambda>l r i. (RRT_CONTINUE, i @ [priority r]))"
    "\<And>l i. trace_logic l ?b (i, Some 10) = (RRT_CONTINUE, i @ [10], Some 10)" "loop_max ?rm < - 1"
    unfolding max by (simp_all add: no_jumps_def trace_logic_def Rule_new_def)
  moreover from this(3) have "sorted_wrt (<) (map fst (rules ?rm)) \<and>
    (no_jumps trace_logic (\<lambda>l r i. (RRT_CONTINUE, i @ [priority r])) \<and> length (rules ?rm) \<le> unat (loop_max ?rm) \<and> length (rules ?rm) \<le> 2 \<longrightarrow>
      process_rules trace_logic 2 [] None None (?rm\<lparr>next_rule := None\<rparr>) =
        (case walk_rules (\<lambda>l r i. (RRT_CONTINUE, i @ [priority r])) (rules ?rm) RRT_STOP_UNKNOWN_RES None [] of
           (res, input', last') \<Rightarrow> Returned (res, input', last', ?rm\<lparr>next_rule := None\<rparr>))) \<and>
    (map_of (rules ?rm) 10 = Some ?b \<and> (\<forall>i. trace_logic (the (logic ?b)) ?b (i, Some 10) = (RRT_CONTINUE, i @ [10], Some 10)) \<longrightarrow>
      process_rules trace_logic (unat (loop_max ?rm) + 1) [] None (Some 10) (?rm\<lparr>next_rule := Some 10\<rparr>) =
        Returned (RRT_STOP_INF_LOOP, ((\<lambda>i. i @ [10]) ^^ (unat (loop_max ?rm) + 1)) [], Some 10, ?rm\<lparr>next_rule := Some 10\<rparr>))"
    by (rule RuleManager_process_order [OF refl])
  moreover have "((\<lambda>i. i @ [10]) ^^ 6) [] = [10, 10, 10, 10, 10, 10 :: u32]" by (simp add: numeral_eq_Suc)
  ultimately have "process_rules trace_logic 2 [] None None (?rm\<lparr>next_rule := None\<rparr>) =
      Returned (RRT_CONTINUE, [10, 20], Some 20, ?rm\<lparr>next_rule := None\<rparr>) \<and>
    process_rules trace_logic 6 [] None (Some 10) (?rm\<lparr>next_rule := Some 10\<rparr>) =
      Returned (RRT_STOP_INF_LOOP, [10, 10, 10, 10, 10, 10], Some 10, ?rm\<lparr>next_rule := Some 10\<rparr>)"
    unfolding rules max by (simp add: Rule_new_def rrt_defs)
  then show ?thesis by blast
qed

end
