(* ===== verification/Correlation_Map.thy ===== *)
theory Correlation_Map
  imports Interfaces
begin

text \<open>
  \<open>CorrelationMap\<close> of \<^verbatim>\<open>src/utils/pmink_utils.h\<close>: transactions waiting for an answer,
  each with a time stamp and a timeout, in a bounded hash map. The
  \<open>boost::unordered_map\<close> is the list of its pairs in iteration order; what an insertion
  does to that order is the library's business, so it is the parameter \<open>rehash\<close>, of
  which only \<open>rehash_ok\<close> is known: it permutes. Erasing keeps the order of the rest. The
  clock is the argument \<open>now\<close> (\<open>time_t\<close> as an integer). An iterator is the identifier it
  points to, \<open>None\<close> being \<open>end()\<close>. The mutex is the caller's to take, with \<open>lock\<close> and
  \<open>unlock\<close>.
\<close>

section \<open>State and operations\<close>

record 'd DataWrapper =
  ts :: int
  data_timeout :: u32
  wrapped :: 'd

record ('id, 'd) CorrelationMap =
  cm_data_timeout :: u32
  data_map :: "('id \<times> 'd DataWrapper) list"
  cm_max :: u32

definition CorrelationMap_new :: "u32 \<Rightarrow> u32 \<Rightarrow> ('id, 'd) CorrelationMap" where
  "CorrelationMap_new mx timeout = \<lparr>cm_data_timeout = timeout, data_map = [], cm_max = mx\<rparr>"

definition DataWrapper_new :: "int \<Rightarrow> 'd \<Rightarrow> u32 \<Rightarrow> 'd DataWrapper" where
  "DataWrapper_new now d timeout = \<lparr>ts = now, data_timeout = timeout, wrapped = d\<rparr>"

definition cm_set_max_size :: "u32 \<Rightarrow> ('id, 'd) CorrelationMap \<Rightarrow> ('id, 'd) CorrelationMap" where
  "cm_set_max_size mx m = m\<lparr>cm_max := mx\<rparr>"

definition cm_get :: "'id \<Rightarrow> ('id, 'd) CorrelationMap \<Rightarrow> 'd option" where
  "cm_get i m = (case map_of (data_map m) i of None \<Rightarrow> None | Some w \<Rightarrow> Some (wrapped w))"

definition cm_get_it :: "'id \<Rightarrow> ('id, 'd) CorrelationMap \<Rightarrow> 'id option" where
  "cm_get_it i m = (case map_of (data_map m) i of None \<Rightarrow> None | Some _ \<Rightarrow> Some i)"

text \<open>\<open>insert\<close> leaves an entry with the same identifier as it is.\<close>

definition cm_set ::
  "(('id \<times> 'd DataWrapper) list \<Rightarrow> ('id \<times> 'd DataWrapper) list) \<Rightarrow> int \<Rightarrow> 'id \<Rightarrow> 'd \<Rightarrow> u32
    \<Rightarrow> ('id, 'd) CorrelationMap \<Rightarrow> 'id option \<times> ('id, 'd) CorrelationMap" where
  "cm_set rehash now i d timeout m =
     (if length (data_map m) \<ge> unat (cm_max m) then (None, m)
      else (case map_of (data_map m) i of
              Some _ \<Rightarrow> (Some i, m)
            | None \<Rightarrow>
                (let w = DataWrapper_new now d (if timeout = 0 then cm_data_timeout m else timeout)
                 in (Some i, m\<lparr>data_map := rehash ((i, w) # data_map m)\<rparr>))))"

definition cm_set_timeout :: "u32 \<Rightarrow> ('id, 'd) CorrelationMap \<Rightarrow> ('id, 'd) CorrelationMap" where
  "cm_set_timeout timeout m = m\<lparr>cm_data_timeout := timeout\<rparr>"

definition cm_remove :: "'id \<Rightarrow> ('id, 'd) CorrelationMap \<Rightarrow> bool \<times> ('id, 'd) CorrelationMap" where
  "cm_remove i m =
     (map_of (data_map m) i \<noteq> None, m\<lparr>data_map := filter (\<lambda>e. fst e \<noteq> i) (data_map m)\<rparr>)"

definition update_entry :: "'id \<Rightarrow> ('d DataWrapper \<Rightarrow> 'd DataWrapper) \<Rightarrow> ('id \<times> 'd DataWrapper) list \<Rightarrow> ('id \<times> 'd DataWrapper) list" where
  "update_entry i f l = map (\<lambda>(j, w). if j = i then (j, f w) else (j, w)) l"

definition cm_update_ts :: "int \<Rightarrow> 'id \<Rightarrow> ('id, 'd) CorrelationMap \<Rightarrow> bool \<times> ('id, 'd) CorrelationMap" where
  "cm_update_ts now i m =
     (case map_of (data_map m) i of
        None \<Rightarrow> (False, m)
      | Some _ \<Rightarrow> (True, m\<lparr>data_map := update_entry i (\<lambda>w. w\<lparr>ts := now\<rparr>) (data_map m)\<rparr>))"

definition cm_get_ts :: "'id \<Rightarrow> ('id, 'd) CorrelationMap \<Rightarrow> int" where
  "cm_get_ts i m = (case map_of (data_map m) i of None \<Rightarrow> 0 | Some w \<Rightarrow> ts w)"

definition cm_update_timeout :: "'id \<Rightarrow> u32 \<Rightarrow> ('id, 'd) CorrelationMap \<Rightarrow> bool \<times> ('id, 'd) CorrelationMap" where
  "cm_update_timeout i timeout m =
     (case map_of (data_map m) i of
        None \<Rightarrow> (False, m)
      | Some _ \<Rightarrow> (True, m\<lparr>data_map := update_entry i (\<lambda>w. w\<lparr>data_timeout := timeout\<rparr>) (data_map m)\<rparr>))"

text \<open>The loop walks the entries and erases as it goes.\<close>

fun expire_entries ::
  "int \<Rightarrow> ('id \<times> 'd DataWrapper) list \<Rightarrow> 'd list \<times> ('id \<times> 'd DataWrapper) list" where
  "expire_entries now [] = ([], [])"
| "expire_entries now ((i, w) # l) =
     (let (out, rest) = expire_entries now l in
      if now - ts w > uint (data_timeout w) then (wrapped w # out, rest) else (out, (i, w) # rest))"

definition cm_expire :: "int \<Rightarrow> ('id, 'd) CorrelationMap \<Rightarrow> 'd list \<times> ('id, 'd) CorrelationMap" where
  "cm_expire now m =
     (let (out, rest) = expire_entries now (data_map m) in (out, m\<lparr>data_map := rest\<rparr>))"

definition cm_expire_silent :: "int \<Rightarrow> ('id, 'd) CorrelationMap \<Rightarrow> ('id, 'd) CorrelationMap" where
  "cm_expire_silent now m = m\<lparr>data_map := snd (expire_entries now (data_map m))\<rparr>"

definition cm_size :: "('id, 'd) CorrelationMap \<Rightarrow> nat" where
  "cm_size m = length (data_map m)"

lemmas cm_defs = CorrelationMap_new_def cm_set_max_size_def cm_get_def cm_get_it_def cm_set_def
  cm_set_timeout_def cm_remove_def cm_update_ts_def cm_get_ts_def cm_update_timeout_def
  cm_expire_def cm_expire_silent_def cm_size_def

section \<open>What the container promises\<close>

definition rehash_ok :: "(('id \<times> 'd DataWrapper) list \<Rightarrow> ('id \<times> 'd DataWrapper) list) \<Rightarrow> bool" where
  "rehash_ok rehash \<longleftrightarrow> (\<forall>l. mset (rehash l) = mset l)"

definition cm_inv :: "('id, 'd) CorrelationMap \<Rightarrow> bool" where
  "cm_inv m \<longleftrightarrow> distinct (map fst (data_map m)) \<and> length (data_map m) \<le> unat (cm_max m)"

lemma rehash_facts:
  assumes "rehash_ok rehash"
  shows "length (rehash l) = length l" "distinct (map fst (rehash l)) = distinct (map fst l)"
    "distinct (map fst l) \<Longrightarrow> map_of (rehash l) = map_of l"
proof -
  have eq: "mset (rehash l) = mset l" using assms by (simp add: rehash_ok_def)
  then show "length (rehash l) = length l" by (metis size_mset)
  show d: "distinct (map fst (rehash l)) = distinct (map fst l)"
    using eq by (metis mset_eq_imp_distinct_iff mset_map)
  show "map_of (rehash l) = map_of l" if "distinct (map fst l)"
    using that d eq by (metis map_of_inject_set mset_eq_setD)
qed

lemma expired_iff:
  "expire_entries now l =
    (map (\<lambda>e. wrapped (snd e)) (filter (\<lambda>e. now - ts (snd e) > uint (data_timeout (snd e))) l),
     filter (\<lambda>e. \<not> now - ts (snd e) > uint (data_timeout (snd e))) l)"
  by (induction now l rule: expire_entries.induct) (simp_all add: case_prod_beta)

lemma update_entry_facts:
  "map fst (update_entry i f l) = map fst l" "length (update_entry i f l) = length l"
  "map_of (update_entry i f l) j = (if j = i then map_option f (map_of l j) else map_of l j)"
  by (induction l) (auto simp: update_entry_def)

lemma map_of_filter_value:
  "distinct (map fst l) \<Longrightarrow>
    map_of (filter (\<lambda>e. \<not> P (snd e)) l) i =
      (case map_of l i of None \<Rightarrow> None | Some w \<Rightarrow> if P w then None else Some w)"
  by (induction l) (auto simp: map_of_eq_None_iff split: option.splits)

section \<open>Runs of calls\<close>

datatype ('id, 'd) cm_call =
  Set int 'id 'd u32 | Remove 'id | Update_ts int 'id | Update_timeout 'id u32 | Expire int | Set_timeout u32

fun cm_step ::
  "(('id \<times> 'd DataWrapper) list \<Rightarrow> ('id \<times> 'd DataWrapper) list) \<Rightarrow> ('id, 'd) cm_call
    \<Rightarrow> ('id, 'd) CorrelationMap \<Rightarrow> ('id, 'd) CorrelationMap" where
  "cm_step rehash (Set now i d t) m = snd (cm_set rehash now i d t m)"
| "cm_step rehash (Remove i) m = snd (cm_remove i m)"
| "cm_step rehash (Update_ts now i) m = snd (cm_update_ts now i m)"
| "cm_step rehash (Update_timeout i t) m = snd (cm_update_timeout i t m)"
| "cm_step rehash (Expire now) m = snd (cm_expire now m)"
| "cm_step rehash (Set_timeout t) m = cm_set_timeout t m"

lemma cm_step_inv:
  assumes r: "rehash_ok rehash" and inv: "cm_inv m"
  shows "cm_inv (cm_step rehash c m)"
proof (cases c)
  case (Set now i d t)
  then show ?thesis
    using inv rehash_facts [OF r]
    by (auto simp: cm_set_def cm_inv_def Let_def map_of_eq_None_iff split: option.splits)
next
  case (Remove i)
  then show ?thesis
    using inv by (auto simp: cm_remove_def cm_inv_def distinct_map_filter intro: le_trans [OF length_filter_le])
next
  case (Update_ts now i)
  then show ?thesis using inv
    by (auto simp: cm_update_ts_def cm_inv_def update_entry_facts split: option.splits)
next
  case (Update_timeout i t)
  then show ?thesis using inv
    by (auto simp: cm_update_timeout_def cm_inv_def update_entry_facts split: option.splits)
next
  case (Expire now)
  then show ?thesis using inv
    by (auto simp: cm_expire_def cm_inv_def expired_iff distinct_map_filter intro: le_trans [OF length_filter_le])
next
  case (Set_timeout t)
  then show ?thesis using inv by (simp add: cm_set_timeout_def cm_inv_def)
qed

lemma cm_new_inv: "cm_inv (CorrelationMap_new mx t)"
  by (simp add: cm_inv_def CorrelationMap_new_def)

text \<open>A container that prepends, and the laws of runs on it.\<close>

interpretation prepending: stepping "cm_step (\<lambda>l. l)" cm_inv
  by unfold_locales (rule cm_step_inv, simp_all add: rehash_ok_def)

lemma cm_stepping: "rehash_ok rehash \<Longrightarrow> stepping (cm_step rehash) cm_inv"
  by unfold_locales (rule cm_step_inv)

lemma cm_step_max: "cm_max (cm_step rehash c m) = cm_max m"
  by (cases c) (auto simp: cm_defs Let_def split: option.splits prod.splits)

lemma cm_run_max: "cm_max (run_steps (cm_step rehash) cs m) = cm_max m"
  by (induction cs arbitrary: m) (simp_all add: cm_step_max)

section \<open>Properties\<close>

text \<open>
  C29. Expiry hands over exactly the transactions that waited longer than their timeout: in
  any state that calls can build, whatever order the hash map keeps its entries in,
  \<open>expire\<close> returns one piece of data per entry whose age exceeds its timeout, removes
  those entries and no others, and a second call at the same time returns nothing.
\<close>

theorem CorrelationMap_expire:
  assumes r: "rehash_ok rehash" and m: "m = run_steps (cm_step rehash) cs (CorrelationMap_new mx t)"
    and e: "cm_expire now m = (out, m')"
  shows "mset out = image_mset (\<lambda>e. wrapped (snd e))
      (filter_mset (\<lambda>e. now - ts (snd e) > uint (data_timeout (snd e))) (mset (data_map m))) \<and>
    map_of (data_map m') i = (case map_of (data_map m) i of None \<Rightarrow> None
      | Some w \<Rightarrow> if now - ts w > uint (data_timeout w) then None else Some w) \<and>
    cm_size m' + length out = cm_size m \<and> cm_expire now m' = ([], m')"
proof -
  let ?old = "\<lambda>e. now - ts (snd e) > uint (data_timeout (snd e))"
  have inv: "cm_inv m"
    using stepping.run_keeps_inv [OF cm_stepping [OF r] cm_new_inv] m by simp
  let ?l = "data_map m"
  have out: "out = map (\<lambda>e. wrapped (snd e)) (filter ?old ?l)"
    and m': "m' = m\<lparr>data_map := filter (\<lambda>e. \<not> ?old e) ?l\<rparr>"
    using e by (simp_all add: cm_expire_def expired_iff)
  have "map_of (filter (\<lambda>e. \<not> ?old e) ?l) i = (case map_of ?l i of None \<Rightarrow> None
      | Some w \<Rightarrow> if now - ts w > uint (data_timeout w) then None else Some w)"
    using inv by (intro map_of_filter_value [of _ "\<lambda>w. now - ts w > uint (data_timeout w)"]) (simp add: cm_inv_def)
  moreover have "length (filter (\<lambda>e. \<not> ?old e) ?l) + length (filter ?old ?l) = length ?l"
    using sum_length_filter_compl [of ?old ?l] by simp
  ultimately show ?thesis
    by (simp add: out m' cm_size_def cm_expire_def expired_iff filter_filter mset_filter)
qed

theorem CorrelationMap_expire_witness:
  "\<exists>m'. cm_expire 100 (run_steps (cm_step rev) [Set 80 (1::nat) ''a'' 15, Set 95 2 ''b'' 0, Set 85 3 ''c'' 20]
     (CorrelationMap_new 10 10)) = ([''a''], m') \<and> cm_expire 100 m' = ([], m')"
proof -
  have r: "rehash_ok (rev :: (nat \<times> string DataWrapper) list \<Rightarrow> _)" by (simp add: rehash_ok_def)
  obtain m' where e: "cm_expire 100 (run_steps (cm_step rev) [Set 80 (1::nat) ''a'' 15, Set 95 2 ''b'' 0, Set 85 3 ''c'' 20]
     (CorrelationMap_new 10 10)) = ([''a''], m')"
    by (simp add: cm_defs DataWrapper_new_def)
  from CorrelationMap_expire [OF r refl e] e show ?thesis by blast
qed

text \<open>
  The map is bounded and never overwrites: in any state that calls can build, it holds
  at most \<open>max\<close> entries; \<open>set\<close> fails exactly when the map is full (even for an identifier it
  knows) and then changes nothing; otherwise a new identifier is stored with the time
  and the default timeout for 0, while a known one keeps its old data and time stamp;
  no other identifier is touched.
\<close>

theorem CorrelationMap_set:
  assumes r: "rehash_ok rehash" and m: "m = run_steps (cm_step rehash) cs (CorrelationMap_new mx t)"
    and set: "cm_set rehash now i d timeout m = (it, m')"
  shows "cm_size m \<le> unat mx \<and> (it = None \<longleftrightarrow> cm_size m = unat mx) \<and> (it = None \<longrightarrow> m' = m) \<and>
    (it \<noteq> None \<longrightarrow> cm_get i m' = (case cm_get i m of None \<Rightarrow> Some d | Some d' \<Rightarrow> Some d') \<and>
      cm_get_ts i m' = (if cm_get i m = None then now else cm_get_ts i m)) \<and>
    (j \<noteq> i \<longrightarrow> map_of (data_map m') j = map_of (data_map m) j)"
proof -
  have inv: "cm_inv m"
    using stepping.run_keeps_inv [OF cm_stepping [OF r] cm_new_inv] m by simp
  have max: "cm_max m = mx" by (simp add: m cm_run_max) (simp add: CorrelationMap_new_def)
  have size: "cm_size m \<le> unat mx" and dist: "distinct (map fst (data_map m))"
    using inv max by (simp_all add: cm_inv_def cm_size_def)
  consider "unat mx \<le> length (data_map m)" | "length (data_map m) < unat mx" "map_of (data_map m) i \<noteq> None"
    | "length (data_map m) < unat mx" "map_of (data_map m) i = None" by linarith
  then show ?thesis
  proof cases
    case 1
    then show ?thesis using set size max by (auto simp: cm_set_def cm_size_def)
  next
    case 2
    then show ?thesis using set size max by (auto simp: cm_set_def cm_size_def cm_get_def)
  next
    case 3
    then have "distinct (map fst ((i, w) # data_map m))" for w
      using dist by (simp add: map_of_eq_None_iff)
    note lookup = rehash_facts(3) [OF r this]
    show ?thesis
      using 3 set size max lookup
      by (auto simp: cm_set_def cm_size_def cm_get_def cm_get_ts_def DataWrapper_new_def Let_def)
  qed
qed

theorem CorrelationMap_set_witness:
  "\<exists>m'. cm_set rev 50 (2::nat) ''b'' 0 (run_steps (cm_step rev) [Set 40 2 ''a'' 0] (CorrelationMap_new 3 10)) =
      (Some 2, m') \<and> cm_get 2 m' = Some ''a''"
proof -
  have r: "rehash_ok (rev :: (nat \<times> string DataWrapper) list \<Rightarrow> _)" by (simp add: rehash_ok_def)
  let ?m = "run_steps (cm_step rev) [Set 40 (2::nat) ''a'' 0] (CorrelationMap_new 3 10)"
  have get: "cm_get 2 ?m = Some ''a''" by (simp add: cm_defs DataWrapper_new_def)
  obtain m' where e: "cm_set rev 50 2 ''b'' 0 ?m = (Some 2, m')"
    by (simp add: cm_defs DataWrapper_new_def)
  from CorrelationMap_set [OF r refl e] get e show ?thesis by auto
qed

end
