(* ===== verification/Ordered_Map.thy ===== *)
theory Ordered_Map
  imports Interfaces
begin

text \<open>
  \<open>std::map\<close> as the list of its pairs in key order: \<open>insert\<close>, which leaves an existing
  entry alone, \<open>operator[]\<close> assignment, \<open>erase\<close> and the update of a value in place. The
  lookup is \<open>map_of\<close>.
\<close>

fun om_insert :: "'k::linorder \<Rightarrow> 'v \<Rightarrow> ('k \<times> 'v) list \<Rightarrow> ('k \<times> 'v) list" where
  "om_insert k v [] = [(k, v)]"
| "om_insert k v ((j, w) # l) =
     (if k < j then (k, v) # (j, w) # l else if k = j then (j, w) # l else (j, w) # om_insert k v l)"

fun om_set :: "'k::linorder \<Rightarrow> 'v \<Rightarrow> ('k \<times> 'v) list \<Rightarrow> ('k \<times> 'v) list" where
  "om_set k v [] = [(k, v)]"
| "om_set k v ((j, w) # l) =
     (if k < j then (k, v) # (j, w) # l else if k = j then (k, v) # l else (j, w) # om_set k v l)"

definition om_erase :: "'k \<Rightarrow> ('k \<times> 'v) list \<Rightarrow> ('k \<times> 'v) list" where
  "om_erase k l = filter (\<lambda>e. fst e \<noteq> k) l"

definition om_update :: "'k \<Rightarrow> ('v \<Rightarrow> 'v) \<Rightarrow> ('k \<times> 'v) list \<Rightarrow> ('k \<times> 'v) list" where
  "om_update k f l = map (\<lambda>(j, v). if j = k then (j, f v) else (j, v)) l"

definition om_sorted :: "('k::linorder \<times> 'v) list \<Rightarrow> bool" where
  "om_sorted l \<longleftrightarrow> sorted_wrt (<) (map fst l)"

lemma om_set_lookup: "map_of (om_set k v l) = (map_of l)(k \<mapsto> v)"
  by (induction k v l rule: om_set.induct) (auto simp: fun_eq_iff)

lemma om_erase_lookup: "map_of (om_erase k l) = (map_of l)(k := None)"
  unfolding om_erase_def by (induction l) (auto simp: fun_eq_iff)

lemma om_update_lookup:
  "map_of (om_update k f l) j = (if j = k then map_option f (map_of l j) else map_of l j)"
  unfolding om_update_def by (induction l) auto

interpretation om: keyed_table map_of om_set om_erase
  by unfold_locales (simp_all add: om_set_lookup om_erase_lookup)

lemma om_sorted_distinct: "om_sorted l \<Longrightarrow> distinct (map fst l)"
  by (simp add: om_sorted_def strict_sorted_iff)

lemma om_sorted_tail: "om_sorted ((j, w) # l) \<Longrightarrow> om_sorted l \<and> (\<forall>k \<in> fst ` set l. j < k)"
  by (auto simp: om_sorted_def)

lemma om_insert_lookup:
  "om_sorted l \<Longrightarrow>
    map_of (om_insert k v l) = (case map_of l k of None \<Rightarrow> (map_of l)(k \<mapsto> v) | Some _ \<Rightarrow> map_of l)"
proof (induction k v l rule: om_insert.induct)
  case (1 k v)
  then show ?case by simp
next
  case (2 k v j w l)
  note tl = om_sorted_tail [OF 2(2)]
  consider "k < j" | "k = j" | "j < k" by (rule linorder_cases)
  then show ?case
  proof cases
    case 1
    then have "map_of l k = None" using tl by (force simp: map_of_eq_None_iff)
    with 1 show ?thesis by auto
  next
    case 2
    then show ?thesis by simp
  next
    case 3
    then have "k \<noteq> j" "\<not> k < j" by auto
    with 2(1) [OF this(2,1)] tl show ?thesis by (auto simp: fun_eq_iff split: option.splits)
  qed
qed

lemma om_insert_keys: "fst ` set (om_insert k v l) = insert k (fst ` set l)"
  by (induction k v l rule: om_insert.induct) auto

lemma om_set_keys: "fst ` set (om_set k v l) = insert k (fst ` set l)"
  by (induction k v l rule: om_set.induct) auto

lemma om_insert_sorted: "om_sorted l \<Longrightarrow> om_sorted (om_insert k v l)"
proof (induction k v l rule: om_insert.induct)
  case (1 k v)
  then show ?case by (simp add: om_sorted_def)
next
  case (2 k v j w l)
  note tl = om_sorted_tail [OF 2(2)]
  consider "k < j" | "k = j" | "j < k" by (rule linorder_cases)
  then show ?case
  proof cases
    case 1
    then show ?thesis using 2(2) by (auto simp: om_sorted_def)
  next
    case 2
    then show ?thesis using \<open>om_sorted ((j, w) # l)\<close> by (simp add: om_sorted_def)
  next
    case 3
    then have "k \<noteq> j" "\<not> k < j" by auto
    with 2(1) [OF this(2,1)] tl
    have "om_sorted (om_insert k v l)" by blast
    moreover have "\<forall>x \<in> fst ` set (om_insert k v l). j < x" using tl 3 by (simp add: om_insert_keys)
    ultimately show ?thesis using \<open>k \<noteq> j\<close> \<open>\<not> k < j\<close> by (simp add: om_sorted_def)
  qed
qed

lemma om_set_sorted: "om_sorted l \<Longrightarrow> om_sorted (om_set k v l)"
proof (induction k v l rule: om_set.induct)
  case (1 k v)
  then show ?case by (simp add: om_sorted_def)
next
  case (2 k v j w l)
  note tl = om_sorted_tail [OF 2(2)]
  consider "k < j" | "k = j" | "j < k" by (rule linorder_cases)
  then show ?case
  proof cases
    case 1
    then show ?thesis using 2(2) by (auto simp: om_sorted_def)
  next
    case 2
    then show ?thesis using \<open>om_sorted ((j, w) # l)\<close> by (simp add: om_sorted_def)
  next
    case 3
    then have "k \<noteq> j" "\<not> k < j" by auto
    with 2(1) [OF this(2,1)] tl
    have "om_sorted (om_set k v l)" by blast
    moreover have "\<forall>x \<in> fst ` set (om_set k v l). j < x" using tl 3 by (simp add: om_set_keys)
    ultimately show ?thesis using \<open>k \<noteq> j\<close> \<open>\<not> k < j\<close> by (simp add: om_sorted_def)
  qed
qed

lemma om_filter_sorted: "om_sorted l \<Longrightarrow> om_sorted (filter P l)"
  by (simp add: om_sorted_def sorted_wrt_map sorted_wrt_filter)

lemma om_erase_sorted: "om_sorted l \<Longrightarrow> om_sorted (om_erase k l)"
  by (simp add: om_erase_def om_filter_sorted)

lemma om_update_keys [simp]: "map fst (om_update k f l) = map fst l"
  by (auto simp: om_update_def)

lemma om_update_sorted: "om_sorted l \<Longrightarrow> om_sorted (om_update k f l)"
  by (simp add: om_sorted_def)

text \<open>A sorted map is determined by its lookups.\<close>

lemma om_sorted_eqI:
  assumes "om_sorted l" and "om_sorted l'" and "map_of l = map_of l'"
  shows "l = l'"
proof -
  have set: "set l = set l'"
    using assms om_sorted_distinct by (metis map_of_inject_set)
  then have keys: "map fst l = map fst l'"
    using assms(1,2) by (intro sorted_distinct_set_unique) (auto simp: om_sorted_def strict_sorted_iff)
  have rebuild: "map (\<lambda>k. (k, the (map_of m k))) (map fst m) = m" if "om_sorted m" for m :: "('a \<times> 'b) list"
  proof -
    have "(fst x, the (map_of m (fst x))) = x" if "x \<in> set m" for x
      using map_of_is_SomeI [OF om_sorted_distinct [OF \<open>om_sorted m\<close>], of "fst x" "snd x"] that by simp
    then show ?thesis by (simp add: map_idI comp_def)
  qed
  show ?thesis using rebuild [OF assms(1)] rebuild [OF assms(2)] keys assms(3) by metis
qed

end
