(* ===== verification/Variant.thy ===== *)
theory Variant
  imports Ordered_Map
begin

text \<open>
  \<open>VariantParam\<close>, \<open>ParamTuple\<close> and \<open>ParamTupleCompare\<close> of \<^verbatim>\<open>src/utils/pmink_utils.h\<close>.
  The union is the member that was written last; reading another member, or one that
  was never written, is an indeterminate value (\<open>None\<close>). A \<open>double\<close> is its 64-bit
  pattern and its comparison the parameter \<open>feq\<close>. A C string is its characters without
  the terminating zero; the buffer of a string variant holds the terminator too. The
  allocator is not modelled. \<open>max\<close> is taken to be positive, as every caller makes it.
\<close>

section \<open>Values\<close>

datatype VariantParamType = DPT_INT | DPT_STRING | DPT_DOUBLE | DPT_CHAR | DPT_BOOL | DPT_OCTETS | DPT_POINTER

datatype UVariantParam =
  U_uninit | U_i64 c_long | U_double u64 | U_char u8 | U_bool bool | U_pointer u64 | U_str "u8 list"

record VariantParam =
  vp_max :: u32
  vp_data :: UVariantParam
  vp_type :: VariantParamType
  data_size :: u32

definition VariantParam_new :: "VariantParamType \<Rightarrow> u32 \<Rightarrow> VariantParam" where
  "VariantParam_new t mx = \<lparr>vp_max = mx, vp_data = U_uninit, vp_type = t, data_size = 0\<rparr>"

definition get_type :: "VariantParam \<Rightarrow> VariantParamType" where
  "get_type v = vp_type v"

definition set_type :: "VariantParamType \<Rightarrow> VariantParam \<Rightarrow> VariantParam" where
  "set_type t v = v\<lparr>vp_type := t\<rparr>"

definition get_size :: "VariantParam \<Rightarrow> u32" where
  "get_size v = data_size v"

text \<open>The members of the union.\<close>

fun u_i64 :: "UVariantParam \<Rightarrow> c_long option" where
  "u_i64 (U_i64 x) = Some x" | "u_i64 _ = None"

fun u_double :: "UVariantParam \<Rightarrow> u64 option" where
  "u_double (U_double x) = Some x" | "u_double _ = None"

fun u_char :: "UVariantParam \<Rightarrow> u8 option" where
  "u_char (U_char x) = Some x" | "u_char _ = None"

fun u_bool :: "UVariantParam \<Rightarrow> bool option" where
  "u_bool (U_bool x) = Some x" | "u_bool _ = None"

fun u_pointer :: "UVariantParam \<Rightarrow> u64 option" where
  "u_pointer (U_pointer x) = Some x" | "u_pointer _ = None"

fun u_str :: "UVariantParam \<Rightarrow> u8 list option" where
  "u_str (U_str x) = Some x" | "u_str _ = None"

section \<open>Casts\<close>

definition as_int :: "VariantParam \<Rightarrow> c_int option" where
  "as_int v = (if vp_type v = DPT_INT then map_option ucast (u_i64 (vp_data v)) else Some 0)"

definition as_uint64 :: "VariantParam \<Rightarrow> u64 option" where
  "as_uint64 v = (if vp_type v = DPT_INT then u_i64 (vp_data v) else Some 0)"

definition as_uint32 :: "VariantParam \<Rightarrow> u32 option" where
  "as_uint32 v = (if vp_type v = DPT_INT then map_option ucast (u_i64 (vp_data v)) else Some 0)"

definition as_bool :: "VariantParam \<Rightarrow> bool option" where
  "as_bool v = (if vp_type v = DPT_BOOL then u_bool (vp_data v) else Some False)"

text \<open>The pointer casts return the buffer, or NULL (\<open>Some None\<close>) for another type.\<close>

definition as_cstr :: "VariantParam \<Rightarrow> u8 list option option" where
  "as_cstr v = (if vp_type v = DPT_STRING then map_option Some (u_str (vp_data v)) else Some None)"

definition as_octets :: "VariantParam \<Rightarrow> u8 list option option" where
  "as_octets v = (if vp_type v = DPT_OCTETS then map_option Some (u_str (vp_data v)) else Some None)"

definition as_double :: "VariantParam \<Rightarrow> u64 option" where
  "as_double v = (if vp_type v = DPT_DOUBLE then u_double (vp_data v) else Some 0)"

definition as_char :: "VariantParam \<Rightarrow> u8 option" where
  "as_char v = (if vp_type v = DPT_CHAR then u_char (vp_data v) else Some 0)"

definition as_pointer :: "VariantParam \<Rightarrow> u64 option" where
  "as_pointer v = (if vp_type v = DPT_POINTER then u_pointer (vp_data v) else Some 0)"

section \<open>Setters\<close>

text \<open>Every setter is ignored for a variant of another type.\<close>

definition vp_set_int :: "c_long \<Rightarrow> VariantParam \<Rightarrow> VariantParam" where
  "vp_set_int d v = (if vp_type v = DPT_INT then v\<lparr>vp_data := U_i64 d, data_size := 8\<rparr> else v)"

definition vp_set_bool :: "bool \<Rightarrow> VariantParam \<Rightarrow> VariantParam" where
  "vp_set_bool d v = (if vp_type v = DPT_BOOL then v\<lparr>vp_data := U_bool d, data_size := 1\<rparr> else v)"

definition vp_set_str :: "u8 list \<Rightarrow> VariantParam \<Rightarrow> VariantParam" where
  "vp_set_str d v =
     (if vp_type v = DPT_STRING
      then (let slen = length d;
                csize = (if slen \<ge> unat (vp_max v) then vp_max v - 1 else of_nat slen)
            in v\<lparr>vp_data := U_str (take (unat csize) d @ [0]), data_size := csize + 1\<rparr>)
      else v)"

definition vp_set_char :: "u8 \<Rightarrow> VariantParam \<Rightarrow> VariantParam" where
  "vp_set_char d v = (if vp_type v = DPT_CHAR then v\<lparr>vp_data := U_char d, data_size := 1\<rparr> else v)"

definition vp_set_double :: "u64 \<Rightarrow> VariantParam \<Rightarrow> VariantParam" where
  "vp_set_double d v = (if vp_type v = DPT_DOUBLE then v\<lparr>vp_data := U_double d, data_size := 8\<rparr> else v)"

text \<open>\<open>d\<close> is the memory at the pointer, at least \<open>sz\<close> bytes of it.\<close>

definition vp_set_octets :: "u8 list \<Rightarrow> u32 \<Rightarrow> VariantParam \<Rightarrow> VariantParam" where
  "vp_set_octets d sz v =
     (if vp_type v = DPT_OCTETS
      then (let csize = (if sz > vp_max v then vp_max v else sz)
            in v\<lparr>vp_data := U_str (take (unat csize) d), data_size := csize\<rparr>)
      else v)"

definition vp_set_pointer :: "u64 \<Rightarrow> VariantParam \<Rightarrow> VariantParam" where
  "vp_set_pointer d v = (if vp_type v = DPT_POINTER then v\<lparr>vp_data := U_pointer d, data_size := 8\<rparr> else v)"

lemmas vp_set_defs = vp_set_int_def vp_set_bool_def vp_set_str_def vp_set_char_def vp_set_double_def
  vp_set_octets_def vp_set_pointer_def

section \<open>Equality\<close>

definition cstr :: "u8 list \<Rightarrow> u8 list" where
  "cstr b = takeWhile (\<lambda>c. c \<noteq> 0) b"

text \<open>\<open>None\<close>: it would compare indeterminate values.\<close>

definition opt_cmp :: "('a \<Rightarrow> 'a \<Rightarrow> bool) \<Rightarrow> 'a option \<Rightarrow> 'a option \<Rightarrow> bool option" where
  "opt_cmp f x y = (case x of None \<Rightarrow> None | Some a \<Rightarrow> (case y of None \<Rightarrow> None | Some b \<Rightarrow> Some (f a b)))"

definition VariantParam_eq :: "(u64 \<Rightarrow> u64 \<Rightarrow> bool) \<Rightarrow> VariantParam \<Rightarrow> VariantParam \<Rightarrow> bool option" where
  "VariantParam_eq feq this other =
     (if vp_type this \<noteq> vp_type other then Some False
      else if data_size this \<noteq> data_size other then Some False
      else (case vp_type this of
              DPT_INT \<Rightarrow> opt_cmp (=) (u_i64 (vp_data this)) (u_i64 (vp_data other))
            | DPT_STRING \<Rightarrow> opt_cmp (\<lambda>a b. cstr a = cstr b) (u_str (vp_data this)) (u_str (vp_data other))
            | DPT_DOUBLE \<Rightarrow> opt_cmp feq (u_double (vp_data this)) (u_double (vp_data other))
            | DPT_CHAR \<Rightarrow> opt_cmp (=) (u_char (vp_data this)) (u_char (vp_data other))
            | DPT_BOOL \<Rightarrow> opt_cmp (=) (u_bool (vp_data this)) (u_bool (vp_data other))
            | DPT_OCTETS \<Rightarrow> opt_cmp (\<lambda>a b. take (unat (data_size this)) a = take (unat (data_size this)) b)
                (u_str (vp_data this)) (u_str (vp_data other))
            | DPT_POINTER \<Rightarrow> opt_cmp (=) (u_pointer (vp_data this)) (u_pointer (vp_data other))))"

definition VariantParam_neq :: "(u64 \<Rightarrow> u64 \<Rightarrow> bool) \<Rightarrow> VariantParam \<Rightarrow> VariantParam \<Rightarrow> bool option" where
  "VariantParam_neq feq this other = map_option Not (VariantParam_eq feq this other)"

section \<open>Keys\<close>

datatype 'k ParamTuple = ParamTuple (pt_key: 'k) (pt_index: u32) (pt_fragment: u32) (pt_context: u32)

definition ParamTuple_neq :: "'k ParamTuple \<Rightarrow> 'k ParamTuple \<Rightarrow> bool" where
  "ParamTuple_neq this right =
     (if pt_key this = pt_key right then False
      else if pt_index this = pt_index right then False
      else if pt_fragment this = pt_fragment right then False
      else if pt_context this = pt_context right then False
      else True)"

definition ParamTuple_eq :: "'k ParamTuple \<Rightarrow> 'k ParamTuple \<Rightarrow> bool" where
  "ParamTuple_eq this right =
     (if pt_key this \<noteq> pt_key right then False
      else if pt_index this \<noteq> pt_index right then False
      else if pt_fragment this \<noteq> pt_fragment right then False
      else if pt_context this \<noteq> pt_context right then False
      else True)"

definition ParamTupleCompare :: "'k::linorder ParamTuple \<Rightarrow> 'k ParamTuple \<Rightarrow> bool" where
  "ParamTupleCompare x y =
     (if pt_key x < pt_key y then True
      else if pt_key x = pt_key y then
        (if pt_index x < pt_index y then True
         else if pt_index x = pt_index y then
           (if pt_fragment x < pt_fragment y then True
            else if pt_fragment x = pt_fragment y then
              (if pt_context x < pt_context y then True else False)
            else False)
         else False)
      else False)"

lemma ParamTuple_eq_iff: "ParamTuple_eq x y \<longleftrightarrow> x = y"
  by (cases x; cases y) (simp add: ParamTuple_eq_def)

text \<open>The comparison is a strict linear order, which \<open>std::map\<close> requires.\<close>

instantiation ParamTuple :: (linorder) linorder
begin

definition less_ParamTuple :: "'a ParamTuple \<Rightarrow> 'a ParamTuple \<Rightarrow> bool" where
  "less_ParamTuple x y \<longleftrightarrow> ParamTupleCompare x y"

definition less_eq_ParamTuple :: "'a ParamTuple \<Rightarrow> 'a ParamTuple \<Rightarrow> bool" where
  "less_eq_ParamTuple x y \<longleftrightarrow> ParamTupleCompare x y \<or> x = y"

instance
proof
  fix x y z :: "'a ParamTuple"
  note defs = less_ParamTuple_def less_eq_ParamTuple_def ParamTupleCompare_def
  show "x < y \<longleftrightarrow> x \<le> y \<and> \<not> y \<le> x"
    by (cases x; cases y) (auto simp: defs split: if_splits)
  show "x \<le> x" by (simp add: defs)
  show "x \<le> y \<Longrightarrow> y \<le> z \<Longrightarrow> x \<le> z"
    by (cases x; cases y; cases z) (auto simp: defs split: if_splits)
  show "x \<le> y \<Longrightarrow> y \<le> x \<Longrightarrow> x = y"
    by (cases x; cases y) (auto simp: defs split: if_splits)
  show "x \<le> y \<or> y \<le> x"
    by (cases x; cases y) (auto simp: defs split: if_splits)
qed

end

lemma ParamTuple_less: "x < y \<longleftrightarrow> ParamTupleCompare x y"
  by (rule less_ParamTuple_def)

section \<open>Properties\<close>

text \<open>
  The key comparison is a strict total order, compatible with \<open>==\<close>, as the ordered map
  requires; but \<open>!=\<close> is not the negation of \<open>==\<close>: it holds only for keys that differ in
  all four fields, so two keys that differ in some of them are neither equal nor unequal.
\<close>

theorem ParamTuple_order:
  fixes x y z :: "'k::linorder ParamTuple"
  shows "(if ParamTupleCompare x y then \<not> ParamTuple_eq x y \<and> \<not> ParamTupleCompare y x
      else if ParamTuple_eq x y then \<not> ParamTupleCompare y x else ParamTupleCompare y x) \<and>
    (ParamTupleCompare x y \<and> ParamTupleCompare y z \<longrightarrow> ParamTupleCompare x z) \<and>
    (ParamTuple_neq x y \<longleftrightarrow> pt_key x \<noteq> pt_key y \<and> pt_index x \<noteq> pt_index y \<and>
      pt_fragment x \<noteq> pt_fragment y \<and> pt_context x \<noteq> pt_context y) \<and>
    \<not> ParamTuple_eq (ParamTuple 1 0 0 0) (ParamTuple (2::nat) 0 0 0) \<and>
    \<not> ParamTuple_neq (ParamTuple 1 0 0 0) (ParamTuple (2::nat) 0 0 0)"
proof -
  have "ParamTupleCompare x z" if "ParamTupleCompare x y" "ParamTupleCompare y z"
    using that unfolding ParamTuple_less [symmetric] by (rule order.strict_trans)
  moreover have "if ParamTupleCompare x y then \<not> ParamTuple_eq x y \<and> \<not> ParamTupleCompare y x
      else if ParamTuple_eq x y then \<not> ParamTupleCompare y x else ParamTupleCompare y x"
    unfolding ParamTuple_less [symmetric] ParamTuple_eq_iff by auto
  moreover have "ParamTuple_neq x y \<longleftrightarrow> pt_key x \<noteq> pt_key y \<and> pt_index x \<noteq> pt_index y \<and>
      pt_fragment x \<noteq> pt_fragment y \<and> pt_context x \<noteq> pt_context y"
    by (simp add: ParamTuple_neq_def)
  moreover have "\<not> ParamTuple_eq (ParamTuple 1 0 0 0) (ParamTuple (2::nat) 0 0 0) \<and>
      \<not> ParamTuple_neq (ParamTuple 1 0 0 0) (ParamTuple (2::nat) 0 0 0)"
    by (simp add: ParamTuple_neq_def ParamTuple_eq_def)
  ultimately show ?thesis by blast
qed

theorem ParamTuple_order_witness:
  "ParamTupleCompare (ParamTuple (1::nat) 0 0 0) (ParamTuple 1 1 0 5)"
  using ParamTuple_order [of "ParamTuple (1::nat) 0 0 0" "ParamTuple 1 0 0 4" "ParamTuple 1 1 0 5"]
  by (simp add: ParamTupleCompare_def)

end
