(* ===== verification/Variant_Map.thy ===== *)
theory Variant_Map
  imports Variant
begin

text \<open>
  \<open>VariantParamMap\<close> of \<^verbatim>\<open>src/utils/pmink_utils.h\<close>: typed parameters under keys made of an
  identifier, an index, a fragment number and a context, in a \<open>std::map\<close>. A pointer to a
  parameter is its key. Results of type \<open>option\<close> are \<open>None\<close> where the code would read an
  indeterminate value or write past a buffer. The CRC-32 of \<open>boost\<close> is the parameter
  \<open>crc\<close>, a function of the bytes fed to it, and memory behind raw pointers is \<open>mem\<close>. Not
  modelled: the allocators, the label pointer and the stream output.
\<close>

section \<open>State\<close>

record 'k VariantParamMap =
  vm_max :: u32
  vm_labels :: "'k \<rightharpoonup> string"
  params :: "('k ParamTuple \<times> VariantParam) list"

definition VariantParamMap_new :: "u32 \<Rightarrow> 'k VariantParamMap" where
  "VariantParamMap_new mx = \<lparr>vm_max = mx, vm_labels = Map.empty, params = []\<rparr>"

text \<open>\<open>insert\<close> of a fresh parameter, then a setter on whatever is stored there.\<close>

definition insert_then ::
  "'k::linorder ParamTuple \<Rightarrow> VariantParamType \<Rightarrow> (VariantParam \<Rightarrow> VariantParam) \<Rightarrow> 'k VariantParamMap
    \<Rightarrow> 'k VariantParamMap" where
  "insert_then k t f m =
     m\<lparr>params := om_update k f (om_insert k (VariantParam_new t (vm_max m)) (params m))\<rparr>"

section \<open>Setters\<close>

definition set_int :: "'k::linorder ParamTuple \<Rightarrow> c_long \<Rightarrow> 'k VariantParamMap \<Rightarrow> 'k VariantParamMap" where
  "set_int k d m = insert_then k DPT_INT (vp_set_int d) m"

definition set_bool :: "'k::linorder ParamTuple \<Rightarrow> bool \<Rightarrow> 'k VariantParamMap \<Rightarrow> 'k VariantParamMap" where
  "set_bool k d m = insert_then k DPT_BOOL (vp_set_bool d) m"

definition set_cstr :: "'k::linorder ParamTuple \<Rightarrow> u8 list \<Rightarrow> 'k VariantParamMap \<Rightarrow> 'k VariantParamMap" where
  "set_cstr k d m = insert_then k DPT_STRING (vp_set_str d) m"

definition set_char :: "'k::linorder ParamTuple \<Rightarrow> u8 \<Rightarrow> 'k VariantParamMap \<Rightarrow> 'k VariantParamMap" where
  "set_char k d m = insert_then k DPT_CHAR (vp_set_char d) m"

definition set_double :: "'k::linorder ParamTuple \<Rightarrow> u64 \<Rightarrow> 'k VariantParamMap \<Rightarrow> 'k VariantParamMap" where
  "set_double k d m = insert_then k DPT_DOUBLE (vp_set_double d) m"

definition set_octets :: "'k::linorder ParamTuple \<Rightarrow> u8 list \<Rightarrow> u32 \<Rightarrow> 'k VariantParamMap \<Rightarrow> 'k VariantParamMap" where
  "set_octets k d sz m = insert_then k DPT_OCTETS (vp_set_octets d sz) m"

definition set_pointer :: "'k::linorder ParamTuple \<Rightarrow> u64 \<Rightarrow> 'k VariantParamMap \<Rightarrow> 'k VariantParamMap" where
  "set_pointer k d m = insert_then k DPT_POINTER (vp_set_pointer d) m"

lemmas vm_set_defs = set_int_def set_bool_def set_cstr_def set_char_def set_double_def set_octets_def
  set_pointer_def insert_then_def

text \<open>
  \<open>inc_int\<close> adds only to an entry that was there, through the union member and whatever its
  type; a fresh entry keeps an indeterminate value, and adding to one leaves one.
\<close>

definition inc_int :: "'k::linorder ParamTuple \<Rightarrow> c_long \<Rightarrow> 'k VariantParamMap \<Rightarrow> 'k VariantParamMap option" where
  "inc_int k d m =
     (case map_of (params m) k of
        None \<Rightarrow> Some (m\<lparr>params := om_insert k (VariantParam_new DPT_INT (vm_max m)) (params m)\<rparr>)
      | Some v \<Rightarrow>
          (case vp_data v of
             U_i64 x \<Rightarrow> Some (m\<lparr>params := om_update k (\<lambda>v. v\<lparr>vp_data := U_i64 (x + d)\<rparr>) (params m)\<rparr>)
           | U_uninit \<Rightarrow> Some m
           | _ \<Rightarrow> None))"

text \<open>The switch that copies a value into a map, by its type.\<close>

definition set_variant :: "VariantParam \<Rightarrow> 'k::linorder ParamTuple \<Rightarrow> 'k VariantParamMap \<Rightarrow> 'k VariantParamMap option" where
  "set_variant vp k m =
     (case vp_type vp of
        DPT_INT \<Rightarrow> map_option (\<lambda>d. set_int k d m) (u_i64 (vp_data vp))
      | DPT_STRING \<Rightarrow> map_option (\<lambda>d. set_cstr k (cstr d) m) (u_str (vp_data vp))
      | DPT_DOUBLE \<Rightarrow> map_option (\<lambda>d. set_double k d m) (u_double (vp_data vp))
      | DPT_CHAR \<Rightarrow> map_option (\<lambda>d. set_char k d m) (u_char (vp_data vp))
      | DPT_BOOL \<Rightarrow> map_option (\<lambda>d. set_bool k d m) (u_bool (vp_data vp))
      | DPT_OCTETS \<Rightarrow> map_option (\<lambda>d. set_octets k d (data_size vp) m) (u_str (vp_data vp))
      | DPT_POINTER \<Rightarrow> map_option (\<lambda>d. set_pointer k d m) (u_pointer (vp_data vp)))"

fun copy_params :: "('k::linorder ParamTuple \<times> VariantParam) list \<Rightarrow> 'k VariantParamMap \<Rightarrow> 'k VariantParamMap option" where
  "copy_params [] m = Some m"
| "copy_params ((k, vp) # l) m =
     (case set_variant vp k m of None \<Rightarrow> None | Some m' \<Rightarrow> copy_params l m')"

text \<open>The copy constructor takes over \<open>max\<close>, the assignment does not.\<close>

definition VariantParamMap_copy :: "'k::linorder VariantParamMap \<Rightarrow> 'k VariantParamMap option" where
  "VariantParamMap_copy other =
     copy_params (params other) \<lparr>vm_max = vm_max other, vm_labels = vm_labels other, params = []\<rparr>"

definition VariantParamMap_assign :: "'k::linorder VariantParamMap \<Rightarrow> 'k VariantParamMap \<Rightarrow> 'k VariantParamMap option" where
  "VariantParamMap_assign other m =
     copy_params (params other) (m\<lparr>params := [], vm_labels := vm_labels other\<rparr>)"

section \<open>Lookups and removal\<close>

definition get_param :: "'k ParamTuple \<Rightarrow> 'k VariantParamMap \<Rightarrow> VariantParam option" where
  "get_param k m = map_of (params m) k"

definition set_from_map ::
  "'k::linorder VariantParamMap \<Rightarrow> 'k ParamTuple \<Rightarrow> 'k ParamTuple \<Rightarrow> 'k VariantParamMap
    \<Rightarrow> (bool \<times> 'k VariantParamMap) option" where
  "set_from_map other_map other_id k m =
     (case get_param other_id other_map of
        None \<Rightarrow> Some (False, m)
      | Some vp \<Rightarrow> map_option (\<lambda>m'. (True, m')) (set_variant vp k m))"

definition context_exists :: "u32 \<Rightarrow> 'k VariantParamMap \<Rightarrow> bool" where
  "context_exists c m = list_ex (\<lambda>e. pt_context (fst e) = c) (params m)"

text \<open>The index is an \<open>int64_t\<close>, with -1 for all of them; else it is cut to 32 bits.\<close>

definition erase_param :: "'k \<Rightarrow> c_long \<Rightarrow> u32 \<Rightarrow> u32 \<Rightarrow> 'k VariantParamMap \<Rightarrow> nat \<times> 'k VariantParamMap" where
  "erase_param i idx fragment context m =
     (if idx = - 1
      then (let gone = (\<lambda>e. pt_key (fst e) = i \<and> pt_context (fst e) = context)
            in (length (filter gone (params m)), m\<lparr>params := filter (\<lambda>e. \<not> gone e) (params m)\<rparr>))
      else (let k = ParamTuple i (ucast idx) fragment context
            in (length (filter (\<lambda>e. fst e = k) (params m)), m\<lparr>params := om_erase k (params m)\<rparr>)))"

definition clear_params :: "'k VariantParamMap \<Rightarrow> 'k VariantParamMap" where
  "clear_params m = m\<lparr>params := []\<rparr>"

definition set_label :: "'k \<Rightarrow> string \<Rightarrow> 'k VariantParamMap \<Rightarrow> 'k VariantParamMap" where
  "set_label i l m = m\<lparr>vm_labels := (vm_labels m)(i \<mapsto> l)\<rparr>"

definition vm_size :: "'k VariantParamMap \<Rightarrow> nat" where
  "vm_size m = length (params m)"

text \<open>\<open>==\<close> of two \<open>std::map\<close>s: the same size and equal pairs in order.\<close>

fun pairs_eq ::
  "(u64 \<Rightarrow> u64 \<Rightarrow> bool) \<Rightarrow> ('k ParamTuple \<times> VariantParam) list \<Rightarrow> ('k ParamTuple \<times> VariantParam) list \<Rightarrow> bool option" where
  "pairs_eq feq [] [] = Some True"
| "pairs_eq feq ((j, v) # l) ((k, w) # l') =
     (if \<not> ParamTuple_eq j k then Some False
      else (case VariantParam_eq feq v w of
              None \<Rightarrow> None | Some False \<Rightarrow> Some False | Some True \<Rightarrow> pairs_eq feq l l'))"
| "pairs_eq feq _ _ = Some False"

definition VariantParamMap_eq ::
  "(u64 \<Rightarrow> u64 \<Rightarrow> bool) \<Rightarrow> 'k VariantParamMap \<Rightarrow> 'k VariantParamMap \<Rightarrow> bool option" where
  "VariantParamMap_eq feq m other =
     (if length (params m) \<noteq> length (params other) then Some False
      else pairs_eq feq (params m) (params other))"

section \<open>Swapping\<close>

definition swap_params :: "'k::linorder ParamTuple \<Rightarrow> 'k ParamTuple \<Rightarrow> 'k VariantParamMap \<Rightarrow> (bool \<times> 'k VariantParamMap) option" where
  "swap_params id1 id2 m =
     (case get_param id1 m of
        None \<Rightarrow> Some (False, m)
      | Some vp1 \<Rightarrow>
          (case get_param id2 m of
             None \<Rightarrow> Some (False, m)
           | Some vp2 \<Rightarrow>
               (if id1 = id2 then Some (False, m)
                else if vp_type vp1 \<noteq> vp_type vp2 then Some (False, m)
                else map_option (Pair True)
                  (case vp_type vp1 of
                     DPT_INT \<Rightarrow>
                       (case (as_int vp1, u_i64 (vp_data vp2)) of
                          (Some tmp, Some d) \<Rightarrow> Some (set_int id2 (scast tmp) (set_int id1 d m)) | _ \<Rightarrow> None)
                   | DPT_STRING \<Rightarrow>
                       (case (u_str (vp_data vp1), u_str (vp_data vp2)) of
                          (Some tmp, Some d) \<Rightarrow> Some (set_cstr id2 (cstr tmp) (set_cstr id1 (cstr d) m)) | _ \<Rightarrow> None)
                   | DPT_DOUBLE \<Rightarrow>
                       (case (u_double (vp_data vp1), u_double (vp_data vp2)) of
                          (Some tmp, Some d) \<Rightarrow> Some (set_double id2 tmp (set_double id1 d m)) | _ \<Rightarrow> None)
                   | DPT_CHAR \<Rightarrow>
                       (case (u_char (vp_data vp1), u_char (vp_data vp2)) of
                          (Some tmp, Some d) \<Rightarrow> Some (set_char id2 tmp (set_char id1 d m)) | _ \<Rightarrow> None)
                   | DPT_BOOL \<Rightarrow>
                       (case (u_bool (vp_data vp1), u_bool (vp_data vp2)) of
                          (Some tmp, Some d) \<Rightarrow> Some (set_bool id2 tmp (set_bool id1 d m)) | _ \<Rightarrow> None)
                   | DPT_OCTETS \<Rightarrow>
                       (case (u_str (vp_data vp1), u_str (vp_data vp2)) of
                          (Some tmp, Some d) \<Rightarrow>
                            Some (set_octets id2 tmp (data_size vp1) (set_octets id1 d (data_size vp2) m)) | _ \<Rightarrow> None)
                   | DPT_POINTER \<Rightarrow>
                       (case (u_pointer (vp_data vp1), u_pointer (vp_data vp2)) of
                          (Some tmp, Some d) \<Rightarrow> Some (set_pointer id2 tmp (set_pointer id1 d m)) | _ \<Rightarrow> None)))))"

section \<open>Defragmentation\<close>

definition fragment_bytes :: "VariantParam \<Rightarrow> u8 list option" where
  "fragment_bytes v =
     (if data_size v = 0 then Some []
      else (case u_str (vp_data v) of
              None \<Rightarrow> None
            | Some b \<Rightarrow> if unat (data_size v) \<le> length b then Some (take (unat (data_size v)) b) else None))"

text \<open>
  The loop over the fragments, with the bytes copied so far and the keys erased so far.
  The copy comes before the check, so a fragment that does not fit writes past the
  buffer; a buffer that is exactly full ends the loop before its fragment is erased.
\<close>

fun defrag_loop ::
  "'k \<Rightarrow> u32 \<Rightarrow> u32 \<Rightarrow> nat \<Rightarrow> ('k ParamTuple \<times> VariantParam) list \<Rightarrow> u8 list \<Rightarrow> 'k ParamTuple list
    \<Rightarrow> (u8 list \<times> 'k ParamTuple list) option" where
  "defrag_loop i idx context mx [] tmp_buff erased = Some (tmp_buff, erased)"
| "defrag_loop i idx context mx ((k, v) # l) tmp_buff erased =
     (if pt_key k = i \<and> pt_index k = idx \<and> pt_context k = context
      then (case fragment_bytes v of
              None \<Rightarrow> None
            | Some b \<Rightarrow>
                (let tmp_buff' = tmp_buff @ b in
                 if length tmp_buff' > mx then None
                 else if length tmp_buff' \<ge> mx then Some (tmp_buff', erased)
                 else defrag_loop i idx context mx l tmp_buff' (erased @ [k])))
      else Some (tmp_buff, erased))"

definition defragment ::
  "'k::linorder \<Rightarrow> u32 \<Rightarrow> u32 \<Rightarrow> 'k VariantParamMap \<Rightarrow> ('k ParamTuple option \<times> 'k VariantParamMap) option" where
  "defragment i idx context m =
     (let k0 = ParamTuple i idx 0 context in
      case get_param k0 m of
        None \<Rightarrow> Some (None, m)
      | Some _ \<Rightarrow>
          (case defrag_loop i idx context (unat (vm_max m)) (dropWhile (\<lambda>e. fst e \<noteq> k0) (params m)) [] [] of
             None \<Rightarrow> None
           | Some (tmp_buff, erased) \<Rightarrow>
               Some (Some k0, set_octets k0 tmp_buff (of_nat (length tmp_buff))
                 (m\<lparr>params := filter (\<lambda>e. fst e \<notin> set erased) (params m)\<rparr>))))"

section \<open>Checksums\<close>

definition param_bytes :: "(u64 \<Rightarrow> nat \<Rightarrow> u8 list) \<Rightarrow> VariantParam \<Rightarrow> u8 list option" where
  "param_bytes mem vp =
     (let sz = unat (data_size vp) in
      if sz = 0 then Some []
      else (case vp_type vp of
              DPT_INT \<Rightarrow> map_option (\<lambda>x. take sz (le_bytes x)) (u_i64 (vp_data vp))
            | DPT_STRING \<Rightarrow> map_option (take sz) (u_str (vp_data vp))
            | DPT_DOUBLE \<Rightarrow> map_option (\<lambda>x. take sz (le_bytes x)) (u_double (vp_data vp))
            | DPT_CHAR \<Rightarrow> map_option (\<lambda>x. take sz [x]) (u_char (vp_data vp))
            | DPT_BOOL \<Rightarrow> map_option (\<lambda>x. take sz [if x then 1 else 0]) (u_bool (vp_data vp))
            | DPT_OCTETS \<Rightarrow> map_option (take sz) (u_str (vp_data vp))
            | DPT_POINTER \<Rightarrow> map_option (\<lambda>p. mem p sz) (u_pointer (vp_data vp))))"

fun checksum_bytes ::
  "(u64 \<Rightarrow> nat \<Rightarrow> u8 list) \<Rightarrow> 'k \<Rightarrow> ('k ParamTuple \<times> VariantParam) list \<Rightarrow> u8 list option" where
  "checksum_bytes mem checksum_key [] = Some []"
| "checksum_bytes mem checksum_key ((k, vp) # l) =
     (if pt_key k = checksum_key then checksum_bytes mem checksum_key l
      else (case param_bytes mem vp of
              None \<Rightarrow> None
            | Some b \<Rightarrow> map_option (\<lambda>bs. b @ bs) (checksum_bytes mem checksum_key l)))"

definition crc32_generate ::
  "(u8 list \<Rightarrow> u32) \<Rightarrow> (u64 \<Rightarrow> nat \<Rightarrow> u8 list) \<Rightarrow> 'k \<Rightarrow> 'k VariantParamMap \<Rightarrow> u32 option" where
  "crc32_generate crc mem checksum_key m = map_option crc (checksum_bytes mem checksum_key (params m))"

definition crc32_validate ::
  "(u8 list \<Rightarrow> u32) \<Rightarrow> (u64 \<Rightarrow> nat \<Rightarrow> u8 list) \<Rightarrow> 'k \<Rightarrow> bool \<Rightarrow> 'k VariantParamMap \<Rightarrow> bool option" where
  "crc32_validate crc mem checksum_key allow_missing m =
     (case get_param (ParamTuple checksum_key 0 0 0) m of
        None \<Rightarrow> if allow_missing then Some True else Some False
      | Some vp \<Rightarrow>
          (if vp_type vp \<noteq> DPT_INT then Some False
           else (case crc32_generate crc mem checksum_key m of
                   None \<Rightarrow> None
                 | Some tmp_crc \<Rightarrow>
                     (case as_int vp of None \<Rightarrow> None | Some x \<Rightarrow> if tmp_crc = x then Some True else Some False))))"

section \<open>Well-typed parameters\<close>

definition vp_ok :: "u32 \<Rightarrow> VariantParam \<Rightarrow> bool" where
  "vp_ok mx v \<longleftrightarrow> vp_max v = mx \<and>
     (case vp_data v of
        U_uninit \<Rightarrow> data_size v = 0
      | U_i64 _ \<Rightarrow> vp_type v = DPT_INT \<and> data_size v = 8
      | U_double _ \<Rightarrow> vp_type v = DPT_DOUBLE \<and> data_size v = 8
      | U_char _ \<Rightarrow> vp_type v = DPT_CHAR \<and> data_size v = 1
      | U_bool _ \<Rightarrow> vp_type v = DPT_BOOL \<and> data_size v = 1
      | U_pointer _ \<Rightarrow> vp_type v = DPT_POINTER \<and> data_size v = 8
      | U_str b \<Rightarrow> unat (data_size v) = length b \<and> length b \<le> unat mx \<and>
          (vp_type v = DPT_OCTETS \<or>
           vp_type v = DPT_STRING \<and> (\<exists>s. b = s @ [0] \<and> 0 \<notin> set s)))"

definition vm_inv :: "'k::linorder VariantParamMap \<Rightarrow> bool" where
  "vm_inv m \<longleftrightarrow> 0 < vm_max m \<and> om_sorted (params m) \<and> (\<forall>e \<in> set (params m). vp_ok (vm_max m) (snd e))"

lemma vp_ok_new: "vp_ok mx (VariantParam_new t mx)"
  by (simp add: vp_ok_def VariantParam_new_def)

lemma vp_ok_scalars:
  assumes "vp_ok mx v"
  shows "vp_ok mx (vp_set_int d v)" "vp_ok mx (vp_set_bool b v)" "vp_ok mx (vp_set_char c v)"
    "vp_ok mx (vp_set_double d v)" "vp_ok mx (vp_set_pointer d v)"
  using assms by (simp_all add: vp_ok_def vp_set_defs)

lemma vp_ok_octets:
  assumes ok: "vp_ok mx v" and len: "unat sz \<le> length d"
  shows "vp_ok mx (vp_set_octets d sz v)"
proof (cases "vp_type v = DPT_OCTETS")
  case True
  have "unat (if sz > mx then mx else sz) \<le> length d" "unat (if sz > mx then mx else sz) \<le> unat mx"
    using len by (auto simp: word_less_nat_alt)
  then show ?thesis
    using ok True by (simp add: vp_ok_def vp_set_octets_def Let_def min_def split: if_splits)
next
  case False
  then show ?thesis using ok by (simp add: vp_set_octets_def)
qed

lemma str_size:
  assumes "0 < mx" and c: "c = (if n \<ge> unat mx then mx - 1 else of_nat n)"
  shows "unat (c::u32) \<le> n" "unat (c + 1) = unat c + 1" "unat c + 1 \<le> unat mx"
    "n < unat mx \<Longrightarrow> unat c = n"
proof -
  have mx: "0 < unat mx" using assms(1) by (simp add: word_less_nat_alt)
  have m1: "unat (mx - 1) = unat mx - 1" using assms(1) by (simp add: unat_sub word_le_nat_alt word_less_nat_alt Suc_le_eq)
  have small: "unat (of_nat n :: u32) = n" if "n < unat mx"
    using that unat_lt_exp [of mx] by (simp add: unat_of_nat)
  show "unat c \<le> n" "unat c + 1 \<le> unat mx" "n < unat mx \<Longrightarrow> unat c = n"
    using c mx m1 small by (auto split: if_splits)
  then show "unat (c + 1) = unat c + 1" by (intro unat_plus_one_bounded [of c mx])
qed

lemma vp_ok_str:
  assumes ok: "vp_ok mx v" and "0 < mx" and d: "0 \<notin> set d"
  shows "vp_ok mx (vp_set_str d v)"
proof (cases "vp_type v = DPT_STRING")
  case True
  let ?c = "if length d \<ge> unat mx then mx - 1 else of_nat (length d) :: u32"
  note sz = str_size [OF assms(2) refl, of "length d"]
  have eq: "vp_set_str d v = v\<lparr>vp_data := U_str (take (unat ?c) d @ [0]), data_size := ?c + 1\<rparr>"
    using ok True by (simp add: vp_set_str_def vp_ok_def Let_def)
  have "0 \<notin> set (take (unat ?c) d)" using d by (meson in_set_takeD)
  then show ?thesis
    using sz ok True unfolding eq vp_ok_def by simp
next
  case False
  then show ?thesis using ok by (simp add: vp_set_str_def)
qed

lemma insert_then_lookup:
  assumes "om_sorted (params m)"
  shows "get_param j (insert_then k t f m) =
    (if j = k then Some (f (case get_param k m of None \<Rightarrow> VariantParam_new t (vm_max m) | Some v \<Rightarrow> v))
     else get_param j m)"
  using assms
  by (auto simp: get_param_def insert_then_def om_update_lookup om_insert_lookup split: option.splits)

lemma om_insert_set: "set (om_insert k v l) \<subseteq> insert (k, v) (set l)"
  by (induction k v l rule: om_insert.induct) auto

lemma om_update_set: "e \<in> set (om_update k f l) \<Longrightarrow> \<exists>e' \<in> set l. snd e = snd e' \<or> snd e = f (snd e')"
  by (force simp: om_update_def)

lemma insert_then_inv:
  assumes inv: "vm_inv m" and f: "\<And>v. vp_ok (vm_max m) v \<Longrightarrow> vp_ok (vm_max m) (f v)"
  shows "vm_inv (insert_then k t f m)"
proof -
  have old: "vp_ok (vm_max m) (snd e)" if "e \<in> set (om_insert k (VariantParam_new t (vm_max m)) (params m))" for e
    using that om_insert_set inv vp_ok_new by (fastforce simp: vm_inv_def)
  have "vp_ok (vm_max m) (snd e)"
    if "e \<in> set (om_update k f (om_insert k (VariantParam_new t (vm_max m)) (params m)))" for e
    using om_update_set [OF that] old f by metis
  then show ?thesis
    using inv by (simp add: vm_inv_def insert_then_def om_update_sorted om_insert_sorted)
qed

lemma vm_set_max [simp]:
  "vm_max (insert_then k t f m) = vm_max m" "vm_max (set_int k i m) = vm_max m"
  "vm_max (set_bool k b m) = vm_max m" "vm_max (set_cstr k d m) = vm_max m"
  "vm_max (set_char k c m) = vm_max m" "vm_max (set_double k i m) = vm_max m"
  "vm_max (set_octets k d sz m) = vm_max m" "vm_max (set_pointer k i m) = vm_max m"
  by (simp_all add: vm_set_defs)

lemma vm_set_inv:
  assumes "vm_inv m"
  shows "vm_inv (set_int k i m)" "vm_inv (set_bool k b m)" "vm_inv (set_char k c m)"
    "vm_inv (set_double k i m)" "vm_inv (set_pointer k i m)"
    "0 \<notin> set d \<Longrightarrow> vm_inv (set_cstr k d m)"
    "unat sz \<le> length d \<Longrightarrow> vm_inv (set_octets k d sz m)"
proof -
  have max: "0 < vm_max m" using assms by (simp add: vm_inv_def)
  show "vm_inv (set_int k i m)" "vm_inv (set_bool k b m)" "vm_inv (set_char k c m)"
    "vm_inv (set_double k i m)" "vm_inv (set_pointer k i m)"
    unfolding set_int_def set_bool_def set_char_def set_double_def set_pointer_def
    by (auto intro!: insert_then_inv [OF assms] vp_ok_scalars)
  show "0 \<notin> set d \<Longrightarrow> vm_inv (set_cstr k d m)"
    unfolding set_cstr_def by (auto intro!: insert_then_inv [OF assms] vp_ok_str max)
  show "unat sz \<le> length d \<Longrightarrow> vm_inv (set_octets k d sz m)"
    unfolding set_octets_def by (auto intro!: insert_then_inv [OF assms] vp_ok_octets)
qed

lemma get_param_ok: "vm_inv m \<Longrightarrow> get_param k m = Some v \<Longrightarrow> vp_ok (vm_max m) v"
  unfolding vm_inv_def get_param_def by (metis map_of_SomeD snd_conv)

lemma vm_sorted: "vm_inv m \<Longrightarrow> om_sorted (params m)"
  by (simp add: vm_inv_def)

lemma vm_filter_inv: "vm_inv m \<Longrightarrow> vm_inv (m\<lparr>params := filter P (params m)\<rparr>)"
  by (auto simp: vm_inv_def om_filter_sorted)

lemma cstr_no_zero: "0 \<notin> set (cstr b)"
  by (auto simp: cstr_def dest: set_takeWhileD)

lemma cstr_snoc: "0 \<notin> set s \<Longrightarrow> cstr (s @ [0]) = s"
  by (simp add: cstr_def takeWhile_append)

lemma vp_ok_str_size: "vp_ok mx v \<Longrightarrow> u_str (vp_data v) = Some b \<Longrightarrow> unat (data_size v) = length b"
  by (cases "vp_data v") (simp_all add: vp_ok_def)

lemma inc_int_inv:
  assumes inv: "vm_inv m" and eq: "inc_int k d m = Some m'"
  shows "vm_inv m'"
proof (cases "map_of (params m) k")
  case None
  then have "m' = insert_then k DPT_INT (\<lambda>v. v) m"
    using eq by (simp add: inc_int_def insert_then_def om_update_def case_prod_beta)
  then show ?thesis using insert_then_inv [OF inv] by simp
next
  case (Some v)
  have ok: "vp_ok (vm_max m) v" using get_param_ok [OF inv] Some by (simp add: get_param_def)
  have m': "m' = m \<or> (\<exists>x. vp_data v = U_i64 x \<and>
      m' = m\<lparr>params := om_update k (\<lambda>v. v\<lparr>vp_data := U_i64 (x + d)\<rparr>) (params m)\<rparr>)"
    using eq Some by (cases "vp_data v") (simp_all add: inc_int_def)
  have "vp_ok (vm_max m) (snd e)"
    if x: "vp_data v = U_i64 x"
      and e: "e \<in> set (om_update k (\<lambda>v. v\<lparr>vp_data := U_i64 (x + d)\<rparr>) (params m))" for e x
  proof -
    obtain j w where jw: "(j, w) \<in> set (params m)"
      and snd: "snd e = (if j = k then w\<lparr>vp_data := U_i64 (x + d)\<rparr> else w)"
      using e by (auto simp: om_update_def split: if_splits)
    have w: "vp_ok (vm_max m) w" using jw inv by (auto simp: vm_inv_def)
    moreover have "w = v" if "j = k"
      using jw that Some om_sorted_distinct [OF vm_sorted [OF inv]] by simp
    ultimately show ?thesis using snd x by (auto simp: vp_ok_def)
  qed
  then show ?thesis using m' inv by (auto simp: vm_inv_def om_update_sorted)
qed

lemma swap_inv:
  assumes inv: "vm_inv m" and eq: "swap_params id1 id2 m = Some (r, m')"
  shows "vm_inv m'"
proof (cases "get_param id1 m = None \<or> get_param id2 m = None")
  case True
  then show ?thesis using inv eq by (auto simp: swap_params_def split: option.splits)
next
  case False
  then obtain v w where v: "get_param id1 m = Some v" and w: "get_param id2 m = Some w" by auto
  note ok = get_param_ok [OF inv v] get_param_ok [OF inv w]
  show ?thesis
    using eq inv v w ok
    by (cases "vp_type v")
      (auto simp: swap_params_def vm_set_inv cstr_no_zero vp_ok_str_size split: if_splits option.splits)
qed

lemma defrag_loop_length:
  "defrag_loop i idx ctx mx l tmp er = Some (out, er') \<Longrightarrow> length tmp \<le> mx \<Longrightarrow> length out \<le> mx"
  by (induction i idx ctx mx l tmp er rule: defrag_loop.induct)
    (auto simp: Let_def split: if_splits option.splits)

lemma defragment_inv:
  assumes inv: "vm_inv m" and eq: "defragment i idx ctx m = Some (r, m')"
  shows "vm_inv m'"
proof (cases "get_param (ParamTuple i idx 0 ctx) m")
  case None
  then show ?thesis using inv eq by (simp add: defragment_def)
next
  case (Some v)
  then obtain out er where loop: "defrag_loop i idx ctx (unat (vm_max m))
      (dropWhile (\<lambda>e. fst e \<noteq> ParamTuple i idx 0 ctx) (params m)) [] [] = Some (out, er)"
    and m': "m' = set_octets (ParamTuple i idx 0 ctx) out (of_nat (length out))
      (m\<lparr>params := filter (\<lambda>e. fst e \<notin> set er) (params m)\<rparr>)"
    using eq by (auto simp: defragment_def Let_def split: option.splits)
  have "length out \<le> unat (vm_max m)" using defrag_loop_length [OF loop] by simp
  then have "unat (of_nat (length out) :: u32) = length out"
    using unat_lt_exp [of "vm_max m"] by (simp add: unat_of_nat)
  then show ?thesis unfolding m' by (intro vm_set_inv vm_filter_inv inv) simp
qed

section \<open>Runs of calls\<close>

datatype 'k vm_call =
    Set_int "'k ParamTuple" c_long
  | Inc_int "'k ParamTuple" c_long
  | Set_bool "'k ParamTuple" bool
  | Set_cstr "'k ParamTuple" "u8 list"
  | Set_char "'k ParamTuple" u8
  | Set_double "'k ParamTuple" u64
  | Set_octets "'k ParamTuple" "u8 list"
  | Set_pointer "'k ParamTuple" u64
  | Erase 'k c_long u32 u32
  | Clear_params
  | Swap "'k ParamTuple" "'k ParamTuple"
  | Defragment 'k u32 u32
  | Set_label 'k string
  | Copy_param VariantParam "'k ParamTuple"

text \<open>
  A string argument ends at its first zero, and an octets argument brings its own length. A
  call whose behaviour is undefined has no result. \<open>Copy_param\<close> sets a parameter to one of another
  map, which must not claim to be longer than its buffer; an assignment clears the map and
  then copies labels and parameters one by one.
\<close>

fun param_bounded :: "VariantParam \<Rightarrow> bool" where
  "param_bounded v = (case vp_data v of U_str b \<Rightarrow> unat (data_size v) \<le> length b | _ \<Rightarrow> True)"

fun vm_step :: "'k::linorder vm_call \<Rightarrow> 'k VariantParamMap \<Rightarrow> 'k VariantParamMap option" where
  "vm_step (Set_int k d) m = Some (set_int k d m)"
| "vm_step (Inc_int k d) m = inc_int k d m"
| "vm_step (Set_bool k d) m = Some (set_bool k d m)"
| "vm_step (Set_cstr k d) m = Some (set_cstr k (cstr d) m)"
| "vm_step (Set_char k d) m = Some (set_char k d m)"
| "vm_step (Set_double k d) m = Some (set_double k d m)"
| "vm_step (Set_octets k d) m = Some (set_octets k d (of_nat (length d)) m)"
| "vm_step (Set_pointer k d) m = Some (set_pointer k d m)"
| "vm_step (Erase i idx fr c) m = Some (snd (erase_param i idx fr c m))"
| "vm_step Clear_params m = Some (clear_params m)"
| "vm_step (Swap j k) m = map_option snd (swap_params j k m)"
| "vm_step (Defragment i idx c) m = map_option snd (defragment i idx c m)"
| "vm_step (Set_label i l) m = Some (set_label i l m)"
| "vm_step (Copy_param v k) m = (if param_bounded v then set_variant v k m else None)"

lemma set_variant_inv:
  assumes "vm_inv m" and "param_bounded v" and "set_variant v k m = Some m'"
  shows "vm_inv m'"
  using assms by (cases "vp_type v"; cases "vp_data v") (auto simp: set_variant_def vm_set_inv cstr_no_zero)

lemma set_variant_max: "set_variant v k m = Some m' \<Longrightarrow> vm_max m' = vm_max m"
  by (cases "vp_type v") (auto simp: set_variant_def)

text \<open>A map that calls on a new map build, all of them defined.\<close>

definition vm_built :: "u32 \<Rightarrow> 'k::linorder vm_call list \<Rightarrow> 'k VariantParamMap option" where
  "vm_built mx cs = defined_run vm_step cs (VariantParamMap_new mx)"

interpretation vm: partial_stepping vm_step vm_inv
proof
  fix m m' :: "'k::linorder VariantParamMap" and c
  assume inv: "vm_inv m" and step: "vm_step c m = Some m'"
  show "vm_inv m'"
  proof (cases c)
    case (Inc_int k d)
    then show ?thesis using step inc_int_inv [OF inv] by simp
  next
    case (Swap j k)
    then show ?thesis using step swap_inv [OF inv] by auto
  next
    case (Defragment i idx ctx)
    then show ?thesis using step defragment_inv [OF inv] by auto
  next
    case (Erase i idx fr ctx)
    then show ?thesis using step vm_filter_inv [OF inv] by (auto simp: erase_param_def om_erase_def Let_def)
  next
    case Clear_params
    then show ?thesis using inv step by (auto simp: clear_params_def vm_inv_def om_sorted_def)
  next
    case (Set_label i l)
    then have "m' = set_label i l m" using step by simp
    then show ?thesis using inv by (simp add: set_label_def vm_inv_def)
  next
    case (Copy_param v k)
    then show ?thesis using step set_variant_inv [OF inv] by (simp del: param_bounded.simps split: if_splits)
  next
    case (Set_octets k d)
    have "unat (of_nat (length d) :: u32) \<le> length d" by (simp add: unat_of_nat)
    then show ?thesis using inv step Set_octets by (auto intro!: vm_set_inv)
  qed (use inv step in \<open>auto intro!: vm_set_inv simp: cstr_no_zero\<close>)
qed

lemma vm_new_inv: "0 < mx \<Longrightarrow> vm_inv (VariantParamMap_new mx)"
  by (simp add: vm_inv_def VariantParamMap_new_def om_sorted_def)

lemma swap_max: "swap_params j k m = Some (r, m') \<Longrightarrow> vm_max m' = vm_max m"
proof (cases "get_param j m = None \<or> get_param k m = None")
  case True
  then show "swap_params j k m = Some (r, m') \<Longrightarrow> ?thesis"
    by (auto simp: swap_params_def split: option.splits)
next
  case False
  then obtain v w where "get_param j m = Some v" "get_param k m = Some w" by auto
  then show "swap_params j k m = Some (r, m') \<Longrightarrow> ?thesis"
    by (cases "vp_type v") (auto simp: swap_params_def split: if_splits option.splits)
qed

lemma vm_step_max:
  assumes "vm_step c m = Some m'"
  shows "vm_max m' = vm_max m"
proof (cases c)
  case (Inc_int k d)
  then show ?thesis using assms by (auto simp: inc_int_def split: option.splits UVariantParam.splits)
next
  case (Swap j k)
  then show ?thesis using assms by (auto dest: swap_max)
next
  case (Defragment i idx ctx)
  then show ?thesis using assms by (auto simp: defragment_def Let_def split: option.splits prod.splits)
next
  case (Erase i idx fr ctx)
  then show ?thesis using assms by (auto simp: erase_param_def Let_def)
next
  case Clear_params
  then show ?thesis using assms by (auto simp: clear_params_def)
next
  case (Set_label i l)
  then show ?thesis using assms by (auto simp: set_label_def)
next
  case (Copy_param v k)
  then show ?thesis using assms set_variant_max by (simp del: param_bounded.simps split: if_splits)
qed (use assms in auto)

lemma vm_run_max: "defined_run vm_step cs m = Some m' \<Longrightarrow> vm_max m' = vm_max m"
  by (induction cs arbitrary: m) (auto simp: bind_eq_Some_conv dest!: vm_step_max)

lemma vm_reachable:
  assumes "vm_built mx cs = Some m" and "0 < mx"
  shows "vm_inv m" "vm_max m = mx"
proof -
  show "vm_inv m" by (rule vm.run_keeps_inv [OF vm_new_inv [OF assms(2)] assms(1) [unfolded vm_built_def]])
  show "vm_max m = mx" using vm_run_max [OF assms(1) [unfolded vm_built_def]] by (simp add: VariantParamMap_new_def)
qed

section \<open>Copying\<close>

definition initialised :: "VariantParam \<Rightarrow> bool" where
  "initialised v \<longleftrightarrow> vp_data v \<noteq> U_uninit"

lemma om_insert_last: "\<forall>j \<in> fst ` set l. j < k \<Longrightarrow> om_insert k v l = l @ [(k, v)]"
  by (induction k v l rule: om_insert.induct) (auto dest: order.strict_implies_not_eq order.asym)

lemma om_update_last: "k \<notin> fst ` set l \<Longrightarrow> om_update k f (l @ [(k, v)]) = l @ [(k, f v)]"
  by (force simp: om_update_def intro: map_idI)

text \<open>Setting a parameter to the value of a well-typed one of the same type rebuilds that.\<close>

lemma rebuild_octets:
  assumes ok: "vp_ok mx w" and w: "vp_data w = U_str b" "vp_type w = DPT_OCTETS"
    and v: "vp_type v = DPT_OCTETS" "vp_max v = mx"
  shows "vp_set_octets b (data_size w) v = w"
proof -
  have size: "unat (data_size w) = length b" "length b \<le> unat mx" using ok w by (simp_all add: vp_ok_def)
  then have "\<not> data_size w > mx" by (simp add: word_less_nat_alt)
  then show ?thesis
    using w v size ok by (intro VariantParam.equality) (simp_all add: vp_set_octets_def vp_ok_def)
qed

lemma rebuild_str:
  assumes ok: "vp_ok mx w" and w: "vp_data w = U_str b" "vp_type w = DPT_STRING"
    and v: "vp_type v = DPT_STRING" "vp_max v = mx" and pos: "0 < mx"
  shows "vp_set_str (cstr b) v = w"
proof -
  obtain s where b: "b = s @ [0]" "0 \<notin> set s" using ok w by (auto simp: vp_ok_def)
  have size: "unat (data_size w) = length b" "length b \<le> unat mx" using ok w by (simp_all add: vp_ok_def)
  let ?c = "if length s \<ge> unat mx then mx - 1 else of_nat (length s) :: u32"
  have less: "length s < unat mx" using size b by simp
  note sz = str_size [OF pos refl, of "length s"]
  have "unat (?c + 1) = unat (data_size w)" using sz(2,4) less size b by simp
  then have "?c + 1 = data_size w" by (simp only: word_unat_eq_iff)
  then show ?thesis
    using w v b less sz(4) ok cstr_snoc [OF b(2)]
    by (intro VariantParam.equality) (simp_all add: vp_set_str_def vp_ok_def Let_def)
qed


lemma set_variant_fresh:
  assumes ok: "vp_ok (vm_max m) vp" and init: "initialised vp" and pos: "0 < vm_max m"
    and keys: "\<forall>j \<in> fst ` set (params m). j < k"
  shows "set_variant vp k m = Some (m\<lparr>params := params m @ [(k, vp)]\<rparr>)"
proof -
  have ins: "insert_then k t f m = m\<lparr>params := params m @ [(k, f (VariantParam_new t (vm_max m)))]\<rparr>" for t f
  proof -
    have "k \<notin> fst ` set (params m)" using keys by auto
    then show ?thesis using keys by (simp add: insert_then_def om_insert_last om_update_last)
  qed
  have vp: "vp = \<lparr>vp_max = vm_max m, vp_data = vp_data vp, vp_type = vp_type vp, data_size = data_size vp\<rparr>"
    using ok by (simp add: vp_ok_def)
  show ?thesis
  proof (cases "vp_data vp")
    case U_uninit
    then show ?thesis using init by (simp add: initialised_def)
  next
    case (U_str b)
    consider "vp_type vp = DPT_OCTETS" | "vp_type vp = DPT_STRING" using ok U_str by (auto simp: vp_ok_def)
    then show ?thesis
    proof cases
      case 1
      then show ?thesis
        using rebuild_octets [OF ok U_str 1, of "VariantParam_new DPT_OCTETS (vm_max m)"] U_str
        by (simp add: set_variant_def set_octets_def ins VariantParam_new_def)
    next
      case 2
      then show ?thesis
        using rebuild_str [OF ok U_str 2, of "VariantParam_new DPT_STRING (vm_max m)"] U_str pos
        by (simp add: set_variant_def set_cstr_def ins VariantParam_new_def)
    qed
  qed (use ok vp in \<open>simp_all add: vp_ok_def set_variant_def set_int_def set_bool_def set_char_def
        set_double_def set_pointer_def ins vp_set_defs VariantParam_new_def\<close>)
qed

lemma copy_params_fresh:
  "om_sorted (params m @ l) \<Longrightarrow> 0 < vm_max m \<Longrightarrow> \<forall>e \<in> set l. vp_ok (vm_max m) (snd e) \<Longrightarrow>
    copy_params l m =
      (if \<forall>e \<in> set l. initialised (snd e) then Some (m\<lparr>params := params m @ l\<rparr>) else None)"
proof (induction l arbitrary: m)
  case Nil
  then show ?case by simp
next
  case (Cons e l)
  obtain k v where e: "e = (k, v)" by fastforce
  have keys: "\<forall>j \<in> fst ` set (params m). j < k"
    using Cons.prems(1) e by (auto simp: om_sorted_def sorted_wrt_append)
  have ok: "vp_ok (vm_max m) v" using Cons.prems(3) e by simp
  show ?case
  proof (cases "initialised v")
    case True
    have "copy_params l (m\<lparr>params := params m @ [(k, v)]\<rparr>) =
        (if \<forall>e \<in> set l. initialised (snd e) then Some (m\<lparr>params := params m @ (k, v) # l\<rparr>) else None)"
      using Cons.prems e by (subst Cons.IH) simp_all
    then show ?thesis
      using set_variant_fresh [OF ok True Cons.prems(2) keys] True by (simp add: e)
  next
    case False
    have "set_variant v k m = None"
      using False by (auto simp: initialised_def set_variant_def split: VariantParamType.split)
    then show ?thesis using False by (simp add: e)
  qed
qed

section \<open>Defragmenting\<close>

lemma map_of_filter_key: "map_of (filter (\<lambda>e. P (fst e)) l) k = (if P k then map_of l k else None)"
  by (induction l) auto

lemma dropWhile_sorted:
  "om_sorted l \<Longrightarrow> k \<in> fst ` set l \<Longrightarrow> dropWhile (\<lambda>e. fst e \<noteq> k) l = filter (\<lambda>e. k \<le> fst e) l"
proof (induction l)
  case Nil
  then show ?case by simp
next
  case (Cons e l)
  have tl: "om_sorted l" "\<forall>j \<in> fst ` set l. fst e < j"
    using om_sorted_tail [of "fst e" "snd e" l] Cons.prems(1) by simp_all
  show ?case
  proof (cases "fst e = k")
    case True
    then show ?thesis using tl(2) by (auto simp: filter_id_conv less_imp_le)
  next
    case False
    then have k: "k \<in> fst ` set l" using Cons.prems(2) by auto
    then have "\<not> k \<le> fst e" using tl(2) by auto
    then show ?thesis using Cons.IH [OF tl(1) k] False by simp
  qed
qed

text \<open>In key order, what matches the identifier and index follows the first fragment without a gap.\<close>

lemma filter_sorted_prefix:
  assumes "om_sorted l" and "\<And>x y. x \<in> fst ` set l \<Longrightarrow> y \<in> fst ` set l \<Longrightarrow> x < y \<Longrightarrow> P y \<Longrightarrow> P x"
  shows "\<exists>rest. filter (\<lambda>e. P (fst e)) l @ rest = l \<and> (\<forall>e \<in> set rest. \<not> P (fst e))"
  using assms
proof (induction l)
  case Nil
  then show ?case by simp
next
  case (Cons e l)
  have tl: "om_sorted l" "\<forall>j \<in> fst ` set l. fst e < j"
    using om_sorted_tail [of "fst e" "snd e" l] Cons.prems(1) by simp_all
  show ?case
  proof (cases "P (fst e)")
    case True
    then show ?thesis using Cons.IH [OF tl(1)] Cons.prems(2) by auto
  next
    case False
    have "\<not> P (fst x)" if "x \<in> set l" for x
      using Cons.prems(2) [of "fst e" "fst x"] that tl(2) False by auto
    then show ?thesis using False by (auto simp: filter_empty_conv)
  qed
qed

lemma filter_sorted_split:
  assumes "om_sorted l" and "\<And>x y. x \<in> fst ` set l \<Longrightarrow> y \<in> fst ` set l \<Longrightarrow> x < y \<Longrightarrow> P y \<Longrightarrow> P x"
    and "filter (\<lambda>e. P (fst e)) l = frs"
  obtains rest where "l = frs @ rest" "\<forall>e \<in> set rest. \<not> P (fst e)"
proof -
  have "\<exists>rest. filter (\<lambda>e. P (fst e)) l @ rest = l \<and> (\<forall>e \<in> set rest. \<not> P (fst e))"
    by (rule filter_sorted_prefix [OF assms(1,2)])
  then obtain rest where "frs @ rest = l" "\<forall>e \<in> set rest. \<not> P (fst e)"
    unfolding assms(3) by blast
  then show ?thesis using that [of rest] by simp
qed

lemma defrag_loop_run:
  assumes "\<forall>e \<in> set rest. \<not> (pt_key (fst e) = i \<and> pt_index (fst e) = idx)"
  shows "\<forall>e \<in> set frs. pt_key (fst e) = i \<and> pt_index (fst e) = idx \<and> pt_context (fst e) = ctx \<and>
      fragment_bytes (snd e) = Some (bytes e) \<Longrightarrow>
    length tmp + length (concat (map bytes frs)) < mx \<Longrightarrow>
    defrag_loop i idx ctx mx (frs @ rest) tmp er = Some (tmp @ concat (map bytes frs), er @ map fst frs)"
proof (induction frs arbitrary: tmp er)
  case Nil
  then show ?case using assms by (cases rest) auto
next
  case (Cons e frs)
  obtain k v where e: "e = (k, v)" by fastforce
  show ?case
    using Cons.prems Cons.IH [of "tmp @ bytes e" "er @ [k]"] by (simp add: e Let_def)
qed

lemma fragment_bytes_octets:
  assumes "vp_ok mx v" and "u_str (vp_data v) = Some b"
  shows "fragment_bytes v = Some b"
  using vp_ok_str_size [OF assms] assms(2)
  by (auto simp: fragment_bytes_def)

lemma defragment_run:
  assumes inv: "vm_inv m"
    and frs: "frs = filter (\<lambda>e. pt_key (fst e) = i \<and> pt_index (fst e) = idx) (params m)"
    and ok: "\<forall>e \<in> set frs. pt_context (fst e) = ctx \<and> u_str (vp_data (snd e)) \<noteq> None"
    and first: "get_param (ParamTuple i idx 0 ctx) m \<noteq> None"
    and out: "out = concat (map (\<lambda>e. the (u_str (vp_data (snd e)))) frs)" "length out < unat (vm_max m)"
  shows "defragment i idx ctx m = Some (Some (ParamTuple i idx 0 ctx),
    set_octets (ParamTuple i idx 0 ctx) out (of_nat (length out))
      (m\<lparr>params := filter (\<lambda>e. \<not> (pt_key (fst e) = i \<and> pt_index (fst e) = idx)) (params m)\<rparr>))"
proof -
  let ?k0 = "ParamTuple i idx 0 ctx" and ?P = "\<lambda>k. pt_key k = i \<and> pt_index k = idx"
  have sorted: "om_sorted (params m)" using inv by (rule vm_sorted)
  have k0: "?k0 \<in> fst ` set (params m)"
    using first by (metis get_param_def map_of_eq_None_iff)
  let ?L = "filter (\<lambda>e. ?k0 \<le> fst e) (params m)"
  have drop: "dropWhile (\<lambda>e. fst e \<noteq> ?k0) (params m) = ?L"
    by (rule dropWhile_sorted [OF sorted k0])
  have ge: "?k0 \<le> k" if "?P k" "pt_context k = ctx" for k
    using that by (cases k) (auto simp: less_eq_ParamTuple_def ParamTupleCompare_def word_neq_0_conv)
  have convex: "?P x" if "?k0 \<le> x" "x < y" "?P y" for x y
    using that by (cases x; cases y)
      (auto simp: less_eq_ParamTuple_def less_ParamTuple_def ParamTupleCompare_def split: if_splits)
  have flt: "filter (\<lambda>e. ?P (fst e)) ?L = frs"
  proof -
    have "?k0 \<le> fst e \<and> ?P (fst e) \<longleftrightarrow> ?P (fst e)" if "e \<in> set (params m)" for e
    proof -
      have "pt_context (fst e) = ctx" if "?P (fst e)"
        using bspec [OF ok, of e] that \<open>e \<in> set (params m)\<close> by (simp add: frs)
      then show ?thesis using ge [of "fst e"] by blast
    qed
    then show ?thesis unfolding frs filter_filter by (intro filter_cong) auto
  qed
  obtain rest where L: "?L = frs @ rest" and rest: "\<forall>e \<in> set rest. \<not> ?P (fst e)"
  proof (rule filter_sorted_split [OF om_filter_sorted [OF sorted] _ flt])
    show "?P x" if "x \<in> fst ` set ?L" "y \<in> fst ` set ?L" "x < y" "?P y" for x y
      using convex [of x y] that by auto
  qed
  have bytes: "fragment_bytes (snd e) = Some (the (u_str (vp_data (snd e))))" if mem: "e \<in> set frs" for e
  proof -
    obtain b where b: "u_str (vp_data (snd e)) = Some b"
      using bspec [OF ok mem] by auto
    have "vp_ok (vm_max m) (snd e)" using mem frs inv by (auto simp: vm_inv_def)
    from fragment_bytes_octets [OF this b] b show ?thesis by simp
  qed
  have "defrag_loop i idx ctx (unat (vm_max m)) (frs @ rest) [] [] = Some (out, map fst frs)"
  proof -
    have "\<forall>e \<in> set frs. pt_key (fst e) = i \<and> pt_index (fst e) = idx \<and> pt_context (fst e) = ctx \<and>
        fragment_bytes (snd e) = Some (the (u_str (vp_data (snd e))))"
    proof
      fix e
      assume e: "e \<in> set frs"
      then have "pt_key (fst e) = i \<and> pt_index (fst e) = idx" by (simp add: frs)
      then show "pt_key (fst e) = i \<and> pt_index (fst e) = idx \<and> pt_context (fst e) = ctx \<and>
        fragment_bytes (snd e) = Some (the (u_str (vp_data (snd e))))"
        using bspec [OF ok e] bytes [OF e] by blast
    qed
    from defrag_loop_run [OF rest this, of "[]" "unat (vm_max m)" "[]"] show ?thesis
      using out by simp
  qed
  moreover have "filter (\<lambda>e. fst e \<notin> set (map fst frs)) (params m) = filter (\<lambda>e. \<not> ?P (fst e)) (params m)"
    by (intro filter_cong) (auto simp: frs)
  ultimately show ?thesis
    using first unfolding defragment_def Let_def drop L by (simp add: option.case_eq_if)
qed

section \<open>Swapping\<close>

lemma set_twice_lookup:
  assumes inv: "vm_inv m" and v: "get_param k1 m = Some v" and w: "get_param k2 m = Some w" and ne: "k1 \<noteq> k2"
    and f: "\<And>v. vp_ok (vm_max m) v \<Longrightarrow> vp_ok (vm_max m) (f v)"
  shows "get_param j (insert_then k2 t' g (insert_then k1 t f m)) =
    (if j = k2 then Some (g w) else if j = k1 then Some (f v) else get_param j m)"
proof -
  have "vm_inv (insert_then k1 t f m)" using insert_then_inv [OF inv f] .
  then show ?thesis
    using insert_then_lookup [OF vm_sorted [OF inv]] v w ne
    by (simp add: insert_then_lookup [OF vm_sorted])
qed

lemma swap_lookup:
  assumes inv: "vm_inv m" and v: "get_param k1 m = Some v" "initialised v"
    and w: "get_param k2 m = Some w" "initialised w" and ne: "k1 \<noteq> k2" and t: "vp_type v = vp_type w"
  shows "\<exists>m'. swap_params k1 k2 m = Some (True, m') \<and>
    (\<forall>j. get_param j m' =
      (if j = k2 then Some (case vp_data v of
          U_i64 x \<Rightarrow> v\<lparr>vp_data := U_i64 (scast (ucast x :: c_int))\<rparr> | _ \<Rightarrow> v)
       else if j = k1 then Some w else get_param j m))"
proof -
  let ?mx = "vm_max m"
  have ok: "vp_ok ?mx v" "vp_ok ?mx w" using get_param_ok [OF inv] v w by auto
  have pos: "0 < ?mx" using inv by (simp add: vm_inv_def)
  have max: "vp_max v = ?mx" "vp_max w = ?mx" using ok by (simp_all add: vp_ok_def)
  note twice = set_twice_lookup [OF inv v(1) w(1) ne]
  note start = swap_params_def v(1) w(1) ne t
  show ?thesis
  proof (cases "vp_data v")
    case (U_str b)
    then obtain c where c: "vp_data w = U_str c"
      using ok t w(2) by (cases "vp_data w") (auto simp: vp_ok_def initialised_def)
    consider "vp_type v = DPT_OCTETS" | "vp_type v = DPT_STRING" using ok(1) U_str by (auto simp: vp_ok_def)
    then show ?thesis
    proof cases
      case 1
      have f: "\<And>u. vp_ok ?mx u \<Longrightarrow> vp_ok ?mx (vp_set_octets c (data_size w) u)"
        using vp_ok_str_size [OF ok(2), of c] c by (intro vp_ok_octets) simp_all
      show ?thesis
        using twice [OF f, where g = "vp_set_octets b (data_size v)"] rebuild_octets [OF ok(1) U_str 1, of w]
          rebuild_octets [OF ok(2) c, of v] 1 t max U_str c
        by (simp add: start set_octets_def)
    next
      case 2
      have f: "\<And>u. vp_ok ?mx u \<Longrightarrow> vp_ok ?mx (vp_set_str (cstr c) u)"
        using pos cstr_no_zero by (intro vp_ok_str)
      show ?thesis
        using twice [OF f, where g = "vp_set_str (cstr b)"] rebuild_str [OF ok(1) U_str 2, of w]
          rebuild_str [OF ok(2) c, of v] 2 t max pos U_str c
        by (simp add: start set_cstr_def)
    qed
  next
    case (U_i64 x)
    then obtain y where y: "vp_data w = U_i64 y"
      using ok t w(2) by (cases "vp_data w") (auto simp: vp_ok_def initialised_def)
    have "vp_set_int y v = w" "vp_set_int (scast (ucast x :: c_int)) w = v\<lparr>vp_data := U_i64 (scast (ucast x :: c_int))\<rparr>"
      using ok U_i64 y by (auto simp: vp_ok_def vp_set_int_def intro!: VariantParam.equality)
    then show ?thesis
      using twice [OF vp_ok_scalars(1)] ok U_i64 y by (simp add: start set_int_def vp_ok_def as_int_def)
  next
    case U_uninit
    then show ?thesis using v(2) by (simp add: initialised_def)
  next
    case (U_double x)
    then obtain y where y: "vp_data w = U_double y"
      using ok t w(2) by (cases "vp_data w") (auto simp: vp_ok_def initialised_def)
    have "vp_set_double y v = w" "vp_set_double x w = v"
      using ok U_double y by (auto simp: vp_ok_def vp_set_double_def intro!: VariantParam.equality)
    then show ?thesis
      using twice [OF vp_ok_scalars(4)] ok U_double y by (simp add: start set_double_def vp_ok_def)
  next
    case (U_char x)
    then obtain y where y: "vp_data w = U_char y"
      using ok t w(2) by (cases "vp_data w") (auto simp: vp_ok_def initialised_def)
    have "vp_set_char y v = w" "vp_set_char x w = v"
      using ok U_char y by (auto simp: vp_ok_def vp_set_char_def intro!: VariantParam.equality)
    then show ?thesis
      using twice [OF vp_ok_scalars(3)] ok U_char y by (simp add: start set_char_def vp_ok_def)
  next
    case (U_bool x)
    then obtain y where y: "vp_data w = U_bool y"
      using ok t w(2) by (cases "vp_data w") (auto simp: vp_ok_def initialised_def)
    have "vp_set_bool y v = w" "vp_set_bool x w = v"
      using ok U_bool y by (auto simp: vp_ok_def vp_set_bool_def intro!: VariantParam.equality)
    then show ?thesis
      using twice [OF vp_ok_scalars(2)] ok U_bool y by (simp add: start set_bool_def vp_ok_def)
  next
    case (U_pointer x)
    then obtain y where y: "vp_data w = U_pointer y"
      using ok t w(2) by (cases "vp_data w") (auto simp: vp_ok_def initialised_def)
    have "vp_set_pointer y v = w" "vp_set_pointer x w = v"
      using ok U_pointer y by (auto simp: vp_ok_def vp_set_pointer_def intro!: VariantParam.equality)
    then show ?thesis
      using twice [OF vp_ok_scalars(5)] ok U_pointer y by (simp add: start set_pointer_def vp_ok_def)
  qed
qed

section \<open>Checksums and counters\<close>

lemma checksum_bytes_filter:
  "checksum_bytes mem c l = checksum_bytes mem c (filter (\<lambda>e. pt_key (fst e) \<noteq> c) l)"
  by (induction mem c l rule: checksum_bytes.induct) (auto split: option.split)

lemma checksum_bytes_set:
  assumes "vm_inv m" and "pt_key k = c"
  shows "checksum_bytes mem c (params (set_int k d m)) = checksum_bytes mem c (params m)"
proof -
  let ?P = "\<lambda>e. pt_key (fst e) \<noteq> c"
  have "map_of (filter ?P (params (set_int k d m))) = map_of (filter ?P (params m))"
    using insert_then_lookup [OF vm_sorted [OF assms(1)], of _ k DPT_INT "vp_set_int d"] assms(2)
    by (auto simp: map_of_filter_key [of "\<lambda>j. pt_key j \<noteq> c"] set_int_def get_param_def fun_eq_iff)
  then have "filter ?P (params (set_int k d m)) = filter ?P (params m)"
    using vm_set_inv(1) [OF assms(1)] assms(1)
    by (intro om_sorted_eqI om_filter_sorted) (simp_all add: vm_sorted)
  then show ?thesis
    using checksum_bytes_filter [of mem c "params (set_int k d m)"] checksum_bytes_filter [of mem c "params m"]
    by simp
qed

section \<open>Properties\<close>



text \<open>
  Copying is faithful: the copy constructor rebuilds every parameter exactly, in any map
  that calls can build, unless one of them was never given a value (\<open>inc_int\<close> on a new key
  leaves it so), which the copy would read.
\<close>

theorem VariantParamMap_copy_faithful:
  assumes "vm_built mx cs = Some m" and "0 < mx"
  shows "VariantParamMap_copy m =
    (if \<forall>e \<in> set (params m). initialised (snd e) then Some m else None)"
proof -
  note inv = vm_reachable [OF assms]
  let ?m = "\<lparr>vm_max = vm_max m, vm_labels = vm_labels m, params = []\<rparr>"
  have "copy_params (params m) ?m =
      (if \<forall>e \<in> set (params m). initialised (snd e) then Some (?m\<lparr>params := params m\<rparr>) else None)"
    using inv(1) by (subst copy_params_fresh) (simp_all add: vm_inv_def)
  moreover have "?m\<lparr>params := params m\<rparr> = m" by simp
  ultimately show ?thesis by (simp add: VariantParamMap_copy_def)
qed

theorem VariantParamMap_copy_faithful_witness:
  "\<exists>m. vm_built 256 [Set_int (ParamTuple (1::nat) 0 0 0) 5, Inc_int (ParamTuple 2 0 0 0) 5] = Some m \<and>
    VariantParamMap_copy m = None"
proof -
  let ?cs = "[Set_int (ParamTuple (1::nat) 0 0 0) 5, Inc_int (ParamTuple 2 0 0 0) 5]"
  obtain m where m: "vm_built 256 ?cs = Some m" and v: "\<exists>e \<in> set (params m). \<not> initialised (snd e)"
    by (simp add: vm_built_def set_int_def insert_then_def inc_int_def VariantParamMap_new_def om_update_def
        vp_set_int_def VariantParam_new_def initialised_def less_ParamTuple_def ParamTupleCompare_def)
  show ?thesis using VariantParamMap_copy_faithful [OF m] m v by (intro exI [of _ m]) auto
qed

text \<open>
  C28. Defragmentation joins the fragments of a parameter: if every fragment under an
  identifier and index belongs to the given context and holds bytes, fragment 0 exists and
  the total is less than the maximum, then \<open>defragment\<close> leaves one octets parameter at
  fragment 0 with the fragments' bytes in the order of their fragment numbers, erases the
  other fragments, and touches no other parameter.
\<close>

theorem VariantParamMap_defragment:
  assumes "vm_built mx cs = Some m" and "0 < mx"
    and frs: "frs = filter (\<lambda>e. pt_key (fst e) = i \<and> pt_index (fst e) = idx) (params m)"
    and ok: "\<forall>e \<in> set frs. pt_context (fst e) = ctx \<and> u_str (vp_data (snd e)) \<noteq> None"
    and first: "get_param (ParamTuple i idx 0 ctx) m \<noteq> None"
    and out: "out = concat (map (\<lambda>e. the (u_str (vp_data (snd e)))) frs)" "length out < unat mx"
    and res: "defragment i idx ctx m = r"
  shows "\<exists>m'. r = Some (Some (ParamTuple i idx 0 ctx), m') \<and> sorted_wrt (<) (map fst frs) \<and>
    get_param k m' =
      (if k = ParamTuple i idx 0 ctx
       then Some \<lparr>vp_max = mx, vp_data = U_str out, vp_type = DPT_OCTETS, data_size = of_nat (length out)\<rparr>
       else if pt_key k = i \<and> pt_index k = idx then None
       else get_param k m)"
proof -
  note inv = vm_reachable [OF assms(1,2)]
  let ?m = "m\<lparr>params := filter (\<lambda>e. \<not> (pt_key (fst e) = i \<and> pt_index (fst e) = idx)) (params m)\<rparr>"
  have eq: "defragment i idx ctx m = Some (Some (ParamTuple i idx 0 ctx),
      set_octets (ParamTuple i idx 0 ctx) out (of_nat (length out)) ?m)"
    using defragment_run [OF inv(1) frs ok first out(1)] out(2) inv(2) by simp
  have sorted: "om_sorted (params ?m)" using vm_sorted [OF vm_filter_inv [OF inv(1)]] .
  have size: "unat (of_nat (length out) :: u32) = length out"
    using out(2) unat_lt_exp [of mx] by (simp add: unat_of_nat)
  then have "\<not> (of_nat (length out) :: u32) > mx" using out(2) by (simp add: word_less_nat_alt)
  then have set: "vp_set_octets out (of_nat (length out)) (VariantParam_new DPT_OCTETS mx) =
      \<lparr>vp_max = mx, vp_data = U_str out, vp_type = DPT_OCTETS, data_size = of_nat (length out)\<rparr>"
    using size by (simp add: vp_set_octets_def VariantParam_new_def)
  have get: "get_param j ?m = (if pt_key j = i \<and> pt_index j = idx then None else get_param j m)" for j
    using map_of_filter_key [of "\<lambda>j. \<not> (pt_key j = i \<and> pt_index j = idx)" "params m" j]
    by (auto simp: get_param_def)
  have "sorted_wrt (<) (map fst frs)"
    using om_filter_sorted [OF vm_sorted [OF inv(1)]] frs by (simp add: om_sorted_def)
  moreover have "get_param k (set_octets (ParamTuple i idx 0 ctx) out (of_nat (length out)) ?m) =
      (if k = ParamTuple i idx 0 ctx
       then Some \<lparr>vp_max = mx, vp_data = U_str out, vp_type = DPT_OCTETS, data_size = of_nat (length out)\<rparr>
       else if pt_key k = i \<and> pt_index k = idx then None else get_param k m)"
    unfolding set_octets_def insert_then_lookup [OF sorted] get using set inv(2) by auto
  ultimately show ?thesis using eq res by blast
qed

theorem VariantParamMap_defragment_witness:
  "\<exists>m m'. vm_built 256 [Set_octets (ParamTuple (7::nat) 0 1 3) [3, 4], Set_octets (ParamTuple 7 0 0 3) [1, 2]] = Some m \<and>
    defragment 7 0 3 m = Some (Some (ParamTuple 7 0 0 3), m') \<and>
    get_param (ParamTuple 7 0 0 3) m' =
      Some \<lparr>vp_max = 256, vp_data = U_str [1, 2, 3, 4], vp_type = DPT_OCTETS, data_size = 4\<rparr>"
proof -
  let ?cs = "[Set_octets (ParamTuple (7::nat) 0 1 3) [3, 4], Set_octets (ParamTuple 7 0 0 3) [1, 2]]"
  let ?a = "\<lparr>vp_max = 256, vp_data = U_str [1, 2], vp_type = DPT_OCTETS, data_size = 2\<rparr>"
    and ?b = "\<lparr>vp_max = 256, vp_data = U_str [3, 4], vp_type = DPT_OCTETS, data_size = 2\<rparr>"
  obtain m where m: "vm_built 256 ?cs = Some m" and p: "params m = [(ParamTuple 7 0 0 3, ?a), (ParamTuple 7 0 1 3, ?b)]"
    by (simp add: vm_built_def set_octets_def insert_then_def om_update_def VariantParamMap_new_def VariantParam_new_def
        vp_set_octets_def less_ParamTuple_def ParamTupleCompare_def Let_def)
  have "\<exists>m'. defragment 7 0 3 m = Some (Some (ParamTuple 7 0 0 3), m') \<and>
      sorted_wrt (<) (map fst [(ParamTuple (7::nat) 0 0 3, ?a), (ParamTuple 7 0 1 3, ?b)]) \<and>
      get_param (ParamTuple 7 0 0 3) m' = (if ParamTuple 7 0 0 3 = ParamTuple (7::nat) 0 0 3
       then Some \<lparr>vp_max = 256, vp_data = U_str [1, 2, 3, 4], vp_type = DPT_OCTETS, data_size = of_nat (length [1, 2, 3, 4 :: u8])\<rparr>
       else if pt_key (ParamTuple (7::nat) 0 0 3) = 7 \<and> pt_index (ParamTuple (7::nat) 0 0 3) = 0 then None
       else get_param (ParamTuple 7 0 0 3) m)"
    by (rule VariantParamMap_defragment [OF m _ _ _ _ _ _ refl]) (simp_all add: p get_param_def)
  then show ?thesis using m by auto
qed

text \<open>
  Defragmenting at the limit goes wrong: when the fragments fill the maximum exactly,
  the last one is left in the map beside the joined parameter; when they exceed it, the
  copy has written past the end of its buffer before the check.
\<close>

theorem VariantParamMap_defragment_limit:
  "(\<exists>m'. Option.bind (vm_built 4 [Set_octets (ParamTuple 7 0 0 0) [1, 2], Set_octets (ParamTuple 7 0 1 0) [3, 4]])
       (defragment (7::nat) 0 0) = Some (Some (ParamTuple 7 0 0 0), m') \<and>
     map_option vp_data (get_param (ParamTuple 7 0 0 0) m') = Some (U_str [1, 2, 3, 4]) \<and>
     map_option vp_data (get_param (ParamTuple 7 0 1 0) m') = Some (U_str [3, 4])) \<and>
   vm_built 4 [Set_octets (ParamTuple (7::nat) 0 0 0) [1, 2, 3], Set_octets (ParamTuple 7 0 1 0) [4, 5]] \<noteq> None \<and>
   vm_built 4 [Set_octets (ParamTuple (7::nat) 0 0 0) [1, 2, 3], Set_octets (ParamTuple 7 0 1 0) [4, 5], Defragment 7 0 0] = None"
  by (simp add: vm_built_def set_octets_def insert_then_def om_update_def VariantParamMap_new_def VariantParam_new_def
      vp_set_octets_def less_ParamTuple_def ParamTupleCompare_def Let_def get_param_def defragment_def
      fragment_bytes_def word_less_nat_alt)

text \<open>
  \<open>swap\<close> exchanges two parameters of the same type, in any map that calls can build, and
  touches no other; but the first of two integers goes through an \<open>int\<close>, so it is only
  preserved when it fits in 32 bits.
\<close>

theorem VariantParamMap_swap:
  assumes "vm_built mx cs = Some m" and "0 < mx"
    and v: "get_param k1 m = Some v" "initialised v" and w: "get_param k2 m = Some w" "initialised w"
    and "k1 \<noteq> k2" and "vp_type v = vp_type w"
  shows "\<exists>m'. swap_params k1 k2 m = Some (True, m') \<and> get_param k1 m' = Some w \<and>
    get_param k2 m' = Some (case vp_data v of
        U_i64 x \<Rightarrow> v\<lparr>vp_data := U_i64 (scast (ucast x :: c_int))\<rparr> | _ \<Rightarrow> v) \<and>
    (j \<noteq> k1 \<longrightarrow> j \<noteq> k2 \<longrightarrow> get_param j m' = get_param j m)"
proof -
  obtain m' where m': "swap_params k1 k2 m = Some (True, m')" and get: "\<And>j. get_param j m' =
      (if j = k2 then Some (case vp_data v of
          U_i64 x \<Rightarrow> v\<lparr>vp_data := U_i64 (scast (ucast x :: c_int))\<rparr> | _ \<Rightarrow> v)
       else if j = k1 then Some w else get_param j m)"
    using swap_lookup [OF vm_reachable(1) [OF assms(1,2)] v w assms(7,8)] by blast
  show ?thesis by (rule exI [of _ m']) (simp add: m' get assms(7))
qed

theorem VariantParamMap_swap_witness:
  "\<exists>m m'. vm_built 256 [Set_int (ParamTuple (1::nat) 0 0 0) 4294967297, Set_int (ParamTuple 2 0 0 0) 5] = Some m \<and>
    swap_params (ParamTuple 1 0 0 0) (ParamTuple 2 0 0 0) m = Some (True, m') \<and>
    map_option vp_data (get_param (ParamTuple 1 0 0 0) m') = Some (U_i64 5) \<and>
    map_option vp_data (get_param (ParamTuple 2 0 0 0) m') = Some (U_i64 1)"
proof -
  let ?v = "\<lparr>vp_max = 256, vp_data = U_i64 4294967297, vp_type = DPT_INT, data_size = 8\<rparr>"
    and ?w = "\<lparr>vp_max = 256, vp_data = U_i64 5, vp_type = DPT_INT, data_size = 8\<rparr>"
  obtain m where m: "vm_built 256 [Set_int (ParamTuple (1::nat) 0 0 0) 4294967297, Set_int (ParamTuple 2 0 0 0) 5] = Some m"
    and get: "get_param (ParamTuple 1 0 0 0) m = Some ?v" "get_param (ParamTuple 2 0 0 0) m = Some ?w"
    by (simp add: vm_built_def set_int_def insert_then_def om_update_def VariantParamMap_new_def VariantParam_new_def
        vp_set_int_def less_ParamTuple_def ParamTupleCompare_def get_param_def)
  have "\<exists>m'. swap_params (ParamTuple 1 0 0 0) (ParamTuple 2 0 0 0) m = Some (True, m') \<and>
      get_param (ParamTuple 1 0 0 0) m' = Some ?w \<and>
      get_param (ParamTuple 2 0 0 0) m' = Some (case vp_data ?v of
        U_i64 x \<Rightarrow> ?v\<lparr>vp_data := U_i64 (scast (ucast x :: c_int))\<rparr> | _ \<Rightarrow> ?v) \<and>
      (ParamTuple 3 0 0 0 \<noteq> ParamTuple (1::nat) 0 0 0 \<longrightarrow> ParamTuple 3 0 0 0 \<noteq> ParamTuple (2::nat) 0 0 0 \<longrightarrow>
        get_param (ParamTuple 3 0 0 0) m' = get_param (ParamTuple 3 0 0 0) m)"
    by (rule VariantParamMap_swap [OF m _ get(1) _ get(2)]) (simp_all add: initialised_def)
  then show ?thesis using m by auto
qed

text \<open>
  A stamped map validates: storing the result of \<open>crc32_generate\<close> under the checksum
  identifier, which held nothing or an integer, makes \<open>crc32_validate\<close> accept the map,
  because the checksum skips that parameter and the comparison is on 32 bits.
\<close>

theorem VariantParamMap_crc_stamp:
  assumes "vm_built mx cs = Some m" and "0 < mx"
    and free: "get_param (ParamTuple c 0 0 0) m = None \<or> map_option vp_type (get_param (ParamTuple c 0 0 0) m) = Some DPT_INT"
    and gen: "crc32_generate crc mem c m = Some x"
  shows "crc32_validate crc mem c allow (set_int (ParamTuple c 0 0 0) (ucast x) m) = Some True"
proof -
  note inv = vm_reachable [OF assms(1,2)]
  let ?m = "set_int (ParamTuple c 0 0 0) (ucast x) m"
  have "crc32_generate crc mem c ?m = Some x"
    using gen checksum_bytes_set [OF inv(1), of "ParamTuple c 0 0 0" c] by (simp add: crc32_generate_def)
  moreover have "get_param (ParamTuple c 0 0 0) ?m =
      Some \<lparr>vp_max = mx, vp_data = U_i64 (ucast x), vp_type = DPT_INT, data_size = 8\<rparr>"
    using free inv get_param_ok [OF inv(1)]
    by (auto simp: set_int_def insert_then_lookup [OF vm_sorted [OF inv(1)]] vp_set_int_def
        VariantParam_new_def vp_ok_def split: option.splits)
  moreover have "ucast (ucast x :: c_long) = x" by (rule ucast_up_down_u32)
  ultimately show ?thesis by (simp add: crc32_validate_def as_int_def)
qed

theorem VariantParamMap_crc_stamp_witness:
  "\<exists>m. vm_built 256 [Set_int (ParamTuple (1::nat) 0 0 0) 5] = Some m \<and>
    crc32_validate (\<lambda>bs. of_nat (length bs)) (\<lambda>p n. []) 9 False (set_int (ParamTuple 9 0 0 0) (ucast (8 :: u32)) m) = Some True"
proof -
  obtain m where m: "vm_built 256 [Set_int (ParamTuple (1::nat) 0 0 0) 5] = Some m"
    and p: "params m = [(ParamTuple 1 0 0 0, \<lparr>vp_max = 256, vp_data = U_i64 5, vp_type = DPT_INT, data_size = 8\<rparr>)]"
    by (simp add: vm_built_def set_int_def insert_then_def om_update_def VariantParamMap_new_def VariantParam_new_def vp_set_int_def)
  have "crc32_validate (\<lambda>bs. of_nat (length bs)) (\<lambda>p n. []) 9 False (set_int (ParamTuple 9 0 0 0) (ucast (8 :: u32)) m) = Some True"
  proof (rule VariantParamMap_crc_stamp [OF m])
    show "get_param (ParamTuple 9 0 0 0) m = None \<or> map_option vp_type (get_param (ParamTuple 9 0 0 0) m) = Some DPT_INT"
      unfolding get_param_def p by simp
    show "crc32_generate (\<lambda>bs. of_nat (length bs)) (\<lambda>p n. []) 9 m = Some 8"
      unfolding crc32_generate_def p by (simp add: param_bytes_def le_bytes_def)
  qed simp
  then show ?thesis using m by blast
qed

text \<open>
  \<open>inc_int\<close> counts from the second call only: on an integer it adds with the wrap-around
  of 64 bits, but on a new key the amount is lost and the parameter has no value, so
  reading it is undefined.
\<close>

theorem VariantParamMap_inc_int:
  assumes "vm_built mx cs = Some m" and "0 < mx"
  shows "(get_param k m = None \<longrightarrow>
      (\<exists>m' v. inc_int k d m = Some m' \<and> get_param k m' = Some v \<and> as_uint64 v = None)) \<and>
    (\<forall>x. map_option vp_data (get_param k m) = Some (U_i64 x) \<longrightarrow>
      (\<exists>m' v. inc_int k d m = Some m' \<and> get_param k m' = Some v \<and> as_uint64 v = Some (x + d)))"
proof -
  note inv = vm_reachable [OF assms]
  have new: "\<exists>m' v. inc_int k d m = Some m' \<and> get_param k m' = Some v \<and> as_uint64 v = None"
    if "get_param k m = None"
    using that om_insert_lookup [OF vm_sorted [OF inv(1)]]
    by (simp add: inc_int_def get_param_def as_uint64_def VariantParam_new_def)
  have old: "\<exists>m' v. inc_int k d m = Some m' \<and> get_param k m' = Some v \<and> as_uint64 v = Some (x + d)"
    if "map_option vp_data (get_param k m) = Some (U_i64 x)" for x
  proof -
    obtain v where v: "get_param k m = Some v" "vp_data v = U_i64 x"
      using \<open>map_option vp_data (get_param k m) = Some (U_i64 x)\<close> by auto
    then have "vp_type v = DPT_INT" using get_param_ok [OF inv(1)] by (fastforce simp: vp_ok_def)
    then show ?thesis using v by (simp add: inc_int_def get_param_def om_update_lookup as_uint64_def)
  qed
  show ?thesis using new old by blast
qed

theorem VariantParamMap_inc_int_witness:
  "\<exists>m' v. inc_int (ParamTuple (1::nat) 0 0 0) 7 (VariantParamMap_new 256) = Some m' \<and>
    get_param (ParamTuple 1 0 0 0) m' = Some v \<and> as_uint64 v = None"
  using VariantParamMap_inc_int [of 256 "[]" "VariantParamMap_new 256" "ParamTuple (1::nat) 0 0 0" 7]
  by (simp add: vm_built_def get_param_def) (simp add: VariantParamMap_new_def)

end
