(* ===== verification/Threads.thy ===== *)
theory Threads
  imports Prelude
begin

text \<open>
  \<open>ThreadInfo\<close> and \<open>ThreadManager\<close> of \<^verbatim>\<open>src/utils/pmink_utils.cpp\<close>. Threads run
  \<open>start_wrapper\<close> while their manager may create others, stop them, or wait in \<open>stop\<close> for
  the count of running threads to be zero and delete their infos. Steps are the single
  accesses of the flags and of the counter, which are atomic. An info is named by a
  number, its address; \<open>live\<close> holds the infos not deleted. The routine of the user is one
  step of any length. Not modelled: the attributes and names given to the kernel.
\<close>

section \<open>State\<close>

record ThreadInfo =
  ti_name :: string
  ti_active :: bool
  cpu_core :: u16

definition ThreadInfo_new :: ThreadInfo where
  "ThreadInfo_new = \<lparr>ti_name = [], ti_active = False, cpu_core = 65535\<rparr>"

text \<open>What \<open>new_thread\<close> puts into the info; \<open>affinity\<close> tells whether the kernel took the core.\<close>

definition thread_info :: "string option \<Rightarrow> u16 \<Rightarrow> u16 \<Rightarrow> (u16 \<Rightarrow> bool) \<Rightarrow> ThreadInfo" where
  "thread_info nm core core_count affinity =
     (let ti = ThreadInfo_new;
          ti = (case nm of None \<Rightarrow> ti | Some n \<Rightarrow> if length n \<le> 15 then ti\<lparr>ti_name := n\<rparr> else ti)
      in if core \<noteq> 65535 \<and> core < core_count \<and> affinity core then ti\<lparr>cpu_core := core\<rparr> else ti)"

text \<open>Where a thread is in \<open>start_wrapper\<close>, and its manager in \<open>new_thread\<close> or \<open>stop\<close>.\<close>

datatype thread_pc = T_None | T_Created | T_Flagged | T_Running | T_Returned | T_Cleared | T_Done

datatype manager_pc = M_Idle | M_Adding nat | M_Waiting

record ThreadManager =
  tm_active :: bool
  core_count :: u16
  th_count :: u16
  threads :: "nat list"
  infos :: "nat \<Rightarrow> ThreadInfo"
  live :: "nat set"
  pcs :: "nat \<Rightarrow> thread_pc"
  manager :: manager_pc

definition ThreadManager_new :: "u16 \<Rightarrow> ThreadManager" where
  "ThreadManager_new cores =
     \<lparr>tm_active = True, core_count = cores, th_count = 0, threads = [], infos = (\<lambda>_. ThreadInfo_new),
      live = {}, pcs = (\<lambda>_. T_None), manager = M_Idle\<rparr>"

definition set_active :: "bool \<Rightarrow> nat \<Rightarrow> ThreadManager \<Rightarrow> ThreadManager" where
  "set_active b t m = m\<lparr>infos := (infos m)(t := (infos m t)\<lparr>ti_active := b\<rparr>)\<rparr>"

section \<open>Operations of the manager\<close>

definition ti_is_active :: "ThreadManager \<Rightarrow> nat \<Rightarrow> bool" where
  "ti_is_active m t \<longleftrightarrow> ti_active (infos m t) \<and> tm_active m"

definition get_thread :: "nat \<Rightarrow> ThreadManager \<Rightarrow> nat option" where
  "get_thread i m = (if i < length (threads m) then Some (threads m ! i) else None)"

definition stop_thread :: "nat \<Rightarrow> ThreadManager \<Rightarrow> c_int \<times> ThreadManager" where
  "stop_thread i m =
     (if i < length (threads m) then (0, set_active False (threads m ! i) m) else (1, m))"

definition tm_start :: "ThreadManager \<Rightarrow> ThreadManager" where
  "tm_start m = m\<lparr>tm_active := True\<rparr>"

definition stop_flag :: "bool \<Rightarrow> ThreadManager \<Rightarrow> ThreadManager" where
  "stop_flag set_only m = m\<lparr>tm_active := False, manager := (if set_only then M_Idle else M_Waiting)\<rparr>"

definition stop_finish :: "ThreadManager \<Rightarrow> ThreadManager" where
  "stop_finish m = m\<lparr>live := live m - set (threads m), threads := [], manager := M_Idle\<rparr>"

section \<open>Steps\<close>

text \<open>
  The flag \<open>patient\<close> says that \<open>stop\<close> is only called to its end when all threads created
  have counted themselves, which the code does not ensure.
\<close>

inductive tm_step :: "bool \<Rightarrow> ThreadManager \<Rightarrow> ThreadManager \<Rightarrow> bool" for patient where
  thread_create:
    "manager m = M_Idle \<Longrightarrow> pcs m t = T_None \<Longrightarrow>
      tm_step patient m (m\<lparr>infos := (infos m)(t := thread_info nm core (core_count m) affinity), live := insert t (live m),
        pcs := (pcs m)(t := T_Created), manager := M_Adding t\<rparr>)"
| thread_add:
    "manager m = M_Adding t \<Longrightarrow> tm_step patient m (m\<lparr>threads := threads m @ [t], manager := M_Idle\<rparr>)"
| wrapper_flag:
    "pcs m t = T_Created \<Longrightarrow> tm_step patient m ((set_active True t m)\<lparr>pcs := (pcs m)(t := T_Flagged)\<rparr>)"
| wrapper_inc:
    "pcs m t = T_Flagged \<Longrightarrow> tm_step patient m (m\<lparr>th_count := th_count m + 1, pcs := (pcs m)(t := T_Running)\<rparr>)"
| wrapper_return:
    "pcs m t = T_Running \<Longrightarrow> tm_step patient m (m\<lparr>pcs := (pcs m)(t := T_Returned)\<rparr>)"
| wrapper_clear:
    "pcs m t = T_Returned \<Longrightarrow> tm_step patient m ((set_active False t m)\<lparr>pcs := (pcs m)(t := T_Cleared)\<rparr>)"
| wrapper_dec:
    "pcs m t = T_Cleared \<Longrightarrow> tm_step patient m (m\<lparr>th_count := th_count m - 1, pcs := (pcs m)(t := T_Done)\<rparr>)"
| manager_stop_thread:
    "manager m = M_Idle \<Longrightarrow> tm_step patient m (snd (stop_thread i m))"
| manager_start:
    "manager m = M_Idle \<Longrightarrow> tm_step patient m (tm_start m)"
| manager_stop:
    "manager m = M_Idle \<Longrightarrow> tm_step patient m (stop_flag set_only m)"
| manager_stop_done:
    "manager m = M_Waiting \<Longrightarrow> th_count m = 0 \<Longrightarrow>
      (patient \<Longrightarrow> \<forall>t. pcs m t \<noteq> T_Created \<and> pcs m t \<noteq> T_Flagged) \<Longrightarrow> tm_step patient m (stop_finish m)"

inductive tm_steps :: "bool \<Rightarrow> ThreadManager \<Rightarrow> ThreadManager \<Rightarrow> bool" for patient where
  tm_refl: "tm_steps patient m m"
| tm_trans: "tm_steps patient m m' \<Longrightarrow> tm_step patient m' m'' \<Longrightarrow> tm_steps patient m m''"

inductive_cases tm_stepE: "tm_step patient m m'"

section \<open>Invariant\<close>

text \<open>Threads between their increment and their decrement of the counter.\<close>

definition counted :: "thread_pc \<Rightarrow> bool" where
  "counted p \<longleftrightarrow> p = T_Running \<or> p = T_Returned \<or> p = T_Cleared"

definition created :: "ThreadManager \<Rightarrow> nat set" where
  "created m = {t. pcs m t \<noteq> T_None}"

text \<open>A thread that has not finished will still use its info.\<close>

definition infos_safe :: "ThreadManager \<Rightarrow> bool" where
  "infos_safe m \<longleftrightarrow> (\<forall>t. pcs m t \<noteq> T_None \<and> pcs m t \<noteq> T_Done \<longrightarrow> t \<in> live m)"

definition tm_inv :: "ThreadManager \<Rightarrow> bool" where
  "tm_inv m \<longleftrightarrow> finite (created m) \<and> th_count m = of_nat (card {t. counted (pcs m t)}) \<and>
     set (threads m) \<subseteq> created m \<and> live m \<subseteq> created m \<and> (\<forall>t. manager m = M_Adding t \<longrightarrow> t \<in> created m)"

lemma set_active_simps [simp]:
  "tm_active (set_active b t m) = tm_active m" "th_count (set_active b t m) = th_count m" "threads (set_active b t m) = threads m"
  "live (set_active b t m) = live m" "pcs (set_active b t m) = pcs m" "manager (set_active b t m) = manager m"
  by (simp_all add: set_active_def)

lemma stop_thread_simps [simp]:
  "th_count (snd (stop_thread i m)) = th_count m" "threads (snd (stop_thread i m)) = threads m"
  "live (snd (stop_thread i m)) = live m" "pcs (snd (stop_thread i m)) = pcs m" "manager (snd (stop_thread i m)) = manager m"
  by (simp_all add: stop_thread_def)

lemma counted_finite: "finite (created m) \<Longrightarrow> finite {t. counted (pcs m t)}"
  by (erule rev_finite_subset) (auto simp: created_def counted_def)

text \<open>Moving one thread.\<close>

lemma counted_update:
  "{t'. counted (((pcs m)(t := p)) t')} = (if counted p then insert t {t'. counted (pcs m t')} else {t'. counted (pcs m t')} - {t})"
  by auto

lemma created_update: "p \<noteq> T_None \<Longrightarrow> {t'. ((pcs m)(t := p)) t' \<noteq> T_None} = insert t (created m)"
  by (auto simp: created_def)

lemma counted_simps [simp]:
  "\<not> counted T_None" "\<not> counted T_Created" "\<not> counted T_Flagged" "counted T_Running" "counted T_Returned" "counted T_Cleared"
  "\<not> counted T_Done"
  by (simp_all add: counted_def)

lemma tm_step_inv:
  assumes "tm_step patient m m'" "tm_inv m"
  shows "tm_inv m'" "created m \<subseteq> created m'"
proof -
  let ?C = "{t. counted (pcs m t)}"
  have fin: "finite (created m)" "finite ?C" and n: "th_count m = of_nat (card ?C)"
    and sub: "set (threads m) \<subseteq> created m" "live m \<subseteq> created m" "\<And>t. manager m = M_Adding t \<Longrightarrow> t \<in> created m"
    using assms(2) counted_finite by (auto simp: tm_inv_def)
  have keep: "tm_inv m1 \<and> created m \<subseteq> created m1"
    if "pcs m1 = pcs m" "th_count m1 = th_count m" "set (threads m1) \<subseteq> created m" "live m1 \<subseteq> created m"
      "manager m1 = manager m \<or> (\<forall>t. manager m1 \<noteq> M_Adding t)" for m1
    using that fin n sub(3) by (auto simp: tm_inv_def created_def)
  have move: "tm_inv m1 \<and> created m \<subseteq> created m1"
    if "pcs m1 = (pcs m)(t := p)" "p \<noteq> T_None" "pcs m t \<noteq> T_None" "th_count m1 = of_nat (card {t'. counted (pcs m1 t')})"
      "threads m1 = threads m" "live m1 = live m" "manager m1 = manager m" for m1 t p
  proof -
    have "created m1 = created m" using that(1-3) by (auto simp: created_def)
    then show ?thesis using that(4-7) fin sub by (simp add: tm_inv_def)
  qed
  have "tm_inv m' \<and> created m \<subseteq> created m'"
    using assms(1)
  proof cases
    case (thread_create t nm core affinity)
    have "created m' = insert t (created m)" using thread_create by (auto simp: created_def)
    moreover have "{t'. counted (pcs m' t')} = ?C" using thread_create by auto
    ultimately show ?thesis using thread_create fin n sub by (auto simp: tm_inv_def)
  next
    case (thread_add t)
    then show ?thesis using sub by (intro keep) auto
  next
    case (wrapper_flag t)
    then have "{t'. counted (pcs m' t')} = ?C" by auto
    then show ?thesis using wrapper_flag n by (intro move [of _ t T_Flagged]) auto
  next
    case (wrapper_inc t)
    then have "{t'. counted (pcs m' t')} = insert t ?C" "t \<notin> ?C" by auto
    then show ?thesis using wrapper_inc n fin by (intro move [of _ t T_Running]) auto
  next
    case (wrapper_return t)
    then have "{t'. counted (pcs m' t')} = ?C" by auto
    then show ?thesis using wrapper_return n by (intro move [of _ t T_Returned]) auto
  next
    case (wrapper_clear t)
    then have "{t'. counted (pcs m' t')} = ?C" by auto
    then show ?thesis using wrapper_clear n by (intro move [of _ t T_Cleared]) auto
  next
    case (wrapper_dec t)
    have c: "{t'. counted (pcs m' t')} = ?C - {t}" using wrapper_dec by auto
    have t: "t \<in> ?C" using wrapper_dec by simp
    have "card ?C = Suc (card (?C - {t}))" using fin(2) t by (rule card.remove)
    then have "th_count m' = of_nat (card {t'. counted (pcs m' t')})" using wrapper_dec n c by simp
    then show ?thesis using wrapper_dec by (intro move [of _ t T_Done]) auto
  next
    case (manager_stop_thread i)
    then show ?thesis using sub by (intro keep) auto
  next
    case manager_start
    then show ?thesis using sub by (intro keep) (auto simp: tm_start_def)
  next
    case (manager_stop set_only)
    then show ?thesis using sub by (intro keep) (auto simp: stop_flag_def)
  next
    case manager_stop_done
    then show ?thesis using sub by (intro keep) (auto simp: stop_finish_def)
  qed
  then show "tm_inv m'" "created m \<subseteq> created m'" by auto
qed

lemma tm_step_safe:
  assumes "tm_step True m m'" "tm_inv m" "infos_safe m" "card (created m) < 2 ^ 16"
  shows "infos_safe m'"
  using assms(1)
proof cases
  case manager_stop_done
  have "card {t. counted (pcs m t)} \<le> card (created m)"
    using assms(2) by (intro card_mono) (auto simp: tm_inv_def created_def counted_def)
  moreover have "of_nat (card {t. counted (pcs m t)}) = (0 :: u16)"
    using manager_stop_done assms(2) by (simp add: tm_inv_def)
  ultimately have "card {t. counted (pcs m t)} = 0"
    using assms(4) unat_of_nat [where 'a = 16, of "card {t. counted (pcs m t)}"] by simp
  moreover have "finite {t. counted (pcs m t)}" using assms(2) counted_finite by (simp add: tm_inv_def)
  ultimately have nc: "\<not> counted (pcs m t)" for t by auto
  have "pcs m t = T_None \<or> pcs m t = T_Done" for t
  proof -
    have "pcs m t \<noteq> T_Created \<and> pcs m t \<noteq> T_Flagged" using manager_stop_done by blast
    with nc [of t] show ?thesis by (cases "pcs m t") simp_all
  qed
  then show ?thesis using manager_stop_done(1) by (auto simp: infos_safe_def stop_finish_def)
qed (use assms(3) in \<open>auto simp: infos_safe_def tm_start_def stop_flag_def\<close>)

lemma tm_reachable:
  assumes "tm_steps patient (ThreadManager_new cores) m"
  shows "tm_inv m" "patient \<Longrightarrow> card (created m) < 2 ^ 16 \<Longrightarrow> infos_safe m"
proof -
  have "tm_inv m \<and> (patient \<longrightarrow> card (created m) < 2 ^ 16 \<longrightarrow> infos_safe m)"
    using assms
  proof (induction "ThreadManager_new cores" m rule: tm_steps.induct)
    case tm_refl
    then show ?case by (simp add: tm_inv_def infos_safe_def created_def ThreadManager_new_def)
  next
    case (tm_trans m m')
    have "tm_inv m" using tm_trans by blast
    note i = tm_step_inv [OF tm_trans(3) this]
    have "card (created m) \<le> card (created m')" using i by (intro card_mono) (auto simp: tm_inv_def)
    moreover have "infos_safe m'" if "patient" "infos_safe m" "card (created m) < 2 ^ 16"
      using tm_step_safe [of m m'] tm_trans(3) \<open>tm_inv m\<close> that by simp
    ultimately show ?case using tm_trans(2) i(1) by auto
  qed
  then show "tm_inv m" "patient \<Longrightarrow> card (created m) < 2 ^ 16 \<Longrightarrow> infos_safe m" by auto
qed

section \<open>Properties\<close>

text \<open>
  C37. Stopping threads: the counter of a manager is the number of threads between their
  increment and their decrement of it (modulo \<open>2 ^ 16\<close>). If \<open>stop\<close> finishes only when every
  thread created has counted itself, no thread ever uses a deleted info, with fewer than
  \<open>2 ^ 16\<close> threads. The code does not wait for that: \<open>stop\<close> right after \<open>new_thread\<close> can
  delete the info of a thread that is about to start.
\<close>

theorem ThreadManager_stop:
  assumes "tm_steps patient (ThreadManager_new cores) m"
  shows "th_count m = of_nat (card {t. counted (pcs m t)}) \<and>
    (patient \<and> card (created m) < 2 ^ 16 \<longrightarrow> infos_safe m) \<and>
    (\<exists>m'. tm_steps False (ThreadManager_new cores) m' \<and> threads m' = [] \<and> pcs m' 0 = T_Created \<and> 0 \<notin> live m')"
proof -
  define m0 where "m0 = ThreadManager_new cores"
  define m1 where "m1 = m0\<lparr>infos := (infos m0)(0 := thread_info None 65535 (core_count m0) (\<lambda>_. True)), live := insert 0 (live m0),
    pcs := (pcs m0)(0 := T_Created), manager := M_Adding 0\<rparr>"
  define m2 where "m2 = m1\<lparr>threads := threads m1 @ [0], manager := M_Idle\<rparr>"
  define m3 where "m3 = stop_flag False m2"
  note defs = m0_def m1_def m2_def m3_def ThreadManager_new_def stop_flag_def
  have "tm_step False m0 m1" unfolding m1_def by (rule thread_create) (simp_all add: defs)
  moreover have "tm_step False m1 m2" unfolding m2_def by (rule thread_add) (simp add: defs)
  moreover have "tm_step False m2 m3" unfolding m3_def by (rule manager_stop) (simp add: defs)
  moreover have "tm_step False m3 (stop_finish m3)" by (rule manager_stop_done) (simp_all add: defs)
  ultimately have "tm_steps False m0 (stop_finish m3)" by (meson tm_steps.intros)
  moreover have "threads (stop_finish m3) = []" "pcs (stop_finish m3) 0 = T_Created" "0 \<notin> live (stop_finish m3)"
    by (simp_all add: stop_finish_def defs)
  ultimately show ?thesis using tm_reachable [OF assms] unfolding m0_def tm_inv_def by blast
qed

theorem ThreadManager_stop_witness:
  "\<exists>m. tm_steps True (ThreadManager_new 4) m \<and> pcs m 0 = T_Running \<and> threads m = [0] \<and> th_count m = 1 \<and> infos_safe m"
proof -
  define m0 where "m0 = ThreadManager_new 4"
  define m1 where "m1 = m0\<lparr>infos := (infos m0)(0 := thread_info None 2 (core_count m0) (\<lambda>_. True)), live := insert 0 (live m0),
    pcs := (pcs m0)(0 := T_Created), manager := M_Adding 0\<rparr>"
  define m2 where "m2 = (set_active True 0 m1)\<lparr>pcs := (pcs m1)(0 := T_Flagged)\<rparr>"
  define m3 where "m3 = m2\<lparr>th_count := th_count m2 + 1, pcs := (pcs m2)(0 := T_Running)\<rparr>"
  define m4 where "m4 = m3\<lparr>threads := threads m3 @ [0], manager := M_Idle\<rparr>"
  note defs = m0_def m1_def m2_def m3_def m4_def ThreadManager_new_def
  have "tm_step True m0 m1" unfolding m1_def by (rule thread_create) (simp_all add: defs)
  moreover have "tm_step True m1 m2" unfolding m2_def by (rule wrapper_flag) (simp add: defs)
  moreover have "tm_step True m2 m3" unfolding m3_def by (rule wrapper_inc) (simp add: defs)
  moreover have "tm_step True m3 m4" unfolding m4_def by (rule thread_add) (simp add: defs)
  ultimately have steps: "tm_steps True m0 m4" by (meson tm_steps.intros)
  have "created m4 = {0}" "pcs m4 0 = T_Running" "threads m4 = [0]" "th_count m4 = 1"
    by (auto simp: created_def defs)
  with ThreadManager_stop [OF steps [unfolded m0_def]] steps show ?thesis unfolding m0_def by auto
qed

end
