(* ===== verification/Asn1_Integer.thy ===== *)
theory Asn1_Integer
  imports Outcome
begin

text \<open>
  Integers in messages: \<open>bits_required\<close>, \<open>bytes_required\<close>, \<open>num_of_digits\<close> and the hash
  functions of \<^verbatim>\<open>src/utils/pmink_utils.cpp\<close>, \<open>prepare_int\<close> and \<open>decode_int\<close> of
  \<^verbatim>\<open>src/asn1/asn1.cpp\<close>. Logarithms of doubles are exact on 32-bit arguments; the logarithm of
  zero is \<open>Undefined\<close>, as is a shift by the width or more.
\<close>

section \<open>Sizes\<close>

definition bits_required :: "u32 \<Rightarrow> nat outcome" where
  "bits_required input = guard (input + 1 \<noteq> 0) (Returns (ceil_log2 (unat (input + 1))))"

definition bytes_required :: "u32 \<Rightarrow> nat outcome" where
  "bytes_required input = and_then (bits_required input) (\<lambda>b. Returns ((b + 7) div 8))"

fun floor_log10 :: "nat \<Rightarrow> nat" where
  "floor_log10 n = (if n < 10 then 0 else Suc (floor_log10 (n div 10)))"

declare floor_log10.simps [simp del]

definition num_of_digits :: "u32 \<Rightarrow> nat" where
  "num_of_digits input = (if input > 0 then floor_log10 (unat input) + 1 else 1)"

section \<open>Integers\<close>

text \<open>The memory of a 32-bit integer on the little-endian target, and \<open>htobe32\<close>, which swaps it.\<close>

definition le_bytes32 :: "u32 \<Rightarrow> u8 list" where
  "le_bytes32 x = map (\<lambda>i. ucast (drop_bit (8 * i) x)) [0..<4]"

definition htobe32 :: "u32 \<Rightarrow> u32" where
  "htobe32 x = ucast (le_word (rev (le_bytes32 x)))"

text \<open>The integer to copy from, and how many octets of it are meant (\<open>req_bytes\<close>).\<close>

definition prepare_int :: "u32 \<Rightarrow> c_int \<Rightarrow> (u32 \<times> nat) outcome" where
  "prepare_int val req_b_override =
     and_then (if req_b_override = - 1 then bytes_required val else Returns (unat req_b_override)) (\<lambda>req_bytes.
     guard (1 \<le> req_bytes \<and> req_bytes \<le> 4)
       (let val = push_bit ((4 - req_bytes) * 8) val;
            req_bytes = (if req_bytes = 0 then 1 else req_bytes)
        in Returns (htobe32 val, req_bytes)))"

definition decode_int :: "u8 list \<Rightarrow> nat \<Rightarrow> nat \<Rightarrow> u64 outcome" where
  "decode_int mem p data_length =
     (if data_length > 8 then Returns 0
      else and_then (read_bytes mem p data_length) (\<lambda>bs.
        guard (data_length \<ge> 1) (Returns (be64toh (push_bit ((8 - data_length) * 8) (le_word bs))))))"

section \<open>Hashes\<close>

definition hash_fnv :: "u8 list option \<Rightarrow> u32" where
  "hash_fnv key = (case key of None \<Rightarrow> 0 | Some p \<Rightarrow> foldl (\<lambda>h b. (h * 16777619) XOR ucast b) 2166136261 p)"

definition hash_fnv1a :: "u8 list option \<Rightarrow> u32" where
  "hash_fnv1a key = (case key of None \<Rightarrow> 0 | Some p \<Rightarrow> foldl (\<lambda>h b. (h XOR ucast b) * 16777619) 2166136261 p)"

definition hash_fnv1a_64bit :: "u8 list option \<Rightarrow> u64" where
  "hash_fnv1a_64bit key =
     (case key of None \<Rightarrow> 0
      | Some p \<Rightarrow> foldl (\<lambda>h b. (h XOR ucast b) * 1099511628211) 14695981039346656037 p)"

section \<open>Bits of octets\<close>

lemma bit_le_word:
  "bit (le_word bs) i \<longleftrightarrow> i < 64 \<and> i div 8 < length bs \<and> bit (bs ! (i div 8)) (i mod 8)"
proof (induction bs arbitrary: i)
  case (Cons b bs)
  show ?case
  proof (cases "i < 8")
    case True
    then show ?thesis by (simp add: bit_simps)
  next
    case False
    then have "i div 8 = Suc ((i - 8) div 8)" "i mod 8 = (i - 8) mod 8" by (simp_all add: div_if mod_if)
    then show ?thesis using False Cons.IH [of "i - 8"] bit_imp_le_length [of b i]
      by (auto simp: bit_simps)
  qed
qed simp

lemma nth_range: "k < n \<Longrightarrow> [0..<n] ! k = k"
  by simp

lemma bit_be64toh: "bit (be64toh x) i \<longleftrightarrow> i < 64 \<and> bit x (8 * (7 - i div 8) + i mod 8)"
proof -
  have "rev (le_bytes x) ! (i div 8) = ucast (drop_bit (8 * (7 - i div 8)) x)" if "i < 64"
    using that nth_range [of "7 - i div 8" 8] by (simp only: le_bytes_def rev_nth length_map length_upt nth_map) (simp add: le_less_trans [OF diff_le_self])
  then show ?thesis by (auto simp: be64toh_def bit_le_word bit_simps le_bytes_def)
qed

lemma bit_htobe32: "bit (htobe32 x) i \<longleftrightarrow> i < 32 \<and> bit x (8 * (3 - i div 8) + i mod 8)"
proof -
  have "rev (le_bytes32 x) ! (i div 8) = ucast (drop_bit (8 * (3 - i div 8)) x)" if "i < 32"
    using that nth_range [of "3 - i div 8" 4] by (simp add: le_bytes32_def rev_nth)
  then show ?thesis by (auto simp: htobe32_def bit_le_word bit_simps le_bytes32_def)
qed

lemma bit_above: "unat (x::u32) < 2 ^ k \<Longrightarrow> bit x i \<Longrightarrow> i < k"
proof (rule ccontr)
  assume x: "unat x < 2 ^ k" "bit x i" "\<not> i < k"
  have "bit (unat x) i" using x(2) bit_imp_le_length [OF x(2)] by (simp add: bit_unsigned_iff)
  then have "unat x div 2 ^ i \<noteq> 0" by (metis bit_iff_odd even_zero)
  then have "2 ^ i \<le> unat x" by (simp add: div_eq_0_iff)
  moreover have "(2::nat) ^ k \<le> 2 ^ i" using x(3) by (intro power_increasing) auto
  ultimately show False using x(1) by simp
qed

lemma bytes_required_bounds:
  assumes "bytes_required val = Returns n" "val \<noteq> 0"
  shows "256 ^ (n - 1) \<le> unat val" "unat val < 256 ^ n" "1 \<le> n" "n \<le> 4"
proof -
  let ?b = "ceil_log2 (unat (val + 1))"
  have ne: "val + 1 \<noteq> 0" and n: "n = (?b + 7) div 8"
    using assms(1) by (auto simp: bytes_required_def bits_required_def guard_def split: if_splits)
  have u: "unat (val + 1) = unat val + 1" using ne unatSuc [of val] by (simp add: add.commute)
  have pos: "0 < unat val" using assms(2) by (simp add: unat_gt_0)
  have up: "unat val + 1 \<le> 2 ^ ?b" using ceil_log2_upper u by metis
  have b1: "1 \<le> ?b" using up pos by (cases ?b) auto
  have low: "2 ^ (?b - 1) < unat val + 1" using ceil_log2_le_iff [of "unat (val + 1)" "?b - 1"] b1 u by auto
  have pw: "(256::nat) ^ k = 2 ^ (8 * k)" for k by (simp add: power_mult)
  have "(2::nat) ^ (8 * (n - 1)) \<le> 2 ^ (?b - 1)" using b1 unfolding n by (intro power_increasing) auto
  then show "256 ^ (n - 1) \<le> unat val" using low by (simp only: pw)
  have "(2::nat) ^ ?b \<le> 2 ^ (8 * n)" unfolding n by (intro power_increasing) auto
  then show "unat val < 256 ^ n" using up by (simp only: pw)
  show "1 \<le> n" using b1 n by simp
  have "unat (val + 1) \<le> 2 ^ 32" using unat_lt_exp [of "val + 1"] by simp
  then have "?b \<le> 32" by (rule ceil_log2_least)
  then show "n \<le> 4" using n by simp
qed

section \<open>Properties\<close>

text \<open>
  C35. Integers survive: the \<open>req_bytes\<close> octets of what \<open>prepare_int\<close> returns are the number in
  big-endian order, with the least number of octets or any larger one up to four that
  was asked for, and \<open>decode_int\<close> reads it back from anywhere in a buffer. Zero and
  \<open>2 ^ 32 - 1\<close> are undefined without an override.
\<close>

theorem prepare_int_roundtrip:
  assumes "prepare_int val req_b_override = Returns (w, n)" "req_b_override = - 1 \<or> unat val < 256 ^ unat req_b_override"
  shows "decode_int (pre @ take n (le_bytes32 w) @ post) (length pre) n = Returns (ucast val) \<and>
    (req_b_override = - 1 \<longrightarrow> 256 ^ (n - 1) \<le> unat val \<and> unat val < 256 ^ n) \<and>
    prepare_int 0 (- 1) = Undefined \<and> prepare_int (- 1) (- 1) = Undefined"
proof -
  have val0: "prepare_int 0 (- 1) = Undefined" "prepare_int (- 1) (- 1) = Undefined" by code_simp+
  have n: "1 \<le> n" "n \<le> 4" and w: "w = htobe32 (push_bit ((4 - n) * 8) val)"
    using assms(1) by (auto simp: prepare_int_def guard_def and_then_Returns_iff Let_def split: if_splits)
  have auto: "256 ^ (n - 1) \<le> unat val \<and> unat val < 256 ^ n" if "req_b_override = - 1"
  proof -
    have b: "bytes_required val = Returns n"
      using assms(1) that by (auto simp: prepare_int_def guard_def and_then_Returns_iff Let_def split: if_splits)
    have "val \<noteq> 0" using b n(1) by (auto simp: bytes_required_def bits_required_def)
    then show ?thesis using bytes_required_bounds [OF b] by blast
  qed
  have "unat val < 256 ^ n"
  proof (cases "req_b_override = - 1")
    case False
    then have "n = unat req_b_override"
      using assms(1) by (auto simp: prepare_int_def guard_def and_then_Returns_iff Let_def split: if_splits)
    then show ?thesis using assms(2) False by simp
  qed (use auto in blast)
  then have above: "bit val i \<Longrightarrow> i < 8 * n" for i using bit_above [of val "8 * n"] by (simp add: power_mult)
  let ?bs = "take n (le_bytes32 w)"
  have len: "length ?bs = n" using n by (simp add: le_bytes32_def)
  have "be64toh (push_bit ((8 - n) * 8) (le_word ?bs)) = ucast val"
  proof (rule bit_word_eqI)
    fix i
    assume "i < LENGTH(64)"
    then have i: "i < 64" by simp
    let ?j = "8 * (7 - i div 8) + i mod 8"
    show "bit (be64toh (push_bit ((8 - n) * 8) (le_word ?bs))) i = bit (ucast val :: u64) i"
    proof (cases "i div 8 < n")
      case True
      define k where "k = n - 1 - i div 8"
      have j: "?j - (8 - n) * 8 = 8 * k + i mod 8" "(8 - n) * 8 \<le> ?j" "k < n" "?j < 64" "8 * k + i mod 8 < 64"
        using True n i by (auto simp: k_def)
      have "bit (be64toh (push_bit ((8 - n) * 8) (le_word ?bs))) i = bit (?bs ! k) (i mod 8)"
        using i j n len by (simp add: bit_be64toh bit_le_word bit_push_bit_iff)
      also have "?bs ! k = ucast (drop_bit (8 * k) w)" using j(3) n nth_upt [of 0 k 4] by (simp add: le_bytes32_def del: nth_upt)
      also have "bit (ucast (drop_bit (8 * k) w) :: u8) (i mod 8) = bit w (8 * k + i mod 8)" by (simp add: bit_simps)
      also have "\<dots> = bit val i"
      proof -
        have "(8 * k + i mod 8) div 8 = k" "(8 * k + i mod 8) mod 8 = i mod 8" by simp_all
        moreover have "8 * k + i mod 8 < 32" "(4 - n) * 8 \<le> 8 * (3 - k) + i mod 8" "8 * (3 - k) + i mod 8 < 32"
          using j(3) n by auto
        moreover have "8 * (3 - k) + i mod 8 - (4 - n) * 8 = i"
        proof -
          have "3 - k = (4 - n) + i div 8" using True n by (simp add: k_def)
          then show ?thesis by (simp add: algebra_simps)
        qed
        ultimately show ?thesis by (simp add: w bit_htobe32 bit_push_bit_iff)
      qed
      finally show ?thesis using i True n by (simp add: bit_simps)
    next
      case False
      then have "\<not> bit val i" using above [of i] by auto
      moreover have "\<not> bit (be64toh (push_bit ((8 - n) * 8) (le_word ?bs))) i"
        using False i n len by (auto simp: bit_be64toh bit_push_bit_iff)
      ultimately show ?thesis by (simp add: bit_simps)
    qed
  qed
  then have "decode_int (pre @ ?bs @ post) (length pre) n = Returns (ucast val)"
    using n len read_bytes_middle [OF refl len [symmetric], of pre post] by (simp add: decode_int_def)
  then show ?thesis using auto val0 by blast
qed

theorem prepare_int_roundtrip_witness:
  "decode_int ([9] @ take 2 (le_bytes32 0x2c01) @ [7]) 1 2 = Returns 300"
proof -
  have p: "prepare_int 300 (- 1) = Returns (0x2c01, 2)" by code_simp
  from prepare_int_roundtrip [OF p disjI1 [OF refl], of "[9]" "[7]"] show ?thesis by simp
qed

end
