(* ===== verification/Oid.thy ===== *)
theory Oid
  imports Asn1_Integer "HOL-Library.Char_ord"
begin

text \<open>
  Object identifiers, \<^verbatim>\<open>src/utils/pmink_utils.cpp\<close>: the text with dots and the octets of the
  nodes, seven bits each. \<open>atoi\<close>, \<open>strtok_r\<close> and \<open>sprintf\<close> are written out as far as the code
  uses them. \<open>strtok_r\<close> also destroys its input, which is not modelled.
\<close>

section \<open>Text\<close>

definition digit :: "nat \<Rightarrow> char" where
  "digit d = char_of (48 + d)"

fun show_nat :: "nat \<Rightarrow> string" where
  "show_nat n = (if n < 10 then [digit n] else show_nat (n div 10) @ [digit (n mod 10)])"

declare show_nat.simps [simp del]

text \<open>\<open>%d\<close>\<close>

definition show_int :: "c_int \<Rightarrow> string" where
  "show_int i = (if sint i < 0 then CHR ''-'' # show_nat (nat (- sint i)) else show_nat (nat (sint i)))"

definition is_digit :: "char \<Rightarrow> bool" where
  "is_digit c \<longleftrightarrow> 48 \<le> (of_char c :: nat) \<and> (of_char c :: nat) \<le> 57"

definition is_space :: "char \<Rightarrow> bool" where
  "is_space c \<longleftrightarrow> of_char c = (32::nat) \<or> 9 \<le> (of_char c :: nat) \<and> (of_char c :: nat) \<le> 13"

definition digits_value :: "string \<Rightarrow> nat" where
  "digits_value s = foldl (\<lambda>a c. a * 10 + (of_char c - 48)) 0 (takeWhile is_digit s)"

definition atoi :: "string \<Rightarrow> c_int outcome" where
  "atoi s =
     (let s = dropWhile is_space s;
          i = (case s of
                 [] \<Rightarrow> 0
               | c # cs \<Rightarrow>
                   if c = CHR ''-'' then - int (digits_value cs)
                   else if c = CHR ''+'' then int (digits_value cs) else int (digits_value s))
      in guard (- (2 ^ 31) \<le> i \<and> i < 2 ^ 31) (Returns (word_of_int i)))"

text \<open>The tokens \<open>strtok_r\<close> finds: the non-empty runs without dots. \<open>acc\<close> is the current run.\<close>

fun split_dots :: "string \<Rightarrow> string \<Rightarrow> string list" where
  "split_dots acc [] = (if acc = [] then [] else [acc])"
| "split_dots acc (c # cs) =
     (if c = CHR ''.'' then (if acc = [] then split_dots [] cs else acc # split_dots [] cs)
      else split_dots (acc @ [c]) cs)"

section \<open>Nodes\<close>

definition oid_encode_node :: "u32 \<Rightarrow> u8 list outcome" where
  "oid_encode_node val =
     (if val < 128 then Returns [ucast val]
      else and_then (bits_required val) (\<lambda>rb.
        let rB = (rb + 6) div 7
        in Returns (map (\<lambda>i. 0x80 OR ucast (drop_bit ((rB - 1 - i) * 8 - (rB - 1 - i)) val)) [0..<rB - 1] @
             [ucast (val AND 0x7f)])))"

text \<open>
  The loop over the octets after the first: \<open>p + bc\<close> goes down by seven, and is negative
  from the fifth octet on.
\<close>

fun oid_sequential :: "u8 list \<Rightarrow> u32 \<Rightarrow> int \<Rightarrow> nat \<Rightarrow> (u32 \<times> nat) outcome" where
  "oid_sequential [] n p bc = Undefined"
| "oid_sequential (b # bs) n p bc =
     guard (0 \<le> p + int bc \<and> p + int bc < 32)
       (let n = n OR push_bit (nat (p + int bc)) (ucast (b AND 0x7f)); bc = bc + 1; p = p - 8
        in if b AND 0x80 = 0x80 then oid_sequential bs n p bc else Returns (n, bc))"

text \<open>The number of a node and how many octets it has.\<close>

definition oid_node_value :: "u8 list \<Rightarrow> (u32 \<times> nat) outcome" where
  "oid_node_value data =
     (case data of
        [] \<Rightarrow> Undefined
      | b # bs \<Rightarrow>
          (if b AND 0x80 \<noteq> 0x80 then Returns (ucast b, 1)
           else and_then (oid_sequential bs (push_bit 24 (ucast (b AND 0x7f))) 16 1) (\<lambda>(n, bc).
             guard (bc \<le> 4) (Returns (drop_bit (32 - bc * 8 + (bc - 1)) n, bc)))))"

definition oid_decode_node :: "u8 list \<Rightarrow> bool \<Rightarrow> bool \<Rightarrow> (string \<times> nat) outcome" where
  "oid_decode_node data is_first absolute =
     and_then (oid_node_value data) (\<lambda>(n, k).
     Returns
       (if is_first \<and> absolute then show_int (n div 40) @ ''.'' @ show_int (n mod 40) @ ''.'' else show_int n @ ''.'', k))"

section \<open>Identifiers\<close>

primrec oid_decode_loop :: "nat \<Rightarrow> u8 list \<Rightarrow> nat \<Rightarrow> nat \<Rightarrow> bool \<Rightarrow> bool \<Rightarrow> string outcome" where
  "oid_decode_loop 0 mem p data_end is_first absolute = OutOfFuel"
| "oid_decode_loop (Suc fuel) mem p data_end is_first absolute =
     (if \<not> p < data_end then Returns []
      else and_then (oid_decode_node (drop p mem) is_first absolute) (\<lambda>(text, k).
        and_then (oid_decode_loop fuel mem (p + k) data_end False absolute) (\<lambda>rest. Returns (text @ rest))))"

text \<open>The last dot is overwritten; without data that is the octet before the output.\<close>

definition oid_decode :: "nat \<Rightarrow> u8 list \<Rightarrow> nat \<Rightarrow> nat \<Rightarrow> bool \<Rightarrow> string outcome" where
  "oid_decode fuel mem p data_length absolute =
     and_then (oid_decode_loop fuel mem p (p + data_length) True absolute) (\<lambda>text.
     guard (text \<noteq> []) (Returns (butlast text)))"

primrec oid_encode_tokens :: "string list \<Rightarrow> u8 list outcome" where
  "oid_encode_tokens [] = Returns []"
| "oid_encode_tokens (t # ts) =
     and_then (atoi t) (\<lambda>n.
     and_then (oid_encode_node n) (\<lambda>bs.
     and_then (oid_encode_tokens ts) (\<lambda>rest. Returns (bs @ rest))))"

definition oid_encode :: "string \<Rightarrow> bool \<Rightarrow> u8 list outcome" where
  "oid_encode oid_data absolute =
     (case split_dots [] oid_data of
        [] \<Rightarrow> Undefined
      | t # ts \<Rightarrow>
          (if absolute
           then and_then (atoi t) (\<lambda>a.
                guard (- (2 ^ 31) \<le> sint a * 40 \<and> sint a * 40 < 2 ^ 31)
                (case ts of
                   [] \<Rightarrow> Undefined
                 | t' # ts' \<Rightarrow>
                     and_then (atoi t') (\<lambda>b.
                     and_then (oid_encode_node (a * 40 + b)) (\<lambda>bs.
                     and_then (oid_encode_tokens ts') (\<lambda>rest. Returns (bs @ rest))))))
           else oid_encode_tokens (t # ts)))"

section \<open>Round trip of a node\<close>

lemma septet_mask_u8: "(0x7f::u8) = mask 7"
  by (simp add: mask_eq_exp_minus_1)

lemma septet_flagged: "(ucast ((0x80 OR (ucast w :: u8)) AND 0x7f) :: u32) = take_bit 7 (w::u32)"
  unfolding septet_mask_u8 by (rule bit_word_eqI, simp only: bit_simps bit_0x80) auto

lemma septet_plain: "(ucast ((ucast (w AND 0x7f) :: u8) AND 0x7f) :: u32) = take_bit 7 (w::u32)"
  "(ucast (w AND 0x7f) :: u8) AND 0x80 \<noteq> 0x80"
proof -
  show "(ucast ((ucast (w AND 0x7f) :: u8) AND 0x7f) :: u32) = take_bit 7 (w::u32)"
    unfolding septet_mask_u8 septet_mask by (rule bit_word_eqI, simp only: bit_simps) auto
  have "(ucast (w AND 0x7f) :: u8) AND 0x80 = 0"
    unfolding septet_mask by (rule bit_word_eqI, simp only: bit_simps bit_0x80) auto
  then show "(ucast (w AND 0x7f) :: u8) AND 0x80 \<noteq> 0x80" by simp
qed

lemma join_septets:
  assumes "unat (v::u32) < 2 ^ (7 * k)"
  shows "k = 2 \<Longrightarrow> drop_bit 17 (push_bit 24 (take_bit 7 (drop_bit 7 v)) OR push_bit 17 (take_bit 7 v)) = v"
    "k = 3 \<Longrightarrow> drop_bit 10 (push_bit 24 (take_bit 7 (drop_bit 14 v)) OR push_bit 17 (take_bit 7 (drop_bit 7 v)) OR
       push_bit 10 (take_bit 7 v)) = v"
    "k = 4 \<Longrightarrow> drop_bit 3 (push_bit 24 (take_bit 7 (drop_bit 21 v)) OR push_bit 17 (take_bit 7 (drop_bit 14 v)) OR
       push_bit 10 (take_bit 7 (drop_bit 7 v)) OR push_bit 3 (take_bit 7 v)) = v"
proof -
  have below: "i < 7 * k" if "bit v i" for i using bit_above [OF assms that] .
  show "drop_bit 17 (push_bit 24 (take_bit 7 (drop_bit 7 v)) OR push_bit 17 (take_bit 7 v)) = v" if "k = 2"
  proof (rule bit_word_eqI)
    fix i
    show "bit (drop_bit 17 (push_bit 24 (take_bit 7 (drop_bit 7 v)) OR push_bit 17 (take_bit 7 v))) i = bit v i"
      using below [of i] that by (cases "i < 7") (auto simp: bit_simps)
  qed
  show "drop_bit 10 (push_bit 24 (take_bit 7 (drop_bit 14 v)) OR push_bit 17 (take_bit 7 (drop_bit 7 v)) OR
       push_bit 10 (take_bit 7 v)) = v" if "k = 3"
  proof (rule bit_word_eqI)
    fix i
    show "bit (drop_bit 10 (push_bit 24 (take_bit 7 (drop_bit 14 v)) OR push_bit 17 (take_bit 7 (drop_bit 7 v)) OR
       push_bit 10 (take_bit 7 v))) i = bit v i"
      using below [of i] that by (cases "i < 7"; cases "i < 14") (auto simp: bit_simps)
  qed
  show "drop_bit 3 (push_bit 24 (take_bit 7 (drop_bit 21 v)) OR push_bit 17 (take_bit 7 (drop_bit 14 v)) OR
       push_bit 10 (take_bit 7 (drop_bit 7 v)) OR push_bit 3 (take_bit 7 v)) = v" if "k = 4"
  proof (rule bit_word_eqI)
    fix i
    show "bit (drop_bit 3 (push_bit 24 (take_bit 7 (drop_bit 21 v)) OR push_bit 17 (take_bit 7 (drop_bit 14 v)) OR
       push_bit 10 (take_bit 7 (drop_bit 7 v)) OR push_bit 3 (take_bit 7 v))) i = bit v i"
      using below [of i] that by (cases "i < 7"; cases "i < 14"; cases "i < 21") (auto simp: bit_simps)
  qed
qed

lemma oid_node_roundtrip:
  assumes "unat v < 2 ^ 28"
  shows "\<exists>bs. oid_encode_node v = Returns bs \<and> bs \<noteq> [] \<and> (\<forall>rest. oid_node_value (bs @ rest) = Returns (v, length bs))"
proof (cases "v < 128")
  case True
  then have "unat v < 2 ^ 7" by (simp add: word_less_nat_alt)
  then have "\<not> bit v 7" using bit_above by blast
  then have "(ucast v :: u8) AND 0x80 = 0" by (intro bit_word_eqI, simp only: bit_simps bit_0x80) auto
  then have "(ucast v :: u8) AND 0x80 \<noteq> 0x80" by simp
  moreover have "ucast (ucast v :: u8) = v"
  proof (rule bit_word_eqI)
    fix i
    show "bit (ucast (ucast v :: u8) :: u32) i = bit v i"
      using bit_above [OF \<open>unat v < 2 ^ 7\<close>, of i] by (auto simp: bit_simps)
  qed
  ultimately show ?thesis using True by (simp add: oid_encode_node_def oid_node_value_def)
next
  case False
  let ?b = "ceil_log2 (unat (v + 1))"
  have u: "unat (v + 1) = unat v + 1" using assms by (simp add: unat_word_ariths)
  have big: "2 ^ 7 < unat (v + 1)" using False u by (simp add: word_less_nat_alt)
  have b: "bits_required v = Returns ?b"
    using u by (auto simp: bits_required_def guard_def unat_eq_zero)
  have up: "unat v < 2 ^ ?b" using ceil_log2_upper [of "unat (v + 1)"] u by simp
  have range: "7 < ?b" "?b \<le> 28" using ceil_log2_greater [OF big] assms u by (auto intro: ceil_log2_least)
  define rB where "rB = (?b + 6) div 7"
  have "rB \<in> {2, 3, 4}" using range by (auto simp: rB_def)
  have "(2::nat) ^ ?b \<le> 2 ^ (7 * rB)" unfolding rB_def by (intro power_increasing) auto
  from less_le_trans [OF up this] have small: "unat v < 2 ^ (7 * rB)" .
  have enc: "oid_encode_node v = Returns (map (\<lambda>i. 0x80 OR ucast (drop_bit ((rB - 1 - i) * 8 - (rB - 1 - i)) v)) [0..<rB - 1] @ [ucast (v AND 0x7f)])"
    using False by (simp add: oid_encode_node_def b rB_def Let_def)
  consider "rB = 2" | "rB = 3" | "rB = 4" using \<open>rB \<in> {2, 3, 4}\<close> by blast
  then show ?thesis
  proof cases
    case 1
    have "oid_node_value ([0x80 OR ucast (drop_bit 7 v), ucast (v AND 0x7f)] @ rest) = Returns (v, 2)" for rest
      using join_septets(1) [OF small 1]
      by (simp add: oid_node_value_def flag_bits septet_flagged septet_plain or.assoc)
    then show ?thesis using enc 1 by (simp add: upt_rec)
  next
    case 2
    have "oid_node_value ([0x80 OR ucast (drop_bit 14 v), 0x80 OR ucast (drop_bit 7 v), ucast (v AND 0x7f)] @ rest) = Returns (v, 3)" for rest
      using join_septets(2) [OF small 2]
      by (simp add: oid_node_value_def flag_bits septet_flagged septet_plain or.assoc)
    then show ?thesis using enc 2 by (simp add: upt_rec)
  next
    case 3
    have "oid_node_value ([0x80 OR ucast (drop_bit 21 v), 0x80 OR ucast (drop_bit 14 v), 0x80 OR ucast (drop_bit 7 v), ucast (v AND 0x7f)] @ rest) =
        Returns (v, 4)" for rest
      using join_septets(3) [OF small 3]
      by (simp add: oid_node_value_def flag_bits septet_flagged septet_plain or.assoc numeral_3_eq_3)
    then show ?thesis using enc 3 by (simp add: upt_rec)
  qed
qed

section \<open>Round trip of the text\<close>

lemma of_char_digit: "d < 10 \<Longrightarrow> (of_char (digit d) :: nat) = 48 + d"
  by (simp add: digit_def)

lemma show_nat_digits: "\<forall>c \<in> set (show_nat n). is_digit c" "show_nat n \<noteq> []"
proof -
  show "\<forall>c \<in> set (show_nat n). is_digit c"
  proof (induction n rule: show_nat.induct)
    case (1 n)
    then show ?case by (cases "n < 10") (auto simp: show_nat.simps [of n] is_digit_def of_char_digit)
  qed
  show "show_nat n \<noteq> []" by (simp add: show_nat.simps [of n])
qed

lemma digits_value_show: "digits_value (show_nat n) = n"
proof -
  have "foldl (\<lambda>a c. a * 10 + (of_char c - 48)) 0 (show_nat n) = n"
  proof (induction n rule: show_nat.induct)
    case (1 n)
    then show ?case by (cases "n < 10") (simp_all add: show_nat.simps [of n] of_char_digit)
  qed
  moreover have "takeWhile is_digit (show_nat n) = show_nat n" using show_nat_digits(1) by (metis takeWhile_eq_all_conv)
  ultimately show ?thesis by (simp only: digits_value_def)
qed

lemma digit_plain:
  "is_digit c \<Longrightarrow> \<not> is_space c \<and> c \<noteq> CHR ''-'' \<and> c \<noteq> CHR ''+'' \<and> c \<noteq> CHR ''.''"
  by (auto simp: is_digit_def is_space_def)

lemma atoi_show: "n < 2 ^ 31 \<Longrightarrow> atoi (show_nat n) = Returns (of_nat n)"
proof -
  assume n: "n < 2 ^ 31"
  obtain c cs where s: "show_nat n = c # cs" using show_nat_digits(2) by (metis list.exhaust)
  have "is_digit c" using show_nat_digits(1) [of n] s by simp
  from digit_plain [OF this] show ?thesis
    using n digits_value_show [of n] by (simp add: atoi_def s Let_def)
qed

lemma show_int_nat: "n < 2 ^ 31 \<Longrightarrow> show_int (of_nat n) = show_nat n"
proof -
  assume n: "n < 2 ^ 31"
  have "unat (of_nat n :: c_int) = n" using n by (simp add: unat_of_nat)
  then have "sint (of_nat n :: c_int) = int n" using n by (simp add: sint_small)
  then show ?thesis by (simp add: show_int_def)
qed

text \<open>Texts with dots.\<close>

fun join_dots :: "string list \<Rightarrow> string" where
  "join_dots [] = []"
| "join_dots [t] = t"
| "join_dots (t # ts) = t @ CHR ''.'' # join_dots ts"

lemma split_token: "CHR ''.'' \<notin> set t \<Longrightarrow> split_dots acc (t @ cs) = split_dots (acc @ t) cs"
  by (induction t arbitrary: acc) auto

lemma split_join: "\<forall>t \<in> set ts. t \<noteq> [] \<and> CHR ''.'' \<notin> set t \<Longrightarrow> split_dots [] (join_dots ts) = ts"
proof (induction ts rule: join_dots.induct)
  case (2 t)
  then show ?case using split_token [of t "[]" "[]"] by simp
next
  case (3 t t' ts)
  then show ?case using split_token [of t "[]" "CHR ''.'' # join_dots (t' # ts)"] by simp
qed simp

lemma split_join_show: "split_dots [] (join_dots (map show_nat ns)) = map show_nat ns"
  using show_nat_digits digit_plain by (intro split_join) auto

lemma join_dots_last: "ts \<noteq> [] \<Longrightarrow> concat (map (\<lambda>t. t @ ''.'') ts) = join_dots ts @ ''.''"
  by (induction ts rule: join_dots.induct) auto

section \<open>Round trip of identifiers\<close>

definition node_octets :: "nat \<Rightarrow> u8 list" where
  "node_octets n = (case oid_encode_node (of_nat n) of Returns bs \<Rightarrow> bs | _ \<Rightarrow> [])"

lemma node_octets:
  assumes "n < 2 ^ 28"
  shows "oid_encode_node (of_nat n) = Returns (node_octets n)" "node_octets n \<noteq> []"
    "oid_node_value (node_octets n @ rest) = Returns (of_nat n, length (node_octets n))"
proof -
  have u: "unat (of_nat n :: u32) = n" using assms by (simp add: unat_of_nat)
  obtain bs where "oid_encode_node (of_nat n) = Returns bs" "bs \<noteq> []" "\<And>rest. oid_node_value (bs @ rest) = Returns (of_nat n, length bs)"
    using oid_node_roundtrip [of "of_nat n"] assms u by auto
  then show "oid_encode_node (of_nat n) = Returns (node_octets n)" "node_octets n \<noteq> []"
    "oid_node_value (node_octets n @ rest) = Returns (of_nat n, length (node_octets n))"
    by (simp_all add: node_octets_def)
qed

lemma encode_tokens_show:
  "\<forall>n \<in> set ns. n < 2 ^ 28 \<Longrightarrow> oid_encode_tokens (map show_nat ns) = Returns (concat (map node_octets ns))"
  by (induction ns) (simp_all add: atoi_show node_octets(1))

lemma decode_rest:
  assumes "\<forall>n \<in> set ns. n < 2 ^ 28" "length ns < fuel" "p = length pre" "data_end = p + length (concat (map node_octets ns))"
  shows "oid_decode_loop fuel (pre @ concat (map node_octets ns) @ post) p data_end False absolute =
    Returns (concat (map (\<lambda>n. show_nat n @ ''.'') ns))"
  using assms
proof (induction ns arbitrary: fuel pre p)
  case Nil
  then show ?case by (cases fuel) auto
next
  case (Cons n ns)
  obtain k where k: "fuel = Suc k" using Cons.prems(2) by (cases fuel) auto
  have n: "n < 2 ^ 28" using Cons.prems(1) by simp
  have "oid_decode_loop k ((pre @ node_octets n) @ concat (map node_octets ns) @ post) (p + length (node_octets n)) data_end False absolute =
      Returns (concat (map (\<lambda>n. show_nat n @ ''.'') ns))"
    using Cons.prems k by (intro Cons.IH) auto
  then show ?case
    using Cons.prems(3,4) k node_octets(2,3) [OF n] n show_int_nat [of n]
    by (simp add: oid_decode_node_def)
qed

lemma decode_first:
  assumes "\<forall>n \<in> set ns. n < 2 ^ 28" "m < 2 ^ 28" "Suc (length ns) < fuel" "octets = node_octets m @ concat (map node_octets ns)"
  shows "oid_decode fuel (pre @ octets @ post) (length pre) (length octets) absolute =
    Returns (join_dots (map show_nat ((if absolute then [m div 40, m mod 40] else [m]) @ ns)))"
proof -
  let ?ms = "(if absolute then [m div 40, m mod 40] else [m]) @ ns"
  obtain k where k: "fuel = Suc k" using assms(3) by (cases fuel) auto
  have "oid_decode_loop k ((pre @ node_octets m) @ concat (map node_octets ns) @ post) (length pre + length (node_octets m))
      (length pre + length octets) False absolute = Returns (concat (map (\<lambda>n. show_nat n @ ''.'') ns))"
    using assms k by (intro decode_rest) auto
  moreover have "of_nat m div 40 = (of_nat (m div 40) :: u32)" "of_nat m mod 40 = (of_nat (m mod 40) :: u32)"
    using assms(2) by (simp_all add: word_arith_nat_div word_arith_nat_mod unat_of_nat)
  ultimately have "oid_decode_loop fuel (pre @ octets @ post) (length pre) (length pre + length octets) True absolute =
      Returns (concat (map (\<lambda>n. show_nat n @ ''.'') ?ms))"
    using node_octets(2,3) [OF assms(2)] assms(2,4) show_int_nat [of m] show_int_nat [of "m div 40"] show_int_nat [of "m mod 40"] k
    by (simp add: oid_decode_node_def)
  moreover have "concat (map (\<lambda>n. show_nat n @ ''.'') ?ms) = join_dots (map show_nat ?ms) @ ''.''"
    using join_dots_last [of "map show_nat ?ms"] by (simp add: comp_def del: join_dots.simps)
  ultimately show ?thesis by (simp add: oid_decode_def)
qed

section \<open>Properties\<close>

text \<open>
  C36. Object identifiers survive: the text of numbers below \<open>2 ^ 28\<close> with dots is encoded and
  decoded, from anywhere in a buffer, to the same text, in absolute mode provided the
  second number is below 40. Otherwise it is not: \<open>2.100\<close> comes back as \<open>4.20\<close>, and
  a number of five octets makes the decoder shift by a negative amount.
\<close>

theorem oid_roundtrip:
  assumes "ns \<noteq> []" "\<forall>n \<in> set ns. n < 2 ^ 28" "length ns + 1 < fuel"
    and "absolute \<Longrightarrow> \<exists>a b ms. ns = a # b # ms \<and> b < 40 \<and> a * 40 + b < 2 ^ 28"
  shows "(\<exists>octets. oid_encode (join_dots (map show_nat ns)) absolute = Returns octets \<and>
      oid_decode fuel (pre @ octets @ post) (length pre) (length octets) absolute = Returns (join_dots (map show_nat ns))) \<and>
    oid_encode ''2.100'' True = Returns [0x81, 0x34] \<and> oid_decode 3 [0x81, 0x34] 0 2 True = Returns ''4.20'' \<and>
    oid_decode 3 [0x81, 0x80, 0x80, 0x80, 0] 0 5 False = Undefined"
proof -
  have "\<exists>octets. oid_encode (join_dots (map show_nat ns)) absolute = Returns octets \<and>
      oid_decode fuel (pre @ octets @ post) (length pre) (length octets) absolute = Returns (join_dots (map show_nat ns))"
  proof (cases absolute)
    case False
    obtain m ms where ns: "ns = m # ms" using assms(1) by (cases ns) auto
    have "oid_encode (join_dots (map show_nat ns)) False = Returns (node_octets m @ concat (map node_octets ms))"
      using encode_tokens_show [OF assms(2)] split_join_show [of ns] ns by (simp add: oid_encode_def)
    then show ?thesis using decode_first [of ms m fuel _ pre post False] False assms(2,3) ns by simp
  next
    case True
    then obtain a b ms where ns: "ns = a # b # ms" and b: "b < 40" "a * 40 + b < 2 ^ 28" using assms(4) by blast
    have ua: "unat (of_nat a :: c_int) = a" using b(2) by (simp add: unat_of_nat)
    then have sa: "sint (of_nat a :: c_int) = int a" using b(2) by (simp add: sint_small)
    have "oid_encode (join_dots (map show_nat ns)) True = Returns (node_octets (a * 40 + b) @ concat (map node_octets ms))"
      using encode_tokens_show [of ms] split_join_show [of ns] ns assms(2) b sa node_octets(1) [OF b(2)]
      by (simp add: oid_encode_def atoi_show)
    then show ?thesis using decode_first [of ms "a * 40 + b" fuel _ pre post True] True assms(2,3) ns b by simp
  qed
  moreover have "oid_encode ''2.100'' True = Returns [0x81, 0x34]"
  proof -
    have a: "atoi ''2'' = Returns 2" "atoi ''100'' = Returns 100" by (simp_all add: atoi_def is_space_def digits_value_def is_digit_def)
    have b: "oid_encode_node 180 = Returns [0x81, 0x34]" "sint (2::c_int) = 2" by code_simp+
    show ?thesis by (simp add: oid_encode_def a b)
  qed
  moreover have "oid_decode 3 [0x81, 0x34] 0 2 True = Returns ''4.20''"
  proof -
    have a: "oid_node_value [0x81, 0x34] = Returns (180, 2)" by code_simp
    have b: "show_int 4 = ''4''" "show_int 20 = ''20''"
      using show_int_nat [of 4] show_int_nat [of 20] by (simp_all add: show_nat.simps digit_def char_of_def bit_Suc_0_iff)
    show ?thesis by (simp add: oid_decode_def oid_decode_node_def a b numeral_3_eq_3)
  qed
  moreover have "oid_decode 3 [0x81, 0x80, 0x80, 0x80, 0] 0 5 False = Undefined"
  proof -
    have "oid_node_value [0x81, 0x80, 0x80, 0x80, 0] = Undefined" by code_simp
    then show ?thesis by (simp add: oid_decode_def oid_decode_node_def numeral_3_eq_3)
  qed
  ultimately show ?thesis by blast
qed

theorem oid_roundtrip_witness:
  "\<exists>octets. oid_encode (join_dots (map show_nat [0, 4, 0, 0, 1, 0, 14, 3])) True = Returns octets \<and>
    oid_decode 10 ([6, 7] @ octets @ [0]) (length [6 :: u8, 7]) (length octets) True =
      Returns (join_dots (map show_nat [0, 4, 0, 0, 1, 0, 14, 3]))"
  by (rule conjunct1 [OF oid_roundtrip]) auto

end
