(* ===== verification/Asn1_Tlv.thy ===== *)
theory Asn1_Tlv
  imports Outcome
begin

text \<open>
  Tags and lengths of the BER codec, \<^verbatim>\<open>src/asn1/asn1.h\<close> and the octet-level functions of
  \<^verbatim>\<open>src/asn1/asn1.cpp\<close>. A buffer is its list of octets and \<open>&data[i]\<close> a position in it; the
  functions get the buffer, the position and the \<open>data_length\<close> they are told, which need
  not be what is left of the buffer. Reads past the buffer and shifts by 32 or more are
  \<open>Undefined\<close>; an overflowing shift to the left wraps, as the compilers in use have it. The
  tests for NULL arguments are left out: the callers never pass one.
\<close>

section \<open>Enumerations\<close>

datatype UniversalClassTag =
  EOC | BOOLEAN | INTEGER | BIT_STRING | OCTET_STRING | NULL_TAG | OBJECT_IDENTIFIER | OBJECT_DESCRIPTOR
| EXTERNAL | REAL | ENUMERATED | EMBEDDED_PDV | UTF8STRING | RELATIVE_OID | SEQUENCE | SET
| NUMERIC_STRING | PRINTABLE_STRING | T61STRING | VIDEOTEX_STRING | IA5_STRING | UTC_TIME
| GENERALIZED_TIME | GRAPHIC_STRING | VISIBLE_STRING | GENERAL_STRING | UNIVERSAL_STRING
| CHARACTER_STRING | BMP_STRING | USE_LONG_FORM | CHOICE | UNKNOWN_UNIVERSAL_TAG | ANY

text \<open>\<open>SEQUENCE_OF\<close> and \<open>SET_OF\<close> are other names of the values \<open>SEQUENCE\<close> and \<open>SET\<close>.\<close>

abbreviation SEQUENCE_OF :: UniversalClassTag where "SEQUENCE_OF \<equiv> SEQUENCE"
abbreviation SET_OF :: UniversalClassTag where "SET_OF \<equiv> SET"

fun uni_value :: "UniversalClassTag \<Rightarrow> c_int" where
  "uni_value EOC = 0x00"
| "uni_value BOOLEAN = 0x01"
| "uni_value INTEGER = 0x02"
| "uni_value BIT_STRING = 0x03"
| "uni_value OCTET_STRING = 0x04"
| "uni_value NULL_TAG = 0x05"
| "uni_value OBJECT_IDENTIFIER = 0x06"
| "uni_value OBJECT_DESCRIPTOR = 0x07"
| "uni_value EXTERNAL = 0x08"
| "uni_value REAL = 0x09"
| "uni_value ENUMERATED = 0x0a"
| "uni_value EMBEDDED_PDV = 0x0b"
| "uni_value UTF8STRING = 0x0c"
| "uni_value RELATIVE_OID = 0x0d"
| "uni_value SEQUENCE = 0x10"
| "uni_value SET = 0x11"
| "uni_value NUMERIC_STRING = 0x12"
| "uni_value PRINTABLE_STRING = 0x13"
| "uni_value T61STRING = 0x14"
| "uni_value VIDEOTEX_STRING = 0x15"
| "uni_value IA5_STRING = 0x16"
| "uni_value UTC_TIME = 0x17"
| "uni_value GENERALIZED_TIME = 0x18"
| "uni_value GRAPHIC_STRING = 0x19"
| "uni_value VISIBLE_STRING = 0x1a"
| "uni_value GENERAL_STRING = 0x1b"
| "uni_value UNIVERSAL_STRING = 0x1c"
| "uni_value CHARACTER_STRING = 0x1d"
| "uni_value BMP_STRING = 0x1e"
| "uni_value USE_LONG_FORM = 0x1f"
| "uni_value CHOICE = 0xff"
| "uni_value UNKNOWN_UNIVERSAL_TAG = - 1"
| "uni_value ANY = - 2"

datatype TagClass = UNIVERSAL | APPLICATION | CONTEXT_SPECIFIC | PRIVATE | CLASS_UNKNOWN

fun class_value :: "TagClass \<Rightarrow> c_int" where
  "class_value UNIVERSAL = 0x00"
| "class_value APPLICATION = 0x40"
| "class_value CONTEXT_SPECIFIC = 0x80"
| "class_value PRIVATE = 0xc0"
| "class_value CLASS_UNKNOWN = - 1"

definition class_of :: "u8 \<Rightarrow> TagClass" where
  "class_of b =
     (if b AND 0xc0 = 0x00 then UNIVERSAL else if b AND 0xc0 = 0x40 then APPLICATION
      else if b AND 0xc0 = 0x80 then CONTEXT_SPECIFIC else PRIVATE)"

datatype Complexity = PRIMITIVE | CONSTRUCTED | COMPLEXITY_UNKNOWN

fun complexity_value :: "Complexity \<Rightarrow> c_int" where
  "complexity_value PRIMITIVE = 0x00"
| "complexity_value CONSTRUCTED = 0x20"
| "complexity_value COMPLEXITY_UNKNOWN = - 1"

definition complexity_of :: "u8 \<Rightarrow> Complexity" where
  "complexity_of b = (if b AND 0x20 = 0x00 then PRIMITIVE else CONSTRUCTED)"

datatype LengthType = DEFINITE_SHORT | DEFINITE_LONG | INDEFINITE | LENGTH_TYPE_UNKNOWN

section \<open>The TLV node\<close>

text \<open>A pointer into a buffer: the number of the buffer and the position; \<open>None\<close> is NULL.\<close>

type_synonym pointer = "(nat \<times> nat) option"

record TLVNode =
  is_explicit :: bool
  tag_class :: TagClass
  complexity :: Complexity
  override_auto_complexity :: bool
  unlimited_size :: bool
  length_type :: LengthType
  uni_tag_class :: UniversalClassTag
  tag_value :: c_int
  tag_value_size :: c_int
  tlv_value :: pointer
  full_tlv :: pointer
  full_tlv_length :: c_int
  value_length :: c_int
  value_length_size :: u32
  old_value_length :: u32

definition TLVNode_new :: TLVNode where
  "TLVNode_new =
     \<lparr>is_explicit = False, tag_class = CLASS_UNKNOWN, complexity = COMPLEXITY_UNKNOWN,
      override_auto_complexity = False, unlimited_size = False, length_type = LENGTH_TYPE_UNKNOWN,
      uni_tag_class = UNKNOWN_UNIVERSAL_TAG, tag_value = - 1, tag_value_size = 0, tlv_value = None,
      full_tlv = None, full_tlv_length = 0, value_length = 0, value_length_size = 0,
      old_value_length = 0\<rparr>"

section \<open>Decoding\<close>

text \<open>How many octets in a row have their high bit set.\<close>

fun continuation :: "u8 list \<Rightarrow> nat outcome" where
  "continuation [] = Undefined"
| "continuation (b # bs) =
     (if b AND 0x80 = 0x80 then and_then (continuation bs) (\<lambda>n. Returns (Suc n)) else Returns 0)"

definition tag_septets :: "u8 list \<Rightarrow> c_int" where
  "tag_septets bs =
     foldl (OR) 0 (map (\<lambda>i. push_bit (7 * (length bs - i - 1)) (ucast (bs ! i) AND 0x7f)) [0..<length bs])"

definition decode_tag :: "u8 list \<Rightarrow> nat \<Rightarrow> u32 \<Rightarrow> TLVNode \<Rightarrow> TLVNode outcome" where
  "decode_tag mem p data_length tlv =
     (if data_length > 0
      then and_then (byte_at mem p) (\<lambda>b.
        let tlv = tlv\<lparr>tag_class := class_of b, complexity := complexity_of b\<rparr> in
        if b AND 0x1f = 0x1f
        then and_then (continuation (drop (p + 1) mem)) (\<lambda>n.
          guard (n + 1 \<le> 5)
            (Returns (tlv\<lparr>tag_value := tag_septets (take (n + 1) (drop (p + 1) mem)),
                          tag_value_size := of_nat (n + 1) + 1\<rparr>)))
        else Returns (tlv\<lparr>tag_value := ucast (b AND 0x1f), tag_value_size := 1\<rparr>))
      else Returns tlv)"

definition length_octets_value :: "u8 list \<Rightarrow> c_int" where
  "length_octets_value bs =
     foldl (+) 0 (map (\<lambda>i. push_bit (8 * (length bs - i - 1)) (ucast (bs ! i) AND 0xff)) [0..<length bs])"

text \<open>
  The result is the return code and the node. \<open>eoc\<close> is \<open>find_eoc\<close>, which itself decodes
  lengths.
\<close>

definition decode_length_with ::
  "(nat \<Rightarrow> u32 \<Rightarrow> u32 outcome) \<Rightarrow> u8 list \<Rightarrow> nat \<Rightarrow> u32 \<Rightarrow> TLVNode \<Rightarrow> (c_int \<times> TLVNode) outcome" where
  "decode_length_with eoc mem p data_length tlv =
     (if data_length > 0
      then and_then (byte_at mem p) (\<lambda>b.
        if b AND 0xff > 0x80
        then (let tlv = tlv\<lparr>length_type := DEFINITE_LONG\<rparr>; l = b AND 0x7f in
              if l = 0x7f then Returns (2, tlv)
              else if ucast l \<ge> data_length then Returns (2, tlv)
              else guard (unat l \<le> 4)
                (and_then (read_bytes mem (p + 1) (unat l)) (\<lambda>bs.
                  Returns (0, tlv\<lparr>value_length_size := ucast l + 1, value_length := length_octets_value bs\<rparr>))))
        else if b AND 0xff = 0x80
        then and_then (eoc (p + 1) (data_length - 1)) (\<lambda>n.
          Returns (0, tlv\<lparr>length_type := INDEFINITE, value_length_size := 1, value_length := n\<rparr>))
        else Returns (0, tlv\<lparr>length_type := DEFINITE_SHORT, value_length_size := 1, value_length := ucast b\<rparr>))
      else Returns (1, tlv))"

text \<open>
  One round of the loop of \<open>find_eoc\<close>: \<open>p\<close> is the start of the data, \<open>pos\<close> is \<open>tmp_pos\<close> and
  \<open>tlv\<close> the local node, which a failed length leaves as it was. The end of an inner
  indefinite length is searched twice, by \<open>decode_length\<close> and again here.
\<close>

definition skip_tlv ::
  "(nat \<Rightarrow> u32 \<Rightarrow> u32 outcome) \<Rightarrow> u8 list \<Rightarrow> nat \<Rightarrow> u32 \<Rightarrow> u32 \<Rightarrow> TLVNode \<Rightarrow> (u32 \<times> TLVNode) outcome" where
  "skip_tlv eoc mem p data_length pos tlv =
     and_then (decode_tag mem (p + unat pos) data_length tlv) (\<lambda>tlv.
     let pos = pos + tag_value_size tlv in
     and_then (decode_length_with eoc mem (p + unat pos) data_length tlv) (\<lambda>(_, tlv).
     let pos = pos + value_length_size tlv in
     if complexity tlv = PRIMITIVE then Returns (pos + value_length tlv, tlv)
     else if complexity tlv = CONSTRUCTED
     then (if length_type tlv = INDEFINITE
           then and_then (eoc (p + unat pos) (data_length - pos)) (\<lambda>n. Returns (pos + (n + 2), tlv))
           else Returns (pos + value_length tlv, tlv))
     else Returns (pos, tlv)))"

primrec eoc_loop :: "nat \<Rightarrow> u8 list \<Rightarrow> nat \<Rightarrow> u32 \<Rightarrow> u32 \<Rightarrow> TLVNode \<Rightarrow> u32 outcome" where
  "eoc_loop 0 mem p data_length pos tlv = OutOfFuel"
| "eoc_loop (Suc fuel) mem p data_length pos tlv =
     (if \<not> pos < data_length then Returns 0
      else
        let eoc = (\<lambda>q len. if len > 0 then eoc_loop fuel mem q len 0 TLVNode_new else Returns 0) in
        and_then (skip_tlv eoc mem p data_length pos tlv) (\<lambda>(pos, tlv).
        if pos < data_length - 1
        then and_then (byte_at mem (p + unat pos)) (\<lambda>b.
          if b = 0
          then and_then (byte_at mem (p + unat (pos + 1))) (\<lambda>b'.
            if b' = 0 then Returns pos else eoc_loop fuel mem p data_length pos tlv)
          else eoc_loop fuel mem p data_length pos tlv)
        else eoc_loop fuel mem p data_length pos tlv))"

definition find_eoc :: "nat \<Rightarrow> u8 list \<Rightarrow> nat \<Rightarrow> u32 \<Rightarrow> u32 outcome" where
  "find_eoc fuel mem p data_length =
     (if data_length > 0 then eoc_loop fuel mem p data_length 0 TLVNode_new else Returns 0)"

definition decode_length :: "nat \<Rightarrow> u8 list \<Rightarrow> nat \<Rightarrow> u32 \<Rightarrow> TLVNode \<Rightarrow> (c_int \<times> TLVNode) outcome" where
  "decode_length fuel mem p data_length tlv =
     decode_length_with (find_eoc fuel mem) mem p data_length tlv"

section \<open>Encoding\<close>

text \<open>An encoder returns the octets it writes from \<open>data\<close> on, whatever room there is.\<close>

definition req_septet_bytes :: "c_int \<Rightarrow> nat" where
  "req_septet_bytes v = (let req_bits = ceil_log2 (unat (v + 1)) in (req_bits + 6) div 7)"

definition req_length_bytes :: "c_int \<Rightarrow> nat" where
  "req_length_bytes v = (let req_bits = ceil_log2 (unat (v + 1)) in (req_bits + 7) div 8)"

text \<open>The octets of a long tag: eight bits are shifted out for each, though seven are kept.\<close>

definition tag_octets :: "nat \<Rightarrow> c_int \<Rightarrow> u8 list" where
  "tag_octets n v =
     map (\<lambda>i. let b = 0x80 OR ucast (signed_drop_bit (8 * (n - i - 1)) v)
              in if i = n - 1 then b AND 0x7f else b) [0..<n]"

definition length_octets :: "nat \<Rightarrow> c_int \<Rightarrow> u8 list" where
  "length_octets n v = map (\<lambda>i. ucast (signed_drop_bit (8 * (n - i - 1)) v)) [0..<n]"

definition prepare_tag :: "TLVNode \<Rightarrow> TLVNode" where
  "prepare_tag tlv =
     (if sint (tag_value tlv) > 30
      then tlv\<lparr>tag_value_size := of_nat (req_septet_bytes (tag_value tlv)) + 1\<rparr>
      else tlv\<lparr>tag_value_size := 1\<rparr>)"

definition first_tag_octet :: "c_int \<Rightarrow> TLVNode \<Rightarrow> u8" where
  "first_tag_octet v tlv = ucast (v OR class_value (tag_class tlv) OR complexity_value (complexity tlv))"

definition encode_tag :: "u32 \<Rightarrow> TLVNode \<Rightarrow> (u8 list \<times> TLVNode) outcome" where
  "encode_tag data_length tlv =
     (if data_length > 0
      then (if sint (tag_value tlv) > 30
            then (let n = req_septet_bytes (tag_value tlv) in
                  guard (n \<le> 4)
                    (Returns (first_tag_octet 0x1f tlv # tag_octets n (tag_value tlv),
                              tlv\<lparr>tag_value_size := of_nat n + 1\<rparr>)))
            else Returns ([first_tag_octet (tag_value tlv) tlv], tlv\<lparr>tag_value_size := 1\<rparr>))
      else Returns ([], tlv))"

definition encode_prepared_tag :: "u32 \<Rightarrow> TLVNode \<Rightarrow> u8 list outcome" where
  "encode_prepared_tag data_length tlv =
     (if data_length > 0
      then (if sint (tag_value_size tlv) > 1
            then (let n = unat (tag_value_size tlv - 1) in
                  guard (n \<le> 4) (Returns (first_tag_octet 0x1f tlv # tag_octets n (tag_value tlv))))
            else Returns [first_tag_octet (tag_value tlv) tlv])
      else Returns [])"

definition prepare_length :: "TLVNode \<Rightarrow> TLVNode" where
  "prepare_length tlv =
     (if sint (value_length tlv) > 127
      then tlv\<lparr>value_length_size := of_nat (req_length_bytes (value_length tlv)) + 1, length_type := DEFINITE_LONG\<rparr>
      else tlv\<lparr>value_length_size := 1, length_type := DEFINITE_SHORT\<rparr>)"

definition encode_prepared_length :: "u32 \<Rightarrow> TLVNode \<Rightarrow> u8 list outcome" where
  "encode_prepared_length data_length tlv =
     (if data_length > 0
      then (if sint (value_length tlv) > 127
            then (let req_bytes = value_length_size tlv - 1 in
                  guard (unat req_bytes \<le> 4)
                    (Returns (ucast (0x80 OR req_bytes) # length_octets (unat req_bytes) (value_length tlv))))
            else Returns [ucast (value_length tlv)])
      else Returns [])"

definition encode_length :: "u32 \<Rightarrow> TLVNode \<Rightarrow> u8 list \<times> TLVNode" where
  "encode_length data_length tlv =
     (if data_length > 0
      then (if sint (value_length tlv) > 127
            then (let n = req_length_bytes (value_length tlv) in
                  (ucast (0x80 OR (of_nat n :: u32)) # length_octets n (value_length tlv),
                   tlv\<lparr>value_length_size := of_nat n + 1\<rparr>))
            else ([ucast (value_length tlv)], tlv\<lparr>value_length_size := 1\<rparr>))
      else ([], tlv))"

end
