(* ===== verification/Asn1_Codec.thy ===== *)
theory Asn1_Codec
  imports Asn1_Tlv
begin

text \<open>
  What the tag and length codecs of \<^verbatim>\<open>src/asn1/asn1.cpp\<close> do to each other's output.
\<close>

section \<open>Long lengths\<close>

lemma ucast_signed_drop_bit:
  "k \<le> 24 \<Longrightarrow> (ucast (signed_drop_bit k (v::c_int)) :: u8) = ucast (drop_bit k v)"
  by (rule bit_word_eqI) (auto simp: bit_simps)

lemma length_octets_drop:
  "n \<le> 4 \<Longrightarrow> length_octets n v = map (\<lambda>i. ucast (drop_bit (8 * (n - i - 1)) v)) [0..<n]"
  by (auto simp: length_octets_def intro!: ucast_signed_drop_bit)

lemma length_octets_length [simp]: "length (length_octets n v) = n"
  by (simp add: length_octets_def)

lemma octet_of_word: "(ucast (ucast (w::c_int) :: u8) :: c_int) AND 0xff = take_bit 8 w"
proof -
  have "(0xff::c_int) = mask 8" by (simp add: mask_eq_exp_minus_1)
  then show ?thesis by (simp only: take_bit_eq_mask [symmetric]) (rule bit_word_eqI, auto simp: bit_simps)
qed

lemma foldl_plus_acc: "foldl (+) a xs = a + foldl (+) (0::'a::comm_monoid_add) xs"
proof (induction xs arbitrary: a)
  case Nil
  show ?case by simp
next
  case (Cons x xs)
  from Cons [of "a + x"] Cons [of "0 + x"] show ?case by (simp add: add.assoc)
qed

lemma take_bit_octet:
  "push_bit (8 * n) (take_bit 8 (drop_bit (8 * n) v)) + take_bit (8 * n) v = take_bit (8 * Suc n) (v::c_int)"
  using bits_ident [of "8 * n" "take_bit (8 * Suc n) v"] by (simp add: drop_bit_take_bit add.commute)

lemma length_octets_sum:
  "foldl (+) 0 (map (\<lambda>i. push_bit (8 * (n - i - 1)) (take_bit 8 (drop_bit (8 * (n - i - 1)) (v::c_int)))) [0..<n])
    = take_bit (8 * n) v"
proof (induction n)
  case 0
  show ?case by simp
next
  case (Suc n)
  have "map (\<lambda>i. push_bit (8 * (Suc n - i - 1)) (take_bit 8 (drop_bit (8 * (Suc n - i - 1)) v))) [0..<Suc n]
     = push_bit (8 * n) (take_bit 8 (drop_bit (8 * n) v)) #
       map (\<lambda>i. push_bit (8 * (n - i - 1)) (take_bit 8 (drop_bit (8 * (n - i - 1)) v))) [0..<n]"
    unfolding upt_conv_Cons [OF zero_less_Suc] map_Suc_upt [symmetric] by simp
  with Suc.IH show ?case
    by (simp add: foldl_plus_acc [of "push_bit (8 * n) (take_bit 8 (drop_bit (8 * n) v))"] take_bit_octet)
qed

lemma length_octets_value_octets:
  assumes "n \<le> 4" shows "length_octets_value (length_octets n v) = take_bit (8 * n) v"
proof -
  have "map (\<lambda>i. push_bit (8 * (n - i - 1)) (ucast (length_octets n v ! i) AND 0xff)) [0..<n] =
      map (\<lambda>i. push_bit (8 * (n - i - 1)) (take_bit 8 (drop_bit (8 * (n - i - 1)) v))) [0..<n]"
    using assms by (intro map_cong refl) (simp add: length_octets_drop octet_of_word)
  then show ?thesis by (simp only: length_octets_value_def length_octets_length length_octets_sum)
qed

lemma ceil_log2_bounds:
  assumes "0 < n"
  shows "n < 2 ^ ceil_log2 (n + 1)" "2 ^ (ceil_log2 (n + 1) - 1) \<le> n" "0 < ceil_log2 (n + 1)"
proof -
  show "n < 2 ^ ceil_log2 (n + 1)" using ceil_log2_upper [of "n + 1"] by linarith
  show pos: "0 < ceil_log2 (n + 1)" using ceil_log2_greater [of 0 "n + 1"] assms by simp
  show "2 ^ (ceil_log2 (n + 1) - 1) \<le> n"
  proof (rule ccontr)
    assume "\<not> 2 ^ (ceil_log2 (n + 1) - 1) \<le> n"
    then have "n + 1 \<le> 2 ^ (ceil_log2 (n + 1) - 1)" by linarith
    from ceil_log2_least [OF this] pos show False by linarith
  qed
qed

lemma unat_plus_one: "unat (v::c_int) < 2 ^ 31 \<Longrightarrow> unat (v + 1) = unat v + 1"
  by (intro unat_plus_one_bounded [of v "0x80000000"]) simp

lemma length_bits:
  assumes "sint (v::c_int) > 127" "v \<noteq> 0x7fffffff"
  shows "unat v < 2 ^ (8 * req_length_bytes v)" "1 \<le> req_length_bytes v" "req_length_bytes v \<le> 4"
    "2 ^ (8 * (req_length_bytes v - 1)) \<le> unat v"
proof -
  let ?b = "ceil_log2 (unat v + 1)"
  have v: "sint v = int (unat v)" "unat v < 2 ^ 31" using assms(1) sint_nonneg [of v] by auto
  have n: "req_length_bytes v = (?b + 7) div 8"
    using v(2) by (simp add: req_length_bytes_def unat_plus_one)
  have "0 < unat v" using v assms(1) by linarith
  note b = ceil_log2_bounds [OF this]
  have "unat v < 2 ^ ?b" by (rule b)
  also have "(2::nat) ^ ?b \<le> 2 ^ (8 * req_length_bytes v)" unfolding n by (intro power_increasing) auto
  finally show "unat v < 2 ^ (8 * req_length_bytes v)" .
  show "1 \<le> req_length_bytes v" unfolding n using b(3) by simp
  have "?b \<le> 31" using v(2) by (intro ceil_log2_least) simp
  then show "req_length_bytes v \<le> 4" unfolding n by simp
  have "(2::nat) ^ (8 * (req_length_bytes v - 1)) \<le> 2 ^ (?b - 1)"
    unfolding n using b(3) by (intro power_increasing) auto
  also have "\<dots> \<le> unat v" by (rule b)
  finally show "2 ^ (8 * (req_length_bytes v - 1)) \<le> unat v" .
qed

lemma long_length_octet:
  assumes "n \<le> 4" "1 \<le> n"
  shows "(ucast (0x80 OR (of_nat n :: u32)) :: u8) AND 0xff > 0x80"
    "(ucast (0x80 OR (of_nat n :: u32)) :: u8) AND 0x7f = of_nat n" "(of_nat n :: u8) \<noteq> 0x7f"
    "(ucast (of_nat n :: u8) :: u32) = of_nat n" "unat (of_nat n :: u8) = n" "unat (of_nat n :: u32) = n"
proof -
  have "n \<in> {1, 2, 3, 4}" using assms by auto
  then show "(ucast (0x80 OR (of_nat n :: u32)) :: u8) AND 0xff > 0x80"
    "(ucast (0x80 OR (of_nat n :: u32)) :: u8) AND 0x7f = of_nat n" "(of_nat n :: u8) \<noteq> 0x7f"
    "(ucast (of_nat n :: u8) :: u32) = of_nat n" "unat (of_nat n :: u8) = n" "unat (of_nat n :: u32) = n"
    by auto
qed

lemma u8_and_ff: "(w::u8) AND 0xff = w"
proof -
  have "(0xff::u8) = - 1" by simp
  then show ?thesis by (simp only: bit.conj_one_right)
qed

lemma short_length_octet:
  assumes "unat (v::c_int) < 128"
  shows "\<not> (ucast v :: u8) AND 0xff > 0x80" "(ucast v :: u8) AND 0xff \<noteq> 0x80" "(ucast (ucast v :: u8) :: c_int) = v"
proof -
  have ff: "(ucast v :: u8) AND 0xff = ucast v" by (rule u8_and_ff)
  have u: "unat (ucast v :: u8) = unat v"
    using assms by (intro unat_to_octet) simp
  show "\<not> (ucast v :: u8) AND 0xff > 0x80" using u assms by (simp add: ff word_less_nat_alt)
  show "(ucast v :: u8) AND 0xff \<noteq> 0x80" unfolding ff
  proof
    assume "(ucast v :: u8) = 0x80"
    then have "unat (ucast v :: u8) = 128" by simp
    with u assms show False by simp
  qed
  have "unat (ucast (ucast v :: u8) :: c_int) = unat (ucast v :: u8)"
    by (rule unat_ucast_octet)
  then have "unat (ucast (ucast v :: u8) :: c_int) = unat v" using u by simp
  then show "(ucast (ucast v :: u8) :: c_int) = v" by (simp only: word_unat_eq_iff)
qed

text \<open>Reading a length that was written at the front of the data.\<close>

lemma decode_short_length:
  assumes "unat v < 128" "0 < dl"
  shows "decode_length_with eoc (pre @ ucast v # post) (length pre) dl t =
    Returns (0, t\<lparr>length_type := DEFINITE_SHORT, value_length_size := 1, value_length := v\<rparr>)"
  using assms short_length_octet [OF assms(1)]
  by (simp add: decode_length_with_def byte_at_middle)

lemma decode_long_length:
  assumes n: "n \<le> 4" "1 \<le> n" and v: "unat v < 2 ^ (8 * n)" and dl: "n < unat dl"
  shows "decode_length_with eoc (pre @ ucast (0x80 OR (of_nat n :: u32)) # length_octets n v @ post) (length pre) dl t =
    Returns (0, t\<lparr>length_type := DEFINITE_LONG, value_length_size := of_nat n + 1, value_length := v\<rparr>)"
proof -
  note o = long_length_octet [OF n]
  have dl': "0 < dl" "\<not> of_nat n \<ge> dl"
    using dl o(6) by (auto simp: word_less_nat_alt word_le_nat_alt)
  have "take_bit (8 * n) v = v"
    using v by (simp only: word_unat_eq_iff unsigned_take_bit_eq take_bit_nat_eq_self)
  then have val: "length_octets_value (length_octets n v) = v"
    using n(1) by (simp add: length_octets_value_octets)
  have "read_bytes (pre @ ucast (0x80 OR (of_nat n :: u32)) # length_octets n v @ post) (length pre + 1) n =
      Returns (length_octets n v)"
    using read_bytes_middle [of "length pre + 1" "pre @ [ucast (0x80 OR (of_nat n :: u32))]" n "length_octets n v" post]
    by simp
  then show ?thesis
    using o dl' n val by (simp add: decode_length_with_def byte_at_middle Let_def del: One_nat_def)
qed

text \<open>The octets of a length, as \<open>prepare_length\<close> and \<open>encode_prepared_length\<close> write them.\<close>

definition length_header :: "c_int \<Rightarrow> u8 list" where
  "length_header v =
     (if sint v > 127
      then ucast (0x80 OR (of_nat (req_length_bytes v) :: u32)) # length_octets (req_length_bytes v) v
      else [ucast v])"

lemma encode_length_header: "0 < room \<Longrightarrow> fst (encode_length room tlv) = length_header (value_length tlv)"
  by (simp add: encode_length_def length_header_def Let_def)

definition codable :: "c_int \<Rightarrow> bool" where
  "codable v \<longleftrightarrow> 0 \<le> sint v \<and> v \<noteq> 0x7fffffff"

lemma encode_prepared_length_header:
  assumes "0 < room" "codable (value_length tlv)"
  shows "encode_prepared_length room (prepare_length tlv) = Returns (length_header (value_length tlv))"
    "value_length_size (prepare_length tlv) = of_nat (length (length_header (value_length tlv)))"
proof -
  let ?n = "req_length_bytes (value_length tlv)"
  have "encode_prepared_length room (prepare_length tlv) = Returns (length_header (value_length tlv)) \<and>
    value_length_size (prepare_length tlv) = of_nat (length (length_header (value_length tlv)))"
  proof (cases "sint (value_length tlv) > 127")
    case True
    have n: "?n \<le> 4" "1 \<le> ?n" using length_bits [OF True] assms(2) by (auto simp: codable_def)
    from long_length_octet(6) [OF n] n True assms(1) show ?thesis
      by (simp add: encode_prepared_length_def prepare_length_def length_header_def Let_def)
  next
    case False
    then show ?thesis using assms(1)
      by (simp add: encode_prepared_length_def prepare_length_def length_header_def)
  qed
  then show "encode_prepared_length room (prepare_length tlv) = Returns (length_header (value_length tlv))"
    "value_length_size (prepare_length tlv) = of_nat (length (length_header (value_length tlv)))" by auto
qed

lemma decode_length_header:
  assumes v: "codable v" and dl: "length (length_header v) \<le> unat dl"
  shows "decode_length_with eoc (pre @ length_header v @ post) (length pre) dl t =
    Returns (0, t\<lparr>length_type := (if sint v > 127 then DEFINITE_LONG else DEFINITE_SHORT),
      value_length_size := of_nat (length (length_header v)), value_length := v\<rparr>)"
proof (cases "sint v > 127")
  case True
  then have v': "v \<noteq> 0x7fffffff" using v by (simp add: codable_def)
  note b = length_bits [OF True v']
  from decode_long_length [OF b(3,2,1), of dl eoc pre post t] dl True show ?thesis
    by (simp add: length_header_def)
next
  case False
  moreover have "sint v = int (unat v)" using v sint_nonneg [of v] by (simp add: codable_def)
  ultimately have "unat v < 128" by linarith
  moreover have "0 < dl" using dl False by (simp add: length_header_def word_less_nat_alt)
  ultimately show ?thesis using False decode_short_length [of v dl eoc pre post t]
    by (simp add: length_header_def)
qed

section \<open>Long tags\<close>

lemma foldl_or_push:
  "foldl (OR) (push_bit k a) (map (\<lambda>i. push_bit k (f i)) xs) = push_bit k (foldl (OR) (a::c_int) (map f xs))"
proof (induction xs arbitrary: a)
  case (Cons x xs)
  from Cons [of "a OR f x"] show ?case by (simp add: push_bit_or)
qed simp

lemma tag_septets_snoc:
  "tag_septets (bs @ [b]) = push_bit 7 (tag_septets bs) OR (ucast b AND 0x7f)"
proof -
  let ?F = "\<lambda>i. push_bit (7 * (length (bs @ [b]) - i - 1)) (ucast ((bs @ [b]) ! i) AND 0x7f) :: c_int"
    and ?f = "\<lambda>i. push_bit (7 * (length bs - i - 1)) (ucast (bs ! i) AND 0x7f) :: c_int"
  have shift: "?F i = push_bit 7 (?f i)" if "i < length bs" for i
  proof -
    have "7 * (length (bs @ [b]) - i - 1) = 7 + 7 * (length bs - i - 1)" using that by simp
    then show ?thesis using that by (simp only: push_bit_push_bit nth_append if_True)
  qed
  have "map ?F [0..<length bs] = map (\<lambda>i. push_bit 7 (?f i)) [0..<length bs]"
    by (intro map_cong refl shift) simp
  moreover have "map ?F [0..<length (bs @ [b])] = map ?F [0..<length bs] @ [ucast b AND 0x7f]"
    by simp
  ultimately have "tag_septets (bs @ [b]) =
      foldl (OR) 0 (map (\<lambda>i. push_bit 7 (?f i)) [0..<length bs] @ [ucast b AND 0x7f])"
    by (simp only: tag_septets_def)
  also have "\<dots> = push_bit 7 (foldl (OR) 0 (map ?f [0..<length bs])) OR (ucast b AND 0x7f)"
    using foldl_or_push [of 7 0 ?f "[0..<length bs]"] by (simp only: foldl_append foldl.simps push_bit_of_0)
  finally show ?thesis by (simp only: tag_septets_def)
qed

lemma push_or_septet:
  assumes "unat (x::c_int) < 2 ^ 25"
  shows "unat (push_bit 7 x OR (y AND 0x7f)) = 128 * unat x + unat y mod 128"
proof -
  have "push_bit 7 x OR (y AND 0x7f) = push_bit 7 x + (y AND 0x7f)"
    by (rule disjunctive_add_eq_or [symmetric])
       (rule bit_word_eqI, auto simp: bit_simps septet_mask)
  moreover have "unat (push_bit 7 x) = 128 * unat x"
    using assms by (simp add: push_bit_eq_mult unat_word_ariths)
  moreover have "unat (y AND 0x7f) = unat y mod 128"
    unfolding septet_mask by (simp only: take_bit_eq_mask [symmetric] unsigned_take_bit_eq) (simp add: take_bit_eq_mod)
  moreover have "128 * unat x + unat y mod 128 < 2 ^ 32" using assms by simp
  ultimately show ?thesis by (simp add: unat_word_ariths)
qed

text \<open>The value that is read back from the octets of a long tag.\<close>

fun reread :: "nat \<Rightarrow> nat \<Rightarrow> nat" where
  "reread 0 v = 0"
| "reread (Suc n) v = 128 * reread n (v div 256) + v mod 128"

lemma reread_le: "reread n v \<le> v"
proof (induction n v rule: reread.induct)
  case (1 v)
  show ?case by simp
next
  case (2 n v)
  have "128 * reread n (v div 256) + v mod 128 \<le> 128 * (v div 256) + v mod 128" using 2 by simp
  moreover have "v div 256 \<le> v div 128" by (intro div_le_mono2) auto
  then have "128 * (v div 256) + v mod 128 \<le> 128 * (v div 128) + v mod 128" by linarith
  moreover have "128 * (v div 128) + v mod 128 = v" by simp
  ultimately show ?case unfolding reread.simps by linarith
qed

lemma reread_loses: "128 \<le> v \<Longrightarrow> reread n v < v"
proof (cases n)
  case 0
  moreover assume "128 \<le> v"
  ultimately show ?thesis by simp
next
  case (Suc m)
  assume v: "128 \<le> v"
  have "reread n v \<le> 128 * (v div 256) + v mod 128" using reread_le [of m "v div 256"] Suc by simp
  moreover have "v div 256 = v div 128 div 2" by (simp add: div_mult2_eq [symmetric])
  then have "v div 256 < v div 128" using v by simp
  then have "128 * (v div 256) + v mod 128 < 128 * (v div 128) + v mod 128" by linarith
  moreover have "128 * (v div 128) + v mod 128 = v" by simp
  ultimately show ?thesis by linarith
qed

lemma reread_bound: "reread n v < 128 ^ n"
proof (induction n v rule: reread.induct)
  case (1 v)
  show ?case by simp
next
  case (2 n v)
  have "v mod 128 < 128" by simp
  with 2 show ?case by simp
qed

lemma tag_octets_drop:
  assumes "n \<le> 4"
  shows "tag_octets n v = map (\<lambda>i. let b = 0x80 OR ucast (drop_bit (8 * (n - i - 1)) v)
    in if i = n - 1 then b AND 0x7f else b) [0..<n]"
  unfolding tag_octets_def
proof (intro map_cong refl)
  fix i assume "i \<in> set [0..<n]"
  then have "8 * (n - i - 1) \<le> 24" using assms by auto
  then show "(let b = 0x80 OR ucast (signed_drop_bit (8 * (n - i - 1)) v) in if i = n - 1 then b AND 0x7f else b) =
      (let b = 0x80 OR ucast (drop_bit (8 * (n - i - 1)) v) :: u8 in if i = n - 1 then b AND 0x7f else b)"
    by (simp only: ucast_signed_drop_bit)
qed

text \<open>The octets without the final flag: what is read back from them is \<open>reread\<close>.\<close>

definition flagged :: "nat \<Rightarrow> c_int \<Rightarrow> u8 list" where
  "flagged n v = map (\<lambda>i. 0x80 OR ucast (drop_bit (8 * (n - i - 1)) v)) [0..<n]"

lemma flagged_Suc: "flagged (Suc n) v = flagged n (drop_bit 8 v) @ [0x80 OR ucast v]"
proof -
  have "map (\<lambda>i. 0x80 OR ucast (drop_bit (8 * (Suc n - i - 1)) v)) [0..<n] =
      map (\<lambda>i. 0x80 OR (ucast (drop_bit (8 * (n - i - 1)) (drop_bit 8 v)) :: u8)) [0..<n]"
  proof (intro map_cong refl)
    fix i assume "i \<in> set [0..<n]"
    then have "8 * (Suc n - i - 1) = 8 * (n - i - 1) + 8" by auto
    then show "0x80 OR ucast (drop_bit (8 * (Suc n - i - 1)) v) =
        0x80 OR (ucast (drop_bit (8 * (n - i - 1)) (drop_bit 8 v)) :: u8)"
      by (simp only: drop_bit_drop_bit)
  qed
  then show ?thesis by (simp add: flagged_def)
qed

lemma tag_octets_flagged:
  assumes "n < 4"
  shows "tag_octets (Suc n) v = flagged n (drop_bit 8 v) @ [(0x80 OR ucast v) AND 0x7f]"
proof -
  have "tag_octets (Suc n) v = butlast (flagged (Suc n) v) @ [(0x80 OR ucast v) AND 0x7f]"
    using assms by (simp add: tag_octets_drop flagged_def Let_def)
  then show ?thesis by (simp only: flagged_Suc butlast_snoc)
qed

lemma unat_drop_8: "unat (drop_bit 8 (v::c_int)) = unat v div 256"
  by (simp only: unsigned_drop_bit_eq) (simp add: drop_bit_eq_div take_bit_nat_eq_self unat_lt_exp [of v, simplified])

lemma tag_septets_flagged: "n \<le> 4 \<Longrightarrow> unat (tag_septets (flagged n v)) = reread n (unat v)"
proof (induction n arbitrary: v)
  case 0
  show ?case by (simp add: flagged_def tag_septets_def)
next
  case (Suc n)
  let ?x = "tag_septets (flagged n (drop_bit 8 v))"
  have x: "unat ?x = reread n (unat v div 256)" using Suc by (simp add: unat_drop_8)
  have "reread n (unat v div 256) < 128 ^ n" by (rule reread_bound)
  also have "\<dots> \<le> (128::nat) ^ 3" using Suc.prems by (intro power_increasing) auto
  finally have "unat ?x < 2 ^ 25" using x by simp
  from push_or_septet [OF this, of v] x show ?case
    by (simp only: flagged_Suc tag_septets_snoc septet_of_octet reread.simps)
qed

lemma tag_septets_octets:
  assumes "1 \<le> n" "n \<le> 4"
  shows "unat (tag_septets (tag_octets n v)) = reread n (unat v)"
proof -
  obtain m where n: "n = Suc m" using assms(1) by (cases n) auto
  have "tag_septets (tag_octets n v) = tag_septets (flagged n v)"
    using assms unfolding n by (simp only: tag_octets_flagged Suc_le_eq flagged_Suc tag_septets_snoc septet_of_octet)
  then show ?thesis using tag_septets_flagged assms(2) by simp
qed

lemma continuation_flagged:
  assumes "list_all (\<lambda>b. b AND 0x80 = 0x80) bs" "b AND 0x80 \<noteq> 0x80"
  shows "continuation (bs @ b # post) = Returns (length bs)"
  using assms by (induction bs) auto

lemma tag_octets_continuation:
  assumes "1 \<le> n" "n \<le> 4"
  shows "continuation (tag_octets n v @ post) = Returns (n - 1)"
proof -
  obtain m where n: "n = Suc m" using assms(1) by (cases n) auto
  have "list_all (\<lambda>b. b AND 0x80 = 0x80) (flagged m (drop_bit 8 v))"
    by (simp add: flagged_def list_all_iff flag_bits(1))
  from continuation_flagged [OF this flag_bits(2)] show ?thesis
    using assms unfolding n by (simp add: tag_octets_flagged flagged_def)
qed

lemma tag_octets_length [simp]: "length (tag_octets n v) = n"
  by (simp add: tag_octets_def)

text \<open>The first octet, for every class, complexity and small tag.\<close>

definition first_octet_ok :: "c_int \<Rightarrow> TagClass \<Rightarrow> Complexity \<Rightarrow> bool" where
  "first_octet_ok v c k \<longleftrightarrow>
     (let b = ucast (v OR class_value c OR complexity_value k) :: u8
      in class_of b = c \<and> complexity_of b = k \<and> ucast (b AND 0x1f) = v)"

lemma first_octets_ok:
  "list_all (\<lambda>v. list_all (\<lambda>c. list_all (first_octet_ok v c) [PRIMITIVE, CONSTRUCTED])
     [UNIVERSAL, APPLICATION, CONTEXT_SPECIFIC, PRIVATE]) (map word_of_nat [0..<32])"
  by code_simp

definition known :: "TLVNode \<Rightarrow> bool" where
  "known tlv \<longleftrightarrow> tag_class tlv \<noteq> CLASS_UNKNOWN \<and> complexity tlv \<noteq> COMPLEXITY_UNKNOWN"

lemma first_tag_octet_ok:
  assumes "unat v < 32" "known tlv"
  shows "class_of (first_tag_octet v tlv) = tag_class tlv" "complexity_of (first_tag_octet v tlv) = complexity tlv"
    "ucast (first_tag_octet v tlv AND 0x1f) = v"
proof -
  have "v \<in> set (map word_of_nat [0..<32])"
    using assms(1) by (auto intro!: image_eqI [of _ _ "unat v"])
  moreover have "tag_class tlv \<in> set [UNIVERSAL, APPLICATION, CONTEXT_SPECIFIC, PRIVATE]"
    using assms(2) by (cases "tag_class tlv") (auto simp: known_def)
  moreover have "complexity tlv \<in> set [PRIMITIVE, CONSTRUCTED]"
    using assms(2) by (cases "complexity tlv") (auto simp: known_def)
  ultimately have "first_octet_ok v (tag_class tlv) (complexity tlv)"
    using first_octets_ok unfolding list_all_iff by blast
  then show "class_of (first_tag_octet v tlv) = tag_class tlv" "complexity_of (first_tag_octet v tlv) = complexity tlv"
    "ucast (first_tag_octet v tlv AND 0x1f) = v"
    by (simp_all add: first_octet_ok_def first_tag_octet_def Let_def)
qed

lemma tag_bits:
  assumes "sint (v::c_int) > 30" "sint v < 2 ^ 28"
  shows "1 \<le> req_septet_bytes v" "req_septet_bytes v \<le> 4" "unat v < 2 ^ (7 * req_septet_bytes v)"
proof -
  have v: "sint v = int (unat v)" "unat v < 2 ^ 31" using assms(1) sint_nonneg [of v] by auto
  have "int (unat v) < int (2 ^ 28)" using v(1) assms(2) by simp
  then have small: "unat v < 2 ^ 28" by (simp only: of_nat_less_iff)
  let ?b = "ceil_log2 (unat v + 1)"
  have n: "req_septet_bytes v = (?b + 6) div 7"
    using v(2) by (simp add: req_septet_bytes_def unat_plus_one)
  have "0 < unat v" using v assms(1) by linarith
  note b = ceil_log2_bounds [OF this]
  show "1 \<le> req_septet_bytes v" unfolding n using b(3) by simp
  have "?b \<le> 28" using small by (intro ceil_log2_least) simp
  then show "req_septet_bytes v \<le> 4" unfolding n by simp
  have "unat v < 2 ^ ?b" by (rule b)
  also have "(2::nat) ^ ?b \<le> 2 ^ (7 * req_septet_bytes v)" unfolding n by (intro power_increasing) auto
  finally show "unat v < 2 ^ (7 * req_septet_bytes v)" .
qed

text \<open>The octets of a tag, as \<open>prepare_tag\<close> and \<open>encode_prepared_tag\<close> write them.\<close>

definition tag_header :: "TLVNode \<Rightarrow> u8 list" where
  "tag_header tlv =
     (if sint (tag_value tlv) > 30
      then first_tag_octet 0x1f tlv # tag_octets (req_septet_bytes (tag_value tlv)) (tag_value tlv)
      else [first_tag_octet (tag_value tlv) tlv])"

definition tag_range :: "c_int \<Rightarrow> bool" where
  "tag_range v \<longleftrightarrow> 0 \<le> sint v \<and> sint v < 2 ^ 28"

definition reread_tag :: "c_int \<Rightarrow> c_int" where
  "reread_tag v = (if sint v > 30 then of_nat (reread (req_septet_bytes v) (unat v)) else v)"

lemma encode_tag_header:
  assumes "0 < room" "tag_range (tag_value tlv)"
  shows "encode_tag room tlv = Returns (tag_header tlv, tlv\<lparr>tag_value_size := of_nat (length (tag_header tlv))\<rparr>)"
    "encode_prepared_tag room (prepare_tag tlv) = Returns (tag_header tlv)"
    "tag_value_size (prepare_tag tlv) = of_nat (length (tag_header tlv))"
proof -
  let ?n = "req_septet_bytes (tag_value tlv)"
  have "encode_tag room tlv = Returns (tag_header tlv, tlv\<lparr>tag_value_size := of_nat (length (tag_header tlv))\<rparr>) \<and>
    encode_prepared_tag room (prepare_tag tlv) = Returns (tag_header tlv) \<and>
    tag_value_size (prepare_tag tlv) = of_nat (length (tag_header tlv))"
  proof (cases "sint (tag_value tlv) > 30")
    case True
    have n: "1 \<le> ?n" "?n \<le> 4" using tag_bits [OF True] assms(2) by (auto simp: tag_range_def)
    then have "?n \<in> {1, 2, 3, 4}" by auto
    then have size: "sint (of_nat ?n + 1 :: c_int) > 1" "unat (of_nat ?n :: c_int) = ?n"
      by auto
    show ?thesis using n True assms(1) size
      by (simp add: encode_tag_def encode_prepared_tag_def prepare_tag_def tag_header_def first_tag_octet_def Let_def)
  next
    case False
    then show ?thesis using assms(1)
      by (simp add: encode_tag_def encode_prepared_tag_def prepare_tag_def tag_header_def first_tag_octet_def)
  qed
  then show "encode_tag room tlv = Returns (tag_header tlv, tlv\<lparr>tag_value_size := of_nat (length (tag_header tlv))\<rparr>)"
    "encode_prepared_tag room (prepare_tag tlv) = Returns (tag_header tlv)"
    "tag_value_size (prepare_tag tlv) = of_nat (length (tag_header tlv))" by blast+
qed

lemma decode_tag_header:
  assumes k: "known tlv" and r: "tag_range (tag_value tlv)" and dl: "0 < dl"
  shows "decode_tag (pre @ tag_header tlv @ post) (length pre) dl t =
    Returns (t\<lparr>tag_class := tag_class tlv, complexity := complexity tlv, tag_value := reread_tag (tag_value tlv),
      tag_value_size := of_nat (length (tag_header tlv))\<rparr>)"
proof (cases "sint (tag_value tlv) > 30")
  case True
  let ?v = "tag_value tlv" and ?n = "req_septet_bytes (tag_value tlv)"
  have n: "1 \<le> ?n" "?n \<le> 4" using tag_bits [OF True] r by (auto simp: tag_range_def)
  have "tag_septets (tag_octets ?n ?v) = of_nat (reread ?n (unat ?v))"
    unfolding tag_septets_octets [OF n, of ?v, symmetric] by simp
  then have v: "tag_septets (tag_octets ?n ?v) = reread_tag ?v" using True by (simp add: reread_tag_def)
  have h: "tag_header tlv = first_tag_octet 0x1f tlv # tag_octets ?n ?v" using True by (simp add: tag_header_def)
  have "(ucast (first_tag_octet 0x1f tlv AND 0x1f) :: c_int) = 0x1f" using k by (intro first_tag_octet_ok) auto
  then have "unat (ucast (first_tag_octet 0x1f tlv AND 0x1f) :: c_int) = 31" by simp
  then have "unat (first_tag_octet 0x1f tlv AND 0x1f) = 31" by (simp only: unat_ucast_octet)
  then have long: "first_tag_octet 0x1f tlv AND 0x1f = 0x1f" by (simp add: word_unat_eq_iff)
  from n tag_octets_continuation [OF n, of ?v post] show ?thesis
    using dl k long v
    by (simp add: decode_tag_def h byte_at_middle first_tag_octet_ok guard_def Let_def)
next
  case False
  let ?v = "tag_value tlv"
  have v: "sint ?v = int (unat ?v)" using r sint_nonneg [of ?v] by (simp add: tag_range_def)
  then have small: "unat ?v \<le> 30" using False by linarith
  have h: "tag_header tlv = [first_tag_octet ?v tlv]" using False by (simp add: tag_header_def)
  have tag: "ucast (first_tag_octet ?v tlv AND 0x1f) = ?v" using k small by (intro first_tag_octet_ok) auto
  have "first_tag_octet ?v tlv AND 0x1f \<noteq> 0x1f"
  proof
    assume "first_tag_octet ?v tlv AND 0x1f = 0x1f"
    with tag have "?v = ucast (0x1f :: u8)" by simp
    then have "unat ?v = 31" by simp
    with small show False by simp
  qed
  then show ?thesis using dl k tag small False
    by (simp add: decode_tag_def h byte_at_middle first_tag_octet_ok reread_tag_def)
qed

lemma reread_tag_iff:
  assumes r: "tag_range v" shows "reread_tag v = v \<longleftrightarrow> sint v \<le> 127"
proof (cases "sint v > 30")
  case False
  then show ?thesis by (simp add: reread_tag_def)
next
  case True
  let ?n = "req_septet_bytes v"
  have v: "sint v = int (unat v)" using sint_nonneg [of v] True by linarith
  have le: "reread ?n (unat v) \<le> unat v" by (rule reread_le)
  also have "\<dots> < 2 ^ 32" using unat_lt_exp [of v] by simp
  finally have u: "unat (reread_tag v) = reread ?n (unat v)"
    using True by (simp add: reread_tag_def unat_of_nat)
  show ?thesis
  proof (cases "unat v < 128")
    case small: True
    obtain m where n: "?n = Suc m" using tag_bits [OF True] r by (cases ?n) (auto simp: tag_range_def)
    have "reread m 0 = 0" using reread_le [of m 0] by simp
    then have "reread ?n (unat v) = unat v" using small by (simp add: n)
    then have "reread_tag v = v" using u by (simp add: word_unat_eq_iff)
    moreover have "sint v \<le> 127" using small v by linarith
    ultimately show ?thesis by simp
  next
    case False
    then have "reread ?n (unat v) < unat v" by (intro reread_loses) simp
    then have "reread_tag v \<noteq> v" using u by auto
    moreover have "\<not> sint v \<le> 127" using False v by linarith
    ultimately show ?thesis by simp
  qed
qed

section \<open>Properties\<close>

text \<open>
  C26. Tags survive up to 127: for every class, complexity and tag value below \<open>2 ^ 28\<close>, what
  \<open>encode_tag\<close> writes (and \<open>encode_prepared_tag\<close> after \<open>prepare_tag\<close>) is decoded to the same
  class, complexity and size, in any buffer; the tag value is the same exactly for
  values up to 127, since longer tags are cut into octets but read as septets.
\<close>

theorem asn1_tag_roundtrip:
  assumes "tag_class tlv \<noteq> CLASS_UNKNOWN" "complexity tlv \<noteq> COMPLEXITY_UNKNOWN"
    and "0 \<le> sint (tag_value tlv)" "sint (tag_value tlv) < 2 ^ 28" "0 < room" "0 < data_length"
    and enc: "encode_tag room tlv = Returns (bs, tlv')"
  shows "encode_prepared_tag room (prepare_tag tlv) = Returns bs \<and>
    (\<exists>v. decode_tag (pre @ bs @ post) (length pre) data_length t =
        Returns (t\<lparr>tag_class := tag_class tlv, complexity := complexity tlv, tag_value := v,
          tag_value_size := tag_value_size tlv'\<rparr>) \<and>
      (v = tag_value tlv \<longleftrightarrow> sint (tag_value tlv) \<le> 127))"
proof -
  have r: "tag_range (tag_value tlv)" and k: "known tlv" using assms by (auto simp: tag_range_def known_def)
  note e = encode_tag_header [OF assms(5) r]
  have "bs = tag_header tlv" "tag_value_size tlv' = of_nat (length (tag_header tlv))" using enc e(1) by auto
  then show ?thesis
    using e(2) decode_tag_header [OF k r assms(6), of pre post t] reread_tag_iff [OF r] by auto
qed

theorem asn1_tag_roundtrip_witness:
  "\<exists>v. decode_tag ([9] @ [0x7f, 0x80, 0x48] @ [5]) 1 4 TLVNode_new =
    Returns (TLVNode_new\<lparr>tag_class := APPLICATION, complexity := CONSTRUCTED, tag_value := v, tag_value_size := 3\<rparr>) \<and>
    v \<noteq> 200"
proof -
  let ?t = "TLVNode_new\<lparr>tag_class := APPLICATION, complexity := CONSTRUCTED, tag_value := 200\<rparr>"
  have e: "encode_tag 10 ?t = Returns ([0x7f, 0x80, 0x48], ?t\<lparr>tag_value_size := 3\<rparr>)" by code_simp
  have s: "sint (200::c_int) = 200" by code_simp
  from asn1_tag_roundtrip [OF _ _ _ _ _ _ e, of 4 "[9]" "[5]" TLVNode_new] s show ?thesis
    by (auto simp: TLVNode_new_def)
qed

text \<open>
  C25. Lengths survive: for every length from 0 to \<open>2 ^ 31 - 2\<close>, what \<open>encode_length\<close> writes
  (and \<open>encode_prepared_length\<close> after \<open>prepare_length\<close>) is decoded to that length and to
  the number of octets written, in any buffer, whatever the fuel; and no shorter form
  would do: one octet up to 127, else one more than the octets of the number.
\<close>

theorem asn1_length_roundtrip:
  assumes "0 \<le> sint (value_length tlv)" "value_length tlv \<noteq> 0x7fffffff" "0 < room"
    and enc: "encode_length room tlv = (bs, tlv')" and left: "length bs \<le> unat data_length"
  shows "encode_prepared_length room (prepare_length tlv) = Returns bs \<and>
    decode_length fuel (pre @ bs @ post) (length pre) data_length t =
      Returns (0, t\<lparr>length_type := length_type (prepare_length tlv), value_length_size := of_nat (length bs),
        value_length := value_length tlv\<rparr>) \<and>
    (if sint (value_length tlv) \<le> 127 then length bs = 1
     else length bs \<le> 5 \<and> 2 ^ (8 * (length bs - 2)) \<le> sint (value_length tlv) \<and>
       sint (value_length tlv) < 2 ^ (8 * (length bs - 1)))"
proof -
  let ?v = "value_length tlv"
  have c: "codable ?v" using assms(1,2) by (simp add: codable_def)
  have bs: "bs = length_header ?v" using encode_length_header [OF assms(3)] enc by (metis fst_conv)
  have v: "sint ?v = int (unat ?v)" using sint_nonneg assms(1) by blast
  have size: "if sint ?v \<le> 127 then length bs = 1
     else length bs \<le> 5 \<and> 2 ^ (8 * (length bs - 2)) \<le> sint ?v \<and> sint ?v < 2 ^ (8 * (length bs - 1))"
  proof (cases "sint ?v \<le> 127")
    case True
    then show ?thesis by (simp add: bs length_header_def)
  next
    case False
    then have long: "sint ?v > 127" by simp
    note b = length_bits [OF long assms(2)]
    have "int (2 ^ (8 * (req_length_bytes ?v - 1))) \<le> int (unat ?v)" "int (unat ?v) < int (2 ^ (8 * req_length_bytes ?v))"
      using b by (simp_all only: of_nat_le_iff of_nat_less_iff)
    then show ?thesis using False b v by (simp add: bs length_header_def)
  qed
  from encode_prepared_length_header [OF assms(3) c] decode_length_header [OF c, of data_length "find_eoc fuel (pre @ bs @ post)" pre post t]
    left size show ?thesis
    by (simp add: bs decode_length_def prepare_length_def)
qed

theorem asn1_length_roundtrip_witness:
  "decode_length 0 ([9] @ [0x82, 0x01, 0x2c] @ []) 1 3 TLVNode_new =
    Returns (0, TLVNode_new\<lparr>length_type := DEFINITE_LONG, value_length_size := 3, value_length := 300\<rparr>)"
proof -
  let ?t = "TLVNode_new\<lparr>value_length := 300\<rparr>"
  have e: "encode_length 10 ?t = ([0x82, 0x01, 0x2c], ?t\<lparr>value_length_size := 3\<rparr>)" by code_simp
  have s: "sint (300::c_int) = 300" by code_simp
  from asn1_length_roundtrip [OF _ _ _ e, of 3 0 "[9]" "[]" TLVNode_new] s show ?thesis
    by (simp add: prepare_length_def)
qed

end
