(* ===== verification/Asn1_Tree.thy ===== *)
theory Asn1_Tree
  imports Asn1_Codec
begin

text \<open>
  The node trees of \<^verbatim>\<open>src/asn1/asn1.h\<close> and \<^verbatim>\<open>src/asn1/asn1.cpp\<close>. Nodes and TLV nodes are
  shared and updated through pointers, so they live in a store: an address is a number,
  \<open>None\<close> is NULL, and following NULL is \<open>Undefined\<close>. Buffers are numbered too. The virtual
  functions \<open>create_node\<close> and \<open>get_next_node\<close>, which the classes generated from the ASN.1
  modules override, are parameters that may change the store. Sizes of tags are never
  negative, so adding one to a pointer is an addition. Not modelled: destructors, the
  printing of trees and the conversions of time stamps.
\<close>

section \<open>Store\<close>

record ASN1Node =
  node_tlv :: "nat option"
  session_id :: u64
  node_type_name :: "string option"
  children :: "nat option list"
  linked_node :: "nat option"
  parent_node :: "nat option"
  choice_selection :: "nat option"

definition ASN1Node_new :: ASN1Node where
  "ASN1Node_new =
     \<lparr>node_tlv = None, session_id = 0, node_type_name = None, children = [], linked_node = None,
      parent_node = None, choice_selection = None\<rparr>"

record ASN1Pool =
  TLV_POOL :: "nat list"
  ASN1_POOL :: "nat list"
  tlv_count :: int
  asn1_node_count :: int
  free_tlv_count :: int
  free_asn1_node_count :: int
  next_free_tlv :: "nat option"
  next_free_asn1_node :: "nat option"

record asn1_state =
  nodes :: "nat \<Rightarrow> ASN1Node"
  tlvs :: "nat \<Rightarrow> TLVNode"
  buffers :: "nat \<Rightarrow> u8 list"
  pool :: ASN1Pool

definition put_tlv :: "nat \<Rightarrow> TLVNode \<Rightarrow> asn1_state \<Rightarrow> asn1_state" where
  "put_tlv a t s = s\<lparr>tlvs := (tlvs s)(a := t)\<rparr>"

definition put_node :: "nat \<Rightarrow> ASN1Node \<Rightarrow> asn1_state \<Rightarrow> asn1_state" where
  "put_node a n s = s\<lparr>nodes := (nodes s)(a := n)\<rparr>"

lemma put_simps [simp]:
  "nodes (put_tlv a t s) = nodes s" "tlvs (put_tlv a t s) = (tlvs s)(a := t)"
  "buffers (put_tlv a t s) = buffers s" "pool (put_tlv a t s) = pool s"
  "nodes (put_node a n s) = (nodes s)(a := n)" "tlvs (put_node a n s) = tlvs s"
  "buffers (put_node a n s) = buffers s" "pool (put_node a n s) = pool s"
  by (simp_all add: put_tlv_def put_node_def)

section \<open>Node classes\<close>

text \<open>
  The constructors of the standard classes: the name and the TLV node each class gives
  its node. \<open>leaf\<close> is the common part.
\<close>

definition leaf :: "string \<Rightarrow> UniversalClassTag \<Rightarrow> string \<times> TLVNode" where
  "leaf nm t = (nm, TLVNode_new\<lparr>uni_tag_class := t\<rparr>)"

definition constructed_leaf :: "string \<Rightarrow> UniversalClassTag \<Rightarrow> bool \<Rightarrow> string \<times> TLVNode" where
  "constructed_leaf nm t u =
     (nm, TLVNode_new\<lparr>uni_tag_class := t, complexity := CONSTRUCTED, unlimited_size := u\<rparr>)"

definition Any_new :: "string \<times> TLVNode" where
  "Any_new = (''ANY'', TLVNode_new\<lparr>uni_tag_class := ANY, tag_value := uni_value ANY\<rparr>)"

definition Choice_new :: "string \<times> TLVNode" where "Choice_new = leaf ''CHOICE'' CHOICE"
definition Boolean_new :: "string \<times> TLVNode" where "Boolean_new = leaf ''BOOLEAN'' BOOLEAN"
definition Integer_new :: "string \<times> TLVNode" where "Integer_new = leaf ''INTEGER'' INTEGER"
definition Bit_string_new :: "string \<times> TLVNode" where "Bit_string_new = leaf ''BIT STRING'' BIT_STRING"
definition Octet_string_new :: "string \<times> TLVNode" where "Octet_string_new = leaf ''OCTET STRING'' OCTET_STRING"
definition PrintableString_new :: "string \<times> TLVNode" where
  "PrintableString_new = leaf ''PRINTABLE STRING'' PRINTABLE_STRING"
definition Null_new :: "string \<times> TLVNode" where "Null_new = leaf ''NULL'' NULL_TAG"
definition Object_identifier_new :: "string \<times> TLVNode" where
  "Object_identifier_new = leaf ''OBJECT IDENTIFIER'' OBJECT_IDENTIFIER"
definition Object_descriptor_new :: "string \<times> TLVNode" where
  "Object_descriptor_new = leaf ''OBJECT DESCRIPTOR'' OBJECT_DESCRIPTOR"
definition Real_new :: "string \<times> TLVNode" where "Real_new = leaf ''REAL'' REAL"
definition Enumerated_new :: "string \<times> TLVNode" where "Enumerated_new = leaf ''ENUMERATED'' ENUMERATED"
definition Embedded_pdv_new :: "string \<times> TLVNode" where "Embedded_pdv_new = leaf ''EMBEDDED PDV'' EMBEDDED_PDV"
definition Utf8_string_new :: "string \<times> TLVNode" where "Utf8_string_new = leaf ''UTF8String'' UTF8STRING"
definition Relative_oid_new :: "string \<times> TLVNode" where "Relative_oid_new = leaf ''RELATIVE-OID'' RELATIVE_OID"
definition Sequence_new :: "string \<times> TLVNode" where
  "Sequence_new = constructed_leaf ''SEQUENCE'' SEQUENCE False"
definition Sequence_of_new :: "string \<times> TLVNode" where
  "Sequence_of_new = constructed_leaf ''SEQUENCE OF'' SEQUENCE_OF True"

text \<open>A \<open>Set\<close> is not marked as constructed, unlike a \<open>Sequence\<close>.\<close>

definition Set_new :: "string \<times> TLVNode" where "Set_new = leaf ''SET'' SET"
definition Set_of_new :: "string \<times> TLVNode" where "Set_of_new = constructed_leaf ''SET OF'' SET_OF True"
definition Numeric_string_new :: "string \<times> TLVNode" where
  "Numeric_string_new = leaf ''NumericString'' NUMERIC_STRING"
definition Printable_string_new :: "string \<times> TLVNode" where
  "Printable_string_new = leaf ''PrintableString'' PRINTABLE_STRING"
definition T61_string_new :: "string \<times> TLVNode" where "T61_string_new = leaf ''T61String'' T61STRING"
definition Videotex_string_new :: "string \<times> TLVNode" where
  "Videotex_string_new = leaf ''VideotexString'' VIDEOTEX_STRING"
definition IA5String_new :: "string \<times> TLVNode" where "IA5String_new = leaf ''IA5String'' IA5_STRING"
definition Utc_time_new :: "string \<times> TLVNode" where "Utc_time_new = leaf ''UTCTime'' UTC_TIME"
definition Generalized_time_new :: "string \<times> TLVNode" where
  "Generalized_time_new = leaf ''GeneralizedTime'' GENERALIZED_TIME"
definition Graphic_string_new :: "string \<times> TLVNode" where
  "Graphic_string_new = leaf ''GraphicString'' GRAPHIC_STRING"
definition Visible_string_new :: "string \<times> TLVNode" where
  "Visible_string_new = leaf ''VisibleString'' VISIBLE_STRING"
definition General_string_new :: "string \<times> TLVNode" where
  "General_string_new = leaf ''GeneralString'' GENERAL_STRING"
definition Universal_string_new :: "string \<times> TLVNode" where
  "Universal_string_new = leaf ''UniversalString'' UNIVERSAL_STRING"
definition Character_string_new :: "string \<times> TLVNode" where
  "Character_string_new = leaf ''CHARACTER STRING'' CHARACTER_STRING"
definition Bmp_string_new :: "string \<times> TLVNode" where "Bmp_string_new = leaf ''BMPString'' BMP_STRING"
definition GeneralizedTime_new :: "string \<times> TLVNode" where
  "GeneralizedTime_new =
     (''GeneralizedTime'', TLVNode_new\<lparr>uni_tag_class := GENERALIZED_TIME, tag_value := 24\<rparr>)"
definition UTCTime_new :: "string \<times> TLVNode" where
  "UTCTime_new = (''UTCTime'', TLVNode_new\<lparr>uni_tag_class := UTC_TIME, tag_value := 23\<rparr>)"

section \<open>Pool\<close>

definition ASN1Pool_new :: ASN1Pool where
  "ASN1Pool_new =
     \<lparr>TLV_POOL = [], ASN1_POOL = [], tlv_count = 100, asn1_node_count = 100, free_tlv_count = 100,
      free_asn1_node_count = 100, next_free_tlv = None, next_free_asn1_node = None\<rparr>"

definition set_pool_size :: "int \<Rightarrow> int \<Rightarrow> ASN1Pool \<Rightarrow> ASN1Pool" where
  "set_pool_size tc nc pl =
     pl\<lparr>tlv_count := tc, free_tlv_count := tc, asn1_node_count := nc, free_asn1_node_count := nc\<rparr>"

definition pool_at :: "nat list \<Rightarrow> int \<Rightarrow> nat outcome" where
  "pool_at xs i = (if 0 \<le> i \<and> nat i < length xs then Returns (xs ! nat i) else Undefined)"

text \<open>\<open>ta\<close> and \<open>na\<close> are the addresses that \<open>new\<close> returns, as many as the loops allocate.\<close>

definition init_pool :: "nat list \<Rightarrow> nat list \<Rightarrow> asn1_state \<Rightarrow> asn1_state outcome" where
  "init_pool ta na s =
     (let pl = pool s;
          tp = TLV_POOL pl @ ta;
          np = ASN1_POOL pl @ na;
          s = s\<lparr>tlvs := (\<lambda>a. if a \<in> set ta then TLVNode_new else tlvs s a),
                nodes := (\<lambda>a. if a \<in> set na then ASN1Node_new else nodes s a)\<rparr>
      in and_then (pool_at tp (free_tlv_count pl - 1)) (\<lambda>t.
         and_then (pool_at np (free_asn1_node_count pl - 1)) (\<lambda>n.
         Returns (s\<lparr>pool := pl\<lparr>TLV_POOL := tp, ASN1_POOL := np, next_free_tlv := Some t, next_free_asn1_node := Some n\<rparr>\<rparr>))))"

definition request_tlv :: "asn1_state \<Rightarrow> (nat option \<times> asn1_state) outcome" where
  "request_tlv s =
     (let pl = pool s;
          tmp = next_free_tlv pl;
          free = free_tlv_count pl - 1;
          free = (if free \<le> 0 then tlv_count pl else free)
      in and_then (pool_at (TLV_POOL pl) (free - 1)) (\<lambda>t.
         Returns (tmp, s\<lparr>pool := pl\<lparr>free_tlv_count := free, next_free_tlv := Some t\<rparr>\<rparr>)))"

definition request_asn1_node :: "asn1_state \<Rightarrow> (nat option \<times> asn1_state) outcome" where
  "request_asn1_node s =
     (let pl = pool s;
          tmp = next_free_asn1_node pl;
          free = free_asn1_node_count pl - 1;
          free = (if free \<le> 0 then asn1_node_count pl else free)
      in and_then (pool_at (ASN1_POOL pl) (free - 1)) (\<lambda>n.
         Returns (tmp, s\<lparr>pool := pl\<lparr>free_asn1_node_count := free, next_free_asn1_node := Some n\<rparr>\<rparr>)))"

section \<open>Decoding without a definition\<close>

text \<open>
  The private \<open>_decode\<close> and the public \<open>decode\<close> with its fresh node counter; children go
  through the public one. The data are \<open>data_length\<close> octets at position \<open>p\<close> of buffer \<open>b\<close>.
\<close>

definition indefinite_extra :: "TLVNode \<Rightarrow> c_int" where
  "indefinite_extra t = (if length_type t = INDEFINITE then 2 else 0)"

text \<open>What both decoders do up to the value: the return code, the position and the node.\<close>

definition decode_header ::
  "nat \<Rightarrow> u8 list \<Rightarrow> nat \<Rightarrow> nat \<Rightarrow> u32 \<Rightarrow> u32 \<Rightarrow> TLVNode \<Rightarrow> (c_int \<times> u32 \<times> TLVNode) outcome" where
  "decode_header fuel mem b p data_length pos t =
     (let t = t\<lparr>full_tlv := Some (b, p + unat pos)\<rparr> in
      and_then (decode_tag mem (p + unat pos) data_length t) (\<lambda>t.
      let pos = pos + tag_value_size t in
      and_then (decode_length fuel mem (p + unat pos) (data_length - pos) t) (\<lambda>(res, t).
      if res \<noteq> 0 then Returns (300, pos, t)
      else
        let t = t\<lparr>full_tlv_length := value_length_size t + value_length t + tag_value_size t + indefinite_extra t\<rparr>;
            pos = pos + value_length_size t in
        if value_length t > data_length - pos then Returns (200, pos, t)
        else Returns (0, pos, t\<lparr>tlv_value := Some (b, p + unat pos)\<rparr>))))"

definition push_child :: "nat \<Rightarrow> nat \<Rightarrow> asn1_state \<Rightarrow> asn1_state" where
  "push_child root n s = put_node root ((nodes s root)\<lparr>children := children (nodes s root) @ [Some n]\<rparr>) s"

primrec decode_loop ::
  "nat \<Rightarrow> nat \<Rightarrow> nat \<Rightarrow> u32 \<Rightarrow> nat \<Rightarrow> u32 \<Rightarrow> u32 \<Rightarrow> asn1_state \<Rightarrow> (c_int \<times> u32 \<times> asn1_state) outcome" where
  "decode_loop 0 b p data_length root pos used_nc s = OutOfFuel"
| "decode_loop (Suc fuel) b p data_length root pos used_nc s =
     (if \<not> pos < data_length then Returns (0, used_nc, s)
      else
        and_then (request_tlv s) (\<lambda>(ptr, s).
        and_then (the_ptr ptr) (\<lambda>a.
        let s = put_tlv a ((tlvs s a)\<lparr>value_length := 0\<rparr>) s;
            used_nc = used_nc + 1 in
        if used_nc > word_of_int (tlv_count (pool s)) then Returns (400, used_nc, s)
        else
          and_then (decode_header fuel (buffers s b) b p data_length pos (tlvs s a)) (\<lambda>(res, pos, t).
          let s = put_tlv a t s in
          if res \<noteq> 0 then Returns (res, used_nc, s)
          else
            and_then (request_asn1_node s) (\<lambda>(nptr, s).
            and_then (the_ptr nptr) (\<lambda>n.
            let s = put_node n ((nodes s n)\<lparr>children := [], node_type_name := None, node_tlv := Some a\<rparr>) s;
                s = push_child root n s in
            and_then
              (if complexity t = CONSTRUCTED
               then and_then (decode_loop fuel b (p + unat pos) (value_length t) n 0 0 s) (\<lambda>(r, _, s). Returns (r, s))
               else Returns (0, s)) (\<lambda>(res, s).
            if res \<noteq> 0 then Returns (res, used_nc, s)
            else
              let t = tlvs s a;
                  pos = pos + (value_length t + indefinite_extra t)
              in decode_loop fuel b p data_length root pos used_nc s)))))))"

definition decode :: "nat \<Rightarrow> nat \<Rightarrow> nat \<Rightarrow> u32 \<Rightarrow> nat \<Rightarrow> asn1_state \<Rightarrow> (c_int \<times> asn1_state) outcome" where
  "decode fuel b p data_length root s =
     and_then (decode_loop fuel b p data_length root 0 0 s) (\<lambda>(r, _, s). Returns (r, s))"

end
