(* ===== verification/Asn1_Decode.thy ===== *)
theory Asn1_Decode
  imports Asn1_Tree
begin

text \<open>
  The decoder of \<^verbatim>\<open>src/asn1/asn1.cpp\<close> against the BER grammar: what \<open>find_eoc\<close> and \<open>decode\<close> do
  on the octets of a tree of TLVs with definite or indefinite lengths.
\<close>

section \<open>BER trees\<close>

text \<open>A primitive or constructed TLV; the flag says that its length is indefinite.\<close>

datatype ber = BPrim TagClass c_int "u8 list" | BCons TagClass c_int bool "ber list"

definition tag_bytes :: "TagClass \<Rightarrow> Complexity \<Rightarrow> c_int \<Rightarrow> u8 list" where
  "tag_bytes c k v = tag_header (TLVNode_new\<lparr>tag_class := c, complexity := k, tag_value := v\<rparr>)"

fun ber_bytes :: "ber \<Rightarrow> u8 list" where
  "ber_bytes (BPrim c v bs) = tag_bytes c PRIMITIVE v @ length_header (of_nat (length bs)) @ bs"
| "ber_bytes (BCons c v indef ts) =
     tag_bytes c CONSTRUCTED v @
     (if indef then [0x80] @ concat (map ber_bytes ts) @ [0, 0]
      else length_header (of_nat (length (concat (map ber_bytes ts)))) @ concat (map ber_bytes ts))"

abbreviation bers :: "ber list \<Rightarrow> u8 list" where
  "bers ts \<equiv> concat (map ber_bytes ts)"

text \<open>Tags the encoder gets right, and no end-of-contents mark where one would be looked for.\<close>

definition tag_ok :: "TagClass \<Rightarrow> c_int \<Rightarrow> bool" where
  "tag_ok c v \<longleftrightarrow> c \<noteq> CLASS_UNKNOWN \<and> 0 \<le> sint v \<and> sint v \<le> 127"

fun ber_ok :: "ber \<Rightarrow> bool" where
  "ber_ok (BPrim c v bs) \<longleftrightarrow> tag_ok c v"
| "ber_ok (BCons c v indef ts) \<longleftrightarrow> tag_ok c v \<and> (\<forall>t \<in> set ts. ber_ok t) \<and>
     (indef \<longrightarrow> ts \<noteq> [] \<and> BPrim UNIVERSAL 0 [] \<notin> set ts)"

fun ber_count :: "ber \<Rightarrow> nat" where
  "ber_count (BPrim c v bs) = 1"
| "ber_count (BCons c v indef ts) = Suc (sum_list (map ber_count ts))"

abbreviation ber_counts :: "ber list \<Rightarrow> nat" where
  "ber_counts ts \<equiv> sum_list (map ber_count ts)"

section \<open>Headers\<close>

lemma decode_tag_bytes:
  assumes "tag_ok c v" "k \<noteq> COMPLEXITY_UNKNOWN" "0 < dl" "q = length pre"
  shows "decode_tag (pre @ tag_bytes c k v @ post) q dl t =
    Returns (t\<lparr>tag_class := c, complexity := k, tag_value := v, tag_value_size := of_nat (length (tag_bytes c k v))\<rparr>)"
proof -
  let ?t = "TLVNode_new\<lparr>tag_class := c, complexity := k, tag_value := v\<rparr>"
  have r: "tag_range v" using assms(1) by (simp add: tag_ok_def tag_range_def)
  then have "reread_tag v = v" using reread_tag_iff assms(1) by (simp add: tag_ok_def)
  then show ?thesis
    using decode_tag_header [of ?t dl pre post t] r assms by (simp add: known_def tag_ok_def tag_bytes_def)
qed

lemma tag_bytes_nonempty: "1 \<le> length (tag_bytes c k v)"
  by (simp add: tag_bytes_def tag_header_def)

lemma length_header_nonempty: "1 \<le> length (length_header v)"
  by (simp add: length_header_def)

lemma u32_of_nat: "n \<le> unat (dl::u32) \<Longrightarrow> unat (of_nat n :: u32) = n"
  using unat_lt_exp [of dl] by (simp add: unat_of_nat)

lemma codable_of_nat: "n < 2 ^ 31 - 1 \<Longrightarrow> codable (of_nat n)" "n < 2 ^ 31 - 1 \<Longrightarrow> unat (of_nat n :: c_int) = n"
proof -
  assume n: "n < 2 ^ 31 - 1"
  then show u: "unat (of_nat n :: c_int) = n" by (simp add: unat_of_nat)
  then have "sint (of_nat n :: c_int) = int n" using n by (subst sint_small) auto
  moreover have "(of_nat n :: c_int) \<noteq> 0x7fffffff"
  proof
    assume "(of_nat n :: c_int) = 0x7fffffff"
    then have "unat (of_nat n :: c_int) = 0x7fffffff" by simp
    with u n show False by simp
  qed
  ultimately show "codable (of_nat n)" by (simp add: codable_def)
qed

section \<open>Skipping a TLV\<close>

lemma decode_indefinite:
  assumes "q = length pre" "0 < dl" "eoc (q + 1) (dl - 1) = Returns n"
  shows "decode_length_with eoc (pre @ 0x80 # post) q dl t =
    Returns (0, t\<lparr>length_type := INDEFINITE, value_length_size := 1, value_length := n\<rparr>)"
  using assms by (simp add: decode_length_with_def byte_at_middle)

lemma skip_definite:
  assumes mem: "mem = pre @ mid @ tag_bytes c k v @ length_header (of_nat (length body)) @ post"
    and ok: "tag_ok c v" "k \<noteq> COMPLEXITY_UNKNOWN" and n: "length body < 2 ^ 31 - 1"
    and dl: "length mid + length (tag_bytes c k v) + length (length_header (of_nat (length body))) + length body \<le> unat dl"
    and pos: "p = length pre" "pos = of_nat (length mid)"
  shows "\<exists>t'. skip_tlv eoc mem p dl pos t = Returns
    (of_nat (length mid + length (tag_bytes c k v) + length (length_header (of_nat (length body))) + length body), t')"
proof -
  let ?tg = "tag_bytes c k v" and ?lh = "length_header (of_nat (length body))"
  have "0 < unat dl" using dl tag_bytes_nonempty [of c k v] by linarith
  then have dl0: "0 < dl" by (simp add: word_less_nat_alt)
  have p1: "p + unat pos = length (pre @ mid)" using dl pos by (simp add: u32_of_nat [of _ dl])
  have p2: "p + unat (pos + of_nat (length ?tg)) = length ((pre @ mid) @ ?tg)"
    using dl pos u32_of_nat [of "length mid + length ?tg" dl] by simp
  have tag: "decode_tag mem (p + unat pos) dl t = Returns (t\<lparr>tag_class := c, complexity := k, tag_value := v,
      tag_value_size := of_nat (length ?tg)\<rparr>)"
    using decode_tag_bytes [OF ok dl0 p1, of "?lh @ post" t] by (simp add: mem)
  have len: "decode_length_with eoc mem (p + unat (pos + of_nat (length ?tg))) dl t' =
      Returns (0, t'\<lparr>length_type := (if sint (of_nat (length body) :: c_int) > 127 then DEFINITE_LONG else DEFINITE_SHORT),
        value_length_size := of_nat (length ?lh), value_length := of_nat (length body)\<rparr>)" for t'
    using decode_length_header [OF codable_of_nat(1) [OF n], of dl eoc "(pre @ mid) @ ?tg" post t'] dl
    by (simp add: mem p2)
  have "\<exists>t'. skip_tlv eoc mem p dl pos t = Returns
      (pos + of_nat (length ?tg) + of_nat (length ?lh) + of_nat (length body), t')"
  proof -
    have "k = PRIMITIVE \<or> k = CONSTRUCTED" using ok(2) by (cases k) auto
    then show ?thesis by (auto simp: skip_tlv_def tag len Let_def)
  qed
  then show ?thesis by (simp add: pos)
qed

lemma skip_indefinite:
  assumes mem: "mem = pre @ mid @ tag_bytes c CONSTRUCTED v @ 0x80 # post"
    and ok: "tag_ok c v"
    and dl: "length mid + length (tag_bytes c CONSTRUCTED v) + 1 + n + 2 \<le> unat dl"
    and pos: "p = length pre" "pos = of_nat (length mid)"
    and eoc: "\<And>len. n + 2 \<le> unat len \<Longrightarrow>
      eoc (p + length mid + length (tag_bytes c CONSTRUCTED v) + 1) len = Returns (of_nat n)"
  shows "\<exists>t'. skip_tlv eoc mem p dl pos t = Returns
    (of_nat (length mid + length (tag_bytes c CONSTRUCTED v) + 1 + n + 2), t')"
proof -
  let ?tg = "tag_bytes c CONSTRUCTED v"
  have "0 < unat dl" using dl by linarith
  then have dl0: "0 < dl" by (simp add: word_less_nat_alt)
  have p1: "p + unat pos = length (pre @ mid)" using dl pos by (simp add: u32_of_nat [of _ dl])
  have p2: "p + unat (pos + of_nat (length ?tg)) = length ((pre @ mid) @ ?tg)"
    using dl pos u32_of_nat [of "length mid + length ?tg" dl] by simp
  have p3: "p + unat (pos + of_nat (length ?tg) + 1) = p + length mid + length ?tg + 1"
    using dl pos u32_of_nat [of "length mid + length ?tg + 1" dl] by (simp add: add.commute add.left_commute)
  have tag: "decode_tag mem (p + unat pos) dl t = Returns (t\<lparr>tag_class := c, complexity := CONSTRUCTED, tag_value := v,
      tag_value_size := of_nat (length ?tg)\<rparr>)"
    using decode_tag_bytes [OF ok _ dl0 p1, of CONSTRUCTED "0x80 # post" t] by (simp add: mem)
  have "unat (dl - 1) = unat dl - 1"
    using dl by (subst unat_sub) (auto simp: word_le_nat_alt)
  then have f1: "eoc (p + length mid + length ?tg + 1) (dl - 1) = Returns (of_nat n)"
    using dl by (intro eoc) simp
  then have f1': "eoc (p + unat (pos + of_nat (length ?tg)) + 1) (dl - 1) = Returns (of_nat n)"
    unfolding p2 using pos by (simp add: add.assoc)
  have "unat (dl - of_nat (length mid + length ?tg + 1)) = unat dl - (length mid + length ?tg + 1)"
    using dl u32_of_nat [of "length mid + length ?tg + 1" dl] by (subst unat_sub) (auto simp: word_le_nat_alt)
  then have f2: "eoc (p + length mid + length ?tg + 1) (dl - (pos + of_nat (length ?tg) + 1)) = Returns (of_nat n)"
    using dl pos by (intro eoc) (simp add: algebra_simps)
  have len: "decode_length_with eoc mem (p + unat (pos + of_nat (length ?tg))) dl t' =
      Returns (0, t'\<lparr>length_type := INDEFINITE, value_length_size := 1, value_length := of_nat n\<rparr>)" for t'
    using decode_indefinite [where eoc = eoc, OF p2 dl0 f1', of post t'] by (simp add: mem)
  have "\<exists>t'. skip_tlv eoc mem p dl pos t = Returns (pos + of_nat (length ?tg) + 1 + (of_nat n + 2), t')"
    using f2 by (simp add: skip_tlv_def tag len p3 Let_def)
  then show ?thesis by (simp add: pos ac_simps)
qed

section \<open>The end of an indefinite length\<close>

lemma ber_starts:
  assumes "ber_ok x" "x \<noteq> BPrim UNIVERSAL 0 []" and small: "length (ber_bytes x) < 2 ^ 31 - 1"
  shows "\<exists>b b' bs. ber_bytes x = b # b' # bs \<and> \<not> (b = 0 \<and> b' = 0)"
proof -
  obtain c k v rest where x: "ber_bytes x = tag_bytes c k v @ rest" "rest \<noteq> []" "tag_ok c v" "k \<noteq> COMPLEXITY_UNKNOWN"
    and rest: "c = UNIVERSAL \<Longrightarrow> k = PRIMITIVE \<Longrightarrow> v = 0 \<Longrightarrow> hd rest \<noteq> 0"
  proof (cases x)
    case (BPrim c v bs)
    have n: "length bs < 2 ^ 31 - 1" using small BPrim by simp
    have ne: "length_header (of_nat (length bs)) \<noteq> []" for bs :: "u8 list"
      using length_header_nonempty [of "of_nat (length bs)"] by auto
    have "hd (length_header (of_nat (length bs)) @ bs) \<noteq> 0" if bs: "bs \<noteq> []"
    proof (cases "sint (of_nat (length bs) :: c_int) > 127")
      case True
      have "(of_nat (length bs) :: c_int) \<noteq> 0x7fffffff" using codable_of_nat(1) [OF n] by (simp add: codable_def)
      note b = length_bits [OF True this]
      show ?thesis using long_length_octet(1) [OF b(3,2)] True by (auto simp: length_header_def)
    next
      case False
      have "sint (of_nat (length bs) :: c_int) = int (length bs)"
        using codable_of_nat [OF n] sint_nonneg [of "of_nat (length bs)"] by (simp add: codable_def)
      then have l: "unat (of_nat (length bs) :: c_int) < 128" using False codable_of_nat(2) [OF n] by simp
      have "unat (ucast (of_nat (length bs) :: c_int) :: u8) = length bs"
        using l codable_of_nat(2) [OF n] by (subst unat_to_octet) auto
      then have "(ucast (of_nat (length bs) :: c_int) :: u8) \<noteq> 0" using bs by auto
      then show ?thesis using False by (simp add: length_header_def)
    qed
    then show ?thesis using assms(1,2) BPrim ne [of bs]
      by (intro that [of c PRIMITIVE v "length_header (of_nat (length bs)) @ bs"]) auto
  next
    case (BCons c v indef ts)
    have "(if indef then [0x80] @ bers ts @ [0, 0] else length_header (of_nat (length (bers ts))) @ bers ts) \<noteq> []"
      using length_header_nonempty [of "of_nat (length (bers ts))"] by auto
    then show ?thesis using assms(1) BCons by (intro that [of c CONSTRUCTED v]) auto
  qed
  obtain b bs where tag: "tag_bytes c k v = b # bs" using tag_bytes_nonempty [of c k v] by (cases "tag_bytes c k v") auto
  obtain b' bs' where more: "bs @ rest = b' # bs'" using x(2) by (cases "bs @ rest") auto
  have "\<not> (b = 0 \<and> b' = 0)"
  proof
    assume z: "b = 0 \<and> b' = 0"
    let ?t = "TLVNode_new\<lparr>tag_class := c, complexity := k, tag_value := v\<rparr>"
    have known: "known ?t" using x(3,4) by (simp add: known_def tag_ok_def)
    have first: "b = first_tag_octet (if sint v > 30 then 0x1f else v) ?t" "sint v \<le> 30 \<Longrightarrow> bs = []"
      using tag by (auto simp: tag_bytes_def tag_header_def split: if_splits)
    have "0 \<le> sint v" using x(3) by (simp add: tag_ok_def)
    then have v: "sint v = int (unat v)" using sint_nonneg by blast
    have "unat v < 32" if "\<not> sint v > 30" using v that by linarith
    then have "unat (if sint v > 30 then 0x1f else v) < 32" by simp
    note f = first_tag_octet_ok [OF this known, folded first(1)]
    have "(if sint v > 30 then 0x1f else v) = 0" using f(3) z by simp
    then have v0: "v = 0" "sint v \<le> 30" by (auto split: if_splits)
    have "c = UNIVERSAL" "k = PRIMITIVE" using f(1,2) z by (simp_all add: class_of_def complexity_of_def)
    from rest [OF this v0(1)] first(2) [OF v0(2)] more z show False by simp
  qed
  then show ?thesis using x(1) tag more by auto
qed

definition no_mark :: "ber \<Rightarrow> bool" where
  "no_mark x \<longleftrightarrow> ber_ok x \<and> x \<noteq> BPrim UNIVERSAL 0 []"

lemma ber_count_pos: "1 \<le> ber_count x"
  by (cases x) auto

lemma ber_ok_indefinite: "ber_ok (BCons c v True ts) \<Longrightarrow> ts \<noteq> [] \<and> (\<forall>x \<in> set ts. no_mark x)"
  by (auto simp: no_mark_def)

text \<open>One TLV is skipped, given that inner indefinite lengths are found.\<close>

lemma skip_ber:
  assumes mem: "mem = pre @ mid @ ber_bytes x @ post" and ok: "ber_ok x"
    and dl: "length mid + length (ber_bytes x) \<le> unat dl" and n: "length (ber_bytes x) < 2 ^ 31 - 1"
    and p: "p = length pre"
    and inner: "\<And>c v ts len pre' post'. x = BCons c v True ts \<Longrightarrow> mem = pre' @ bers ts @ 0 # 0 # post' \<Longrightarrow>
      length (bers ts) + 2 \<le> unat len \<Longrightarrow> eoc (length pre') len = Returns (of_nat (length (bers ts)))"
  shows "\<exists>t'. skip_tlv eoc mem p dl (of_nat (length mid)) t = Returns (of_nat (length mid + length (ber_bytes x)), t')"
proof (cases x)
  case (BPrim c v bs)
  have "\<exists>t'. skip_tlv eoc mem p dl (of_nat (length mid)) t = Returns (of_nat (length mid + length (tag_bytes c PRIMITIVE v) +
      length (length_header (of_nat (length bs))) + length bs), t')"
    by (rule skip_definite [where pre = pre and post = "bs @ post"]) (use assms BPrim in auto)
  then show ?thesis by (simp add: BPrim ac_simps)
next
  case (BCons c v indef ts)
  show ?thesis
  proof (cases indef)
    case False
    have "\<exists>t'. skip_tlv eoc mem p dl (of_nat (length mid)) t = Returns (of_nat (length mid + length (tag_bytes c CONSTRUCTED v) +
        length (length_header (of_nat (length (bers ts)))) + length (bers ts)), t')"
      by (rule skip_definite [where pre = pre and post = "bers ts @ post"]) (use assms BCons False in auto)
    then show ?thesis using False by (simp add: BCons ac_simps)
  next
    case True
    have "\<exists>t'. skip_tlv eoc mem p dl (of_nat (length mid)) t =
        Returns (of_nat (length mid + length (tag_bytes c CONSTRUCTED v) + 1 + length (bers ts) + 2), t')"
    proof (rule skip_indefinite [where pre = pre and post = "bers ts @ 0 # 0 # post"])
      fix len :: u32 assume len: "length (bers ts) + 2 \<le> unat len"
      have "eoc (length (pre @ mid @ tag_bytes c CONSTRUCTED v @ [0x80])) len = Returns (of_nat (length (bers ts)))"
        by (rule inner [of c v ts _ post]) (use mem BCons True len in auto)
      then show "eoc (p + length mid + length (tag_bytes c CONSTRUCTED v) + 1) len = Returns (of_nat (length (bers ts)))"
        using p by (simp add: ac_simps)
    qed (use assms BCons True in auto)
    then show ?thesis using True by (simp add: BCons ac_simps)
  qed
qed

lemma eoc_loop_bers:
  assumes "mem = pre @ mid @ bers ts @ 0 # 0 # post" "ts \<noteq> []" "\<forall>x \<in> set ts. no_mark x" "ber_counts ts < fuel"
    "length mid + length (bers ts) + 2 \<le> unat dl" "length (bers ts) < 2 ^ 31 - 1" "p = length pre"
  shows "eoc_loop fuel mem p dl (of_nat (length mid)) t = Returns (of_nat (length mid + length (bers ts)))"
  using assms
proof (induction fuel arbitrary: pre mid ts post dl p t)
  case 0
  then show ?case by simp
next
  case (Suc f)
  let ?eoc = "\<lambda>q len. if len > 0 then eoc_loop f mem q len 0 TLVNode_new else Returns 0"
  obtain x xs where ts: "ts = x # xs" using Suc.prems(2) by (cases ts) auto
  have x: "ber_ok x" using Suc.prems(3) ts by (simp add: no_mark_def)
  have mem: "mem = pre @ mid @ ber_bytes x @ bers xs @ 0 # 0 # post" using Suc.prems(1) ts by simp
  have "\<exists>t'. skip_tlv ?eoc mem p dl (of_nat (length mid)) t = Returns (of_nat (length mid + length (ber_bytes x)), t')"
  proof (rule skip_ber [OF mem x])
    fix c v ts' and len :: u32 and pre' post'
    assume x': "x = BCons c v True ts'" and m: "mem = pre' @ bers ts' @ 0 # 0 # post'" and len: "length (bers ts') + 2 \<le> unat len"
    have "ber_counts ts' < f" using Suc.prems(4) ts x' by simp
    moreover have "length (bers ts') < 2 ^ 31 - 1" using Suc.prems(6) ts x' by simp
    ultimately have "eoc_loop f mem (length pre') len (of_nat (length ([]::u8 list))) TLVNode_new =
        Returns (of_nat (length ([]::u8 list) + length (bers ts')))"
      using m len ber_ok_indefinite x x' by (intro Suc.IH [where pre = pre' and post = post']) auto
    moreover have "0 < len" using len by (simp add: word_less_nat_alt)
    ultimately show "?eoc (length pre') len = Returns (of_nat (length (bers ts')))" by simp
  qed (use Suc.prems(5-7) ts in auto)
  then obtain t' where skip: "skip_tlv ?eoc mem p dl (of_nat (length mid)) t = Returns (of_nat (length mid + length (ber_bytes x)), t')"
    by blast
  let ?pos = "of_nat (length mid + length (ber_bytes x)) :: u32"
  have le: "length mid + length (ber_bytes x) + length (bers xs) + 2 \<le> unat dl" using Suc.prems(5) ts by simp
  have pos: "unat ?pos = length mid + length (ber_bytes x)" "unat (?pos + 1) = length mid + length (ber_bytes x) + 1"
    using le u32_of_nat [of "length mid + length (ber_bytes x)" dl] u32_of_nat [of "length mid + length (ber_bytes x) + 1" dl]
    by (simp_all add: ac_simps)
  have lt: "(of_nat (length mid) :: u32) < dl" "?pos < dl - 1"
    using le pos(1) u32_of_nat [of "length mid" dl] by (simp_all add: word_less_nat_alt unat_sub word_le_nat_alt)
  have at: "mem ! (p + unat ?pos + i) = (bers xs @ 0 # 0 # post) ! i" "p + unat ?pos + i < length mem" if "i < 2" for i
  proof -
    have idx: "p + unat ?pos + i = length (pre @ mid @ ber_bytes x) + i"
      unfolding pos(1) using Suc.prems(7) by simp
    have m: "mem = (pre @ mid @ ber_bytes x) @ (bers xs @ 0 # 0 # post)" by (simp add: mem)
    show "mem ! (p + unat ?pos + i) = (bers xs @ 0 # 0 # post) ! i"
      unfolding idx by (subst m) (rule nth_append_length_plus)
    show "p + unat ?pos + i < length mem" unfolding idx using that by (simp add: m)
  qed
  have rest: "eoc_loop f mem p dl ?pos t' = Returns (of_nat (length mid + length (bers ts)))" if "xs \<noteq> []"
  proof -
    have "eoc_loop f mem p dl (of_nat (length (mid @ ber_bytes x))) t' = Returns (of_nat (length (mid @ ber_bytes x) + length (bers xs)))"
      using Suc.prems mem that ts ber_count_pos [of x] by (intro Suc.IH [where pre = pre and post = post]) auto
    then show ?thesis using ts by (simp add: ac_simps)
  qed
  show ?case
  proof (cases "xs = []")
    case True
    then show ?thesis using lt at [of 0] at [of 1] skip ts pos by (simp add: Let_def)
  next
    case False
    then obtain y ys where xs: "xs = y # ys" by (cases xs) auto
    have y: "ber_ok y" "y \<noteq> BPrim UNIVERSAL 0 []" "length (ber_bytes y) < 2 ^ 31 - 1"
      using Suc.prems(3,6) ts xs by (auto simp: no_mark_def)
    obtain b b' bs where "ber_bytes y = b # b' # bs" "\<not> (b = 0 \<and> b' = 0)" using ber_starts [OF y] by blast
    then show ?thesis using lt at [of 0] at [of 1] skip rest xs pos by (auto simp: Let_def)
  qed
qed

lemma find_eoc_bers:
  assumes "mem = pre @ bers ts @ 0 # 0 # post" "ts \<noteq> []" "\<forall>x \<in> set ts. no_mark x" "ber_counts ts < fuel"
    "length (bers ts) + 2 \<le> unat dl" "length (bers ts) < 2 ^ 31 - 1" "p = length pre"
  shows "find_eoc fuel mem p dl = Returns (of_nat (length (bers ts)))"
proof -
  have "0 < dl" using assms(5) by (simp add: word_less_nat_alt)
  then show ?thesis
    using eoc_loop_bers [of mem pre "[]" ts post fuel dl p TLVNode_new] assms by (simp add: find_eoc_def)
qed

text \<open>A length of minus six makes the loop start over: the octets of \<open>stuck\<close> are read forever.\<close>

definition stuck :: "u8 list" where
  "stuck = [0x04, 0x84, 0xff, 0xff, 0xff, 0xfa]"

lemma stuck_bytes:
  "byte_at (pre @ stuck @ post) (length pre) = Returns 4"
  "byte_at (pre @ stuck @ post) (Suc (length pre)) = Returns 0x84"
  "read_bytes (pre @ stuck @ post) (Suc (Suc (length pre))) 4 = Returns [0xff, 0xff, 0xff, 0xfa]"
  by (simp_all add: stuck_def byte_at_def read_bytes_def nth_append numeral_eq_Suc)

lemma stuck_skip: "\<exists>t'. skip_tlv eoc (pre @ stuck @ post) (length pre) 6 0 t = Returns (0, t')"
proof -
  have v: "length_octets_value [0xff, 0xff, 0xff, 0xfa] = 0xfffffffa" by code_simp
  have c: "complexity_of 4 = PRIMITIVE" by (simp add: complexity_of_def)
  show ?thesis
    by (simp add: skip_tlv_def decode_tag_def decode_length_with_def stuck_bytes v c Let_def)
qed

lemma stuck_loop: "eoc_loop fuel (pre @ stuck @ post) (length pre) 6 0 t = OutOfFuel"
proof (induction fuel arbitrary: t)
  case (Suc fuel)
  let ?eoc = "\<lambda>q len. if len > 0 then eoc_loop fuel (pre @ stuck @ post) q len 0 TLVNode_new else Returns 0"
  obtain t' where "skip_tlv ?eoc (pre @ stuck @ post) (length pre) 6 0 t = Returns (0, t')" using stuck_skip by blast
  then show ?case using Suc by (simp add: Let_def stuck_bytes)
qed simp

section \<open>Properties\<close>

text \<open>
  C23. Searching the end of an indefinite length: on the octets of one or more BER trees
  followed by two zero octets, \<open>find_eoc\<close> returns the number of octets before the mark,
  with more fuel than there are TLVs, whatever follows. But a TLV that claims a length
  above \<open>2 ^ 31\<close> sends it backwards: on \<open>04 84 ff ff ff fa\<close> it never returns, nor does
  \<open>decode_length\<close> on an indefinite length before these six octets.
\<close>

theorem asn1_find_eoc:
  assumes "ts \<noteq> []" "\<forall>x \<in> set ts. ber_ok x \<and> x \<noteq> BPrim UNIVERSAL 0 []" "ber_counts ts < fuel"
    and "length (bers ts) + 2 \<le> unat data_length" "length (bers ts) < 2 ^ 31 - 1"
  shows "find_eoc fuel (pre @ bers ts @ [0, 0] @ post) (length pre) data_length = Returns (of_nat (length (bers ts))) \<and>
    (\<forall>k. find_eoc k (pre @ stuck @ post) (length pre) 6 = OutOfFuel \<and>
      decode_length k (0x80 # stuck @ post) 0 7 t = OutOfFuel)"
proof -
  have stuck: "find_eoc k (pre @ stuck @ post) (length pre) 6 = OutOfFuel" for k pre
    by (simp add: find_eoc_def stuck_loop)
  have "find_eoc k (0x80 # stuck @ post) 1 6 = OutOfFuel" for k
    using stuck [of k "[0x80]"] by simp
  then have "decode_length k (0x80 # stuck @ post) 0 7 t = OutOfFuel" for k
    by (simp add: decode_length_def decode_length_with_def)
  moreover have "find_eoc fuel (pre @ bers ts @ [0, 0] @ post) (length pre) data_length = Returns (of_nat (length (bers ts)))"
    using assms by (intro find_eoc_bers [of _ pre ts post]) (auto simp: no_mark_def)
  ultimately show ?thesis using stuck by blast
qed

theorem asn1_find_eoc_witness:
  "find_eoc 2 ([] @ [0x04, 0x01, 0xaa] @ [0, 0] @ [7]) 0 6 = Returns 3"
proof -
  let ?t = "BPrim UNIVERSAL 4 [0xaa]"
  have bytes: "ber_bytes ?t = [0x04, 0x01, 0xaa]" and ok: "ber_ok ?t" by code_simp+
  have "find_eoc 2 ([] @ bers [?t] @ [0, 0] @ [7]) (length ([] :: u8 list)) 6 = Returns (of_nat (length (bers [?t])))"
    by (rule conjunct1 [OF asn1_find_eoc [where t = TLVNode_new]])
       (use ok bytes in \<open>simp_all del: ber_bytes.simps\<close>)
  then show ?thesis using bytes by (simp del: ber_bytes.simps)
qed

end
