(* ===== verification/Asn1_Store.thy ===== *)
theory Asn1_Store
  imports Asn1_Decode
begin

text \<open>
  The decoder of \<^verbatim>\<open>src/asn1/asn1.cpp\<close> in the store: nodes are taken from the ring of a pool,
  linked below the root and filled from the octets. The decoded nodes represent the BER
  tree (\<open>holds\<close>), at addresses of their own.
\<close>

section \<open>Parts of a TLV\<close>

fun ber_content :: "ber \<Rightarrow> u8 list" where
  "ber_content (BPrim c v bs) = bs"
| "ber_content (BCons c v indef ts) = bers ts"

fun ber_tail :: "ber \<Rightarrow> u8 list" where
  "ber_tail (BPrim c v bs) = []"
| "ber_tail (BCons c v indef ts) = (if indef then [0, 0] else [])"

fun ber_tag :: "ber \<Rightarrow> u8 list" where
  "ber_tag (BPrim c v bs) = tag_bytes c PRIMITIVE v"
| "ber_tag (BCons c v indef ts) = tag_bytes c CONSTRUCTED v"

fun ber_len :: "ber \<Rightarrow> u8 list" where
  "ber_len (BPrim c v bs) = length_header (of_nat (length bs))"
| "ber_len (BCons c v indef ts) = (if indef then [0x80] else length_header (of_nat (length (bers ts))))"

fun ber_class :: "ber \<Rightarrow> TagClass" where
  "ber_class (BPrim c v bs) = c"
| "ber_class (BCons c v indef ts) = c"

fun ber_value :: "ber \<Rightarrow> c_int" where
  "ber_value (BPrim c v bs) = v"
| "ber_value (BCons c v indef ts) = v"

fun ber_kind :: "ber \<Rightarrow> Complexity" where
  "ber_kind (BPrim c v bs) = PRIMITIVE"
| "ber_kind (BCons c v indef ts) = CONSTRUCTED"

fun ber_indefinite :: "ber \<Rightarrow> bool" where
  "ber_indefinite (BPrim c v bs) = False"
| "ber_indefinite (BCons c v indef ts) = indef"

fun ber_children :: "ber \<Rightarrow> ber list" where
  "ber_children (BPrim c v bs) = []"
| "ber_children (BCons c v indef ts) = ts"

lemma ber_parts: "ber_bytes x = ber_tag x @ ber_len x @ ber_content x @ ber_tail x"
  by (cases x) auto

definition header_size :: "ber \<Rightarrow> nat" where
  "header_size x = length (ber_tag x) + length (ber_len x)"

lemma ber_length: "length (ber_bytes x) = header_size x + length (ber_content x) + length (ber_tail x)"
  by (simp add: ber_parts header_size_def)

lemma ber_kind_children: "ber_kind x = CONSTRUCTED \<Longrightarrow> ber_content x = bers (ber_children x)"
  "ber_kind x \<noteq> CONSTRUCTED \<Longrightarrow> ber_children x = []"
  by (cases x; simp)+

lemma ber_count_children: "ber_count x = Suc (ber_counts (ber_children x))"
  by (cases x) auto

lemma ber_ok_parts: "ber_ok x \<Longrightarrow> tag_ok (ber_class x) (ber_value x)"
  "ber_ok x \<Longrightarrow> y \<in> set (ber_children x) \<Longrightarrow> ber_ok y"
  by (cases x; simp)+

lemma ber_tag_eq: "ber_tag x = tag_bytes (ber_class x) (ber_kind x) (ber_value x)"
  by (cases x) auto

lemma ber_kind_known: "ber_kind x \<noteq> COMPLEXITY_UNKNOWN"
  by (cases x) auto

lemma header_size_pos: "1 \<le> header_size x"
  using tag_bytes_nonempty by (simp add: header_size_def ber_tag_eq trans_le_add1)

text \<open>The length octets of a TLV, decoded behind its tag.\<close>

lemma decode_ber_length:
  assumes mem: "mem = pre @ ber_len x @ ber_content x @ ber_tail x @ post" and ok: "ber_ok x"
    and fuel: "ber_count x \<le> fuel" and n: "length (ber_content x) < 2 ^ 31 - 1"
    and dl: "length (ber_len x @ ber_content x @ ber_tail x) \<le> unat dl" and q: "q = length pre"
  shows "\<exists>lt. decode_length fuel mem q dl t = Returns (0, t\<lparr>length_type := lt,
      value_length_size := of_nat (length (ber_len x)), value_length := of_nat (length (ber_content x))\<rparr>) \<and>
    (lt = INDEFINITE \<longleftrightarrow> ber_indefinite x)"
proof (cases "ber_indefinite x")
  case False
  then have len: "ber_len x = length_header (of_nat (length (ber_content x)))" by (cases x) auto
  have "decode_length_with (find_eoc fuel mem) (pre @ ber_len x @ ber_content x @ ber_tail x @ post) q dl t =
    Returns (0, t\<lparr>length_type := (if sint (of_nat (length (ber_content x)) :: c_int) > 127 then DEFINITE_LONG else DEFINITE_SHORT),
      value_length_size := of_nat (length (ber_len x)), value_length := of_nat (length (ber_content x))\<rparr>)"
    unfolding len q using dl len by (intro decode_length_header codable_of_nat n) simp
  then show ?thesis using False
    by (intro exI [of _ "if sint (of_nat (length (ber_content x)) :: c_int) > 127 then DEFINITE_LONG else DEFINITE_SHORT"])
       (simp add: decode_length_def mem)
next
  case True
  then obtain c v ts where x: "x = BCons c v True ts" by (cases x) auto
  have len: "ber_len x = [0x80]" "ber_content x = bers ts" "ber_tail x = [0, 0]" using x by simp_all
  have "0 < dl" using dl len by (simp add: word_less_nat_alt)
  have "unat (dl - 1) = unat dl - 1" using dl len by (subst unat_sub) (auto simp: word_le_nat_alt)
  then have "find_eoc fuel mem (q + 1) (dl - 1) = Returns (of_nat (length (bers ts)))"
    using ber_ok_indefinite [of c v ts] ok x fuel n dl len q mem
    by (intro find_eoc_bers [of mem "pre @ [0x80]" ts post]) auto
  then have "decode_length_with (find_eoc fuel mem) (pre @ 0x80 # bers ts @ [0, 0] @ post) q dl t =
    Returns (0, t\<lparr>length_type := INDEFINITE, value_length_size := 1, value_length := of_nat (length (bers ts))\<rparr>)"
    using \<open>0 < dl\<close> q by (intro decode_indefinite)
  then show ?thesis using len True by (simp add: decode_length_def mem)
qed

lemma decode_header_ber:
  assumes mem: "mem = pre @ mid @ ber_bytes x @ post" and ok: "ber_ok x" and p: "p = length pre"
    and dl: "length mid + length (ber_bytes x) \<le> unat dl" and n: "length (ber_bytes x) < 2 ^ 31 - 1"
    and fuel: "ber_count x \<le> fuel"
  shows "\<exists>t'. decode_header fuel mem b p dl (of_nat (length mid)) t =
      Returns (0, of_nat (length mid + header_size x), t') \<and>
    tag_class t' = ber_class x \<and> complexity t' = ber_kind x \<and> tag_value t' = ber_value x \<and>
    value_length t' = of_nat (length (ber_content x)) \<and>
    tlv_value t' = Some (b, p + length mid + header_size x) \<and> (length_type t' = INDEFINITE \<longleftrightarrow> ber_indefinite x)"
proof -
  let ?pos = "of_nat (length mid) :: u32" and ?tg = "ber_tag x"
  have "0 < unat dl" using dl header_size_pos [of x] by (simp add: ber_length)
  then have dl0: "0 < dl" by (simp add: word_less_nat_alt)
  have le: "length mid + length ?tg + length (ber_len x) + length (ber_content x) + length (ber_tail x) \<le> unat dl"
    using dl by (simp add: ber_length header_size_def)
  have p1: "p + unat ?pos = length (pre @ mid)" using dl p by (simp add: u32_of_nat [of _ dl])
  have u2: "unat (?pos + of_nat (length ?tg)) = length mid + length ?tg"
    using le u32_of_nat [of "length mid + length ?tg" dl] by simp
  have u3: "unat (?pos + of_nat (length ?tg) + of_nat (length (ber_len x))) = length mid + header_size x"
    using le u32_of_nat [of "length mid + length ?tg + length (ber_len x)" dl] by (simp add: header_size_def)
  have p2: "p + unat (?pos + of_nat (length ?tg)) = length ((pre @ mid) @ ?tg)" unfolding u2 using p by simp
  have sub: "unat (dl - (?pos + of_nat (length ?tg))) = unat dl - (length mid + length ?tg)"
    using le u2 by (subst unat_sub) (auto simp: word_le_nat_alt)
  let ?t1 = "t\<lparr>full_tlv := Some (b, p + unat ?pos)\<rparr>\<lparr>tag_class := ber_class x, complexity := ber_kind x,
      tag_value := ber_value x, tag_value_size := of_nat (length ?tg)\<rparr>"
  have tag: "decode_tag mem (p + unat ?pos) dl (t\<lparr>full_tlv := Some (b, p + unat ?pos)\<rparr>) = Returns ?t1"
    using decode_tag_bytes [OF ber_ok_parts(1) [OF ok] ber_kind_known [of x] dl0 p1, of "ber_len x @ ber_content x @ ber_tail x @ post"]
    by (simp add: mem ber_parts ber_tag_eq)
  have "\<exists>lt. decode_length fuel mem (p + unat (?pos + of_nat (length ?tg))) (dl - (?pos + of_nat (length ?tg))) ?t1 =
      Returns (0, ?t1\<lparr>length_type := lt, value_length_size := of_nat (length (ber_len x)),
        value_length := of_nat (length (ber_content x))\<rparr>) \<and> (lt = INDEFINITE \<longleftrightarrow> ber_indefinite x)"
  proof (rule decode_ber_length [OF _ ok fuel _ _ p2])
    show "mem = ((pre @ mid) @ ?tg) @ ber_len x @ ber_content x @ ber_tail x @ post" by (simp add: mem ber_parts)
    show "length (ber_content x) < 2 ^ 31 - 1" using n by (simp add: ber_length)
    show "length (ber_len x @ ber_content x @ ber_tail x) \<le> unat (dl - (?pos + of_nat (length ?tg)))"
      unfolding sub using le by simp
  qed
  then obtain lt where len: "decode_length fuel mem (p + unat (?pos + of_nat (length ?tg))) (dl - (?pos + of_nat (length ?tg))) ?t1 =
      Returns (0, ?t1\<lparr>length_type := lt, value_length_size := of_nat (length (ber_len x)),
        value_length := of_nat (length (ber_content x))\<rparr>)" and lt: "lt = INDEFINITE \<longleftrightarrow> ber_indefinite x"
    by blast
  have "unat (dl - (?pos + of_nat (length ?tg) + of_nat (length (ber_len x)))) = unat dl - (length mid + header_size x)"
    using le u3 by (subst unat_sub) (auto simp: word_le_nat_alt header_size_def)
  moreover have "unat (of_nat (length (ber_content x)) :: c_int) = length (ber_content x)"
    using n by (intro codable_of_nat) (simp add: ber_length)
  ultimately have fits: "\<not> of_nat (length (ber_content x)) > dl - (?pos + of_nat (length ?tg) + of_nat (length (ber_len x)))"
    using le by (simp add: word_less_nat_alt header_size_def)
  show ?thesis
    using fits lt u3 by (simp add: decode_header_def tag [simplified] len [simplified] Let_def) (simp add: header_size_def ac_simps)
qed

section \<open>The ring of a pool\<close>

text \<open>Requests hand out the entries from position \<open>f - 1\<close> downwards, and start over after 0.\<close>

definition ring_ready :: "nat list \<Rightarrow> int \<Rightarrow> int \<Rightarrow> nat option \<Rightarrow> nat \<Rightarrow> bool" where
  "ring_ready xs cnt free nxt f \<longleftrightarrow> distinct xs \<and> cnt = int (length xs) \<and> free = int f \<and> 1 \<le> f \<and> f \<le> length xs \<and>
     nxt = Some (xs ! (f - 1))"

definition pool_ready :: "asn1_state \<Rightarrow> nat \<Rightarrow> nat \<Rightarrow> bool" where
  "pool_ready s f g \<longleftrightarrow>
     ring_ready (TLV_POOL (pool s)) (tlv_count (pool s)) (free_tlv_count (pool s)) (next_free_tlv (pool s)) f \<and>
     ring_ready (ASN1_POOL (pool s)) (asn1_node_count (pool s)) (free_asn1_node_count (pool s)) (next_free_asn1_node (pool s)) g"

definition same_store :: "asn1_state \<Rightarrow> asn1_state \<Rightarrow> bool" where
  "same_store s s' \<longleftrightarrow> buffers s' = buffers s \<and> TLV_POOL (pool s') = TLV_POOL (pool s) \<and>
     ASN1_POOL (pool s') = ASN1_POOL (pool s) \<and> tlv_count (pool s') = tlv_count (pool s)"

lemma same_store_refl: "same_store s s"
  by (simp add: same_store_def)

lemma same_store_trans: "same_store s s' \<Longrightarrow> same_store s' s'' \<Longrightarrow> same_store s s''"
  by (simp add: same_store_def)

lemma ring_step:
  assumes "ring_ready xs cnt free nxt f"
  defines "free' \<equiv> (if free - 1 \<le> 0 then cnt else free - 1)"
  shows "\<exists>f'. pool_at xs (free' - 1) = Returns (xs ! (f' - 1)) \<and> ring_ready xs cnt free' (Some (xs ! (f' - 1))) f' \<and>
    (1 < f \<longrightarrow> f' = f - 1)"
proof (cases "f = 1")
  case True
  then have "free' = int (length xs)" "length xs \<noteq> 0" using assms by (auto simp: ring_ready_def)
  then show ?thesis using assms True
    by (intro exI [of _ "length xs"]) (auto simp: ring_ready_def pool_at_def nat_diff_distrib)
next
  case False
  then have "free' = int (f - 1)" "2 \<le> f" using assms by (auto simp: ring_ready_def)
  then show ?thesis using assms
    by (intro exI [of _ "f - 1"]) (auto simp: ring_ready_def pool_at_def nat_diff_distrib numeral_2_eq_2)
qed

lemma request_tlv_ready:
  assumes "pool_ready s f g"
  shows "\<exists>s' f'. request_tlv s = Returns (Some (TLV_POOL (pool s) ! (f - 1)), s') \<and> pool_ready s' f' g \<and>
    (1 < f \<longrightarrow> f' = f - 1) \<and> nodes s' = nodes s \<and> tlvs s' = tlvs s \<and> same_store s s'"
proof -
  have r: "ring_ready (TLV_POOL (pool s)) (tlv_count (pool s)) (free_tlv_count (pool s)) (next_free_tlv (pool s)) f"
    using assms by (simp add: pool_ready_def)
  then have nxt: "next_free_tlv (pool s) = Some (TLV_POOL (pool s) ! (f - 1))" by (simp add: ring_ready_def)
  from ring_step [OF r] assms nxt show ?thesis
    by (auto simp: request_tlv_def pool_ready_def same_store_def Let_def)
qed

lemma request_node_ready:
  assumes "pool_ready s f g"
  shows "\<exists>s' g'. request_asn1_node s = Returns (Some (ASN1_POOL (pool s) ! (g - 1)), s') \<and> pool_ready s' f g' \<and>
    (1 < g \<longrightarrow> g' = g - 1) \<and> nodes s' = nodes s \<and> tlvs s' = tlvs s \<and> same_store s s'"
proof -
  have r: "ring_ready (ASN1_POOL (pool s)) (asn1_node_count (pool s)) (free_asn1_node_count (pool s)) (next_free_asn1_node (pool s)) g"
    using assms by (simp add: pool_ready_def)
  then have nxt: "next_free_asn1_node (pool s) = Some (ASN1_POOL (pool s) ! (g - 1))" by (simp add: ring_ready_def)
  from ring_step [OF r] assms nxt show ?thesis
    by (auto simp: request_asn1_node_def pool_ready_def same_store_def Let_def)
qed

lemma pool_ready_put [simp]: "pool_ready (put_tlv a t s) f g = pool_ready s f g" "pool_ready (put_node n x s) f g = pool_ready s f g"
  by (simp_all add: pool_ready_def)

lemma same_store_put [simp]: "same_store s (put_tlv a t s') = same_store s s'" "same_store s (put_node n x s') = same_store s s'"
  by (simp_all add: same_store_def)

text \<open>The entries handed out by \<open>m\<close> requests.\<close>

definition taken :: "nat list \<Rightarrow> nat \<Rightarrow> nat \<Rightarrow> nat set" where
  "taken xs f m = (!) xs ` {f - m..<f}"

lemma taken_0 [simp]: "taken xs f 0 = {}"
  by (simp add: taken_def)

lemma taken_add: "taken xs f (k + m) = taken xs f k \<union> taken xs (f - k) m"
proof -
  have "{f - (k + m)..<f} = {f - k..<f} \<union> {f - k - m..<f - k}" by auto
  then show ?thesis by (simp add: taken_def image_Un)
qed

lemma taken_Suc: "1 \<le> f \<Longrightarrow> taken xs f (Suc m) = insert (xs ! (f - 1)) (taken xs (f - 1) m)"
  using taken_add [of xs f 1 m] by (cases f) (simp_all add: taken_def)

lemma taken_disjoint:
  assumes "distinct xs" "f \<le> length xs" shows "taken xs f k \<inter> taken xs (f - k) m = {}"
  using assms by (auto simp: taken_def nth_eq_iff_index_eq)

lemma taken_head: "distinct xs \<Longrightarrow> 1 \<le> f \<Longrightarrow> f \<le> length xs \<Longrightarrow> xs ! (f - 1) \<notin> taken xs (f - 1) m"
  by (auto simp: taken_def nth_eq_iff_index_eq)

lemma taken_eq: "(m \<noteq> 0 \<Longrightarrow> f' = f) \<Longrightarrow> taken xs f' m = taken xs f m"
  by (cases m) auto

section \<open>Decoded nodes\<close>

text \<open>
  The node at an address represents a BER tree, with all its nodes in \<open>N\<close> and their TLV
  nodes in \<open>T\<close>.
\<close>

fun holds :: "asn1_state \<Rightarrow> nat set \<Rightarrow> nat set \<Rightarrow> ber \<Rightarrow> nat \<Rightarrow> bool" where
  "holds s N T (BPrim c v bs) n \<longleftrightarrow> n \<in> N \<and> children (nodes s n) = [] \<and>
     (\<exists>a \<in> T. node_tlv (nodes s n) = Some a \<and> tag_class (tlvs s a) = c \<and> complexity (tlvs s a) = PRIMITIVE \<and>
       tag_value (tlvs s a) = v \<and> value_length (tlvs s a) = of_nat (length bs) \<and> length_type (tlvs s a) \<noteq> INDEFINITE \<and>
       (\<exists>b p. tlv_value (tlvs s a) = Some (b, p) \<and> read_bytes (buffers s b) p (length bs) = Returns bs))"
| "holds s N T (BCons c v indef ts) n \<longleftrightarrow> n \<in> N \<and>
     (\<exists>a \<in> T. node_tlv (nodes s n) = Some a \<and> tag_class (tlvs s a) = c \<and> complexity (tlvs s a) = CONSTRUCTED \<and>
       tag_value (tlvs s a) = v \<and> value_length (tlvs s a) = of_nat (length (bers ts)) \<and>
       (length_type (tlvs s a) = INDEFINITE \<longleftrightarrow> indef)) \<and>
     (\<exists>ns. children (nodes s n) = map Some ns \<and> list_all2 (\<lambda>t. holds s N T t) ts ns)"

lemma holds_iff:
  "holds s N T x n \<longleftrightarrow> n \<in> N \<and>
     (\<exists>a \<in> T. node_tlv (nodes s n) = Some a \<and> tag_class (tlvs s a) = ber_class x \<and> complexity (tlvs s a) = ber_kind x \<and>
       tag_value (tlvs s a) = ber_value x \<and> value_length (tlvs s a) = of_nat (length (ber_content x)) \<and>
       (length_type (tlvs s a) = INDEFINITE \<longleftrightarrow> ber_indefinite x) \<and>
       (ber_kind x = PRIMITIVE \<longrightarrow> (\<exists>b p. tlv_value (tlvs s a) = Some (b, p) \<and>
         read_bytes (buffers s b) p (length (ber_content x)) = Returns (ber_content x)))) \<and>
     (\<exists>ns. children (nodes s n) = map Some ns \<and> list_all2 (holds s N T) (ber_children x) ns)"
  by (cases x) auto

lemma holds_frame:
  "holds s N T x n \<Longrightarrow> N \<subseteq> N' \<Longrightarrow> T \<subseteq> T' \<Longrightarrow> (\<And>i. i \<in> N \<Longrightarrow> nodes s' i = nodes s i) \<Longrightarrow>
    (\<And>i. i \<in> T \<Longrightarrow> tlvs s' i = tlvs s i) \<Longrightarrow> buffers s' = buffers s \<Longrightarrow> holds s' N' T' x n"
proof (induction x arbitrary: n)
  case (BPrim c v bs)
  then show ?case by (fastforce simp: subset_iff)
next
  case (BCons c v indef ts)
  obtain a ns where a: "n \<in> N" "a \<in> T" "node_tlv (nodes s n) = Some a" "tag_class (tlvs s a) = c"
    "complexity (tlvs s a) = CONSTRUCTED" "tag_value (tlvs s a) = v" "value_length (tlvs s a) = of_nat (length (bers ts))"
    "length_type (tlvs s a) = INDEFINITE \<longleftrightarrow> indef" and ns: "children (nodes s n) = map Some ns"
    "list_all2 (holds s N T) ts ns"
    using BCons.prems(1) by auto
  have "list_all2 (holds s' N' T') ts ns"
    using ns(2) BCons by (auto simp: list_all2_conv_all_nth)
  then show ?case using a ns(1) BCons.prems by auto
qed

section \<open>Correctness of decoding\<close>

text \<open>What a run of the loop over the TLVs \<open>ts\<close> below \<open>root\<close> leaves behind.\<close>

definition decoded_below ::
  "asn1_state \<Rightarrow> nat \<Rightarrow> nat \<Rightarrow> nat \<Rightarrow> ber list \<Rightarrow> asn1_state \<Rightarrow> nat list \<Rightarrow> bool" where
  "decoded_below s f g root ts s' ns \<longleftrightarrow>
     nodes s' root = (nodes s root)\<lparr>children := children (nodes s root) @ map Some ns\<rparr> \<and>
     list_all2 (holds s' (taken (ASN1_POOL (pool s)) g (ber_counts ts)) (taken (TLV_POOL (pool s)) f (ber_counts ts))) ts ns \<and>
     same_store s s' \<and>
     (\<forall>n. n \<noteq> root \<longrightarrow> n \<notin> taken (ASN1_POOL (pool s)) g (ber_counts ts) \<longrightarrow> nodes s' n = nodes s n) \<and>
     (\<forall>a. a \<notin> taken (TLV_POOL (pool s)) f (ber_counts ts) \<longrightarrow> tlvs s' a = tlvs s a) \<and>
     (\<exists>f' g'. pool_ready s' f' g' \<and> (ber_counts ts < f \<longrightarrow> f' = f - ber_counts ts) \<and>
       (ber_counts ts < g \<longrightarrow> g' = g - ber_counts ts))"

text \<open>A node was set up for \<open>x\<close>, and its children were decoded below it.\<close>

definition decoded_node ::
  "asn1_state \<Rightarrow> nat \<Rightarrow> nat \<Rightarrow> nat \<Rightarrow> ber \<Rightarrow> asn1_state \<Rightarrow> bool" where
  "decoded_node s f g root x s' \<longleftrightarrow>
     (let n = ASN1_POOL (pool s) ! (g - 1);
          N = taken (ASN1_POOL (pool s)) g (ber_count x); T = taken (TLV_POOL (pool s)) f (ber_count x)
      in nodes s' root = (nodes s root)\<lparr>children := children (nodes s root) @ [Some n]\<rparr> \<and>
        holds s' N T x n \<and> same_store s s' \<and> (\<forall>i. i \<noteq> root \<longrightarrow> i \<notin> N \<longrightarrow> nodes s' i = nodes s i) \<and>
        (\<forall>a. a \<notin> T \<longrightarrow> tlvs s' a = tlvs s a) \<and>
        (\<exists>f' g'. pool_ready s' f' g' \<and> (ber_count x < f \<longrightarrow> f' = f - ber_count x) \<and>
          (ber_count x < g \<longrightarrow> g' = g - ber_count x)))"

lemma taken_subset: "m \<le> m' \<Longrightarrow> taken xs f m \<subseteq> taken xs f m'"
  by (auto simp: taken_def)

text \<open>One TLV after another: the first node survives the decoding of the rest.\<close>

lemma decoded_append:
  assumes x: "decoded_node s f g root x s1" and xs: "decoded_below s1 f1 g1 root xs s2 ns"
    and ready: "pool_ready s f g" and ready1: "pool_ready s1 f1 g1"
    and m: "ber_counts (x # xs) \<le> f" "ber_counts (x # xs) \<le> g"
    and root: "root \<notin> taken (ASN1_POOL (pool s)) g (ber_counts (x # xs))"
    and ready1': "(ber_count x < f \<longrightarrow> f1 = f - ber_count x) \<and> (ber_count x < g \<longrightarrow> g1 = g - ber_count x)"
  shows "decoded_below s f g root (x # xs) s2 ((ASN1_POOL (pool s) ! (g - 1)) # ns)"
proof -
  let ?NP = "ASN1_POOL (pool s)" and ?TP = "TLV_POOL (pool s)"
  have d: "distinct ?NP" "distinct ?TP" "f \<le> length ?TP" "g \<le> length ?NP"
    using ready by (auto simp: pool_ready_def ring_ready_def)
  have st: "same_store s s1" "same_store s1 s2" using x xs by (simp_all add: decoded_node_def decoded_below_def Let_def)
  then have pools: "ASN1_POOL (pool s1) = ?NP" "TLV_POOL (pool s1) = ?TP" by (simp_all add: same_store_def)
  let ?Nx = "taken ?NP g (ber_count x)" and ?Tx = "taken ?TP f (ber_count x)"
  let ?Ns = "taken ?NP (g - ber_count x) (ber_counts xs)" and ?Ts = "taken ?TP (f - ber_count x) (ber_counts xs)"
  have eq: "taken ?NP g1 (ber_counts xs) = ?Ns" "taken ?TP f1 (ber_counts xs) = ?Ts"
  proof -
    have "f1 = f - ber_count x \<and> g1 = g - ber_count x" if "ber_counts xs \<noteq> 0"
    proof -
      have "ber_count x < f" "ber_count x < g" using m that by (simp_all only: list.map sum_list.Cons)
      then show ?thesis using ready1' by blast
    qed
    then have "ber_counts xs \<noteq> 0 \<Longrightarrow> f1 = f - ber_count x" "ber_counts xs \<noteq> 0 \<Longrightarrow> g1 = g - ber_count x"
      by blast+
    then show "taken ?NP g1 (ber_counts xs) = ?Ns" "taken ?TP f1 (ber_counts xs) = ?Ts"
      using taken_eq [of "ber_counts xs" g1] taken_eq [of "ber_counts xs" f1] by blast+
  qed
  have all: "taken ?NP g (ber_counts (x # xs)) = ?Nx \<union> ?Ns" "taken ?TP f (ber_counts (x # xs)) = ?Tx \<union> ?Ts"
    by (simp_all add: taken_add)
  have disj: "?Nx \<inter> ?Ns = {}" "?Tx \<inter> ?Ts = {}"
    using taken_disjoint [OF d(1,4)] taken_disjoint [OF d(2,3)] by blast+
  have xs': "nodes s2 root = (nodes s1 root)\<lparr>children := children (nodes s1 root) @ map Some ns\<rparr>"
    "list_all2 (holds s2 ?Ns ?Ts) xs ns" "\<And>n. n \<noteq> root \<Longrightarrow> n \<notin> ?Ns \<Longrightarrow> nodes s2 n = nodes s1 n"
    "\<And>a. a \<notin> ?Ts \<Longrightarrow> tlvs s2 a = tlvs s1 a"
    using xs by (simp_all add: decoded_below_def pools eq)
  have x': "nodes s1 root = (nodes s root)\<lparr>children := children (nodes s root) @ [Some (?NP ! (g - 1))]\<rparr>"
    "holds s1 ?Nx ?Tx x (?NP ! (g - 1))" "\<And>i. i \<noteq> root \<Longrightarrow> i \<notin> ?Nx \<Longrightarrow> nodes s1 i = nodes s i"
    "\<And>a. a \<notin> ?Tx \<Longrightarrow> tlvs s1 a = tlvs s a"
    using x by (simp_all add: decoded_node_def Let_def)
  have "holds s2 (?Nx \<union> ?Ns) (?Tx \<union> ?Ts) x (?NP ! (g - 1))"
  proof (rule holds_frame [OF x'(2)])
    fix i assume "i \<in> ?Nx" then show "nodes s2 i = nodes s1 i" using disj root all by (intro xs'(3)) auto
  next
    fix i assume "i \<in> ?Tx" then show "tlvs s2 i = tlvs s1 i" using disj by (intro xs'(4)) auto
  next
    show "buffers s2 = buffers s1" using st by (simp add: same_store_def)
  qed auto
  moreover have "list_all2 (holds s2 (?Nx \<union> ?Ns) (?Tx \<union> ?Ts)) xs ns"
    using xs'(2) by (rule list_all2_mono) (rule holds_frame, auto)
  moreover obtain f2 g2 where "pool_ready s2 f2 g2" "ber_counts xs < f1 \<longrightarrow> f2 = f1 - ber_counts xs"
    "ber_counts xs < g1 \<longrightarrow> g2 = g1 - ber_counts xs"
    using xs by (auto simp: decoded_below_def)
  then have "\<exists>f' g'. pool_ready s2 f' g' \<and> (ber_counts (x # xs) < f \<longrightarrow> f' = f - ber_counts (x # xs)) \<and>
       (ber_counts (x # xs) < g \<longrightarrow> g' = g - ber_counts (x # xs))"
    using ready1' by (intro exI [of _ f2] exI [of _ g2]) auto
  moreover have "same_store s s2" using st same_store_trans by blast
  ultimately show ?thesis
    unfolding decoded_below_def all using xs'(1,3,4) x'(1,3,4) by simp
qed

lemma decoded_below_Nil: "pool_ready s f g \<Longrightarrow> decoded_below s f g root [] s []"
  by (auto simp: decoded_below_def same_store_refl)

text \<open>A node for \<open>x\<close> was requested, filled from the header and linked below \<open>root\<close>.\<close>

definition opened ::
  "asn1_state \<Rightarrow> nat \<Rightarrow> nat \<Rightarrow> nat \<Rightarrow> ber \<Rightarrow> nat \<Rightarrow> nat \<Rightarrow> asn1_state \<Rightarrow> nat \<Rightarrow> nat \<Rightarrow> TLVNode \<Rightarrow> nat \<Rightarrow> nat \<Rightarrow> bool" where
  "opened s f g root x b q s6 n a t f' g' \<longleftrightarrow>
     n = ASN1_POOL (pool s) ! (g - 1) \<and> a = TLV_POOL (pool s) ! (f - 1) \<and>
     nodes s6 root = (nodes s root)\<lparr>children := children (nodes s root) @ [Some n]\<rparr> \<and>
     children (nodes s6 n) = [] \<and> node_tlv (nodes s6 n) = Some a \<and> tlvs s6 a = t \<and> same_store s s6 \<and>
     (\<forall>i. i \<noteq> root \<longrightarrow> i \<noteq> n \<longrightarrow> nodes s6 i = nodes s i) \<and> (\<forall>i. i \<noteq> a \<longrightarrow> tlvs s6 i = tlvs s i) \<and>
     pool_ready s6 f' g' \<and> (1 < f \<longrightarrow> f' = f - 1) \<and> (1 < g \<longrightarrow> g' = g - 1) \<and>
     tag_class t = ber_class x \<and> complexity t = ber_kind x \<and> tag_value t = ber_value x \<and>
     value_length t = of_nat (length (ber_content x)) \<and> tlv_value t = Some (b, q) \<and>
     (length_type t = INDEFINITE \<longleftrightarrow> ber_indefinite x)"

lemma decoded_node_intro:
  assumes ready: "pool_ready s f g" and m: "ber_count x \<le> f" "ber_count x \<le> g"
    and root: "root \<notin> taken (ASN1_POOL (pool s)) g (ber_count x)"
    and opn: "opened s f g root x b q s6 n a t f' g'"
    and val: "read_bytes (buffers s b) q (length (ber_content x)) = Returns (ber_content x)"
    and below: "decoded_below s6 f' g' n (ber_children x) s7 ns"
  shows "decoded_node s f g root x s7 \<and> tlvs s7 a = t"
proof -
  let ?NP = "ASN1_POOL (pool s)" and ?TP = "TLV_POOL (pool s)" and ?m = "ber_counts (ber_children x)"
  have n: "n = ?NP ! (g - 1)" and a: "a = ?TP ! (f - 1)"
    and s6: "nodes s6 root = (nodes s root)\<lparr>children := children (nodes s root) @ [Some n]\<rparr>"
      "children (nodes s6 n) = []" "node_tlv (nodes s6 n) = Some a" "tlvs s6 a = t" "same_store s s6"
      "\<And>i. i \<noteq> root \<Longrightarrow> i \<noteq> n \<Longrightarrow> nodes s6 i = nodes s i" "\<And>i. i \<noteq> a \<Longrightarrow> tlvs s6 i = tlvs s i"
    and ready6: "pool_ready s6 f' g'" "1 < f \<longrightarrow> f' = f - 1" "1 < g \<longrightarrow> g' = g - 1"
    and t: "tag_class t = ber_class x" "complexity t = ber_kind x" "tag_value t = ber_value x"
      "value_length t = of_nat (length (ber_content x))" "length_type t = INDEFINITE \<longleftrightarrow> ber_indefinite x"
      "tlv_value t = Some (b, q)"
    using opn unfolding opened_def by blast+
  have d: "distinct ?NP" "distinct ?TP" "f \<le> length ?TP" "g \<le> length ?NP" "1 \<le> f" "1 \<le> g"
    using ready by (auto simp: pool_ready_def ring_ready_def)
  have pools: "ASN1_POOL (pool s6) = ?NP" "TLV_POOL (pool s6) = ?TP" using s6(5) by (simp_all add: same_store_def)
  have eq: "taken ?NP g' ?m = taken ?NP (g - 1) ?m" "taken ?TP f' ?m = taken ?TP (f - 1) ?m"
  proof -
    have "f' = f - 1 \<and> g' = g - 1" if "?m \<noteq> 0"
    proof -
      have "1 < f" "1 < g" using m that unfolding ber_count_children [of x] by linarith+
      then show ?thesis using ready6(2,3) by blast
    qed
    then have "?m \<noteq> 0 \<Longrightarrow> f' = f - 1" "?m \<noteq> 0 \<Longrightarrow> g' = g - 1" by blast+
    then show "taken ?NP g' ?m = taken ?NP (g - 1) ?m" "taken ?TP f' ?m = taken ?TP (f - 1) ?m"
      using taken_eq [of ?m g'] taken_eq [of ?m f'] by blast+
  qed
  let ?N = "taken ?NP (g - 1) ?m" and ?T = "taken ?TP (f - 1) ?m"
  have all: "taken ?NP g (ber_count x) = insert n ?N" "taken ?TP f (ber_count x) = insert a ?T"
    using d by (simp_all add: ber_count_children taken_Suc n a)
  have fresh: "n \<notin> ?N" "a \<notin> ?T" unfolding n a using taken_head [OF d(1,6,4)] taken_head [OF d(2,5,3)] by blast+
  have rn: "root \<noteq> n" "root \<notin> ?N" using root all by auto
  have b: "nodes s7 n = (nodes s6 n)\<lparr>children := children (nodes s6 n) @ map Some ns\<rparr>"
    "list_all2 (holds s7 ?N ?T) (ber_children x) ns" "same_store s6 s7"
    "\<And>i. i \<noteq> n \<Longrightarrow> i \<notin> ?N \<Longrightarrow> nodes s7 i = nodes s6 i" "\<And>i. i \<notin> ?T \<Longrightarrow> tlvs s7 i = tlvs s6 i"
    using below by (simp_all add: decoded_below_def pools eq)
  have ta: "tlvs s7 a = t" using b(5) fresh s6(4) by simp
  have store: "same_store s s7" using s6(5) b(3) same_store_trans by blast
  then have buf: "buffers s7 = buffers s" by (simp add: same_store_def)
  have "list_all2 (holds s7 (insert n ?N) (insert a ?T)) (ber_children x) ns"
    using b(2) by (rule list_all2_mono) (rule holds_frame, auto)
  then have "holds s7 (insert n ?N) (insert a ?T) x n"
    unfolding holds_iff [of s7 _ _ x] using t ta s6(2,3) b(1) buf val by auto
  moreover obtain f2 g2 where "pool_ready s7 f2 g2" "?m < f' \<longrightarrow> f2 = f' - ?m" "?m < g' \<longrightarrow> g2 = g' - ?m"
    using below by (auto simp: decoded_below_def)
  then have "\<exists>f2 g2. pool_ready s7 f2 g2 \<and> (ber_count x < f \<longrightarrow> f2 = f - ber_count x) \<and>
       (ber_count x < g \<longrightarrow> g2 = g - ber_count x)"
    using ready6(2,3) by (intro exI [of _ f2] exI [of _ g2]) (auto simp: ber_count_children)
  moreover have "nodes s7 root = (nodes s root)\<lparr>children := children (nodes s root) @ [Some n]\<rparr>"
    using b(4) [of root] rn s6(1) by simp
  moreover have "\<forall>i. i \<noteq> root \<longrightarrow> i \<notin> insert n ?N \<longrightarrow> nodes s7 i = nodes s i" using b(4) s6(6) by auto
  moreover have "\<forall>i. i \<notin> insert a ?T \<longrightarrow> tlvs s7 i = tlvs s i" using b(5) s6(7) by auto
  ultimately show ?thesis
    unfolding decoded_node_def Let_def all using ta store n by simp
qed

lemma length_le_counts: "length ts \<le> ber_counts ts"
proof (induction ts)
  case (Cons x ts)
  then show ?case using ber_count_pos [of x] by simp
qed simp

text \<open>The side conditions of the loop, for the TLVs \<open>ts\<close> at \<open>p + length mid\<close>.\<close>

definition loop_pre ::
  "asn1_state \<Rightarrow> nat \<Rightarrow> nat \<Rightarrow> nat \<Rightarrow> u8 list \<Rightarrow> ber list \<Rightarrow> u8 list \<Rightarrow> nat \<Rightarrow> u32 \<Rightarrow> nat \<Rightarrow> u32 \<Rightarrow> nat \<Rightarrow> nat \<Rightarrow> bool" where
  "loop_pre s fuel b p mid ts post root dl used_room used f g \<longleftrightarrow>
     (\<exists>pre. buffers s b = pre @ mid @ bers ts @ post \<and> p = length pre) \<and> unat dl = length mid + length (bers ts) \<and>
     length (bers ts) < 2 ^ 31 - 1 \<and> (\<forall>x \<in> set ts. ber_ok x) \<and> pool_ready s f g \<and>
     ber_counts ts \<le> f \<and> ber_counts ts \<le> g \<and> root \<notin> taken (ASN1_POOL (pool s)) g (ber_counts ts) \<and>
     ber_counts ts < fuel \<and> unat used + length ts \<le> used_room \<and> used_room = length (TLV_POOL (pool s)) \<and> used_room < 2 ^ 31"

lemma loop_preD:
  assumes "loop_pre s fuel b p mid ts post root dl room used f g"
  shows "\<exists>pre. buffers s b = pre @ mid @ bers ts @ post \<and> p = length pre" "unat dl = length mid + length (bers ts)"
    "length (bers ts) < 2 ^ 31 - 1" "\<And>x. x \<in> set ts \<Longrightarrow> ber_ok x" "pool_ready s f g" "ber_counts ts \<le> f" "ber_counts ts \<le> g"
    "root \<notin> taken (ASN1_POOL (pool s)) g (ber_counts ts)" "ber_counts ts < fuel" "unat used + length ts \<le> room"
    "room = length (TLV_POOL (pool s))" "room < 2 ^ 31"
    "distinct (ASN1_POOL (pool s))" "1 \<le> g" "g \<le> length (ASN1_POOL (pool s))" "f \<le> room"
  using assms by (auto simp: loop_pre_def pool_ready_def ring_ready_def)

lemma used_below:
  assumes "unat used + 1 \<le> k" "k < 2 ^ 31"
  shows "unat (used + 1 :: u32) = unat used + 1" "\<not> used + 1 > word_of_int (int k)"
proof -
  have c: "unat (word_of_int (int k) :: u32) = k" using assms(2) by (simp add: unat_of_nat)
  show "unat (used + 1) = unat used + 1"
    using assms(1) c by (intro unat_plus_one_bounded [of used "word_of_int (int k)"]) simp
  then show "\<not> used + 1 > word_of_int (int k)" using assms c by (simp add: word_less_nat_alt)
qed

text \<open>One round of the loop up to the value of its TLV.\<close>

lemma decode_open:
  assumes H: "loop_pre s (Suc F) b p mid (x # xs) post root dl room used f g"
  shows "\<exists>s6 n a t f' g'. opened s f g root x b (p + length mid + header_size x) s6 n a t f' g' \<and>
    decode_loop (Suc F) b p dl root (of_nat (length mid)) used s =
      and_then
        (if complexity t = CONSTRUCTED
         then and_then (decode_loop F b (p + length mid + header_size x) (value_length t) n 0 0 s6) (\<lambda>(r, _, s). Returns (r, s))
         else Returns (0, s6)) (\<lambda>(res, s).
      if res \<noteq> 0 then Returns (res, used + 1, s)
      else decode_loop F b p dl root
        (of_nat (length mid + header_size x) + (value_length (tlvs s a) + indefinite_extra (tlvs s a))) (used + 1) s)"
proof -
  note D = loop_preD [OF H]
  let ?NP = "ASN1_POOL (pool s)" and ?TP = "TLV_POOL (pool s)" and ?pos = "of_nat (length mid + header_size x) :: u32"
  define n a where na: "n = ?NP ! (g - 1)" "a = ?TP ! (f - 1)"
  obtain pre where pre: "buffers s b = pre @ mid @ bers (x # xs) @ post" "p = length pre" using D(1) by blast
  have x: "ber_ok x" "ber_count x \<le> F" "length (ber_bytes x) < 2 ^ 31 - 1"
    and len: "length mid + length (ber_bytes x) + length (bers xs) = unat dl"
    using D(2-4,9) by auto
  have u: "unat (of_nat (length mid) :: u32) = length mid" "unat ?pos = length mid + header_size x"
    using len by (intro u32_of_nat [of _ dl]; simp add: ber_length)+
  have less: "(of_nat (length mid) :: u32) < dl"
    using len u(1) header_size_pos [of x] by (simp add: word_less_nat_alt ber_length)
  obtain s1 f' where r1: "request_tlv s = Returns (Some a, s1)" "pool_ready s1 f' g" "1 < f \<longrightarrow> f' = f - 1"
    "nodes s1 = nodes s" "tlvs s1 = tlvs s" "same_store s s1"
    using request_tlv_ready [OF D(5)] na by blast
  define s2 where s2: "s2 = put_tlv a ((tlvs s1 a)\<lparr>value_length := 0\<rparr>) s1"
  have "tlv_count (pool s2) = int room"
    using r1(6) D(5,11) by (simp add: s2 same_store_def pool_ready_def ring_ready_def)
  then have count: "\<not> used + 1 > word_of_int (tlv_count (pool s2))" using D(10,12) used_below(2) [of used room] by simp
  have mem: "buffers s2 b = pre @ mid @ ber_bytes x @ bers xs @ post" using pre(1) r1(6) by (simp add: s2 same_store_def)
  obtain t where hd: "decode_header F (buffers s2 b) b p dl (of_nat (length mid)) (tlvs s2 a) = Returns (0, ?pos, t)"
    and t: "tag_class t = ber_class x" "complexity t = ber_kind x" "tag_value t = ber_value x"
    "value_length t = of_nat (length (ber_content x))" "tlv_value t = Some (b, p + length mid + header_size x)"
    "length_type t = INDEFINITE \<longleftrightarrow> ber_indefinite x"
    using decode_header_ber [OF mem x(1) pre(2) _ x(3,2)] len by (metis le_add1)
  define s3 where s3: "s3 = put_tlv a t s2"
  have "pool_ready s3 f' g" using r1(2) by (simp add: s3 s2)
  from request_node_ready [OF this] obtain s4 g' where r4: "request_asn1_node s3 = Returns (Some n, s4)" "pool_ready s4 f' g'"
    "1 < g \<longrightarrow> g' = g - 1" "nodes s4 = nodes s3" "tlvs s4 = tlvs s3" "same_store s3 s4"
    using na r1(6) by (auto simp: s3 s2 same_store_def)
  define s6 where s6: "s6 = push_child root n (put_node n ((nodes s4 n)\<lparr>children := [], node_type_name := None, node_tlv := Some a\<rparr>) s4)"
  have "n \<in> taken ?NP g (ber_counts (x # xs))" using D(14) by (simp add: na ber_count_children taken_Suc)
  then have rn: "root \<noteq> n" using D(8) by auto
  have "opened s f g root x b (p + length mid + header_size x) s6 n a t f' g'"
    using rn r1 r4 t na by (auto simp: opened_def s6 s3 s2 push_child_def same_store_def)
  moreover have "decode_loop (Suc F) b p dl root (of_nat (length mid)) used s =
      and_then
        (if complexity t = CONSTRUCTED
         then and_then (decode_loop F b (p + unat ?pos) (value_length t) n 0 0 s6) (\<lambda>(r, _, s). Returns (r, s))
         else Returns (0, s6)) (\<lambda>(res, s).
      if res \<noteq> 0 then Returns (res, used + 1, s)
      else decode_loop F b p dl root (?pos + (value_length (tlvs s a) + indefinite_extra (tlvs s a))) (used + 1) s)"
    using less count hd r1(1) r4(1)
    by (simp add: s2 s3 s6 t(2) Let_def del: of_nat_add cong: if_cong)
  ultimately show ?thesis unfolding u(2) by (simp only: add.assoc [symmetric]) blast
qed

text \<open>The side conditions carry over to the children of the first TLV and to the other TLVs.\<close>

lemma loop_pre_children:
  assumes H: "loop_pre s (Suc F) b p mid (x # xs) post root dl room used f g"
    and opn: "opened s f g root x b (p + length mid + header_size x) s6 n a t f' g'"
    and kind: "ber_kind x = CONSTRUCTED"
  shows "loop_pre s6 F b (p + length mid + header_size x) [] (ber_children x) (ber_tail x @ bers xs @ post) n
    (value_length t) room 0 f' g'"
proof -
  note D = loop_preD [OF H]
  let ?NP = "ASN1_POOL (pool s)" and ?ys = "ber_children x"
  obtain pre where pre: "buffers s b = pre @ mid @ bers (x # xs) @ post" "p = length pre" using D(1) by blast
  have o: "n = ?NP ! (g - 1)" "same_store s s6" "pool_ready s6 f' g'" "1 < f \<longrightarrow> f' = f - 1" "1 < g \<longrightarrow> g' = g - 1"
    "value_length t = of_nat (length (ber_content x))"
    using opn unfolding opened_def by blast+
  have ys: "ber_content x = bers ?ys" using kind by (rule ber_kind_children)
  have n: "length (ber_content x) < 2 ^ 31 - 1" using D(3) by (simp add: ber_length)
  have m: "Suc (ber_counts ?ys) \<le> f" "Suc (ber_counts ?ys) \<le> g" "Suc (ber_counts ?ys) \<le> F"
    using D(6,7,9) ber_count_children [of x] by auto
  have fg: "ber_counts ?ys \<noteq> 0 \<Longrightarrow> f' = f - 1" "ber_counts ?ys \<noteq> 0 \<Longrightarrow> g' = g - 1" using m o(4,5) by linarith+
  have le: "ber_counts ?ys \<le> f'" "ber_counts ?ys \<le> g'" using fg m by (cases "ber_counts ?ys = 0"; linarith)+
  have "n \<notin> taken ?NP (g - 1) (ber_counts ?ys)" unfolding o using taken_head [OF D(13,14,15)] .
  moreover have "taken ?NP g' (ber_counts ?ys) = taken ?NP (g - 1) (ber_counts ?ys)" by (rule taken_eq) (rule fg(2))
  ultimately have nt: "n \<notin> taken ?NP g' (ber_counts ?ys)" by simp
  have buf: "buffers s6 b = (pre @ mid @ ber_tag x @ ber_len x) @ [] @ bers ?ys @ ber_tail x @ bers xs @ post"
    using pre(1) o(2) ys by (simp add: same_store_def ber_parts [of x])
  have len: "p + length mid + header_size x = length (pre @ mid @ ber_tag x @ ber_len x)" using pre(2) by (simp add: header_size_def)
  have vl: "unat (value_length t) = length ([]::u8 list) + length (bers ?ys)"
    using codable_of_nat(2) [OF n] o(6) ys by simp
  have used: "unat (0::u32) + length ?ys \<le> room" using length_le_counts [of ?ys] m(1) D(16) by simp
  have same: "ASN1_POOL (pool s6) = ?NP" "room = length (TLV_POOL (pool s6))" using o(2) D(11) by (simp_all add: same_store_def)
  have "\<forall>y \<in> set ?ys. ber_ok y" using ber_ok_parts(2) D(4) by (metis list.set_intros(1))
  then show ?thesis
    unfolding loop_pre_def same(1) using buf len vl n ys o(3) le nt m(3) used same(2) D(12) by fastforce
qed

lemma loop_pre_rest:
  assumes H: "loop_pre s (Suc F) b p mid (x # xs) post root dl room used f g"
    and node: "decoded_node s f g root x s7" and ready: "pool_ready s7 f1 g1"
    and fg: "ber_count x < f \<longrightarrow> f1 = f - ber_count x" "ber_count x < g \<longrightarrow> g1 = g - ber_count x"
  shows "loop_pre s7 F b p (mid @ ber_bytes x) xs post root dl room (used + 1) f1 g1"
proof -
  note D = loop_preD [OF H]
  let ?NP = "ASN1_POOL (pool s)"
  obtain pre where pre: "buffers s b = pre @ mid @ bers (x # xs) @ post" "p = length pre" using D(1) by blast
  have st: "same_store s s7" using node by (simp add: decoded_node_def Let_def)
  have m: "ber_count x + ber_counts xs \<le> f" "ber_count x + ber_counts xs \<le> g" using D(6,7) by simp_all
  have fg': "ber_counts xs \<noteq> 0 \<Longrightarrow> f1 = f - ber_count x" "ber_counts xs \<noteq> 0 \<Longrightarrow> g1 = g - ber_count x"
    using m fg by linarith+
  have le: "ber_counts xs \<le> f1" "ber_counts xs \<le> g1" using fg' m by (cases "ber_counts xs = 0"; linarith)+
  have "taken ?NP g1 (ber_counts xs) = taken ?NP (g - ber_count x) (ber_counts xs)" by (rule taken_eq) (rule fg'(2))
  moreover have "taken ?NP g (ber_count x + ber_counts xs) = taken ?NP g (ber_count x) \<union> taken ?NP (g - ber_count x) (ber_counts xs)"
    by (rule taken_add)
  ultimately have root: "root \<notin> taken ?NP g1 (ber_counts xs)" using D(8) by simp
  have used: "unat (used + 1) + length xs \<le> room" using D(10,12) used_below(1) [of used room] by simp
  have "buffers s7 b = pre @ (mid @ ber_bytes x) @ bers xs @ post" using pre(1) st by (simp add: same_store_def)
  moreover have "ASN1_POOL (pool s7) = ?NP" "room = length (TLV_POOL (pool s7))" using st D(11) by (simp_all add: same_store_def)
  moreover have "ber_counts xs < F" using D(9) ber_count_pos [of x] by simp
  moreover have "\<forall>y \<in> set xs. ber_ok y" using D(4) by simp
  ultimately show ?thesis
    unfolding loop_pre_def using pre(2) D(2,3,12) ready le root used by fastforce
qed

text \<open>The loop of \<open>decode\<close>, on the octets of a list of trees.\<close>

lemma decode_loop_bers:
  assumes "loop_pre s fuel b p mid ts post root dl room used f g"
  shows "\<exists>s' ns used'. decode_loop fuel b p dl root (of_nat (length mid)) used s = Returns (0, used', s') \<and>
    decoded_below s f g root ts s' ns"
  using assms
proof (induction fuel arbitrary: mid ts post p dl root used s f g)
  case 0
  then show ?case by (simp add: loop_pre_def)
next
  case (Suc F)
  note D = loop_preD [OF Suc.prems]
  show ?case
  proof (cases ts)
    case Nil
    have "unat (of_nat (length mid) :: u32) = length mid" using D(2) by (intro u32_of_nat [of _ dl]) simp
    then have "\<not> (of_nat (length mid) :: u32) < dl" using D(2) Nil by (simp add: word_less_nat_alt)
    then have "decode_loop (Suc F) b p dl root (of_nat (length mid)) used s = Returns (0, used, s)" by simp
    then show ?thesis using Nil decoded_below_Nil [OF D(5)] by blast
  next
    case (Cons x xs)
    note H = Suc.prems [unfolded Cons]
    let ?q = "p + length mid + header_size x"
    obtain s6 n a t f' g' where opn: "opened s f g root x b ?q s6 n a t f' g'"
      and eq: "decode_loop (Suc F) b p dl root (of_nat (length mid)) used s =
        and_then
          (if complexity t = CONSTRUCTED
           then and_then (decode_loop F b ?q (value_length t) n 0 0 s6) (\<lambda>(r, _, s). Returns (r, s))
           else Returns (0, s6)) (\<lambda>(res, s).
        if res \<noteq> 0 then Returns (res, used + 1, s)
        else decode_loop F b p dl root
          (of_nat (length mid + header_size x) + (value_length (tlvs s a) + indefinite_extra (tlvs s a))) (used + 1) s)"
      using decode_open [OF H] by blast
    have t: "complexity t = ber_kind x" "value_length t = of_nat (length (ber_content x))"
      "length_type t = INDEFINITE \<longleftrightarrow> ber_indefinite x" "pool_ready s6 f' g'"
      using opn unfolding opened_def by blast+
    have "\<exists>s7 ns. (if complexity t = CONSTRUCTED
        then and_then (decode_loop F b ?q (value_length t) n 0 0 s6) (\<lambda>(r, _, s). Returns (r, s))
        else Returns (0, s6)) = Returns (0, s7) \<and> decoded_below s6 f' g' n (ber_children x) s7 ns"
    proof (cases "ber_kind x = CONSTRUCTED")
      case False
      then show ?thesis using t decoded_below_Nil [OF t(4)] by (auto simp: ber_kind_children)
    next
      case True
      from Suc.IH [OF loop_pre_children [OF H opn True]] show ?thesis using True t(1) by auto
    qed
    then obtain s7 ns7 where child: "(if complexity t = CONSTRUCTED
        then and_then (decode_loop F b ?q (value_length t) n 0 0 s6) (\<lambda>(r, _, s). Returns (r, s))
        else Returns (0, s6)) = Returns (0, s7)" and below: "decoded_below s6 f' g' n (ber_children x) s7 ns7"
      by blast
    obtain pre where pre: "buffers s b = pre @ mid @ bers (x # xs) @ post" "p = length pre"
      using D(1) Cons by blast
    have rd: "read_bytes (buffers s b) ?q (length (ber_content x)) = Returns (ber_content x)"
      using read_bytes_middle [of ?q "pre @ mid @ ber_tag x @ ber_len x" _ "ber_content x" "ber_tail x @ bers xs @ post"]
        pre by (simp add: ber_parts [of x] header_size_def)
    have m: "ber_count x \<le> f" "ber_count x \<le> g" "root \<notin> taken (ASN1_POOL (pool s)) g (ber_count x)"
      using D(6-8) taken_subset [of "ber_count x" "ber_counts ts" "ASN1_POOL (pool s)" g] Cons by auto
    note node = decoded_node_intro [OF D(5) m opn rd below]
    obtain f1 g1 where fg: "pool_ready s7 f1 g1" "ber_count x < f \<longrightarrow> f1 = f - ber_count x" "ber_count x < g \<longrightarrow> g1 = g - ber_count x"
      using node by (auto simp: decoded_node_def Let_def)
    have "(indefinite_extra t :: u32) = of_nat (length (ber_tail x))"
      using t(3) by (cases x) (auto simp: indefinite_extra_def)
    then have pos: "of_nat (length mid + header_size x) + (value_length t + indefinite_extra t) = (of_nat (length (mid @ ber_bytes x)) :: u32)"
      using t(2) by (simp add: ber_length)
    from Suc.IH [OF loop_pre_rest [OF H _ fg]] node obtain s' ns used' where
      rest: "decode_loop F b p dl root (of_nat (length (mid @ ber_bytes x))) (used + 1) s7 = Returns (0, used', s')"
      and xs: "decoded_below s7 f1 g1 root xs s' ns"
      by blast
    have "decode_loop (Suc F) b p dl root (of_nat (length mid)) used s = Returns (0, used', s')"
      unfolding eq child using node rest pos by (simp del: of_nat_add length_append)
    moreover have "decoded_below s f g root (x # xs) s' ((ASN1_POOL (pool s) ! (g - 1)) # ns)"
      using node xs D(5) fg D(6-8) Cons by (intro decoded_append) auto
    ultimately show ?thesis using Cons by blast
  qed
qed

section \<open>Properties\<close>

text \<open>A pool of distinct entries after \<open>init_pool\<close>, and a root that is not one of them.\<close>

definition fresh_pool :: "asn1_state \<Rightarrow> nat \<Rightarrow> bool" where
  "fresh_pool s root \<longleftrightarrow> (\<exists>f g. pool_ready s f g \<and> f = length (TLV_POOL (pool s)) \<and> g = length (ASN1_POOL (pool s))) \<and>
     root \<notin> set (ASN1_POOL (pool s))"

lemma init_pool_fresh:
  assumes "pool s = set_pool_size (int (length ta)) (int (length na)) ASN1Pool_new" "distinct ta" "distinct na"
    "ta \<noteq> []" "na \<noteq> []" "root \<notin> set na" "init_pool ta na s = Returns s'"
  shows "fresh_pool s' root \<and> TLV_POOL (pool s') = ta \<and> ASN1_POOL (pool s') = na \<and> buffers s' = buffers s"
proof -
  have "1 \<le> length ta" "1 \<le> length na" using assms(4,5) by (simp_all add: Suc_le_eq)
  then have "nat (int (length ta) - 1) = length ta - 1" "nat (int (length na) - 1) = length na - 1" by auto
  then show ?thesis
    using assms by (auto simp: init_pool_def set_pool_size_def ASN1Pool_new_def pool_at_def fresh_pool_def pool_ready_def
        ring_ready_def Let_def Suc_le_eq split: if_splits)
qed

text \<open>
  C3. The decoder builds what the octets say: for any list of BER trees with tags up to 127,
  definite or indefinite lengths and no more TLVs than the pool has entries, decoding
  their octets from anywhere in a buffer returns 0 and appends to the root one node per
  tree, each with the class, tag, length and value of its TLV and the nodes of its
  children below it, all at addresses of the pool, and changes no other node.
\<close>

theorem asn1_decode_bers:
  assumes "init_pool ta na s0 = Returns s" "pool s0 = set_pool_size (int (length ta)) (int (length na)) ASN1Pool_new"
    and "distinct ta" "distinct na" "root \<notin> set na" "length ta < 2 ^ 31"
    and "buffers s0 b = pre @ bers ts @ post" "\<forall>x \<in> set ts. ber_ok x" "length (bers ts) < 2 ^ 31 - 1"
    and "ts \<noteq> []" "ber_counts ts \<le> length ta" "ber_counts ts \<le> length na" "ber_counts ts < fuel"
  shows "\<exists>s' ns. decode fuel b (length pre) (of_nat (length (bers ts))) root s = Returns (0, s') \<and>
    children (nodes s' root) = children (nodes s root) @ map Some ns \<and>
    list_all2 (holds s' (set na) (set ta)) ts ns \<and> (\<forall>n. n \<noteq> root \<longrightarrow> n \<notin> set na \<longrightarrow> nodes s' n = nodes s n)"
proof -
  have pos: "1 \<le> ber_counts ts" using length_le_counts [of ts] assms(10) by (cases ts) auto
  have ne: "ta \<noteq> []" "na \<noteq> []" using le_trans [OF pos assms(11)] le_trans [OF pos assms(12)] by auto
  note i = init_pool_fresh [OF assms(2-4) ne assms(5,1)]
  have ready: "pool_ready s (length ta) (length na)" using i by (auto simp: fresh_pool_def)
  have tk: "taken xs (length xs) m \<subseteq> set xs" for xs :: "nat list" and m by (auto simp: taken_def)
  have dl: "unat (of_nat (length (bers ts)) :: u32) = length (bers ts)" using codable_of_nat(2) assms(9) by blast
  have "length ts \<le> length ta" using length_le_counts [of ts] assms(11) by linarith
  then have pre': "loop_pre s fuel b (length pre) [] ts post root (of_nat (length (bers ts))) (length ta) 0 (length ta) (length na)"
    unfolding loop_pre_def using assms(5-9,11-13) i ready dl tk [of na] by auto
  obtain s' ns u where run: "decode_loop fuel b (length pre) (of_nat (length (bers ts))) root 0 0 s = Returns (0, u, s')"
    and below: "decoded_below s (length ta) (length na) root ts s' ns"
    using decode_loop_bers [OF pre'] by auto
  have "list_all2 (holds s' (set na) (set ta)) ts ns"
    using below i by (auto simp: decoded_below_def elim!: list_all2_mono intro: holds_frame [OF _ tk tk])
  then show ?thesis
    using run below i tk [of na] by (auto simp: decode_def decoded_below_def)
qed

definition example_state :: asn1_state where
  "example_state =
     \<lparr>nodes = (\<lambda>_. ASN1Node_new), tlvs = (\<lambda>_. TLVNode_new),
      buffers = (\<lambda>_. [0xff, 0x30, 0x80, 0x04, 0x01, 0xaa, 0x00, 0x00]),
      pool = set_pool_size 2 2 ASN1Pool_new\<rparr>"

theorem asn1_decode_bers_witness:
  "\<exists>s s' ns. init_pool [10, 11] [20, 21] example_state = Returns s \<and> decode 3 0 1 7 5 s = Returns (0, s') \<and>
    children (nodes s' 5) = map Some ns \<and>
    list_all2 (holds s' {20, 21} {10, 11}) [BCons UNIVERSAL 16 True [BPrim UNIVERSAL 4 [0xaa]]] ns"
proof -
  let ?t = "BCons UNIVERSAL 16 True [BPrim UNIVERSAL 4 [0xaa]]"
  obtain s where s: "init_pool [10, 11] [20, 21] example_state = Returns s"
    by (auto simp: init_pool_def example_state_def set_pool_size_def ASN1Pool_new_def pool_at_def Let_def)
  have root: "children (nodes s 5) = []"
    using s by (auto simp: init_pool_def example_state_def set_pool_size_def ASN1Pool_new_def ASN1Node_new_def pool_at_def Let_def)
  have bytes: "ber_bytes ?t = [0x30, 0x80, 0x04, 0x01, 0xaa, 0x00, 0x00]" by code_simp
  have ok: "ber_ok ?t" by code_simp
  have buf: "buffers example_state 0 = [0xff] @ bers [?t] @ []" using bytes
    by (simp add: example_state_def del: ber_bytes.simps)
  have "\<exists>s' ns. decode 3 0 (length [0xff :: u8]) (of_nat (length (bers [?t]))) 5 s = Returns (0, s') \<and>
    children (nodes s' 5) = children (nodes s 5) @ map Some ns \<and>
    list_all2 (holds s' (set [20, 21]) (set [10, 11])) [?t] ns \<and> (\<forall>n. n \<noteq> 5 \<longrightarrow> n \<notin> set [20, 21] \<longrightarrow> nodes s' n = nodes s n)"
    by (rule asn1_decode_bers [OF s _ _ _ _ _ buf])
       (use ok bytes in \<open>simp_all add: example_state_def del: ber_bytes.simps\<close>)
  then show ?thesis using s root bytes by (simp del: ber_bytes.simps holds.simps) blast
qed

end
