(* ===== verification/Asn1_Schema.thy ===== *)
theory Asn1_Schema
  imports Asn1_Tree
begin

text \<open>
  Decoding against an ASN.1 definition, \<^verbatim>\<open>src/asn1/asn1.cpp\<close>: \<open>_decode\<close> with a definition
  tree, \<open>resolve_CHOICE\<close> and \<open>combine\<close>. A definition tree and the decoded tree live in the
  same store and are linked to each other. \<open>create\<close> and \<open>next\<close> are the virtual \<open>create_node\<close>
  and \<open>get_next_node\<close> of the generated classes (\<open>\<lambda>_ _ s. s\<close> in the base class).
\<close>

section \<open>Matching\<close>

text \<open>The tag a definition node stands for, against the tag that was received.\<close>

definition expected_tag :: "TLVNode \<Rightarrow> TLVNode \<Rightarrow> c_int \<times> TagClass" where
  "expected_tag src received =
     (if tag_value src = uni_value UNKNOWN_UNIVERSAL_TAG then (uni_value (uni_tag_class src), UNIVERSAL)
      else if tag_value src = uni_value ANY then (tag_value received, tag_class received)
      else (tag_value src, tag_class src))"

text \<open>
  The loop of \<open>resolve_CHOICE\<close> over the alternatives. An alternative that is a choice itself
  is replaced by what it resolves to, and then compared by its own tag fields, so by -1
  if it is a universal type.
\<close>

primrec resolve_among :: "nat \<Rightarrow> asn1_state \<Rightarrow> TLVNode \<Rightarrow> nat option list \<Rightarrow> nat option outcome" where
  "resolve_among 0 s needle alts = OutOfFuel"
| "resolve_among (Suc fuel) s needle alts =
     (case alts of
        [] \<Rightarrow> Returns None
      | c # cs \<Rightarrow>
          and_then (the_ptr c) (\<lambda>i.
          and_then (the_ptr (node_tlv (nodes s i))) (\<lambda>a.
          let (tmp_tag_value, tmp_tag_class) = expected_tag (tlvs s a) needle in
          and_then
            (if tmp_tag_value = uni_value CHOICE
             then and_then (resolve_among fuel s needle (children (nodes s i))) (\<lambda>r.
               case r of
                 None \<Rightarrow> Returns (None, tmp_tag_value, tmp_tag_class)
               | Some j \<Rightarrow>
                   and_then (the_ptr (node_tlv (nodes s j))) (\<lambda>a'.
                   Returns (Some j, tag_value (tlvs s a'), tag_class (tlvs s a'))))
             else Returns (Some i, tmp_tag_value, tmp_tag_class)) (\<lambda>(tmp, tv, tc).
          if tmp \<noteq> None \<and> tag_class needle = tc \<and> tag_value needle = tv then Returns tmp
          else resolve_among fuel s needle cs))))"

definition resolve_CHOICE :: "nat \<Rightarrow> asn1_state \<Rightarrow> nat \<Rightarrow> nat \<Rightarrow> nat option outcome" where
  "resolve_CHOICE fuel s needle stack =
     and_then (the_ptr (node_tlv (nodes s needle))) (\<lambda>a.
     resolve_among fuel s (tlvs s a) (children (nodes s stack)))"

text \<open>The fields a choice node takes over from the TLV that selected an alternative.\<close>

definition select_choice :: "nat \<Rightarrow> nat \<Rightarrow> u64 \<Rightarrow> TLVNode \<Rightarrow> asn1_state \<Rightarrow> asn1_state outcome" where
  "select_choice choice matched session t s =
     (let s = put_node choice ((nodes s choice)\<lparr>choice_selection := Some matched, session_id := session,
                linked_node := Some choice\<rparr>) s in
      and_then (the_ptr (node_tlv (nodes s choice))) (\<lambda>a.
      Returns (put_tlv a ((tlvs s a)\<lparr>tag_value_size := tag_value_size t, length_type := length_type t,
        old_value_length := old_value_length t, value_length := value_length t,
        value_length_size := value_length_size t\<rparr>) s)))"

definition link_to :: "nat \<Rightarrow> nat \<Rightarrow> asn1_state \<Rightarrow> asn1_state" where
  "link_to n target s = put_node n ((nodes s n)\<lparr>linked_node := Some target\<rparr>) s"

text \<open>
  The loop that looks for the definition of the node \<open>n\<close> (with the TLV node at \<open>a\<close>) among
  the children of \<open>defn\<close> from index \<open>j\<close> on. It returns \<open>next_src_index\<close> and
  \<open>tmp_node_matched\<close>, which keeps its value of the previous TLV when no child is tried.
\<close>

primrec match_loop ::
  "nat \<Rightarrow> (nat \<Rightarrow> u32 \<Rightarrow> asn1_state \<Rightarrow> asn1_state) \<Rightarrow> u64 \<Rightarrow> nat \<Rightarrow> nat \<Rightarrow> nat \<Rightarrow> bool \<Rightarrow> u32 \<Rightarrow> u32
    \<Rightarrow> nat option \<Rightarrow> asn1_state \<Rightarrow> (u32 \<times> nat option \<times> asn1_state) outcome" where
  "match_loop 0 create session n a defn unlimited j next_src_index matched s = OutOfFuel"
| "match_loop (Suc fuel) create session n a defn unlimited j next_src_index matched s =
     (if \<not> unat j < length (children (nodes s defn)) then Returns (next_src_index, matched, s)
      else
        let s = (if children (nodes s defn) ! unat j = None then create defn j s else s) in
        guard (unat j < length (children (nodes s defn)))
        (case children (nodes s defn) ! unat j of
           None \<Rightarrow> match_loop fuel create session n a defn unlimited (j + 1) next_src_index matched s
         | Some src \<Rightarrow>
             and_then (the_ptr (node_tlv (nodes s src))) (\<lambda>sa.
             and_then (the_ptr (node_tlv (nodes s n))) (\<lambda>na.
             let (tmp_tag_value, tmp_tag_class) = expected_tag (tlvs s sa) (tlvs s na) in
             and_then
               (if tmp_tag_value = uni_value CHOICE
                then and_then (resolve_CHOICE fuel s n src) (\<lambda>r.
                  case r of
                    None \<Rightarrow> Returns (None, s)
                  | Some m \<Rightarrow>
                      and_then (select_choice src m session (tlvs s a) s) (\<lambda>s.
                      Returns (Some m, link_to n src s)))
                else Returns
                  (if tag_class (tlvs s na) = tmp_tag_class \<and> tag_value (tlvs s na) = tmp_tag_value then Some src else None, s))
               (\<lambda>(matched, s).
             case matched of
               None \<Rightarrow> match_loop fuel create session n a defn unlimited (j + 1) next_src_index None s
             | Some m \<Rightarrow>
                 and_then (the_ptr (node_tlv (nodes s defn))) (\<lambda>da.
                 let next_src_index = (if uni_tag_class (tlvs s da) = SET \<and> \<not> unlimited then 0 else j + 1);
                     s = put_node n ((nodes s n)\<lparr>node_type_name := node_type_name (nodes s m)\<rparr>) s in
                 and_then
                   (if uni_tag_class (tlvs s da) = CHOICE
                    then and_then (select_choice defn m session (tlvs s a) s) (\<lambda>s. Returns (link_to n defn s))
                    else Returns s) (\<lambda>s.
                 let s = link_to m n s;
                     s = put_node m ((nodes s m)\<lparr>session_id := session\<rparr>) s
                 in Returns (next_src_index, Some m, s))))))))"

section \<open>The decoder\<close>

primrec decode_def_loop ::
  "nat \<Rightarrow> (nat \<Rightarrow> u32 \<Rightarrow> asn1_state \<Rightarrow> asn1_state) \<Rightarrow> (nat \<Rightarrow> u32 \<Rightarrow> asn1_state \<Rightarrow> asn1_state) \<Rightarrow> u64 \<Rightarrow> nat \<Rightarrow> nat
    \<Rightarrow> u32 \<Rightarrow> nat \<Rightarrow> nat option \<Rightarrow> u32 \<Rightarrow> u32 \<Rightarrow> nat option \<Rightarrow> u32 \<Rightarrow> asn1_state
    \<Rightarrow> (c_int \<times> u32 \<times> asn1_state) outcome" where
  "decode_def_loop 0 create next session b p data_length root defn pos next_src_index matched used_nc s = OutOfFuel"
| "decode_def_loop (Suc fuel) create next session b p data_length root defn pos next_src_index matched used_nc s =
     (if \<not> pos < data_length then Returns (0, used_nc, s)
      else
        and_then (request_tlv s) (\<lambda>(ptr, s).
        and_then (the_ptr ptr) (\<lambda>a.
        let s = put_tlv a ((tlvs s a)\<lparr>value_length := 0\<rparr>) s;
            used_nc = used_nc + 1 in
        if used_nc > word_of_int (tlv_count (pool s)) then Returns (400, used_nc, s)
        else
          and_then (decode_header fuel (buffers s b) b p data_length pos (tlvs s a)) (\<lambda>(res, pos, t).
          let t = (if res = 300 then t else t\<lparr>old_value_length := value_length_size t + value_length t\<rparr>);
              s = put_tlv a t s in
          if res \<noteq> 0 then Returns (res, used_nc, s)
          else
            and_then (request_asn1_node s) (\<lambda>(nptr, s).
            and_then (the_ptr nptr) (\<lambda>n.
            let s = put_node n ((nodes s n)\<lparr>children := [], node_type_name := None, node_tlv := Some a,
                      linked_node := Some n, session_id := session, parent_node := Some root\<rparr>) s;
                s = push_child root n s in
            and_then
              (case defn of
                 None \<Rightarrow> Returns (next_src_index, matched, s)
               | Some d \<Rightarrow>
                   and_then (the_ptr (node_tlv (nodes s d))) (\<lambda>da.
                   let unlimited = unlimited_size (tlvs s da);
                       s = (if unlimited then next d next_src_index s else s)
                   in match_loop fuel create session n a d unlimited next_src_index next_src_index matched s))
              (\<lambda>(next_src_index, matched, s).
            let t = tlvs s a in
            and_then
              (if complexity t = CONSTRUCTED
               then and_then (the_ptr (tlv_value t)) (\<lambda>(vb, vp).
                 and_then (decode_def_loop fuel create next session vb vp (value_length t) n matched 0 0 None used_nc s)
                   (\<lambda>(r, used_nc, s). Returns (r, used_nc, s)))
               else Returns (0, used_nc, s)) (\<lambda>(res, used_nc, s).
            if res \<noteq> 0 then Returns (res, used_nc, s)
            else
              let t = tlvs s a;
                  pos = pos + (value_length t + indefinite_extra t)
              in decode_def_loop fuel create next session b p data_length root defn pos next_src_index matched used_nc s))))))))"

text \<open>
  The public \<open>decode\<close>: a root definition that is not a choice becomes the only child of a
  temporary node with a temporary TLV node, at the addresses \<open>tn\<close> and \<open>ta\<close>.
\<close>

definition decode_def ::
  "nat \<Rightarrow> (nat \<Rightarrow> u32 \<Rightarrow> asn1_state \<Rightarrow> asn1_state) \<Rightarrow> (nat \<Rightarrow> u32 \<Rightarrow> asn1_state \<Rightarrow> asn1_state) \<Rightarrow> nat \<Rightarrow> nat
    \<Rightarrow> u64 \<Rightarrow> nat \<Rightarrow> nat \<Rightarrow> u32 \<Rightarrow> nat \<Rightarrow> nat \<Rightarrow> asn1_state \<Rightarrow> (c_int \<times> asn1_state) outcome" where
  "decode_def fuel create next tn ta session b p data_length root defn s =
     and_then (the_ptr (node_tlv (nodes s defn))) (\<lambda>da.
     if uni_tag_class (tlvs s da) \<noteq> CHOICE
     then
       let s = put_tlv ta TLVNode_new s;
           s = put_node tn (ASN1Node_new\<lparr>node_tlv := Some ta, children := [Some defn]\<rparr>) s
       in and_then (decode_def_loop fuel create next session b p data_length root (Some tn) 0 0 None 0 s)
         (\<lambda>(res, _, s).
          Returns (res, put_node tn ((nodes s tn)\<lparr>children := [], node_tlv := None\<rparr>) s))
     else and_then (decode_def_loop fuel create next session b p data_length root (Some defn) 0 0 None 0 s)
       (\<lambda>(res, _, s). Returns (res, s)))"

section \<open>Combining decoded trees with definitions\<close>

text \<open>The inner loop of \<open>combine\<close>: the definition of \<open>dest\<close> among the children of \<open>src\<close> from \<open>j\<close> on.\<close>

primrec combine_match ::
  "nat \<Rightarrow> nat \<Rightarrow> nat \<Rightarrow> u32 \<Rightarrow> u32 \<Rightarrow> asn1_state \<Rightarrow> (u32 \<times> nat option \<times> asn1_state) outcome" where
  "combine_match 0 dest src j next_src_index s = OutOfFuel"
| "combine_match (Suc fuel) dest src j next_src_index s =
     (if \<not> unat j < length (children (nodes s src)) then Returns (next_src_index, None, s)
      else
        and_then (the_ptr (children (nodes s src) ! unat j)) (\<lambda>c.
        let s = put_node c ((nodes s c)\<lparr>linked_node := None\<rparr>) s in
        and_then (the_ptr (node_tlv (nodes s c))) (\<lambda>ca.
        and_then (the_ptr (node_tlv (nodes s dest))) (\<lambda>da.
        let (tmp_tag_value, tmp_tag_class) = expected_tag (tlvs s ca) (tlvs s da) in
        and_then
          (if tmp_tag_value = uni_value CHOICE then resolve_CHOICE fuel s dest c
           else Returns (if tag_class (tlvs s da) = tmp_tag_class \<and> tag_value (tlvs s da) = tmp_tag_value then Some c else None))
          (\<lambda>matched.
        case matched of
          None \<Rightarrow> combine_match fuel dest src (j + 1) next_src_index s
        | Some m \<Rightarrow>
            and_then (the_ptr (node_tlv (nodes s src))) (\<lambda>sa.
            let next_src_index = (if uni_tag_class (tlvs s sa) = SET then 0 else j + 1);
                s = put_node dest ((nodes s dest)\<lparr>node_type_name := node_type_name (nodes s m)\<rparr>) s;
                s = link_to m dest s
            in Returns (next_src_index, Some m, s)))))))"

primrec combine_loop :: "nat \<Rightarrow> nat \<Rightarrow> nat \<Rightarrow> u32 \<Rightarrow> u32 \<Rightarrow> asn1_state \<Rightarrow> asn1_state outcome" where
  "combine_loop 0 dest src i next_src_index s = OutOfFuel"
| "combine_loop (Suc fuel) dest src i next_src_index s =
     (if i = 0 \<and> \<not> length (children (nodes s src)) \<ge> length (children (nodes s dest)) then Returns s
      else if \<not> unat i < length (children (nodes s dest)) then Returns s
      else
        and_then (the_ptr (children (nodes s dest) ! unat i)) (\<lambda>d.
        and_then (combine_match fuel d src next_src_index next_src_index s) (\<lambda>(next_src_index, matched, s).
        and_then (case matched of None \<Rightarrow> Returns s | Some m \<Rightarrow> combine_loop fuel d m 0 0 s) (\<lambda>s.
        combine_loop fuel dest src (i + 1) next_src_index s))))"

definition combine :: "nat \<Rightarrow> nat \<Rightarrow> nat \<Rightarrow> asn1_state \<Rightarrow> asn1_state outcome" where
  "combine fuel dest src s = combine_loop fuel dest src 0 0 s"

end
