(* ===== verification/Asn1_Encode.thy ===== *)
theory Asn1_Encode
  imports Asn1_Tree
begin

text \<open>
  Building and encoding node trees, \<^verbatim>\<open>src/asn1/asn1.cpp\<close>: sessions, linked data with the
  lengths of the ancestors kept up to date, unlinking, \<open>encode\<close> and \<open>mem_transfer_deep\<close>.
  The recursions through the pointers of the store have fuel: one unit per node on the
  way.
\<close>

section \<open>Sessions\<close>

definition has_linked_data :: "nat \<Rightarrow> u64 \<Rightarrow> asn1_state \<Rightarrow> bool" where
  "has_linked_data n session s \<longleftrightarrow> linked_node (nodes s n) \<noteq> None \<and> session_id (nodes s n) = session"

definition node_exists :: "nat option \<Rightarrow> u64 \<Rightarrow> asn1_state \<Rightarrow> bool" where
  "node_exists n session s = (case n of None \<Rightarrow> False | Some i \<Rightarrow> has_linked_data i session s)"

text \<open>Visiting the nodes below a node, which NULL children are not.\<close>

primrec walk ::
  "nat \<Rightarrow> (nat \<Rightarrow> nat option \<Rightarrow> asn1_state \<Rightarrow> asn1_state) \<Rightarrow> nat option \<Rightarrow> nat option list \<Rightarrow> asn1_state
    \<Rightarrow> asn1_state outcome" where
  "walk 0 f parent ns s = OutOfFuel"
| "walk (Suc fuel) f parent ns s =
     (case ns of
        [] \<Rightarrow> Returns s
      | None # ms \<Rightarrow> walk fuel f parent ms s
      | Some n # ms \<Rightarrow>
          (let s = f n parent s in
           and_then (walk fuel f (Some n) (children (nodes s n)) s) (\<lambda>s. walk fuel f parent ms s)))"

definition set_session_id :: "nat \<Rightarrow> nat \<Rightarrow> u64 \<Rightarrow> asn1_state \<Rightarrow> asn1_state outcome" where
  "set_session_id fuel root session s =
     walk fuel (\<lambda>n _ s. put_node n ((nodes s n)\<lparr>session_id := session\<rparr>) s) None [Some root] s"

definition prepare :: "nat \<Rightarrow> nat \<Rightarrow> nat option \<Rightarrow> asn1_state \<Rightarrow> asn1_state outcome" where
  "prepare fuel root parent s =
     walk fuel (\<lambda>n p s. put_node n ((nodes s n)\<lparr>parent_node := p, linked_node := Some n\<rparr>) s) parent [Some root] s"

text \<open>\<open>SessionId\<close>: the counter, and what \<open>get_next_id\<close> does to the nodes when it wraps.\<close>

definition get_next_id :: "u64 \<Rightarrow> u64 \<times> u64" where
  "get_next_id sid = (let sid = sid + 1 in (sid, sid))"

definition get_next_id_node :: "nat \<Rightarrow> nat \<Rightarrow> u64 \<Rightarrow> asn1_state \<Rightarrow> (u64 \<times> u64 \<times> asn1_state) outcome" where
  "get_next_id_node fuel root sid s =
     (let sid = sid + 1 in
      if sid = 0
      then and_then (set_session_id fuel root sid s) (\<lambda>s. Returns (sid + 1, sid + 1, s))
      else Returns (sid, sid, s))"

section \<open>Linked data\<close>

primrec update_parents :: "nat \<Rightarrow> nat \<Rightarrow> u64 \<Rightarrow> asn1_state \<Rightarrow> asn1_state outcome" where
  "update_parents 0 n session s = OutOfFuel"
| "update_parents (Suc fuel) n session s =
     and_then (the_ptr (node_tlv (nodes s n))) (\<lambda>a.
     let s = put_tlv a (prepare_length (tlvs s a)) s;
         t = tlvs s a;
         delta_len = (value_length t + value_length_size t) - old_value_length t;
         (s, delta_len) =
           (if sint (tag_value_size t) < 1
            then (let t = prepare_tag t in (put_tlv a t s, delta_len + tag_value_size t))
            else (s, delta_len))
     in case parent_node (nodes s n) of
          None \<Rightarrow> Returns s
        | Some p \<Rightarrow>
            (let s = put_node p ((nodes s p)\<lparr>session_id := session\<rparr>) s in
             case linked_node (nodes s p) of
               None \<Rightarrow> Returns s
             | Some l \<Rightarrow>
                 (case node_tlv (nodes s l) of
                    None \<Rightarrow> Returns s
                  | Some pa \<Rightarrow>
                      (let s =
                         (if uni_tag_class (tlvs s pa) \<noteq> CHOICE
                          then put_tlv pa ((tlvs s pa)\<lparr>value_length := value_length (tlvs s pa) + delta_len\<rparr>) s
                          else
                            (let s = put_tlv pa ((tlvs s pa)\<lparr>value_length := value_length (tlvs s a),
                                       value_length_size := value_length_size (tlvs s a)\<rparr>) s
                             in put_node p ((nodes s p)\<lparr>choice_selection := Some n\<rparr>) s));
                         s = put_tlv a ((tlvs s a)\<lparr>old_value_length := value_length (tlvs s a) + value_length_size (tlvs s a)\<rparr>) s
                       in update_parents fuel l session s))))"

text \<open>The three \<open>set_linked_data\<close>: the node itself, another node, or octets.\<close>

definition set_linked_self :: "nat \<Rightarrow> nat \<Rightarrow> u64 \<Rightarrow> asn1_state \<Rightarrow> asn1_state outcome" where
  "set_linked_self fuel n session s =
     (let s = put_node n ((nodes s n)\<lparr>linked_node := Some n, session_id := session\<rparr>) s
      in update_parents fuel n session s)"

definition set_linked_node :: "nat \<Rightarrow> nat \<Rightarrow> u64 \<Rightarrow> nat option \<Rightarrow> asn1_state \<Rightarrow> asn1_state outcome" where
  "set_linked_node fuel n session other s =
     (case other of
        None \<Rightarrow> Returns s
      | Some l \<Rightarrow>
          (let s = put_node n ((nodes s n)\<lparr>linked_node := Some l, session_id := session\<rparr>) s
           in update_parents fuel l session s))"

definition set_linked_data :: "nat \<Rightarrow> nat \<Rightarrow> u64 \<Rightarrow> pointer \<Rightarrow> u32 \<Rightarrow> asn1_state \<Rightarrow> asn1_state outcome" where
  "set_linked_data fuel n session data data_length s =
     (let s = (if linked_node (nodes s n) = None then put_node n ((nodes s n)\<lparr>linked_node := Some n\<rparr>) s else s) in
      and_then (the_ptr (linked_node (nodes s n))) (\<lambda>l.
      case node_tlv (nodes s l) of
        None \<Rightarrow> Returns s
      | Some a \<Rightarrow>
          (let s = put_tlv a ((tlvs s a)\<lparr>tlv_value := data, value_length := data_length\<rparr>) s;
               s = put_node n ((nodes s n)\<lparr>session_id := session\<rparr>) s
           in update_parents fuel l session s)))"

text \<open>Unlinking clears the old lengths of the alternatives of a choice.\<close>

primrec clear_alternatives :: "nat option list \<Rightarrow> asn1_state \<Rightarrow> asn1_state outcome" where
  "clear_alternatives [] s = Returns s"
| "clear_alternatives (c # cs) s =
     and_then (the_ptr c) (\<lambda>i.
     let s = put_node i ((nodes s i)\<lparr>session_id := 0\<rparr>) s in
     and_then (the_ptr (node_tlv (nodes s i))) (\<lambda>a.
     clear_alternatives cs (put_tlv a ((tlvs s a)\<lparr>old_value_length := 0\<rparr>) s)))"

definition unlink :: "nat \<Rightarrow> nat \<Rightarrow> u64 \<Rightarrow> asn1_state \<Rightarrow> asn1_state outcome" where
  "unlink fuel n session s =
     (case linked_node (nodes s n) of
        None \<Rightarrow> Returns s
      | Some l \<Rightarrow>
          (case node_tlv (nodes s l) of
             None \<Rightarrow> Returns s
           | Some a \<Rightarrow>
               (if sint (tag_value_size (tlvs s a)) > 0
                then
                  let old_vl = value_length (tlvs s a);
                      s = put_tlv a ((tlvs s a)\<lparr>value_length := 0 - tag_value_size (tlvs s a) - 1\<rparr>) s;
                      s = put_node n ((nodes s n)\<lparr>session_id := session\<rparr>) s;
                      s = put_node l ((nodes s l)\<lparr>session_id := session\<rparr>) s in
                  and_then (update_parents fuel l session s) (\<lambda>s.
                  let s = put_node n ((nodes s n)\<lparr>session_id := 0\<rparr>) s;
                      s = put_node l ((nodes s l)\<lparr>session_id := 0\<rparr>) s;
                      s = put_tlv a ((tlvs s a)\<lparr>value_length := old_vl\<rparr>) s in
                  if uni_tag_class (tlvs s a) = CHOICE then clear_alternatives (children (nodes s l)) s
                  else Returns s)
                else Returns s)))"

text \<open>\<open>reset\<close> visits the linked nodes and clears their TLV nodes.\<close>

primrec reset_nodes :: "nat \<Rightarrow> nat option list \<Rightarrow> asn1_state \<Rightarrow> asn1_state outcome" where
  "reset_nodes 0 ns s = OutOfFuel"
| "reset_nodes (Suc fuel) ns s =
     (case ns of
        [] \<Rightarrow> Returns s
      | c # cs \<Rightarrow>
          and_then
            (case c of
               None \<Rightarrow> Returns s
             | Some n \<Rightarrow>
                 (case linked_node (nodes s n) of
                    None \<Rightarrow> Returns s
                  | Some l \<Rightarrow>
                      (case node_tlv (nodes s l) of
                         None \<Rightarrow> Returns s
                       | Some a \<Rightarrow>
                           (let s = put_tlv a ((tlvs s a)\<lparr>tag_value_size := 0, value_length := 0, tlv_value := None,
                                      value_length_size := 0, old_value_length := 0\<rparr>) s
                            in reset_nodes fuel (children (nodes s l)) s))))
            (\<lambda>s. reset_nodes fuel cs s))"

text \<open>
  \<open>mem_transfer_deep\<close> copies the values into one buffer. The position is passed by value,
  so the children of a node all start where it ended.
\<close>

primrec mem_transfer_nodes :: "nat \<Rightarrow> nat \<Rightarrow> nat \<Rightarrow> nat option list \<Rightarrow> asn1_state \<Rightarrow> asn1_state outcome" where
  "mem_transfer_nodes 0 dest pos ns s = OutOfFuel"
| "mem_transfer_nodes (Suc fuel) dest pos ns s =
     (case ns of
        [] \<Rightarrow> Returns s
      | c # cs \<Rightarrow>
          and_then
            (case c of
               None \<Rightarrow> Returns s
             | Some n \<Rightarrow>
                 (case linked_node (nodes s n) of
                    None \<Rightarrow> Returns s
                  | Some l \<Rightarrow>
                      (case node_tlv (nodes s l) of
                         None \<Rightarrow> Returns s
                       | Some a \<Rightarrow>
                           (case tlv_value (tlvs s a) of
                              None \<Rightarrow> mem_transfer_nodes fuel dest pos (children (nodes s l)) s
                            | Some (vb, vp) \<Rightarrow>
                                (if sint (value_length (tlvs s a)) > 0
                                 then
                                   let k = unat (value_length (tlvs s a)) in
                                   and_then (read_bytes (buffers s vb) vp k) (\<lambda>bs.
                                   and_then (write_bytes (buffers s dest) pos bs) (\<lambda>mem.
                                   let s = s\<lparr>buffers := (buffers s)(dest := mem)\<rparr>;
                                       s = put_tlv a ((tlvs s a)\<lparr>tlv_value := Some (dest, pos)\<rparr>) s
                                   in mem_transfer_nodes fuel dest (pos + k) (children (nodes s l)) s))
                                 else mem_transfer_nodes fuel dest pos (children (nodes s l)) s)))))
            (\<lambda>s. mem_transfer_nodes fuel dest pos cs s))"

definition mem_transfer_deep :: "nat \<Rightarrow> nat \<Rightarrow> nat \<Rightarrow> nat \<Rightarrow> asn1_state \<Rightarrow> asn1_state outcome" where
  "mem_transfer_deep fuel root dest pos s = mem_transfer_nodes fuel dest pos [Some root] s"

text \<open>\<open>TLVNode::set_value\<close>; the deep copy goes to where the value is now, if there is room.\<close>

definition set_value :: "nat \<Rightarrow> pointer \<Rightarrow> u32 \<Rightarrow> bool \<Rightarrow> asn1_state \<Rightarrow> asn1_state outcome" where
  "set_value a data data_length shallow s =
     (let t = (tlvs s a)\<lparr>old_value_length := value_length (tlvs s a) + value_length_size (tlvs s a)\<rparr>;
          s = put_tlv a t s in
      if shallow then Returns (put_tlv a (t\<lparr>tlv_value := data, value_length := data_length\<rparr>) s)
      else
        case tlv_value t of
          None \<Rightarrow> Returns s
        | Some (vb, vp) \<Rightarrow>
            (if value_length t \<ge> data_length
             then and_then (the_ptr data) (\<lambda>(db, dp).
                  and_then (read_bytes (buffers s db) dp (unat data_length)) (\<lambda>bs.
                  and_then (write_bytes (buffers s vb) vp bs) (\<lambda>mem.
                  let s = s\<lparr>buffers := (buffers s)(vb := mem)\<rparr>
                  in Returns (put_tlv a (t\<lparr>value_length := data_length\<rparr>) s))))
             else Returns s))"

section \<open>Encoding\<close>

text \<open>
  \<open>encode\<close> writes from position \<open>q\<close> of the buffer \<open>ob\<close>, and believes it has \<open>buffer_length\<close> octets
  there. The loop runs over nodes, \<open>total_length\<close> being what it wrote so far; the value of a
  primitive node is then taken from the buffer if \<open>mem_switch\<close> is set. The overload
  without that argument does the same with it unset.
\<close>

definition write_at :: "nat \<Rightarrow> nat \<Rightarrow> u8 list \<Rightarrow> asn1_state \<Rightarrow> asn1_state outcome" where
  "write_at ob q bs s =
     and_then (write_bytes (buffers s ob) q bs) (\<lambda>mem. Returns (s\<lparr>buffers := (buffers s)(ob := mem)\<rparr>))"

definition tag_as_universal :: "TLVNode \<Rightarrow> nat option list \<Rightarrow> TLVNode" where
  "tag_as_universal t cs =
     (let t = (if tag_value t = uni_value UNKNOWN_UNIVERSAL_TAG
               then t\<lparr>tag_value := uni_value (uni_tag_class t), tag_class := UNIVERSAL\<rparr> else t)
      in if complexity t = COMPLEXITY_UNKNOWN
         then t\<lparr>complexity := (if cs = [] then PRIMITIVE else CONSTRUCTED)\<rparr> else t)"

primrec encode_nodes ::
  "nat \<Rightarrow> nat \<Rightarrow> nat \<Rightarrow> c_int \<Rightarrow> nat option list \<Rightarrow> u64 \<Rightarrow> bool \<Rightarrow> u32 \<Rightarrow> asn1_state \<Rightarrow> (u32 \<times> asn1_state) outcome" where
  "encode_nodes 0 ob q buffer_length ns session mem_switch total_length s = OutOfFuel"
| "encode_nodes (Suc fuel) ob q buffer_length ns session mem_switch total_length s =
     (case ns of
        [] \<Rightarrow> Returns (total_length, s)
      | c # cs \<Rightarrow>
          and_then
            (case c of
               None \<Rightarrow> Returns (0, s)
             | Some n \<Rightarrow>
                 (if sint (buffer_length - total_length) > 0
                  then
                    (case linked_node (nodes s n) of
                       None \<Rightarrow> Returns (0, s)
                     | Some l \<Rightarrow>
                         (if session_id (nodes s n) = session
                          then
                            (case node_tlv (nodes s l) of
                               None \<Rightarrow> Returns (0, s)
                             | Some a \<Rightarrow>
                                 (let room = buffer_length - total_length; q = q + unat total_length in
                                  if uni_tag_class (tlvs s a) \<noteq> CHOICE
                                  then
                                    let t = tag_as_universal (tlvs s a) (children (nodes s l));
                                        s = put_tlv a t s in
                                    and_then (encode_prepared_tag room t) (\<lambda>tag.
                                    and_then (write_at ob q tag s) (\<lambda>s.
                                    let len = tag_value_size t in
                                    and_then (encode_prepared_length (room - len) t) (\<lambda>lbs.
                                    and_then (write_at ob (q + unat len) lbs s) (\<lambda>s.
                                    let len = len + value_length_size t in
                                    if complexity t = PRIMITIVE \<or> override_auto_complexity t
                                    then
                                      and_then
                                        (if value_length t = 0 then Returns []
                                         else and_then (the_ptr (tlv_value t)) (\<lambda>(vb, vp).
                                           guard (sint (value_length t) \<ge> 0)
                                             (read_bytes (buffers s vb) vp (unat (value_length t))))) (\<lambda>bs.
                                      and_then (write_at ob (q + unat len) bs s) (\<lambda>s.
                                      let s = (if mem_switch then put_tlv a ((tlvs s a)\<lparr>tlv_value := Some (ob, q + unat len)\<rparr>) s else s)
                                      in Returns (len + value_length t, s)))
                                    else if complexity t = CONSTRUCTED
                                    then encode_nodes fuel ob q room (children (nodes s l)) session mem_switch len s
                                    else Returns (len, s)))))
                                  else
                                    (case choice_selection (nodes s l) of
                                       None \<Rightarrow> Returns (0, s)
                                     | Some sel \<Rightarrow> encode_nodes fuel ob q room [Some sel] session mem_switch 0 s)))
                          else Returns (0, s)))
                  else Returns (0, s)))
            (\<lambda>(len, s). encode_nodes fuel ob q buffer_length cs session mem_switch (total_length + len) s))"

definition encode :: "nat \<Rightarrow> nat \<Rightarrow> nat \<Rightarrow> c_int \<Rightarrow> nat \<Rightarrow> u64 \<Rightarrow> bool \<Rightarrow> asn1_state \<Rightarrow> (u32 \<times> asn1_state) outcome" where
  "encode fuel ob q buffer_length root session mem_switch s =
     encode_nodes fuel ob q buffer_length [Some root] session mem_switch 0 s"

end
