(* ===== verification/Asn1_Build.thy ===== *)
theory Asn1_Build
  imports Asn1_Encode Asn1_Decode
begin

text \<open>
  Incremental building of messages, \<^verbatim>\<open>src/asn1/asn1.cpp\<close>: linking and unlinking nodes of a
  prepared tree without choices keeps the lengths of all ancestors right.
\<close>

section \<open>Prepared trees\<close>

definition tl_of :: "asn1_state \<Rightarrow> nat \<Rightarrow> TLVNode" where
  "tl_of s n = tlvs s (the (node_tlv (nodes s n)))"

definition kids :: "asn1_state \<Rightarrow> nat \<Rightarrow> nat list" where
  "kids s n = map the (filter (\<lambda>c. c \<noteq> None) (children (nodes s n)))"

text \<open>The nodes \<open>encode\<close> descends into, as their value is that of their children.\<close>

definition container :: "asn1_state \<Rightarrow> nat \<Rightarrow> bool" where
  "container s n \<longleftrightarrow>
     complexity (tag_as_universal (tl_of s n) (children (nodes s n))) = CONSTRUCTED \<and>
     \<not> override_auto_complexity (tl_of s n)"

text \<open>
  The nodes \<open>N\<close> form a tree below \<open>r\<close>, as \<open>prepare\<close> leaves it: linked to themselves, parent
  and children agree, inner nodes are containers, TLV nodes are not shared, and \<open>d\<close> grows with the depth.
\<close>

definition plain_tree :: "asn1_state \<Rightarrow> nat set \<Rightarrow> nat \<Rightarrow> (nat \<Rightarrow> nat) \<Rightarrow> bool" where
  "plain_tree s N r d \<longleftrightarrow> r \<in> N \<and> parent_node (nodes s r) = None \<and>
     (\<forall>n \<in> N. linked_node (nodes s n) = Some n \<and> node_tlv (nodes s n) \<noteq> None \<and> distinct (kids s n) \<and>
       (kids s n \<noteq> [] \<longrightarrow> container s n) \<and>
       (n \<noteq> r \<longrightarrow> (\<exists>p \<in> N. parent_node (nodes s n) = Some p \<and> n \<in> set (kids s p) \<and> d p < d n)) \<and>
       (\<forall>m \<in> set (kids s n). m \<in> N \<and> m \<noteq> r \<and> parent_node (nodes s m) = Some n)) \<and>
     inj_on (\<lambda>n. node_tlv (nodes s n)) N"

lemma plain_treeD:
  assumes "plain_tree s N r d" "n \<in> N"
  shows "linked_node (nodes s n) = Some n" "\<exists>a. node_tlv (nodes s n) = Some a" "distinct (kids s n)"
    "n \<noteq> r \<Longrightarrow> \<exists>p \<in> N. parent_node (nodes s n) = Some p \<and> n \<in> set (kids s p) \<and> d p < d n"
    "m \<in> set (kids s n) \<Longrightarrow> m \<in> N \<and> m \<noteq> r \<and> parent_node (nodes s m) = Some n"
    "m \<in> N \<Longrightarrow> m \<noteq> n \<Longrightarrow> node_tlv (nodes s m) \<noteq> node_tlv (nodes s n)"
    "kids s n \<noteq> [] \<Longrightarrow> container s n"
  using assms unfolding plain_tree_def inj_on_def by blast+

lemma plain_tree_root: "plain_tree s N r d \<Longrightarrow> parent_node (nodes s r) = None" "plain_tree s N r d \<Longrightarrow> r \<in> N"
  unfolding plain_tree_def by blast+

lemma kids_deeper:
  assumes "plain_tree s N r d" "n \<in> N" "m \<in> set (kids s n)"
  shows "d n < d m"
proof -
  have m: "m \<in> N" "m \<noteq> r" "parent_node (nodes s m) = Some n" using plain_treeD(5) [OF assms] by auto
  then show ?thesis using plain_treeD(4) [OF assms(1) m(1)] by auto
qed

text \<open>What a TLV node adds to the length of its parent, and when it is up to date.\<close>

definition contribution :: "TLVNode \<Rightarrow> u32" where
  "contribution t = tag_value_size t + old_value_length t"

definition sized :: "TLVNode \<Rightarrow> bool" where
  "sized t \<longleftrightarrow> tag_value_size t = tag_value_size (prepare_tag t) \<and> value_length_size t = value_length_size (prepare_length t)"

definition clean :: "asn1_state \<Rightarrow> u64 \<Rightarrow> nat \<Rightarrow> bool" where
  "clean s session n \<longleftrightarrow>
     (if session_id (nodes s n) = session
      then sized (tl_of s n) \<and> old_value_length (tl_of s n) = value_length (tl_of s n) + value_length_size (tl_of s n)
      else contribution (tl_of s n) = 0)"

definition balanced :: "asn1_state \<Rightarrow> nat \<Rightarrow> bool" where
  "balanced s n \<longleftrightarrow>
     value_length (tl_of s n) = sum_list (map (\<lambda>m. contribution (tl_of s m)) (kids s n))"

definition tag_size_ok :: "TLVNode \<Rightarrow> bool" where
  "tag_size_ok t \<longleftrightarrow> uni_tag_class t \<noteq> CHOICE \<and> sint (tag_value t) < 2 ^ 28 \<and>
     (tag_value_size t = 0 \<or> tag_value_size t = tag_value_size (prepare_tag t))"

text \<open>
  The invariant: every node but the root and those in \<open>D\<close> is up to date, and the length of
  every container but those in \<open>E\<close> is the sum of what its children add.
\<close>

definition lengths_inv ::
  "asn1_state \<Rightarrow> u64 \<Rightarrow> nat set \<Rightarrow> nat \<Rightarrow> (nat \<Rightarrow> nat) \<Rightarrow> nat set \<Rightarrow> nat set \<Rightarrow> bool" where
  "lengths_inv s session N r d E D \<longleftrightarrow> plain_tree s N r d \<and> (\<forall>n \<in> N. tag_size_ok (tl_of s n)) \<and>
     (\<forall>n \<in> N - insert r D. clean s session n) \<and> (\<forall>n \<in> N - E. container s n \<longrightarrow> balanced s n)"

section \<open>One step up\<close>

definition prepared :: "TLVNode \<Rightarrow> TLVNode" where
  "prepared t = (let t = prepare_length t in if sint (tag_value_size t) < 1 then prepare_tag t else t)"

definition settled :: "TLVNode \<Rightarrow> TLVNode" where
  "settled t = (let t = prepared t in t\<lparr>old_value_length := value_length t + value_length_size t\<rparr>)"

lemma prepare_tag_size:
  assumes "sint (tag_value t) < 2 ^ 28"
  shows "sint (tag_value_size (prepare_tag t)) \<ge> 1" "tag_value_size (prepare_tag t) \<noteq> 0"
    "tag_value_size (prepare_tag t) \<in> {1, 2, 3, 4, 5}"
proof -
  show size: "tag_value_size (prepare_tag t) \<in> {1, 2, 3, 4, 5}"
  proof (cases "sint (tag_value t) > 30")
    case True
    have "1 \<le> req_septet_bytes (tag_value t)" "req_septet_bytes (tag_value t) \<le> 4"
      using tag_bits [OF True] assms by auto
    then have "req_septet_bytes (tag_value t) \<in> {1, 2, 3, 4}" by auto
    then show ?thesis using True by (auto simp: prepare_tag_def)
  next
    case False
    then show ?thesis by (simp add: prepare_tag_def)
  qed
  show "sint (tag_value_size (prepare_tag t)) \<ge> 1" "tag_value_size (prepare_tag t) \<noteq> 0" using size by auto
qed

lemma prepare_fields [simp]:
  "value_length (prepare_length t) = value_length t" "tag_value (prepare_length t) = tag_value t"
  "tag_value_size (prepare_length t) = tag_value_size t" "old_value_length (prepare_length t) = old_value_length t"
  "uni_tag_class (prepare_length t) = uni_tag_class t" "tag_class (prepare_length t) = tag_class t"
  "complexity (prepare_length t) = complexity t" "tlv_value (prepare_length t) = tlv_value t"
  "override_auto_complexity (prepare_length t) = override_auto_complexity t"
  "value_length (prepare_tag t) = value_length t" "tag_value (prepare_tag t) = tag_value t"
  "value_length_size (prepare_tag t) = value_length_size t" "old_value_length (prepare_tag t) = old_value_length t"
  "uni_tag_class (prepare_tag t) = uni_tag_class t" "tag_class (prepare_tag t) = tag_class t"
  "complexity (prepare_tag t) = complexity t" "tlv_value (prepare_tag t) = tlv_value t"
  "override_auto_complexity (prepare_tag t) = override_auto_complexity t"
  by (simp_all add: prepare_length_def prepare_tag_def)

text \<open>The fields that linking and unlinking leave alone.\<close>

definition same_kind :: "TLVNode \<Rightarrow> TLVNode \<Rightarrow> bool" where
  "same_kind t t' \<longleftrightarrow> tag_value t' = tag_value t \<and> uni_tag_class t' = uni_tag_class t \<and> tag_class t' = tag_class t \<and>
     complexity t' = complexity t \<and> override_auto_complexity t' = override_auto_complexity t"

lemma same_kind_refl [simp]: "same_kind t t"
  by (simp add: same_kind_def)

lemma same_kind_trans: "same_kind t t' \<Longrightarrow> same_kind t' t'' \<Longrightarrow> same_kind t t''"
  by (simp add: same_kind_def)

lemma same_kind_prepare_tag: "same_kind t t' \<Longrightarrow> tag_value_size (prepare_tag t') = tag_value_size (prepare_tag t)"
  by (simp add: same_kind_def prepare_tag_def)

lemma same_kind_complexity:
  "same_kind t t' \<Longrightarrow> complexity (tag_as_universal t' cs) = complexity (tag_as_universal t cs)"
  by (auto simp: same_kind_def tag_as_universal_def Let_def)

lemma prepared_facts:
  assumes "tag_size_ok t"
  shows "same_kind t (prepared t)" "value_length (prepared t) = value_length t" "sized (prepared t)"
    "old_value_length (prepared t) = old_value_length t" "tlv_value (prepared t) = tlv_value t" "tag_size_ok (prepared t)"
proof -
  have size: "tag_value_size (prepared t) = tag_value_size (prepare_tag t)"
    using assms prepare_tag_size [of t]
    by (auto simp: prepared_def tag_size_ok_def prepare_tag_def)
  show "same_kind t (prepared t)" "value_length (prepared t) = value_length t"
    "old_value_length (prepared t) = old_value_length t" "tlv_value (prepared t) = tlv_value t"
    by (simp_all add: prepared_def same_kind_def Let_def)
  then show "tag_size_ok (prepared t)" "sized (prepared t)"
    using assms size same_kind_prepare_tag [of t "prepared t"]
    by (auto simp: tag_size_ok_def same_kind_def sized_def prepared_def prepare_length_def Let_def)
qed

lemma settled_facts:
  assumes "tag_size_ok t"
  shows "same_kind t (settled t)" "value_length (settled t) = value_length t" "sized (settled t)"
    "old_value_length (settled t) = value_length (settled t) + value_length_size (settled t)"
    "tlv_value (settled t) = tlv_value t" "tag_size_ok (settled t)"
proof -
  have s: "settled t = (prepared t)\<lparr>old_value_length := value_length (prepared t) + value_length_size (prepared t)\<rparr>"
    by (simp add: settled_def Let_def)
  show "same_kind t (settled t)" "value_length (settled t) = value_length t" "sized (settled t)"
    "old_value_length (settled t) = value_length (settled t) + value_length_size (settled t)"
    "tlv_value (settled t) = tlv_value t" "tag_size_ok (settled t)"
    using prepared_facts [OF assms]
    by (simp_all add: s same_kind_def sized_def tag_size_ok_def prepare_tag_def prepare_length_def)
qed

section \<open>Going up\<close>

lemma put_same [simp]: "put_tlv a t (put_tlv a u s) = put_tlv a t s"
  by (simp add: put_tlv_def)

lemma put_node_twice [simp]: "put_node n u (put_node n v s) = put_node n u s"
  by (simp add: put_node_def)

lemma put_commute: "put_tlv a t (put_node n m s) = put_node n m (put_tlv a t s)"
  "a \<noteq> b \<Longrightarrow> put_tlv a t (put_tlv b u s) = put_tlv b u (put_tlv a t s)"
  by (simp_all add: put_tlv_def put_node_def fun_upd_twist)

definition up_step :: "nat \<Rightarrow> nat \<Rightarrow> u64 \<Rightarrow> asn1_state \<Rightarrow> asn1_state" where
  "up_step n p session s =
     (let a = the (node_tlv (nodes s n)); pa = the (node_tlv (nodes s p)); t = settled (tl_of s n);
          delta_len = contribution t - contribution (tl_of s n)
      in put_node p ((nodes s p)\<lparr>session_id := session\<rparr>)
          (put_tlv pa ((tlvs s pa)\<lparr>value_length := value_length (tlvs s pa) + delta_len\<rparr>) (put_tlv a t s)))"

lemma update_parents_up:
  assumes "node_tlv (nodes s n) = Some a" "parent_node (nodes s n) = Some p" "linked_node (nodes s p) = Some p"
    "node_tlv (nodes s p) = Some pa" "pa \<noteq> a" "n \<noteq> p" and choice: "uni_tag_class (tlvs s pa) \<noteq> CHOICE" and ok: "tag_size_ok (tlvs s a)"
  shows "update_parents (Suc k) n session s = update_parents k p session (up_step n p session s)"
proof (cases "tag_value_size (tlvs s a) = 0")
  case True
  then show ?thesis
    using assms(1-7)
    by (simp add: up_step_def tl_of_def settled_def prepared_def contribution_def Let_def put_commute(1) put_commute(2) [of a pa] algebra_simps)
next
  case False
  then have "\<not> sint (tag_value_size (tlvs s a)) < 1" using ok prepare_tag_size [of "tlvs s a"] by (auto simp: tag_size_ok_def)
  then show ?thesis
    using assms(1-7)
    by (simp add: up_step_def tl_of_def settled_def prepared_def contribution_def Let_def put_commute(1) put_commute(2) [of a pa] algebra_simps)
qed

text \<open>Linking and unlinking change sessions and lengths only.\<close>

definition same_tree :: "asn1_state \<Rightarrow> asn1_state \<Rightarrow> bool" where
  "same_tree s s' \<longleftrightarrow> (\<forall>n. nodes s' n = (nodes s n)\<lparr>session_id := session_id (nodes s' n)\<rparr>) \<and>
     (\<forall>a. same_kind (tlvs s a) (tlvs s' a))"

lemma same_treeD:
  assumes "same_tree s s'"
  shows "linked_node (nodes s' n) = linked_node (nodes s n)" "node_tlv (nodes s' n) = node_tlv (nodes s n)"
    "children (nodes s' n) = children (nodes s n)" "parent_node (nodes s' n) = parent_node (nodes s n)"
    "kids s' n = kids s n" "same_kind (tl_of s n) (tl_of s' n)"
proof -
  have n: "nodes s' n = (nodes s n)\<lparr>session_id := session_id (nodes s' n)\<rparr>" using assms unfolding same_tree_def by blast
  show "linked_node (nodes s' n) = linked_node (nodes s n)" "node_tlv (nodes s' n) = node_tlv (nodes s n)"
    "children (nodes s' n) = children (nodes s n)" "parent_node (nodes s' n) = parent_node (nodes s n)"
    by (subst n, simp)+
  then show "kids s' n = kids s n" "same_kind (tl_of s n) (tl_of s' n)"
    using assms by (simp_all add: kids_def tl_of_def same_tree_def)
qed

lemma same_tree_container: "same_tree s s' \<Longrightarrow> container s' n = container s n"
  using same_kind_complexity [OF same_treeD(6)] same_treeD(6) [of s s' n] by (simp add: container_def same_treeD(3) same_kind_def)

lemma same_tree_plain_tree: "same_tree s s' \<Longrightarrow> plain_tree s' N r d = plain_tree s N r d"
  by (simp add: plain_tree_def same_treeD same_tree_container)

lemma same_tree_refl [simp]: "same_tree s s"
  by (simp add: same_tree_def)

lemma same_tree_trans:
  assumes "same_tree s s'" "same_tree s' s''"
  shows "same_tree s s''"
proof -
  have "nodes s'' n = (nodes s n)\<lparr>session_id := session_id (nodes s'' n)\<rparr>" for n
  proof -
    have "nodes s' n = (nodes s n)\<lparr>session_id := session_id (nodes s' n)\<rparr>"
      "nodes s'' n = (nodes s' n)\<lparr>session_id := session_id (nodes s'' n)\<rparr>"
      using assms unfolding same_tree_def by blast+
    then show ?thesis by (metis ASN1Node.surjective ASN1Node.update_convs(2))
  qed
  then show ?thesis using assms unfolding same_tree_def by (blast intro: same_kind_trans)
qed

lemma same_tree_put_node [intro]: "same_tree s s' \<Longrightarrow> same_tree s (put_node n ((nodes s' n)\<lparr>session_id := i\<rparr>) s')"
  by (erule same_tree_trans) (simp add: same_tree_def)

lemma same_tree_put_tlv [intro]: "same_tree s s' \<Longrightarrow> same_kind (tlvs s' a) t \<Longrightarrow> same_tree s (put_tlv a t s')"
  by (erule same_tree_trans) (simp add: same_tree_def)

lemma tl_of_put:
  "tl_of (put_node k ((nodes s k)\<lparr>session_id := i\<rparr>) s) n = tl_of s n"
  by (simp add: tl_of_def)

lemma tl_of_put_tlv:
  assumes "plain_tree s N r d" "n \<in> N" "m \<in> N"
  shows "tl_of (put_tlv (the (node_tlv (nodes s n))) t s) m = (if m = n then t else tl_of s m)"
proof (cases "m = n")
  case False
  then have "the (node_tlv (nodes s m)) \<noteq> the (node_tlv (nodes s n))"
    using plain_treeD(2,6) [OF assms(1,2)] plain_treeD(2) [OF assms(1,3)] assms(3) by (metis option.sel)
  then show ?thesis using False by (simp add: tl_of_def)
qed (simp add: tl_of_def)

lemma sum_list_update:
  fixes f f' :: "nat \<Rightarrow> u32"
  assumes "distinct xs" "n \<in> set xs" "\<And>m. m \<in> set xs \<Longrightarrow> m \<noteq> n \<Longrightarrow> f' m = f m"
  shows "sum_list (map f' xs) = sum_list (map f xs) + (f' n - f n)"
  using assms
proof (induction xs)
  case (Cons x xs)
  show ?case
  proof (cases "x = n")
    case True
    have eq: "map f' xs = map f xs" using True Cons.prems by (intro map_cong) auto
    show ?thesis by (simp only: list.map sum_list.Cons eq True) simp
  next
    case False
    then have "sum_list (map f' xs) = sum_list (map f xs) + (f' n - f n)" using Cons by auto
    then show ?thesis using False Cons.prems by (simp add: algebra_simps)
  qed
qed simp

text \<open>What a step does to the nodes of the tree.\<close>

lemma up_step_fields:
  assumes tree: "plain_tree s N r d" and n: "n \<in> N" "tag_size_ok (tl_of s n)" and p: "p \<in> N" "p \<noteq> n"
  shows "same_tree s (up_step n p session s)"
    "\<And>m. m \<in> N \<Longrightarrow> tl_of (up_step n p session s) m =
      (if m = n then settled (tl_of s n)
       else if m = p then (tl_of s p)\<lparr>value_length := value_length (tl_of s p) + (contribution (settled (tl_of s n)) - contribution (tl_of s n))\<rparr>
       else tl_of s m)"
    "\<And>m. session_id (nodes (up_step n p session s) m) = (if m = p then session else session_id (nodes s m))"
    "buffers (up_step n p session s) = buffers s"
proof -
  let ?a = "the (node_tlv (nodes s n))" and ?pa = "the (node_tlv (nodes s p))"
  let ?delta = "contribution (settled (tl_of s n)) - contribution (tl_of s n)"
  let ?s1 = "put_tlv ?a (settled (tl_of s n)) s"
  let ?s2 = "put_tlv ?pa ((tl_of s p)\<lparr>value_length := value_length (tl_of s p) + ?delta\<rparr>) ?s1"
  have s': "up_step n p session s = put_node p ((nodes ?s2 p)\<lparr>session_id := session\<rparr>) ?s2"
    by (simp add: up_step_def tl_of_def Let_def)
  have t1: "same_tree s ?s1"
    using settled_facts(1) [OF n(2)] by (intro same_tree_put_tlv) (simp_all add: tl_of_def)
  have tree1: "plain_tree ?s1 N r d" using same_tree_plain_tree [OF t1] tree by simp
  have tl1: "tl_of ?s1 m = (if m = n then settled (tl_of s n) else tl_of s m)" if "m \<in> N" for m
    using tl_of_put_tlv [OF tree n(1) that] .
  have tl2: "tl_of ?s2 m = (if m = p then (tl_of s p)\<lparr>value_length := value_length (tl_of s p) + ?delta\<rparr> else tl_of ?s1 m)"
    if "m \<in> N" for m
    using tl_of_put_tlv [OF tree1 p(1) that] by simp
  have "same_kind (tl_of ?s1 p) ((tl_of s p)\<lparr>value_length := value_length (tl_of s p) + ?delta\<rparr>)"
    using tl1 [OF p(1)] p(2) by (simp add: same_kind_def)
  moreover have "tl_of ?s1 p = tlvs ?s1 ?pa" by (simp add: tl_of_def)
  ultimately have t2: "same_tree s ?s2" using same_tree_put_tlv [OF t1] by simp
  then show "same_tree s (up_step n p session s)" unfolding s' by blast
  show "tl_of (up_step n p session s) m =
      (if m = n then settled (tl_of s n)
       else if m = p then (tl_of s p)\<lparr>value_length := value_length (tl_of s p) + ?delta\<rparr> else tl_of s m)" if "m \<in> N" for m
    unfolding s' tl_of_put using tl1 [OF that] tl2 [OF that] p(2) by auto
  show "session_id (nodes (up_step n p session s) m) = (if m = p then session else session_id (nodes s m))" for m
    by (simp add: s')
  show "buffers (up_step n p session s) = buffers s" by (simp add: s')
qed

lemma tag_size_ok_value_length [simp]: "tag_size_ok (t\<lparr>value_length := v\<rparr>) = tag_size_ok t"
  by (simp add: tag_size_ok_def prepare_tag_def)

lemma contribution_value_length [simp]: "contribution (t\<lparr>value_length := v\<rparr>) = contribution t"
  by (simp add: contribution_def)

lemma up_step_inv:
  assumes inv: "lengths_inv s session N r d E {n}" and n: "n \<in> N" "n \<noteq> r" "session_id (nodes s n) = session"
    and p: "p \<in> N" "parent_node (nodes s n) = Some p" "n \<in> set (kids s p)" "p \<noteq> n"
  shows "lengths_inv (up_step n p session s) session N r d E {p}"
proof -
  let ?s = "up_step n p session s" and ?delta = "contribution (settled (tl_of s n)) - contribution (tl_of s n)"
  have tree: "plain_tree s N r d" and ok: "\<And>m. m \<in> N \<Longrightarrow> tag_size_ok (tl_of s m)"
    and cl: "\<And>m. m \<in> N - {r, n} \<Longrightarrow> clean s session m" and bal: "\<And>m. m \<in> N - E \<Longrightarrow> container s m \<Longrightarrow> balanced s m"
    using inv unfolding lengths_inv_def by blast+
  note f = up_step_fields [OF tree n(1) ok [OF n(1)] p(1,4), where session = session] and set = settled_facts [OF ok [OF n(1)]]
  have "tag_size_ok (tl_of ?s m)" if "m \<in> N" for m
    using f(2) [OF that] ok that p(1) set(6) by auto
  moreover have "clean ?s session m" if "m \<in> N - {r, p}" for m
  proof (cases "m = n")
    case True
    then show ?thesis using f(2,3) n(1,3) set(3,4) p(4) by (simp add: clean_def)
  next
    case False
    then show ?thesis using that cl [of m] f(2,3) by (simp add: clean_def)
  qed
  moreover have "balanced ?s m" if m: "m \<in> N - E" "container ?s m" for m
  proof -
    have b: "balanced s m" using bal [OF m(1)] m(2) same_tree_container [OF f(1)] by simp
    have k: "kids ?s m = kids s m" using same_treeD(5) [OF f(1)] .
    have kin: "j \<in> N" "parent_node (nodes s j) = Some m" if "j \<in> set (kids s m)" for j
      using plain_treeD(5) [OF tree _ that] m(1) by auto
    have con: "contribution (tl_of ?s j) = (if j = n then contribution (settled (tl_of s n)) else contribution (tl_of s j))" if "j \<in> N" for j
      using f(2) [OF that] by simp
    show ?thesis
    proof (cases "m = p")
      case True
      have "sum_list (map (\<lambda>j. contribution (tl_of ?s j)) (kids s p)) =
          sum_list (map (\<lambda>j. contribution (tl_of s j)) (kids s p)) + (contribution (tl_of ?s n) - contribution (tl_of s n))"
        using plain_treeD(3) [OF tree p(1)] p(3) con kin True by (intro sum_list_update) auto
      then show ?thesis using b f(2) [OF p(1)] con [OF n(1)] True k p(4) by (simp add: balanced_def)
    next
      case False
      then have "contribution (tl_of ?s j) = contribution (tl_of s j)" if "j \<in> set (kids s m)" for j
        using kin [OF that] con p(2) by auto
      then have "sum_list (map (\<lambda>j. contribution (tl_of ?s j)) (kids s m)) = sum_list (map (\<lambda>j. contribution (tl_of s j)) (kids s m))"
        by (intro arg_cong [of _ _ sum_list] map_cong) auto
      moreover have "value_length (tl_of ?s m) = value_length (tl_of s m)" using f(2) m(1) False set(2) by auto
      ultimately show ?thesis using b k by (simp add: balanced_def)
    qed
  qed
  ultimately show ?thesis using tree same_tree_plain_tree [OF f(1)] unfolding lengths_inv_def by blast
qed

text \<open>At the root the sizes are prepared and nothing else happens.\<close>

lemma update_parents_root:
  assumes "node_tlv (nodes s r) = Some a" "parent_node (nodes s r) = None" "tag_size_ok (tlvs s a)"
  shows "update_parents (Suc k) r session s = Returns (put_tlv a (prepared (tlvs s a)) s)"
  using assms by (simp add: prepared_def Let_def)

lemma root_inv:
  assumes inv: "lengths_inv s session N r d E {r}" and same: "value_length t = value_length (tl_of s r)"
    "same_kind (tl_of s r) t" "tag_size_ok t" and a: "a = the (node_tlv (nodes s r))"
  shows "lengths_inv (put_tlv a t s) session N r d E {}"
proof -
  let ?s = "put_tlv a t s"
  have tree: "plain_tree s N r d" and r: "r \<in> N" using inv plain_tree_root by (auto simp: lengths_inv_def)
  have tl: "tl_of ?s m = (if m = r then t else tl_of s m)" if "m \<in> N" for m
    using tl_of_put_tlv [OF tree r that] a by simp
  have st: "same_tree s ?s" using same(2) a by (intro same_tree_put_tlv) (simp_all add: tl_of_def)
  have "clean ?s session m" if "m \<in> N - {r}" for m
    using inv that tl by (auto simp: lengths_inv_def clean_def)
  moreover have "balanced ?s m" if m: "m \<in> N - E" "container ?s m" for m
  proof -
    have "balanced s m" using inv m same_tree_container [OF st] by (auto simp: lengths_inv_def)
    moreover have "sum_list (map (\<lambda>j. contribution (tl_of ?s j)) (kids s m)) = sum_list (map (\<lambda>j. contribution (tl_of s j)) (kids s m))"
      using plain_treeD(5) [OF tree] m(1) tl by (intro arg_cong [of _ _ sum_list] map_cong) auto
    moreover have "value_length (tl_of ?s m) = value_length (tl_of s m)" using tl m(1) same(1) by auto
    ultimately show ?thesis by (simp add: balanced_def same_treeD(5) [OF st])
  qed
  moreover have "tag_size_ok (tl_of ?s m)" if "m \<in> N" for m
    using inv that tl same(3) by (auto simp: lengths_inv_def)
  ultimately show ?thesis using tree same_tree_plain_tree [OF st] unfolding lengths_inv_def by blast
qed

text \<open>
  From a node that is linked in the session, \<open>update_parents\<close> brings all ancestors up to
  date; nodes that are not above it keep their TLV nodes.
\<close>

lemma update_parents_inv:
  assumes "lengths_inv s session N r d E {n}" "n \<in> N" "n \<noteq> r \<Longrightarrow> session_id (nodes s n) = session" "d n < fuel"
  shows "\<exists>s'. update_parents fuel n session s = Returns s' \<and> lengths_inv s' session N r d E {} \<and> same_tree s s' \<and>
    tl_of s' n = (if n = r then prepared (tl_of s n) else settled (tl_of s n)) \<and>
    (\<forall>m \<in> N. m \<noteq> n \<longrightarrow> d n \<le> d m \<longrightarrow> tl_of s' m = tl_of s m) \<and>
    (\<forall>m \<in> N. tlv_value (tl_of s' m) = tlv_value (tl_of s m)) \<and>
    (\<forall>m \<in> N. \<not> container s m \<longrightarrow> m \<noteq> n \<longrightarrow> value_length (tl_of s' m) = value_length (tl_of s m)) \<and> buffers s' = buffers s \<and>
    sized (tl_of s' r)"
  using assms
proof (induction fuel arbitrary: n s)
  case (Suc k)
  have tree: "plain_tree s N r d" and ok: "\<And>m. m \<in> N \<Longrightarrow> tag_size_ok (tl_of s m)"
    using Suc.prems(1) unfolding lengths_inv_def by blast+
  obtain a where a: "node_tlv (nodes s n) = Some a" using plain_treeD(2) [OF tree Suc.prems(2)] by blast
  show ?case
  proof (cases "n = r")
    case True
    note f = prepared_facts [OF ok [OF Suc.prems(2)]]
    have t: "tl_of s r = tlvs s a" using a True by (simp add: tl_of_def)
    have run: "update_parents (Suc k) n session s = Returns (put_tlv a (prepared (tl_of s r)) s)"
      using update_parents_root [of s r a] a plain_tree_root [OF tree] True ok [OF Suc.prems(2)] t by simp
    have inv: "lengths_inv (put_tlv a (prepared (tl_of s r)) s) session N r d E {}"
      using root_inv [of s session N r d E "prepared (tl_of s r)" a] Suc.prems(1) f a True by simp
    have st: "same_tree s (put_tlv a (prepared (tl_of s r)) s)" using f(1) t True by (intro same_tree_put_tlv) simp_all
    have tl: "tl_of (put_tlv a (prepared (tl_of s r)) s) m = (if m = r then prepared (tl_of s r) else tl_of s m)" if "m \<in> N" for m
      using tl_of_put_tlv [OF tree Suc.prems(2) that] a True by simp
    show ?thesis using run inv st tl f True Suc.prems(2) by auto
  next
    case False
    obtain p where p: "p \<in> N" "parent_node (nodes s n) = Some p" "n \<in> set (kids s p)" "d p < d n"
      using plain_treeD(4) [OF tree Suc.prems(2) False] by blast
    obtain pa where pa: "node_tlv (nodes s p) = Some pa" using plain_treeD(2) [OF tree p(1)] by blast
    have ne: "p \<noteq> n" "pa \<noteq> a" using p(4) pa a plain_treeD(6) [OF tree Suc.prems(2) p(1)] by auto
    let ?s = "up_step n p session s"
    note f = up_step_fields [OF tree Suc.prems(2) ok [OF Suc.prems(2)] p(1) ne(1), where session = session]
    have run: "update_parents (Suc k) n session s = update_parents k p session ?s"
      using ok [OF p(1)] ok [OF Suc.prems(2)] a pa
      by (intro update_parents_up [OF a p(2) plain_treeD(1) [OF tree p(1)] pa ne(2)]) (use ne in \<open>simp_all add: tl_of_def tag_size_ok_def\<close>)
    have inv: "lengths_inv ?s session N r d E {p}"
      by (rule up_step_inv [OF Suc.prems(1,2) False _ p(1-3) ne(1)]) (use Suc.prems(3) False in simp)
    obtain s' where s': "update_parents k p session ?s = Returns s'" "lengths_inv s' session N r d E {}" "same_tree ?s s'"
      "\<And>m. m \<in> N \<Longrightarrow> m \<noteq> p \<Longrightarrow> d p \<le> d m \<Longrightarrow> tl_of s' m = tl_of ?s m"
      "\<And>m. m \<in> N \<Longrightarrow> tlv_value (tl_of s' m) = tlv_value (tl_of ?s m)"
      "\<And>m. m \<in> N \<Longrightarrow> \<not> container ?s m \<Longrightarrow> m \<noteq> p \<Longrightarrow> value_length (tl_of s' m) = value_length (tl_of ?s m)"
      "buffers s' = buffers ?s" "sized (tl_of s' r)"
      using Suc.IH [OF inv p(1)] f(3) p(4) Suc.prems(4) by auto
    have c: "container s p" using plain_treeD(7) [OF tree p(1)] p(3) by (metis empty_iff list.set(1))
    have "tl_of s' n = settled (tl_of s n)" using s'(4) [OF Suc.prems(2) ne(1) [symmetric]] p(4) f(2) [OF Suc.prems(2)] by simp
    moreover have "tl_of s' m = tl_of s m" if "m \<in> N" "m \<noteq> n" "d n \<le> d m" for m
      using that s'(4) [of m] p(4) f(2) [of m] by (cases "m = p") auto
    moreover have "tlv_value (tl_of s' m) = tlv_value (tl_of s m)" if "m \<in> N" for m
      using s'(5) [OF that] f(2) [OF that] settled_facts(5) [OF ok [OF Suc.prems(2)]] by simp
    moreover have "value_length (tl_of s' m) = value_length (tl_of s m)" if "m \<in> N" "\<not> container s m" "m \<noteq> n" for m
      using s'(6) [OF that(1)] f(2) [OF that(1)] same_tree_container [OF f(1)] that c by auto
    ultimately show ?thesis
      using run s'(1,2,7,8) f(4) same_tree_trans [OF f(1) s'(3)] False by simp
  qed
qed simp


section \<open>Linking and unlinking\<close>

lemma lengths_inv_weaken:
  assumes "lengths_inv s session N r d E D" "E \<subseteq> E'" "D \<subseteq> D'"
  shows "lengths_inv s session N r d E' D'"
  using assms unfolding lengths_inv_def by blast

lemma lengths_inv_settle:
  assumes "lengths_inv s session N r d E D" "container s n \<Longrightarrow> n \<in> N \<Longrightarrow> balanced s n" "n \<in> N \<Longrightarrow> n \<noteq> r \<Longrightarrow> clean s session n"
  shows "lengths_inv s session N r d (E - {n}) (D - {n})"
  using assms unfolding lengths_inv_def by blast

text \<open>Changing the session and the length of one node, but not what it adds to its parent.\<close>

lemma touch_inv:
  assumes inv: "lengths_inv s session N r d E D" and n: "n \<in> N" "a = the (node_tlv (nodes s n))"
    and t: "same_kind (tl_of s n) t" "tag_size_ok t" "contribution t = contribution (tl_of s n)"
    and s': "s' = put_node n ((nodes s n)\<lparr>session_id := i\<rparr>) (put_tlv a t s)"
  shows "lengths_inv s' session N r d (insert n E) (insert n D)" "same_tree s s'"
    "\<And>m. m \<in> N \<Longrightarrow> tl_of s' m = (if m = n then t else tl_of s m)"
proof -
  have tree: "plain_tree s N r d" using inv by (simp add: lengths_inv_def)
  let ?s1 = "put_tlv a t s"
  have s1: "s' = put_node n ((nodes ?s1 n)\<lparr>session_id := i\<rparr>) ?s1" using s' by simp
  have "same_tree s ?s1" using t(1) n(2) by (intro same_tree_put_tlv) (simp_all add: tl_of_def)
  then show st: "same_tree s s'" unfolding s1 by blast
  show tl: "tl_of s' m = (if m = n then t else tl_of s m)" if "m \<in> N" for m
    using tl_of_put_tlv [OF tree n(1) that, of t] unfolding s1 tl_of_put by (simp add: n(2))
  have "tag_size_ok (tl_of s' m)" if "m \<in> N" for m
    using inv that tl t(2) by (auto simp: lengths_inv_def)
  moreover have "clean s' session m" if "m \<in> N - insert r (insert n D)" for m
    using inv that tl s' by (auto simp: lengths_inv_def clean_def)
  moreover have "balanced s' m" if m: "m \<in> N - insert n E" "container s' m" for m
  proof -
    have "balanced s m" using inv m same_tree_container [OF st] by (auto simp: lengths_inv_def)
    moreover have "sum_list (map (\<lambda>j. contribution (tl_of s' j)) (kids s m)) = sum_list (map (\<lambda>j. contribution (tl_of s j)) (kids s m))"
      using plain_treeD(5) [OF tree] m(1) tl t(3) by (intro arg_cong [of _ _ sum_list] map_cong) auto
    ultimately show ?thesis using tl m(1) by (simp add: balanced_def same_treeD(5) [OF st])
  qed
  ultimately show "lengths_inv s' session N r d (insert n E) (insert n D)"
    using tree same_tree_plain_tree [OF st] unfolding lengths_inv_def by blast
qed

text \<open>The value of a node that is not a container is in a buffer.\<close>

definition value_held :: "asn1_state \<Rightarrow> nat \<Rightarrow> bool" where
  "value_held s n \<longleftrightarrow> value_length (tl_of s n) = 0 \<or>
     (\<exists>vb vp. tlv_value (tl_of s n) = Some (vb, vp) \<and> vp + unat (value_length (tl_of s n)) \<le> length (buffers s vb))"

definition built :: "asn1_state \<Rightarrow> u64 \<Rightarrow> nat set \<Rightarrow> nat \<Rightarrow> (nat \<Rightarrow> nat) \<Rightarrow> bool" where
  "built s session N r d \<longleftrightarrow> lengths_inv s session N r d {} {} \<and>
     (session_id (nodes s r) = session \<longrightarrow> sized (tl_of s r)) \<and> (\<forall>n \<in> N. \<not> container s n \<longrightarrow> value_held s n)"

lemma builtD:
  assumes "built s session N r d"
  shows "lengths_inv s session N r d {} {}" "plain_tree s N r d" "n \<in> N \<Longrightarrow> tag_size_ok (tl_of s n)"
    "n \<in> N \<Longrightarrow> n \<noteq> r \<Longrightarrow> clean s session n" "n \<in> N \<Longrightarrow> container s n \<Longrightarrow> balanced s n"
    "n \<in> N \<Longrightarrow> \<not> container s n \<Longrightarrow> value_held s n"
  using assms by (simp_all add: built_def lengths_inv_def)

lemma built_sized: "built s session N r d \<Longrightarrow> n \<in> N \<Longrightarrow> session_id (nodes s n) = session \<Longrightarrow> sized (tl_of s n)"
  by (cases "n = r") (auto simp: built_def lengths_inv_def clean_def)

text \<open>Linking a node, with the length \<open>t\<close> carries.\<close>

lemma link_built:
  assumes b: "built s session N r d" and n: "n \<in> N" "a = the (node_tlv (nodes s n))" "d n < fuel"
    and t: "same_kind (tl_of s n) t" "tag_size_ok t" "contribution t = contribution (tl_of s n)"
    and bal: "container s n \<Longrightarrow> value_length t = value_length (tl_of s n)"
    and held: "\<not> container s n \<Longrightarrow> value_length t = 0 \<or>
      (\<exists>vb vp. tlv_value t = Some (vb, vp) \<and> vp + unat (value_length t) \<le> length (buffers s vb))"
    and s1: "s1 = put_node n ((nodes s n)\<lparr>session_id := session\<rparr>) (put_tlv a t s)"
  shows "\<exists>s'. update_parents fuel n session s1 = Returns s' \<and> built s' session N r d \<and> same_tree s s' \<and> buffers s' = buffers s"
proof -
  note touch = touch_inv [OF builtD(1) [OF b] n(1,2) t s1]
  have "balanced s1 n" if "container s1 n"
  proof -
    have c: "container s n" using that same_tree_container [OF touch(2)] by simp
    have "sum_list (map (\<lambda>j. contribution (tl_of s1 j)) (kids s n)) = sum_list (map (\<lambda>j. contribution (tl_of s j)) (kids s n))"
      using plain_treeD(5) [OF builtD(2) [OF b] n(1)] touch(3) t(3) by (intro arg_cong [of _ _ sum_list] map_cong) auto
    then show ?thesis
      using builtD(5) [OF b n(1) c] bal [OF c] touch(3) [OF n(1)] by (simp add: balanced_def same_treeD(5) [OF touch(2)])
  qed
  then have inv: "lengths_inv s1 session N r d {} {n}"
    using touch(1) unfolding lengths_inv_def by blast
  obtain s' where s': "update_parents fuel n session s1 = Returns s'" "lengths_inv s' session N r d {} {}" "same_tree s1 s'"
    "tl_of s' n = (if n = r then prepared (tl_of s1 n) else settled (tl_of s1 n))"
    "\<And>m. m \<in> N \<Longrightarrow> tlv_value (tl_of s' m) = tlv_value (tl_of s1 m)"
    "\<And>m. m \<in> N \<Longrightarrow> \<not> container s1 m \<Longrightarrow> m \<noteq> n \<Longrightarrow> value_length (tl_of s' m) = value_length (tl_of s1 m)"
    "buffers s' = buffers s1" "sized (tl_of s' r)"
    using update_parents_inv [OF inv n(1) _ n(3)] s1 by auto
  have buf: "buffers s1 = buffers s" by (simp add: s1)
  have c: "container s' m = container s m" "container s1 m = container s m" for m
    using same_tree_container [OF s'(3)] same_tree_container [OF touch(2)] by auto
  have "value_held s' m" if m: "m \<in> N" "\<not> container s' m" for m
  proof (cases "m = n")
    case True
    have "value_length (tl_of s' n) = value_length t" "tlv_value (tl_of s' n) = tlv_value t"
      using s'(4) touch(3) [OF n(1)] prepared_facts [OF t(2)] settled_facts [OF t(2)] by auto
    then show ?thesis using held m c s'(7) buf True by (auto simp: value_held_def)
  next
    case False
    then show ?thesis
      using builtD(6) [OF b m(1)] m s'(5,6) [OF m(1)] touch(3) [OF m(1)] c s'(7) buf by (simp add: value_held_def)
  qed
  then show ?thesis using s' same_tree_trans [OF touch(2) s'(3)] buf by (auto simp: built_def)
qed

lemma set_linked_self_built:
  assumes b: "built s session N r d" and n: "n \<in> N" "d n < fuel"
  shows "\<exists>s'. set_linked_self fuel n session s = Returns s' \<and> built s' session N r d \<and> same_tree s s' \<and> buffers s' = buffers s"
proof -
  let ?a = "the (node_tlv (nodes s n))"
  have "(nodes s n)\<lparr>linked_node := Some n, session_id := session\<rparr> = (nodes s n)\<lparr>session_id := session\<rparr>"
    using plain_treeD(1) [OF builtD(2) [OF b] n(1)] by (metis ASN1Node.surjective ASN1Node.update_convs(2,5) ASN1Node.select_convs(5))
  then have run: "set_linked_self fuel n session s = update_parents fuel n session (put_node n ((nodes s n)\<lparr>session_id := session\<rparr>) s)"
    by (simp add: set_linked_self_def)
  have s1: "put_node n ((nodes s n)\<lparr>session_id := session\<rparr>) s = put_node n ((nodes s n)\<lparr>session_id := session\<rparr>) (put_tlv ?a (tl_of s n) s)"
    by (simp add: put_tlv_def tl_of_def)
  have "value_held s n" if "\<not> container s n" using builtD(6) [OF b n(1) that] .
  then show ?thesis
    unfolding run using link_built [OF b n(1) refl n(2) same_kind_refl builtD(3) [OF b n(1)] refl refl _ s1] by (auto simp: value_held_def)
qed

lemma set_linked_data_built:
  assumes b: "built s session N r d" and n: "n \<in> N" "d n < fuel" "\<not> container s n"
    and data: "len = 0 \<or> (\<exists>vb vp. data = Some (vb, vp) \<and> vp + unat len \<le> length (buffers s vb))"
  shows "\<exists>s'. set_linked_data fuel n session data len s = Returns s' \<and> built s' session N r d \<and> same_tree s s' \<and> buffers s' = buffers s"
proof -
  obtain a where a: "node_tlv (nodes s n) = Some a" using plain_treeD(2) [OF builtD(2) [OF b] n(1)] by blast
  let ?t = "(tlvs s a)\<lparr>tlv_value := data, value_length := len\<rparr>"
  have run: "set_linked_data fuel n session data len s =
      update_parents fuel n session (put_node n ((nodes s n)\<lparr>session_id := session\<rparr>) (put_tlv a ?t s))"
    using a plain_treeD(1) [OF builtD(2) [OF b] n(1)] by (simp add: set_linked_data_def Let_def)
  have tl: "tl_of s n = tlvs s a" using a by (simp add: tl_of_def)
  have t: "same_kind (tl_of s n) ?t" "tag_size_ok ?t" "contribution ?t = contribution (tl_of s n)"
    using builtD(3) [OF b n(1)] by (auto simp: tl same_kind_def tag_size_ok_def prepare_tag_def contribution_def split: if_splits)
  show ?thesis
    unfolding run by (rule link_built [OF b n(1) _ n(2) t _ _ refl]) (use a n(3) data in simp_all)
qed

lemma settled_removed:
  assumes "tag_size_ok t" "tag_value_size t \<noteq> 0" "value_length t = 0 - tag_value_size t - 1"
  shows "contribution (settled t) = 0"
proof -
  have size: "tag_value_size t \<in> {1, 2, 3, 4, 5}"
    using assms(1,2) prepare_tag_size(3) [of t] by (auto simp: tag_size_ok_def)
  then have big: "\<not> sint (tag_value_size t) < 1" by auto
  have "\<not> sint (value_length t) > 127" using size assms(3) by auto
  then show ?thesis
    using big by (simp add: contribution_def settled_def prepared_def prepare_length_def assms(3))
qed

lemma unlink_built:
  assumes b: "built s session N r d" and n: "n \<in> N" "d n < fuel" and "session \<noteq> 0"
  shows "\<exists>s'. unlink fuel n session s = Returns s' \<and> built s' session N r d \<and> same_tree s s' \<and> buffers s' = buffers s"
proof -
  note tree = builtD(2) [OF b]
  obtain a where a: "node_tlv (nodes s n) = Some a" using plain_treeD(2) [OF tree n(1)] by blast
  have linked: "linked_node (nodes s n) = Some n" using plain_treeD(1) [OF tree n(1)] .
  have tl: "tl_of s n = tlvs s a" using a by (simp add: tl_of_def)
  have ok: "tag_size_ok (tlvs s a)" using builtD(3) [OF b n(1)] tl by simp
  show ?thesis
  proof (cases "sint (tag_value_size (tlvs s a)) > 0")
    case False
    then show ?thesis using b a linked by (simp add: unlink_def)
  next
    case True
    let ?t = "(tl_of s n)\<lparr>value_length := 0 - tag_value_size (tl_of s n) - 1\<rparr>"
    define s1 where "s1 = put_node n ((nodes s n)\<lparr>session_id := session\<rparr>) (put_tlv a ?t s)"
    have "a = the (node_tlv (nodes s n))" "same_kind (tl_of s n) ?t" "tag_size_ok ?t" "contribution ?t = contribution (tl_of s n)"
      using a builtD(3) [OF b n(1)] by (simp_all add: same_kind_def)
    note touch = touch_inv [OF builtD(1) [OF b] n(1) this s1_def]
    have inv: "lengths_inv s1 session N r d {n} {n}" and st1: "same_tree s s1"
      and tl1: "\<And>m. m \<in> N \<Longrightarrow> tl_of s1 m = (if m = n then ?t else tl_of s m)"
      using touch by blast+
    have sid: "session_id (nodes s1 n) = session" and buf1: "buffers s1 = buffers s" by (simp_all add: s1_def)
    obtain s2 where raw: "update_parents fuel n session s1 = Returns s2" "lengths_inv s2 session N r d {n} {}" "same_tree s1 s2"
      "tl_of s2 n = (if n = r then prepared (tl_of s1 n) else settled (tl_of s1 n))"
      "\<And>m. m \<in> N \<Longrightarrow> m \<noteq> n \<Longrightarrow> d n \<le> d m \<Longrightarrow> tl_of s2 m = tl_of s1 m"
      "\<And>m. m \<in> N \<Longrightarrow> tlv_value (tl_of s2 m) = tlv_value (tl_of s1 m)"
      "\<And>m. m \<in> N \<Longrightarrow> \<not> container s1 m \<Longrightarrow> m \<noteq> n \<Longrightarrow> value_length (tl_of s2 m) = value_length (tl_of s1 m)"
      "buffers s2 = buffers s1" "sized (tl_of s2 r)"
      using update_parents_inv [OF inv n(1) sid n(2)] by blast
    have s2: "update_parents fuel n session s1 = Returns s2" "lengths_inv s2 session N r d {n} {}" "same_tree s1 s2"
      "tl_of s2 n = (if n = r then prepared ?t else settled ?t)"
      "\<And>m. m \<in> N \<Longrightarrow> m \<noteq> n \<Longrightarrow> d n \<le> d m \<Longrightarrow> tl_of s2 m = tl_of s m"
      "\<And>m. m \<in> N \<Longrightarrow> tlv_value (tl_of s2 m) = tlv_value (tl_of s m)"
      "\<And>m. m \<in> N \<Longrightarrow> \<not> container s m \<Longrightarrow> m \<noteq> n \<Longrightarrow> value_length (tl_of s2 m) = value_length (tl_of s m)"
      "buffers s2 = buffers s"
      using raw tl1 tl1 [OF n(1)] n(1) same_tree_container [OF st1] buf1 by auto
    have st2: "same_tree s s2" using same_tree_trans [OF st1 s2(3)] .
    have ok2: "tag_size_ok (tl_of s2 n)" using s2(2) n(1) by (simp add: lengths_inv_def)
    let ?t' = "(tl_of s2 n)\<lparr>value_length := value_length (tl_of s n)\<rparr>"
    define s3 where "s3 = put_node n ((nodes s2 n)\<lparr>session_id := 0\<rparr>) (put_tlv a ?t' s2)"
    have a2: "node_tlv (nodes s2 n) = Some a" using a same_treeD(2) [OF st2] by simp
    have "a = the (node_tlv (nodes s2 n))" "same_kind (tl_of s2 n) ?t'" "tag_size_ok ?t'" "contribution ?t' = contribution (tl_of s2 n)"
      using a2 ok2 by (simp_all add: same_kind_def)
    note touch' = touch_inv [OF s2(2) n(1) this s3_def]
    have inv3: "lengths_inv s3 session N r d {n} {n}" and st3: "same_tree s2 s3"
      and tl3: "\<And>m. m \<in> N \<Longrightarrow> tl_of s3 m = (if m = n then ?t' else tl_of s2 m)"
      using touch' by (simp_all only: insert_absorb2)
    have "uni_tag_class (tl_of s2 n) \<noteq> CHOICE" using ok2 by (simp add: tag_size_ok_def)
    moreover have "put_node n ((nodes s n)\<lparr>session_id := session\<rparr>)
        (put_tlv a ((tlvs s a)\<lparr>value_length := - tag_value_size (tlvs s a) - 1\<rparr>) s) = s1"
      by (simp add: s1_def tl)
    ultimately have run: "unlink fuel n session s = Returns s3"
      using True a linked s2(1) a2 by (simp add: unlink_def tl tl_of_def s3_def put_commute Let_def)
    have c: "container s3 m = container s m" for m
      using same_tree_container [OF st2] same_tree_container [OF st3] by simp
    have sized_root: "session_id (nodes s3 r) = session \<longrightarrow> sized (tl_of s3 r)"
    proof (cases "n = r")
      case True
      then show ?thesis using assms(4) by (auto simp: s3_def)
    next
      case False
      then show ?thesis using raw(9) tl3 [OF plain_tree_root(2) [OF tree]] by simp
    qed
    have "balanced s3 n" if "container s3 n"
    proof -
      have "tl_of s3 j = tl_of s j" if "j \<in> set (kids s n)" for j
        using plain_treeD(5) [OF tree n(1) that] kids_deeper [OF tree n(1) that] tl3 s2(5) by auto
      then have "sum_list (map (\<lambda>j. contribution (tl_of s3 j)) (kids s n)) = sum_list (map (\<lambda>j. contribution (tl_of s j)) (kids s n))"
        by (intro arg_cong [of _ _ sum_list] map_cong) auto
      then show ?thesis
        using builtD(5) [OF b n(1)] that c tl3 [OF n(1)] by (simp add: balanced_def same_treeD(5) [OF st2] same_treeD(5) [OF st3])
    qed
    moreover have "clean s3 session n" if "n \<noteq> r"
    proof -
      have "contribution (settled ?t) = 0"
        using True tl ok by (intro settled_removed) (auto simp: tag_size_ok_def prepare_tag_def)
      then have "contribution (tl_of s3 n) = 0" using s2(4) that tl3 [OF n(1)] by simp
      then show ?thesis using assms(4) by (simp add: clean_def s3_def)
    qed
    ultimately have "lengths_inv s3 session N r d {} {}"
      using lengths_inv_settle [OF inv3, of n] by simp
    moreover have "value_held s3 m" if m: "m \<in> N" "\<not> container s3 m" for m
      using builtD(6) [OF b m(1)] m c s2(6) [OF m(1)] s2(7) [OF m(1)] s2(8) tl3 [OF m(1)]
      by (auto simp: value_held_def s3_def)
    ultimately show ?thesis
      using run same_tree_trans [OF st2 st3] s2(8) sized_root by (auto simp: built_def s3_def)
  qed
qed


section \<open>Sequences of calls\<close>

datatype linking = Link nat | Give nat pointer u32 | Unlink nat

primrec linking_call :: "nat \<Rightarrow> u64 \<Rightarrow> linking \<Rightarrow> asn1_state \<Rightarrow> asn1_state outcome" where
  "linking_call fuel session (Link n) = set_linked_self fuel n session"
| "linking_call fuel session (Give n data len) = set_linked_data fuel n session data len"
| "linking_call fuel session (Unlink n) = unlink fuel n session"

primrec linking_calls :: "nat \<Rightarrow> u64 \<Rightarrow> linking list \<Rightarrow> asn1_state \<Rightarrow> asn1_state outcome" where
  "linking_calls fuel session [] s = Returns s"
| "linking_calls fuel session (c # cs) s = and_then (linking_call fuel session c s) (linking_calls fuel session cs)"

text \<open>Octets are given to nodes that are not containers, and are there to be read.\<close>

primrec linking_ok :: "asn1_state \<Rightarrow> nat set \<Rightarrow> linking \<Rightarrow> bool" where
  "linking_ok s N (Link n) \<longleftrightarrow> n \<in> N"
| "linking_ok s N (Give n data len) \<longleftrightarrow> n \<in> N \<and> \<not> container s n \<and>
     (len = 0 \<or> (\<exists>vb vp. data = Some (vb, vp) \<and> vp + unat len \<le> length (buffers s vb)))"
| "linking_ok s N (Unlink n) \<longleftrightarrow> n \<in> N"

lemma linking_ok_same: "same_tree s s' \<Longrightarrow> buffers s' = buffers s \<Longrightarrow> linking_ok s' N c = linking_ok s N c"
  by (cases c) (simp_all add: same_tree_container)

lemma linking_call_built:
  assumes "built s session N r d" "linking_ok s N c" "\<forall>n \<in> N. d n < fuel" "session \<noteq> 0"
  shows "\<exists>s'. linking_call fuel session c s = Returns s' \<and> built s' session N r d \<and> same_tree s s' \<and> buffers s' = buffers s"
proof (cases c)
  case (Link n)
  then show ?thesis using set_linked_self_built [OF assms(1), of n fuel] assms(2,3) by simp
next
  case (Give n data len)
  then show ?thesis using set_linked_data_built [OF assms(1), of n fuel len data] assms(2,3) by simp
next
  case (Unlink n)
  then show ?thesis using unlink_built [OF assms(1), of n fuel] assms(2-4) by simp
qed

lemma linking_calls_built:
  assumes "built s session N r d" "\<forall>c \<in> set cs. linking_ok s N c" "\<forall>n \<in> N. d n < fuel" "session \<noteq> 0"
  shows "\<exists>s'. linking_calls fuel session cs s = Returns s' \<and> built s' session N r d \<and> same_tree s s' \<and> buffers s' = buffers s"
  using assms(1,2)
proof (induction cs arbitrary: s)
  case (Cons c cs)
  obtain s1 where s1: "linking_call fuel session c s = Returns s1" "built s1 session N r d" "same_tree s s1" "buffers s1 = buffers s"
    using linking_call_built [OF Cons.prems(1) _ assms(3,4)] Cons.prems(2) by auto
  have "\<forall>c \<in> set cs. linking_ok s1 N c" using Cons.prems(2) linking_ok_same [OF s1(3,4)] by simp
  from Cons.IH [OF s1(2) this] s1 show ?case by (auto intro: same_tree_trans)
qed simp

text \<open>A tree no session has used yet.\<close>

definition unset :: "TLVNode \<Rightarrow> bool" where
  "unset t \<longleftrightarrow> uni_tag_class t \<noteq> CHOICE \<and> sint (tag_value t) < 2 ^ 28 \<and> tag_value_size t = 0 \<and> value_length t = 0 \<and>
     old_value_length t = 0"

lemma unset_built:
  assumes "plain_tree s N r d" "\<forall>n \<in> N. session_id (nodes s n) \<noteq> session \<and> unset (tl_of s n)"
  shows "built s session N r d"
proof -
  have "contribution (tl_of s n) = 0" "value_length (tl_of s n) = 0" "tag_size_ok (tl_of s n)" if "n \<in> N" for n
    using assms(2) that by (auto simp: unset_def contribution_def tag_size_ok_def)
  moreover have "balanced s n" if "n \<in> N" for n
  proof -
    have "sum_list (map (\<lambda>m. contribution (tl_of s m)) (kids s n)) = sum_list (map (\<lambda>m. 0) (kids s n))"
      using plain_treeD(5) [OF assms(1) that] calculation(1) by (intro arg_cong [of _ _ sum_list] map_cong) auto
    then show ?thesis using calculation(2) [OF that] by (simp add: balanced_def)
  qed
  moreover have "session_id (nodes s r) \<noteq> session" using assms(2) plain_tree_root(2) [OF assms(1)] by blast
  ultimately show ?thesis
    using assms by (simp add: built_def lengths_inv_def clean_def value_held_def)
qed

section \<open>Properties\<close>

text \<open>The octets a node takes in the message: none unless it is linked in the session.\<close>

definition encoded_size :: "asn1_state \<Rightarrow> u64 \<Rightarrow> nat \<Rightarrow> u32" where
  "encoded_size s session n =
     (if session_id (nodes s n) = session
      then tag_value_size (tl_of s n) + value_length_size (tl_of s n) + value_length (tl_of s n) else 0)"

lemma built_contribution:
  "built s session N r d \<Longrightarrow> n \<in> N \<Longrightarrow> n \<noteq> r \<Longrightarrow> contribution (tl_of s n) = encoded_size s session n"
  using builtD(4) [of s session N r d n] by (auto simp: clean_def encoded_size_def contribution_def split: if_splits)

text \<open>
  C7. Lengths are kept: after any sequence of \<open>set_linked_data\<close> and \<open>unlink\<close> calls on the nodes
  of a prepared tree without choices, with fuel for the depth of the tree, every call
  returns; the length of every container is the sum of what its children take in the
  message, unlinked ones taking nothing; and every node linked in the session has the
  tag and length sizes that \<open>prepare_tag\<close> and \<open>prepare_length\<close> compute.
\<close>

theorem asn1_lengths_kept:
  assumes "plain_tree s N r d" "\<forall>n \<in> N. session_id (nodes s n) \<noteq> session \<and> unset (tl_of s n)"
    and "\<forall>c \<in> set cs. linking_ok s N c" "\<forall>n \<in> N. d n < fuel" "session \<noteq> 0"
  shows "\<exists>s'. linking_calls fuel session cs s = Returns s' \<and>
    (\<forall>n \<in> N. container s' n \<longrightarrow> value_length (tl_of s' n) = sum_list (map (encoded_size s' session) (kids s' n))) \<and>
    (\<forall>n \<in> N. session_id (nodes s' n) = session \<longrightarrow> sized (tl_of s' n))"
proof -
  obtain s' where run: "linking_calls fuel session cs s = Returns s'" and b: "built s' session N r d"
    using linking_calls_built [OF unset_built [OF assms(1,2)] assms(3-5)] by blast
  have "value_length (tl_of s' n) = sum_list (map (encoded_size s' session) (kids s' n))" if n: "n \<in> N" "container s' n" for n
  proof -
    have "sum_list (map (\<lambda>m. contribution (tl_of s' m)) (kids s' n)) = sum_list (map (encoded_size s' session) (kids s' n))"
      using built_contribution [OF b] plain_treeD(5) [OF builtD(2) [OF b] n(1)] by (intro arg_cong [of _ _ sum_list] map_cong) auto
    then show ?thesis using builtD(5) [OF b n] by (simp add: balanced_def)
  qed
  then show ?thesis using run built_sized [OF b] by blast
qed

text \<open>A sequence of an integer and a null, with the octets of the integer in buffer 0.\<close>

definition example_tree :: asn1_state where
  "example_tree =
     \<lparr>nodes = (\<lambda>n. ASN1Node_new\<lparr>node_tlv := Some n, linked_node := Some n,
         parent_node := (if n = 0 then None else Some 0), children := (if n = 0 then [Some 1, None, Some 2] else [])\<rparr>),
      tlvs = (\<lambda>n. if n = 0 then snd Sequence_new else if n = 1 then snd Integer_new else snd Null_new),
      buffers = (\<lambda>b. if b = 0 then [1, 44] else replicate 9 0), pool = ASN1Pool_new\<rparr>"

lemmas example_tree_simps = example_tree_def plain_tree_def kids_def container_def tl_of_def unset_def tag_as_universal_def
  Sequence_new_def Integer_new_def Null_new_def leaf_def constructed_leaf_def TLVNode_new_def ASN1Node_new_def

lemma example_tree_kids: "kids example_tree n = (if n = 0 then [1, 2] else [])"
  by (simp add: example_tree_def kids_def)

lemma example_tree_plain: "plain_tree example_tree {0, 1, 2} 0 (\<lambda>n. n)"
  unfolding plain_tree_def example_tree_kids by (auto simp: example_tree_simps inj_on_def)

lemma example_tree_unset: "\<forall>n \<in> {0, 1, 2}. session_id (nodes example_tree n) \<noteq> 7 \<and> unset (tl_of example_tree n)"
  by (simp add: example_tree_simps)

lemma example_tree_linking: "\<forall>c \<in> set [Link 2, Give 1 (Some (0, 0)) 2, Unlink 2]. linking_ok example_tree {0, 1, 2} c"
  by (simp add: example_tree_simps)

theorem asn1_lengths_kept_witness:
  "\<exists>s'. linking_calls 3 7 [Link 2, Give 1 (Some (0, 0)) 2, Unlink 2] example_tree = Returns s' \<and>
    value_length (tl_of s' 0) = sum_list (map (encoded_size s' 7) (kids s' 0))"
proof -
  let ?cs = "[Link 2, Give 1 (Some (0, 0)) 2, Unlink 2]"
  obtain s' where s': "linking_calls 3 7 ?cs example_tree = Returns s'"
    "\<forall>n \<in> {0, 1, 2}. container s' n \<longrightarrow> value_length (tl_of s' n) = sum_list (map (encoded_size s' 7) (kids s' n))"
    using asn1_lengths_kept [OF example_tree_plain example_tree_unset example_tree_linking, of 3] by auto
  have "same_tree example_tree s'"
    using linking_calls_built [OF unset_built [OF example_tree_plain example_tree_unset] example_tree_linking, of 3] s'(1) by auto
  then have "container s' 0" using same_tree_container by (simp add: example_tree_simps)
  then show ?thesis using s' by auto
qed

end
