(* ===== verification/Asn1_Output.thy ===== *)
theory Asn1_Output
  imports Asn1_Build
begin

text \<open>
  \<open>encode\<close> of \<^verbatim>\<open>src/asn1/asn1.cpp\<close> on a tree that was built by linking and unlinking: it
  writes the BER octets of what is linked in the session, in the order of the tree.
\<close>

section \<open>What a tree stands for\<close>

text \<open>The TLV node of \<open>n\<close> as \<open>encode\<close> leaves it, and the children it does not skip.\<close>

definition tagged :: "asn1_state \<Rightarrow> nat \<Rightarrow> TLVNode" where
  "tagged s n = tag_as_universal (tl_of s n) (children (nodes s n))"

definition present :: "asn1_state \<Rightarrow> u64 \<Rightarrow> nat \<Rightarrow> nat list" where
  "present s session n = filter (\<lambda>m. session_id (nodes s m) = session) (kids s n)"

definition held_octets :: "asn1_state \<Rightarrow> TLVNode \<Rightarrow> u8 list" where
  "held_octets s t =
     (if value_length t = 0 then []
      else case tlv_value t of
             None \<Rightarrow> []
           | Some (vb, vp) \<Rightarrow> take (unat (value_length t)) (drop vp (buffers s vb)))"

fun stands_for :: "asn1_state \<Rightarrow> u64 \<Rightarrow> ber \<Rightarrow> nat \<Rightarrow> bool" where
  "stands_for s session (BPrim c v bs) n \<longleftrightarrow>
     \<not> container s n \<and> tag_class (tagged s n) = c \<and> tag_value (tagged s n) = v \<and> held_octets s (tagged s n) = bs"
| "stands_for s session (BCons c v indef ts) n \<longleftrightarrow>
     container s n \<and> tag_class (tagged s n) = c \<and> tag_value (tagged s n) = v \<and> \<not> indef \<and>
     list_all2 (stands_for s session) ts (present s session n)"

text \<open>Nodes with a tag of up to 127, and values that are not taken from the output buffer.\<close>

definition sendable :: "asn1_state \<Rightarrow> nat \<Rightarrow> nat \<Rightarrow> bool" where
  "sendable s ob n \<longleftrightarrow> tag_ok (tag_class (tagged s n)) (tag_value (tagged s n)) \<and>
     (tag_value (tl_of s n) = uni_value UNKNOWN_UNIVERSAL_TAG \<longrightarrow> sint (tag_value (tagged s n)) \<le> 30) \<and>
     (\<not> container s n \<longrightarrow> complexity (tagged s n) = PRIMITIVE) \<and>
     (\<forall>vb vp. tlv_value (tl_of s n) = Some (vb, vp) \<longrightarrow> vb \<noteq> ob)"

lemma tagged_simps [simp]:
  "tag_value_size (tagged s n) = tag_value_size (tl_of s n)" "value_length (tagged s n) = value_length (tl_of s n)"
  "value_length_size (tagged s n) = value_length_size (tl_of s n)" "tlv_value (tagged s n) = tlv_value (tl_of s n)"
  "uni_tag_class (tagged s n) = uni_tag_class (tl_of s n)"
  "override_auto_complexity (tagged s n) = override_auto_complexity (tl_of s n)"
  by (simp_all add: tagged_def tag_as_universal_def Let_def)

lemma tagged_container: "container s n \<longleftrightarrow> complexity (tagged s n) = CONSTRUCTED \<and> \<not> override_auto_complexity (tl_of s n)"
  by (simp add: container_def tagged_def)

section \<open>Parts of a message\<close>

fun ber_complexity :: "ber \<Rightarrow> Complexity" where
  "ber_complexity (BPrim c v bs) = PRIMITIVE"
| "ber_complexity (BCons c v indef ts) = CONSTRUCTED"

fun ber_content :: "ber \<Rightarrow> u8 list" where
  "ber_content (BPrim c v bs) = bs"
| "ber_content (BCons c v indef ts) = bers ts"

lemma stands_for_bytes:
  assumes "stands_for s session x n"
  shows "ber_bytes x = tag_bytes (tag_class (tagged s n)) (ber_complexity x) (tag_value (tagged s n)) @
    length_header (of_nat (length (ber_content x))) @ ber_content x"
  using assms by (cases x) auto

lemma stands_for_complexity:
  assumes "stands_for s session x n" "sendable s ob n"
  shows "complexity (tagged s n) = ber_complexity x"
  using assms by (cases x) (auto simp: sendable_def tagged_container)

lemma stands_for_ok:
  assumes "\<forall>n \<in> N. sendable s ob n" "plain_tree s N r d" "n \<in> N" "stands_for s session x n"
  shows "ber_ok x"
  using assms(3,4)
proof (induction x arbitrary: n)
  case (BPrim c v bs)
  then show ?case using assms(1) by (auto simp: sendable_def)
next
  case (BCons c v indef ts)
  have "ber_ok t" if t: "t \<in> set ts" for t
  proof -
    have "list_all2 (stands_for s session) ts (present s session n)" using BCons.prems(2) by simp
    then obtain m where m: "m \<in> set (present s session n)" "stands_for s session t m"
      using t by (metis in_set_conv_nth list_all2_conv_all_nth)
    then show ?thesis using BCons.IH [OF t _ m(2)] plain_treeD(5) [OF assms(2) BCons.prems(1)] by (auto simp: present_def)
  qed
  then show ?case using BCons.prems assms(1) by (auto simp: sendable_def)
qed

text \<open>Every node stands for a message.\<close>

lemma stands_for_exists:
  assumes tree: "plain_tree s N r d" and deep: "\<forall>n \<in> N. d n < H" and n: "n \<in> N"
  shows "\<exists>x. stands_for s session x n"
  using n
proof (induction "H - d n" arbitrary: n rule: less_induct)
  case less
  show ?case
  proof (cases "container s n")
    case True
    have "\<exists>x. stands_for s session x m" if "m \<in> set (present s session n)" for m
    proof -
      have m: "m \<in> set (kids s n)" using that by (simp add: present_def)
      then have "m \<in> N" "d n < d m" using plain_treeD(5) [OF tree less.prems] kids_deeper [OF tree less.prems] by auto
      then show ?thesis using less.hyps [of m] deep by (auto intro: diff_less_mono2)
    qed
    then obtain f where "\<And>m. m \<in> set (present s session n) \<Longrightarrow> stands_for s session (f m) m" by metis
    then have "list_all2 (stands_for s session) (map f (present s session n)) (present s session n)"
      by (simp add: list_all2_conv_all_nth)
    then have "stands_for s session (BCons (tag_class (tagged s n)) (tag_value (tagged s n)) False (map f (present s session n))) n"
      using True by simp
    then show ?thesis by blast
  next
    case False
    then have "stands_for s session (BPrim (tag_class (tagged s n)) (tag_value (tagged s n)) (held_octets s (tagged s n))) n" by simp
    then show ?thesis by blast
  qed
qed

section \<open>Headers\<close>

lemma sized_tag:
  assumes "sized (tl_of s n)" "sendable s ob n"
  shows "0 < room \<Longrightarrow> encode_prepared_tag room (tagged s n) =
      Returns (tag_bytes (tag_class (tagged s n)) (complexity (tagged s n)) (tag_value (tagged s n)))"
    "tag_value_size (tl_of s n) =
      of_nat (length (tag_bytes (tag_class (tagged s n)) (complexity (tagged s n)) (tag_value (tagged s n))))"
proof -
  let ?t = "tagged s n"
  have r: "tag_range (tag_value ?t)" using assms(2) by (auto simp: sendable_def tag_ok_def tag_range_def)
  have size: "tag_value_size ?t = tag_value_size (prepare_tag ?t)"
  proof (cases "tag_value (tl_of s n) = uni_value UNKNOWN_UNIVERSAL_TAG")
    case True
    then show ?thesis using assms by (simp add: sized_def prepare_tag_def sendable_def)
  next
    case False
    then have "tag_value ?t = tag_value (tl_of s n)" by (simp add: tagged_def tag_as_universal_def Let_def)
    then show ?thesis using assms by (simp add: sized_def prepare_tag_def)
  qed
  have bytes: "tag_header ?t = tag_bytes (tag_class ?t) (complexity ?t) (tag_value ?t)"
    by (simp add: tag_bytes_def tag_header_def first_tag_octet_def)
  have "encode_prepared_tag room ?t = encode_prepared_tag room (prepare_tag ?t)" for room
    unfolding encode_prepared_tag_def using size by (simp add: first_tag_octet_def prepare_tag_def)
  then show "encode_prepared_tag room ?t = Returns (tag_bytes (tag_class ?t) (complexity ?t) (tag_value ?t))" if "0 < room"
    using encode_tag_header(2) [OF that r] bytes by simp
  show "tag_value_size (tl_of s n) = of_nat (length (tag_bytes (tag_class ?t) (complexity ?t) (tag_value ?t)))"
    using encode_tag_header(3) [OF _ r, of 1] size bytes by simp
qed

lemma sized_length:
  assumes "sized (tl_of s n)" "value_length (tl_of s n) = of_nat k" "k < 2 ^ 31 - 1"
  shows "0 < room \<Longrightarrow> encode_prepared_length room (tagged s n) = Returns (length_header (of_nat k))"
    "value_length_size (tl_of s n) = of_nat (length (length_header (of_nat k)))"
proof -
  have size: "value_length_size (tl_of s n) = value_length_size (prepare_length (tl_of s n))"
    using assms(1) by (simp add: sized_def)
  have c: "codable (value_length (tl_of s n))" using codable_of_nat(1) [OF assms(3)] assms(2) by simp
  have "encode_prepared_length room (tagged s n) = encode_prepared_length room (prepare_length (tl_of s n))" for room
    using size by (simp add: encode_prepared_length_def)
  then show "encode_prepared_length room (tagged s n) = Returns (length_header (of_nat k))" if "0 < room"
    using encode_prepared_length_header(1) [OF that c] assms(2) by simp
  show "value_length_size (tl_of s n) = of_nat (length (length_header (of_nat k)))"
    using encode_prepared_length_header(2) [OF _ c, of 1] assms(2) size by simp
qed

lemma sum_list_all2:
  assumes "list_all2 P ts ns" "\<And>t m. t \<in> set ts \<Longrightarrow> P t m \<Longrightarrow> m \<in> set ns \<Longrightarrow> f m = of_nat (length (g t))"
  shows "sum_list (map f ns) = (of_nat (length (concat (map g ts))) :: u32)"
  using assms by (induction rule: list_all2_induct) simp_all

text \<open>The length of a linked node is that of what it stands for, if that is below \<open>2 ^ 31 - 1\<close>.\<close>

lemma content_length:
  assumes b: "built s session N r d" and send: "\<forall>n \<in> N. sendable s ob n"
  shows "n \<in> N \<Longrightarrow> stands_for s session x n \<Longrightarrow> length (ber_content x) < 2 ^ 31 - 1 \<Longrightarrow>
    value_length (tl_of s n) = of_nat (length (ber_content x))"
proof (induction x arbitrary: n)
  case (BPrim c v bs)
  have "value_held s n" using builtD(6) [OF b BPrim.prems(1)] BPrim.prems(2) by simp
  then have "length bs = unat (value_length (tl_of s n))"
    using BPrim.prems(2) by (auto simp: value_held_def held_octets_def)
  then show ?case by simp
next
  case (BCons c v indef ts)
  let ?ns = "present s session n"
  note tree = builtD(2) [OF b]
  have sub: "list_all2 (stands_for s session) ts ?ns" and c: "container s n" using BCons.prems(2) by simp_all
  have "encoded_size s session m = of_nat (length (ber_bytes t))"
    if t: "t \<in> set ts" "stands_for s session t m" and m: "m \<in> set ?ns" for t m
  proof -
    have mem: "m \<in> N" "m \<noteq> r" "session_id (nodes s m) = session"
      using m plain_treeD(5) [OF tree BCons.prems(1)] by (auto simp: present_def)
    have small: "length (ber_content t) < 2 ^ 31 - 1"
    proof -
      have "length (ber_content t) \<le> length (ber_bytes t)" using stands_for_bytes [OF t(2)] by simp
      also have "\<dots> \<le> length (bers ts)" using t(1) by (induction ts) auto
      finally show ?thesis using BCons.prems(3) by simp
    qed
    have z: "sized (tl_of s m)" using built_sized [OF b mem(1,3)] .
    have v: "value_length (tl_of s m) = of_nat (length (ber_content t))"
      using BCons.IH [OF t(1) mem(1) t(2) small] .
    have sd: "sendable s ob m" using send mem(1) by blast
    show ?thesis
      using mem(3) v sized_tag(2) [OF z sd] sized_length(2) [OF z v small] stands_for_complexity [OF t(2) sd]
      by (simp add: encoded_size_def stands_for_bytes [OF t(2)])
  qed
  then have sum: "sum_list (map (encoded_size s session) ?ns) = of_nat (length (bers ts))"
    using sum_list_all2 [OF sub] by blast
  have "value_length (tl_of s n) = sum_list (map (encoded_size s session) (kids s n))"
    using builtD(5) [OF b BCons.prems(1) c] built_contribution [OF b] plain_treeD(5) [OF tree BCons.prems(1)]
    by (simp add: balanced_def) (auto intro!: arg_cong [of _ _ sum_list] map_cong)
  also have "\<dots> = sum_list (map (encoded_size s session) ?ns)"
    unfolding present_def by (rule sum_list_map_filter [symmetric]) (simp add: encoded_size_def)
  finally show ?case using sum by simp
qed


section \<open>Writing\<close>

definition into :: "nat \<Rightarrow> u8 list \<Rightarrow> asn1_state \<Rightarrow> asn1_state" where
  "into ob mem s = s\<lparr>buffers := (buffers s)(ob := mem)\<rparr>"

lemma into_simps [simp]:
  "nodes (into ob mem s) = nodes s" "tlvs (into ob mem s) = tlvs s" "pool (into ob mem s) = pool s"
  "buffers (into ob mem s) = (buffers s)(ob := mem)" "into ob mem (into ob mem' s) = into ob mem s"
  by (simp_all add: into_def)

lemma write_at_into:
  "p + length bs \<le> length (buffers s ob) \<Longrightarrow> write_at ob p bs s = Returns (into ob (overwrite (buffers s ob) p bs) s)"
  by (simp add: write_at_def write_bytes_def into_def overwrite_def)

text \<open>How far \<open>encode\<close> changes the state it started in.\<close>

definition sent :: "asn1_state \<Rightarrow> nat set \<Rightarrow> nat \<Rightarrow> asn1_state \<Rightarrow> bool" where
  "sent s0 N ob s \<longleftrightarrow> nodes s = nodes s0 \<and> (\<forall>n \<in> N. tagged s n = tagged s0 n) \<and> (\<forall>b. b \<noteq> ob \<longrightarrow> buffers s b = buffers s0 b)"

lemma tag_as_universal_twice:
  "tag_as_universal (tag_as_universal t cs) cs = tag_as_universal t cs"
  by (auto simp: tag_as_universal_def Let_def)

lemma tagged_into: "tagged (into ob mem s) n = tagged s n"
  by (simp add: tagged_def tl_of_def)

lemma sent_into: "sent s0 N ob s \<Longrightarrow> sent s0 N ob (into ob mem s)"
  by (simp add: sent_def tagged_into)

lemma sent_retag:
  assumes tree: "plain_tree s0 N r d" and s: "sent s0 N ob s" and n: "n \<in> N" "node_tlv (nodes s n) = Some a"
  shows "sent s0 N ob (put_tlv a (tagged s0 n) s)"
proof -
  have ns: "nodes s = nodes s0" and tg: "\<And>m. m \<in> N \<Longrightarrow> tagged s m = tagged s0 m" using s by (simp_all add: sent_def)
  have tl: "tl_of (put_tlv a (tagged s0 n) s) m = (if m = n then tagged s0 n else tl_of s m)" if m: "m \<in> N" for m
  proof (cases "m = n")
    case False
    then have "node_tlv (nodes s m) \<noteq> Some a" using plain_treeD(6) [OF tree n(1) m] n(2) ns by simp
    then show ?thesis using False plain_treeD(2) [OF tree m] ns by (auto simp: tl_of_def)
  qed (use n in \<open>simp add: tl_of_def\<close>)
  have "tagged (put_tlv a (tagged s0 n) s) m = tagged s0 m" if m: "m \<in> N" for m
  proof (cases "m = n")
    case True
    then show ?thesis using tl [OF m] ns by (simp add: tagged_def tag_as_universal_twice)
  next
    case False
    then show ?thesis using tl [OF m] tg [OF m] ns by (simp add: tagged_def)
  qed
  then show ?thesis using s by (simp add: sent_def)
qed

definition sending :: "asn1_state \<Rightarrow> u64 \<Rightarrow> nat set \<Rightarrow> nat \<Rightarrow> (nat \<Rightarrow> nat) \<Rightarrow> nat \<Rightarrow> nat \<Rightarrow> nat \<Rightarrow> bool" where
  "sending s session N r d ob H K \<longleftrightarrow> built s session N r d \<and>
     (\<forall>n \<in> N. sendable s ob n \<and> d n < H \<and> length (children (nodes s n)) \<le> K)"

text \<open>The octets of one linked node, up to its value.\<close>

lemma encode_linked:
  assumes g: "sending s0 session N r d ob H K" and s: "sent s0 N ob s" and n: "n \<in> N" "session_id (nodes s0 n) = session"
    and x: "stands_for s0 session x n" and room: "unat so_far + length (ber_bytes x) \<le> unat room" "unat room < 2 ^ 31"
    and mem: "q + unat so_far + length (ber_bytes x) \<le> length (buffers s ob)"
    and tg: "tg = tag_bytes (tag_class (tagged s0 n)) (ber_complexity x) (tag_value (tagged s0 n))"
    and lh: "lh = length_header (of_nat (length (ber_content x)))"
    and a: "node_tlv (nodes s0 n) = Some a"
    and s1: "s1 = into ob (overwrite (buffers s ob) (q + unat so_far) (tg @ lh)) (put_tlv a (tagged s0 n) s)"
    and body: "body = (if ber_complexity x = PRIMITIVE
      then and_then (write_at ob (q + unat so_far + length (tg @ lh)) (ber_content x) s1)
             (\<lambda>s. Returns (of_nat (length (ber_bytes x)), s))
      else encode_nodes k ob (q + unat so_far) (room - so_far) (children (nodes s0 n)) session False (of_nat (length (tg @ lh))) s1)"
  shows "encode_nodes (Suc k) ob q room (Some n # cs) session False so_far s =
    and_then body (\<lambda>(len, s). encode_nodes k ob q room cs session False (so_far + len) s)" "sent s0 N ob s1"
proof -
  have b: "built s0 session N r d" and send: "\<forall>n \<in> N. sendable s0 ob n" using g by (simp_all add: sending_def)
  note tree = builtD(2) [OF b]
  have ns: "nodes s = nodes s0" and tgd: "tagged s n = tagged s0 n" and buf: "\<And>b. b \<noteq> ob \<Longrightarrow> buffers s b = buffers s0 b"
    using s n(1) by (simp_all add: sent_def)
  have bytes: "ber_bytes x = tg @ lh @ ber_content x" using stands_for_bytes [OF x] tg lh by simp
  have sd: "sendable s0 ob n" using send n(1) by blast
  have cx: "complexity (tagged s0 n) = ber_complexity x" using stands_for_complexity [OF x sd] .
  have small: "length (ber_bytes x) < 2 ^ 31" using room by linarith
  have lt: "1 \<le> length tg" "1 \<le> length lh" using tag_bytes_nonempty length_header_nonempty tg lh by auto
  have csmall: "length (ber_content x) < 2 ^ 31 - 1" using small bytes lt by simp
  have z: "sized (tl_of s0 n)" using built_sized [OF b n] .
  have v: "value_length (tl_of s0 n) = of_nat (length (ber_content x))" using content_length [OF b send n(1) x csmall] .
  have left: "unat (room - so_far) = unat room - unat so_far" using room(1) by (simp add: unat_sub word_le_nat_alt)
  have pos: "sint (room - so_far) > 0"
  proof -
    have "0 < unat (room - so_far)" "unat (room - so_far) < 2 ^ 31" using left room lt bytes by auto
    then show ?thesis by (metis sint_small of_nat_0_less_iff)
  qed
  show "sent s0 N ob s1" unfolding s1 using sent_into sent_retag [OF tree s n(1)] a ns by simp
  have utg: "unat (of_nat (length tg) :: u32) = length tg" "unat (of_nat (length tg) + of_nat (length lh) :: u32) = length tg + length lh"
    using room(1) bytes u32_of_nat [of "length tg" room] u32_of_nat [of "length tg + length lh" room] by simp_all
  have pos': "0 < room - so_far" "0 < room - so_far - of_nat (length tg)"
    using left room bytes lt utg(1) by (auto simp: word_less_nat_alt unat_sub word_le_nat_alt)
  note tag = sized_tag [OF z sd, unfolded cx, folded tg] and len = sized_length [OF z v csmall, folded lh]
  define s2 where "s2 = into ob (overwrite (buffers s ob) (q + unat so_far) tg) (put_tlv a (tagged s0 n) s)"
  have w1: "write_at ob (q + unat so_far) tg (put_tlv a (tagged s0 n) s) = Returns s2"
    using mem bytes by (simp add: s2_def write_at_into)
  have w2: "write_at ob (q + unat so_far + length tg) lh s2 = Returns s1"
    using mem bytes by (simp add: s2_def s1 write_at_into overwrite_append)
  have l0: "linked_node (nodes s0 n) = Some n" using plain_treeD(1) [OF tree n(1)] .
  have t: "tag_as_universal (tlvs s a) (children (nodes s0 n)) = tagged s0 n"
    using tgd a ns by (simp add: tagged_def tl_of_def)
  have ch: "uni_tag_class (tlvs s a) \<noteq> CHOICE"
    using builtD(3) [OF b n(1)] tgd a ns tagged_simps(5) [of s n] tagged_simps(5) [of s0 n] by (simp add: tag_size_ok_def tl_of_def)
  note facts = pos l0 n(2) a ns ch t tag(1) [OF pos'(1)] tag(2) w1 len(1) [OF pos'(2)] len(2) w2 cx utg v
  let ?goal = "encode_nodes (Suc k) ob q room (Some n # cs) session False so_far s =
    and_then body (\<lambda>(len, s). encode_nodes k ob q room cs session False (so_far + len) s)"
  have body': "body = (if ber_complexity x = PRIMITIVE
      then and_then (write_at ob (q + unat so_far + (length tg + length lh)) (ber_content x) s1)
             (\<lambda>s. Returns (of_nat (length tg) + of_nat (length lh) + of_nat (length (ber_content x)), s))
      else encode_nodes k ob (q + unat so_far) (room - so_far) (children (nodes s0 n)) session False
        (of_nat (length tg) + of_nat (length lh)) s1)"
    unfolding body bytes by (simp add: add.assoc)
  show ?goal
  proof (cases x)
    case (BCons c v indef ts)
    then have "\<not> override_auto_complexity (tl_of s0 n)" using x by (simp add: tagged_container)
    moreover have "nodes s1 = nodes s0" using ns by (simp add: s1)
    ultimately show ?thesis using facts BCons by (simp add: Let_def body')
  next
    case (BPrim c v bs)
    have u: "unat (of_nat (length bs) :: u32) = length bs" and sg: "0 \<le> sint (of_nat (length bs) :: c_int)"
      using codable_of_nat [of "length bs"] csmall BPrim by (auto simp: codable_def)
    show ?thesis
    proof (cases "bs = []")
      case True
      then show ?thesis using facts BPrim by (simp add: Let_def body')
    next
      case False
      then have nz: "(of_nat (length bs) :: c_int) \<noteq> 0" using u by (metis length_0_conv unat_0)
      then obtain vb vp where val: "tlv_value (tl_of s0 n) = Some (vb, vp)" "vp + length bs \<le> length (buffers s0 vb)"
        using builtD(6) [OF b n(1)] x v BPrim u by (auto simp: value_held_def)
      have "buffers s1 vb = buffers s0 vb" using buf sd val(1) by (simp add: s1 sendable_def)
      moreover have "bs = take (length bs) (drop vp (buffers s0 vb))"
        using x BPrim val v u nz by (simp add: held_octets_def)
      ultimately have "read_bytes (buffers s1 vb) vp (length bs) = Returns bs" using val(2) by (simp add: read_bytes_def)
      then show ?thesis using facts BPrim nz val(1) sg u by (simp add: Let_def body')
    qed
  qed
qed

text \<open>The loop over the children of a node, or over the root alone.\<close>

abbreviation linked_in :: "asn1_state \<Rightarrow> u64 \<Rightarrow> nat option list \<Rightarrow> nat list" where
  "linked_in s session cs \<equiv> filter (\<lambda>m. session_id (nodes s m) = session) (map the (filter (\<lambda>c. c \<noteq> None) cs))"

lemma encode_skip:
  assumes "c = None \<or> (\<exists>n. c = Some n \<and> session_id (nodes s n) \<noteq> session)"
  shows "encode_nodes (Suc k) ob q room (c # cs) session False so_far s = encode_nodes k ob q room cs session False so_far s"
  using assms by (auto split: option.splits)

lemma encode_nodes_bers:
  assumes g: "sending s0 session N r d ob H K"
  shows "sent s0 N ob s \<Longrightarrow> \<forall>n. Some n \<in> set cs \<longrightarrow> n \<in> N \<and> h \<le> d n \<Longrightarrow>
    list_all2 (stands_for s0 session) ts (linked_in s0 session cs) \<Longrightarrow>
    unat so_far + length (bers ts) \<le> unat room \<Longrightarrow> unat room < 2 ^ 31 \<Longrightarrow>
    q + unat so_far + length (bers ts) \<le> length (buffers s ob) \<Longrightarrow>
    length cs + (H - h) * (K + 2) < fuel \<Longrightarrow> h \<le> H \<Longrightarrow>
    \<exists>s'. encode_nodes fuel ob q room cs session False so_far s = Returns (so_far + of_nat (length (bers ts)), s') \<and>
      sent s0 N ob s' \<and> buffers s' ob = overwrite (buffers s ob) (q + unat so_far) (bers ts)"
proof (induction fuel arbitrary: s cs h ts room q so_far)
  case (Suc k)
  have b: "built s0 session N r d" and deep: "\<And>n. n \<in> N \<Longrightarrow> d n < H \<and> length (children (nodes s0 n)) \<le> K"
    using g by (auto simp: sending_def)
  note tree = builtD(2) [OF b] and ns = Suc.prems(1) [unfolded sent_def]
  show ?case
  proof (cases cs)
    case Nil
    then show ?thesis using Suc.prems(1,3) by simp
  next
    case (Cons c cs')
    have rest: "\<forall>n. Some n \<in> set cs' \<longrightarrow> n \<in> N \<and> h \<le> d n" "length cs' + (H - h) * (K + 2) < k"
      using Suc.prems(2,7) Cons by auto
    show ?thesis
    proof (cases "\<exists>n. c = Some n \<and> session_id (nodes s0 n) = session")
      case False
      then have same: "linked_in s0 session cs = linked_in s0 session cs'" using Cons by (cases c) auto
      have "c = None \<or> (\<exists>n. c = Some n \<and> session_id (nodes s n) \<noteq> session)" using False ns by (cases c) auto
      note skip = encode_skip [OF this, of k ob q room cs' so_far]
      have "list_all2 (stands_for s0 session) ts (linked_in s0 session cs')" using Suc.prems(3) same by simp
      from Suc.IH [OF Suc.prems(1) rest(1) this Suc.prems(4-6) rest(2) Suc.prems(8)] show ?thesis
        unfolding Cons skip .
    next
      case True
      then obtain n where n: "c = Some n" "session_id (nodes s0 n) = session" by blast
      then obtain x ts' where ts: "ts = x # ts'" "stands_for s0 session x n" "list_all2 (stands_for s0 session) ts' (linked_in s0 session cs')"
        using Suc.prems(3) Cons by (auto simp: list_all2_Cons2)
      have nN: "n \<in> N" "h \<le> d n" using Suc.prems(2) Cons n(1) by auto
      obtain a where a: "node_tlv (nodes s0 n) = Some a" using plain_treeD(2) [OF tree nN(1)] by blast
      obtain tg lh where tg: "tg = tag_bytes (tag_class (tagged s0 n)) (ber_complexity x) (tag_value (tagged s0 n))"
        and lh: "lh = length_header (of_nat (length (ber_content x)))" by blast
      have bytes: "ber_bytes x = tg @ lh @ ber_content x" using stands_for_bytes [OF ts(2)] tg lh by simp
      then have lb: "length (ber_bytes x) = length tg + length lh + length (ber_content x)" by simp
      have fit: "unat so_far + length (ber_bytes x) \<le> unat room" "q + unat so_far + length (ber_bytes x) \<le> length (buffers s ob)"
        using Suc.prems(4,6) ts(1) by simp_all
      define s1 where "s1 = into ob (overwrite (buffers s ob) (q + unat so_far) (tg @ lh)) (put_tlv a (tagged s0 n) s)"
      define body where "body = (if ber_complexity x = PRIMITIVE
        then and_then (write_at ob (q + unat so_far + length (tg @ lh)) (ber_content x) s1)
               (\<lambda>s. Returns (of_nat (length (ber_bytes x)), s))
        else encode_nodes k ob (q + unat so_far) (room - so_far) (children (nodes s0 n)) session False (of_nat (length (tg @ lh))) s1)"
      note e = encode_linked [OF g Suc.prems(1) nN(1) n(2) ts(2) fit(1) Suc.prems(5) fit(2) tg lh a s1_def body_def]
      have buf1: "length (buffers s1 ob) = length (buffers s ob)" "buffers s1 ob = overwrite (buffers s ob) (q + unat so_far) (tg @ lh)"
        using fit(2) bytes by (simp_all add: s1_def)
      have "\<exists>s2. body = Returns (of_nat (length (ber_bytes x)), s2) \<and> sent s0 N ob s2 \<and>
        buffers s2 ob = overwrite (buffers s ob) (q + unat so_far) (ber_bytes x)"
      proof (cases x)
        case (BPrim cl v bs)
        have w: "write_at ob (q + unat so_far + length (tg @ lh)) (ber_content x) s1 =
            Returns (into ob (overwrite (buffers s ob) (q + unat so_far) (ber_bytes x)) s1)"
          using fit(2) by (simp add: write_at_into buf1 overwrite_append bytes)
        have p: "ber_complexity x = PRIMITIVE" using BPrim by simp
        have "body = Returns (of_nat (length (ber_bytes x)), into ob (overwrite (buffers s ob) (q + unat so_far) (ber_bytes x)) s1)"
          unfolding body_def w by (simp only: p simp_thms if_True and_then.simps)
        then show ?thesis using e(2) sent_into by simp
      next
        case (BCons cl v indef us)
        obtain w :: u32 where w: "w = of_nat (length (tg @ lh))" by blast
        have left: "unat (room - so_far) = unat room - unat so_far" using fit(1) by (simp add: unat_sub word_le_nat_alt)
        have len: "unat w = length tg + length lh"
          using fit(1) lb unfolding w by (subst u32_of_nat [of _ room]) simp_all
        have parts: "ber_content x = bers us" "ber_complexity x \<noteq> PRIMITIVE" using BCons by simp_all
        have us: "list_all2 (stands_for s0 session) us (linked_in s0 session (children (nodes s0 n)))"
          using ts(2) BCons by (simp add: present_def kids_def)
        have below: "\<forall>m. Some m \<in> set (children (nodes s0 n)) \<longrightarrow> m \<in> N \<and> Suc (d n) \<le> d m"
        proof (intro allI impI)
          fix m
          assume "Some m \<in> set (children (nodes s0 n))"
          then have "m \<in> set (kids s0 n)" by (force simp: kids_def)
          then show "m \<in> N \<and> Suc (d n) \<le> d m"
            using plain_treeD(5) [OF tree nN(1), of m] kids_deeper [OF tree nN(1), of m] by (simp add: Suc_le_eq)
        qed
        have fuel: "length (children (nodes s0 n)) + (H - Suc (d n)) * (K + 2) < k"
        proof -
          have "(H - Suc (d n)) * (K + 2) + (K + 2) \<le> (H - h) * (K + 2)"
          proof -
            have "Suc (H - Suc (d n)) \<le> H - h" using deep [OF nN(1)] nN(2) by linarith
            then have "Suc (H - Suc (d n)) * (K + 2) \<le> (H - h) * (K + 2)" by (rule mult_le_mono1)
            then show ?thesis by (metis add.commute mult_Suc)
          qed
          then show ?thesis using rest(2) deep [OF nN(1)] by linarith
        qed
        have "\<exists>s2. encode_nodes k ob (q + unat so_far) (room - so_far) (children (nodes s0 n)) session False w s1 =
            Returns (w + of_nat (length (bers us)), s2) \<and> sent s0 N ob s2 \<and>
            buffers s2 ob = overwrite (buffers s1 ob) (q + unat so_far + unat w) (bers us)"
          using deep [OF nN(1)] Suc.prems(5) fit lb parts(1)
          by (intro Suc.IH [OF e(2) below us _ _ _ fuel]) (auto simp: left len buf1(1))
        moreover have "w + of_nat (length (bers us)) = of_nat (length (ber_bytes x))" unfolding w lb parts by simp
        moreover have "body = encode_nodes k ob (q + unat so_far) (room - so_far) (children (nodes s0 n)) session False w s1"
          unfolding body_def w using parts(2) by (simp only: if_False)
        moreover have "overwrite (buffers s1 ob) (q + unat so_far + unat w) (bers us) =
            overwrite (buffers s ob) (q + unat so_far) (ber_bytes x)"
          unfolding buf1(2) bytes parts(1) append_assoc [symmetric] using fit(2) lb parts(1) len
          by (intro overwrite_append) simp_all
        ultimately show ?thesis by metis
      qed
      then obtain s2 where s2: "body = Returns (of_nat (length (ber_bytes x)), s2)" "sent s0 N ob s2"
        "buffers s2 ob = overwrite (buffers s ob) (q + unat so_far) (ber_bytes x)" by blast
      have next_pos: "unat (so_far + of_nat (length (ber_bytes x))) = unat so_far + length (ber_bytes x)"
        using fit(1) u32_of_nat [of "unat so_far + length (ber_bytes x)" room] by simp
      have "\<exists>s'. encode_nodes k ob q room cs' session False (so_far + of_nat (length (ber_bytes x))) s2 =
          Returns (so_far + of_nat (length (ber_bytes x)) + of_nat (length (bers ts')), s') \<and> sent s0 N ob s' \<and>
          buffers s' ob = overwrite (buffers s2 ob) (q + unat (so_far + of_nat (length (ber_bytes x)))) (bers ts')"
        using Suc.prems(4-6) ts(1) s2(3) fit(2)
        by (intro Suc.IH [OF s2(2) rest(1) ts(3) _ Suc.prems(5) _ rest(2) Suc.prems(8)]) (auto simp: next_pos)
      then show ?thesis
        using e(1) s2(1,3) Suc.prems(6) ts(1) Cons n(1)
        by (auto simp: next_pos overwrite_append add.assoc simp del: encode_nodes.simps)
    qed
  qed
qed simp

section \<open>Properties\<close>

text \<open>
  C8. Encoding what was built: after any sequence of linking and unlinking calls on a
  prepared tree without choices, with tags up to 127, the tree stands for a BER message,
  the one of the nodes linked in the session, and if that has room in the output buffer,
  \<open>encode\<close> writes its octets and nothing else and returns their number. The fuel needed
  is the depth of the tree times the largest number of children.
\<close>

theorem asn1_encode_message:
  assumes "plain_tree s N r d" "\<forall>n \<in> N. session_id (nodes s n) \<noteq> session \<and> unset (tl_of s n)"
    and "\<forall>c \<in> set cs. linking_ok s N c" "\<forall>n \<in> N. d n < fuel \<and> length (children (nodes s n)) \<le> K" "session \<noteq> 0"
    and "linking_calls fuel session cs s = Returns s'" "session_id (nodes s' r) = session"
    and "\<forall>n \<in> N. sendable s' ob n" "fuel * (K + 2) + 1 < efuel"
  shows "(\<exists>y. stands_for s' session y r) \<and>
    (stands_for s' session x r \<and> length (ber_bytes x) \<le> unat room \<and> unat room < 2 ^ 31 \<and>
       q + length (ber_bytes x) \<le> length (buffers s' ob) \<longrightarrow>
     ber_ok x \<and> (\<exists>s''. encode efuel ob q room r session False s' = Returns (of_nat (length (ber_bytes x)), s'') \<and>
       nodes s'' = nodes s' \<and> buffers s'' = (buffers s')(ob := overwrite (buffers s' ob) q (ber_bytes x))))"
proof -
  have b: "built s' session N r d" and st: "same_tree s s'"
    using linking_calls_built [OF unset_built [OF assms(1,2)] assms(3), of fuel] assms(4-6) by auto
  note tree = builtD(2) [OF b]
  have r: "r \<in> N" using plain_tree_root(2) [OF tree] .
  have g: "sending s' session N r d ob fuel K"
    using b assms(4,8) by (simp add: sending_def same_treeD(3) [OF st])
  have "\<exists>s''. encode efuel ob q room r session False s' = Returns (of_nat (length (ber_bytes x)), s'') \<and>
      nodes s'' = nodes s' \<and> buffers s'' = (buffers s')(ob := overwrite (buffers s' ob) q (ber_bytes x))"
    if x: "stands_for s' session x r" "length (ber_bytes x) \<le> unat room" "unat room < 2 ^ 31"
      "q + length (ber_bytes x) \<le> length (buffers s' ob)"
  proof -
    have "(fuel - d r) * (K + 2) \<le> fuel * (K + 2)" by (rule mult_le_mono1) simp
    then have fuel: "length [Some r] + (fuel - d r) * (K + 2) < efuel" using assms(9) by simp
    have "\<exists>s''. encode_nodes efuel ob q room [Some r] session False 0 s' = Returns (0 + of_nat (length (bers [x])), s'') \<and>
        sent s' N ob s'' \<and> buffers s'' ob = overwrite (buffers s' ob) (q + unat (0::u32)) (bers [x])"
      by (rule encode_nodes_bers [OF g _ _ _ _ x(3) _ fuel]) (use x r assms(4,7) in \<open>auto simp: sent_def less_imp_le\<close>)
    then show ?thesis by (auto simp: encode_def sent_def fun_eq_iff)
  qed
  then show ?thesis
    using stands_for_ok [OF assms(8) tree r] stands_for_exists [OF tree, of fuel r session] assms(4) r by auto
qed

lemma sendable_code: "sendable s ob n \<longleftrightarrow> tag_ok (tag_class (tagged s n)) (tag_value (tagged s n)) \<and>
     (tag_value (tl_of s n) = uni_value UNKNOWN_UNIVERSAL_TAG \<longrightarrow> sint (tag_value (tagged s n)) \<le> 30) \<and>
     (\<not> container s n \<longrightarrow> complexity (tagged s n) = PRIMITIVE) \<and>
     (case tlv_value (tl_of s n) of None \<Rightarrow> True | Some (vb, _) \<Rightarrow> vb \<noteq> ob)"
  by (auto simp: sendable_def split: option.splits)

lemma example_run:
  "\<exists>s. linking_calls 3 7 [Give 1 (Some (0, 0)) 2, Link 2] example_tree = Returns s \<and>
     session_id (nodes s 0) = 7 \<and> (\<forall>n \<in> {0, 1, 2}. sendable s 1 n) \<and>
     stands_for s 7 (BCons UNIVERSAL 16 False [BPrim UNIVERSAL 2 [1, 44], BPrim UNIVERSAL 5 []]) 0 \<and> length (buffers s 1) = 9"
  by (simp add: numeral_3_eq_3 set_linked_data_def set_linked_self_def prepare_length_def prepare_tag_def Let_def
      sendable_code tag_ok_def tagged_def held_octets_def present_def example_tree_simps)

theorem asn1_encode_message_witness:
  "\<exists>s' s''. linking_calls 3 7 [Give 1 (Some (0, 0)) 2, Link 2] example_tree = Returns s' \<and>
    encode 17 1 0 9 0 7 False s' = Returns (8, s'') \<and>
    buffers s'' 1 = overwrite (buffers s' 1) 0 [0x30, 0x06, 0x02, 0x02, 0x01, 0x2c, 0x05, 0x00]"
proof -
  let ?cs = "[Give 1 (Some (0, 0)) 2, Link 2]" and ?x = "BCons UNIVERSAL 16 False [BPrim UNIVERSAL 2 [1, 44], BPrim UNIVERSAL 5 []]"
  obtain s' where run: "linking_calls 3 7 ?cs example_tree = Returns s'"
    and s': "session_id (nodes s' 0) = 7" "\<forall>n \<in> {0, 1, 2}. sendable s' 1 n" "stands_for s' 7 ?x 0" "length (buffers s' 1) = 9"
    using example_run by (elim exE conjE)
  have bytes: "ber_bytes ?x = [0x30, 0x06, 0x02, 0x02, 0x01, 0x2c, 0x05, 0x00]" by code_simp
  have calls: "\<forall>c \<in> set ?cs. linking_ok example_tree {0, 1, 2} c" using example_tree_linking by simp
  have few: "\<forall>n \<in> {0, 1, 2}. n < 3 \<and> length (children (nodes example_tree n)) \<le> 3" by (simp add: example_tree_def)
  have "\<exists>s''. encode 17 1 0 9 0 7 False s' = Returns (of_nat (length (ber_bytes ?x)), s'') \<and>
      nodes s'' = nodes s' \<and> buffers s'' = (buffers s')(1 := overwrite (buffers s' 1) 0 (ber_bytes ?x))"
    using asn1_encode_message [OF example_tree_plain example_tree_unset calls few _ run s'(1,2), of 17 ?x 9 0] s'(3,4)
    by (simp del: stands_for.simps ber_bytes.simps add: bytes)
  then show ?thesis using run bytes by (auto simp del: ber_bytes.simps)
qed

end
