(* ===== verification/Octets.thy ===== *)
theory Octets
  imports Outcome
begin

text \<open>
  Pointers into buffers, and integers of several octets, most significant first, as the codecs
  of the signalling stack read and write them.
\<close>

section \<open>Pointers into buffers\<close>

text \<open>The number of a buffer and a position in it.\<close>

type_synonym buf_ptr = "nat \<times> nat"

text \<open>Adding an \<open>int\<close> to a pointer must stay in the buffer; the upper end is checked at accesses.\<close>

definition ptr_add :: "nat \<Rightarrow> c_int \<Rightarrow> nat outcome" where
  "ptr_add q n = guard (0 \<le> int q + sint n) (Returns (nat (int q + sint n)))"

section \<open>Machine integers\<close>

lemma sint_of_nat_small: "n < 2 ^ 31 \<Longrightarrow> sint (of_nat n :: c_int) = int n"
proof -
  assume n: "n < 2 ^ 31"
  then have "unat (of_nat n :: c_int) = n" by (simp add: unat_of_nat)
  with n show ?thesis by (simp add: sint_small)
qed

lemma unat_of_nat_32: "n < 2 ^ 32 \<Longrightarrow> unat (of_nat n :: 32 word) = n"
  by (simp add: unat_of_nat)

lemma ptr_add_of_nat [simp]: "n < 2 ^ 31 \<Longrightarrow> ptr_add q (of_nat n) = Returns (q + n)"
  by (simp add: ptr_add_def sint_of_nat_small nat_add_distrib)

lemma ptr_add_0 [simp]: "ptr_add q 0 = Returns q"
  by (simp add: ptr_add_def)

section \<open>Big-endian integers\<close>

definition be16 :: "c_int \<Rightarrow> u8 list" where
  "be16 v = [ucast (drop_bit 8 v), ucast v]"

definition be32 :: "c_int \<Rightarrow> u8 list" where
  "be32 v = [ucast (drop_bit 24 v), ucast (drop_bit 16 v), ucast (drop_bit 8 v), ucast v]"

definition get16 :: "u8 list \<Rightarrow> nat \<Rightarrow> c_int outcome" where
  "get16 bs q =
     and_then (byte_at bs q) (\<lambda>a. and_then (byte_at bs (q + 1)) (\<lambda>b.
     Returns (push_bit 8 (ucast a) + (ucast b AND 0xff))))"

definition get32 :: "u8 list \<Rightarrow> nat \<Rightarrow> c_int outcome" where
  "get32 bs q =
     and_then (byte_at bs q) (\<lambda>a. and_then (byte_at bs (q + 1)) (\<lambda>b.
     and_then (byte_at bs (q + 2)) (\<lambda>c. and_then (byte_at bs (q + 3)) (\<lambda>d.
     Returns (push_bit 24 (ucast a) + push_bit 16 (ucast b) + push_bit 8 (ucast c) + (ucast d AND 0xff))))))"

section \<open>Reading back what was written\<close>

lemma length_be [simp]: "length (be16 v) = 2" "length (be32 v) = 4"
  by (simp_all add: be16_def be32_def)

text \<open>Sums of octets shifted to different places are disjunctions.\<close>

lemma octet_sum2:
  "push_bit 8 (ucast (a::u8)) + (ucast (b::u8) AND 0xff) = (push_bit 8 (ucast a) OR ucast b :: c_int)"
proof -
  have m: "(0xff::c_int) = mask 8" by (simp add: mask_eq_exp_minus_1)
  have b: "(ucast b :: c_int) AND 0xff = ucast b" unfolding m by (rule bit_word_eqI) (auto simp: bit_simps dest: bit_imp_le_length)
  have "push_bit 8 (ucast a) AND (ucast b :: c_int) = 0"
    by (rule bit_word_eqI) (auto simp: bit_simps dest!: bit_imp_le_length)
  then show ?thesis unfolding b by (rule disjunctive_add_eq_or)
qed

lemma octet_sum4:
  "push_bit 24 (ucast (a::u8)) + push_bit 16 (ucast (b::u8)) + push_bit 8 (ucast (c::u8)) + (ucast (d::u8) AND 0xff) =
    (push_bit 24 (ucast a) OR push_bit 16 (ucast b) OR push_bit 8 (ucast c) OR ucast d :: c_int)"
proof -
  have m: "(0xff::c_int) = mask 8" by (simp add: mask_eq_exp_minus_1)
  have d: "(ucast d :: c_int) AND 0xff = ucast d" unfolding m by (rule bit_word_eqI) (auto simp: bit_simps dest: bit_imp_le_length)
  have 1: "push_bit 24 (ucast a) + push_bit 16 (ucast b) = (push_bit 24 (ucast a) OR push_bit 16 (ucast b) :: c_int)"
    by (rule disjunctive_add_eq_or, rule bit_word_eqI) (auto simp: bit_simps dest!: bit_imp_le_length)
  have 2: "(push_bit 24 (ucast a) OR push_bit 16 (ucast b)) + push_bit 8 (ucast c) =
      ((push_bit 24 (ucast a) OR push_bit 16 (ucast b)) OR push_bit 8 (ucast c) :: c_int)"
    by (rule disjunctive_add_eq_or, rule bit_word_eqI) (auto simp: bit_simps dest!: bit_imp_le_length)
  have 3: "((push_bit 24 (ucast a) OR push_bit 16 (ucast b)) OR push_bit 8 (ucast c)) + ucast d =
      (((push_bit 24 (ucast a) OR push_bit 16 (ucast b)) OR push_bit 8 (ucast c)) OR ucast d :: c_int)"
    by (rule disjunctive_add_eq_or, rule bit_word_eqI) (auto simp: bit_simps dest!: bit_imp_le_length)
  show ?thesis unfolding d 1 2 3 by (simp add: or.assoc)
qed

lemma get16_be16: "get16 (pre @ be16 v @ post) (length pre) = Returns (v AND 0xffff)"
proof -
  have m: "(0xffff::c_int) = mask 16" by (simp add: mask_eq_exp_minus_1)
  have "(push_bit 8 (ucast (ucast (drop_bit 8 v) :: u8)) OR ucast (ucast v :: u8)) = v AND 0xffff"
    unfolding m by (rule bit_word_eqI) (auto simp: bit_simps)
  then show ?thesis by (simp add: get16_def be16_def byte_at_def nth_append octet_sum2)
qed

lemma get32_be32: "get32 (pre @ be32 v @ post) (length pre) = Returns v"
proof -
  have "(push_bit 24 (ucast (ucast (drop_bit 24 v) :: u8)) OR push_bit 16 (ucast (ucast (drop_bit 16 v) :: u8)) OR
     push_bit 8 (ucast (ucast (drop_bit 8 v) :: u8)) OR ucast (ucast v :: u8)) = v"
  proof (rule bit_word_eqI)
    fix n
    assume "n < LENGTH(32)"
    then consider "n < 8" | "8 \<le> n" "n < 16" | "16 \<le> n" "n < 24" | "24 \<le> n" "n < 32" by fastforce
    then show "bit (push_bit 24 (ucast (ucast (drop_bit 24 v) :: u8)) OR push_bit 16 (ucast (ucast (drop_bit 16 v) :: u8)) OR
     push_bit 8 (ucast (ucast (drop_bit 8 v) :: u8)) OR ucast (ucast v :: u8) :: c_int) n = bit v n"
      by cases (auto simp: bit_simps)
  qed
  then show ?thesis by (simp add: get32_def be32_def byte_at_def nth_append octet_sum4)
qed

definition octet4 :: "u8 \<Rightarrow> u8 \<Rightarrow> u8 \<Rightarrow> u8 \<Rightarrow> c_int" where
  "octet4 a b c d = push_bit 24 (ucast a) OR push_bit 16 (ucast b) OR push_bit 8 (ucast c) OR ucast d"

definition octet2 :: "u8 \<Rightarrow> u8 \<Rightarrow> c_int" where
  "octet2 a b = push_bit 8 (ucast a) OR ucast b"

lemma octet_high: "8 \<le> n \<Longrightarrow> \<not> bit (w::u8) n"
  using bit_imp_le_length [of w n] by auto

lemma be32_octet4: "be32 (octet4 a b c d) = [a, b, c, d]"
proof -
  have "ucast (drop_bit 24 (octet4 a b c d)) = a" "ucast (drop_bit 16 (octet4 a b c d)) = b"
    "ucast (drop_bit 8 (octet4 a b c d)) = c" "ucast (octet4 a b c d) = d"
    by (rule bit_word_eqI, simp add: octet4_def bit_simps octet_high)+
  then show ?thesis by (simp add: be32_def)
qed

lemma be16_octet2: "be16 (octet2 a b) = [a, b]" "octet2 a b AND 0xffff = octet2 a b"
  "be16 (push_bit 16 v + octet2 a b) = [a, b]"
proof -
  have "ucast (drop_bit 8 (octet2 a b)) = a" "ucast (octet2 a b) = b"
    by (rule bit_word_eqI, simp add: octet2_def bit_simps octet_high)+
  then show "be16 (octet2 a b) = [a, b]" by (simp add: be16_def)
  have m: "(0xffff::c_int) = mask 16" by (simp add: mask_eq_exp_minus_1)
  show "octet2 a b AND 0xffff = octet2 a b" unfolding m
    by (rule bit_word_eqI) (auto simp: octet2_def bit_simps dest: bit_imp_le_length)
  have "push_bit 16 v + octet2 a b = push_bit 16 v OR octet2 a b"
    by (rule disjunctive_add_eq_or, rule bit_word_eqI) (auto simp: octet2_def bit_simps dest!: bit_imp_le_length)
  moreover have "ucast (drop_bit 8 (push_bit 16 v OR octet2 a b)) = a" "ucast (push_bit 16 v OR octet2 a b) = b"
    by (rule bit_word_eqI, simp add: octet2_def bit_simps octet_high)+
  ultimately show "be16 (push_bit 16 v + octet2 a b) = [a, b]" by (simp add: be16_def)
qed

lemma get_nth:
  "q + 3 < length bs \<Longrightarrow> get32 bs q = Returns (octet4 (bs ! q) (bs ! (q + 1)) (bs ! (q + 2)) (bs ! (q + 3)))"
  "q + 1 < length bs \<Longrightarrow> get16 bs q = Returns (octet2 (bs ! q) (bs ! (q + 1)))"
  by (simp_all add: get32_def get16_def octet_sum4 octet_sum2 octet4_def octet2_def)

end
