(* ===== verification/Item_Pool.thy ===== *)
theory Item_Pool
  imports Interfaces
begin

text \<open>
  The pools of the codecs: an array of objects that are handed out from the last to the first
  and then again. The classes \<open>M3UAParamPoolItem\<close>, \<open>M3UAMessagePoolItem\<close> and those of SCCP
  repeat this code.
\<close>

section \<open>The code\<close>

record PoolItem =
  item_pool :: "nat list"
  next_free_item :: nat
  total_count :: int
  free_count :: int

definition PoolItem_new :: PoolItem where
  "PoolItem_new = \<lparr>item_pool = [], next_free_item = 0, total_count = 0, free_count = 0\<rparr>"

definition set_item_pool_size :: "int \<Rightarrow> PoolItem \<Rightarrow> PoolItem" where
  "set_item_pool_size n it = it\<lparr>total_count := n, free_count := n\<rparr>"

text \<open>\<open>pool[i]\<close>, undefined outside the array.\<close>

definition item_at :: "PoolItem \<Rightarrow> int \<Rightarrow> nat outcome" where
  "item_at it i = guard (0 \<le> i \<and> i < int (length (item_pool it))) (Returns (item_pool it ! nat i))"

text \<open>The objects of a pool are created at fresh addresses; the last one is the next to be given.\<close>

definition init_item_pool :: "nat \<Rightarrow> PoolItem \<Rightarrow> PoolItem outcome" where
  "init_item_pool first it =
     guard (0 \<le> total_count it)
       (let it = it\<lparr>item_pool := [first..<first + nat (total_count it)]\<rparr>
        in and_then (item_at it (total_count it - 1)) (\<lambda>a. Returns (it\<lparr>next_free_item := a\<rparr>)))"

definition request_item :: "PoolItem \<Rightarrow> (nat \<times> PoolItem) outcome" where
  "request_item it =
     (let tmp = next_free_item it; fc = free_count it - 1;
          it = it\<lparr>free_count := (if fc \<le> 0 then total_count it else fc)\<rparr>
      in and_then (item_at it (free_count it - 1)) (\<lambda>a. Returns (tmp, it\<lparr>next_free_item := a\<rparr>)))"

section \<open>Pools as rings\<close>

definition item_ok :: "PoolItem \<Rightarrow> bool" where
  "item_ok it \<longleftrightarrow> 0 < total_count it \<and> int (length (item_pool it)) = total_count it \<and> 1 \<le> free_count it \<and>
     free_count it \<le> total_count it \<and> next_free_item it = item_pool it ! nat (free_count it - 1) \<and> distinct (item_pool it)"

text \<open>The objects in the order they will be given, again and again.\<close>

definition upcoming :: "PoolItem \<Rightarrow> nat list" where
  "upcoming it = rev (take (nat (free_count it)) (item_pool it)) @ rev (drop (nat (free_count it)) (item_pool it))"

lemma upcoming_simps:
  assumes "item_ok it"
  shows "distinct (upcoming it)" "set (upcoming it) = set (item_pool it)" "length (upcoming it) = nat (total_count it)"
    "upcoming it \<noteq> []" "hd (upcoming it) = next_free_item it"
proof -
  let ?k = "nat (free_count it)"
  have k: "0 < ?k" "?k \<le> length (item_pool it)" and d: "distinct (item_pool it)" using assms by (auto simp: item_ok_def)
  have "set (take ?k (item_pool it)) \<inter> set (drop ?k (item_pool it)) = {}" using d by (rule set_take_disj_set_drop_if_distinct) simp
  then show "distinct (upcoming it)" using d by (simp add: upcoming_def)
  have "set (take ?k (item_pool it)) \<union> set (drop ?k (item_pool it)) = set (item_pool it)"
    by (metis append_take_drop_id set_append)
  then show "set (upcoming it) = set (item_pool it)" by (simp add: upcoming_def)
  show "length (upcoming it) = nat (total_count it)" using assms by (auto simp: upcoming_def item_ok_def)
  show ne: "upcoming it \<noteq> []" using k by (auto simp: upcoming_def)
  have "hd (upcoming it) = last (take ?k (item_pool it))"
    using k by (cases "item_pool it = []") (simp_all add: upcoming_def hd_append hd_rev)
  also have "\<dots> = item_pool it ! (?k - 1)" using k by (subst last_conv_nth) auto
  also have "?k - 1 = nat (free_count it - 1)" by simp
  finally show "hd (upcoming it) = next_free_item it" using assms by (simp add: item_ok_def)
qed

lemma request_item_ok:
  assumes "item_ok it"
  obtains it' where "request_item it = Returns (hd (upcoming it), it')" "item_ok it'" "upcoming it' = rotate1 (upcoming it)"
proof -
  define fc where "fc = (if free_count it - 1 \<le> 0 then total_count it else free_count it - 1)"
  define it' where "it' = it\<lparr>free_count := fc, next_free_item := item_pool it ! nat (fc - 1)\<rparr>"
  have fc: "1 \<le> fc" "fc \<le> total_count it" using assms by (auto simp: fc_def item_ok_def)
  have "request_item it = Returns (next_free_item it, it')"
    unfolding request_item_def Let_def fc_def [symmetric] using assms fc by (simp add: item_at_def it'_def item_ok_def)
  moreover have "item_ok it'" using assms fc by (simp add: item_ok_def it'_def)
  moreover have "upcoming it' = rotate1 (upcoming it)"
  proof (cases "free_count it = 1")
    case True
    then obtain x xs where p: "item_pool it = x # xs" using assms by (cases "item_pool it") (auto simp: item_ok_def)
    then have "nat (total_count it) = length (x # xs)" using assms by (auto simp: item_ok_def)
    then show ?thesis using True p by (simp add: upcoming_def it'_def fc_def)
  next
    case False
    let ?k = "nat (free_count it)"
    have k: "1 < ?k" "?k \<le> length (item_pool it)" using assms False by (auto simp: item_ok_def)
    have s: "fc = free_count it - 1" using k by (auto simp: fc_def)
    have n: "nat fc = ?k - 1" using k s by simp
    have t: "take ?k (item_pool it) = take (?k - 1) (item_pool it) @ [item_pool it ! (?k - 1)]"
      using k take_Suc_conv_app_nth [of "?k - 1" "item_pool it"] by simp
    have dr: "drop (?k - 1) (item_pool it) = item_pool it ! (?k - 1) # drop ?k (item_pool it)"
      using k Cons_nth_drop_Suc [of "?k - 1" "item_pool it"] by simp
    show ?thesis using n unfolding upcoming_def it'_def by (simp add: t [unfolded One_nat_def] dr [unfolded One_nat_def])
  qed
  ultimately show thesis using that upcoming_simps(5) [OF assms] by simp
qed

interpretation item_pool: round_robin item_ok upcoming request_item
  by unfold_locales (use upcoming_simps(4) request_item_ok in blast)+

lemma init_item_pool_ok:
  assumes "0 < n"
  obtains it where "init_item_pool first (set_item_pool_size n PoolItem_new) = Returns it" "item_ok it"
    "item_pool it = [first..<first + nat n]" "total_count it = n"
proof -
  let ?it = "\<lparr>item_pool = [first..<first + nat n], next_free_item = first + nat (n - 1), total_count = n, free_count = n\<rparr>"
  have "nat (n - 1) < nat n" using assms by simp
  then have nth: "[first..<first + nat n] ! nat (n - 1) = first + nat (n - 1)" by (simp add: nth_upt)
  have "init_item_pool first (set_item_pool_size n PoolItem_new) = Returns ?it"
    using assms nth by (simp add: init_item_pool_def set_item_pool_size_def PoolItem_new_def item_at_def Let_def)
  moreover have "item_ok ?it" using assms nth by (simp add: item_ok_def)
  ultimately show thesis using that by simp
qed

section \<open>Pools made one after the other\<close>

lemma ivl_below: "{a..<b} \<subseteq> {..<b::nat}"
  by auto

text \<open>Pools of the types \<open>K\<close>, each of \<open>n\<close> good objects below the next fresh address.\<close>

definition stocked :: "('k \<Rightarrow> PoolItem option) \<Rightarrow> 'k set \<Rightarrow> int \<Rightarrow> nat \<Rightarrow> (nat \<Rightarrow> 'k \<Rightarrow> bool) \<Rightarrow> bool" where
  "stocked U K n fr good \<longleftrightarrow>
     (\<forall>k \<in> K. \<exists>it. U k = Some it \<and> item_ok it \<and> total_count it = n \<and> set (upcoming it) \<subseteq> {..<fr} \<and>
       (\<forall>a \<in> set (upcoming it). good a k))"

lemma stocked_frame:
  assumes "stocked U K n fr good" "fr \<le> fr'" "\<And>a k. a < fr \<Longrightarrow> k \<in> K \<Longrightarrow> good a k \<Longrightarrow> good' a k"
  shows "stocked U K n fr' good'"
  unfolding stocked_def
proof
  fix k assume k: "k \<in> K"
  then obtain it where it: "U k = Some it" "item_ok it" "total_count it = n" "set (upcoming it) \<subseteq> {..<fr}"
    "\<forall>a \<in> set (upcoming it). good a k" using assms(1) unfolding stocked_def by blast
  then have "\<forall>a \<in> set (upcoming it). good' a k" using assms(3) k by blast
  moreover have "set (upcoming it) \<subseteq> {..<fr'}" using it(4) assms(2) by auto
  ultimately show "\<exists>it. U k = Some it \<and> item_ok it \<and> total_count it = n \<and> set (upcoming it) \<subseteq> {..<fr'} \<and>
      (\<forall>a \<in> set (upcoming it). good' a k)" using it by blast
qed

lemma stocked_insert:
  assumes "stocked U K n fr good" "fr \<le> fr'" "\<And>a k. a < fr \<Longrightarrow> good a k \<Longrightarrow> good' a k" "item_ok it" "total_count it = n"
    "set (upcoming it) \<subseteq> {..<fr'}" "\<forall>a \<in> set (upcoming it). good' a k"
  shows "stocked (U(k := Some it)) (insert k K) n fr' good'"
proof -
  have "stocked U K n fr' good'" using assms(1-3) by (rule stocked_frame)
  then show ?thesis using assms(4-) by (auto simp: stocked_def)
qed

section \<open>Objects handed out\<close>

text \<open>The addresses given for a sequence of types.\<close>

fun hand_out :: "('k \<Rightarrow> nat list) \<Rightarrow> 'k list \<Rightarrow> nat list" where
  "hand_out U [] = []"
| "hand_out U (pt # pts) = hd (U pt) # hand_out (U(pt := rotate1 (U pt))) pts"

lemma length_hand_out [simp]: "length (hand_out U pts) = length pts"
  by (induction pts arbitrary: U) auto

lemma hand_out_take:
  assumes "\<forall>pt. count_list pts pt \<le> length (U pt)"
  shows "set (hand_out U pts) \<subseteq> (\<Union>pt. set (take (count_list pts pt) (U pt)))"
  using assms
proof (induction pts arbitrary: U)
  case Nil
  then show ?case by simp
next
  case (Cons pt pts)
  let ?U = "U(pt := rotate1 (U pt))"
  have "count_list (pt # pts) pt \<le> length (U pt)" using Cons.prems by blast
  then obtain x xs where U: "U pt = x # xs" "count_list pts pt \<le> length xs" by (cases "U pt") auto
  have c: "count_list pts pt' \<le> length (U pt')" for pt'
    using Cons.prems [rule_format, of pt'] by (simp split: if_splits)
  then have "set (hand_out ?U pts) \<subseteq> (\<Union>pt'. set (take (count_list pts pt') (?U pt')))"
    using c U(2) by (intro Cons.IH) (auto simp: U(1) intro: le_SucI)
  also have "\<dots> \<subseteq> (\<Union>pt'. set (take (count_list (pt # pts) pt') (U pt')))"
    using U by (auto split: if_splits)
  finally have "set (hand_out ?U pts) \<subseteq> (\<Union>pt'. set (take (count_list (pt # pts) pt') (U pt')))" .
  moreover have "hd (U pt) \<in> set (take (count_list (pt # pts) pt) (U pt))" using U(1) by simp
  ultimately show ?case unfolding hand_out.simps list.set by blast
qed

text \<open>An object is not given twice when the types do not share objects and occur less often than their pools are long.\<close>

definition disjoint_rings :: "('k \<Rightarrow> nat list) \<Rightarrow> bool" where
  "disjoint_rings U \<longleftrightarrow> (\<forall>pt. distinct (U pt)) \<and> (\<forall>pt pt'. pt \<noteq> pt' \<longrightarrow> set (U pt) \<inter> set (U pt') = {})"

lemma hand_out_fresh:
  assumes "disjoint_rings U" "\<forall>pt'. count_list (pt # pts) pt' \<le> length (U pt')"
  shows "hd (U pt) \<notin> set (hand_out (U(pt := rotate1 (U pt))) pts)"
proof
  let ?U = "U(pt := rotate1 (U pt))"
  assume "hd (U pt) \<in> set (hand_out ?U pts)"
  moreover have "count_list (pt # pts) pt \<le> length (U pt)" using assms(2) by blast
  then obtain x xs where U: "U pt = x # xs" "count_list pts pt \<le> length xs" by (cases "U pt") auto
  moreover have c: "count_list pts pt' \<le> length (?U pt')" for pt'
    using assms(2) [rule_format, of pt'] U by (auto split: if_splits)
  ultimately obtain pt' where pt': "x \<in> set (take (count_list pts pt') (?U pt'))"
    using hand_out_take [of pts ?U] by auto
  show False
  proof (cases "pt' = pt")
    case True
    then have "x \<in> set xs" using pt' U by (auto dest: in_set_takeD)
    then show False using assms(1) U by (auto simp: disjoint_rings_def dest: spec [of _ pt])
  next
    case False
    then have "x \<in> set (U pt')" using pt' by (auto dest: in_set_takeD)
    then show False using assms(1) U False by (fastforce simp: disjoint_rings_def)
  qed
qed

lemma disjoint_rings_rotate: "disjoint_rings U \<Longrightarrow> disjoint_rings (U(pt := rotate1 (U pt)))"
  by (auto simp: disjoint_rings_def)

text \<open>
  A budget: of the type \<open>k\<close> another \<open>n k\<close> objects can be asked for before one of \<open>G\<close>, the ones
  in use, is given again.
\<close>

definition within :: "('k \<Rightarrow> nat list) \<Rightarrow> ('k \<Rightarrow> nat) \<Rightarrow> nat set \<Rightarrow> bool" where
  "within U n G \<longleftrightarrow> disjoint_rings U \<and> (\<forall>k. n k \<le> length (U k) \<and> set (take (n k) (U k)) \<inter> G = {})"

lemma within_request:
  assumes "within U n G" "0 < n k"
  shows "hd (U k) \<in> set (U k)" "hd (U k) \<notin> G" "within (U(k := rotate1 (U k))) (n(k := n k - 1)) (insert (hd (U k)) G)"
proof -
  have le: "n k' \<le> length (U k')" "set (take (n k') (U k')) \<inter> G = {}" for k'
    using assms(1) by (simp_all add: within_def)
  have "n k \<le> length (U k)" by (rule le)
  then obtain x xs where U: "U k = x # xs" "n k - 1 \<le> length xs" using assms(2) by (cases "U k") auto
  obtain j where j: "n k = Suc j" using assms(2) by (cases "n k") auto
  show "hd (U k) \<in> set (U k)" using U(1) by simp
  show "hd (U k) \<notin> G" using le(2) [of k] U(1) j by auto
  have dr: "\<forall>k. distinct (U k)" "\<forall>k k'. k \<noteq> k' \<longrightarrow> set (U k) \<inter> set (U k') = {}"
    using assms(1) unfolding within_def disjoint_rings_def by blast+
  then have d: "distinct (U k)" "\<And>k'. k' \<noteq> k \<Longrightarrow> x \<notin> set (U k')"
    using U(1) by (blast, metis disjoint_iff list.set_intros(1))
  have "disjoint_rings (U(k := rotate1 (U k)))" using assms(1) by (simp add: within_def disjoint_rings_rotate)
  moreover have "(n(k := n k - 1)) k' \<le> length ((U(k := rotate1 (U k))) k') \<and>
      set (take ((n(k := n k - 1)) k') ((U(k := rotate1 (U k))) k')) \<inter> insert (hd (U k)) G = {}" for k'
  proof (cases "k' = k")
    case True
    have "set (take j xs) \<inter> insert x G = {}" using le(2) [of k] d(1) U(1) j by (auto dest: in_set_takeD)
    then show ?thesis using True U j by simp
  next
    case False
    then show ?thesis using le [of k'] d(2) [OF False] U(1) by (auto dest: in_set_takeD)
  qed
  ultimately show "within (U(k := rotate1 (U k))) (n(k := n k - 1)) (insert (hd (U k)) G)" by (simp add: within_def)
qed

end
