(* ===== verification/M3ua.thy ===== *)
theory M3ua
  imports Octets Item_Pool
begin

text \<open>
  The M3UA codec, \<^verbatim>\<open>src/m3ua/m3ua.h\<close> and \<^verbatim>\<open>src/m3ua/m3ua.cpp\<close>: parameters, messages, the pools
  they are taken from, \<open>encode\<close> and \<open>decode\<close>. Parameters and messages are shared through
  pointers, so they live in a store and an address is a number; a pointer into a buffer is
  the number of the buffer and a position. The subclasses of \<open>M3UAParam\<close> differ in the
  members they add, a datatype here. An enum holds any \<open>int\<close>, as it does with the
  compiler the code is built with. Not modelled: destructors.
\<close>

section \<open>Parameter and message types\<close>

datatype ParameterType =
    M3UA_PT_INFO_STRING | M3UA_PT_ROUTING_CONTEXT | M3UA_PT_DIAGNOSTIC_INFO | M3UA_PT_HEARTBEAT
  | M3UA_PT_TRAFFIC_MODE_TYPE | M3UA_PT_ERROR_CODE | M3UA_PT_STATUS | M3UA_PT_ASP_IDENTIFIER
  | M3UA_PT_AFFECTED_POINT_CODE | M3UA_PT_CORRELATION_ID | M3UA_PT_NETWORK_APPEARANCE
  | M3UA_PT_USER_CAUSE | M3UA_PT_CONGESTION_INDICATIONS | M3UA_PT_CONCERNED_DESTINATION
  | M3UA_PT_ROUTING_KEY | M3UA_PT_REGISTRATION_RESULT | M3UA_PT_DEREGISTRATION_RESULT
  | M3UA_PT_LOCAL_ROUTING_KEY_IDENTIFIER | M3UA_PT_DESTINATION_POINT_CODE | M3UA_PT_SERVICE_INDICATORS
  | M3UA_PT_ORIGINATING_POINT_CODE_LIST | M3UA_PT_CIRCUIT_RANGE | M3UA_PT_PROTOCOL_DATA
  | M3UA_PT_REGISTRATION_STATUS | M3UA_PT_DEREGISTRATION_STATUS

primrec pt_value :: "ParameterType \<Rightarrow> c_int" where
  "pt_value M3UA_PT_INFO_STRING = 0x0004"
| "pt_value M3UA_PT_ROUTING_CONTEXT = 0x0006"
| "pt_value M3UA_PT_DIAGNOSTIC_INFO = 0x0007"
| "pt_value M3UA_PT_HEARTBEAT = 0x0009"
| "pt_value M3UA_PT_TRAFFIC_MODE_TYPE = 0x000b"
| "pt_value M3UA_PT_ERROR_CODE = 0x000c"
| "pt_value M3UA_PT_STATUS = 0x000d"
| "pt_value M3UA_PT_ASP_IDENTIFIER = 0x0011"
| "pt_value M3UA_PT_AFFECTED_POINT_CODE = 0x0012"
| "pt_value M3UA_PT_CORRELATION_ID = 0x0013"
| "pt_value M3UA_PT_NETWORK_APPEARANCE = 0x0200"
| "pt_value M3UA_PT_USER_CAUSE = 0x0204"
| "pt_value M3UA_PT_CONGESTION_INDICATIONS = 0x0205"
| "pt_value M3UA_PT_CONCERNED_DESTINATION = 0x0206"
| "pt_value M3UA_PT_ROUTING_KEY = 0x0207"
| "pt_value M3UA_PT_REGISTRATION_RESULT = 0x0208"
| "pt_value M3UA_PT_DEREGISTRATION_RESULT = 0x0209"
| "pt_value M3UA_PT_LOCAL_ROUTING_KEY_IDENTIFIER = 0x020A"
| "pt_value M3UA_PT_DESTINATION_POINT_CODE = 0x020B"
| "pt_value M3UA_PT_SERVICE_INDICATORS = 0x020C"
| "pt_value M3UA_PT_ORIGINATING_POINT_CODE_LIST = 0x020E"
| "pt_value M3UA_PT_CIRCUIT_RANGE = 0x020F"
| "pt_value M3UA_PT_PROTOCOL_DATA = 0x0210"
| "pt_value M3UA_PT_REGISTRATION_STATUS = 0x0212"
| "pt_value M3UA_PT_DEREGISTRATION_STATUS = 0x0213"

datatype MessageType =
    M3UA_ERR | NTFY | DATA | DUNA | DAVA | DAUD | SCON | DUPU | DRST | ASPUP | ASPDN | BEAT | ASPUP_ACK | ASPDN_ACK
  | BEAT_ACK | ASPAC | ASPIA | ASPAC_ACK | ASPIA_ACK | REG_REQ | REG_RSP | DEREG_REQ | DEREG_RSP

text \<open>The class of a message is the upper octet of its type.\<close>

primrec mt_value :: "MessageType \<Rightarrow> c_int" where
  "mt_value M3UA_ERR = 0x000"
| "mt_value NTFY = 0x001"
| "mt_value DATA = 0x101"
| "mt_value DUNA = 0x201"
| "mt_value DAVA = 0x202"
| "mt_value DAUD = 0x203"
| "mt_value SCON = 0x204"
| "mt_value DUPU = 0x205"
| "mt_value DRST = 0x206"
| "mt_value ASPUP = 0x301"
| "mt_value ASPDN = 0x302"
| "mt_value BEAT = 0x303"
| "mt_value ASPUP_ACK = 0x304"
| "mt_value ASPDN_ACK = 0x305"
| "mt_value BEAT_ACK = 0x306"
| "mt_value ASPAC = 0x401"
| "mt_value ASPIA = 0x402"
| "mt_value ASPAC_ACK = 0x403"
| "mt_value ASPIA_ACK = 0x404"
| "mt_value REG_REQ = 0x901"
| "mt_value REG_RSP = 0x902"
| "mt_value DEREG_REQ = 0x903"
| "mt_value DEREG_RSP = 0x904"

section \<open>Store\<close>

text \<open>The constructor of \<open>ProtocolData\<close> leaves all its members but the user data unset: \<open>None\<close>.\<close>

record ProtocolData =
  service_indicator :: "c_int option"
  network_indicator :: "u8 option"
  message_priority :: "u8 option"
  destination_point_code :: "u32 option"
  originating_point_code :: "u32 option"
  signalling_link_selection_code :: "u8 option"
  user_protocol_data_length :: c_int
  user_protocol_data :: "buf_ptr option"

datatype param_members =
    No_Members
  | CongestionIndications (level: c_int)
  | CorrelationId (correlation_id: c_int)
  | ErrorCode (error_code_type: c_int)
  | NetworkAppearance (network_appearance: c_int)
  | ProtocolData (protocol_data: ProtocolData)
  | RoutingContext (routing_context: c_int)
  | Status (status_type: c_int) (status_info: c_int)
  | TrafficModeType (traffic_mode_type: c_int)
  | UserCause (user: c_int) (cause: c_int)

record M3UAParam =
  param_type :: ParameterType
  param_byte_pos :: c_int
  value_length :: c_int
  param_value :: "buf_ptr option"
  members :: param_members

record M3UAMessage =
  message_type :: MessageType
  byte_pos :: u32
  params :: "nat list"

record m3ua_state =
  mem :: "nat \<Rightarrow> u8 list"
  param_at :: "nat \<Rightarrow> M3UAParam"
  message_at :: "nat \<Rightarrow> M3UAMessage"
  fresh :: nat
  PARAM_POOL :: "ParameterType \<Rightarrow> PoolItem option"
  MESSAGE_POOL :: "MessageType \<Rightarrow> PoolItem option"
  param_count :: int
  message_count :: int

definition put_mem :: "nat \<Rightarrow> u8 list \<Rightarrow> m3ua_state \<Rightarrow> m3ua_state" where
  "put_mem b bs s = s\<lparr>mem := (mem s)(b := bs)\<rparr>"

definition put_param :: "nat \<Rightarrow> M3UAParam \<Rightarrow> m3ua_state \<Rightarrow> m3ua_state" where
  "put_param a p s = s\<lparr>param_at := (param_at s)(a := p)\<rparr>"

definition put_message :: "nat \<Rightarrow> M3UAMessage \<Rightarrow> m3ua_state \<Rightarrow> m3ua_state" where
  "put_message a m s = s\<lparr>message_at := (message_at s)(a := m)\<rparr>"

definition store_octets :: "nat \<Rightarrow> nat \<Rightarrow> u8 list \<Rightarrow> m3ua_state \<Rightarrow> m3ua_state outcome" where
  "store_octets b q bs s = and_then (write_bytes (mem s b) q bs) (\<lambda>bs'. Returns (put_mem b bs' s))"

section \<open>Parameters\<close>

text \<open>\<open>create_param\<close>, which \<open>get_param\<close> repeats, with the constructors it calls.\<close>

definition ProtocolData_new :: ProtocolData where
  "ProtocolData_new =
     \<lparr>service_indicator = None, network_indicator = None, message_priority = None, destination_point_code = None,
      originating_point_code = None, signalling_link_selection_code = None, user_protocol_data_length = 0,
      user_protocol_data = None\<rparr>"

fun new_members :: "ParameterType \<Rightarrow> param_members" where
  "new_members M3UA_PT_CONGESTION_INDICATIONS = CongestionIndications 0"
| "new_members M3UA_PT_CORRELATION_ID = CorrelationId 0"
| "new_members M3UA_PT_ERROR_CODE = ErrorCode 0"
| "new_members M3UA_PT_NETWORK_APPEARANCE = NetworkAppearance 0"
| "new_members M3UA_PT_PROTOCOL_DATA = ProtocolData ProtocolData_new"
| "new_members M3UA_PT_ROUTING_CONTEXT = RoutingContext 0"
| "new_members M3UA_PT_STATUS = Status 0 0"
| "new_members M3UA_PT_TRAFFIC_MODE_TYPE = TrafficModeType 0"
| "new_members M3UA_PT_USER_CAUSE = UserCause 0 0"
| "new_members _ = No_Members"

definition M3UAParam_new :: "ParameterType \<Rightarrow> param_members \<Rightarrow> M3UAParam" where
  "M3UAParam_new pt ms = \<lparr>param_type = pt, param_byte_pos = 0, value_length = 0, param_value = None, members = ms\<rparr>"

definition create_param :: "ParameterType \<Rightarrow> M3UAParam" where
  "create_param pt = M3UAParam_new pt (new_members pt)"

definition M3UAParam_init :: "buf_ptr \<Rightarrow> c_int \<Rightarrow> M3UAParam \<Rightarrow> M3UAParam" where
  "M3UAParam_init data data_length p = p\<lparr>param_value := Some data, value_length := data_length\<rparr>"

text \<open>
  \<open>init\<close> of the subclasses. A word is only read from data of four octets or more; protocol
  data is read whatever its length.
\<close>

definition CongestionIndications_init :: "u8 list \<Rightarrow> buf_ptr \<Rightarrow> c_int \<Rightarrow> M3UAParam \<Rightarrow> M3UAParam outcome" where
  "CongestionIndications_init bs data data_length p =
     (let p = M3UAParam_init data data_length p
      in if sint (value_length p) \<ge> 4
         then and_then (byte_at bs (snd data + 3)) (\<lambda>b. Returns (p\<lparr>members := CongestionIndications (ucast b AND 0xff)\<rparr>))
         else Returns p)"

definition CorrelationId_init :: "u8 list \<Rightarrow> buf_ptr \<Rightarrow> c_int \<Rightarrow> M3UAParam \<Rightarrow> M3UAParam outcome" where
  "CorrelationId_init bs data data_length p =
     (let p = M3UAParam_init data data_length p
      in if sint (value_length p) > 3
         then and_then (get32 bs (snd data)) (\<lambda>v. Returns (p\<lparr>members := CorrelationId v\<rparr>))
         else Returns p)"

definition ErrorCode_init :: "u8 list \<Rightarrow> buf_ptr \<Rightarrow> c_int \<Rightarrow> M3UAParam \<Rightarrow> M3UAParam outcome" where
  "ErrorCode_init bs data data_length p =
     (let p = M3UAParam_init data data_length p
      in if sint (value_length p) \<ge> 4
         then and_then (get32 bs (snd data)) (\<lambda>v. Returns (p\<lparr>members := ErrorCode v\<rparr>))
         else Returns p)"

definition NetworkAppearance_init :: "u8 list \<Rightarrow> buf_ptr \<Rightarrow> c_int \<Rightarrow> M3UAParam \<Rightarrow> M3UAParam outcome" where
  "NetworkAppearance_init bs data data_length p =
     (let p = M3UAParam_init data data_length p
      in if sint (value_length p) \<ge> 4
         then and_then (get32 bs (snd data)) (\<lambda>v. Returns (p\<lparr>members := NetworkAppearance v\<rparr>))
         else Returns p)"

definition ProtocolData_init :: "u8 list \<Rightarrow> buf_ptr \<Rightarrow> c_int \<Rightarrow> M3UAParam \<Rightarrow> M3UAParam outcome" where
  "ProtocolData_init bs data data_length p =
     (let p = M3UAParam_init data data_length p; pos = param_byte_pos p
      in and_then (ptr_add (snd data) pos) (\<lambda>q.
         and_then (get32 bs q) (\<lambda>opc.
         and_then (get32 bs (q + 4)) (\<lambda>dpc.
         and_then (byte_at bs (q + 8)) (\<lambda>si.
         and_then (byte_at bs (q + 9)) (\<lambda>ni.
         and_then (byte_at bs (q + 10)) (\<lambda>mp.
         and_then (byte_at bs (q + 11)) (\<lambda>sls.
         let pos = pos + 12
         in Returns (p\<lparr>param_byte_pos := pos,
                       members := ProtocolData
                         \<lparr>service_indicator = Some (ucast si AND 0xff), network_indicator = Some (ni AND 0xff),
                          message_priority = Some (mp AND 0xff), destination_point_code = Some dpc,
                          originating_point_code = Some opc, signalling_link_selection_code = Some (sls AND 0xff),
                          user_protocol_data_length = data_length - pos,
                          user_protocol_data = Some (fst data, q + 12)\<rparr>\<rparr>)))))))))"

definition RoutingContext_init :: "u8 list \<Rightarrow> buf_ptr \<Rightarrow> c_int \<Rightarrow> M3UAParam \<Rightarrow> M3UAParam outcome" where
  "RoutingContext_init bs data data_length p =
     (let p = M3UAParam_init data data_length p
      in if sint (value_length p) \<ge> 4
         then and_then (get32 bs (snd data)) (\<lambda>v. Returns (p\<lparr>members := RoutingContext v\<rparr>))
         else Returns p)"

definition Status_init :: "u8 list \<Rightarrow> buf_ptr \<Rightarrow> c_int \<Rightarrow> M3UAParam \<Rightarrow> M3UAParam outcome" where
  "Status_init bs data data_length p =
     (let p = M3UAParam_init data data_length p
      in if sint (value_length p) \<ge> 4
         then and_then (get16 bs (snd data)) (\<lambda>ty.
              and_then (get16 bs (snd data + 2)) (\<lambda>info.
              Returns (p\<lparr>members := Status ty (push_bit 16 ty + info)\<rparr>)))
         else Returns p)"

definition TrafficModeType_init :: "u8 list \<Rightarrow> buf_ptr \<Rightarrow> c_int \<Rightarrow> M3UAParam \<Rightarrow> M3UAParam outcome" where
  "TrafficModeType_init bs data data_length p =
     (let p = M3UAParam_init data data_length p
      in if sint (value_length p) \<ge> 4
         then and_then (get32 bs (snd data)) (\<lambda>v. Returns (p\<lparr>members := TrafficModeType v\<rparr>))
         else Returns p)"

definition UserCause_init :: "u8 list \<Rightarrow> buf_ptr \<Rightarrow> c_int \<Rightarrow> M3UAParam \<Rightarrow> M3UAParam outcome" where
  "UserCause_init bs data data_length p =
     (let p = M3UAParam_init data data_length p
      in if sint (value_length p) \<ge> 4
         then and_then (get16 bs (snd data)) (\<lambda>u.
              and_then (get16 bs (snd data + 2)) (\<lambda>c.
              Returns (p\<lparr>members := UserCause u c\<rparr>)))
         else Returns p)"

text \<open>The virtual call \<open>init\<close>.\<close>

definition param_init :: "u8 list \<Rightarrow> buf_ptr \<Rightarrow> c_int \<Rightarrow> M3UAParam \<Rightarrow> M3UAParam outcome" where
  "param_init bs data data_length p =
     (case members p of
        No_Members \<Rightarrow> Returns (M3UAParam_init data data_length p)
      | CongestionIndications _ \<Rightarrow> CongestionIndications_init bs data data_length p
      | CorrelationId _ \<Rightarrow> CorrelationId_init bs data data_length p
      | ErrorCode _ \<Rightarrow> ErrorCode_init bs data data_length p
      | NetworkAppearance _ \<Rightarrow> NetworkAppearance_init bs data data_length p
      | ProtocolData _ \<Rightarrow> ProtocolData_init bs data data_length p
      | RoutingContext _ \<Rightarrow> RoutingContext_init bs data data_length p
      | Status _ _ \<Rightarrow> Status_init bs data data_length p
      | TrafficModeType _ \<Rightarrow> TrafficModeType_init bs data data_length p
      | UserCause _ _ \<Rightarrow> UserCause_init bs data data_length p)"

section \<open>Setters\<close>

definition set_members :: "nat \<Rightarrow> param_members \<Rightarrow> m3ua_state \<Rightarrow> m3ua_state" where
  "set_members a ms s = put_param a ((param_at s a)\<lparr>members := ms\<rparr>) s"

definition set_error_code :: "nat \<Rightarrow> c_int \<Rightarrow> m3ua_state \<Rightarrow> m3ua_state" where
  "set_error_code a val = set_members a (ErrorCode val)"

definition set_network_appearance :: "nat \<Rightarrow> c_int \<Rightarrow> m3ua_state \<Rightarrow> m3ua_state" where
  "set_network_appearance a val = set_members a (NetworkAppearance val)"

definition set_routing_context :: "nat \<Rightarrow> c_int \<Rightarrow> m3ua_state \<Rightarrow> m3ua_state" where
  "set_routing_context a val = set_members a (RoutingContext val)"

definition set_status :: "nat \<Rightarrow> c_int \<Rightarrow> m3ua_state \<Rightarrow> m3ua_state" where
  "set_status a info = set_members a (Status (signed_drop_bit 8 info) info)"

definition set_tmt :: "nat \<Rightarrow> c_int \<Rightarrow> m3ua_state \<Rightarrow> m3ua_state" where
  "set_tmt a tmt = set_members a (TrafficModeType tmt)"

definition update_label :: "nat \<Rightarrow> (ProtocolData \<Rightarrow> ProtocolData) \<Rightarrow> m3ua_state \<Rightarrow> m3ua_state" where
  "update_label a f s = set_members a (ProtocolData (f (protocol_data (members (param_at s a))))) s"

definition set_dpc :: "nat \<Rightarrow> u32 \<Rightarrow> m3ua_state \<Rightarrow> m3ua_state" where
  "set_dpc a val = update_label a (\<lambda>d. d\<lparr>destination_point_code := Some val\<rparr>)"

definition set_opc :: "nat \<Rightarrow> u32 \<Rightarrow> m3ua_state \<Rightarrow> m3ua_state" where
  "set_opc a val = update_label a (\<lambda>d. d\<lparr>originating_point_code := Some val\<rparr>)"

definition set_si :: "nat \<Rightarrow> c_int \<Rightarrow> m3ua_state \<Rightarrow> m3ua_state" where
  "set_si a val = update_label a (\<lambda>d. d\<lparr>service_indicator := Some val\<rparr>)"

definition set_ni :: "nat \<Rightarrow> u8 \<Rightarrow> m3ua_state \<Rightarrow> m3ua_state" where
  "set_ni a val = update_label a (\<lambda>d. d\<lparr>network_indicator := Some val\<rparr>)"

definition set_mp :: "nat \<Rightarrow> u8 \<Rightarrow> m3ua_state \<Rightarrow> m3ua_state" where
  "set_mp a val = update_label a (\<lambda>d. d\<lparr>message_priority := Some val\<rparr>)"

definition set_sls :: "nat \<Rightarrow> u8 \<Rightarrow> m3ua_state \<Rightarrow> m3ua_state" where
  "set_sls a val = update_label a (\<lambda>d. d\<lparr>signalling_link_selection_code := Some val\<rparr>)"

definition set_user_protocol_data :: "nat \<Rightarrow> buf_ptr option \<Rightarrow> c_int \<Rightarrow> m3ua_state \<Rightarrow> m3ua_state" where
  "set_user_protocol_data a data data_length =
     update_label a (\<lambda>d. d\<lparr>user_protocol_data := data, user_protocol_data_length := data_length\<rparr>)"

section \<open>Encoding a parameter\<close>

text \<open>\<open>memcpy\<close>: nothing for no octets, undefined for overlapping memory.\<close>

definition copy_octets :: "nat \<Rightarrow> nat \<Rightarrow> buf_ptr option \<Rightarrow> c_int \<Rightarrow> m3ua_state \<Rightarrow> m3ua_state outcome" where
  "copy_octets b q src n s =
     (if n = 0 then Returns s
      else and_then (the_ptr src) (\<lambda>(vb, vp).
        guard (0 \<le> sint n \<and> (vb \<noteq> b \<or> vp + unat n \<le> q \<or> q + unat n \<le> vp))
          (and_then (read_bytes (mem s vb) vp (unat n)) (\<lambda>bs. store_octets b q bs s))))"

text \<open>
  The base class writes tag and length, and copies the value unless it is in place.
  The state comes with the result length.
\<close>

definition M3UAParam_encode :: "nat \<Rightarrow> nat \<Rightarrow> c_int \<Rightarrow> nat \<Rightarrow> m3ua_state \<Rightarrow> (c_int \<times> m3ua_state) outcome" where
  "M3UAParam_encode b buffer offset a s =
     and_then (ptr_add buffer offset) (\<lambda>q.
     let p = param_at s a; n = value_length p
     in and_then (store_octets b q (be16 (pt_value (param_type p)) @ be16 (n + 4)) s) (\<lambda>s.
        and_then (if param_value p \<noteq> Some (b, q + 4) then copy_octets b (q + 4) (param_value p) n s else Returns s) (\<lambda>s.
        Returns (4 + n, s))))"

text \<open>The subclasses first put the value at its place in the buffer.\<close>

definition encode_value ::
  "nat \<Rightarrow> nat \<Rightarrow> c_int \<Rightarrow> nat \<Rightarrow> c_int \<Rightarrow> u8 list \<Rightarrow> m3ua_state \<Rightarrow> m3ua_state outcome" where
  "encode_value b buffer offset a n octets s =
     and_then (ptr_add buffer (offset + 4)) (\<lambda>q.
     store_octets b q octets (put_param a ((param_at s a)\<lparr>param_value := Some (b, q), value_length := n\<rparr>) s))"

definition encode_word :: "nat \<Rightarrow> nat \<Rightarrow> c_int \<Rightarrow> nat \<Rightarrow> u8 list \<Rightarrow> m3ua_state \<Rightarrow> (c_int \<times> m3ua_state) outcome" where
  "encode_word b buffer offset a octets s =
     and_then (encode_value b buffer offset a 4 octets s) (M3UAParam_encode b buffer offset a)"

definition CongestionIndications_octets :: "c_int \<Rightarrow> u8 list" where
  "CongestionIndications_octets lv = [0, 0, 0, ucast lv]"

definition Status_octets :: "c_int \<Rightarrow> c_int \<Rightarrow> u8 list" where
  "Status_octets ty info = be16 ty @ be16 info"

definition UserCause_octets :: "c_int \<Rightarrow> c_int \<Rightarrow> u8 list" where
  "UserCause_octets u c = be16 u @ be16 c"

text \<open>The label of protocol data; reading a member never set is undefined.\<close>

definition label_octets :: "ProtocolData \<Rightarrow> u8 list outcome" where
  "label_octets d =
     and_then (the_ptr (originating_point_code d)) (\<lambda>opc.
     and_then (the_ptr (destination_point_code d)) (\<lambda>dpc.
     and_then (the_ptr (service_indicator d)) (\<lambda>si.
     and_then (the_ptr (network_indicator d)) (\<lambda>ni.
     and_then (the_ptr (message_priority d)) (\<lambda>mp.
     and_then (the_ptr (signalling_link_selection_code d)) (\<lambda>sls.
     Returns (be32 opc @ be32 dpc @ [ucast si, ni, mp, sls])))))))"

definition ProtocolData_encode :: "nat \<Rightarrow> nat \<Rightarrow> c_int \<Rightarrow> nat \<Rightarrow> ProtocolData \<Rightarrow> m3ua_state \<Rightarrow> (c_int \<times> m3ua_state) outcome" where
  "ProtocolData_encode b buffer offset a d s =
     and_then (label_octets d) (\<lambda>lb.
     and_then (encode_value b buffer offset a (12 + user_protocol_data_length d) lb s) (\<lambda>s.
     and_then (if user_protocol_data d \<noteq> None \<and> sint (user_protocol_data_length d) > 0
               then and_then (ptr_add buffer (offset + 4)) (\<lambda>q.
                    copy_octets b (q + 12) (user_protocol_data d) (user_protocol_data_length d) s)
               else Returns s)
       (M3UAParam_encode b buffer offset a)))"

text \<open>The virtual call \<open>encode\<close>.\<close>

definition param_encode :: "nat \<Rightarrow> nat \<Rightarrow> c_int \<Rightarrow> nat \<Rightarrow> m3ua_state \<Rightarrow> (c_int \<times> m3ua_state) outcome" where
  "param_encode b buffer offset a s =
     (case members (param_at s a) of
        No_Members \<Rightarrow> M3UAParam_encode b buffer offset a s
      | CongestionIndications lv \<Rightarrow> encode_word b buffer offset a (CongestionIndications_octets lv) s
      | CorrelationId v \<Rightarrow> encode_word b buffer offset a (be32 v) s
      | ErrorCode v \<Rightarrow> encode_word b buffer offset a (be32 v) s
      | NetworkAppearance v \<Rightarrow> encode_word b buffer offset a (be32 v) s
      | ProtocolData d \<Rightarrow> ProtocolData_encode b buffer offset a d s
      | RoutingContext v \<Rightarrow> encode_word b buffer offset a (be32 v) s
      | Status ty info \<Rightarrow> encode_word b buffer offset a (Status_octets ty info) s
      | TrafficModeType v \<Rightarrow> encode_word b buffer offset a (be32 v) s
      | UserCause u c \<Rightarrow> encode_word b buffer offset a (UserCause_octets u c) s)"

section \<open>Messages\<close>

definition get_params_count :: "M3UAMessage \<Rightarrow> nat" where
  "get_params_count m = length (params m)"

definition get_parameter :: "ParameterType \<Rightarrow> m3ua_state \<Rightarrow> M3UAMessage \<Rightarrow> nat option" where
  "get_parameter pt s m = List.find (\<lambda>a. param_type (param_at s a) = pt) (params m)"

definition add_parameter :: "nat option \<Rightarrow> M3UAMessage \<Rightarrow> M3UAMessage" where
  "add_parameter param m = (case param of None \<Rightarrow> m | Some a \<Rightarrow> m\<lparr>params := params m @ [a]\<rparr>)"

definition m3ua_clear_params :: "M3UAMessage \<Rightarrow> M3UAMessage" where
  "m3ua_clear_params m = m\<lparr>params := []\<rparr>"

text \<open>The parameters \<open>check_mandatory\<close> of each class asks for.\<close>

primrec mandatory :: "MessageType \<Rightarrow> ParameterType list" where
  "mandatory SCON = [M3UA_PT_AFFECTED_POINT_CODE]"
| "mandatory REG_RSP = [M3UA_PT_REGISTRATION_RESULT]"
| "mandatory REG_REQ = [M3UA_PT_ROUTING_KEY]"
| "mandatory NTFY = [M3UA_PT_STATUS]"
| "mandatory M3UA_ERR = [M3UA_PT_ROUTING_CONTEXT, M3UA_PT_NETWORK_APPEARANCE, M3UA_PT_AFFECTED_POINT_CODE]"
| "mandatory DUPU = [M3UA_PT_USER_CAUSE, M3UA_PT_AFFECTED_POINT_CODE]"
| "mandatory DUNA = [M3UA_PT_AFFECTED_POINT_CODE]"
| "mandatory DRST = [M3UA_PT_AFFECTED_POINT_CODE]"
| "mandatory DEREG_RSP = [M3UA_PT_DEREGISTRATION_RESULT]"
| "mandatory DEREG_REQ = [M3UA_PT_ROUTING_CONTEXT]"
| "mandatory DAVA = [M3UA_PT_AFFECTED_POINT_CODE]"
| "mandatory DAUD = [M3UA_PT_AFFECTED_POINT_CODE]"
| "mandatory BEAT_ACK = []"
| "mandatory BEAT = []"
| "mandatory ASPUP_ACK = []"
| "mandatory ASPUP = []"
| "mandatory ASPIA_ACK = []"
| "mandatory ASPIA = []"
| "mandatory ASPDN_ACK = []"
| "mandatory ASPDN = []"
| "mandatory ASPAC_ACK = []"
| "mandatory ASPAC = []"
| "mandatory DATA = [M3UA_PT_PROTOCOL_DATA]"

definition check_mandatory :: "m3ua_state \<Rightarrow> M3UAMessage \<Rightarrow> bool" where
  "check_mandatory s m \<longleftrightarrow> (\<forall>pt \<in> set (mandatory (message_type m)). get_parameter pt s m \<noteq> None)"

text \<open>\<open>%\<close> truncates towards zero.\<close>

definition c_rem :: "int \<Rightarrow> int \<Rightarrow> int" where
  "c_rem x y = (if 0 \<le> x then x mod y else - (- x mod y))"

definition padding :: "c_int \<Rightarrow> c_int" where
  "padding l = (let m = c_rem (sint l) 4 in if m > 0 then word_of_int (4 - m) else 0)"

definition encode_parameter :: "nat \<Rightarrow> nat \<Rightarrow> c_int \<Rightarrow> c_int \<Rightarrow> nat \<Rightarrow> m3ua_state \<Rightarrow> (c_int \<times> m3ua_state) outcome" where
  "encode_parameter b buffer buffer_length offset a s =
     (if sint buffer_length > 0
      then and_then (param_encode b buffer offset a s) (\<lambda>(l, s).
           let padding_count = padding l
           in if sint (l + offset + padding_count) \<le> sint buffer_length
              then and_then (ptr_add buffer (offset + l)) (\<lambda>q.
                   and_then (store_octets b q (replicate (unat padding_count) 0) s) (\<lambda>s.
                   Returns (l + padding_count, s)))
              else Returns (0, s))
      else Returns (0, s))"

fun encode_params :: "nat \<Rightarrow> nat \<Rightarrow> c_int \<Rightarrow> c_int \<Rightarrow> c_int \<Rightarrow> nat list \<Rightarrow> m3ua_state \<Rightarrow> (c_int \<times> m3ua_state) outcome" where
  "encode_params b buffer buffer_length offset param_length [] s = Returns (param_length, s)"
| "encode_params b buffer buffer_length offset param_length (a # as) s =
     and_then (encode_parameter b buffer buffer_length offset a s) (\<lambda>(tmp_pl, s).
     encode_params b buffer buffer_length (offset + tmp_pl) (param_length + tmp_pl) as s)"

definition M3UAMessage_encode :: "nat \<Rightarrow> nat \<Rightarrow> c_int \<Rightarrow> c_int \<Rightarrow> M3UAMessage \<Rightarrow> m3ua_state \<Rightarrow> (c_int \<times> m3ua_state) outcome" where
  "M3UAMessage_encode b buffer buffer_length offset m s = encode_params b buffer buffer_length offset 0 (params m) s"

section \<open>Pools\<close>

definition m3ua_set_pool_size :: "int \<Rightarrow> int \<Rightarrow> m3ua_state \<Rightarrow> m3ua_state" where
  "m3ua_set_pool_size pc mc s = s\<lparr>param_count := pc, message_count := mc\<rparr>"

text \<open>\<open>create_message\<close>; the type is \<open>-1\<close> only for no message.\<close>

definition create_message :: "MessageType \<Rightarrow> M3UAMessage" where
  "create_message mt = \<lparr>message_type = mt, byte_pos = 0, params = []\<rparr>"

definition init_message :: "MessageType \<Rightarrow> m3ua_state \<Rightarrow> m3ua_state outcome" where
  "init_message mt s =
     and_then (init_item_pool (fresh s) (set_item_pool_size (message_count s) PoolItem_new)) (\<lambda>it.
     Returns (s\<lparr>message_at := (\<lambda>a. if a \<in> set (item_pool it) then create_message mt else message_at s a),
       fresh := fresh s + length (item_pool it), MESSAGE_POOL := (MESSAGE_POOL s)(mt := Some it)\<rparr>))"

definition init_param :: "ParameterType \<Rightarrow> m3ua_state \<Rightarrow> m3ua_state outcome" where
  "init_param pt s =
     and_then (init_item_pool (fresh s) (set_item_pool_size (param_count s) PoolItem_new)) (\<lambda>it.
     Returns (s\<lparr>param_at := (\<lambda>a. if a \<in> set (item_pool it) then create_param pt else param_at s a),
       fresh := fresh s + length (item_pool it), PARAM_POOL := (PARAM_POOL s)(pt := Some it)\<rparr>))"

definition request_message :: "MessageType \<Rightarrow> m3ua_state \<Rightarrow> (nat option \<times> m3ua_state) outcome" where
  "request_message mt s =
     (case MESSAGE_POOL s mt of
        None \<Rightarrow> Returns (None, s)
      | Some it \<Rightarrow> and_then (request_item it) (\<lambda>(a, it). Returns (Some a, s\<lparr>MESSAGE_POOL := (MESSAGE_POOL s)(mt := Some it)\<rparr>)))"

definition request_param :: "ParameterType \<Rightarrow> m3ua_state \<Rightarrow> (nat option \<times> m3ua_state) outcome" where
  "request_param pt s =
     (case PARAM_POOL s pt of
        None \<Rightarrow> Returns (None, s)
      | Some it \<Rightarrow> and_then (request_item it) (\<lambda>(a, it). Returns (Some a, s\<lparr>PARAM_POOL := (PARAM_POOL s)(pt := Some it)\<rparr>)))"

fun init_all :: "('t \<Rightarrow> m3ua_state \<Rightarrow> m3ua_state outcome) \<Rightarrow> 't list \<Rightarrow> m3ua_state \<Rightarrow> m3ua_state outcome" where
  "init_all f [] s = Returns s"
| "init_all f (t # ts) s = and_then (f t s) (init_all f ts)"

definition message_types :: "MessageType list" where
  "message_types =
     [ASPAC, ASPAC_ACK, ASPDN, ASPDN_ACK, ASPIA, ASPIA_ACK, ASPUP, ASPUP_ACK, BEAT, BEAT_ACK, DATA, DAUD, DAVA,
      DEREG_REQ, DEREG_RSP, DRST, DUNA, DUPU, M3UA_ERR, NTFY, REG_REQ, REG_RSP, SCON]"

definition parameter_types :: "ParameterType list" where
  "parameter_types =
     [M3UA_PT_INFO_STRING, M3UA_PT_ROUTING_CONTEXT, M3UA_PT_DIAGNOSTIC_INFO, M3UA_PT_HEARTBEAT, M3UA_PT_TRAFFIC_MODE_TYPE,
      M3UA_PT_ERROR_CODE, M3UA_PT_STATUS, M3UA_PT_ASP_IDENTIFIER, M3UA_PT_AFFECTED_POINT_CODE, M3UA_PT_CORRELATION_ID,
      M3UA_PT_NETWORK_APPEARANCE, M3UA_PT_USER_CAUSE, M3UA_PT_CONGESTION_INDICATIONS, M3UA_PT_CONCERNED_DESTINATION,
      M3UA_PT_ROUTING_KEY, M3UA_PT_REGISTRATION_RESULT, M3UA_PT_DEREGISTRATION_RESULT,
      M3UA_PT_LOCAL_ROUTING_KEY_IDENTIFIER, M3UA_PT_DESTINATION_POINT_CODE, M3UA_PT_SERVICE_INDICATORS,
      M3UA_PT_ORIGINATING_POINT_CODE_LIST, M3UA_PT_CIRCUIT_RANGE, M3UA_PT_PROTOCOL_DATA, M3UA_PT_REGISTRATION_STATUS,
      M3UA_PT_DEREGISTRATION_STATUS]"

definition m3ua_init_pool :: "m3ua_state \<Rightarrow> m3ua_state outcome" where
  "m3ua_init_pool s = and_then (init_all init_message message_types s) (init_all init_param parameter_types)"

text \<open>A tag or type from the network names a pool, or none; these are the keys of the maps of the pool.\<close>

definition pt_of :: "c_int \<Rightarrow> ParameterType option" where
  "pt_of v = List.find (\<lambda>pt. pt_value pt = v) parameter_types"

definition mt_of :: "c_int \<Rightarrow> MessageType option" where
  "mt_of v = List.find (\<lambda>mt. mt_value mt = v) message_types"

section \<open>Decoding\<close>

text \<open>
  One round reads a parameter at \<open>byte_pos\<close>; \<open>data\<close> is the position of the parameters in the
  buffer \<open>b\<close>. The loop ends when \<open>byte_pos\<close> reaches \<open>data_length\<close>.
\<close>

fun process_params :: "nat \<Rightarrow> nat \<Rightarrow> nat \<Rightarrow> u32 \<Rightarrow> nat \<Rightarrow> m3ua_state \<Rightarrow> m3ua_state outcome" where
  "process_params fuel b data data_length m s =
     (let bp = byte_pos (message_at s m) in
      if bp < data_length then
        (case fuel of
           0 \<Rightarrow> OutOfFuel
         | Suc fuel \<Rightarrow>
             and_then (get16 (mem s b) (data + unat bp)) (\<lambda>tag.
             and_then (get16 (mem s b) (data + unat (bp + 2))) (\<lambda>l.
             let bp = bp + 4 in
             and_then (case pt_of tag of None \<Rightarrow> Returns (None, s) | Some pt \<Rightarrow> request_param pt s) (\<lambda>(param, s).
             and_then
               (case param of
                  None \<Rightarrow> Returns s
                | Some a \<Rightarrow>
                    and_then (param_init (mem s b) (b, data + unat bp) (l - 4) ((param_at s a)\<lparr>param_byte_pos := 0\<rparr>)) (\<lambda>p.
                    Returns (put_message m (add_parameter (Some a) (message_at s m)) (put_param a p s)))) (\<lambda>s.
             let pad = l mod 4; bp = bp + (l + (if pad > 0 then 4 - pad else 0) - 4)
             in process_params fuel b data data_length m (put_message m ((message_at s m)\<lparr>byte_pos := bp\<rparr>) s))))))
      else Returns s)"

declare process_params.simps [simp del]

record M3UAPacket =
  version :: u8
  message_class :: c_int
  packet_type :: c_int
  message_length :: u32
  message :: "nat option"

definition M3UAPacket_new :: M3UAPacket where
  "M3UAPacket_new = \<lparr>version = 1, message_class = -1, packet_type = -1, message_length = 0, message = None\<rparr>"

definition M3UAPacket_encode :: "nat \<Rightarrow> nat \<Rightarrow> c_int \<Rightarrow> c_int \<Rightarrow> M3UAPacket \<Rightarrow> m3ua_state \<Rightarrow> (c_int \<times> m3ua_state) outcome" where
  "M3UAPacket_encode b buffer buffer_length offset pkt s =
     and_then (ptr_add buffer offset) (\<lambda>q.
     and_then (store_octets b q [version pkt, 0, ucast (message_class pkt), ucast (packet_type pkt)] s) (\<lambda>s.
     and_then
       (case message pkt of
          None \<Rightarrow> Returns (8, s)
        | Some m \<Rightarrow> and_then (M3UAMessage_encode b (q + 4) buffer_length 4 (message_at s m) s) (\<lambda>(result_length, s).
            Returns (8 + result_length, s))) (\<lambda>(total, s).
     and_then (store_octets b (q + 4) (be32 total) s) (\<lambda>s. Returns (total, s)))))"

text \<open>The header of a packet, and the parameters of a message it may have.\<close>

definition init_message_params :: "nat \<Rightarrow> nat \<Rightarrow> nat \<Rightarrow> u32 \<Rightarrow> nat \<Rightarrow> m3ua_state \<Rightarrow> m3ua_state outcome" where
  "init_message_params fuel b data data_length m s =
     (if data_length > 0 then process_params fuel b data data_length m s else Returns s)"

definition m3ua_decode :: "nat \<Rightarrow> nat \<Rightarrow> nat \<Rightarrow> c_int \<Rightarrow> M3UAPacket \<Rightarrow> m3ua_state \<Rightarrow> (c_int \<times> M3UAPacket \<times> m3ua_state) outcome" where
  "m3ua_decode fuel b data data_length pkt s =
     (if sint data_length \<ge> 8 then
        and_then (byte_at (mem s b) data) (\<lambda>v.
        let pkt = pkt\<lparr>version := v AND 0xff\<rparr> in
        if version pkt = 1 then
          and_then (byte_at (mem s b) (data + 2)) (\<lambda>c.
          and_then (byte_at (mem s b) (data + 3)) (\<lambda>t.
          and_then (get32 (mem s b) (data + 4)) (\<lambda>len.
          let cls = ucast c AND 0xff;
              pkt = pkt\<lparr>message_class := cls, packet_type := push_bit 8 cls + (ucast t AND 0xff), message_length := len\<rparr> in
          if message_length pkt > 0 then
            and_then (case mt_of (packet_type pkt) of None \<Rightarrow> Returns (None, s) | Some mt \<Rightarrow> request_message mt s) (\<lambda>(msg, s).
            and_then
              (case msg of
                 None \<Rightarrow> Returns s
               | Some m \<Rightarrow>
                   init_message_params fuel b (data + 8) (data_length - 8) m
                     (put_message m (m3ua_clear_params ((message_at s m)\<lparr>byte_pos := 0\<rparr>)) s)) (\<lambda>s.
            Returns (0, pkt\<lparr>message := msg\<rparr>, s)))
          else Returns (0, pkt, s))))
        else Returns (2, pkt, s))
      else Returns (1, pkt, s))"

text \<open>
  The other \<open>decode\<close> makes its own packet and message, and calls \<open>init\<close> without a pool, so the
  first parameter follows a null pointer.
\<close>

definition m3ua_decode_new :: "nat \<Rightarrow> nat \<Rightarrow> c_int \<Rightarrow> m3ua_state \<Rightarrow> (M3UAPacket option \<times> m3ua_state) outcome" where
  "m3ua_decode_new b data data_length s =
     (if sint data_length > 0 then
        (if sint data_length \<ge> 8 then
           and_then (byte_at (mem s b) data) (\<lambda>v.
           let pkt = M3UAPacket_new\<lparr>version := v AND 0xff\<rparr> in
           if version pkt = 1 then
             and_then (byte_at (mem s b) (data + 2)) (\<lambda>c.
             and_then (byte_at (mem s b) (data + 3)) (\<lambda>t.
             and_then (get32 (mem s b) (data + 4)) (\<lambda>len.
             let cls = ucast c AND 0xff;
                 pkt = pkt\<lparr>message_class := cls, packet_type := push_bit 8 cls + (ucast t AND 0xff), message_length := len\<rparr> in
             if message_length pkt > 0 then
               (case mt_of (packet_type pkt) of
                  None \<Rightarrow> Returns (Some pkt, s)
                | Some mt \<Rightarrow>
                    guard (\<not> sint (data_length - 8) > 0)
                      (Returns (Some (pkt\<lparr>message := Some (fresh s)\<rparr>),
                         put_message (fresh s) (create_message mt) (s\<lparr>fresh := fresh s + 1\<rparr>))))
             else Returns (Some pkt, s))))
           else Returns (Some pkt, s))
         else Returns (Some M3UAPacket_new, s))
      else Returns (None, s))"

end
