(* ===== verification/M3ua_Codec.thy ===== *)
theory M3ua_Codec
  imports M3ua
begin

text \<open>
  What \<open>encode\<close> writes and \<open>decode\<close> reads: the wire format of RFC 3332, as a function of the
  parameters, and the pools as rings.
\<close>

section \<open>What a parameter stands for\<close>

definition peek :: "m3ua_state \<Rightarrow> buf_ptr option \<Rightarrow> c_int \<Rightarrow> u8 list option" where
  "peek s ptr n =
     (if n = 0 then Some []
      else case ptr of None \<Rightarrow> None
      | Some (b, q) \<Rightarrow> if 0 \<le> sint n \<and> q + unat n \<le> length (mem s b) then Some (take (unat n) (drop q (mem s b))) else None)"

text \<open>The octets of the value, and the buffer they may be copied from.\<close>

definition content :: "m3ua_state \<Rightarrow> M3UAParam \<Rightarrow> u8 list option" where
  "content s p =
     (case members p of
        No_Members \<Rightarrow> peek s (param_value p) (value_length p)
      | CongestionIndications lv \<Rightarrow> Some (CongestionIndications_octets lv)
      | CorrelationId v \<Rightarrow> Some (be32 v)
      | ErrorCode v \<Rightarrow> Some (be32 v)
      | NetworkAppearance v \<Rightarrow> Some (be32 v)
      | ProtocolData d \<Rightarrow>
          (case (label_octets d, peek s (user_protocol_data d) (user_protocol_data_length d)) of
             (Returns lb, Some bs) \<Rightarrow> Some (lb @ bs) | _ \<Rightarrow> None)
      | RoutingContext v \<Rightarrow> Some (be32 v)
      | Status ty info \<Rightarrow> Some (Status_octets ty info)
      | TrafficModeType v \<Rightarrow> Some (be32 v)
      | UserCause u c \<Rightarrow> Some (UserCause_octets u c))"

definition source :: "M3UAParam \<Rightarrow> buf_ptr option" where
  "source p = (case members p of No_Members \<Rightarrow> param_value p | ProtocolData d \<Rightarrow> user_protocol_data d | _ \<Rightarrow> None)"

text \<open>A parameter that can be sent from the buffer \<open>ob\<close>: its octets exist, outside \<open>ob\<close>, and are not too many.\<close>

definition encodable :: "m3ua_state \<Rightarrow> nat \<Rightarrow> M3UAParam \<Rightarrow> bool" where
  "encodable s ob p \<longleftrightarrow>
     (case content s p of None \<Rightarrow> False | Some bs \<Rightarrow> length bs + 4 < 2 ^ 16) \<and> (\<forall>q. source p \<noteq> Some (ob, q))"

definition octets_of :: "m3ua_state \<Rightarrow> M3UAParam \<Rightarrow> u8 list" where
  "octets_of s p = the (content s p)"

section \<open>Wire format\<close>

definition pad_octets :: "nat \<Rightarrow> u8 list" where
  "pad_octets n = replicate ((4 - n mod 4) mod 4) 0"

definition tlv_header :: "ParameterType \<Rightarrow> nat \<Rightarrow> u8 list" where
  "tlv_header pt n = be16 (pt_value pt) @ be16 (of_nat (n + 4))"

definition wire_param :: "ParameterType \<times> u8 list \<Rightarrow> u8 list" where
  "wire_param = (\<lambda>(pt, bs). tlv_header pt (length bs) @ bs @ pad_octets (length bs))"

definition wire_params :: "(ParameterType \<times> u8 list) list \<Rightarrow> u8 list" where
  "wire_params ps = concat (map wire_param ps)"

definition wire_packet :: "MessageType \<Rightarrow> (ParameterType \<times> u8 list) list \<Rightarrow> u8 list" where
  "wire_packet mt ps = [1, 0, ucast (drop_bit 8 (mt_value mt)), ucast (mt_value mt)] @ be32 (of_nat (8 + length (wire_params ps))) @ wire_params ps"

lemma length_tlv_header [simp]: "length (tlv_header pt n) = 4"
  by (simp add: tlv_header_def)

lemma length_wire_param: "length (wire_param (pt, bs)) = 4 + length bs + (4 - length bs mod 4) mod 4"
  by (simp add: wire_param_def pad_octets_def)

lemma wire_params_simps [simp]: "wire_params [] = []" "wire_params (x # ps) = wire_param x @ wire_params ps"
  by (simp_all add: wire_params_def)

section \<open>Encoding\<close>

lemma store_simps [simp]:
  "mem (put_mem b bs s) = (mem s)(b := bs)" "param_at (put_mem b bs s) = param_at s" "message_at (put_mem b bs s) = message_at s"
  "mem (put_param a p s) = mem s" "param_at (put_param a p s) = (param_at s)(a := p)" "message_at (put_param a p s) = message_at s"
  "mem (put_message m x s) = mem s" "param_at (put_message m x s) = param_at s" "message_at (put_message m x s) = (message_at s)(m := x)"
  "PARAM_POOL (put_mem b bs s) = PARAM_POOL s" "PARAM_POOL (put_param a p s) = PARAM_POOL s" "PARAM_POOL (put_message m x s) = PARAM_POOL s"
  "MESSAGE_POOL (put_mem b bs s) = MESSAGE_POOL s" "MESSAGE_POOL (put_param a p s) = MESSAGE_POOL s" "MESSAGE_POOL (put_message m x s) = MESSAGE_POOL s"
  by (simp_all add: put_mem_def put_param_def put_message_def)

lemma put_mem_twice [simp]: "put_mem b x (put_mem b y s) = put_mem b x s" "put_param a p (put_mem b x s) = put_mem b x (put_param a p s)"
  by (simp_all add: put_mem_def put_param_def)

lemma store_octets_ok:
  "q + length bs \<le> length (mem s b) \<Longrightarrow> store_octets b q bs s = Returns (put_mem b (overwrite (mem s b) q bs) s)"
  by (simp add: store_octets_def write_bytes_overwrite)

lemma peekD:
  assumes "peek s ptr n = Some bs"
  shows "unat n = length bs" "sint n = int (length bs)" "bs \<noteq> [] \<Longrightarrow> ptr \<noteq> None" "n = of_nat (length bs)"
proof -
  have *: "unat n = length bs \<and> 0 \<le> sint n \<and> (bs \<noteq> [] \<longrightarrow> ptr \<noteq> None)"
    using assms by (auto simp: peek_def split: if_splits option.splits)
  then show "unat n = length bs" "sint n = int (length bs)" "bs \<noteq> [] \<Longrightarrow> ptr \<noteq> None" using sint_nonneg [of n] by auto
  from * have "length bs = unat n" by simp
  then show "n = of_nat (length bs)" by simp
qed

lemma copy_peek:
  assumes "peek s src n = Some bs" "\<forall>p. src \<noteq> Some (b, p)" "q + length bs \<le> length (mem s b)"
  shows "copy_octets b q src n s = Returns (put_mem b (overwrite (mem s b) q bs) s)"
proof (cases "n = 0")
  case True
  with assms show ?thesis by (simp add: copy_octets_def peek_def put_mem_def)
next
  case False
  with assms obtain vb vp where src: "src = Some (vb, vp)" "0 \<le> sint n" "vp + unat n \<le> length (mem s vb)"
    "bs = take (unat n) (drop vp (mem s vb))"
    by (auto simp: peek_def split: option.splits if_splits)
  with assms(2) have "vb \<noteq> b" by auto
  with src assms(3) False show ?thesis
    by (simp add: copy_octets_def read_bytes_def store_octets_ok)
qed

text \<open>
  \<open>encode\<close> of a parameter, with its value of \<open>n\<close> octets already in place or to be copied:
  the header precedes the value.
\<close>

lemma M3UAParam_encode_ok:
  assumes "value_length (param_at s a) = of_nat n" "n + 4 < 2 ^ 16" "q = base + off" "off < 2 ^ 31" "q + 4 + n \<le> length (mem s b)"
    and "param_value (param_at s a) \<noteq> Some (b, q + 4) \<Longrightarrow> peek s (param_value (param_at s a)) (of_nat n) = Some bs \<and>
      (\<forall>p. param_value (param_at s a) \<noteq> Some (b, p))"
    and "param_value (param_at s a) = Some (b, q + 4) \<Longrightarrow> bs = take n (drop (q + 4) (mem s b))"
  shows "M3UAParam_encode b base (of_nat off) a s =
    Returns (of_nat (4 + n), put_mem b (overwrite (mem s b) q (tlv_header (param_type (param_at s a)) n @ bs)) s)"
proof -
  let ?p = "param_at s a" and ?h = "tlv_header (param_type (param_at s a)) n"
  have h: "be16 (pt_value (param_type ?p)) @ be16 (of_nat n + 4) = ?h"
    by (simp add: tlv_header_def)
  let ?m = "overwrite (mem s b) q ?h" and ?s = "put_mem b (overwrite (mem s b) q ?h) s"
  have st: "store_octets b q ?h s = Returns ?s" using assms(5) by (intro store_octets_ok) simp
  have pa: "ptr_add base (of_nat off) = Returns q" using assms(3,4) by simp
  have len: "4 + value_length ?p = of_nat (4 + n)" using assms(1) by simp
  show ?thesis
  proof (cases "param_value ?p = Some (b, q + 4)")
    case True
    then have bs: "bs = take n (drop (q + 4) (mem s b))" using assms(7) by simp
    have "overwrite (mem s b) q (?h @ bs) = ?m"
      using assms(5) by (simp add: overwrite_def bs ac_simps) (metis append_take_drop_id drop_drop add.assoc add.commute)
    then show ?thesis
      using True len unfolding M3UAParam_encode_def pa by (simp add: Let_def assms(1) h st)
  next
    case False
    with assms(6) have pk: "peek s (param_value ?p) (of_nat n) = Some bs" "\<forall>p. param_value ?p \<noteq> Some (b, p)" by auto
    have n: "length bs = n" using peekD(1) [OF pk(1)] assms(2) by (simp add: unat_of_nat)
    have "peek ?s (param_value ?p) (of_nat n) = peek s (param_value ?p) (of_nat n)"
      using pk(2) by (auto simp: peek_def split: option.splits)
    then have "copy_octets b (q + 4) (param_value ?p) (of_nat n) ?s = Returns (put_mem b (overwrite (mem ?s b) (q + 4) bs) ?s)"
      using pk assms(5) n by (intro copy_peek) simp_all
    moreover have "overwrite ?m (q + 4) bs = overwrite (mem s b) q (?h @ bs)"
      using assms(5) n by (intro overwrite_append) simp_all
    ultimately show ?thesis
      using False len unfolding M3UAParam_encode_def pa by (simp add: Let_def assms(1) h st)
  qed
qed

definition in_place :: "nat \<Rightarrow> nat \<Rightarrow> nat \<Rightarrow> M3UAParam \<Rightarrow> M3UAParam" where
  "in_place b q n p = p\<lparr>param_value := Some (b, q + 4), value_length := of_nat n\<rparr>"

lemma in_place_simps [simp]:
  "members (in_place b q n p) = members p" "param_type (in_place b q n p) = param_type p"
  "param_value (in_place b q n p) = Some (b, q + 4)" "value_length (in_place b q n p) = of_nat n"
  by (simp_all add: in_place_def)

lemma ptr_add_plus: "off + 4 < 2 ^ 31 \<Longrightarrow> ptr_add q (of_nat off + 4) = Returns (q + off + 4)"
  using ptr_add_of_nat [of "off + 4" q] by simp

lemma encode_value_ok:
  assumes "q = base + off" "off + 4 < 2 ^ 31" "q + 4 + length bs \<le> length (mem s b)"
  shows "encode_value b base (of_nat off) a (of_nat n) bs s =
    Returns (put_mem b (overwrite (mem s b) (q + 4) bs) (put_param a (in_place b q n (param_at s a)) s))"
proof -
  have "ptr_add base (of_nat off + 4) = Returns (q + 4)" using assms ptr_add_plus by simp
  then show ?thesis using assms(3) unfolding encode_value_def by (simp add: store_octets_ok in_place_def)
qed

text \<open>Once the value is in place the base class adds the header.\<close>

lemma encode_in_place:
  assumes "q = base + off" "off + 4 < 2 ^ 31" "n + 4 < 2 ^ 16" "q + 4 + length bs \<le> length m" "n = length bs"
    "mem s b = overwrite m (q + 4) bs" "param_at s a = in_place b q n p"
  shows "M3UAParam_encode b base (of_nat off) a s = Returns (of_nat (4 + n), put_mem b (overwrite m q (tlv_header (param_type p) n @ bs)) s)"
proof -
  have "bs = take n (drop (q + 4) (mem s b))"
    using read_overwritten [of "q + 4" bs m] assms(4-6) by simp
  moreover have "overwrite (overwrite m (q + 4) bs) q (tlv_header (param_type p) n @ bs) = overwrite m q (tlv_header (param_type p) n @ bs)"
    using assms(4) by (cases bs) (auto simp: overwrite_def min_def ac_simps)
  ultimately show ?thesis
    using assms by (subst M3UAParam_encode_ok [where n = n and q = q and bs = bs]) auto
qed

lemma encode_word_ok:
  assumes "length bs = 4" "q = base + off" "off + 4 < 2 ^ 31" "q + 8 \<le> length (mem s b)"
  shows "encode_word b base (of_nat off) a bs s =
    Returns (of_nat 8, put_mem b (overwrite (mem s b) q (tlv_header (param_type (param_at s a)) 4 @ bs))
      (put_param a (in_place b q 4 (param_at s a)) s))"
proof -
  let ?s = "put_mem b (overwrite (mem s b) (q + 4) bs) (put_param a (in_place b q 4 (param_at s a)) s)"
  have 1: "encode_value b base (of_nat off) a 4 bs s = Returns ?s"
    using encode_value_ok [where n = 4, OF assms(2,3), of bs s b a] assms by simp
  have 2: "M3UAParam_encode b base (of_nat off) a ?s =
      Returns (of_nat (4 + 4), put_mem b (overwrite (mem s b) q (tlv_header (param_type (param_at s a)) 4 @ bs)) ?s)"
    using assms by (intro encode_in_place) simp_all
  show ?thesis unfolding encode_word_def 1 using 2 by simp
qed

lemma label_octets_length: "label_octets d = Returns lb \<Longrightarrow> length lb = 12"
  by (auto simp: label_octets_def the_ptr_def and_then_Returns_iff split: option.splits)

lemma ProtocolData_encode_ok:
  assumes "label_octets d = Returns lb" "peek s (user_protocol_data d) (user_protocol_data_length d) = Some us"
    "\<forall>p. user_protocol_data d \<noteq> Some (b, p)" "n = length (lb @ us)" "n + 4 < 2 ^ 16" "q = base + off" "off + 4 < 2 ^ 31"
    "q + 4 + n \<le> length (mem s b)"
  shows "ProtocolData_encode b base (of_nat off) a d s =
    Returns (of_nat (4 + n), put_mem b (overwrite (mem s b) q (tlv_header (param_type (param_at s a)) n @ lb @ us))
      (put_param a (in_place b q n (param_at s a)) s))"
proof -
  note lb = label_octets_length [OF assms(1)]
  let ?p = "put_param a (in_place b q n (param_at s a)) s"
  let ?s = "put_mem b (overwrite (mem s b) (q + 4) lb) ?p" and ?s2 = "put_mem b (overwrite (mem s b) (q + 4) (lb @ us)) ?p"
  have n: "12 + user_protocol_data_length d = of_nat n" using peekD(4) [OF assms(2)] lb assms(4) by simp
  have 1: "encode_value b base (of_nat off) a (12 + user_protocol_data_length d) lb s = Returns ?s"
    unfolding n using assms lb by (intro encode_value_ok) simp_all
  have pa: "ptr_add base (of_nat off + 4) = Returns (q + 4)" using assms ptr_add_plus by simp
  have pk: "peek ?s (user_protocol_data d) (user_protocol_data_length d) = Some us"
    using assms(2,3) by (auto simp: peek_def split: option.splits if_splits)
  have 2: "(if user_protocol_data d \<noteq> None \<and> sint (user_protocol_data_length d) > 0
       then and_then (ptr_add base (of_nat off + 4)) (\<lambda>q'. copy_octets b (q' + 12) (user_protocol_data d) (user_protocol_data_length d) ?s)
       else Returns ?s) = Returns ?s2"
  proof (cases "us = []")
    case True
    then show ?thesis using peekD(2) [OF assms(2)] by simp
  next
    case False
    have "copy_octets b (q + 4 + 12) (user_protocol_data d) (user_protocol_data_length d) ?s =
        Returns (put_mem b (overwrite (mem ?s b) (q + 4 + 12) us) ?s)"
      using pk assms lb by (intro copy_peek) simp_all
    moreover have "overwrite (mem ?s b) (q + 4 + 12) us = overwrite (mem s b) (q + 4) (lb @ us)"
      using assms lb by (simp add: overwrite_append)
    ultimately show ?thesis using False peekD(2,3) [OF assms(2)] pa by simp
  qed
  have 3: "M3UAParam_encode b base (of_nat off) a ?s2 =
      Returns (of_nat (4 + n), put_mem b (overwrite (mem s b) q (tlv_header (param_type (param_at s a)) n @ lb @ us)) ?s2)"
    using assms by (intro encode_in_place) simp_all
  show ?thesis unfolding ProtocolData_encode_def assms(1) and_then.simps(1) 1 2 3 by simp
qed

lemma length_octets [simp]:
  "length (CongestionIndications_octets v) = 4" "length (Status_octets v w) = 4" "length (UserCause_octets v w) = 4"
  by (simp_all add: CongestionIndications_octets_def Status_octets_def UserCause_octets_def)

text \<open>Any parameter.\<close>

lemma param_encode_ok:
  assumes "encodable s b (param_at s a)" "bs = octets_of s (param_at s a)" "q = base + off" "off + 4 < 2 ^ 31"
    "q + 4 + length bs \<le> length (mem s b)"
  obtains p where "param_encode b base (of_nat off) a s = Returns (of_nat (4 + length bs),
      put_mem b (overwrite (mem s b) q (tlv_header (param_type (param_at s a)) (length bs) @ bs)) (put_param a p s))"
    "p = param_at s a \<or> members (param_at s a) \<noteq> No_Members \<and> p = in_place b q (length bs) (param_at s a)"
proof -
  let ?p = "param_at s a"
  let ?goal = "\<lambda>p. param_encode b base (of_nat off) a s = Returns (of_nat (4 + length bs),
      put_mem b (overwrite (mem s b) q (tlv_header (param_type ?p) (length bs) @ bs)) (put_param a p s))"
  have c: "content s ?p = Some bs" "length bs + 4 < 2 ^ 16" "\<forall>p. source ?p \<noteq> Some (b, p)"
    using assms(1,2) by (auto simp: encodable_def octets_of_def split: option.splits)
  have word: "?goal (in_place b q (length bs) ?p)"
    if "length bs = 4" "param_encode b base (of_nat off) a s = encode_word b base (of_nat off) a bs s"
    unfolding that(2) using that(1) assms(3-5) by (subst encode_word_ok) auto
  show thesis
  proof (cases "members ?p")
    case No_Members
    then have pk: "peek s (param_value ?p) (value_length ?p) = Some bs" "\<forall>p. param_value ?p \<noteq> Some (b, p)"
      using c by (auto simp: content_def source_def)
    have "M3UAParam_encode b base (of_nat off) a s = Returns (of_nat (4 + length bs),
        put_mem b (overwrite (mem s b) q (tlv_header (param_type ?p) (length bs) @ bs)) s)"
      using peekD(4) [OF pk(1)] pk c(2) assms(3-5) by (intro M3UAParam_encode_ok) auto
    then have "?goal ?p" using No_Members by (simp add: param_encode_def put_param_def)
    then show thesis using that by blast
  next
    case (ProtocolData d)
    then obtain lb us where l: "label_octets d = Returns lb" "peek s (user_protocol_data d) (user_protocol_data_length d) = Some us"
      "bs = lb @ us" "\<forall>p. user_protocol_data d \<noteq> Some (b, p)"
      using c by (auto simp: content_def source_def split: outcome.splits option.splits)
    have "?goal (in_place b q (length bs) ?p)"
      using ProtocolData_encode_ok [OF l(1,2,4) refl, of q base off a] l(3) c(2) assms(3-5) ProtocolData
      by (simp add: param_encode_def)
    then show thesis using that ProtocolData by auto
  qed (use c word that in \<open>auto simp: content_def param_encode_def\<close>)
qed

text \<open>What encoding into \<open>b\<close> may change.\<close>

definition kept :: "m3ua_state \<Rightarrow> nat \<Rightarrow> m3ua_state \<Rightarrow> bool" where
  "kept s0 b s \<longleftrightarrow>
     (\<forall>a. param_at s a = param_at s0 a \<or>
       members (param_at s0 a) \<noteq> No_Members \<and> (\<exists>q n. param_at s a = in_place b q n (param_at s0 a))) \<and>
     (\<forall>b'. b' \<noteq> b \<longrightarrow> mem s b' = mem s0 b') \<and> length (mem s b) = length (mem s0 b) \<and> message_at s = message_at s0 \<and>
     PARAM_POOL s = PARAM_POOL s0 \<and> MESSAGE_POOL s = MESSAGE_POOL s0"

lemma kept_refl [simp]: "kept s b s"
  by (simp add: kept_def)

lemma content_kept:
  assumes "\<forall>b'. b' \<noteq> b \<longrightarrow> mem s b' = mem s0 b'" "\<forall>q. source p \<noteq> Some (b, q)"
  shows "content s p = content s0 p"
proof -
  have "peek s ptr n = peek s0 ptr n" if "\<forall>q. ptr \<noteq> Some (b, q)" for ptr n
    using that assms(1) by (auto simp: peek_def split: option.splits)
  with assms(2) show ?thesis by (cases "members p") (simp_all add: content_def source_def)
qed

lemma content_in_place: "members p \<noteq> No_Members \<Longrightarrow> content s (in_place b q n p) = content s p \<and> source (in_place b q n p) = source p"
  by (cases "members p") (simp_all add: content_def source_def)

lemma kept_sendable:
  assumes "kept s0 b s" "encodable s0 b (param_at s0 a)"
  shows "encodable s b (param_at s a)" "octets_of s (param_at s a) = octets_of s0 (param_at s0 a)"
    "param_type (param_at s a) = param_type (param_at s0 a)"
proof -
  have m: "\<forall>b'. b' \<noteq> b \<longrightarrow> mem s b' = mem s0 b'" using assms(1) by (simp add: kept_def)
  have *: "content s (param_at s a) = content s0 (param_at s0 a) \<and> source (param_at s a) = source (param_at s0 a) \<and>
      param_type (param_at s a) = param_type (param_at s0 a)"
  proof (cases "param_at s a = param_at s0 a")
    case True
    then show ?thesis using content_kept [OF m] assms(2) by (simp add: encodable_def)
  next
    case False
    then obtain q n where "members (param_at s0 a) \<noteq> No_Members" "param_at s a = in_place b q n (param_at s0 a)"
      using assms(1) by (auto simp: kept_def)
    then show ?thesis using content_kept [OF m, of "param_at s0 a"] content_in_place [of "param_at s0 a"] assms(2) by (simp add: encodable_def)
  qed
  then show "encodable s b (param_at s a)" "octets_of s (param_at s a) = octets_of s0 (param_at s0 a)"
    "param_type (param_at s a) = param_type (param_at s0 a)"
    using assms(2) by (simp_all add: encodable_def octets_of_def)
qed

lemma kept_step:
  assumes "kept s0 b s" "length m = length (mem s b)"
    "p = param_at s a \<or> members (param_at s a) \<noteq> No_Members \<and> p = in_place b q n (param_at s a)"
  shows "kept s0 b (put_mem b m (put_param a p s))"
proof -
  have twice: "in_place b q n (in_place b q' n' p) = in_place b q n p" for q' n' p by (simp add: in_place_def)
  have "param_at s a = param_at s0 a \<or> members (param_at s0 a) \<noteq> No_Members \<and> (\<exists>q n. param_at s a = in_place b q n (param_at s0 a))"
    using assms(1) unfolding kept_def by blast
  then have "p = param_at s0 a \<or> members (param_at s0 a) \<noteq> No_Members \<and> (\<exists>q n. p = in_place b q n (param_at s0 a))"
    using assms(3) by (metis twice in_place_simps(1))
  then show ?thesis using assms(1,2) by (auto simp: kept_def)
qed

lemma padding_of_nat:
  assumes "n + 4 < 2 ^ 16"
  shows "padding (of_nat (4 + n)) = of_nat ((4 - n mod 4) mod 4)"
proof -
  have "4 + n < 2 ^ 31" using assms by simp
  then have c: "c_rem (sint (of_nat (4 + n) :: c_int)) 4 = int (n mod 4)"
    unfolding sint_of_nat_small [OF \<open>4 + n < 2 ^ 31\<close>] by (simp add: c_rem_def zmod_int)
  have "n mod 4 = 0 \<or> n mod 4 = 1 \<or> n mod 4 = 2 \<or> n mod 4 = 3" by linarith
  then show ?thesis unfolding padding_def c by auto
qed

lemma encode_parameter_ok:
  assumes "encodable s b (param_at s a)" "bs = octets_of s (param_at s a)" "q = base + off"
    "w = wire_param (param_type (param_at s a), bs)" "off + length w \<le> bl" "bl < 2 ^ 31" "q + length w \<le> length (mem s b)"
  obtains p where "encode_parameter b base (of_nat bl) (of_nat off) a s =
      Returns (of_nat (length w), put_mem b (overwrite (mem s b) q w) (put_param a p s))"
    "p = param_at s a \<or> members (param_at s a) \<noteq> No_Members \<and> p = in_place b q (length bs) (param_at s a)"
proof -
  let ?n = "length bs" and ?hb = "tlv_header (param_type (param_at s a)) (length bs) @ bs"
  let ?pad = "(4 - length bs mod 4) mod 4"
  have n: "?n + 4 < 2 ^ 16" using assms(1,2) by (auto simp: encodable_def octets_of_def split: option.splits)
  have w: "w = ?hb @ pad_octets ?n" "length w = 4 + ?n + ?pad"
    using assms(4) length_wire_param by (simp_all add: wire_param_def)
  obtain p where p: "param_encode b base (of_nat off) a s = Returns (of_nat (4 + ?n), put_mem b (overwrite (mem s b) q ?hb) (put_param a p s))"
    "p = param_at s a \<or> members (param_at s a) \<noteq> No_Members \<and> p = in_place b q ?n (param_at s a)"
    using assms(1,2,3) _ _ by (rule param_encode_ok) (use assms(5-7) w in auto)
  have bl: "0 < sint (of_nat bl :: c_int)" "sint (of_nat bl :: c_int) = int bl"
    using assms(5,6) w(2) sint_of_nat_small [of bl] by simp_all
  have "off + length w < 2 ^ 31" using assms(5,6) by simp
  then have "sint (of_nat (off + length w) :: c_int) = int (off + length w)" by (rule sint_of_nat_small)
  then have room: "sint (of_nat (4 + ?n) + of_nat off + of_nat ?pad :: c_int) \<le> sint (of_nat bl :: c_int)"
    using assms(5) bl(2) w(2) by (simp add: ac_simps)
  have pa: "ptr_add base (of_nat off + of_nat (4 + ?n)) = Returns (q + (4 + ?n))"
    using ptr_add_of_nat [of "off + (4 + ?n)" base] assms(3,5,6) w(2) by (simp add: ac_simps)
  let ?s = "put_mem b (overwrite (mem s b) q ?hb) (put_param a p s)"
  have "unat (of_nat ?pad :: c_int) = ?pad" by (rule unat_of_nat_32) (rule less_trans [of _ 4], simp_all)
  then have rep: "replicate (unat (of_nat ?pad :: c_int)) 0 = pad_octets ?n" by (simp only: pad_octets_def)
  have "store_octets b (q + (4 + ?n)) (pad_octets ?n) ?s =
      Returns (put_mem b (overwrite (mem ?s b) (q + (4 + ?n)) (pad_octets ?n)) ?s)"
    using assms(7) w by (intro store_octets_ok) (simp add: pad_octets_def)
  moreover have "overwrite (mem ?s b) (q + (4 + ?n)) (pad_octets ?n) = overwrite (mem s b) q w"
    using assms(7) w by (simp add: overwrite_append pad_octets_def)
  ultimately have st: "store_octets b (q + (4 + ?n)) (pad_octets ?n) ?s = Returns (put_mem b (overwrite (mem s b) q w) (put_param a p s))"
    by simp
  have "encode_parameter b base (of_nat bl) (of_nat off) a s =
      Returns (of_nat (4 + ?n) + of_nat ?pad, put_mem b (overwrite (mem s b) q w) (put_param a p s))"
    unfolding encode_parameter_def p(1) and_then.simps(1) prod.case Let_def padding_of_nat [OF n] rep
    using bl(1) room pa st by simp
  then show thesis using that p(2) w(2) by simp
qed

definition described :: "m3ua_state \<Rightarrow> nat \<Rightarrow> ParameterType \<times> u8 list" where
  "described s a = (param_type (param_at s a), octets_of s (param_at s a))"

lemma encode_params_ok:
  assumes "kept s0 b s" "\<forall>a \<in> set as. encodable s0 b (param_at s0 a)" "q = base + off"
    "w = wire_params (map (described s0) as)" "off + length w \<le> bl" "bl < 2 ^ 31" "q + length w \<le> length (mem s b)"
  shows "\<exists>s'. encode_params b base (of_nat bl) (of_nat off) (of_nat pl) as s = Returns (of_nat (pl + length w), s') \<and>
    mem s' b = overwrite (mem s b) q w \<and> kept s0 b s'"
  using assms
proof (induction as arbitrary: s q off w pl)
  case Nil
  then show ?case by simp
next
  case (Cons a as)
  let ?w1 = "wire_param (described s0 a)" and ?w2 = "wire_params (map (described s0) as)"
  have sd: "encodable s0 b (param_at s0 a)" using Cons.prems(2) by simp
  note k = kept_sendable [OF Cons.prems(1) sd]
  have w: "w = ?w1 @ ?w2" using Cons.prems(4) by simp
  have w1: "?w1 = wire_param (param_type (param_at s a), octets_of s (param_at s a))" using k by (simp add: described_def)
  obtain p where p: "encode_parameter b base (of_nat bl) (of_nat off) a s =
      Returns (of_nat (length ?w1), put_mem b (overwrite (mem s b) q ?w1) (put_param a p s))"
    "p = param_at s a \<or> members (param_at s a) \<noteq> No_Members \<and> p = in_place b q (length (octets_of s (param_at s a))) (param_at s a)"
    using k(1) refl Cons.prems(3) w1 _ Cons.prems(6) _
    by (rule encode_parameter_ok) (use Cons.prems(5,7) w in auto)
  let ?s = "put_mem b (overwrite (mem s b) q ?w1) (put_param a p s)"
  have fits: "q + length ?w1 \<le> length (mem s b)" using Cons.prems(7) w by simp
  have "kept s0 b ?s" using Cons.prems(1) fits p(2) by (intro kept_step) simp_all
  then have "\<exists>s'. encode_params b base (of_nat bl) (of_nat (off + length ?w1)) (of_nat (pl + length ?w1)) as ?s =
      Returns (of_nat (pl + length ?w1 + length ?w2), s') \<and> mem s' b = overwrite (mem ?s b) (q + length ?w1) ?w2 \<and> kept s0 b s'"
    using Cons.prems w fits by (intro Cons.IH) auto
  moreover have "overwrite (mem ?s b) (q + length ?w1) ?w2 = overwrite (mem s b) q w"
    using w Cons.prems(7) by (simp add: overwrite_append)
  ultimately show ?case using p(1) w by (simp add: ac_simps)
qed

lemma kept_put_mem: "kept s0 b s \<Longrightarrow> length m = length (mem s b) \<Longrightarrow> kept s0 b (put_mem b m s)"
  by (auto simp: kept_def)

lemma kept_trans_mem:
  assumes "kept (put_mem b m s0) b s" "length m = length (mem s0 b)"
  shows "kept s0 b s"
  using assms by (auto simp: kept_def)

lemma described_kept: "kept s0 b s \<Longrightarrow> encodable s0 b (param_at s0 a) \<Longrightarrow> described s a = described s0 a"
  using kept_sendable [of s0 b s a] by (simp add: described_def)

lemma length_wire_packet: "length (wire_packet mt ps) = 8 + length (wire_params ps)"
  by (simp add: wire_packet_def)

text \<open>
  A packet is written when its message fits after the first four octets: \<open>encode\<close> of the
  message is given the whole \<open>buffer_length\<close> for a buffer that starts four octets later.
\<close>

lemma M3UAPacket_encode_ok:
  assumes pkt: "version pkt = 1" "message_class pkt = drop_bit 8 (mt_value mt)" "packet_type pkt = mt_value mt"
      "message pkt = Some m" "params (message_at s m) = as"
    and sd: "\<forall>a \<in> set as. encodable s b (param_at s a)"
    and w: "w = wire_packet mt (map (described s) as)"
    and fits: "off < 2 ^ 31" "length w \<le> bl + 4" "bl < 2 ^ 31" "base + off + length w \<le> length (mem s b)"
  shows "\<exists>s'. M3UAPacket_encode b base (of_nat bl) (of_nat off) pkt s = Returns (of_nat (length w), s') \<and>
    mem s' b = overwrite (mem s b) (base + off) w \<and> kept s b s'"
proof -
  let ?q = "base + off" and ?ps = "wire_params (map (described s) as)"
  let ?h = "[1, 0, ucast (drop_bit 8 (mt_value mt)), ucast (mt_value mt)] :: u8 list"
  let ?m = "overwrite (mem s b) ?q ?h" and ?s = "put_mem b (overwrite (mem s b) ?q ?h) s"
  have lw: "length w = 8 + length ?ps" and we: "w = ?h @ be32 (8 + of_nat (length ?ps)) @ ?ps"
    using w length_wire_packet [of mt "map (described s) as"] by (simp_all add: wire_packet_def)
  have lm: "length ?m = length (mem s b)" using fits(4) lw by simp
  have k: "kept s b ?s" using lm by (intro kept_put_mem) simp_all
  have st: "store_octets b ?q ?h s = Returns ?s" using fits(4) lw by (intro store_octets_ok) simp
  have "\<exists>s'. encode_params b (?q + 4) (of_nat bl) (of_nat 4) (of_nat 0) as ?s = Returns (of_nat (0 + length ?ps), s') \<and>
      mem s' b = overwrite (mem ?s b) (?q + 8) ?ps \<and> kept s b s'"
    using k sd fits lw lm by (intro encode_params_ok) simp_all
  then obtain s' where s': "encode_params b (?q + 4) (of_nat bl) 4 0 as ?s = Returns (of_nat (length ?ps), s')"
    "mem s' b = overwrite ?m (?q + 8) ?ps" "kept s b s'" by auto
  let ?l = "be32 (8 + of_nat (length ?ps))"
  have ls: "length (mem s' b) = length (mem s b)" using s'(3) by (simp add: kept_def)
  have st': "store_octets b (?q + 4) ?l s' = Returns (put_mem b (overwrite (mem s' b) (?q + 4) ?l) s')"
    using ls fits(4) lw by (intro store_octets_ok) simp
  have "overwrite (mem s' b) (?q + 4) ?l = overwrite ?m (?q + 4) (?l @ ?ps)"
    unfolding s'(2) using fits(4) lw lm by (intro overwrite_before) simp_all
  also have "\<dots> = overwrite (mem s b) ?q (?h @ ?l @ ?ps)"
    using fits(4) lw by (intro overwrite_append) simp_all
  finally have m': "overwrite (mem s' b) (?q + 4) ?l = overwrite (mem s b) ?q w" using we by simp
  have "M3UAPacket_encode b base (of_nat bl) (of_nat off) pkt s = Returns (of_nat (length w), put_mem b (overwrite (mem s b) ?q w) s')"
    unfolding M3UAPacket_encode_def ptr_add_of_nat [OF fits(1)] and_then.simps(1) pkt(1-3) st M3UAMessage_encode_def
    using pkt(4,5) s'(1) st'[unfolded m'] lw by simp
  moreover have "kept s b (put_mem b (overwrite (mem s b) ?q w) s')"
    using s'(3) ls fits(4) by (intro kept_put_mem) simp_all
  ultimately show ?thesis by auto
qed

end
