(* ===== verification/M3ua_Decode.thy ===== *)
theory M3ua_Decode
  imports M3ua_Codec
begin

text \<open>
  Decoding M3UA packets: the pools as rings of objects, \<open>init\<close> on the octets \<open>encode\<close> writes, the
  loop over the parameters and when it ends, and the round trip.
\<close>

section \<open>Pools of a state\<close>

definition param_ring :: "m3ua_state \<Rightarrow> ParameterType \<Rightarrow> nat list" where
  "param_ring s pt = (case PARAM_POOL s pt of None \<Rightarrow> [] | Some it \<Rightarrow> upcoming it)"

definition message_ring :: "m3ua_state \<Rightarrow> MessageType \<Rightarrow> nat list" where
  "message_ring s mt = (case MESSAGE_POOL s mt of None \<Rightarrow> [] | Some it \<Rightarrow> upcoming it)"

text \<open>An object of the class of a parameter type.\<close>

primrec member_class :: "param_members \<Rightarrow> nat" where
  "member_class No_Members = 0"
| "member_class (CongestionIndications _) = 1"
| "member_class (CorrelationId _) = 2"
| "member_class (ErrorCode _) = 3"
| "member_class (NetworkAppearance _) = 4"
| "member_class (ProtocolData _) = 5"
| "member_class (RoutingContext _) = 6"
| "member_class (Status _ _) = 7"
| "member_class (TrafficModeType _) = 8"
| "member_class (UserCause _ _) = 9"

definition well_formed :: "M3UAParam \<Rightarrow> bool" where
  "well_formed p \<longleftrightarrow> member_class (members p) = member_class (new_members (param_type p))"

definition pools_ok :: "m3ua_state \<Rightarrow> bool" where
  "pools_ok s \<longleftrightarrow>
     (\<forall>pt. \<exists>it. PARAM_POOL s pt = Some it \<and> item_ok it \<and> (\<forall>a \<in> set (upcoming it). param_type (param_at s a) = pt \<and> well_formed (param_at s a))) \<and>
     (\<forall>mt. \<exists>it. MESSAGE_POOL s mt = Some it \<and> item_ok it \<and> (\<forall>a \<in> set (upcoming it). message_type (message_at s a) = mt))"

lemma pools_okD:
  assumes "pools_ok s"
  shows "distinct (param_ring s pt)" "param_ring s pt \<noteq> []"
    "a \<in> set (param_ring s pt) \<Longrightarrow> param_type (param_at s a) = pt \<and> well_formed (param_at s a)"
    "message_ring s mt \<noteq> []" "a \<in> set (message_ring s mt) \<Longrightarrow> message_type (message_at s a) = mt"
proof -
  obtain it where "PARAM_POOL s pt = Some it" "item_ok it" "\<forall>a \<in> set (upcoming it). param_type (param_at s a) = pt \<and> well_formed (param_at s a)"
    using assms unfolding pools_ok_def by blast
  then show "distinct (param_ring s pt)" "param_ring s pt \<noteq> []"
    "a \<in> set (param_ring s pt) \<Longrightarrow> param_type (param_at s a) = pt \<and> well_formed (param_at s a)"
    using upcoming_simps by (auto simp: param_ring_def)
  obtain it where "MESSAGE_POOL s mt = Some it" "item_ok it" "\<forall>a \<in> set (upcoming it). message_type (message_at s a) = mt"
    using assms unfolding pools_ok_def by blast
  then show "message_ring s mt \<noteq> []" "a \<in> set (message_ring s mt) \<Longrightarrow> message_type (message_at s a) = mt"
    using upcoming_simps by (auto simp: message_ring_def)
qed

lemma pools_ok_param:
  assumes "pools_ok s" "PARAM_POOL s pt = Some it" "item_ok it'" "set (upcoming it') = set (upcoming it)"
  shows "pools_ok (s\<lparr>PARAM_POOL := (PARAM_POOL s)(pt := Some it')\<rparr>)"
proof -
  have "\<forall>a \<in> set (upcoming it'). param_type (param_at s a) = pt \<and> well_formed (param_at s a)"
    using assms unfolding pools_ok_def by (metis option.inject)
  then show ?thesis using assms(1,3) by (simp add: pools_ok_def)
qed

lemma pools_ok_message:
  assumes "pools_ok s" "MESSAGE_POOL s mt = Some it" "item_ok it'" "set (upcoming it') = set (upcoming it)"
  shows "pools_ok (s\<lparr>MESSAGE_POOL := (MESSAGE_POOL s)(mt := Some it')\<rparr>)"
proof -
  have "\<forall>a \<in> set (upcoming it'). message_type (message_at s a) = mt"
    using assms unfolding pools_ok_def by (metis option.inject)
  then show ?thesis using assms(1,3) by (simp add: pools_ok_def)
qed

lemma request_param_ok:
  assumes "pools_ok s"
  obtains s' where "request_param pt s = Returns (Some (hd (param_ring s pt)), s')" "pools_ok s'"
    "param_ring s' = (param_ring s)(pt := rotate1 (param_ring s pt))" "message_ring s' = message_ring s"
    "mem s' = mem s" "param_at s' = param_at s" "message_at s' = message_at s"
proof -
  obtain it where it: "PARAM_POOL s pt = Some it" "item_ok it" using assms unfolding pools_ok_def by blast
  obtain it' where it': "request_item it = Returns (hd (upcoming it), it')" "item_ok it'" "upcoming it' = rotate1 (upcoming it)"
    using it(2) by (rule request_item_ok)
  let ?s = "s\<lparr>PARAM_POOL := (PARAM_POOL s)(pt := Some it')\<rparr>"
  have "pools_ok ?s" using assms it(1) it'(2) by (rule pools_ok_param) (simp add: it'(3))
  then show thesis using it it' by (intro that [of ?s]) (auto simp: request_param_def param_ring_def message_ring_def fun_eq_iff)
qed

lemma request_message_ok:
  assumes "pools_ok s"
  obtains s' where "request_message mt s = Returns (Some (hd (message_ring s mt)), s')" "pools_ok s'"
    "param_ring s' = param_ring s" "mem s' = mem s" "param_at s' = param_at s" "message_at s' = message_at s"
proof -
  obtain it where it: "MESSAGE_POOL s mt = Some it" "item_ok it" using assms unfolding pools_ok_def by blast
  obtain it' where it': "request_item it = Returns (hd (upcoming it), it')" "item_ok it'" "upcoming it' = rotate1 (upcoming it)"
    using it(2) by (rule request_item_ok)
  let ?s = "s\<lparr>MESSAGE_POOL := (MESSAGE_POOL s)(mt := Some it')\<rparr>"
  have "pools_ok ?s" using assms it(1) it'(2) by (rule pools_ok_message) (simp add: it'(3))
  then show thesis using it it' by (intro that [of ?s]) (auto simp: request_message_def param_ring_def message_ring_def fun_eq_iff)
qed

interpretation param_pool: round_robin pools_ok "\<lambda>s. map Some (param_ring s pt)" "request_param pt" for pt
proof
  fix s
  assume ok: "pools_ok s"
  then have ne: "param_ring s pt \<noteq> []" by (rule pools_okD)
  then show "map Some (param_ring s pt) \<noteq> []" by simp
  obtain s' where "request_param pt s = Returns (Some (hd (param_ring s pt)), s')" "pools_ok s'"
    "param_ring s' = (param_ring s)(pt := rotate1 (param_ring s pt))" using request_param_ok [OF ok] by blast
  then show "\<exists>s'. request_param pt s = Returns (hd (map Some (param_ring s pt)), s') \<and> pools_ok s' \<and>
      map Some (param_ring s' pt) = rotate1 (map Some (param_ring s pt))"
    using ne by (simp add: hd_map rotate1_map)
qed

section \<open>Objects handed out\<close>

lemma pools_disjoint: "pools_ok s \<Longrightarrow> disjoint_rings (param_ring s)"
  unfolding disjoint_rings_def using pools_okD(1,3) by blast

section \<open>Reading a value\<close>

text \<open>Values a parameter of a class can have, and members whose octets are as wide as the members.\<close>

definition canonical :: "param_members \<Rightarrow> u8 list \<Rightarrow> bool" where
  "canonical ms bs \<longleftrightarrow>
     (case ms of
        No_Members \<Rightarrow> True
      | CongestionIndications _ \<Rightarrow> length bs = 4 \<and> take 3 bs = [0, 0, 0]
      | ProtocolData _ \<Rightarrow> 12 \<le> length bs
      | _ \<Rightarrow> length bs = 4)"

definition regular :: "M3UAParam \<Rightarrow> bool" where
  "regular p \<longleftrightarrow>
     (case members p of
        CongestionIndications lv \<Rightarrow> lv AND 0xff = lv
      | Status ty info \<Rightarrow> ty AND 0xffff = ty \<and> info = push_bit 16 ty + (info AND 0xffff)
      | UserCause u c \<Rightarrow> u AND 0xffff = u \<and> c AND 0xffff = c
      | ProtocolData d \<Rightarrow> (\<exists>si. service_indicator d = Some si \<and> si AND 0xff = si)
      | _ \<Rightarrow> True)"

lemma content_canonical: "content s p = Some bs \<Longrightarrow> canonical (members p) bs"
  by (auto simp: content_def canonical_def CongestionIndications_octets_def label_octets_length
      split: param_members.splits outcome.splits option.splits)

lemma list_of_4: "length bs = 4 \<Longrightarrow> bs = [bs ! 0, bs ! 1, bs ! 2, bs ! 3]"
  by (auto simp: length_Suc_conv numeral_eq_Suc)

text \<open>\<open>init\<close> on a value in the buffer \<open>b\<close>.\<close>

definition reads :: "nat \<Rightarrow> u8 list \<Rightarrow> u8 list \<Rightarrow> M3UAParam \<Rightarrow> M3UAParam \<Rightarrow> bool" where
  "reads b m bs p p' \<longleftrightarrow>
     param_type p' = param_type p \<and> member_class (members p') = member_class (members p) \<and> regular p' \<and>
     (\<forall>s. mem s b = m \<longrightarrow> content s p' = Some bs)"

lemma init_word:
  assumes "length bs = 4" "bs = take 4 (drop q m)" "q + 4 \<le> length m"
  shows "get32 m q = Returns (octet4 (bs ! 0) (bs ! 1) (bs ! 2) (bs ! 3))"
    "get16 m q = Returns (octet2 (bs ! 0) (bs ! 1))" "get16 m (q + 2) = Returns (octet2 (bs ! 2) (bs ! 3))"
    "byte_at m (q + 3) = Returns (bs ! 3)" "be32 (octet4 (bs ! 0) (bs ! 1) (bs ! 2) (bs ! 3)) = bs"
    "be16 (octet2 (bs ! 0) (bs ! 1)) @ be16 (octet2 (bs ! 2) (bs ! 3)) = bs"
proof -
  have n: "bs ! i = m ! (q + i)" if "i < 4" for i using that assms by simp
  show "get32 m q = Returns (octet4 (bs ! 0) (bs ! 1) (bs ! 2) (bs ! 3))" "get16 m q = Returns (octet2 (bs ! 0) (bs ! 1))"
    "get16 m (q + 2) = Returns (octet2 (bs ! 2) (bs ! 3))" "byte_at m (q + 3) = Returns (bs ! 3)"
    using assms(3) by (simp_all add: get_nth n numeral_eq_Suc)
  show "be32 (octet4 (bs ! 0) (bs ! 1) (bs ! 2) (bs ! 3)) = bs" using list_of_4 [OF assms(1)] by (simp add: be32_octet4)
  show "be16 (octet2 (bs ! 0) (bs ! 1)) @ be16 (octet2 (bs ! 2) (bs ! 3)) = bs" using list_of_4 [OF assms(1)] by (simp add: be16_octet2)
qed

lemma octet_mask: "(ucast (x::u8) AND 0xff :: c_int) = ucast x" "(x AND 0xff) = x" "(ucast x AND 0xff AND 0xff :: c_int) = ucast x"
  "ucast (ucast x :: c_int) = x"
proof -
  have m: "(0xff::c_int) = mask 8" "(0xff::u8) = mask 8" by (simp_all add: mask_eq_exp_minus_1)
  show "(ucast (x::u8) AND 0xff :: c_int) = ucast x" "(ucast x AND 0xff AND 0xff :: c_int) = ucast x"
    unfolding m by (rule bit_word_eqI, auto simp: bit_simps dest: bit_imp_le_length)+
  show "(x AND 0xff) = x" unfolding m by (rule bit_word_eqI) (auto simp: bit_simps)
  show "ucast (ucast x :: c_int) = x" by (rule bit_word_eqI) (auto simp: bit_simps)
qed

lemma status_members: "(push_bit 16 ty + octet2 a b) AND 0xffff = octet2 a b"
proof -
  have m: "(0xffff::c_int) = mask 16" by (simp add: mask_eq_exp_minus_1)
  have "push_bit 16 ty + octet2 a b = push_bit 16 ty OR octet2 a b"
    by (rule disjunctive_add_eq_or, rule bit_word_eqI) (auto simp: octet2_def bit_simps dest!: bit_imp_le_length)
  moreover have "(push_bit 16 ty OR octet2 a b) AND 0xffff = octet2 a b" unfolding m
    by (rule bit_word_eqI) (auto simp: octet2_def bit_simps dest: bit_imp_le_length)
  ultimately show ?thesis by simp
qed

lemma ProtocolData_init_ok:
  assumes "members p = ProtocolData d" "12 \<le> length bs" "length bs < 2 ^ 16" "bs = take (length bs) (drop q m)" "q + length bs \<le> length m"
    "param_byte_pos p = 0"
  shows "\<exists>p'. ProtocolData_init m (b, q) (of_nat (length bs)) p = Returns p' \<and> reads b m bs p p'"
proof -
  let ?o = "\<lambda>i. octet4 (bs ! i) (bs ! (i + 1)) (bs ! (i + 2)) (bs ! (i + 3))" and ?n = "length bs - 12"
  have n: "bs ! i = m ! (q + i)" if "i < 12" for i
  proof -
    have "take (length bs) (drop q m) ! i = m ! (q + i)" using that assms(2,5) by simp
    then show ?thesis using assms(4) by simp
  qed
  have g: "get32 m q = Returns (?o 0)" "get32 m (q + 4) = Returns (?o 4)"
    using assms(2,5) by (simp_all add: get_nth n ac_simps)
  have byte: "byte_at m (q + i) = Returns (bs ! i)" if "i < 12" for i using that assms(2,5) n by simp
  define d' where "d' = \<lparr>service_indicator = Some (ucast (bs ! 8)), network_indicator = Some (bs ! 9), message_priority = Some (bs ! 10),
    destination_point_code = Some (?o 4), originating_point_code = Some (?o 0), signalling_link_selection_code = Some (bs ! 11),
    user_protocol_data_length = of_nat ?n, user_protocol_data = Some (b, q + 12)\<rparr>"
  define p' where "p' = p\<lparr>param_value := Some (b, q), value_length := of_nat (length bs), param_byte_pos := 12, members := ProtocolData d'\<rparr>"
  have len: "of_nat (length bs) - 12 = (of_nat ?n :: c_int)" using assms(2) by (simp add: of_nat_diff)
  have run: "ProtocolData_init m (b, q) (of_nat (length bs)) p = Returns p'"
    unfolding ProtocolData_init_def
    using assms(6) g byte [of 8] byte [of 9] byte [of 10] byte [of 11]
    by (simp add: M3UAParam_init_def p'_def d'_def len octet_mask)
  have lb: "label_octets d' = Returns (take 12 bs)"
  proof -
    have "take 12 bs = [bs!0, bs!1, bs!2, bs!3, bs!4, bs!5, bs!6, bs!7, bs!8, bs!9, bs!10, bs!11]"
      using assms(2) by (intro nth_equalityI) (auto simp: nth_Cons' numeral_eq_Suc less_Suc_eq)
    then show ?thesis by (simp add: label_octets_def d'_def be32_octet4 octet_mask numeral_2_eq_2)
  qed
  have "content s p' = Some bs" if "mem s b = m" for s
  proof -
    have small: "?n < 2 ^ 31" using assms(3) by simp
    have un: "unat (of_nat ?n :: c_int) = ?n" using assms(3) by (intro unat_of_nat_32) simp
    have sn: "0 \<le> sint (of_nat ?n :: c_int)" using sint_of_nat_small [OF small] by simp
    have "drop 12 bs = take ?n (drop (q + 12) m)" by (subst assms(4)) (simp add: drop_take add.commute)
    then have "peek s (Some (b, q + 12)) (of_nat ?n) = Some (drop 12 bs)"
      using that sn un assms(2,5) unat_eq_0 [of "of_nat ?n :: c_int"] by (auto simp: peek_def)
    then show ?thesis using lb by (simp add: content_def p'_def d'_def)
  qed
  then have "reads b m bs p p'" using assms(1) by (simp add: reads_def p'_def d'_def regular_def octet_mask)
  with run show ?thesis by blast
qed

lemma param_init_ok:
  assumes "canonical (members p) bs" "length bs < 2 ^ 16" "bs = take (length bs) (drop q m)" "q + length bs \<le> length m" "param_byte_pos p = 0"
  shows "\<exists>p'. param_init m (b, q) (of_nat (length bs)) p = Returns p' \<and> reads b m bs p p'"
proof (cases "members p")
  case No_Members
  let ?p = "M3UAParam_init (b, q) (of_nat (length bs)) p"
  have un: "unat (of_nat (length bs) :: c_int) = length bs" using assms(2) by (intro unat_of_nat_32) simp
  have "0 \<le> sint (of_nat (length bs) :: c_int)" using assms(2) sint_of_nat_small [of "length bs"] by simp
  then have "content s ?p = Some bs" if "mem s b = m" for s
    using that No_Members un assms(3,4) unat_eq_0 [of "of_nat (length bs) :: c_int"]
    by (auto simp: content_def peek_def M3UAParam_init_def)
  then show ?thesis using No_Members by (simp add: param_init_def reads_def M3UAParam_init_def regular_def)
next
  case (ProtocolData d)
  then show ?thesis using ProtocolData_init_ok [of p d bs q m b] assms by (simp add: param_init_def canonical_def)
next
  case (CongestionIndications lv)
  then have l: "length bs = 4" "take 3 bs = [0, 0, 0]" using assms(1) by (simp_all add: canonical_def)
  then have bs: "[0, 0, 0, bs ! 3] = bs" by (auto simp: length_Suc_conv numeral_eq_Suc)
  have "byte_at m (q + 3) = Returns (bs ! 3)" using init_word(4) [of bs q m] l assms(3,4) by simp
  then show ?thesis using CongestionIndications l bs
    by (simp add: param_init_def CongestionIndications_init_def M3UAParam_init_def reads_def regular_def content_def
        CongestionIndications_octets_def octet_mask)
qed (use assms init_word [of bs q m] list_of_4 [of bs] in \<open>auto simp: param_init_def canonical_def M3UAParam_init_def reads_def regular_def content_def Let_def
  CongestionIndications_init_def CorrelationId_init_def ErrorCode_init_def NetworkAppearance_init_def RoutingContext_init_def Status_init_def
  TrafficModeType_init_def UserCause_init_def CongestionIndications_octets_def Status_octets_def UserCause_octets_def
  octet_mask be16_octet2 status_members\<close>)

end
