(* ===== verification/M3ua_Roundtrip.thy ===== *)
theory M3ua_Roundtrip
  imports M3ua_Decode
begin

text \<open>
  The loop over the parameters of a message, the round trip of packets, when the loop ends,
  and the pools as seen by a caller.
\<close>

section \<open>The loop on well-formed octets\<close>

lemma canonical_class: "member_class ms = member_class ms' \<Longrightarrow> canonical ms bs = canonical ms' bs"
  by (cases ms; cases ms') (simp_all add: canonical_def)

lemma type_codes [simp]: "pt_of (pt_value pt) = Some pt" "pt_value pt AND 0xffff = pt_value pt" "mt_of (mt_value mt) = Some mt"
proof -
  show "pt_of (pt_value pt) = Some pt" by (cases pt) (simp_all add: pt_of_def parameter_types_def)
  show "pt_value pt AND 0xffff = pt_value pt" by (cases pt) simp_all
  show "mt_of (mt_value mt) = Some mt" by (cases mt) (simp_all add: mt_of_def message_types_def)
qed

lemma length_code:
  assumes "n < 2 ^ 16"
  shows "(of_nat n :: c_int) AND 0xffff = of_nat n"
proof -
  have "(0xffff::c_int) = 2 ^ 16 - 1" by simp
  moreover have "unat (of_nat n AND (2 ^ 16 - 1) :: c_int) = unat (of_nat n :: c_int) mod 2 ^ 16" by (rule unat_and_mask) simp
  moreover have "unat (of_nat n :: c_int) = n" using assms by (intro unat_of_nat_32) simp
  ultimately show ?thesis using assms by (simp add: word_unat_eq_iff)
qed

text \<open>How far a round moves: header, value and padding.\<close>

lemma round_advance:
  assumes "n + 4 < 2 ^ 16"
  shows "(of_nat (n + 4) :: c_int) + (if (of_nat (n + 4) :: c_int) mod 4 > 0 then 4 - of_nat (n + 4) mod 4 else 0) - 4 =
    of_nat (n + (4 - n mod 4) mod 4)"
proof -
  have u: "unat (of_nat (n + 4) :: c_int) = n + 4" using assms by (intro unat_of_nat_32) simp
  have "unat (of_nat (n + 4) mod 4 :: c_int) = n mod 4" unfolding unat_mod u by simp
  then have m: "(of_nat (n + 4) :: c_int) mod 4 = of_nat (n mod 4)"
    by (simp add: word_unat_eq_iff unat_of_nat_32 [OF less_trans [of _ 4]])
  have "n mod 4 = 0 \<or> n mod 4 = 1 \<or> n mod 4 = 2 \<or> n mod 4 = 3" by linarith
  then show ?thesis unfolding m by (elim disjE) simp_all
qed

lemma process_header:
  assumes "mem s b = pre @ wire_param (pt, bs) @ post" "length pre = data + unat (bp::u32)" "length bs + 4 < 2 ^ 16" "unat bp + 4 < 2 ^ 32"
  shows "get16 (mem s b) (data + unat bp) = Returns (pt_value pt)"
    "get16 (mem s b) (data + unat (bp + 2)) = Returns (of_nat (length bs + 4))"
    "bs = take (length bs) (drop (data + unat (bp + 4)) (mem s b))" "data + unat (bp + 4) + length bs \<le> length (mem s b)"
proof -
  let ?m = "mem s b"
  have u: "unat (bp + 2) = unat bp + 2" "unat (bp + 4) = unat bp + 4"
    using assms(4) by (simp_all add: unat_word_ariths)
  have 1: "?m = pre @ be16 (pt_value pt) @ (be16 (of_nat (length bs + 4)) @ bs @ pad_octets (length bs) @ post)"
    using assms(1) by (simp add: wire_param_def tlv_header_def)
  show "get16 ?m (data + unat bp) = Returns (pt_value pt)" unfolding 1 using get16_be16 assms(2) by (metis type_codes(2))
  have 2: "?m = (pre @ be16 (pt_value pt)) @ be16 (of_nat (length bs + 4)) @ (bs @ pad_octets (length bs) @ post)"
    unfolding 1 by simp
  have "data + unat (bp + 2) = length (pre @ be16 (pt_value pt))" using assms(2) u by simp
  then show "get16 ?m (data + unat (bp + 2)) = Returns (of_nat (length bs + 4))" unfolding 2 using get16_be16 length_code [OF assms(3)] by metis
  have "data + unat (bp + 4) = length (pre @ tlv_header pt (length bs))" using assms(2) u by simp
  then show "bs = take (length bs) (drop (data + unat (bp + 4)) ?m)" "data + unat (bp + 4) + length bs \<le> length ?m"
    using assms(1) by (simp_all add: wire_param_def)
qed

definition sound_param :: "ParameterType \<times> u8 list \<Rightarrow> bool" where
  "sound_param = (\<lambda>(pt, bs). canonical (new_members pt) bs \<and> length bs + 4 < 2 ^ 16)"

text \<open>A parameter whose members can be recovered from its octets.\<close>

definition readable :: "m3ua_state \<Rightarrow> nat \<Rightarrow> bool" where
  "readable s a \<longleftrightarrow> regular (param_at s a) \<and> well_formed (param_at s a) \<and> content s (param_at s a) \<noteq> None"

text \<open>What the loop leaves of a state.\<close>

definition decoded_into :: "m3ua_state \<Rightarrow> nat \<Rightarrow> nat list \<Rightarrow> (ParameterType \<times> u8 list) list \<Rightarrow> m3ua_state \<Rightarrow> bool" where
  "decoded_into s m as ps s' \<longleftrightarrow>
     mem s' = mem s \<and> pools_ok s' \<and> message_type (message_at s' m) = message_type (message_at s m) \<and>
     params (message_at s' m) = params (message_at s m) @ as \<and> (\<forall>a. a \<notin> set as \<longrightarrow> param_at s' a = param_at s a) \<and>
     map (described s') as = ps \<and> (\<forall>a \<in> set as. readable s' a)"

lemma reads_described:
  assumes "reads b (mem s b) bs p p'" "param_at s a = p'" "well_formed p"
  shows "described s a = (param_type p, bs)" "readable s a"
  using assms by (auto simp: reads_def described_def octets_of_def well_formed_def readable_def)

lemma pools_ok_put_param:
  assumes "pools_ok s" "a \<in> set (param_ring s pt)" "param_type p = pt" "well_formed p"
  shows "pools_ok (put_param a p s)"
proof -
  have "pt' = pt" if "PARAM_POOL s pt' = Some it" "a \<in> set (upcoming it)" for pt' it
    using pools_okD(3) [OF assms(1), of a pt'] pools_okD(3) [OF assms(1,2)] that by (simp add: param_ring_def)
  then show ?thesis using assms(1,3,4) unfolding pools_ok_def by (auto split: if_splits) (metis option.inject)+
qed

lemma ring_put [simp]: "param_ring (put_param a p s) = param_ring s" "param_ring (put_message m x s) = param_ring s"
  "message_ring (put_param a p s) = message_ring s" "message_ring (put_message m x s) = message_ring s"
  by (simp_all add: param_ring_def message_ring_def fun_eq_iff)

lemma pools_ok_put_message:
  "pools_ok s \<Longrightarrow> message_type x = message_type (message_at s m) \<Longrightarrow> pools_ok (put_message m x s)"
  by (fastforce simp: pools_ok_def)

lemma process_round:
  assumes bp: "bp = byte_pos (message_at s m)" "bp < data_length" "unat bp + 4 < 2 ^ 32"
    and mem: "mem s b = pre @ wire_param (pt, bs) @ post" "length pre = data + unat bp"
    and ok: "pools_ok s" "sound_param (pt, bs)" "a = hd (param_ring s pt)"
  obtains s' where "process_params (Suc fuel) b data data_length m s = process_params fuel b data data_length m s'"
    "mem s' = mem s" "pools_ok s'" "param_ring s' = (param_ring s)(pt := rotate1 (param_ring s pt))"
    "byte_pos (message_at s' m) = bp + of_nat (length (wire_param (pt, bs)))" "params (message_at s' m) = params (message_at s m) @ [a]"
    "message_type (message_at s' m) = message_type (message_at s m)" "\<forall>a'. a' \<noteq> a \<longrightarrow> param_at s' a' = param_at s a'"
    "described s' a = (pt, bs)" "readable s' a"
proof -
  have small: "length bs + 4 < 2 ^ 16" and can: "canonical (new_members pt) bs" using ok(2) by (simp_all add: sound_param_def)
  note h = process_header [OF mem small bp(3)]
  obtain s1 where s1: "request_param pt s = Returns (Some a, s1)" "pools_ok s1" "param_ring s1 = (param_ring s)(pt := rotate1 (param_ring s pt))"
    "mem s1 = mem s" "param_at s1 = param_at s" "message_at s1 = message_at s"
    using request_param_ok [OF ok(1), of pt] ok(3) by metis
  have a: "a \<in> set (param_ring s pt)" "param_type (param_at s a) = pt" "well_formed (param_at s a)"
  proof -
    show "a \<in> set (param_ring s pt)" using pools_okD(2) [OF ok(1)] ok(3) by simp
    then show "param_type (param_at s a) = pt" "well_formed (param_at s a)" using pools_okD(3) [OF ok(1)] by blast+
  qed
  let ?p = "(param_at s a)\<lparr>param_byte_pos := 0\<rparr>"
  have "canonical (members ?p) bs" using can a canonical_class [of "members (param_at s a)" "new_members pt"] by (simp add: well_formed_def)
  then obtain p' where p': "param_init (mem s b) (b, data + unat (bp + 4)) (of_nat (length bs)) ?p = Returns p'" "reads b (mem s b) bs ?p p'"
    using param_init_ok [of ?p bs "data + unat (bp + 4)" "mem s b" b] h(3,4) small by fastforce
  have wf: "param_type p' = pt" "well_formed p'" using p'(2) a by (simp_all add: reads_def well_formed_def)
  let ?x = "(add_parameter (Some a) (message_at s m))\<lparr>byte_pos := bp + 4 + of_nat (length bs + (4 - length bs mod 4) mod 4)\<rparr>"
  define s' where "s' = put_message m ?x (put_param a p' s1)"
  have run: "process_params (Suc fuel) b data data_length m s = process_params fuel b data data_length m s'"
  proof -
    define L where "L = (of_nat (length bs + 4) :: c_int)"
    let ?t = "put_message m (add_parameter (Some a) (message_at s m)) (put_param a p' s1)"
    have l: "L - 4 = of_nat (length bs)" by (simp add: L_def)
    have "process_params (Suc fuel) b data data_length m s =
        process_params fuel b data data_length m
          (put_message m ((message_at ?t m)\<lparr>byte_pos := bp + 4 + (L + (if L mod 4 > 0 then 4 - L mod 4 else 0) - 4)\<rparr>) ?t)"
      unfolding process_params.simps [of "Suc fuel"] bp(1) [symmetric] Let_def
      using bp(2) h(1,2) [folded L_def] s1 p'(1) by (simp add: l)
    also have "\<dots> = process_params fuel b data data_length m s'"
      unfolding L_def round_advance [OF small] by (simp add: s'_def put_message_def)
    finally show ?thesis .
  qed
  have "pools_ok (put_param a p' s1)"
    using s1(2) a(1) s1(3) wf by (intro pools_ok_put_param) auto
  then have "pools_ok s'" unfolding s'_def by (rule pools_ok_put_message) (simp add: s1(6) add_parameter_def)
  moreover have "described s' a = (param_type ?p, bs)" "readable s' a"
    using p'(2) a by (intro reads_described [of b _ _ ?p p']; simp add: s'_def s1(4) well_formed_def)+
  ultimately show thesis
    using run a by (intro that [of s']) (simp_all add: s'_def s1 add_parameter_def length_wire_param)
qed

lemma content_mem: "mem s' = mem s \<Longrightarrow> content s' p = content s p"
proof -
  assume "mem s' = mem s"
  then have "peek s' = peek s" by (intro ext) (auto simp: peek_def split: option.splits)
  then show ?thesis by (cases "members p") (simp_all add: content_def)
qed

lemma process_params_ok:
  assumes "byte_pos (message_at s m) = of_nat k" "data_length = of_nat (k + length (wire_params ps))" "k + length (wire_params ps) < 2 ^ 31"
    "mem s b = pre @ wire_params ps @ post" "length pre = data + k" "pools_ok s" "\<forall>x \<in> set ps. sound_param x"
    "\<forall>pt. count_list (map fst ps) pt \<le> length (param_ring s pt)" "length ps \<le> fuel"
  shows "\<exists>s'. process_params fuel b data data_length m s = Returns s' \<and>
    decoded_into s m (hand_out (param_ring s) (map fst ps)) ps s'"
  using assms
proof (induction ps arbitrary: fuel s k pre)
  case Nil
  then show ?case by (simp add: process_params.simps [of fuel] decoded_into_def)
next
  case (Cons x ps)
  obtain pt bs where x: "x = (pt, bs)" by (cases x)
  obtain fuel' where fuel: "fuel = Suc fuel'" "length ps \<le> fuel'" using Cons.prems(9) by (cases fuel) auto
  let ?bp = "of_nat k :: u32" and ?w = "wire_param (pt, bs)"
  have u: "unat ?bp = k" using Cons.prems(3) by (intro unat_of_nat_32) simp
  have less: "?bp < data_length"
    unfolding word_less_nat_alt u Cons.prems(2) using Cons.prems(3) x length_wire_param [of pt bs] by (subst unat_of_nat_32) auto
  let ?a = "hd (param_ring s pt)"
  have b4: "unat ?bp + 4 < 2 ^ 32" using u Cons.prems(3) by simp
  have w: "mem s b = pre @ ?w @ (wire_params ps @ post)" and sound: "sound_param (pt, bs)" using Cons.prems(4,7) x by simp_all
  obtain s1 where s1: "process_params (Suc fuel') b data data_length m s = process_params fuel' b data data_length m s1"
    "mem s1 = mem s" "pools_ok s1" "param_ring s1 = (param_ring s)(pt := rotate1 (param_ring s pt))"
    "byte_pos (message_at s1 m) = ?bp + of_nat (length ?w)" "params (message_at s1 m) = params (message_at s m) @ [?a]"
    "message_type (message_at s1 m) = message_type (message_at s m)" "\<forall>a'. a' \<noteq> ?a \<longrightarrow> param_at s1 a' = param_at s a'"
    "described s1 ?a = (pt, bs)" "readable s1 ?a"
    by (rule process_round [OF Cons.prems(1) [symmetric] less b4 w _ Cons.prems(6) sound refl]) (use u Cons.prems(5) in auto)
  let ?as = "hand_out (param_ring s1) (map fst ps)"
  have "\<exists>s'. process_params fuel' b data data_length m s1 = Returns s' \<and> decoded_into s1 m ?as ps s'"
  proof (rule Cons.IH)
    show "byte_pos (message_at s1 m) = of_nat (k + length ?w)" using s1(5) by simp
    show "mem s1 b = (pre @ ?w) @ wire_params ps @ post" using Cons.prems(4) s1(2) x by simp
    show "\<forall>pt'. count_list (map fst ps) pt' \<le> length (param_ring s1 pt')"
    proof
      fix pt'
      have "count_list (map fst (x # ps)) pt' \<le> length (param_ring s pt')" using Cons.prems(8) by blast
      then show "count_list (map fst ps) pt' \<le> length (param_ring s1 pt')" using x s1(4) by (simp split: if_splits)
    qed
  qed (use Cons.prems x s1 fuel in \<open>simp_all add: ac_simps\<close>)
  then obtain s' where s': "process_params fuel' b data data_length m s1 = Returns s'" "decoded_into s1 m ?as ps s'" by blast
  have "?a \<notin> set ?as"
    unfolding s1(4) using pools_disjoint [OF Cons.prems(6)] Cons.prems(8) x by (intro hand_out_fresh) simp_all
  then have "param_at s' ?a = param_at s1 ?a" using s'(2) by (simp add: decoded_into_def)
  moreover have "mem s' = mem s1" using s'(2) by (simp add: decoded_into_def)
  ultimately have "described s' ?a = (pt, bs)" "readable s' ?a"
    using s1(9,10) content_mem [of s' s1] by (simp_all add: described_def octets_of_def readable_def)
  then have "decoded_into s m (?a # ?as) ((pt, bs) # ps) s'"
    using s'(2) s1 by (simp add: decoded_into_def)
  then show ?case using s' s1(1,4) fuel(1) x by (simp add: s1(4))
qed

section \<open>Packets\<close>

lemma decode_wire:
  assumes w: "w = wire_packet mt ps" "mem r b = pre @ w @ post" "length pre = data" "length w < 2 ^ 31"
    and ok: "pools_ok r" "\<forall>x \<in> set ps. sound_param x" "\<forall>pt. count_list (map fst ps) pt \<le> length (param_ring r pt)" "length ps \<le> fuel"
  shows "\<exists>pkt' r' m as. m3ua_decode fuel b data (of_nat (length w)) pkt r = Returns (0, pkt', r') \<and>
    version pkt' = 1 \<and> packet_type pkt' = mt_value mt \<and> message_length pkt' = of_nat (length w) \<and> message pkt' = Some m \<and>
    message_type (message_at r' m) = mt \<and> params (message_at r' m) = as \<and> map (described r') as = ps \<and>
    (\<forall>a \<in> set as. readable r' a) \<and> mem r' = mem r \<and> pools_ok r'"
proof -
  let ?ps = "wire_params ps" and ?m = "mem r b"
  let ?c = "ucast (drop_bit 8 (mt_value mt)) :: u8" and ?t = "ucast (mt_value mt) :: u8" and ?len = "of_nat (8 + length ?ps) :: c_int"
  have we: "w = [1, 0, ?c, ?t] @ be32 ?len @ ?ps" and lw: "length w = 8 + length ?ps"
    using w(1) by (simp_all add: wire_packet_def)
  have m: "?m = pre @ [1, 0, ?c, ?t] @ be32 ?len @ ?ps @ post" using w(2) we by simp
  have bytes: "byte_at ?m data = Returns 1" "byte_at ?m (data + 2) = Returns ?c" "byte_at ?m (data + 3) = Returns ?t"
    using w(3) by (simp_all add: m byte_at_def nth_append)
  have "?m = (pre @ [1, 0, ?c, ?t]) @ be32 ?len @ (?ps @ post)" "data + 4 = length (pre @ [1, 0, ?c, ?t])"
    using m w(3) by simp_all
  then have len: "get32 ?m (data + 4) = Returns ?len" using get32_be32 by metis
  have code: "push_bit 8 (ucast ?c AND 0xff) + (ucast ?t AND 0xff) = mt_value mt" by (cases mt) simp_all
  have big: "sint (of_nat (length w) :: c_int) \<ge> 8" using w(4) lw by (simp only: sint_of_nat_small)
  have "unat ?len = 8 + length ?ps" using w(4) lw by (intro unat_of_nat_32) simp
  then have pos: "?len > 0" unfolding word_less_nat_alt by simp
  obtain r1 where r1: "request_message mt r = Returns (Some (hd (message_ring r mt)), r1)" "pools_ok r1"
    "param_ring r1 = param_ring r" "mem r1 = mem r" "param_at r1 = param_at r" "message_at r1 = message_at r"
    using request_message_ok [OF ok(1)] by blast
  let ?h = "hd (message_ring r mt)"
  have mt: "message_type (message_at r ?h) = mt" using pools_okD(4,5) [OF ok(1)] by simp
  let ?r = "put_message ?h (m3ua_clear_params ((message_at r1 ?h)\<lparr>byte_pos := 0\<rparr>)) r1"
  have r2: "pools_ok ?r" using r1(2) by (rule pools_ok_put_message) (simp add: m3ua_clear_params_def)
  let ?as = "hand_out (param_ring r) (map fst ps)" and ?dl = "of_nat (length ?ps) :: u32"
  have sub: "of_nat (length w) - 8 = ?dl" using lw by simp
  have "\<exists>r'. process_params fuel b (data + 8) ?dl ?h ?r = Returns r' \<and> decoded_into ?r ?h ?as ps r'"
    unfolding r1(3) [symmetric]
    using w(4) lw m r2 ok r1(3,4) w(3)
    by (intro process_params_ok [where k = 0 and pre = "pre @ [1, 0, ?c, ?t] @ be32 ?len", of ?r ?h ?dl ps b post "data + 8" fuel, unfolded ring_put])
      (simp_all add: m3ua_clear_params_def)
  then obtain r' where r': "process_params fuel b (data + 8) ?dl ?h ?r = Returns r'" "decoded_into ?r ?h ?as ps r'" by blast
  have init: "init_message_params fuel b (data + 8) ?dl ?h ?r = Returns r'"
  proof (cases "?dl > 0")
    case True
    then show ?thesis using r'(1) by (simp add: init_message_params_def)
  next
    case False
    have "byte_pos (message_at ?r ?h) = 0" by (simp add: m3ua_clear_params_def)
    then have "process_params fuel b (data + 8) ?dl ?h ?r = Returns ?r" using False by (simp add: process_params.simps [of fuel])
    then show ?thesis using False r'(1) by (simp add: init_message_params_def)
  qed
  define pkt' where "pkt' = pkt\<lparr>version := 1, message_class := ucast ?c AND 0xff, packet_type := mt_value mt, message_length := ?len, message := Some ?h\<rparr>"
  have "m3ua_decode fuel b data (of_nat (length w)) pkt r = Returns (0, pkt', r')"
    unfolding m3ua_decode_def sub using big bytes len pos r1(1) init by (simp add: code pkt'_def del: push_bit_and)
  then show ?thesis
    using r'(2) mt lw r1(4,6) by (intro exI [of _ pkt'] exI [of _ r'] exI [of _ ?h] exI [of _ ?as]) (simp add: pkt'_def decoded_into_def m3ua_clear_params_def)
qed

section \<open>Members from octets\<close>

text \<open>What a parameter says, without where it is: type, members and value.\<close>

definition erase :: "param_members \<Rightarrow> param_members" where
  "erase ms = (case ms of ProtocolData d \<Rightarrow> ProtocolData (d\<lparr>user_protocol_data := None\<rparr>) | _ \<Rightarrow> ms)"

definition meaning :: "m3ua_state \<Rightarrow> nat \<Rightarrow> ParameterType \<times> param_members \<times> u8 list" where
  "meaning s a = (param_type (param_at s a), erase (members (param_at s a)), octets_of s (param_at s a))"

lemma get_be: "get32 (be32 v) 0 = Returns v" "get16 (be16 v) 0 = Returns (v AND 0xffff)"
  using get32_be32 [of "[]" v "[]"] get16_be16 [of "[]" v "[]"] by simp_all

lemma be32_inject: "be32 v = be32 w \<longleftrightarrow> v = w"
  using get_be(1) [of v] get_be(1) [of w] by (metis outcome.inject)

lemma be16_inject: "be16 v = be16 w \<Longrightarrow> v AND 0xffff = w AND 0xffff"
  using get_be(2) [of v] get_be(2) [of w] by simp

lemma octet_inject: "ucast v = (ucast w :: u8) \<Longrightarrow> (v::c_int) AND 0xff = v \<Longrightarrow> w AND 0xff = w \<Longrightarrow> v = w"
proof -
  assume *: "ucast v = (ucast w :: u8)" "v AND 0xff = v" "w AND 0xff = w"
  have m: "(0xff::c_int) = mask 8" by (simp add: mask_eq_exp_minus_1)
  have "(ucast (ucast v :: u8) :: c_int) = v AND 0xff" for v :: c_int
    unfolding m by (rule bit_word_eqI) (auto simp: bit_simps)
  then show "v = w" using * by metis
qed

lemma labelD:
  assumes "label_octets d = Returns lb"
  obtains opc dpc si ni mp sls where "d = \<lparr>service_indicator = Some si, network_indicator = Some ni, message_priority = Some mp,
      destination_point_code = Some dpc, originating_point_code = Some opc, signalling_link_selection_code = Some sls,
      user_protocol_data_length = user_protocol_data_length d, user_protocol_data = user_protocol_data d\<rparr>"
    "lb = be32 opc @ be32 dpc @ [ucast si, ni, mp, sls]"
  using assms by (cases d) (auto simp: label_octets_def the_ptr_def split: option.splits)

lemma label_inject:
  assumes l: "label_octets d = Returns lb" "label_octets e = Returns lb"
    and r: "\<And>si. service_indicator d = Some si \<Longrightarrow> si AND 0xff = si" "\<And>si. service_indicator e = Some si \<Longrightarrow> si AND 0xff = si"
    and len: "user_protocol_data_length d = user_protocol_data_length e"
  shows "d\<lparr>user_protocol_data := None\<rparr> = e\<lparr>user_protocol_data := None\<rparr>"
proof -
  obtain opc dpc si ni mp sls where d: "d = \<lparr>service_indicator = Some si, network_indicator = Some ni, message_priority = Some mp,
      destination_point_code = Some dpc, originating_point_code = Some opc, signalling_link_selection_code = Some sls,
      user_protocol_data_length = user_protocol_data_length d, user_protocol_data = user_protocol_data d\<rparr>"
    and lb: "lb = be32 opc @ be32 dpc @ [ucast si, ni, mp, sls]" using l(1) by (rule labelD)
  obtain opc' dpc' si' ni' mp' sls' where e: "e = \<lparr>service_indicator = Some si', network_indicator = Some ni', message_priority = Some mp',
      destination_point_code = Some dpc', originating_point_code = Some opc', signalling_link_selection_code = Some sls',
      user_protocol_data_length = user_protocol_data_length e, user_protocol_data = user_protocol_data e\<rparr>"
    and lb': "lb = be32 opc' @ be32 dpc' @ [ucast si', ni', mp', sls']" using l(2) by (rule labelD)
  have "service_indicator d = Some si" "service_indicator e = Some si'" by (subst d, simp) (subst e, simp)
  then have "si AND 0xff = si" "si' AND 0xff = si'" using r by auto
  moreover have "opc = opc'" "dpc = dpc'" "ucast si = (ucast si' :: u8)" "ni = ni'" "mp = mp'" "sls = sls'"
    using lb lb' by (simp_all add: be32_inject)
  ultimately have "si = si'" using octet_inject by blast
  show ?thesis by (subst d, subst e) (simp add: \<open>si = si'\<close> \<open>opc = opc'\<close> \<open>dpc = dpc'\<close> \<open>ni = ni'\<close> \<open>mp = mp'\<close> \<open>sls = sls'\<close> len)
qed

lemma members_determined:
  assumes "content s p = Some bs" "content s' p' = Some bs" "regular p" "regular p'" "member_class (members p) = member_class (members p')"
  shows "erase (members p) = erase (members p')"
proof (cases "members p")
  case (ProtocolData d)
  then obtain e where e: "members p' = ProtocolData e" using assms(5) by (cases "members p'") auto
  obtain lb us where d: "label_octets d = Returns lb" "peek s (user_protocol_data d) (user_protocol_data_length d) = Some us" "bs = lb @ us"
    using assms(1) ProtocolData by (auto simp: content_def split: outcome.splits option.splits)
  obtain lb' us' where e': "label_octets e = Returns lb'" "peek s' (user_protocol_data e) (user_protocol_data_length e) = Some us'" "bs = lb' @ us'"
    using assms(2) e by (auto simp: content_def split: outcome.splits option.splits)
  have "length lb = length lb'" using label_octets_length [OF d(1)] label_octets_length [OF e'(1)] by simp
  then have "lb = lb'" "us = us'" using d(3) e'(3) by simp_all
  have r: "\<And>si. service_indicator d = Some si \<Longrightarrow> si AND 0xff = si" "\<And>si. service_indicator e = Some si \<Longrightarrow> si AND 0xff = si"
    using assms(3,4) ProtocolData e by (auto simp: regular_def)
  have "user_protocol_data_length d = user_protocol_data_length e"
    using peekD(4) [OF d(2)] peekD(4) [OF e'(2)] \<open>us = us'\<close> by simp
  then have "d\<lparr>user_protocol_data := None\<rparr> = e\<lparr>user_protocol_data := None\<rparr>"
    using d(1) e'(1) \<open>lb = lb'\<close> r by (intro label_inject) simp_all
  then show ?thesis using ProtocolData e by (simp add: erase_def)
next
  case (CongestionIndications v)
  then obtain w where w: "members p' = CongestionIndications w" using assms(5) by (cases "members p'") auto
  have "ucast v = (ucast w :: u8)" using assms(1,2) CongestionIndications w by (auto simp: content_def CongestionIndications_octets_def)
  moreover have "v AND 0xff = v" "w AND 0xff = w" using assms(3,4) CongestionIndications w by (simp_all add: regular_def)
  ultimately have "v = w" by (rule octet_inject)
  then show ?thesis using CongestionIndications w by simp
next
  case (Status t i)
  then obtain t' i' where s: "members p' = Status t' i'" using assms(5) by (cases "members p'") auto
  have "be16 t = be16 t' \<and> be16 i = be16 i'" using assms(1,2) Status s by (auto simp: content_def Status_octets_def)
  then have m: "t AND 0xffff = t' AND 0xffff" "i AND 0xffff = i' AND 0xffff" using be16_inject by blast+
  have r: "t AND 0xffff = t" "i = push_bit 16 t + (i AND 0xffff)" "t' AND 0xffff = t'" "i' = push_bit 16 t' + (i' AND 0xffff)"
    using assms(3,4) Status s by (simp_all add: regular_def)
  have "t = t'" using m(1) r(1,3) by simp
  moreover have "i = i'" using m(2) r(2,4) \<open>t = t'\<close> by metis
  ultimately show ?thesis using Status s by simp
next
  case (UserCause u c)
  then obtain u' c' where s: "members p' = UserCause u' c'" using assms(5) by (cases "members p'") auto
  have "be16 u = be16 u' \<and> be16 c = be16 c'" using assms(1,2) UserCause s by (auto simp: content_def UserCause_octets_def)
  then have m: "u AND 0xffff = u' AND 0xffff" "c AND 0xffff = c' AND 0xffff" using be16_inject by blast+
  have "u AND 0xffff = u" "u' AND 0xffff = u'" "c AND 0xffff = c" "c' AND 0xffff = c'"
    using assms(3,4) UserCause s by (simp_all add: regular_def)
  then have "u = u'" "c = c'" using m by metis+
  then show ?thesis using UserCause s by simp
qed (use assms in \<open>cases "members p'"; auto simp: content_def be32_inject erase_def\<close>)+

end
