(* ===== verification/M3ua_Pools.thy ===== *)
theory M3ua_Pools
  imports M3ua_Roundtrip
begin

text \<open>
  The pools \<open>init_pool\<close> makes, and the properties of the codec on them.
\<close>

section \<open>Making the pools\<close>

text \<open>The pools of some types are made, with their objects below the next fresh address.\<close>

definition made :: "MessageType set \<Rightarrow> ParameterType set \<Rightarrow> m3ua_state \<Rightarrow> bool" where
  "made M P s \<longleftrightarrow>
     stocked (MESSAGE_POOL s) M (message_count s) (fresh s) (\<lambda>a mt. message_type (message_at s a) = mt) \<and>
     stocked (PARAM_POOL s) P (param_count s) (fresh s) (\<lambda>a pt. param_type (param_at s a) = pt \<and> well_formed (param_at s a))"

lemma madeD:
  assumes "made M P s"
  shows "stocked (MESSAGE_POOL s) M (message_count s) (fresh s) (\<lambda>a mt. message_type (message_at s a) = mt)"
    "stocked (PARAM_POOL s) P (param_count s) (fresh s) (\<lambda>a pt. param_type (param_at s a) = pt \<and> well_formed (param_at s a))"
  using assms by (simp_all add: made_def)

lemma init_message_made:
  assumes "0 < message_count s" "made M P s"
  obtains s' where "init_message mt s = Returns s'" "made (insert mt M) P s'" "message_count s' = message_count s"
    "param_count s' = param_count s" "mem s' = mem s"
proof -
  note m = madeD [OF assms(2)]
  obtain it where it: "init_item_pool (fresh s) (set_item_pool_size (message_count s) PoolItem_new) = Returns it" "item_ok it"
    "item_pool it = [fresh s..<fresh s + nat (message_count s)]" "total_count it = message_count s"
    using assms(1) by (rule init_item_pool_ok)
  then have new: "set (upcoming it) = {fresh s..<fresh s + nat (message_count s)}"
    "set (item_pool it) = {fresh s..<fresh s + nat (message_count s)}" using upcoming_simps(2) [OF it(2)] by simp_all
  let ?s = "s\<lparr>message_at := (\<lambda>a. if a \<in> set (item_pool it) then create_message mt else message_at s a),
       fresh := fresh s + length (item_pool it), MESSAGE_POOL := (MESSAGE_POOL s)(mt := Some it)\<rparr>"
  have "stocked ((MESSAGE_POOL s)(mt := Some it)) (insert mt M) (message_count s) (fresh s + nat (message_count s))
      (\<lambda>a mt. message_type (message_at ?s a) = mt)"
    by (rule stocked_insert [OF m(1)]) (simp_all add: it(2-) new ivl_below create_message_def)
  moreover have "stocked (PARAM_POOL s) P (param_count s) (fresh s + nat (message_count s))
      (\<lambda>a pt. param_type (param_at s a) = pt \<and> well_formed (param_at s a))"
    by (rule stocked_frame [OF m(2)]) simp_all
  ultimately have "made (insert mt M) P ?s" using it(3) by (simp add: made_def)
  then show thesis using it(1) by (intro that [of ?s]) (simp_all add: init_message_def)
qed

lemma init_param_made:
  assumes "0 < param_count s" "made M P s"
  obtains s' where "init_param pt s = Returns s'" "made M (insert pt P) s'" "param_count s' = param_count s" "mem s' = mem s"
proof -
  note m = madeD [OF assms(2)]
  obtain it where it: "init_item_pool (fresh s) (set_item_pool_size (param_count s) PoolItem_new) = Returns it" "item_ok it"
    "item_pool it = [fresh s..<fresh s + nat (param_count s)]" "total_count it = param_count s" using assms(1) by (rule init_item_pool_ok)
  then have new: "set (upcoming it) = {fresh s..<fresh s + nat (param_count s)}"
    "set (item_pool it) = {fresh s..<fresh s + nat (param_count s)}" using upcoming_simps(2) [OF it(2)] by simp_all
  let ?s = "s\<lparr>param_at := (\<lambda>a. if a \<in> set (item_pool it) then create_param pt else param_at s a),
       fresh := fresh s + length (item_pool it), PARAM_POOL := (PARAM_POOL s)(pt := Some it)\<rparr>"
  have cr: "param_type (create_param pt) = pt" "well_formed (create_param pt)"
    by (simp_all add: create_param_def M3UAParam_new_def well_formed_def)
  have "stocked (MESSAGE_POOL s) M (message_count s) (fresh s + nat (param_count s)) (\<lambda>a mt. message_type (message_at s a) = mt)"
    by (rule stocked_frame [OF m(1)]) simp_all
  moreover have "stocked ((PARAM_POOL s)(pt := Some it)) (insert pt P) (param_count s) (fresh s + nat (param_count s))
      (\<lambda>a pt. param_type (param_at ?s a) = pt \<and> well_formed (param_at ?s a))"
    by (rule stocked_insert [OF m(2)]) (simp_all add: it(2-) new ivl_below cr)
  ultimately have "made M (insert pt P) ?s" using it(3) by (simp add: made_def)
  then show thesis using it(1) by (intro that [of ?s]) (simp_all add: init_param_def)
qed

lemma init_messages_made:
  "0 < message_count s \<Longrightarrow> made M P s \<Longrightarrow>
    \<exists>s'. init_all init_message mts s = Returns s' \<and> made (M \<union> set mts) P s' \<and> param_count s' = param_count s \<and> mem s' = mem s"
proof (induction mts arbitrary: s M)
  case Nil
  then show ?case by auto
next
  case (Cons mt mts)
  obtain s1 where s1: "init_message mt s = Returns s1" "made (insert mt M) P s1" "message_count s1 = message_count s"
    "param_count s1 = param_count s" "mem s1 = mem s" using Cons.prems by (rule init_message_made)
  then show ?case using Cons.IH [of s1 "insert mt M"] Cons.prems by (auto simp: insert_commute)
qed

lemma init_params_made:
  "0 < param_count s \<Longrightarrow> made M P s \<Longrightarrow>
    \<exists>s'. init_all init_param pts s = Returns s' \<and> made M (P \<union> set pts) s' \<and> param_count s' = param_count s \<and> mem s' = mem s"
proof (induction pts arbitrary: s P)
  case Nil
  then show ?case by auto
next
  case (Cons pt pts)
  obtain s1 where s1: "init_param pt s = Returns s1" "made M (insert pt P) s1" "param_count s1 = param_count s" "mem s1 = mem s"
    using Cons.prems by (rule init_param_made)
  then show ?case using Cons.IH [of s1 "insert pt P"] Cons.prems by auto
qed

lemma all_types: "mt \<in> set message_types" "pt \<in> set parameter_types"
  by (cases mt; simp add: message_types_def) (cases pt; simp add: parameter_types_def)

lemma m3ua_init_pool_ok:
  assumes "0 < param_count s" "0 < message_count s"
  obtains s' where "m3ua_init_pool s = Returns s'" "pools_ok s'" "\<And>pt. length (param_ring s' pt) = nat (param_count s)" "mem s' = mem s"
proof -
  have "made {} {} s" by (simp add: made_def stocked_def)
  then obtain s1 where s1: "init_all init_message message_types s = Returns s1" "made (set message_types) {} s1"
    "param_count s1 = param_count s" "mem s1 = mem s" using init_messages_made [OF assms(2)] by force
  obtain s2 where s2: "init_all init_param parameter_types s1 = Returns s2" "made (set message_types) (set parameter_types) s2"
    "param_count s2 = param_count s" "mem s2 = mem s" using init_params_made [of s1 "set message_types" "{}"] assms(1) s1 by force
  have "pools_ok s2" using s2(2) all_types unfolding pools_ok_def made_def stocked_def by blast
  moreover have "length (param_ring s2 pt) = nat (param_count s)" for pt
  proof -
    obtain it where "PARAM_POOL s2 pt = Some it" "item_ok it" "total_count it = param_count s2"
      using s2(2) all_types unfolding made_def stocked_def by blast
    then show ?thesis using upcoming_simps(3) s2(3) by (simp add: param_ring_def)
  qed
  ultimately show thesis using s1 s2 by (intro that [of s2]) (simp_all add: m3ua_init_pool_def)
qed

section \<open>When the loop ends\<close>

lemma no_fuel [simp]: "byte_at bs q \<noteq> OutOfFuel" "get16 bs q \<noteq> OutOfFuel" "get32 bs q \<noteq> OutOfFuel" "ptr_add q n \<noteq> OutOfFuel"
  by (simp_all add: byte_at_def get16_def get32_def ptr_add_def guard_def and_then_fuel_iff)

lemma param_init_no_fuel: "param_init bs data n p \<noteq> OutOfFuel"
  by (simp add: param_init_def CongestionIndications_init_def CorrelationId_init_def ErrorCode_init_def NetworkAppearance_init_def
      ProtocolData_init_def RoutingContext_init_def Status_init_def TrafficModeType_init_def UserCause_init_def Let_def and_then_fuel_iff
      split: param_members.split)

lemma request_no_fuel: "request_item it \<noteq> OutOfFuel" "request_param pt s \<noteq> OutOfFuel"
  by (auto simp: request_item_def item_at_def guard_def Let_def and_then_fuel_iff request_param_def split: option.splits)

lemma request_param_keeps:
  "request_param pt s = Returns (a, s') \<Longrightarrow> mem s' = mem s \<and> message_at s' = message_at s"
  by (auto simp: request_param_def and_then_Returns_iff split: option.splits)

lemma get16_range: "get16 bs q = Returns l \<Longrightarrow> unat l < 2 ^ 16"
proof -
  assume "get16 bs q = Returns l"
  then obtain a b where l: "l = octet2 a b"
    by (auto simp: get16_def byte_at_def octet_sum2 octet2_def split: if_splits)
  have "l AND (2 ^ 16 - 1) = l" using be16_octet2(2) [of a b] l by simp
  then have "unat l = unat l mod 2 ^ 16" using unat_and_mask [of 16 l] by simp
  then show ?thesis by (metis mod_less_divisor zero_less_numeral zero_less_power)
qed

lemma advance_by:
  assumes "0 < unat (l::c_int)" "unat l < 2 ^ 16"
  shows "4 + (l + (if l mod 4 > 0 then 4 - l mod 4 else 0) - 4) = of_nat (4 * ((unat l + 3) div 4))"
proof -
  obtain n where n: "unat l = n" by blast
  have "of_nat (unat l) = l" by simp
  then have l: "l = of_nat n" using n by simp
  have m: "l mod 4 = of_nat (n mod 4)" by (simp add: word_unat_eq_iff unat_mod n unat_of_nat_32 [OF less_trans [of _ 4]])
  have "(\<exists>k. n = 4 * k) \<or> (\<exists>k. n = 4 * k + 1) \<or> (\<exists>k. n = 4 * k + 2) \<or> (\<exists>k. n = 4 * k + 3)" by presburger
  then consider k where "n = 4 * k" | k where "n = 4 * k + 1" | k where "n = 4 * k + 2" | k where "n = 4 * k + 3" by blast
  then show ?thesis
  proof cases
    case (3 k)
    have "Suc (Suc (4 * k)) mod 4 = 2" by presburger
    then show ?thesis unfolding m n using 3 by (simp add: l)
  qed (unfold m n, simp_all add: l)
qed

text \<open>A round without a zero length moves by a positive multiple of four.\<close>

lemma process_params_fuel:
  assumes "byte_pos (message_at s m) = of_nat (4 * j)" "4 * j < 2 ^ 32" "unat data_length < 2 ^ 31"
    "\<forall>k. get16 (mem s b) (data + 4 * k + 2) \<noteq> Returns 0" "unat data_length \<le> 4 * j + 4 * fuel"
  shows "process_params fuel b data data_length m s \<noteq> OutOfFuel"
  using assms
proof (induction fuel arbitrary: s j)
  case 0
  have "unat (of_nat (4 * j) :: u32) = 4 * j" using 0 by (intro unat_of_nat_32)
  then show ?case using 0 by (simp add: process_params.simps [of 0] word_less_nat_alt)
next
  case (Suc fuel)
  let ?bp = "of_nat (4 * j) :: u32"
  have u: "unat ?bp = 4 * j" using Suc.prems(2) by (intro unat_of_nat_32)
  show ?case
  proof (cases "?bp < data_length")
    case False
    then show ?thesis using Suc.prems(1) by (simp add: process_params.simps [of "Suc fuel"])
  next
    case True
    then have j: "4 * j < unat data_length" using u by (simp add: word_less_nat_alt)
    then have u2: "unat (?bp + 2) = 4 * j + 2" using u Suc.prems(3) by (simp add: unat_word_ariths)
    show ?thesis
    proof (cases "get16 (mem s b) (data + unat (?bp + 2))")
      case (Returns l)
      have "l \<noteq> 0" using Suc.prems(4) Returns u2 by (metis add.assoc)
      then have l: "0 < unat l" "unat l < 2 ^ 16" using get16_range [OF Returns] by (auto simp: unat_gt_0)
      have "4 div 4 \<le> (unat l + 3) div 4" using l(1) by (intro div_le_mono) simp
      then have ge: "1 \<le> (unat l + 3) div 4" by simp
      let ?j = "j + (unat l + 3) div 4"
      have next_state: "process_params fuel b data data_length m s' \<noteq> OutOfFuel"
        if "mem s' = mem s" "byte_pos (message_at s' m) = ?bp + 4 + (l + (if l mod 4 > 0 then 4 - l mod 4 else 0) - 4)" for s'
      proof (rule Suc.IH)
        have "byte_pos (message_at s' m) = ?bp + of_nat (4 * ((unat l + 3) div 4))"
          using that(2) advance_by [OF l] by (simp only: add.assoc)
        then show "byte_pos (message_at s' m) = of_nat (4 * ?j)" by simp
        show "4 * ?j < 2 ^ 32" using j l Suc.prems(3) by simp
        show "unat data_length \<le> 4 * ?j + 4 * fuel" using Suc.prems(5) ge by simp
      qed (use that Suc.prems in auto)
      show ?thesis
        unfolding process_params.simps [of "Suc fuel"] Suc.prems(1) Let_def
        using True Returns next_state
        by (auto simp: and_then_fuel_iff and_then_Returns_iff param_init_no_fuel request_no_fuel add_parameter_def
            split: option.splits if_splits dest!: request_param_keeps)
    qed (use True Suc.prems(1) in \<open>simp_all add: process_params.simps [of "Suc fuel"] and_then_fuel_iff\<close>)
  qed
qed

lemma process_params_stuck:
  assumes "bp = byte_pos (message_at s m)" "bp < data_length" "get16 (mem s b) (data + unat bp) = Returns tag" "pt_of tag = None"
    "get16 (mem s b) (data + unat (bp + 2)) = Returns 0"
  shows "process_params fuel b data data_length m s = OutOfFuel"
proof (induction fuel)
  case 0
  then show ?case using assms(1,2) by (simp add: process_params.simps [of 0])
next
  case (Suc fuel)
  have "put_message m ((message_at s m)\<lparr>byte_pos := bp\<rparr>) s = s" using assms(1) by (simp add: put_message_def)
  then show ?case
    unfolding process_params.simps [of "Suc fuel"] assms(1) [symmetric] Let_def using assms(2-) Suc.IH by simp
qed

end
