(* ===== verification/M3ua_Properties.thy ===== *)
theory M3ua_Properties
  imports M3ua_Pools
begin

text \<open>
  What the M3UA codec promises to its callers, over the model of \<open>M3ua\<close>: packets survive the
  way through \<open>encode\<close> and \<open>decode\<close>, the octets are those of the RFC, \<open>decode\<close> ends unless a
  parameter claims to be empty, and pools give the same objects again and again.
\<close>

section \<open>Mandatory parameters\<close>

lemma check_mandatory_types:
  assumes "map (\<lambda>a. param_type (param_at s a)) (params x) = map (\<lambda>a. param_type (param_at s' a)) (params x')"
    "message_type x = message_type x'"
  shows "check_mandatory s x = check_mandatory s' x'"
proof -
  have g: "get_parameter pt s x \<noteq> None \<longleftrightarrow> pt \<in> set (map (\<lambda>a. param_type (param_at s a)) (params x))" for pt s x
    by (auto simp: get_parameter_def find_None_iff)
  show ?thesis unfolding check_mandatory_def g assms ..
qed

section \<open>Status\<close>

text \<open>
  \<open>set_status\<close> takes the type from the wrong octets: \<open>AS_INACTIVE\<close>, which is type 1 with
  information 2, is sent as type 256.
\<close>

lemma set_status_octets: "octets_of s (param_at (set_status a 0x10002 s) a) = [1, 0, 0, 2]"
proof -
  have "signed_drop_bit 8 (0x10002::c_int) = 0x100" by code_simp
  then show ?thesis by (simp add: octets_of_def content_def set_status_def set_members_def Status_octets_def be16_def)
qed

section \<open>Wire format\<close>

text \<open>
  C10. \<open>encode\<close> of a packet writes the octets of RFC 3332 at the offset and changes nothing else
  in any buffer: version, class, type, total length, and each parameter with tag, length and
  padding. The bound it respects is \<open>buffer_length + 4\<close>: a packet up to four octets longer than
  the buffer is told to be is still written in full.
\<close>

theorem m3ua_encode_wire:
  assumes "version pkt = 1" "message_class pkt = drop_bit 8 (mt_value mt)" "packet_type pkt = mt_value mt"
    and "message pkt = Some m" "\<forall>a \<in> set (params (message_at s m)). encodable s b (param_at s a)"
    and "w = wire_packet mt (map (described s) (params (message_at s m)))"
    and "off < 2 ^ 31" "length w \<le> buffer_length + 4" "buffer_length < 2 ^ 31" "buffer + off + length w \<le> length (mem s b)"
  shows "\<exists>s'. M3UAPacket_encode b buffer (of_nat buffer_length) (of_nat off) pkt s = Returns (of_nat (length w), s') \<and>
    mem s' = (mem s)(b := overwrite (mem s b) (buffer + off) w) \<and> message_at s' = message_at s"
proof -
  obtain s' where s': "M3UAPacket_encode b buffer (of_nat buffer_length) (of_nat off) pkt s = Returns (of_nat (length w), s')"
    "mem s' b = overwrite (mem s b) (buffer + off) w" "kept s b s'"
    using M3UAPacket_encode_ok [OF assms(1-4) refl assms(5-10)] by blast
  then have "mem s' = (mem s)(b := overwrite (mem s b) (buffer + off) w)" "message_at s' = message_at s"
    by (auto simp: kept_def)
  with s'(1) show ?thesis by blast
qed

text \<open>A packet of sixteen octets written through a buffer said to have twelve.\<close>

definition small_state :: m3ua_state where
  "small_state =
     \<lparr>mem = (\<lambda>_. replicate 20 9), param_at = (\<lambda>_. M3UAParam_new M3UA_PT_NETWORK_APPEARANCE (NetworkAppearance 7)),
      message_at = (\<lambda>_. add_parameter (Some 0) (create_message BEAT)), fresh = 0, PARAM_POOL = (\<lambda>_. None),
      MESSAGE_POOL = (\<lambda>_. None), param_count = 5, message_count = 1\<rparr>"

definition small_packet :: M3UAPacket where
  "small_packet = M3UAPacket_new\<lparr>message_class := 3, packet_type := mt_value BEAT, message := Some 0\<rparr>"

lemma small_simps [simp]:
  "version small_packet = 1" "message_class small_packet = 3" "packet_type small_packet = mt_value BEAT" "message small_packet = Some 0"
  "mem small_state b = replicate 20 9" "params (message_at small_state 0) = [0]" "message_type (message_at small_state 0) = BEAT"
  "byte_pos (message_at small_state 0) = 0" "param_type (param_at small_state 0) = M3UA_PT_NETWORK_APPEARANCE"
  by (simp_all add: small_packet_def M3UAPacket_new_def small_state_def add_parameter_def create_message_def M3UAParam_new_def)

lemma small_described: "map (described small_state) (params (message_at small_state 0)) = [(M3UA_PT_NETWORK_APPEARANCE, [0, 0, 0, 7])]"
  by (simp add: small_state_def described_def octets_of_def content_def M3UAParam_new_def add_parameter_def create_message_def be32_def)

lemma small_wire: "wire_packet BEAT [(M3UA_PT_NETWORK_APPEARANCE, [0, 0, 0, 7])] = [1, 0, 3, 3, 0, 0, 0, 16, 2, 0, 0, 8, 0, 0, 0, 7]"
  by (simp add: wire_packet_def wire_params_def wire_param_def tlv_header_def pad_octets_def be32_def be16_def)

lemma small_sendable: "encodable small_state b (param_at small_state 0)"
  by (simp add: encodable_def small_state_def content_def M3UAParam_new_def source_def)

theorem m3ua_encode_wire_witness:
  "\<exists>s'. M3UAPacket_encode 0 0 12 0 small_packet small_state = Returns (16, s') \<and>
    mem s' 0 = [1, 0, 3, 3, 0, 0, 0, 16, 2, 0, 0, 8, 0, 0, 0, 7, 9, 9, 9, 9]"
proof -
  let ?w = "[1, 0, 3, 3, 0, 0, 0, 16, 2, 0, 0, 8, 0, 0, 0, 7] :: u8 list"
  have w: "?w = wire_packet BEAT (map (described small_state) (params (message_at small_state 0)))"
    unfolding small_described small_wire ..
  have "\<exists>s'. M3UAPacket_encode 0 0 (of_nat 12) (of_nat 0) small_packet small_state = Returns (of_nat (length ?w), s') \<and>
      mem s' = (mem small_state)(0 := overwrite (mem small_state 0) (0 + 0) ?w) \<and> message_at s' = message_at small_state"
    by (rule m3ua_encode_wire [where mt = BEAT and m = 0, OF _ _ _ _ _ w])
      (use small_sendable in simp_all)
  then show ?thesis by (auto simp: overwrite_def numeral_eq_Suc)
qed

section \<open>Round trip\<close>

lemma described_sound:
  assumes "encodable s b (param_at s a)" "readable s a"
  shows "sound_param (described s a)"
proof -
  obtain bs where bs: "content s (param_at s a) = Some bs" "length bs + 4 < 2 ^ 16"
    using assms(1) by (auto simp: encodable_def split: option.splits)
  have "canonical (new_members (param_type (param_at s a))) bs"
    using content_canonical [OF bs(1)] assms(2) canonical_class by (metis readable_def well_formed_def)
  then show ?thesis using bs by (simp add: sound_param_def described_def octets_of_def)
qed

lemma described_meaning:
  assumes "readable r a'" "readable s a" "described r a' = described s a"
  shows "meaning r a' = meaning s a"
proof -
  obtain bs where bs: "content s (param_at s a) = Some bs" using assms(2) by (auto simp: readable_def)
  then have bs': "content r (param_at r a') = Some bs" using assms(1,3) by (auto simp: described_def octets_of_def readable_def)
  have ty: "param_type (param_at r a') = param_type (param_at s a)" using assms(3) by (simp add: described_def)
  then have "member_class (members (param_at r a')) = member_class (members (param_at s a))"
    using assms(1,2) by (simp add: readable_def well_formed_def)
  then have "erase (members (param_at r a')) = erase (members (param_at s a))"
    using members_determined [OF bs' bs] assms(1,2) by (simp add: readable_def)
  then show ?thesis using ty bs bs' by (simp add: meaning_def octets_of_def)
qed

text \<open>
  C4. What is encoded is decoded: if the received octets are those written, and no type of
  parameter occurs more often than its pool has objects, then \<open>decode\<close> succeeds and gives a
  message of the same type whose parameters have the same types, members and values in the
  same order, so that \<open>check_mandatory\<close> agrees.
\<close>

theorem m3ua_roundtrip:
  assumes pkt: "version pkt = 1" "message_class pkt = drop_bit 8 (mt_value mt)" "packet_type pkt = mt_value mt" "message pkt = Some m"
    and msg: "message_type (message_at s m) = mt" "params (message_at s m) = as"
    and sd: "\<forall>a \<in> set as. encodable s b (param_at s a) \<and> readable s a"
    and w: "w = wire_packet mt (map (described s) as)"
    and fits: "off < 2 ^ 31" "length w \<le> bl + 4" "bl < 2 ^ 31" "length w < 2 ^ 31" "buffer + off + length w \<le> length (mem s b)"
    and ok: "pools_ok r" "\<forall>pt. count_list (map (\<lambda>a. param_type (param_at s a)) as) pt \<le> length (param_ring r pt)" "length as \<le> fuel"
  shows "\<exists>s'. M3UAPacket_encode b buffer (of_nat bl) (of_nat off) pkt s = Returns (of_nat (length w), s') \<and>
    (mem r rb = pre @ take (length w) (drop (buffer + off) (mem s' b)) @ post \<longrightarrow>
      (\<exists>pkt' r' m'. m3ua_decode fuel rb (length pre) (of_nat (length w)) pkt0 r = Returns (0, pkt', r') \<and> message pkt' = Some m' \<and>
        message_type (message_at r' m') = mt \<and> map (meaning r') (params (message_at r' m')) = map (meaning s) as \<and>
        check_mandatory r' (message_at r' m') = check_mandatory s (message_at s m)))"
proof -
  have sd': "\<forall>a \<in> set (params (message_at s m)). encodable s b (param_at s a)" using sd msg(2) by simp
  obtain s' where s': "M3UAPacket_encode b buffer (of_nat bl) (of_nat off) pkt s = Returns (of_nat (length w), s')"
    "mem s' b = overwrite (mem s b) (buffer + off) w"
    using M3UAPacket_encode_ok [OF pkt refl sd' w [folded msg(2)] fits(1-3,5)] by blast
  have oct: "take (length w) (drop (buffer + off) (mem s' b)) = w" unfolding s'(2) using fits(5) by (rule read_overwritten)
  have sound: "\<forall>x \<in> set (map (described s) as). sound_param x" using sd described_sound by auto
  have fst: "map fst (map (described s) as) = map (\<lambda>a. param_type (param_at s a)) as" by (simp add: described_def)
  have dec: "\<exists>pkt' r' m'. m3ua_decode fuel rb (length pre) (of_nat (length w)) pkt0 r = Returns (0, pkt', r') \<and> message pkt' = Some m' \<and>
      message_type (message_at r' m') = mt \<and> map (meaning r') (params (message_at r' m')) = map (meaning s) as \<and>
      check_mandatory r' (message_at r' m') = check_mandatory s (message_at s m)"
    if recv: "mem r rb = pre @ w @ post"
  proof -
    obtain pkt' r' m' as' where d: "m3ua_decode fuel rb (length pre) (of_nat (length w)) pkt0 r = Returns (0, pkt', r')" "message pkt' = Some m'"
      "message_type (message_at r' m') = mt" "params (message_at r' m') = as'" "map (described r') as' = map (described s) as"
      "\<forall>a \<in> set as'. readable r' a"
      using decode_wire [OF w recv refl fits(4) ok(1) sound ok(2) [folded fst], of fuel pkt0] ok(3) by auto
    have len: "length as' = length as" using map_eq_imp_length_eq [OF d(5)] .
    have same: "meaning r' (as' ! i) = meaning s (as ! i)" if i: "i < length as" for i
      using i len d(6) sd arg_cong [OF d(5), of "\<lambda>xs. xs ! i"] by (intro described_meaning) simp_all
    have "map (meaning r') as' = map (meaning s) as" using len same by (intro nth_equalityI) simp_all
    moreover have "map (\<lambda>a. param_type (param_at r' a)) as' = map (\<lambda>a. param_type (param_at s a)) as"
      using arg_cong [OF d(5), of "map fst"] by (simp add: described_def comp_def)
    ultimately show ?thesis using d(1-4) msg check_mandatory_types [of r' "message_at r' m'" s "message_at s m"] by auto
  qed
  have "mem r rb = pre @ take (length w) (drop (buffer + off) (mem s' b)) @ post \<Longrightarrow> mem r rb = pre @ w @ post"
    unfolding oct .
  with s'(1) dec show ?thesis by blast
qed

text \<open>The same packet, received by a process with fresh pools.\<close>

lemma small_readable: "readable small_state 0"
  by (simp add: readable_def small_state_def regular_def well_formed_def M3UAParam_new_def content_def)

theorem m3ua_roundtrip_witness:
  "\<exists>r s' pkt' r' m'. pools_ok r \<and> M3UAPacket_encode 0 0 12 0 small_packet small_state = Returns (16, s') \<and>
    mem r 0 = take 16 (mem s' 0) \<and> m3ua_decode 1 0 0 16 M3UAPacket_new r = Returns (0, pkt', r') \<and> message pkt' = Some m' \<and>
    map (meaning r') (params (message_at r' m')) = [(M3UA_PT_NETWORK_APPEARANCE, NetworkAppearance 7, [0, 0, 0, 7])]"
proof -
  let ?w = "[1, 0, 3, 3, 0, 0, 0, 16, 2, 0, 0, 8, 0, 0, 0, 7] :: u8 list"
  have w: "?w = wire_packet BEAT (map (described small_state) [0])"
    using small_described small_wire by simp
  obtain r where r: "pools_ok r" "\<And>pt. length (param_ring r pt) = 5" "mem r = (\<lambda>_. ?w)"
    using m3ua_init_pool_ok [of "small_state\<lparr>mem := (\<lambda>_. ?w)\<rparr>"] by (auto simp: small_state_def)
  obtain s1 where s1: "M3UAPacket_encode 0 0 (of_nat 12) (of_nat 0) small_packet small_state = Returns (of_nat (length ?w), s1)"
    "mem s1 0 = overwrite (mem small_state 0) (0 + 0) ?w"
    using M3UAPacket_encode_ok [of small_packet BEAT 0 small_state "[0]" 0 ?w 0 12 0, OF _ _ _ _ _ _ w] small_sendable by auto
  have oct: "take 16 (mem s1 0) = ?w" using s1(2) by (simp add: overwrite_def)
  have rt: "\<exists>s'. M3UAPacket_encode 0 0 (of_nat 12) (of_nat 0) small_packet small_state = Returns (of_nat (length ?w), s') \<and>
    (mem r 0 = [] @ take (length ?w) (drop (0 + 0) (mem s' 0)) @ [] \<longrightarrow>
      (\<exists>pkt' r' m'. m3ua_decode 1 0 (length ([] :: u8 list)) (of_nat (length ?w)) M3UAPacket_new r = Returns (0, pkt', r') \<and> message pkt' = Some m' \<and>
        message_type (message_at r' m') = BEAT \<and> map (meaning r') (params (message_at r' m')) = map (meaning small_state) [0] \<and>
        check_mandatory r' (message_at r' m') = check_mandatory small_state (message_at small_state 0)))"
    by (rule m3ua_roundtrip [OF _ _ _ _ _ _ _ w]) (use small_sendable small_readable r in simp_all)
  have mean: "meaning small_state 0 = (M3UA_PT_NETWORK_APPEARANCE, NetworkAppearance 7, [0, 0, 0, 7])"
    by (simp add: meaning_def small_state_def M3UAParam_new_def erase_def octets_of_def content_def be32_def)
  have "length ?w = 16" by simp
  with rt s1(1) oct r(1,3) have "\<exists>pkt' r' m'. m3ua_decode 1 0 0 16 M3UAPacket_new r = Returns (0, pkt', r') \<and> message pkt' = Some m' \<and>
      map (meaning r') (params (message_at r' m')) = map (meaning small_state) [0]"
    by (simp only: of_nat_numeral) auto
  then show ?thesis using s1(1) oct r(1,3) mean by auto
qed

section \<open>The end of decoding\<close>

text \<open>
  C9. The loop over the parameters ends on any data in which no length field at a multiple of
  four is zero, with one round of fuel per four octets: it returns, or reads outside the
  buffer. A parameter of a type without a pool that claims the length zero is never left: on
  such data the loop does not end, whatever the fuel.
\<close>

theorem m3ua_decode_ends:
  assumes "byte_pos (message_at s m) = 0" "unat data_length < 2 ^ 31" "\<forall>k. get16 (mem s b) (data + 4 * k + 2) \<noteq> Returns 0"
    and "unat data_length \<le> 4 * fuel"
  shows "process_params fuel b data data_length m s \<noteq> OutOfFuel \<and>
    (\<forall>fuel s bp tag. bp = byte_pos (message_at s m) \<and> bp < data_length \<and> get16 (mem s b) (data + unat bp) = Returns tag \<and>
      pt_of tag = None \<and> get16 (mem s b) (data + unat (bp + 2)) = Returns 0 \<longrightarrow> process_params fuel b data data_length m s = OutOfFuel)"
proof -
  have "process_params fuel b data data_length m s \<noteq> OutOfFuel"
    using process_params_fuel [of s m 0 data_length b data fuel] assms by simp
  then show ?thesis using process_params_stuck by blast
qed

text \<open>Four octets of an empty parameter stop a decoder for good.\<close>

theorem m3ua_decode_ends_witness:
  "process_params 2 0 0 8 0 (small_state\<lparr>mem := (\<lambda>_. [0, 4, 0, 8, 1, 2, 3, 4])\<rparr>) \<noteq> OutOfFuel \<and>
   (\<forall>fuel. process_params fuel 0 0 8 0 (small_state\<lparr>mem := (\<lambda>_. [0, 1, 0, 0, 0, 0, 0, 0])\<rparr>) = OutOfFuel)"
proof -
  let ?s = "small_state\<lparr>mem := (\<lambda>_. [0, 4, 0, 8, 1, 2, 3, 4])\<rparr>" and ?t = "small_state\<lparr>mem := (\<lambda>_. [0, 1, 0, 0, 0, 0, 0, 0])\<rparr>"
  have nz: "get16 (mem ?s 0) (0 + 4 * k + 2) \<noteq> Returns 0" for k
  proof -
    consider "k = 0" | "k = 1" | "1 < k" by linarith
    then show ?thesis by cases (simp_all add: get16_def byte_at_def)
  qed
  have t: "get16 (mem ?t 0) (0 + unat (0 :: u32)) = Returns 1" "get16 (mem ?t 0) (0 + unat (0 + 2 :: u32)) = Returns 0"
    by (simp_all add: get16_def byte_at_def)
  have bp: "byte_pos (message_at ?s 0) = 0" "byte_pos (message_at ?t 0) = 0" by simp_all
  have n: "pt_of 1 = None" by (simp add: pt_of_def parameter_types_def)
  have ends: "process_params 2 0 0 8 0 ?s \<noteq> OutOfFuel \<and> (\<forall>fuel s bp tag. bp = byte_pos (message_at s 0) \<and> bp < 8 \<and>
      get16 (mem s 0) (0 + unat bp) = Returns tag \<and> pt_of tag = None \<and> get16 (mem s 0) (0 + unat (bp + 2)) = Returns 0 \<longrightarrow>
      process_params fuel 0 0 8 0 s = OutOfFuel)"
    using bp(1) nz by (intro m3ua_decode_ends) simp_all
  have "process_params fuel 0 0 8 0 ?t = OutOfFuel" for fuel
    using ends [THEN conjunct2, rule_format, of 0 ?t 1 fuel] bp(2) t n by simp
  with ends show ?thesis by blast
qed

section \<open>Pools\<close>

text \<open>
  Pools do not run out, they start again: after \<open>init_pool\<close> the requests for a type of
  parameter go round a fixed sequence of \<open>param_count\<close> different objects. A message with more
  parameters of a type than that shares objects, so a later parameter overwrites an earlier one.
\<close>

theorem m3ua_pool_reuse:
  assumes "0 < param_count s" "0 < message_count s"
  shows "\<exists>s'. m3ua_init_pool s = Returns s' \<and>
    (\<forall>pt. \<exists>ring. distinct ring \<and> int (length ring) = param_count s \<and>
      (\<forall>k. \<exists>s''. request_many (request_param pt) k s' = Returns (map (\<lambda>i. Some (ring ! (i mod length ring))) [0..<k], s'')))"
proof -
  obtain s' where s': "m3ua_init_pool s = Returns s'" "pools_ok s'" "\<And>pt. length (param_ring s' pt) = nat (param_count s)"
    using assms by (rule m3ua_init_pool_ok) blast
  have "\<exists>ring. distinct ring \<and> int (length ring) = param_count s \<and>
      (\<forall>k. \<exists>s''. request_many (request_param pt) k s' = Returns (map (\<lambda>i. Some (ring ! (i mod length ring))) [0..<k], s''))" for pt
  proof -
    have ne: "param_ring s' pt \<noteq> []" and d: "distinct (param_ring s' pt)" using pools_okD [OF s'(2)] by auto
    then have "map Some (param_ring s' pt) ! (i mod length (param_ring s' pt)) = Some (param_ring s' pt ! (i mod length (param_ring s' pt)))" for i
      by simp
    then show ?thesis
      using param_pool.request_many_ring [OF s'(2), of pt] d s'(3) assms(1) by (intro exI [of _ "param_ring s' pt"]) fastforce
  qed
  then show ?thesis using s'(1) by blast
qed

theorem m3ua_pool_reuse_witness:
  "\<exists>s' s'' a b. m3ua_init_pool (small_state\<lparr>param_count := 2\<rparr>) = Returns s' \<and> a \<noteq> b \<and>
    request_many (request_param M3UA_PT_STATUS) 3 s' = Returns ([Some a, Some b, Some a], s'')"
proof -
  obtain s' ring s'' where s': "m3ua_init_pool (small_state\<lparr>param_count := 2\<rparr>) = Returns s'" "distinct ring" "int (length ring) = 2"
    "request_many (request_param M3UA_PT_STATUS) 3 s' = Returns (map (\<lambda>i. Some (ring ! (i mod length ring))) [0..<3], s'')"
    using m3ua_pool_reuse [of "small_state\<lparr>param_count := 2\<rparr>"] by (fastforce simp: small_state_def)
  then obtain a b where "ring = [a, b]" "a \<noteq> b" by (auto simp: length_Suc_conv numeral_eq_Suc)
  then show ?thesis using s'(1,4) by (simp add: numeral_3_eq_3 mod_Suc)
qed

end
