(* ===== verification/Sccp_Params.thy ===== *)
theory Sccp_Params
  imports Octets Item_Pool
begin

text \<open>
  The parameters of the SCCP codec, \<^verbatim>\<open>src/sccp/sccp.h\<close> and \<^verbatim>\<open>src/sccp/sccp.cpp\<close>: global titles,
  parameters, the pools of both, \<open>init\<close> and \<open>encode\<close>. Objects are shared through pointers and live in a store,
  as for M3UA; a member no constructor sets is \<open>None\<close> until it is set. Lengths and positions
  are \<open>int\<close> in the code and unbounded here: they are sums of a few positions in a buffer, and
  buffers are far shorter than \<open>2\<^sup>3\<^sup>1\<close> octets. Values are words. An enum holds any \<open>int\<close>.
\<close>

section \<open>Enumerations\<close>

datatype GlobalTitleIndicator =
    GT_NO_TITLE | GT_NATURE_OF_ADDRESS_INDICATOR_ONLY | GT_TRANSLATION_TYPE_ONLY
  | GT_TRANSLATION_TYPE_NUMNBERING_PLAN_ENCODING
  | GT_TRANSLATION_TYPE_NUMNBERING_PLAN_ENCODING_NATURE_OF_ADDRESS

primrec gti_value :: "GlobalTitleIndicator \<Rightarrow> c_int" where
  "gti_value GT_NO_TITLE = 0x00"
| "gti_value GT_NATURE_OF_ADDRESS_INDICATOR_ONLY = 0x04"
| "gti_value GT_TRANSLATION_TYPE_ONLY = 0x08"
| "gti_value GT_TRANSLATION_TYPE_NUMNBERING_PLAN_ENCODING = 0x0C"
| "gti_value GT_TRANSLATION_TYPE_NUMNBERING_PLAN_ENCODING_NATURE_OF_ADDRESS = 0x10"

datatype SCCPParameterType =
    END_OF_OPTIONAL_PARAMETERS | DESTINATION_LOCAL_REFERENCE | SOURCE_LOCAL_REFERENCE
  | CALLED_PARTY_ADDRESS | CALLING_PARTY_ADDRESS | PROTOCOL_CLASS | SEGMENTING_REASSEMBLING
  | RECEIVE_SEQUENCE_NUMBER | SEQUENCING_SEGMENTING | CREDIT | RELEASE_CAUSE | RETURN_CAUSE
  | RESET_CAUSE | ERROR_CAUSE | REFUSAL_CAUSE | DATA | SEGMENTATION | HOP_COUNTER | IMPORTANCE
  | LONG_DATA

primrec spt_value :: "SCCPParameterType \<Rightarrow> u8" where
  "spt_value END_OF_OPTIONAL_PARAMETERS = 0x00"
| "spt_value DESTINATION_LOCAL_REFERENCE = 0x01"
| "spt_value SOURCE_LOCAL_REFERENCE = 0x02"
| "spt_value CALLED_PARTY_ADDRESS = 0x03"
| "spt_value CALLING_PARTY_ADDRESS = 0x04"
| "spt_value PROTOCOL_CLASS = 0x05"
| "spt_value SEGMENTING_REASSEMBLING = 0x06"
| "spt_value RECEIVE_SEQUENCE_NUMBER = 0x07"
| "spt_value SEQUENCING_SEGMENTING = 0x08"
| "spt_value CREDIT = 0x09"
| "spt_value RELEASE_CAUSE = 0x0A"
| "spt_value RETURN_CAUSE = 0x0B"
| "spt_value RESET_CAUSE = 0x0C"
| "spt_value ERROR_CAUSE = 0x0D"
| "spt_value REFUSAL_CAUSE = 0x0E"
| "spt_value DATA = 0x0F"
| "spt_value SEGMENTATION = 0x10"
| "spt_value HOP_COUNTER = 0x11"
| "spt_value IMPORTANCE = 0x12"
| "spt_value LONG_DATA = 0x13"

datatype SCCPMessageType =
    CR_CONNECTION_REQUEST | CC_CONNECTION_CONFIRM | CREF_CONNECTION_REFUSED | RLSD_RELEASED
  | RLC_RELEASE_COMPLETE | DT1_DATA_FORM_1 | DT2_DATA_FORM_2 | AK_DATA_ACKNOWLEDGEMENT
  | UDT_UNITDATA | UDTS_UNITDATA_SERVICE | ED_EXPEDITED_DATA | EA_EXPEDITED_DATA_ACKNOWLEDGMENT
  | RSR_RESET_REQUEST | RSC_RESET_CONFIRM | ERR_PROTOCOL_DATA_UNIT_ERROR | IT_INACTIVITY_TEST
  | XUDT_EXTENDED_UNITDATA | XUDTS_EXTENDED_UNIDATA_SERVICE | LUDT_LONG_UNIDATA
  | LUDTS_LONG_UNIDATA_SERVICE

primrec smt_value :: "SCCPMessageType \<Rightarrow> u8" where
  "smt_value CR_CONNECTION_REQUEST = 0x01"
| "smt_value CC_CONNECTION_CONFIRM = 0x02"
| "smt_value CREF_CONNECTION_REFUSED = 0x03"
| "smt_value RLSD_RELEASED = 0x04"
| "smt_value RLC_RELEASE_COMPLETE = 0x05"
| "smt_value DT1_DATA_FORM_1 = 0x06"
| "smt_value DT2_DATA_FORM_2 = 0x07"
| "smt_value AK_DATA_ACKNOWLEDGEMENT = 0x08"
| "smt_value UDT_UNITDATA = 0x09"
| "smt_value UDTS_UNITDATA_SERVICE = 0x0A"
| "smt_value ED_EXPEDITED_DATA = 0x0B"
| "smt_value EA_EXPEDITED_DATA_ACKNOWLEDGMENT = 0x0C"
| "smt_value RSR_RESET_REQUEST = 0x0D"
| "smt_value RSC_RESET_CONFIRM = 0x0E"
| "smt_value ERR_PROTOCOL_DATA_UNIT_ERROR = 0x0F"
| "smt_value IT_INACTIVITY_TEST = 0x10"
| "smt_value XUDT_EXTENDED_UNITDATA = 0x11"
| "smt_value XUDTS_EXTENDED_UNIDATA_SERVICE = 0x12"
| "smt_value LUDT_LONG_UNIDATA = 0x13"
| "smt_value LUDTS_LONG_UNIDATA_SERVICE = 0x14"

section \<open>Store\<close>

text \<open>
  The four subclasses of \<open>GlobalTitle\<close> declare some of these members each, and set no other;
  the class of an object is its type.
\<close>

record GlobalTitle =
  gt_type :: GlobalTitleIndicator
  gt_value_length :: int
  gt_value :: "buf_ptr option"
  translation_type :: "c_int option"
  numbering_plan :: "c_int option"
  encoding_scheme :: "c_int option"
  nature_of_address :: "c_int option"
  odd_num_of_addr_signals :: "bool option"
  address_information :: "buf_ptr option option"
  address_information_length :: "int option"

text \<open>\<open>CalledPA\<close> and \<open>CallingPA\<close> have the same members.\<close>

record party_address =
  routing_indicator :: "c_int option"
  global_title_indicator :: "c_int option"
  ssn_indicator :: "bool option"
  point_code_indicator :: "bool option"
  point_code :: "c_int option"
  subsystem_number :: "c_int option"
  global_title :: "nat option"

text \<open>The members the subclasses of \<open>SCCPParam\<close> add.\<close>

datatype sccp_members =
    No_Members
  | LongData
  | ProtocolClass "c_int option" "c_int option"
  | Dlr c_int
  | Slr "c_int option"
  | HopCounter c_int
  | Importance c_int
  | ReceiveSeqNum c_int
  | Credit c_int
  | RefusalCause "c_int option"
  | ReleaseCause "c_int option"
  | ResetCause "c_int option"
  | ReturnCause "c_int option"
  | ErrorCause "c_int option"
  | Segmentation "bool option" "c_int option" "c_int option" "buf_ptr option" int
  | SegmReassm "bool option"
  | SeqSegm "c_int option" "c_int option" "bool option"
  | PartyAddress party_address

record SCCPParam =
  param_type :: SCCPParameterType
  param_byte_pos :: nat
  value_length :: int
  param_value :: "buf_ptr option"
  members :: sccp_members

record SCCPPointer =
  ptr_value :: int
  ptr_position :: nat

text \<open>
  The mandatory parameters of a message are members named after their types. A fresh pointer
  holds anything; it is written before it is read.
\<close>

record SCCPMessage =
  message_type :: SCCPMessageType
  pointer :: "SCCPPointer list"
  byte_pos :: nat
  optional_params :: "nat list"
  part :: "SCCPParameterType \<Rightarrow> nat option"

record sccp_state =
  mem :: "nat \<Rightarrow> u8 list"
  gt_at :: "nat \<Rightarrow> GlobalTitle"
  param_at :: "nat \<Rightarrow> SCCPParam"
  message_at :: "nat \<Rightarrow> SCCPMessage"
  fresh :: nat
  GT_POOL :: "GlobalTitleIndicator \<Rightarrow> PoolItem option"
  PARAM_POOL :: "SCCPParameterType \<Rightarrow> PoolItem option"
  MESSAGE_POOL :: "SCCPMessageType \<Rightarrow> PoolItem option"
  param_count :: int
  message_count :: int

definition put_gt :: "nat \<Rightarrow> GlobalTitle \<Rightarrow> sccp_state \<Rightarrow> sccp_state" where
  "put_gt g x s = s\<lparr>gt_at := (gt_at s)(g := x)\<rparr>"

definition set_param :: "nat \<Rightarrow> SCCPParam \<Rightarrow> sccp_state \<Rightarrow> sccp_state" where
  "set_param a p s = s\<lparr>param_at := (param_at s)(a := p)\<rparr>"

definition set_message :: "nat \<Rightarrow> SCCPMessage \<Rightarrow> sccp_state \<Rightarrow> sccp_state" where
  "set_message m x s = s\<lparr>message_at := (message_at s)(m := x)\<rparr>"

definition set_mem :: "nat \<Rightarrow> u8 list \<Rightarrow> sccp_state \<Rightarrow> sccp_state" where
  "set_mem b bs s = s\<lparr>mem := (mem s)(b := bs)\<rparr>"

text \<open>\<open>&buffer[offset]\<close>, which must not lie before the buffer; the end is checked at accesses.\<close>

definition place :: "nat \<Rightarrow> int \<Rightarrow> nat outcome" where
  "place buffer offset = guard (0 \<le> int buffer + offset) (Returns (nat (int buffer + offset)))"

definition put_octets :: "nat \<Rightarrow> nat \<Rightarrow> u8 list \<Rightarrow> sccp_state \<Rightarrow> sccp_state outcome" where
  "put_octets b q bs s = and_then (write_bytes (mem s b) q bs) (\<lambda>bs'. Returns (set_mem b bs' s))"

text \<open>\<open>memcpy\<close>: nothing for no octets, undefined for overlapping memory or a negative length.\<close>

definition memcpy :: "nat \<Rightarrow> nat \<Rightarrow> buf_ptr option \<Rightarrow> int \<Rightarrow> sccp_state \<Rightarrow> sccp_state outcome" where
  "memcpy b q src n s =
     (if n = 0 then Returns s
      else and_then (the_ptr src) (\<lambda>(vb, vp).
        guard (0 \<le> n \<and> (vb \<noteq> b \<or> vp + nat n \<le> q \<or> q + nat n \<le> vp))
          (and_then (read_bytes (mem s vb) vp (nat n)) (\<lambda>bs. put_octets b q bs s))))"

section \<open>Pools\<close>

text \<open>
  \<open>SCCPMessagePoolItem\<close>, \<open>SCCPGTPoolItem\<close> and \<open>SCCPParamPoolItem\<close> repeat the pool of M3UA and
  add \<open>return_item\<close>. The one of messages puts an object back, those of global titles and
  parameters count it twice.
\<close>

definition return_message_item :: "nat \<Rightarrow> PoolItem \<Rightarrow> PoolItem outcome" where
  "return_message_item a it =
     guard (0 \<le> free_count it \<and> free_count it < int (length (item_pool it)))
       (Returns (it\<lparr>next_free_item := a, item_pool := (item_pool it)[nat (free_count it) := a], free_count := free_count it + 1\<rparr>))"

definition return_param_item :: "nat \<Rightarrow> PoolItem \<Rightarrow> PoolItem outcome" where
  "return_param_item a it =
     (let fc = free_count it + 1
      in guard (0 \<le> fc \<and> fc < int (length (item_pool it)))
        (Returns (it\<lparr>next_free_item := a, item_pool := (item_pool it)[nat fc := a], free_count := fc + 1\<rparr>)))"

text \<open>The constructors.\<close>

definition GlobalTitle_new :: "GlobalTitleIndicator \<Rightarrow> GlobalTitle" where
  "GlobalTitle_new gi =
     \<lparr>gt_type = gi, gt_value_length = 0, gt_value = None, translation_type = None, numbering_plan = None,
      encoding_scheme = None, nature_of_address = None, odd_num_of_addr_signals = None, address_information = None,
      address_information_length = None\<rparr>"

definition prepareNew :: "GlobalTitleIndicator \<Rightarrow> GlobalTitle option" where
  "prepareNew gi = (if gi = GT_NO_TITLE then None else Some (GlobalTitle_new gi))"

definition party_address_new :: party_address where
  "party_address_new =
     \<lparr>routing_indicator = None, global_title_indicator = None, ssn_indicator = None, point_code_indicator = None,
      point_code = None, subsystem_number = None, global_title = None\<rparr>"

primrec new_sccp_members :: "SCCPParameterType \<Rightarrow> sccp_members" where
  "new_sccp_members END_OF_OPTIONAL_PARAMETERS = No_Members"
| "new_sccp_members DESTINATION_LOCAL_REFERENCE = Dlr 0"
| "new_sccp_members SOURCE_LOCAL_REFERENCE = Slr None"
| "new_sccp_members CALLED_PARTY_ADDRESS = PartyAddress party_address_new"
| "new_sccp_members CALLING_PARTY_ADDRESS = PartyAddress party_address_new"
| "new_sccp_members PROTOCOL_CLASS = ProtocolClass None None"
| "new_sccp_members SEGMENTING_REASSEMBLING = SegmReassm None"
| "new_sccp_members RECEIVE_SEQUENCE_NUMBER = ReceiveSeqNum 0"
| "new_sccp_members SEQUENCING_SEGMENTING = SeqSegm None None None"
| "new_sccp_members CREDIT = Credit 0"
| "new_sccp_members RELEASE_CAUSE = ReleaseCause None"
| "new_sccp_members RETURN_CAUSE = ReturnCause None"
| "new_sccp_members RESET_CAUSE = ResetCause None"
| "new_sccp_members ERROR_CAUSE = ErrorCause None"
| "new_sccp_members REFUSAL_CAUSE = RefusalCause None"
| "new_sccp_members DATA = No_Members"
| "new_sccp_members SEGMENTATION = Segmentation None None None None 0"
| "new_sccp_members HOP_COUNTER = HopCounter 0"
| "new_sccp_members IMPORTANCE = Importance 0"
| "new_sccp_members LONG_DATA = LongData"

definition create_sccp_param :: "SCCPParameterType \<Rightarrow> SCCPParam" where
  "create_sccp_param pt =
     \<lparr>param_type = pt, param_byte_pos = 0, value_length = 0, param_value = None, members = new_sccp_members pt\<rparr>"

definition sccp_init_param :: "SCCPParameterType \<Rightarrow> sccp_state \<Rightarrow> sccp_state outcome" where
  "sccp_init_param pt s =
     and_then (init_item_pool (fresh s) (set_item_pool_size (param_count s) PoolItem_new)) (\<lambda>it.
     Returns (s\<lparr>param_at := (\<lambda>a. if a \<in> set (item_pool it) then create_sccp_param pt else param_at s a),
       fresh := fresh s + length (item_pool it), PARAM_POOL := (PARAM_POOL s)(pt := Some it)\<rparr>))"

definition init_gt :: "GlobalTitleIndicator \<Rightarrow> sccp_state \<Rightarrow> sccp_state outcome" where
  "init_gt gi s =
     and_then (init_item_pool (fresh s) (set_item_pool_size (param_count s) PoolItem_new)) (\<lambda>it.
     Returns (s\<lparr>gt_at := (\<lambda>a. if a \<in> set (item_pool it) then GlobalTitle_new gi else gt_at s a),
       fresh := fresh s + length (item_pool it), GT_POOL := (GT_POOL s)(gi := Some it)\<rparr>))"

definition sccp_request_param :: "SCCPParameterType \<Rightarrow> sccp_state \<Rightarrow> (nat option \<times> sccp_state) outcome" where
  "sccp_request_param pt s =
     (case PARAM_POOL s pt of
        None \<Rightarrow> Returns (None, s)
      | Some it \<Rightarrow> and_then (request_item it) (\<lambda>(a, it). Returns (Some a, s\<lparr>PARAM_POOL := (PARAM_POOL s)(pt := Some it)\<rparr>)))"

definition request_gt :: "GlobalTitleIndicator \<Rightarrow> sccp_state \<Rightarrow> (nat option \<times> sccp_state) outcome" where
  "request_gt gi s =
     (case GT_POOL s gi of
        None \<Rightarrow> Returns (None, s)
      | Some it \<Rightarrow> and_then (request_item it) (\<lambda>(a, it). Returns (Some a, s\<lparr>GT_POOL := (GT_POOL s)(gi := Some it)\<rparr>)))"

text \<open>Returning an object: a missing pool is created empty by the map, and then followed as NULL.\<close>

definition return_param :: "nat option \<Rightarrow> sccp_state \<Rightarrow> sccp_state outcome" where
  "return_param param s =
     (case param of
        None \<Rightarrow> Returns s
      | Some a \<Rightarrow>
          let pt = param_type (param_at s a)
          in and_then (the_ptr (PARAM_POOL s pt)) (\<lambda>it. and_then (return_param_item a it) (\<lambda>it.
             Returns (s\<lparr>PARAM_POOL := (PARAM_POOL s)(pt := Some it)\<rparr>))))"

definition return_gt :: "nat option \<Rightarrow> sccp_state \<Rightarrow> sccp_state outcome" where
  "return_gt gt s =
     (case gt of
        None \<Rightarrow> Returns s
      | Some g \<Rightarrow>
          let gi = gt_type (gt_at s g)
          in and_then (the_ptr (GT_POOL s gi)) (\<lambda>it. and_then (return_param_item g it) (\<lambda>it.
             Returns (s\<lparr>GT_POOL := (GT_POOL s)(gi := Some it)\<rparr>))))"

text \<open>The types that have a pool after \<open>init_pool\<close>, and their values on the wire.\<close>

definition sccp_parameter_types :: "SCCPParameterType list" where
  "sccp_parameter_types =
     [END_OF_OPTIONAL_PARAMETERS, DESTINATION_LOCAL_REFERENCE, SOURCE_LOCAL_REFERENCE, CALLED_PARTY_ADDRESS,
      CALLING_PARTY_ADDRESS, PROTOCOL_CLASS, SEGMENTING_REASSEMBLING, RECEIVE_SEQUENCE_NUMBER, SEQUENCING_SEGMENTING,
      CREDIT, RELEASE_CAUSE, RETURN_CAUSE, RESET_CAUSE, ERROR_CAUSE, REFUSAL_CAUSE, DATA, SEGMENTATION, HOP_COUNTER,
      IMPORTANCE, LONG_DATA]"

definition gt_types :: "GlobalTitleIndicator list" where
  "gt_types =
     [GT_NATURE_OF_ADDRESS_INDICATOR_ONLY, GT_TRANSLATION_TYPE_NUMNBERING_PLAN_ENCODING,
      GT_TRANSLATION_TYPE_NUMNBERING_PLAN_ENCODING_NATURE_OF_ADDRESS, GT_TRANSLATION_TYPE_ONLY]"

definition spt_of :: "u8 \<Rightarrow> SCCPParameterType option" where
  "spt_of v = List.find (\<lambda>pt. spt_value pt = v) sccp_parameter_types"

definition gti_of :: "c_int \<Rightarrow> GlobalTitleIndicator option" where
  "gti_of v = List.find (\<lambda>gi. gti_value gi = v) gt_types"

section \<open>Global titles\<close>

definition GlobalTitle_init :: "buf_ptr \<Rightarrow> int \<Rightarrow> GlobalTitle \<Rightarrow> GlobalTitle" where
  "GlobalTitle_init data data_length d = d\<lparr>gt_value := Some data, gt_value_length := data_length\<rparr>"

text \<open>\<open>init\<close> reads the octets before the address, whatever the length; \<open>bs\<close> is the buffer of \<open>data\<close>.\<close>

definition GT_TTNPENOA_init :: "u8 list \<Rightarrow> buf_ptr \<Rightarrow> int \<Rightarrow> GlobalTitle \<Rightarrow> GlobalTitle outcome" where
  "GT_TTNPENOA_init bs data data_length d =
     (let d = GlobalTitle_init data data_length d
      in and_then (byte_at bs (snd data)) (\<lambda>v0.
         and_then (byte_at bs (snd data + 1)) (\<lambda>v1.
         and_then (byte_at bs (snd data + 2)) (\<lambda>v2.
         Returns (d\<lparr>translation_type := Some (ucast v0 AND 0xff), numbering_plan := Some (ucast v1 AND 0xf0),
                    encoding_scheme := Some (ucast v1 AND 0x0f), nature_of_address := Some (ucast v2 AND 0xff),
                    address_information := Some (Some (fst data, snd data + 3)),
                    address_information_length := Some (data_length - 3)\<rparr>)))))"

definition GT_TTNPE_init :: "u8 list \<Rightarrow> buf_ptr \<Rightarrow> int \<Rightarrow> GlobalTitle \<Rightarrow> GlobalTitle outcome" where
  "GT_TTNPE_init bs data data_length d =
     (let d = GlobalTitle_init data data_length d
      in and_then (byte_at bs (snd data)) (\<lambda>v0.
         and_then (byte_at bs (snd data + 1)) (\<lambda>v1.
         Returns (d\<lparr>translation_type := Some (ucast v0 AND 0xff), numbering_plan := Some (ucast v1 AND 0xf0),
                    encoding_scheme := Some (ucast v1 AND 0x0f),
                    address_information := Some (Some (fst data, snd data + 2)),
                    address_information_length := Some (data_length - 2)\<rparr>))))"

definition GT_TT_init :: "u8 list \<Rightarrow> buf_ptr \<Rightarrow> int \<Rightarrow> GlobalTitle \<Rightarrow> GlobalTitle outcome" where
  "GT_TT_init bs data data_length d =
     (let d = GlobalTitle_init data data_length d
      in and_then (byte_at bs (snd data)) (\<lambda>v0.
         Returns (d\<lparr>translation_type := Some (ucast v0 AND 0xff),
                    address_information := Some (Some (fst data, snd data + 1)),
                    address_information_length := Some (data_length - 1)\<rparr>)))"

definition GT_NOA_init :: "u8 list \<Rightarrow> buf_ptr \<Rightarrow> int \<Rightarrow> GlobalTitle \<Rightarrow> GlobalTitle outcome" where
  "GT_NOA_init bs data data_length d =
     (let d = GlobalTitle_init data data_length d
      in and_then (byte_at bs (snd data)) (\<lambda>v0.
         Returns (d\<lparr>nature_of_address := Some (ucast v0 AND 0x7f), odd_num_of_addr_signals := Some (v0 AND 0x80 = 0x80),
                    address_information := Some (Some (fst data, snd data + 1)),
                    address_information_length := Some (data_length - 1)\<rparr>)))"

definition gt_init :: "u8 list \<Rightarrow> buf_ptr \<Rightarrow> int \<Rightarrow> GlobalTitle \<Rightarrow> GlobalTitle outcome" where
  "gt_init bs data data_length d =
     (case gt_type d of
        GT_NO_TITLE \<Rightarrow> Returns (GlobalTitle_init data data_length d)
      | GT_NATURE_OF_ADDRESS_INDICATOR_ONLY \<Rightarrow> GT_NOA_init bs data data_length d
      | GT_TRANSLATION_TYPE_ONLY \<Rightarrow> GT_TT_init bs data data_length d
      | GT_TRANSLATION_TYPE_NUMNBERING_PLAN_ENCODING \<Rightarrow> GT_TTNPE_init bs data data_length d
      | GT_TRANSLATION_TYPE_NUMNBERING_PLAN_ENCODING_NATURE_OF_ADDRESS \<Rightarrow> GT_TTNPENOA_init bs data data_length d)"

text \<open>\<open>GlobalTitle::decode\<close>: the indicator in the octet chooses the pool.\<close>

definition GlobalTitle_decode :: "u8 list \<Rightarrow> buf_ptr \<Rightarrow> int \<Rightarrow> c_int \<Rightarrow> sccp_state \<Rightarrow> (nat option \<times> sccp_state) outcome" where
  "GlobalTitle_decode bs data data_length gi s =
     (if data_length > 0 then
        and_then (case gti_of gi of None \<Rightarrow> Returns (None, s) | Some gi \<Rightarrow> request_gt gi s) (\<lambda>(gt, s).
        case gt of
          None \<Rightarrow> Returns (None, s)
        | Some g \<Rightarrow> and_then (gt_init bs data data_length (gt_at s g)) (\<lambda>d. Returns (Some g, put_gt g d s)))
      else Returns (None, s))"

definition GlobalTitle_encode :: "nat \<Rightarrow> nat \<Rightarrow> int \<Rightarrow> nat \<Rightarrow> sccp_state \<Rightarrow> (int \<times> sccp_state) outcome" where
  "GlobalTitle_encode b buffer offset g s =
     and_then (place buffer offset) (\<lambda>q.
     let d = gt_at s g
     in and_then (if gt_value d \<noteq> Some (b, q) then memcpy b q (gt_value d) (gt_value_length d) s else Returns s) (\<lambda>s.
        Returns (gt_value_length d, s)))"

text \<open>\<open>encode\<close> of the subclasses: the octets of the members, then the address, in place.\<close>

definition encode_title :: "nat \<Rightarrow> nat \<Rightarrow> int \<Rightarrow> nat \<Rightarrow> u8 list \<Rightarrow> sccp_state \<Rightarrow> (int \<times> sccp_state) outcome" where
  "encode_title b buffer offset g octets s =
     (let d = gt_at s g
      in and_then (place buffer offset) (\<lambda>q.
         and_then (the_ptr (address_information_length d)) (\<lambda>n.
         and_then (put_octets b q octets
            (put_gt g (d\<lparr>gt_value := Some (b, q), gt_value_length := n + int (length octets)\<rparr>) s)) (\<lambda>s.
         and_then
           (if n > 0
            then and_then (the_ptr (address_information d)) (\<lambda>ptr.
                 if ptr \<noteq> None then memcpy b (q + length octets) ptr n s else Returns s)
            else Returns s)
           (GlobalTitle_encode b buffer offset g)))))"

definition GT_TTNPENOA_encode :: "nat \<Rightarrow> nat \<Rightarrow> int \<Rightarrow> nat \<Rightarrow> sccp_state \<Rightarrow> (int \<times> sccp_state) outcome" where
  "GT_TTNPENOA_encode b buffer offset g s =
     (let d = gt_at s g
      in and_then (the_ptr (translation_type d)) (\<lambda>tt.
         and_then (the_ptr (numbering_plan d)) (\<lambda>np.
         and_then (the_ptr (encoding_scheme d)) (\<lambda>es.
         and_then (the_ptr (nature_of_address d)) (\<lambda>noa.
         encode_title b buffer offset g [ucast tt, ucast (np + es), ucast noa] s)))))"

definition GT_TTNPE_encode :: "nat \<Rightarrow> nat \<Rightarrow> int \<Rightarrow> nat \<Rightarrow> sccp_state \<Rightarrow> (int \<times> sccp_state) outcome" where
  "GT_TTNPE_encode b buffer offset g s =
     (let d = gt_at s g
      in and_then (the_ptr (translation_type d)) (\<lambda>tt.
         and_then (the_ptr (numbering_plan d)) (\<lambda>np.
         and_then (the_ptr (encoding_scheme d)) (\<lambda>es.
         encode_title b buffer offset g [ucast tt, ucast (np + es)] s))))"

definition GT_TT_encode :: "nat \<Rightarrow> nat \<Rightarrow> int \<Rightarrow> nat \<Rightarrow> sccp_state \<Rightarrow> (int \<times> sccp_state) outcome" where
  "GT_TT_encode b buffer offset g s =
     and_then (the_ptr (translation_type (gt_at s g))) (\<lambda>tt. encode_title b buffer offset g [ucast tt] s)"

definition GT_NOA_encode :: "nat \<Rightarrow> nat \<Rightarrow> int \<Rightarrow> nat \<Rightarrow> sccp_state \<Rightarrow> (int \<times> sccp_state) outcome" where
  "GT_NOA_encode b buffer offset g s =
     (let d = gt_at s g
      in and_then (the_ptr (nature_of_address d)) (\<lambda>noa.
         and_then (the_ptr (odd_num_of_addr_signals d)) (\<lambda>odd.
         encode_title b buffer offset g [if odd then ucast noa OR 0x80 else ucast noa] s)))"

definition gt_encode :: "nat \<Rightarrow> nat \<Rightarrow> int \<Rightarrow> nat \<Rightarrow> sccp_state \<Rightarrow> (int \<times> sccp_state) outcome" where
  "gt_encode b buffer offset g s =
     (case gt_type (gt_at s g) of
        GT_NO_TITLE \<Rightarrow> GlobalTitle_encode b buffer offset g s
      | GT_NATURE_OF_ADDRESS_INDICATOR_ONLY \<Rightarrow> GT_NOA_encode b buffer offset g s
      | GT_TRANSLATION_TYPE_ONLY \<Rightarrow> GT_TT_encode b buffer offset g s
      | GT_TRANSLATION_TYPE_NUMNBERING_PLAN_ENCODING \<Rightarrow> GT_TTNPE_encode b buffer offset g s
      | GT_TRANSLATION_TYPE_NUMNBERING_PLAN_ENCODING_NATURE_OF_ADDRESS \<Rightarrow> GT_TTNPENOA_encode b buffer offset g s)"

section \<open>Reading a parameter\<close>

definition SCCPParam_init :: "buf_ptr \<Rightarrow> int \<Rightarrow> SCCPParam \<Rightarrow> SCCPParam" where
  "SCCPParam_init data data_length p = p\<lparr>param_value := Some data, value_length := data_length\<rparr>"

text \<open>Most classes read one octet, when there is one; \<open>bs\<close> is the buffer of \<open>data\<close>.\<close>

type_synonym param_reader = "u8 list \<Rightarrow> buf_ptr \<Rightarrow> int \<Rightarrow> SCCPParam \<Rightarrow> SCCPParam outcome"

definition init_octet :: "(u8 \<Rightarrow> sccp_members) \<Rightarrow> param_reader" where
  "init_octet f bs data data_length p =
     (let p = SCCPParam_init data data_length p
      in if data_length > 0 then and_then (byte_at bs (snd data)) (\<lambda>v. Returns (p\<lparr>members := f v\<rparr>)) else Returns p)"

definition ProtocolClass_init :: param_reader where
  "ProtocolClass_init bs data data_length p =
     (let p = SCCPParam_init data data_length p
      in and_then (byte_at bs (snd data)) (\<lambda>v.
         Returns (p\<lparr>members := ProtocolClass (Some (ucast v AND 0x0f)) (Some (ucast v AND 0xf0))\<rparr>)))"

definition HopCounter_init :: param_reader where
  "HopCounter_init = init_octet (\<lambda>v. HopCounter (ucast v AND 0xff))"

definition Importance_init :: param_reader where
  "Importance_init = init_octet (\<lambda>v. Importance (ucast v AND 0xff))"

definition Credit_init :: param_reader where
  "Credit_init = init_octet (\<lambda>v. Credit (ucast v AND 0xff))"

definition ReceiveSeqNum_init :: param_reader where
  "ReceiveSeqNum_init = init_octet (\<lambda>v. ReceiveSeqNum (drop_bit 1 (ucast v AND 0xff)))"

definition RefusalCause_init :: param_reader where
  "RefusalCause_init = init_octet (\<lambda>v. RefusalCause (Some (ucast v AND 0xff)))"

definition ReleaseCause_init :: param_reader where
  "ReleaseCause_init = init_octet (\<lambda>v. ReleaseCause (Some (ucast v AND 0xff)))"

definition ResetCause_init :: param_reader where
  "ResetCause_init = init_octet (\<lambda>v. ResetCause (Some (ucast v AND 0xff)))"

definition ReturnCause_init :: param_reader where
  "ReturnCause_init = init_octet (\<lambda>v. ReturnCause (Some (ucast v AND 0xff)))"

definition ErrorCause_init :: param_reader where
  "ErrorCause_init = init_octet (\<lambda>v. ErrorCause (Some (ucast v AND 0xff)))"

definition SegmReassm_init :: param_reader where
  "SegmReassm_init = init_octet (\<lambda>v. SegmReassm (Some (v AND 0x01 = 0x01)))"

definition get24 :: "u8 list \<Rightarrow> nat \<Rightarrow> c_int outcome" where
  "get24 bs q =
     and_then (byte_at bs q) (\<lambda>v0. and_then (byte_at bs (q + 1)) (\<lambda>v1. and_then (byte_at bs (q + 2)) (\<lambda>v2.
     Returns (push_bit 16 (ucast v0) + push_bit 8 (ucast v1) + (ucast v2 AND 0xff)))))"

definition Dlr_init :: param_reader where
  "Dlr_init bs data data_length p =
     (let p = SCCPParam_init data data_length p
      in if data_length \<ge> 3 then and_then (get24 bs (snd data)) (\<lambda>v. Returns (p\<lparr>members := Dlr v\<rparr>)) else Returns p)"

definition Slr_init :: param_reader where
  "Slr_init bs data data_length p =
     (let p = SCCPParam_init data data_length p
      in if data_length > 2 then and_then (get24 bs (snd data)) (\<lambda>v. Returns (p\<lparr>members := Slr (Some v)\<rparr>)) else Returns p)"

definition Segmentation_init :: param_reader where
  "Segmentation_init bs data data_length p =
     (let p = SCCPParam_init data data_length p
      in if data_length > 0
         then and_then (byte_at bs (snd data)) (\<lambda>v.
              Returns (p\<lparr>members := Segmentation (Some (v AND 0x80 = 0x80)) (Some (drop_bit 6 (ucast v AND 0x40)))
                (Some (ucast v AND 0x0f)) (Some (fst data, snd data + 1)) (data_length - 1)\<rparr>))
         else Returns p)"

definition SeqSegm_init :: param_reader where
  "SeqSegm_init bs data data_length p =
     (let p = SCCPParam_init data data_length p
      in if data_length > 1
         then and_then (byte_at bs (snd data)) (\<lambda>v0. and_then (byte_at bs (snd data + 1)) (\<lambda>v1.
              Returns (p\<lparr>members := SeqSegm (Some (drop_bit 1 (ucast v0 AND 0xfe))) (Some (drop_bit 1 (ucast v1 AND 0xfe)))
                (Some (v1 AND 0x01 = 0x01))\<rparr>)))
         else Returns p)"

text \<open>
  \<open>init\<close> of \<open>CalledPA\<close> and of \<open>CallingPA\<close>, which repeats it: the address indicator, then the
  parts it announces, each where \<open>byte_pos\<close> has come to.
\<close>

definition PA_init :: "u8 list \<Rightarrow> buf_ptr \<Rightarrow> int \<Rightarrow> nat \<Rightarrow> sccp_state \<Rightarrow> sccp_state outcome" where
  "PA_init bs data data_length a s =
     (let p = SCCPParam_init data data_length (param_at s a); q = snd data; i = param_byte_pos p
      in and_then (byte_at bs (q + i)) (\<lambda>v.
         let pa = (case members p of PartyAddress pa \<Rightarrow> pa | _ \<Rightarrow> party_address_new);
             ssn = (v AND 0x02 = 0x02); pc = (v AND 0x01 = 0x01); i = i + 1
         in and_then
              (if pc then and_then (byte_at bs (q + i + 1)) (\<lambda>v1. and_then (byte_at bs (q + i)) (\<lambda>v0.
                 Returns (Some (push_bit 8 (ucast v1 AND 0x3f) + ucast v0), i + 2)))
               else Returns (point_code pa, i)) (\<lambda>(code, i).
            and_then
              (if ssn then and_then (byte_at bs (q + i)) (\<lambda>v. Returns (Some (ucast v), i + 1))
               else Returns (subsystem_number pa, i)) (\<lambda>(number, i).
            and_then (GlobalTitle_decode bs (fst data, q + i) (data_length - int i) (ucast v AND 0x3c) s) (\<lambda>(gt, s).
            Returns (set_param a (p\<lparr>param_byte_pos := i, members := PartyAddress
              \<lparr>routing_indicator = Some (ucast v AND 0x40), global_title_indicator = Some (ucast v AND 0x3c),
               ssn_indicator = Some ssn, point_code_indicator = Some pc, point_code = code, subsystem_number = number,
               global_title = gt\<rparr>\<rparr>) s))))))"

text \<open>The virtual call \<open>init\<close>.\<close>

definition sccp_param_init :: "u8 list \<Rightarrow> buf_ptr \<Rightarrow> int \<Rightarrow> nat \<Rightarrow> sccp_state \<Rightarrow> sccp_state outcome" where
  "sccp_param_init bs data data_length a s =
     (let p = param_at s a; put = (\<lambda>r. and_then r (\<lambda>p. Returns (set_param a p s)))
      in case members p of
           No_Members \<Rightarrow> put (Returns (SCCPParam_init data data_length p))
         | LongData \<Rightarrow> put (Returns (SCCPParam_init data data_length p))
         | ProtocolClass _ _ \<Rightarrow> put (ProtocolClass_init bs data data_length p)
         | Dlr _ \<Rightarrow> put (Dlr_init bs data data_length p)
         | Slr _ \<Rightarrow> put (Slr_init bs data data_length p)
         | HopCounter _ \<Rightarrow> put (HopCounter_init bs data data_length p)
         | Importance _ \<Rightarrow> put (Importance_init bs data data_length p)
         | ReceiveSeqNum _ \<Rightarrow> put (ReceiveSeqNum_init bs data data_length p)
         | Credit _ \<Rightarrow> put (Credit_init bs data data_length p)
         | RefusalCause _ \<Rightarrow> put (RefusalCause_init bs data data_length p)
         | ReleaseCause _ \<Rightarrow> put (ReleaseCause_init bs data data_length p)
         | ResetCause _ \<Rightarrow> put (ResetCause_init bs data data_length p)
         | ReturnCause _ \<Rightarrow> put (ReturnCause_init bs data data_length p)
         | ErrorCause _ \<Rightarrow> put (ErrorCause_init bs data data_length p)
         | Segmentation _ _ _ _ _ \<Rightarrow> put (Segmentation_init bs data data_length p)
         | SegmReassm _ \<Rightarrow> put (SegmReassm_init bs data data_length p)
         | SeqSegm _ _ _ \<Rightarrow> put (SeqSegm_init bs data data_length p)
         | PartyAddress _ \<Rightarrow> PA_init bs data data_length a s)"

section \<open>Writing a parameter\<close>

text \<open>Type and length are written on request; the value is copied unless it is in place.\<close>

definition octets_if :: "bool \<Rightarrow> bool \<Rightarrow> int" where
  "octets_if enc_type enc_length = (if enc_type then 1 else 0) + (if enc_length then 1 else 0)"

definition SCCPParam_encode :: "nat \<Rightarrow> nat \<Rightarrow> int \<Rightarrow> bool \<Rightarrow> bool \<Rightarrow> nat \<Rightarrow> sccp_state \<Rightarrow> (int \<times> sccp_state) outcome" where
  "SCCPParam_encode b buffer offset enc_type enc_length a s =
     and_then (place buffer offset) (\<lambda>q.
     let p = param_at s a; n = value_length p;
         hdr = (if enc_type then [spt_value (param_type p)] else []) @ (if enc_length then [word_of_int n] else [])
     in and_then (put_octets b q hdr s) (\<lambda>s.
        and_then (if param_value p \<noteq> Some (b, q + length hdr) then memcpy b (q + length hdr) (param_value p) n s else Returns s) (\<lambda>s.
        Returns (n + octets_if enc_type enc_length, s))))"

definition LongData_encode :: "nat \<Rightarrow> nat \<Rightarrow> int \<Rightarrow> bool \<Rightarrow> bool \<Rightarrow> nat \<Rightarrow> sccp_state \<Rightarrow> (int \<times> sccp_state) outcome" where
  "LongData_encode b buffer offset enc_type enc_length a s =
     and_then (place buffer offset) (\<lambda>q.
     let p = param_at s a; n = value_length p;
         hdr = (if enc_type then [spt_value (param_type p)] else []) @
               (if enc_length then [word_of_int (drop_bit 8 n), word_of_int n] else [])
     in and_then (put_octets b q hdr s) (\<lambda>s.
        and_then (if param_value p \<noteq> Some (b, q + length hdr) then memcpy b (q + length hdr) (param_value p) n s else Returns s) (\<lambda>s.
        Returns (n + (if enc_length then 2 else 0) + (if enc_type then 1 else 0), s))))"

text \<open>The octets a class writes at \<open>value\<close>, after which the base class writes type and length.\<close>

definition ProtocolClass_octets :: "c_int option \<Rightarrow> c_int option \<Rightarrow> u8 list outcome" where
  "ProtocolClass_octets cls handling =
     and_then (the_ptr cls) (\<lambda>c. and_then (the_ptr handling) (\<lambda>h. Returns [ucast (c + h)]))"

definition Dlr_octets :: "c_int \<Rightarrow> u8 list" where
  "Dlr_octets v = [ucast (drop_bit 16 v), ucast (drop_bit 8 v), ucast v]"

definition Slr_octets :: "c_int option \<Rightarrow> u8 list outcome" where
  "Slr_octets v = and_then (the_ptr v) (\<lambda>v. Returns [ucast (drop_bit 16 v), ucast (drop_bit 8 v), ucast v])"

definition HopCounter_octets :: "c_int \<Rightarrow> u8 list" where
  "HopCounter_octets v = [ucast v]"

definition Importance_octets :: "c_int \<Rightarrow> u8 list" where
  "Importance_octets v = [ucast v]"

definition ReceiveSeqNum_octets :: "c_int \<Rightarrow> u8 list" where
  "ReceiveSeqNum_octets v = [ucast (push_bit 1 v)]"

definition Credit_octets :: "c_int \<Rightarrow> u8 list" where
  "Credit_octets v = [ucast v]"

definition RefusalCause_octets :: "c_int option \<Rightarrow> u8 list outcome" where
  "RefusalCause_octets v = and_then (the_ptr v) (\<lambda>v. Returns [ucast v])"

definition ReleaseCause_octets :: "c_int option \<Rightarrow> u8 list outcome" where
  "ReleaseCause_octets v = and_then (the_ptr v) (\<lambda>v. Returns [ucast v])"

definition ResetCause_octets :: "c_int option \<Rightarrow> u8 list outcome" where
  "ResetCause_octets v = and_then (the_ptr v) (\<lambda>v. Returns [ucast v])"

definition ReturnCause_octets :: "c_int option \<Rightarrow> u8 list outcome" where
  "ReturnCause_octets v = and_then (the_ptr v) (\<lambda>v. Returns [ucast v])"

definition ErrorCause_octets :: "c_int option \<Rightarrow> u8 list outcome" where
  "ErrorCause_octets v = and_then (the_ptr v) (\<lambda>v. Returns [ucast v])"

definition SegmReassm_octets :: "bool option \<Rightarrow> u8 list outcome" where
  "SegmReassm_octets md = and_then (the_ptr md) (\<lambda>md. Returns [if md then 0x01 else 0x00])"

definition SeqSegm_octets :: "c_int option \<Rightarrow> c_int option \<Rightarrow> bool option \<Rightarrow> u8 list outcome" where
  "SeqSegm_octets send recv md =
     and_then (the_ptr send) (\<lambda>send. and_then (the_ptr recv) (\<lambda>recv. and_then (the_ptr md) (\<lambda>md.
     Returns [ucast (push_bit 1 send), ucast (push_bit 1 recv) OR (if md then 0x01 else 0x00)])))"

definition Segmentation_octet :: "bool option \<Rightarrow> c_int option \<Rightarrow> c_int option \<Rightarrow> u8 outcome" where
  "Segmentation_octet is_first class_type remaining =
     and_then (the_ptr is_first) (\<lambda>f. and_then (the_ptr class_type) (\<lambda>c. and_then (the_ptr remaining) (\<lambda>r.
     Returns (ucast ((if f then 0x80 else 0x00) + push_bit 6 c + r)))))"

definition put_value :: "nat \<Rightarrow> nat \<Rightarrow> nat \<Rightarrow> int \<Rightarrow> u8 list \<Rightarrow> sccp_state \<Rightarrow> sccp_state outcome" where
  "put_value b q a n octets s =
     put_octets b q octets (set_param a ((param_at s a)\<lparr>param_value := Some (b, q), value_length := n\<rparr>) s)"

definition encode_octets :: "nat \<Rightarrow> nat \<Rightarrow> int \<Rightarrow> bool \<Rightarrow> bool \<Rightarrow> nat \<Rightarrow> u8 list outcome \<Rightarrow> sccp_state \<Rightarrow> (int \<times> sccp_state) outcome" where
  "encode_octets b buffer offset enc_type enc_length a octets s =
     and_then (place buffer (offset + octets_if enc_type enc_length)) (\<lambda>q.
     and_then octets (\<lambda>octets.
     and_then (put_value b q a (int (length octets)) octets s)
       (SCCPParam_encode b buffer offset enc_type enc_length a)))"

definition Segmentation_encode ::
  "nat \<Rightarrow> nat \<Rightarrow> int \<Rightarrow> bool \<Rightarrow> bool \<Rightarrow> nat \<Rightarrow> u8 outcome \<Rightarrow> buf_ptr option \<Rightarrow> int \<Rightarrow> sccp_state \<Rightarrow> (int \<times> sccp_state) outcome" where
  "Segmentation_encode b buffer offset enc_type enc_length a octet local_ref n s =
     and_then (place buffer (offset + octets_if enc_type enc_length)) (\<lambda>q.
     and_then octet (\<lambda>v.
     and_then (put_value b q a (1 + n) [v] s) (\<lambda>s.
     and_then (if n > 0 \<and> local_ref \<noteq> None then memcpy b (q + 1) local_ref n s else Returns s)
       (SCCPParam_encode b buffer offset enc_type enc_length a))))"

text \<open>The octets of an address before its global title; in the code \<open>point_code & 0x3f >> 8\<close> is \<open>point_code & 0\<close>.\<close>

definition pa_octets :: "party_address \<Rightarrow> u8 list outcome" where
  "pa_octets pa =
     and_then (the_ptr (routing_indicator pa)) (\<lambda>ri.
     and_then (the_ptr (global_title_indicator pa)) (\<lambda>gi.
     and_then (the_ptr (ssn_indicator pa)) (\<lambda>ssn.
     and_then (the_ptr (point_code_indicator pa)) (\<lambda>pc.
     and_then (if pc then and_then (the_ptr (point_code pa)) (\<lambda>v. Returns [ucast v, ucast (v AND drop_bit 8 0x3f)]) else Returns []) (\<lambda>cs.
     and_then (if ssn then and_then (the_ptr (subsystem_number pa)) (\<lambda>v. Returns [ucast v]) else Returns []) (\<lambda>ns.
     Returns (ucast (ri + gi + (if ssn then 0x02 else 0x00) + (if pc then 0x01 else 0x00)) # cs @ ns)))))))"

text \<open>\<open>encode\<close> of \<open>CalledPA\<close> and \<open>CallingPA\<close>: the global title first, behind the room for the other octets.\<close>

definition PA_encode :: "nat \<Rightarrow> nat \<Rightarrow> int \<Rightarrow> bool \<Rightarrow> bool \<Rightarrow> nat \<Rightarrow> party_address \<Rightarrow> sccp_state \<Rightarrow> (int \<times> sccp_state) outcome" where
  "PA_encode b buffer offset enc_type enc_length a pa s =
     and_then (the_ptr (point_code_indicator pa)) (\<lambda>pc.
     and_then (the_ptr (ssn_indicator pa)) (\<lambda>ssn.
     let head = (if pc then 2 else 0) + (if ssn then 1 else 0) + 1
     in and_then
          (case global_title pa of
             None \<Rightarrow> Returns (0, s)
           | Some g \<Rightarrow> and_then (the_ptr (global_title_indicator pa)) (\<lambda>gi.
               if gi \<noteq> gti_value GT_NO_TITLE
               then gt_encode b buffer (offset + head + octets_if enc_type enc_length) g s
               else Returns (0, s))) (\<lambda>(res_length, s).
        and_then (place buffer (offset + octets_if enc_type enc_length)) (\<lambda>q.
        and_then (pa_octets pa) (\<lambda>octets.
        and_then (put_value b q a (res_length + head) octets s) (\<lambda>s.
        SCCPParam_encode b buffer offset enc_type enc_length a
          (set_param a ((param_at s a)\<lparr>param_byte_pos := length octets\<rparr>) s)))))))"

text \<open>The virtual call \<open>encode\<close>.\<close>

definition sccp_param_encode :: "nat \<Rightarrow> nat \<Rightarrow> int \<Rightarrow> bool \<Rightarrow> bool \<Rightarrow> nat \<Rightarrow> sccp_state \<Rightarrow> (int \<times> sccp_state) outcome" where
  "sccp_param_encode b buffer offset enc_type enc_length a s =
     (let enc = (\<lambda>octets. encode_octets b buffer offset enc_type enc_length a octets s)
      in case members (param_at s a) of
           No_Members \<Rightarrow> SCCPParam_encode b buffer offset enc_type enc_length a s
         | LongData \<Rightarrow> LongData_encode b buffer offset enc_type enc_length a s
         | ProtocolClass c h \<Rightarrow> enc (ProtocolClass_octets c h)
         | Dlr v \<Rightarrow> enc (Returns (Dlr_octets v))
         | Slr v \<Rightarrow> enc (Slr_octets v)
         | HopCounter v \<Rightarrow> enc (Returns (HopCounter_octets v))
         | Importance v \<Rightarrow> enc (Returns (Importance_octets v))
         | ReceiveSeqNum v \<Rightarrow> enc (Returns (ReceiveSeqNum_octets v))
         | Credit v \<Rightarrow> enc (Returns (Credit_octets v))
         | RefusalCause v \<Rightarrow> enc (RefusalCause_octets v)
         | ReleaseCause v \<Rightarrow> enc (ReleaseCause_octets v)
         | ResetCause v \<Rightarrow> enc (ResetCause_octets v)
         | ReturnCause v \<Rightarrow> enc (ReturnCause_octets v)
         | ErrorCause v \<Rightarrow> enc (ErrorCause_octets v)
         | Segmentation f c r ref n \<Rightarrow>
             Segmentation_encode b buffer offset enc_type enc_length a (Segmentation_octet f c r) ref n s
         | SegmReassm md \<Rightarrow> enc (SegmReassm_octets md)
         | SeqSegm sd rv md \<Rightarrow> enc (SeqSegm_octets sd rv md)
         | PartyAddress pa \<Rightarrow> PA_encode b buffer offset enc_type enc_length a pa s)"

end
