(* ===== verification/Sccp.thy ===== *)
theory Sccp
  imports Sccp_Params
begin

text \<open>
  The messages of the SCCP codec, \<^verbatim>\<open>src/sccp/sccp.cpp\<close>: \<open>init\<close>, \<open>init_new\<close> and \<open>encode\<close> of each
  class, the loops over optional parameters, the pools and \<open>decode\<close>. \<open>init\<close> and \<open>encode\<close> of a
  message are lists of steps, one for each group of statements the code repeats.
\<close>

section \<open>Steps\<close>

fun steps :: "('s \<Rightarrow> 's outcome) list \<Rightarrow> 's \<Rightarrow> 's outcome" where
  "steps [] s = Returns s"
| "steps (f # fs) s = and_then (f s) (steps fs)"

definition update_message :: "nat \<Rightarrow> (SCCPMessage \<Rightarrow> SCCPMessage) \<Rightarrow> sccp_state \<Rightarrow> sccp_state" where
  "update_message m f s = set_message m (f (message_at s m)) s"

definition set_part :: "nat \<Rightarrow> SCCPParameterType \<Rightarrow> nat \<Rightarrow> sccp_state \<Rightarrow> sccp_state" where
  "set_part m slot a = update_message m (\<lambda>x. x\<lparr>part := (part x)(slot := Some a)\<rparr>)"

definition set_pointer_value :: "nat \<Rightarrow> nat \<Rightarrow> int \<Rightarrow> sccp_state \<Rightarrow> sccp_state" where
  "set_pointer_value m i v = update_message m (\<lambda>x. x\<lparr>pointer := (pointer x)[i := (pointer x ! i)\<lparr>ptr_value := v\<rparr>]\<rparr>)"

subsection \<open>Steps of \<open>init\<close>\<close>

text \<open>The buffer \<open>b\<close> holds \<open>bs\<close>, the data start at \<open>q\<close>; \<open>m\<close> is the message.\<close>

definition skip_octets :: "nat \<Rightarrow> nat \<Rightarrow> sccp_state \<Rightarrow> sccp_state outcome" where
  "skip_octets m n s = Returns (update_message m (\<lambda>x. x\<lparr>byte_pos := byte_pos x + n\<rparr>) s)"

text \<open>A parameter from its pool, initialised with \<open>n\<close> octets at position \<open>i\<close> of the buffer.\<close>

definition read_part ::
  "u8 list \<Rightarrow> nat \<Rightarrow> nat \<Rightarrow> SCCPParameterType \<Rightarrow> SCCPParameterType \<Rightarrow> nat \<Rightarrow> int \<Rightarrow> sccp_state \<Rightarrow> sccp_state outcome" where
  "read_part bs b m slot pt i n s =
     and_then (sccp_request_param pt s) (\<lambda>(param, s).
     and_then (the_ptr param) (\<lambda>a.
     sccp_param_init bs (b, i) n a (set_part m slot a (set_param a ((param_at s a)\<lparr>param_byte_pos := 0\<rparr>) s))))"

definition last_fixed_part ::
  "u8 list \<Rightarrow> nat \<Rightarrow> nat \<Rightarrow> nat \<Rightarrow> SCCPParameterType \<Rightarrow> SCCPParameterType \<Rightarrow> nat \<Rightarrow> sccp_state \<Rightarrow> sccp_state outcome" where
  "last_fixed_part bs b q m slot pt n s = read_part bs b m slot pt (q + byte_pos (message_at s m)) (int n) s"

definition fixed_part ::
  "u8 list \<Rightarrow> nat \<Rightarrow> nat \<Rightarrow> nat \<Rightarrow> SCCPParameterType \<Rightarrow> SCCPParameterType \<Rightarrow> nat \<Rightarrow> sccp_state \<Rightarrow> sccp_state outcome" where
  "fixed_part bs b q m slot pt n s = and_then (last_fixed_part bs b q m slot pt n s) (skip_octets m n)"

definition store_pointer :: "nat \<Rightarrow> nat \<Rightarrow> nat \<Rightarrow> nat \<Rightarrow> sccp_state \<Rightarrow> sccp_state" where
  "store_pointer m i v width = update_message m (\<lambda>x.
     x\<lparr>pointer := (pointer x)[i := \<lparr>ptr_value = int v, ptr_position = v + byte_pos x\<rparr>], byte_pos := byte_pos x + width\<rparr>)"

definition read_pointer :: "u8 list \<Rightarrow> nat \<Rightarrow> nat \<Rightarrow> nat \<Rightarrow> sccp_state \<Rightarrow> sccp_state outcome" where
  "read_pointer bs q m i s =
     and_then (byte_at bs (q + byte_pos (message_at s m))) (\<lambda>v. Returns (store_pointer m i (unat (v AND 0xff)) 1 s))"

definition read_long_pointer :: "u8 list \<Rightarrow> nat \<Rightarrow> nat \<Rightarrow> nat \<Rightarrow> sccp_state \<Rightarrow> sccp_state outcome" where
  "read_long_pointer bs q m i s =
     and_then (byte_at bs (q + byte_pos (message_at s m))) (\<lambda>v0.
     and_then (byte_at bs (q + byte_pos (message_at s m) + 1)) (\<lambda>v1.
     Returns (store_pointer m i (push_bit 8 (unat v0) + unat (v1 AND 0xff)) 2 s)))"

definition pointer_position :: "nat \<Rightarrow> nat \<Rightarrow> sccp_state \<Rightarrow> nat" where
  "pointer_position m i s = ptr_position (pointer (message_at s m) ! i)"

text \<open>A variable part: the length where the pointer points to, the value \<open>skip\<close> octets later.\<close>

definition variable_part ::
  "u8 list \<Rightarrow> nat \<Rightarrow> nat \<Rightarrow> nat \<Rightarrow> SCCPParameterType \<Rightarrow> nat \<Rightarrow> nat \<Rightarrow> sccp_state \<Rightarrow> sccp_state outcome" where
  "variable_part bs b q m slot skip i s =
     and_then (byte_at bs (q + pointer_position m i s)) (\<lambda>n.
     read_part bs b m slot slot (q + pointer_position m i s + skip) (int (unat (n AND 0xff))) s)"

definition pass_part :: "u8 list \<Rightarrow> nat \<Rightarrow> nat \<Rightarrow> nat \<Rightarrow> nat \<Rightarrow> sccp_state \<Rightarrow> sccp_state outcome" where
  "pass_part bs q m extra i s =
     and_then (byte_at bs (q + pointer_position m i s)) (\<lambda>n. skip_octets m (unat (n AND 0xff) + extra) s)"

text \<open>
  The loop over the optional parameters. It ends at their end mark, or at a type without a
  pool; the length of the data is an argument the code never looks at.
\<close>

function process_optional :: "u8 list \<Rightarrow> nat \<Rightarrow> nat \<Rightarrow> nat \<Rightarrow> sccp_state \<Rightarrow> sccp_state outcome" where
  "process_optional bs b m i s =
     and_then (byte_at bs i) (\<lambda>t.
     and_then (case spt_of t of None \<Rightarrow> Returns (None, s) | Some pt \<Rightarrow> sccp_request_param pt s) (\<lambda>(param, s).
     case param of
       None \<Rightarrow> Returns s
     | Some a \<Rightarrow>
         if param_type (param_at s a) = END_OF_OPTIONAL_PARAMETERS then Returns s
         else and_then (byte_at bs (i + 1)) (\<lambda>l.
              and_then (sccp_param_init bs (b, i + 2) (int (unat l)) a (set_param a ((param_at s a)\<lparr>param_byte_pos := 0\<rparr>) s)) (\<lambda>s.
              process_optional bs b m (i + 2 + unat l) (update_message m (\<lambda>x. x\<lparr>optional_params := optional_params x @ [a]\<rparr>) s)))))"
  by pat_completeness auto

termination process_optional
  by (relation "measure (\<lambda>(bs, b, m, i, s). length bs - i)") (auto simp: byte_at_def split: if_splits)

declare process_optional.simps [simp del]

definition process_optional_params :: "u8 list \<Rightarrow> nat \<Rightarrow> nat \<Rightarrow> int \<Rightarrow> nat \<Rightarrow> sccp_state \<Rightarrow> sccp_state outcome" where
  "process_optional_params bs b i data_length m s =
     and_then (byte_at bs i) (\<lambda>v. if v \<noteq> 0x00 then process_optional bs b m i s else Returns s)"

definition optional_part :: "u8 list \<Rightarrow> nat \<Rightarrow> nat \<Rightarrow> int \<Rightarrow> nat \<Rightarrow> nat \<Rightarrow> sccp_state \<Rightarrow> sccp_state outcome" where
  "optional_part bs b q data_length m i s =
     process_optional_params bs b (q + pointer_position m i s) (data_length - int (byte_pos (message_at s m))) m s"

subsection \<open>Steps of \<open>encode\<close>\<close>

text \<open>
  The local variables of \<open>encode\<close> and what \<open>result_length\<close> points to. The message starts at
  \<open>q\<close> of the buffer \<open>b\<close>.
\<close>

record enc_locals =
  tmp_l :: int
  result_length :: int
  tmp_pointers :: nat

definition enc_type_octet :: "nat \<Rightarrow> nat \<Rightarrow> nat \<Rightarrow> enc_locals \<times> sccp_state \<Rightarrow> (enc_locals \<times> sccp_state) outcome" where
  "enc_type_octet b q m = (\<lambda>(l, s).
     and_then (put_octets b q [smt_value (message_type (message_at s m))] s) (\<lambda>s. Returns (l\<lparr>tmp_l := tmp_l l + 1\<rparr>, s)))"

definition enc_part ::
  "bool \<Rightarrow> nat \<Rightarrow> nat \<Rightarrow> nat \<Rightarrow> SCCPParameterType \<Rightarrow> enc_locals \<times> sccp_state \<Rightarrow> (enc_locals \<times> sccp_state) outcome" where
  "enc_part with_length b q m slot = (\<lambda>(l, s).
     and_then (the_ptr (part (message_at s m) slot)) (\<lambda>a.
     and_then (sccp_param_encode b q (tmp_l l) False with_length a s) (\<lambda>(rl, s).
     Returns (l\<lparr>tmp_l := tmp_l l + rl, result_length := rl\<rparr>, s))))"

definition enc_pointers :: "nat \<Rightarrow> nat \<Rightarrow> nat \<Rightarrow> enc_locals \<times> sccp_state \<Rightarrow> (enc_locals \<times> sccp_state) outcome" where
  "enc_pointers q m n = (\<lambda>(l, s).
     and_then (place q (tmp_l l)) (\<lambda>r.
     Returns (l\<lparr>tmp_pointers := r, tmp_l := tmp_l l + int n\<rparr>, set_pointer_value m 0 (int n) s)))"

text \<open>Pointer values are computed from the last result length and other pointer values.\<close>

type_synonym pointer_expr = "int \<Rightarrow> (nat \<Rightarrow> int) \<Rightarrow> int"

definition pointer_values :: "nat \<Rightarrow> sccp_state \<Rightarrow> nat \<Rightarrow> int" where
  "pointer_values m s = (\<lambda>i. ptr_value (pointer (message_at s m) ! i))"

definition enc_set_pointer :: "nat \<Rightarrow> nat \<Rightarrow> pointer_expr \<Rightarrow> enc_locals \<times> sccp_state \<Rightarrow> (enc_locals \<times> sccp_state) outcome" where
  "enc_set_pointer m i e = (\<lambda>(l, s). Returns (l, set_pointer_value m i (e (result_length l) (pointer_values m s)) s))"

definition enc_write_pointers :: "nat \<Rightarrow> nat \<Rightarrow> pointer_expr list \<Rightarrow> enc_locals \<times> sccp_state \<Rightarrow> (enc_locals \<times> sccp_state) outcome" where
  "enc_write_pointers b m es = (\<lambda>(l, s).
     and_then (put_octets b (tmp_pointers l) (map (\<lambda>e. word_of_int (e (result_length l) (pointer_values m s))) es) s) (\<lambda>s.
     Returns (l, s)))"

fun encode_optional :: "nat \<Rightarrow> nat \<Rightarrow> int \<Rightarrow> int \<Rightarrow> nat list \<Rightarrow> sccp_state \<Rightarrow> (int \<times> int \<times> sccp_state) outcome" where
  "encode_optional b buffer offset result [] s = Returns (offset, result, s)"
| "encode_optional b buffer offset result (a # as) s =
     and_then (sccp_param_encode b buffer offset True True a s) (\<lambda>(tmp_length, s).
     encode_optional b buffer (offset + tmp_length) (result + tmp_length) as s)"

definition encode_optional_params :: "nat \<Rightarrow> nat \<Rightarrow> int \<Rightarrow> nat list \<Rightarrow> sccp_state \<Rightarrow> (int \<times> sccp_state) outcome" where
  "encode_optional_params b buffer offset as s =
     (if as = [] then Returns (0, s)
      else and_then (encode_optional b buffer offset 0 as s) (\<lambda>(offset, result, s).
           and_then (place buffer offset) (\<lambda>q.
           and_then (put_octets b q [spt_value END_OF_OPTIONAL_PARAMETERS] s) (\<lambda>s. Returns (result + 1, s)))))"

definition enc_optional :: "nat \<Rightarrow> nat \<Rightarrow> nat \<Rightarrow> enc_locals \<times> sccp_state \<Rightarrow> (enc_locals \<times> sccp_state) outcome" where
  "enc_optional b q m = (\<lambda>(l, s).
     and_then (encode_optional_params b q (tmp_l l) (optional_params (message_at s m)) s) (\<lambda>(rl, s).
     Returns (l\<lparr>tmp_l := tmp_l l + rl, result_length := rl\<rparr>, s)))"

section \<open>Messages\<close>

type_synonym message_reader = "u8 list \<Rightarrow> nat \<Rightarrow> nat \<Rightarrow> int \<Rightarrow> nat \<Rightarrow> sccp_state \<Rightarrow> sccp_state outcome"

type_synonym message_writer = "nat \<Rightarrow> nat \<Rightarrow> nat \<Rightarrow> enc_locals \<times> sccp_state \<Rightarrow> (enc_locals \<times> sccp_state) outcome"

definition XUDTS_ExtendedUnitdataService_init :: message_reader where
  "XUDTS_ExtendedUnitdataService_init bs b q data_length m =
     steps
       [skip_octets m 1, fixed_part bs b q m RETURN_CAUSE RETURN_CAUSE 1, fixed_part bs b q m HOP_COUNTER HOP_COUNTER 1,
        read_pointer bs q m 0, read_pointer bs q m 1, read_pointer bs q m 2, read_pointer bs q m 3,
        variable_part bs b q m CALLED_PARTY_ADDRESS 1 0, variable_part bs b q m CALLING_PARTY_ADDRESS 1 1,
        variable_part bs b q m DATA 1 2, pass_part bs q m 2 0, pass_part bs q m 2 1, pass_part bs q m 2 2,
        optional_part bs b q data_length m 3]"

definition XUDTS_ExtendedUnitdataService_encode :: message_writer where
  "XUDTS_ExtendedUnitdataService_encode b q m =
     steps
       [enc_type_octet b q m, enc_part False b q m RETURN_CAUSE, enc_part False b q m HOP_COUNTER, enc_pointers q m 4,
        enc_part True b q m CALLED_PARTY_ADDRESS, enc_set_pointer m 1 (\<lambda>rl v. rl),
        enc_part True b q m CALLING_PARTY_ADDRESS, enc_set_pointer m 2 (\<lambda>rl v. rl + v 1),
        enc_part True b q m DATA, enc_set_pointer m 3 (\<lambda>rl v. rl + v 2 + v 1), enc_optional b q m,
        enc_write_pointers b m [\<lambda>rl v. v 0, \<lambda>rl v. v 1 + 3, \<lambda>rl v. v 2 + 2, \<lambda>rl v. if rl = 0 then 0x00 else v 3 + 1]]"

definition XUDT_ExtendedUnitdata_init :: message_reader where
  "XUDT_ExtendedUnitdata_init bs b q data_length m =
     steps
       [skip_octets m 1, fixed_part bs b q m PROTOCOL_CLASS PROTOCOL_CLASS 1,
        fixed_part bs b q m HOP_COUNTER HOP_COUNTER 1, read_pointer bs q m 0, read_pointer bs q m 1,
        read_pointer bs q m 2, read_pointer bs q m 3, variable_part bs b q m CALLED_PARTY_ADDRESS 1 0,
        variable_part bs b q m CALLING_PARTY_ADDRESS 1 1, variable_part bs b q m DATA 1 2, pass_part bs q m 2 0,
        pass_part bs q m 2 1, pass_part bs q m 2 2, optional_part bs b q data_length m 3]"

definition XUDT_ExtendedUnitdata_encode :: message_writer where
  "XUDT_ExtendedUnitdata_encode b q m =
     steps
       [enc_type_octet b q m, enc_part False b q m PROTOCOL_CLASS, enc_part False b q m HOP_COUNTER,
        enc_pointers q m 4, enc_part True b q m CALLED_PARTY_ADDRESS, enc_set_pointer m 1 (\<lambda>rl v. rl),
        enc_part True b q m CALLING_PARTY_ADDRESS, enc_set_pointer m 2 (\<lambda>rl v. rl + v 1),
        enc_part True b q m DATA, enc_set_pointer m 3 (\<lambda>rl v. rl + v 2 + v 1), enc_optional b q m,
        enc_write_pointers b m [\<lambda>rl v. v 0, \<lambda>rl v. v 1 + 3, \<lambda>rl v. v 2 + 2, \<lambda>rl v. if rl = 0 then 0x00 else v 3 + 1]]"

definition UDTS_UnitDataService_init :: message_reader where
  "UDTS_UnitDataService_init bs b q data_length m =
     steps
       [skip_octets m 1, fixed_part bs b q m RETURN_CAUSE RETURN_CAUSE 1, read_pointer bs q m 0, read_pointer bs q m 1,
        read_pointer bs q m 2, variable_part bs b q m CALLED_PARTY_ADDRESS 1 0,
        variable_part bs b q m CALLING_PARTY_ADDRESS 1 1, variable_part bs b q m DATA 1 2]"

definition UDTS_UnitDataService_encode :: message_writer where
  "UDTS_UnitDataService_encode b q m =
     steps
       [enc_type_octet b q m, enc_part False b q m RETURN_CAUSE, enc_pointers q m 3,
        enc_part True b q m CALLED_PARTY_ADDRESS, enc_set_pointer m 1 (\<lambda>rl v. rl),
        enc_part True b q m CALLING_PARTY_ADDRESS, enc_set_pointer m 2 (\<lambda>rl v. rl + v 1),
        enc_part True b q m DATA,
        enc_write_pointers b m [\<lambda>rl v. v 0, \<lambda>rl v. v 1 + 2, \<lambda>rl v. v 2 + 1]]"

definition RSR_ResetRequest_init :: message_reader where
  "RSR_ResetRequest_init bs b q data_length m =
     steps
       [skip_octets m 1, fixed_part bs b q m DESTINATION_LOCAL_REFERENCE DESTINATION_LOCAL_REFERENCE 3,
        fixed_part bs b q m SOURCE_LOCAL_REFERENCE SOURCE_LOCAL_REFERENCE 3,
        fixed_part bs b q m RESET_CAUSE RESET_CAUSE 1, read_pointer bs q m 0]"

definition RSR_ResetRequest_encode :: message_writer where
  "RSR_ResetRequest_encode b q m =
     steps
       [enc_type_octet b q m, enc_part False b q m DESTINATION_LOCAL_REFERENCE,
        enc_part False b q m SOURCE_LOCAL_REFERENCE, enc_part False b q m RESET_CAUSE, enc_pointers q m 1,
        enc_optional b q m, enc_write_pointers b m [\<lambda>rl v. if rl = 0 then 0x00 else v 0]]"

definition RSC_ResetConfirmation_init :: message_reader where
  "RSC_ResetConfirmation_init bs b q data_length m =
     steps
       [skip_octets m 1, fixed_part bs b q m DESTINATION_LOCAL_REFERENCE DESTINATION_LOCAL_REFERENCE 3,
        fixed_part bs b q m SOURCE_LOCAL_REFERENCE SOURCE_LOCAL_REFERENCE 3]"

definition RSC_ResetConfirmation_encode :: message_writer where
  "RSC_ResetConfirmation_encode b q m =
     steps
       [enc_type_octet b q m, enc_part False b q m DESTINATION_LOCAL_REFERENCE,
        enc_part False b q m SOURCE_LOCAL_REFERENCE]"

definition RLSD_Released_init :: message_reader where
  "RLSD_Released_init bs b q data_length m =
     steps
       [skip_octets m 1, fixed_part bs b q m DESTINATION_LOCAL_REFERENCE DESTINATION_LOCAL_REFERENCE 3,
        fixed_part bs b q m SOURCE_LOCAL_REFERENCE SOURCE_LOCAL_REFERENCE 3,
        fixed_part bs b q m RELEASE_CAUSE RELEASE_CAUSE 1, read_pointer bs q m 0, optional_part bs b q data_length m 0]"

definition RLSD_Released_encode :: message_writer where
  "RLSD_Released_encode b q m =
     steps
       [enc_type_octet b q m, enc_part False b q m DESTINATION_LOCAL_REFERENCE,
        enc_part False b q m SOURCE_LOCAL_REFERENCE, enc_part False b q m RELEASE_CAUSE, enc_pointers q m 1,
        enc_optional b q m, enc_write_pointers b m [\<lambda>rl v. if rl = 0 then 0x00 else v 0]]"

definition RLC_ReleaseComplete_init :: message_reader where
  "RLC_ReleaseComplete_init bs b q data_length m =
     steps
       [skip_octets m 1, fixed_part bs b q m DESTINATION_LOCAL_REFERENCE DESTINATION_LOCAL_REFERENCE 3,
        fixed_part bs b q m SOURCE_LOCAL_REFERENCE SOURCE_LOCAL_REFERENCE 3]"

definition RLC_ReleaseComplete_encode :: message_writer where
  "RLC_ReleaseComplete_encode b q m =
     steps
       [enc_type_octet b q m, enc_part False b q m DESTINATION_LOCAL_REFERENCE,
        enc_part False b q m SOURCE_LOCAL_REFERENCE]"

definition LUDTS_LongUnitdataService_init :: message_reader where
  "LUDTS_LongUnitdataService_init bs b q data_length m =
     steps
       [skip_octets m 1, fixed_part bs b q m RETURN_CAUSE RETURN_CAUSE 1, fixed_part bs b q m HOP_COUNTER HOP_COUNTER 1,
        read_long_pointer bs q m 0, read_long_pointer bs q m 1, read_long_pointer bs q m 2,
        read_long_pointer bs q m 3, variable_part bs b q m CALLED_PARTY_ADDRESS 2 0,
        variable_part bs b q m CALLING_PARTY_ADDRESS 2 1, variable_part bs b q m LONG_DATA 2 2, pass_part bs q m 2 0,
        pass_part bs q m 2 1, pass_part bs q m 2 2, optional_part bs b q data_length m 3]"

definition LUDTS_LongUnitdataService_encode :: message_writer where
  "LUDTS_LongUnitdataService_encode b q m =
     steps
       [enc_type_octet b q m, enc_part False b q m RETURN_CAUSE, enc_part False b q m HOP_COUNTER, enc_pointers q m 8,
        enc_part True b q m CALLED_PARTY_ADDRESS, enc_set_pointer m 1 (\<lambda>rl v. rl),
        enc_part True b q m CALLING_PARTY_ADDRESS, enc_set_pointer m 2 (\<lambda>rl v. rl + v 1),
        enc_part True b q m LONG_DATA, enc_set_pointer m 3 (\<lambda>rl v. rl + v 2 + v 1), enc_optional b q m,
        enc_write_pointers b m [\<lambda>rl v. v 0, \<lambda>rl v. v 1 + 3 * 2, \<lambda>rl v. v 2 + 2 * 2, \<lambda>rl v. if rl = 0 then 0x00 else v 3 + 1 * 2]]"

definition LUDT_LongUnitdata_init :: message_reader where
  "LUDT_LongUnitdata_init bs b q data_length m =
     steps
       [skip_octets m 1, fixed_part bs b q m PROTOCOL_CLASS PROTOCOL_CLASS 1,
        fixed_part bs b q m HOP_COUNTER HOP_COUNTER 1, read_long_pointer bs q m 0, read_long_pointer bs q m 1,
        read_long_pointer bs q m 2, read_long_pointer bs q m 3, variable_part bs b q m CALLED_PARTY_ADDRESS 2 0,
        variable_part bs b q m CALLING_PARTY_ADDRESS 2 1, variable_part bs b q m LONG_DATA 2 2, pass_part bs q m 2 0,
        pass_part bs q m 2 1, pass_part bs q m 2 2, optional_part bs b q data_length m 3]"

definition LUDT_LongUnitdata_encode :: message_writer where
  "LUDT_LongUnitdata_encode b q m =
     steps
       [enc_type_octet b q m, enc_part False b q m PROTOCOL_CLASS, enc_part False b q m HOP_COUNTER,
        enc_pointers q m 8, enc_part True b q m CALLED_PARTY_ADDRESS, enc_set_pointer m 1 (\<lambda>rl v. rl),
        enc_part True b q m CALLING_PARTY_ADDRESS, enc_set_pointer m 2 (\<lambda>rl v. rl + v 1),
        enc_part True b q m LONG_DATA, enc_set_pointer m 3 (\<lambda>rl v. rl + v 2 + v 1), enc_optional b q m,
        enc_write_pointers b m [\<lambda>rl v. v 0, \<lambda>rl v. v 1 + 3 * 2, \<lambda>rl v. v 2 + 2 * 2, \<lambda>rl v. if rl = 0 then 0x00 else v 3 + 1 * 2]]"

definition IT_InactivityTest_init :: message_reader where
  "IT_InactivityTest_init bs b q data_length m =
     steps
       [skip_octets m 1, fixed_part bs b q m DESTINATION_LOCAL_REFERENCE DESTINATION_LOCAL_REFERENCE 3,
        fixed_part bs b q m SOURCE_LOCAL_REFERENCE SOURCE_LOCAL_REFERENCE 3,
        fixed_part bs b q m PROTOCOL_CLASS PROTOCOL_CLASS 1,
        fixed_part bs b q m SEQUENCING_SEGMENTING SEQUENCING_SEGMENTING 2, last_fixed_part bs b q m CREDIT CREDIT 1]"

definition IT_InactivityTest_encode :: message_writer where
  "IT_InactivityTest_encode b q m =
     steps
       [enc_type_octet b q m, enc_part False b q m DESTINATION_LOCAL_REFERENCE,
        enc_part False b q m SOURCE_LOCAL_REFERENCE, enc_part False b q m PROTOCOL_CLASS,
        enc_part False b q m SEQUENCING_SEGMENTING, enc_part False b q m CREDIT]"

definition ERR_PduError_init :: message_reader where
  "ERR_PduError_init bs b q data_length m =
     steps
       [skip_octets m 1, fixed_part bs b q m DESTINATION_LOCAL_REFERENCE DESTINATION_LOCAL_REFERENCE 3,
        fixed_part bs b q m ERROR_CAUSE ERROR_CAUSE 1, read_pointer bs q m 0]"

definition ERR_PduError_encode :: message_writer where
  "ERR_PduError_encode b q m =
     steps
       [enc_type_octet b q m, enc_part False b q m DESTINATION_LOCAL_REFERENCE, enc_pointers q m 1,
        enc_optional b q m, enc_write_pointers b m [\<lambda>rl v. if rl = 0 then 0x00 else v 0]]"

definition ED_ExpeditedData_init :: message_reader where
  "ED_ExpeditedData_init bs b q data_length m =
     steps
       [skip_octets m 1, fixed_part bs b q m DESTINATION_LOCAL_REFERENCE DESTINATION_LOCAL_REFERENCE 3,
        read_pointer bs q m 0, variable_part bs b q m DATA 1 0]"

definition ED_ExpeditedData_encode :: message_writer where
  "ED_ExpeditedData_encode b q m =
     steps
       [enc_type_octet b q m, enc_part False b q m DESTINATION_LOCAL_REFERENCE, enc_pointers q m 1,
        enc_part True b q m DATA, enc_write_pointers b m [\<lambda>rl v. v 0]]"

definition EA_ExpeditedDataAck_init :: message_reader where
  "EA_ExpeditedDataAck_init bs b q data_length m =
     steps
       [skip_octets m 1, fixed_part bs b q m DESTINATION_LOCAL_REFERENCE DESTINATION_LOCAL_REFERENCE 3]"

definition EA_ExpeditedDataAck_encode :: message_writer where
  "EA_ExpeditedDataAck_encode b q m =
     steps
       [enc_type_octet b q m, enc_part False b q m DESTINATION_LOCAL_REFERENCE]"

definition DT2_DataForm2_init :: message_reader where
  "DT2_DataForm2_init bs b q data_length m =
     steps
       [skip_octets m 1, fixed_part bs b q m DESTINATION_LOCAL_REFERENCE DESTINATION_LOCAL_REFERENCE 3,
        fixed_part bs b q m SEGMENTING_REASSEMBLING SEGMENTING_REASSEMBLING 1, read_pointer bs q m 0,
        variable_part bs b q m DATA 1 0]"

definition DT2_DataForm2_encode :: message_writer where
  "DT2_DataForm2_encode b q m =
     steps
       [enc_type_octet b q m, enc_part False b q m DESTINATION_LOCAL_REFERENCE,
        enc_part False b q m SEGMENTING_REASSEMBLING, enc_pointers q m 1, enc_part True b q m DATA,
        enc_write_pointers b m [\<lambda>rl v. v 0]]"

definition DT1_DataForm1_init :: message_reader where
  "DT1_DataForm1_init bs b q data_length m =
     steps
       [skip_octets m 1, fixed_part bs b q m DESTINATION_LOCAL_REFERENCE DESTINATION_LOCAL_REFERENCE 3,
        fixed_part bs b q m SEGMENTING_REASSEMBLING SEGMENTING_REASSEMBLING 1, read_pointer bs q m 0,
        variable_part bs b q m DATA 1 0]"

definition DT1_DataForm1_encode :: message_writer where
  "DT1_DataForm1_encode b q m =
     steps
       [enc_type_octet b q m, enc_part False b q m DESTINATION_LOCAL_REFERENCE,
        enc_part False b q m SEGMENTING_REASSEMBLING, enc_pointers q m 1, enc_part True b q m DATA,
        enc_write_pointers b m [\<lambda>rl v. v 0]]"

definition CREF_ConnectionRefused_init :: message_reader where
  "CREF_ConnectionRefused_init bs b q data_length m =
     steps
       [skip_octets m 1, fixed_part bs b q m DESTINATION_LOCAL_REFERENCE DESTINATION_LOCAL_REFERENCE 3,
        fixed_part bs b q m REFUSAL_CAUSE REFUSAL_CAUSE 1, read_pointer bs q m 0, optional_part bs b q data_length m 0]"

definition CREF_ConnectionRefused_encode :: message_writer where
  "CREF_ConnectionRefused_encode b q m =
     steps
       [enc_type_octet b q m, enc_part False b q m DESTINATION_LOCAL_REFERENCE, enc_part False b q m REFUSAL_CAUSE,
        enc_pointers q m 1, enc_optional b q m, enc_write_pointers b m [\<lambda>rl v. if rl = 0 then 0x00 else v 0]]"

definition CR_ConnectionRequest_init :: message_reader where
  "CR_ConnectionRequest_init bs b q data_length m =
     steps
       [skip_octets m 1, fixed_part bs b q m SOURCE_LOCAL_REFERENCE SOURCE_LOCAL_REFERENCE 3,
        fixed_part bs b q m PROTOCOL_CLASS PROTOCOL_CLASS 1, read_pointer bs q m 0, read_pointer bs q m 1,
        variable_part bs b q m CALLED_PARTY_ADDRESS 1 0, pass_part bs q m 1 0, optional_part bs b q data_length m 1]"

definition CR_ConnectionRequest_encode :: message_writer where
  "CR_ConnectionRequest_encode b q m =
     steps
       [enc_type_octet b q m, enc_part False b q m SOURCE_LOCAL_REFERENCE, enc_part False b q m PROTOCOL_CLASS,
        enc_pointers q m 2, enc_part True b q m CALLED_PARTY_ADDRESS, enc_set_pointer m 1 (\<lambda>rl v. rl),
        enc_optional b q m,
        enc_write_pointers b m [\<lambda>rl v. v 0, \<lambda>rl v. if rl = 0 then 0x00 else v 1 + 1]]"

definition CC_ConnectionConfirm_init :: message_reader where
  "CC_ConnectionConfirm_init bs b q data_length m =
     steps
       [skip_octets m 1, fixed_part bs b q m DESTINATION_LOCAL_REFERENCE DESTINATION_LOCAL_REFERENCE 3,
        fixed_part bs b q m SOURCE_LOCAL_REFERENCE SOURCE_LOCAL_REFERENCE 3,
        fixed_part bs b q m PROTOCOL_CLASS PROTOCOL_CLASS 1, read_pointer bs q m 0,
        optional_part bs b q data_length m 0]"

definition CC_ConnectionConfirm_encode :: message_writer where
  "CC_ConnectionConfirm_encode b q m =
     steps
       [enc_type_octet b q m, enc_part False b q m DESTINATION_LOCAL_REFERENCE,
        enc_part False b q m SOURCE_LOCAL_REFERENCE, enc_part False b q m PROTOCOL_CLASS, enc_pointers q m 1,
        enc_optional b q m, enc_write_pointers b m [\<lambda>rl v. if rl = 0 then 0x00 else v 0]]"

definition AK_DataAcknowledgement_init :: message_reader where
  "AK_DataAcknowledgement_init bs b q data_length m =
     steps
       [skip_octets m 1, fixed_part bs b q m DESTINATION_LOCAL_REFERENCE DESTINATION_LOCAL_REFERENCE 3,
        fixed_part bs b q m RECEIVE_SEQUENCE_NUMBER RECEIVE_SEQUENCE_NUMBER 1,
        fixed_part bs b q m CREDIT RECEIVE_SEQUENCE_NUMBER 1]"

definition AK_DataAcknowledgement_encode :: message_writer where
  "AK_DataAcknowledgement_encode b q m =
     steps
       [enc_type_octet b q m, enc_part False b q m DESTINATION_LOCAL_REFERENCE,
        enc_part False b q m RECEIVE_SEQUENCE_NUMBER, enc_part False b q m CREDIT]"

definition UDT_UnitData_init :: message_reader where
  "UDT_UnitData_init bs b q data_length m =
     steps
       [skip_octets m 1, fixed_part bs b q m PROTOCOL_CLASS PROTOCOL_CLASS 1, read_pointer bs q m 0,
        read_pointer bs q m 1, read_pointer bs q m 2, variable_part bs b q m CALLED_PARTY_ADDRESS 1 0,
        variable_part bs b q m CALLING_PARTY_ADDRESS 1 1, variable_part bs b q m DATA 1 2]"

definition UDT_UnitData_encode :: message_writer where
  "UDT_UnitData_encode b q m =
     steps
       [enc_type_octet b q m, enc_part False b q m PROTOCOL_CLASS, enc_pointers q m 3,
        enc_part True b q m CALLED_PARTY_ADDRESS, enc_set_pointer m 1 (\<lambda>rl v. rl),
        enc_part True b q m CALLING_PARTY_ADDRESS, enc_set_pointer m 2 (\<lambda>rl v. rl + v 1),
        enc_part True b q m DATA,
        enc_write_pointers b m [\<lambda>rl v. v 0, \<lambda>rl v. v 1 + 2, \<lambda>rl v. v 2 + 1]]"

text \<open>The virtual calls.\<close>

primrec message_init :: "SCCPMessageType \<Rightarrow> message_reader" where
  "message_init CR_CONNECTION_REQUEST = CR_ConnectionRequest_init"
| "message_init CC_CONNECTION_CONFIRM = CC_ConnectionConfirm_init"
| "message_init CREF_CONNECTION_REFUSED = CREF_ConnectionRefused_init"
| "message_init RLSD_RELEASED = RLSD_Released_init"
| "message_init RLC_RELEASE_COMPLETE = RLC_ReleaseComplete_init"
| "message_init DT1_DATA_FORM_1 = DT1_DataForm1_init"
| "message_init DT2_DATA_FORM_2 = DT2_DataForm2_init"
| "message_init AK_DATA_ACKNOWLEDGEMENT = AK_DataAcknowledgement_init"
| "message_init UDT_UNITDATA = UDT_UnitData_init"
| "message_init UDTS_UNITDATA_SERVICE = UDTS_UnitDataService_init"
| "message_init ED_EXPEDITED_DATA = ED_ExpeditedData_init"
| "message_init EA_EXPEDITED_DATA_ACKNOWLEDGMENT = EA_ExpeditedDataAck_init"
| "message_init RSR_RESET_REQUEST = RSR_ResetRequest_init"
| "message_init RSC_RESET_CONFIRM = RSC_ResetConfirmation_init"
| "message_init ERR_PROTOCOL_DATA_UNIT_ERROR = ERR_PduError_init"
| "message_init IT_INACTIVITY_TEST = IT_InactivityTest_init"
| "message_init XUDT_EXTENDED_UNITDATA = XUDT_ExtendedUnitdata_init"
| "message_init XUDTS_EXTENDED_UNIDATA_SERVICE = XUDTS_ExtendedUnitdataService_init"
| "message_init LUDT_LONG_UNIDATA = LUDT_LongUnitdata_init"
| "message_init LUDTS_LONG_UNIDATA_SERVICE = LUDTS_LongUnitdataService_init"

primrec message_encode :: "SCCPMessageType \<Rightarrow> message_writer" where
  "message_encode CR_CONNECTION_REQUEST = CR_ConnectionRequest_encode"
| "message_encode CC_CONNECTION_CONFIRM = CC_ConnectionConfirm_encode"
| "message_encode CREF_CONNECTION_REFUSED = CREF_ConnectionRefused_encode"
| "message_encode RLSD_RELEASED = RLSD_Released_encode"
| "message_encode RLC_RELEASE_COMPLETE = RLC_ReleaseComplete_encode"
| "message_encode DT1_DATA_FORM_1 = DT1_DataForm1_encode"
| "message_encode DT2_DATA_FORM_2 = DT2_DataForm2_encode"
| "message_encode AK_DATA_ACKNOWLEDGEMENT = AK_DataAcknowledgement_encode"
| "message_encode UDT_UNITDATA = UDT_UnitData_encode"
| "message_encode UDTS_UNITDATA_SERVICE = UDTS_UnitDataService_encode"
| "message_encode ED_EXPEDITED_DATA = ED_ExpeditedData_encode"
| "message_encode EA_EXPEDITED_DATA_ACKNOWLEDGMENT = EA_ExpeditedDataAck_encode"
| "message_encode RSR_RESET_REQUEST = RSR_ResetRequest_encode"
| "message_encode RSC_RESET_CONFIRM = RSC_ResetConfirmation_encode"
| "message_encode ERR_PROTOCOL_DATA_UNIT_ERROR = ERR_PduError_encode"
| "message_encode IT_INACTIVITY_TEST = IT_InactivityTest_encode"
| "message_encode XUDT_EXTENDED_UNITDATA = XUDT_ExtendedUnitdata_encode"
| "message_encode XUDTS_EXTENDED_UNIDATA_SERVICE = XUDTS_ExtendedUnitdataService_encode"
| "message_encode LUDT_LONG_UNIDATA = LUDT_LongUnitdata_encode"
| "message_encode LUDTS_LONG_UNIDATA_SERVICE = LUDTS_LongUnitdataService_encode"

text \<open>The constructors: how many pointers a message has.\<close>

primrec pointer_count :: "SCCPMessageType \<Rightarrow> nat" where
  "pointer_count CR_CONNECTION_REQUEST = 2"
| "pointer_count CC_CONNECTION_CONFIRM = 1"
| "pointer_count CREF_CONNECTION_REFUSED = 1"
| "pointer_count RLSD_RELEASED = 1"
| "pointer_count RLC_RELEASE_COMPLETE = 0"
| "pointer_count DT1_DATA_FORM_1 = 1"
| "pointer_count DT2_DATA_FORM_2 = 1"
| "pointer_count AK_DATA_ACKNOWLEDGEMENT = 0"
| "pointer_count UDT_UNITDATA = 3"
| "pointer_count UDTS_UNITDATA_SERVICE = 3"
| "pointer_count ED_EXPEDITED_DATA = 1"
| "pointer_count EA_EXPEDITED_DATA_ACKNOWLEDGMENT = 0"
| "pointer_count RSR_RESET_REQUEST = 1"
| "pointer_count RSC_RESET_CONFIRM = 0"
| "pointer_count ERR_PROTOCOL_DATA_UNIT_ERROR = 1"
| "pointer_count IT_INACTIVITY_TEST = 0"
| "pointer_count XUDT_EXTENDED_UNITDATA = 4"
| "pointer_count XUDTS_EXTENDED_UNIDATA_SERVICE = 4"
| "pointer_count LUDT_LONG_UNIDATA = 4"
| "pointer_count LUDTS_LONG_UNIDATA_SERVICE = 4"

text \<open>The parameters \<open>init_new\<close> makes.\<close>

primrec new_parts :: "SCCPMessageType \<Rightarrow> SCCPParameterType list" where
  "new_parts CR_CONNECTION_REQUEST = [SOURCE_LOCAL_REFERENCE, PROTOCOL_CLASS, CALLED_PARTY_ADDRESS]"
| "new_parts CC_CONNECTION_CONFIRM = [DESTINATION_LOCAL_REFERENCE, SOURCE_LOCAL_REFERENCE, PROTOCOL_CLASS]"
| "new_parts CREF_CONNECTION_REFUSED = [DESTINATION_LOCAL_REFERENCE, REFUSAL_CAUSE]"
| "new_parts RLSD_RELEASED = [DESTINATION_LOCAL_REFERENCE, SOURCE_LOCAL_REFERENCE, RELEASE_CAUSE]"
| "new_parts RLC_RELEASE_COMPLETE = [DESTINATION_LOCAL_REFERENCE, SOURCE_LOCAL_REFERENCE]"
| "new_parts DT1_DATA_FORM_1 = [DESTINATION_LOCAL_REFERENCE, SEGMENTING_REASSEMBLING, DATA]"
| "new_parts DT2_DATA_FORM_2 = [DESTINATION_LOCAL_REFERENCE, SEGMENTING_REASSEMBLING, DATA]"
| "new_parts AK_DATA_ACKNOWLEDGEMENT = [CREDIT, RECEIVE_SEQUENCE_NUMBER, DESTINATION_LOCAL_REFERENCE]"
| "new_parts UDT_UNITDATA = [PROTOCOL_CLASS, CALLED_PARTY_ADDRESS, CALLING_PARTY_ADDRESS, DATA]"
| "new_parts UDTS_UNITDATA_SERVICE = [RETURN_CAUSE, CALLED_PARTY_ADDRESS, CALLING_PARTY_ADDRESS, DATA]"
| "new_parts ED_EXPEDITED_DATA = [DESTINATION_LOCAL_REFERENCE, DATA]"
| "new_parts EA_EXPEDITED_DATA_ACKNOWLEDGMENT = [DESTINATION_LOCAL_REFERENCE]"
| "new_parts RSR_RESET_REQUEST = [DESTINATION_LOCAL_REFERENCE, SOURCE_LOCAL_REFERENCE, RESET_CAUSE]"
| "new_parts RSC_RESET_CONFIRM = [DESTINATION_LOCAL_REFERENCE, SOURCE_LOCAL_REFERENCE]"
| "new_parts ERR_PROTOCOL_DATA_UNIT_ERROR = [DESTINATION_LOCAL_REFERENCE, ERROR_CAUSE]"
| "new_parts IT_INACTIVITY_TEST =
     [DESTINATION_LOCAL_REFERENCE, SOURCE_LOCAL_REFERENCE, PROTOCOL_CLASS, SEQUENCING_SEGMENTING, CREDIT]"
| "new_parts XUDT_EXTENDED_UNITDATA = [PROTOCOL_CLASS, HOP_COUNTER, CALLED_PARTY_ADDRESS, CALLING_PARTY_ADDRESS, DATA]"
| "new_parts XUDTS_EXTENDED_UNIDATA_SERVICE = [RETURN_CAUSE, HOP_COUNTER, CALLED_PARTY_ADDRESS, CALLING_PARTY_ADDRESS, DATA]"
| "new_parts LUDT_LONG_UNIDATA = [PROTOCOL_CLASS, HOP_COUNTER, CALLED_PARTY_ADDRESS, CALLING_PARTY_ADDRESS, LONG_DATA]"
| "new_parts LUDTS_LONG_UNIDATA_SERVICE =
     [RETURN_CAUSE, HOP_COUNTER, CALLED_PARTY_ADDRESS, CALLING_PARTY_ADDRESS, LONG_DATA]"

fun make_parts :: "nat \<Rightarrow> SCCPParameterType list \<Rightarrow> sccp_state \<Rightarrow> sccp_state" where
  "make_parts m [] s = s"
| "make_parts m (pt # pts) s =
     make_parts m pts (set_part m pt (fresh s) ((set_param (fresh s) (create_sccp_param pt) s)\<lparr>fresh := fresh s + 1\<rparr>))"

definition message_init_new :: "nat \<Rightarrow> sccp_state \<Rightarrow> sccp_state" where
  "message_init_new m s = make_parts m (new_parts (message_type (message_at s m))) s"

definition get_optional_param :: "SCCPParameterType \<Rightarrow> sccp_state \<Rightarrow> SCCPMessage \<Rightarrow> nat option" where
  "get_optional_param pt s x = List.find (\<lambda>a. param_type (param_at s a) = pt) (optional_params x)"

definition get_optional_params_count :: "SCCPMessage \<Rightarrow> nat" where
  "get_optional_params_count x = length (optional_params x)"

definition create_sccp_message :: "SCCPMessageType \<Rightarrow> SCCPMessage" where
  "create_sccp_message mt =
     \<lparr>message_type = mt, pointer = replicate (pointer_count mt) \<lparr>ptr_value = 0, ptr_position = 0\<rparr>, byte_pos = 0,
      optional_params = [], part = \<lambda>_. None\<rparr>"

text \<open>\<open>encode\<close> looks at the length of the buffer only to see that there is one.\<close>

definition sccp_encode :: "nat \<Rightarrow> nat \<Rightarrow> int \<Rightarrow> int \<Rightarrow> nat \<Rightarrow> int \<Rightarrow> sccp_state \<Rightarrow> (int \<times> sccp_state) outcome" where
  "sccp_encode b buffer buffer_length offset m result s =
     (if buffer_length > 0
      then and_then (place buffer offset) (\<lambda>q.
           and_then (message_encode (message_type (message_at s m)) b q m
             (\<lparr>tmp_l = 0, result_length = result, tmp_pointers = 0\<rparr>, s)) (\<lambda>(l, s).
           Returns (tmp_l l, s)))
      else Returns (result, s))"

section \<open>Pools\<close>

definition sccp_init_message :: "SCCPMessageType \<Rightarrow> sccp_state \<Rightarrow> sccp_state outcome" where
  "sccp_init_message mt s =
     and_then (init_item_pool (fresh s) (set_item_pool_size (message_count s) PoolItem_new)) (\<lambda>it.
     Returns (s\<lparr>message_at := (\<lambda>a. if a \<in> set (item_pool it) then create_sccp_message mt else message_at s a),
       fresh := fresh s + length (item_pool it), MESSAGE_POOL := (MESSAGE_POOL s)(mt := Some it)\<rparr>))"

definition sccp_request_message :: "SCCPMessageType \<Rightarrow> sccp_state \<Rightarrow> (nat option \<times> sccp_state) outcome" where
  "sccp_request_message mt s =
     (case MESSAGE_POOL s mt of
        None \<Rightarrow> Returns (None, s)
      | Some it \<Rightarrow> and_then (request_item it) (\<lambda>(a, it). Returns (Some a, s\<lparr>MESSAGE_POOL := (MESSAGE_POOL s)(mt := Some it)\<rparr>)))"

definition return_message :: "nat option \<Rightarrow> sccp_state \<Rightarrow> sccp_state outcome" where
  "return_message msg s =
     (case msg of
        None \<Rightarrow> Returns s
      | Some m \<Rightarrow>
          let mt = message_type (message_at s m)
          in and_then (the_ptr (MESSAGE_POOL s mt)) (\<lambda>it. and_then (return_message_item m it) (\<lambda>it.
             Returns (s\<lparr>MESSAGE_POOL := (MESSAGE_POOL s)(mt := Some it)\<rparr>))))"

definition sccp_message_types :: "SCCPMessageType list" where
  "sccp_message_types =
     [UDT_UNITDATA, AK_DATA_ACKNOWLEDGEMENT, CC_CONNECTION_CONFIRM, CR_CONNECTION_REQUEST, CREF_CONNECTION_REFUSED,
      DT1_DATA_FORM_1, DT2_DATA_FORM_2, EA_EXPEDITED_DATA_ACKNOWLEDGMENT, ED_EXPEDITED_DATA, ERR_PROTOCOL_DATA_UNIT_ERROR,
      IT_INACTIVITY_TEST, LUDT_LONG_UNIDATA, LUDTS_LONG_UNIDATA_SERVICE, RLC_RELEASE_COMPLETE, RLSD_RELEASED,
      RSC_RESET_CONFIRM, RSR_RESET_REQUEST, UDTS_UNITDATA_SERVICE, XUDT_EXTENDED_UNITDATA, XUDTS_EXTENDED_UNIDATA_SERVICE]"

definition smt_of :: "u8 \<Rightarrow> SCCPMessageType option" where
  "smt_of v = List.find (\<lambda>mt. smt_value mt = v) sccp_message_types"

definition sccp_set_pool_size :: "int \<Rightarrow> int \<Rightarrow> sccp_state \<Rightarrow> sccp_state" where
  "sccp_set_pool_size pc mc s = s\<lparr>param_count := pc, message_count := mc\<rparr>"

definition sccp_init_pool :: "sccp_state \<Rightarrow> sccp_state outcome" where
  "sccp_init_pool =
     steps (map sccp_init_message sccp_message_types @ map sccp_init_param sccp_parameter_types @ map init_gt gt_types)"

section \<open>Decoding\<close>

definition sccp_decode :: "nat \<Rightarrow> nat \<Rightarrow> int \<Rightarrow> sccp_state \<Rightarrow> (nat option \<times> sccp_state) outcome" where
  "sccp_decode b data data_length s =
     (if data_length > 0 then
        and_then (byte_at (mem s b) data) (\<lambda>v.
        and_then (case smt_of (v AND 0xff) of None \<Rightarrow> Returns (None, s) | Some mt \<Rightarrow> sccp_request_message mt s) (\<lambda>(msg, s).
        case msg of
          None \<Rightarrow> Returns (None, s)
        | Some m \<Rightarrow>
            and_then (message_init (message_type (message_at s m)) (mem s b) b data data_length m
              (update_message m (\<lambda>x. x\<lparr>byte_pos := 0, optional_params := []\<rparr>) s)) (\<lambda>s.
            Returns (Some m, s))))
      else Returns (None, s))"

end
