(* ===== verification/Sccp_Codec.thy ===== *)
theory Sccp_Codec
  imports Sccp
begin

text \<open>
  What \<open>encode\<close> writes for a parameter: the octets its members stand for. \<open>encode\<close> moves values
  and keeps what they stand for.
\<close>

section \<open>What an object stands for\<close>

text \<open>Octets that can be copied into the buffer \<open>b\<close>: they exist, and elsewhere.\<close>

definition outside :: "sccp_state \<Rightarrow> nat \<Rightarrow> buf_ptr option \<Rightarrow> int \<Rightarrow> u8 list option" where
  "outside s b ptr n =
     (if n = 0 then Some []
      else case ptr of None \<Rightarrow> None
      | Some (vb, vp) \<Rightarrow>
          if vb \<noteq> b \<and> 0 \<le> n \<and> vp + nat n \<le> length (mem s vb) then Some (take (nat n) (drop vp (mem s vb))) else None)"

primrec returned :: "'a outcome \<Rightarrow> 'a option" where
  "returned (Returns x) = Some x"
| "returned Undefined = None"
| "returned OutOfFuel = None"

lemma returned_Some [simp]: "returned r = Some x \<longleftrightarrow> r = Returns x"
  by (cases r) auto

definition title_head :: "GlobalTitle \<Rightarrow> u8 list outcome" where
  "title_head d =
     (case gt_type d of
        GT_NO_TITLE \<Rightarrow> Undefined
      | GT_NATURE_OF_ADDRESS_INDICATOR_ONLY \<Rightarrow>
          and_then (the_ptr (nature_of_address d)) (\<lambda>noa. and_then (the_ptr (odd_num_of_addr_signals d)) (\<lambda>odd.
          Returns [if odd then ucast noa OR 0x80 else ucast noa]))
      | GT_TRANSLATION_TYPE_ONLY \<Rightarrow> and_then (the_ptr (translation_type d)) (\<lambda>tt. Returns [ucast tt])
      | GT_TRANSLATION_TYPE_NUMNBERING_PLAN_ENCODING \<Rightarrow>
          and_then (the_ptr (translation_type d)) (\<lambda>tt. and_then (the_ptr (numbering_plan d)) (\<lambda>np.
          and_then (the_ptr (encoding_scheme d)) (\<lambda>es. Returns [ucast tt, ucast (np + es)])))
      | GT_TRANSLATION_TYPE_NUMNBERING_PLAN_ENCODING_NATURE_OF_ADDRESS \<Rightarrow>
          and_then (the_ptr (translation_type d)) (\<lambda>tt. and_then (the_ptr (numbering_plan d)) (\<lambda>np.
          and_then (the_ptr (encoding_scheme d)) (\<lambda>es. and_then (the_ptr (nature_of_address d)) (\<lambda>noa.
          Returns [ucast tt, ucast (np + es), ucast noa])))))"

definition title_content :: "sccp_state \<Rightarrow> nat \<Rightarrow> GlobalTitle \<Rightarrow> u8 list option" where
  "title_content s b d =
     Option.bind (returned (title_head d)) (\<lambda>h. Option.bind (address_information_length d) (\<lambda>n.
     Option.bind (outside s b (Option.bind (address_information d) id) n) (\<lambda>bs. Some (h @ bs))))"

definition titled :: "party_address \<Rightarrow> nat option" where
  "titled pa = (if global_title_indicator pa = Some (gti_value GT_NO_TITLE) then None else global_title pa)"

fun own_octets :: "sccp_members \<Rightarrow> u8 list outcome" where
  "own_octets (ProtocolClass c h) = ProtocolClass_octets c h"
| "own_octets (Dlr v) = Returns (Dlr_octets v)"
| "own_octets (Slr v) = Slr_octets v"
| "own_octets (HopCounter v) = Returns (HopCounter_octets v)"
| "own_octets (Importance v) = Returns (Importance_octets v)"
| "own_octets (ReceiveSeqNum v) = Returns (ReceiveSeqNum_octets v)"
| "own_octets (Credit v) = Returns (Credit_octets v)"
| "own_octets (RefusalCause v) = RefusalCause_octets v"
| "own_octets (ReleaseCause v) = ReleaseCause_octets v"
| "own_octets (ResetCause v) = ResetCause_octets v"
| "own_octets (ReturnCause v) = ReturnCause_octets v"
| "own_octets (ErrorCause v) = ErrorCause_octets v"
| "own_octets (SegmReassm md) = SegmReassm_octets md"
| "own_octets (SeqSegm sd rv md) = SeqSegm_octets sd rv md"
| "own_octets _ = Undefined"

definition param_content :: "sccp_state \<Rightarrow> nat \<Rightarrow> SCCPParam \<Rightarrow> u8 list option" where
  "param_content s b p =
     (case members p of
        No_Members \<Rightarrow> outside s b (param_value p) (value_length p)
      | LongData \<Rightarrow> outside s b (param_value p) (value_length p)
      | Segmentation f c r ref n \<Rightarrow>
          Option.bind (returned (Segmentation_octet f c r)) (\<lambda>v. Option.bind (outside s b ref n) (\<lambda>bs. Some (v # bs)))
      | PartyAddress pa \<Rightarrow>
          Option.bind (returned (pa_octets pa)) (\<lambda>h.
          case titled pa of
            None \<Rightarrow> Some h
          | Some g \<Rightarrow> Option.bind (title_content s b (gt_at s g)) (\<lambda>bs. Some (h @ bs)))
      | ms \<Rightarrow> returned (own_octets ms))"

text \<open>What \<open>encode\<close> leaves alone in everything it does not write.\<close>

definition kept_title :: "GlobalTitle \<Rightarrow> GlobalTitle \<Rightarrow> bool" where
  "kept_title d d' \<longleftrightarrow> d'\<lparr>gt_value := None, gt_value_length := 0\<rparr> = d\<lparr>gt_value := None, gt_value_length := 0\<rparr>"

definition kept_param :: "SCCPParam \<Rightarrow> SCCPParam \<Rightarrow> bool" where
  "kept_param p p' \<longleftrightarrow>
     param_type p' = param_type p \<and> members p' = members p \<and> (members p = No_Members \<or> members p = LongData \<longrightarrow> p' = p)"

definition same_values :: "nat \<Rightarrow> sccp_state \<Rightarrow> sccp_state \<Rightarrow> bool" where
  "same_values b s s' \<longleftrightarrow>
     (\<forall>vb. vb \<noteq> b \<longrightarrow> mem s' vb = mem s vb) \<and> (\<forall>g. kept_title (gt_at s g) (gt_at s' g)) \<and>
     (\<forall>a. kept_param (param_at s a) (param_at s' a))"

lemma same_values_refl [simp]: "same_values b s s"
  by (simp add: same_values_def kept_title_def kept_param_def)

lemma same_values_trans [trans]: "same_values b s s' \<Longrightarrow> same_values b s' s'' \<Longrightarrow> same_values b s s''"
  unfolding same_values_def kept_title_def kept_param_def by metis

lemma kept_titleD:
  assumes "kept_title d d'"
  shows "gt_type d' = gt_type d" "translation_type d' = translation_type d" "numbering_plan d' = numbering_plan d"
    "encoding_scheme d' = encoding_scheme d" "nature_of_address d' = nature_of_address d"
    "odd_num_of_addr_signals d' = odd_num_of_addr_signals d" "address_information d' = address_information d"
    "address_information_length d' = address_information_length d"
  using assms unfolding kept_title_def by (cases d; cases d'; simp)+

lemma outside_same: "same_values b s s' \<Longrightarrow> outside s' b ptr n = outside s b ptr n"
  by (auto simp: outside_def same_values_def split: option.splits)

lemma title_content_same:
  assumes "same_values b s s'"
  shows "title_content s' b (gt_at s' g) = title_content s b (gt_at s g)"
proof -
  have k: "kept_title (gt_at s g) (gt_at s' g)" using assms by (simp add: same_values_def)
  have "title_head (gt_at s' g) = title_head (gt_at s g)"
    by (cases "gt_type (gt_at s g)") (simp_all add: title_head_def kept_titleD [OF k])
  then show ?thesis by (simp add: title_content_def kept_titleD [OF k] outside_same [OF assms])
qed

lemma param_content_same:
  assumes "same_values b s s'"
  shows "param_content s' b (param_at s' a) = param_content s b (param_at s a)" "param_type (param_at s' a) = param_type (param_at s a)"
    "members (param_at s' a) = members (param_at s a)"
proof -
  have k: "kept_param (param_at s a) (param_at s' a)" using assms by (simp add: same_values_def)
  then show "param_type (param_at s' a) = param_type (param_at s a)" "members (param_at s' a) = members (param_at s a)"
    by (simp_all add: kept_param_def)
  show "param_content s' b (param_at s' a) = param_content s b (param_at s a)"
  proof (cases "members (param_at s a)")
    case (PartyAddress pa)
    then show ?thesis using k
      by (cases "titled pa") (simp_all add: param_content_def kept_param_def title_content_same [OF assms])
  qed (use k in \<open>simp_all add: param_content_def kept_param_def outside_same [OF assms]\<close>)
qed

section \<open>Writing into the buffer\<close>

lemma sccp_store_simps [simp]:
  "mem (set_mem b bs s) = (mem s)(b := bs)" "param_at (set_mem b bs s) = param_at s" "gt_at (set_mem b bs s) = gt_at s"
  "message_at (set_mem b bs s) = message_at s"
  "mem (set_param a p s) = mem s" "param_at (set_param a p s) = (param_at s)(a := p)" "gt_at (set_param a p s) = gt_at s"
  "message_at (set_param a p s) = message_at s"
  "mem (put_gt g d s) = mem s" "param_at (put_gt g d s) = param_at s" "gt_at (put_gt g d s) = (gt_at s)(g := d)"
  "message_at (put_gt g d s) = message_at s"
  "mem (set_message m x s) = mem s" "param_at (set_message m x s) = param_at s" "gt_at (set_message m x s) = gt_at s"
  "message_at (set_message m x s) = (message_at s)(m := x)"
  by (simp_all add: set_mem_def set_param_def put_gt_def set_message_def)

lemma place_ok [simp]: "place buffer (int k) = Returns (buffer + k)"
  by (simp add: place_def nat_add_distrib)

lemma place_eq: "off = int k \<Longrightarrow> place buffer off = Returns (buffer + k)"
  by simp

lemma put_octets_ok: "q + length bs \<le> length (mem s b) \<Longrightarrow> put_octets b q bs s = Returns (set_mem b (overwrite (mem s b) q bs) s)"
  by (simp add: put_octets_def write_bytes_overwrite)

lemma outsideD:
  assumes "outside s b ptr n = Some bs"
  shows "n = int (length bs)" "bs \<noteq> [] \<Longrightarrow> ptr \<noteq> None" "bs \<noteq> [] \<Longrightarrow> \<forall>p. ptr \<noteq> Some (b, p)"
  using assms by (auto simp: outside_def split: if_splits option.splits)

lemma memcpy_ok:
  assumes "outside s b src n = Some bs" "q + length bs \<le> length (mem s b)"
  shows "memcpy b q src n s = Returns (set_mem b (overwrite (mem s b) q bs) s)"
proof (cases "n = 0")
  case True
  then show ?thesis using assms by (simp add: memcpy_def outside_def set_mem_def)
next
  case False
  with assms obtain vb vp where src: "src = Some (vb, vp)" "vb \<noteq> b" "0 \<le> n" "vp + nat n \<le> length (mem s vb)"
    "bs = take (nat n) (drop vp (mem s vb))"
    by (auto simp: outside_def split: option.splits if_splits)
  then show ?thesis using False assms(2) by (simp add: memcpy_def read_bytes_def put_octets_ok)
qed

lemma same_values_put [simp]:
  "same_values b s (set_mem b bs s') = same_values b s s'" "same_values b s (set_message m x s') = same_values b s s'"
  by (simp_all add: same_values_def)

lemma same_values_put_param: "same_values b s s' \<Longrightarrow> kept_param (param_at s' a) p \<Longrightarrow> same_values b s (set_param a p s')"
  unfolding same_values_def kept_param_def by (auto simp: kept_param_def)

lemma same_values_put_gt: "same_values b s s' \<Longrightarrow> kept_title (gt_at s' g) d \<Longrightarrow> same_values b s (put_gt g d s')"
  unfolding same_values_def kept_title_def by auto

text \<open>What every \<open>encode\<close> does when it writes \<open>w\<close> at \<open>q\<close> of \<open>b\<close>.\<close>

definition wrote :: "nat \<Rightarrow> nat \<Rightarrow> u8 list \<Rightarrow> sccp_state \<Rightarrow> sccp_state \<Rightarrow> bool" where
  "wrote b q w s s' \<longleftrightarrow> mem s' b = overwrite (mem s b) q w \<and> same_values b s s' \<and> message_at s' = message_at s"

lemma wrote_length: "wrote b q w s s' \<Longrightarrow> q + length w \<le> length (mem s b) \<Longrightarrow> length (mem s' b) = length (mem s b)"
  by (simp add: wrote_def)

section \<open>Global titles\<close>

lemma encode_title_ok:
  assumes "address_information_length (gt_at s g) = Some n" "outside s b (Option.bind (address_information (gt_at s g)) id) n = Some bs"
    "buffer + k + length octets + length bs \<le> length (mem s b)"
  shows "\<exists>s'. encode_title b buffer (int k) g octets s = Returns (int (length (octets @ bs)), s') \<and>
    wrote b (buffer + k) (octets @ bs) s s'"
proof -
  let ?q = "buffer + k" and ?d = "gt_at s g"
  let ?d' = "?d\<lparr>gt_value := Some (b, ?q), gt_value_length := n + int (length octets)\<rparr>"
  let ?s1 = "set_mem b (overwrite (mem s b) ?q octets) (put_gt g ?d' s)"
  let ?s2 = "set_mem b (overwrite (mem s b) ?q (octets @ bs)) (put_gt g ?d' s)"
  have n: "n = int (length bs)" using outsideD(1) [OF assms(2)] .
  have 1: "put_octets b ?q octets (put_gt g ?d' s) = Returns ?s1" using assms(3) by (simp add: put_octets_ok)
  have sv: "same_values b s (put_gt g ?d' s)" by (rule same_values_put_gt) (simp_all add: kept_title_def)
  then have sv1: "same_values b s ?s1" and sv2: "same_values b s ?s2" by simp_all
  have 2: "and_then (the_ptr (address_information ?d)) (\<lambda>ptr. if ptr \<noteq> None then memcpy b (?q + length octets) ptr n ?s1 else Returns ?s1) =
      Returns ?s2" if "n > 0"
  proof -
    have "bs \<noteq> []" using that n by auto
    then obtain ptr where ptr: "address_information ?d = Some (Some ptr)"
      using outsideD(2) [OF assms(2)] by (cases "address_information ?d") auto
    have "outside ?s1 b (Some ptr) n = Some bs" using outside_same [OF sv1] assms(2) ptr by simp
    then have "memcpy b (?q + length octets) (Some ptr) n ?s1 = Returns (set_mem b (overwrite (mem ?s1 b) (?q + length octets) bs) ?s1)"
      using assms(3) by (intro memcpy_ok) simp_all
    also have "overwrite (mem ?s1 b) (?q + length octets) bs = overwrite (mem s b) ?q (octets @ bs)"
      using assms(3) overwrite_append [of ?q octets bs "mem s b"] by simp
    finally show ?thesis using ptr by (simp add: set_mem_def)
  qed
  have 3: "?s1 = ?s2" if "\<not> n > 0" using that n by simp
  have "GlobalTitle_encode b buffer (int k) g ?s2 = Returns (int (length (octets @ bs)), ?s2)"
    by (simp add: GlobalTitle_encode_def n)
  then have "encode_title b buffer (int k) g octets s = Returns (int (length (octets @ bs)), ?s2)"
    unfolding encode_title_def Let_def place_ok and_then.simps assms(1) the_ptr_simps 1
    using 2 3 by (cases "n > 0") simp_all
  then show ?thesis using sv2 by (intro exI [of _ ?s2]) (simp add: wrote_def)
qed

lemma gt_encode_ok:
  assumes "title_content s b (gt_at s g) = Some bs" "buffer + k + length bs \<le> length (mem s b)"
  shows "\<exists>s'. gt_encode b buffer (int k) g s = Returns (int (length bs), s') \<and> wrote b (buffer + k) bs s s'"
proof -
  let ?d = "gt_at s g"
  obtain h n as where t: "title_head ?d = Returns h" "address_information_length ?d = Some n"
    "outside s b (Option.bind (address_information ?d) id) n = Some as" "bs = h @ as"
    using assms(1) by (auto simp: title_content_def split: Option.bind_splits)
  have "gt_encode b buffer (int k) g s = encode_title b buffer (int k) g h s"
    using t(1) by (auto simp: title_head_def gt_encode_def GT_NOA_encode_def GT_TT_encode_def GT_TTNPE_encode_def GT_TTNPENOA_encode_def
        and_then_Returns_iff Let_def split: GlobalTitleIndicator.splits)
  then show ?thesis using encode_title_ok [OF t(2,3)] t(4) assms(2) by auto
qed

section \<open>Parameters\<close>

definition header :: "bool \<Rightarrow> bool \<Rightarrow> SCCPParam \<Rightarrow> nat \<Rightarrow> u8 list" where
  "header enc_type enc_length p n =
     (if enc_type then [spt_value (param_type p)] else []) @
     (if enc_length then (if members p = LongData then [of_nat (n div 256), of_nat n] else [of_nat n]) else [])"

lemma length_header: "members p \<noteq> LongData \<Longrightarrow> int (length (header enc_type enc_length p n)) = octets_if enc_type enc_length"
  by (simp add: header_def octets_if_def)

lemma header_kept: "param_type p' = param_type p \<Longrightarrow> members p' = members p \<Longrightarrow> header et el p' n = header et el p n"
  by (simp add: header_def)

text \<open>The base class adds type and length to a value in place.\<close>

lemma sccp_encode_in_place:
  assumes "param_value (param_at s a) = Some (b, buffer + k + length hdr)" "value_length (param_at s a) = int (length bs)"
    "mem s b = overwrite m0 (buffer + k + length hdr) bs" "buffer + k + length hdr + length bs \<le> length m0"
    "members (param_at s a) \<noteq> LongData" "hdr = header et el (param_at s a) (length bs)"
  shows "SCCPParam_encode b buffer (int k) et el a s =
    Returns (int (length (hdr @ bs)), set_mem b (overwrite m0 (buffer + k) (hdr @ bs)) s)"
proof -
  have h: "(if et then [spt_value (param_type (param_at s a))] else []) @ (if el then [word_of_int (int (length bs))] else []) = hdr"
    using assms(5,6) by (simp add: header_def)
  have l: "length (mem s b) = length m0" using assms(3,4) by simp
  have "overwrite (mem s b) (buffer + k) hdr = overwrite m0 (buffer + k) (hdr @ bs)"
    using assms(3,4) overwrite_before [of "buffer + k" hdr bs m0] by simp
  then have "put_octets b (buffer + k) hdr s = Returns (set_mem b (overwrite m0 (buffer + k) (hdr @ bs)) s)"
    using assms(4) l by (simp add: put_octets_ok)
  then show ?thesis
    unfolding SCCPParam_encode_def place_ok and_then.simps Let_def assms(2) h
    using assms(1) length_header [OF assms(5), of et el "length bs"] assms(6) by simp
qed

lemma put_value_ok:
  assumes "q + length octets \<le> length (mem s b)"
  shows "put_value b q a n octets s =
    Returns (set_mem b (overwrite (mem s b) q octets) (set_param a ((param_at s a)\<lparr>param_value := Some (b, q), value_length := n\<rparr>) s))"
  using assms by (simp add: put_value_def put_octets_ok)

lemma encode_octets_ok:
  assumes "members (param_at s a) \<notin> {No_Members, LongData}" "hdr = header et el (param_at s a) (length bs)"
    "buffer + k + length hdr + length bs \<le> length (mem s b)"
  shows "\<exists>s'. encode_octets b buffer (int k) et el a (Returns bs) s = Returns (int (length (hdr @ bs)), s') \<and>
    wrote b (buffer + k) (hdr @ bs) s s'"
proof -
  let ?p = "param_at s a" and ?q = "buffer + k + length hdr"
  let ?p' = "?p\<lparr>param_value := Some (b, ?q), value_length := int (length bs)\<rparr>"
  let ?s1 = "set_mem b (overwrite (mem s b) ?q bs) (set_param a ?p' s)"
  let ?s2 = "set_mem b (overwrite (mem s b) (buffer + k) (hdr @ bs)) ?s1"
  have pl: "place buffer (int k + octets_if et el) = Returns ?q"
    using place_eq [of _ "k + length hdr"] length_header [of ?p et el "length bs"] assms(1,2) by simp
  have 1: "put_value b ?q a (int (length bs)) bs s = Returns ?s1" using assms(3) by (intro put_value_ok) simp
  have 2: "SCCPParam_encode b buffer (int k) et el a ?s1 = Returns (int (length (hdr @ bs)), ?s2)"
    by (rule sccp_encode_in_place) (use assms in \<open>simp_all add: header_def\<close>)
  have "same_values b s (set_param a ?p' s)" using assms(1) by (intro same_values_put_param) (auto simp: kept_param_def)
  then have "wrote b (buffer + k) (hdr @ bs) s ?s2" by (simp add: wrote_def)
  then show ?thesis using 2 by (auto simp: encode_octets_def pl 1)
qed

lemma Segmentation_encode_ok:
  assumes "members (param_at s a) = Segmentation f c r ref n" "Segmentation_octet f c r = Returns v" "outside s b ref n = Some as"
    "hdr = header et el (param_at s a) (Suc (length as))" "buffer + k + length hdr + Suc (length as) \<le> length (mem s b)"
  shows "\<exists>s'. Segmentation_encode b buffer (int k) et el a (Segmentation_octet f c r) ref n s = Returns (int (length (hdr @ v # as)), s') \<and>
    wrote b (buffer + k) (hdr @ v # as) s s'"
proof -
  let ?p = "param_at s a" and ?q = "buffer + k + length hdr"
  have n: "n = int (length as)" using outsideD(1) [OF assms(3)] .
  let ?p' = "?p\<lparr>param_value := Some (b, ?q), value_length := 1 + n\<rparr>"
  let ?s1 = "set_mem b (overwrite (mem s b) ?q [v]) (set_param a ?p' s)"
  let ?s2 = "set_mem b (overwrite (mem s b) ?q (v # as)) ?s1"
  let ?s3 = "set_mem b (overwrite (mem s b) (buffer + k) (hdr @ v # as)) ?s2"
  have pl: "place buffer (int k + octets_if et el) = Returns ?q"
    using place_eq [of _ "k + length hdr"] length_header [of ?p et el "Suc (length as)"] assms(1,4) by simp
  have sv: "same_values b s (set_param a ?p' s)" using assms(1) by (intro same_values_put_param) (auto simp: kept_param_def)
  have 1: "put_value b ?q a (1 + n) [v] s = Returns ?s1" using assms(5) by (intro put_value_ok) simp
  have 2: "(if n > 0 \<and> ref \<noteq> None then memcpy b (?q + 1) ref n ?s1 else Returns ?s1) = Returns ?s2"
  proof (cases "as = []")
    case True
    then show ?thesis using n by (simp add: set_mem_def)
  next
    case False
    have "outside ?s1 b ref n = Some as" using outside_same [of b s ?s1] assms(3) sv by simp
    then have "memcpy b (?q + 1) ref n ?s1 = Returns (set_mem b (overwrite (mem ?s1 b) (?q + 1) as) ?s1)"
      using assms(5) by (intro memcpy_ok) simp_all
    also have "overwrite (mem ?s1 b) (?q + 1) as = overwrite (mem s b) ?q (v # as)"
      using assms(5) overwrite_append [of ?q "[v]" as "mem s b"] by simp
    finally show ?thesis using False n outsideD(2) [OF assms(3)] by simp
  qed
  have 3: "SCCPParam_encode b buffer (int k) et el a ?s2 = Returns (int (length (hdr @ v # as)), ?s3)"
    by (rule sccp_encode_in_place) (use assms n in \<open>simp_all add: header_def\<close>)
  have "wrote b (buffer + k) (hdr @ v # as) s ?s3" using sv by (simp add: wrote_def)
  then show ?thesis unfolding Segmentation_encode_def pl and_then.simps assms(2) 1 2 3 by blast
qed

text \<open>A value elsewhere is copied.\<close>

lemma encode_copied:
  assumes "outside s b (param_value p) (value_length p) = Some bs" "hdr = hd1" "q + length hd1 + length bs \<le> length (mem s b)"
  shows "\<exists>s'. and_then (put_octets b q hdr s) (\<lambda>s. and_then
      (if param_value p \<noteq> Some (b, q + length hdr) then memcpy b (q + length hdr) (param_value p) (value_length p) s else Returns s) f) = f s' \<and>
    wrote b q (hd1 @ bs) s s'"
proof -
  let ?s1 = "set_mem b (overwrite (mem s b) q hd1) s" and ?s2 = "set_mem b (overwrite (mem s b) q (hd1 @ bs)) s"
  have 1: "put_octets b q hdr s = Returns ?s1" using assms(2,3) by (simp add: put_octets_ok)
  have w: "wrote b q (hd1 @ bs) s ?s2" by (simp add: wrote_def)
  show ?thesis
  proof (cases "bs = []")
    case True
    then have "value_length p = 0" using outsideD(1) [OF assms(1)] by simp
    then have "and_then (put_octets b q hdr s) (\<lambda>s. and_then
      (if param_value p \<noteq> Some (b, q + length hdr) then memcpy b (q + length hdr) (param_value p) (value_length p) s else Returns s) f) = f ?s2"
      using True by (simp add: 1 memcpy_def)
    then show ?thesis using w by blast
  next
    case False
    have "outside ?s1 b (param_value p) (value_length p) = Some bs" using outside_same [of b s ?s1] assms(1) by simp
    then have "memcpy b (q + length hd1) (param_value p) (value_length p) ?s1 = Returns (set_mem b (overwrite (mem ?s1 b) (q + length hd1) bs) ?s1)"
      using assms(3) by (intro memcpy_ok) simp_all
    moreover have "overwrite (mem ?s1 b) (q + length hd1) bs = overwrite (mem s b) q (hd1 @ bs)"
      using assms(3) overwrite_append [of q hd1 bs "mem s b"] by simp
    ultimately have "memcpy b (q + length hd1) (param_value p) (value_length p) ?s1 = Returns ?s2" by (simp add: set_mem_def)
    moreover have "param_value p \<noteq> Some (b, q + length hdr)" using outsideD(3) [OF assms(1) False] by blast
    ultimately show ?thesis using w 1 assms(2) by auto
  qed
qed

lemma SCCPParam_encode_ok:
  assumes "param_content s b (param_at s a) = Some bs" "members (param_at s a) = No_Members \<or> members (param_at s a) = LongData"
    "hdr = header et el (param_at s a) (length bs)" "buffer + k + length hdr + length bs \<le> length (mem s b)"
  shows "\<exists>s'. sccp_param_encode b buffer (int k) et el a s = Returns (int (length (hdr @ bs)), s') \<and> wrote b (buffer + k) (hdr @ bs) s s'"
proof -
  let ?p = "param_at s a" and ?q = "buffer + k"
  have o: "outside s b (param_value ?p) (value_length ?p) = Some bs" using assms(1,2) by (auto simp: param_content_def)
  have n: "value_length ?p = int (length bs)" using outsideD(1) [OF o] .
  have d: "drop_bit 8 (int (length bs)) = int (length bs div 256)" by (simp add: drop_bit_eq_div zdiv_int)
  show ?thesis
  proof (cases "members ?p = LongData")
    case True
    let ?h = "(if et then [spt_value (param_type ?p)] else []) @
      (if el then [word_of_int (drop_bit 8 (value_length ?p)), word_of_int (value_length ?p)] else [])"
    have h: "?h = hdr" using True assms(3) by (simp add: header_def n d)
    have l: "value_length ?p + (if el then 2 else 0) + (if et then 1 else 0) = int (length (hdr @ bs))" using n h by auto
    show ?thesis
      using encode_copied [OF o h, of ?q "\<lambda>s. Returns (int (length (hdr @ bs)), s)"] assms(4) True
      unfolding sccp_param_encode_def Let_def LongData_encode_def place_ok and_then.simps l by simp
  next
    case False
    let ?h = "(if et then [spt_value (param_type ?p)] else []) @ (if el then [word_of_int (value_length ?p)] else [])"
    have h: "?h = hdr" using False assms(3) by (simp add: header_def n)
    have l: "value_length ?p + octets_if et el = int (length (hdr @ bs))" using n h by (auto simp: octets_if_def)
    show ?thesis
      using encode_copied [OF o h, of ?q "\<lambda>s. Returns (int (length (hdr @ bs)), s)"] assms(2,4) False
      unfolding sccp_param_encode_def Let_def SCCPParam_encode_def place_ok and_then.simps l by simp
  qed
qed

lemma pa_octets_length:
  assumes "pa_octets pa = Returns h"
  shows "\<exists>pc ssn gi. point_code_indicator pa = Some pc \<and> ssn_indicator pa = Some ssn \<and> global_title_indicator pa = Some gi \<and>
    length h = (if pc then 2 else 0) + (if ssn then 1 else 0) + 1"
proof -
  obtain ri gi ssn pc cs ns where p: "global_title_indicator pa = Some gi" "ssn_indicator pa = Some ssn" "point_code_indicator pa = Some pc"
    "(if pc then and_then (the_ptr (point_code pa)) (\<lambda>v. Returns [ucast v, ucast (v AND drop_bit 8 0x3f)]) else Returns []) = Returns cs"
    "(if ssn then and_then (the_ptr (subsystem_number pa)) (\<lambda>v. Returns [ucast v]) else Returns []) = Returns ns"
    "h = ucast (ri + gi + (if ssn then 0x02 else 0x00) + (if pc then 0x01 else 0x00)) # cs @ ns"
    using assms unfolding pa_octets_def and_then_Returns_iff the_ptr_Returns_iff outcome.inject by (elim exE conjE) blast
  then have "length cs = (if pc then 2 else 0)" "length ns = (if ssn then 1 else 0)"
    by (auto simp: and_then_Returns_iff split: if_splits)
  then show ?thesis using p(1-3,6) by simp
qed

lemma PA_encode_ok:
  assumes "members (param_at s a) = PartyAddress pa" "param_content s b (param_at s a) = Some bs"
    "hdr = header et el (param_at s a) (length bs)" "buffer + k + length hdr + length bs \<le> length (mem s b)"
  shows "\<exists>s'. PA_encode b buffer (int k) et el a pa s = Returns (int (length (hdr @ bs)), s') \<and> wrote b (buffer + k) (hdr @ bs) s s'"
proof -
  let ?p = "param_at s a" and ?q = "buffer + k + length hdr"
  obtain h where h: "pa_octets pa = Returns h"
    using assms(1,2) by (auto simp: param_content_def split: Option.bind_splits)
  obtain pc ssn gi where ind: "point_code_indicator pa = Some pc" "ssn_indicator pa = Some ssn" "global_title_indicator pa = Some gi"
    "length h = (if pc then 2 else 0) + (if ssn then 1 else 0) + 1" using pa_octets_length [OF h] by blast
  define ts where "ts = drop (length h) bs"
  have bs: "bs = h @ ts" and tc: "case titled pa of None \<Rightarrow> ts = [] | Some g \<Rightarrow> title_content s b (gt_at s g) = Some ts"
    using assms(1,2) h by (auto simp: param_content_def ts_def split: option.splits Option.bind_splits)
  let ?head = "(if pc then 2 else 0) + (if ssn then 1 else 0) + 1 :: int"
  have head: "?head = int (length h)" using ind(4) by simp
  have len: "int (length hdr) = octets_if et el" using length_header [of ?p et el "length bs"] assms(1,3) by simp
  let ?title = "case global_title pa of None \<Rightarrow> Returns (0, s)
    | Some g \<Rightarrow> and_then (the_ptr (global_title_indicator pa)) (\<lambda>gi.
        if gi \<noteq> gti_value GT_NO_TITLE then gt_encode b buffer (int k + ?head + octets_if et el) g s else Returns (0, s))"
  have "\<exists>s1. ?title = Returns (int (length ts), s1) \<and> wrote b (?q + length h) ts s s1"
  proof (cases "titled pa")
    case None
    then have "?title = Returns (int (length ts), s)" using tc ind(3) by (auto simp: titled_def split: option.splits if_splits)
    then show ?thesis using None tc by (simp add: wrote_def)
  next
    case (Some g)
    have off: "int k + ?head + octets_if et el = int (k + length hdr + length h)" using head len by simp
    have "gi \<noteq> gti_value GT_NO_TITLE" "global_title pa = Some g" using Some ind(3) by (auto simp: titled_def split: if_splits)
    moreover have "\<exists>s1. gt_encode b buffer (int (k + length hdr + length h)) g s = Returns (int (length ts), s1) \<and>
        wrote b (buffer + (k + length hdr + length h)) ts s s1"
      using tc Some assms(4) bs by (intro gt_encode_ok) simp_all
    ultimately show ?thesis using ind(3) unfolding off by (simp add: add.assoc)
  qed
  then obtain s1 where s1: "?title = Returns (int (length ts), s1)" "wrote b (?q + length h) ts s s1" by blast
  note sv = s1(2) [unfolded wrote_def]
  have keep: "members (param_at s1 a) = members ?p" "param_type (param_at s1 a) = param_type ?p"
    using param_content_same [of b s s1] sv by blast+
  let ?p2 = "(param_at s1 a)\<lparr>param_value := Some (b, ?q), value_length := int (length bs)\<rparr>"
  let ?s2 = "set_mem b (overwrite (mem s b) ?q bs) (set_param a ?p2 s1)"
  let ?s3 = "set_param a (?p2\<lparr>param_byte_pos := length h\<rparr>) ?s2"
  let ?s4 = "set_mem b (overwrite (mem s b) (buffer + k) (hdr @ bs)) ?s3"
  have pl: "place buffer (int k + octets_if et el) = Returns ?q"
    using place_eq [of _ "k + length hdr"] len by simp
  have ov: "overwrite (mem s1 b) ?q h = overwrite (mem s b) ?q bs"
    using sv assms(4) bs overwrite_before [of ?q h ts "mem s b"] by simp
  have lm: "length (mem s1 b) = length (mem s b)" using sv assms(4) bs by simp
  have tl: "int (length ts) + ?head = int (length bs)" using head bs by simp
  have 2: "put_value b ?q a (int (length ts) + ?head) h s1 = Returns ?s2"
    unfolding tl using put_value_ok [of ?q h s1 b a "int (length bs)"] ov lm assms(4) bs by simp
  have 3: "SCCPParam_encode b buffer (int k) et el a ?s3 = Returns (int (length (hdr @ bs)), ?s4)"
    by (rule sccp_encode_in_place) (use assms keep in \<open>simp_all add: header_def\<close>)
  have "same_values b s ?s4"
    using sv keep(1) assms(1) by (auto intro!: same_values_put_param simp: kept_param_def)
  then have "wrote b (buffer + k) (hdr @ bs) s ?s4" using sv by (simp add: wrote_def)
  moreover have "PA_encode b buffer (int k) et el a pa s = Returns (int (length (hdr @ bs)), ?s4)"
    unfolding PA_encode_def Let_def ind(1,2) the_ptr_simps and_then.simps s1(1) prod.case pl h 2
    using 3 by simp
  ultimately show ?thesis by blast
qed

lemma sccp_param_encode_ok:
  assumes "param_content s b (param_at s a) = Some bs" "w = header et el (param_at s a) (length bs) @ bs"
    "buffer + k + length w \<le> length (mem s b)"
  shows "\<exists>s'. sccp_param_encode b buffer (int k) et el a s = Returns (int (length w), s') \<and> wrote b (buffer + k) w s s'"
proof -
  let ?p = "param_at s a"
  have room: "buffer + k + length (header et el ?p (length bs)) + length bs \<le> length (mem s b)" using assms(2,3) by simp
  consider (raw) "members ?p = No_Members \<or> members ?p = LongData" | (pa) pa where "members ?p = PartyAddress pa"
    | (sg) f c r ref n where "members ?p = Segmentation f c r ref n"
    | (own) "members ?p \<notin> {No_Members, LongData}" "param_content s b ?p = returned (own_octets (members ?p))"
      "\<And>octets. own_octets (members ?p) = Returns octets \<Longrightarrow>
         sccp_param_encode b buffer (int k) et el a s = encode_octets b buffer (int k) et el a (Returns octets) s"
    by (cases "members ?p") (simp_all add: param_content_def sccp_param_encode_def Let_def)
  then show ?thesis
  proof cases
    case raw
    then show ?thesis using SCCPParam_encode_ok [OF assms(1) _ refl room] assms(2) by simp
  next
    case (pa pa)
    then show ?thesis using PA_encode_ok [OF pa assms(1) refl room] assms(2) by (simp add: sccp_param_encode_def)
  next
    case (sg f c r ref n)
    then obtain v as where "Segmentation_octet f c r = Returns v" "outside s b ref n = Some as" "bs = v # as"
      using assms(1) by (auto simp: param_content_def split: Option.bind_splits)
    then show ?thesis using Segmentation_encode_ok [OF sg, of v b as _ et el buffer k] room sg assms(2)
      by (simp add: sccp_param_encode_def)
  next
    case own
    then have "own_octets (members ?p) = Returns bs" using assms(1) by (metis returned_Some)
    then show ?thesis using own encode_octets_ok [where s = s and a = a and b = b and buffer = buffer and k = k and bs = bs, OF own(1) refl] room assms(2) by simp
  qed
qed

end
