(* ===== verification/Sccp_Encode.thy ===== *)
theory Sccp_Encode
  imports Sccp_Codec
begin

text \<open>
  The messages of ITU-T Q.713 as octets, and \<open>encode\<close> of the messages against them.
\<close>

section \<open>The format\<close>

text \<open>Which parameters a message has: fixed ones, variable ones with a pointer each, and optional ones.\<close>

primrec fixed_slots :: "SCCPMessageType \<Rightarrow> SCCPParameterType list" where
  "fixed_slots CR_CONNECTION_REQUEST = [SOURCE_LOCAL_REFERENCE, PROTOCOL_CLASS]"
| "fixed_slots CC_CONNECTION_CONFIRM = [DESTINATION_LOCAL_REFERENCE, SOURCE_LOCAL_REFERENCE, PROTOCOL_CLASS]"
| "fixed_slots CREF_CONNECTION_REFUSED = [DESTINATION_LOCAL_REFERENCE, REFUSAL_CAUSE]"
| "fixed_slots RLSD_RELEASED = [DESTINATION_LOCAL_REFERENCE, SOURCE_LOCAL_REFERENCE, RELEASE_CAUSE]"
| "fixed_slots RLC_RELEASE_COMPLETE = [DESTINATION_LOCAL_REFERENCE, SOURCE_LOCAL_REFERENCE]"
| "fixed_slots DT1_DATA_FORM_1 = [DESTINATION_LOCAL_REFERENCE, SEGMENTING_REASSEMBLING]"
| "fixed_slots DT2_DATA_FORM_2 = [DESTINATION_LOCAL_REFERENCE, SEGMENTING_REASSEMBLING]"
| "fixed_slots AK_DATA_ACKNOWLEDGEMENT = [DESTINATION_LOCAL_REFERENCE, RECEIVE_SEQUENCE_NUMBER, CREDIT]"
| "fixed_slots UDT_UNITDATA = [PROTOCOL_CLASS]"
| "fixed_slots UDTS_UNITDATA_SERVICE = [RETURN_CAUSE]"
| "fixed_slots ED_EXPEDITED_DATA = [DESTINATION_LOCAL_REFERENCE]"
| "fixed_slots EA_EXPEDITED_DATA_ACKNOWLEDGMENT = [DESTINATION_LOCAL_REFERENCE]"
| "fixed_slots RSR_RESET_REQUEST = [DESTINATION_LOCAL_REFERENCE, SOURCE_LOCAL_REFERENCE, RESET_CAUSE]"
| "fixed_slots RSC_RESET_CONFIRM = [DESTINATION_LOCAL_REFERENCE, SOURCE_LOCAL_REFERENCE]"
| "fixed_slots ERR_PROTOCOL_DATA_UNIT_ERROR = [DESTINATION_LOCAL_REFERENCE, ERROR_CAUSE]"
| "fixed_slots IT_INACTIVITY_TEST =
     [DESTINATION_LOCAL_REFERENCE, SOURCE_LOCAL_REFERENCE, PROTOCOL_CLASS, SEQUENCING_SEGMENTING, CREDIT]"
| "fixed_slots XUDT_EXTENDED_UNITDATA = [PROTOCOL_CLASS, HOP_COUNTER]"
| "fixed_slots XUDTS_EXTENDED_UNIDATA_SERVICE = [RETURN_CAUSE, HOP_COUNTER]"
| "fixed_slots LUDT_LONG_UNIDATA = [PROTOCOL_CLASS, HOP_COUNTER]"
| "fixed_slots LUDTS_LONG_UNIDATA_SERVICE = [RETURN_CAUSE, HOP_COUNTER]"

fun var_slots :: "SCCPMessageType \<Rightarrow> SCCPParameterType list" where
  "var_slots CR_CONNECTION_REQUEST = [CALLED_PARTY_ADDRESS]"
| "var_slots DT1_DATA_FORM_1 = [DATA]"
| "var_slots DT2_DATA_FORM_2 = [DATA]"
| "var_slots ED_EXPEDITED_DATA = [DATA]"
| "var_slots UDT_UNITDATA = [CALLED_PARTY_ADDRESS, CALLING_PARTY_ADDRESS, DATA]"
| "var_slots UDTS_UNITDATA_SERVICE = [CALLED_PARTY_ADDRESS, CALLING_PARTY_ADDRESS, DATA]"
| "var_slots XUDT_EXTENDED_UNITDATA = [CALLED_PARTY_ADDRESS, CALLING_PARTY_ADDRESS, DATA]"
| "var_slots XUDTS_EXTENDED_UNIDATA_SERVICE = [CALLED_PARTY_ADDRESS, CALLING_PARTY_ADDRESS, DATA]"
| "var_slots LUDT_LONG_UNIDATA = [CALLED_PARTY_ADDRESS, CALLING_PARTY_ADDRESS, LONG_DATA]"
| "var_slots LUDTS_LONG_UNIDATA_SERVICE = [CALLED_PARTY_ADDRESS, CALLING_PARTY_ADDRESS, LONG_DATA]"
| "var_slots _ = []"

definition has_optional :: "SCCPMessageType \<Rightarrow> bool" where
  "has_optional mt \<longleftrightarrow> mt \<in>
     {CR_CONNECTION_REQUEST, CC_CONNECTION_CONFIRM, CREF_CONNECTION_REFUSED, RLSD_RELEASED, RSR_RESET_REQUEST,
      ERR_PROTOCOL_DATA_UNIT_ERROR, XUDT_EXTENDED_UNITDATA, XUDTS_EXTENDED_UNIDATA_SERVICE, LUDT_LONG_UNIDATA,
      LUDTS_LONG_UNIDATA_SERVICE}"

text \<open>A variable part is a length and a value; a pointer counts from itself to the length.\<close>

definition var_part :: "u8 list \<Rightarrow> u8 list" where
  "var_part w = of_nat (length w) # w"

definition parts_length :: "u8 list list \<Rightarrow> nat" where
  "parts_length vs = length (concat (map var_part vs))"

primrec var_pointers :: "nat \<Rightarrow> u8 list list \<Rightarrow> u8 list" where
  "var_pointers n [] = []"
| "var_pointers n (w # vs) = of_nat n # var_pointers (n + length (var_part w) - 1) vs"

definition optional_pointer :: "u8 list list \<Rightarrow> (SCCPParameterType \<times> u8 list) list \<Rightarrow> u8" where
  "optional_pointer vs opts = (if opts = [] then 0 else of_nat (1 + parts_length vs))"

definition opt_part :: "SCCPParameterType \<times> u8 list \<Rightarrow> u8 list" where
  "opt_part = (\<lambda>(pt, w). spt_value pt # var_part w)"

definition opt_parts :: "(SCCPParameterType \<times> u8 list) list \<Rightarrow> u8 list" where
  "opt_parts opts = (if opts = [] then [] else concat (map opt_part opts) @ [spt_value END_OF_OPTIONAL_PARAMETERS])"

text \<open>A message, with \<open>p\<close> as the pointer to its optional part.\<close>

definition message_with ::
  "u8 \<Rightarrow> SCCPMessageType \<Rightarrow> u8 list list \<Rightarrow> u8 list list \<Rightarrow> (SCCPParameterType \<times> u8 list) list \<Rightarrow> u8 list" where
  "message_with p mt fs vs opts =
     smt_value mt # concat fs @
     (if has_optional mt then var_pointers (length vs + 1) vs @ [p] else var_pointers (length vs) vs) @
     concat (map var_part vs) @ (if has_optional mt then opt_parts opts else [])"

definition message_octets ::
  "SCCPMessageType \<Rightarrow> u8 list list \<Rightarrow> u8 list list \<Rightarrow> (SCCPParameterType \<times> u8 list) list \<Rightarrow> u8 list" where
  "message_octets mt fs vs opts = message_with (optional_pointer vs opts) mt fs vs opts"

text \<open>What the parameters of a message in a state stand for, seen from the buffer \<open>b\<close>.\<close>

definition carries :: "sccp_state \<Rightarrow> nat \<Rightarrow> nat \<Rightarrow> u8 list \<Rightarrow> bool" where
  "carries s b a w \<longleftrightarrow> param_content s b (param_at s a) = Some w \<and> members (param_at s a) \<noteq> LongData"

definition part_carries :: "sccp_state \<Rightarrow> nat \<Rightarrow> nat \<Rightarrow> SCCPParameterType \<Rightarrow> u8 list \<Rightarrow> bool" where
  "part_carries s b m slot w \<longleftrightarrow> (\<exists>a. part (message_at s m) slot = Some a \<and> carries s b a w)"

definition opt_carries :: "sccp_state \<Rightarrow> nat \<Rightarrow> nat \<Rightarrow> SCCPParameterType \<times> u8 list \<Rightarrow> bool" where
  "opt_carries s b a x \<longleftrightarrow> param_type (param_at s a) = fst x \<and> carries s b a (snd x)"

section \<open>Steps\<close>

lemma steps_append: "steps (fs @ gs) = (\<lambda>x. and_then (steps fs x) (steps gs))"
proof (induction fs)
  case (Cons f fs)
  then show ?case by (intro ext) (simp add: and_then_assoc)
qed simp

text \<open>After some steps \<open>w\<close> is written of the message \<open>m\<close>, which was in the state \<open>s0\<close>.\<close>

definition progress :: "nat \<Rightarrow> nat \<Rightarrow> nat \<Rightarrow> sccp_state \<Rightarrow> u8 list \<Rightarrow> enc_locals \<times> sccp_state \<Rightarrow> bool" where
  "progress b q m s0 w x \<longleftrightarrow>
     tmp_l (fst x) = int (length w) \<and> mem (snd x) b = overwrite (mem s0 b) q w \<and> same_values b s0 (snd x) \<and>
     (\<exists>ps. length ps = length (pointer (message_at s0 m)) \<and>
       message_at (snd x) = (message_at s0)(m := (message_at s0 m)\<lparr>pointer := ps\<rparr>))"

lemma progressD:
  assumes "progress b q m s0 w (l, s)"
  shows "tmp_l l = int (length w)" "mem s b = overwrite (mem s0 b) q w" "same_values b s0 s"
    "message_type (message_at s m) = message_type (message_at s0 m)" "part (message_at s m) = part (message_at s0 m)"
    "optional_params (message_at s m) = optional_params (message_at s0 m)"
    "length (pointer (message_at s m)) = length (pointer (message_at s0 m))"
  using assms by (auto simp: progress_def)

lemma progress_wrote:
  assumes "progress b q m s0 w (l, s)" "wrote b (q + length w) w2 s s'" "tmp_l l' = int (length (w @ w2))"
    "q + length (w @ w2) \<le> length (mem s0 b)"
  shows "progress b q m s0 (w @ w2) (l', s')"
  using assms same_values_trans [of b s0 s s'] overwrite_append [of q w w2 "mem s0 b"]
  by (auto simp: progress_def wrote_def)

lemma carries_same: "same_values b s s' \<Longrightarrow> carries s' b a w = carries s b a w"
  by (simp add: carries_def param_content_same)

lemma header_parts:
  "members p \<noteq> LongData \<Longrightarrow> header False False p (length w) @ w = w"
  "members p \<noteq> LongData \<Longrightarrow> header False True p (length w) @ w = var_part w"
  "members p \<noteq> LongData \<Longrightarrow> header True True p (length w) @ w = opt_part (param_type p, w)"
  by (simp_all add: header_def var_part_def opt_part_def)

lemma enc_type_ok:
  assumes "q < length (mem s b)" "tmp_l l = 0"
  shows "\<exists>x. enc_type_octet b q m (l, s) = Returns x \<and> progress b q m s [smt_value (message_type (message_at s m))] x"
proof -
  let ?w = "[smt_value (message_type (message_at s m))]"
  have "progress b q m s ?w (l\<lparr>tmp_l := tmp_l l + 1\<rparr>, set_mem b (overwrite (mem s b) q ?w) s)"
    using assms(2) by (auto simp: progress_def intro!: exI [of _ "pointer (message_at s m)"])
  then show ?thesis using assms(1) by (simp add: enc_type_octet_def put_octets_ok)
qed

lemma enc_part_header_ok:
  assumes "progress b q m s0 w (l, s)" "part (message_at s0 m) slot = Some a" "param_content s0 b (param_at s0 a) = Some v"
    "w2 = header False len (param_at s0 a) (length v) @ v" "q + length w + length w2 \<le> length (mem s0 b)"
  shows "\<exists>l' s'. enc_part len b q m slot (l, s) = Returns (l', s') \<and> progress b q m s0 (w @ w2) (l', s') \<and>
    result_length l' = int (length w2) \<and> tmp_pointers l' = tmp_pointers l \<and> message_at s' = message_at s"
proof -
  note p = progressD [OF assms(1)]
  have a: "part (message_at s m) slot = Some a" "param_content s b (param_at s a) = Some v"
    using assms(2,3) p(5) param_content_same(1) [OF p(3)] by simp_all
  have h: "w2 = header False len (param_at s a) (length v) @ v"
    using assms(4) param_content_same(2,3) [OF p(3)] by (simp add: header_def)
  have "q + length w + length w2 \<le> length (mem s b)" using assms(5) p(2) by simp
  then obtain s' where s': "sccp_param_encode b q (int (length w)) False len a s = Returns (int (length w2), s')"
    "wrote b (q + length w) w2 s s'"
    using sccp_param_encode_ok [OF a(2) h, where buffer = q and k = "length w"] by auto
  then have "progress b q m s0 (w @ w2) (l\<lparr>tmp_l := tmp_l l + int (length w2), result_length := int (length w2)\<rparr>, s')"
    using assms(5) p(1) by (intro progress_wrote [OF assms(1)]) simp_all
  then show ?thesis using a(1) s' p(1) by (simp add: enc_part_def wrote_def)
qed

lemma enc_part_ok:
  assumes "progress b q m s0 w (l, s)" "part_carries s0 b m slot v" "w2 = (if len then var_part v else v)"
    "q + length w + length w2 \<le> length (mem s0 b)"
  shows "\<exists>l' s'. enc_part len b q m slot (l, s) = Returns (l', s') \<and> progress b q m s0 (w @ w2) (l', s') \<and>
    result_length l' = int (length w2) \<and> tmp_pointers l' = tmp_pointers l \<and> message_at s' = message_at s"
proof -
  obtain a where a: "part (message_at s0 m) slot = Some a" "carries s0 b a v" using assms(2) by (auto simp: part_carries_def)
  then have "w2 = header False len (param_at s0 a) (length v) @ v" using assms(3) header_parts by (auto simp: carries_def)
  then show ?thesis using enc_part_header_ok [OF assms(1) a(1)] a(2) assms(4) by (simp add: carries_def)
qed

lemma enc_fixed_ok:
  assumes "progress b q m s0 w x" "list_all2 (part_carries s0 b m) slots vs" "q + length w + length (concat vs) \<le> length (mem s0 b)"
  shows "\<exists>x'. steps (map (enc_part False b q m) slots) x = Returns x' \<and> progress b q m s0 (w @ concat vs) x'"
  using assms(2,1,3)
proof (induction arbitrary: w x)
  case Nil
  then show ?case by simp
next
  case (Cons slot slots v vs)
  obtain l s where x: "x = (l, s)" by (cases x)
  obtain x1 where x1: "enc_part False b q m slot x = Returns x1" "progress b q m s0 (w @ v) x1"
    using enc_part_ok [OF Cons.prems(1) [unfolded x] Cons.hyps(1), where len = False and ?w2.0 = v] Cons.prems(2) x by auto
  then show ?case using Cons.IH [OF x1(2)] Cons.prems(2) by simp
qed

lemma progress_set_pointer:
  assumes "progress b q m s0 w (l, s)"
  shows "progress b q m s0 w (l, set_pointer_value m i v s)"
proof -
  obtain ps where ps: "length ps = length (pointer (message_at s0 m))"
    "message_at s = (message_at s0)(m := (message_at s0 m)\<lparr>pointer := ps\<rparr>)" using assms by (auto simp: progress_def)
  then show ?thesis using assms
    by (auto simp: progress_def set_pointer_value_def update_message_def intro!: exI [of _ "ps[i := (ps ! i)\<lparr>ptr_value := v\<rparr>]"])
qed

lemma overwrite_old: "q + length w + n \<le> length bs \<Longrightarrow> overwrite bs q (w @ take n (drop (q + length w) bs)) = overwrite bs q w"
proof -
  assume "q + length w + n \<le> length bs"
  moreover have "take n (drop (q + length w) bs) @ drop (q + (length w + n)) bs = drop (q + length w) bs"
    by (metis append_take_drop_id drop_drop add.commute add.assoc)
  ultimately show ?thesis by (simp add: overwrite_def)
qed

lemma enc_pointers_ok:
  assumes "progress b q m s0 w (l, s)" "q + length w + n \<le> length (mem s0 b)" "pointer (message_at s0 m) \<noteq> []"
  shows "\<exists>l' s' old. enc_pointers q m n (l, s) = Returns (l', s') \<and> progress b q m s0 (w @ old) (l', s') \<and> length old = n \<and>
    tmp_pointers l' = q + length w \<and> pointer_values m s' 0 = int n \<and> old = take n (drop (q + length w) (mem s0 b))"
proof -
  note p = progressD [OF assms(1)]
  let ?old = "take n (drop (q + length w) (mem s0 b))"
  let ?l = "l\<lparr>tmp_pointers := q + length w, tmp_l := tmp_l l + int n\<rparr>"
  have "progress b q m s0 (w @ ?old) (?l, s)"
    using assms(1,2) p(1) by (auto simp: progress_def overwrite_old)
  then have "progress b q m s0 (w @ ?old) (?l, set_pointer_value m 0 (int n) s)" by (rule progress_set_pointer)
  moreover have "pointer_values m (set_pointer_value m 0 (int n) s) 0 = int n"
    using p(7) assms(3) by (cases "pointer (message_at s m)") (simp_all add: pointer_values_def set_pointer_value_def update_message_def)
  ultimately show ?thesis using assms(2) p(1)
    by (intro exI [of _ ?l] exI [of _ "set_pointer_value m 0 (int n) s"] exI [of _ ?old]) (simp add: enc_pointers_def place_eq)
qed

lemma enc_set_pointer_ok:
  assumes "progress b q m s0 w (l, s)" "i < length (pointer (message_at s0 m))" "v = e (result_length l) (pointer_values m s)"
  shows "\<exists>s'. enc_set_pointer m i e (l, s) = Returns (l, s') \<and> progress b q m s0 w (l, s') \<and>
    pointer_values m s' = (pointer_values m s)(i := v)"
proof -
  note p = progressD [OF assms(1)]
  let ?s = "set_pointer_value m i v s"
  have "progress b q m s0 w (l, ?s)" using assms(1) by (rule progress_set_pointer)
  moreover have "pointer_values m ?s = (pointer_values m s)(i := v)"
    using assms(2) p(7) by (auto simp: pointer_values_def set_pointer_value_def update_message_def nth_list_update)
  ultimately show ?thesis using assms(3) by (simp add: enc_set_pointer_def)
qed

lemma enc_write_pointers_ok:
  assumes "progress b q m s0 (u @ old @ v) (l, s)" "tmp_pointers l = q + length u" "length es = length old"
    "q + length (u @ old @ v) \<le> length (mem s0 b)" "vals = map (\<lambda>e. word_of_int (e (result_length l) (pointer_values m s))) es"
  shows "\<exists>s'. enc_write_pointers b m es (l, s) = Returns (l, s') \<and> progress b q m s0 (u @ vals @ v) (l, s')"
proof -
  note p = progressD [OF assms(1)]
  have l: "length vals = length old" using assms(3,5) by simp
  have o: "overwrite (overwrite (mem s0 b) q (u @ old @ v)) (q + length u) vals = overwrite (mem s0 b) q (u @ vals @ v)"
    using assms(4) l by (simp add: overwrite_def)
  let ?s = "set_mem b (overwrite (mem s0 b) q (u @ vals @ v)) s"
  have "put_octets b (q + length u) vals s = Returns ?s"
    using p(2) assms(4) l o by (simp add: put_octets_ok)
  moreover have "progress b q m s0 (u @ vals @ v) (l, ?s)" using assms(1) l by (auto simp: progress_def)
  ultimately show ?thesis using assms(2,5) by (auto simp: enc_write_pointers_def)
qed

lemma encode_optional_ok:
  assumes "progress b q m s0 w (l, s)" "list_all2 (opt_carries s0 b) as opts" "off = int (length w)"
    "q + length w + length (concat (map opt_part opts)) \<le> length (mem s0 b)"
  shows "\<exists>s'. encode_optional b q off r as s = Returns (off + int (length (concat (map opt_part opts))), r + int (length (concat (map opt_part opts))), s') \<and>
    progress b q m s0 (w @ concat (map opt_part opts)) (l\<lparr>tmp_l := off + int (length (concat (map opt_part opts)))\<rparr>, s') \<and> message_at s' = message_at s"
  using assms(2,1,3,4)
proof (induction arbitrary: w l s off r)
  case Nil
  then show ?case by (simp add: progress_def)
next
  case (Cons a as x opts)
  note p = progressD [OF Cons.prems(1)]
  let ?w = "opt_part x"
  have c: "carries s b a (snd x)" "param_type (param_at s a) = fst x"
    using Cons.hyps(1) carries_same [OF p(3)] param_content_same(2) [OF p(3)] by (simp_all add: opt_carries_def)
  then have h: "header True True (param_at s a) (length (snd x)) @ snd x = ?w" using header_parts(3) by (simp add: carries_def)
  have "q + length w + length ?w \<le> length (mem s b)" using Cons.prems(3) p(2) by simp
  then obtain s1 where s1: "sccp_param_encode b q (int (length w)) True True a s = Returns (int (length ?w), s1)"
    "wrote b (q + length w) ?w s s1"
    using sccp_param_encode_ok [OF _ h [symmetric], where buffer = q and k = "length w"] c(1) by (auto simp: carries_def)
  let ?l1 = "l\<lparr>tmp_l := int (length (w @ ?w))\<rparr>"
  have p1: "progress b q m s0 (w @ ?w) (?l1, s1)"
    using Cons.prems(3) by (intro progress_wrote [OF Cons.prems(1) s1(2)]) simp_all
  obtain s' where s': "encode_optional b q (off + int (length ?w)) (r + int (length ?w)) as s1 =
      Returns (off + int (length ?w) + int (length (concat (map opt_part opts))), r + int (length ?w) + int (length (concat (map opt_part opts))), s')"
    "progress b q m s0 ((w @ ?w) @ concat (map opt_part opts)) (?l1\<lparr>tmp_l := off + int (length ?w) + int (length (concat (map opt_part opts)))\<rparr>, s')"
    "message_at s' = message_at s1"
    using Cons.IH [OF p1, of "off + int (length ?w)" "r + int (length ?w)"] Cons.prems(2,3) by auto
  then show ?case using s1 Cons.prems(2) by (simp add: wrote_def ac_simps)
qed

lemma enc_optional_ok:
  assumes "progress b q m s0 w (l, s)" "list_all2 (opt_carries s0 b) (optional_params (message_at s0 m)) opts"
    "q + length w + length (opt_parts opts) \<le> length (mem s0 b)"
  shows "\<exists>l' s'. enc_optional b q m (l, s) = Returns (l', s') \<and> progress b q m s0 (w @ opt_parts opts) (l', s') \<and>
    result_length l' = int (length (opt_parts opts)) \<and> tmp_pointers l' = tmp_pointers l \<and> message_at s' = message_at s"
proof (cases "opts = []")
  case True
  then have "optional_params (message_at s m) = []" using assms(2) progressD(6) [OF assms(1)] by simp
  then show ?thesis using True assms(1) by (auto simp: enc_optional_def encode_optional_params_def opt_parts_def progress_def)
next
  case False
  note p = progressD [OF assms(1)]
  let ?as = "optional_params (message_at s m)" and ?os = "concat (map opt_part opts)"
  have as: "?as \<noteq> []" "list_all2 (opt_carries s0 b) ?as opts" using False assms(2) p(6) by auto
  have w: "opt_parts opts = ?os @ [spt_value END_OF_OPTIONAL_PARAMETERS]" using False by (simp add: opt_parts_def)
  obtain s1 where s1: "encode_optional b q (tmp_l l) 0 ?as s = Returns (tmp_l l + int (length ?os), int (length ?os), s1)"
    "progress b q m s0 (w @ ?os) (l\<lparr>tmp_l := tmp_l l + int (length ?os)\<rparr>, s1)" "message_at s1 = message_at s"
    using encode_optional_ok [OF assms(1) as(2) p(1), of 0] assms(3) w by auto
  note p1 = progressD [OF s1(2)]
  let ?e = "[spt_value END_OF_OPTIONAL_PARAMETERS]"
  let ?s2 = "set_mem b (overwrite (mem s1 b) (q + length (w @ ?os)) ?e) s1"
  have room: "q + length ((w @ ?os) @ ?e) \<le> length (mem s0 b)" using assms(3) w by simp
  have "q + length (w @ ?os) + length ?e \<le> length (mem s1 b)" using room p1(2) by simp
  then have put: "put_octets b (q + length (w @ ?os)) ?e s1 = Returns ?s2" by (rule put_octets_ok)
  let ?l = "l\<lparr>tmp_l := tmp_l l + (int (length ?os) + 1), result_length := int (length ?os) + 1\<rparr>"
  have "wrote b (q + length (w @ ?os)) ?e s1 ?s2" by (simp add: wrote_def)
  then have "progress b q m s0 ((w @ ?os) @ ?e) (?l, ?s2)"
    using p(1) room by (intro progress_wrote [OF s1(2)]) simp_all
  moreover have "place q (tmp_l l + int (length ?os)) = Returns (q + length (w @ ?os))"
    using place_eq [of _ "length (w @ ?os)" q] p(1) by simp
  ultimately show ?thesis using put s1(1,3) as(1) w
    by (auto simp: enc_optional_def encode_optional_params_def)
qed

section \<open>Messages\<close>

definition message_ready ::
  "sccp_state \<Rightarrow> nat \<Rightarrow> nat \<Rightarrow> u8 list list \<Rightarrow> u8 list list \<Rightarrow> (SCCPParameterType \<times> u8 list) list \<Rightarrow> bool" where
  "message_ready s b m fs vs opts \<longleftrightarrow>
     list_all2 (part_carries s b m) (fixed_slots (message_type (message_at s m))) fs \<and>
     list_all2 (part_carries s b m) (var_slots (message_type (message_at s m))) vs \<and>
     list_all2 (opt_carries s b) (optional_params (message_at s m)) opts \<and>
     length (pointer (message_at s m)) = pointer_count (message_type (message_at s m))"

text \<open>What follows the fixed parameters.\<close>

fun message_tail :: "SCCPMessageType \<Rightarrow> nat \<Rightarrow> nat \<Rightarrow> nat \<Rightarrow> (enc_locals \<times> sccp_state \<Rightarrow> (enc_locals \<times> sccp_state) outcome) list" where
  "message_tail mt b q m =
     (if mt \<in> {CC_CONNECTION_CONFIRM, CREF_CONNECTION_REFUSED, RLSD_RELEASED, RSR_RESET_REQUEST, ERR_PROTOCOL_DATA_UNIT_ERROR} then
        [enc_pointers q m 1, enc_optional b q m, enc_write_pointers b m [\<lambda>rl v. if rl = 0 then 0x00 else v 0]]
      else if mt \<in> {DT1_DATA_FORM_1, DT2_DATA_FORM_2, ED_EXPEDITED_DATA} then
        [enc_pointers q m 1, enc_part True b q m DATA, enc_write_pointers b m [\<lambda>rl v. v 0]]
      else if mt = CR_CONNECTION_REQUEST then
        [enc_pointers q m 2, enc_part True b q m CALLED_PARTY_ADDRESS, enc_set_pointer m 1 (\<lambda>rl v. rl), enc_optional b q m,
         enc_write_pointers b m [\<lambda>rl v. v 0, \<lambda>rl v. if rl = 0 then 0x00 else v 1 + 1]]
      else if mt \<in> {UDT_UNITDATA, UDTS_UNITDATA_SERVICE} then
        [enc_pointers q m 3, enc_part True b q m CALLED_PARTY_ADDRESS, enc_set_pointer m 1 (\<lambda>rl v. rl),
         enc_part True b q m CALLING_PARTY_ADDRESS, enc_set_pointer m 2 (\<lambda>rl v. rl + v 1), enc_part True b q m DATA,
         enc_write_pointers b m [\<lambda>rl v. v 0, \<lambda>rl v. v 1 + 2, \<lambda>rl v. v 2 + 1]]
      else if mt \<in> {XUDT_EXTENDED_UNITDATA, XUDTS_EXTENDED_UNIDATA_SERVICE} then
        [enc_pointers q m 4, enc_part True b q m CALLED_PARTY_ADDRESS, enc_set_pointer m 1 (\<lambda>rl v. rl),
         enc_part True b q m CALLING_PARTY_ADDRESS, enc_set_pointer m 2 (\<lambda>rl v. rl + v 1),
         enc_part True b q m DATA, enc_set_pointer m 3 (\<lambda>rl v. rl + v 2 + v 1), enc_optional b q m,
         enc_write_pointers b m [\<lambda>rl v. v 0, \<lambda>rl v. v 1 + 3, \<lambda>rl v. v 2 + 2, \<lambda>rl v. if rl = 0 then 0x00 else v 3 + 1]]
      else [])"

declare message_tail.simps [simp del]

text \<open>Long unitdata have pointers of two octets each; \<open>encode\<close> of \<open>ERR_PduError\<close> leaves out the error cause.\<close>

definition short_message :: "SCCPMessageType \<Rightarrow> bool" where
  "short_message mt \<longleftrightarrow> mt \<notin> {LUDT_LONG_UNIDATA, LUDTS_LONG_UNIDATA_SERVICE}"

definition sent_fixed :: "SCCPMessageType \<Rightarrow> 'a list \<Rightarrow> 'a list" where
  "sent_fixed mt xs = (if mt = ERR_PROTOCOL_DATA_UNIT_ERROR then butlast xs else xs)"

definition regular_message :: "SCCPMessageType \<Rightarrow> bool" where
  "regular_message mt \<longleftrightarrow> mt \<notin> {ERR_PROTOCOL_DATA_UNIT_ERROR, LUDT_LONG_UNIDATA, LUDTS_LONG_UNIDATA_SERVICE}"

lemma sent_fixed_regular: "regular_message mt \<Longrightarrow> sent_fixed mt xs = xs"
  by (simp add: sent_fixed_def regular_message_def)

lemma sent_fixed_all2: "list_all2 P xs ys \<Longrightarrow> list_all2 P (sent_fixed mt xs) (sent_fixed mt ys)"
proof -
  assume a: "list_all2 P xs ys"
  then have "list_all2 P (take (length xs - 1) xs) (take (length ys - 1) ys)" using list_all2_lengthD [OF a] by (simp add: list_all2_takeI)
  with a show ?thesis by (simp add: sent_fixed_def butlast_conv_take)
qed

lemma message_encode_shape:
  "short_message mt \<Longrightarrow>
    message_encode mt b q m = steps ((enc_type_octet b q m # map (enc_part False b q m) (sent_fixed mt (fixed_slots mt))) @ message_tail mt b q m)"
  by (cases mt) (simp_all add: short_message_def sent_fixed_def message_tail.simps XUDTS_ExtendedUnitdataService_encode_def XUDT_ExtendedUnitdata_encode_def
    UDTS_UnitDataService_encode_def UDT_UnitData_encode_def RSR_ResetRequest_encode_def RSC_ResetConfirmation_encode_def
    RLSD_Released_encode_def RLC_ReleaseComplete_encode_def IT_InactivityTest_encode_def ERR_PduError_encode_def ED_ExpeditedData_encode_def
    EA_ExpeditedDataAck_encode_def DT2_DataForm2_encode_def DT1_DataForm1_encode_def CREF_ConnectionRefused_encode_def
    CR_ConnectionRequest_encode_def CC_ConnectionConfirm_encode_def AK_DataAcknowledgement_encode_def)

lemma opt_parts_empty: "int (length (opt_parts opts)) = 0 \<longleftrightarrow> opts = []"
  by (simp add: opt_parts_def)

lemma tail_optional_ok:
  assumes "progress b q m s0 w (l, s)" "list_all2 (opt_carries s0 b) (optional_params (message_at s0 m)) opts"
    "length (pointer (message_at s0 m)) = 1" "q + length w + 1 + length (opt_parts opts) \<le> length (mem s0 b)"
  shows "\<exists>x. steps [enc_pointers q m 1, enc_optional b q m, enc_write_pointers b m [\<lambda>rl v. if rl = 0 then 0x00 else v 0]] (l, s) = Returns x \<and>
    progress b q m s0 (w @ [optional_pointer [] opts] @ opt_parts opts) x"
proof -
  obtain l1 s1 old where 1: "enc_pointers q m 1 (l, s) = Returns (l1, s1)" "progress b q m s0 (w @ old) (l1, s1)" "length old = 1"
    "tmp_pointers l1 = q + length w" "pointer_values m s1 0 = 1" using enc_pointers_ok [OF assms(1), of 1] assms(3,4) by fastforce
  obtain l2 s2 where 2: "enc_optional b q m (l1, s1) = Returns (l2, s2)" "progress b q m s0 (w @ old @ opt_parts opts) (l2, s2)"
    "result_length l2 = int (length (opt_parts opts))" "tmp_pointers l2 = tmp_pointers l1" "message_at s2 = message_at s1"
    using enc_optional_ok [OF 1(2) assms(2)] assms(4) 1(3) by auto
  have v: "pointer_values m s2 = pointer_values m s1" by (simp add: pointer_values_def 2(5))
  let ?es = "[\<lambda>rl v. if rl = 0 then 0x00 else v 0] :: pointer_expr list"
  obtain s3 where "enc_write_pointers b m ?es (l2, s2) = Returns (l2, s3)"
    "progress b q m s0 (w @ [optional_pointer [] opts] @ opt_parts opts) (l2, s3)"
    using enc_write_pointers_ok [OF 2(2), where es = ?es and vals = "[optional_pointer [] opts]"] assms(4) 1 2 v opt_parts_empty [of opts]
    by (auto simp: optional_pointer_def parts_length_def)
  then show ?thesis using 1(1) 2(1) by simp
qed

lemma tail_data_ok:
  assumes "progress b q m s0 w (l, s)" "part_carries s0 b m DATA v" "length (pointer (message_at s0 m)) = 1"
    "q + length w + 1 + length (var_part v) \<le> length (mem s0 b)"
  shows "\<exists>x. steps [enc_pointers q m 1, enc_part True b q m DATA, enc_write_pointers b m [\<lambda>rl v. v 0]] (l, s) = Returns x \<and>
    progress b q m s0 (w @ [1] @ var_part v) x"
proof -
  obtain l1 s1 old where 1: "enc_pointers q m 1 (l, s) = Returns (l1, s1)" "progress b q m s0 (w @ old) (l1, s1)" "length old = 1"
    "tmp_pointers l1 = q + length w" "pointer_values m s1 0 = 1" using enc_pointers_ok [OF assms(1), of 1] assms(3,4) by fastforce
  obtain l2 s2 where 2: "enc_part True b q m DATA (l1, s1) = Returns (l2, s2)" "progress b q m s0 (w @ old @ var_part v) (l2, s2)"
    "tmp_pointers l2 = tmp_pointers l1" "message_at s2 = message_at s1"
    using enc_part_ok [OF 1(2) assms(2), where len = True and ?w2.0 = "var_part v"] assms(4) 1(3) by auto
  have v: "pointer_values m s2 = pointer_values m s1" by (simp add: pointer_values_def 2(4))
  let ?es = "[\<lambda>rl v. v 0] :: pointer_expr list"
  obtain s3 where "enc_write_pointers b m ?es (l2, s2) = Returns (l2, s3)" "progress b q m s0 (w @ [1] @ var_part v) (l2, s3)"
    using enc_write_pointers_ok [OF 2(2), where es = ?es and vals = "[1]"] assms(4) 1 2 v by auto
  then show ?thesis using 1(1) 2(1) by simp
qed

text \<open>A variable part followed by the setting of the next pointer.\<close>

lemma enc_part_pointer_ok:
  assumes "progress b q m s0 w (l, s)" "part_carries s0 b m slot v" "q + length w + length (var_part v) \<le> length (mem s0 b)"
    "i < length (pointer (message_at s0 m))"
  shows "\<exists>l' s'. steps (enc_part True b q m slot # enc_set_pointer m i e # fs) (l, s) = steps fs (l', s') \<and>
    progress b q m s0 (w @ var_part v) (l', s') \<and> tmp_pointers l' = tmp_pointers l \<and>
    pointer_values m s' = (pointer_values m s)(i := e (int (length (var_part v))) (pointer_values m s))"
proof -
  obtain l1 s1 where 1: "enc_part True b q m slot (l, s) = Returns (l1, s1)" "progress b q m s0 (w @ var_part v) (l1, s1)"
    "result_length l1 = int (length (var_part v))" "tmp_pointers l1 = tmp_pointers l" "message_at s1 = message_at s"
    using enc_part_ok [OF assms(1,2), where len = True and ?w2.0 = "var_part v"] assms(3) by auto
  have v: "pointer_values m s1 = pointer_values m s" by (simp add: pointer_values_def 1(5))
  obtain s2 where "enc_set_pointer m i e (l1, s1) = Returns (l1, s2)" "progress b q m s0 (w @ var_part v) (l1, s2)"
    "pointer_values m s2 = (pointer_values m s)(i := e (int (length (var_part v))) (pointer_values m s))"
    using enc_set_pointer_ok [OF 1(2) assms(4) refl, of e] v 1(3) by auto
  then show ?thesis using 1 by auto
qed

lemma length_var_part [simp]: "length (var_part w) = Suc (length w)"
  by (simp add: var_part_def)

lemma tail_called_ok:
  assumes "progress b q m s0 w (l, s)" "part_carries s0 b m CALLED_PARTY_ADDRESS v"
    "list_all2 (opt_carries s0 b) (optional_params (message_at s0 m)) opts" "length (pointer (message_at s0 m)) = 2"
    "q + length w + 2 + length (var_part v) + length (opt_parts opts) \<le> length (mem s0 b)"
  shows "\<exists>x. steps [enc_pointers q m 2, enc_part True b q m CALLED_PARTY_ADDRESS, enc_set_pointer m 1 (\<lambda>rl v. rl), enc_optional b q m,
         enc_write_pointers b m [\<lambda>rl v. v 0, \<lambda>rl v. if rl = 0 then 0x00 else v 1 + 1]] (l, s) = Returns x \<and>
    progress b q m s0 (w @ (var_pointers 2 [v] @ [optional_pointer [v] opts]) @ var_part v @ opt_parts opts) x"
proof -
  let ?es = "[\<lambda>rl v. v 0, \<lambda>rl v. if rl = 0 then 0x00 else v 1 + 1] :: pointer_expr list"
  obtain l1 s1 old where 1: "enc_pointers q m 2 (l, s) = Returns (l1, s1)" "progress b q m s0 (w @ old) (l1, s1)" "length old = 2"
    "tmp_pointers l1 = q + length w" "pointer_values m s1 0 = 2" using enc_pointers_ok [OF assms(1), of 2] assms(4,5) by fastforce
  obtain l2 s2 where 2: "steps [enc_part True b q m CALLED_PARTY_ADDRESS, enc_set_pointer m 1 (\<lambda>rl v. rl), enc_optional b q m,
      enc_write_pointers b m ?es] (l1, s1) = steps [enc_optional b q m, enc_write_pointers b m ?es] (l2, s2)"
    "progress b q m s0 (w @ old @ var_part v) (l2, s2)" "tmp_pointers l2 = tmp_pointers l1"
    "pointer_values m s2 = (pointer_values m s1)(1 := int (length (var_part v)))"
    using enc_part_pointer_ok [OF 1(2) assms(2), of 1 "\<lambda>rl v. rl" "[enc_optional b q m, enc_write_pointers b m ?es]"] assms(4,5) 1(3) by auto
  obtain l3 s3 where 3: "enc_optional b q m (l2, s2) = Returns (l3, s3)" "progress b q m s0 (w @ old @ var_part v @ opt_parts opts) (l3, s3)"
    "result_length l3 = int (length (opt_parts opts))" "tmp_pointers l3 = tmp_pointers l2" "message_at s3 = message_at s2"
    using enc_optional_ok [OF 2(2) assms(3)] assms(5) 1(3) by auto
  have v: "pointer_values m s3 = (pointer_values m s1)(1 := int (length (var_part v)))" using 2(4) by (simp add: pointer_values_def 3(5))
  obtain s4 where "enc_write_pointers b m ?es (l3, s3) = Returns (l3, s4)"
    "progress b q m s0 (w @ (var_pointers 2 [v] @ [optional_pointer [v] opts]) @ var_part v @ opt_parts opts) (l3, s4)"
    using enc_write_pointers_ok [OF 3(2), where es = ?es and vals = "var_pointers 2 [v] @ [optional_pointer [v] opts]"]
      assms(5) 1 2(3) 3 v opt_parts_empty [of opts]
    by (auto simp: optional_pointer_def parts_length_def)
  then show ?thesis using 1(1) 2(1) 3(1) by simp
qed

lemma three_parts_ok:
  assumes "progress b q m s0 w (l, s)" "part_carries s0 b m CALLED_PARTY_ADDRESS v1" "part_carries s0 b m CALLING_PARTY_ADDRESS v2"
    "3 \<le> length (pointer (message_at s0 m))" "q + length w + n + length (concat (map var_part [v1, v2])) \<le> length (mem s0 b)"
  shows "\<exists>l' s' old. steps (enc_pointers q m n # enc_part True b q m CALLED_PARTY_ADDRESS # enc_set_pointer m 1 (\<lambda>rl v. rl) #
      enc_part True b q m CALLING_PARTY_ADDRESS # enc_set_pointer m 2 (\<lambda>rl v. rl + v 1) # fs) (l, s) = steps fs (l', s') \<and>
    progress b q m s0 (w @ old @ concat (map var_part [v1, v2])) (l', s') \<and> length old = n \<and> tmp_pointers l' = q + length w \<and>
    pointer_values m s' 0 = int n \<and> pointer_values m s' 1 = int (length (var_part v1)) \<and>
    pointer_values m s' 2 = int (length (var_part v2)) + int (length (var_part v1)) \<and> old = take n (drop (q + length w) (mem s0 b))"
proof -
  let ?fs = "enc_part True b q m CALLING_PARTY_ADDRESS # enc_set_pointer m 2 (\<lambda>rl v. rl + v 1) # fs"
  have "pointer (message_at s0 m) \<noteq> []" using assms(4) by auto
  then obtain l1 s1 old where 1: "enc_pointers q m n (l, s) = Returns (l1, s1)" "progress b q m s0 (w @ old) (l1, s1)" "length old = n"
    "tmp_pointers l1 = q + length w" "pointer_values m s1 0 = int n" "old = take n (drop (q + length w) (mem s0 b))"
    using enc_pointers_ok [OF assms(1), of n] assms(5) by fastforce
  obtain l2 s2 where 2: "steps (enc_part True b q m CALLED_PARTY_ADDRESS # enc_set_pointer m 1 (\<lambda>rl v. rl) # ?fs) (l1, s1) = steps ?fs (l2, s2)"
    "progress b q m s0 (w @ old @ var_part v1) (l2, s2)" "tmp_pointers l2 = tmp_pointers l1"
    "pointer_values m s2 = (pointer_values m s1)(1 := int (length (var_part v1)))"
    using enc_part_pointer_ok [OF 1(2) assms(2), of 1 "\<lambda>rl v. rl" ?fs] assms(4-) 1(3) by auto
  obtain l3 s3 where 3: "steps ?fs (l2, s2) = steps fs (l3, s3)"
    "progress b q m s0 (w @ old @ concat (map var_part [v1, v2])) (l3, s3)" "tmp_pointers l3 = tmp_pointers l2"
    "pointer_values m s3 = (pointer_values m s2)(2 := int (length (var_part v2)) + pointer_values m s2 1)"
    using enc_part_pointer_ok [OF 2(2) assms(3), of 2 "\<lambda>rl v. rl + v 1" fs] assms(4-) 1(3) by auto
  have "steps (enc_pointers q m n # enc_part True b q m CALLED_PARTY_ADDRESS # enc_set_pointer m 1 (\<lambda>rl v. rl) # ?fs) (l, s) = steps fs (l3, s3)"
    using 1(1) 2(1) 3(1) by simp
  then show ?thesis using 1 2 3 by fastforce
qed

lemma tail_unit_ok:
  assumes "progress b q m s0 w (l, s)" "part_carries s0 b m CALLED_PARTY_ADDRESS v1" "part_carries s0 b m CALLING_PARTY_ADDRESS v2"
    "part_carries s0 b m DATA v3" "length (pointer (message_at s0 m)) = 3"
    "q + length w + 3 + length (concat (map var_part [v1, v2, v3])) \<le> length (mem s0 b)"
  shows "\<exists>x. steps [enc_pointers q m 3, enc_part True b q m CALLED_PARTY_ADDRESS, enc_set_pointer m 1 (\<lambda>rl v. rl),
         enc_part True b q m CALLING_PARTY_ADDRESS, enc_set_pointer m 2 (\<lambda>rl v. rl + v 1), enc_part True b q m DATA,
         enc_write_pointers b m [\<lambda>rl v. v 0, \<lambda>rl v. v 1 + 2, \<lambda>rl v. v 2 + 1]] (l, s) = Returns x \<and>
    progress b q m s0 (w @ var_pointers 3 [v1, v2, v3] @ concat (map var_part [v1, v2, v3])) x"
proof -
  let ?es = "[\<lambda>rl v. v 0, \<lambda>rl v. v 1 + 2, \<lambda>rl v. v 2 + 1] :: pointer_expr list"
  let ?fs = "[enc_part True b q m DATA, enc_write_pointers b m ?es]"
  obtain l1 s1 old where 1: "steps (enc_pointers q m 3 # enc_part True b q m CALLED_PARTY_ADDRESS # enc_set_pointer m 1 (\<lambda>rl v. rl) #
      enc_part True b q m CALLING_PARTY_ADDRESS # enc_set_pointer m 2 (\<lambda>rl v. rl + v 1) # ?fs) (l, s) = steps ?fs (l1, s1)"
    "progress b q m s0 (w @ old @ concat (map var_part [v1, v2])) (l1, s1)" "length old = 3" "tmp_pointers l1 = q + length w"
    "pointer_values m s1 0 = int 3" "pointer_values m s1 1 = int (length (var_part v1))"
    "pointer_values m s1 2 = int (length (var_part v2)) + int (length (var_part v1))"
    using three_parts_ok [OF assms(1-3), of 3 ?fs] assms(5,6) by auto
  obtain l2 s2 where 2: "enc_part True b q m DATA (l1, s1) = Returns (l2, s2)"
    "progress b q m s0 (w @ old @ concat (map var_part [v1, v2, v3])) (l2, s2)" "tmp_pointers l2 = tmp_pointers l1" "message_at s2 = message_at s1"
    using enc_part_ok [OF 1(2) assms(4), where len = True and ?w2.0 = "var_part v3"] assms(6) 1(3) by auto
  have v: "pointer_values m s2 = pointer_values m s1" by (simp add: pointer_values_def 2(4))
  obtain s3 where "enc_write_pointers b m ?es (l2, s2) = Returns (l2, s3)"
    "progress b q m s0 (w @ var_pointers 3 [v1, v2, v3] @ concat (map var_part [v1, v2, v3])) (l2, s3)"
    using enc_write_pointers_ok [OF 2(2), where es = ?es and vals = "var_pointers 3 [v1, v2, v3]"] assms(6) 1(3-) 2(3) v
    by auto
  then show ?thesis using 1(1) 2(1) by simp
qed

text \<open>In extended messages the pointer to the optional part counts the called party twice.\<close>

definition extended_pointer :: "u8 list list \<Rightarrow> (SCCPParameterType \<times> u8 list) list \<Rightarrow> u8" where
  "extended_pointer vs opts = (if opts = [] then 0 else optional_pointer vs opts + of_nat (length (var_part (hd vs))))"

lemma tail_extended_ok:
  assumes "progress b q m s0 w (l, s)" "part_carries s0 b m CALLED_PARTY_ADDRESS v1" "part_carries s0 b m CALLING_PARTY_ADDRESS v2"
    "part_carries s0 b m DATA v3" "list_all2 (opt_carries s0 b) (optional_params (message_at s0 m)) opts"
    "length (pointer (message_at s0 m)) = 4"
    "q + length w + 4 + length (concat (map var_part [v1, v2, v3])) + length (opt_parts opts) \<le> length (mem s0 b)"
  shows "\<exists>x. steps [enc_pointers q m 4, enc_part True b q m CALLED_PARTY_ADDRESS, enc_set_pointer m 1 (\<lambda>rl v. rl),
         enc_part True b q m CALLING_PARTY_ADDRESS, enc_set_pointer m 2 (\<lambda>rl v. rl + v 1),
         enc_part True b q m DATA, enc_set_pointer m 3 (\<lambda>rl v. rl + v 2 + v 1), enc_optional b q m,
         enc_write_pointers b m [\<lambda>rl v. v 0, \<lambda>rl v. v 1 + 3, \<lambda>rl v. v 2 + 2, \<lambda>rl v. if rl = 0 then 0x00 else v 3 + 1]] (l, s) = Returns x \<and>
    progress b q m s0 (w @ (var_pointers 4 [v1, v2, v3] @ [extended_pointer [v1, v2, v3] opts]) @
      concat (map var_part [v1, v2, v3]) @ opt_parts opts) x"
proof -
  let ?es = "[\<lambda>rl v. v 0, \<lambda>rl v. v 1 + 3, \<lambda>rl v. v 2 + 2, \<lambda>rl v. if rl = 0 then 0x00 else v 3 + 1] :: pointer_expr list"
  let ?gs = "[enc_optional b q m, enc_write_pointers b m ?es]"
  let ?fs = "enc_part True b q m DATA # enc_set_pointer m 3 (\<lambda>rl v. rl + v 2 + v 1) # ?gs"
  obtain l1 s1 old where 1: "steps (enc_pointers q m 4 # enc_part True b q m CALLED_PARTY_ADDRESS # enc_set_pointer m 1 (\<lambda>rl v. rl) #
      enc_part True b q m CALLING_PARTY_ADDRESS # enc_set_pointer m 2 (\<lambda>rl v. rl + v 1) # ?fs) (l, s) = steps ?fs (l1, s1)"
    "progress b q m s0 (w @ old @ concat (map var_part [v1, v2])) (l1, s1)" "length old = 4" "tmp_pointers l1 = q + length w"
    "pointer_values m s1 0 = int 4" "pointer_values m s1 1 = int (length (var_part v1))"
    "pointer_values m s1 2 = int (length (var_part v2)) + int (length (var_part v1))"
    using three_parts_ok [OF assms(1-3), of 4 ?fs] assms(6,7) by auto
  obtain l2 s2 where 2: "steps ?fs (l1, s1) = steps ?gs (l2, s2)" "progress b q m s0 (w @ old @ concat (map var_part [v1, v2, v3])) (l2, s2)"
    "tmp_pointers l2 = tmp_pointers l1"
    "pointer_values m s2 = (pointer_values m s1)(3 := int (length (var_part v3)) + pointer_values m s1 2 + pointer_values m s1 1)"
    using enc_part_pointer_ok [OF 1(2) assms(4), of 3 "\<lambda>rl v. rl + v 2 + v 1" ?gs] assms(6,7) 1(3) by auto
  obtain l3 s3 where 3: "enc_optional b q m (l2, s2) = Returns (l3, s3)"
    "progress b q m s0 (w @ old @ concat (map var_part [v1, v2, v3]) @ opt_parts opts) (l3, s3)"
    "result_length l3 = int (length (opt_parts opts))" "tmp_pointers l3 = tmp_pointers l2" "message_at s3 = message_at s2"
    using enc_optional_ok [OF 2(2) assms(5)] assms(7) 1(3) by auto
  have v: "pointer_values m s3 = pointer_values m s2" by (simp add: pointer_values_def 3(5))
  have vals: "var_pointers 4 [v1, v2, v3] @ [extended_pointer [v1, v2, v3] opts] =
      map (\<lambda>e. word_of_int (e (result_length l3) (pointer_values m s3))) ?es"
    using 1(5-) 2(4) 3(3) v opt_parts_empty [of opts] by (simp add: extended_pointer_def optional_pointer_def parts_length_def)
  obtain s4 where "enc_write_pointers b m ?es (l3, s3) = Returns (l3, s4)"
    "progress b q m s0 (w @ (var_pointers 4 [v1, v2, v3] @ [extended_pointer [v1, v2, v3] opts]) @
      concat (map var_part [v1, v2, v3]) @ opt_parts opts) (l3, s4)"
    using enc_write_pointers_ok [OF 3(2) _ _ _ vals] assms(7) 1(3,4) 2(3) 3(4) by auto
  then show ?thesis using 1(1) 2(1) 3(1) by simp
qed

section \<open>Whole messages\<close>

text \<open>A message that still stands for the same, with the same parameters.\<close>

definition same_message :: "nat \<Rightarrow> nat \<Rightarrow> sccp_state \<Rightarrow> sccp_state \<Rightarrow> bool" where
  "same_message b m s s' \<longleftrightarrow> same_values b s s' \<and> message_type (message_at s' m) = message_type (message_at s m) \<and>
     part (message_at s' m) = part (message_at s m) \<and> optional_params (message_at s' m) = optional_params (message_at s m) \<and>
     length (pointer (message_at s' m)) = length (pointer (message_at s m))"

definition written_pointer :: "SCCPMessageType \<Rightarrow> u8 list list \<Rightarrow> (SCCPParameterType \<times> u8 list) list \<Rightarrow> u8" where
  "written_pointer mt vs opts =
     (if mt \<in> {XUDT_EXTENDED_UNITDATA, XUDTS_EXTENDED_UNIDATA_SERVICE} then extended_pointer vs opts else optional_pointer vs opts)"

lemma message_tail_ok:
  assumes "progress b q m s0 w x" "message_ready s0 b m fs vs opts" "mt = message_type (message_at s0 m)" "short_message mt"
    "t = (if has_optional mt then var_pointers (length vs + 1) vs @ [written_pointer mt vs opts] else var_pointers (length vs) vs) @
      concat (map var_part vs) @ (if has_optional mt then opt_parts opts else [])"
    "q + length w + length t \<le> length (mem s0 b)"
  shows "\<exists>x'. steps (message_tail mt b q m) x = Returns x' \<and> progress b q m s0 (w @ t) x'"
proof -
  obtain l s where x: "x = (l, s)" by (cases x)
  note p = assms(1) [unfolded x]
  have r: "list_all2 (part_carries s0 b m) (var_slots mt) vs" "list_all2 (opt_carries s0 b) (optional_params (message_at s0 m)) opts"
    "length (pointer (message_at s0 m)) = pointer_count mt" using assms(2,3) by (simp_all add: message_ready_def)
  consider (none) "mt \<in> {RLC_RELEASE_COMPLETE, AK_DATA_ACKNOWLEDGEMENT, EA_EXPEDITED_DATA_ACKNOWLEDGMENT, RSC_RESET_CONFIRM, IT_INACTIVITY_TEST}"
    | (opt) "mt \<in> {CC_CONNECTION_CONFIRM, CREF_CONNECTION_REFUSED, RLSD_RELEASED, RSR_RESET_REQUEST, ERR_PROTOCOL_DATA_UNIT_ERROR}"
    | (data) "mt \<in> {DT1_DATA_FORM_1, DT2_DATA_FORM_2, ED_EXPEDITED_DATA}"
    | (called) "mt = CR_CONNECTION_REQUEST"
    | (unit) "mt \<in> {UDT_UNITDATA, UDTS_UNITDATA_SERVICE}"
    | (ext) "mt \<in> {XUDT_EXTENDED_UNITDATA, XUDTS_EXTENDED_UNIDATA_SERVICE}"
    using assms(4) by (cases mt) (simp_all add: short_message_def)
  then show ?thesis
  proof cases
    case none
    then have "vs = []" "\<not> has_optional mt" "message_tail mt b q m = []"
      using r(1) by (auto simp: has_optional_def message_tail.simps)
    then show ?thesis using assms(5) p x by simp
  next
    case opt
    then have c: "vs = []" "has_optional mt" "pointer_count mt = 1" "written_pointer mt vs opts = optional_pointer vs opts"
      "message_tail mt b q m = [enc_pointers q m 1, enc_optional b q m, enc_write_pointers b m [\<lambda>rl v. if rl = 0 then 0x00 else v 0]]"
      using r(1) by (auto simp: has_optional_def message_tail.simps written_pointer_def)
    then have t: "t = [optional_pointer [] opts] @ opt_parts opts" using assms(5) by simp
    have "length (pointer (message_at s0 m)) = 1" "q + length w + 1 + length (opt_parts opts) \<le> length (mem s0 b)"
      using r(3) c(3) assms(6) t by simp_all
    from tail_optional_ok [OF p r(2) this] show ?thesis unfolding x c(5) t .
  next
    case data
    then have c: "\<not> has_optional mt" "pointer_count mt = 1" "var_slots mt = [DATA]"
      "message_tail mt b q m = [enc_pointers q m 1, enc_part True b q m DATA, enc_write_pointers b m [\<lambda>rl v. v 0]]"
      by (auto simp: has_optional_def message_tail.simps)
    obtain v where v: "vs = [v]" "part_carries s0 b m DATA v" using r(1) c(3) by (auto simp: list_all2_Cons1)
    then have t: "t = [1] @ var_part v" using assms(5) c(1) by simp
    have "length (pointer (message_at s0 m)) = 1" "q + length w + 1 + length (var_part v) \<le> length (mem s0 b)"
      using r(3) c(2) assms(6) t by simp_all
    from tail_data_ok [OF p v(2) this] show ?thesis unfolding x c(4) t .
  next
    case called
    then have c: "has_optional mt" "pointer_count mt = 2" "var_slots mt = [CALLED_PARTY_ADDRESS]"
      "written_pointer mt vs opts = optional_pointer vs opts"
      "message_tail mt b q m = [enc_pointers q m 2, enc_part True b q m CALLED_PARTY_ADDRESS, enc_set_pointer m 1 (\<lambda>rl v. rl),
         enc_optional b q m, enc_write_pointers b m [\<lambda>rl v. v 0, \<lambda>rl v. if rl = 0 then 0x00 else v 1 + 1]]"
      by (auto simp: has_optional_def message_tail.simps written_pointer_def)
    obtain v where v: "vs = [v]" "part_carries s0 b m CALLED_PARTY_ADDRESS v" using r(1) c(3) by (auto simp: list_all2_Cons1)
    then have t: "t = (var_pointers 2 [v] @ [optional_pointer [v] opts]) @ var_part v @ opt_parts opts" using assms(5) c(1,4) by simp
    have "length (pointer (message_at s0 m)) = 2" "q + length w + 2 + length (var_part v) + length (opt_parts opts) \<le> length (mem s0 b)"
      using r(3) c(2) assms(6) t by simp_all
    from tail_called_ok [OF p v(2) r(2) this] show ?thesis unfolding x c(5) t .
  next
    case unit
    then have c: "\<not> has_optional mt" "pointer_count mt = 3" "var_slots mt = [CALLED_PARTY_ADDRESS, CALLING_PARTY_ADDRESS, DATA]"
      "message_tail mt b q m =
        [enc_pointers q m 3, enc_part True b q m CALLED_PARTY_ADDRESS, enc_set_pointer m 1 (\<lambda>rl v. rl),
         enc_part True b q m CALLING_PARTY_ADDRESS, enc_set_pointer m 2 (\<lambda>rl v. rl + v 1), enc_part True b q m DATA,
         enc_write_pointers b m [\<lambda>rl v. v 0, \<lambda>rl v. v 1 + 2, \<lambda>rl v. v 2 + 1]]"
      by (auto simp: has_optional_def message_tail.simps)
    obtain v1 v2 v3 where v: "vs = [v1, v2, v3]" "part_carries s0 b m CALLED_PARTY_ADDRESS v1"
      "part_carries s0 b m CALLING_PARTY_ADDRESS v2" "part_carries s0 b m DATA v3" using r(1) c(3) by (auto simp: list_all2_Cons1)
    then have t: "t = var_pointers 3 [v1, v2, v3] @ concat (map var_part [v1, v2, v3])" using assms(5) c(1) by simp
    have "length (pointer (message_at s0 m)) = 3" "q + length w + 3 + length (concat (map var_part [v1, v2, v3])) \<le> length (mem s0 b)"
      using r(3) c(2) assms(6) t by simp_all
    from tail_unit_ok [OF p v(2-4) this] show ?thesis unfolding x c(4) t .
  next
    case ext
    then have c: "has_optional mt" "pointer_count mt = 4" "var_slots mt = [CALLED_PARTY_ADDRESS, CALLING_PARTY_ADDRESS, DATA]"
      "written_pointer mt vs opts = extended_pointer vs opts"
      "message_tail mt b q m =
        [enc_pointers q m 4, enc_part True b q m CALLED_PARTY_ADDRESS, enc_set_pointer m 1 (\<lambda>rl v. rl),
         enc_part True b q m CALLING_PARTY_ADDRESS, enc_set_pointer m 2 (\<lambda>rl v. rl + v 1),
         enc_part True b q m DATA, enc_set_pointer m 3 (\<lambda>rl v. rl + v 2 + v 1), enc_optional b q m,
         enc_write_pointers b m [\<lambda>rl v. v 0, \<lambda>rl v. v 1 + 3, \<lambda>rl v. v 2 + 2, \<lambda>rl v. if rl = 0 then 0x00 else v 3 + 1]]"
      by (auto simp: has_optional_def message_tail.simps written_pointer_def)
    obtain v1 v2 v3 where v: "vs = [v1, v2, v3]" "part_carries s0 b m CALLED_PARTY_ADDRESS v1"
      "part_carries s0 b m CALLING_PARTY_ADDRESS v2" "part_carries s0 b m DATA v3" using r(1) c(3) by (auto simp: list_all2_Cons1)
    then have t: "t = (var_pointers 4 [v1, v2, v3] @ [extended_pointer [v1, v2, v3] opts]) @
      concat (map var_part [v1, v2, v3]) @ opt_parts opts" using assms(5) c(1,4) by simp
    have "length (pointer (message_at s0 m)) = 4"
      "q + length w + 4 + length (concat (map var_part [v1, v2, v3])) + length (opt_parts opts) \<le> length (mem s0 b)"
      using r(3) c(2) assms(6) t by simp_all
    from tail_extended_ok [OF p v(2-4) r(2) this] show ?thesis unfolding x c(5) t .
  qed
qed

lemma sccp_encode_sent:
  assumes "message_ready s b m fs vs opts" "mt = message_type (message_at s m)" "short_message mt" "0 < buffer_length"
    "w = message_with (written_pointer mt vs opts) mt (sent_fixed mt fs) vs opts" "q = buffer + off" "q + length w \<le> length (mem s b)"
  shows "\<exists>s'. sccp_encode b buffer buffer_length (int off) m r s = Returns (int (length w), s') \<and>
    mem s' b = overwrite (mem s b) q w \<and> (\<forall>vb. vb \<noteq> b \<longrightarrow> mem s' vb = mem s vb) \<and> message_ready s' b m fs vs opts \<and>
    same_message b m s s'"
proof -
  let ?l = "\<lparr>tmp_l = 0, result_length = r, tmp_pointers = 0\<rparr>"
  define t where "t = (if has_optional mt then var_pointers (length vs + 1) vs @ [written_pointer mt vs opts] else var_pointers (length vs) vs) @
      concat (map var_part vs) @ (if has_optional mt then opt_parts opts else [])"
  have w: "w = [smt_value mt] @ concat (sent_fixed mt fs) @ t" using assms(5) by (simp add: message_with_def t_def)
  obtain x1 where x1: "enc_type_octet b q m (?l, s) = Returns x1" "progress b q m s [smt_value mt] x1"
    using enc_type_ok [of q s b ?l m] assms(2,7) w by auto
  obtain x2 where x2: "steps (map (enc_part False b q m) (sent_fixed mt (fixed_slots mt))) x1 = Returns x2"
    "progress b q m s ([smt_value mt] @ concat (sent_fixed mt fs)) x2"
  proof -
    have "list_all2 (part_carries s b m) (sent_fixed mt (fixed_slots mt)) (sent_fixed mt fs)"
      using assms(1,2) by (intro sent_fixed_all2) (simp add: message_ready_def)
    moreover have "q + length [smt_value mt] + length (concat (sent_fixed mt fs)) \<le> length (mem s b)" using assms(7) w by simp
    ultimately show thesis using enc_fixed_ok [OF x1(2)] that by blast
  qed
  obtain l s' where x3: "steps (message_tail mt b q m) x2 = Returns (l, s')" "progress b q m s w (l, s')"
    using message_tail_ok [OF x2(2) assms(1-3) t_def] assms(7) w by (auto split: prod.splits)
  have run: "message_encode mt b q m (?l, s) = Returns (l, s')"
    unfolding message_encode_shape [OF assms(3)] steps_append using x1(1) x2(1) x3(1) by simp
  note p = progressD [OF x3(2)]
  have "part_carries s' b m = part_carries s b m" "opt_carries s' b = opt_carries s b"
    using carries_same [OF p(3)] param_content_same(2) [OF p(3)] p(5) by (simp_all add: fun_eq_iff part_carries_def opt_carries_def)
  then have "message_ready s' b m fs vs opts" using assms(1) p(4,6,7) by (simp add: message_ready_def)
  moreover have "same_message b m s s'" using p(3-7) by (simp add: same_message_def)
  ultimately show ?thesis using run assms(2,4,6) p(1-3) by (simp add: sccp_encode_def same_values_def)
qed

lemma sccp_encode_ok:
  assumes "message_ready s b m fs vs opts" "mt = message_type (message_at s m)" "regular_message mt" "0 < buffer_length"
    "w = message_with (written_pointer mt vs opts) mt fs vs opts" "q = buffer + off" "q + length w \<le> length (mem s b)"
  shows "\<exists>s'. sccp_encode b buffer buffer_length (int off) m r s = Returns (int (length w), s') \<and>
    mem s' b = overwrite (mem s b) q w \<and> (\<forall>vb. vb \<noteq> b \<longrightarrow> mem s' vb = mem s vb) \<and> message_ready s' b m fs vs opts"
proof -
  have "short_message mt" using assms(3) by (simp add: short_message_def regular_message_def)
  from sccp_encode_sent [OF assms(1,2) this assms(4) _ assms(6), of w] show ?thesis
    using assms(5,7) sent_fixed_regular [OF assms(3), of fs] by fastforce
qed

end
