(* ===== verification/Sccp_Octets.thy ===== *)
theory Sccp_Octets
  imports Sccp_Encode
begin

text \<open>
  \<open>init\<close> of the parameters on the octets \<open>encode\<close> writes: which octets are recovered exactly, and
  that they are.
\<close>

section \<open>Bits\<close>

lemma and_sum: "a AND b = 0 \<Longrightarrow> (x AND a) + (x AND b) = x AND (a OR (b::'a::len word))"
proof -
  assume ab: "a AND b = 0"
  have "(x AND a) AND (x AND b) = x AND (a AND b)" by (simp add: ac_simps)
  then show ?thesis using ab by (simp add: disjunctive_add_eq_or bit.conj_disj_distrib)
qed

lemma and_rest: "v AND a = 0 \<Longrightarrow> a OR b = - 1 \<Longrightarrow> v AND b = (v::'a::len word)"
proof -
  assume a: "v AND a = 0" "a OR b = - 1"
  have "v AND (a OR b) = (v AND a) OR (v AND b)" by (simp add: bit.conj_disj_distrib)
  then show ?thesis using a by simp
qed

lemma octet_all [simp]: "(v::u8) AND 0xff = v"
proof -
  have "(0xff::u8) = - 1" by simp
  then show ?thesis by (simp only: and.right_neutral)
qed

lemma and_flag: "(v::'a::len word) AND push_bit k 1 = (if bit v k then push_bit k 1 else 0)"
  by (rule bit_word_eqI) (auto simp: bit_simps)

lemma flags:
  "(if (v::u8) AND 0x80 = 0x80 then 0x80 else 0x00) = (ucast v AND 0x80 :: c_int)"
  "(if (v::u8) AND 0x02 = 0x02 then 0x02 else 0x00) = (ucast v AND 0x02 :: c_int)"
  "(if (v::u8) AND 0x01 = 0x01 then 0x01 else 0x00) = (ucast v AND 0x01 :: c_int)"
  "(if (v::u8) AND 0x01 = 0x01 then 0x01 else 0x00) = v AND 0x01"
proof -
  have b: "bit (ucast v :: c_int) k = bit v k" for k by (auto simp: bit_simps dest: bit_imp_le_length)
  show "(if (v::u8) AND 0x80 = 0x80 then 0x80 else 0x00) = (ucast v AND 0x80 :: c_int)"
    using and_flag [of v 7] and_flag [of "ucast v :: c_int" 7] b [of 7] by simp
  show "(if (v::u8) AND 0x02 = 0x02 then 0x02 else 0x00) = (ucast v AND 0x02 :: c_int)"
    using and_flag [of v 1] and_flag [of "ucast v :: c_int" 1] b [of 1] by simp
  show "(if (v::u8) AND 0x01 = 0x01 then 0x01 else 0x00) = (ucast v AND 0x01 :: c_int)"
    using and_flag [of v 0] and_flag [of "ucast v :: c_int" 0] b [of 0] by simp
  show "(if (v::u8) AND 0x01 = 0x01 then 0x01 else 0x00) = v AND 0x01"
    using and_flag [of v 0] by simp
qed

lemma octet_and: "(ucast ((ucast (v::u8) :: c_int) AND m) :: u8) = v AND ucast m"
  by (rule bit_word_eqI) (auto simp: bit_simps)

lemma octet_masks:
  "(ucast ((ucast (v::u8) :: c_int) AND 0xff) :: u8) = v"
  "(ucast ((ucast (v::u8) AND 0xf0) + (ucast v AND 0x0f) :: c_int) :: u8) = v"
  "(ucast ((ucast (v::u8) AND 0x0f) + (ucast v AND 0xf0) :: c_int) :: u8) = v"
proof -
  have "(ucast ((ucast v :: c_int) AND 0xff) :: u8) = v" for v :: u8
    using octet_and [of v "0xff"] by simp
  then show "(ucast ((ucast (v::u8) :: c_int) AND 0xff) :: u8) = v"
    "(ucast ((ucast (v::u8) AND 0xf0) + (ucast v AND 0x0f) :: c_int) :: u8) = v"
    "(ucast ((ucast (v::u8) AND 0x0f) + (ucast v AND 0xf0) :: c_int) :: u8) = v"
    by (simp_all add: and_sum)
qed

lemma shift_back: "push_bit k (drop_bit k v) = (v::c_int) AND NOT (mask k)"
  by (rule bit_word_eqI) (auto simp: bit_simps)

lemma shifted_octet:
  "(ucast (push_bit 1 (drop_bit 1 ((ucast (v::u8) :: c_int) AND 0xff))) :: u8) = v AND 0xfe"
  "(ucast (push_bit 1 (drop_bit 1 ((ucast (v::u8) :: c_int) AND 0xfe))) :: u8) = v AND 0xfe"
  unfolding shift_back using octet_and [of v "0xfe"] by (simp_all add: and.assoc)

lemma class_bit: "push_bit 6 (drop_bit 6 ((v::c_int) AND 0x40)) = v AND 0x40"
  unfolding shift_back by (simp add: and.assoc mask_eq_exp_minus_1)

lemma noa_octet: "(if (v::u8) AND 0x80 = 0x80 then ucast ((ucast v :: c_int) AND 0x7f) OR 0x80 else ucast ((ucast v :: c_int) AND 0x7f)) = v"
proof -
  have f: "v AND 0x80 = (if bit v 7 then 0x80 else 0)" using and_flag [of v 7] by simp
  have "(v AND 0x7f) OR (v AND 0x80) = v" by (simp flip: bit.conj_disj_distrib)
  then show ?thesis using f octet_and [of v "0x7f"] by (auto split: if_splits)
qed

lemma low_bit: "(v AND 0xfe) OR (if (v::u8) AND 0x01 = 0x01 then 0x01 else 0x00) = v"
  unfolding flags(4) by (simp flip: bit.conj_disj_distrib)

lemma address_indicator:
  assumes "(v::u8) AND 0x80 = 0"
  shows "(ucast ((ucast v AND 0x40) + (ucast v AND 0x3c) + (if v AND 0x02 = 0x02 then 0x02 else 0x00) +
    (if v AND 0x01 = 0x01 then 0x01 else 0x00) :: c_int) :: u8) = v"
proof -
  have "(ucast ((ucast v AND 0x7f) :: c_int) :: u8) = v"
    using octet_and [of v "0x7f"] and_rest [of v "0x80" "0x7f"] assms by simp
  then show ?thesis unfolding flags by (simp add: and_sum)
qed

lemma segmentation_octet:
  assumes "(v::u8) AND 0x30 = 0"
  shows "(ucast ((if v AND 0x80 = 0x80 then 0x80 else 0x00) + push_bit 6 (drop_bit 6 (ucast v AND 0x40)) + (ucast v AND 0x0f) :: c_int) :: u8) = v"
proof -
  have "(ucast ((ucast v AND 0xcf) :: c_int) :: u8) = v"
    using octet_and [of v "0xcf"] and_rest [of v "0x30" "0xcf"] assms by simp
  then show ?thesis unfolding flags class_bit by (simp add: and_sum)
qed

lemma octets24:
  "Dlr_octets (push_bit 16 (ucast v0) + push_bit 8 (ucast v1) + (ucast v2 AND 0xff)) = [v0, v1, v2]"
proof -
  have 1: "push_bit 16 (ucast v0) + push_bit 8 (ucast v1) = (push_bit 16 (ucast v0) OR push_bit 8 (ucast v1) :: c_int)"
    by (rule disjunctive_add_eq_or, rule bit_word_eqI) (auto simp: bit_simps dest!: bit_imp_le_length)
  have m: "(0xff::c_int) = mask 8" by (simp add: mask_eq_exp_minus_1)
  have b: "(ucast v2 :: c_int) AND 0xff = ucast v2" unfolding m by (rule bit_word_eqI) (auto simp: bit_simps dest: bit_imp_le_length)
  have 2: "(push_bit 16 (ucast v0) OR push_bit 8 (ucast v1)) + ucast v2 =
      (push_bit 16 (ucast v0) OR push_bit 8 (ucast v1) OR ucast v2 :: c_int)"
    unfolding or.assoc [symmetric]
    by (rule disjunctive_add_eq_or, rule bit_word_eqI) (auto simp: bit_simps dest!: bit_imp_le_length)
  show ?thesis unfolding Dlr_octets_def b 1 2
    by (intro list.inject [THEN iffD2] conjI bit_word_eqI refl) (auto simp: bit_simps octet_high)
qed

lemma point_code_octet: "(ucast (push_bit 8 (ucast (v1::u8) AND 0x3f) + ucast (v0::u8) :: c_int) :: u8) = v0"
proof -
  have "push_bit 8 (ucast v1 AND 0x3f) + ucast v0 = (push_bit 8 (ucast v1 AND 0x3f) OR ucast v0 :: c_int)"
    by (rule disjunctive_add_eq_or, rule bit_word_eqI) (auto simp: bit_simps simp del: push_bit_and dest: bit_imp_le_length)
  then show ?thesis by simp (rule bit_word_eqI, auto simp: bit_simps simp del: push_bit_and)
qed

section \<open>Octets at a place\<close>

definition holds_at :: "u8 list \<Rightarrow> nat \<Rightarrow> u8 list \<Rightarrow> bool" where
  "holds_at bs i w \<longleftrightarrow> i + length w \<le> length bs \<and> take (length w) (drop i bs) = w"

lemma holds_at_append: "holds_at bs i (u @ w) \<longleftrightarrow> holds_at bs i u \<and> holds_at bs (i + length u) w"
  by (auto simp: holds_at_def take_add ac_simps)

lemma holds_at_Cons: "holds_at bs i (v # w) \<longleftrightarrow> i < length bs \<and> bs ! i = v \<and> holds_at bs (Suc i) w"
  by (cases "i < length bs") (auto simp: holds_at_def Cons_nth_drop_Suc [symmetric])

lemma holds_at_middle: "length pre = i \<Longrightarrow> holds_at (pre @ w @ post) i w"
  by (simp add: holds_at_def)

lemma byte_at_holds: "holds_at bs i (v # w) \<Longrightarrow> byte_at bs i = Returns v"
  by (simp add: holds_at_Cons)

section \<open>Octets that are recovered\<close>

definition title_room :: "GlobalTitleIndicator \<Rightarrow> nat" where
  "title_room gi =
     (case gi of GT_NO_TITLE \<Rightarrow> 0 | GT_NATURE_OF_ADDRESS_INDICATOR_ONLY \<Rightarrow> 1 | GT_TRANSLATION_TYPE_ONLY \<Rightarrow> 1
      | GT_TRANSLATION_TYPE_NUMNBERING_PLAN_ENCODING \<Rightarrow> 2
      | GT_TRANSLATION_TYPE_NUMNBERING_PLAN_ENCODING_NATURE_OF_ADDRESS \<Rightarrow> 3)"

text \<open>An address: the octets before the global title, and the type of the title if there is one.\<close>

definition address_head :: "u8 list \<Rightarrow> nat" where
  "address_head w = 1 + (if hd w AND 0x01 = 0x01 then 2 else 0) + (if hd w AND 0x02 = 0x02 then 1 else 0)"

definition address_title :: "u8 list \<Rightarrow> GlobalTitleIndicator option" where
  "address_title w = (if drop (address_head w) w = [] then None else gti_of (ucast (hd w) AND 0x3c))"

definition canonical_address :: "u8 list \<Rightarrow> bool" where
  "canonical_address w \<longleftrightarrow>
     w \<noteq> [] \<and> hd w AND 0x80 = 0 \<and> address_head w \<le> length w \<and> (hd w AND 0x01 = 0x01 \<longrightarrow> w ! 2 = 0) \<and>
     (drop (address_head w) w \<noteq> [] \<longrightarrow>
       (\<exists>gi. address_title w = Some gi \<and> title_room gi \<le> length (drop (address_head w) w)))"

fun canonical_octets :: "SCCPParameterType \<Rightarrow> u8 list \<Rightarrow> bool" where
  "canonical_octets END_OF_OPTIONAL_PARAMETERS w = False"
| "canonical_octets DESTINATION_LOCAL_REFERENCE w = (length w = 3)"
| "canonical_octets SOURCE_LOCAL_REFERENCE w = (length w = 3)"
| "canonical_octets CALLED_PARTY_ADDRESS w = canonical_address w"
| "canonical_octets CALLING_PARTY_ADDRESS w = canonical_address w"
| "canonical_octets SEGMENTING_REASSEMBLING w = (length w = 1 \<and> w ! 0 AND 0xfe = 0)"
| "canonical_octets RECEIVE_SEQUENCE_NUMBER w = (length w = 1 \<and> w ! 0 AND 0x01 = 0)"
| "canonical_octets SEQUENCING_SEGMENTING w = (length w = 2 \<and> w ! 0 AND 0x01 = 0)"
| "canonical_octets SEGMENTATION w = (w \<noteq> [] \<and> w ! 0 AND 0x30 = 0)"
| "canonical_octets DATA w = True"
| "canonical_octets LONG_DATA w = False"
| "canonical_octets _ w = (length w = 1)"

definition title_of :: "SCCPParameterType \<times> u8 list \<Rightarrow> GlobalTitleIndicator list" where
  "title_of = (\<lambda>(pt, w).
     if pt = CALLED_PARTY_ADDRESS \<or> pt = CALLING_PARTY_ADDRESS then (case address_title w of None \<Rightarrow> [] | Some gi \<Rightarrow> [gi]) else [])"

text \<open>Classes of parameters.\<close>

primrec sccp_class :: "sccp_members \<Rightarrow> nat" where
  "sccp_class No_Members = 0"
| "sccp_class LongData = 1"
| "sccp_class (ProtocolClass _ _) = 2"
| "sccp_class (Dlr _) = 3"
| "sccp_class (Slr _) = 4"
| "sccp_class (HopCounter _) = 5"
| "sccp_class (Importance _) = 6"
| "sccp_class (ReceiveSeqNum _) = 7"
| "sccp_class (Credit _) = 8"
| "sccp_class (RefusalCause _) = 9"
| "sccp_class (ReleaseCause _) = 10"
| "sccp_class (ResetCause _) = 11"
| "sccp_class (ReturnCause _) = 12"
| "sccp_class (ErrorCause _) = 13"
| "sccp_class (Segmentation _ _ _ _ _) = 14"
| "sccp_class (SegmReassm _) = 15"
| "sccp_class (SeqSegm _ _ _) = 16"
| "sccp_class (PartyAddress _) = 17"

definition well_made :: "SCCPParameterType \<Rightarrow> SCCPParam \<Rightarrow> bool" where
  "well_made pt p \<longleftrightarrow> param_type p = pt \<and> sccp_class (members p) = sccp_class (new_sccp_members pt)"

lemma outside_placed:
  assumes "mem s b = bs" "ob \<noteq> b" "holds_at bs i w"
  shows "outside s ob (Some (b, i)) (int (length w)) = Some w"
  using assms by (auto simp: outside_def holds_at_def)

section \<open>\<open>init\<close> of the simple parameters\<close>

lemma init_octet_eq:
  "holds_at bs i [v] \<Longrightarrow> init_octet f bs (b, i) 1 p = Returns ((SCCPParam_init (b, i) 1 p)\<lparr>members := f v\<rparr>)"
  by (simp add: init_octet_def byte_at_holds)

lemma get24_eq: "holds_at bs i [v0, v1, v2] \<Longrightarrow> get24 bs i = Returns (push_bit 16 (ucast v0) + push_bit 8 (ucast v1) + (ucast v2 AND 0xff))"
  by (simp add: get24_def holds_at_Cons)

text \<open>A parameter that stands for \<open>w\<close>, in every state with the buffer it was read from.\<close>

definition denotes :: "nat \<Rightarrow> u8 list \<Rightarrow> u8 list \<Rightarrow> SCCPParam \<Rightarrow> bool" where
  "denotes b bs w p \<longleftrightarrow> members p \<noteq> LongData \<and> (\<forall>pa. members p \<noteq> PartyAddress pa) \<and>
     (\<forall>s ob. mem s b = bs \<longrightarrow> ob \<noteq> b \<longrightarrow> param_content s ob p = Some w)"

lemma list_of_1: "length w = 1 \<Longrightarrow> w = [w ! 0]" and list_of_2: "length w = 2 \<Longrightarrow> w = [w ! 0, w ! 1]"
  and list_of_3: "length w = 3 \<Longrightarrow> w = [w ! 0, w ! 1, w ! 2]"
  by (auto simp: numeral_eq_Suc length_Suc_conv)

text \<open>The parameters of one octet.\<close>

definition single_octet :: "SCCPParameterType \<Rightarrow> bool" where
  "single_octet pt \<longleftrightarrow> pt \<in>
     {PROTOCOL_CLASS, SEGMENTING_REASSEMBLING, RECEIVE_SEQUENCE_NUMBER, CREDIT, RELEASE_CAUSE, RETURN_CAUSE, RESET_CAUSE,
      ERROR_CAUSE, REFUSAL_CAUSE, HOP_COUNTER, IMPORTANCE}"

primrec single_members :: "SCCPParameterType \<Rightarrow> u8 \<Rightarrow> sccp_members" where
  "single_members END_OF_OPTIONAL_PARAMETERS v = No_Members"
| "single_members DESTINATION_LOCAL_REFERENCE v = No_Members"
| "single_members SOURCE_LOCAL_REFERENCE v = No_Members"
| "single_members CALLED_PARTY_ADDRESS v = No_Members"
| "single_members CALLING_PARTY_ADDRESS v = No_Members"
| "single_members PROTOCOL_CLASS v = ProtocolClass (Some (ucast v AND 0x0f)) (Some (ucast v AND 0xf0))"
| "single_members SEGMENTING_REASSEMBLING v = SegmReassm (Some (v AND 0x01 = 0x01))"
| "single_members RECEIVE_SEQUENCE_NUMBER v = ReceiveSeqNum (drop_bit 1 (ucast v AND 0xff))"
| "single_members SEQUENCING_SEGMENTING v = No_Members"
| "single_members CREDIT v = Credit (ucast v AND 0xff)"
| "single_members RELEASE_CAUSE v = ReleaseCause (Some (ucast v AND 0xff))"
| "single_members RETURN_CAUSE v = ReturnCause (Some (ucast v AND 0xff))"
| "single_members RESET_CAUSE v = ResetCause (Some (ucast v AND 0xff))"
| "single_members ERROR_CAUSE v = ErrorCause (Some (ucast v AND 0xff))"
| "single_members REFUSAL_CAUSE v = RefusalCause (Some (ucast v AND 0xff))"
| "single_members DATA v = No_Members"
| "single_members SEGMENTATION v = No_Members"
| "single_members HOP_COUNTER v = HopCounter (ucast v AND 0xff)"
| "single_members IMPORTANCE v = Importance (ucast v AND 0xff)"
| "single_members LONG_DATA v = No_Members"

lemma classes:
  "sccp_class ms = 0 \<longleftrightarrow> ms = No_Members" "sccp_class ms = 1 \<longleftrightarrow> ms = LongData"
  "sccp_class ms = 2 \<longleftrightarrow> (\<exists>c h. ms = ProtocolClass c h)" "sccp_class ms = 3 \<longleftrightarrow> (\<exists>v. ms = Dlr v)"
  "sccp_class ms = 4 \<longleftrightarrow> (\<exists>v. ms = Slr v)" "sccp_class ms = 5 \<longleftrightarrow> (\<exists>v. ms = HopCounter v)"
  "sccp_class ms = 6 \<longleftrightarrow> (\<exists>v. ms = Importance v)" "sccp_class ms = 7 \<longleftrightarrow> (\<exists>v. ms = ReceiveSeqNum v)"
  "sccp_class ms = 8 \<longleftrightarrow> (\<exists>v. ms = Credit v)" "sccp_class ms = 9 \<longleftrightarrow> (\<exists>v. ms = RefusalCause v)"
  "sccp_class ms = 10 \<longleftrightarrow> (\<exists>v. ms = ReleaseCause v)" "sccp_class ms = 11 \<longleftrightarrow> (\<exists>v. ms = ResetCause v)"
  "sccp_class ms = 12 \<longleftrightarrow> (\<exists>v. ms = ReturnCause v)" "sccp_class ms = 13 \<longleftrightarrow> (\<exists>v. ms = ErrorCause v)"
  "sccp_class ms = 14 \<longleftrightarrow> (\<exists>f c r ref n. ms = Segmentation f c r ref n)" "sccp_class ms = 15 \<longleftrightarrow> (\<exists>md. ms = SegmReassm md)"
  "sccp_class ms = 16 \<longleftrightarrow> (\<exists>sd rv md. ms = SeqSegm sd rv md)" "sccp_class ms = 17 \<longleftrightarrow> (\<exists>pa. ms = PartyAddress pa)"
  by (cases ms; simp)+

lemma single_octets:
  assumes "single_octet pt" "canonical_octets pt [v]"
  shows "own_octets (single_members pt v) = Returns [v]"
proof -
  have more: "v AND 0xfe = 0 \<Longrightarrow> (if v AND 0x01 = 0x01 then 0x01 else 0x00) = v" "v AND 0x01 = 0 \<Longrightarrow> v AND 0xfe = v"
    using and_rest [of v "0xfe" "0x01"] and_rest [of v "0x01" "0xfe"] flags(4) [of v] by simp_all
  have c: "pt = RECEIVE_SEQUENCE_NUMBER \<Longrightarrow> v AND 0x01 = 0" "pt = SEGMENTING_REASSEMBLING \<Longrightarrow> v AND 0xfe = 0"
    using assms(2) by auto
  show ?thesis
    using assms(1) more c unfolding single_octet_def
    by (elim insertE emptyE; simp only: single_members.simps own_octets.simps HopCounter_octets_def Importance_octets_def
      Credit_octets_def ReceiveSeqNum_octets_def RefusalCause_octets_def ReleaseCause_octets_def ResetCause_octets_def
      ReturnCause_octets_def ErrorCause_octets_def SegmReassm_octets_def ProtocolClass_octets_def the_ptr_simps and_then.simps
      octet_masks shifted_octet simp_thms)
qed

lemma init_single:
  assumes "well_made pt (param_at s a)" "holds_at bs i [v]" "single_octet pt"
  shows "sccp_param_init bs (b, i) 1 a s = Returns (set_param a ((SCCPParam_init (b, i) 1 (param_at s a))\<lparr>members := single_members pt v\<rparr>) s)"
    "sccp_class (single_members pt v) = sccp_class (members (param_at s a))"
proof -
  note eq = init_octet_eq [OF assms(2)]
  show "sccp_param_init bs (b, i) 1 a s = Returns (set_param a ((SCCPParam_init (b, i) 1 (param_at s a))\<lparr>members := single_members pt v\<rparr>) s)"
    "sccp_class (single_members pt v) = sccp_class (members (param_at s a))"
    using assms(1,3) byte_at_holds [OF assms(2)] unfolding single_octet_def well_made_def
    by (elim insertE emptyE; force simp: classes sccp_param_init_def HopCounter_init_def Importance_init_def Credit_init_def
      ReceiveSeqNum_init_def RefusalCause_init_def ReleaseCause_init_def ResetCause_init_def ReturnCause_init_def
      ErrorCause_init_def SegmReassm_init_def ProtocolClass_init_def eq Let_def)+
qed

lemma sccp_param_init_ok:
  assumes "well_made pt (param_at s a)" "canonical_octets pt w" "holds_at bs i w" "pt \<noteq> CALLED_PARTY_ADDRESS" "pt \<noteq> CALLING_PARTY_ADDRESS"
  shows "\<exists>p. sccp_param_init bs (b, i) (int (length w)) a s = Returns (set_param a p s) \<and> well_made pt p \<and> denotes b bs w p"
proof -
  let ?p = "param_at s a" and ?q = "SCCPParam_init (b, i) (int (length w)) (param_at s a)"
  have ty: "param_type ?q = pt" using assms(1) by (simp add: SCCPParam_init_def well_made_def)
  have result: ?thesis
    if "sccp_param_init bs (b, i) (int (length w)) a s = Returns (set_param a (?q\<lparr>members := ms\<rparr>) s)"
      "sccp_class ms = sccp_class (members ?p)" "own_octets ms = Returns w" for ms
  proof -
    have "param_content s' ob (?q\<lparr>members := ms\<rparr>) = Some w" for s' ob
      using that(3) by (cases ms) (simp_all add: param_content_def)
    moreover have "ms \<noteq> LongData" "\<forall>pa. ms \<noteq> PartyAddress pa" using that(3) by auto
    ultimately have "denotes b bs w (?q\<lparr>members := ms\<rparr>)" by (simp add: denotes_def)
    moreover have "well_made pt (?q\<lparr>members := ms\<rparr>)" using that(2) assms(1) ty by (simp add: well_made_def)
    ultimately show ?thesis using that(1) by blast
  qed
  have single: ?thesis if "single_octet pt"
  proof -
    have "length w = 1" using assms(2) that by (cases pt) (simp_all add: single_octet_def)
    then obtain v where w: "w = [v]" using list_of_1 by blast
    have h: "holds_at bs i [v]" using assms(3) w by simp
    show ?thesis
      by (rule result [of "single_members pt v"]) (use init_single [OF assms(1) h that] single_octets [OF that] assms(2) w in simp_all)
  qed
  show ?thesis
  proof (cases pt)
    case DATA
    then have "members ?p = No_Members" using assms(1) by (cases "members ?p") (simp_all add: well_made_def)
    moreover have "denotes b bs w ?q"
      using outside_placed [OF _ _ assms(3)] calculation by (simp add: denotes_def param_content_def SCCPParam_init_def)
    moreover have "well_made pt ?q" using assms(1) by (simp add: well_made_def SCCPParam_init_def)
    ultimately show ?thesis by (auto simp: sccp_param_init_def)
  next
    case SEGMENTATION
    then obtain f c r ref n where m: "members ?p = Segmentation f c r ref n"
      using assms(1) by (cases "members ?p") (simp_all add: well_made_def)
    obtain v u where w: "w = v # u" "v AND 0x30 = 0" using assms(2) SEGMENTATION by (cases w) auto
    have h: "byte_at bs i = Returns v" "holds_at bs (i + 1) u" using assms(3) w(1) by (simp_all add: holds_at_Cons)
    let ?ms = "Segmentation (Some (v AND 0x80 = 0x80)) (Some (drop_bit 6 (ucast v AND 0x40))) (Some (ucast v AND 0x0f))
      (Some (b, i + 1)) (int (length u))"
    have "sccp_param_init bs (b, i) (int (length w)) a s = Returns (set_param a (?q\<lparr>members := ?ms\<rparr>) s)"
      using m h(1) w(1) by (simp add: sccp_param_init_def Segmentation_init_def Let_def)
    moreover have "Segmentation_octet (Some (v AND 0x80 = 0x80)) (Some (drop_bit 6 (ucast v AND 0x40))) (Some (ucast v AND 0x0f)) = Returns v"
      using segmentation_octet [OF w(2)] by (simp add: Segmentation_octet_def)
    then have "denotes b bs w (?q\<lparr>members := ?ms\<rparr>)"
      using w(1) outside_placed [OF _ _ h(2)] by (simp add: denotes_def param_content_def)
    moreover have "well_made pt (?q\<lparr>members := ?ms\<rparr>)" using assms(1) m ty by (simp add: well_made_def)
    ultimately show ?thesis by blast
  next
    case DESTINATION_LOCAL_REFERENCE
    then show ?thesis using assms(1-3) list_of_3 [of w] get24_eq [of bs i "w ! 0" "w ! 1" "w ! 2"] octets24 [of "w ! 0" "w ! 1" "w ! 2"]
      by (intro result [of "Dlr (push_bit 16 (ucast (w ! 0)) + push_bit 8 (ucast (w ! 1)) + (ucast (w ! 2) AND 0xff))"]; cases "members ?p")
        (simp_all add: well_made_def sccp_param_init_def Dlr_init_def Let_def)
  next
    case SOURCE_LOCAL_REFERENCE
    then show ?thesis using assms(1-3) list_of_3 [of w] get24_eq [of bs i "w ! 0" "w ! 1" "w ! 2"] octets24 [of "w ! 0" "w ! 1" "w ! 2"]
      by (intro result [of "Slr (Some (push_bit 16 (ucast (w ! 0)) + push_bit 8 (ucast (w ! 1)) + (ucast (w ! 2) AND 0xff)))"]; cases "members ?p")
        (simp_all add: well_made_def sccp_param_init_def Slr_init_def Slr_octets_def Dlr_octets_def Let_def)
  next
    case SEQUENCING_SEGMENTING
    then obtain v0 v1 where w: "w = [v0, v1]" "v0 AND 0x01 = 0" using assms(2) list_of_2 [of w] by fastforce
    have v0: "v0 AND 0xfe = v0" using and_rest [of v0 "0x01" "0xfe"] w(2) by simp
    let ?ms = "SeqSegm (Some (drop_bit 1 (ucast v0 AND 0xfe))) (Some (drop_bit 1 (ucast v1 AND 0xfe))) (Some (v1 AND 0x01 = 0x01))"
    show ?thesis
    proof (rule result)
      obtain sd rv md where "members ?p = SeqSegm sd rv md"
        using SEQUENCING_SEGMENTING assms(1) by (auto simp: well_made_def classes)
      then show "sccp_param_init bs (b, i) (int (length w)) a s = Returns (set_param a (?q\<lparr>members := ?ms\<rparr>) s)"
        "sccp_class ?ms = sccp_class (members ?p)"
        using assms(3) w(1) by (simp_all add: sccp_param_init_def SeqSegm_init_def holds_at_Cons Let_def)
      show "own_octets ?ms = Returns w"
        by (simp only: own_octets.simps SeqSegm_octets_def the_ptr_simps and_then.simps shifted_octet low_bit v0 w(1))
    qed
  qed (use assms single in \<open>simp_all add: single_octet_def\<close>)
qed

section \<open>Global titles\<close>

lemma gt_init_ok:
  assumes "gi \<noteq> GT_NO_TITLE" "gt_type d = gi" "title_room gi \<le> length w" "holds_at bs i w"
  shows "\<exists>d'. gt_init bs (b, i) (int (length w)) d = Returns d' \<and> gt_type d' = gi \<and>
    (\<forall>s ob. mem s b = bs \<longrightarrow> ob \<noteq> b \<longrightarrow> title_content s ob d' = Some w)"
proof -
  let ?d = "GlobalTitle_init (b, i) (int (length w)) d"
  define h where "h = take (title_room gi) w"
  define u where "u = drop (title_room gi) w"
  have w: "w = h @ u" "length h = title_room gi" using assms(3) by (simp_all add: h_def u_def)
  have hu: "holds_at bs i h" "holds_at bs (i + title_room gi) u" using assms(4) w by (simp_all add: holds_at_append)
  have result: ?thesis
    if "gt_init bs (b, i) (int (length w)) d = Returns d'" "gt_type d' = gi" "title_head d' = Returns h"
      "address_information d' = Some (Some (b, i + title_room gi))" "address_information_length d' = Some (int (length u))" for d'
  proof -
    have "title_content s ob d' = Some w" if "mem s b = bs" "ob \<noteq> b" for s ob
      using \<open>title_head d' = _\<close> \<open>address_information d' = _\<close> \<open>address_information_length d' = _\<close> outside_placed [OF that hu(2)] w(1)
      by (simp add: title_content_def)
    then show ?thesis using that(1,2) by blast
  qed
  show ?thesis
  proof (cases gi)
    case GT_NO_TITLE
    then show ?thesis using assms(1) by simp
  next
    case GT_NATURE_OF_ADDRESS_INDICATOR_ONLY
    then obtain v where v: "h = [v]" using w(2) list_of_1 [of h] by (auto simp: title_room_def)
    let ?d' = "?d\<lparr>nature_of_address := Some (ucast v AND 0x7f), odd_num_of_addr_signals := Some (v AND 0x80 = 0x80),
                    address_information := Some (Some (b, i + 1)), address_information_length := Some (int (length w) - 1)\<rparr>"
    have "title_head ?d' = Returns [v]" using assms(2) GT_NATURE_OF_ADDRESS_INDICATOR_ONLY noa_octet [of v]
      by (simp add: title_head_def GlobalTitle_init_def del: if_cancel)
    then show ?thesis using assms(2) GT_NATURE_OF_ADDRESS_INDICATOR_ONLY v w hu(1)
      by (intro result [of ?d']) (simp_all add: gt_init_def GT_NOA_init_def GlobalTitle_init_def title_room_def holds_at_Cons)
  next
    case GT_TRANSLATION_TYPE_ONLY
    then obtain v where v: "h = [v]" using w(2) list_of_1 [of h] by (auto simp: title_room_def)
    let ?d' = "?d\<lparr>translation_type := Some (ucast v AND 0xff), address_information := Some (Some (b, i + 1)),
      address_information_length := Some (int (length w) - 1)\<rparr>"
    show ?thesis using assms(2) GT_TRANSLATION_TYPE_ONLY v w hu(1) octet_masks(1) [of v]
      by (intro result [of ?d']) (simp_all add: gt_init_def GT_TT_init_def GlobalTitle_init_def title_head_def title_room_def holds_at_Cons)
  next
    case GT_TRANSLATION_TYPE_NUMNBERING_PLAN_ENCODING
    then obtain v0 v1 where v: "h = [v0, v1]" using w(2) list_of_2 [of h] by (auto simp: title_room_def)
    let ?d' = "?d\<lparr>translation_type := Some (ucast v0 AND 0xff), numbering_plan := Some (ucast v1 AND 0xf0),
      encoding_scheme := Some (ucast v1 AND 0x0f), address_information := Some (Some (b, i + 2)),
      address_information_length := Some (int (length w) - 2)\<rparr>"
    show ?thesis using assms(2) GT_TRANSLATION_TYPE_NUMNBERING_PLAN_ENCODING v w hu(1) octet_masks(1) [of v0] octet_masks(2) [of v1]
      by (intro result [of ?d']) (simp_all add: gt_init_def GT_TTNPE_init_def GlobalTitle_init_def title_head_def title_room_def holds_at_Cons)
  next
    case GT_TRANSLATION_TYPE_NUMNBERING_PLAN_ENCODING_NATURE_OF_ADDRESS
    then obtain v0 v1 v2 where v: "h = [v0, v1, v2]" using w(2) list_of_3 [of h] by (auto simp: title_room_def)
    let ?d' = "?d\<lparr>translation_type := Some (ucast v0 AND 0xff), numbering_plan := Some (ucast v1 AND 0xf0),
      encoding_scheme := Some (ucast v1 AND 0x0f), nature_of_address := Some (ucast v2 AND 0xff),
      address_information := Some (Some (b, i + 3)), address_information_length := Some (int (length w) - 3)\<rparr>"
    show ?thesis using assms(2) GT_TRANSLATION_TYPE_NUMNBERING_PLAN_ENCODING_NATURE_OF_ADDRESS v w hu(1)
        octet_masks(1) [of v0] octet_masks(2) [of v1] octet_masks(1) [of v2]
      by (intro result [of ?d']) (simp_all add: gt_init_def GT_TTNPENOA_init_def GlobalTitle_init_def title_head_def title_room_def holds_at_Cons)
  qed
qed

end
