(* ===== verification/Sccp_Decode.thy ===== *)
theory Sccp_Decode
  imports Sccp_Octets
begin

text \<open>
  \<open>decode\<close> on the octets of a message: objects from the pools, none given twice, that stand for
  the octets they were initialised with.
\<close>

section \<open>Pools of a state\<close>

definition ring_of :: "PoolItem option \<Rightarrow> nat list" where
  "ring_of pool = (case pool of None \<Rightarrow> [] | Some it \<Rightarrow> upcoming it)"

abbreviation param_rings :: "sccp_state \<Rightarrow> SCCPParameterType \<Rightarrow> nat list" where
  "param_rings s \<equiv> (\<lambda>pt. ring_of (PARAM_POOL s pt))"

abbreviation title_rings :: "sccp_state \<Rightarrow> GlobalTitleIndicator \<Rightarrow> nat list" where
  "title_rings s \<equiv> (\<lambda>gi. ring_of (GT_POOL s gi))"

abbreviation message_rings :: "sccp_state \<Rightarrow> SCCPMessageType \<Rightarrow> nat list" where
  "message_rings s \<equiv> (\<lambda>mt. ring_of (MESSAGE_POOL s mt))"

definition filled :: "PoolItem option \<Rightarrow> bool" where
  "filled pool \<longleftrightarrow> (case pool of None \<Rightarrow> False | Some it \<Rightarrow> item_ok it)"

definition sccp_pools_ok :: "sccp_state \<Rightarrow> bool" where
  "sccp_pools_ok s \<longleftrightarrow>
     (\<forall>pt. filled (PARAM_POOL s pt)) \<and> (\<forall>gi. if gi = GT_NO_TITLE then GT_POOL s gi = None else filled (GT_POOL s gi)) \<and>
     (\<forall>mt. filled (MESSAGE_POOL s mt)) \<and>
     (\<forall>pt. \<forall>a \<in> set (param_rings s pt). well_made pt (param_at s a)) \<and>
     (\<forall>gi. \<forall>g \<in> set (title_rings s gi). gt_type (gt_at s g) = gi) \<and>
     (\<forall>mt. \<forall>m \<in> set (message_rings s mt). message_type (message_at s m) = mt \<and> length (pointer (message_at s m)) = pointer_count mt)"

lemma filled_ring: "filled pool \<Longrightarrow> ring_of pool \<noteq> [] \<and> distinct (ring_of pool)"
  by (auto simp: filled_def ring_of_def upcoming_simps split: option.splits)

lemma filled_request:
  assumes "filled pool"
  obtains it it' where "pool = Some it" "request_item it = Returns (hd (ring_of pool), it')" "filled (Some it')"
    "ring_of (Some it') = rotate1 (ring_of pool)"
proof -
  obtain it where it: "pool = Some it" "item_ok it" using assms by (auto simp: filled_def split: option.splits)
  obtain it' where "request_item it = Returns (hd (upcoming it), it')" "item_ok it'" "upcoming it' = rotate1 (upcoming it)"
    using it(2) by (rule request_item_ok)
  then show thesis using it by (intro that) (simp_all add: ring_of_def filled_def)
qed

lemma sccp_pools_okD:
  assumes "sccp_pools_ok s"
  shows "filled (PARAM_POOL s pt)" "gi \<noteq> GT_NO_TITLE \<Longrightarrow> filled (GT_POOL s gi)" "filled (MESSAGE_POOL s mt)"
    "a \<in> set (param_rings s pt) \<Longrightarrow> well_made pt (param_at s a)" "g \<in> set (title_rings s gi) \<Longrightarrow> gt_type (gt_at s g) = gi"
    "m \<in> set (message_rings s mt) \<Longrightarrow> message_type (message_at s m) = mt \<and> length (pointer (message_at s m)) = pointer_count mt"
  using assms by (auto simp: sccp_pools_ok_def split: if_splits)

lemma sccp_rings_disjoint:
  assumes "sccp_pools_ok s"
  shows "disjoint_rings (param_rings s)" "disjoint_rings (title_rings s)"
proof -
  have "param_type (param_at s a) = pt" if "a \<in> set (param_rings s pt)" for a pt
    using sccp_pools_okD(4) [OF assms that] by (simp add: well_made_def)
  then show "disjoint_rings (param_rings s)"
    unfolding disjoint_rings_def using sccp_pools_okD(1) [OF assms] filled_ring by blast
  have "distinct (title_rings s gi)" for gi
    using assms filled_ring [of "GT_POOL s gi"] by (cases "gi = GT_NO_TITLE") (auto simp: sccp_pools_ok_def ring_of_def)
  then show "disjoint_rings (title_rings s)"
    unfolding disjoint_rings_def using sccp_pools_okD(5) [OF assms] by blast
qed

lemma sccp_request_param_ok:
  assumes "sccp_pools_ok s"
  obtains s' where "sccp_request_param pt s = Returns (Some (hd (param_rings s pt)), s')" "sccp_pools_ok s'"
    "param_rings s' = (param_rings s)(pt := rotate1 (param_rings s pt))" "title_rings s' = title_rings s"
    "mem s' = mem s" "param_at s' = param_at s" "gt_at s' = gt_at s" "message_at s' = message_at s"
proof -
  obtain it it' where it: "PARAM_POOL s pt = Some it" "request_item it = Returns (hd (param_rings s pt), it')" "filled (Some it')"
    "ring_of (Some it') = rotate1 (param_rings s pt)" using filled_request [OF sccp_pools_okD(1) [OF assms]] by metis
  let ?s = "s\<lparr>PARAM_POOL := (PARAM_POOL s)(pt := Some it')\<rparr>"
  have r: "param_rings ?s = (param_rings s)(pt := rotate1 (param_rings s pt))" using it(4) by (simp add: fun_eq_iff)
  have "sccp_pools_ok ?s" using assms it(3) r by (auto simp: sccp_pools_ok_def fun_eq_iff it(1))
  then show thesis using it r by (intro that [of ?s]) (simp_all add: sccp_request_param_def)
qed

lemma request_gt_ok:
  assumes "sccp_pools_ok s" "gi \<noteq> GT_NO_TITLE"
  obtains s' where "request_gt gi s = Returns (Some (hd (title_rings s gi)), s')" "sccp_pools_ok s'"
    "title_rings s' = (title_rings s)(gi := rotate1 (title_rings s gi))" "param_rings s' = param_rings s"
    "mem s' = mem s" "param_at s' = param_at s" "gt_at s' = gt_at s" "message_at s' = message_at s"
proof -
  obtain it it' where it: "GT_POOL s gi = Some it" "request_item it = Returns (hd (title_rings s gi), it')" "filled (Some it')"
    "ring_of (Some it') = rotate1 (title_rings s gi)" using filled_request [OF sccp_pools_okD(2) [OF assms]] by metis
  let ?s = "s\<lparr>GT_POOL := (GT_POOL s)(gi := Some it')\<rparr>"
  have r: "title_rings ?s = (title_rings s)(gi := rotate1 (title_rings s gi))" using it(4) by (simp add: fun_eq_iff)
  have "sccp_pools_ok ?s" using assms it(3) r by (auto simp: sccp_pools_ok_def fun_eq_iff it(1))
  then show thesis using it r by (intro that [of ?s]) (simp_all add: request_gt_def)
qed

lemma sccp_request_message_ok:
  assumes "sccp_pools_ok s"
  obtains s' where "sccp_request_message mt s = Returns (Some (hd (message_rings s mt)), s')" "sccp_pools_ok s'"
    "title_rings s' = title_rings s" "param_rings s' = param_rings s"
    "mem s' = mem s" "param_at s' = param_at s" "gt_at s' = gt_at s" "message_at s' = message_at s"
proof -
  obtain it it' where it: "MESSAGE_POOL s mt = Some it" "request_item it = Returns (hd (message_rings s mt), it')" "filled (Some it')"
    "ring_of (Some it') = rotate1 (message_rings s mt)" using filled_request [OF sccp_pools_okD(3) [OF assms]] by metis
  let ?s = "s\<lparr>MESSAGE_POOL := (MESSAGE_POOL s)(mt := Some it')\<rparr>"
  have r: "message_rings ?s = (message_rings s)(mt := rotate1 (message_rings s mt))" using it(4) by (simp add: fun_eq_iff)
  have "sccp_pools_ok ?s" using assms it(3) r by (auto simp: sccp_pools_ok_def fun_eq_iff it(1))
  then show thesis using it r by (intro that [of ?s]) (simp_all add: sccp_request_message_def)
qed

interpretation sccp_param_pool: round_robin sccp_pools_ok "\<lambda>s. map Some (param_rings s pt)" "sccp_request_param pt" for pt
proof
  fix s
  assume ok: "sccp_pools_ok s"
  then have ne: "param_rings s pt \<noteq> []" using filled_ring sccp_pools_okD(1) by blast
  then show "map Some (param_rings s pt) \<noteq> []" by simp
  obtain s' where "sccp_request_param pt s = Returns (Some (hd (param_rings s pt)), s')" "sccp_pools_ok s'"
    "param_rings s' = (param_rings s)(pt := rotate1 (param_rings s pt))" using sccp_request_param_ok [OF ok] by blast
  then show "\<exists>s'. sccp_request_param pt s = Returns (hd (map Some (param_rings s pt)), s') \<and> sccp_pools_ok s' \<and>
      map Some (param_rings s' pt) = rotate1 (map Some (param_rings s pt))"
    using ne by (auto simp: hd_map rotate1_map fun_eq_iff)
qed

section \<open>Objects in use\<close>

text \<open>An object in use that stands for \<open>w\<close>; the buffer \<open>b\<close> may not be written to.\<close>

definition standing :: "nat \<Rightarrow> nat set \<Rightarrow> nat set \<Rightarrow> sccp_state \<Rightarrow> SCCPParameterType \<Rightarrow> u8 list \<Rightarrow> nat \<Rightarrow> bool" where
  "standing b G H s pt w a \<longleftrightarrow>
     a \<in> G \<and> param_type (param_at s a) = pt \<and> (\<forall>ob. ob \<noteq> b \<longrightarrow> carries s ob a w) \<and>
     (\<forall>pa g. members (param_at s a) = PartyAddress pa \<longrightarrow> titled pa = Some g \<longrightarrow> g \<in> H)"

lemma param_content_frame:
  assumes "mem s' = mem s" "param_at s' a = param_at s a"
    "\<And>pa g. members (param_at s a) = PartyAddress pa \<Longrightarrow> titled pa = Some g \<Longrightarrow> gt_at s' g = gt_at s g"
  shows "param_content s' b (param_at s' a) = param_content s b (param_at s a)"
proof -
  have o: "outside s' = outside s" by (intro ext) (simp only: outside_def assms(1))
  show ?thesis
  proof (cases "members (param_at s a)")
    case (PartyAddress pa)
    then show ?thesis using assms(2,3) o by (cases "titled pa") (simp_all add: param_content_def title_content_def)
  qed (use assms(2) o in \<open>simp_all add: param_content_def\<close>)
qed

lemma standing_frame:
  assumes "standing b G H s pt w a" "mem s' = mem s" "\<And>a. a \<in> G \<Longrightarrow> param_at s' a = param_at s a"
    "\<And>g. g \<in> H \<Longrightarrow> gt_at s' g = gt_at s g" "G \<subseteq> G'" "H \<subseteq> H'"
  shows "standing b G' H' s' pt w a"
proof -
  have a: "param_at s' a = param_at s a" using assms(1,3) by (simp add: standing_def)
  have "param_content s' ob (param_at s' a) = param_content s ob (param_at s a)" for ob
    using assms(1,4) by (intro param_content_frame [OF assms(2) a]) (auto simp: standing_def)
  then show ?thesis using assms(1,5,6) a by (auto simp: standing_def carries_def)
qed

lemma pools_put_param: "sccp_pools_ok s \<Longrightarrow> well_made (param_type (param_at s a)) p \<Longrightarrow> sccp_pools_ok (set_param a p s)"
  by (auto simp: sccp_pools_ok_def set_param_def well_made_def)

section \<open>\<open>init\<close> of any parameter\<close>

lemma gti_ofD: "gti_of v = Some gi \<Longrightarrow> gti_value gi = v \<and> gi \<noteq> GT_NO_TITLE \<and> v \<noteq> gti_value GT_NO_TITLE"
  by (auto simp: gti_of_def gt_types_def split: if_splits)

lemma GlobalTitle_decode_ok:
  assumes "sccp_pools_ok s" "mem s b = bs" "w = [] \<or> (\<exists>gi. gti_of v = Some gi \<and> title_room gi \<le> length w)" "holds_at bs i w"
    "within (title_rings s) (count_list ((if w = [] then [] else [the (gti_of v)]) @ Q)) H"
  shows "\<exists>gt s' H'. GlobalTitle_decode bs (b, i) (int (length w)) v s = Returns (gt, s') \<and> sccp_pools_ok s' \<and> mem s' = mem s \<and>
    message_at s' = message_at s \<and> param_at s' = param_at s \<and> (\<forall>g \<in> H. gt_at s' g = gt_at s g) \<and> H \<subseteq> H' \<and>
    param_rings s' = param_rings s \<and> within (title_rings s') (count_list Q) H' \<and>
    (if w = [] then gt = None
     else v \<noteq> gti_value GT_NO_TITLE \<and> (\<exists>g. gt = Some g \<and> g \<in> H' \<and> (\<forall>ob. ob \<noteq> b \<longrightarrow> title_content s' ob (gt_at s' g) = Some w)))"
proof (cases "w = []")
  case True
  then show ?thesis using assms(1,5) by (intro exI [of _ None] exI [of _ s] exI [of _ H]) (simp add: GlobalTitle_decode_def)
next
  case False
  then obtain gi where gi: "gti_of v = Some gi" "title_room gi \<le> length w" using assms(3) by blast
  note gi' = gti_ofD [OF gi(1)]
  let ?g = "hd (title_rings s gi)"
  obtain s1 where s1: "request_gt gi s = Returns (Some ?g, s1)" "sccp_pools_ok s1"
    "title_rings s1 = (title_rings s)(gi := rotate1 (title_rings s gi))" "param_rings s1 = param_rings s"
    "mem s1 = mem s" "param_at s1 = param_at s" "gt_at s1 = gt_at s" "message_at s1 = message_at s"
    using request_gt_ok [OF assms(1)] gi' by blast
  have "within (title_rings s) (count_list (gi # Q)) H" using assms(5) False gi(1) by simp
  from within_request [OF this, of gi] have g: "?g \<in> set (title_rings s gi)" "?g \<notin> H"
    "within (title_rings s1) ((count_list (gi # Q))(gi := count_list (gi # Q) gi - 1)) (insert ?g H)" using s1(3) by simp_all
  moreover have "(count_list (gi # Q))(gi := count_list (gi # Q) gi - 1) = count_list Q" by (simp add: fun_eq_iff)
  ultimately have w: "within (title_rings s1) (count_list Q) (insert ?g H)" by simp
  have ty: "gt_type (gt_at s ?g) = gi" using sccp_pools_okD(5) [OF assms(1) g(1)] .
  obtain d where d: "gt_init bs (b, i) (int (length w)) (gt_at s ?g) = Returns d" "gt_type d = gi"
    "\<forall>s ob. mem s b = bs \<longrightarrow> ob \<noteq> b \<longrightarrow> title_content s ob d = Some w"
    using gt_init_ok [OF _ ty gi(2) assms(4)] gi' by blast
  let ?s = "put_gt ?g d s1"
  have "sccp_pools_ok ?s" using s1(2,7) d(2) ty by (auto simp: sccp_pools_ok_def put_gt_def)
  moreover have "GlobalTitle_decode bs (b, i) (int (length w)) v s = Returns (Some ?g, ?s)"
    using False gi(1) s1(1,7) d(1) by (simp add: GlobalTitle_decode_def)
  moreover have "title_rings ?s = title_rings s1" "param_rings ?s = param_rings s1" by (simp_all add: put_gt_def)
  ultimately show ?thesis using False gi' g(2) w d(3) s1(4-8) assms(2)
    by (intro exI [of _ "Some ?g"] exI [of _ ?s] exI [of _ "insert ?g H"]) auto
qed

text \<open>The octets of an address before its title.\<close>

lemma address_octets:
  assumes "canonical_address w" "holds_at bs i w"
  obtains v cs ns where "w = v # cs @ ns @ drop (address_head w) w" "v = hd w" "byte_at bs i = Returns v"
    "v AND 0x01 = 0x01 \<longrightarrow> (\<exists>v0. cs = [v0, 0] \<and> byte_at bs (i + 1) = Returns v0 \<and> byte_at bs (i + 2) = Returns 0)"
    "v AND 0x01 \<noteq> 0x01 \<longrightarrow> cs = []"
    "v AND 0x02 = 0x02 \<longrightarrow> (\<exists>n. ns = [n] \<and> byte_at bs (i + 1 + length cs) = Returns n)" "v AND 0x02 \<noteq> 0x02 \<longrightarrow> ns = []"
    "address_head w = Suc (length cs + length ns)" "holds_at bs (i + address_head w) (drop (address_head w) w)"
proof -
  obtain v u where w: "w = v # u" using assms(1) by (cases w) (auto simp: canonical_address_def)
  define k where "k = (if v AND 0x01 = 0x01 then 2 else 0 :: nat)"
  define n where "n = (if v AND 0x02 = 0x02 then 1 else 0 :: nat)"
  define cs where "cs = take k u"
  define ns where "ns = take n (drop k u)"
  have h: "address_head w = Suc (k + n)" using w by (simp add: address_head_def k_def n_def)
  then have l: "k + n \<le> length u" using assms(1) w by (simp add: canonical_address_def)
  have len: "length cs = k" "length ns = n" using l by (simp_all add: cs_def ns_def)
  have u: "u = cs @ ns @ drop (k + n) u"
    by (simp add: cs_def ns_def) (metis append_assoc append_take_drop_id take_add)
  have dr: "drop (address_head w) w = drop (k + n) u" using w h by simp
  have hold: "byte_at bs i = Returns v" "holds_at bs (i + 1) cs" "holds_at bs (i + 1 + k) ns" "holds_at bs (i + 1 + k + n) (drop (k + n) u)"
  proof -
    have "holds_at bs i (v # cs @ ns @ drop (k + n) u)" using assms(2) w u by simp
    then show "byte_at bs i = Returns v" "holds_at bs (i + 1) cs" "holds_at bs (i + 1 + k) ns" "holds_at bs (i + 1 + k + n) (drop (k + n) u)"
      by (simp_all add: holds_at_Cons holds_at_append len)
  qed
  have "\<exists>v0. cs = [v0, 0] \<and> byte_at bs (i + 1) = Returns v0 \<and> byte_at bs (i + 2) = Returns 0" if "v AND 0x01 = 0x01"
  proof -
    have "length cs = 2" using len(1) that by (simp add: k_def)
    then obtain v0 v1 where cs: "cs = [v0, v1]" using list_of_2 by blast
    have "w ! 2 = v1" using u cs w by (metis nth_Cons_numeral nth_append_length_plus numeral_2_eq_2 append_Cons append_Nil nth_Cons_0 nth_Cons_Suc)
    then have "v1 = 0" using assms(1) that w by (simp add: canonical_address_def)
    then show ?thesis using hold(2) cs by (simp add: holds_at_Cons)
  qed
  moreover have "\<exists>m. ns = [m] \<and> byte_at bs (i + 1 + length cs) = Returns m" if "v AND 0x02 = 0x02"
  proof -
    have "length ns = 1" using len(2) that by (simp add: n_def)
    then obtain m where "ns = [m]" using list_of_1 by blast
    then show ?thesis using hold(3) len(1) by (simp add: holds_at_Cons)
  qed
  ultimately show thesis
    using w u h hold(1,4) len dr by (intro that [of v cs ns]) (auto simp: cs_def ns_def k_def n_def add.assoc)
qed

lemma PA_init_ok:
  assumes ok: "sccp_pools_ok s" "mem s b = bs" and p: "members (param_at s a) = PartyAddress pa0" "param_byte_pos (param_at s a) = 0"
    and w: "canonical_address w" "holds_at bs i w"
    and within: "within (title_rings s) (count_list ((case address_title w of None \<Rightarrow> [] | Some gi \<Rightarrow> [gi]) @ Q)) H"
  shows "\<exists>s1 H' pa k. PA_init bs (b, i) (int (length w)) a s =
      Returns (set_param a ((SCCPParam_init (b, i) (int (length w)) (param_at s a))\<lparr>param_byte_pos := k, members := PartyAddress pa\<rparr>) s1) \<and>
    sccp_pools_ok s1 \<and> mem s1 = mem s \<and> message_at s1 = message_at s \<and> param_at s1 = param_at s \<and>
    (\<forall>g \<in> H. gt_at s1 g = gt_at s g) \<and> H \<subseteq> H' \<and> param_rings s1 = param_rings s \<and> within (title_rings s1) (count_list Q) H' \<and>
    (\<forall>g. titled pa = Some g \<longrightarrow> g \<in> H') \<and>
    (\<forall>ob p. ob \<noteq> b \<longrightarrow> members p = PartyAddress pa \<longrightarrow> param_content s1 ob p = Some w)"
proof -
  obtain v cs ns where o: "w = v # cs @ ns @ drop (address_head w) w" "v = hd w" "byte_at bs i = Returns v"
    "v AND 0x01 = 0x01 \<longrightarrow> (\<exists>v0. cs = [v0, 0] \<and> byte_at bs (i + 1) = Returns v0 \<and> byte_at bs (i + 2) = Returns 0)"
    "v AND 0x01 \<noteq> 0x01 \<longrightarrow> cs = []"
    "v AND 0x02 = 0x02 \<longrightarrow> (\<exists>n. ns = [n] \<and> byte_at bs (i + 1 + length cs) = Returns n)" "v AND 0x02 \<noteq> 0x02 \<longrightarrow> ns = []"
    "address_head w = Suc (length cs + length ns)" "holds_at bs (i + address_head w) (drop (address_head w) w)"
    using address_octets [OF w] by blast
  define rest where "rest = drop (address_head w) w"
  let ?gi = "ucast v AND 0x3c :: c_int"
  have at: "address_title w = (if rest = [] then None else gti_of ?gi)" using o(2) by (simp add: address_title_def rest_def)
  have room: "rest = [] \<or> (\<exists>gi. gti_of ?gi = Some gi \<and> title_room gi \<le> length rest)"
    using w(1) at by (auto simp: canonical_address_def rest_def)
  then have "(case address_title w of None \<Rightarrow> [] | Some gi \<Rightarrow> [gi]) = (if rest = [] then [] else [the (gti_of ?gi)])" using at by auto
  then have wi: "within (title_rings s) (count_list ((if rest = [] then [] else [the (gti_of ?gi)]) @ Q)) H" using within by simp
  have h: "holds_at bs (i + address_head w) rest" using o(9) by (simp add: rest_def)
  obtain gt s1 H' where g: "GlobalTitle_decode bs (b, i + address_head w) (int (length rest)) ?gi s = Returns (gt, s1)" "sccp_pools_ok s1"
    "mem s1 = mem s" "message_at s1 = message_at s" "param_at s1 = param_at s" "\<forall>g \<in> H. gt_at s1 g = gt_at s g" "H \<subseteq> H'"
    "param_rings s1 = param_rings s" "within (title_rings s1) (count_list Q) H'"
    "if rest = [] then gt = None else ?gi \<noteq> gti_value GT_NO_TITLE \<and>
      (\<exists>g. gt = Some g \<and> g \<in> H' \<and> (\<forall>ob. ob \<noteq> b \<longrightarrow> title_content s1 ob (gt_at s1 g) = Some rest))"
    using GlobalTitle_decode_ok [OF ok room h wi] by (elim exE conjE) (rule that; assumption)
  define code where "code = (if v AND 0x01 = 0x01 then Some (push_bit 8 (ucast (0::u8) AND 0x3f) + ucast (hd cs)) else point_code pa0)"
  define number where "number = (if v AND 0x02 = 0x02 then Some (ucast (hd ns)) else subsystem_number pa0)"
  define pa where "pa = \<lparr>routing_indicator = Some (ucast v AND 0x40), global_title_indicator = Some ?gi,
    ssn_indicator = Some (v AND 0x02 = 0x02), point_code_indicator = Some (v AND 0x01 = 0x01), point_code = code,
    subsystem_number = number, global_title = gt\<rparr>"
  let ?p = "SCCPParam_init (b, i) (int (length w)) (param_at s a)"
  have len: "int (length w) - int (address_head w) = int (length rest)"
    using w(1) by (simp add: rest_def canonical_address_def of_nat_diff)
  have p': "param_byte_pos ?p = 0" "members ?p = PartyAddress pa0" using p by (simp_all add: SCCPParam_init_def)
  have run: "PA_init bs (b, i) (int (length w)) a s =
      Returns (set_param a (?p\<lparr>param_byte_pos := address_head w, members := PartyAddress pa\<rparr>) s1)"
  proof -
    have 1: "(if v AND 0x01 = 0x01 then and_then (byte_at bs (i + (0 + 1) + 1)) (\<lambda>v1. and_then (byte_at bs (i + (0 + 1))) (\<lambda>v0.
        Returns (Some (push_bit 8 (ucast v1 AND 0x3f) + ucast v0), (0 + 1) + 2))) else Returns (point_code pa0, 0 + 1)) =
        Returns (code, 1 + length cs)" (is "?code = _")
      using o(4,5) by (cases "v AND 0x01 = 0x01") (auto simp: code_def numeral_2_eq_2)
    have 2: "(if v AND 0x02 = 0x02 then and_then (byte_at bs (i + (1 + length cs))) (\<lambda>v. Returns (Some (ucast v), (1 + length cs) + 1))
        else Returns (subsystem_number pa0, 1 + length cs)) = Returns (number, address_head w)"
      using o(6-8) by (cases "v AND 0x02 = 0x02") (auto simp: number_def add.assoc)
    have "(if v AND 0x01 = 0x01 then and_then (byte_at bs (i + (0 + 1) + 1)) (\<lambda>v1. and_then (byte_at bs (i + (0 + 1))) (\<lambda>v0.
        Returns (Some (push_bit 8 (ucast v1 AND 0x3f :: c_int) + ucast v0), (0 + 1) + 2))) else Returns (point_code pa0, 0 + 1)) = ?code" by simp
    show ?thesis
      unfolding PA_init_def Let_def p' fst_conv snd_conv add_0_right o(3) and_then.simps sccp_members.case 1 prod.case 2 len g(1)
      by (simp add: pa_def)
  qed
  have oct: "pa_octets pa = Returns (v # cs @ ns)"
  proof -
    have oct_back: "ucast (ucast (n::u8) :: c_int) = n" for n by (rule bit_word_eqI) (auto simp: bit_simps)
    have 1: "(if v AND 0x01 = 0x01 then and_then (the_ptr code) (\<lambda>v. Returns [ucast v, ucast (v AND drop_bit 8 0x3f) :: u8]) else Returns []) = Returns cs"
      using o(4,5) point_code_octet [of 0] by (auto simp: code_def)
    have 2: "(if v AND 0x02 = 0x02 then and_then (the_ptr number) (\<lambda>v. Returns [ucast v :: u8]) else Returns []) = Returns ns"
      using o(6,7) oct_back by (auto simp: number_def)
    have "v AND 0x80 = 0" using w(1) o(2) by (simp add: canonical_address_def)
    then show ?thesis
      unfolding pa_octets_def pa_def party_address.simps the_ptr_simps and_then.simps 1 2 by (simp only: address_indicator)
  qed
  have "param_content s1 ob p = Some w" if "ob \<noteq> b" "members p = PartyAddress pa" for ob p
  proof (cases "rest = []")
    case True
    then have "titled pa = None" using g(10) by (simp add: titled_def pa_def)
    then show ?thesis using that oct True o(1) by (simp add: param_content_def rest_def)
  next
    case False
    then obtain g' where "gt = Some g'" "title_content s1 ob (gt_at s1 g') = Some rest" "titled pa = Some g'"
      using g(10) \<open>ob \<noteq> b\<close> by (auto simp: titled_def pa_def)
    then show ?thesis using that oct o(1) by (simp add: param_content_def rest_def)
  qed
  moreover have "g' \<in> H'" if "titled pa = Some g'" for g'
    using that g(10) by (auto simp: titled_def pa_def split: if_splits)
  ultimately show ?thesis using run g by blast
qed

end
