(* ===== verification/Sccp_Read.thy ===== *)
theory Sccp_Read
  imports Sccp_Decode
begin

text \<open>
  \<open>decode\<close> of the messages: each step of \<open>init\<close> hands out an object that stands for the octets it
  was read from, and keeps the ones handed out before.
\<close>

section \<open>Any parameter\<close>

text \<open>
  \<open>param_read s s' a H Q H'\<close>: from \<open>s\<close> to \<open>s'\<close> the parameter \<open>a\<close> is initialised; the titles \<open>H\<close> are in
  use before, \<open>H'\<close> after, and \<open>Q\<close> are still to be asked for.
\<close>

definition param_read :: "sccp_state \<Rightarrow> sccp_state \<Rightarrow> nat \<Rightarrow> nat set \<Rightarrow> GlobalTitleIndicator list \<Rightarrow> nat set \<Rightarrow> bool" where
  "param_read s s' a H Q H' \<longleftrightarrow>
     sccp_pools_ok s' \<and> mem s' = mem s \<and> message_at s' = message_at s \<and> (\<forall>a'. a' \<noteq> a \<longrightarrow> param_at s' a' = param_at s a') \<and>
     (\<forall>g \<in> H. gt_at s' g = gt_at s g) \<and> H \<subseteq> H' \<and> param_rings s' = param_rings s \<and> within (title_rings s') (count_list Q) H'"

lemma param_content_store: "mem s' = mem s \<Longrightarrow> gt_at s' = gt_at s \<Longrightarrow> param_content s' b p = param_content s b p"
proof -
  assume s: "mem s' = mem s" "gt_at s' = gt_at s"
  then have "outside s' = outside s" by (intro ext) (simp only: outside_def)
  then have "title_content s' = title_content s" by (intro ext) (simp only: title_content_def)
  then show ?thesis using s \<open>outside s' = outside s\<close> by (simp only: param_content_def)
qed

lemma init_address_ok:
  assumes ok: "sccp_pools_ok s" "mem s b = bs" and p: "well_made pt (param_at s a)" "param_byte_pos (param_at s a) = 0"
    and pt: "pt = CALLED_PARTY_ADDRESS \<or> pt = CALLING_PARTY_ADDRESS" and w: "canonical_octets pt w" "holds_at bs i w"
    and within: "within (title_rings s) (count_list (title_of (pt, w) @ Q)) H"
  shows "\<exists>s' H'. sccp_param_init bs (b, i) (int (length w)) a s = Returns s' \<and> param_read s s' a H Q H' \<and> standing b {a} H' s' pt w a"
proof -
  have c: "canonical_address w" using w(1) pt by auto
  have "\<exists>pa. members (param_at s a) = PartyAddress pa" using p(1) pt by (auto simp: well_made_def classes)
  then obtain pa0 where pa0: "members (param_at s a) = PartyAddress pa0" by blast
  have wi: "within (title_rings s) (count_list ((case address_title w of None \<Rightarrow> [] | Some gi \<Rightarrow> [gi]) @ Q)) H"
    using within pt by (simp add: title_of_def)
  obtain s1 H' pa k where r: "PA_init bs (b, i) (int (length w)) a s =
      Returns (set_param a ((SCCPParam_init (b, i) (int (length w)) (param_at s a))\<lparr>param_byte_pos := k, members := PartyAddress pa\<rparr>) s1)"
    "sccp_pools_ok s1" "mem s1 = mem s" "message_at s1 = message_at s" "param_at s1 = param_at s" "\<forall>g \<in> H. gt_at s1 g = gt_at s g"
    "H \<subseteq> H'" "param_rings s1 = param_rings s" "within (title_rings s1) (count_list Q) H'" "\<forall>g. titled pa = Some g \<longrightarrow> g \<in> H'"
    "\<forall>ob p. ob \<noteq> b \<longrightarrow> members p = PartyAddress pa \<longrightarrow> param_content s1 ob p = Some w"
    using PA_init_ok [OF ok pa0 p(2) c w(2) wi] by (elim exE conjE) (rule that; assumption)
  let ?p = "(SCCPParam_init (b, i) (int (length w)) (param_at s a))\<lparr>param_byte_pos := k, members := PartyAddress pa\<rparr>"
  let ?s = "set_param a ?p s1"
  have wm: "well_made pt ?p" using p(1) pa0 by (simp add: well_made_def SCCPParam_init_def)
  then have "sccp_pools_ok ?s" using r(2,5) p(1) by (intro pools_put_param) (simp_all add: well_made_def)
  then have "param_read s ?s a H Q H'" using r by (simp add: param_read_def set_param_def)
  moreover have "standing b {a} H' ?s pt w a"
  proof -
    have "param_content ?s ob ?p = param_content s1 ob ?p" for ob by (rule param_content_store) (simp_all add: set_param_def)
    then have "param_content ?s ob ?p = Some w" if "ob \<noteq> b" for ob using r(11) that by simp
    then show ?thesis using wm r(10) by (simp add: standing_def carries_def well_made_def)
  qed
  moreover have "sccp_param_init bs (b, i) (int (length w)) a s = Returns ?s" using pa0 r(1) by (simp add: sccp_param_init_def)
  ultimately show ?thesis by blast
qed

lemma init_ok:
  assumes ok: "sccp_pools_ok s" "mem s b = bs" and p: "well_made pt (param_at s a)" "param_byte_pos (param_at s a) = 0"
    and w: "canonical_octets pt w" "holds_at bs i w" and within: "within (title_rings s) (count_list (title_of (pt, w) @ Q)) H"
  shows "\<exists>s' H'. sccp_param_init bs (b, i) (int (length w)) a s = Returns s' \<and> param_read s s' a H Q H' \<and> standing b {a} H' s' pt w a"
proof (cases "pt = CALLED_PARTY_ADDRESS \<or> pt = CALLING_PARTY_ADDRESS")
  case True
  show ?thesis by (rule init_address_ok [OF ok p True w within])
next
  case False
  then have pt: "pt \<noteq> CALLED_PARTY_ADDRESS" "pt \<noteq> CALLING_PARTY_ADDRESS" by blast+
  obtain p' where p': "sccp_param_init bs (b, i) (int (length w)) a s = Returns (set_param a p' s)" "well_made pt p'" "denotes b bs w p'"
    using sccp_param_init_ok [where s = s, OF p(1) w pt] by blast
  let ?s = "set_param a p' s"
  have "sccp_pools_ok ?s" using ok(1) p(1) p'(2) by (intro pools_put_param) (simp_all add: well_made_def)
  then have "param_read s ?s a H Q H" using within pt by (simp add: param_read_def set_param_def title_of_def)
  moreover have "standing b {a} H ?s pt w a"
    using p'(2,3) ok(2) by (simp add: standing_def carries_def well_made_def denotes_def)
  ultimately show ?thesis using p'(1) by blast
qed

section \<open>An object from the pool\<close>

text \<open>One more object is in use afterwards; \<open>P\<close> and \<open>Q\<close> are the objects still to be asked for.\<close>

definition drawn ::
  "sccp_state \<Rightarrow> sccp_state \<Rightarrow> nat \<Rightarrow> nat set \<Rightarrow> nat set \<Rightarrow> nat set \<Rightarrow> SCCPParameterType list \<Rightarrow> GlobalTitleIndicator list \<Rightarrow> bool" where
  "drawn s s' a G H H' P Q \<longleftrightarrow>
     sccp_pools_ok s' \<and> mem s' = mem s \<and> (\<forall>a' \<in> G. param_at s' a' = param_at s a') \<and> (\<forall>g \<in> H. gt_at s' g = gt_at s g) \<and> H \<subseteq> H' \<and>
     within (param_rings s') (count_list P) (insert a G) \<and> within (title_rings s') (count_list Q) H'"

lemma count_list_less: "(count_list (x # xs))(x := count_list (x # xs) x - 1) = count_list xs"
  by (simp add: fun_eq_iff)

lemma pools_update_message:
  assumes "sccp_pools_ok s" "\<And>x. message_type (f x) = message_type x \<and> length (pointer (f x)) = length (pointer x)"
  shows "sccp_pools_ok (update_message m f s)"
  using assms by (auto simp: sccp_pools_ok_def update_message_def set_message_def)

lemma take_ok:
  assumes ok: "sccp_pools_ok s" "mem s b = bs" and w: "canonical_octets pt w" "holds_at bs i w"
    and within: "within (param_rings s) (count_list (pt # P)) G" "within (title_rings s) (count_list (title_of (pt, w) @ Q)) H"
    and f: "\<And>x. message_type (f x) = message_type x \<and> length (pointer (f x)) = length (pointer x)"
  shows "\<exists>a s1 s' H'. sccp_request_param pt s = Returns (Some a, s1) \<and> param_type (param_at s1 a) = pt \<and>
    sccp_param_init bs (b, i) (int (length w)) a (update_message m f (set_param a ((param_at s1 a)\<lparr>param_byte_pos := 0\<rparr>) s1)) = Returns s' \<and>
    message_at s' = (message_at s)(m := f (message_at s m)) \<and> drawn s s' a G H H' P Q \<and> standing b (insert a G) H' s' pt w a"
proof -
  let ?a = "hd (param_rings s pt)"
  obtain s1 where s1: "sccp_request_param pt s = Returns (Some ?a, s1)" "sccp_pools_ok s1"
    "param_rings s1 = (param_rings s)(pt := rotate1 (param_rings s pt))" "title_rings s1 = title_rings s"
    "mem s1 = mem s" "param_at s1 = param_at s" "gt_at s1 = gt_at s" "message_at s1 = message_at s"
    using sccp_request_param_ok [OF ok(1)] by blast
  from within_request [OF within(1), of pt] have a: "?a \<in> set (param_rings s pt)" "?a \<notin> G"
    "within (param_rings s1) (count_list P) (insert ?a G)" using s1(3) count_list_less [of pt P] by simp_all
  have wm: "well_made pt (param_at s ?a)" using sccp_pools_okD(4) [OF ok(1) a(1)] .
  let ?p = "(param_at s1 ?a)\<lparr>param_byte_pos := 0\<rparr>"
  let ?s = "update_message m f (set_param ?a ?p s1)"
  have wm': "well_made pt ?p" using wm s1(6) by (simp add: well_made_def)
  have "sccp_pools_ok (set_param ?a ?p s1)" using s1(2,6) wm' wm by (intro pools_put_param) (simp_all add: well_made_def)
  then have ok': "sccp_pools_ok ?s" using f by (rule pools_update_message)
  have s: "mem ?s b = bs" "well_made pt (param_at ?s ?a)" "param_byte_pos (param_at ?s ?a) = 0" "title_rings ?s = title_rings s"
    using ok(2) s1(4,5) wm' by (simp_all add: update_message_def set_message_def set_param_def)
  obtain s' H' where s': "sccp_param_init bs (b, i) (int (length w)) ?a ?s = Returns s'" "param_read ?s s' ?a H Q H'" "standing b {?a} H' s' pt w ?a"
    using init_ok [OF ok' s(1-3) w] within(2) unfolding s(4) by blast
  note r = s'(2) [unfolded param_read_def]
  have "drawn s s' ?a G H H' P Q"
    using r a(2,3) s1(5-7) by (simp add: drawn_def update_message_def set_message_def set_param_def) metis
  moreover have "message_at s' = (message_at s)(m := f (message_at s m))"
    using r s1(8) by (simp add: update_message_def set_message_def set_param_def)
  moreover have "standing b (insert ?a G) H' s' pt w ?a" using s'(3) by (auto simp: standing_def)
  moreover have "param_type (param_at s1 ?a) = pt" using wm s1(6) by (simp add: well_made_def)
  ultimately show ?thesis using s1(1) s'(1) by blast
qed

section \<open>The message so far\<close>

type_synonym item = "SCCPParameterType \<times> u8 list"

text \<open>
  The message \<open>m\<close> has got the parameters \<open>parts\<close> and the optional ones \<open>opts\<close>; \<open>items\<close> are
  still to be read from the buffer \<open>b\<close>.
\<close>

definition holds_items :: "nat \<Rightarrow> nat \<Rightarrow> nat set \<Rightarrow> nat set \<Rightarrow> item list \<Rightarrow> item list \<Rightarrow> sccp_state \<Rightarrow> bool" where
  "holds_items b m G H parts opts s \<longleftrightarrow>
     (\<forall>x \<in> set parts. \<exists>a. part (message_at s m) (fst x) = Some a \<and> standing b G H s (fst x) (snd x) a) \<and>
     list_all2 (\<lambda>a x. standing b G H s (fst x) (snd x) a) (optional_params (message_at s m)) opts"

definition decoding ::
  "nat \<Rightarrow> u8 list \<Rightarrow> nat \<Rightarrow> SCCPMessageType \<Rightarrow> item list \<Rightarrow> item list \<Rightarrow> item list \<Rightarrow> sccp_state \<Rightarrow> bool" where
  "decoding b bs m mt items parts opts s \<longleftrightarrow>
     sccp_pools_ok s \<and> mem s b = bs \<and> message_type (message_at s m) = mt \<and>
     length (pointer (message_at s m)) = pointer_count mt \<and>
     (\<exists>G H. within (param_rings s) (count_list (map fst items)) G \<and>
        within (title_rings s) (count_list (concat (map title_of items))) H \<and> holds_items b m G H parts opts s)"

lemma holds_items_taken:
  assumes "holds_items b m G H parts opts s" "drawn s s' a G H H' P Q"
    "\<forall>x \<in> set parts. part (message_at s' m) (fst x) = part (message_at s m) (fst x)"
    "optional_params (message_at s' m) = optional_params (message_at s m)"
  shows "holds_items b m (insert a G) H' parts opts s'"
proof -
  have keep: "standing b (insert a G) H' s' pt w a'" if "standing b G H s pt w a'" for pt w a'
    by (rule standing_frame [OF that]) (use assms(2) in \<open>auto simp: drawn_def\<close>)
  then have "list_all2 (\<lambda>a' x. standing b (insert a G) H' s' (fst x) (snd x) a') (optional_params (message_at s m)) opts"
    using assms(1) unfolding holds_items_def by (auto elim: list_all2_mono)
  then show ?thesis using assms(1,3,4) keep unfolding holds_items_def by metis
qed

lemma read_part_ok:
  assumes d: "decoding b bs m mt ((pt, w) # items) parts opts s" and w: "canonical_octets pt w" "holds_at bs i w"
    and new: "pt \<notin> fst ` set parts"
  shows "\<exists>s'. read_part bs b m pt pt i (int (length w)) s = Returns s' \<and> decoding b bs m mt items (parts @ [(pt, w)]) opts s' \<and>
    pointer (message_at s' m) = pointer (message_at s m) \<and> byte_pos (message_at s' m) = byte_pos (message_at s m)"
proof -
  obtain G H where gh: "within (param_rings s) (count_list (pt # map fst items)) G"
    "within (title_rings s) (count_list (title_of (pt, w) @ concat (map title_of items))) H" "holds_items b m G H parts opts s"
    using d by (auto simp: decoding_def)
  have ok: "sccp_pools_ok s" "mem s b = bs" using d by (simp_all add: decoding_def)
  define f where "f = (\<lambda>a (x :: SCCPMessage). x\<lparr>part := (part x)(pt := Some a)\<rparr>)"
  have "message_type (f a x) = message_type x \<and> length (pointer (f a x)) = length (pointer x)" for a x by (simp add: f_def)
  note t = take_ok [OF ok w gh(1,2), of "f _" m, OF this]
  let ?a = "hd (param_rings s pt)"
  obtain a s1 where req: "sccp_request_param pt s = Returns (Some a, s1)" using sccp_request_param_ok [OF ok(1)] by blast
  obtain s' H' where s': 
    "sccp_param_init bs (b, i) (int (length w)) a (update_message m (f a) (set_param a ((param_at s1 a)\<lparr>param_byte_pos := 0\<rparr>) s1)) = Returns s'"
    "message_at s' = (message_at s)(m := f a (message_at s m))" "drawn s s' a G H H' (map fst items) (concat (map title_of items))"
    "standing b (insert a G) H' s' pt w a" using t [of a] req by auto
  have "read_part bs b m pt pt i (int (length w)) s = Returns s'"
    using req s'(1) by (simp add: read_part_def set_part_def f_def)
  moreover have "holds_items b m (insert a G) H' parts opts s'"
    using new s'(2) by (intro holds_items_taken [OF gh(3) s'(3)]) (auto simp: f_def rev_image_eqI)
  then have "holds_items b m (insert a G) H' (parts @ [(pt, w)]) opts s'"
    using s'(2,4) by (auto simp: holds_items_def f_def)
  then have "decoding b bs m mt items (parts @ [(pt, w)]) opts s'"
    using d s'(2,3) unfolding decoding_def drawn_def by (auto simp: f_def)
  ultimately show ?thesis using s'(2) by (simp add: f_def)
qed

end
