(* ===== verification/Sccp_Messages.thy ===== *)
theory Sccp_Messages
  imports Sccp_Read
begin

text \<open>
  \<open>decode\<close> on the octets of a message: the steps of \<open>init\<close> of every class, the pointers and what
  they point to, the loop over the optional parameters, and the result.
\<close>

section \<open>Steps of \<open>init\<close>\<close>

lemma decoding_update:
  assumes "decoding b bs m mt items parts opts s" "length (pointer (f (message_at s m))) = length (pointer (message_at s m))"
    "message_type (f (message_at s m)) = message_type (message_at s m)" "part (f (message_at s m)) = part (message_at s m)"
    "optional_params (f (message_at s m)) = optional_params (message_at s m)"
  shows "decoding b bs m mt items parts opts (update_message m f s)"
proof -
  let ?s = "update_message m f s"
  have "standing b G H ?s pt w a = standing b G H s pt w a" for G H pt w a
    using param_content_store [of ?s s]
    by (auto simp: standing_def carries_def update_message_def set_message_def)
  then have "holds_items b m G H parts opts ?s = holds_items b m G H parts opts s" for G H
    using assms(4,5) by (simp add: holds_items_def) (simp add: update_message_def set_message_def)
  moreover have "sccp_pools_ok ?s" using assms(1-3) by (auto simp: decoding_def sccp_pools_ok_def update_message_def set_message_def)
  ultimately show ?thesis using assms(1-3) by (simp add: decoding_def) (simp add: update_message_def set_message_def)
qed

lemma advance_ok:
  assumes "decoding b bs m mt items parts opts s"
  shows "\<exists>s'. skip_octets m n s = Returns s' \<and> decoding b bs m mt items parts opts s' \<and>
    pointer (message_at s' m) = pointer (message_at s m) \<and> byte_pos (message_at s' m) = byte_pos (message_at s m) + n"
proof -
  let ?s = "update_message m (\<lambda>x. x\<lparr>byte_pos := byte_pos x + n\<rparr>) s"
  have "decoding b bs m mt items parts opts ?s" by (rule decoding_update [OF assms]) simp_all
  then show ?thesis by (simp add: skip_octets_def) (simp add: update_message_def set_message_def)
qed

definition part_size :: "SCCPParameterType \<Rightarrow> nat" where
  "part_size pt = (if pt \<in> {DESTINATION_LOCAL_REFERENCE, SOURCE_LOCAL_REFERENCE} then 3 else if pt = SEQUENCING_SEGMENTING then 2 else 1)"

lemma fixed_part_ok:
  assumes "decoding b bs m mt ((pt, w) # items) parts opts s" "canonical_octets pt w"
    "holds_at bs (q + byte_pos (message_at s m)) w" "pt \<notin> fst ` set parts" "length w = n"
  shows "\<exists>s'. fixed_part bs b q m pt pt n s = Returns s' \<and> decoding b bs m mt items (parts @ [(pt, w)]) opts s' \<and>
    pointer (message_at s' m) = pointer (message_at s m) \<and> byte_pos (message_at s' m) = byte_pos (message_at s m) + n"
proof -
  obtain s1 where s1: "read_part bs b m pt pt (q + byte_pos (message_at s m)) (int n) s = Returns s1"
    "decoding b bs m mt items (parts @ [(pt, w)]) opts s1" "pointer (message_at s1 m) = pointer (message_at s m)"
    "byte_pos (message_at s1 m) = byte_pos (message_at s m)" using read_part_ok [OF assms(1-4)] assms(5) by blast
  then show ?thesis using advance_ok [OF s1(2), of n] by (auto simp: fixed_part_def last_fixed_part_def)
qed

lemma fixed_parts_ok:
  assumes "list_all2 (\<lambda>pt w. canonical_octets pt w \<and> length w = part_size pt) pts ws"
    "decoding b bs m mt (zip pts ws @ items) parts opts s" "holds_at bs (q + byte_pos (message_at s m)) (concat ws)"
    "distinct pts" "set pts \<inter> fst ` set parts = {}"
  shows "\<exists>s'. steps (map (\<lambda>pt. fixed_part bs b q m pt pt (part_size pt)) pts) s = Returns s' \<and>
    decoding b bs m mt items (parts @ zip pts ws) opts s' \<and>
    pointer (message_at s' m) = pointer (message_at s m) \<and> byte_pos (message_at s' m) = byte_pos (message_at s m) + length (concat ws)"
  using assms
proof (induction arbitrary: s parts)
  case Nil
  then show ?case by simp
next
  case (Cons pt pts w ws)
  have h: "holds_at bs (q + byte_pos (message_at s m)) w" "holds_at bs (q + (byte_pos (message_at s m) + part_size pt)) (concat ws)"
    using Cons.prems(2) Cons.hyps(1) by (simp_all add: holds_at_append add.assoc)
  have d: "decoding b bs m mt ((pt, w) # zip pts ws @ items) parts opts s" using Cons.prems(1) by simp
  obtain s1 where s1: "fixed_part bs b q m pt pt (part_size pt) s = Returns s1"
    "decoding b bs m mt (zip pts ws @ items) (parts @ [(pt, w)]) opts s1" "pointer (message_at s1 m) = pointer (message_at s m)"
    "byte_pos (message_at s1 m) = byte_pos (message_at s m) + part_size pt"
    using fixed_part_ok [OF d _ h(1)] Cons.hyps(1) Cons.prems(4) by auto
  have "\<exists>s'. steps (map (\<lambda>pt. fixed_part bs b q m pt pt (part_size pt)) pts) s1 = Returns s' \<and>
      decoding b bs m mt items ((parts @ [(pt, w)]) @ zip pts ws) opts s' \<and>
      pointer (message_at s' m) = pointer (message_at s1 m) \<and>
      byte_pos (message_at s' m) = byte_pos (message_at s1 m) + length (concat ws)"
    using Cons.prems(3,4) h(2) s1(4) by (intro Cons.IH s1(2)) auto
  then show ?case using s1 Cons.hyps(1) by (simp add: add.assoc)
qed

subsection \<open>Pointers\<close>

lemma read_pointer_ok:
  assumes "decoding b bs m mt items parts opts s" "byte_at bs (q + byte_pos (message_at s m)) = Returns v"
  shows "\<exists>s'. read_pointer bs q m i s = Returns s' \<and> decoding b bs m mt items parts opts s' \<and>
    pointer (message_at s' m) = (pointer (message_at s m))[i := \<lparr>ptr_value = int (unat v), ptr_position = unat v + byte_pos (message_at s m)\<rparr>] \<and>
    byte_pos (message_at s' m) = byte_pos (message_at s m) + 1"
proof -
  have "decoding b bs m mt items parts opts (store_pointer m i (unat v) 1 s)"
    unfolding store_pointer_def by (rule decoding_update [OF assms(1)]) simp_all
  moreover have "v AND 0xff = v" by (rule octet_all)
  ultimately show ?thesis
    using assms(2) by (simp add: read_pointer_def) (simp add: store_pointer_def update_message_def set_message_def)
qed

lemma read_pointers_ok:
  assumes "decoding b bs m mt items parts opts s" "holds_at bs (q + byte_pos (message_at s m)) vs"
    "k + length vs \<le> length (pointer (message_at s m))"
  shows "\<exists>s'. steps (map (read_pointer bs q m) [k..<k + length vs]) s = Returns s' \<and> decoding b bs m mt items parts opts s' \<and>
    length (pointer (message_at s' m)) = length (pointer (message_at s m)) \<and>
    (\<forall>j. j < k \<longrightarrow> pointer (message_at s' m) ! j = pointer (message_at s m) ! j) \<and>
    (\<forall>j. j < length vs \<longrightarrow> ptr_position (pointer (message_at s' m) ! (k + j)) = unat (vs ! j) + (byte_pos (message_at s m) + j)) \<and>
    byte_pos (message_at s' m) = byte_pos (message_at s m) + length vs"
  using assms
proof (induction vs arbitrary: s k)
  case Nil
  then show ?case by simp
next
  case (Cons v vs)
  let ?p = "byte_pos (message_at s m)"
  have h: "byte_at bs (q + ?p) = Returns v" "holds_at bs (q + (?p + 1)) vs" using Cons.prems(2) by (simp_all add: holds_at_Cons)
  obtain s1 where s1: "read_pointer bs q m k s = Returns s1" "decoding b bs m mt items parts opts s1"
    "pointer (message_at s1 m) = (pointer (message_at s m))[k := \<lparr>ptr_value = int (unat v), ptr_position = unat v + ?p\<rparr>]"
    "byte_pos (message_at s1 m) = ?p + 1" using read_pointer_ok [OF Cons.prems(1) h(1)] by blast
  obtain s' where s': "steps (map (read_pointer bs q m) [Suc k..<Suc k + length vs]) s1 = Returns s'" "decoding b bs m mt items parts opts s'"
    "length (pointer (message_at s' m)) = length (pointer (message_at s1 m))"
    "\<forall>j. j < Suc k \<longrightarrow> pointer (message_at s' m) ! j = pointer (message_at s1 m) ! j"
    "\<forall>j. j < length vs \<longrightarrow> ptr_position (pointer (message_at s' m) ! (Suc k + j)) = unat (vs ! j) + (byte_pos (message_at s1 m) + j)"
    "byte_pos (message_at s' m) = byte_pos (message_at s1 m) + length vs"
    using Cons.IH [OF s1(2), of "Suc k"] h(2) s1(3,4) Cons.prems(3) by auto
  have "[k..<k + length (v # vs)] = k # [Suc k..<Suc k + length vs]" by (subst upt_rec) simp
  then have "steps (map (read_pointer bs q m) [k..<k + length (v # vs)]) s = Returns s'" using s1(1) s'(1) by simp
  moreover have "ptr_position (pointer (message_at s' m) ! (k + j)) = unat ((v # vs) ! j) + (?p + j)" if "j < length (v # vs)" for j
  proof (cases j)
    case 0
    then show ?thesis using s'(4) s1(3) Cons.prems(3) by simp
  next
    case (Suc i)
    then show ?thesis using s'(5) s1(4) that by simp
  qed
  ultimately show ?case using s' s1(3,4) by (intro exI [of _ s']) simp
qed

subsection \<open>Variable parts\<close>

lemma variable_part_ok:
  assumes "decoding b bs m mt ((pt, w) # items) parts opts s" "canonical_octets pt w" "length w < 256"
    "holds_at bs (q + pointer_position m i s) (var_part w)" "pt \<notin> fst ` set parts"
  shows "\<exists>s'. variable_part bs b q m pt 1 i s = Returns s' \<and> decoding b bs m mt items (parts @ [(pt, w)]) opts s' \<and>
    pointer (message_at s' m) = pointer (message_at s m)"
proof -
  have h: "byte_at bs (q + pointer_position m i s) = Returns (of_nat (length w))" "holds_at bs (q + pointer_position m i s + 1) w"
    using assms(4) by (simp_all add: var_part_def holds_at_Cons)
  have "int (unat (of_nat (length w) AND 0xff :: u8)) = int (length w)"
    unfolding octet_all using assms(3) by (simp add: unat_of_nat take_bit_nat_eq_self)
  then show ?thesis
    unfolding variable_part_def h(1) and_then.simps using read_part_ok [OF assms(1,2) h(2) assms(5)] by auto
qed

definition variable_parts :: "u8 list \<Rightarrow> nat \<Rightarrow> nat \<Rightarrow> nat \<Rightarrow> nat \<Rightarrow> SCCPParameterType list \<Rightarrow> (sccp_state \<Rightarrow> sccp_state outcome) list" where
  "variable_parts bs b q m k pts = map (\<lambda>(i, pt). variable_part bs b q m pt 1 i) (List.enumerate k pts)"

lemma variable_parts_ok:
  assumes "list_all2 (\<lambda>pt w. canonical_octets pt w \<and> length w < 256) pts ws"
    "decoding b bs m mt (zip pts ws @ items) parts opts s" "pointer (message_at s m) = ps"
    "\<And>j. j < length ws \<Longrightarrow> holds_at bs (q + ptr_position (ps ! (k + j))) (var_part (ws ! j))"
    "distinct pts" "set pts \<inter> fst ` set parts = {}"
  shows "\<exists>s'. steps (variable_parts bs b q m k pts) s = Returns s' \<and> decoding b bs m mt items (parts @ zip pts ws) opts s' \<and>
    pointer (message_at s' m) = ps"
  using assms
proof (induction arbitrary: s parts k)
  case Nil
  then show ?case by (simp add: variable_parts_def)
next
  case (Cons pt pts w ws)
  have d: "decoding b bs m mt ((pt, w) # zip pts ws @ items) parts opts s" using Cons.prems(1) by simp
  have h: "holds_at bs (q + pointer_position m k s) (var_part w)"
    using Cons.prems(3) [of 0] Cons.prems(2) by (simp add: pointer_position_def)
  have h': "holds_at bs (q + ptr_position (ps ! (Suc k + j))) (var_part (ws ! j))" if "j < length ws" for j
    using Cons.prems(3) [of "Suc j"] that by simp
  obtain s1 where s1: "variable_part bs b q m pt 1 k s = Returns s1"
    "decoding b bs m mt (zip pts ws @ items) (parts @ [(pt, w)]) opts s1" "pointer (message_at s1 m) = ps"
    using variable_part_ok [OF d _ _ h] Cons.hyps(1) Cons.prems(2,5) by auto
  have "\<exists>s'. steps (variable_parts bs b q m (Suc k) pts) s1 = Returns s' \<and>
      decoding b bs m mt items ((parts @ [(pt, w)]) @ zip pts ws) opts s' \<and> pointer (message_at s' m) = ps"
    using Cons.prems(4,5) h' by (intro Cons.IH s1(2,3)) auto
  then show ?case using s1(1) by (simp add: variable_parts_def)
qed

lemma pass_parts_ok:
  assumes "decoding b bs m mt items parts opts s" "pointer (message_at s m) = ps"
    "\<And>i. i \<in> set is \<Longrightarrow> q + ptr_position (ps ! i) < length bs"
  shows "\<exists>s'. steps (map (pass_part bs q m extra) is) s = Returns s' \<and> decoding b bs m mt items parts opts s' \<and>
    pointer (message_at s' m) = ps"
  using assms
proof (induction "is" arbitrary: s)
  case Nil
  then show ?case by simp
next
  case (Cons i "is")
  let ?n = "unat (bs ! (q + ptr_position (ps ! i)) AND 0xff) + extra"
  obtain s1 where s1: "skip_octets m ?n s = Returns s1" "decoding b bs m mt items parts opts s1" "pointer (message_at s1 m) = ps"
    using advance_ok [OF Cons.prems(1), of ?n] Cons.prems(2) by auto
  have "pass_part bs q m extra i s = Returns s1"
    using Cons.prems(2,3) s1(1) by (simp add: pass_part_def pointer_position_def)
  then show ?case using Cons.IH [OF s1(2,3)] Cons.prems(3) by simp
qed

subsection \<open>Optional parts\<close>

lemma spt_of_value: "spt_of (spt_value pt) = Some pt"
  by (cases pt) (simp_all add: spt_of_def sccp_parameter_types_def)

lemma within_nothing: "disjoint_rings U \<Longrightarrow> within U (count_list []) G"
  by (simp add: within_def)

lemma decoding_done:
  assumes "decoding b bs m mt items parts opts s" "sccp_pools_ok s'" "mem s' = mem s" "message_at s' = message_at s"
    "param_at s' = param_at s" "gt_at s' = gt_at s"
  shows "decoding b bs m mt [] parts opts s'"
proof -
  obtain G H where gh: "holds_items b m G H parts opts s" using assms(1) by (auto simp: decoding_def)
  have "standing b G H s' pt w a = standing b G H s pt w a" for pt w a
    using param_content_store [OF assms(3,6)] assms(5) by (simp add: standing_def carries_def)
  then have "holds_items b m G H parts opts s'" using gh assms(4) by (simp add: holds_items_def)
  then show ?thesis
    using assms sccp_rings_disjoint [OF assms(2)] within_nothing [of "param_rings s'"] within_nothing [of "title_rings s'"]
    by (auto simp: decoding_def)
qed

lemma process_optional_end:
  assumes "decoding b bs m mt items parts opts s" "byte_at bs i = Returns (spt_value END_OF_OPTIONAL_PARAMETERS)"
  shows "\<exists>s'. process_optional bs b m i s = Returns s' \<and> decoding b bs m mt [] parts opts s'"
proof -
  let ?pt = END_OF_OPTIONAL_PARAMETERS
  have ok: "sccp_pools_ok s" using assms(1) by (simp add: decoding_def)
  obtain s' where s': "sccp_request_param ?pt s = Returns (Some (hd (param_rings s ?pt)), s')" "sccp_pools_ok s'"
    "mem s' = mem s" "param_at s' = param_at s" "gt_at s' = gt_at s" "message_at s' = message_at s" using sccp_request_param_ok [OF ok] by blast
  have "hd (param_rings s ?pt) \<in> set (param_rings s ?pt)" using filled_ring [OF sccp_pools_okD(1) [OF ok]] by simp
  then have "param_type (param_at s (hd (param_rings s ?pt))) = ?pt" using sccp_pools_okD(4) [OF ok] by (simp add: well_made_def)
  then have "process_optional bs b m i s = Returns s'" using s' spt_of_value [of ?pt] assms(2) by (subst process_optional.simps) simp
  then show ?thesis using decoding_done [OF assms(1) s'(2,3,6,4,5)] by blast
qed

lemma process_optional_ok:
  assumes "decoding b bs m mt opts parts seen s" "\<forall>(pt, w) \<in> set opts. canonical_octets pt w \<and> length w < 256"
    "holds_at bs i (concat (map opt_part opts) @ [spt_value END_OF_OPTIONAL_PARAMETERS])"
  shows "\<exists>s'. process_optional bs b m i s = Returns s' \<and> decoding b bs m mt [] parts (seen @ opts) s'"
  using assms
proof (induction opts arbitrary: i s seen)
  case Nil
  then show ?case using process_optional_end by (simp add: holds_at_Cons)
next
  case (Cons x opts)
  obtain pt w where x: "x = (pt, w)" by (cases x)
  have c: "canonical_octets pt w" "length w < 256" using Cons.prems(2) x by auto
  then have "pt \<noteq> END_OF_OPTIONAL_PARAMETERS" by auto
  have h: "byte_at bs i = Returns (spt_value pt)" "byte_at bs (i + 1) = Returns (of_nat (length w))" "holds_at bs (i + 2) w"
    "holds_at bs (i + 2 + length w) (concat (map opt_part opts) @ [spt_value END_OF_OPTIONAL_PARAMETERS])"
    using Cons.prems(3) x by (simp_all add: opt_part_def var_part_def holds_at_append holds_at_Cons)
  have l: "unat (of_nat (length w) :: u8) = length w" using c(2) by (simp add: unat_of_nat take_bit_nat_eq_self)
  have l2: "uint (of_nat (length w) :: u8) = int (length w)" unfolding uint_nat l ..
  obtain G H where gh: "within (param_rings s) (count_list (pt # map fst opts)) G"
    "within (title_rings s) (count_list (title_of (pt, w) @ concat (map title_of opts))) H" "holds_items b m G H parts seen s"
    using Cons.prems(1) x by (auto simp: decoding_def)
  have d: "sccp_pools_ok s" "mem s b = bs" "message_type (message_at s m) = mt" "length (pointer (message_at s m)) = pointer_count mt"
    using Cons.prems(1) by (simp_all add: decoding_def)
  obtain a s1 s2 H' where t: "sccp_request_param pt s = Returns (Some a, s1)" "param_type (param_at s1 a) = pt"
    "sccp_param_init bs (b, i + 2) (int (length w)) a (update_message m id (set_param a ((param_at s1 a)\<lparr>param_byte_pos := 0\<rparr>) s1)) = Returns s2"
    "message_at s2 = (message_at s)(m := id (message_at s m))" "drawn s s2 a G H H' (map fst opts) (concat (map title_of opts))"
    "standing b (insert a G) H' s2 pt w a"
    using take_ok [OF d(1,2) c(1) h(3) gh(1,2), of id m] by auto
  let ?f = "\<lambda>y. y\<lparr>optional_params := optional_params y @ [a]\<rparr>"
  let ?s = "update_message m ?f s2"
  have m: "message_at s2 = message_at s" using t(4) by simp
  have same: "standing b (insert a G) H' ?s pt w a' = standing b (insert a G) H' s2 pt w a'" for pt w a'
    using param_content_store [of ?s s2] by (auto simp: standing_def carries_def update_message_def set_message_def)
  have "holds_items b m (insert a G) H' parts seen s2" using m by (intro holds_items_taken [OF gh(3) t(5)]) simp_all
  then have "holds_items b m (insert a G) H' parts (seen @ [(pt, w)]) ?s"
    unfolding holds_items_def same using t(6) by (auto simp: update_message_def set_message_def intro!: list_all2_appendI)
  moreover have "sccp_pools_ok ?s" using t(5) by (intro pools_update_message) (simp_all add: drawn_def)
  ultimately have dec: "decoding b bs m mt opts parts (seen @ [(pt, w)]) ?s"
    using d t(5) m unfolding decoding_def drawn_def by (auto simp: update_message_def set_message_def)
  have upd: "update_message m id s3 = s3" for s3 by (simp add: update_message_def set_message_def)
  have "process_optional bs b m i s = process_optional bs b m (i + 2 + length w) ?s"
    using h(1,2) t(1-3) spt_of_value [of pt] \<open>pt \<noteq> END_OF_OPTIONAL_PARAMETERS\<close> l l2
    by (subst process_optional.simps) (simp add: upd)
  moreover have "\<exists>s'. process_optional bs b m (i + 2 + length w) ?s = Returns s' \<and>
      decoding b bs m mt [] parts ((seen @ [(pt, w)]) @ opts) s'"
    using Cons.prems(2) h(4) by (intro Cons.IH dec) auto
  ultimately show ?case using x by simp
qed

lemma optional_part_ok:
  assumes "decoding b bs m mt opts parts [] s" "\<forall>(pt, w) \<in> set opts. canonical_octets pt w \<and> length w < 256"
    "if opts = [] then byte_at bs (q + pointer_position m i s) = Returns 0 else holds_at bs (q + pointer_position m i s) (opt_parts opts)"
  shows "\<exists>s'. optional_part bs b q data_length m i s = Returns s' \<and> decoding b bs m mt [] parts opts s'"
proof (cases opts)
  case Nil
  then show ?thesis using assms(1,3) by (simp add: optional_part_def process_optional_params_def)
next
  case (Cons x xs)
  obtain pt w where x: "x = (pt, w)" by (cases x)
  have h: "holds_at bs (q + pointer_position m i s) (concat (map opt_part opts) @ [spt_value END_OF_OPTIONAL_PARAMETERS])"
    using assms(3) Cons by (simp add: opt_parts_def)
  then have v: "byte_at bs (q + pointer_position m i s) = Returns (spt_value pt)" using Cons x by (simp add: opt_part_def holds_at_Cons)
  have "spt_value pt \<noteq> 0" using assms(2) Cons x by (cases pt) simp_all
  then show ?thesis
    using process_optional_ok [OF assms(1,2) h] v by (simp add: optional_part_def process_optional_params_def)
qed

end
