(* ===== verification/Sccp_Roundtrip.thy ===== *)
theory Sccp_Roundtrip
  imports Sccp_Messages
begin

text \<open>
  \<open>decode\<close> on the octets of a whole message, and with \<open>encode\<close>: what is sent is received.
\<close>

section \<open>\<open>init\<close> of the classes\<close>

text \<open>
  The classes whose \<open>init\<close> reads the format of \<^theory_text>\<open>message_octets\<close>: not AK, ERR and the long ones.
  \<open>init\<close> of RSR reads the pointer to the optional parameters and does not follow it.
\<close>

definition decoded_message :: "SCCPMessageType \<Rightarrow> bool" where
  "decoded_message mt \<longleftrightarrow>
     mt \<notin> {AK_DATA_ACKNOWLEDGEMENT, ERR_PROTOCOL_DATA_UNIT_ERROR, LUDT_LONG_UNIDATA, LUDTS_LONG_UNIDATA_SERVICE}"

definition reads_optional :: "SCCPMessageType \<Rightarrow> bool" where
  "reads_optional mt \<longleftrightarrow> has_optional mt \<and> mt \<noteq> RSR_RESET_REQUEST"

definition passed_parts :: "SCCPMessageType \<Rightarrow> nat list" where
  "passed_parts mt =
     (if mt = CR_CONNECTION_REQUEST then [0]
      else if mt \<in> {XUDT_EXTENDED_UNITDATA, XUDTS_EXTENDED_UNIDATA_SERVICE} then [0, 1, 2] else [])"

definition passed_extra :: "SCCPMessageType \<Rightarrow> nat" where
  "passed_extra mt = (if mt = CR_CONNECTION_REQUEST then 1 else 2)"

definition init_fixed :: "u8 list \<Rightarrow> nat \<Rightarrow> nat \<Rightarrow> nat \<Rightarrow> SCCPParameterType list \<Rightarrow> (sccp_state \<Rightarrow> sccp_state outcome) list" where
  "init_fixed bs b q m pts = map (\<lambda>pt. fixed_part bs b q m pt pt (part_size pt)) pts"

definition init_tail :: "SCCPMessageType \<Rightarrow> u8 list \<Rightarrow> nat \<Rightarrow> nat \<Rightarrow> int \<Rightarrow> nat \<Rightarrow> (sccp_state \<Rightarrow> sccp_state outcome) list" where
  "init_tail mt bs b q data_length m =
     variable_parts bs b q m 0 (var_slots mt) @ map (pass_part bs q m (passed_extra mt)) (passed_parts mt) @
     (if reads_optional mt then [optional_part bs b q data_length m (pointer_count mt - 1)] else [])"

lemmas message_inits =
  XUDTS_ExtendedUnitdataService_init_def XUDT_ExtendedUnitdata_init_def UDTS_UnitDataService_init_def UDT_UnitData_init_def
  RSR_ResetRequest_init_def RSC_ResetConfirmation_init_def RLSD_Released_init_def RLC_ReleaseComplete_init_def
  LUDTS_LongUnitdataService_init_def LUDT_LongUnitdata_init_def IT_InactivityTest_init_def ERR_PduError_init_def
  ED_ExpeditedData_init_def EA_ExpeditedDataAck_init_def DT2_DataForm2_init_def DT1_DataForm1_init_def
  CREF_ConnectionRefused_init_def CR_ConnectionRequest_init_def CC_ConnectionConfirm_init_def AK_DataAcknowledgement_init_def

lemma message_init_shape:
  "decoded_message mt \<Longrightarrow> mt \<noteq> IT_INACTIVITY_TEST \<Longrightarrow>
    message_init mt bs b q data_length m =
      steps ([skip_octets m 1] @ init_fixed bs b q m (fixed_slots mt) @
        map (read_pointer bs q m) [0..<0 + pointer_count mt] @ init_tail mt bs b q data_length m)"
  "message_init IT_INACTIVITY_TEST bs b q data_length m =
     steps ([skip_octets m 1] @ init_fixed bs b q m (butlast (fixed_slots IT_INACTIVITY_TEST)) @ [last_fixed_part bs b q m CREDIT CREDIT 1])"
  by (cases mt; simp add: decoded_message_def init_fixed_def init_tail_def part_size_def variable_parts_def passed_extra_def
      passed_parts_def reads_optional_def has_optional_def upt_rec numeral_eq_Suc message_inits)
    (simp add: message_inits init_fixed_def part_size_def)

lemma message_layout:
  "decoded_message mt \<Longrightarrow> pointer_count mt = length (var_slots mt) + (if has_optional mt then 1 else 0)"
  "distinct (fixed_slots mt)" "distinct (var_slots mt)" "set (fixed_slots mt) \<inter> set (var_slots mt) = {}" "length (var_slots mt) \<le> 3"
  "i \<in> set (passed_parts mt) \<Longrightarrow> i < length (var_slots mt)"
  by (cases mt; simp add: decoded_message_def has_optional_def passed_parts_def; fail)+
    (cases mt; auto simp: passed_parts_def)

section \<open>A whole message\<close>

text \<open>Parameters that are recovered, with lengths and pointers that fit into octets.\<close>

definition well_sized :: "SCCPMessageType \<Rightarrow> u8 list list \<Rightarrow> u8 list list \<Rightarrow> item list \<Rightarrow> bool" where
  "well_sized mt fs vs opts \<longleftrightarrow>
     decoded_message mt \<and> list_all2 canonical_octets (fixed_slots mt) fs \<and> list_all2 canonical_octets (var_slots mt) vs \<and>
     (\<forall>w \<in> set vs. length w < 256) \<and> (\<forall>(pt, w) \<in> set opts. canonical_octets pt w \<and> length w < 256) \<and>
     parts_length (butlast vs) < 252 \<and> (opts \<noteq> [] \<longrightarrow> reads_optional mt \<and> parts_length vs < 255)"

definition message_items :: "SCCPMessageType \<Rightarrow> u8 list list \<Rightarrow> u8 list list \<Rightarrow> item list \<Rightarrow> item list" where
  "message_items mt fs vs opts = zip (fixed_slots mt) fs @ zip (var_slots mt) vs @ opts"

lemma fixed_sizes: "pt \<in> set (fixed_slots mt) \<Longrightarrow> canonical_octets pt w \<Longrightarrow> length w = part_size pt"
  by (cases mt) (auto simp: part_size_def)

lemma length_var_pointers [simp]: "length (var_pointers n vs) = length vs"
  by (induction vs arbitrary: n) auto

lemma var_pointers_nth:
  "j < length vs \<Longrightarrow> var_pointers n vs ! j = of_nat (n + parts_length (take j vs) - j)"
proof (induction vs arbitrary: n j)
  case (Cons w vs)
  show ?case
  proof (cases j)
    case (Suc i)
    have "i \<le> parts_length (take i vs)" if "i < length vs" for i and vs :: "u8 list list"
      using that by (induction vs arbitrary: i) (auto simp: parts_length_def take_Cons split: nat.splits intro: trans_le_add2)
    then have "i \<le> parts_length (take i vs)" using Cons.prems Suc by simp
    then show ?thesis using Cons.IH [of i "n + length w"] Cons.prems Suc by (simp add: parts_length_def)
  qed (simp add: parts_length_def)
qed simp

lemma holds_at_parts:
  assumes "holds_at bs i (concat (map var_part vs))" "j < length vs"
  shows "holds_at bs (i + parts_length (take j vs)) (var_part (vs ! j))"
proof -
  have "vs = take j vs @ vs ! j # drop (Suc j) vs" using assms(2) by (rule id_take_nth_drop)
  then have "concat (map var_part vs) = concat (map var_part (take j vs)) @ var_part (vs ! j) @ concat (map var_part (drop (Suc j) vs))"
    by (metis concat.simps(2) concat_append list.simps(9) map_append)
  then show ?thesis using assms(1) by (simp add: holds_at_append parts_length_def)
qed

lemma parts_length_take: "j < length vs \<Longrightarrow> parts_length (take j vs) \<le> parts_length (butlast vs)"
proof -
  assume "j < length vs"
  then have "take j vs = take j (butlast vs)" by (simp add: take_butlast)
  moreover have "parts_length (take j vs') \<le> parts_length vs'" for vs'
    by (metis append_take_drop_id concat_append le_add1 length_append map_append parts_length_def)
  ultimately show ?thesis by metis
qed

lemma octet_of_nat: "n < 256 \<Longrightarrow> unat (of_nat n :: u8) = n"
  by (simp add: unat_of_nat take_bit_nat_eq_self)

text \<open>What the pointers point to, once they are read; \<open>p\<close> is the one to the optional part.\<close>

lemma pointed:
  assumes m: "well_sized mt fs vs opts"
    and ptrs: "ptrs = (if has_optional mt then var_pointers (length vs + 1) vs @ [p] else var_pointers (length vs) vs)"
    and at: "holds_at bs (q + k) (ptrs @ concat (map var_part vs))"
    and pos: "\<forall>j. j < length ptrs \<longrightarrow> ptr_position (ps ! j) = unat (ptrs ! j) + (k + j)"
  shows "length ptrs = pointer_count mt"
    "j < length vs \<Longrightarrow> holds_at bs (q + ptr_position (ps ! j)) (var_part (vs ! j))"
    "has_optional mt \<Longrightarrow> ptr_position (ps ! (pointer_count mt - 1)) = k + length vs + unat p"
proof -
  have mt: "decoded_message mt" "list_all2 canonical_octets (var_slots mt) vs" using m by (simp_all add: well_sized_def)
  have vs: "length vs = length (var_slots mt)" using mt(2) by (simp add: list_all2_lengthD)
  let ?n = "pointer_count mt"
  have n: "?n = length vs + (if has_optional mt then 1 else 0)" using message_layout(1) [OF mt(1)] vs by simp
  show l: "length ptrs = ?n" using ptrs n by simp
  have at': "holds_at bs (q + k + ?n) (concat (map var_part vs))" using at l by (simp add: holds_at_append)
  show "holds_at bs (q + ptr_position (ps ! j)) (var_part (vs ! j))" if j: "j < length vs" for j
  proof -
    let ?L = "parts_length (take j vs)"
    have "ptrs ! j = of_nat (?n + ?L - j)"
      using ptrs n j by (cases "has_optional mt") (simp_all add: nth_append var_pointers_nth)
    moreover have "?n + ?L < 256"
      using parts_length_take [OF j] m n vs message_layout(5) [of mt] by (auto simp: well_sized_def split: if_splits)
    ultimately have "unat (ptrs ! j) = ?n + ?L - j" using octet_of_nat by (metis diff_le_self le_less_trans)
    moreover have "j \<le> ?n" "j < length ptrs" using n j l by simp_all
    ultimately have "ptr_position (ps ! j) = ?n + ?L + k" using pos by simp
    then show ?thesis using holds_at_parts [OF at' j] by (simp add: ac_simps)
  qed
  show "ptr_position (ps ! (?n - 1)) = k + length vs + unat p" if "has_optional mt"
  proof -
    have "?n - 1 = length vs" "ptrs ! (?n - 1) = p" using n ptrs that by (simp_all add: nth_append)
    then show ?thesis using pos l n that by simp
  qed
qed

text \<open>What \<open>init\<close> sees of an optional part at \<open>i\<close>.\<close>

definition finds_optional :: "u8 list \<Rightarrow> nat \<Rightarrow> item list \<Rightarrow> bool" where
  "finds_optional bs i opts \<longleftrightarrow> (if opts = [] then byte_at bs i = Returns 0 else holds_at bs i (opt_parts opts))"

lemma init_tail_ok:
  assumes m: "well_sized mt fs vs opts" and d: "decoding b bs m mt (zip (var_slots mt) vs @ opts) (zip (fixed_slots mt) fs) [] s"
    and ps: "pointer (message_at s m) = ps" "\<And>j. j < length vs \<Longrightarrow> holds_at bs (q + ptr_position (ps ! j)) (var_part (vs ! j))"
      "reads_optional mt \<Longrightarrow> finds_optional bs (q + ptr_position (ps ! (pointer_count mt - 1))) opts"
  shows "\<exists>s'. steps (init_tail mt bs b q data_length m) s = Returns s' \<and>
    decoding b bs m mt [] (zip (fixed_slots mt) fs @ zip (var_slots mt) vs) opts s'"
proof -
  have vs: "list_all2 (\<lambda>pt w. canonical_octets pt w \<and> length w < 256) (var_slots mt) vs"
    using m by (auto simp: well_sized_def list_all2_conv_all_nth)
  have dis: "set (var_slots mt) \<inter> fst ` set (zip (fixed_slots mt) fs) = {}"
    using message_layout(4) [of mt] by (auto dest!: set_zip_leftD)
  obtain s1 where s1: "steps (variable_parts bs b q m 0 (var_slots mt)) s = Returns s1"
    "decoding b bs m mt opts (zip (fixed_slots mt) fs @ zip (var_slots mt) vs) [] s1" "pointer (message_at s1 m) = ps"
    using variable_parts_ok [OF vs d ps(1), of q 0] ps(2) dis message_layout(3) by auto
  have "q + ptr_position (ps ! i) < length bs" if "i \<in> set (passed_parts mt)" for i
    using ps(2) [of i] message_layout(6) [OF that] list_all2_lengthD [OF vs] by (simp add: holds_at_def)
  then obtain s2 where s2: "steps (map (pass_part bs q m (passed_extra mt)) (passed_parts mt)) s1 = Returns s2"
    "decoding b bs m mt opts (zip (fixed_slots mt) fs @ zip (var_slots mt) vs) [] s2" "pointer (message_at s2 m) = ps"
    using pass_parts_ok [OF s1(2,3)] by blast
  show ?thesis
  proof (cases "reads_optional mt")
    case True
    have c: "\<forall>(pt, w) \<in> set opts. canonical_octets pt w \<and> length w < 256" using m by (simp add: well_sized_def)
    have "if opts = [] then byte_at bs (q + pointer_position m (pointer_count mt - 1) s2) = Returns 0
        else holds_at bs (q + pointer_position m (pointer_count mt - 1) s2) (opt_parts opts)"
      unfolding pointer_position_def s2(3) using ps(3) [OF True] unfolding finds_optional_def .
    then obtain s3 where "optional_part bs b q data_length m (pointer_count mt - 1) s2 = Returns s3"
      "decoding b bs m mt [] (zip (fixed_slots mt) fs @ zip (var_slots mt) vs) opts s3"
      using optional_part_ok [OF s2(2) c] by blast
    then show ?thesis using True s1(1) s2(1) by (simp add: init_tail_def steps_append)
  next
    case False
    then have "opts = []" using m by (auto simp: well_sized_def)
    then show ?thesis using False s1(1) s2(1,2) by (simp add: init_tail_def steps_append)
  qed
qed

text \<open>The pointer \<open>p\<close> leads to the optional parameters \<open>opts\<close>, whatever was sent.\<close>

lemma message_init_ok:
  assumes m: "well_sized mt fs vs opts" and at: "holds_at bs q (message_with p mt fs vs sent)"
    and opt: "reads_optional mt \<Longrightarrow> finds_optional bs (q + (1 + length (concat fs) + length vs + unat p)) opts"
    and d: "decoding b bs m mt (message_items mt fs vs opts) [] [] s" "byte_pos (message_at s m) = 0"
  shows "\<exists>s'. message_init mt bs b q data_length m s = Returns s' \<and>
    decoding b bs m mt [] (zip (fixed_slots mt) fs @ zip (var_slots mt) vs) opts s'"
proof -
  define ptrs where "ptrs = (if has_optional mt then var_pointers (length vs + 1) vs @ [p] else var_pointers (length vs) vs)"
  have mt: "decoded_message mt" "list_all2 canonical_octets (fixed_slots mt) fs" using m by (simp_all add: well_sized_def)
  have fs: "list_all2 (\<lambda>pt w. canonical_octets pt w \<and> length w = part_size pt) (fixed_slots mt) fs"
    using mt(2) fixed_sizes [OF nth_mem] by (auto simp: list_all2_conv_all_nth)
  have h: "holds_at bs (q + 1) (concat fs)" "holds_at bs (q + (1 + length (concat fs))) (ptrs @ concat (map var_part vs))"
    using at by (simp_all add: message_with_def holds_at_Cons holds_at_append ptrs_def split: if_splits)
  obtain s1 where s1: "skip_octets m 1 s = Returns s1" "decoding b bs m mt (message_items mt fs vs opts) [] [] s1" "byte_pos (message_at s1 m) = 1"
    using advance_ok [OF d(1), of 1] d(2) by auto
  show ?thesis
  proof (cases "mt = IT_INACTIVITY_TEST")
    case False
    have d1: "decoding b bs m mt (zip (fixed_slots mt) fs @ zip (var_slots mt) vs @ opts) [] [] s1"
      using s1(2) by (simp add: message_items_def)
    obtain s2 where s2: "steps (init_fixed bs b q m (fixed_slots mt)) s1 = Returns s2"
      "decoding b bs m mt (zip (var_slots mt) vs @ opts) (zip (fixed_slots mt) fs) [] s2"
      "byte_pos (message_at s2 m) = 1 + length (concat fs)"
      using fixed_parts_ok [OF fs d1, of q] h(1) s1(3) message_layout(2) unfolding init_fixed_def by auto
    have h2: "holds_at bs (q + byte_pos (message_at s2 m)) ptrs" using h(2) s2(3) by (simp add: holds_at_append)
    have l: "length ptrs = pointer_count mt"
      using ptrs_def message_layout(1) [OF mt(1)] m list_all2_lengthD [of canonical_octets "var_slots mt" vs] by (simp add: well_sized_def)
    then have "0 + length ptrs \<le> length (pointer (message_at s2 m))" using s2(2) by (simp add: decoding_def)
    from read_pointers_ok [OF s2(2) h2 this] obtain s3 where s3: "steps (map (read_pointer bs q m) [0..<0 + pointer_count mt]) s2 = Returns s3"
      "decoding b bs m mt (zip (var_slots mt) vs @ opts) (zip (fixed_slots mt) fs) [] s3"
      "\<forall>j. j < length ptrs \<longrightarrow> ptr_position (pointer (message_at s3 m) ! j) = unat (ptrs ! j) + ((1 + length (concat fs)) + j)"
      using s2(3) unfolding l by auto
    note p = pointed [OF m ptrs_def h(2) s3(3)]
    have "finds_optional bs (q + ptr_position (pointer (message_at s3 m) ! (pointer_count mt - 1))) opts" if "reads_optional mt"
      using opt [OF that] p(3) that by (simp add: reads_optional_def)
    then obtain s4 where "steps (init_tail mt bs b q data_length m) s3 = Returns s4"
      "decoding b bs m mt [] (zip (fixed_slots mt) fs @ zip (var_slots mt) vs) opts s4"
      using init_tail_ok [OF m s3(2) refl p(2)] by blast
    then show ?thesis
      unfolding message_init_shape(1) [OF mt(1) False] steps_append using s1(1) s2(1) s3(1) by simp
  next
    case True
    let ?slots = "butlast (fixed_slots mt)"
    have "vs = []" "opts = []" using True m by (simp_all add: well_sized_def reads_optional_def has_optional_def)
    obtain gs w where g: "fs = gs @ [w]" "list_all2 (\<lambda>pt w. canonical_octets pt w \<and> length w = part_size pt) ?slots gs"
      "canonical_octets CREDIT w" "length w = 1"
      using fs True by (auto simp: list_all2_Cons1 part_size_def)
    have l: "length ?slots = length gs" "fixed_slots mt = ?slots @ [CREDIT]" using list_all2_lengthD [OF g(2)] True by simp_all
    then have z: "zip (fixed_slots mt) fs = zip ?slots gs @ [(CREDIT, w)]" using g(1) by (metis zip_append zip_Cons_Cons zip_Nil)
    have d1: "decoding b bs m mt (zip ?slots gs @ [(CREDIT, w)]) [] [] s1"
      using s1(2) z \<open>vs = []\<close> \<open>opts = []\<close> by (simp add: message_items_def)
    have h1: "holds_at bs (q + 1) (concat gs)" "holds_at bs (q + (1 + length (concat gs))) w" using h(1) g(1) by (simp_all add: holds_at_append)
    obtain s2 where s2: "steps (init_fixed bs b q m ?slots) s1 = Returns s2"
      "decoding b bs m mt [(CREDIT, w)] (zip ?slots gs) [] s2" "byte_pos (message_at s2 m) = 1 + length (concat gs)"
      using fixed_parts_ok [OF g(2) d1, of q] h1(1) s1(3) True unfolding init_fixed_def by auto
    have "CREDIT \<notin> fst ` set (zip ?slots gs)" using True by (auto dest!: set_zip_leftD)
    then obtain s3 where "read_part bs b m CREDIT CREDIT (q + (1 + length (concat gs))) 1 s2 = Returns s3"
      "decoding b bs m mt [] (zip ?slots gs @ [(CREDIT, w)]) [] s3"
      using read_part_ok [OF s2(2) g(3) h1(2)] g(4) by auto
    then show ?thesis
      using s1(1) s2(1,3) \<open>vs = []\<close> \<open>opts = []\<close>
      unfolding z unfolding True message_init_shape(2) steps_append by (simp add: last_fixed_part_def)
  qed
qed

text \<open>The optional part of a message that was sent right.\<close>

lemma finds_sent:
  assumes "well_sized mt fs vs opts" "holds_at bs q (message_octets mt fs vs opts)" "reads_optional mt"
  shows "finds_optional bs (q + (1 + length (concat fs) + length vs + unat (optional_pointer vs opts))) opts"
proof -
  have o: "has_optional mt" using assms(3) by (simp add: reads_optional_def)
  have at: "byte_at bs (q + (1 + length (concat fs) + length vs)) = Returns (optional_pointer vs opts)"
    "holds_at bs (q + (1 + length (concat fs) + length vs + 1 + parts_length vs)) (opt_parts opts)"
    using assms(2) o by (simp_all add: message_octets_def message_with_def holds_at_Cons holds_at_append parts_length_def ac_simps)
  show ?thesis
  proof (cases "opts = []")
    case True
    then show ?thesis using at(1) by (simp add: finds_optional_def optional_pointer_def)
  next
    case False
    then have "unat (optional_pointer vs opts) = 1 + parts_length vs"
      using assms(1) octet_of_nat [of "1 + parts_length vs"] by (simp add: well_sized_def optional_pointer_def)
    then show ?thesis using False at(2) by (simp add: finds_optional_def ac_simps)
  qed
qed

end
