(* ===== verification/Sccp_Pools.thy ===== *)
theory Sccp_Pools
  imports Sccp_Roundtrip
begin

text \<open>
  The pools \<open>init_pool\<close> makes, \<open>decode\<close> from them, and the way of a message through \<open>encode\<close> and
  \<open>decode\<close>.
\<close>

section \<open>Making the pools\<close>

definition sccp_made :: "SCCPMessageType set \<Rightarrow> SCCPParameterType set \<Rightarrow> GlobalTitleIndicator set \<Rightarrow> sccp_state \<Rightarrow> bool" where
  "sccp_made M P T s \<longleftrightarrow>
     stocked (MESSAGE_POOL s) M (message_count s) (fresh s)
       (\<lambda>a mt. message_type (message_at s a) = mt \<and> length (pointer (message_at s a)) = pointer_count mt) \<and>
     stocked (PARAM_POOL s) P (param_count s) (fresh s) (\<lambda>a pt. well_made pt (param_at s a)) \<and>
     stocked (GT_POOL s) T (param_count s) (fresh s) (\<lambda>a gi. gt_type (gt_at s a) = gi) \<and>
     GT_POOL s GT_NO_TITLE = None"

lemma sccp_madeD:
  assumes "sccp_made M P T s"
  shows "stocked (MESSAGE_POOL s) M (message_count s) (fresh s)
      (\<lambda>a mt. message_type (message_at s a) = mt \<and> length (pointer (message_at s a)) = pointer_count mt)"
    "stocked (PARAM_POOL s) P (param_count s) (fresh s) (\<lambda>a pt. well_made pt (param_at s a))"
    "stocked (GT_POOL s) T (param_count s) (fresh s) (\<lambda>a gi. gt_type (gt_at s a) = gi)" "GT_POOL s GT_NO_TITLE = None"
  using assms by (simp_all add: sccp_made_def)

text \<open>The counts a pool is made with, and the buffers, stay.\<close>

definition same_setup :: "sccp_state \<Rightarrow> sccp_state \<Rightarrow> bool" where
  "same_setup s s' \<longleftrightarrow> message_count s' = message_count s \<and> param_count s' = param_count s \<and> mem s' = mem s"

lemma sccp_init_message_made:
  assumes "0 < message_count s" "sccp_made M P T s"
  shows "\<exists>s'. sccp_init_message mt s = Returns s' \<and> sccp_made (insert mt M) P T s' \<and> same_setup s s'"
proof -
  note m = sccp_madeD [OF assms(2)]
  obtain it where it: "init_item_pool (fresh s) (set_item_pool_size (message_count s) PoolItem_new) = Returns it" "item_ok it"
    "item_pool it = [fresh s..<fresh s + nat (message_count s)]" "total_count it = message_count s"
    using assms(1) by (rule init_item_pool_ok)
  then have new: "set (upcoming it) = {fresh s..<fresh s + nat (message_count s)}"
    "set (item_pool it) = {fresh s..<fresh s + nat (message_count s)}" using upcoming_simps(2) [OF it(2)] by simp_all
  let ?s = "s\<lparr>message_at := (\<lambda>a. if a \<in> set (item_pool it) then create_sccp_message mt else message_at s a),
       fresh := fresh s + length (item_pool it), MESSAGE_POOL := (MESSAGE_POOL s)(mt := Some it)\<rparr>"
  have "stocked ((MESSAGE_POOL s)(mt := Some it)) (insert mt M) (message_count s) (fresh s + nat (message_count s))
      (\<lambda>a mt. message_type (message_at ?s a) = mt \<and> length (pointer (message_at ?s a)) = pointer_count mt)"
    by (rule stocked_insert [OF m(1)]) (simp_all add: it(2-) new ivl_below create_sccp_message_def)
  moreover have "stocked (PARAM_POOL s) P (param_count s) (fresh s + nat (message_count s))
      (\<lambda>a pt. well_made pt (param_at s a))"
    by (rule stocked_frame [OF m(2)]) (simp_all add: it(2-) new ivl_below)
  moreover have "stocked (GT_POOL s) T (param_count s) (fresh s + nat (message_count s))
      (\<lambda>a gi. gt_type (gt_at s a) = gi)"
    by (rule stocked_frame [OF m(3)]) (simp_all add: it(2-) new ivl_below)
  ultimately have "sccp_made (insert mt M) P T ?s" using m(4) it(3) by (simp add: sccp_made_def)
  then show ?thesis using it(1) by (simp add: sccp_init_message_def same_setup_def)
qed

lemma sccp_init_param_made:
  assumes "0 < param_count s" "sccp_made M P T s"
  shows "\<exists>s'. sccp_init_param pt s = Returns s' \<and> sccp_made M (insert pt P) T s' \<and> same_setup s s'"
proof -
  note m = sccp_madeD [OF assms(2)]
  obtain it where it: "init_item_pool (fresh s) (set_item_pool_size (param_count s) PoolItem_new) = Returns it" "item_ok it"
    "item_pool it = [fresh s..<fresh s + nat (param_count s)]" "total_count it = param_count s"
    using assms(1) by (rule init_item_pool_ok)
  then have new: "set (upcoming it) = {fresh s..<fresh s + nat (param_count s)}"
    "set (item_pool it) = {fresh s..<fresh s + nat (param_count s)}" using upcoming_simps(2) [OF it(2)] by simp_all
  let ?s = "s\<lparr>param_at := (\<lambda>a. if a \<in> set (item_pool it) then create_sccp_param pt else param_at s a),
       fresh := fresh s + length (item_pool it), PARAM_POOL := (PARAM_POOL s)(pt := Some it)\<rparr>"
  have new_ok: "well_made pt (create_sccp_param pt)" by (simp add: well_made_def create_sccp_param_def)
  have "stocked (MESSAGE_POOL s) M (message_count s) (fresh s + nat (param_count s))
      (\<lambda>a mt. message_type (message_at s a) = mt \<and> length (pointer (message_at s a)) = pointer_count mt)"
    by (rule stocked_frame [OF m(1)]) (simp_all add: it(2-) new ivl_below)
  moreover have "stocked ((PARAM_POOL s)(pt := Some it)) (insert pt P) (param_count s) (fresh s + nat (param_count s))
      (\<lambda>a pt. well_made pt (param_at ?s a))"
    by (rule stocked_insert [OF m(2)]) (simp_all add: it(2-) new ivl_below new_ok)
  moreover have "stocked (GT_POOL s) T (param_count s) (fresh s + nat (param_count s))
      (\<lambda>a gi. gt_type (gt_at s a) = gi)"
    by (rule stocked_frame [OF m(3)]) (simp_all add: it(2-) new ivl_below)
  ultimately have "sccp_made M (insert pt P) T ?s" using m(4) it(3) by (simp add: sccp_made_def)
  then show ?thesis using it(1) by (simp add: sccp_init_param_def same_setup_def)
qed

lemma init_gt_made:
  assumes "0 < param_count s" "sccp_made M P T s" "gi \<noteq> GT_NO_TITLE"
  shows "\<exists>s'. init_gt gi s = Returns s' \<and> sccp_made M P (insert gi T) s' \<and> same_setup s s'"
proof -
  note m = sccp_madeD [OF assms(2)]
  obtain it where it: "init_item_pool (fresh s) (set_item_pool_size (param_count s) PoolItem_new) = Returns it" "item_ok it"
    "item_pool it = [fresh s..<fresh s + nat (param_count s)]" "total_count it = param_count s"
    using assms(1) by (rule init_item_pool_ok)
  then have new: "set (upcoming it) = {fresh s..<fresh s + nat (param_count s)}"
    "set (item_pool it) = {fresh s..<fresh s + nat (param_count s)}" using upcoming_simps(2) [OF it(2)] by simp_all
  let ?s = "s\<lparr>gt_at := (\<lambda>a. if a \<in> set (item_pool it) then GlobalTitle_new gi else gt_at s a),
       fresh := fresh s + length (item_pool it), GT_POOL := (GT_POOL s)(gi := Some it)\<rparr>"
  have "stocked (MESSAGE_POOL s) M (message_count s) (fresh s + nat (param_count s))
      (\<lambda>a mt. message_type (message_at s a) = mt \<and> length (pointer (message_at s a)) = pointer_count mt)"
    by (rule stocked_frame [OF m(1)]) (simp_all add: it(2-) new ivl_below)
  moreover have "stocked (PARAM_POOL s) P (param_count s) (fresh s + nat (param_count s))
      (\<lambda>a pt. well_made pt (param_at s a))"
    by (rule stocked_frame [OF m(2)]) (simp_all add: it(2-) new ivl_below)
  moreover have "stocked ((GT_POOL s)(gi := Some it)) (insert gi T) (param_count s) (fresh s + nat (param_count s))
      (\<lambda>a gi. gt_type (gt_at ?s a) = gi)"
    by (rule stocked_insert [OF m(3)]) (simp_all add: it(2-) new ivl_below GlobalTitle_new_def)
  ultimately have "sccp_made M P (insert gi T) ?s" using m(4) assms(3) it(3) by (simp add: sccp_made_def)
  then show ?thesis using it(1) by (simp add: init_gt_def same_setup_def)
qed

text \<open>A step per type.\<close>

lemma steps_made:
  assumes "\<And>k s K. k \<in> set ks \<Longrightarrow> 0 < message_count s \<and> 0 < param_count s \<Longrightarrow> made K s \<Longrightarrow>
      \<exists>s'. f k s = Returns s' \<and> made (insert k K) s' \<and> same_setup s s'"
    and "0 < message_count s \<and> 0 < param_count s" "made K s"
  shows "\<exists>s'. steps (map f ks) s = Returns s' \<and> made (set ks \<union> K) s' \<and> same_setup s s'"
  using assms
proof (induction ks arbitrary: s K)
  case Nil
  then show ?case by (simp add: same_setup_def)
next
  case (Cons k ks)
  obtain s1 where s1: "f k s = Returns s1" "made (insert k K) s1" "same_setup s s1"
    using Cons.prems(1) [of k s K] Cons.prems(2,3) by auto
  moreover obtain s' where "steps (map f ks) s1 = Returns s'" "made (set ks \<union> insert k K) s'" "same_setup s1 s'"
    using Cons.IH [of s1 "insert k K"] Cons.prems(1,2) s1(2,3) by (auto simp: same_setup_def)
  ultimately show ?case by (auto simp: same_setup_def)
qed

lemma all_sccp_types:
  "set sccp_message_types = UNIV" "set sccp_parameter_types = UNIV" "set gt_types = UNIV - {GT_NO_TITLE}"
proof -
  show "set sccp_message_types = UNIV" by (intro set_eqI; case_tac x) (simp_all add: sccp_message_types_def)
  show "set sccp_parameter_types = UNIV" by (intro set_eqI; case_tac x) (simp_all add: sccp_parameter_types_def)
  show "set gt_types = UNIV - {GT_NO_TITLE}" by (intro set_eqI; case_tac x) (simp_all add: gt_types_def)
qed

lemma sccp_init_pool_ok:
  assumes "0 < message_count s" "0 < param_count s" "GT_POOL s GT_NO_TITLE = None"
  shows "\<exists>s'. sccp_init_pool s = Returns s' \<and> sccp_pools_ok s' \<and> mem s' = mem s \<and>
    (\<forall>pt. length (param_rings s' pt) = nat (param_count s)) \<and>
    (\<forall>gi. gi \<noteq> GT_NO_TITLE \<longrightarrow> length (title_rings s' gi) = nat (param_count s))"
proof -
  have "sccp_made {} {} {} s" using assms(3) by (simp add: sccp_made_def stocked_def)
  then obtain s1 where s1: "steps (map sccp_init_message sccp_message_types) s = Returns s1"
    "sccp_made (set sccp_message_types \<union> {}) {} {} s1" "same_setup s s1"
    using steps_made [of sccp_message_types "\<lambda>M. sccp_made M {} {}" sccp_init_message s "{}"] sccp_init_message_made assms by blast
  obtain s2 where s2: "steps (map sccp_init_param sccp_parameter_types) s1 = Returns s2"
    "sccp_made UNIV (set sccp_parameter_types \<union> {}) {} s2" "same_setup s1 s2"
    using steps_made [of sccp_parameter_types "\<lambda>P. sccp_made UNIV P {}" sccp_init_param s1 "{}"] sccp_init_param_made assms s1(2,3)
    by (auto simp: same_setup_def all_sccp_types)
  obtain s3 where s3: "steps (map init_gt gt_types) s2 = Returns s3" "sccp_made UNIV UNIV (set gt_types \<union> {}) s3" "same_setup s2 s3"
    using steps_made [of gt_types "\<lambda>T. sccp_made UNIV UNIV T" init_gt s2 "{}"] init_gt_made assms s1(3) s2(2,3)
    by (auto simp: same_setup_def all_sccp_types)
  have run: "sccp_init_pool s = Returns s3" using s1(1) s2(1) s3(1) by (simp add: sccp_init_pool_def steps_append)
  have made: "sccp_made UNIV UNIV (UNIV - {GT_NO_TITLE}) s3" using s3(2) by (simp add: all_sccp_types)
  have "sccp_pools_ok s3"
    using made unfolding sccp_pools_ok_def sccp_made_def stocked_def filled_def ring_of_def
    by (auto split: option.splits) (metis DiffI UNIV_I option.inject option.distinct(1) singletonD)+
  moreover have "length (param_rings s3 pt) = nat (param_count s)" "gi \<noteq> GT_NO_TITLE \<Longrightarrow> length (title_rings s3 gi) = nat (param_count s)" for pt gi
    using made s1(3) s2(3) s3(3) upcoming_simps(3) unfolding sccp_made_def stocked_def same_setup_def ring_of_def
    by (metis UNIV_I option.simps(5), metis DiffI UNIV_I option.simps(5) singletonD)
  ultimately show ?thesis using run s1(3) s2(3) s3(3) by (auto simp: same_setup_def)
qed

end
