(* ===== verification/Sccp_Q713.thy ===== *)
theory Sccp_Q713
  imports Sccp_Encode
begin

text \<open>
  The octets of the parameters of ITU-T Q.713 from their fields, as numbers at bit positions and
  apart from the code that writes them, and that these are what \<open>encode\<close> writes.
\<close>

section \<open>Fields\<close>

text \<open>
  Bits are counted from 0. Some members hold the number of a field, others the field in its place, as the
  enumerators have it: the message handling, the numbering plan, the indicators of an address.
\<close>

definition field :: "nat \<Rightarrow> nat \<Rightarrow> c_int \<Rightarrow> nat option" where
  "field p w v = (if unat v < 2 ^ w then Some (unat v * 2 ^ p) else None)"

definition placed_field :: "nat \<Rightarrow> nat \<Rightarrow> c_int \<Rightarrow> nat option" where
  "placed_field p w v = (if unat v mod 2 ^ p = 0 \<and> unat v < 2 ^ (p + w) then Some (unat v) else None)"

definition flag :: "nat \<Rightarrow> bool \<Rightarrow> nat option" where
  "flag p b = Some (if b then 2 ^ p else 0)"

definition octet :: "nat option list \<Rightarrow> u8 option" where
  "octet fs = map_option (\<lambda>ns. of_nat (sum_list ns)) (those fs)"

text \<open>A local reference has three octets, the highest first; a point code has 14 bits in two, the lowest first.\<close>

definition q713_reference :: "c_int \<Rightarrow> u8 list option" where
  "q713_reference v = (if unat v < 2 ^ 24 then Some [of_nat (unat v div 65536), of_nat (unat v div 256), of_nat (unat v)] else None)"

definition q713_point_code :: "c_int \<Rightarrow> u8 list option" where
  "q713_point_code v = (if unat v < 2 ^ 14 then Some [of_nat (unat v mod 256), of_nat (unat v div 256)] else None)"

section \<open>Parameters\<close>

fun q713_own :: "sccp_members \<Rightarrow> u8 list option" where
  "q713_own (ProtocolClass (Some c) (Some h)) = those [octet [field 0 4 c, placed_field 4 4 h]]"
| "q713_own (Dlr v) = q713_reference v"
| "q713_own (Slr (Some v)) = q713_reference v"
| "q713_own (HopCounter v) = those [octet [field 0 8 v]]"
| "q713_own (Importance v) = those [octet [field 0 3 v]]"
| "q713_own (ReceiveSeqNum v) = those [octet [field 1 7 v]]"
| "q713_own (Credit v) = those [octet [field 0 8 v]]"
| "q713_own (RefusalCause (Some v)) = those [octet [field 0 8 v]]"
| "q713_own (ReleaseCause (Some v)) = those [octet [field 0 8 v]]"
| "q713_own (ResetCause (Some v)) = those [octet [field 0 8 v]]"
| "q713_own (ReturnCause (Some v)) = those [octet [field 0 8 v]]"
| "q713_own (ErrorCause (Some v)) = those [octet [field 0 8 v]]"
| "q713_own (SegmReassm (Some md)) = those [octet [flag 0 md]]"
| "q713_own (SeqSegm (Some sd) (Some rv) (Some md)) = those [octet [field 1 7 sd], octet [field 1 7 rv, flag 0 md]]"
| "q713_own _ = None"

definition q713_title_head :: "GlobalTitle \<Rightarrow> u8 list option" where
  "q713_title_head d =
     (case gt_type d of
        GT_NO_TITLE \<Rightarrow> None
      | GT_NATURE_OF_ADDRESS_INDICATOR_ONLY \<Rightarrow>
          Option.bind (nature_of_address d) (\<lambda>noa. Option.bind (odd_num_of_addr_signals d) (\<lambda>odd.
          those [octet [field 0 7 noa, flag 7 odd]]))
      | GT_TRANSLATION_TYPE_ONLY \<Rightarrow> Option.bind (translation_type d) (\<lambda>tt. those [octet [field 0 8 tt]])
      | GT_TRANSLATION_TYPE_NUMNBERING_PLAN_ENCODING \<Rightarrow>
          Option.bind (translation_type d) (\<lambda>tt. Option.bind (numbering_plan d) (\<lambda>np. Option.bind (encoding_scheme d) (\<lambda>es.
          those [octet [field 0 8 tt], octet [placed_field 4 4 np, field 0 4 es]])))
      | GT_TRANSLATION_TYPE_NUMNBERING_PLAN_ENCODING_NATURE_OF_ADDRESS \<Rightarrow>
          Option.bind (translation_type d) (\<lambda>tt. Option.bind (numbering_plan d) (\<lambda>np. Option.bind (encoding_scheme d) (\<lambda>es.
          Option.bind (nature_of_address d) (\<lambda>noa.
          those [octet [field 0 8 tt], octet [placed_field 4 4 np, field 0 4 es], octet [field 0 7 noa]])))))"

definition q713_title :: "sccp_state \<Rightarrow> nat \<Rightarrow> GlobalTitle \<Rightarrow> u8 list option" where
  "q713_title s b d =
     Option.bind (q713_title_head d) (\<lambda>h. Option.bind (address_information_length d) (\<lambda>n.
     Option.bind (outside s b (Option.bind (address_information d) id) n) (\<lambda>bs. Some (h @ bs))))"

definition q713_address_head :: "party_address \<Rightarrow> u8 list option" where
  "q713_address_head pa =
     Option.bind (routing_indicator pa) (\<lambda>ri. Option.bind (global_title_indicator pa) (\<lambda>gi.
     Option.bind (ssn_indicator pa) (\<lambda>ssn. Option.bind (point_code_indicator pa) (\<lambda>pc.
     Option.bind (those [octet [flag 0 pc, flag 1 ssn, placed_field 2 4 gi, placed_field 6 1 ri]]) (\<lambda>is.
     Option.bind (if pc then Option.bind (point_code pa) q713_point_code else Some []) (\<lambda>cs.
     Option.bind (if ssn then Option.bind (subsystem_number pa) (\<lambda>v. those [octet [field 0 8 v]]) else Some []) (\<lambda>ns.
     Some (is @ cs @ ns))))))))"

text \<open>An address without a title, or with one of the kind its indicator gives.\<close>

definition q713_address :: "sccp_state \<Rightarrow> nat \<Rightarrow> party_address \<Rightarrow> u8 list option" where
  "q713_address s b pa =
     Option.bind (q713_address_head pa) (\<lambda>h.
     if global_title_indicator pa = Some 0 then Some h
     else Option.bind (global_title pa) (\<lambda>g.
          if global_title_indicator pa = Some (gti_value (gt_type (gt_at s g)))
          then Option.bind (q713_title s b (gt_at s g)) (\<lambda>bs. Some (h @ bs)) else None))"

definition q713_content :: "sccp_state \<Rightarrow> nat \<Rightarrow> SCCPParam \<Rightarrow> u8 list option" where
  "q713_content s b p =
     (case members p of
        No_Members \<Rightarrow> outside s b (param_value p) (value_length p)
      | LongData \<Rightarrow> outside s b (param_value p) (value_length p)
      | Segmentation f c r ref n \<Rightarrow>
          Option.bind f (\<lambda>f. Option.bind c (\<lambda>c. Option.bind r (\<lambda>r.
          Option.bind (octet [flag 7 f, field 6 1 c, field 0 4 r]) (\<lambda>v.
          Option.bind (outside s b ref n) (\<lambda>bs. Some (v # bs))))))
      | PartyAddress pa \<Rightarrow> q713_address s b pa
      | ms \<Rightarrow> q713_own ms)"

text \<open>
  Of the point code of an address only the low octet is sent: the parameter as it is sent has the
  high bits of its point code cleared.
\<close>

fun low_code :: "sccp_members \<Rightarrow> sccp_members" where
  "low_code (PartyAddress pa) = PartyAddress (pa\<lparr>point_code := map_option (\<lambda>v. v AND 0xff) (point_code pa)\<rparr>)"
| "low_code ms = ms"

definition q713_sent :: "sccp_state \<Rightarrow> nat \<Rightarrow> SCCPParam \<Rightarrow> u8 list option" where
  "q713_sent s b p = q713_content s b (p\<lparr>members := low_code (members p)\<rparr>)"

section \<open>Octets from fields\<close>

lemma octet_of_unat: "(of_nat (unat v) :: u8) = ucast (v :: c_int)"
  by (rule word_unat_eq_iff [THEN iffD2]) (simp add: unat_of_nat unsigned_ucast_eq take_bit_eq_mod)

lemma ucast_octet_add: "ucast (v + w :: c_int) = (ucast v + ucast w :: u8)"
  by (rule word_unat_eq_iff [THEN iffD2]) (simp add: unat_word_ariths unsigned_ucast_eq take_bit_eq_mod mod_mod_cancel mod_simps)

lemma ucast_octet_shift: "ucast (push_bit n v :: c_int) = (ucast v * 2 ^ n :: u8)"
proof -
  have "ucast (push_bit n v) = push_bit n (ucast v :: u8)" by (rule bit_word_eqI) (auto simp: bit_simps)
  then show ?thesis by (simp add: push_bit_eq_mult)
qed

lemma ucast_octet_double: "ucast (v * 2 :: c_int) = (ucast v * 2 :: u8)"
  using ucast_octet_shift [of 1 v] by (simp add: push_bit_eq_mult)

lemma octet_high_flag: "unat v < 2 ^ 7 \<Longrightarrow> ucast v OR 0x80 = (ucast (v :: c_int) + 0x80 :: u8)"
proof -
  assume "unat v < 2 ^ 7"
  then have v: "v = take_bit 7 v" by (simp add: take_bit_int_eq_self_iff word_unat_eq_iff unsigned_take_bit_eq take_bit_nat_eq_self)
  have m: "(0x80 :: u8) = 2 ^ 7" by simp
  have "\<not> bit (ucast v :: u8) n \<or> \<not> bit (0x80 :: u8) n" for n
    unfolding m bit_exp_iff by (subst v) (auto simp: bit_simps)
  then show ?thesis by (simp add: disjunctive_add)
qed

lemma octet_low_flag: "ucast (push_bit 1 v) OR 1 = (ucast (push_bit 1 (v :: c_int)) + 1 :: u8)"
proof -
  have "\<not> bit (ucast (push_bit 1 v) :: u8) n \<or> \<not> bit (1 :: u8) n" for n
    by (cases n) (simp_all only: unsigned_ucast_eq bit_ucast_iff bit_push_bit_iff, simp_all)
  then show ?thesis by (simp add: disjunctive_add)
qed

lemma octet_shifted_down: "ucast (drop_bit n v) = (of_nat (unat (v :: c_int) div 2 ^ n) :: u8)"
proof -
  have "ucast (drop_bit n v) = (of_nat (unat (drop_bit n v)) :: u8)" by (rule octet_of_unat [symmetric])
  then show ?thesis unfolding unat_drop_bit_eq by (simp only: drop_bit_eq_div)
qed

lemmas octet_simps = octet_def field_def placed_field_def flag_def octet_of_unat ucast_octet_add ucast_octet_shift ucast_octet_double

lemma those_octet: "those [octet fs] = Some w \<longleftrightarrow> (\<exists>v. octet fs = Some v \<and> w = [v])"
  by (cases "octet fs") auto

section \<open>What is written\<close>

lemma q713_reference_octets: "q713_reference v = Some w \<Longrightarrow> w = [ucast (drop_bit 16 v), ucast (drop_bit 8 v), ucast v]"
  using octet_shifted_down [of 16 v] octet_shifted_down [of 8 v] octet_of_unat [of v] by (simp add: q713_reference_def split: if_splits)

lemma q713_own_octets: "q713_own ms = Some w \<Longrightarrow> own_octets ms = Returns w"
proof (induction ms rule: q713_own.induct)
  case (1 c h)
  then show ?case by (simp add: ProtocolClass_octets_def octet_simps split: if_splits)
next
  case (14 sd rv md)
  then show ?case using octet_low_flag [of rv] by (auto simp: SeqSegm_octets_def octet_simps split: if_splits)
qed (auto dest!: q713_reference_octets simp: Dlr_octets_def Slr_octets_def HopCounter_octets_def Importance_octets_def
    ReceiveSeqNum_octets_def Credit_octets_def RefusalCause_octets_def ReleaseCause_octets_def ResetCause_octets_def
    ReturnCause_octets_def ErrorCause_octets_def SegmReassm_octets_def octet_simps split: if_splits)

lemma q713_title_octets: "q713_title_head d = Some w \<Longrightarrow> title_head d = Returns w"
  by (cases "gt_type d")
    (auto simp: q713_title_head_def title_head_def octet_simps octet_high_flag bind_eq_Some_conv split: if_splits)

text \<open>The address: its point code has no high bits.\<close>

lemma low_point_code:
  assumes "q713_point_code (v AND 0xff) = Some cs"
  shows "cs = [ucast v, ucast (v AND drop_bit 8 0x3f)]"
proof -
  have l: "unat (v AND 0xff) < 256" and m: "ucast (v AND 0xff) = (ucast v :: u8)"
  proof -
    have e: "(0xff :: c_int) = mask 8" by (simp add: mask_eq_exp_minus_1)
    show "unat (v AND 0xff) < 256" unfolding e take_bit_eq_mask [symmetric] unsigned_take_bit_eq by (simp add: take_bit_eq_mod [of 8 "unat v"])
    show "ucast (v AND 0xff) = (ucast v :: u8)" unfolding e by (rule bit_word_eqI) (auto simp: bit_simps)
  qed
  have "drop_bit 8 (0x3f :: c_int) = 0" by (simp add: drop_bit_eq_div)
  then show ?thesis using assms l m octet_of_unat [of "v AND 0xff"] by (simp add: q713_point_code_def split: if_splits)
qed

lemma q713_address_octets:
  assumes "q713_address_head (pa\<lparr>point_code := map_option (\<lambda>v. v AND 0xff) (point_code pa)\<rparr>) = Some w"
  shows "pa_octets pa = Returns w"
proof -
  obtain ri gi ssn pc "is" cs ns where p: "routing_indicator pa = Some ri" "global_title_indicator pa = Some gi"
    "ssn_indicator pa = Some ssn" "point_code_indicator pa = Some pc"
    "those [octet [flag 0 pc, flag 1 ssn, placed_field 2 4 gi, placed_field 6 1 ri]] = Some is"
    "(if pc then Option.bind (map_option (\<lambda>v. v AND 0xff) (point_code pa)) q713_point_code else Some []) = Some cs"
    "(if ssn then Option.bind (subsystem_number pa) (\<lambda>v. those [octet [field 0 8 v]]) else Some []) = Some ns" "w = is @ cs @ ns"
  proof -
    let ?q = "pa\<lparr>point_code := map_option (\<lambda>v. v AND 0xff) (point_code pa)\<rparr>"
    have "routing_indicator ?q = routing_indicator pa" "global_title_indicator ?q = global_title_indicator pa"
      "ssn_indicator ?q = ssn_indicator pa" "point_code_indicator ?q = point_code_indicator pa"
      "point_code ?q = map_option (\<lambda>v. v AND 0xff) (point_code pa)" "subsystem_number ?q = subsystem_number pa" by simp_all
    from assms [unfolded q713_address_head_def this bind_eq_Some_conv] show thesis using that unfolding option.inject by metis
  qed
  have "is = [ucast (ri + gi + (if ssn then 0x02 else 0x00) + (if pc then 0x01 else 0x00))]"
    using p(5) by (auto simp: octet_simps ac_simps split: if_splits)
  moreover have "(if pc then and_then (the_ptr (point_code pa)) (\<lambda>v. Returns [ucast v, ucast (v AND drop_bit 8 0x3f)]) else Returns []) = Returns cs"
    using p(6) low_point_code by (auto simp: bind_eq_Some_conv split: if_splits)
  moreover have "(if ssn then and_then (the_ptr (subsystem_number pa)) (\<lambda>v. Returns [ucast v]) else Returns []) = Returns ns"
    using p(7) by (auto simp: bind_eq_Some_conv octet_simps split: if_splits)
  ultimately show ?thesis unfolding pa_octets_def p(1-4,8) the_ptr_simps and_then.simps by simp
qed

lemma segmentation_octet_ok:
  "octet [flag 7 f, field 6 1 c, field 0 4 r] = Some v \<Longrightarrow> ucast ((if f then 0x80 else 0x00) + push_bit 6 c + r) = v"
  by (auto simp: octet_def field_def flag_def octet_of_unat ucast_octet_add ucast_octet_shift add.assoc split: if_splits)

lemma gti_value_zero: "gti_value gi = 0 \<longleftrightarrow> gi = GT_NO_TITLE"
  by (cases gi) simp_all

lemma q713_title_content: "q713_title s b d = Some w \<Longrightarrow> title_content s b d = Some w"
  by (auto simp: q713_title_def title_content_def bind_eq_Some_conv dest!: q713_title_octets)

lemma q713_sent_content:
  assumes "q713_sent s b p = Some w"
  shows "param_content s b p = Some w"
proof (cases "members p")
  case (PartyAddress pa)
  let ?pa = "pa\<lparr>point_code := map_option (\<lambda>v. v AND 0xff) (point_code pa)\<rparr>"
  have a: "q713_address s b ?pa = Some w" using assms PartyAddress by (simp add: q713_sent_def q713_content_def)
  then obtain h where h: "pa_octets pa = Returns h" "q713_address_head ?pa = Some h"
    using q713_address_octets by (auto simp: q713_address_def bind_eq_Some_conv)
  have "case titled pa of None \<Rightarrow> w = h | Some g \<Rightarrow> Option.bind (title_content s b (gt_at s g)) (\<lambda>bs. Some (h @ bs)) = Some w"
    using a h(2) by (auto simp: q713_address_def titled_def bind_eq_Some_conv gti_value_zero split: if_splits dest: q713_title_content)
  then show ?thesis using h(1) PartyAddress by (auto simp: param_content_def split: option.splits)
next
  case (Segmentation f c r ref n)
  then obtain f' c' r' v bs where o: "f = Some f'" "c = Some c'" "r = Some r'" "octet [flag 7 f', field 6 1 c', field 0 4 r'] = Some v"
    "outside s b ref n = Some bs" "w = v # bs" using assms by (auto simp: q713_sent_def q713_content_def bind_eq_Some_conv)
  have "Segmentation_octet f c r = Returns v" using segmentation_octet_ok [OF o(4)] o(1-3) by (simp add: Segmentation_octet_def)
  then show ?thesis using Segmentation o(5,6) by (simp add: param_content_def)
qed (use assms q713_own_octets [of "members p"] in
    \<open>simp_all add: q713_sent_def q713_content_def param_content_def del: q713_own.simps own_octets.simps\<close>)

section \<open>Messages\<close>

text \<open>What the parameters of a message stand for in terms of Q.713, seen from the buffer \<open>b\<close>.\<close>

definition q713_carries :: "sccp_state \<Rightarrow> nat \<Rightarrow> nat \<Rightarrow> u8 list \<Rightarrow> bool" where
  "q713_carries s b a w \<longleftrightarrow> q713_sent s b (param_at s a) = Some w \<and> members (param_at s a) \<noteq> LongData"

definition q713_part :: "sccp_state \<Rightarrow> nat \<Rightarrow> nat \<Rightarrow> SCCPParameterType \<Rightarrow> u8 list \<Rightarrow> bool" where
  "q713_part s b m slot w \<longleftrightarrow> (\<exists>a. part (message_at s m) slot = Some a \<and> q713_carries s b a w)"

definition q713_opt :: "sccp_state \<Rightarrow> nat \<Rightarrow> nat \<Rightarrow> SCCPParameterType \<times> u8 list \<Rightarrow> bool" where
  "q713_opt s b a x \<longleftrightarrow> param_type (param_at s a) = fst x \<and> q713_carries s b a (snd x)"

definition q713_ready ::
  "sccp_state \<Rightarrow> nat \<Rightarrow> nat \<Rightarrow> u8 list list \<Rightarrow> u8 list list \<Rightarrow> (SCCPParameterType \<times> u8 list) list \<Rightarrow> bool" where
  "q713_ready s b m fs vs opts \<longleftrightarrow>
     list_all2 (q713_part s b m) (fixed_slots (message_type (message_at s m))) fs \<and>
     list_all2 (q713_part s b m) (var_slots (message_type (message_at s m))) vs \<and>
     list_all2 (q713_opt s b) (optional_params (message_at s m)) opts \<and>
     length (pointer (message_at s m)) = pointer_count (message_type (message_at s m))"

lemma q713_carries_ready: "q713_carries s b a w \<Longrightarrow> carries s b a w"
  by (simp add: q713_carries_def carries_def q713_sent_content)

lemma q713_part_ready: "q713_part s b m slot w \<Longrightarrow> part_carries s b m slot w"
  by (auto simp: q713_part_def part_carries_def q713_carries_ready)

lemma q713_opt_ready: "q713_opt s b a x \<Longrightarrow> opt_carries s b a x"
  by (simp add: q713_opt_def opt_carries_def q713_carries_ready)

lemma q713_ready_ready: "q713_ready s b m fs vs opts \<Longrightarrow> message_ready s b m fs vs opts"
  by (auto simp: q713_ready_def message_ready_def elim!: list_all2_mono intro: q713_part_ready q713_opt_ready)

lemma q713_title_same:
  assumes "same_values b s s'"
  shows "q713_title s' b (gt_at s' g) = q713_title s b (gt_at s g)" "gt_type (gt_at s' g) = gt_type (gt_at s g)"
proof -
  have k: "kept_title (gt_at s g) (gt_at s' g)" using assms by (simp add: same_values_def)
  have "q713_title_head (gt_at s' g) = q713_title_head (gt_at s g)"
    by (cases "gt_type (gt_at s g)") (simp_all add: q713_title_head_def kept_titleD [OF k])
  then show "q713_title s' b (gt_at s' g) = q713_title s b (gt_at s g)" "gt_type (gt_at s' g) = gt_type (gt_at s g)"
    by (simp_all add: q713_title_def kept_titleD [OF k] outside_same [OF assms])
qed

lemma q713_address_same: "same_values b s s' \<Longrightarrow> q713_address s' b pa = q713_address s b pa"
  unfolding q713_address_def by (simp only: q713_title_same)

lemma q713_sent_same:
  assumes "same_values b s s'"
  shows "q713_sent s' b (param_at s' a) = q713_sent s b (param_at s a)"
proof -
  have "kept_param (param_at s a) (param_at s' a)" using assms by (simp add: same_values_def)
  then show ?thesis
    by (cases "members (param_at s a)")
      (simp_all add: q713_sent_def q713_content_def q713_address_same [OF assms] kept_param_def outside_same [OF assms]
        del: q713_own.simps)
qed

lemma q713_ready_same:
  assumes "same_message b m s s'"
  shows "q713_ready s' b m fs vs opts = q713_ready s b m fs vs opts"
proof -
  have sv: "same_values b s s'" using assms by (simp add: same_message_def)
  have "q713_carries s' b = q713_carries s b"
    using q713_sent_same [OF sv] param_content_same(3) [OF sv] by (simp add: fun_eq_iff q713_carries_def)
  then have "q713_part s' b m = q713_part s b m" "q713_opt s' b = q713_opt s b"
    using assms param_content_same(2) [OF sv] by (simp_all add: fun_eq_iff q713_part_def q713_opt_def same_message_def)
  then show ?thesis using assms by (simp add: q713_ready_def same_message_def)
qed

text \<open>\<open>encode\<close> of every message but long unitdata.\<close>

lemma q713_encode_ok:
  assumes "q713_ready s b m fs vs opts" "mt = message_type (message_at s m)" "short_message mt" "0 < buffer_length"
    "w = message_with (written_pointer mt vs opts) mt (sent_fixed mt fs) vs opts" "buffer + off + length w \<le> length (mem s b)"
  shows "\<exists>s'. sccp_encode b buffer buffer_length (int off) m r s = Returns (int (length w), s') \<and>
    mem s' = (mem s)(b := overwrite (mem s b) (buffer + off) w) \<and> q713_ready s' b m fs vs opts"
proof -
  obtain s' where s': "sccp_encode b buffer buffer_length (int off) m r s = Returns (int (length w), s')"
    "mem s' b = overwrite (mem s b) (buffer + off) w" "\<forall>vb. vb \<noteq> b \<longrightarrow> mem s' vb = mem s vb" "same_message b m s s'"
    using sccp_encode_sent [OF q713_ready_ready [OF assms(1)] assms(2-5) refl assms(6)] by blast
  then have "mem s' = (mem s)(b := overwrite (mem s b) (buffer + off) w)" by auto
  with s' show ?thesis using q713_ready_same [OF s'(4)] assms(1) by blast
qed

end
