(* ===== verification/Sccp_Long.thy ===== *)
theory Sccp_Long
  imports Sccp_Q713
begin

text \<open>
  What \<open>encode\<close> writes of long unitdata: it leaves room for four pointers of two octets and
  writes four pointers of one octet.
\<close>

section \<open>The pointers and the parts\<close>

definition long_part :: "u8 list \<Rightarrow> u8 list" where
  "long_part w = [of_nat (length w div 256), of_nat (length w)] @ w"

definition long_pointers :: "u8 list \<Rightarrow> u8 list \<Rightarrow> u8 list \<Rightarrow> (SCCPParameterType \<times> u8 list) list \<Rightarrow> u8 list" where
  "long_pointers v1 v2 v3 opts =
     [8, of_nat (length (var_part v1) + 6), of_nat (length (var_part v1 @ var_part v2) + 4),
      if opts = [] then 0 else of_nat (length (var_part v1 @ var_part v1 @ var_part v2 @ long_part v3) + 2)]"

text \<open>The message, with four octets \<open>old\<close> that are not written.\<close>

definition long_message ::
  "SCCPMessageType \<Rightarrow> u8 list list \<Rightarrow> u8 list \<Rightarrow> u8 list \<Rightarrow> u8 list \<Rightarrow> (SCCPParameterType \<times> u8 list) list \<Rightarrow> u8 list \<Rightarrow> u8 list" where
  "long_message mt fs v1 v2 v3 opts old =
     smt_value mt # concat fs @ long_pointers v1 v2 v3 opts @ old @ var_part v1 @ var_part v2 @ long_part v3 @ opt_parts opts"

text \<open>The parameters of a long unitdata message.\<close>

definition long_ready ::
  "sccp_state \<Rightarrow> nat \<Rightarrow> nat \<Rightarrow> u8 list list \<Rightarrow> u8 list \<Rightarrow> u8 list \<Rightarrow> u8 list \<Rightarrow> (SCCPParameterType \<times> u8 list) list \<Rightarrow> bool" where
  "long_ready s b m fs v1 v2 v3 opts \<longleftrightarrow>
     list_all2 (q713_part s b m) (fixed_slots (message_type (message_at s m))) fs \<and>
     q713_part s b m CALLED_PARTY_ADDRESS v1 \<and> q713_part s b m CALLING_PARTY_ADDRESS v2 \<and>
     (\<exists>a. part (message_at s m) LONG_DATA = Some a \<and> members (param_at s a) = LongData \<and> q713_sent s b (param_at s a) = Some v3) \<and>
     list_all2 (q713_opt s b) (optional_params (message_at s m)) opts \<and> length (pointer (message_at s m)) = 4"

lemma length_long_part [simp]: "length (long_part w) = length w + 2"
  by (simp add: long_part_def)

lemma enc_long_data_ok:
  assumes "progress b q m s0 w (l, s)" "part (message_at s0 m) LONG_DATA = Some a" "members (param_at s0 a) = LongData"
    "q713_sent s0 b (param_at s0 a) = Some v" "q + length w + length (long_part v) \<le> length (mem s0 b)" "3 < length (pointer (message_at s0 m))"
  shows "\<exists>l' s'. steps (enc_part True b q m LONG_DATA # enc_set_pointer m 3 e # fs) (l, s) = steps fs (l', s') \<and>
    progress b q m s0 (w @ long_part v) (l', s') \<and> tmp_pointers l' = tmp_pointers l \<and>
    pointer_values m s' = (pointer_values m s)(3 := e (int (length (long_part v))) (pointer_values m s))"
proof -
  have h: "long_part v = header False True (param_at s0 a) (length v) @ v" using assms(3) by (simp add: header_def long_part_def)
  obtain l1 s1 where 1: "enc_part True b q m LONG_DATA (l, s) = Returns (l1, s1)" "progress b q m s0 (w @ long_part v) (l1, s1)"
    "result_length l1 = int (length (long_part v))" "tmp_pointers l1 = tmp_pointers l" "message_at s1 = message_at s"
    using enc_part_header_ok [OF assms(1,2) q713_sent_content [OF assms(4)] h assms(5)] by blast
  have v: "pointer_values m s1 = pointer_values m s" by (simp add: pointer_values_def 1(5))
  obtain s2 where "enc_set_pointer m 3 e (l1, s1) = Returns (l1, s2)" "progress b q m s0 (w @ long_part v) (l1, s2)"
    "pointer_values m s2 = (pointer_values m s)(3 := e (int (length (long_part v))) (pointer_values m s))"
    using enc_set_pointer_ok [OF 1(2) assms(6) refl, of e] v 1(3) by auto
  then show ?thesis using 1 by auto
qed

lemma tail_long_ok:
  assumes "progress b q m s0 w (l, s)" "long_ready s0 b m fs v1 v2 v3 opts" "length old = 4"
    "old = take 4 (drop (q + length w + 4) (mem s0 b))"
    "q + length w + 8 + length (var_part v1 @ var_part v2 @ long_part v3 @ opt_parts opts) \<le> length (mem s0 b)"
  shows "\<exists>x. steps [enc_pointers q m 8, enc_part True b q m CALLED_PARTY_ADDRESS, enc_set_pointer m 1 (\<lambda>rl v. rl),
        enc_part True b q m CALLING_PARTY_ADDRESS, enc_set_pointer m 2 (\<lambda>rl v. rl + v 1),
        enc_part True b q m LONG_DATA, enc_set_pointer m 3 (\<lambda>rl v. rl + v 2 + v 1), enc_optional b q m,
        enc_write_pointers b m [\<lambda>rl v. v 0, \<lambda>rl v. v 1 + 3 * 2, \<lambda>rl v. v 2 + 2 * 2, \<lambda>rl v. if rl = 0 then 0x00 else v 3 + 1 * 2]] (l, s) = Returns x \<and>
    progress b q m s0 (w @ long_pointers v1 v2 v3 opts @ old @ var_part v1 @ var_part v2 @ long_part v3 @ opt_parts opts) x"
proof -
  let ?es = "[\<lambda>rl v. v 0, \<lambda>rl v. v 1 + 3 * 2, \<lambda>rl v. v 2 + 2 * 2, \<lambda>rl v. if rl = 0 then 0x00 else v 3 + 1 * 2] :: pointer_expr list"
  let ?gs = "[enc_optional b q m, enc_write_pointers b m ?es]"
  let ?fs = "enc_part True b q m LONG_DATA # enc_set_pointer m 3 (\<lambda>rl v. rl + v 2 + v 1) # ?gs"
  have r: "part_carries s0 b m CALLED_PARTY_ADDRESS v1" "part_carries s0 b m CALLING_PARTY_ADDRESS v2"
    "list_all2 (opt_carries s0 b) (optional_params (message_at s0 m)) opts" "length (pointer (message_at s0 m)) = 4"
    using assms(2) by (auto simp: long_ready_def q713_part_ready elim!: list_all2_mono intro: q713_opt_ready)
  obtain a where a: "part (message_at s0 m) LONG_DATA = Some a" "members (param_at s0 a) = LongData" "q713_sent s0 b (param_at s0 a) = Some v3"
    using assms(2) by (auto simp: long_ready_def)
  have room: "q + length w + 8 + length (concat (map var_part [v1, v2])) \<le> length (mem s0 b)" using assms(5) by simp
  obtain l1 s1 o8 where 1: "steps (enc_pointers q m 8 # enc_part True b q m CALLED_PARTY_ADDRESS # enc_set_pointer m 1 (\<lambda>rl v. rl) #
      enc_part True b q m CALLING_PARTY_ADDRESS # enc_set_pointer m 2 (\<lambda>rl v. rl + v 1) # ?fs) (l, s) = steps ?fs (l1, s1)"
    "progress b q m s0 (w @ o8 @ concat (map var_part [v1, v2])) (l1, s1)" "length o8 = 8" "tmp_pointers l1 = q + length w"
    "pointer_values m s1 0 = int 8" "pointer_values m s1 1 = int (length (var_part v1))"
    "pointer_values m s1 2 = int (length (var_part v2)) + int (length (var_part v1))" "o8 = take 8 (drop (q + length w) (mem s0 b))"
    using three_parts_ok [OF assms(1) r(1,2) _ room, of ?fs] r(4) by auto
  have "o8 = take 4 (drop (q + length w) (mem s0 b)) @ take 4 (drop 4 (drop (q + length w) (mem s0 b)))"
    unfolding 1(8) by (simp only: flip: take_add) simp
  then obtain o4 where o4: "o8 = o4 @ old" "length o4 = 4" using assms(3,4) 1(3) by (simp add: add.commute)
  have p1: "progress b q m s0 (w @ o4 @ old @ var_part v1 @ var_part v2) (l1, s1)" using 1(2) o4(1) by simp
  have long: "q + length (w @ o4 @ old @ var_part v1 @ var_part v2) + length (long_part v3) \<le> length (mem s0 b)"
    using assms(3,5) o4(2) by simp
  obtain l2 s2 where 2: "steps ?fs (l1, s1) = steps ?gs (l2, s2)"
    "progress b q m s0 (w @ o4 @ old @ var_part v1 @ var_part v2 @ long_part v3) (l2, s2)" "tmp_pointers l2 = tmp_pointers l1"
    "pointer_values m s2 = (pointer_values m s1)(3 := int (length (long_part v3)) + pointer_values m s1 2 + pointer_values m s1 1)"
    using enc_long_data_ok [OF p1 a long, of "\<lambda>rl v. rl + v 2 + v 1" ?gs] r(4) by auto
  have opt: "q + length (w @ o4 @ old @ var_part v1 @ var_part v2 @ long_part v3) + length (opt_parts opts) \<le> length (mem s0 b)"
    using assms(3,5) o4(2) by simp
  obtain l3 s3 where 3: "enc_optional b q m (l2, s2) = Returns (l3, s3)"
    "progress b q m s0 (w @ o4 @ old @ var_part v1 @ var_part v2 @ long_part v3 @ opt_parts opts) (l3, s3)"
    "result_length l3 = int (length (opt_parts opts))" "tmp_pointers l3 = tmp_pointers l2" "message_at s3 = message_at s2"
    using enc_optional_ok [OF 2(2) r(3) opt] by auto
  have v: "pointer_values m s3 = pointer_values m s2" by (simp add: pointer_values_def 3(5))
  have vals: "long_pointers v1 v2 v3 opts = map (\<lambda>e. word_of_int (e (result_length l3) (pointer_values m s3))) ?es"
    using 1(5-7) 2(4) 3(3) v opt_parts_empty [of opts] by (simp add: long_pointers_def)
  have fits: "q + length (w @ o4 @ old @ var_part v1 @ var_part v2 @ long_part v3 @ opt_parts opts) \<le> length (mem s0 b)" using opt by simp
  have ptr: "tmp_pointers l3 = q + length w" "length ?es = length o4" using 1(4) 2(3) 3(4) o4(2) by simp_all
  obtain s4 where "enc_write_pointers b m ?es (l3, s3) = Returns (l3, s4)"
    "progress b q m s0 (w @ long_pointers v1 v2 v3 opts @ old @ var_part v1 @ var_part v2 @ long_part v3 @ opt_parts opts) (l3, s4)"
    using enc_write_pointers_ok [OF 3(2) ptr fits vals] by blast
  then show ?thesis using 1(1) 2(1) 3(1) by simp
qed

section \<open>The message\<close>

lemma steps_then:
  "f x = Returns x1 \<Longrightarrow> steps fs x1 = Returns x2 \<Longrightarrow> steps gs x2 = Returns x3 \<Longrightarrow> steps (f # fs @ gs) x = Returns x3"
  by (simp add: steps_append)

lemma long_message_encode:
  assumes "mt = LUDT_LONG_UNIDATA \<or> mt = LUDTS_LONG_UNIDATA_SERVICE"
  shows "message_encode mt b q m = steps (enc_type_octet b q m # map (enc_part False b q m) (fixed_slots mt) @
     [enc_pointers q m 8, enc_part True b q m CALLED_PARTY_ADDRESS, enc_set_pointer m 1 (\<lambda>rl v. rl),
      enc_part True b q m CALLING_PARTY_ADDRESS, enc_set_pointer m 2 (\<lambda>rl v. rl + v 1),
      enc_part True b q m LONG_DATA, enc_set_pointer m 3 (\<lambda>rl v. rl + v 2 + v 1), enc_optional b q m,
      enc_write_pointers b m [\<lambda>rl v. v 0, \<lambda>rl v. v 1 + 3 * 2, \<lambda>rl v. v 2 + 2 * 2, \<lambda>rl v. if rl = 0 then 0x00 else v 3 + 1 * 2]])"
  using assms by (elim disjE) (simp_all add: LUDT_LongUnitdata_encode_def LUDTS_LongUnitdataService_encode_def)

lemma sccp_encode_long_ok:
  assumes "long_ready s b m fs v1 v2 v3 opts" "mt = message_type (message_at s m)"
    "mt = LUDT_LONG_UNIDATA \<or> mt = LUDTS_LONG_UNIDATA_SERVICE" "0 < buffer_length"
    "old = take 4 (drop (buffer + off + 5 + length (concat fs)) (mem s b))" "w = long_message mt fs v1 v2 v3 opts old" "length old = 4"
    "buffer + off + length w \<le> length (mem s b)"
  shows "\<exists>s'. sccp_encode b buffer buffer_length (int off) m r s = Returns (int (length w), s') \<and>
    mem s' = (mem s)(b := overwrite (mem s b) (buffer + off) w)"
proof -
  let ?q = "buffer + off" and ?l = "\<lparr>tmp_l = 0, result_length = r, tmp_pointers = 0\<rparr>"
  let ?t = "long_pointers v1 v2 v3 opts @ old @ var_part v1 @ var_part v2 @ long_part v3 @ opt_parts opts"
  have w: "w = ([smt_value mt] @ concat fs) @ ?t" using assms(6) by (simp add: long_message_def)
  have lp: "length (long_pointers v1 v2 v3 opts) = 4" by (simp add: long_pointers_def)
  have q: "?q < length (mem s b)" using assms(8) unfolding w by simp
  have "\<exists>x. enc_type_octet b ?q m (?l, s) = Returns x \<and> progress b ?q m s [smt_value mt] x"
    unfolding assms(2) by (rule enc_type_ok [OF q]) simp
  then obtain x1 where x1: "enc_type_octet b ?q m (?l, s) = Returns x1" "progress b ?q m s [smt_value mt] x1" by blast
  have "list_all2 (part_carries s b m) (fixed_slots mt) fs"
    using assms(1,2) by (auto simp: long_ready_def elim!: list_all2_mono intro: q713_part_ready)
  moreover have "?q + length [smt_value mt] + length (concat fs) \<le> length (mem s b)" using assms(8) unfolding w by simp
  ultimately obtain l2 s2 where x2: "steps (map (enc_part False b ?q m) (fixed_slots mt)) x1 = Returns (l2, s2)"
    "progress b ?q m s ([smt_value mt] @ concat fs) (l2, s2)" using enc_fixed_ok [OF x1(2)] by (metis surj_pair)
  have o: "old = take 4 (drop (?q + length ([smt_value mt] @ concat fs) + 4) (mem s b))" using assms(5) by (simp add: ac_simps)
  have room: "?q + length ([smt_value mt] @ concat fs) + 8 + length (var_part v1 @ var_part v2 @ long_part v3 @ opt_parts opts) \<le> length (mem s b)"
    using assms(7,8) lp unfolding w by simp
  obtain x where x: "steps [enc_pointers ?q m 8, enc_part True b ?q m CALLED_PARTY_ADDRESS, enc_set_pointer m 1 (\<lambda>rl v. rl),
        enc_part True b ?q m CALLING_PARTY_ADDRESS, enc_set_pointer m 2 (\<lambda>rl v. rl + v 1),
        enc_part True b ?q m LONG_DATA, enc_set_pointer m 3 (\<lambda>rl v. rl + v 2 + v 1), enc_optional b ?q m,
        enc_write_pointers b m [\<lambda>rl v. v 0, \<lambda>rl v. v 1 + 3 * 2, \<lambda>rl v. v 2 + 2 * 2, \<lambda>rl v. if rl = 0 then 0x00 else v 3 + 1 * 2]] (l2, s2) =
      Returns x" "progress b ?q m s (([smt_value mt] @ concat fs) @ ?t) x"
    using tail_long_ok [OF x2(2) assms(1,7) o room] by (elim exE conjE) (rule that)
  obtain l s' where l: "x = (l, s')" by (cases x)
  note x3 = x [folded w, unfolded l]
  have run: "message_encode mt b ?q m (?l, s) = Returns (l, s')"
    unfolding long_message_encode [OF assms(3)] by (rule steps_then, rule x1(1), rule x2(1), rule x3(1))
  note p = progressD [OF x3(2)]
  have "mem s' = (mem s)(b := overwrite (mem s b) ?q w)" using p(2,3) by (auto simp: same_values_def)
  then show ?thesis using run assms(2,4) p(1) by (simp add: sccp_encode_def)
qed

end
