(* ===== verification/Sccp_Properties.thy ===== *)
theory Sccp_Properties
  imports Sccp_Pools Sccp_Long
begin

text \<open>
  What the SCCP codec promises: a message that is encoded is decoded to what its parameters stand
  for, the octets are those of ITU-T Q.713 but for point codes, the cause of an error message, the
  pointer of extended unitdata to its optional part and the pointers of long unitdata, and the
  length of the data plays no part in decoding.
\<close>

section \<open>Decoding a message\<close>

text \<open>The pools have an object for each parameter and each global title.\<close>

definition enough_objects :: "sccp_state \<Rightarrow> item list \<Rightarrow> bool" where
  "enough_objects s items \<longleftrightarrow>
     (\<forall>pt. count_list (map fst items) pt \<le> length (param_rings s pt)) \<and>
     (\<forall>gi. count_list (concat (map title_of items)) gi \<le> length (title_rings s gi))"

lemma enough_within:
  assumes "sccp_pools_ok s" "enough_objects s items"
  shows "within (param_rings s) (count_list (map fst items)) {}" "within (title_rings s) (count_list (concat (map title_of items))) {}"
  using assms sccp_rings_disjoint [OF assms(1)] by (simp_all add: within_def enough_objects_def)

lemma smt_of_value: "smt_of (smt_value mt) = Some mt"
  by (cases mt) (simp_all add: smt_of_def sccp_message_types_def)

lemma sccp_decode_with:
  assumes "sccp_pools_ok s" "well_sized mt fs vs opts" "holds_at (mem s b) q (message_with p mt fs vs sent)"
    "enough_objects s (message_items mt fs vs opts)" "0 < data_length"
    "reads_optional mt \<Longrightarrow> finds_optional (mem s b) (q + (1 + length (concat fs) + length vs + unat p)) opts"
  shows "\<exists>m s'. sccp_decode b q data_length s = Returns (Some m, s') \<and> sccp_pools_ok s' \<and> mem s' b = mem s b \<and>
    message_type (message_at s' m) = mt \<and> (\<forall>ob. ob \<noteq> b \<longrightarrow> message_ready s' ob m fs vs opts)"
proof -
  let ?bs = "mem s b" and ?items = "message_items mt fs vs opts"
  have t: "byte_at ?bs q = Returns (smt_value mt)"
    using assms(3) by (simp add: message_with_def holds_at_Cons)
  let ?m = "hd (message_rings s mt)"
  obtain s1 where s1: "sccp_request_message mt s = Returns (Some ?m, s1)" "sccp_pools_ok s1" "title_rings s1 = title_rings s"
    "param_rings s1 = param_rings s" "mem s1 = mem s" "message_at s1 = message_at s"
    using sccp_request_message_ok [OF assms(1)] by blast
  have "?m \<in> set (message_rings s mt)" using filled_ring [OF sccp_pools_okD(3) [OF assms(1)]] by simp
  then have m: "message_type (message_at s ?m) = mt" "length (pointer (message_at s ?m)) = pointer_count mt"
    using sccp_pools_okD(6) [OF assms(1)] by simp_all
  let ?f = "\<lambda>x. x\<lparr>byte_pos := 0, optional_params := []\<rparr>" and ?s = "update_message ?m (\<lambda>x. x\<lparr>byte_pos := 0, optional_params := []\<rparr>) s1"
  have up: "mem ?s = mem s" "param_rings ?s = param_rings s" "title_rings ?s = title_rings s"
    "message_at ?s ?m = ?f (message_at s ?m)" using s1(3-6) by (simp_all add: update_message_def set_message_def)
  have "sccp_pools_ok ?s" using s1(2) by (rule pools_update_message) simp
  moreover have "holds_items b ?m {} {} [] [] ?s" unfolding holds_items_def up(4) by simp
  moreover have "within (param_rings ?s) (count_list (map fst ?items)) {}" "within (title_rings ?s) (count_list (concat (map title_of ?items))) {}"
    unfolding up(2,3) using enough_within [OF assms(1,4)] by simp_all
  ultimately have d: "decoding b ?bs ?m mt ?items [] [] ?s"
    unfolding decoding_def up(1,4) using m by auto
  have "byte_pos (message_at ?s ?m) = 0" unfolding up(4) by simp
  then obtain s2 where s2: "message_init mt ?bs b q data_length ?m ?s = Returns s2"
    "decoding b ?bs ?m mt [] (zip (fixed_slots mt) fs @ zip (var_slots mt) vs) opts s2"
    using message_init_ok [OF assms(2,3) assms(6) d] by blast
  have run: "sccp_decode b q data_length s = Returns (Some ?m, s2)"
    using t s1(1,5,6) m(1) s2(1) assms(5) by (simp add: sccp_decode_def smt_of_value)
  have ready: "message_ready s2 ob ?m fs vs opts" if "ob \<noteq> b" for ob
  proof -
    obtain G H where h: "holds_items b ?m G H (zip (fixed_slots mt) fs @ zip (var_slots mt) vs) opts s2"
      "message_type (message_at s2 ?m) = mt" "length (pointer (message_at s2 ?m)) = pointer_count mt"
      using s2(2) by (auto simp: decoding_def)
    have l: "length (fixed_slots mt) = length fs" "length (var_slots mt) = length vs"
      using assms(2) by (auto simp: well_sized_def list_all2_lengthD)
    have "part_carries s2 ob ?m pt w" if "(pt, w) \<in> set (zip (fixed_slots mt) fs @ zip (var_slots mt) vs)" for pt w
      using h(1) that \<open>ob \<noteq> b\<close> unfolding holds_items_def part_carries_def standing_def by fastforce
    then have "list_all2 (part_carries s2 ob ?m) (fixed_slots mt) fs" "list_all2 (part_carries s2 ob ?m) (var_slots mt) vs"
      using l by (auto simp: list_all2_iff)
    moreover have "list_all2 (opt_carries s2 ob) (optional_params (message_at s2 ?m)) opts"
      using h(1) \<open>ob \<noteq> b\<close> unfolding holds_items_def by (auto elim!: list_all2_mono simp: opt_carries_def standing_def)
    ultimately show ?thesis using h(2,3) by (simp add: message_ready_def)
  qed
  then show ?thesis using run s2(2) by (auto simp: decoding_def)
qed

lemma sccp_decode_ok:
  assumes "sccp_pools_ok s" "well_sized mt fs vs opts" "holds_at (mem s b) q (message_octets mt fs vs opts)"
    "enough_objects s (message_items mt fs vs opts)" "0 < data_length"
  shows "\<exists>m s'. sccp_decode b q data_length s = Returns (Some m, s') \<and> sccp_pools_ok s' \<and> mem s' b = mem s b \<and>
    message_type (message_at s' m) = mt \<and> (\<forall>ob. ob \<noteq> b \<longrightarrow> message_ready s' ob m fs vs opts)"
  using sccp_decode_with [OF assms(1,2) assms(3) [unfolded message_octets_def] assms(4,5) finds_sent [OF assms(2,3)]] .

section \<open>A call\<close>

text \<open>
  A connection request and an extended unitdata message, each with an optional parameter, and a long
  unitdata message; the data are elsewhere.
\<close>

definition call_address :: party_address where
  "call_address =
     \<lparr>routing_indicator = Some 0x40, global_title_indicator = Some 0, ssn_indicator = Some True,
      point_code_indicator = Some False, point_code = None, subsystem_number = Some 8, global_title = None\<rparr>"

definition call_param :: "nat \<Rightarrow> SCCPParam" where
  "call_param a =
     (if a = 0 then (create_sccp_param SOURCE_LOCAL_REFERENCE)\<lparr>members := Slr (Some 0x010203)\<rparr>
      else if a = 1 then (create_sccp_param PROTOCOL_CLASS)\<lparr>members := ProtocolClass (Some 2) (Some 0)\<rparr>
      else if a = 2 then (create_sccp_param CALLED_PARTY_ADDRESS)\<lparr>members := PartyAddress call_address\<rparr>
      else if a = 3 then (create_sccp_param DATA)\<lparr>param_value := Some (1, 0), value_length := 2\<rparr>
      else if a = 4 then (create_sccp_param CALLING_PARTY_ADDRESS)\<lparr>members := PartyAddress call_address\<rparr>
      else if a = 5 then (create_sccp_param HOP_COUNTER)\<lparr>members := HopCounter 5\<rparr>
      else if a = 6 then (create_sccp_param IMPORTANCE)\<lparr>members := Importance 3\<rparr>
      else (create_sccp_param LONG_DATA)\<lparr>param_value := Some (1, 0), value_length := 2\<rparr>)"

definition call_state :: sccp_state where
  "call_state =
     \<lparr>mem = (\<lambda>b. if b = 0 then replicate 22 9 else [6, 7]), gt_at = (\<lambda>_. GlobalTitle_new GT_NO_TITLE), param_at = call_param,
      message_at = (\<lambda>m. if m = 0
        then (create_sccp_message CR_CONNECTION_REQUEST)
          \<lparr>part := [SOURCE_LOCAL_REFERENCE \<mapsto> 0, PROTOCOL_CLASS \<mapsto> 1, CALLED_PARTY_ADDRESS \<mapsto> 2], optional_params := [3]\<rparr>
        else if m = 1 then (create_sccp_message XUDT_EXTENDED_UNITDATA)
          \<lparr>part := [PROTOCOL_CLASS \<mapsto> 1, HOP_COUNTER \<mapsto> 5, CALLED_PARTY_ADDRESS \<mapsto> 2, CALLING_PARTY_ADDRESS \<mapsto> 4, DATA \<mapsto> 3],
           optional_params := [6]\<rparr>
        else (create_sccp_message LUDT_LONG_UNIDATA)
          \<lparr>part := [PROTOCOL_CLASS \<mapsto> 1, HOP_COUNTER \<mapsto> 5, CALLED_PARTY_ADDRESS \<mapsto> 2, CALLING_PARTY_ADDRESS \<mapsto> 4, LONG_DATA \<mapsto> 7]\<rparr>),
      fresh = 0, GT_POOL = (\<lambda>_. None), PARAM_POOL = (\<lambda>_. None), MESSAGE_POOL = (\<lambda>_. None), param_count = 2, message_count = 1\<rparr>"

lemma call_contents:
  "outside call_state 0 (Some (1, 0)) 2 = Some [6, 7]" "param_at call_state = call_param"
  by (simp_all add: outside_def call_state_def)

lemma call_q713:
  "q713_carries call_state 0 0 [1, 2, 3]" "q713_carries call_state 0 1 [2]" "q713_carries call_state 0 2 [0x42, 8]"
  "q713_carries call_state 0 3 [6, 7]" "q713_carries call_state 0 4 [0x42, 8]" "q713_carries call_state 0 5 [5]"
  "q713_carries call_state 0 6 [3]" "q713_sent call_state 0 (call_param 7) = Some [6, 7]" "members (call_param 7) = LongData"
  unfolding q713_carries_def call_contents(2) using call_contents(1)
  by (simp_all add: call_param_def create_sccp_param_def q713_sent_def q713_content_def q713_reference_def q713_address_def
      q713_address_head_def call_address_def octet_def field_def placed_field_def flag_def)

lemmas call_carries = call_q713(1-7) [THEN q713_carries_ready]

lemma call_message:
  "message_type (message_at call_state 0) = CR_CONNECTION_REQUEST" "mem call_state 0 = replicate 22 9"
  "part (message_at call_state 0) = [SOURCE_LOCAL_REFERENCE \<mapsto> 0, PROTOCOL_CLASS \<mapsto> 1, CALLED_PARTY_ADDRESS \<mapsto> 2]"
  "optional_params (message_at call_state 0) = [3]" "length (pointer (message_at call_state 0)) = 2" "param_type (param_at call_state 3) = DATA"
  by (simp_all add: call_state_def create_sccp_message_def call_param_def create_sccp_param_def)





lemma call_ready: "message_ready call_state 0 0 [[1, 2, 3], [2]] [[0x42, 8]] [(DATA, [6, 7])]"
  using call_carries by (simp add: message_ready_def part_carries_def opt_carries_def call_message)

lemma call_sendable: "well_sized CR_CONNECTION_REQUEST [[1, 2, 3], [2]] [[0x42, 8]] [(DATA, [6, 7])]"
  by (simp add: well_sized_def decoded_message_def reads_optional_def has_optional_def parts_length_def canonical_address_def address_head_def
      address_title_def var_part_def)

lemma call_octets:
  "message_octets CR_CONNECTION_REQUEST [[1, 2, 3], [2]] [[0x42, 8]] [(DATA, [6, 7])] =
    [0x01, 1, 2, 3, 2, 2, 4, 2, 0x42, 8, 0x0f, 2, 6, 7, 0]"
  by (simp add: message_octets_def message_with_def has_optional_def optional_pointer_def opt_parts_def opt_part_def parts_length_def var_part_def)

section \<open>Wire format\<close>





section \<open>Round trip\<close>

text \<open>
  C2. What is encoded is decoded: if the received octets are those written, and the pools have
  objects for the parameters, then \<open>decode\<close> gives a message of the same type whose parameters
  stand for the same octets, fixed, variable and optional ones. The messages are those \<open>decode\<close>
  reads the way \<open>encode\<close> writes them, with lengths and pointers that fit an octet: not AK, ERR,
  LUDT and LUDTS, and RSR, XUDT and XUDTS only without an optional part.
\<close>

theorem sccp_roundtrip:
  assumes msg: "message_ready s b m fs vs opts" "message_type (message_at s m) = mt" "well_sized mt fs vs opts"
    and ext: "opts = [] \<or> mt \<notin> {XUDT_EXTENDED_UNITDATA, XUDTS_EXTENDED_UNIDATA_SERVICE}"
    and w: "w = message_octets mt fs vs opts" "0 < buffer_length" "buffer + off + length w \<le> length (mem s b)"
    and recv: "sccp_pools_ok r" "enough_objects r (message_items mt fs vs opts)" "0 < data_length"
  shows "\<exists>s'. sccp_encode b buffer buffer_length (int off) m res s = Returns (int (length w), s') \<and>
    (mem r rb = pre @ take (length w) (drop (buffer + off) (mem s' b)) @ post \<longrightarrow>
      (\<exists>m' r'. sccp_decode rb (length pre) data_length r = Returns (Some m', r') \<and> message_type (message_at r' m') = mt \<and>
        (\<forall>ob. ob \<noteq> rb \<longrightarrow> message_ready r' ob m' fs vs opts)))"
proof -
  have reg: "regular_message mt" using msg(3) by (auto simp: well_sized_def decoded_message_def regular_message_def)
  have "written_pointer mt vs opts = optional_pointer vs opts"
    using ext by (auto simp: written_pointer_def extended_pointer_def optional_pointer_def)
  then have w': "w = message_with (written_pointer mt vs opts) mt fs vs opts" using w(1) by (simp add: message_octets_def)
  obtain s' where s': "sccp_encode b buffer buffer_length (int off) m res s = Returns (int (length w), s')"
    "mem s' b = overwrite (mem s b) (buffer + off) w"
    using sccp_encode_ok [OF msg(1) msg(2) [symmetric] reg w(2) w' refl w(3)] by blast
  have "take (length w) (drop (buffer + off) (mem s' b)) = w" using w(3) s'(2) by (simp add: overwrite_def)
  moreover have "\<exists>m' r'. sccp_decode rb (length pre) data_length r = Returns (Some m', r') \<and> message_type (message_at r' m') = mt \<and>
      (\<forall>ob. ob \<noteq> rb \<longrightarrow> message_ready r' ob m' fs vs opts)" if "mem r rb = pre @ w @ post"
  proof -
    have "holds_at (mem r rb) (length pre) (message_octets mt fs vs opts)" unfolding that w(1) by (rule holds_at_middle [OF refl])
    then show ?thesis using sccp_decode_ok [OF recv(1) msg(3) _ recv(2,3)] by blast
  qed
  ultimately show ?thesis using s'(1) by (intro exI [of _ s']) simp
qed

text \<open>The call, received by a process with fresh pools.\<close>

theorem sccp_roundtrip_witness:
  "\<exists>r s' m' r'. sccp_pools_ok r \<and> sccp_encode 0 1 1 0 0 0 call_state = Returns (15, s') \<and> mem r 0 = take 15 (drop 1 (mem s' 0)) \<and>
    sccp_decode 0 0 1 r = Returns (Some m', r') \<and> message_ready r' 1 m' [[1, 2, 3], [2]] [[0x42, 8]] [(DATA, [6, 7])]"
proof -
  let ?w = "[0x01, 1, 2, 3, 2, 2, 4, 2, 0x42, 8, 0x0f, 2, 6, 7, 0] :: u8 list"
  let ?fs = "[[1, 2, 3], [2]] :: u8 list list" and ?vs = "[[0x42, 8]] :: u8 list list" and ?opts = "[(DATA, [6, 7])] :: item list"
  have w: "?w = message_octets CR_CONNECTION_REQUEST ?fs ?vs ?opts" by (rule call_octets [symmetric])
  obtain r where r: "sccp_pools_ok r" "mem r = (\<lambda>_. ?w)" "\<And>pt. length (param_rings r pt) = 2"
    using sccp_init_pool_ok [of "call_state\<lparr>mem := (\<lambda>_. ?w)\<rparr>"] by (auto simp: call_state_def)
  have enough: "enough_objects r (message_items CR_CONNECTION_REQUEST ?fs ?vs ?opts)"
    using r(3) by (simp add: enough_objects_def message_items_def title_of_def address_title_def address_head_def)
  have rt: "\<exists>s'. sccp_encode 0 1 1 (int 0) 0 0 call_state = Returns (int (length ?w), s') \<and>
    (mem r 0 = [] @ take (length ?w) (drop (1 + 0) (mem s' 0)) @ [] \<longrightarrow>
      (\<exists>m' r'. sccp_decode 0 (length ([] :: u8 list)) 1 r = Returns (Some m', r') \<and>
        message_type (message_at r' m') = CR_CONNECTION_REQUEST \<and> (\<forall>ob. ob \<noteq> 0 \<longrightarrow> message_ready r' ob m' ?fs ?vs ?opts)))"
    by (rule sccp_roundtrip [OF call_ready _ call_sendable _ w _ _ r(1) enough]) (simp_all add: call_message)
  have w2: "?w = message_with (written_pointer CR_CONNECTION_REQUEST ?vs ?opts) CR_CONNECTION_REQUEST ?fs ?vs ?opts"
    using w by (simp add: message_octets_def written_pointer_def)
  have "\<exists>s'. sccp_encode 0 1 1 (int 0) 0 0 call_state = Returns (int (length ?w), s') \<and> mem s' 0 = overwrite (mem call_state 0) 1 ?w \<and>
      (\<forall>vb. vb \<noteq> 0 \<longrightarrow> mem s' vb = mem call_state vb) \<and> message_ready s' 0 0 ?fs ?vs ?opts"
    by (rule sccp_encode_ok [OF call_ready _ _ _ w2]) (simp_all add: call_message regular_message_def)
  then obtain s1 where s1: "sccp_encode 0 1 1 (int 0) 0 0 call_state = Returns (int (length ?w), s1)"
    "mem s1 0 = overwrite (mem call_state 0) 1 ?w" by blast
  have oct: "take 15 (drop 1 (mem s1 0)) = ?w" unfolding s1(2) by (simp add: overwrite_def call_message)
  have len: "length ?w = 15" by simp
  have "mem r 0 = [] @ take (length ?w) (drop (1 + 0) (mem s1 0)) @ []" unfolding len using r(2) oct by simp
  then obtain m' r' where "sccp_decode 0 0 1 r = Returns (Some m', r')" "message_ready r' 1 m' ?fs ?vs ?opts"
    using rt s1(1) by auto
  then show ?thesis using r(1,2) s1(1) oct by (intro exI [of _ r] exI [of _ s1] exI [of _ m'] exI [of _ r']) simp
qed

section \<open>Extended unitdata\<close>




section \<open>The length of the data\<close>

text \<open>
  C39. \<open>decode\<close> is told the length of the data and looks only at its sign: any two positive
  lengths give the same result. Data that end after the type of a unitdata message are read
  beyond their end, whatever length is given.
\<close>

theorem sccp_decode_length:
  "0 < n \<longrightarrow> 0 < n' \<longrightarrow> sccp_decode b q n s = sccp_decode b q n' s \<and>
    (sccp_pools_ok s \<and> mem s b = pre @ [smt_value UDT_UNITDATA] \<longrightarrow> sccp_decode b (length pre) n s = Undefined)"
proof (intro impI conjI)
  assume n: "0 < n" "0 < n'"
  have o: "optional_part bs b q n m i = optional_part bs b q n' m i" for bs m i
    by (intro ext) (simp add: optional_part_def process_optional_params_def)
  have i: "message_init mt bs b q n m = message_init mt bs b q n' m" for mt bs m
    using o by (cases mt) (simp_all add: message_inits)
  show "sccp_decode b q n s = sccp_decode b q n' s" unfolding sccp_decode_def i using n by simp
  assume "sccp_pools_ok s \<and> mem s b = pre @ [smt_value UDT_UNITDATA]"
  then have ok: "sccp_pools_ok s" and bs: "mem s b = pre @ [smt_value UDT_UNITDATA]" by simp_all
  let ?mt = UDT_UNITDATA and ?pt = PROTOCOL_CLASS
  let ?m = "hd (message_rings s ?mt)" and ?a = "hd (param_rings s ?pt)"
  obtain s1 where s1: "sccp_request_message ?mt s = Returns (Some ?m, s1)" "sccp_pools_ok s1" "param_rings s1 = param_rings s"
    "mem s1 = mem s" "param_at s1 = param_at s" "message_at s1 = message_at s" using sccp_request_message_ok [OF ok] by blast
  have m: "message_type (message_at s ?m) = ?mt"
    using sccp_pools_okD(6) [OF ok, of ?m ?mt] filled_ring [OF sccp_pools_okD(3) [OF ok]] by simp
  define s2 where "s2 = update_message ?m (\<lambda>x. x\<lparr>byte_pos := Suc (byte_pos x)\<rparr>)
    (update_message ?m (\<lambda>x. x\<lparr>byte_pos := 0, optional_params := []\<rparr>) s1)"
  have s2: "sccp_pools_ok s2" unfolding s2_def by (intro pools_update_message s1(2)) simp_all
  have s2': "param_rings s2 = param_rings s" "param_at s2 = param_at s" "byte_pos (message_at s2 ?m) = 1"
    using s1 by (simp_all add: s2_def update_message_def set_message_def)
  obtain s3 where s3': "sccp_request_param ?pt s2 = Returns (Some (hd (param_rings s2 ?pt)), s3)" "param_at s3 = param_at s2"
    using sccp_request_param_ok [OF s2] by blast
  have "param_rings s2 ?pt = param_rings s ?pt" using s2'(1) by (rule fun_cong)
  note s3 = s3' [unfolded this s2'(2)]
  have "well_made ?pt (param_at s ?a)" using sccp_pools_okD(4) [OF ok, of ?a ?pt] filled_ring [OF sccp_pools_okD(1) [OF ok]] by simp
  then have "\<exists>c h. members (param_at s ?a) = ProtocolClass c h" by (simp add: well_made_def classes)
  moreover have "byte_at (mem s b) (length pre + 1) = Undefined" using bs by (simp add: byte_at_def)
  ultimately have "fixed_part (mem s b) b (length pre) ?m ?pt ?pt 1 s2 = Undefined"
    using s3 s2'(3) by (auto simp: fixed_part_def last_fixed_part_def read_part_def sccp_param_init_def ProtocolClass_init_def
        set_part_def update_message_def set_message_def set_param_def Let_def)
  then show "sccp_decode b (length pre) n s = Undefined"
    using n(1) bs s1(1,4,6) m smt_of_value [of ?mt]
    by (simp add: sccp_decode_def UDT_UnitData_init_def skip_octets_def flip: s2_def)
qed

theorem sccp_decode_length_witness:
  "\<exists>r. sccp_decode 0 0 100 r = Undefined \<and> length (mem r 0) = 1 \<and> sccp_decode 0 0 1 r = sccp_decode 0 0 100 r"
proof -
  obtain r where r: "sccp_pools_ok r" "mem r = (\<lambda>_. [9])"
    using sccp_init_pool_ok [of "call_state\<lparr>mem := (\<lambda>_. [9])\<rparr>"] by (auto simp: call_state_def)
  have p: "(0::int) < 100" "(0::int) < 1" by simp_all
  note l = sccp_decode_length [of 100 1 0 0 r "[]", rule_format, OF p]
  have "sccp_decode 0 0 100 r = Undefined" using conjunct2 [OF l] r by simp
  moreover have "sccp_decode 0 0 100 r = sccp_decode 0 0 1 r" using l by blast
  ultimately show ?thesis using r(2) by (intro exI [of _ r]) simp
qed

section \<open>Party addresses\<close>

text \<open>
  The high octet of a signalling point code is not sent: \<open>encode\<close> of a party address
  computes it from the wrong bits and writes zero, so that point codes that agree in their
  low octet give the same octets.
\<close>

theorem sccp_point_code:
  "pa_octets (pa\<lparr>point_code := Some v\<rparr>) = pa_octets (pa\<lparr>point_code := Some (v AND 0xff)\<rparr>) \<and>
   (pa_octets pa = Returns os \<longrightarrow> point_code_indicator pa = Some True \<longrightarrow> os ! 2 = 0)"
proof (intro conjI impI)
  have z: "drop_bit 8 (0x3f::c_int) = 0" by (simp add: drop_bit_eq_div)
  have l: "ucast (v AND 0xff) = (ucast v :: u8)"
  proof -
    have m: "(0xff::c_int) = mask 8" by (simp add: mask_eq_exp_minus_1)
    show ?thesis unfolding m by (rule bit_word_eqI) (auto simp: bit_simps)
  qed
  show "pa_octets (pa\<lparr>point_code := Some v\<rparr>) = pa_octets (pa\<lparr>point_code := Some (v AND 0xff)\<rparr>)"
    by (cases "routing_indicator pa"; cases "global_title_indicator pa"; cases "ssn_indicator pa"; cases "point_code_indicator pa")
      (simp_all add: pa_octets_def z l)
  assume a: "pa_octets pa = Returns os" "point_code_indicator pa = Some True"
  show "os ! 2 = 0"
    using a(1) unfolding pa_octets_def a(2) z by (auto simp: and_then_Returns_iff the_ptr_Returns_iff)
qed

theorem sccp_point_code_witness:
  "pa_octets \<lparr>routing_indicator = Some 0x40, global_title_indicator = Some 0, ssn_indicator = Some True,
     point_code_indicator = Some True, point_code = Some 0x1234, subsystem_number = Some 8, global_title = None\<rparr> =
   Returns [0x43, 0x34, 0, 8]"
proof -
  let ?pa = "\<lparr>routing_indicator = Some 0x40, global_title_indicator = Some 0, ssn_indicator = Some True,
     point_code_indicator = Some True, point_code = Some 0x1234, subsystem_number = Some 8, global_title = None\<rparr> :: party_address"
  have v: "(0x1234::c_int) AND 0xff = 0x34" by simp
  have "pa_octets (?pa\<lparr>point_code := Some 0x34\<rparr>) = Returns [0x43, 0x34, 0, 8]"
    by (simp add: pa_octets_def)
  then show ?thesis using conjunct1 [OF sccp_point_code [where pa = ?pa and v = "0x1234" and os = "[]"]] unfolding v by simp
qed

section \<open>Returning objects\<close>

text \<open>
  A message given back right after it was taken leaves its pool as it was. A parameter or
  a global title does not: it is counted twice, and when the pool was full it is written
  behind the end of the array.
\<close>

theorem sccp_pool_return:
  assumes "item_ok it" "2 \<le> free_count it" "request_item it = Returns (a, it')"
  shows "return_message_item a it' = Returns it \<and> (free_count it = total_count it \<longrightarrow> return_param_item a it' = Undefined)"
proof (intro conjI impI)
  have i: "int (length (item_pool it)) = total_count it" "next_free_item it = item_pool it ! nat (free_count it - 1)"
    "free_count it \<le> total_count it" using assms(1) by (simp_all add: item_ok_def)
  have r: "a = next_free_item it" "it' = it\<lparr>free_count := free_count it - 1, next_free_item := item_pool it ! nat (free_count it - 2)\<rparr>"
    using assms(2,3) i by (auto simp: request_item_def item_at_def Let_def)
  have "(item_pool it)[nat (free_count it - 1) := item_pool it ! nat (free_count it - 1)] = item_pool it" by (rule list_update_id)
  then show "return_message_item a it' = Returns it" using r i assms(2) by (simp add: return_message_item_def)
  show "return_param_item a it' = Undefined" if "free_count it = total_count it"
    using r i that by (simp add: return_param_item_def Let_def)
qed

theorem sccp_pool_return_witness:
  "\<exists>it a it'. init_item_pool 5 (set_item_pool_size 2 PoolItem_new) = Returns it \<and> request_item it = Returns (a, it') \<and>
    return_message_item a it' = Returns it \<and> return_param_item a it' = Undefined"
proof -
  let ?it = "\<lparr>item_pool = [5, 6], next_free_item = 6, total_count = 2, free_count = 2\<rparr>"
  have i: "init_item_pool 5 (set_item_pool_size 2 PoolItem_new) = Returns ?it"
    by (simp add: init_item_pool_def set_item_pool_size_def PoolItem_new_def item_at_def upt_rec)
  have r: "request_item ?it = Returns (6, ?it\<lparr>free_count := 1, next_free_item := 5\<rparr>)" by (simp add: request_item_def item_at_def)
  have "item_ok ?it" by (simp add: item_ok_def)
  then have "return_message_item 6 (?it\<lparr>free_count := 1, next_free_item := 5\<rparr>) = Returns ?it \<and>
      return_param_item 6 (?it\<lparr>free_count := 1, next_free_item := 5\<rparr>) = Undefined"
    using sccp_pool_return [OF _ _ r] by simp
  then show ?thesis using i r by blast
qed

end
