(* ===== verification/Buffers.thy ===== *)
theory Buffers
  imports Octets
begin

text \<open>
  A memory of numbered buffers, for the codecs that keep no pools: writing, copying, and what a
  buffer holds at a place.
\<close>

type_synonym memory = "nat \<Rightarrow> u8 list"

definition mem_write :: "nat \<Rightarrow> nat \<Rightarrow> u8 list \<Rightarrow> memory \<Rightarrow> memory outcome" where
  "mem_write b q bs m = and_then (write_bytes (m b) q bs) (\<lambda>w. Returns (m(b := w)))"

text \<open>\<open>memcpy\<close> of a positive number of octets, undefined for NULL and for overlapping memory.\<close>

definition mem_copy :: "nat \<Rightarrow> nat \<Rightarrow> buf_ptr option \<Rightarrow> nat \<Rightarrow> memory \<Rightarrow> memory outcome" where
  "mem_copy b q src n m =
     and_then (the_ptr src) (\<lambda>(sb, sp).
     guard (sb \<noteq> b \<or> sp + n \<le> q \<or> q + n \<le> sp)
       (and_then (read_bytes (m sb) sp n) (\<lambda>bs. mem_write b q bs m)))"

section \<open>Writing\<close>

text \<open>The memory after octets have been written at a place.\<close>

definition written :: "nat \<Rightarrow> nat \<Rightarrow> u8 list \<Rightarrow> memory \<Rightarrow> memory" where
  "written b p bs m = m(b := overwrite (m b) p bs)"

lemma written_other [simp]: "b' \<noteq> b \<Longrightarrow> written b p bs m b' = m b'"
  by (simp add: written_def)

lemma length_written [simp]: "p + length bs \<le> length (m b) \<Longrightarrow> length (written b p bs m b) = length (m b)"
  by (simp add: written_def)

lemma nth_written: "p + length bs \<le> length (m b) \<Longrightarrow> i < length bs \<Longrightarrow> written b p bs m b ! (p + i) = bs ! i"
  by (simp add: written_def overwrite_def nth_append)

lemma nth_written_other:
  "p + length bs \<le> length (m b) \<Longrightarrow> i < p \<or> p + length bs \<le> i \<Longrightarrow> i < length (m b) \<Longrightarrow> written b p bs m b ! i = m b ! i"
  by (auto simp: written_def overwrite_def nth_append)

lemma write_ok: "p + length bs \<le> length (m b) \<Longrightarrow> mem_write b p bs m = Returns (written b p bs m)"
  by (simp add: mem_write_def write_bytes_overwrite written_def)

lemma written_written:
  "p + length bs + length cs \<le> length (m b) \<Longrightarrow> q = p + length bs \<Longrightarrow> written b q cs (written b p bs m) = written b p (bs @ cs) m"
  by (simp add: written_def overwrite_append)

lemma written_before:
  "p + length as + length bs \<le> length (m b) \<Longrightarrow> q = p + length as \<Longrightarrow> written b p as (written b q bs m) = written b p (as @ bs) m"
  by (simp add: written_def overwrite_before)

lemma write_written:
  "p + length bs + length cs \<le> length (m b) \<Longrightarrow> q = p + length bs \<Longrightarrow>
    mem_write b q cs (written b p bs m) = Returns (written b p (bs @ cs) m)"
  by (simp add: write_ok written_written)

lemma copy_written:
  assumes "sb \<noteq> b" "sp + n \<le> length (m sb)" "p + length bs + n \<le> length (m b)" "q = p + length bs"
  shows "mem_copy b q (Some (sb, sp)) n (written b p bs m) = Returns (written b p (bs @ take n (drop sp (m sb))) m)"
  using assms by (simp add: mem_copy_def read_bytes_def write_written)

section \<open>Octets at a place\<close>

definition octets_at :: "u8 list \<Rightarrow> nat \<Rightarrow> u8 list \<Rightarrow> bool" where
  "octets_at bs q w \<longleftrightarrow> q + length w \<le> length bs \<and> take (length w) (drop q bs) = w"

lemma octets_atD:
  assumes "octets_at bs q w"
  shows "i < length w \<Longrightarrow> q + i < length bs \<and> bs ! (q + i) = w ! i"
proof -
  assume i: "i < length w"
  have "w ! i = take (length w) (drop q bs) ! i" using assms by (simp add: octets_at_def)
  then show ?thesis using assms i by (simp add: octets_at_def)
qed

lemma octets_at_append: "octets_at bs q (v @ w) \<Longrightarrow> octets_at bs q v \<and> octets_at bs (q + length v) w"
  unfolding octets_at_def by (auto simp: take_add add.commute [of q])

lemma octets_at_written: "p + length w \<le> length (m b) \<Longrightarrow> octets_at (written b p w m b) p w"
  by (simp add: octets_at_def written_def overwrite_def)

section \<open>Bits of small numbers\<close>

lemma small_bit: "bit (v::c_int) n \<Longrightarrow> v < 2 ^ k \<Longrightarrow> k < 32 \<Longrightarrow> n < k"
proof (rule ccontr)
  assume b: "bit v n" and v: "v < 2 ^ k" "k < 32" and "\<not> n < k"
  have "unat v < unat ((2::c_int) ^ k)" using v(1) by (simp add: word_less_nat_alt)
  also have "\<dots> = 2 ^ k" using v(2) power_strict_increasing [of k 32 "2::nat"] unat_of_nat_32 [of "2 ^ k"] by simp
  also have "\<dots> \<le> 2 ^ n" using \<open>\<not> n < k\<close> by simp
  finally have "unat v div 2 ^ n = 0" by simp
  moreover have "bit (unat v) n" using b bit_imp_le_length [OF b] by (simp add: bit_unsigned_iff)
  ultimately show False by (simp add: bit_iff_odd)
qed

lemma small_bits_iff: "k < 32 \<Longrightarrow> (v::c_int) < 2 ^ k \<longleftrightarrow> (\<forall>n. bit v n \<longrightarrow> n < k)"
proof
  assume k: "k < 32" and "\<forall>n. bit v n \<longrightarrow> n < k"
  then have "take_bit k v = v" by (intro bit_word_eqI) (auto simp: bit_simps)
  then have "unat v = take_bit k (unat v)" by (metis unsigned_take_bit_eq)
  then have "unat v < 2 ^ k" by (metis take_bit_nat_less_exp)
  also have "\<dots> = unat ((2::c_int) ^ k)"
    using k power_strict_increasing [of k 32 "2::nat"] unat_of_nat_32 [of "2 ^ k"] by simp
  finally show "v < 2 ^ k" by (simp add: word_less_nat_alt)
qed (use small_bit in blast)

lemma octet_below: "ucast (x::u8) < (2 ^ 8 :: c_int)"
  by (subst small_bits_iff) (auto simp: bit_simps dest: bit_imp_le_length)

lemma octet_of_small: "v < 2 ^ 8 \<Longrightarrow> ucast (ucast (v::c_int) :: u8) = v"
  by (rule bit_word_eqI) (auto simp: bit_simps dest: small_bit [of _ _ 8])

lemma signed_octet: "v < 2 ^ 8 \<Longrightarrow> scast (ucast (v::c_int) :: u8) = v \<longleftrightarrow> v < 2 ^ 7"
proof
  assume v: "v < 2 ^ 8" and e: "scast (ucast v :: u8) = v"
  have "\<not> bit v 31" using small_bit [OF _ v, of 31] by auto
  then have "\<not> bit (scast (ucast v :: u8) :: c_int) 31" using e by simp
  then have "\<not> bit v 7" by (simp add: bit_simps)
  show "v < 2 ^ 7"
  proof (subst small_bits_iff; clarsimp)
    fix n
    assume "bit v n"
    then have "n < 8" "n \<noteq> 7" using small_bit [OF _ v, of n] \<open>\<not> bit v 7\<close> by auto
    then show "n < 7" by simp
  qed
next
  assume "v < 2 ^ 7"
  then have h: "bit v n \<Longrightarrow> n < 7" for n by (rule small_bit [rotated]) simp_all
  show "scast (ucast v :: u8) = v"
  proof (rule bit_word_eqI)
    fix n
    show "bit (scast (ucast v :: u8) :: c_int) n = bit v n" if "n < LENGTH(32)"
      using that h [of n] h [of 7] by (cases "n < 7") (auto simp: bit_simps)
  qed
qed

end
