(* ===== verification/Mtp3.thy ===== *)
theory Mtp3
  imports Buffers
begin

text \<open>
  The MTP3 codec, \<^verbatim>\<open>src/mtp3/mtp3.h\<close> and \<^verbatim>\<open>src/mtp3/mtp3.cpp\<close>: packets with their routing
  label, and the messages of network management and testing. Buffers have numbers, a pointer is
  a buffer and a position. A member no constructor sets is \<open>None\<close> until it is set. \<open>char\<close> is
  signed; a left shift drops the bits that leave the \<open>int\<close>, as GCC defines it, and is undefined
  for a count of 32 or more. The target is little-endian, so \<open>htobe\<close> and \<open>betoh\<close> swap octets.
\<close>

section \<open>Enumerations\<close>

text \<open>An enum holds any \<open>int\<close>; the indicators of a packet are taken from an octet.\<close>

datatype ServiceIndicatorType =
    SNMM | SNTMM | SCCP | TUP | ISUP | DUP_1 | DUP_2 | MTP_TESTING_USER_PART | BROADBAND_ISUP | SAT_ISUP

primrec si_value :: "ServiceIndicatorType \<Rightarrow> c_int" where
  "si_value SNMM = 0x00"
| "si_value SNTMM = 0x01"
| "si_value SCCP = 0x03"
| "si_value TUP = 0x04"
| "si_value ISUP = 0x05"
| "si_value DUP_1 = 0x06"
| "si_value DUP_2 = 0x07"
| "si_value MTP_TESTING_USER_PART = 0x08"
| "si_value BROADBAND_ISUP = 0x09"
| "si_value SAT_ISUP = 0x0a"

datatype MessageGroupType = CHM | ECM | FCM | TFM | RSM | MIM | TRM | DLM | UFC | TESTM

primrec mg_value :: "MessageGroupType \<Rightarrow> c_int" where
  "mg_value CHM = push_bit 8 (si_value SNMM) + 0x01"
| "mg_value ECM = push_bit 8 (si_value SNMM) + 0x02"
| "mg_value FCM = push_bit 8 (si_value SNMM) + 0x03"
| "mg_value TFM = push_bit 8 (si_value SNMM) + 0x04"
| "mg_value RSM = push_bit 8 (si_value SNMM) + 0x05"
| "mg_value MIM = push_bit 8 (si_value SNMM) + 0x06"
| "mg_value TRM = push_bit 8 (si_value SNMM) + 0x07"
| "mg_value DLM = push_bit 8 (si_value SNMM) + 0x08"
| "mg_value UFC = push_bit 8 (si_value SNMM) + 0x0a"
| "mg_value TESTM = push_bit 8 (si_value SNTMM) + 0x01"

datatype MTP3MessageType =
    CBA | CBD | CNP | CNS | COA | COO | CSS | DLC | ECA | ECO
  | LFU | LIA | LID | LIN | LLT | LUA | LUN | LRT | RCT | RSR
  | RST | TFA | TFC | TFP | TFR | TRA | UPU | SLTM | SLTA

primrec mtp3_type_value :: "MTP3MessageType \<Rightarrow> c_int" where
  "mtp3_type_value CBA = mg_value CHM + push_bit 4 6"
| "mtp3_type_value CBD = mg_value CHM + push_bit 4 5"
| "mtp3_type_value CNP = mg_value DLM + push_bit 4 4"
| "mtp3_type_value CNS = mg_value DLM + push_bit 4 3"
| "mtp3_type_value COA = mg_value CHM + push_bit 4 2"
| "mtp3_type_value COO = mg_value CHM + push_bit 4 1"
| "mtp3_type_value CSS = mg_value DLM + push_bit 4 2"
| "mtp3_type_value DLC = mg_value DLM + push_bit 4 1"
| "mtp3_type_value ECA = mg_value ECM + push_bit 4 2"
| "mtp3_type_value ECO = mg_value ECM + push_bit 4 1"
| "mtp3_type_value LFU = mg_value MIM + push_bit 4 6"
| "mtp3_type_value LIA = mg_value MIM + push_bit 4 3"
| "mtp3_type_value LID = mg_value MIM + push_bit 4 5"
| "mtp3_type_value LIN = mg_value MIM + push_bit 4 1"
| "mtp3_type_value LLT = mg_value MIM + push_bit 4 7"
| "mtp3_type_value LUA = mg_value MIM + push_bit 4 4"
| "mtp3_type_value LUN = mg_value MIM + push_bit 4 2"
| "mtp3_type_value LRT = mg_value MIM + push_bit 4 8"
| "mtp3_type_value RCT = mg_value FCM + push_bit 4 1"
| "mtp3_type_value RSR = mg_value RSM + push_bit 4 2"
| "mtp3_type_value RST = mg_value RSM + push_bit 4 1"
| "mtp3_type_value TFA = mg_value TFM + push_bit 4 5"
| "mtp3_type_value TFC = mg_value FCM + push_bit 4 2"
| "mtp3_type_value TFP = mg_value TFM + push_bit 4 1"
| "mtp3_type_value TFR = mg_value TFM + push_bit 4 3"
| "mtp3_type_value TRA = mg_value TRM + push_bit 4 1"
| "mtp3_type_value UPU = mg_value UFC + push_bit 4 1"
| "mtp3_type_value SLTM = mg_value TESTM + push_bit 4 1"
| "mtp3_type_value SLTA = mg_value TESTM + push_bit 4 2"

section \<open>Messages\<close>

text \<open>
  The members the classes add to \<open>MTP3Message\<close>: the sequence number of changeover, the code of
  changeback, the affected destination, the data link, destination, user part and cause of an
  unavailable user part, and the pattern of a link test with its length.
\<close>

datatype mtp3_members =
    Plain
  | Fsn "c_int option"
  | Changeback_code "c_int option"
  | Destination "c_int option"
  | Data_link_identity "c_int option"
  | Unavailable "c_int option" "c_int option" "c_int option"
  | Test_pattern "c_int option" "buf_ptr option option"

record MTP3Message =
  message_group :: MessageGroupType
  message_type :: MTP3MessageType
  members :: mtp3_members

text \<open>The constructors. The class of a message is its type; \<open>Slta\<close> sets neither pattern nor length.\<close>

primrec new_mtp3_message :: "MTP3MessageType \<Rightarrow> MTP3Message" where
  "new_mtp3_message CBA = \<lparr>message_group = CHM, message_type = CBA, members = Changeback_code None\<rparr>"
| "new_mtp3_message CBD = \<lparr>message_group = CHM, message_type = CBD, members = Changeback_code None\<rparr>"
| "new_mtp3_message CNP = \<lparr>message_group = DLM, message_type = CNP, members = Plain\<rparr>"
| "new_mtp3_message CNS = \<lparr>message_group = DLM, message_type = CNS, members = Plain\<rparr>"
| "new_mtp3_message COA = \<lparr>message_group = CHM, message_type = COA, members = Fsn None\<rparr>"
| "new_mtp3_message COO = \<lparr>message_group = CHM, message_type = COO, members = Fsn None\<rparr>"
| "new_mtp3_message CSS = \<lparr>message_group = DLM, message_type = CSS, members = Plain\<rparr>"
| "new_mtp3_message DLC = \<lparr>message_group = DLM, message_type = DLC, members = Data_link_identity None\<rparr>"
| "new_mtp3_message ECA = \<lparr>message_group = ECM, message_type = ECA, members = Plain\<rparr>"
| "new_mtp3_message ECO = \<lparr>message_group = ECM, message_type = ECO, members = Plain\<rparr>"
| "new_mtp3_message LFU = \<lparr>message_group = MIM, message_type = LFU, members = Plain\<rparr>"
| "new_mtp3_message LIA = \<lparr>message_group = MIM, message_type = LIA, members = Plain\<rparr>"
| "new_mtp3_message LID = \<lparr>message_group = MIM, message_type = LID, members = Plain\<rparr>"
| "new_mtp3_message LIN = \<lparr>message_group = MIM, message_type = LIN, members = Plain\<rparr>"
| "new_mtp3_message LLT = \<lparr>message_group = MIM, message_type = LLT, members = Plain\<rparr>"
| "new_mtp3_message LUA = \<lparr>message_group = MIM, message_type = LUA, members = Plain\<rparr>"
| "new_mtp3_message LUN = \<lparr>message_group = MIM, message_type = LUN, members = Plain\<rparr>"
| "new_mtp3_message LRT = \<lparr>message_group = MIM, message_type = LRT, members = Plain\<rparr>"
| "new_mtp3_message RCT = \<lparr>message_group = FCM, message_type = RCT, members = Plain\<rparr>"
| "new_mtp3_message RSR = \<lparr>message_group = RSM, message_type = RSR, members = Destination None\<rparr>"
| "new_mtp3_message RST = \<lparr>message_group = RSM, message_type = RST, members = Destination None\<rparr>"
| "new_mtp3_message TFA = \<lparr>message_group = TFM, message_type = TFA, members = Destination None\<rparr>"
| "new_mtp3_message TFC = \<lparr>message_group = FCM, message_type = TFC, members = Destination None\<rparr>"
| "new_mtp3_message TFP = \<lparr>message_group = TFM, message_type = TFP, members = Destination None\<rparr>"
| "new_mtp3_message TFR = \<lparr>message_group = TFM, message_type = TFR, members = Destination None\<rparr>"
| "new_mtp3_message TRA = \<lparr>message_group = TRM, message_type = TRA, members = Plain\<rparr>"
| "new_mtp3_message UPU = \<lparr>message_group = UFC, message_type = UPU, members = Unavailable None None None\<rparr>"
| "new_mtp3_message SLTM = \<lparr>message_group = TESTM, message_type = SLTM, members = Test_pattern (Some 0) (Some None)\<rparr>"
| "new_mtp3_message SLTA = \<lparr>message_group = TESTM, message_type = SLTA, members = Test_pattern None None\<rparr>"

text \<open>Reading a member; it is undefined before it is set, and in another class.\<close>

definition get_fsn :: "MTP3Message \<Rightarrow> c_int outcome" where
  "get_fsn d = (case members d of Fsn v \<Rightarrow> the_ptr v | _ \<Rightarrow> Undefined)"

definition get_changeback_code :: "MTP3Message \<Rightarrow> c_int outcome" where
  "get_changeback_code d = (case members d of Changeback_code v \<Rightarrow> the_ptr v | _ \<Rightarrow> Undefined)"

definition get_destination :: "MTP3Message \<Rightarrow> c_int outcome" where
  "get_destination d = (case members d of Destination v \<Rightarrow> the_ptr v | _ \<Rightarrow> Undefined)"

definition get_data_link_identity :: "MTP3Message \<Rightarrow> c_int outcome" where
  "get_data_link_identity d = (case members d of Data_link_identity v \<Rightarrow> the_ptr v | _ \<Rightarrow> Undefined)"

definition get_unavailable :: "MTP3Message \<Rightarrow> (c_int \<times> c_int \<times> c_int) outcome" where
  "get_unavailable d =
     (case members d of Unavailable (Some dest) (Some upid) (Some cause) \<Rightarrow> Returns (dest, upid, cause) | _ \<Rightarrow> Undefined)"

text \<open>The pattern itself is read only where the length is positive.\<close>

definition get_test_pattern :: "MTP3Message \<Rightarrow> (c_int \<times> buf_ptr option option) outcome" where
  "get_test_pattern d =
     (case members d of Test_pattern n src \<Rightarrow> and_then (the_ptr n) (\<lambda>n. Returns (n, src)) | _ \<Rightarrow> Undefined)"

section \<open>Byte order\<close>

text \<open>\<open>htobe16\<close> takes an \<open>int\<close> to the 16 bits it swaps.\<close>

definition bswap16 :: "c_int \<Rightarrow> c_int" where
  "bswap16 v = push_bit 8 (v AND 0xff) OR (drop_bit 8 v AND 0xff)"

definition bswap32 :: "c_int \<Rightarrow> c_int" where
  "bswap32 v =
     push_bit 24 (v AND 0xff) OR push_bit 16 (drop_bit 8 v AND 0xff) OR
     push_bit 8 (drop_bit 16 v AND 0xff) OR (drop_bit 24 v AND 0xff)"

text \<open>
  In \<^verbatim>\<open>(data[0] & 0xff) << 8 + (data[1] & 0xff)\<close> the sum is the count of the shift, and so in the
  expression of three octets.
\<close>

definition shifted16 :: "u8 list \<Rightarrow> nat \<Rightarrow> c_int outcome" where
  "shifted16 bs q =
     and_then (byte_at bs q) (\<lambda>x. and_then (byte_at bs (q + 1)) (\<lambda>y.
     let count = 8 + unat y
     in guard (count < 32) (Returns (bswap16 (push_bit count (ucast x))))))"

definition shifted32 :: "u8 list \<Rightarrow> nat \<Rightarrow> c_int outcome" where
  "shifted32 bs q =
     and_then (byte_at bs q) (\<lambda>x. and_then (byte_at bs (q + 1)) (\<lambda>y. and_then (byte_at bs (q + 2)) (\<lambda>z.
     let count = 24 + unat y * 2 ^ 16 + unat z * 2 ^ 8
     in guard (count < 32) (Returns (bswap32 (push_bit count (ucast x)))))))"

section \<open>The classes\<close>

text \<open>\<open>encode\<close> starts with the heading octet: the low octet of the message type.\<close>

definition write_heading :: "MTP3Message \<Rightarrow> nat \<Rightarrow> nat \<Rightarrow> c_int \<Rightarrow> memory \<Rightarrow> (nat \<times> memory) outcome" where
  "write_heading d b q offset m =
     and_then (ptr_add q offset) (\<lambda>p.
     and_then (mem_write b p [ucast (mtp3_type_value (message_type d))] m) (\<lambda>m. Returns (p + 1, m)))"

text \<open>
  \<open>init\<close> gets the octets of buffer \<open>b\<close>, the position of the message and the object, and ignores the
  length. \<open>encode\<close> ignores the length of the buffer and never sets the length of the result.
\<close>

definition Changeover_order_init :: "u8 list \<Rightarrow> nat \<Rightarrow> nat \<Rightarrow> MTP3Message \<Rightarrow> MTP3Message outcome" where
  "Changeover_order_init bs b q d =
     and_then (byte_at bs (q + 1)) (\<lambda>v. Returns (d\<lparr>members := Fsn (Some (scast v))\<rparr>))"

definition Changeover_order_encode :: "MTP3Message \<Rightarrow> nat \<Rightarrow> nat \<Rightarrow> c_int \<Rightarrow> memory \<Rightarrow> memory outcome" where
  "Changeover_order_encode d b q offset m =
     and_then (write_heading d b q offset m) (\<lambda>(p, m).
     and_then (get_fsn d) (\<lambda>v. mem_write b p [ucast v] m))"

definition Changeover_ack_init :: "u8 list \<Rightarrow> nat \<Rightarrow> nat \<Rightarrow> MTP3Message \<Rightarrow> MTP3Message outcome" where
  "Changeover_ack_init bs b q d =
     and_then (byte_at bs (q + 1)) (\<lambda>v. Returns (d\<lparr>members := Fsn (Some (scast v))\<rparr>))"

definition Changeover_ack_encode :: "MTP3Message \<Rightarrow> nat \<Rightarrow> nat \<Rightarrow> c_int \<Rightarrow> memory \<Rightarrow> memory outcome" where
  "Changeover_ack_encode d b q offset m =
     and_then (write_heading d b q offset m) (\<lambda>(p, m).
     and_then (get_fsn d) (\<lambda>v. mem_write b p [ucast v] m))"

definition Changeback_declaration_init :: "u8 list \<Rightarrow> nat \<Rightarrow> nat \<Rightarrow> MTP3Message \<Rightarrow> MTP3Message outcome" where
  "Changeback_declaration_init bs b q d =
     and_then (byte_at bs (q + 1)) (\<lambda>v. Returns (d\<lparr>members := Changeback_code (Some (scast v))\<rparr>))"

definition Changeback_declaration_encode :: "MTP3Message \<Rightarrow> nat \<Rightarrow> nat \<Rightarrow> c_int \<Rightarrow> memory \<Rightarrow> memory outcome" where
  "Changeback_declaration_encode d b q offset m =
     and_then (write_heading d b q offset m) (\<lambda>(p, m).
     and_then (get_changeback_code d) (\<lambda>v. mem_write b p [ucast v] m))"

definition Changeback_ack_init :: "u8 list \<Rightarrow> nat \<Rightarrow> nat \<Rightarrow> MTP3Message \<Rightarrow> MTP3Message outcome" where
  "Changeback_ack_init bs b q d =
     and_then (byte_at bs (q + 1)) (\<lambda>v. Returns (d\<lparr>members := Changeback_code (Some (scast v))\<rparr>))"

definition Changeback_ack_encode :: "MTP3Message \<Rightarrow> nat \<Rightarrow> nat \<Rightarrow> c_int \<Rightarrow> memory \<Rightarrow> memory outcome" where
  "Changeback_ack_encode d b q offset m =
     and_then (write_heading d b q offset m) (\<lambda>(p, m).
     and_then (get_changeback_code d) (\<lambda>v. mem_write b p [ucast v] m))"

definition EmergencyChageover_order_encode :: "MTP3Message \<Rightarrow> nat \<Rightarrow> nat \<Rightarrow> c_int \<Rightarrow> memory \<Rightarrow> memory outcome" where
  "EmergencyChageover_order_encode d b q offset m =
     and_then (write_heading d b q offset m) (\<lambda>(p, m). Returns m)"

definition EmergencyChageover_ack_encode :: "MTP3Message \<Rightarrow> nat \<Rightarrow> nat \<Rightarrow> c_int \<Rightarrow> memory \<Rightarrow> memory outcome" where
  "EmergencyChageover_ack_encode d b q offset m =
     and_then (write_heading d b q offset m) (\<lambda>(p, m). Returns m)"

definition TransferProhibited_init :: "u8 list \<Rightarrow> nat \<Rightarrow> nat \<Rightarrow> MTP3Message \<Rightarrow> MTP3Message outcome" where
  "TransferProhibited_init bs b q d =
     and_then (shifted16 bs (q + 1)) (\<lambda>v. Returns (d\<lparr>members := Destination (Some v)\<rparr>))"

definition TransferProhibited_encode :: "MTP3Message \<Rightarrow> nat \<Rightarrow> nat \<Rightarrow> c_int \<Rightarrow> memory \<Rightarrow> memory outcome" where
  "TransferProhibited_encode d b q offset m =
     and_then (write_heading d b q offset m) (\<lambda>(p, m).
     and_then (get_destination d) (\<lambda>v. mem_write b p (be16 (bswap16 v)) m))"

definition TransferAllowed_init :: "u8 list \<Rightarrow> nat \<Rightarrow> nat \<Rightarrow> MTP3Message \<Rightarrow> MTP3Message outcome" where
  "TransferAllowed_init bs b q d =
     and_then (shifted16 bs (q + 1)) (\<lambda>v. Returns (d\<lparr>members := Destination (Some v)\<rparr>))"

definition TransferAllowed_encode :: "MTP3Message \<Rightarrow> nat \<Rightarrow> nat \<Rightarrow> c_int \<Rightarrow> memory \<Rightarrow> memory outcome" where
  "TransferAllowed_encode d b q offset m =
     and_then (write_heading d b q offset m) (\<lambda>(p, m).
     and_then (get_destination d) (\<lambda>v. mem_write b p (be16 (bswap16 v)) m))"

definition TransferRestricted_init :: "u8 list \<Rightarrow> nat \<Rightarrow> nat \<Rightarrow> MTP3Message \<Rightarrow> MTP3Message outcome" where
  "TransferRestricted_init bs b q d =
     and_then (shifted16 bs (q + 1)) (\<lambda>v. Returns (d\<lparr>members := Destination (Some v)\<rparr>))"

definition TransferRestricted_encode :: "MTP3Message \<Rightarrow> nat \<Rightarrow> nat \<Rightarrow> c_int \<Rightarrow> memory \<Rightarrow> memory outcome" where
  "TransferRestricted_encode d b q offset m =
     and_then (write_heading d b q offset m) (\<lambda>(p, m).
     and_then (get_destination d) (\<lambda>v. mem_write b p (be16 (bswap16 v)) m))"

definition RouteSetTestProhibitedDest_init :: "u8 list \<Rightarrow> nat \<Rightarrow> nat \<Rightarrow> MTP3Message \<Rightarrow> MTP3Message outcome" where
  "RouteSetTestProhibitedDest_init bs b q d =
     and_then (shifted16 bs (q + 1)) (\<lambda>v. Returns (d\<lparr>members := Destination (Some v)\<rparr>))"

definition RouteSetTestProhibitedDest_encode :: "MTP3Message \<Rightarrow> nat \<Rightarrow> nat \<Rightarrow> c_int \<Rightarrow> memory \<Rightarrow> memory outcome" where
  "RouteSetTestProhibitedDest_encode d b q offset m =
     and_then (write_heading d b q offset m) (\<lambda>(p, m).
     and_then (get_destination d) (\<lambda>v. mem_write b p (be16 (bswap16 v)) m))"

definition RouteSetTestRestrictedDest_init :: "u8 list \<Rightarrow> nat \<Rightarrow> nat \<Rightarrow> MTP3Message \<Rightarrow> MTP3Message outcome" where
  "RouteSetTestRestrictedDest_init bs b q d =
     and_then (shifted16 bs (q + 1)) (\<lambda>v. Returns (d\<lparr>members := Destination (Some v)\<rparr>))"

definition RouteSetTestRestrictedDest_encode :: "MTP3Message \<Rightarrow> nat \<Rightarrow> nat \<Rightarrow> c_int \<Rightarrow> memory \<Rightarrow> memory outcome" where
  "RouteSetTestRestrictedDest_encode d b q offset m =
     and_then (write_heading d b q offset m) (\<lambda>(p, m).
     and_then (get_destination d) (\<lambda>v. mem_write b p (be16 (bswap16 v)) m))"

definition LinkInhibit_encode :: "MTP3Message \<Rightarrow> nat \<Rightarrow> nat \<Rightarrow> c_int \<Rightarrow> memory \<Rightarrow> memory outcome" where
  "LinkInhibit_encode d b q offset m =
     and_then (write_heading d b q offset m) (\<lambda>(p, m). Returns m)"

definition LinkUninhibit_encode :: "MTP3Message \<Rightarrow> nat \<Rightarrow> nat \<Rightarrow> c_int \<Rightarrow> memory \<Rightarrow> memory outcome" where
  "LinkUninhibit_encode d b q offset m =
     and_then (write_heading d b q offset m) (\<lambda>(p, m). Returns m)"

definition LinkInhibited_ack_encode :: "MTP3Message \<Rightarrow> nat \<Rightarrow> nat \<Rightarrow> c_int \<Rightarrow> memory \<Rightarrow> memory outcome" where
  "LinkInhibited_ack_encode d b q offset m =
     and_then (write_heading d b q offset m) (\<lambda>(p, m). Returns m)"

definition LinkUninhibited_ack_encode :: "MTP3Message \<Rightarrow> nat \<Rightarrow> nat \<Rightarrow> c_int \<Rightarrow> memory \<Rightarrow> memory outcome" where
  "LinkUninhibited_ack_encode d b q offset m =
     and_then (write_heading d b q offset m) (\<lambda>(p, m). Returns m)"

definition LinkInhibit_denied_encode :: "MTP3Message \<Rightarrow> nat \<Rightarrow> nat \<Rightarrow> c_int \<Rightarrow> memory \<Rightarrow> memory outcome" where
  "LinkInhibit_denied_encode d b q offset m =
     and_then (write_heading d b q offset m) (\<lambda>(p, m). Returns m)"

definition LinkForceUninhibit_encode :: "MTP3Message \<Rightarrow> nat \<Rightarrow> nat \<Rightarrow> c_int \<Rightarrow> memory \<Rightarrow> memory outcome" where
  "LinkForceUninhibit_encode d b q offset m =
     and_then (write_heading d b q offset m) (\<lambda>(p, m). Returns m)"

definition LinkLocalInhibitTest_encode :: "MTP3Message \<Rightarrow> nat \<Rightarrow> nat \<Rightarrow> c_int \<Rightarrow> memory \<Rightarrow> memory outcome" where
  "LinkLocalInhibitTest_encode d b q offset m =
     and_then (write_heading d b q offset m) (\<lambda>(p, m). Returns m)"

definition LinkRemoteInhibitTest_encode :: "MTP3Message \<Rightarrow> nat \<Rightarrow> nat \<Rightarrow> c_int \<Rightarrow> memory \<Rightarrow> memory outcome" where
  "LinkRemoteInhibitTest_encode d b q offset m =
     and_then (write_heading d b q offset m) (\<lambda>(p, m). Returns m)"

definition TrafficRestartAllowed_encode :: "MTP3Message \<Rightarrow> nat \<Rightarrow> nat \<Rightarrow> c_int \<Rightarrow> memory \<Rightarrow> memory outcome" where
  "TrafficRestartAllowed_encode d b q offset m =
     and_then (write_heading d b q offset m) (\<lambda>(p, m). Returns m)"

definition DataLinkConn_order_init :: "u8 list \<Rightarrow> nat \<Rightarrow> nat \<Rightarrow> MTP3Message \<Rightarrow> MTP3Message outcome" where
  "DataLinkConn_order_init bs b q d =
     and_then (shifted16 bs (q + 1)) (\<lambda>v. Returns (d\<lparr>members := Data_link_identity (Some v)\<rparr>))"

definition DataLinkConn_order_encode :: "MTP3Message \<Rightarrow> nat \<Rightarrow> nat \<Rightarrow> c_int \<Rightarrow> memory \<Rightarrow> memory outcome" where
  "DataLinkConn_order_encode d b q offset m =
     and_then (write_heading d b q offset m) (\<lambda>(p, m).
     and_then (get_data_link_identity d) (\<lambda>v. mem_write b p (be16 (bswap16 v)) m))"

definition ConnSuccessful_encode :: "MTP3Message \<Rightarrow> nat \<Rightarrow> nat \<Rightarrow> c_int \<Rightarrow> memory \<Rightarrow> memory outcome" where
  "ConnSuccessful_encode d b q offset m =
     and_then (write_heading d b q offset m) (\<lambda>(p, m). Returns m)"

definition ConnNotSuccessful_encode :: "MTP3Message \<Rightarrow> nat \<Rightarrow> nat \<Rightarrow> c_int \<Rightarrow> memory \<Rightarrow> memory outcome" where
  "ConnNotSuccessful_encode d b q offset m =
     and_then (write_heading d b q offset m) (\<lambda>(p, m). Returns m)"

definition ConnNotPossible_encode :: "MTP3Message \<Rightarrow> nat \<Rightarrow> nat \<Rightarrow> c_int \<Rightarrow> memory \<Rightarrow> memory outcome" where
  "ConnNotPossible_encode d b q offset m =
     and_then (write_heading d b q offset m) (\<lambda>(p, m). Returns m)"

definition TransferControlled_init :: "u8 list \<Rightarrow> nat \<Rightarrow> nat \<Rightarrow> MTP3Message \<Rightarrow> MTP3Message outcome" where
  "TransferControlled_init bs b q d =
     and_then (shifted16 bs q) (\<lambda>v. Returns (d\<lparr>members := Destination (Some v)\<rparr>))"

definition TransferControlled_encode :: "MTP3Message \<Rightarrow> nat \<Rightarrow> nat \<Rightarrow> c_int \<Rightarrow> memory \<Rightarrow> memory outcome" where
  "TransferControlled_encode d b q offset m =
     and_then (write_heading d b q offset m) (\<lambda>(p, m).
     and_then (get_destination d) (\<lambda>v. mem_write b p (be16 (bswap16 v)) m))"

definition RouteSetCongestionTest_encode :: "MTP3Message \<Rightarrow> nat \<Rightarrow> nat \<Rightarrow> c_int \<Rightarrow> memory \<Rightarrow> memory outcome" where
  "RouteSetCongestionTest_encode d b q offset m =
     and_then (write_heading d b q offset m) (\<lambda>(p, m). Returns m)"

definition UserPartUnavailable_init :: "u8 list \<Rightarrow> nat \<Rightarrow> nat \<Rightarrow> MTP3Message \<Rightarrow> MTP3Message outcome" where
  "UserPartUnavailable_init bs b q d =
     and_then (shifted32 bs (q + 1)) (\<lambda>tmp.
     Returns (d\<lparr>members := Unavailable (Some (tmp AND 0x3fff)) (Some (signed_drop_bit 16 tmp AND 0x0f))
       (Some (signed_drop_bit 20 tmp AND 0x0f))\<rparr>))"

definition UserPartUnavailable_encode :: "MTP3Message \<Rightarrow> nat \<Rightarrow> nat \<Rightarrow> c_int \<Rightarrow> memory \<Rightarrow> memory outcome" where
  "UserPartUnavailable_encode d b q offset m =
     and_then (write_heading d b q offset m) (\<lambda>(p, m).
     and_then (get_unavailable d) (\<lambda>(dest, upid, cause).
     let tmp = bswap32 ((dest AND 0x3fff) + push_bit 16 upid + push_bit 20 cause)
     in mem_write b p [ucast (signed_drop_bit 8 tmp), ucast (signed_drop_bit 16 tmp), ucast (signed_drop_bit 24 tmp)] m))"

definition Sltm_init :: "u8 list \<Rightarrow> nat \<Rightarrow> nat \<Rightarrow> MTP3Message \<Rightarrow> MTP3Message outcome" where
  "Sltm_init bs b q d =
     and_then (byte_at bs (q + 1)) (\<lambda>v.
     Returns (d\<lparr>members := Test_pattern (Some (drop_bit 4 (ucast v))) (Some (Some (b, q + 2)))\<rparr>))"

definition Sltm_encode :: "MTP3Message \<Rightarrow> nat \<Rightarrow> nat \<Rightarrow> c_int \<Rightarrow> memory \<Rightarrow> memory outcome" where
  "Sltm_encode d b q offset m =
     and_then (write_heading d b q offset m) (\<lambda>(p, m).
     and_then (get_test_pattern d) (\<lambda>(n, src).
     and_then (mem_write b p [ucast (push_bit 4 n)] m) (\<lambda>m.
     if 0 < sint n then and_then (the_ptr src) (\<lambda>src. mem_copy b (p + 1) src (unat n) m) else Returns m)))"

definition Slta_init :: "u8 list \<Rightarrow> nat \<Rightarrow> nat \<Rightarrow> MTP3Message \<Rightarrow> MTP3Message outcome" where
  "Slta_init bs b q d =
     and_then (byte_at bs (q + 1)) (\<lambda>v.
     Returns (d\<lparr>members := Test_pattern (Some (drop_bit 4 (ucast v))) (Some (Some (b, q + 2)))\<rparr>))"

definition Slta_encode :: "MTP3Message \<Rightarrow> nat \<Rightarrow> nat \<Rightarrow> c_int \<Rightarrow> memory \<Rightarrow> memory outcome" where
  "Slta_encode d b q offset m =
     and_then (write_heading d b q offset m) (\<lambda>(p, m).
     and_then (get_test_pattern d) (\<lambda>(n, src).
     and_then (mem_write b p [ucast (push_bit 4 n)] m) (\<lambda>m.
     if 0 < sint n then and_then (the_ptr src) (\<lambda>src. mem_copy b (p + 1) src (unat n) m) else Returns m)))"

text \<open>The virtual calls. \<open>init\<close> of the other classes is empty.\<close>

definition mtp3_message_init :: "MTP3MessageType \<Rightarrow> u8 list \<Rightarrow> nat \<Rightarrow> nat \<Rightarrow> MTP3Message \<Rightarrow> MTP3Message outcome" where
  "mtp3_message_init mt =
     (case mt of
       CBA \<Rightarrow> Changeback_ack_init
     | CBD \<Rightarrow> Changeback_declaration_init
     | COA \<Rightarrow> Changeover_ack_init
     | COO \<Rightarrow> Changeover_order_init
     | DLC \<Rightarrow> DataLinkConn_order_init
     | RSR \<Rightarrow> RouteSetTestRestrictedDest_init
     | RST \<Rightarrow> RouteSetTestProhibitedDest_init
     | TFA \<Rightarrow> TransferAllowed_init
     | TFC \<Rightarrow> TransferControlled_init
     | TFP \<Rightarrow> TransferProhibited_init
     | TFR \<Rightarrow> TransferRestricted_init
     | UPU \<Rightarrow> UserPartUnavailable_init
     | SLTM \<Rightarrow> Sltm_init
     | SLTA \<Rightarrow> Slta_init
     | _ \<Rightarrow> (\<lambda>bs b q d. Returns d))"

definition mtp3_message_encode :: "MTP3Message \<Rightarrow> nat \<Rightarrow> nat \<Rightarrow> c_int \<Rightarrow> memory \<Rightarrow> memory outcome" where
  "mtp3_message_encode d =
     (case message_type d of
       CBA \<Rightarrow> Changeback_ack_encode
     | CBD \<Rightarrow> Changeback_declaration_encode
     | CNP \<Rightarrow> ConnNotPossible_encode
     | CNS \<Rightarrow> ConnNotSuccessful_encode
     | COA \<Rightarrow> Changeover_ack_encode
     | COO \<Rightarrow> Changeover_order_encode
     | CSS \<Rightarrow> ConnSuccessful_encode
     | DLC \<Rightarrow> DataLinkConn_order_encode
     | ECA \<Rightarrow> EmergencyChageover_ack_encode
     | ECO \<Rightarrow> EmergencyChageover_order_encode
     | LFU \<Rightarrow> LinkForceUninhibit_encode
     | LIA \<Rightarrow> LinkInhibited_ack_encode
     | LID \<Rightarrow> LinkInhibit_denied_encode
     | LIN \<Rightarrow> LinkInhibit_encode
     | LLT \<Rightarrow> LinkLocalInhibitTest_encode
     | LUA \<Rightarrow> LinkUninhibited_ack_encode
     | LUN \<Rightarrow> LinkUninhibit_encode
     | LRT \<Rightarrow> LinkRemoteInhibitTest_encode
     | RCT \<Rightarrow> RouteSetCongestionTest_encode
     | RSR \<Rightarrow> RouteSetTestRestrictedDest_encode
     | RST \<Rightarrow> RouteSetTestProhibitedDest_encode
     | TFA \<Rightarrow> TransferAllowed_encode
     | TFC \<Rightarrow> TransferControlled_encode
     | TFP \<Rightarrow> TransferProhibited_encode
     | TFR \<Rightarrow> TransferRestricted_encode
     | TRA \<Rightarrow> TrafficRestartAllowed_encode
     | UPU \<Rightarrow> UserPartUnavailable_encode
     | SLTM \<Rightarrow> Sltm_encode
     | SLTA \<Rightarrow> Slta_encode) d"

section \<open>Packets\<close>

record MTP3Label =
  dpc :: c_int
  opc :: c_int
  slc :: c_int

record MTP3Packet =
  network_indicator :: "c_int option"
  service_indicator :: "c_int option"
  label :: MTP3Label
  sif :: "buf_ptr option"
  sif_length :: c_int
  signalling_message :: "MTP3Message option"

definition new_packet :: MTP3Packet where
  "new_packet =
     \<lparr>network_indicator = None, service_indicator = None, label = \<lparr>dpc = 0, opc = 0, slc = 0\<rparr>,
      sif = None, sif_length = 0, signalling_message = None\<rparr>"

definition label_word :: "MTP3Label \<Rightarrow> c_int" where
  "label_word l = push_bit 28 (slc l AND 0xff) + push_bit 14 (opc l AND 0x3fff) + (dpc l AND 0x3fff)"

text \<open>\<open>encode\<close> gives the length of the result and the memory; it does not look at \<open>signalling_message\<close>.\<close>

definition MTP3Packet_encode :: "MTP3Packet \<Rightarrow> nat \<Rightarrow> nat \<Rightarrow> c_int \<Rightarrow> memory \<Rightarrow> (c_int \<times> memory) outcome" where
  "MTP3Packet_encode d b q offset m =
     and_then (ptr_add q offset) (\<lambda>p.
     and_then (the_ptr (network_indicator d)) (\<lambda>ni. and_then (the_ptr (service_indicator d)) (\<lambda>si.
     and_then (mem_write b p [ucast (ni + si)] m) (\<lambda>m.
     and_then (mem_write b (p + 1) (be32 (bswap32 (label_word (label d)))) m) (\<lambda>m.
     and_then (if 0 < sint (sif_length d) \<and> sif d \<noteq> None then mem_copy b (p + 5) (sif d) (unat (sif_length d)) m else Returns m) (\<lambda>m.
     Returns (5 + sif_length d, m)))))))"

text \<open>The \<open>switch\<close> over the service indicator and the heading octet.\<close>

definition mtp3_message_types :: "MTP3MessageType list" where
  "mtp3_message_types = [CBA, CBD, CNP, CNS, COA, COO, CSS, DLC, ECA, ECO, LFU, LIA, LID, LIN, LLT, LUA, LUN, LRT, RCT, RSR, RST, TFA, TFC, TFP, TFR, TRA, UPU, SLTM, SLTA]"

definition mtp3_type_of :: "c_int \<Rightarrow> MTP3MessageType option" where
  "mtp3_type_of v = List.find (\<lambda>t. mtp3_type_value t = v) mtp3_message_types"

definition decode_signalling :: "c_int \<Rightarrow> u8 list \<Rightarrow> nat \<Rightarrow> nat \<Rightarrow> MTP3Message option outcome" where
  "decode_signalling si bs b q =
     (if si = si_value SNMM \<or> si = si_value SNTMM
      then and_then (byte_at bs q) (\<lambda>h.
        case mtp3_type_of (push_bit 8 si + ucast h) of
          None \<Rightarrow> Returns None
        | Some mt \<Rightarrow> and_then (mtp3_message_init mt bs b q (new_mtp3_message mt)) (\<lambda>d. Returns (Some d)))
      else Returns None)"

definition mtp3_decode :: "buf_ptr option \<Rightarrow> c_int \<Rightarrow> memory \<Rightarrow> MTP3Packet option outcome" where
  "mtp3_decode data data_length m =
     (case data of
       Some (b, q) \<Rightarrow>
         if 0 < sint data_length then
           and_then (byte_at (m b) q) (\<lambda>v.
           let ni = ucast v AND 0xf0; si = ucast v AND 0x0f
           in and_then (get32 (m b) (q + 1)) (\<lambda>w.
              let tmp = bswap32 w
              in and_then (decode_signalling si (m b) b (q + 5)) (\<lambda>sm.
                 Returns (Some (new_packet
                   \<lparr>network_indicator := Some ni, service_indicator := Some si,
                    label := \<lparr>dpc = tmp AND 0x3fff, opc = signed_drop_bit 14 tmp AND 0x3fff,
                      slc = signed_drop_bit 28 tmp AND 0x0f\<rparr>,
                    sif := Some (b, q + 5), sif_length := data_length - 5, signalling_message := sm\<rparr>)))))
         else Returns None
     | None \<Rightarrow> Returns None)"

end
