(* ===== verification/Mtp3_Properties.thy ===== *)
theory Mtp3_Properties
  imports Mtp3
begin

text \<open>
  What the MTP3 codec promises: packets and their routing labels are decoded to what was encoded;
  of the signalling messages, those whose second octet plays no part.
\<close>

section \<open>Bits\<close>

lemma masks: "(0xff::c_int) = mask 8" "(0x3fff::c_int) = mask 14" "(0x0f::c_int) = mask 4" "(0xf::u8) = mask 4"
  by (simp_all add: mask_eq_exp_minus_1)

lemma bswap16_octets: "be16 (bswap16 v) = [ucast v, ucast (drop_bit 8 v)]"
proof -
  have "ucast (drop_bit 8 (bswap16 v)) = (ucast v :: u8)" "ucast (bswap16 v) = (ucast (drop_bit 8 v) :: u8)"
    unfolding bswap16_def masks by (rule bit_word_eqI, auto simp: bit_simps dest: bit_imp_le_length)+
  then show ?thesis by (simp add: be16_def)
qed

lemma bswap32_octet4: "bswap32 (octet4 a b c d) = octet4 d c b a"
proof -
  have "be32 (octet4 a b c d) = [a, b, c, d]" by (rule be32_octet4)
  moreover have "v AND 0xff = ucast (ucast v :: u8)" for v :: c_int
    unfolding masks by (rule bit_word_eqI) (auto simp: bit_simps)
  ultimately show ?thesis unfolding bswap32_def octet4_def [of d] be32_def by (simp flip: octet4_def)
qed

lemma octet4_of: "octet4 (ucast (drop_bit 24 v)) (ucast (drop_bit 16 v)) (ucast (drop_bit 8 v)) (ucast v) = v"
  using get32_be32 [of "[]" v "[]"] by (simp add: be32_def get_nth)

lemma bswap32_octets: "be32 (bswap32 v) = [ucast v, ucast (drop_bit 8 v), ucast (drop_bit 16 v), ucast (drop_bit 24 v)]"
  by (metis be32_octet4 bswap32_octet4 octet4_of)

text \<open>The fields of the label do not overlap.\<close>

lemma label_fields:
  assumes "dpc l < 2 ^ 14" "opc l < 2 ^ 14" "slc l < 2 ^ 4"
  shows "label_word l AND 0x3fff = dpc l" "signed_drop_bit 14 (label_word l) AND 0x3fff = opc l"
    "signed_drop_bit 28 (label_word l) AND 0x0f = slc l"
proof -
  have h: "bit (dpc l) n \<Longrightarrow> n < 14" "bit (opc l) n \<Longrightarrow> n < 14" "bit (slc l) n \<Longrightarrow> n < 4" for n
    using small_bit [OF _ assms(1)] small_bit [OF _ assms(2)] small_bit [OF _ assms(3)] by simp_all
  have 1: "push_bit 28 (slc l AND mask 8) + push_bit 14 (opc l AND mask 14) =
      (push_bit 28 (slc l AND mask 8) OR push_bit 14 (opc l AND mask 14))"
    by (rule disjunctive_add_eq_or, rule bit_word_eqI) (auto simp: bit_simps)
  have 2: "(push_bit 28 (slc l AND mask 8) OR push_bit 14 (opc l AND mask 14)) + (dpc l AND mask 14) =
      (push_bit 28 (slc l AND mask 8) OR push_bit 14 (opc l AND mask 14) OR (dpc l AND mask 14))"
    by (subst or.assoc [symmetric], rule disjunctive_add_eq_or, rule bit_word_eqI) (auto simp: bit_simps)
  have m: "dpc l AND mask 14 = dpc l" "opc l AND mask 14 = opc l" "slc l AND mask 8 = slc l"
    by (rule bit_word_eqI, auto simp: bit_simps dest: h)+
  have e: "label_word l = (push_bit 28 (slc l) OR push_bit 14 (opc l) OR dpc l)"
    unfolding label_word_def masks 1 2 unfolding m ..
  show "label_word l AND 0x3fff = dpc l" "signed_drop_bit 14 (label_word l) AND 0x3fff = opc l"
    "signed_drop_bit 28 (label_word l) AND 0x0f = slc l"
    unfolding e masks by (rule bit_word_eqI, auto simp: bit_simps dest: h)+
qed

section \<open>What a message carries\<close>

text \<open>The values of the members, and the octets of a test pattern.\<close>

primrec member_values :: "mtp3_members \<Rightarrow> c_int option list" where
  "member_values Plain = []"
| "member_values (Fsn v) = [v]"
| "member_values (Changeback_code v) = [v]"
| "member_values (Destination v) = [v]"
| "member_values (Data_link_identity v) = [v]"
| "member_values (Unavailable dest upid cause) = [dest, upid, cause]"
| "member_values (Test_pattern n src) = [n]"

definition pattern_octets :: "memory \<Rightarrow> MTP3Message \<Rightarrow> u8 list" where
  "pattern_octets m d =
     (case members d of Test_pattern (Some n) (Some (Some (sb, sp))) \<Rightarrow> take (unat n) (drop sp (m sb)) | _ \<Rightarrow> [])"

definition mtp3_carries :: "memory \<Rightarrow> MTP3Message \<Rightarrow> MTP3MessageType \<times> c_int option list \<times> u8 list" where
  "mtp3_carries m d = (message_type d, member_values (members d), pattern_octets m d)"

text \<open>The kind of members a message has is that of its class.\<close>

primrec blank :: "mtp3_members \<Rightarrow> mtp3_members" where
  "blank Plain = Plain"
| "blank (Fsn v) = Fsn None"
| "blank (Changeback_code v) = Changeback_code None"
| "blank (Destination v) = Destination None"
| "blank (Data_link_identity v) = Data_link_identity None"
| "blank (Unavailable dest upid cause) = Unavailable None None None"
| "blank (Test_pattern n src) = Test_pattern None None"

text \<open>
  The values Q.704 and Q.707 have room for: 7 bits of a sequence number, 8 of a changeback code, 14 of
  a point code, 12 of a data link identity, 4 of a user part, a cause and a pattern length.
\<close>

definition in_range :: "memory \<Rightarrow> nat \<Rightarrow> mtp3_members \<Rightarrow> bool" where
  "in_range m b ms =
     (case ms of
       Plain \<Rightarrow> True
     | Fsn (Some v) \<Rightarrow> v < 2 ^ 7
     | Changeback_code (Some v) \<Rightarrow> v < 2 ^ 8
     | Destination (Some v) \<Rightarrow> v < 2 ^ 14
     | Data_link_identity (Some v) \<Rightarrow> v < 2 ^ 12
     | Unavailable (Some dest) (Some upid) (Some cause) \<Rightarrow> dest < 2 ^ 14 \<and> upid < 2 ^ 4 \<and> cause < 2 ^ 4
     | Test_pattern (Some n) (Some (Some (sb, sp))) \<Rightarrow> n < 2 ^ 4 \<and> sb \<noteq> b \<and> sp + unat n \<le> length (m sb)
     | _ \<Rightarrow> False)"

definition message_sendable :: "memory \<Rightarrow> nat \<Rightarrow> MTP3Message \<Rightarrow> bool" where
  "message_sendable m b d \<longleftrightarrow>
     blank (members d) = blank (members (new_mtp3_message (message_type d))) \<and> in_range m b (members d)"

text \<open>The octets after the heading.\<close>

definition body_octets :: "memory \<Rightarrow> MTP3Message \<Rightarrow> u8 list" where
  "body_octets m d =
     (case members d of
       Fsn (Some v) \<Rightarrow> [ucast v]
     | Changeback_code (Some v) \<Rightarrow> [ucast v]
     | Destination (Some v) \<Rightarrow> [ucast v, ucast (drop_bit 8 v)]
     | Data_link_identity (Some v) \<Rightarrow> [ucast v, ucast (drop_bit 8 v)]
     | Unavailable (Some dest) (Some upid) (Some cause) \<Rightarrow> [ucast (upid OR push_bit 4 cause), ucast (drop_bit 8 dest), ucast dest]
     | Test_pattern (Some n) src \<Rightarrow> ucast (push_bit 4 n) # pattern_octets m d
     | _ \<Rightarrow> [])"

definition mtp3_message_octets :: "memory \<Rightarrow> MTP3Message \<Rightarrow> u8 list" where
  "mtp3_message_octets m d = ucast (mtp3_type_value (message_type d)) # body_octets m d"

text \<open>The cause, the user part and the destination of an unavailable user part.\<close>

lemma unavailable_octets:
  assumes "dest < 2 ^ 14" "upid < 2 ^ 4" "cause < 2 ^ 4"
  defines "tmp \<equiv> bswap32 ((dest AND 0x3fff) + push_bit 16 upid + push_bit 20 cause)"
  shows "[ucast (signed_drop_bit 8 tmp), ucast (signed_drop_bit 16 tmp), ucast (signed_drop_bit 24 tmp)] =
    ([ucast (upid OR push_bit 4 cause), ucast (drop_bit 8 dest), ucast dest] :: u8 list)"
proof -
  have h: "bit dest n \<Longrightarrow> n < 14" "bit upid n \<Longrightarrow> n < 4" "bit cause n \<Longrightarrow> n < 4" for n
    using small_bit [OF _ assms(1)] small_bit [OF _ assms(2)] small_bit [OF _ assms(3)] by simp_all
  have m: "dest AND mask 14 = dest" by (rule bit_word_eqI) (auto simp: bit_simps dest: h)
  have 1: "dest + push_bit 16 upid = (dest OR push_bit 16 upid)"
    by (rule disjunctive_add_eq_or, rule bit_word_eqI) (auto simp: bit_simps dest: h)
  have 2: "(dest OR push_bit 16 upid) + push_bit 20 cause = (dest OR push_bit 16 upid OR push_bit 20 cause)"
    by (subst or.assoc [symmetric], rule disjunctive_add_eq_or, rule bit_word_eqI) (auto simp: bit_simps dest: h)
  let ?v = "dest OR push_bit 16 upid OR push_bit 20 cause"
  have t: "tmp = bswap32 ?v" unfolding tmp_def masks m 1 2 ..
  have s: "ucast (signed_drop_bit k w) = (ucast (drop_bit k w) :: u8)" if "k \<le> 24" for k and w :: c_int
    by (rule bit_word_eqI) (use that in \<open>auto simp: bit_simps\<close>)
  have "be32 tmp = [ucast ?v, ucast (drop_bit 8 ?v), ucast (drop_bit 16 ?v), ucast (drop_bit 24 ?v)]"
    unfolding t by (rule bswap32_octets)
  then have "ucast (drop_bit 8 tmp) = (ucast (drop_bit 16 ?v) :: u8)" "ucast (drop_bit 16 tmp) = (ucast (drop_bit 8 ?v) :: u8)"
    "ucast (drop_bit 24 tmp) = (ucast ?v :: u8)" by (simp_all add: be32_def)
  moreover have "ucast (drop_bit 16 ?v) = (ucast (upid OR push_bit 4 cause) :: u8)" "ucast (drop_bit 8 ?v) = (ucast (drop_bit 8 dest) :: u8)"
    "ucast ?v = (ucast dest :: u8)"
    by (rule bit_word_eqI, auto simp: bit_simps dest: h)+
  ultimately show ?thesis by (simp add: s)
qed

lemma heading_ok:
  "ptr_add q offset = Returns p \<Longrightarrow> p < length (m b) \<Longrightarrow>
    write_heading d b q offset m = Returns (p + 1, written b p [ucast (mtp3_type_value (message_type d))] m)"
  by (simp add: write_heading_def write_ok)

section \<open>The classes\<close>

lemmas class_encodes =
  Changeover_order_encode_def Changeover_ack_encode_def Changeback_declaration_encode_def Changeback_ack_encode_def EmergencyChageover_order_encode_def
  EmergencyChageover_ack_encode_def TransferProhibited_encode_def TransferAllowed_encode_def TransferRestricted_encode_def RouteSetTestProhibitedDest_encode_def
  RouteSetTestRestrictedDest_encode_def LinkInhibit_encode_def LinkUninhibit_encode_def LinkInhibited_ack_encode_def LinkUninhibited_ack_encode_def
  LinkInhibit_denied_encode_def LinkForceUninhibit_encode_def LinkLocalInhibitTest_encode_def LinkRemoteInhibitTest_encode_def TrafficRestartAllowed_encode_def
  DataLinkConn_order_encode_def ConnSuccessful_encode_def ConnNotSuccessful_encode_def ConnNotPossible_encode_def TransferControlled_encode_def
  RouteSetCongestionTest_encode_def UserPartUnavailable_encode_def Sltm_encode_def Slta_encode_def

lemmas class_inits =
  Changeover_order_init_def Changeover_ack_init_def Changeback_declaration_init_def Changeback_ack_init_def TransferProhibited_init_def
  TransferAllowed_init_def TransferRestricted_init_def RouteSetTestProhibitedDest_init_def RouteSetTestRestrictedDest_init_def DataLinkConn_order_init_def
  TransferControlled_init_def UserPartUnavailable_init_def Sltm_init_def Slta_init_def

text \<open>The classes by the kind of their members.\<close>

definition encode_body :: "MTP3Message \<Rightarrow> nat \<Rightarrow> nat \<Rightarrow> memory \<Rightarrow> memory outcome" where
  "encode_body d b p m =
     (case blank (members (new_mtp3_message (message_type d))) of
       Plain \<Rightarrow> Returns m
     | Fsn _ \<Rightarrow> and_then (get_fsn d) (\<lambda>v. mem_write b p [ucast v] m)
     | Changeback_code _ \<Rightarrow> and_then (get_changeback_code d) (\<lambda>v. mem_write b p [ucast v] m)
     | Destination _ \<Rightarrow> and_then (get_destination d) (\<lambda>v. mem_write b p (be16 (bswap16 v)) m)
     | Data_link_identity _ \<Rightarrow> and_then (get_data_link_identity d) (\<lambda>v. mem_write b p (be16 (bswap16 v)) m)
     | Unavailable _ _ _ \<Rightarrow> and_then (get_unavailable d) (\<lambda>(dest, upid, cause).
         let tmp = bswap32 ((dest AND 0x3fff) + push_bit 16 upid + push_bit 20 cause)
         in mem_write b p [ucast (signed_drop_bit 8 tmp), ucast (signed_drop_bit 16 tmp), ucast (signed_drop_bit 24 tmp)] m)
     | Test_pattern _ _ \<Rightarrow> and_then (get_test_pattern d) (\<lambda>(n, src).
         and_then (mem_write b p [ucast (push_bit 4 n)] m) (\<lambda>m.
         if 0 < sint n then and_then (the_ptr src) (\<lambda>src. mem_copy b (p + 1) src (unat n) m) else Returns m)))"

lemma message_encode_body:
  "mtp3_message_encode d b q offset m = and_then (write_heading d b q offset m) (\<lambda>(p, m). encode_body d b p m)"
  by (cases "message_type d") (simp_all add: mtp3_message_encode_def encode_body_def class_encodes)

text \<open>What \<open>init\<close> makes of the octets at a place.\<close>

definition init_body :: "MTP3MessageType \<Rightarrow> u8 list \<Rightarrow> nat \<Rightarrow> nat \<Rightarrow> mtp3_members outcome" where
  "init_body mt bs b q =
     (case blank (members (new_mtp3_message mt)) of
       Plain \<Rightarrow> Returns Plain
     | Fsn _ \<Rightarrow> and_then (byte_at bs (q + 1)) (\<lambda>v. Returns (Fsn (Some (scast v))))
     | Changeback_code _ \<Rightarrow> and_then (byte_at bs (q + 1)) (\<lambda>v. Returns (Changeback_code (Some (scast v))))
     | Destination _ \<Rightarrow> and_then (shifted16 bs (if mt = TFC then q else q + 1)) (\<lambda>v. Returns (Destination (Some v)))
     | Data_link_identity _ \<Rightarrow> and_then (shifted16 bs (q + 1)) (\<lambda>v. Returns (Data_link_identity (Some v)))
     | Unavailable _ _ _ \<Rightarrow> and_then (shifted32 bs (q + 1)) (\<lambda>tmp. Returns (Unavailable (Some (tmp AND 0x3fff))
         (Some (signed_drop_bit 16 tmp AND 0x0f)) (Some (signed_drop_bit 20 tmp AND 0x0f))))
     | Test_pattern _ _ \<Rightarrow> and_then (byte_at bs (q + 1)) (\<lambda>v.
         Returns (Test_pattern (Some (drop_bit 4 (ucast v))) (Some (Some (b, q + 2))))))"

lemma message_init_body:
  "mtp3_message_init mt bs b q (new_mtp3_message mt) =
     and_then (init_body mt bs b q) (\<lambda>ms. Returns ((new_mtp3_message mt)\<lparr>members := ms\<rparr>))"
  by (cases mt) (simp_all add: mtp3_message_init_def init_body_def class_inits and_then_assoc)

section \<open>Encoding a message\<close>

lemma sint_positive: "v < 2 ^ 4 \<Longrightarrow> 0 < sint (v::c_int) \<longleftrightarrow> 0 < unat v"
proof -
  assume "v < 2 ^ 4"
  then have "unat v < 2 ^ 31" by (simp add: word_less_nat_alt)
  then show ?thesis by (simp only: sint_small of_nat_0_less_iff)
qed

lemma message_encode_ok:
  assumes "message_sendable m b d" "ptr_add q offset = Returns p" "p + length (mtp3_message_octets m d) \<le> length (m b)"
  shows "mtp3_message_encode d b q offset m = Returns (written b p (mtp3_message_octets m d) m)"
proof -
  let ?h = "ucast (mtp3_type_value (message_type d)) :: u8"
  have l: "p + (1 + length (body_octets m d)) \<le> length (m b)" using assms(3) by (simp add: mtp3_message_octets_def)
  have "encode_body d b (p + 1) (written b p [?h] m) = Returns (written b p (?h # body_octets m d) m)"
  proof (cases "members d")
    case (Test_pattern n src)
    with assms(1) obtain k sb sp where *: "n = Some k" "src = Some (Some (sb, sp))" "k < 2 ^ 4" "sb \<noteq> b" "sp + unat k \<le> length (m sb)"
      by (auto simp: message_sendable_def in_range_def split: option.splits prod.splits)
    have "blank (members (new_mtp3_message (message_type d))) = Test_pattern None None"
      using assms(1) Test_pattern by (simp add: message_sendable_def)
    then have e: "encode_body d b (p + 1) (written b p [?h] m) =
        and_then (mem_write b (p + 1) [ucast (push_bit 4 k)] (written b p [?h] m)) (\<lambda>m.
          if 0 < unat k then mem_copy b (p + 1 + 1) (Some (sb, sp)) (unat k) m else Returns m)"
      using Test_pattern sint_positive [OF *(3)] by (simp add: encode_body_def get_test_pattern_def *(1,2) cong: if_cong)
    have o: "body_octets m d = ucast (push_bit 4 k) # take (unat k) (drop sp (m sb))"
      using Test_pattern * by (simp add: body_octets_def pattern_octets_def)
    have w: "mem_write b (p + 1) [ucast (push_bit 4 k)] (written b p [?h] m) = Returns (written b p [?h, ucast (push_bit 4 k)] m)"
      using l o * by (subst write_written) simp_all
    show ?thesis unfolding e w using l o * copy_written [of sb b sp "unat k" m p "[?h, ucast (push_bit 4 k)]" "p + 1 + 1"] by simp
  qed (use assms(1) l in \<open>auto simp: message_sendable_def in_range_def encode_body_def body_octets_def get_fsn_def get_changeback_code_def
      get_destination_def get_data_link_identity_def get_unavailable_def write_written bswap16_octets unavailable_octets Let_def
      split: option.splits dest!: sym [of _ "blank _"]\<close>)
  then show ?thesis using assms(2) l by (simp add: message_encode_body heading_ok mtp3_message_octets_def)
qed

lemma message_octets_short: "message_sendable m b d \<Longrightarrow> length (mtp3_message_octets m d) < 18"
proof -
  assume "message_sendable m b d"
  then have r: "in_range m b (members d)" by (simp add: message_sendable_def)
  show ?thesis
  proof (cases "members d")
    case (Test_pattern n src)
    then obtain k sb sp where *: "n = Some k" "src = Some (Some (sb, sp))" "k < 2 ^ 4"
      using r by (auto simp: in_range_def split: option.splits prod.splits)
    then have "unat k < 16" by (simp add: word_less_nat_alt)
    then show ?thesis using Test_pattern * by (simp add: mtp3_message_octets_def body_octets_def pattern_octets_def min_def)
  qed (simp_all add: mtp3_message_octets_def body_octets_def split: option.split)
qed

section \<open>Decoding a message\<close>

lemma shifted16_value:
  assumes "q + 1 < length bs"
  shows "shifted16 bs q = guard (unat (bs ! (q + 1)) < 24) (Returns (ucast (push_bit (unat (bs ! (q + 1))) (bs ! q))))"
proof -
  have "bswap16 (push_bit (8 + n) (ucast (x::u8))) = ucast (push_bit n x)" if "n < 24" for n x
    unfolding bswap16_def masks by (rule bit_word_eqI) (use that in \<open>auto simp: bit_simps dest: bit_imp_le_length\<close>)
  then show ?thesis using assms by (simp add: shifted16_def guard_def)
qed

lemma shifted32_value:
  assumes "q + 2 < length bs"
  shows "shifted32 bs q = guard (bs ! (q + 1) = 0 \<and> bs ! (q + 2) = 0) (Returns (ucast (bs ! q)))"
proof -
  have "push_bit 24 (ucast x) = octet4 x 0 0 0" "octet4 0 0 0 x = ucast x" for x by (simp_all add: octet4_def)
  then have "bswap32 (push_bit 24 (ucast (x::u8))) = ucast x" for x by (simp add: bswap32_octet4)
  moreover have "24 + unat y * 2 ^ 16 + unat z * 2 ^ 8 < 32 \<longleftrightarrow> y = 0 \<and> z = 0" for y z :: u8
    by (auto simp: unat_eq_0 [symmetric] simp del: unat_eq_zero)
  ultimately show ?thesis using assms by (simp add: shifted32_def guard_def)
qed

text \<open>A destination survives if its high octet is 0.\<close>

lemma destination_recovered:
  assumes "q + 1 < length bs" "bs ! q = ucast (v::c_int)" "bs ! (q + 1) = ucast (drop_bit 8 v)" "v < 2 ^ 14"
  shows "shifted16 bs q = Returns v \<longleftrightarrow> v < 2 ^ 8"
proof
  assume "shifted16 bs q = Returns v"
  then show "v < 2 ^ 8" unfolding shifted16_value [OF assms(1)] guard_def using octet_below by (auto split: if_splits)
next
  assume v: "v < 2 ^ 8"
  then have "drop_bit 8 v = 0" by (intro bit_word_eqI) (auto simp: bit_simps dest: small_bit [of _ _ 8])
  then show "shifted16 bs q = Returns v"
    unfolding shifted16_value [OF assms(1)] assms(2,3) using v octet_of_small by simp
qed

text \<open>In transfer controlled the heading is taken for the low octet, and the low octet for the high one.\<close>

lemma controlled_lost:
  assumes "q + 1 < length bs" "bs ! q = 0x23" "bs ! (q + 1) = ucast (v::c_int)"
  shows "shifted16 bs q \<noteq> Returns v"
proof
  let ?n = "unat (ucast v :: u8)"
  assume "shifted16 bs q = Returns v"
  then have n: "?n < 24" and v: "v = ucast (push_bit ?n (0x23 :: u8))"
    unfolding shifted16_value [OF assms(1)] assms(2,3) guard_def by (auto split: if_splits)
  have "ucast v = (push_bit ?n 0x23 :: u8)" by (subst v) (rule bit_word_eqI, simp add: bit_simps)
  then have "?n = unat (push_bit ?n (0x23 :: u8))" by simp
  moreover have "k \<noteq> unat (push_bit k (0x23 :: u8))" if "k < 24" for k
  proof -
    have "\<forall>k \<in> {0..<24}. k \<noteq> unat (push_bit k (0x23 :: u8))" by (simp add: atLeastLessThan_nat_numeral push_bit_eq_mult)
    then show ?thesis using that by simp
  qed
  ultimately show False using n by blast
qed

text \<open>An unavailable user part survives only if all of it is 0.\<close>

lemma unavailable_recovered:
  assumes "q + 2 < length bs" "bs ! q = ucast (upid OR push_bit 4 cause)" "bs ! (q + 1) = ucast (drop_bit 8 dest)" "bs ! (q + 2) = ucast dest"
    "dest < 2 ^ 14" "upid < 2 ^ 4" "cause < 2 ^ 4"
  shows "(\<exists>tmp. shifted32 bs q = Returns tmp \<and> tmp AND 0x3fff = dest \<and> signed_drop_bit 16 tmp AND 0x0f = upid \<and>
      signed_drop_bit 20 tmp AND 0x0f = cause) \<longleftrightarrow> dest = 0 \<and> upid = 0 \<and> (cause :: c_int) = 0"
proof
  assume "dest = 0 \<and> upid = 0 \<and> cause = 0"
  then show "\<exists>tmp. shifted32 bs q = Returns tmp \<and> tmp AND 0x3fff = dest \<and> signed_drop_bit 16 tmp AND 0x0f = upid \<and>
      signed_drop_bit 20 tmp AND 0x0f = cause"
    unfolding shifted32_value [OF assms(1)] assms(2-4) by simp
next
  have h: "bit dest n \<Longrightarrow> n < 14" for n using small_bit [OF _ assms(5)] by simp
  assume "\<exists>tmp. shifted32 bs q = Returns tmp \<and> tmp AND 0x3fff = dest \<and> signed_drop_bit 16 tmp AND 0x0f = upid \<and>
      signed_drop_bit 20 tmp AND 0x0f = cause"
  then obtain tmp where tmp: "shifted32 bs q = Returns tmp" "signed_drop_bit 16 tmp AND 0x0f = upid" "signed_drop_bit 20 tmp AND 0x0f = cause"
    by blast
  then have z: "ucast (drop_bit 8 dest) = (0 :: u8)" "ucast dest = (0 :: u8)" and t: "tmp = ucast (ucast (upid OR push_bit 4 cause) :: u8)"
    unfolding shifted32_value [OF assms(1)] assms(2-4) guard_def by (auto split: if_splits)
  have "dest = 0"
  proof (rule bit_word_eqI)
    fix n
    have "bit (ucast (drop_bit 8 dest) :: u8) (n - 8) = False" "bit (ucast dest :: u8) n = False" unfolding z by simp_all
    then show "bit dest n = bit 0 n" using h [of n] by (cases "n < 8") (auto simp: bit_simps)
  qed
  moreover have "signed_drop_bit k (ucast (x::u8) :: c_int) = 0" if "8 \<le> k" for k x
    by (rule bit_word_eqI) (use that in \<open>auto simp: bit_simps min_def dest: bit_imp_le_length\<close>)
  then have "signed_drop_bit 16 tmp = 0" "signed_drop_bit 20 tmp = 0" unfolding t by simp_all
  ultimately show "dest = 0 \<and> upid = 0 \<and> cause = 0" using tmp(2,3) by simp
qed

lemma pattern_length: "(n::c_int) < 2 ^ 4 \<Longrightarrow> drop_bit 4 (ucast (ucast (push_bit 4 n) :: u8)) = n"
  by (rule bit_word_eqI) (auto simp: bit_simps dest: small_bit [of _ _ 4])

text \<open>The messages that survive \<open>encode\<close> and \<open>init\<close>.\<close>

definition recoverable :: "MTP3Message \<Rightarrow> bool" where
  "recoverable d =
     (case members d of
       Changeback_code (Some v) \<Rightarrow> v < 2 ^ 7
     | Destination (Some v) \<Rightarrow> v < 2 ^ 8 \<and> message_type d \<noteq> TFC
     | Data_link_identity (Some v) \<Rightarrow> v < 2 ^ 8
     | Unavailable dest upid cause \<Rightarrow> dest = Some 0 \<and> upid = Some 0 \<and> cause = Some 0
     | _ \<Rightarrow> True)"

lemma init_body_recovers:
  assumes "message_sendable m b0 d" "octets_at (m' b) q (mtp3_message_octets m d)"
  shows "(\<exists>ms. init_body (message_type d) (m' b) b q = Returns ms \<and> member_values ms = member_values (members d) \<and>
      pattern_octets m' (d\<lparr>members := ms\<rparr>) = pattern_octets m d) \<longleftrightarrow> recoverable d"
proof -
  let ?w = "mtp3_message_octets m d" and ?bs = "m' b"
  have k: "blank (members (new_mtp3_message (message_type d))) = blank (members d)" and r: "in_range m b0 (members d)"
    using assms(1) by (simp_all add: message_sendable_def)
  have w: "i < length ?w \<Longrightarrow> q + i < length ?bs \<and> ?bs ! (q + i) = ?w ! i" for i by (rule octets_atD [OF assms(2)])
  have w0: "?bs ! q = ucast (mtp3_type_value (message_type d))" using w [of 0] by (simp add: mtp3_message_octets_def)
  show ?thesis
  proof (cases "members d")
    case Plain
    then show ?thesis using k by (simp add: init_body_def recoverable_def pattern_octets_def)
  next
    case (Fsn v)
    then obtain x where x: "v = Some x" "x < 2 ^ 7" using r by (auto simp: in_range_def split: option.splits)
    then have "x < 2 ^ 8" by (rule_tac order.strict_trans [of _ "2 ^ 7"]) simp_all
    then have "scast (ucast x :: u8) = x" using signed_octet x by blast
    then show ?thesis using k w [of 1] Fsn x
      by (simp add: init_body_def recoverable_def pattern_octets_def mtp3_message_octets_def body_octets_def)
  next
    case (Changeback_code v)
    then obtain x where x: "v = Some x" "x < 2 ^ 8" using r by (auto simp: in_range_def split: option.splits)
    show ?thesis using k w [of 1] Changeback_code x signed_octet [OF x(2)]
      by (simp add: init_body_def recoverable_def pattern_octets_def mtp3_message_octets_def body_octets_def)
  next
    case (Destination v)
    then obtain x where x: "v = Some x" "x < 2 ^ 14" using r by (auto simp: in_range_def split: option.splits)
    have o: "q + 1 + 1 < length ?bs" "?bs ! (q + 1) = ucast x" "?bs ! (q + 1 + 1) = ucast (drop_bit 8 x)"
      using w [of 1] w [of 2] Destination x by (simp_all add: mtp3_message_octets_def body_octets_def numeral_2_eq_2)
    have "(\<exists>ms. init_body (message_type d) ?bs b q = Returns ms \<and> member_values ms = [Some x]) \<longleftrightarrow>
        shifted16 ?bs (if message_type d = TFC then q else q + 1) = Returns x"
      using k Destination by (auto simp: init_body_def and_then_Returns_iff)
    also have "\<dots> \<longleftrightarrow> recoverable d"
    proof (cases "message_type d = TFC")
      case True
      then have "shifted16 ?bs q \<noteq> Returns x" using w0 o by (intro controlled_lost) simp_all
      then show ?thesis using True Destination x by (simp add: recoverable_def)
    qed (use destination_recovered [OF o x(2)] Destination x in \<open>simp add: recoverable_def\<close>)
    finally show ?thesis using k Destination x by (auto simp: init_body_def and_then_Returns_iff pattern_octets_def)
  next
    case (Data_link_identity v)
    then obtain x where x: "v = Some x" "x < 2 ^ 12" using r by (auto simp: in_range_def split: option.splits)
    then have "x < 2 ^ 14" by (rule_tac order.strict_trans [of _ "2 ^ 12"]) simp_all
    moreover have o: "q + 1 + 1 < length ?bs" "?bs ! (q + 1) = ucast x" "?bs ! (q + 1 + 1) = ucast (drop_bit 8 x)"
      using w [of 1] w [of 2] Data_link_identity x by (simp_all add: mtp3_message_octets_def body_octets_def numeral_2_eq_2)
    ultimately show ?thesis using k Data_link_identity x destination_recovered [OF o]
      by (auto simp: init_body_def and_then_Returns_iff recoverable_def pattern_octets_def)
  next
    case (Unavailable x y z)
    then obtain dest upid cause where x: "x = Some dest" "y = Some upid" "z = Some cause" "dest < 2 ^ 14" "upid < 2 ^ 4" "cause < 2 ^ 4"
      using r by (auto simp: in_range_def split: option.splits)
    have o: "q + 1 + 2 < length ?bs" "?bs ! (q + 1) = ucast (upid OR push_bit 4 cause)" "?bs ! (q + 1 + 1) = ucast (drop_bit 8 dest)"
      "?bs ! (q + 1 + 2) = ucast dest"
      using w [of 1] w [of 2] w [of 3] Unavailable x by (simp_all add: mtp3_message_octets_def body_octets_def numeral_2_eq_2 numeral_3_eq_3)
    have "(\<exists>ms. init_body (message_type d) ?bs b q = Returns ms \<and> member_values ms = member_values (members d) \<and>
          pattern_octets m' (d\<lparr>members := ms\<rparr>) = pattern_octets m d) \<longleftrightarrow>
        (\<exists>tmp. shifted32 ?bs (q + 1) = Returns tmp \<and> tmp AND 0x3fff = dest \<and> signed_drop_bit 16 tmp AND 0x0f = upid \<and>
          signed_drop_bit 20 tmp AND 0x0f = cause)"
      using k Unavailable x by (auto simp: init_body_def and_then_Returns_iff pattern_octets_def)
    also have "\<dots> \<longleftrightarrow> recoverable d"
      using unavailable_recovered [OF o x(4-6)] Unavailable x by (simp add: recoverable_def)
    finally show ?thesis .
  next
    case (Test_pattern n src)
    then obtain l sb sp where *: "n = Some l" "src = Some (Some (sb, sp))" "l < 2 ^ 4" "sp + unat l \<le> length (m sb)"
      using r by (auto simp: in_range_def split: option.splits prod.splits)
    let ?t = "take (unat l) (drop sp (m sb))"
    have o: "?w = [ucast (mtp3_type_value (message_type d)), ucast (push_bit 4 l)] @ ?t"
      using Test_pattern * by (simp add: mtp3_message_octets_def body_octets_def pattern_octets_def)
    then have "octets_at ?bs (q + 2) ?t" using octets_at_append [OF assms(2) [unfolded o]] by simp
    then have "take (unat l) (drop (q + 2) ?bs) = ?t" using * by (simp add: octets_at_def)
    then show ?thesis using k w [of 1] o Test_pattern * pattern_length [OF *(3)]
      by (simp add: init_body_def recoverable_def pattern_octets_def)
  qed
qed

section \<open>Packets\<close>

definition sif_octets :: "memory \<Rightarrow> MTP3Packet \<Rightarrow> u8 list" where
  "sif_octets m d = (case sif d of Some (sb, sp) \<Rightarrow> take (unat (sif_length d)) (drop sp (m sb)) | None \<Rightarrow> [])"

text \<open>The label is sent low octet first.\<close>

definition mtp3_label_octets :: "MTP3Label \<Rightarrow> u8 list" where
  "mtp3_label_octets l = map (\<lambda>i. ucast (drop_bit (8 * i) (label_word l))) [0..<4]"

definition packet_octets :: "memory \<Rightarrow> MTP3Packet \<Rightarrow> u8 list" where
  "packet_octets m d =
     (ucast (the (network_indicator d)) OR ucast (the (service_indicator d))) # mtp3_label_octets (label d) @ sif_octets m d"

text \<open>Indicators of four bits, a label whose fields fit, and content outside the buffer \<open>b\<close>.\<close>

definition packet_sendable :: "memory \<Rightarrow> nat \<Rightarrow> MTP3Packet \<Rightarrow> bool" where
  "packet_sendable m b d \<longleftrightarrow>
     (\<exists>ni. network_indicator d = Some ni \<and> ni AND 0xf0 = ni) \<and> (\<exists>si. service_indicator d = Some si \<and> si AND 0x0f = si) \<and>
     dpc (label d) < 2 ^ 14 \<and> opc (label d) < 2 ^ 14 \<and> slc (label d) < 2 ^ 4 \<and> unat (sif_length d) < 2 ^ 31 - 5 \<and>
     (case sif d of None \<Rightarrow> sif_length d = 0 | Some (sb, sp) \<Rightarrow> sb \<noteq> b \<and> sp + unat (sif_length d) \<le> length (m sb))"

lemma nibbles:
  assumes "ni AND 0xf0 = ni" "si AND 0x0f = (si :: c_int)"
  shows "ni + si = (ni OR si)" "ucast (ucast ni OR ucast si :: u8) AND 0xf0 = ni" "ucast (ucast ni OR ucast si :: u8) AND 0x0f = si"
proof -
  have f0: "(0xf0 :: c_int) = push_bit 4 (mask 4)" by (simp add: mask_eq_exp_minus_1)
  have h: "bit ni n \<Longrightarrow> 4 \<le> n \<and> n < 8" "bit si n \<Longrightarrow> n < 4" for n
  proof -
    assume "bit ni n"
    then have "bit (ni AND push_bit 4 (mask 4)) n" using assms(1) unfolding f0 by simp
    then show "4 \<le> n \<and> n < 8" by (auto simp: bit_simps)
  next
    assume "bit si n"
    then have "bit (si AND mask 4) n" using assms(2) unfolding masks by simp
    then show "n < 4" by (simp add: bit_simps)
  qed
  show "ni + si = (ni OR si)"
    by (rule disjunctive_add_eq_or, rule bit_word_eqI) (auto simp: bit_simps dest!: h)
  show "ucast (ucast ni OR ucast si :: u8) AND 0xf0 = ni" unfolding f0
    by (rule bit_word_eqI) (auto simp: bit_simps dest: h)
  show "ucast (ucast ni OR ucast si :: u8) AND 0x0f = si" unfolding masks
    by (rule bit_word_eqI) (auto simp: bit_simps dest: h)
qed

lemma mtp3_label_octets_eq:
  "mtp3_label_octets l = [ucast (label_word l), ucast (drop_bit 8 (label_word l)), ucast (drop_bit 16 (label_word l)), ucast (drop_bit 24 (label_word l))]"
  by (simp add: mtp3_label_octets_def upt_rec)

lemma packet_encode_ok:
  assumes "packet_sendable m b d" "ptr_add q offset = Returns p" "p + length (packet_octets m d) \<le> length (m b)"
  shows "MTP3Packet_encode d b q offset m = Returns (5 + sif_length d, written b p (packet_octets m d) m)"
proof -
  obtain ni si where i: "network_indicator d = Some ni" "ni AND 0xf0 = ni" "service_indicator d = Some si" "si AND 0x0f = si"
    using assms(1) by (auto simp: packet_sendable_def)
  let ?h = "ucast ni OR ucast si :: u8" and ?l = "mtp3_label_octets (label d)"
  have h: "ucast (ni + si) = ?h" unfolding nibbles(1) [OF i(2,4)] by (rule bit_word_eqI) (simp add: bit_simps)
  have l: "be32 (bswap32 (label_word (label d))) = ?l" "length ?l = 4" by (simp_all add: mtp3_label_octets_eq bswap32_octets)
  have o: "packet_octets m d = ?h # ?l @ sif_octets m d" by (simp add: packet_octets_def i)
  have len: "p + 5 + length (sif_octets m d) \<le> length (m b)" using assms(3) l(2) unfolding o by simp
  have w: "mem_write b p [?h] m = Returns (written b p [?h] m)"
    "mem_write b (p + 1) ?l (written b p [?h] m) = Returns (written b p ([?h] @ ?l) m)"
    using len l(2) by (simp add: write_ok, subst write_written, simp_all)
  have c: "(if 0 < sint (sif_length d) \<and> sif d \<noteq> None then mem_copy b (p + 5) (sif d) (unat (sif_length d)) (written b p ([?h] @ ?l) m)
      else Returns (written b p ([?h] @ ?l) m)) = Returns (written b p (packet_octets m d) m)"
  proof (cases "sif d")
    case None
    then show ?thesis unfolding o by (simp add: sif_octets_def)
  next
    case (Some src)
    then obtain sb sp where s: "sif d = Some (sb, sp)" "sb \<noteq> b" "sp + unat (sif_length d) \<le> length (m sb)" "unat (sif_length d) < 2 ^ 31"
      using assms(1) by (cases src) (auto simp: packet_sendable_def)
    have e: "0 < sint (sif_length d) \<longleftrightarrow> 0 < unat (sif_length d)" using s(4) by (simp only: sint_small of_nat_0_less_iff)
    have f: "sif_octets m d = take (unat (sif_length d)) (drop sp (m sb))" by (simp add: sif_octets_def s(1))
    have lf: "length (sif_octets m d) = unat (sif_length d)" using s(3) unfolding f by (simp only: length_take length_drop)
    have "mem_copy b (p + 5) (Some (sb, sp)) (unat (sif_length d)) (written b p ([?h] @ ?l) m) =
        Returns (written b p (([?h] @ ?l) @ take (unat (sif_length d)) (drop sp (m sb))) m)"
    proof (rule copy_written [where m = m, OF s(2) s(3)])
      show "p + length ([?h] @ ?l) + unat (sif_length d) \<le> length (m b)" "p + 5 = p + length ([?h] @ ?l)"
        using len l(2) unfolding lf by simp_all
    qed
    then have "mem_copy b (p + 5) (Some (sb, sp)) (unat (sif_length d)) (written b p ([?h] @ ?l) m) = Returns (written b p (packet_octets m d) m)"
      unfolding o f by (simp only: append.assoc append_Cons append_Nil)
    moreover have "packet_octets m d = [?h] @ ?l" if "unat (sif_length d) = 0" unfolding o f that by simp
    ultimately show ?thesis unfolding e s(1) by (cases "unat (sif_length d) = 0") (simp_all only: if_True if_False not_less neq0_conv, simp_all)
  qed
  show ?thesis unfolding MTP3Packet_encode_def assms(2) i(1,3) and_then.simps the_ptr_simps h w l(1) c ..
qed

lemma packet_decode:
  assumes "packet_sendable m b0 d" "octets_at (m' b) p (packet_octets m d)" "service_indicator d = Some si"
  shows "mtp3_decode (Some (b, p)) (5 + sif_length d) m' =
    and_then (decode_signalling si (m' b) b (p + 5)) (\<lambda>sm.
      Returns (Some (d\<lparr>sif := Some (b, p + 5), signalling_message := sm\<rparr>)))"
proof -
  obtain ni where i: "network_indicator d = Some ni" "ni AND 0xf0 = ni" "si AND 0x0f = si"
    using assms(1,3) by (auto simp: packet_sendable_def)
  let ?l = "label_word (label d)" and ?bs = "m' b"
  have o: "packet_octets m d = (ucast ni OR ucast si) # mtp3_label_octets (label d) @ sif_octets m d" by (simp add: packet_octets_def i assms(3))
  note w = octets_atD [OF assms(2)]
  have h: "byte_at ?bs p = Returns (ucast ni OR ucast si)" using w [of 0] by (simp add: o)
  have "get32 ?bs (p + 1) =
      Returns (octet4 (ucast ?l) (ucast (drop_bit 8 ?l)) (ucast (drop_bit 16 ?l)) (ucast (drop_bit 24 ?l)))"
    using w [of 1] w [of 2] w [of 3] w [of 4] by (subst get_nth(1)) (simp_all add: o mtp3_label_octets_eq numeral_eq_Suc)
  moreover have "label_word (label d) AND 0x3fff = dpc (label d)" "signed_drop_bit 14 ?l AND 0x3fff = opc (label d)"
    "signed_drop_bit 28 ?l AND 0x0f = slc (label d)"
    using label_fields [of "label d"] assms(1) by (simp_all add: packet_sendable_def)
  moreover have "0 < sint (5 + sif_length d)"
  proof -
    have n: "unat (sif_length d) < 2 ^ 31 - 5" using assms(1) by (simp add: packet_sendable_def)
    then have "unat (5 + sif_length d) = 5 + unat (sif_length d)" by (simp add: unat_word_ariths)
    then show ?thesis using n sint_small [of "5 + sif_length d"] by (simp add: add_pos_nonneg)
  qed
  moreover have "new_packet\<lparr>network_indicator := Some ni, service_indicator := Some si, label := label d, sif := Some (b, p + 5),
      sif_length := 5 + sif_length d - 5, signalling_message := sm\<rparr> = d\<lparr>sif := Some (b, p + 5), signalling_message := sm\<rparr>" for sm
    by (rule MTP3Packet.equality) (simp_all add: i assms(3))
  moreover have "\<lparr>dpc = dpc l, opc = opc l, slc = slc l\<rparr> = l" for l by simp
  ultimately show ?thesis
    using h nibbles(2,3) [OF i(2,3)] by (simp only: mtp3_decode_def option.case prod.case if_True and_then.simps Let_def bswap32_octet4 octet4_of)
qed

text \<open>The content of a decoded packet is that of the sent one.\<close>

lemma sif_received:
  assumes "packet_sendable m b0 d" "octets_at (m' b) p (packet_octets m d)"
  shows "octets_at (m' b) (p + 5) (sif_octets m d)"
    "length (sif_octets m d) = unat (sif_length d)"
proof -
  have "octets_at (m' b) p (((ucast (the (network_indicator d)) OR ucast (the (service_indicator d))) # mtp3_label_octets (label d)) @ sif_octets m d)"
    using assms(2) by (simp add: packet_octets_def)
  from octets_at_append [OF this] show "octets_at (m' b) (p + 5) (sif_octets m d)" by (simp add: mtp3_label_octets_eq eval_nat_numeral)
  show "length (sif_octets m d) = unat (sif_length d)"
    using assms(1) by (auto simp: packet_sendable_def sif_octets_def split: option.splits)
qed

section \<open>Signalling messages\<close>

definition service_of :: "MTP3MessageType \<Rightarrow> ServiceIndicatorType" where
  "service_of mt = (if mt = SLTM \<or> mt = SLTA then SNTMM else SNMM)"

lemma type_of_value:
  "mtp3_type_of (push_bit 8 (si_value (service_of mt)) + ucast (ucast (mtp3_type_value mt) :: u8)) = Some mt"
  by (cases mt) (simp_all add: mtp3_type_of_def mtp3_message_types_def service_of_def)

lemma decode_signalling_type:
  assumes "byte_at bs q = Returns (ucast (mtp3_type_value mt))"
  shows "decode_signalling (si_value (service_of mt)) bs b q =
    and_then (mtp3_message_init mt bs b q (new_mtp3_message mt)) (\<lambda>d. Returns (Some d))"
  using assms type_of_value [of mt] by (simp add: decode_signalling_def) (simp add: service_of_def)

section \<open>What callers rely on\<close>

text \<open>
  C16. A packet of a user part that is encoded is decoded to the same packet, its content now in
  the buffer that was received: indicators, point codes, selection code and content survive.
\<close>

theorem mtp3_roundtrip:
  assumes "packet_sendable m b d" "ptr_add q offset = Returns p" "p + length (packet_octets m d) \<le> length (m b)"
    "service_indicator d \<noteq> Some (si_value SNMM)" "service_indicator d \<noteq> Some (si_value SNTMM)"
  shows "\<exists>m'. MTP3Packet_encode d b q offset m = Returns (5 + sif_length d, m') \<and>
    mtp3_decode (Some (b, p)) (5 + sif_length d) m' = Returns (Some (d\<lparr>sif := Some (b, p + 5), signalling_message := None\<rparr>)) \<and>
    sif_octets m' (d\<lparr>sif := Some (b, p + 5)\<rparr>) = sif_octets m d"
proof -
  let ?m = "written b p (packet_octets m d) m"
  obtain si where si: "service_indicator d = Some si" using assms(1) by (auto simp: packet_sendable_def)
  have o: "octets_at (?m b) p (packet_octets m d)" by (rule octets_at_written [where m = m, OF assms(3)])
  have "decode_signalling si (?m b) b (p + 5) = Returns None" using assms(4,5) si by (simp add: decode_signalling_def)
  then have "mtp3_decode (Some (b, p)) (5 + sif_length d) ?m = Returns (Some (d\<lparr>sif := Some (b, p + 5), signalling_message := None\<rparr>))"
    unfolding packet_decode [where m' = ?m, OF assms(1) o si] by simp
  moreover have "sif_octets ?m (d\<lparr>sif := Some (b, p + 5)\<rparr>) = sif_octets m d"
    using sif_received [where m' = ?m, OF assms(1) o] unfolding octets_at_def by (simp add: sif_octets_def)
  ultimately show ?thesis using packet_encode_ok [OF assms(1-3)] by blast
qed

definition unitdata_packet :: MTP3Packet where
  "unitdata_packet =
     \<lparr>network_indicator = Some 0x80, service_indicator = Some 3, label = \<lparr>dpc = 1000, opc = 9000, slc = 13\<rparr>,
      sif = Some (1, 0), sif_length = 3, signalling_message = None\<rparr>"

definition two_buffers :: memory where
  "two_buffers b = (if b = 0 then replicate 10 0 else [9, 1, 3, 0, 0])"

lemma mtp3_roundtrip_witness:
  "\<exists>m'. MTP3Packet_encode unitdata_packet 0 1 1 two_buffers = Returns (8, m') \<and>
    mtp3_decode (Some (0, 2)) 8 m' = Returns (Some (unitdata_packet\<lparr>sif := Some (0, 7), signalling_message := None\<rparr>)) \<and>
    sif_octets m' (unitdata_packet\<lparr>sif := Some (0, 7)\<rparr>) = [9, 1, 3]"
proof -
  have s: "packet_sendable two_buffers 0 unitdata_packet" "sif_octets two_buffers unitdata_packet = [9, 1, 3]" "length (two_buffers 0) = 10"
    by (simp_all add: packet_sendable_def unitdata_packet_def two_buffers_def sif_octets_def)
  show ?thesis
    using mtp3_roundtrip [OF s(1), of 1 1 2] s(2,3)
    by (simp add: packet_octets_def mtp3_label_octets_eq ptr_add_def) (simp add: unitdata_packet_def)
qed

text \<open>
  C15. A signalling message that is encoded and sent as the content of a packet reaches the receiver
  with its label; it carries the same type and values exactly if it is \<open>recoverable\<close>. Lost are
  transfer controlled, destinations and links beyond 255, changeback codes beyond 127, and any
  unavailable user part but that of zeros.
\<close>

theorem mtp3_signalling:
  assumes "message_sendable m sb sm" "ptr_add sq soffset = Returns sp" "sp + length (mtp3_message_octets m sm) \<le> length (m sb)"
    "sif d = Some (sb, sp)" "sif_length d = of_nat (length (mtp3_message_octets m sm))"
    "service_indicator d = Some (si_value (service_of (message_type sm)))"
    "packet_sendable m b d" "ptr_add q offset = Returns p" "p + 5 + length (mtp3_message_octets m sm) \<le> length (m b)"
  shows "\<exists>m1 m2. mtp3_message_encode sm sb sq soffset m = Returns m1 \<and>
    MTP3Packet_encode d b q offset m1 = Returns (5 + sif_length d, m2) \<and>
    ((\<exists>d' sm'. mtp3_decode (Some (b, p)) (5 + sif_length d) m2 = Returns (Some d') \<and> label d' = label d \<and>
      signalling_message d' = Some sm' \<and> mtp3_carries m2 sm' = mtp3_carries m sm) \<longleftrightarrow> recoverable sm)"
proof -
  let ?w = "mtp3_message_octets m sm" and ?mt = "message_type sm"
  let ?m1 = "written sb sp ?w m"
  let ?m2 = "written b p (packet_octets ?m1 d) ?m1"
  have sb: "sb \<noteq> b" "unat (sif_length d) < 2 ^ 31 - 5" using assms(4,7) by (auto simp: packet_sendable_def)
  have n: "unat (sif_length d) = length ?w"
    unfolding assms(5) by (rule unat_of_nat_32, use message_octets_short [OF assms(1)] in simp)
  have ps: "packet_sendable ?m1 b d" using assms(3,4,7) by (simp add: packet_sendable_def)
  have w: "sif_octets ?m1 d = ?w"
    using octets_at_written [where m = m, OF assms(3)] by (simp add: sif_octets_def assms(4) n octets_at_def)
  have "length (packet_octets ?m1 d) = 5 + length ?w" by (simp add: packet_octets_def mtp3_label_octets_eq w)
  then have len: "p + length (packet_octets ?m1 d) \<le> length (?m1 b)" using assms(9) sb(1) by simp
  have o: "octets_at (?m2 b) p (packet_octets ?m1 d)" by (rule octets_at_written [where m = ?m1, OF len])
  have o5: "octets_at (?m2 b) (p + 5) ?w" using sif_received(1) [where m' = ?m2, OF ps o] unfolding w .
  have h: "byte_at (?m2 b) (p + 5) = Returns (ucast (mtp3_type_value ?mt))"
    using octets_atD [OF o5, of 0] by (simp add: mtp3_message_octets_def)
  have "mtp3_decode (Some (b, p)) (5 + sif_length d) ?m2 =
      and_then (init_body ?mt (?m2 b) b (p + 5)) (\<lambda>ms.
        Returns (Some (d\<lparr>sif := Some (b, p + 5), signalling_message := Some ((new_mtp3_message ?mt)\<lparr>members := ms\<rparr>)\<rparr>)))"
    unfolding packet_decode [where m' = ?m2, OF ps o assms(6)] decode_signalling_type [OF h] message_init_body
    by (simp add: and_then_assoc)
  moreover have "message_type (new_mtp3_message ?mt) = ?mt" by (cases ?mt) simp_all
  ultimately have "(\<exists>d' sm'. mtp3_decode (Some (b, p)) (5 + sif_length d) ?m2 = Returns (Some d') \<and> label d' = label d \<and>
      signalling_message d' = Some sm' \<and> mtp3_carries ?m2 sm' = mtp3_carries m sm) \<longleftrightarrow>
    (\<exists>ms. init_body ?mt (?m2 b) b (p + 5) = Returns ms \<and> member_values ms = member_values (members sm) \<and>
      pattern_octets ?m2 (sm\<lparr>members := ms\<rparr>) = pattern_octets m sm)"
    by (auto simp: and_then_Returns_iff mtp3_carries_def pattern_octets_def)
  also have "\<dots> \<longleftrightarrow> recoverable sm" by (rule init_body_recovers [where m' = ?m2, OF assms(1) o5])
  finally show ?thesis
    using message_encode_ok [OF assms(1-3)] packet_encode_ok [OF ps assms(8) len] by blast
qed

text \<open>Two destinations: 200 arrives, 1000 does not.\<close>

definition prohibited :: "c_int \<Rightarrow> MTP3Message" where
  "prohibited v = (new_mtp3_message TFP)\<lparr>members := Destination (Some v)\<rparr>"

definition management_packet :: MTP3Packet where
  "management_packet = unitdata_packet\<lparr>service_indicator := Some 0, sif := Some (1, 1)\<rparr>"

lemma mtp3_signalling_witness:
  "(\<exists>m1 m2. mtp3_message_encode (prohibited 200) 1 1 0 two_buffers = Returns m1 \<and>
    MTP3Packet_encode management_packet 0 1 1 m1 = Returns (8, m2) \<and>
    (\<exists>d' sm'. mtp3_decode (Some (0, 2)) 8 m2 = Returns (Some d') \<and> label d' = label management_packet \<and>
      signalling_message d' = Some sm' \<and> mtp3_carries m2 sm' = (TFP, [Some 200], []))) \<and>
   (\<exists>m1 m2. mtp3_message_encode (prohibited 1000) 1 1 0 two_buffers = Returns m1 \<and>
    MTP3Packet_encode management_packet 0 1 1 m1 = Returns (8, m2) \<and>
    (\<nexists>d' sm'. mtp3_decode (Some (0, 2)) 8 m2 = Returns (Some d') \<and> label d' = label management_packet \<and>
      signalling_message d' = Some sm' \<and> mtp3_carries m2 sm' = (TFP, [Some 1000], [])))"
proof -
  have s: "message_sendable two_buffers 1 (prohibited v)" "length (mtp3_message_octets two_buffers (prohibited v)) = 3"
    "message_type (prohibited v) = TFP" "recoverable (prohibited v) \<longleftrightarrow> v < 2 ^ 8"
    "mtp3_carries two_buffers (prohibited v) = (TFP, [Some v], [])" if "v < 2 ^ 14" for v
    using that by (simp_all add: prohibited_def message_sendable_def in_range_def mtp3_message_octets_def body_octets_def recoverable_def
        mtp3_carries_def pattern_octets_def)
  have p: "packet_sendable two_buffers 0 management_packet" "sif management_packet = Some (1, 1)" "sif_length management_packet = 3"
    "service_indicator management_packet = Some 0" "length (two_buffers 0) = 10" "length (two_buffers 1) = 5"
    "ptr_add 1 1 = Returns 2"
    by (simp_all add: packet_sendable_def management_packet_def unitdata_packet_def two_buffers_def ptr_add_def)
  note t = mtp3_signalling [of two_buffers 1 "prohibited v" 1 0 1 management_packet 0 1 1 2 for v]
  show ?thesis
  proof (rule conjI, goal_cases)
    case 1
    show ?case using t [of 200] s [of 200] p by (simp add: service_of_def)
  next
    case 2
    show ?case using t [of 1000] s [of 1000] p by (simp add: service_of_def)
  qed
qed

text \<open>Of packets of fewer than five octets the label is read beyond the end.\<close>

theorem mtp3_short_data:
  "0 < sint data_length \<Longrightarrow> length (m b) < q + 5 \<Longrightarrow> mtp3_decode (Some (b, q)) data_length m = Undefined"
  by (cases "byte_at (m b) q") (auto simp: mtp3_decode_def get32_def byte_at_def split: if_splits)

end
