(* ===== verification/M2ua.thy ===== *)
theory M2ua
  imports Buffers
begin

text \<open>
  The M2UA codec, \<^verbatim>\<open>src/m2ua/m2ua.h\<close> and \<^verbatim>\<open>src/m2ua/m2ua.cpp\<close>: parameters, messages and packets.
  Its objects are made by \<open>new\<close> and have one owner, so they are values here; only the octets of a
  parameter are behind a pointer into a memory of buffers. Lengths and positions are \<open>int\<close> in the
  code and unbounded here: they are sums of a few 16-bit lengths and positions of a buffer.
  \<open>char\<close> is signed, and a left shift of a negative \<open>int\<close> multiplies, as GCC defines it.
\<close>

section \<open>Enumerations\<close>

datatype M2UAParameterType =
    INTERFACE_INDICATOR_INTEGER | INTERFACE_INDICATOR_TEXT | INFO_STRING | DIAGNOSTIC_INFORMATION
  | INTERFACE_INDICATOR_INTEGER_RANGE | HEARTBEAT_DATA | TRAFFIC_MODE_TYPE | ERROR_CODE
  | STATUS_TYPE_INFO | ASP_IDENTIFIER | CORRELATION_ID | PROTOCOL_DATA_1
  | PROTOCOL_DATA_2_TTC | STATE_REQUEST_PARAM | STATE_EVENT | CONGESTION_STATUS
  | DISCARD_STATUS | ACTION | SEQUENCE_NUMBER | RETRIEVAL_RESULT
  | LINK_KEY | LOCAL_LK_IDENTIFIER | SDT_IDENTIFIER | SDL_IDENTIFIER
  | REGISTRATION_RESULT | REGISTRATION_STATUS | DEREGISTRATION_RESULT | DEREGISTRATION_STATUS

primrec m2ua_pt_value :: "M2UAParameterType \<Rightarrow> c_int" where
  "m2ua_pt_value INTERFACE_INDICATOR_INTEGER = 0x01"
| "m2ua_pt_value INTERFACE_INDICATOR_TEXT = 0x03"
| "m2ua_pt_value INFO_STRING = 0x04"
| "m2ua_pt_value DIAGNOSTIC_INFORMATION = 0x07"
| "m2ua_pt_value INTERFACE_INDICATOR_INTEGER_RANGE = 0x08"
| "m2ua_pt_value HEARTBEAT_DATA = 0x09"
| "m2ua_pt_value TRAFFIC_MODE_TYPE = 0x0b"
| "m2ua_pt_value ERROR_CODE = 0x0c"
| "m2ua_pt_value STATUS_TYPE_INFO = 0x0d"
| "m2ua_pt_value ASP_IDENTIFIER = 0x11"
| "m2ua_pt_value CORRELATION_ID = 0x13"
| "m2ua_pt_value PROTOCOL_DATA_1 = 0x0300"
| "m2ua_pt_value PROTOCOL_DATA_2_TTC = 0x0301"
| "m2ua_pt_value STATE_REQUEST_PARAM = 0x0302"
| "m2ua_pt_value STATE_EVENT = 0x0303"
| "m2ua_pt_value CONGESTION_STATUS = 0x0304"
| "m2ua_pt_value DISCARD_STATUS = 0x0305"
| "m2ua_pt_value ACTION = 0x0306"
| "m2ua_pt_value SEQUENCE_NUMBER = 0x0307"
| "m2ua_pt_value RETRIEVAL_RESULT = 0x0308"
| "m2ua_pt_value LINK_KEY = 0x0309"
| "m2ua_pt_value LOCAL_LK_IDENTIFIER = 0x030a"
| "m2ua_pt_value SDT_IDENTIFIER = 0x030b"
| "m2ua_pt_value SDL_IDENTIFIER = 0x030c"
| "m2ua_pt_value REGISTRATION_RESULT = 0x030d"
| "m2ua_pt_value REGISTRATION_STATUS = 0x030e"
| "m2ua_pt_value DEREGISTRATION_RESULT = 0x030f"
| "m2ua_pt_value DEREGISTRATION_STATUS = 0x0310"

datatype M2UAMessageClass = MGMT | TRANSFER | SSNM | ASPSM | ASPTM | QPTM | MAUP | SUA_NO_CON | SUA_CON | RKM | IIM

primrec m2ua_class_value :: "M2UAMessageClass \<Rightarrow> c_int" where
  "m2ua_class_value MGMT = 0x00"
| "m2ua_class_value TRANSFER = 0x01"
| "m2ua_class_value SSNM = 0x02"
| "m2ua_class_value ASPSM = 0x03"
| "m2ua_class_value ASPTM = 0x04"
| "m2ua_class_value QPTM = 0x05"
| "m2ua_class_value MAUP = 0x06"
| "m2ua_class_value SUA_NO_CON = 0x07"
| "m2ua_class_value SUA_CON = 0x08"
| "m2ua_class_value RKM = 0x09"
| "m2ua_class_value IIM = 0x0a"

datatype M2UAMessageType =
    DATA | ESTABLISH_REQUEST | ESTABLISH_CONFIRM | RELEASE_REQUEST
  | RELEASE_CONFIRM | RELEASE_INDICATION | STATE_REQUEST | STATE_CONFIRM
  | STATE_INDICATION | DATA_RETRIEVAL_REQUEST | DATA_RETRIEVAL_CONFIRM | DATA_RETRIEVAL_INDICATION
  | DATA_RETRIEVAL_COMPLETE_INDICATION | CONGESTION_INDICATION | DATA_ACK | ASP_UP
  | ASP_DOWN | HEARTBEAT | ASP_UP_ACK | ASP_DOWN_ACK
  | HEARTBEAT_ACK | ASP_ACTIVE | ASP_INACTIVE | ASP_ACTIVE_ACK
  | ASP_INACTIVE_ACK | ERR | NTFY | REG_REQ
  | REG_RSP | DEREG_REQ | DEREG_RSP

primrec m2ua_mt_value :: "M2UAMessageType \<Rightarrow> c_int" where
  "m2ua_mt_value DATA = push_bit 8 (m2ua_class_value MAUP) + 0x01"
| "m2ua_mt_value ESTABLISH_REQUEST = push_bit 8 (m2ua_class_value MAUP) + 0x02"
| "m2ua_mt_value ESTABLISH_CONFIRM = push_bit 8 (m2ua_class_value MAUP) + 0x03"
| "m2ua_mt_value RELEASE_REQUEST = push_bit 8 (m2ua_class_value MAUP) + 0x04"
| "m2ua_mt_value RELEASE_CONFIRM = push_bit 8 (m2ua_class_value MAUP) + 0x05"
| "m2ua_mt_value RELEASE_INDICATION = push_bit 8 (m2ua_class_value MAUP) + 0x06"
| "m2ua_mt_value STATE_REQUEST = push_bit 8 (m2ua_class_value MAUP) + 0x07"
| "m2ua_mt_value STATE_CONFIRM = push_bit 8 (m2ua_class_value MAUP) + 0x08"
| "m2ua_mt_value STATE_INDICATION = push_bit 8 (m2ua_class_value MAUP) + 0x09"
| "m2ua_mt_value DATA_RETRIEVAL_REQUEST = push_bit 8 (m2ua_class_value MAUP) + 0x0a"
| "m2ua_mt_value DATA_RETRIEVAL_CONFIRM = push_bit 8 (m2ua_class_value MAUP) + 0x0b"
| "m2ua_mt_value DATA_RETRIEVAL_INDICATION = push_bit 8 (m2ua_class_value MAUP) + 0x0c"
| "m2ua_mt_value DATA_RETRIEVAL_COMPLETE_INDICATION = push_bit 8 (m2ua_class_value MAUP) + 0x0d"
| "m2ua_mt_value CONGESTION_INDICATION = push_bit 8 (m2ua_class_value MAUP) + 0x0e"
| "m2ua_mt_value DATA_ACK = push_bit 8 (m2ua_class_value MAUP) + 0x0f"
| "m2ua_mt_value ASP_UP = push_bit 8 (m2ua_class_value ASPSM) + 0x01"
| "m2ua_mt_value ASP_DOWN = push_bit 8 (m2ua_class_value ASPSM) + 0x02"
| "m2ua_mt_value HEARTBEAT = push_bit 8 (m2ua_class_value ASPSM) + 0x03"
| "m2ua_mt_value ASP_UP_ACK = push_bit 8 (m2ua_class_value ASPSM) + 0x04"
| "m2ua_mt_value ASP_DOWN_ACK = push_bit 8 (m2ua_class_value ASPSM) + 0x05"
| "m2ua_mt_value HEARTBEAT_ACK = push_bit 8 (m2ua_class_value ASPSM) + 0x06"
| "m2ua_mt_value ASP_ACTIVE = push_bit 8 (m2ua_class_value ASPTM) + 0x01"
| "m2ua_mt_value ASP_INACTIVE = push_bit 8 (m2ua_class_value ASPTM) + 0x02"
| "m2ua_mt_value ASP_ACTIVE_ACK = push_bit 8 (m2ua_class_value ASPTM) + 0x03"
| "m2ua_mt_value ASP_INACTIVE_ACK = push_bit 8 (m2ua_class_value ASPTM) + 0x04"
| "m2ua_mt_value ERR = push_bit 8 (m2ua_class_value MGMT) + 0x00"
| "m2ua_mt_value NTFY = push_bit 8 (m2ua_class_value MGMT) + 0x01"
| "m2ua_mt_value REG_REQ = push_bit 8 (m2ua_class_value IIM) + 0x01"
| "m2ua_mt_value REG_RSP = push_bit 8 (m2ua_class_value IIM) + 0x02"
| "m2ua_mt_value DEREG_REQ = push_bit 8 (m2ua_class_value IIM) + 0x03"
| "m2ua_mt_value DEREG_RSP = push_bit 8 (m2ua_class_value IIM) + 0x04"

section \<open>Parameters\<close>

text \<open>The members the subclasses of \<open>M2UAParam\<close> add; no constructor sets them.\<close>

datatype m2ua_members =
    No_Members
  | TrafficModeType "c_int option"
  | ErrorCode "c_int option"
  | StateRequest "c_int option"
  | StateEvent "c_int option"
  | CongestionStatus "c_int option"
  | DiscardStatus "c_int option"
  | Action "c_int option"
  | RetrievalResult "c_int option"
  | RegistrationStatus "c_int option"
  | StatusTypeInfo "c_int option" "c_int option"

record M2UAParam =
  param_type :: M2UAParameterType
  param_byte_pos :: int
  value_length :: int
  param_value :: "buf_ptr option"
  members :: m2ua_members

primrec m2ua_new_members :: "M2UAParameterType \<Rightarrow> m2ua_members" where
  "m2ua_new_members INTERFACE_INDICATOR_INTEGER = No_Members"
| "m2ua_new_members INTERFACE_INDICATOR_TEXT = No_Members"
| "m2ua_new_members INFO_STRING = No_Members"
| "m2ua_new_members DIAGNOSTIC_INFORMATION = No_Members"
| "m2ua_new_members INTERFACE_INDICATOR_INTEGER_RANGE = No_Members"
| "m2ua_new_members HEARTBEAT_DATA = No_Members"
| "m2ua_new_members TRAFFIC_MODE_TYPE = TrafficModeType None"
| "m2ua_new_members ERROR_CODE = ErrorCode None"
| "m2ua_new_members STATUS_TYPE_INFO = StatusTypeInfo None None"
| "m2ua_new_members ASP_IDENTIFIER = No_Members"
| "m2ua_new_members CORRELATION_ID = No_Members"
| "m2ua_new_members PROTOCOL_DATA_1 = No_Members"
| "m2ua_new_members PROTOCOL_DATA_2_TTC = No_Members"
| "m2ua_new_members STATE_REQUEST_PARAM = StateRequest None"
| "m2ua_new_members STATE_EVENT = StateEvent None"
| "m2ua_new_members CONGESTION_STATUS = CongestionStatus None"
| "m2ua_new_members DISCARD_STATUS = DiscardStatus None"
| "m2ua_new_members ACTION = Action None"
| "m2ua_new_members SEQUENCE_NUMBER = No_Members"
| "m2ua_new_members RETRIEVAL_RESULT = RetrievalResult None"
| "m2ua_new_members LINK_KEY = No_Members"
| "m2ua_new_members LOCAL_LK_IDENTIFIER = No_Members"
| "m2ua_new_members SDT_IDENTIFIER = No_Members"
| "m2ua_new_members SDL_IDENTIFIER = No_Members"
| "m2ua_new_members REGISTRATION_RESULT = No_Members"
| "m2ua_new_members REGISTRATION_STATUS = RegistrationStatus None"
| "m2ua_new_members DEREGISTRATION_RESULT = No_Members"
| "m2ua_new_members DEREGISTRATION_STATUS = No_Members"

text \<open>\<open>get_param\<close>, with the constructors it calls; \<open>None\<close> for a tag that is not in the enumeration.\<close>

definition M2UAParam_new :: "M2UAParameterType \<Rightarrow> M2UAParam" where
  "M2UAParam_new pt =
     \<lparr>param_type = pt, param_byte_pos = 0, value_length = 0, param_value = None, members = m2ua_new_members pt\<rparr>"

definition m2ua_parameter_types :: "M2UAParameterType list" where
  "m2ua_parameter_types = [INTERFACE_INDICATOR_INTEGER, INTERFACE_INDICATOR_TEXT, INFO_STRING, DIAGNOSTIC_INFORMATION,
     INTERFACE_INDICATOR_INTEGER_RANGE, HEARTBEAT_DATA, TRAFFIC_MODE_TYPE, ERROR_CODE, STATUS_TYPE_INFO, ASP_IDENTIFIER, CORRELATION_ID,
     PROTOCOL_DATA_1, PROTOCOL_DATA_2_TTC, STATE_REQUEST_PARAM, STATE_EVENT, CONGESTION_STATUS, DISCARD_STATUS, ACTION, SEQUENCE_NUMBER,
     RETRIEVAL_RESULT, LINK_KEY, LOCAL_LK_IDENTIFIER, SDT_IDENTIFIER, SDL_IDENTIFIER, REGISTRATION_RESULT, REGISTRATION_STATUS,
     DEREGISTRATION_RESULT, DEREGISTRATION_STATUS]"

definition m2ua_get_param :: "int \<Rightarrow> M2UAParam option" where
  "m2ua_get_param tag = map_option M2UAParam_new (List.find (\<lambda>pt. uint (m2ua_pt_value pt) = tag) m2ua_parameter_types)"

text \<open>A pointer and an \<open>int\<close>.\<close>

definition ptr_at :: "nat \<Rightarrow> int \<Rightarrow> nat outcome" where
  "ptr_at q i = guard (0 \<le> int q + i) (Returns (nat (int q + i)))"

definition octet_at :: "u8 list \<Rightarrow> nat \<Rightarrow> int \<Rightarrow> u8 outcome" where
  "octet_at bs q i = and_then (ptr_at q i) (byte_at bs)"

text \<open>Octets are sign-extended but for the last one.\<close>

definition signed32 :: "u8 list \<Rightarrow> nat \<Rightarrow> c_int outcome" where
  "signed32 bs q =
     and_then (byte_at bs q) (\<lambda>a. and_then (byte_at bs (q + 1)) (\<lambda>b.
     and_then (byte_at bs (q + 2)) (\<lambda>c. and_then (byte_at bs (q + 3)) (\<lambda>d.
     Returns (push_bit 24 (scast a) + push_bit 16 (scast b) + push_bit 8 (scast c) + (ucast d AND 0xff))))))"

definition signed16 :: "u8 list \<Rightarrow> nat \<Rightarrow> c_int outcome" where
  "signed16 bs q =
     and_then (byte_at bs q) (\<lambda>a. and_then (byte_at bs (q + 1)) (\<lambda>b.
     Returns (push_bit 8 (scast a) + (ucast b AND 0xff))))"

section \<open>\<open>init\<close> and \<open>encode\<close> of the parameters\<close>

text \<open>\<open>init\<close> gets the octets of buffer \<open>b\<close>, the position of the value and its length.\<close>

definition M2UAParam_init :: "nat \<Rightarrow> nat \<Rightarrow> int \<Rightarrow> M2UAParam \<Rightarrow> M2UAParam" where
  "M2UAParam_init b q n p = p\<lparr>param_value := Some (b, q), value_length := n\<rparr>"

text \<open>
  \<open>encode\<close> gives the length of the result, the parameter, whose value may have moved, and the
  memory. The value is copied unless it is in place; no octets are copied from nowhere.
\<close>

definition M2UAParam_encode ::
  "M2UAParam \<Rightarrow> nat \<Rightarrow> nat \<Rightarrow> int \<Rightarrow> memory \<Rightarrow> (int \<times> M2UAParam \<times> memory) outcome" where
  "M2UAParam_encode p b q offset m =
     and_then (ptr_at q offset) (\<lambda>pos.
     and_then (mem_write b pos (be16 (m2ua_pt_value (param_type p)) @ be16 (of_int (value_length p + 4))) m) (\<lambda>m.
     and_then (if param_value p \<noteq> Some (b, pos + 4) \<and> value_length p \<noteq> 0
       then guard (0 \<le> value_length p) (mem_copy b (pos + 4) (param_value p) (nat (value_length p)) m)
       else Returns m) (\<lambda>m.
     Returns (4 + value_length p, p, m))))"

text \<open>The subclasses first put their four octets at the place of the value.\<close>

definition m2ua_encode_value ::
  "M2UAParam \<Rightarrow> nat \<Rightarrow> nat \<Rightarrow> int \<Rightarrow> u8 list \<Rightarrow> memory \<Rightarrow> (int \<times> M2UAParam \<times> memory) outcome" where
  "m2ua_encode_value p b q offset octets m =
     and_then (ptr_at q (offset + 4)) (\<lambda>pos.
     and_then (mem_write b pos octets m) (\<lambda>m.
     M2UAParam_encode (p\<lparr>param_value := Some (b, pos), value_length := 4\<rparr>) b q offset m))"

definition m2ua_TrafficModeType_init ::
  "u8 list \<Rightarrow> nat \<Rightarrow> nat \<Rightarrow> int \<Rightarrow> M2UAParam \<Rightarrow> M2UAParam outcome" where
  "m2ua_TrafficModeType_init bs b q n p =
     (let p = M2UAParam_init b q n p
      in if 4 \<le> value_length p
         then and_then (signed32 bs q) (\<lambda>v. Returns (p\<lparr>members := TrafficModeType (Some v)\<rparr>))
         else Returns p)"

definition m2ua_TrafficModeType_encode ::
  "M2UAParam \<Rightarrow> nat \<Rightarrow> nat \<Rightarrow> int \<Rightarrow> memory \<Rightarrow> (int \<times> M2UAParam \<times> memory) outcome" where
  "m2ua_TrafficModeType_encode p b q offset m =
     and_then (case members p of TrafficModeType v \<Rightarrow> the_ptr v | _ \<Rightarrow> Undefined) (\<lambda>v.
     m2ua_encode_value p b q offset (be32 v) m)"

definition m2ua_ErrorCode_init ::
  "u8 list \<Rightarrow> nat \<Rightarrow> nat \<Rightarrow> int \<Rightarrow> M2UAParam \<Rightarrow> M2UAParam outcome" where
  "m2ua_ErrorCode_init bs b q n p =
     (let p = M2UAParam_init b q n p
      in if 4 \<le> value_length p
         then and_then (signed32 bs q) (\<lambda>v. Returns (p\<lparr>members := ErrorCode (Some v)\<rparr>))
         else Returns p)"

definition m2ua_ErrorCode_encode ::
  "M2UAParam \<Rightarrow> nat \<Rightarrow> nat \<Rightarrow> int \<Rightarrow> memory \<Rightarrow> (int \<times> M2UAParam \<times> memory) outcome" where
  "m2ua_ErrorCode_encode p b q offset m =
     and_then (case members p of ErrorCode v \<Rightarrow> the_ptr v | _ \<Rightarrow> Undefined) (\<lambda>v.
     m2ua_encode_value p b q offset (be32 v) m)"

definition m2ua_StateRequest_init ::
  "u8 list \<Rightarrow> nat \<Rightarrow> nat \<Rightarrow> int \<Rightarrow> M2UAParam \<Rightarrow> M2UAParam outcome" where
  "m2ua_StateRequest_init bs b q n p =
     (let p = M2UAParam_init b q n p
      in if 4 \<le> value_length p
         then and_then (signed32 bs q) (\<lambda>v. Returns (p\<lparr>members := StateRequest (Some v)\<rparr>))
         else Returns p)"

definition m2ua_StateRequest_encode ::
  "M2UAParam \<Rightarrow> nat \<Rightarrow> nat \<Rightarrow> int \<Rightarrow> memory \<Rightarrow> (int \<times> M2UAParam \<times> memory) outcome" where
  "m2ua_StateRequest_encode p b q offset m =
     and_then (case members p of StateRequest v \<Rightarrow> the_ptr v | _ \<Rightarrow> Undefined) (\<lambda>v.
     m2ua_encode_value p b q offset (be32 v) m)"

definition m2ua_StateEvent_init ::
  "u8 list \<Rightarrow> nat \<Rightarrow> nat \<Rightarrow> int \<Rightarrow> M2UAParam \<Rightarrow> M2UAParam outcome" where
  "m2ua_StateEvent_init bs b q n p =
     (let p = M2UAParam_init b q n p
      in if 4 \<le> value_length p
         then and_then (signed32 bs q) (\<lambda>v. Returns (p\<lparr>members := StateEvent (Some v)\<rparr>))
         else Returns p)"

definition m2ua_StateEvent_encode ::
  "M2UAParam \<Rightarrow> nat \<Rightarrow> nat \<Rightarrow> int \<Rightarrow> memory \<Rightarrow> (int \<times> M2UAParam \<times> memory) outcome" where
  "m2ua_StateEvent_encode p b q offset m =
     and_then (case members p of StateEvent v \<Rightarrow> the_ptr v | _ \<Rightarrow> Undefined) (\<lambda>v.
     m2ua_encode_value p b q offset (be32 v) m)"

definition m2ua_CongestionStatus_init ::
  "u8 list \<Rightarrow> nat \<Rightarrow> nat \<Rightarrow> int \<Rightarrow> M2UAParam \<Rightarrow> M2UAParam outcome" where
  "m2ua_CongestionStatus_init bs b q n p =
     (let p = M2UAParam_init b q n p
      in if 4 \<le> value_length p
         then and_then (signed32 bs q) (\<lambda>v. Returns (p\<lparr>members := CongestionStatus (Some v)\<rparr>))
         else Returns p)"

definition m2ua_CongestionStatus_encode ::
  "M2UAParam \<Rightarrow> nat \<Rightarrow> nat \<Rightarrow> int \<Rightarrow> memory \<Rightarrow> (int \<times> M2UAParam \<times> memory) outcome" where
  "m2ua_CongestionStatus_encode p b q offset m =
     and_then (case members p of CongestionStatus v \<Rightarrow> the_ptr v | _ \<Rightarrow> Undefined) (\<lambda>v.
     m2ua_encode_value p b q offset (be32 v) m)"

definition m2ua_DiscardStatus_init ::
  "u8 list \<Rightarrow> nat \<Rightarrow> nat \<Rightarrow> int \<Rightarrow> M2UAParam \<Rightarrow> M2UAParam outcome" where
  "m2ua_DiscardStatus_init bs b q n p =
     (let p = M2UAParam_init b q n p
      in if 4 \<le> value_length p
         then and_then (signed32 bs q) (\<lambda>v. Returns (p\<lparr>members := DiscardStatus (Some v)\<rparr>))
         else Returns p)"

definition m2ua_DiscardStatus_encode ::
  "M2UAParam \<Rightarrow> nat \<Rightarrow> nat \<Rightarrow> int \<Rightarrow> memory \<Rightarrow> (int \<times> M2UAParam \<times> memory) outcome" where
  "m2ua_DiscardStatus_encode p b q offset m =
     and_then (case members p of DiscardStatus v \<Rightarrow> the_ptr v | _ \<Rightarrow> Undefined) (\<lambda>v.
     m2ua_encode_value p b q offset (be32 v) m)"

definition m2ua_Action_init ::
  "u8 list \<Rightarrow> nat \<Rightarrow> nat \<Rightarrow> int \<Rightarrow> M2UAParam \<Rightarrow> M2UAParam outcome" where
  "m2ua_Action_init bs b q n p =
     (let p = M2UAParam_init b q n p
      in if 4 \<le> value_length p
         then and_then (signed32 bs q) (\<lambda>v. Returns (p\<lparr>members := Action (Some v)\<rparr>))
         else Returns p)"

definition m2ua_Action_encode ::
  "M2UAParam \<Rightarrow> nat \<Rightarrow> nat \<Rightarrow> int \<Rightarrow> memory \<Rightarrow> (int \<times> M2UAParam \<times> memory) outcome" where
  "m2ua_Action_encode p b q offset m =
     and_then (case members p of Action v \<Rightarrow> the_ptr v | _ \<Rightarrow> Undefined) (\<lambda>v.
     m2ua_encode_value p b q offset (be32 v) m)"

definition m2ua_RetrievalResult_init ::
  "u8 list \<Rightarrow> nat \<Rightarrow> nat \<Rightarrow> int \<Rightarrow> M2UAParam \<Rightarrow> M2UAParam outcome" where
  "m2ua_RetrievalResult_init bs b q n p =
     (let p = M2UAParam_init b q n p
      in if 4 \<le> value_length p
         then and_then (signed32 bs q) (\<lambda>v. Returns (p\<lparr>members := RetrievalResult (Some v)\<rparr>))
         else Returns p)"

definition m2ua_RetrievalResult_encode ::
  "M2UAParam \<Rightarrow> nat \<Rightarrow> nat \<Rightarrow> int \<Rightarrow> memory \<Rightarrow> (int \<times> M2UAParam \<times> memory) outcome" where
  "m2ua_RetrievalResult_encode p b q offset m =
     and_then (case members p of RetrievalResult v \<Rightarrow> the_ptr v | _ \<Rightarrow> Undefined) (\<lambda>v.
     m2ua_encode_value p b q offset (be32 v) m)"

definition m2ua_RegistrationStatus_init ::
  "u8 list \<Rightarrow> nat \<Rightarrow> nat \<Rightarrow> int \<Rightarrow> M2UAParam \<Rightarrow> M2UAParam outcome" where
  "m2ua_RegistrationStatus_init bs b q n p =
     (let p = M2UAParam_init b q n p
      in if 4 \<le> value_length p
         then and_then (signed32 bs q) (\<lambda>v. Returns (p\<lparr>members := RegistrationStatus (Some v)\<rparr>))
         else Returns p)"

definition m2ua_RegistrationStatus_encode ::
  "M2UAParam \<Rightarrow> nat \<Rightarrow> nat \<Rightarrow> int \<Rightarrow> memory \<Rightarrow> (int \<times> M2UAParam \<times> memory) outcome" where
  "m2ua_RegistrationStatus_encode p b q offset m =
     and_then (case members p of RegistrationStatus v \<Rightarrow> the_ptr v | _ \<Rightarrow> Undefined) (\<lambda>v.
     m2ua_encode_value p b q offset (be32 v) m)"

definition m2ua_StatusTypeInfo_init ::
  "u8 list \<Rightarrow> nat \<Rightarrow> nat \<Rightarrow> int \<Rightarrow> M2UAParam \<Rightarrow> M2UAParam outcome" where
  "m2ua_StatusTypeInfo_init bs b q n p =
     (let p = M2UAParam_init b q n p
      in if 4 \<le> value_length p
         then and_then (signed16 bs q) (\<lambda>ty. and_then (signed16 bs (q + 2)) (\<lambda>info.
           Returns (p\<lparr>members := StatusTypeInfo (Some ty) (Some info)\<rparr>)))
         else Returns p)"

definition m2ua_StatusTypeInfo_encode ::
  "M2UAParam \<Rightarrow> nat \<Rightarrow> nat \<Rightarrow> int \<Rightarrow> memory \<Rightarrow> (int \<times> M2UAParam \<times> memory) outcome" where
  "m2ua_StatusTypeInfo_encode p b q offset m =
     and_then (case members p of StatusTypeInfo (Some ty) (Some info) \<Rightarrow> Returns (ty,
     info) | _ \<Rightarrow> Undefined) (\<lambda>(ty, info).
     m2ua_encode_value p b q offset (be16 ty @ be16 info) m)"

text \<open>The virtual calls; the other classes have the methods of the base class.\<close>

definition m2ua_param_init ::
  "u8 list \<Rightarrow> nat \<Rightarrow> nat \<Rightarrow> int \<Rightarrow> M2UAParam \<Rightarrow> M2UAParam outcome" where
  "m2ua_param_init bs b q n p =
     (case param_type p of
        TRAFFIC_MODE_TYPE \<Rightarrow> m2ua_TrafficModeType_init bs b q n p
     | ERROR_CODE \<Rightarrow> m2ua_ErrorCode_init bs b q n p
     | STATUS_TYPE_INFO \<Rightarrow> m2ua_StatusTypeInfo_init bs b q n p
     | STATE_REQUEST_PARAM \<Rightarrow> m2ua_StateRequest_init bs b q n p
     | STATE_EVENT \<Rightarrow> m2ua_StateEvent_init bs b q n p
     | CONGESTION_STATUS \<Rightarrow> m2ua_CongestionStatus_init bs b q n p
     | DISCARD_STATUS \<Rightarrow> m2ua_DiscardStatus_init bs b q n p
     | ACTION \<Rightarrow> m2ua_Action_init bs b q n p
     | RETRIEVAL_RESULT \<Rightarrow> m2ua_RetrievalResult_init bs b q n p
     | REGISTRATION_STATUS \<Rightarrow> m2ua_RegistrationStatus_init bs b q n p
     | _ \<Rightarrow> Returns (M2UAParam_init b q n p))"

definition m2ua_param_encode ::
  "M2UAParam \<Rightarrow> nat \<Rightarrow> nat \<Rightarrow> int \<Rightarrow> memory \<Rightarrow> (int \<times> M2UAParam \<times> memory) outcome" where
  "m2ua_param_encode p b q offset m =
     (case param_type p of
        TRAFFIC_MODE_TYPE \<Rightarrow> m2ua_TrafficModeType_encode p b q offset m
     | ERROR_CODE \<Rightarrow> m2ua_ErrorCode_encode p b q offset m
     | STATUS_TYPE_INFO \<Rightarrow> m2ua_StatusTypeInfo_encode p b q offset m
     | STATE_REQUEST_PARAM \<Rightarrow> m2ua_StateRequest_encode p b q offset m
     | STATE_EVENT \<Rightarrow> m2ua_StateEvent_encode p b q offset m
     | CONGESTION_STATUS \<Rightarrow> m2ua_CongestionStatus_encode p b q offset m
     | DISCARD_STATUS \<Rightarrow> m2ua_DiscardStatus_encode p b q offset m
     | ACTION \<Rightarrow> m2ua_Action_encode p b q offset m
     | RETRIEVAL_RESULT \<Rightarrow> m2ua_RetrievalResult_encode p b q offset m
     | REGISTRATION_STATUS \<Rightarrow> m2ua_RegistrationStatus_encode p b q offset m
     | _ \<Rightarrow> M2UAParam_encode p b q offset m)"

section \<open>Messages\<close>

record M2UAMessage =
  message_type :: M2UAMessageType
  byte_pos :: int
  params :: "M2UAParam list"

definition M2UAMessage_new :: "M2UAMessageType \<Rightarrow> M2UAMessage" where
  "M2UAMessage_new mt = \<lparr>message_type = mt, byte_pos = 0, params = []\<rparr>"

text \<open>\<open>check_mandatory\<close> of every message.\<close>

definition m2ua_check_mandatory :: "M2UAMessage \<Rightarrow> bool" where
  "m2ua_check_mandatory msg = True"

definition m2ua_get_params_count :: "M2UAMessage \<Rightarrow> nat" where
  "m2ua_get_params_count msg = length (params msg)"

definition m2ua_get_parameter :: "M2UAParameterType \<Rightarrow> M2UAMessage \<Rightarrow> M2UAParam option" where
  "m2ua_get_parameter pt msg = List.find (\<lambda>p. param_type p = pt) (params msg)"

text \<open>An enum holds any \<open>int\<close>; NULL is not added.\<close>

definition m2ua_add_parameter :: "int \<Rightarrow> M2UAMessage \<Rightarrow> M2UAParam option \<times> M2UAMessage" where
  "m2ua_add_parameter tag msg =
     (case m2ua_get_param tag of
       None \<Rightarrow> (None, msg)
     | Some p \<Rightarrow> (Some p, msg\<lparr>params := params msg @ [p]\<rparr>))"

definition m2ua_clear_params :: "M2UAMessage \<Rightarrow> M2UAMessage" where
  "m2ua_clear_params msg = msg\<lparr>params := []\<rparr>"

text \<open>\<^verbatim>\<open>l % 4\<close> is not positive for a negative length.\<close>

definition m2ua_padding :: "int \<Rightarrow> int" where
  "m2ua_padding l = (if 0 < l \<and> l mod 4 \<noteq> 0 then 4 - l mod 4 else 0)"

definition m2ua_encode_parameter ::
  "M2UAParam \<Rightarrow> nat \<Rightarrow> nat \<Rightarrow> int \<Rightarrow> int \<Rightarrow> memory \<Rightarrow> (int \<times> M2UAParam \<times> memory) outcome" where
  "m2ua_encode_parameter p b q buffer_length offset m =
     (if 0 < buffer_length
      then and_then (m2ua_param_encode p b q offset m) (\<lambda>(res, p, m).
        let pad = m2ua_padding res
        in if res + offset + pad \<le> buffer_length
           then and_then
             (if 0 < pad then and_then (ptr_at q (offset + res)) (\<lambda>pos. mem_write b pos (replicate (nat pad) 0) m) else Returns m)
             (\<lambda>m. Returns (res + pad, p, m))
           else Returns (0, p, m))
      else Returns (0, p, m))"

text \<open>The loop of \<open>encode\<close>: \<open>offset\<close> moves by all of \<open>param_length\<close>.\<close>

fun m2ua_encode_params ::
  "M2UAParam list \<Rightarrow> nat \<Rightarrow> nat \<Rightarrow> int \<Rightarrow> int \<Rightarrow> int \<Rightarrow> memory \<Rightarrow> (int \<times> M2UAParam list \<times> memory) outcome" where
  "m2ua_encode_params [] b q buffer_length offset param_length m = Returns (param_length, [], m)"
| "m2ua_encode_params (p # ps) b q buffer_length offset param_length m =
     and_then (m2ua_encode_parameter p b q buffer_length offset m) (\<lambda>(l, p, m).
     let param_length = param_length + l
     in and_then (m2ua_encode_params ps b q buffer_length (offset + param_length) param_length m) (\<lambda>(n, ps, m).
        Returns (n, p # ps, m)))"

definition M2UAMessage_encode ::
  "M2UAMessage \<Rightarrow> nat \<Rightarrow> nat \<Rightarrow> int \<Rightarrow> int \<Rightarrow> memory \<Rightarrow> (int \<times> M2UAMessage \<times> memory) outcome" where
  "M2UAMessage_encode msg b q buffer_length offset m =
     and_then (m2ua_encode_params (params msg) b q buffer_length offset 0 m) (\<lambda>(n, ps, m).
     Returns (n, msg\<lparr>params := ps\<rparr>, m))"

text \<open>A tag or a length: the first octet is signed.\<close>

definition m2ua_read16 :: "u8 list \<Rightarrow> nat \<Rightarrow> int \<Rightarrow> int outcome" where
  "m2ua_read16 bs q i =
     and_then (octet_at bs q i) (\<lambda>x. and_then (octet_at bs q (i + 1)) (\<lambda>y. Returns (sint x * 2 ^ 8 + uint y)))"

text \<open>The loop of \<open>process_params\<close>, with a round of fuel per parameter and one for the end.\<close>

fun m2ua_process_params ::
  "nat \<Rightarrow> u8 list \<Rightarrow> nat \<Rightarrow> nat \<Rightarrow> int \<Rightarrow> M2UAMessage \<Rightarrow> M2UAMessage outcome" where
  "m2ua_process_params 0 bs b q data_length msg = OutOfFuel"
| "m2ua_process_params (Suc fuel) bs b q data_length msg =
     (if byte_pos msg < data_length
      then and_then (m2ua_read16 bs q (byte_pos msg)) (\<lambda>tag.
        and_then (m2ua_read16 bs q (byte_pos msg + 2)) (\<lambda>l.
        let pos = byte_pos msg + 4
        in and_then
          (case m2ua_get_param tag of
            None \<Rightarrow> Returns (params msg)
          | Some p \<Rightarrow> and_then (ptr_at q pos) (\<lambda>v. and_then (m2ua_param_init bs b v (l - 4) p) (\<lambda>p. Returns (params msg @ [p]))))
          (\<lambda>ps. m2ua_process_params fuel bs b q data_length
            (msg\<lparr>byte_pos := pos + (l + m2ua_padding l - 4), params := ps\<rparr>))))
      else Returns msg)"

definition M2UAMessage_init ::
  "nat \<Rightarrow> u8 list \<Rightarrow> nat \<Rightarrow> nat \<Rightarrow> int \<Rightarrow> M2UAMessage \<Rightarrow> M2UAMessage outcome" where
  "M2UAMessage_init fuel bs b q data_length msg =
     (if 0 < data_length then m2ua_process_params fuel bs b q data_length msg else Returns msg)"

section \<open>Packets\<close>

record M2UAPacket =
  version :: c_int
  message_length :: "c_int option"
  message_class :: c_int
  packet_type :: c_int
  message :: "M2UAMessage option"

definition M2UAPacket_new :: M2UAPacket where
  "M2UAPacket_new = \<lparr>version = 1, message_length = None, message_class = -1, packet_type = -1, message = None\<rparr>"

text \<open>The third octet of the length is the second one again.\<close>

definition total_octets :: "int \<Rightarrow> u8 list" where
  "total_octets n =
     (let v = of_int n :: c_int
      in [ucast (signed_drop_bit 24 v), ucast (signed_drop_bit 16 v), ucast (signed_drop_bit 16 v), ucast (v AND 0xff)])"

definition M2UAPacket_encode ::
  "M2UAPacket \<Rightarrow> nat \<Rightarrow> nat \<Rightarrow> int \<Rightarrow> int \<Rightarrow> memory \<Rightarrow> (int \<times> M2UAPacket \<times> memory) outcome" where
  "M2UAPacket_encode pkt b q buffer_length offset m =
     and_then (ptr_at q offset) (\<lambda>pos.
     and_then (mem_write b pos [ucast (version pkt), 0, ucast (message_class pkt), ucast (packet_type pkt)] m) (\<lambda>m.
     and_then (case message pkt of
         None \<Rightarrow> Returns (0, pkt, m)
       | Some msg \<Rightarrow> and_then (M2UAMessage_encode msg b (pos + 4) buffer_length 4 m) (\<lambda>(n, msg, m).
           Returns (n, pkt\<lparr>message := Some msg\<rparr>, m))) (\<lambda>(n, pkt, m).
     and_then (mem_write b (pos + 4) (total_octets (8 + n)) m) (\<lambda>m.
     Returns (8 + n, pkt, m)))))"

definition m2ua_message_types :: "M2UAMessageType list" where
  "m2ua_message_types = [DATA, ESTABLISH_REQUEST, ESTABLISH_CONFIRM, RELEASE_REQUEST, RELEASE_CONFIRM, RELEASE_INDICATION, STATE_REQUEST,
     STATE_CONFIRM, STATE_INDICATION, DATA_RETRIEVAL_REQUEST, DATA_RETRIEVAL_CONFIRM, DATA_RETRIEVAL_INDICATION,
     DATA_RETRIEVAL_COMPLETE_INDICATION, CONGESTION_INDICATION, DATA_ACK, ASP_UP, ASP_DOWN, HEARTBEAT, ASP_UP_ACK, ASP_DOWN_ACK,
     HEARTBEAT_ACK, ASP_ACTIVE, ASP_INACTIVE, ASP_ACTIVE_ACK, ASP_INACTIVE_ACK, ERR, NTFY, REG_REQ, REG_RSP, DEREG_REQ, DEREG_RSP]"

definition m2ua_mt_of :: "c_int \<Rightarrow> M2UAMessageType option" where
  "m2ua_mt_of v = List.find (\<lambda>mt. m2ua_mt_value mt = v) m2ua_message_types"

definition m2ua_decode :: "nat \<Rightarrow> buf_ptr option \<Rightarrow> int \<Rightarrow> memory \<Rightarrow> M2UAPacket option outcome" where
  "m2ua_decode fuel data data_length m =
     (case data of
       Some (b, q) \<Rightarrow>
         if 0 < data_length then
           (if 8 \<le> data_length
            then and_then (byte_at (m b) q) (\<lambda>v.
              let pkt = M2UAPacket_new\<lparr>version := ucast v AND 0xff\<rparr>
              in if version pkt = 1
                 then and_then (byte_at (m b) (q + 2)) (\<lambda>c. and_then (byte_at (m b) (q + 3)) (\<lambda>t.
                   and_then (signed32 (m b) (q + 4)) (\<lambda>len.
                   let mc = ucast c AND 0xff; ty = push_bit 8 mc + (ucast t AND 0xff);
                       pkt = pkt\<lparr>message_class := mc, packet_type := ty, message_length := Some len\<rparr>
                   in if 0 < sint len
                      then (case m2ua_mt_of ty of
                          None \<Rightarrow> Returns (Some pkt)
                        | Some mt \<Rightarrow> and_then (M2UAMessage_init fuel (m b) b (q + 8) (data_length - 8) (M2UAMessage_new mt)) (\<lambda>msg.
                            Returns (Some (pkt\<lparr>message := Some msg\<rparr>))))
                      else Returns (Some pkt))))
                 else Returns (Some pkt))
            else Returns (Some M2UAPacket_new))
         else Returns None
     | None \<Rightarrow> Returns None)"

end
