(* ===== verification/M2ua_Properties.thy ===== *)
theory M2ua_Properties
  imports M2ua
begin

text \<open>
  What the M2UA codec promises: messages of up to two parameters are decoded to what was encoded,
  unless the octets of their length are taken for 0; those of three stop the decoder.
\<close>

section \<open>Signed octets\<close>

lemma masks16: "(0xff::c_int) = mask 8" "(0xffff::c_int) = mask 16"
  by (simp_all add: mask_eq_exp_minus_1)

lemma below_exp: "(v::c_int) < 2 ^ k \<Longrightarrow> k < 32 \<Longrightarrow> unat v < 2 ^ k"
proof -
  assume v: "v < 2 ^ k" "k < 32"
  have "unat v < unat ((2::c_int) ^ k)" using v(1) by (simp add: word_less_nat_alt)
  also have "\<dots> = 2 ^ k" using v(2) power_strict_increasing [of k 32 "2::nat"] unat_of_nat_32 [of "2 ^ k"] by simp
  finally show ?thesis .
qed

lemma high_octet: "v < 2 ^ 15 \<Longrightarrow> scast (ucast (drop_bit 8 v) :: u8) = (drop_bit 8 v :: c_int)"
proof -
  assume v: "v < 2 ^ 15"
  have "bit (drop_bit 8 v) n \<Longrightarrow> n < 7" for n using small_bit [OF _ v, of "8 + n"] by (simp add: bit_simps)
  then have "drop_bit 8 v < 2 ^ 7" "drop_bit 8 v < 2 ^ 8" by (subst small_bits_iff; force)+
  then show ?thesis using signed_octet by blast
qed

lemma two_octets: "push_bit 8 (drop_bit 8 v) + (v AND 0xff) = (v :: c_int)"
proof -
  have "push_bit 8 (drop_bit 8 v) + (v AND 0xff) = (push_bit 8 (drop_bit 8 v) OR (v AND 0xff))"
    unfolding masks16 by (rule disjunctive_add_eq_or, rule bit_word_eqI) (auto simp: bit_simps)
  also have "\<dots> = v" unfolding masks16 by (rule bit_word_eqI) (auto simp: bit_simps)
  finally show ?thesis .
qed

lemma last_octet: "ucast (ucast (v::c_int) :: u8) AND 0xff = v AND 0xff"
  unfolding masks16 by (rule bit_word_eqI) (auto simp: bit_simps)

lemma signed16_be16:
  assumes "octets_at bs q (be16 v)" "v < 2 ^ 15"
  shows "signed16 bs q = Returns v"
  using octets_atD [OF assms(1), of 0] octets_atD [OF assms(1), of 1]
  by (simp add: signed16_def be16_def high_octet [OF assms(2)] last_octet two_octets)

lemma signed32_be32:
  assumes "octets_at bs q (be32 v)" "v < 2 ^ 15"
  shows "signed32 bs q = Returns v"
proof -
  have "drop_bit 24 v = 0" "drop_bit 16 v = 0"
    by (rule bit_word_eqI, use small_bit [OF _ assms(2)] in \<open>force simp: bit_simps\<close>)+
  then have "bs ! q = 0" "bs ! (q + 1) = 0" "bs ! (q + 2) = ucast (drop_bit 8 v)" "bs ! (q + 3) = ucast v" "q + 3 < length bs"
    using octets_atD [OF assms(1), of 0] octets_atD [OF assms(1), of 1] octets_atD [OF assms(1), of 2] octets_atD [OF assms(1), of 3]
    by (simp_all add: be32_def)
  then show ?thesis by (simp add: signed32_def high_octet [OF assms(2)] last_octet two_octets)
qed

text \<open>Only the low 16 bits of the information of a status are sent.\<close>

lemma be16_low: "be16 (v AND 0xffff) = be16 v"
proof -
  have "ucast (drop_bit 8 (v AND 0xffff)) = (ucast (drop_bit 8 v) :: u8)" "ucast (v AND 0xffff) = (ucast v :: u8)"
    unfolding masks16 by (rule bit_word_eqI, simp add: bit_simps)+
  then show ?thesis by (simp add: be16_def)
qed

lemma read16_be16:
  assumes "octets_at bs (q + k) (be16 v)" "v < 2 ^ 15"
  shows "m2ua_read16 bs q (int k) = Returns (uint v)"
proof -
  have u: "unat v < 2 ^ 15" by (rule below_exp [OF assms(2)]) simp
  have o: "q + k + 1 < length bs" "bs ! (q + k) = ucast (drop_bit 8 v)" "bs ! (q + k + 1) = ucast v"
    using octets_atD [OF assms(1), of 0] octets_atD [OF assms(1), of 1] by (simp_all add: be16_def)
  have d: "unat (drop_bit 8 v) = unat v div 2 ^ 8" by (simp add: drop_bit_eq_div unat_div)
  then have h: "unat (ucast (drop_bit 8 v) :: u8) = unat v div 2 ^ 8" using u by (simp add: unat_to_octet less_mult_imp_div_less)
  then have x: "uint (ucast (drop_bit 8 v) :: u8) = int (unat v div 2 ^ 8)" by (metis uint_nat)
  have "int (unat v div 2 ^ 8) < 2 ^ 7" using u less_mult_imp_div_less [of "unat v" "2 ^ 7" "2 ^ 8"] by (simp flip: of_nat_less_iff)
  then have "sint (ucast (drop_bit 8 v) :: u8) = int (unat v div 2 ^ 8)"
    unfolding sint_uint x by (intro signed_take_bit_int_eq_self) simp_all
  moreover have "uint (ucast v :: u8) = int (unat v mod 2 ^ 8)"
    by (simp add: unsigned_ucast_eq take_bit_eq_mod zmod_int)
  moreover have "int (unat v div 2 ^ 8) * 2 ^ 8 + int (unat v mod 2 ^ 8) = uint v"
    by (simp add: zdiv_int zmod_int)
  ultimately show ?thesis using o
    by (simp add: m2ua_read16_def octet_at_def ptr_at_def nat_add_distrib add.assoc nat_int_add)
qed

section \<open>Classes\<close>

text \<open>The classes of one member, and the members before they are set.\<close>

primrec word_member :: "m2ua_members \<Rightarrow> c_int option option" where
  "word_member No_Members = None"
| "word_member (TrafficModeType v) = Some v"
| "word_member (ErrorCode v) = Some v"
| "word_member (StateRequest v) = Some v"
| "word_member (StateEvent v) = Some v"
| "word_member (CongestionStatus v) = Some v"
| "word_member (DiscardStatus v) = Some v"
| "word_member (Action v) = Some v"
| "word_member (RetrievalResult v) = Some v"
| "word_member (RegistrationStatus v) = Some v"
| "word_member (StatusTypeInfo ty info) = None"

primrec with_word :: "c_int \<Rightarrow> m2ua_members \<Rightarrow> m2ua_members" where
  "with_word w No_Members = No_Members"
| "with_word w (TrafficModeType v) = TrafficModeType (Some w)"
| "with_word w (ErrorCode v) = ErrorCode (Some w)"
| "with_word w (StateRequest v) = StateRequest (Some w)"
| "with_word w (StateEvent v) = StateEvent (Some w)"
| "with_word w (CongestionStatus v) = CongestionStatus (Some w)"
| "with_word w (DiscardStatus v) = DiscardStatus (Some w)"
| "with_word w (Action v) = Action (Some w)"
| "with_word w (RetrievalResult v) = RetrievalResult (Some w)"
| "with_word w (RegistrationStatus v) = RegistrationStatus (Some w)"
| "with_word w (StatusTypeInfo ty info) = StatusTypeInfo ty info"

primrec m2ua_unset :: "m2ua_members \<Rightarrow> m2ua_members" where
  "m2ua_unset No_Members = No_Members"
| "m2ua_unset (TrafficModeType v) = TrafficModeType None"
| "m2ua_unset (ErrorCode v) = ErrorCode None"
| "m2ua_unset (StateRequest v) = StateRequest None"
| "m2ua_unset (StateEvent v) = StateEvent None"
| "m2ua_unset (CongestionStatus v) = CongestionStatus None"
| "m2ua_unset (DiscardStatus v) = DiscardStatus None"
| "m2ua_unset (Action v) = Action None"
| "m2ua_unset (RetrievalResult v) = RetrievalResult None"
| "m2ua_unset (RegistrationStatus v) = RegistrationStatus None"
| "m2ua_unset (StatusTypeInfo ty info) = StatusTypeInfo None None"

lemmas m2ua_encodes = m2ua_param_encode_def
  m2ua_TrafficModeType_encode_def m2ua_ErrorCode_encode_def m2ua_StatusTypeInfo_encode_def m2ua_StateRequest_encode_def
  m2ua_StateEvent_encode_def m2ua_CongestionStatus_encode_def m2ua_DiscardStatus_encode_def m2ua_Action_encode_def
  m2ua_RetrievalResult_encode_def m2ua_RegistrationStatus_encode_def

lemmas m2ua_inits = m2ua_param_init_def
  m2ua_TrafficModeType_init_def m2ua_ErrorCode_init_def m2ua_StatusTypeInfo_init_def m2ua_StateRequest_init_def
  m2ua_StateEvent_init_def m2ua_CongestionStatus_init_def m2ua_DiscardStatus_init_def m2ua_Action_init_def
  m2ua_RetrievalResult_init_def m2ua_RegistrationStatus_init_def

lemma members_cases:
  obtains (plain) "ms = No_Members" | (word) v where "word_member ms = Some v" "ms \<noteq> No_Members"
  | (status) ty info where "ms = StatusTypeInfo ty info"
  by (cases ms) auto

lemma encode_classes:
  "m2ua_new_members (param_type p) = No_Members \<Longrightarrow> m2ua_param_encode p b q offset m = M2UAParam_encode p b q offset m"
  "m2ua_new_members (param_type p) = m2ua_unset (members p) \<Longrightarrow> word_member (members p) = Some (Some v) \<Longrightarrow>
    m2ua_param_encode p b q offset m = m2ua_encode_value p b q offset (be32 v) m"
  "m2ua_new_members (param_type p) = m2ua_unset (members p) \<Longrightarrow> members p = StatusTypeInfo (Some ty) (Some info) \<Longrightarrow>
    m2ua_param_encode p b q offset m = m2ua_encode_value p b q offset (be16 ty @ be16 info) m"
  by (cases "param_type p"; simp add: m2ua_encodes; fail)
    (cases "members p"; cases "param_type p"; simp add: m2ua_encodes; fail)+

lemma init_classes:
  "m2ua_new_members pt = No_Members \<Longrightarrow> m2ua_param_init bs b q n (M2UAParam_new pt) = Returns (M2UAParam_init b q n (M2UAParam_new pt))"
  "word_member (m2ua_new_members pt) \<noteq> None \<Longrightarrow> 4 \<le> n \<Longrightarrow> m2ua_param_init bs b q n (M2UAParam_new pt) =
    and_then (signed32 bs q) (\<lambda>v. Returns (M2UAParam_init b q n (M2UAParam_new pt)\<lparr>members := with_word v (m2ua_new_members pt)\<rparr>))"
  "m2ua_new_members pt = StatusTypeInfo None None \<Longrightarrow> 4 \<le> n \<Longrightarrow> m2ua_param_init bs b q n (M2UAParam_new pt) =
    and_then (signed16 bs q) (\<lambda>ty. and_then (signed16 bs (q + 2)) (\<lambda>info.
      Returns (M2UAParam_init b q n (M2UAParam_new pt)\<lparr>members := StatusTypeInfo (Some ty) (Some info)\<rparr>)))"
  by (cases pt; simp add: m2ua_inits M2UAParam_new_def M2UAParam_init_def; fail)+

section \<open>What a parameter carries\<close>

text \<open>The octets a pointer leads to, and those \<open>encode\<close> sends.\<close>

definition m2ua_pointed :: "memory \<Rightarrow> M2UAParam \<Rightarrow> u8 list" where
  "m2ua_pointed m p = (case param_value p of None \<Rightarrow> [] | Some (sb, sp) \<Rightarrow> take (nat (value_length p)) (drop sp (m sb)))"

definition value_octets :: "memory \<Rightarrow> M2UAParam \<Rightarrow> u8 list" where
  "value_octets m p =
     (case word_member (members p) of
       Some v \<Rightarrow> be32 (the v)
     | None \<Rightarrow> (case members p of StatusTypeInfo ty info \<Rightarrow> be16 (the ty) @ be16 (the info) | _ \<Rightarrow> m2ua_pointed m p))"

text \<open>
  A parameter that can be sent from buffer \<open>b\<close>: its members are set to values below \<open>2\<^sup>1\<^sup>5\<close>, as all
  of the enumerations are but those of the information of a status, which leave bit 15 clear; its
  octets are elsewhere, and their number fits the 15 bits of a length.
\<close>

definition param_sendable :: "memory \<Rightarrow> nat \<Rightarrow> M2UAParam \<Rightarrow> bool" where
  "param_sendable m b p \<longleftrightarrow>
     m2ua_new_members (param_type p) = m2ua_unset (members p) \<and>
     (case word_member (members p) of
       Some v \<Rightarrow> (\<exists>w. v = Some w \<and> w < 2 ^ 15)
     | None \<Rightarrow> (case members p of
         StatusTypeInfo ty info \<Rightarrow> (\<exists>w i. ty = Some w \<and> info = Some i \<and> w < 2 ^ 15 \<and> i AND 0xffff < 2 ^ 15)
       | _ \<Rightarrow> (\<exists>sb sp. param_value p = Some (sb, sp) \<and> sb \<noteq> b \<and> 0 \<le> value_length p \<and> value_length p < 2 ^ 15 - 4 \<and>
           sp + nat (value_length p) \<le> length (m sb))))"

text \<open>The receiver gets the low 16 bits of the information of a status.\<close>

definition received :: "m2ua_members \<Rightarrow> m2ua_members" where
  "received ms = (case ms of StatusTypeInfo ty info \<Rightarrow> StatusTypeInfo ty (map_option (\<lambda>i. i AND 0xffff) info) | _ \<Rightarrow> ms)"

text \<open>Tag, length, value and padding.\<close>

definition param_wire :: "memory \<Rightarrow> M2UAParam \<Rightarrow> u8 list" where
  "param_wire m p =
     (let w = value_octets m p
      in be16 (m2ua_pt_value (param_type p)) @ be16 (of_nat (4 + length w)) @ w @ replicate (nat (m2ua_padding (4 + int (length w)))) 0)"

lemma value_octets_length: "param_sendable m b p \<Longrightarrow> length (value_octets m p) < 2 ^ 15 - 4"
  by (cases "members p" rule: members_cases) (auto simp: param_sendable_def value_octets_def m2ua_pointed_def min_def split: option.splits)

lemma padding_nonneg: "0 \<le> m2ua_padding l"
  using pos_mod_bound [of 4 l] by (auto simp: m2ua_padding_def)

lemma padded_length: "n + nat (m2ua_padding (int n)) = 4 * ((n + 3) div 4)"
proof -
  have "int n mod 4 = int (n mod 4)" by (simp add: zmod_int)
  then have "nat (m2ua_padding (int n)) = (if n mod 4 = 0 then 0 else 4 - n mod 4)" by (auto simp: m2ua_padding_def)
  moreover have "n + (if n mod 4 = 0 then 0 else 4 - n mod 4) = 4 * ((n + 3) div 4)" by presburger
  ultimately show ?thesis by simp
qed

lemma length_param_wire: "length (param_wire m p) = 4 * ((4 + length (value_octets m p) + 3) div 4)"
  using padded_length [of "4 + length (value_octets m p)"] by (simp add: param_wire_def Let_def)

lemma param_wire_length: "param_sendable m b p \<Longrightarrow> length (param_wire m p) \<le> 2 ^ 15 \<and> 4 \<le> length (param_wire m p)"
proof -
  assume "param_sendable m b p"
  then have "(4 + length (value_octets m p) + 3) div 4 < 8193" "1 \<le> (4 + length (value_octets m p) + 3) div 4"
    using value_octets_length [of m b p] by (simp_all add: less_mult_imp_div_less less_eq_div_iff_mult_less_eq)
  then show ?thesis by (simp add: length_param_wire)
qed

lemma sendable_written: "param_sendable (written b q w m) b p \<longleftrightarrow> param_sendable m b p"
  by (auto simp: param_sendable_def split: option.splits m2ua_members.splits)

lemma value_octets_written: "param_sendable m b p \<Longrightarrow> value_octets (written b q w m) p = value_octets m p"
  by (auto simp: param_sendable_def value_octets_def m2ua_pointed_def split: option.splits m2ua_members.splits)

lemma param_wire_written: "param_sendable m b p \<Longrightarrow> param_wire (written b q w m) p = param_wire m p"
  by (simp add: param_wire_def value_octets_written)

section \<open>Encoding\<close>

lemma ptr_at_nat [simp]: "ptr_at q (int k) = Returns (q + k)"
  by (simp add: ptr_at_def nat_int_add)

text \<open>Tag, length and value, however the value gets to its place.\<close>

lemma base_encode_ok:
  assumes "param_value p = Some (sb, sp)" "sb \<noteq> b" "0 \<le> value_length p" "sp + nat (value_length p) \<le> length (m sb)"
    "q + k + (4 + length (m2ua_pointed m p)) \<le> length (m b)"
  shows "M2UAParam_encode p b q (int k) m = Returns (4 + value_length p, p,
    written b (q + k) (be16 (m2ua_pt_value (param_type p)) @ be16 (of_int (value_length p + 4)) @ m2ua_pointed m p) m)"
proof -
  let ?h = "be16 (m2ua_pt_value (param_type p)) @ be16 (of_int (value_length p + 4))"
  have l: "length (m2ua_pointed m p) = nat (value_length p)" using assms(1,4) by (simp add: m2ua_pointed_def)
  have w: "mem_write b (q + k) ?h m = Returns (written b (q + k) ?h m)" using assms(5) by (intro write_ok) simp
  have c: "(if param_value p \<noteq> Some (b, q + k + 4) \<and> value_length p \<noteq> 0
      then guard (0 \<le> value_length p) (mem_copy b (q + k + 4) (param_value p) (nat (value_length p)) (written b (q + k) ?h m))
      else Returns (written b (q + k) ?h m)) = Returns (written b (q + k) (?h @ m2ua_pointed m p) m)"
  proof (cases "value_length p = 0")
    case True
    then show ?thesis using l by simp
  next
    case False
    have "mem_copy b (q + k + 4) (Some (sb, sp)) (nat (value_length p)) (written b (q + k) ?h m) =
        Returns (written b (q + k) (?h @ take (nat (value_length p)) (drop sp (m sb))) m)"
      using assms(2,4,5) l by (intro copy_written) simp_all
    then show ?thesis using False assms(1-3) by (simp add: m2ua_pointed_def)
  qed
  show ?thesis unfolding M2UAParam_encode_def ptr_at_nat and_then.simps w c by simp
qed

lemma m2ua_encode_value_ok:
  assumes "q + k + 8 \<le> length (m b)" "length os = 4"
  shows "\<exists>p'. m2ua_encode_value p b q (int k) os m =
    Returns (8, p', written b (q + k) (be16 (m2ua_pt_value (param_type p)) @ be16 8 @ os) m)"
proof -
  let ?h = "be16 (m2ua_pt_value (param_type p)) @ be16 8"
  have o: "ptr_at q (int k + 4) = Returns (q + k + 4)" using ptr_at_nat [of q "k + 4"] by (simp add: add.assoc)
  have w: "mem_write b (q + k + 4) os m = Returns (written b (q + k + 4) os m)" using assms by (intro write_ok) simp
  have h: "mem_write b (q + k) ?h (written b (q + k + 4) os m) = Returns (written b (q + k) (?h @ os) m)"
    using assms by (subst write_ok) (simp_all add: written_before)
  show ?thesis unfolding m2ua_encode_value_def o and_then.simps w M2UAParam_encode_def ptr_at_nat using h by simp
qed

lemma m2ua_param_encode_ok:
  assumes "param_sendable m b p" "q + k + (4 + length (value_octets m p)) \<le> length (m b)"
  shows "\<exists>p'. m2ua_param_encode p b q (int k) m = Returns (4 + int (length (value_octets m p)), p',
    written b (q + k) (be16 (m2ua_pt_value (param_type p)) @ be16 (of_nat (4 + length (value_octets m p))) @ value_octets m p) m)"
proof (cases "members p" rule: members_cases)
  case plain
  then obtain sb sp where *: "param_value p = Some (sb, sp)" "sb \<noteq> b" "0 \<le> value_length p" "sp + nat (value_length p) \<le> length (m sb)"
    "m2ua_new_members (param_type p) = No_Members"
    using assms(1) by (auto simp: param_sendable_def)
  then have v: "value_octets m p = m2ua_pointed m p" "value_length p = int (length (m2ua_pointed m p))"
    using plain by (simp_all add: value_octets_def m2ua_pointed_def)
  have "of_int (value_length p + 4) = (of_nat (4 + length (m2ua_pointed m p)) :: c_int)" unfolding v(2) by simp
  then show ?thesis
    using base_encode_ok [where m = m, OF *(1-4)] assms(2) v encode_classes(1) [OF *(5)] by (auto simp: add.commute)
next
  case (word v)
  then obtain w where "v = Some w" "m2ua_new_members (param_type p) = m2ua_unset (members p)"
    using assms(1) by (auto simp: param_sendable_def)
  moreover have "value_octets m p = be32 w" using word calculation(1) by (simp add: value_octets_def)
  ultimately show ?thesis
    using encode_classes(2) [of p w] word(1) m2ua_encode_value_ok [of q k m b "be32 w" p] assms(2) by simp
next
  case (status ty info)
  then obtain w i where "ty = Some w" "info = Some i" "m2ua_new_members (param_type p) = m2ua_unset (members p)"
    using assms(1) by (auto simp: param_sendable_def)
  moreover have "value_octets m p = be16 w @ be16 i" using status calculation(1,2) by (simp add: value_octets_def)
  ultimately show ?thesis
    using encode_classes(3) [of p w i] status m2ua_encode_value_ok [of q k m b "be16 w @ be16 i" p] assms(2) by simp
qed

lemma m2ua_encode_parameter_ok:
  assumes "param_sendable m b p" "q + k + length (param_wire m p) \<le> length (m b)" "int (k + length (param_wire m p)) \<le> bl"
  shows "\<exists>p'. m2ua_encode_parameter p b q bl (int k) m = Returns (int (length (param_wire m p)), p', written b (q + k) (param_wire m p) m)"
proof -
  let ?v = "value_octets m p"
  let ?w = "be16 (m2ua_pt_value (param_type p)) @ be16 (of_nat (4 + length ?v)) @ ?v" and ?pad = "m2ua_padding (4 + int (length ?v))"
  have w: "param_wire m p = ?w @ replicate (nat ?pad) 0" by (simp add: param_wire_def Let_def)
  have pad: "0 \<le> ?pad" by (rule padding_nonneg)
  then have l: "int (length (param_wire m p)) = 4 + int (length ?v) + ?pad" unfolding w by simp
  have "q + k + (4 + length ?v) \<le> length (m b)" using assms(2) unfolding w by simp
  then obtain p' where p': "m2ua_param_encode p b q (int k) m = Returns (4 + int (length ?v), p', written b (q + k) ?w m)"
    using m2ua_param_encode_ok [OF assms(1)] by blast
  have at: "ptr_at q (int k + (4 + int (length ?v))) = Returns (q + k + (4 + length ?v))"
    using ptr_at_nat [of q "k + (4 + length ?v)"] by (simp add: add.assoc)
  have "mem_write b (q + k + (4 + length ?v)) (replicate (nat ?pad) 0) (written b (q + k) ?w m) = Returns (written b (q + k) (param_wire m p) m)"
    unfolding w using assms(2) unfolding w by (subst write_written) simp_all
  then have z: "(if 0 < ?pad then and_then (ptr_at q (int k + (4 + int (length ?v)))) (\<lambda>pos. mem_write b pos (replicate (nat ?pad) 0) (written b (q + k) ?w m))
      else Returns (written b (q + k) ?w m)) = Returns (written b (q + k) (param_wire m p) m)"
    unfolding at w using pad by simp
  have "0 < bl" "4 + int (length ?v) + int k + ?pad \<le> bl" using assms(3) l pad by linarith+
  then have c: "(0 < bl) = True" "(4 + int (length ?v) + int k + ?pad \<le> bl) = True" by simp_all
  show ?thesis unfolding m2ua_encode_parameter_def p' and_then.simps prod.case Let_def c if_True z l by blast
qed

section \<open>Decoding parameters\<close>

lemma get_param_value: "m2ua_get_param (uint (m2ua_pt_value pt)) = Some (M2UAParam_new pt)"
  by (cases pt) (simp_all add: m2ua_get_param_def m2ua_parameter_types_def)

lemma pt_value_small: "m2ua_pt_value pt < 2 ^ 15"
  by (cases pt) simp_all

text \<open>The received parameter \<open>p'\<close> stands for the sent one.\<close>

definition delivered :: "memory \<Rightarrow> M2UAParam \<Rightarrow> memory \<Rightarrow> M2UAParam \<Rightarrow> bool" where
  "delivered m p m' p' \<longleftrightarrow>
     param_type p' = param_type p \<and> members p' = received (members p) \<and> m2ua_pointed m' p' = value_octets m p"

lemma m2ua_param_init_ok:
  assumes "param_sendable m b0 p" "octets_at (m' b) v (value_octets m p)"
  shows "\<exists>p'. m2ua_param_init (m' b) b v (int (length (value_octets m p))) (M2UAParam_new (param_type p)) = Returns p' \<and> delivered m p m' p'"
proof -
  let ?w = "value_octets m p" and ?pt = "param_type p"
  let ?p = "M2UAParam_init b v (int (length ?w)) (M2UAParam_new ?pt)"
  have pt: "m2ua_pointed m' (?p\<lparr>members := ms\<rparr>) = ?w" "m2ua_pointed m' ?p = ?w" "param_type ?p = ?pt" for ms
    using assms(2) by (simp_all add: m2ua_pointed_def M2UAParam_init_def octets_at_def M2UAParam_new_def)
  have new: "m2ua_new_members ?pt = m2ua_unset (members p)" using assms(1) by (simp add: param_sendable_def)
  show ?thesis
  proof (cases "members p" rule: members_cases)
    case plain
    moreover have "members ?p = No_Members" using new plain by (simp add: M2UAParam_init_def M2UAParam_new_def)
    ultimately show ?thesis using init_classes(1) [of ?pt] new pt by (simp add: delivered_def received_def)
  next
    case (word x)
    then obtain c where c: "x = Some c" "c < 2 ^ 15" using assms(1) by (auto simp: param_sendable_def)
    then have w: "?w = be32 c" using word by (simp add: value_octets_def)
    have "word_member (m2ua_new_members ?pt) \<noteq> None" "with_word c (m2ua_new_members ?pt) = members p" "received (members p) = members p"
      unfolding new using word(1) c(1) by (cases "members p"; simp add: received_def)+
    moreover have "signed32 (m' b) v = Returns c" using assms(2) c(2) unfolding w by (rule signed32_be32)
    ultimately show ?thesis using init_classes(2) [of ?pt 4 "m' b" b v] pt w by (simp add: delivered_def)
  next
    case (status ty info)
    then obtain t i where c: "ty = Some t" "info = Some i" "t < 2 ^ 15" "i AND 0xffff < 2 ^ 15" using assms(1) by (auto simp: param_sendable_def)
    then have w: "?w = be16 t @ be16 (i AND 0xffff)" using status by (simp add: value_octets_def be16_low)
    have "signed16 (m' b) v = Returns t" "signed16 (m' b) (v + 2) = Returns (i AND 0xffff)"
      using octets_at_append [OF assms(2) [unfolded w]] signed16_be16 c(3,4) by simp_all
    moreover have "m2ua_new_members ?pt = StatusTypeInfo None None" unfolding new status by simp
    ultimately show ?thesis using init_classes(3) [of ?pt 4 "m' b" b v] pt w status c(1,2) by (simp add: delivered_def received_def)
  qed
qed

lemma process_param:
  assumes "param_sendable m b0 p" "octets_at (m' b) (q + k) (param_wire m p)" "int k < data_length" "byte_pos msg = int k"
  shows "\<exists>p'. delivered m p m' p' \<and> (\<forall>fuel. m2ua_process_params (Suc fuel) (m' b) b q data_length msg =
    m2ua_process_params fuel (m' b) b q data_length
      (msg\<lparr>byte_pos := int (k + length (param_wire m p)), params := params msg @ [p']\<rparr>))"
proof -
  let ?w = "value_octets m p" and ?l = "of_nat (4 + length (value_octets m p)) :: c_int"
  have len: "4 + length ?w < 2 ^ 15" using value_octets_length [OF assms(1)] by simp
  then have "unat ?l = 4 + length ?w" by (intro unat_of_nat_32) simp
  then have u: "uint ?l = int (4 + length ?w)" and "unat ?l < 2 ^ 15" using len by (metis uint_nat, simp)
  then have l: "uint ?l = 4 + int (length ?w)" "?l < 2 ^ 15" by (simp only: of_nat_add of_nat_numeral, simp add: word_less_nat_alt)
  have o: "octets_at (m' b) (q + k) (be16 (m2ua_pt_value (param_type p)))" "octets_at (m' b) (q + (k + 2)) (be16 ?l)"
    "octets_at (m' b) (q + (k + 4)) ?w"
    using assms(2) unfolding param_wire_def Let_def
    by (auto dest!: octets_at_append simp: eval_nat_numeral)
  have r: "m2ua_read16 (m' b) q (int k) = Returns (uint (m2ua_pt_value (param_type p)))" "m2ua_read16 (m' b) q (int k + 2) = Returns (4 + int (length ?w))"
    using read16_be16 [OF o(1) pt_value_small] read16_be16 [OF o(2) l(2)] l(1) by (simp_all add: add.commute)
  obtain p' where p': "m2ua_param_init (m' b) b (q + (k + 4)) (int (length ?w)) (M2UAParam_new (param_type p)) = Returns p'" "delivered m p m' p'"
    using m2ua_param_init_ok [where m' = m', OF assms(1) o(3)] by blast
  have at: "ptr_at q (int k + 4) = Returns (q + (k + 4))" using ptr_at_nat [of q "k + 4"] by simp
  have len: "int k + 4 + (4 + int (length ?w) + m2ua_padding (4 + int (length ?w)) - 4) = int (k + length (param_wire m p))"
    using padding_nonneg [of "4 + int (length ?w)"] by (simp add: param_wire_def Let_def)
  have "m2ua_process_params (Suc fuel) (m' b) b q data_length msg =
      m2ua_process_params fuel (m' b) b q data_length (msg\<lparr>byte_pos := int (k + length (param_wire m p)), params := params msg @ [p']\<rparr>)" for fuel
    unfolding m2ua_process_params.simps(2) assms(4) Let_def r and_then.simps get_param_value option.case at len
    using assms(3) p'(1) by simp
  then show ?thesis using p'(2) by blast
qed

lemma process_many:
  assumes "\<forall>p \<in> set ps. param_sendable m b0 p" "octets_at (m' b) (q + k) (concat (map (param_wire m) ps))"
    "int (k + length (concat (map (param_wire m) ps))) \<le> data_length" "byte_pos msg = int k"
  shows "\<exists>ps'. list_all2 (\<lambda>p p'. delivered m p m' p') ps ps' \<and>
    (\<forall>fuel. m2ua_process_params (length ps + fuel) (m' b) b q data_length msg = m2ua_process_params fuel (m' b) b q data_length
      (msg\<lparr>byte_pos := int (k + length (concat (map (param_wire m) ps))), params := params msg @ ps'\<rparr>))"
  using assms
proof (induction ps arbitrary: k msg)
  case Nil
  have "msg\<lparr>byte_pos := int k, params := params msg\<rparr> = msg" by (rule M2UAMessage.equality) (simp_all add: Nil.prems(4))
  then show ?case by simp
next
  case (Cons p ps)
  let ?w = "param_wire m p" and ?r = "concat (map (param_wire m) ps)"
  have o: "octets_at (m' b) (q + k) ?w" "octets_at (m' b) (q + (k + length ?w)) ?r"
    using Cons.prems(2) by (auto dest!: octets_at_append simp: add.assoc)
  have s: "param_sendable m b0 p" "4 \<le> length ?w" using Cons.prems(1) param_wire_length by auto
  then have "int k < data_length" using Cons.prems(3) by simp
  from process_param [where m' = m', OF s(1) o(1) this Cons.prems(4)] obtain p' where p': "delivered m p m' p'"
    "\<And>fuel. m2ua_process_params (Suc fuel) (m' b) b q data_length msg =
      m2ua_process_params fuel (m' b) b q data_length (msg\<lparr>byte_pos := int (k + length ?w), params := params msg @ [p']\<rparr>)" by blast
  let ?msg = "msg\<lparr>byte_pos := int (k + length ?w), params := params msg @ [p']\<rparr>"
  have "\<forall>p \<in> set ps. param_sendable m b0 p" "int (k + length ?w + length ?r) \<le> data_length" "byte_pos ?msg = int (k + length ?w)"
    using Cons.prems(1,3) by simp_all
  from Cons.IH [OF this(1) o(2) this(2,3)] obtain ps' where ps': "list_all2 (\<lambda>p p'. delivered m p m' p') ps ps'"
    "\<And>fuel. m2ua_process_params (length ps + fuel) (m' b) b q data_length ?msg = m2ua_process_params fuel (m' b) b q data_length
      (?msg\<lparr>byte_pos := int (k + length ?w + length ?r), params := params ?msg @ ps'\<rparr>)" by blast
  show ?case using p' ps' by (intro exI [of _ "p' # ps'"]) (simp add: add.assoc)
qed

section \<open>Packets\<close>

text \<open>The length is received as 0 if it is below \<open>2\<^sup>1\<^sup>6\<close> and its last octet is 0.\<close>

definition length_lost :: "nat \<Rightarrow> bool" where
  "length_lost n \<longleftrightarrow> n < 2 ^ 16 \<and> n mod 2 ^ 8 = 0"

lemma total_received:
  assumes "octets_at bs q (total_octets (int n))" "n < 2 ^ 23"
  shows "\<exists>v. signed32 bs q = Returns v \<and> (0 < sint v \<longleftrightarrow> \<not> length_lost n)"
proof -
  let ?v = "of_nat n :: c_int"
  have un: "unat ?v = n" using assms(2) by (intro unat_of_nat_32) simp
  define x y where "x = n div 2 ^ 16" and "y = n mod 2 ^ 8"
  have xy: "x < 2 ^ 7" "y < 2 ^ 8" using assms(2) by (simp_all add: x_def y_def less_mult_imp_div_less)
  have h: "\<not> bit ?v k" if "23 \<le> k" for k
  proof -
    have "?v < 2 ^ 23" using assms(2) un by (simp add: word_less_nat_alt)
    then show ?thesis using small_bit [of ?v k 23] that by auto
  qed
  have s: "signed_drop_bit j ?v = drop_bit j ?v" for j
    by (rule bit_word_eqI) (use h in \<open>auto simp: bit_simps min_def\<close>)
  have "drop_bit 24 ?v = 0" by (rule bit_word_eqI) (use h in \<open>simp add: bit_simps\<close>)
  moreover have d16: "drop_bit 16 ?v = of_nat x"
    by (rule word_unat_eq_iff [THEN iffD2]) (use xy un in \<open>simp add: drop_bit_eq_div unat_div x_def unat_of_nat\<close>)
  moreover have m8: "?v AND 0xff = of_nat y"
    unfolding masks16 take_bit_eq_mask [symmetric] by (simp only: take_bit_of_nat y_def take_bit_eq_mod [where 'a = nat])
  ultimately have t: "total_octets (int n) = [0, ucast (of_nat x :: c_int), ucast (of_nat x :: c_int), ucast (of_nat y :: c_int)]"
    by (simp add: total_octets_def Let_def s)
  have small: "(of_nat x :: c_int) < 2 ^ 7" "(of_nat x :: c_int) < 2 ^ 8" "(of_nat y :: c_int) < 2 ^ 8"
    using xy by (simp_all add: word_less_nat_alt unat_of_nat)
  then have c: "scast (ucast (of_nat x :: c_int) :: u8) = (of_nat x :: c_int)" using signed_octet by blast
  have e: "ucast (ucast (of_nat y :: c_int) :: u8) AND 0xff = (of_nat y :: c_int)"
    unfolding last_octet unfolding masks16 take_bit_eq_mask [symmetric]
    using xy(2) by (simp only: take_bit_of_nat take_bit_eq_mod [where 'a = nat] mod_less)
  have "signed32 bs q = Returns (of_nat (x * 2 ^ 16 + x * 2 ^ 8 + y))"
    using octets_atD [OF assms(1), of 0] octets_atD [OF assms(1), of 1] octets_atD [OF assms(1), of 2] octets_atD [OF assms(1), of 3]
    by (simp add: signed32_def t c e push_bit_eq_mult)
  moreover have "x * 2 ^ 16 + x * 2 ^ 8 + y < 2 ^ 31" using xy by simp
  then have "sint (of_nat (x * 2 ^ 16 + x * 2 ^ 8 + y) :: c_int) = int (x * 2 ^ 16 + x * 2 ^ 8 + y)" by (rule sint_of_nat_small)
  moreover have "x * 2 ^ 16 + x * 2 ^ 8 + y = 0 \<longleftrightarrow> length_lost n" by (auto simp: length_lost_def x_def y_def)
  ultimately show ?thesis by (metis of_nat_0_less_iff neq0_conv)
qed

lemma mt_of_value:
  "m2ua_mt_of (push_bit 8 (ucast (ucast (drop_bit 8 (m2ua_mt_value mt)) :: u8)) + (ucast (ucast (m2ua_mt_value mt) :: u8) AND 0xff)) = Some mt"
  by (cases mt) (simp_all add: m2ua_mt_of_def m2ua_message_types_def)

text \<open>A packet of a message, with the class and type of the message.\<close>

definition packet_of :: "M2UAMessage \<Rightarrow> M2UAPacket \<Rightarrow> bool" where
  "packet_of msg pkt \<longleftrightarrow>
     message pkt = Some msg \<and> version pkt = 1 \<and> message_class pkt = drop_bit 8 (m2ua_mt_value (message_type msg)) \<and>
     packet_type pkt = m2ua_mt_value (message_type msg)"

definition packet_header :: "M2UAPacket \<Rightarrow> u8 list" where
  "packet_header pkt = [ucast (version pkt), 0, ucast (message_class pkt), ucast (packet_type pkt)]"

lemma m2ua_decode_header:
  assumes "packet_of msg pkt" "octets_at (m b) q (packet_header pkt @ total_octets (int n))" "8 \<le> n" "n < 2 ^ 23"
  shows "\<exists>pkt'. message pkt' = None \<and> m2ua_decode fuel (Some (b, q)) (int n) m =
    (if length_lost n then Returns (Some pkt')
     else and_then (M2UAMessage_init fuel (m b) b (q + 8) (int (n - 8)) (M2UAMessage_new (message_type msg))) (\<lambda>msg.
       Returns (Some (pkt'\<lparr>message := Some msg\<rparr>))))"
proof -
  let ?mt = "message_type msg"
  let ?c = "ucast (ucast (drop_bit 8 (m2ua_mt_value ?mt)) :: u8) :: c_int" and ?ty = "ucast (ucast (m2ua_mt_value ?mt) :: u8) AND 0xff :: c_int"
  have h: "octets_at (m b) q (packet_header pkt)" "octets_at (m b) (q + 4) (total_octets (int n))"
    using octets_at_append [OF assms(2)] by (simp_all add: packet_header_def eval_nat_numeral)
  obtain v where v: "signed32 (m b) (q + 4) = Returns v" "0 < sint v \<longleftrightarrow> \<not> length_lost n"
    using total_received [OF h(2) assms(4)] by blast
  have b: "byte_at (m b) q = Returns 1" "byte_at (m b) (q + 2) = Returns (ucast (drop_bit 8 (m2ua_mt_value ?mt)))"
    "byte_at (m b) (q + 3) = Returns (ucast (m2ua_mt_value ?mt))"
    using octets_atD [OF h(1), of 0] octets_atD [OF h(1), of 2] octets_atD [OF h(1), of 3] assms(1)
    by (simp_all add: packet_header_def packet_of_def)
  have ff: "(ucast (x::u8) AND 0xff) = (ucast x :: c_int)" for x
    unfolding masks16 by (rule bit_word_eqI) (auto simp: bit_simps dest: bit_imp_le_length)
  let ?pkt = "M2UAPacket_new\<lparr>version := 1, message_class := ?c, packet_type := push_bit 8 ?c + ?ty, message_length := Some v\<rparr>"
  have "m2ua_decode fuel (Some (b, q)) (int n) m =
    (if length_lost n then Returns (Some ?pkt)
     else and_then (M2UAMessage_init fuel (m b) b (q + 8) (int (n - 8)) (M2UAMessage_new ?mt)) (\<lambda>msg.
       Returns (Some (?pkt\<lparr>message := Some msg\<rparr>))))"
    using assms(3) b v(1) v(2) mt_of_value [of ?mt] by (simp add: m2ua_decode_def ff Let_def of_nat_diff)
  moreover have "message ?pkt = None" by (simp add: M2UAPacket_new_def)
  ultimately show ?thesis by blast
qed

text \<open>Header, length and parameters, each at its place.\<close>

lemma packet_encode:
  assumes "packet_of msg pkt" "p + 8 \<le> length (m b)"
    "m2ua_encode_params (params msg) b (p + 4) bl 4 0 (written b p (packet_header pkt) m) = Returns (n, ps', m')"
    "length (m' b) = length (m b)" "0 \<le> int q + offset" "p = nat (int q + offset)"
  shows "\<exists>pkt'. M2UAPacket_encode pkt b q bl offset m = Returns (8 + n, pkt', written b (p + 4) (total_octets (8 + n)) m')"
proof -
  have p: "ptr_at q offset = Returns p" using assms(5,6) by (simp add: ptr_at_def)
  have l: "length (packet_header pkt) = 4" "length (total_octets (8 + n)) = 4" by (simp_all add: packet_header_def total_octets_def Let_def)
  have w: "mem_write b p (packet_header pkt) m = Returns (written b p (packet_header pkt) m)" using assms(2) l by (intro write_ok) simp
  have e: "mem_write b (p + 4) (total_octets (8 + n)) m' = Returns (written b (p + 4) (total_octets (8 + n)) m')"
    using assms(2,4) l by (intro write_ok) simp
  show ?thesis using assms(1,3) unfolding M2UAPacket_encode_def p and_then.simps w [unfolded packet_header_def]
    by (simp add: packet_of_def M2UAMessage_encode_def packet_header_def e)
qed

lemma encode_two:
  assumes "length ps \<le> 2" "\<forall>p \<in> set ps. param_sendable m b p" "q + k + length (concat (map (param_wire m) ps)) \<le> length (m b)"
    "int (k + length (concat (map (param_wire m) ps))) \<le> bl"
  shows "\<exists>ps'. m2ua_encode_params ps b q bl (int k) 0 m =
    Returns (int (length (concat (map (param_wire m) ps))), ps', written b (q + k) (concat (map (param_wire m) ps)) m)"
proof -
  consider "ps = []" | x where "ps = [x]" | x y where "ps = [x, y]"
    using assms(1) by (cases ps; cases "tl ps") (auto simp: numeral_2_eq_2)
  then show ?thesis
  proof cases
    case 1
    then show ?thesis by (simp add: written_def)
  next
    case (2 x)
    then show ?thesis using m2ua_encode_parameter_ok [of m b x q k bl] assms(2-4) by auto
  next
    case (3 x y)
    let ?w = "param_wire m x" and ?v = "param_wire m y"
    have s: "param_sendable m b x" "param_sendable m b y" using assms(2) 3 by simp_all
    have f: "q + k + (length ?w + length ?v) \<le> length (m b)" "int (k + (length ?w + length ?v)) \<le> bl" using assms(3,4) 3 by simp_all
    obtain x' where x': "m2ua_encode_parameter x b q bl (int k) m = Returns (int (length ?w), x', written b (q + k) ?w m)"
      using m2ua_encode_parameter_ok [OF s(1), of q k bl] f by auto
    let ?m = "written b (q + k) ?w m"
    have "q + (k + length ?w) + length (param_wire ?m y) \<le> length (?m b)" "int (k + length ?w + length (param_wire ?m y)) \<le> bl"
      using f s(2) by (simp_all add: param_wire_written)
    then obtain y' where y': "m2ua_encode_parameter y b q bl (int (k + length ?w)) ?m =
        Returns (int (length ?v), y', written b (q + (k + length ?w)) ?v ?m)"
      using m2ua_encode_parameter_ok [of ?m b y q "k + length ?w" bl] s(2) by (auto simp: sendable_written param_wire_written)
    have "written b (q + (k + length ?w)) ?v ?m = written b (q + k) (?w @ ?v) m" using f by (intro written_written) simp_all
    then show ?thesis using 3 x' y' by (simp add: add.assoc)
  qed
qed

section \<open>What callers rely on\<close>

text \<open>
  C13. A message of at most two parameters that is encoded and decoded comes back with the same type
  and its parameters in order, with the octets and members that were sent; of the information of a
  status that is the low 16 bits only. But if the length of the packet is a multiple of 256 below
  65536, the packet comes back without its message.
\<close>

theorem m2ua_roundtrip:
  assumes "packet_of msg pkt" "length (params msg) \<le> 2" "\<forall>x \<in> set (params msg). param_sendable m b x"
    "ws = concat (map (param_wire m) (params msg))" "0 \<le> int q + offset" "p = nat (int q + offset)"
    "p + 8 + length ws \<le> length (m b)" "int (4 + length ws) \<le> bl" "2 < fuel"
  shows "\<exists>pkt1 pkt2 m'. M2UAPacket_encode pkt b q bl offset m = Returns (int (8 + length ws), pkt1, m') \<and>
    m2ua_decode fuel (Some (b, p)) (int (8 + length ws)) m' = Returns (Some pkt2) \<and>
    (if length_lost (8 + length ws) then message pkt2 = None
     else \<exists>msg'. message pkt2 = Some msg' \<and> message_type msg' = message_type msg \<and>
       list_all2 (\<lambda>x x'. delivered m x m' x') (params msg) (params msg'))"
proof -
  let ?m = "written b p (packet_header pkt) m" and ?t = "total_octets (int (8 + length ws))"
  have l: "length (packet_header pkt) = 4" "length ?t = 4" by (simp_all add: packet_header_def total_octets_def Let_def)
  have ws: "concat (map (param_wire ?m) (params msg)) = ws"
    using assms(3,4) by (simp add: param_wire_written cong: map_cong)
  have "\<forall>x \<in> set (params msg). param_sendable ?m b x" using assms(3) by (simp add: sendable_written)
  from encode_two [OF assms(2) this, of "p + 4" 4 bl] obtain ps' where
    ps': "m2ua_encode_params (params msg) b (p + 4) bl (int 4) 0 ?m = Returns (int (length ws), ps', written b (p + 4 + 4) ws ?m)"
    using assms(7,8) l unfolding ws by auto
  let ?m2 = "written b (p + 4) ?t (written b (p + 4 + 4) ws ?m)"
  have t: "int (8 + length ws) = 8 + int (length ws)" by simp
  have len: "length (written b (p + 4 + 4) ws ?m b) = length (m b)" using assms(7) l by simp
  have "p + 8 \<le> length (m b)" using assms(7) by simp
  from packet_encode [OF assms(1) this ps' [unfolded of_nat_numeral] len assms(5,6)]
  obtain pkt1 where enc: "M2UAPacket_encode pkt b q bl offset m = Returns (int (8 + length ws), pkt1, ?m2)"
    unfolding t by blast
  have m2: "?m2 = written b p (packet_header pkt @ ?t @ ws) m"
    using assms(7) l by (simp add: written_before written_written add.assoc)
  have o: "octets_at (?m2 b) p (packet_header pkt @ ?t @ ws)" unfolding m2 using assms(7) l by (intro octets_at_written) simp
  then have o1: "octets_at (?m2 b) p (packet_header pkt @ ?t)" and o2: "octets_at (?m2 b) (p + 8 + 0) ws"
    using octets_at_append [of "?m2 b" p "packet_header pkt @ ?t" ws] l by simp_all
  have big: "length ws \<le> 2 ^ 16"
  proof -
    have "length ws = (\<Sum>x \<leftarrow> params msg. length (param_wire m x))" using assms(4) by (simp add: length_concat comp_def)
    also have "\<dots> \<le> (\<Sum>x \<leftarrow> params msg. 2 ^ 15)" using assms(3) param_wire_length by (intro sum_list_mono) blast
    finally show ?thesis using assms(2) by (simp add: sum_list_triv)
  qed
  then obtain pkt0 where dec: "message pkt0 = None" "m2ua_decode fuel (Some (b, p)) (int (8 + length ws)) ?m2 =
    (if length_lost (8 + length ws) then Returns (Some pkt0)
     else and_then (M2UAMessage_init fuel (?m2 b) b (p + 8) (int (8 + length ws - 8)) (M2UAMessage_new (message_type msg))) (\<lambda>msg.
       Returns (Some (pkt0\<lparr>message := Some msg\<rparr>))))"
    using m2ua_decode_header [where m = ?m2, OF assms(1) o1] by auto
  show ?thesis
  proof (cases "length_lost (8 + length ws)")
    case True
    then show ?thesis using enc dec by auto
  next
    case False
    let ?new = "M2UAMessage_new (message_type msg)"
    have new: "byte_pos ?new = int 0" "params ?new = []" "message_type ?new = message_type msg" by (simp_all add: M2UAMessage_new_def)
    obtain xs where xs: "list_all2 (\<lambda>x x'. delivered m x ?m2 x') (params msg) xs"
      "\<And>fuel. m2ua_process_params (length (params msg) + fuel) (?m2 b) b (p + 8) (int (length ws)) ?new =
        m2ua_process_params fuel (?m2 b) b (p + 8) (int (length ws)) (?new\<lparr>byte_pos := int (length ws), params := xs\<rparr>)"
      using process_many [where ps = "params msg" and m = m and ?b0.0 = b and m' = ?m2 and b = b and q = "p + 8" and k = 0
          and data_length = "int (length ws)" and msg = ?new] assms(3) o2 new unfolding assms(4) [symmetric] by (auto simp del: int_ops)
    obtain f where f: "fuel = length (params msg) + Suc f" using assms(2,9) by (metis add_Suc_right le_less_trans less_imp_Suc_add)
    have "M2UAMessage_init fuel (?m2 b) b (p + 8) (int (length ws)) ?new = Returns (?new\<lparr>byte_pos := int (length ws), params := xs\<rparr>)"
    proof (cases "ws = []")
      case True
      have "params msg = []"
      proof (rule ccontr)
        assume "params msg \<noteq> []"
        then have "\<exists>x ps. params msg = x # ps" by (cases "params msg") auto
        then show False using assms(3,4) True param_wire_length by fastforce
      qed
      moreover have "?new\<lparr>byte_pos := 0, params := []\<rparr> = ?new" by (simp add: M2UAMessage_new_def)
      ultimately show ?thesis using xs(1) True by (simp add: M2UAMessage_init_def)
    next
      case False
      then show ?thesis unfolding M2UAMessage_init_def f xs(2) by simp
    qed
    then show ?thesis using enc dec False xs(1) new(3) by auto
  qed
qed

text \<open>Data for interface 7, and data of 244 octets, whose packet has 256.\<close>

definition sent_octets :: "M2UAParameterType \<Rightarrow> nat \<Rightarrow> int \<Rightarrow> M2UAParam" where
  "sent_octets pt sp n = (M2UAParam_new pt)\<lparr>param_value := Some (1, sp), value_length := n\<rparr>"

definition data_buffers :: memory where
  "data_buffers b = (if b = 0 then replicate 300 0 else [0, 0, 0, 7, 1, 2, 3] @ replicate 250 9)"

definition data_packet :: "M2UAParam list \<Rightarrow> M2UAPacket" where
  "data_packet ps =
     M2UAPacket_new\<lparr>message_class := 6, packet_type := 0x601, message := Some \<lparr>message_type = DATA, byte_pos = 0, params = ps\<rparr>\<rparr>"

lemma data_packet_of: "packet_of \<lparr>message_type = DATA, byte_pos = 0, params = ps\<rparr> (data_packet ps)"
  by (simp add: packet_of_def data_packet_def M2UAPacket_new_def)

lemma data_params:
  "param_sendable data_buffers 0 (sent_octets INTERFACE_INDICATOR_INTEGER 0 4)" "param_sendable data_buffers 0 (sent_octets PROTOCOL_DATA_1 4 3)"
  "param_sendable data_buffers 0 (sent_octets PROTOCOL_DATA_1 0 244)"
  "value_octets data_buffers (sent_octets INTERFACE_INDICATOR_INTEGER 0 4) = [0, 0, 0, 7]"
  "value_octets data_buffers (sent_octets PROTOCOL_DATA_1 4 3) = [1, 2, 3]"
  "length (param_wire data_buffers (sent_octets INTERFACE_INDICATOR_INTEGER 0 4)) = 8"
  "length (param_wire data_buffers (sent_octets PROTOCOL_DATA_1 4 3)) = 8"
  "length (param_wire data_buffers (sent_octets PROTOCOL_DATA_1 0 244)) = 248"
  by (simp_all add: param_sendable_def sent_octets_def M2UAParam_new_def value_octets_def m2ua_pointed_def data_buffers_def length_param_wire)

lemma m2ua_roundtrip_witness:
  "(\<exists>pkt1 pkt2 m' msg'. M2UAPacket_encode (data_packet [sent_octets INTERFACE_INDICATOR_INTEGER 0 4, sent_octets PROTOCOL_DATA_1 4 3]) 0 0 20 2
      data_buffers = Returns (24, pkt1, m') \<and> m2ua_decode 3 (Some (0, 2)) 24 m' = Returns (Some pkt2) \<and> message pkt2 = Some msg' \<and>
      map (\<lambda>x. (param_type x, m2ua_pointed m' x)) (params msg') = [(INTERFACE_INDICATOR_INTEGER, [0, 0, 0, 7]), (PROTOCOL_DATA_1, [1, 2, 3])]) \<and>
   (\<exists>pkt1 pkt2 m'. M2UAPacket_encode (data_packet [sent_octets PROTOCOL_DATA_1 0 244]) 0 0 256 0 data_buffers = Returns (256, pkt1, m') \<and>
      m2ua_decode 3 (Some (0, 0)) 256 m' = Returns (Some pkt2) \<and> message pkt2 = None)"
proof (rule conjI, goal_cases)
  case 1
  let ?ps = "[sent_octets INTERFACE_INDICATOR_INTEGER 0 4, sent_octets PROTOCOL_DATA_1 4 3]"
  have len: "length (concat (map (param_wire data_buffers) ?ps)) = 16" "length (data_buffers 0) = 300"
    using data_params(6,7) by (simp_all add: data_buffers_def)
  have "\<not> length_lost 24" by (simp add: length_lost_def)
  moreover have "param_type (sent_octets pt sp n) = pt" for pt sp n by (simp add: sent_octets_def M2UAParam_new_def)
  ultimately show ?case
    using m2ua_roundtrip [OF data_packet_of [of ?ps], of data_buffers 0 _ 0 2 2 20 3, OF _ _ refl] data_params(1,2,4,5) len
    by (fastforce simp: list_all2_Cons1 delivered_def)
next
  case 2
  let ?ps = "[sent_octets PROTOCOL_DATA_1 0 244]"
  have len: "length (concat (map (param_wire data_buffers) ?ps)) = 248" "length (data_buffers 0) = 300"
    using data_params(8) by (simp_all add: data_buffers_def)
  have "length_lost 256" by (simp add: length_lost_def)
  then show ?case
    using m2ua_roundtrip [OF data_packet_of [of ?ps], of data_buffers 0 _ 0 0 0 256 3, OF _ _ refl] data_params(3) len by auto
qed

section \<open>Three parameters\<close>

lemma written_same: "octets_at (m b) p z \<Longrightarrow> written b p z m = m"
proof -
  assume o: "octets_at (m b) p z"
  then have "take p (m b) @ take (length z) (drop p (m b)) @ drop (length z) (drop p (m b)) = m b" by (simp only: append_take_drop_id)
  then have "overwrite (m b) p z = m b" using o by (simp add: octets_at_def overwrite_def add.commute)
  then show ?thesis by (simp add: written_def)
qed

lemma written_gap:
  assumes "octets_at (m b) (p + length u) z" "q = p + length u + length z" "q + length w \<le> length (m b)"
  shows "written b q w (written b p u m) = written b p (u @ z @ w) m"
proof -
  have f: "p + length u + length z \<le> length (m b)" using assms(2,3) by simp
  have "drop (p + length u) (written b p u m b) = drop (p + length u) (m b)" using f by (simp add: written_def overwrite_def)
  then have "octets_at (written b p u m b) (p + length u) z" using assms(1) f by (simp add: octets_at_def)
  then have "written b p u m = written b (p + length u) z (written b p u m)" by (simp add: written_same)
  also have "\<dots> = written b p (u @ z) m" using f by (rule written_written) simp
  finally show ?thesis using assms(2,3) by (simp add: written_written add.assoc)
qed

text \<open>Four zeros are a parameter of no known type that claims no octets: the loop stays there.\<close>

lemma process_stuck:
  assumes "octets_at bs (q + k) [0, 0, 0, 0]" "byte_pos msg = int k" "int k < data_length"
  shows "m2ua_process_params fuel bs b q data_length msg = OutOfFuel"
proof (induction fuel)
  case (Suc fuel)
  have z: "be16 0 = [0, 0]" by (simp add: be16_def)
  have "octets_at bs (q + k) (be16 0)" "octets_at bs (q + (k + 2)) (be16 0)"
    using octets_at_append [of bs "q + k" "[0, 0]" "[0, 0]"] assms(1) unfolding z by (simp_all add: eval_nat_numeral)
  moreover have "(0 :: c_int) < 2 ^ 15" by (simp add: word_less_nat_alt)
  ultimately have "m2ua_read16 bs q (int k) = Returns (uint (0 :: c_int))" "m2ua_read16 bs q (int (k + 2)) = Returns (uint (0 :: c_int))"
    using read16_be16 by blast+
  then have r: "m2ua_read16 bs q (int k) = Returns 0" "m2ua_read16 bs q (int k + 2) = Returns 0" by (simp_all add: add.commute)
  have n: "m2ua_get_param 0 = None" by (simp add: m2ua_get_param_def m2ua_parameter_types_def)
  have p: "int k + 4 + (0 + m2ua_padding 0 - 4) = int k" by (simp add: m2ua_padding_def)
  have "msg\<lparr>byte_pos := int k, params := params msg\<rparr> = msg" by (rule M2UAMessage.equality) (simp_all add: assms(2))
  then show ?case
    unfolding m2ua_process_params.simps(2) assms(2) Let_def r and_then.simps n option.case p using assms(3) Suc.IH by simp
qed simp

text \<open>
  C14. A message of three parameters that is encoded into a buffer of zeros stops the decoder: the
  third parameter is put too far from the second by the length of the first, and the octets between
  are read as a parameter without length, over and over.
\<close>

theorem m2ua_third_parameter:
  assumes "packet_of msg pkt" "params msg = [x, y, z]" "\<forall>x \<in> set (params msg). param_sendable m b x" "m b = replicate n 0"
    "0 \<le> int q + offset" "p = nat (int q + offset)" "len = 8 + (length (param_wire m x) + length (param_wire m y) + length (param_wire m z))"
    "p + len + length (param_wire m x) \<le> n" "int (len - 4 + length (param_wire m x)) \<le> bl" "\<not> length_lost len"
  shows "\<exists>pkt1 m'. M2UAPacket_encode pkt b q bl offset m = Returns (int len, pkt1, m') \<and>
    (\<forall>fuel. m2ua_decode fuel (Some (b, p)) (int len) m' = OutOfFuel)"
proof -
  let ?u = "param_wire m x" and ?v = "param_wire m y" and ?w = "param_wire m z" and ?z = "replicate (length (param_wire m x)) (0::u8)"
  let ?m = "written b p (packet_header pkt) m" and ?t = "total_octets (int len)"
  have l: "length (packet_header pkt) = 4" "length ?t = 4" by (simp_all add: packet_header_def total_octets_def Let_def)
  have s: "param_sendable m b x" "param_sendable m b y" "param_sendable m b z" using assms(2,3) by simp_all
  have four: "4 \<le> length ?u" "4 \<le> length ?w" "length ?u \<le> 2 ^ 15" "length ?v \<le> 2 ^ 15" "length ?w \<le> 2 ^ 15"
    using param_wire_length s by blast+
  have n: "length (m b) = n" using assms(4) by simp
  let ?m2 = "written b (p + 8) (?u @ ?v) ?m" and ?k = "4 + (2 * length ?u + length ?v)"
  let ?m3 = "written b (p + 8) (?u @ ?v @ ?z @ ?w) ?m"
  have f: "p + 8 + (length ?u + length ?v + length ?u + length ?w) \<le> n" "int (4 + (length ?u + length ?v + length ?u + length ?w)) \<le> bl"
    using assms(7-9) by simp_all
  obtain x' where x': "m2ua_encode_parameter x b (p + 4) bl (int 4) ?m = Returns (int (length ?u), x', written b (p + 4 + 4) ?u ?m)"
    using m2ua_encode_parameter_ok [of ?m b x "p + 4" 4 bl] s(1) f l n by (auto simp: sendable_written param_wire_written)
  let ?m1 = "written b (p + 4 + 4) ?u ?m"
  obtain y' where y': "m2ua_encode_parameter y b (p + 4) bl (int (4 + length ?u)) ?m1 =
      Returns (int (length ?v), y', written b (p + 4 + (4 + length ?u)) ?v ?m1)"
    using m2ua_encode_parameter_ok [of ?m1 b y "p + 4" "4 + length ?u" bl] s(2) f l n by (auto simp: sendable_written param_wire_written)
  have m2: "written b (p + 4 + (4 + length ?u)) ?v ?m1 = ?m2"
    using f l n by (subst written_written) (simp_all add: eval_nat_numeral)
  obtain z' where z': "m2ua_encode_parameter z b (p + 4) bl (int ?k) ?m2 = Returns (int (length ?w), z', written b (p + 4 + ?k) ?w ?m2)"
    using m2ua_encode_parameter_ok [of ?m2 b z "p + 4" ?k bl] s(3) f l n by (auto simp: sendable_written param_wire_written)
  have "octets_at (?m b) (p + 8 + length (?u @ ?v)) ?z"
  proof -
    have "drop (p + 8 + length (?u @ ?v)) (?m b) = replicate (n - (p + 8 + length (?u @ ?v))) 0"
      using f l assms(4) by (simp add: written_def overwrite_def)
    moreover have "p + 8 + length (?u @ ?v) + length ?u \<le> length (?m b)" "length ?u \<le> n - (p + 8 + length (?u @ ?v))" using f l n by simp_all
    ultimately show ?thesis by (simp only: octets_at_def take_replicate min.absorb1 length_replicate)
  qed
  then have m3: "written b (p + 4 + ?k) ?w ?m2 = ?m3"
    using f l n by (subst written_gap [where z = ?z]) simp_all
  have offs: "(4::int) + (0 + int (length ?u)) = int (4 + length ?u)"
    "int (4 + length ?u) + (0 + int (length ?u) + int (length ?v)) = int ?k"
    "0 + int (length ?u) + int (length ?v) + int (length ?w) = int (len - 8)" "8 + int (len - 8) = int len" using assms(7) by simp_all
  have "m2ua_encode_params (params msg) b (p + 4) bl 4 0 ?m = Returns (int (len - 8), [x', y', z'], ?m3)"
    unfolding assms(2) m2ua_encode_params.simps x' [unfolded of_nat_numeral] and_then.simps prod.case Let_def offs(1) y' m2 offs(2) z' m3 offs(3) by simp
  from packet_encode [OF assms(1) _ this _ assms(5,6)]
  obtain pkt1 where enc: "M2UAPacket_encode pkt b q bl offset m = Returns (int len, pkt1, written b (p + 4) ?t ?m3)"
    unfolding offs(4) using f l n by auto
  let ?e = "written b (p + 4) ?t ?m3" and ?ws = "concat (map (param_wire m) [x, y])"
  have "?e = written b p (packet_header pkt @ ?t @ ?u @ ?v @ ?z @ ?w) m"
    using f l n by (simp add: written_before written_written)
  then have o: "octets_at (?e b) p (packet_header pkt @ ?t @ ?u @ ?v @ ?z @ ?w)"
    using f l n by (simp only:) (rule octets_at_written, simp)
  have o1: "octets_at (?e b) p (packet_header pkt @ ?t)" and o2: "octets_at (?e b) (p + 8 + 0) ?ws" and o3: "octets_at (?e b) (p + 8 + length ?ws) ?z"
    using octets_at_append [of "?e b" p "packet_header pkt @ ?t" "?u @ ?v @ ?z @ ?w"] octets_at_append [of "?e b" "p + 8" "?u @ ?v" "?z @ ?w"]
      octets_at_append [of "?e b" "p + 8 + length (?u @ ?v)" ?z ?w] o l by simp_all
  obtain k where "length ?u = 4 + k" using four(1) le_Suc_ex by blast
  then have "?z = [0, 0, 0, 0] @ replicate k 0" by (simp add: eval_nat_numeral)
  then have o4: "octets_at (?e b) (p + 8 + length ?ws) [0, 0, 0, 0]" using o3 octets_at_append by metis
  have never: "m2ua_process_params fuel (?e b) b (p + 8) (int (len - 8)) (M2UAMessage_new (message_type msg)) = OutOfFuel" for fuel
  proof -
    let ?new = "M2UAMessage_new (message_type msg)"
    have new: "byte_pos ?new = int 0" "params ?new = []" by (simp_all add: M2UAMessage_new_def)
    have "?w \<noteq> []" "?u \<noteq> []" using four(1,2) by auto
    then have sum: "int (0 + length ?ws) \<le> int (len - 8)" "int (0 + length ?ws) < int (len - 8)" "int 0 < int (len - 8)"
      using assms(7) four by simp_all
    have xy: "\<forall>p \<in> set [x, y]. param_sendable m b p" using s by simp
    have o0: "octets_at (?e b) (p + 8 + 0) ?u" using octets_at_append [of "?e b" "p + 8" ?u ?v] o2 by simp
    consider "fuel = 0" | "fuel = Suc 0" | f where "fuel = length [x, y] + f" by (cases fuel; cases "fuel - 1") auto
    then show ?thesis
    proof cases
      case 2
      obtain p' where "\<And>fuel. m2ua_process_params (Suc fuel) (?e b) b (p + 8) (int (len - 8)) ?new =
          m2ua_process_params fuel (?e b) b (p + 8) (int (len - 8)) (?new\<lparr>byte_pos := int (0 + length ?u), params := params ?new @ [p']\<rparr>)"
        using process_param [where p = x and m = m and ?b0.0 = b and m' = ?e and b = b and q = "p + 8" and k = 0 and msg = ?new
            and data_length = "int (len - 8)"] s(1) o0 sum(3) new(1) by blast
      from this [of 0] show ?thesis unfolding 2 by (simp only: m2ua_process_params.simps(1))
    next
      case (3 f)
      obtain ps' where "\<And>fuel. m2ua_process_params (length [x, y] + fuel) (?e b) b (p + 8) (int (len - 8)) ?new =
          m2ua_process_params fuel (?e b) b (p + 8) (int (len - 8)) (?new\<lparr>byte_pos := int (0 + length ?ws), params := params ?new @ ps'\<rparr>)"
        using process_many [where ps = "[x, y]" and m = m and ?b0.0 = b and m' = ?e and b = b and q = "p + 8" and k = 0 and msg = ?new
            and data_length = "int (len - 8)"] xy o2 sum(1) new(1) by blast
      then show ?thesis unfolding 3 using process_stuck [OF _ _ sum(2), of "?e b" "p + 8"] o4 by simp
    qed simp
  qed
  have "m2ua_decode fuel (Some (b, p)) (int len) ?e = OutOfFuel" for fuel
    using m2ua_decode_header [where m = ?e, OF assms(1) o1, of fuel] never [of fuel] assms(7,10) four by (auto simp: M2UAMessage_init_def)
  then show ?thesis using enc by blast
qed

lemma m2ua_third_parameter_witness:
  "\<exists>pkt1 m'. M2UAPacket_encode (data_packet [sent_octets INTERFACE_INDICATOR_INTEGER 0 4, sent_octets INTERFACE_INDICATOR_INTEGER 0 4,
      sent_octets PROTOCOL_DATA_1 4 3]) 0 0 36 0 data_buffers = Returns (32, pkt1, m') \<and>
    (\<forall>fuel. m2ua_decode fuel (Some (0, 0)) 32 m' = OutOfFuel)"
proof -
  let ?x = "sent_octets INTERFACE_INDICATOR_INTEGER 0 4" and ?z = "sent_octets PROTOCOL_DATA_1 4 3"
  have "\<not> length_lost 32" "data_buffers 0 = replicate 300 0" by (simp_all add: length_lost_def data_buffers_def)
  then show ?thesis
    using m2ua_third_parameter [OF data_packet_of [of "[?x, ?x, ?z]"], of ?x ?x ?z data_buffers 0 300 0 0 0 32 36] data_params(1,2,6,7) by simp
qed

end
