(* ===== verification/Gsm_Text.thy ===== *)
theory Gsm_Text
  imports Buffers
begin

text \<open>
  Text of short messages, \<^verbatim>\<open>src/smstpdu/smstpdu.cpp\<close>: septets packed into octets, the GSM
  alphabet, digits in halves of octets. The output of a function that only appends to its buffer
  is the list of what it appends; \<open>unpack\<close> also overwrites, so its buffer is a list of octets, and
  writing behind it is undefined. An octet is what remains of an \<open>int\<close> that is stored in one.
\<close>

section \<open>Packing septets\<close>

text \<open>
  The loop of \<open>pack\<close>, whose code is that of \<open>encode\<close> too: \<open>i\<close> runs over the \<open>char\<close>s of \<open>data\<close>, \<open>bits\<close> of
  the first of which are already in the output. The return code comes with the output.
\<close>

function pack_loop :: "u8 list \<Rightarrow> nat \<Rightarrow> nat \<Rightarrow> nat \<Rightarrow> nat \<Rightarrow> u8 list \<Rightarrow> (nat \<times> u8 list) outcome" where
  "pack_loop data data_length out_size i bits output =
     (if data_length \<le> i then Returns (0, output)
      else if bits = 7 then pack_loop data data_length out_size (i + 1) 0 output
      else if length output = out_size then Returns (1, output)
      else and_then (byte_at data i) (\<lambda>x.
        let octet = drop_bit bits (x AND 0x7f)
        in and_then (if i + 1 < data_length
             then and_then (byte_at data (i + 1)) (\<lambda>y. Returns (octet OR push_bit (7 - bits) y))
             else Returns octet) (\<lambda>octet.
           pack_loop data data_length out_size (i + 1) (bits + 1) (output @ [octet]))))"
  by pat_completeness auto
termination by (relation "measure (\<lambda>(data, n, _, i, _). n - i)") auto

declare pack_loop.simps [simp del]

text \<open>Padding puts the first septet behind the bits a header leaves free; more than 8 bits of it make the
  next shift negative.\<close>

definition gsm_pack :: "u8 list \<Rightarrow> nat \<Rightarrow> nat \<Rightarrow> nat \<Rightarrow> (nat \<times> u8 list) outcome" where
  "gsm_pack data data_length padding_bits out_size =
     (if padding_bits \<noteq> 0
      then and_then (byte_at data 0) (\<lambda>x. guard (padding_bits \<le> 8)
        (pack_loop data data_length out_size 0 (8 - padding_bits) [push_bit padding_bits x]))
      else pack_loop data data_length out_size 0 0 [])"

section \<open>Unpacking septets\<close>

text \<open>
  The loop of \<open>unpack\<close>: \<open>i\<close> and \<open>pos\<close> are the positions in input and output, \<open>rest\<close> what is left of the
  last octet.
\<close>

definition put_octet :: "u8 list \<Rightarrow> nat \<Rightarrow> u8 \<Rightarrow> u8 list outcome" where
  "put_octet output pos v = write_bytes output pos [v]"

function unpack_loop ::
  "nat \<Rightarrow> nat \<Rightarrow> u8 list \<Rightarrow> nat \<Rightarrow> nat \<Rightarrow> u8 \<Rightarrow> nat \<Rightarrow> u8 list \<Rightarrow> (nat \<times> u8 list) outcome" where
  "unpack_loop in_length out_length input i bits rest pos output =
     (if i < in_length
      then and_then (byte_at input i) (\<lambda>x. guard (bits \<le> 7)
        (and_then (put_octet output pos (push_bit (7 - bits) (x AND mask bits) OR rest)) (\<lambda>output.
         let rest = drop_bit bits x; pos = (if i \<noteq> 0 \<or> bits = 7 then pos + 1 else pos)
         in if out_length \<le> pos then Returns (pos, output)
            else if bits = 1
            then and_then (put_octet output pos rest) (\<lambda>output.
              unpack_loop in_length out_length input (i + 1) 7 0 (pos + 1) output)
            else unpack_loop in_length out_length input (i + 1) (bits - 1) rest pos output)))
      else Returns (pos, output))"
  by pat_completeness auto
termination by (relation "measure (\<lambda>(n, _, _, i, _). n - i)") auto

declare unpack_loop.simps [simp del]

text \<open>The result is the number of octets put out, with the buffer.\<close>

definition gsm_unpack :: "nat \<Rightarrow> nat \<Rightarrow> nat \<Rightarrow> u8 list \<Rightarrow> u8 list \<Rightarrow> (nat \<times> u8 list) outcome" where
  "gsm_unpack offset in_length out_length input output =
     unpack_loop in_length out_length input 0 (if offset \<noteq> 0 then offset else 7) 0 0 output"

section \<open>The alphabet\<close>

definition GSM_DEFAULT_ALPHABET :: "u16 list" where
  "GSM_DEFAULT_ALPHABET =
    [0x40, 0xa3, 0x24, 0xa5, 0xe8, 0xe9, 0xf9, 0xec,
     0xf2, 0xc7, 0x0a, 0xd8, 0xf8, 0x0d, 0xc5, 0xe5,
     0x394, 0x5f, 0x3a6, 0x393, 0x39b, 0x3a9, 0x3a0, 0x3a8,
     0x3a3, 0x398, 0x39e, 0xa0, 0xc6, 0xe6, 0xdf, 0xc9,
     0x20, 0x21, 0x22, 0x23, 0xa4, 0x25, 0x26, 0x27,
     0x28, 0x29, 0x2a, 0x2b, 0x2c, 0x2d, 0x2e, 0x2f,
     0x30, 0x31, 0x32, 0x33, 0x34, 0x35, 0x36, 0x37,
     0x38, 0x39, 0x3a, 0x3b, 0x3c, 0x3d, 0x3e, 0x3f,
     0xa1, 0x41, 0x42, 0x43, 0x44, 0x45, 0x46, 0x47,
     0x48, 0x49, 0x4a, 0x4b, 0x4c, 0x4d, 0x4e, 0x4f,
     0x50, 0x51, 0x52, 0x53, 0x54, 0x55, 0x56, 0x57,
     0x58, 0x59, 0x5a, 0xc4, 0xd6, 0xd1, 0xdc, 0xa7,
     0xbf, 0x61, 0x62, 0x63, 0x64, 0x65, 0x66, 0x67,
     0x68, 0x69, 0x6a, 0x6b, 0x6c, 0x6d, 0x6e, 0x6f,
     0x70, 0x71, 0x72, 0x73, 0x74, 0x75, 0x76, 0x77,
     0x78, 0x79, 0x7a, 0xe4, 0xf6, 0xf1, 0xfc, 0xe0]"

definition gsm_char_decode :: "u8 \<Rightarrow> u16" where
  "gsm_char_decode v = (if unat v < 128 then GSM_DEFAULT_ALPHABET ! unat v else 0x3f)"

definition gsm_decode_ext :: "u8 \<Rightarrow> u16" where
  "gsm_decode_ext v =
     (if v = 0x0a then 0x0c else if v = 0x14 then 0x5e else if v = 0x28 then 0x7b else if v = 0x29 then 0x7d
      else if v = 0x2f then 0x5c else if v = 0x3c then 0x5b else if v = 0x3d then 0x7e else if v = 0x3e then 0x5d
      else if v = 0x40 then 0x7c else if v = 0x65 then 0x20ac else 0x3f)"

text \<open>
  \<open>decode\<close> unpacks into characters. A septet is put out if \<open>c\<close> is below the count, \<open>septet_offset\<close> has come
  down to 0, and the buffer has room; the three counters change only as far as the condition is
  evaluated.
\<close>

record gsm_counters =
  c :: nat
  septet_offset :: int
  buffer_l :: int

definition gsm_emit :: "nat \<Rightarrow> u8 \<Rightarrow> gsm_counters \<times> u16 list \<Rightarrow> gsm_counters \<times> u16 list" where
  "gsm_emit septet_count v = (\<lambda>(k, output).
     let k1 = k\<lparr>c := c k + 1\<rparr>
     in if c k < septet_count then
          (let k2 = k1\<lparr>septet_offset := septet_offset k1 - 1\<rparr>
           in if septet_offset k1 \<le> 0 then
                (let k3 = k2\<lparr>buffer_l := buffer_l k2 - 1\<rparr>
                 in if 0 < buffer_l k2 then (k3, output @ [gsm_char_decode v]) else (k3, output))
              else (k2, output))
        else (k1, output))"

fun gsm_decode_loop :: "nat \<Rightarrow> u8 list \<Rightarrow> nat \<Rightarrow> u8 \<Rightarrow> u8 \<Rightarrow> gsm_counters \<times> u16 list \<Rightarrow> gsm_counters \<times> u16 list" where
  "gsm_decode_loop septet_count [] l n p st = st"
| "gsm_decode_loop septet_count (x # xs) l n p st =
     (let p = p OR push_bit (6 - l) 2;
          b = x AND NOT p;
          st = gsm_emit septet_count (ucast (push_bit l (ucast b :: c_int) + drop_bit (8 - l) (ucast n))) st;
          n = x AND p;
          l = l + 1
      in if l = 7 then gsm_decode_loop septet_count xs 0 n 0 (gsm_emit septet_count (drop_bit 1 n) st)
         else gsm_decode_loop septet_count xs l n p st)"

text \<open>
  The return code, with the characters put out; \<open>out_size\<close> counts octets. The counters are the code's
  \<open>uint32_t\<close> and \<open>int\<close>, which do not wrap below \<open>2 ^ 31\<close> septets.
\<close>

definition gsm_decode :: "u8 list option \<Rightarrow> nat \<Rightarrow> nat \<Rightarrow> bool \<Rightarrow> nat \<Rightarrow> int \<Rightarrow> (nat \<times> u16 list) outcome" where
  "gsm_decode data data_length septet_count has_output out_size offset =
     (case data of
        None \<Rightarrow> Returns (1, [])
      | Some data \<Rightarrow>
          if \<not> has_output then Returns (1, [])
          else and_then (read_bytes data 0 data_length) (\<lambda>xs.
            Returns (0, snd (gsm_decode_loop septet_count xs 0 0 0
              (\<lparr>c = 0, septet_offset = offset, buffer_l = int (out_size div 2)\<rparr>, [])))))"

section \<open>Digits\<close>

definition decode_semi_octet_digit :: "u8 \<Rightarrow> u8" where
  "decode_semi_octet_digit v = (v AND 0x0f) * 10 + drop_bit 4 (v AND 0xf0)"

definition encode_semi_octet_digit :: "nat \<Rightarrow> u8" where
  "encode_semi_octet_digit v = (if 99 < v then 0 else push_bit 4 (of_nat (v mod 10)) OR of_nat (v div 10))"

definition tbcd_encode :: "u8 \<Rightarrow> u8" where
  "tbcd_encode v =
     (if v = 0x2a then 10 else if v = 0x23 then 11 else if v = 0x61 then 12 else if v = 0x62 then 13 else if v = 0x63 then 14
      else if v = 0xff then 15 else v - 0x30)"

definition tbcd_decode :: "u8 \<Rightarrow> u8" where
  "tbcd_decode v =
     (if v = 10 then 0x2a else if v = 11 then 0x23 else if v = 12 then 0x61 else if v = 13 then 0x62 else if v = 14 then 0x63
      else if v = 15 then 0xff else 0x30 + v)"

text \<open>The octets \<open>encode_tbcd_octets\<close> writes; it returns their number.\<close>

fun tbcd_octets :: "u8 list \<Rightarrow> u8 list" where
  "tbcd_octets [] = []"
| "tbcd_octets [x] = [0xf0 OR tbcd_encode x]"
| "tbcd_octets (x # y # xs) = (push_bit 4 (tbcd_encode y) OR tbcd_encode x) # tbcd_octets xs"

definition encode_tbcd_octets :: "u8 list \<Rightarrow> nat \<Rightarrow> (nat \<times> u8 list) outcome" where
  "encode_tbcd_octets data data_length =
     and_then (read_bytes data 0 data_length) (\<lambda>xs. Returns ((data_length + 1) div 2, tbcd_octets xs))"

text \<open>The digits before a filler, and whether there was one.\<close>

fun tbcd_digits :: "u8 list \<Rightarrow> bool \<times> u8 list" where
  "tbcd_digits [] = (False, [])"
| "tbcd_digits (x # xs) =
     (let c1 = tbcd_decode (x AND 0x0f); c2 = tbcd_decode (drop_bit 4 (x AND 0xf0))
      in if c1 = 0xff then (True, [])
         else if c2 = 0xff then (True, [c1])
         else (let (stop, ds) = tbcd_digits xs in (stop, c1 # c2 # ds)))"

text \<open>
  The C string \<open>decode_tbcd_octets\<close> leaves in its buffer, with the final 0. Skipping the last digit of
  none puts the 0 before the buffer.
\<close>

definition decode_tbcd_octets :: "u8 list \<Rightarrow> nat \<Rightarrow> nat \<Rightarrow> bool \<Rightarrow> u8 list outcome" where
  "decode_tbcd_octets data data_length out_size skip_last =
     (if data_length * 2 + 1 > out_size then Returns [0]
      else and_then (read_bytes data 0 data_length) (\<lambda>xs.
        let (stop, ds) = tbcd_digits xs
        in if stop then Returns (ds @ [0])
           else if skip_last then guard (ds \<noteq> []) (Returns (butlast ds @ [0]))
           else Returns (ds @ [0])))"

end
