(* ===== verification/Gsm_Bits.thy ===== *)
theory Gsm_Bits
  imports Gsm_Text
begin

text \<open>
  The bits of packed text: what a packed octet holds, what the loop of \<open>pack\<close> has put out at each
  round, and how a round of \<open>unpack\<close> moves on by a septet, or by two when seven bits are left.
\<close>

section \<open>Packing\<close>

text \<open>Bit \<open>k\<close> of the packed text: after the padding, seven bits of each \<open>char\<close>.\<close>

declare drop_bit_and [simp del] push_bit_and [simp del]

definition packed_bit :: "nat \<Rightarrow> u8 list \<Rightarrow> nat \<Rightarrow> bool" where
  "packed_bit p data k \<longleftrightarrow>
     p \<le> k \<and> (k - p) div 7 < length data \<and> bit (data ! ((k - p) div 7)) ((k - p) mod 7)"

definition packed :: "nat \<Rightarrow> u8 list \<Rightarrow> u8 list \<Rightarrow> bool" where
  "packed p data out \<longleftrightarrow> (\<forall>m < length out. \<forall>b < 8. bit (out ! m) b = packed_bit p data (8 * m + b))"

lemma bit_7f: "bit (x AND (0x7f::u8)) b \<longleftrightarrow> b < 7 \<and> bit x b"
proof -
  have m: "(0x7f::u8) = mask 7" by (simp add: mask_eq_exp_minus_1)
  show ?thesis unfolding m by (auto simp: bit_simps)
qed

lemma bit_dropped: "bit (drop_bit n (x AND (0x7f::u8))) b \<longleftrightarrow> n + b < 7 \<and> bit x (n + b)"
  by (simp only: bit_drop_bit_eq o_def bit_7f)

lemma bit_pushed: "n + b < 8 \<or> b < 8 \<Longrightarrow> bit (push_bit n (x::u8)) b \<longleftrightarrow> n \<le> b \<and> bit x (b - n)"
  by (auto simp: bit_push_bit_iff dest: bit_imp_le_length)

lemma packed_snoc:
  assumes "packed p data out" "\<And>b. b < 8 \<Longrightarrow> bit v b = packed_bit p data (8 * length out + b)"
  shows "packed p data (out @ [v])"
  using assms by (auto simp: packed_def nth_append less_Suc_eq)

lemma packed_bit_at:
  assumes "k = p + 7 * i + b" "b < 7"
  shows "packed_bit p data k \<longleftrightarrow> i < length data \<and> bit (data ! i) b"
proof -
  have "k - p = 7 * i + b" using assms(1) by simp
  then have "(k - p) div 7 = i" "(k - p) mod 7 = b" using assms(2) by simp_all
  then show ?thesis using assms(1) by (simp add: packed_bit_def)
qed

lemma pack_octet:
  assumes "8 * length out = p + 7 * i + bits" "bits < 7" "i < length data" "b < 8"
  shows "bit (drop_bit bits (data ! i AND 0x7f) OR (if i + 1 < length data then push_bit (7 - bits) (data ! (i + 1)) else 0)) b =
    packed_bit p data (8 * length out + b)"
proof (cases "bits + b < 7")
  case True
  have "packed_bit p data (8 * length out + b) \<longleftrightarrow> bit (data ! i) (bits + b)"
    using packed_bit_at [of "8 * length out + b" p i "bits + b"] assms(1,3) True by simp
  moreover have "\<not> 7 - bits \<le> b" using True by simp
  ultimately show ?thesis using True assms(4) by (simp add: bit_or_iff bit_dropped bit_pushed)
next
  case False
  have "packed_bit p data (8 * length out + b) \<longleftrightarrow> i + 1 < length data \<and> bit (data ! (i + 1)) (b - (7 - bits))"
    using assms(1,2,4) False by (intro packed_bit_at) simp_all
  moreover have "7 - bits \<le> b" using False by simp
  ultimately show ?thesis using False assms(2,4) by (simp add: bit_or_iff bit_dropped bit_pushed)
qed

lemma octets_enough: "(x + 7) div 8 \<le> (n::nat) \<Longrightarrow> x \<le> 8 * n"
  by presburger

lemma pack_loop_ok:
  assumes "8 * length out = p + 7 * i + bits" "bits \<le> 7" "i \<le> length data" "packed p data out" "(p + 7 * length data + 7) div 8 \<le> sz"
  shows "\<exists>out'. pack_loop data (length data) sz i bits out = Returns (0, out') \<and> packed p data out' \<and>
    length out' = (p + 7 * length data + 7) div 8"
  using assms
proof (induction "length data - i" arbitrary: i bits out)
  case 0
  have i: "i = length data" using "0.hyps" "0.prems"(3) by simp
  then have "(p + 7 * length data + 7) div 8 = length out" using "0.prems"(1,2) by (intro div_nat_eqI) simp_all
  moreover have "pack_loop data (length data) sz i bits out = Returns (0, out)" unfolding pack_loop.simps [of data "length data" sz i bits out] using i by simp
  ultimately show ?case using "0.prems"(4) by simp
next
  case (Suc k)
  note step = pack_loop.simps [of data "length data" sz i bits out]
  have i: "i < length data" "k = length data - (i + 1)" "i + 1 \<le> length data" using Suc.hyps(2) by simp_all
  show ?case
  proof (cases "bits = 7")
    case True
    have "8 * length out = p + 7 * (i + 1) + 0" using Suc.prems(1) True by simp
    from Suc.hyps(1) [OF i(2) this _ i(3) Suc.prems(4,5)] show ?thesis using i(1) True unfolding step by simp
  next
    case False
    let ?v = "drop_bit bits (data ! i AND 0x7f) OR (if i + 1 < length data then push_bit (7 - bits) (data ! (i + 1)) else 0)"
    have b: "bits < 7" using False Suc.prems(2) by simp
    have "p + 7 * i + bits < p + 7 * length data" using i(1) b by simp
    then have full: "length out \<noteq> sz" using Suc.prems(1) octets_enough [OF Suc.prems(5)] by simp
    have run: "pack_loop data (length data) sz i bits out = pack_loop data (length data) sz (i + 1) (bits + 1) (out @ [?v])"
      using i(1) False full unfolding step by (simp add: Let_def)
    have "8 * length (out @ [?v]) = p + 7 * (i + 1) + (bits + 1)" "bits + 1 \<le> 7" using Suc.prems(1) b by simp_all
    moreover have "packed p data (out @ [?v])" using Suc.prems(1,4) i(1) b by (intro packed_snoc pack_octet)
    ultimately show ?thesis using Suc.hyps(1) [OF i(2), of "out @ [?v]" "bits + 1"] i(3) Suc.prems(5) unfolding run by blast
  qed
qed

lemma gsm_pack_ok:
  assumes "p \<le> 7" "p = 0 \<or> data \<noteq> []" "(p + 7 * length data + 7) div 8 \<le> sz"
  shows "\<exists>out. gsm_pack data (length data) p sz = Returns (0, out) \<and> packed p data out \<and> length out = (p + 7 * length data + 7) div 8"
proof (cases "p = 0")
  case True
  then show ?thesis using pack_loop_ok [of "[]" p 0 0 data sz] assms(3) by (simp add: gsm_pack_def packed_def)
next
  case False
  then have ne: "0 < length data" using assms(2) by simp
  have "packed p data [push_bit p (data ! 0)]"
  proof -
    have "packed_bit p data b \<longleftrightarrow> p \<le> b \<and> bit (data ! 0) (b - p)" if "b < 8" for b
    proof (cases "p \<le> b")
      case True
      then show ?thesis using packed_bit_at [of b p 0 "b - p" data] that ne False by simp
    qed (simp add: packed_bit_def)
    then show ?thesis by (simp add: packed_def bit_pushed)
  qed
  then show ?thesis
    using pack_loop_ok [of "[push_bit p (data ! 0)]" p 0 "8 - p" data sz] assms(1,3) ne False by (simp add: gsm_pack_def)
qed

section \<open>Unpacking\<close>

text \<open>Bit \<open>k\<close> of the octets, and the septets that start at bit \<open>p\<close>.\<close>

definition stream_bit :: "u8 list \<Rightarrow> nat \<Rightarrow> bool" where
  "stream_bit xs k = bit (xs ! (k div 8)) (k mod 8)"

definition septets_at :: "nat \<Rightarrow> u8 list \<Rightarrow> nat \<Rightarrow> u8 list \<Rightarrow> bool" where
  "septets_at p xs n out \<longleftrightarrow> (\<forall>k < n. \<forall>b. bit (out ! k) b = (b < 7 \<and> stream_bit xs (p + 7 * k + b)))"

lemma stream_bit_at: "b < 8 \<Longrightarrow> stream_bit xs (8 * i + b) = bit (xs ! i) b"
proof -
  assume "b < 8"
  then have "(8 * i + b) div 8 = i" "(8 * i + b) mod 8 = b" by simp_all
  then show ?thesis by (simp add: stream_bit_def)
qed

text \<open>What the loop knows: \<open>rest\<close> is the start of the next septet.\<close>

definition unpacking :: "nat \<Rightarrow> u8 list \<Rightarrow> nat \<Rightarrow> nat \<Rightarrow> u8 \<Rightarrow> nat \<Rightarrow> u8 list \<Rightarrow> bool" where
  "unpacking p xs i bits rest pos out \<longleftrightarrow>
     8 * i + bits = p + 7 * pos + 7 \<and> 1 \<le> bits \<and> bits \<le> 7 \<and> (i \<noteq> 0 \<or> bits = 7) \<and> septets_at p xs pos out \<and>
     (\<forall>b. bit rest b = (b < 7 - bits \<and> stream_bit xs (p + 7 * pos + b)))"

lemma septets_snoc:
  assumes "septets_at p xs n out" "n < length out" "\<And>b. bit v b = (b < 7 \<and> stream_bit xs (p + 7 * n + b))"
  shows "septets_at p xs (n + 1) (out[n := v])"
  using assms by (auto simp: septets_at_def nth_list_update less_Suc_eq)

lemma put_octet_ok: "pos < length out \<Longrightarrow> put_octet out pos v = Returns (out[pos := v])"
  by (simp add: put_octet_def write_bytes_def upd_conv_take_nth_drop)

lemma unpack_octet:
  assumes "unpacking p xs i bits rest pos out"
  shows "bit (push_bit (7 - bits) (xs ! i AND mask bits) OR rest) b = (b < 7 \<and> stream_bit xs (p + 7 * pos + b))"
    "bit (drop_bit bits (xs ! i)) b = (b < 8 - bits \<and> stream_bit xs (p + 7 * (pos + 1) + b))"
proof -
  have u: "8 * i + bits = p + 7 * pos + 7" "1 \<le> bits" "bits \<le> 7" "\<And>b. bit rest b = (b < 7 - bits \<and> stream_bit xs (p + 7 * pos + b))"
    using assms by (auto simp: unpacking_def)
  have "stream_bit xs (p + 7 * pos + b) = bit (xs ! i) (b - (7 - bits))" if "7 - bits \<le> b" "b < 7"
  proof -
    have "p + 7 * pos + b = 8 * i + (b - (7 - bits))" using u(1,3) that by simp
    then show ?thesis using stream_bit_at [of "b - (7 - bits)" xs i] that by simp
  qed
  note e = this
  have w: "bit (push_bit (7 - bits) (xs ! i AND mask bits)) b = (7 - bits \<le> b \<and> b < 7 \<and> bit (xs ! i) (b - (7 - bits)))"
    using u(2,3) by (auto simp: bit_push_bit_iff bit_and_iff bit_mask_iff)
  show "bit (push_bit (7 - bits) (xs ! i AND mask bits) OR rest) b = (b < 7 \<and> stream_bit xs (p + 7 * pos + b))"
    using e unfolding bit_or_iff w u(4) by (cases "7 - bits \<le> b") auto
  have "stream_bit xs (p + 7 * (pos + 1) + b) = bit (xs ! i) (bits + b)" if "b < 8 - bits"
  proof -
    have "p + 7 * (pos + 1) + b = 8 * i + (bits + b)" "bits + b < 8" using u(1) that by simp_all
    then show ?thesis using stream_bit_at [of "bits + b" xs i] by (simp only:)
  qed
  then show "bit (drop_bit bits (xs ! i)) b = (b < 8 - bits \<and> stream_bit xs (p + 7 * (pos + 1) + b))"
    using u(2,3) bit_imp_le_length [of "xs ! i" "bits + b"] by (auto simp: bit_drop_bit_eq)
qed

text \<open>One round, which puts out a septet, and a second one when seven bits are left.\<close>

lemma unpack_round:
  assumes "unpacking p xs i bits rest pos out" "i < len" "len \<le> length xs" "pos + 1 < mx" "bits = 1 \<longrightarrow> pos + 1 < length out" "pos < length out"
  shows "\<exists>bits' rest' pos' out'. unpack_loop len mx xs i bits rest pos out = unpack_loop len mx xs (i + 1) bits' rest' pos' out' \<and>
    unpacking p xs (i + 1) bits' rest' pos' out' \<and> length out' = length out \<and> bits' = (if bits = 1 then 7 else bits - 1)"
proof -
  note step = unpack_loop.simps [of len mx xs i bits rest pos out] and o = unpack_octet [OF assms(1)]
  let ?v = "push_bit (7 - bits) (xs ! i AND mask bits) OR rest" and ?r = "drop_bit bits (xs ! i)"
  have u: "8 * i + bits = p + 7 * pos + 7" "1 \<le> bits" "bits \<le> 7" "i \<noteq> 0 \<or> bits = 7" "septets_at p xs pos out"
    using assms(1) by (simp_all add: unpacking_def)
  have s: "septets_at p xs (pos + 1) (out[pos := ?v])" using septets_snoc [OF u(5) assms(6)] o(1) by blast
  show ?thesis
  proof (cases "bits = 1")
    case True
    have "septets_at p xs (pos + 1 + 1) (out[pos := ?v, pos + 1 := ?r])"
    proof (rule septets_snoc [OF s])
      show "pos + 1 < length (out[pos := ?v])" using assms(5) True by simp
      show "bit ?r b = (b < 7 \<and> stream_bit xs (p + 7 * (pos + 1) + b))" for b using o(2) [of b] True by simp
    qed
    moreover have "unpack_loop len mx xs i bits rest pos out = unpack_loop len mx xs (i + 1) 7 0 (pos + 1 + 1) (out[pos := ?v, pos + 1 := ?r])"
      unfolding step using assms(2-6) u(3,4) True by (simp add: put_octet_ok Let_def)
    moreover have "8 * (i + 1) + 7 = p + 7 * (pos + 1 + 1) + 7" using u(1) True by simp
    ultimately show ?thesis using True
      by - (rule exI [of _ "7::nat"], rule exI [of _ "0::u8"], rule exI [of _ "pos + 1 + 1"], rule exI [of _ "out[pos := ?v, pos + 1 := ?r]"],
        simp add: unpacking_def)
  next
    case False
    have less: "1 \<le> bits - 1" "bits - 1 \<le> 7" using False u(2,3) by simp_all
    have "unpack_loop len mx xs i bits rest pos out = unpack_loop len mx xs (i + 1) (bits - 1) ?r (pos + 1) (out[pos := ?v])"
      unfolding step using assms(2-6) u(3,4) False by (simp add: put_octet_ok Let_def)
    moreover have "8 * (i + 1) + (bits - 1) = p + 7 * (pos + 1) + 7" "7 - (bits - 1) = 8 - bits" using u(1-3) False by simp_all
    ultimately show ?thesis using False u(2,3) s o(2) less
      by - (rule exI [of _ "bits - 1"], rule exI [of _ ?r], rule exI [of _ "pos + 1"], rule exI [of _ "out[pos := ?v]"],
        simp add: unpacking_def)
  qed
qed

end
