(* ===== verification/Gsm_Decoding.thy ===== *)
theory Gsm_Decoding
  imports Gsm_Bits
begin

text \<open>
  Decoding in one pass: the loop that keeps a mask and the rest of the last octet meets the septets
  of the octets in their order, and the counters cut a segment out of them.
\<close>

section \<open>The counters\<close>

lemma gsm_emit_fold:
  "snd (fold (gsm_emit count) vs (k, out)) =
    out @ map gsm_char_decode (take (nat (buffer_l k)) (drop (nat (septet_offset k)) (take (count - c k) vs)))"
proof (induction vs arbitrary: k out)
  case (Cons v vs)
  show ?case
  proof (cases "c k < count")
    case False
    then have "count - c k = 0" "count - (c k + 1) = 0" by simp_all
    then show ?thesis using Cons.IH [of "k\<lparr>c := c k + 1\<rparr>" out] False by (simp add: gsm_emit_def Let_def)
  next
    case True
    then have n: "count - c k = Suc (count - (c k + 1))" by simp
    show ?thesis
    proof (cases "septet_offset k \<le> 0")
      case False
      then have "nat (septet_offset k) = Suc (nat (septet_offset k - 1))" by simp
      then show ?thesis using Cons.IH [of "k\<lparr>c := c k + 1, septet_offset := septet_offset k - 1\<rparr>" out] False True
        by (simp add: gsm_emit_def Let_def n)
    next
      case skipped: True
      then have o: "nat (septet_offset k) = 0" "nat (septet_offset k - 1) = 0" by simp_all
      show ?thesis
      proof (cases "0 < buffer_l k")
        case True
        then have "nat (buffer_l k) = Suc (nat (buffer_l k - 1))" by simp
        then show ?thesis using Cons.IH [of "k\<lparr>c := c k + 1, septet_offset := septet_offset k - 1, buffer_l := buffer_l k - 1\<rparr>" "out @ [gsm_char_decode v]"]
            \<open>c k < count\<close> skipped True o by (simp add: gsm_emit_def Let_def n)
      next
        case False
        then have "nat (buffer_l k) = 0" "nat (buffer_l k - 1) = 0" by simp_all
        then show ?thesis using Cons.IH [of "k\<lparr>c := c k + 1, septet_offset := septet_offset k - 1, buffer_l := buffer_l k - 1\<rparr>" out]
            \<open>c k < count\<close> skipped False o by (simp add: gsm_emit_def Let_def n)
      qed
    qed
  qed
qed simp

section \<open>The loop\<close>

definition septet :: "u8 list \<Rightarrow> nat \<Rightarrow> u8" where
  "septet xs k = horner_sum of_bool 2 (map (\<lambda>b. stream_bit xs (7 * k + b)) [0..<7])"

lemma bit_septet: "bit (septet xs k) b \<longleftrightarrow> b < 7 \<and> stream_bit xs (7 * k + b)"
  by (auto simp: septet_def bit_horner_sum_bit_iff)

definition high :: "nat \<Rightarrow> u8" where
  "high l = push_bit (8 - l) (mask 8)"

lemma bit_high: "bit (high l) b \<longleftrightarrow> 8 - l \<le> b \<and> b < 8"
  by (auto simp: high_def bit_push_bit_iff bit_mask_iff)

lemma high_next: "l < 7 \<Longrightarrow> high l OR push_bit (6 - l) 2 = high (Suc l)"
proof (rule bit_word_eqI)
  fix b
  assume "l < 7" "b < LENGTH(8)"
  then have l: "l < 7" "b < 8" by simp_all
  have t: "bit (2::u8) k \<longleftrightarrow> k = 1" for k by (auto simp: bit_2_iff dest: bit_imp_le_length)
  have "bit (push_bit (6 - l) (2::u8)) b \<longleftrightarrow> 6 - l \<le> b \<and> b - (6 - l) = 1" using l(2) by (simp only: bit_push_bit_iff t) simp
  also have "\<dots> \<longleftrightarrow> b = 7 - l" using l(1) by linarith
  finally show "bit (high l OR push_bit (6 - l) 2) b = bit (high (Suc l)) b" using l unfolding bit_or_iff bit_high by linarith
qed

lemma decoded_octet:
  assumes "l < 7" "l = 0 \<or> n = xs ! (7 * q + l - 1) AND high l"
  shows "(ucast (push_bit l (ucast (xs ! (7 * q + l) AND NOT (high (Suc l))) :: c_int) + drop_bit (8 - l) (ucast n)) :: u8) = septet xs (8 * q + l)"
proof -
  define A where "A = (push_bit l (ucast (xs ! (7 * q + l) AND NOT (high (Suc l)))) :: c_int)"
  define B where "B = (drop_bit (8 - l) (ucast n) :: c_int)"
  have a: "bit A k \<longleftrightarrow> l \<le> k \<and> k < 7 \<and> bit (xs ! (7 * q + l)) (k - l)" for k
    unfolding A_def using assms(1) by (auto simp: bit_simps bit_high)
  have b: "bit B k \<longleftrightarrow> k < l \<and> bit (xs ! (7 * q + l - 1)) (8 - l + k)" for k
    unfolding B_def using assms by (auto simp: bit_simps bit_high dest: bit_imp_le_length)
  have "A AND B = 0" by (rule bit_word_eqI) (auto simp: bit_and_iff a b)
  then have sum: "A + B = A OR B" by (rule disjunctive_add_eq_or)
  have hi: "stream_bit xs (7 * (8 * q + l) + k) = bit (xs ! (7 * q + l)) (k - l)" if "l \<le> k" "k < 7" for k
  proof -
    have "8 * (7 * q + l) + (k - l) = 7 * (8 * q + l) + k" "k - l < 8" using that by simp_all
    then show ?thesis using stream_bit_at [of "k - l" xs "7 * q + l"] by (simp only:)
  qed
  have lo: "stream_bit xs (7 * (8 * q + l) + k) = bit (xs ! (7 * q + l - 1)) (8 - l + k)" if "k < l" for k
  proof -
    obtain j where j: "l = Suc j" using \<open>k < l\<close> by (cases l) simp_all
    have "8 * (7 * q + j) + (8 - l + k) = 7 * (8 * q + l) + k" "8 - l + k < 8" "7 * q + l - 1 = 7 * q + j"
      using that assms(1) j by simp_all
    then show ?thesis using stream_bit_at [of "8 - l + k" xs "7 * q + j"] by (simp only:)
  qed
  show ?thesis unfolding A_def [symmetric] B_def [symmetric] sum
  proof (rule bit_word_eqI)
    fix k
    assume k: "k < LENGTH(8)"
    have "bit (ucast (A OR B) :: u8) k \<longleftrightarrow> bit A k \<or> bit B k" using k by (simp add: bit_unsigned_iff bit_or_iff)
    also have "\<dots> \<longleftrightarrow> bit (septet xs (8 * q + l)) k"
      unfolding a b bit_septet using lo [of k] hi [of k] assms(1) by (cases "k < l") auto
    finally show "bit (ucast (A OR B) :: u8) k = bit (septet xs (8 * q + l)) k" .
  qed
qed

lemma decoded_rest: "drop_bit 1 (xs ! (7 * q + 6) AND high 7) = septet xs (8 * q + 7)"
proof (rule bit_word_eqI)
  fix k
  assume k: "k < LENGTH(8)"
  have "stream_bit xs (7 * (8 * q + 7) + k) = bit (xs ! (7 * q + 6)) (k + 1)" if "k < 7"
    using stream_bit_at [of "k + 1" xs "7 * q + 6"] that by (simp add: algebra_simps)
  then show "bit (drop_bit 1 (xs ! (7 * q + 6) AND high 7)) k = bit (septet xs (8 * q + 7)) k"
    using k by (auto simp: bit_drop_bit_eq bit_and_iff bit_high bit_septet dest: bit_imp_le_length)
qed

lemma upt_two: "Suc a < n \<Longrightarrow> [a..<n] = a # Suc a # [Suc (Suc a)..<n]"
  by (simp add: upt_conv_Cons)

lemma gsm_decode_run:
  assumes "length xs - (7 * q + l) = d" "7 * q + l \<le> length xs" "l < 7" "l = 0 \<or> n = xs ! (7 * q + l - 1) AND high l"
  shows "gsm_decode_loop count (drop (7 * q + l) xs) l n (high l) st =
    fold (gsm_emit count) (map (septet xs) [8 * q + l..<8 * length xs div 7]) st"
  using assms
proof (induction d arbitrary: q l n st)
  case 0
  then have e: "length xs = 7 * q + l" by simp
  then have "8 * length xs div 7 = 8 * q + l" using "0.prems"(3) by (intro div_nat_eqI) simp_all
  then show ?case using e by simp
next
  case (Suc d)
  let ?i = "7 * q + l" and ?k = "8 * q + l" and ?N = "8 * length xs div 7"
  have i: "?i < length xs" using Suc.prems(1) by simp
  let ?v = "xs ! ?i AND high (Suc l)"
  have one: "gsm_decode_loop count (drop ?i xs) l n (high l) st =
    (if Suc l = 7 then gsm_decode_loop count (drop (Suc ?i) xs) 0 ?v 0 (gsm_emit count (drop_bit 1 ?v) (gsm_emit count (septet xs ?k) st))
     else gsm_decode_loop count (drop (Suc ?i) xs) (Suc l) ?v (high (Suc l)) (gsm_emit count (septet xs ?k) st))"
    unfolding Cons_nth_drop_Suc [OF i, symmetric] gsm_decode_loop.simps Let_def high_next [OF Suc.prems(3)] decoded_octet [OF Suc.prems(3,4)]
    by simp
  have more: "?k < ?N" using i Suc.prems(3) by (simp add: less_eq_div_iff_mult_less_eq Suc_le_eq [symmetric])
  show ?case
  proof (cases "l = 6")
    case False
    then have l: "Suc l < 7" using Suc.prems(3) by simp
    have "length xs - (7 * q + Suc l) = d" "7 * q + Suc l \<le> length xs" using Suc.prems(1) i by simp_all
    from Suc.IH [OF this l, of ?v "gsm_emit count (septet xs ?k) st"] show ?thesis unfolding one using l more by (simp add: upt_conv_Cons)
  next
    case True
    have "length xs - (7 * (q + 1) + 0) = d" "7 * (q + 1) + 0 \<le> length xs" "(0::nat) < 7" using Suc.prems(1) i True by simp_all
    from Suc.IH [OF this, of ?v] have rest: "gsm_decode_loop count (drop (Suc ?i) xs) 0 ?v 0 st' =
      fold (gsm_emit count) (map (septet xs) [8 * q + 8..<?N]) st'" for st'
      using True by (simp add: high_def add.commute)
    have r: "drop_bit 1 ?v = septet xs (8 * q + 7)" using decoded_rest [of xs q] True by simp
    have "8 * q + 7 < ?N" using i True by (simp add: less_eq_div_iff_mult_less_eq Suc_le_eq [symmetric])
    moreover have "Suc (8 * q + 6) = 8 * q + 7" "Suc (8 * q + 7) = 8 * q + 8" by simp_all
    ultimately have "[8 * q + 6..<?N] = (8 * q + 6) # (8 * q + 7) # [8 * q + 8..<?N]" using upt_two [of "8 * q + 6" ?N] by (simp only:)
    then show ?thesis unfolding one rest using True r by simp
  qed
qed

text \<open>The characters \<open>decode\<close> puts out.\<close>

lemma gsm_decode_septets:
  assumes "len \<le> length xs"
  shows "gsm_decode (Some xs) len count True sz off =
    Returns (0, map gsm_char_decode (take (sz div 2) (drop (nat off) (take count (map (septet (take len xs)) [0..<8 * len div 7])))))"
proof -
  have l: "length (take len xs) = len" using assms by simp
  have "high 0 = 0" by (simp add: high_def)
  then show ?thesis
    using assms gsm_decode_run [of "take len xs" 0 0 len 0 count "(\<lparr>c = 0, septet_offset = off, buffer_l = int (sz div 2)\<rparr>, [])"] l
    by (simp add: gsm_decode_def read_bytes_def gsm_emit_fold)
qed

lemma septet_unpacked:
  assumes "septets_at 0 xs n out" "k < n" "7 * n \<le> 8 * len"
  shows "septet (take len xs) k = out ! k"
proof (rule bit_word_eqI)
  fix b
  assume "b < LENGTH(8)"
  have "stream_bit (take len xs) (7 * k + b) = stream_bit xs (7 * k + b)" if "b < 7"
  proof -
    have "7 * k + b < 8 * len" using that assms(2,3) by simp
    then have "(7 * k + b) div 8 < len" by (simp add: less_mult_imp_div_less mult.commute)
    then show ?thesis by (simp add: stream_bit_def)
  qed
  then show "bit (septet (take len xs) k) b = bit (out ! k) b" using assms(1,2) by (auto simp: bit_septet septets_at_def)
qed

end
