(* ===== verification/Gsm_Properties.thy ===== *)
theory Gsm_Properties
  imports Gsm_Decoding
begin

text \<open>
  What the text functions promise: packing puts the septets one after the other into the bits of
  the octets, unpacking and decoding take them out, and digits survive their coding.
\<close>

section \<open>Runs of the unpacking loop\<close>

lemma unpack_run:
  assumes "unpacking p xs i bits rest pos out" "i \<le> n" "n \<le> len" "len \<le> length xs" "8 * n \<le> p + 7 * mx" "mx \<le> length out"
  shows "\<exists>bits' rest' pos' out'. unpack_loop len mx xs i bits rest pos out = unpack_loop len mx xs n bits' rest' pos' out' \<and>
    unpacking p xs n bits' rest' pos' out' \<and> length out' = length out"
  using assms
proof (induction "n - i" arbitrary: i bits rest pos out)
  case 0
  then have "i = n" by simp
  then show ?case using "0.prems"(1) by blast
next
  case (Suc k)
  have u: "8 * i + bits = p + 7 * pos + 7" "bits \<le> 7" using Suc.prems(1) by (simp_all add: unpacking_def)
  have i: "i < n" "k = n - (i + 1)" "i + 1 \<le> n" "i < len" using Suc.hyps(2) Suc.prems(2,3) by simp_all
  have "8 * (i + 1) \<le> p + 7 * mx" using i(3) Suc.prems(5) by simp
  then have room: "pos + 1 < mx" using u by simp
  then obtain bits' rest' pos' out' where r: "unpack_loop len mx xs i bits rest pos out = unpack_loop len mx xs (i + 1) bits' rest' pos' out'"
    "unpacking p xs (i + 1) bits' rest' pos' out'" "length out' = length out"
    using unpack_round [OF Suc.prems(1) i(4) Suc.prems(4) room] Suc.prems(6) by auto
  have "mx \<le> length out'" using r(3) Suc.prems(6) by simp
  from Suc.hyps(1) [OF i(2) r(2) i(3) Suc.prems(3-5) this] show ?case unfolding r(1,3) .
qed

text \<open>The rounds that end the loop: the input is used up, the output is full, or it is full and the next
  septet starts an octet, which the loop does not see.\<close>

lemma unpack_end:
  assumes "unpacking p xs len bits rest pos out"
  shows "unpack_loop len mx xs len bits rest pos out = Returns (pos, out)" "pos = (8 * len - p) div 7"
proof -
  show "unpack_loop len mx xs len bits rest pos out = Returns (pos, out)"
    unfolding unpack_loop.simps [of len mx xs len bits rest pos out] by simp
  have "8 * len + bits = p + 7 * pos + 7" "1 \<le> bits" "bits \<le> 7" using assms by (simp_all add: unpacking_def)
  then have "(8 * len - p) div 7 = pos" by (intro div_nat_eqI) simp_all
  then show "pos = (8 * len - p) div 7" ..
qed

lemma unpack_full:
  assumes "unpacking p xs i bits rest pos out" "i < len" "len \<le> length xs" "pos + 1 = mx" "mx \<le> length out"
  shows "\<exists>out'. unpack_loop len mx xs i bits rest pos out = Returns (mx, out') \<and> septets_at p xs mx out' \<and> length out' = length out"
proof -
  let ?v = "push_bit (7 - bits) (xs ! i AND mask bits) OR rest"
  have u: "bits \<le> 7" "i \<noteq> 0 \<or> bits = 7" "septets_at p xs pos out" using assms(1) by (simp_all add: unpacking_def)
  have pos: "pos < length out" using assms(4,5) by simp
  have "septets_at p xs (pos + 1) (out[pos := ?v])" using septets_snoc [OF u(3) pos] unpack_octet(1) [OF assms(1)] by blast
  moreover have "unpack_loop len mx xs i bits rest pos out = Returns (mx, out[pos := ?v])"
    unfolding unpack_loop.simps [of len mx xs i bits rest pos out] using assms(2-4) u(1,2) pos by (simp add: put_octet_ok Let_def)
  ultimately show ?thesis using assms(4) by auto
qed

lemma unpack_overflow:
  assumes "i < len" "len \<le> length xs" "length out = pos"
  shows "unpack_loop len mx xs i bits rest pos out = Undefined"
  unfolding unpack_loop.simps [of len mx xs i bits rest pos out] using assms
  by (simp add: put_octet_def write_bytes_def guard_def)

text \<open>The first round, when the first septet is behind a header.\<close>

lemma unpack_first:
  assumes "p \<le> 6" "p \<noteq> 0" "0 < len" "len \<le> length xs" "0 < mx" "mx \<le> length out"
  shows "\<exists>bits rest pos out'. unpack_loop len mx xs 0 p 0 0 out = unpack_loop len mx xs 1 bits rest pos out' \<and>
    unpacking p xs 1 bits rest pos out' \<and> length out' = length out"
proof -
  let ?out = "out[0 := push_bit (7 - p) (xs ! 0 AND mask p) OR 0]" and ?r = "drop_bit p (xs ! 0)"
  have r: "bit ?r b = (b < 8 - p \<and> stream_bit xs (p + b))" for b
    using assms(1) stream_bit_at [of "p + b" xs 0] bit_imp_le_length [of "xs ! 0" "p + b"] by (auto simp: bit_drop_bit_eq)
  have ne: "out \<noteq> []" using less_le_trans [OF assms(5,6)] by simp
  have ok: "byte_at xs 0 = Returns (xs ! 0)" "put_octet out 0 v = Returns (out[0 := v])" "put_octet (out[0 := w]) 0 v = Returns (out[0 := v])" for v w
  proof -
    have "0 < length xs" "0 < length out" using less_le_trans [OF assms(3,4)] less_le_trans [OF assms(5,6)] by simp_all
    then show "byte_at xs 0 = Returns (xs ! 0)" "put_octet out 0 v = Returns (out[0 := v])" "put_octet (out[0 := w]) 0 v = Returns (out[0 := v])"
      by (simp_all add: put_octet_ok)
  qed
  have step: "unpack_loop len mx xs 0 p 0 0 out =
    (if p = 1 then unpack_loop len mx xs 1 7 0 1 (?out[0 := ?r]) else unpack_loop len mx xs 1 (p - 1) ?r 0 ?out)"
    unfolding unpack_loop.simps [of len mx xs 0 p 0 0 out] using assms by (simp add: ok Let_def)
  show ?thesis
  proof (cases "p = 1")
    case True
    have "septets_at p xs 0 ?out" by (simp add: septets_at_def)
    from septets_snoc [OF this, of ?r] have "septets_at p xs 1 (?out[0 := ?r])" using ne r True by simp
    then show ?thesis unfolding step using True
      by - (rule exI [of _ "7::nat"], rule exI [of _ "0::u8"], rule exI [of _ "1::nat"], rule exI [of _ "?out[0 := ?r]"], simp add: unpacking_def)
  next
    case False
    then have "7 - (p - 1) = 8 - p" "1 \<le> p - 1" "p - 1 \<le> 7" using assms(1,2) by simp_all
    then show ?thesis unfolding step using False r
      by - (rule exI [of _ "p - 1"], rule exI [of _ ?r], rule exI [of _ "0::nat"], rule exI [of _ ?out], simp add: unpacking_def septets_at_def)
  qed
qed

text \<open>The state after the first round.\<close>

lemma unpack_start:
  assumes "p \<le> 6" "0 < len" "len \<le> length xs" "0 < mx" "mx \<le> length out"
  shows "\<exists>i bits rest pos out'. i \<le> 1 \<and> 8 * i \<le> p + 7 \<and> gsm_unpack p len mx xs out = unpack_loop len mx xs i bits rest pos out' \<and>
    unpacking p xs i bits rest pos out' \<and> length out' = length out"
proof (cases "p = 0")
  case True
  have "unpacking p xs 0 7 0 0 out" using True by (simp add: unpacking_def septets_at_def)
  then show ?thesis using True unfolding gsm_unpack_def
    by - (rule exI [of _ "0::nat"], rule exI [of _ "7::nat"], rule exI [of _ "0::u8"], rule exI [of _ "0::nat"], rule exI [of _ out], simp)
next
  case False
  then show ?thesis using unpack_first [OF assms(1) False assms(2-5)] unfolding gsm_unpack_def
    by - (rule exI [of _ "1::nat"], simp)
qed

section \<open>What unpacking gives\<close>

lemma unpack_fits:
  assumes "p \<le> 6" "len \<le> length xs" "mx \<le> length out" "0 < mx" "8 * len \<le> p + 7 * mx"
  shows "\<exists>out'. gsm_unpack p len mx xs out = Returns ((8 * len - p) div 7, out') \<and> septets_at p xs ((8 * len - p) div 7) out' \<and>
    length out' = length out"
proof (cases "len = 0")
  case True
  then show ?thesis by (simp add: gsm_unpack_def unpack_loop.simps septets_at_def)
next
  case False
  then have "0 < len" by simp
  from unpack_start [OF assms(1) this assms(2,4,3)] obtain i bits rest pos out1 where
    s: "i \<le> 1" "gsm_unpack p len mx xs out = unpack_loop len mx xs i bits rest pos out1" "unpacking p xs i bits rest pos out1" "length out1 = length out"
    by blast
  have "i \<le> len" "mx \<le> length out1" using s(1,4) False assms(3) by simp_all
  from unpack_run [OF s(3) this(1) order_refl assms(2,5) this(2)] obtain bits2 rest2 pos2 out2 where
    r: "gsm_unpack p len mx xs out = unpack_loop len mx xs len bits2 rest2 pos2 out2" "unpacking p xs len bits2 rest2 pos2 out2" "length out2 = length out"
    using s(2,4) by auto
  then show ?thesis using unpack_end [OF r(2)] by (simp add: unpacking_def)
qed

lemma unpack_cut:
  assumes "p \<le> 6" "len \<le> length xs" "mx \<le> length out" "0 < mx" "p + 7 * mx < 8 * len"
  obtains n bits rest pos out' where "n < len" "8 * n \<le> p + 7 * mx" "p + 7 * mx < 8 * n + 8" "gsm_unpack p len mx xs out = unpack_loop len mx xs n bits rest pos out'"
    "unpacking p xs n bits rest pos out'" "length out' = length out"
proof -
  let ?n = "(p + 7 * mx) div 8"
  have n: "?n < len" "8 * ?n \<le> p + 7 * mx" "p + 7 * mx < 8 * ?n + 8" using assms(5) by (simp_all add: less_mult_imp_div_less mult.commute)
  have "0 < len" using n(1) by simp
  from unpack_start [OF assms(1) this assms(2,4,3)] obtain i bits rest pos out1 where
    s: "8 * i \<le> p + 7" "gsm_unpack p len mx xs out = unpack_loop len mx xs i bits rest pos out1" "unpacking p xs i bits rest pos out1" "length out1 = length out"
    by blast
  have "i \<le> ?n" using s(1) assms(4) n(3) by simp
  moreover have "mx \<le> length out1" "?n \<le> len" using s(4) assms(3) n(1) by simp_all
  ultimately obtain bits2 rest2 pos2 out2 where
    "gsm_unpack p len mx xs out = unpack_loop len mx xs ?n bits2 rest2 pos2 out2" "unpacking p xs ?n bits2 rest2 pos2 out2" "length out2 = length out"
    using unpack_run [OF s(3) _ _ assms(2) n(2)] s(2,4) by auto
  with n that show thesis by blast
qed

lemma gsm_unpack_fills:
  assumes "p \<le> 6" "len \<le> length xs" "mx \<le> length out" "0 < mx" "p + 7 * mx < 8 * len" "\<not> 8 dvd p + 7 * mx"
  shows "\<exists>out'. gsm_unpack p len mx xs out = Returns (mx, out') \<and> septets_at p xs mx out' \<and> length out' = length out"
proof -
  obtain n bits rest pos out' where n: "n < len" "8 * n \<le> p + 7 * mx" "p + 7 * mx < 8 * n + 8" "gsm_unpack p len mx xs out = unpack_loop len mx xs n bits rest pos out'"
    "unpacking p xs n bits rest pos out'" "length out' = length out"
    by (rule unpack_cut [OF assms(1-5)])
  have "8 * n \<noteq> p + 7 * mx" using assms(6) by (metis dvd_triv_left)
  moreover have "8 * n + bits = p + 7 * pos + 7" "1 \<le> bits" "bits \<le> 7" using n(5) by (simp_all add: unpacking_def)
  ultimately have "pos + 1 = mx" using n(2,3) by simp
  then show ?thesis using unpack_full [OF n(5,1) assms(2)] n(4,6) assms(3) by simp
qed

lemma gsm_unpack_overflow:
  assumes "p \<le> 6" "len \<le> length xs" "0 < length out" "p + 7 * length out < 8 * len" "8 dvd p + 7 * length out"
  shows "gsm_unpack p len (length out) xs out = Undefined"
proof -
  obtain n bits rest pos out' where n: "n < len" "8 * n \<le> p + 7 * length out" "p + 7 * length out < 8 * n + 8"
    "gsm_unpack p len (length out) xs out = unpack_loop len (length out) xs n bits rest pos out'"
    "unpacking p xs n bits rest pos out'" "length out' = length out"
    by (rule unpack_cut [OF assms(1,2) order_refl assms(3,4)])
  have "8 * n = p + 7 * length out" using assms(5) n(2,3) by (elim dvdE) simp
  moreover have "8 * n + bits = p + 7 * pos + 7" "1 \<le> bits" "bits \<le> 7" using n(5) by (simp_all add: unpacking_def)
  ultimately have "length out' = pos" using n(6) by simp
  then show ?thesis unfolding n(4) by (rule unpack_overflow [OF n(1) assms(2)])
qed

text \<open>Padding 7 is no padding, and for more than 7 bits of it the first shift is by a negative number.\<close>

lemma unpack_padding_seven: "p \<le> 7 \<Longrightarrow> gsm_unpack p len mx xs out = gsm_unpack (p mod 7) len mx xs out"
  by (cases "p = 7") (simp_all add: gsm_unpack_def)

lemma unpack_none: "gsm_unpack p 0 mx xs out = Returns (0, out)"
  by (simp add: gsm_unpack_def unpack_loop.simps)

lemma unpack_undefined:
  assumes "0 < len" "len \<le> length xs" "7 < p \<or> out = []"
  shows "gsm_unpack p len mx xs out = Undefined"
proof -
  have "byte_at xs 0 = Returns (xs ! 0)" using less_le_trans [OF assms(1,2)] by simp
  then show ?thesis using assms(1,3) unfolding gsm_unpack_def unpack_loop.simps [of len mx xs 0]
    by (auto simp: put_octet_def write_bytes_def guard_def)
qed

lemma unpack_within:
  assumes "p \<le> 6" "len \<le> length xs" "0 < length out"
  shows "(p + 7 * length out < 8 * len \<and> 8 dvd p + 7 * length out \<longrightarrow> gsm_unpack p len (length out) xs out = Undefined) \<and>
    (8 * len \<le> p + 7 * length out \<or> \<not> 8 dvd p + 7 * length out \<longrightarrow>
      (\<exists>out'. gsm_unpack p len (length out) xs out = Returns (min (length out) ((8 * len - p) div 7), out') \<and>
        septets_at p xs (min (length out) ((8 * len - p) div 7)) out' \<and> length out' = length out))"
proof (cases "8 * len \<le> p + 7 * length out")
  case True
  then have "(8 * len - p) div 7 \<le> length out" using div_le_mono [of "8 * len - p" "7 * length out" 7] by simp
  then have "min (length out) ((8 * len - p) div 7) = (8 * len - p) div 7" by simp
  then show ?thesis using unpack_fits [OF assms(1,2) order_refl assms(3) True] True by simp
next
  case False
  then have more: "p + 7 * length out < 8 * len" by simp
  then have "length out \<le> (8 * len - p) div 7" using div_le_mono [of "7 * length out" "8 * len - p" 7] by simp
  then have "min (length out) ((8 * len - p) div 7) = length out" by simp
  then show ?thesis using gsm_unpack_fills [OF assms(1,2) order_refl assms(3) more] gsm_unpack_overflow [OF assms(1-3) more] False by auto
qed

text \<open>
  C18. \<open>unpack\<close>, told the size of its output, stays inside it and returns the number of septets it put
  out, which are those of the input, as many as fit, in all cases but these, in which it is
  undefined: there is input but the output is empty; the output ends where a septet ends with an
  octet and more input follows, and one octet is written behind the output; there is input and
  the padding is more than 7 bits. Padding 7 is taken as none. Without input nothing is written.
\<close>

theorem gsm_unpack_bounds:
  assumes "len \<le> length xs"
  shows "(len = 0 \<longrightarrow> gsm_unpack p len (length out) xs out = Returns (0, out)) \<and>
    (0 < len \<and> (7 < p \<or> out = [] \<or> p mod 7 + 7 * length out < 8 * len \<and> 8 dvd p mod 7 + 7 * length out) \<longrightarrow>
      gsm_unpack p len (length out) xs out = Undefined) \<and>
    (p \<le> 7 \<and> out \<noteq> [] \<and> (8 * len \<le> p mod 7 + 7 * length out \<or> \<not> 8 dvd p mod 7 + 7 * length out) \<longrightarrow>
      (\<exists>out'. gsm_unpack p len (length out) xs out = Returns (min (length out) ((8 * len - p mod 7) div 7), out') \<and>
        septets_at (p mod 7) xs (min (length out) ((8 * len - p mod 7) div 7)) out' \<and> length out' = length out))"
proof (intro conjI impI)
  have six: "p mod 7 \<le> 6" using mod_less_divisor [of 7 p] by simp
  show "gsm_unpack p len (length out) xs out = Returns (0, out)" if "len = 0" using that by (simp add: unpack_none)
  show "gsm_unpack p len (length out) xs out = Undefined"
    if u: "0 < len \<and> (7 < p \<or> out = [] \<or> p mod 7 + 7 * length out < 8 * len \<and> 8 dvd p mod 7 + 7 * length out)"
  proof (cases "7 < p \<or> out = []")
    case True
    then show ?thesis using unpack_undefined [OF _ assms] u by blast
  next
    case False
    then show ?thesis using unpack_within [OF six assms, of out] unpack_padding_seven [of p] u by simp
  qed
  show "\<exists>out'. gsm_unpack p len (length out) xs out = Returns (min (length out) ((8 * len - p mod 7) div 7), out') \<and>
      septets_at (p mod 7) xs (min (length out) ((8 * len - p mod 7) div 7)) out' \<and> length out' = length out"
    if d: "p \<le> 7 \<and> out \<noteq> [] \<and> (8 * len \<le> p mod 7 + 7 * length out \<or> \<not> 8 dvd p mod 7 + 7 * length out)"
    using unpack_within [OF six assms, of out] unpack_padding_seven [of p] d by simp
qed

lemma gsm_unpack_bounds_witness:
  "gsm_unpack 0 8 8 (replicate 8 0) (replicate 8 0) = Undefined \<and> gsm_unpack 3 1 0 [1] [] = Undefined \<and>
   gsm_unpack 8 1 1 [1] [0] = Undefined \<and> (\<exists>out'. gsm_unpack 0 8 9 (replicate 8 0) (replicate 9 0) = Returns (9, out'))"
  using gsm_unpack_bounds [of 8 "replicate 8 0" 0 "replicate 8 0"] gsm_unpack_bounds [of 8 "replicate 8 0" 0 "replicate 9 0"]
    gsm_unpack_bounds [of 1 "[1]" 3 "[]"] gsm_unpack_bounds [of 1 "[1]" 8 "[0]"] by auto

section \<open>Packing and unpacking\<close>

lemma packed_stream: "packed p data out \<Longrightarrow> k < 8 * length out \<Longrightarrow> stream_bit out k = packed_bit p data k"
  unfolding packed_def stream_bit_def by (metis div_mult_mod_eq less_mult_imp_div_less mod_less_divisor mult.commute zero_less_numeral)

lemma septets_packed:
  assumes "packed p data enc" "septets_at p enc n out" "k < n" "p + 7 * n \<le> 8 * length enc"
  shows "out ! k = (if k < length data then data ! k AND 0x7f else 0)"
proof (rule bit_word_eqI)
  fix b
  assume "b < LENGTH(8)"
  have "bit (out ! k) b \<longleftrightarrow> b < 7 \<and> stream_bit enc (p + 7 * k + b)" using assms(2,3) by (simp add: septets_at_def)
  also have "\<dots> \<longleftrightarrow> b < 7 \<and> k < length data \<and> bit (data ! k) b"
  proof (cases "b < 7")
    case True
    have "p + 7 * k + b < 8 * length enc" using True assms(3,4) by simp
    then show ?thesis using packed_stream [OF assms(1)] packed_bit_at [OF refl True] by simp
  qed simp
  finally show "bit (out ! k) b = bit (if k < length data then data ! k AND 0x7f else 0) b" by (auto simp: bit_7f)
qed

text \<open>
  C17. What is packed behind a header that leaves \<open>p\<close> bits is unpacked to the same septets, the low seven
  bits of each \<open>char\<close>. If seven bits of the last octet are left, a further septet of zero is put
  out, the code of the at sign.
\<close>

theorem gsm_text_roundtrip:
  assumes "p \<le> 6" "p = 0 \<or> data \<noteq> []" "(p + 7 * length data + 7) div 8 \<le> sz" "length data < length out"
  shows "\<exists>enc out'. gsm_pack data (length data) p sz = Returns (0, enc) \<and> length enc = (p + 7 * length data + 7) div 8 \<and>
    gsm_unpack p (length enc) (length out) enc out =
      Returns (length data + (if 8 dvd p + 7 * (length data + 1) then 1 else 0), out') \<and>
    take (length data) out' = map (\<lambda>x. x AND 0x7f) data \<and> (8 dvd p + 7 * (length data + 1) \<longrightarrow> out' ! length data = 0)"
proof -
  let ?n = "length data" and ?N = "length data + (if 8 dvd p + 7 * (length data + 1) then 1 else 0)"
  have p7: "p \<le> 7" using assms(1) by simp
  obtain enc where e: "gsm_pack data ?n p sz = Returns (0, enc)" "packed p data enc" "length enc = (p + 7 * ?n + 7) div 8"
    using gsm_pack_ok [OF p7 assms(2,3)] by blast
  have l: "p + 7 * ?n \<le> 8 * length enc" "8 * length enc \<le> p + 7 * ?n + 7" using octets_enough [of "p + 7 * ?n" "length enc"] e(3) by simp_all
  have N: "(8 * length enc - p) div 7 = ?N" "p + 7 * ?N \<le> 8 * length enc"
  proof -
    have "8 * length enc = p + 7 * ?n + 7" if "8 dvd p + 7 * (?n + 1)"
      using that unfolding e(3) by (intro dvd_mult_div_cancel) (simp add: algebra_simps)
    then show ge: "p + 7 * ?N \<le> 8 * length enc" using l by auto
    have "8 * length enc < p + 7 * ?N + 7"
    proof (cases "8 dvd p + 7 * (?n + 1)")
      case False
      then have "8 * length enc \<noteq> p + 7 * (?n + 1)" by (metis dvd_triv_left)
      then show ?thesis using l(2) False by simp
    qed (use l(2) in simp)
    then show "(8 * length enc - p) div 7 = ?N" using ge by (intro div_nat_eqI) simp_all
  qed
  have "8 * length enc \<le> p + 7 * length out" "0 < length out" using l(2) assms(4) by linarith+
  from unpack_fits [OF assms(1) order_refl order_refl this(2,1)] N(1) obtain out' where
    o: "gsm_unpack p (length enc) (length out) enc out = Returns (?N, out')" "septets_at p enc ?N out'" "length out' = length out"
    by auto
  have s: "out' ! k = (if k < ?n then data ! k AND 0x7f else 0)" if "k < ?N" for k by (rule septets_packed [OF e(2) o(2) that N(2)])
  have "take ?n out' = map (\<lambda>x. x AND 0x7f) data" using assms(4) o(3) s by (intro nth_equalityI) simp_all
  moreover have "8 dvd p + 7 * (?n + 1) \<longrightarrow> out' ! ?n = 0" using s [of ?n] by simp
  ultimately show ?thesis using e(1,3) o(1) by blast
qed

lemma gsm_text_roundtrip_witness:
  "(\<exists>enc out'. gsm_pack [0x48, 0x69] 2 1 140 = Returns (0, enc) \<and> length enc = 2 \<and>
     gsm_unpack 1 2 10 enc (replicate 10 0) = Returns (2, out') \<and> take 2 out' = [0x48, 0x69]) \<and>
   (\<exists>enc out'. gsm_pack (replicate 7 0x41) 7 0 140 = Returns (0, enc) \<and> length enc = 7 \<and>
     gsm_unpack 0 7 10 enc (replicate 10 0) = Returns (8, out') \<and> take 7 out' = replicate 7 0x41 \<and> out' ! 7 = 0)"
proof
  show "\<exists>enc out'. gsm_pack [0x48, 0x69] 2 1 140 = Returns (0, enc) \<and> length enc = 2 \<and>
     gsm_unpack 1 2 10 enc (replicate 10 0) = Returns (2, out') \<and> take 2 out' = [0x48, 0x69]"
    using gsm_text_roundtrip [of 1 "[0x48, 0x69]" 140 "replicate 10 0"] by (auto simp flip: numeral_2_eq_2)
  show "\<exists>enc out'. gsm_pack (replicate 7 0x41) 7 0 140 = Returns (0, enc) \<and> length enc = 7 \<and>
     gsm_unpack 0 7 10 enc (replicate 10 0) = Returns (8, out') \<and> take 7 out' = replicate 7 0x41 \<and> out' ! 7 = 0"
    using gsm_text_roundtrip [of 0 "replicate 7 0x41" 140 "replicate 10 0"] by auto
qed

section \<open>Decoding\<close>

text \<open>
  C19. \<open>decode\<close>, which works in one pass with masks and counters, gives the characters of what \<open>unpack\<close> puts
  out: those of the first \<open>septet_count\<close> septets, without the first \<open>septet_offset\<close>, as many as the
  output holds.
\<close>

theorem gsm_decode_unpack:
  assumes "len \<le> length xs" "0 < length out" "8 * len \<le> 7 * length out"
  shows "\<exists>out'. gsm_unpack 0 len (length out) xs out = Returns (8 * len div 7, out') \<and>
    gsm_decode (Some xs) len count True sz off =
      Returns (0, map gsm_char_decode (take (sz div 2) (drop (nat off) (take count (take (8 * len div 7) out')))))"
proof -
  have N: "7 * (8 * len div 7) \<le> 8 * len" by simp
  have "8 * len \<le> 0 + 7 * length out" using assms(3) by simp
  from unpack_fits [OF _ assms(1) order_refl assms(2) this] obtain out' where
    o: "gsm_unpack 0 len (length out) xs out = Returns (8 * len div 7, out')" "septets_at 0 xs (8 * len div 7) out'" "length out' = length out"
    by auto
  have "8 * len div 7 \<le> length out'" using assms(3) o(3) by (simp add: div_le_mono [of "8 * len" "7 * length out" 7, simplified])
  then have "map (septet (take len xs)) [0..<8 * len div 7] = take (8 * len div 7) out'"
    using septet_unpacked [OF o(2) _ N] by (intro nth_equalityI) simp_all
  then show ?thesis using o(1) gsm_decode_septets [OF assms(1)] by auto
qed

lemma gsm_decode_unpack_witness:
  "\<exists>out'. gsm_unpack 0 2 (length [0, 0, 0 :: u8]) [0xc8, 0x34] [0, 0, 0] = Returns (2, out') \<and>
    gsm_decode (Some [0xc8, 0x34]) 2 2 True 8 1 = Returns (0, map gsm_char_decode (take 4 (drop 1 (take 2 out'))))"
  using gsm_decode_unpack [of 2 "[0xc8, 0x34]" "[0, 0, 0]" 2 8 1] by (simp add: numeral_3_eq_3)

section \<open>Digits\<close>

text \<open>The digits that have a code of their own: a filler has none.\<close>

definition tbcd_digit :: "u8 \<Rightarrow> bool" where
  "tbcd_digit v \<longleftrightarrow> v \<in> {0x30, 0x31, 0x32, 0x33, 0x34, 0x35, 0x36, 0x37, 0x38, 0x39, 0x2a, 0x23, 0x61, 0x62, 0x63}"

lemma tbcd_digit_code:
  assumes "tbcd_digit v"
  shows "tbcd_decode (tbcd_encode v) = v" "v \<noteq> 0xff" "tbcd_encode v AND mask 4 = tbcd_encode v"
  using assms unfolding tbcd_digit_def
  by (elim insertE emptyE; simp add: tbcd_encode_def tbcd_decode_def mask_eq_exp_minus_1)+

lemma tbcd_nibbles:
  assumes "a AND mask 4 = a" "b AND mask 4 = b"
  shows "(push_bit 4 b OR a) AND (0x0f::u8) = a" "drop_bit 4 ((push_bit 4 b OR a) AND (0xf0::u8)) = b"
proof -
  have m: "(0x0f::u8) = mask 4" "(0xf0::u8) = push_bit 4 (mask 4)" by (simp_all add: mask_eq_exp_minus_1)
  have s: "bit a k \<Longrightarrow> k < 4" "bit b k \<Longrightarrow> k < 4" for k
    using arg_cong [OF assms(1), of "\<lambda>w. bit w k"] arg_cong [OF assms(2), of "\<lambda>w. bit w k"] by (auto simp: bit_and_iff bit_mask_iff)
  show "(push_bit 4 b OR a) AND 0x0f = a" unfolding m(1)
    by (rule bit_word_eqI) (auto simp: bit_and_iff bit_or_iff bit_push_bit_iff bit_mask_iff dest: s)
  show "drop_bit 4 ((push_bit 4 b OR a) AND 0xf0) = b" unfolding m(2)
    by (rule bit_word_eqI) (auto simp: bit_drop_bit_eq bit_and_iff bit_or_iff bit_push_bit_iff bit_mask_iff dest: s)
qed

lemma tbcd_pair:
  assumes "tbcd_digit x" "tbcd_digit y"
  shows "tbcd_digits ((push_bit 4 (tbcd_encode y) OR tbcd_encode x) # os) = (let (stop, ds) = tbcd_digits os in (stop, x # y # ds))"
  by (simp add: Let_def tbcd_nibbles tbcd_digit_code assms)

lemma tbcd_last:
  assumes "tbcd_digit x"
  shows "tbcd_digits [0xf0 OR tbcd_encode x] = (True, [x])"
proof -
  have "push_bit 4 15 = (0xf0::u8)" "(15::u8) AND mask 4 = 15" by (simp_all add: mask_eq_exp_minus_1)
  then have n: "(0xf0 OR tbcd_encode x) AND 0x0f = tbcd_encode x" "drop_bit 4 ((0xf0 OR tbcd_encode x) AND 0xf0) = 15"
    using tbcd_nibbles [OF tbcd_digit_code(3) [OF assms], of 15] by (simp_all only:)
  show ?thesis unfolding tbcd_digits.simps Let_def n using tbcd_digit_code(1,2) [OF assms] by (simp add: tbcd_decode_def [of 15])
qed

lemma tbcd_digits_octets: "list_all tbcd_digit ds \<Longrightarrow> tbcd_digits (tbcd_octets ds) = (odd (length ds), ds)"
proof (induction ds rule: tbcd_octets.induct)
  case (2 x)
  then show ?case using tbcd_last [of x] by (simp del: tbcd_digits.simps)
next
  case (3 x y xs)
  then show ?case using tbcd_pair [of x y "tbcd_octets xs"] by simp
qed simp

lemma length_tbcd_octets: "length (tbcd_octets ds) = (length ds + 1) div 2"
  by (induction ds rule: tbcd_octets.induct) simp_all

text \<open>
  C40. Digits are decoded to themselves from what they are encoded to. With \<open>skip_last\<close> the last digit is
  left out, but only of an even number: an odd one ends with a filler, before which the code stops.
\<close>

theorem tbcd_roundtrip:
  assumes "list_all tbcd_digit ds" "ds \<noteq> []" "2 * ((length ds + 1) div 2) + 1 \<le> sz"
  shows "\<exists>enc. encode_tbcd_octets ds (length ds) = Returns (length enc, enc) \<and> length enc = (length ds + 1) div 2 \<and>
    decode_tbcd_octets enc (length enc) sz skip_last = Returns ((if skip_last \<and> even (length ds) then butlast ds else ds) @ [0])"
proof (intro exI [of _ "tbcd_octets ds"] conjI)
  show "encode_tbcd_octets ds (length ds) = Returns (length (tbcd_octets ds), tbcd_octets ds)"
    by (simp add: encode_tbcd_octets_def read_bytes_def length_tbcd_octets)
  show "length (tbcd_octets ds) = (length ds + 1) div 2" by (rule length_tbcd_octets)
  show "decode_tbcd_octets (tbcd_octets ds) (length (tbcd_octets ds)) sz skip_last =
    Returns ((if skip_last \<and> even (length ds) then butlast ds else ds) @ [0])"
    using assms(2,3) by (simp add: decode_tbcd_octets_def read_bytes_def length_tbcd_octets tbcd_digits_octets [OF assms(1)] guard_def)
qed

lemma tbcd_roundtrip_witness:
  "(\<exists>enc. encode_tbcd_octets [0x31, 0x2a, 0x33] 3 = Returns (2, enc) \<and> decode_tbcd_octets enc 2 5 True = Returns [0x31, 0x2a, 0x33, 0]) \<and>
   (\<exists>enc. encode_tbcd_octets [0x31, 0x32] 2 = Returns (1, enc) \<and> decode_tbcd_octets enc 1 5 True = Returns [0x31, 0])"
  using tbcd_roundtrip [of "[0x31, 0x2a, 0x33]" 5 True] tbcd_roundtrip [of "[0x31, 0x32]" 5 True] by (auto simp: tbcd_digit_def simp flip: numeral_2_eq_2)

theorem semi_octet_roundtrip: "v \<le> 99 \<Longrightarrow> decode_semi_octet_digit (encode_semi_octet_digit v) = of_nat v"
proof -
  have "\<forall>v \<in> set [0..<100]. decode_semi_octet_digit (encode_semi_octet_digit v) = of_nat v" by code_simp
  then show "v \<le> 99 \<Longrightarrow> decode_semi_octet_digit (encode_semi_octet_digit v) = of_nat v" by simp
qed

end
