(* ===== verification/Spec2Isabelle.thy ===== *)
theory Spec2Isabelle
  imports Spscq Atomics Ring Pools Managers Events Master_Slave Wrr Rules
    Correlation_Map Variant_Map Threads Oid Asn1_Integer Asn1_Store Asn1_Schema Asn1_Output
    M3ua_Properties Sccp_Properties Mtp3_Properties M2ua_Properties Gsm_Properties
begin

text \<open>
  The core of MINK, a C++ framework for SS7 signalling daemons (\<^verbatim>\<open>src/\<close> of the repository).

  \<^bold>\<open>Parts of the program.\<close> The daemons (\<^verbatim>\<open>src/daemons\<close>) are sockets and threads around a common
  core. Threads exchange messages through lock-free queues (\<^verbatim>\<open>spscq/\<close>) whose objects come
  from pools (\<^verbatim>\<open>pool/\<close>), count with atomics (\<^verbatim>\<open>atomic/\<close>), and share the utilities of
  \<^verbatim>\<open>utils/pmink_utils.h\<close>: rate limits, weighted routing, rules, events, waiting
  transactions, and the typed parameters a message is turned into. Messages are decoded and
  built by the ASN.1 engine (\<^verbatim>\<open>asn1/asn1.cpp\<close>), on which the generated MAP and TCAP classes
  rest; below it lie the codecs of the signalling stack, of which M3UA
  (\<^verbatim>\<open>m3ua/m3ua.cpp\<close>), SCCP (\<^verbatim>\<open>sccp/sccp.cpp\<close>), MTP3 (\<^verbatim>\<open>mtp3/mtp3.cpp\<close>) and M2UA
  (\<^verbatim>\<open>m2ua/m2ua.cpp\<close>) are modelled, and the text of short messages (\<^verbatim>\<open>smstpdu/smstpdu.cpp\<close>).

  \<^bold>\<open>Theories.\<close>
  \<^item> \<open>Prelude\<close>: machine types, words, byte order, \<open>ceil_log2\<close>. \<open>Interfaces\<close>: the locales
    \<open>fifo\<close>, \<open>keyed_table\<close>, \<open>allocator\<close>, \<open>round_robin\<close>, \<open>stepping\<close> and \<open>partial_stepping\<close>, with their client
    lemmas; each is interpreted on the operations of the components that provide it. \<open>Outcome\<close>: results of
    pointer code, with undefined behaviour and exhausted fuel as values.
  \<^item> \<open>Spscq\<close>: \<open>lockfree::SpscQ\<close> as a record of its indices and ring; a step is one call.
    Refinement to a bounded FIFO, progress, lock-up of unflushed rings.
  \<^item> \<open>Atomics\<close>, \<open>Ring\<close>, \<open>Pools\<close>: the atomic operations; the ring buffer over a given
    circular buffer; chunk pools and queue pools, ownership of chunks.
  \<^item> \<open>Managers\<close>, \<open>Events\<close>, \<open>Master_Slave\<close>, \<open>Wrr\<close>, \<open>Rules\<close>, \<open>Correlation_Map\<close>: the utility
    classes \<open>FloodManager\<close>, \<open>ListManager\<close>, \<open>EventManager\<close>, \<open>MTMasterSlave\<close>, \<open>WRR\<close>,
    \<open>RuleManager\<close>, \<open>CorrelationMap\<close>. Master and slaves interleave at the level of single
    accesses of locks and counters; the others hold their lock for a whole call.
  \<^item> \<open>Ordered_Map\<close>, \<open>Variant\<close>, \<open>Variant_Map\<close>: \<open>std::map\<close>, the tagged unions and the parameter
    map with its fragments and checksums; a typing invariant kept by every defined call.
  \<^item> \<open>Asn1_Tlv\<close>, \<open>Asn1_Codec\<close>: tags and lengths, both ways, and their round trips.
    \<open>Asn1_Tree\<close>: nodes and TLV nodes in a store, the node pool, the decoder without a
    definition. \<open>Asn1_Decode\<close>, \<open>Asn1_Store\<close>: the decoder against a datatype of BER trees.
    \<open>Asn1_Schema\<close>: the decoder against a definition tree, choices, \<open>combine\<close>. \<open>Asn1_Encode\<close>:
    sessions, linking and unlinking of values with the lengths of all ancestors, \<open>encode\<close>.
    \<open>Asn1_Build\<close>: the invariant of the lengths. \<open>Asn1_Output\<close>: \<open>encode\<close> writes the BER octets
    of the message a built tree stands for.
  \<^item> \<open>Octets\<close>, \<open>Item_Pool\<close>: what the codecs share, numbers in network order and the pools of
    objects as rings, with the budget under which no object is given twice.
  \<^item> \<open>M3ua\<close>: parameters, messages, pools, \<open>encode\<close> and \<open>decode\<close> of the M3UA codec over a store
    of objects. \<open>M3ua_Codec\<close>: \<open>encode\<close> against the wire format. \<open>M3ua_Decode\<close>, \<open>M3ua_Roundtrip\<close>:
    pools as rings, \<open>init\<close> and the loop over parameters. \<open>M3ua_Pools\<close>: \<open>init_pool\<close>, the end of the
    loop. \<open>M3ua_Properties\<close>: what callers rely on.
  \<^item> \<open>Sccp_Params\<close>, \<open>Sccp\<close>: global titles, parameters, the twenty messages as lists of steps, the
    pools and \<open>decode\<close> of the SCCP codec. \<open>Sccp_Codec\<close>, \<open>Sccp_Encode\<close>: what a parameter stands
    for, and \<open>encode\<close> of the messages. \<open>Sccp_Q713\<close>, \<open>Sccp_Long\<close>: the octets of parameters from their
    fields, \<open>encode\<close> against the format of Q.713, and what it writes of long unitdata. \<open>Sccp_Octets\<close>, \<open>Sccp_Decode\<close>, \<open>Sccp_Read\<close>,
    \<open>Sccp_Messages\<close>, \<open>Sccp_Roundtrip\<close>: \<open>init\<close> of parameters, addresses and messages, each step
    keeping the objects handed out before. \<open>Sccp_Pools\<close>, \<open>Sccp_Properties\<close>: \<open>init_pool\<close>, and
    what callers rely on.
  \<^item> \<open>Buffers\<close>: a memory of numbered buffers, for the codecs without pools.
  \<^item> \<open>Mtp3\<close>: the classes, packets and \<open>decode\<close> of the MTP3 codec over numbered buffers.
    \<open>Mtp3_Properties\<close>: round trips of packets and of signalling messages, and which messages
    the code loses.
  \<^item> \<open>M2ua\<close>: parameters, messages, packets and \<open>decode\<close> of the M2UA codec, with objects as values.
    \<open>M2ua_Properties\<close>: the round trip of messages of two parameters, and the endless loop on
    those of three.
  \<^item> \<open>Gsm_Text\<close>: packing and unpacking of septets, the GSM alphabet, digits in halves of octets.
    \<open>Gsm_Bits\<close>: packed and unpacked text as streams of bits. \<open>Gsm_Decoding\<close>: decoding in one
    pass. \<open>Gsm_Properties\<close>: round trips, bounds, and decoding against unpacking.

  \<^bold>\<open>Conventions.\<close> Names are the code's. Machine integers are words, so that wrap-around is the
  word's; C++ strings and buffers are lists; pointers are addresses in an explicit store, or
  the index or key of what they point to. Failures are \<open>None\<close>, a return code, or the outcome
  \<open>Undefined\<close>. The clock, the checksum of boost, hash order and virtual functions are
  parameters.

  \<^bold>\<open>Fuel.\<close> \<open>eoc_loop\<close>, \<open>decode_loop\<close>, \<open>process_params\<close>, \<open>m2ua_process_params\<close> and the walks over node stores take fuel, as the code may
  loop (\<open>asn1_find_eoc\<close> shows an input on which it does) and pointers may form cycles. More
  fuel than TLVs is enough for the decoder (\<open>asn1_decode_bers\<close>); a round per four octets is
  enough for M3UA parameters without zero lengths (\<open>m3ua_decode_ends\<close>); \<open>process_rules\<close> needs
  \<open>loop_max + 2\<close> rounds.

  \<^bold>\<open>Not modelled.\<close> The ANTLR parsers, the classes generated from ASN.1 modules, vendored
  code, the daemons' sockets and threads, the database and packet capture: generated or
  external code and I/O. Left out as well: SMPP, the units of the short message transfer
  protocol around their text, the routing protocol and the configuration tree.
\<close>

end
